(* ===== verification/Prelude.thy ===== *)
theory Prelude
  imports Main "HOL-Library.Word" "HOL-Library.Monad_Syntax"
begin

text \<open>
  Shared vocabulary of the development: the C integer types as words, the return codes of
  \<^verbatim>\<open>qdma_access_errors.h\<close> and of the mailbox handlers, the collections of simplification
  rules the component theories fill, and the generic list and word lemmas they share.

  Conventions.  A C \<^verbatim>\<open>int\<close> that holds a return code is an \<open>int\<close>.  A C integer that takes
  part in address or range arithmetic is a word; a signed one is read with \<open>sint\<close> where the
  code compares it as signed, and takes part in unsigned arithmetic as the word it is, which
  is the usual arithmetic conversion of C.
\<close>

section \<open>C integer types\<close>

type_synonym u8 = "8 word"
type_synonym u16 = "16 word"
type_synonym u32 = "32 word"
type_synonym u64 = "64 word"
type_synonym i32 = "32 word"

section \<open>Collections of rules\<close>

named_theorems field_simps_qdma \<open>rewriting of bit-field extraction from packed words\<close>
named_theorems reg_offsets \<open>addresses of the registers of the device\<close>
named_theorems mbox_defs \<open>definitions of the mailbox message accessors\<close>

section \<open>Return codes\<close>

definition QDMA_SUCCESS :: int where [simp]: "QDMA_SUCCESS = 0"
definition QDMA_ERR_INV_PARAM :: int where [simp]: "QDMA_ERR_INV_PARAM = 1"
definition QDMA_ERR_NO_MEM :: int where [simp]: "QDMA_ERR_NO_MEM = 2"
definition QDMA_ERR_HWACC_BUSY_TIMEOUT :: int where [simp]: "QDMA_ERR_HWACC_BUSY_TIMEOUT = 3"
definition QDMA_ERR_HWACC_FEATURE_NOT_SUPPORTED :: int
  where [simp]: "QDMA_ERR_HWACC_FEATURE_NOT_SUPPORTED = 7"
definition QDMA_ERR_RM_RES_EXISTS :: int where [simp]: "QDMA_ERR_RM_RES_EXISTS = 8"
definition QDMA_ERR_RM_RES_NOT_EXISTS :: int where [simp]: "QDMA_ERR_RM_RES_NOT_EXISTS = 9"
definition QDMA_ERR_RM_DEV_EXISTS :: int where [simp]: "QDMA_ERR_RM_DEV_EXISTS = 10"
definition QDMA_ERR_RM_DEV_NOT_EXISTS :: int where [simp]: "QDMA_ERR_RM_DEV_NOT_EXISTS = 11"
definition QDMA_ERR_RM_NO_QUEUES_LEFT :: int where [simp]: "QDMA_ERR_RM_NO_QUEUES_LEFT = 12"
definition QDMA_ERR_RM_QMAX_CONF_REJECTED :: int
  where [simp]: "QDMA_ERR_RM_QMAX_CONF_REJECTED = 13"
definition QDMA_ERR_MBOX_NUM_QUEUES :: int where [simp]: "QDMA_ERR_MBOX_NUM_QUEUES = 15"
definition QDMA_ERR_MBOX_INV_QID :: int where [simp]: "QDMA_ERR_MBOX_INV_QID = 16"
definition QDMA_ERR_MBOX_INV_RINGSZ :: int where [simp]: "QDMA_ERR_MBOX_INV_RINGSZ = 17"
definition QDMA_ERR_MBOX_INV_BUFSZ :: int where [simp]: "QDMA_ERR_MBOX_INV_BUFSZ = 18"
definition QDMA_ERR_MBOX_INV_CNTR_TH :: int where [simp]: "QDMA_ERR_MBOX_INV_CNTR_TH = 19"
definition QDMA_ERR_MBOX_INV_TMR_TH :: int where [simp]: "QDMA_ERR_MBOX_INV_TMR_TH = 20"
definition QDMA_ERR_MBOX_INV_MSG :: int where [simp]: "QDMA_ERR_MBOX_INV_MSG = 21"
definition QDMA_ERR_MBOX_SEND_BUSY :: int where [simp]: "QDMA_ERR_MBOX_SEND_BUSY = 22"
definition QDMA_ERR_MBOX_NO_MSG_IN :: int where [simp]: "QDMA_ERR_MBOX_NO_MSG_IN = 23"
definition QDMA_ERR_MBOX_REG_READ_FAILED :: int where [simp]: "QDMA_ERR_MBOX_REG_READ_FAILED = 24"
definition QDMA_ERR_MBOX_ALL_ZERO_MSG :: int where [simp]: "QDMA_ERR_MBOX_ALL_ZERO_MSG = 25"

section \<open>Updating and removing the first match of a list\<close>

text \<open>
  The C code finds a list element by a loop that stops at the first match, keeps the pointer
  and writes through it, or unlinks it.  On the list of elements this is an update, or a
  removal, of the first match.
\<close>

fun update_first :: "('a \<Rightarrow> bool) \<Rightarrow> ('a \<Rightarrow> 'a) \<Rightarrow> 'a list \<Rightarrow> 'a list" where
  "update_first P f [] = []"
| "update_first P f (x # xs) = (if P x then f x # xs else x # update_first P f xs)"

fun remove_first :: "('a \<Rightarrow> bool) \<Rightarrow> 'a list \<Rightarrow> 'a list" where
  "remove_first P [] = []"
| "remove_first P (x # xs) = (if P x then xs else x # remove_first P xs)"

lemma find_split:
  assumes "List.find P xs = Some x"
  obtains ys zs where "xs = ys @ x # zs" and "P x" and "\<forall>y \<in> set ys. \<not> P y"
proof -
  have "\<exists>ys zs. xs = ys @ x # zs \<and> P x \<and> (\<forall>y \<in> set ys. \<not> P y)"
    using assms
  proof (induction xs)
    case (Cons a xs)
    show ?case
    proof (cases "P a")
      case True
      with Cons.prems have "a # xs = [] @ x # xs \<and> P x" by simp
      then show ?thesis by (intro exI [of _ "[]"] exI [of _ xs]) simp
    next
      case False
      with Cons obtain ys zs where "xs = ys @ x # zs" "P x" "\<forall>y \<in> set ys. \<not> P y" by auto
      with False show ?thesis by (intro exI [of _ "a # ys"] exI [of _ zs]) simp
    qed
  qed simp
  then show thesis using that by blast
qed

lemma update_first_split:
  "\<lbrakk>P x; \<forall>y \<in> set ys. \<not> P y\<rbrakk> \<Longrightarrow> update_first P f (ys @ x # zs) = ys @ f x # zs"
  by (induction ys) auto

lemma remove_first_split:
  "\<lbrakk>P x; \<forall>y \<in> set ys. \<not> P y\<rbrakk> \<Longrightarrow> remove_first P (ys @ x # zs) = ys @ zs"
  by (induction ys) auto

lemma find_update_first:
  "List.find P xs = Some x \<Longrightarrow> P (f x) \<Longrightarrow> List.find P (update_first P f xs) = Some (f x)"
  by (induction xs) (auto split: if_splits)

lemma find_update_first_other:
  "\<lbrakk>\<And>x. P x \<Longrightarrow> Q (f x) = Q x; \<And>x. P x \<Longrightarrow> \<not> Q x\<rbrakk> \<Longrightarrow>
    List.find Q (update_first P f xs) = List.find Q xs"
  by (induction xs) auto

lemma map_update_first:
  "(\<And>x. P x \<Longrightarrow> g (f x) = g x) \<Longrightarrow> map g (update_first P f xs) = map g xs"
  by (induction xs) auto

lemma set_update_first: "set (update_first P f xs) \<subseteq> set xs \<union> f ` {x \<in> set xs. P x}"
  by (induction xs) auto

section \<open>Words\<close>

lemma unat_plus_bounded:
  fixes a b :: "'a::len word"
  shows "unat a + unat b < 2 ^ LENGTH('a) \<Longrightarrow> unat (a + b) = unat a + unat b"
  by (simp add: unat_word_ariths)

lemma unat_minus_bounded:
  fixes a b :: "'a::len word"
  shows "unat b \<le> unat a \<Longrightarrow> unat (a - b) = unat a - unat b"
  by (simp add: unat_sub word_le_nat_alt)

lemma sint_small:
  fixes a :: "32 word"
  assumes "unat a < 2 ^ 31"
  shows "sint a = int (unat a)"
proof -
  have "sint a = signed_take_bit 31 (uint a)" by (simp add: sint_uint)
  moreover have "signed_take_bit 31 (uint a) = uint a"
  proof (rule signed_take_bit_int_eq_self)
    show "- (2 ^ 31) \<le> uint a" by (rule order_trans [OF _ uint_ge_0]) simp
    have "int (unat a) < int (2 ^ 31)" using assms by (simp only: of_nat_less_iff)
    then show "uint a < 2 ^ 31" by simp
  qed
  ultimately show ?thesis by simp
qed

lemma sint_nonneg_small:
  fixes a :: "32 word"
  assumes "0 \<le> sint a"
  shows "unat a < 2 ^ 31"
proof -
  have "\<not> bit (uint a) 31" using assms by (simp add: sint_uint)
  moreover have "uint a = take_bit (Suc 31) (uint a)"
    using take_bit_int_eq_self [OF uint_ge_0 uint_lt2p [of a]] by simp
  ultimately have "uint a = take_bit 31 (uint a)"
    by (simp only: take_bit_Suc_from_most) simp
  then have "uint a < 2 ^ 31" by (metis take_bit_int_less_exp)
  then have "int (unat a) < int (2 ^ 31)" by simp
  then show ?thesis by (simp only: of_nat_less_iff)
qed

end
