(* ===== verification/QdmaList.thy ===== *)
theory QdmaList
  imports Prelude
begin

text \<open>
  The intrusive circular doubly linked list of \<^verbatim>\<open>qdma_list.c\<close> and \<^verbatim>\<open>qdma_list.h\<close>.

  A node is addressed by a natural number, with 0 for \<^verbatim>\<open>NULL\<close>; the heap maps the addresses
  of live nodes to their contents.  An access through an address that is not live has no
  defined result in C: the operations return \<open>None\<close> for it, and the theorems below show that
  this never happens on a well-formed list.  The abstraction \<open>dll h head xs\<close> says that the
  nodes \<open>xs\<close>, in this order, form the list with head node \<open>head\<close>.
\<close>

section \<open>Nodes and heap\<close>

type_synonym addr = nat

record qdma_list_head =
  prev :: addr
  "next" :: addr
  priv :: addr

type_synonym heap = "addr \<rightharpoonup> qdma_list_head"

definition rd_prev :: "addr \<Rightarrow> heap \<Rightarrow> addr option" where
  "rd_prev p h = map_option prev (h p)"

definition rd_next :: "addr \<Rightarrow> heap \<Rightarrow> addr option" where
  "rd_next p h = map_option next (h p)"

definition wr_prev :: "addr \<Rightarrow> addr \<Rightarrow> heap \<Rightarrow> heap option" where
  "wr_prev p v h = (case h p of None \<Rightarrow> None | Some n \<Rightarrow> Some (h(p \<mapsto> n\<lparr>prev := v\<rparr>)))"

definition wr_next :: "addr \<Rightarrow> addr \<Rightarrow> heap \<Rightarrow> heap option" where
  "wr_next p v h = (case h p of None \<Rightarrow> None | Some n \<Rightarrow> Some (h(p \<mapsto> n\<lparr>next := v\<rparr>)))"

section \<open>The operations of qdma_list.c\<close>

definition qdma_list_init_head :: "addr \<Rightarrow> heap \<Rightarrow> heap option" where
  "qdma_list_init_head head h =
     (if head \<noteq> 0 then do { h \<leftarrow> wr_next head head h; wr_prev head head h } else Some h)"

definition qdma_list_add_tail :: "addr \<Rightarrow> addr \<Rightarrow> heap \<Rightarrow> heap option" where
  "qdma_list_add_tail node head h = do {
     hp \<leftarrow> rd_prev head h;
     h \<leftarrow> wr_next hp node h;
     h \<leftarrow> wr_next node head h;
     hp \<leftarrow> rd_prev head h;
     h \<leftarrow> wr_prev node hp h;
     wr_prev head node h }"

definition qdma_list_insert_before :: "addr \<Rightarrow> addr \<Rightarrow> heap \<Rightarrow> heap option" where
  "qdma_list_insert_before fresh_node node h = do {
     np \<leftarrow> rd_prev node h;
     h \<leftarrow> wr_next np fresh_node h;
     np \<leftarrow> rd_prev node h;
     h \<leftarrow> wr_prev fresh_node np h;
     h \<leftarrow> wr_next fresh_node node h;
     wr_prev node fresh_node h }"

definition qdma_list_insert_after :: "addr \<Rightarrow> addr \<Rightarrow> heap \<Rightarrow> heap option" where
  "qdma_list_insert_after fresh_node node h = do {
     h \<leftarrow> wr_prev fresh_node node h;
     nn \<leftarrow> rd_next node h;
     h \<leftarrow> wr_next fresh_node nn h;
     nn \<leftarrow> rd_next node h;
     h \<leftarrow> wr_prev nn fresh_node h;
     wr_next node fresh_node h }"

definition qdma_list_del :: "addr \<Rightarrow> heap \<Rightarrow> heap option" where
  "qdma_list_del node h =
     (if node \<noteq> 0 then do {
        np \<leftarrow> rd_prev node h;
        h \<leftarrow> (if np \<noteq> 0 then do { nn \<leftarrow> rd_next node h; wr_next np nn h } else Some h);
        nn \<leftarrow> rd_next node h;
        if nn \<noteq> 0 then do { np \<leftarrow> rd_prev node h; wr_prev nn np h } else Some h }
      else Some h)"

definition qdma_list_is_last_entry :: "addr \<Rightarrow> addr \<Rightarrow> heap \<Rightarrow> bool option" where
  "qdma_list_is_last_entry e head h = map_option (\<lambda>n. n = head) (rd_next e h)"

definition qdma_list_is_empty :: "addr \<Rightarrow> heap \<Rightarrow> bool option" where
  "qdma_list_is_empty head h = map_option (\<lambda>n. n = head) (rd_next head h)"

text \<open>
  \<^verbatim>\<open>qdma_list_for_each_safe(pos, n, head)\<close> reads the successor \<open>n\<close> of the current node before
  the body runs.  The body may unlink the current node; \<open>f\<close> is the body as a heap transformer.
  The loop is bounded by fuel; \<open>None\<close> stands for an invalid access or exhausted fuel.
\<close>

fun for_each_safe_loop ::
    "nat \<Rightarrow> (addr \<Rightarrow> heap \<Rightarrow> heap option) \<Rightarrow> addr \<Rightarrow> addr \<Rightarrow> addr \<Rightarrow> heap \<Rightarrow> heap option" where
  "for_each_safe_loop 0 f head pos n h = None"
| "for_each_safe_loop (Suc k) f head pos n h =
     (if pos = head then Some h
      else do { h \<leftarrow> f pos h; n' \<leftarrow> rd_next n h; for_each_safe_loop k f head n n' h })"

definition qdma_list_for_each_safe ::
    "nat \<Rightarrow> (addr \<Rightarrow> heap \<Rightarrow> heap option) \<Rightarrow> addr \<Rightarrow> heap \<Rightarrow> heap option" where
  "qdma_list_for_each_safe k f head h =
     do { pos \<leftarrow> rd_next head h; n \<leftarrow> rd_next pos h; for_each_safe_loop k f head pos n h }"

section \<open>Abstraction to lists of addresses\<close>

definition linked :: "heap \<Rightarrow> addr \<Rightarrow> addr \<Rightarrow> bool" where
  "linked h a b \<longleftrightarrow> rd_next a h = Some b \<and> rd_prev b h = Some a"

fun links :: "heap \<Rightarrow> addr \<Rightarrow> addr list \<Rightarrow> addr \<Rightarrow> bool" where
  "links h a [] b = linked h a b"
| "links h a (x # xs) b = (linked h a x \<and> links h x xs b)"

definition dll :: "heap \<Rightarrow> addr \<Rightarrow> addr list \<Rightarrow> bool" where
  "dll h head xs \<longleftrightarrow> distinct (head # xs) \<and> 0 \<notin> set (head # xs) \<and> links h head xs head"


section \<open>Reads after writes\<close>

lemma rd_upd [simp]:
  "rd_next x (h(p \<mapsto> n)) = (if x = p then Some (next n) else rd_next x h)"
  "rd_prev x (h(p \<mapsto> n)) = (if x = p then Some (prev n) else rd_prev x h)"
  by (simp_all add: rd_next_def rd_prev_def)

lemma rd_dom:
  "rd_next p h = Some a \<Longrightarrow> p \<in> dom h"
  "rd_prev p h = Some a \<Longrightarrow> p \<in> dom h"
  by (auto simp: rd_next_def rd_prev_def)

lemma wr_next_live:
  assumes "p \<in> dom h"
  obtains h' where "wr_next p v h = Some h'"
    and "\<And>x. rd_next x h' = (if x = p then Some v else rd_next x h)"
    and "\<And>x. rd_prev x h' = rd_prev x h" and "dom h' = dom h"
    and "\<And>x. map_option priv (h' x) = map_option priv (h x)"
    and "\<And>x. x \<noteq> p \<Longrightarrow> h' x = h x"
proof -
  from assms obtain n where "h p = Some n" by blast
  then show thesis
    by (intro that [of "h(p \<mapsto> n\<lparr>next := v\<rparr>)"]) (auto simp: wr_next_def rd_prev_def)
qed

lemma wr_prev_live:
  assumes "p \<in> dom h"
  obtains h' where "wr_prev p v h = Some h'"
    and "\<And>x. rd_prev x h' = (if x = p then Some v else rd_prev x h)"
    and "\<And>x. rd_next x h' = rd_next x h" and "dom h' = dom h"
    and "\<And>x. map_option priv (h' x) = map_option priv (h x)"
    and "\<And>x. x \<noteq> p \<Longrightarrow> h' x = h x"
proof -
  from assms obtain n where "h p = Some n" by blast
  then show thesis
    by (intro that [of "h(p \<mapsto> n\<lparr>prev := v\<rparr>)"]) (auto simp: wr_prev_def rd_next_def)
qed

section \<open>Splicing a node in and out\<close>

text \<open>
  \<open>spliced h h' p v q\<close>: the heap \<open>h'\<close> is \<open>h\<close> with node \<open>v\<close> linked between \<open>p\<close> and \<open>q\<close>;
  \<open>unspliced h h' p q\<close>: the heap \<open>h'\<close> is \<open>h\<close> with \<open>p\<close> and \<open>q\<close> linked to each other.
  Both leave the payload of every node, and every node other than those named, as they were.
\<close>

definition spliced :: "heap \<Rightarrow> heap \<Rightarrow> addr \<Rightarrow> addr \<Rightarrow> addr \<Rightarrow> bool" where
  "spliced h h' p v q \<longleftrightarrow>
     (\<forall>x. rd_next x h' = (if x = p then Some v else if x = v then Some q else rd_next x h)) \<and>
     (\<forall>x. rd_prev x h' = (if x = q then Some v else if x = v then Some p else rd_prev x h)) \<and>
     dom h' = dom h \<and> (\<forall>x. map_option priv (h' x) = map_option priv (h x)) \<and>
     (\<forall>x. x \<noteq> p \<and> x \<noteq> v \<and> x \<noteq> q \<longrightarrow> h' x = h x)"

definition unspliced :: "heap \<Rightarrow> heap \<Rightarrow> addr \<Rightarrow> addr \<Rightarrow> bool" where
  "unspliced h h' p q \<longleftrightarrow>
     (\<forall>x. rd_next x h' = (if x = p then Some q else rd_next x h)) \<and>
     (\<forall>x. rd_prev x h' = (if x = q then Some p else rd_prev x h)) \<and>
     dom h' = dom h \<and> (\<forall>x. map_option priv (h' x) = map_option priv (h x)) \<and>
     (\<forall>x. x \<noteq> p \<and> x \<noteq> q \<longrightarrow> h' x = h x)"

lemma links_cong:
  assumes "\<forall>p \<in> set (a # xs). rd_next p h' = rd_next p h"
    and "\<forall>p \<in> set (xs @ [b]). rd_prev p h' = rd_prev p h"
  shows "links h' a xs b = links h a xs b"
  using assms by (induction xs arbitrary: a) (auto simp: linked_def)

lemma links_append: "links h a (xs @ x # ys) b \<longleftrightarrow> links h a xs x \<and> links h x ys b"
  by (induction xs arbitrary: a) auto

lemma links_live:
  assumes "links h a xs b"
  shows "set (a # xs) \<subseteq> dom h" and "b \<in> dom h"
  using assms by (induction xs arbitrary: a) (auto simp: linked_def dest: rd_dom)

lemma links_neighbours:
  assumes "links h a (xs @ ys) b"
  shows "linked h (last (a # xs)) (hd (ys @ [b]))"
  using assms
proof (induction xs arbitrary: a)
  case Nil
  then show ?case by (cases ys) auto
next
  case (Cons x xs)
  then show ?case by fastforce
qed

lemma links_spliced:
  assumes "spliced h h' (last (a # xs)) v (hd (ys @ [b]))" and "links h a (xs @ ys) b"
    and "distinct (xs @ ys)" and "a \<notin> set (xs @ ys)" and "b \<notin> set (xs @ ys)"
    and "v \<notin> set (a # b # xs @ ys)"
  shows "links h' a (xs @ v # ys) b"
  using assms
proof (induction xs arbitrary: a)
  case Nil
  show ?case
  proof (cases ys)
    case Nil
    with Nil.prems show ?thesis by (auto simp: spliced_def linked_def)
  next
    case (Cons y zs)
    with Nil.prems have "links h' y zs b = links h y zs b"
      by (intro links_cong) (auto simp: spliced_def)
    with Cons Nil.prems show ?thesis by (auto simp: spliced_def linked_def)
  qed
next
  case (Cons x xs)
  from Cons.prems have neq: "x \<noteq> hd (ys @ [b])" "a \<noteq> last (x # xs)" "a \<noteq> v" "x \<noteq> v"
    by (cases ys; auto)+
  have "links h' x (xs @ v # ys) b" using Cons.prems by (intro Cons.IH) auto
  moreover have "linked h' a x" using Cons.prems neq by (auto simp: spliced_def linked_def)
  ultimately show ?case by simp
qed

lemma links_unspliced:
  assumes "unspliced h h' (last (a # xs)) (hd (ys @ [b]))" and "links h a (xs @ v # ys) b"
    and "distinct (xs @ v # ys)" and "a \<notin> set (xs @ v # ys)" and "b \<notin> set (xs @ v # ys)"
  shows "links h' a (xs @ ys) b"
  using assms
proof (induction xs arbitrary: a)
  case Nil
  show ?case
  proof (cases ys)
    case Nil
    with Nil.prems show ?thesis by (auto simp: unspliced_def linked_def)
  next
    case (Cons y zs)
    with Nil.prems have "links h' y zs b = links h y zs b"
      by (intro links_cong) (auto simp: unspliced_def)
    with Cons Nil.prems show ?thesis by (auto simp: unspliced_def linked_def)
  qed
next
  case (Cons x xs)
  from Cons.prems have neq: "x \<noteq> hd (ys @ [b])" "a \<noteq> last (x # xs)"
    by (cases ys; auto)+
  have "links h' x (xs @ ys) b" using Cons.prems by (intro Cons.IH) auto
  moreover have "linked h' a x" using Cons.prems neq by (auto simp: unspliced_def linked_def)
  ultimately show ?case by simp
qed

lemma dll_spliced:
  assumes "dll h head (xs @ ys)" and "v \<notin> set (head # xs @ ys)" and "v \<noteq> 0"
    and "spliced h h' (last (head # xs)) v (hd (ys @ [head]))"
  shows "dll h' head (xs @ v # ys)"
  using assms links_spliced [OF assms(4)] by (auto simp: dll_def)

lemma dll_unspliced:
  assumes "dll h head (xs @ v # ys)"
    and "unspliced h h' (last (head # xs)) (hd (ys @ [head]))"
  shows "dll h' head (xs @ ys)"
  using assms links_unspliced [OF assms(2)] by (auto simp: dll_def)

lemma dll_neighbours:
  assumes "dll h head (xs @ ys)"
  shows "linked h (last (head # xs)) (hd (ys @ [head]))"
  by (rule links_neighbours) (use assms in \<open>simp add: dll_def\<close>)

lemma dll_live: "dll h head xs \<Longrightarrow> set (head # xs) \<subseteq> dom h"
  unfolding dll_def using links_live(1) by blast


section \<open>The operations splice\<close>

lemma linked_live: "linked h p q \<Longrightarrow> p \<in> dom h" "linked h p q \<Longrightarrow> q \<in> dom h"
  by (auto simp: linked_def dest: rd_dom)

lemmas heap_step_defs = rd_next_def rd_prev_def wr_next_def wr_prev_def

lemma add_tail_spliced:
  assumes "linked h p head" and "v \<in> dom h" "v \<noteq> p" "v \<noteq> head"
  shows "\<exists>h'. qdma_list_add_tail v head h = Some h' \<and> spliced h h' p v head"
proof -
  from assms(1,2) obtain P V Q where "h p = Some P" "h v = Some V" "h head = Some Q"
      and "next P = head" "prev Q = p"
    by (auto simp: linked_def heap_step_defs)
  with assms(3,4) show ?thesis
    by (cases "p = head") (auto simp: qdma_list_add_tail_def heap_step_defs spliced_def)
qed

lemma insert_before_spliced:
  assumes "linked h p q" and "v \<in> dom h" "v \<noteq> p" "v \<noteq> q"
  shows "\<exists>h'. qdma_list_insert_before v q h = Some h' \<and> spliced h h' p v q"
proof -
  from assms(1,2) obtain P V Q where "h p = Some P" "h v = Some V" "h q = Some Q"
      and "next P = q" "prev Q = p"
    by (auto simp: linked_def heap_step_defs)
  with assms(3,4) show ?thesis
    by (cases "p = q") (auto simp: qdma_list_insert_before_def heap_step_defs spliced_def)
qed

lemma insert_after_spliced:
  assumes "linked h p q" and "v \<in> dom h" "v \<noteq> p" "v \<noteq> q"
  shows "\<exists>h'. qdma_list_insert_after v p h = Some h' \<and> spliced h h' p v q"
proof -
  from assms(1,2) obtain P V Q where "h p = Some P" "h v = Some V" "h q = Some Q"
      and "next P = q" "prev Q = p"
    by (auto simp: linked_def heap_step_defs)
  with assms(3,4) show ?thesis
    by (cases "p = q") (auto simp: qdma_list_insert_after_def heap_step_defs spliced_def)
qed

lemma del_unspliced:
  assumes "linked h p v" "linked h v q" and "v \<noteq> p" "v \<noteq> q" and "p \<noteq> 0" "v \<noteq> 0" "q \<noteq> 0"
  shows "\<exists>h'. qdma_list_del v h = Some h' \<and> unspliced h h' p q"
proof -
  from assms(1,2) obtain P V Q where "h p = Some P" "h v = Some V" "h q = Some Q"
      and "next V = q" "prev V = p"
    by (auto simp: linked_def heap_step_defs)
  with assms(3-) show ?thesis
    by (cases "p = q") (auto simp: qdma_list_del_def heap_step_defs unspliced_def)
qed

section \<open>The list operations on the abstraction\<close>

text \<open>
  Each operation, on a well-formed list, makes no invalid access and has the effect of the
  corresponding operation on the list of nodes.
\<close>

lemma dll_init_head:
  assumes "head \<in> dom h" and "head \<noteq> 0"
  shows "\<exists>h'. qdma_list_init_head head h = Some h' \<and> dll h' head [] \<and>
           (\<forall>x. x \<noteq> head \<longrightarrow> h' x = h x)"
  using assms by (auto simp: qdma_list_init_head_def heap_step_defs dll_def linked_def)

lemma dll_add_tail:
  assumes l: "dll h head xs" and v: "v \<in> dom h" "v \<notin> set (head # xs)" "v \<noteq> 0"
  shows "\<exists>h'. qdma_list_add_tail v head h = Some h' \<and> dll h' head (xs @ [v]) \<and> dom h' = dom h"
proof -
  have l0: "dll h head (xs @ [])" using l by simp
  have n: "linked h (last (head # xs)) head" using dll_neighbours [OF l0] by simp
  have ne: "v \<noteq> last (head # xs)" "v \<noteq> head" using v last_in_set [of "head # xs"] by auto
  from add_tail_spliced [OF n v(1) ne] obtain h' where
    h': "qdma_list_add_tail v head h = Some h'" "spliced h h' (last (head # xs)) v head" by blast
  have "dll h' head (xs @ v # [])"
    by (rule dll_spliced [OF l0]) (use v h' in auto)
  with h' show ?thesis by (auto simp: spliced_def)
qed

lemma dll_insert_before:
  assumes l: "dll h head (xs @ n # ys)" and v: "v \<in> dom h" "v \<notin> set (head # xs @ n # ys)" "v \<noteq> 0"
  shows "\<exists>h'. qdma_list_insert_before v n h = Some h' \<and> dll h' head (xs @ v # n # ys) \<and> dom h' = dom h"
proof -
  have n: "linked h (last (head # xs)) n" using dll_neighbours [OF l] by simp
  have ne: "v \<noteq> last (head # xs)" "v \<noteq> n" using v last_in_set [of "head # xs"] by auto
  from insert_before_spliced [OF n v(1) ne] obtain h' where
    h': "qdma_list_insert_before v n h = Some h'" "spliced h h' (last (head # xs)) v n" by blast
  have "dll h' head (xs @ v # n # ys)"
    by (rule dll_spliced [OF l]) (use v h' in auto)
  with h' show ?thesis by (auto simp: spliced_def)
qed

lemma dll_insert_after:
  assumes l: "dll h head (xs @ n # ys)" and v: "v \<in> dom h" "v \<notin> set (head # xs @ n # ys)" "v \<noteq> 0"
  shows "\<exists>h'. qdma_list_insert_after v n h = Some h' \<and> dll h' head (xs @ n # v # ys) \<and> dom h' = dom h"
proof -
  have l': "dll h head ((xs @ [n]) @ ys)" using l by simp
  have n: "linked h n (hd (ys @ [head]))" using dll_neighbours [OF l'] by simp
  have "hd (ys @ [head]) \<in> set (head # ys)" by (cases ys) auto
  with v have ne: "v \<noteq> n" "v \<noteq> hd (ys @ [head])" by auto
  from insert_after_spliced [OF n v(1) ne] obtain h' where
    h': "qdma_list_insert_after v n h = Some h'" "spliced h h' n v (hd (ys @ [head]))" by blast
  have "dll h' head ((xs @ [n]) @ v # ys)"
    by (rule dll_spliced [OF l']) (use v h' in auto)
  with h' show ?thesis by (auto simp: spliced_def)
qed

lemma dll_del:
  assumes l: "dll h head (xs @ v # ys)"
  shows "\<exists>h'. qdma_list_del v h = Some h' \<and> dll h' head (xs @ ys) \<and> dom h' = dom h"
proof -
  let ?p = "last (head # xs)" and ?q = "hd (ys @ [head])"
  have l': "dll h head ((xs @ [v]) @ ys)" using l by simp
  have pv: "linked h ?p v" using dll_neighbours [OF l] by simp
  have vq: "linked h v ?q" using dll_neighbours [OF l'] by simp
  have "?p \<in> set (head # xs)" using last_in_set [of "head # xs"] by blast
  moreover have "?q \<in> set (head # ys)" by (cases ys) auto
  moreover have "v \<notin> set (head # xs)" "v \<notin> set (head # ys)" "0 \<notin> set (head # xs)"
    "0 \<notin> set (head # ys)" "v \<noteq> 0" using l by (auto simp: dll_def)
  ultimately have "v \<noteq> ?p" "v \<noteq> ?q" "?p \<noteq> 0" "v \<noteq> 0" "?q \<noteq> 0" by metis+
  from del_unspliced [OF pv vq this] obtain h' where
    h': "qdma_list_del v h = Some h'" "unspliced h h' ?p ?q" by blast
  with dll_unspliced [OF l h'(2)] show ?thesis by (auto simp: unspliced_def)
qed

lemma dll_is_empty: "dll h head xs \<Longrightarrow> qdma_list_is_empty head h = Some (xs = [])"
  by (cases xs) (auto simp: dll_def linked_def qdma_list_is_empty_def)

lemma dll_is_last_entry:
  assumes "dll h head (xs @ n # ys)"
  shows "qdma_list_is_last_entry n head h = Some (ys = [])"
proof -
  have l': "dll h head ((xs @ [n]) @ ys)" using assms by simp
  have "linked h n (hd (ys @ [head]))" using dll_neighbours [OF l'] by simp
  then show ?thesis
    using assms by (cases ys) (auto simp: qdma_list_is_last_entry_def linked_def dll_def)
qed


section \<open>The list as an interface\<close>

text \<open>
  What the resource manager relies on: a representation relation, and operations that act on
  the represented list.  The lemmas of the locale are proved once from these laws.
\<close>

locale intrusive_list =
  fixes repr :: "'h \<Rightarrow> addr \<Rightarrow> addr list \<Rightarrow> bool"
    and live :: "'h \<Rightarrow> addr set"
    and add_tail insert_before insert_after :: "addr \<Rightarrow> addr \<Rightarrow> 'h \<Rightarrow> 'h option"
    and del :: "addr \<Rightarrow> 'h \<Rightarrow> 'h option"
  assumes add_tail_law: "\<lbrakk>repr h head xs; v \<in> live h; v \<notin> set (head # xs); v \<noteq> 0\<rbrakk> \<Longrightarrow>
      \<exists>h'. add_tail v head h = Some h' \<and> repr h' head (xs @ [v]) \<and> live h' = live h"
    and insert_before_law: "\<lbrakk>repr h head (xs @ n # ys); v \<in> live h; v \<notin> set (head # xs @ n # ys);
        v \<noteq> 0\<rbrakk> \<Longrightarrow>
      \<exists>h'. insert_before v n h = Some h' \<and> repr h' head (xs @ v # n # ys) \<and> live h' = live h"
    and insert_after_law: "\<lbrakk>repr h head (xs @ n # ys); v \<in> live h; v \<notin> set (head # xs @ n # ys);
        v \<noteq> 0\<rbrakk> \<Longrightarrow>
      \<exists>h'. insert_after v n h = Some h' \<and> repr h' head (xs @ n # v # ys) \<and> live h' = live h"
    and del_law: "repr h head (xs @ v # ys) \<Longrightarrow>
      \<exists>h'. del v h = Some h' \<and> repr h' head (xs @ ys) \<and> live h' = live h"
begin

fun add_all :: "addr list \<Rightarrow> addr \<Rightarrow> 'h \<Rightarrow> 'h option" where
  "add_all [] head h = Some h"
| "add_all (v # vs) head h = do { h \<leftarrow> add_tail v head h; add_all vs head h }"

lemma add_all_repr:
  assumes "repr h head xs" and "set vs \<subseteq> live h" and "distinct vs"
    and "set vs \<inter> set (head # xs) = {}" and "0 \<notin> set vs"
  shows "\<exists>h'. add_all vs head h = Some h' \<and> repr h' head (xs @ vs) \<and> live h' = live h"
  using assms
proof (induction vs arbitrary: h xs)
  case (Cons v vs)
  from Cons.prems obtain h1 where h1: "add_tail v head h = Some h1" "repr h1 head (xs @ [v])"
      "live h1 = live h"
    using add_tail_law [of h head xs v] by auto
  from Cons.prems h1 have "\<exists>h'. add_all vs head h1 = Some h' \<and> repr h' head ((xs @ [v]) @ vs) \<and>
      live h' = live h1"
    by (intro Cons.IH) auto
  with h1 show ?case by simp
qed simp

lemma insert_before_del:
  assumes "repr h head (xs @ n # ys)" and "v \<in> live h" and "v \<notin> set (head # xs @ n # ys)"
    and "v \<noteq> 0"
  shows "\<exists>h1 h2. insert_before v n h = Some h1 \<and> del v h1 = Some h2 \<and> repr h2 head (xs @ n # ys)"
  using insert_before_law [OF assms] del_law [of _ head xs v "n # ys"] by fastforce

lemma insert_after_del:
  assumes "repr h head (xs @ n # ys)" and "v \<in> live h" and "v \<notin> set (head # xs @ n # ys)"
    and "v \<noteq> 0"
  shows "\<exists>h1 h2. insert_after v n h = Some h1 \<and> del v h1 = Some h2 \<and> repr h2 head (xs @ n # ys)"
  using insert_after_law [OF assms] del_law [of _ head "xs @ [n]" v ys] by fastforce

end

interpretation ql: intrusive_list dll dom qdma_list_add_tail qdma_list_insert_before
    qdma_list_insert_after qdma_list_del
  by unfold_locales
    (rule dll_add_tail dll_insert_before dll_insert_after dll_del; assumption)+

section \<open>Draining a list\<close>

text \<open>
  The loop body of \<^verbatim>\<open>qdma_master_resource_destroy\<close> unlinks the current node and frees it.  The
  loop reads the successor before the body, so it never follows a freed node.
\<close>

definition free_list_node :: "addr \<Rightarrow> heap \<Rightarrow> heap option" where
  "free_list_node pos h = do { h \<leftarrow> qdma_list_del pos h; Some (h(pos := None)) }"

lemma dll_frame:
  assumes "\<forall>x \<in> set (head # xs). h' x = h x"
  shows "dll h' head xs = dll h head xs"
proof -
  have "links h' head xs head = links h head xs head"
    using assms by (intro links_cong) (auto simp: rd_next_def rd_prev_def)
  then show ?thesis by (simp add: dll_def)
qed

lemma free_list_node_dll:
  assumes "dll h head (v # xs)"
  shows "\<exists>h'. free_list_node v h = Some h' \<and> dll h' head xs \<and> dom h' = dom h - {v}"
proof -
  from dll_del [of h head "[]" v xs] assms obtain h1
    where h1: "qdma_list_del v h = Some h1" "dll h1 head xs" "dom h1 = dom h" by auto
  have "dll (h1(v := None)) head xs = dll h1 head xs"
    using assms by (intro dll_frame) (auto simp: dll_def)
  with h1 show ?thesis by (auto simp: free_list_node_def)
qed

lemma dll_next: "dll h head xs \<Longrightarrow> rd_next head h = Some (hd (xs @ [head]))"
  using dll_neighbours [of h head "[]" xs] by (simp add: linked_def)

lemma dll_next_hd: "dll h head (x # xs) \<Longrightarrow> rd_next x h = Some (hd (xs @ [head]))"
  using dll_neighbours [of h head "[x]" xs] by (simp add: linked_def)

lemma drain_loop:
  assumes "dll h head xs" and "k = Suc (length xs)" and "pos = hd (xs @ [head])"
    and "rd_next pos h = Some n"
  shows "\<exists>h'. for_each_safe_loop k free_list_node head pos n h = Some h' \<and> dll h' head [] \<and>
           dom h' = dom h - set xs"
  using assms
proof (induction xs arbitrary: h k pos n)
  case Nil
  then show ?case by simp
next
  case (Cons x xs)
  from free_list_node_dll [OF Cons.prems(1)] obtain h1 where
    h1: "free_list_node x h = Some h1" "dll h1 head xs" "dom h1 = dom h - {x}" by blast
  from Cons.prems have n: "n = hd (xs @ [head])" by (simp add: dll_next_hd)
  have "\<exists>n'. rd_next n h1 = Some n'"
    using n dll_next [OF h1(2)] dll_next_hd h1(2) by (cases xs) auto
  then obtain n' where n': "rd_next n h1 = Some n'" ..
  from Cons.IH [OF h1(2) refl n n'] obtain h' where
    "for_each_safe_loop (Suc (length xs)) free_list_node head n n' h1 = Some h'" "dll h' head []"
    "dom h' = dom h1 - set xs" by blast
  moreover have "x \<noteq> head" using Cons.prems(1) by (auto simp: dll_def)
  ultimately show ?case using Cons.prems h1 n' by auto
qed

lemma drain_list:
  assumes "dll h head xs"
  shows "\<exists>h'. qdma_list_for_each_safe (Suc (length xs)) free_list_node head h = Some h' \<and>
           dll h' head [] \<and> dom h' = dom h - set xs"
proof -
  have pos: "rd_next head h = Some (hd (xs @ [head]))" by (rule dll_next [OF assms])
  have "\<exists>n. rd_next (hd (xs @ [head])) h = Some n"
    using assms dll_next dll_next_hd by (cases xs) fastforce+
  then obtain n where n: "rd_next (hd (xs @ [head])) h = Some n" ..
  show ?thesis
    using drain_loop [OF assms refl refl n] by (simp add: qdma_list_for_each_safe_def pos n)
qed

section \<open>Properties of the list\<close>

text \<open>Scripts of list operations, on the heap and on the list it represents.\<close>

datatype list_cmd = Add_tail addr | Insert_before addr addr | Insert_after addr addr | Delete addr

fun cmd_heap :: "addr \<Rightarrow> list_cmd \<Rightarrow> heap \<Rightarrow> heap option" where
  "cmd_heap head (Add_tail v) h = qdma_list_add_tail v head h"
| "cmd_heap head (Insert_before v n) h = qdma_list_insert_before v n h"
| "cmd_heap head (Insert_after v n) h = qdma_list_insert_after v n h"
| "cmd_heap head (Delete v) h = qdma_list_del v h"

fun cmd_list :: "list_cmd \<Rightarrow> addr list \<Rightarrow> addr list" where
  "cmd_list (Add_tail v) xs = xs @ [v]"
| "cmd_list (Insert_before v n) xs = takeWhile (\<lambda>x. x \<noteq> n) xs @ v # dropWhile (\<lambda>x. x \<noteq> n) xs"
| "cmd_list (Insert_after v n) xs = takeWhile (\<lambda>x. x \<noteq> n) xs @ n # v # tl (dropWhile (\<lambda>x. x \<noteq> n) xs)"
| "cmd_list (Delete v) xs = remove1 v xs"

definition fresh_node :: "addr set \<Rightarrow> addr \<Rightarrow> addr \<Rightarrow> addr list \<Rightarrow> bool" where
  "fresh_node live head v xs \<longleftrightarrow> v \<in> live \<and> v \<noteq> head \<and> v \<notin> set xs \<and> v \<noteq> 0"

fun cmd_ok :: "addr set \<Rightarrow> addr \<Rightarrow> list_cmd \<Rightarrow> addr list \<Rightarrow> bool" where
  "cmd_ok live head (Add_tail v) xs \<longleftrightarrow> fresh_node live head v xs"
| "cmd_ok live head (Insert_before v n) xs \<longleftrightarrow> fresh_node live head v xs \<and> n \<in> set xs"
| "cmd_ok live head (Insert_after v n) xs \<longleftrightarrow> fresh_node live head v xs \<and> n \<in> set xs"
| "cmd_ok live head (Delete v) xs \<longleftrightarrow> v \<in> set xs"

fun run_heap :: "addr \<Rightarrow> list_cmd list \<Rightarrow> heap \<Rightarrow> heap option" where
  "run_heap head [] h = Some h"
| "run_heap head (c # cs) h = do { h \<leftarrow> cmd_heap head c h; run_heap head cs h }"

fun script_ok :: "addr set \<Rightarrow> addr \<Rightarrow> list_cmd list \<Rightarrow> addr list \<Rightarrow> bool" where
  "script_ok live head [] xs \<longleftrightarrow> True"
| "script_ok live head (c # cs) xs \<longleftrightarrow> cmd_ok live head c xs \<and> script_ok live head cs (cmd_list c xs)"

lemma split_at:
  assumes "n \<in> set xs"
  obtains ys zs where "xs = ys @ n # zs" and "takeWhile (\<lambda>x. x \<noteq> n) xs = ys"
    and "dropWhile (\<lambda>x. x \<noteq> n) xs = n # zs" and "remove1 n xs = ys @ zs"
proof -
  obtain ys zs where x: "xs = ys @ n # zs" "n \<notin> set ys" using split_list_first [OF assms] by blast
  have "takeWhile (\<lambda>x. x \<noteq> n) xs = ys" unfolding x(1) by (subst takeWhile_append2) (use x(2) in auto)
  moreover have "dropWhile (\<lambda>x. x \<noteq> n) xs = n # zs" unfolding x(1) by (subst dropWhile_append2) (use x(2) in auto)
  moreover have "remove1 n xs = ys @ zs" using x by (simp add: remove1_append)
  ultimately show thesis using x(1) by (intro that)
qed

lemma cmd_refines:
  assumes "dll h head xs" and "cmd_ok (dom h) head c xs"
  shows "\<exists>h'. cmd_heap head c h = Some h' \<and> dll h' head (cmd_list c xs) \<and> dom h' = dom h"
proof (cases c)
  case (Add_tail v)
  then show ?thesis using ql.add_tail_law [OF assms(1), of v] assms(2) by (simp add: fresh_node_def)
next
  case (Insert_before v n)
  with assms(2) have n: "n \<in> set xs" and v: "fresh_node (dom h) head v xs" by simp_all
  from n show ?thesis
  proof (rule split_at)
    fix ys zs assume x: "xs = ys @ n # zs" "takeWhile (\<lambda>x. x \<noteq> n) xs = ys" "dropWhile (\<lambda>x. x \<noteq> n) xs = n # zs"
    show ?thesis
      using ql.insert_before_law [of h head ys n zs v] assms(1) v Insert_before x(2,3) x(1) by (simp add: fresh_node_def)
  qed
next
  case (Insert_after v n)
  with assms(2) have n: "n \<in> set xs" and v: "fresh_node (dom h) head v xs" by simp_all
  from n show ?thesis
  proof (rule split_at)
    fix ys zs assume x: "xs = ys @ n # zs" "takeWhile (\<lambda>x. x \<noteq> n) xs = ys" "dropWhile (\<lambda>x. x \<noteq> n) xs = n # zs"
    show ?thesis
      using ql.insert_after_law [of h head ys n zs v] assms(1) v Insert_after x(2,3) x(1) by (simp add: fresh_node_def)
  qed
next
  case (Delete v)
  with assms(2) have "v \<in> set xs" by simp
  then show ?thesis
  proof (rule split_at)
    fix ys zs assume x: "xs = ys @ v # zs" "remove1 v xs = ys @ zs"
    show ?thesis using ql.del_law [of h head ys v zs] assms(1) Delete x(2) x(1) by simp
  qed
qed

text \<open>C32: The linked list implements the list.  Any script of tail additions, insertions before and
  after a member and deletions, in which new nodes are live and not in the list and the other
  arguments are members, runs on the heap without touching dead memory, and the heap then represents
  the list that the same script gives on lists.\<close>

theorem list_script_refines:
  assumes "dll h head xs" and "script_ok (dom h) head cs xs"
  shows "\<exists>h'. run_heap head cs h = Some h' \<and> dll h' head (fold cmd_list cs xs) \<and> dom h' = dom h"
  using assms
proof (induction cs arbitrary: h xs)
  case (Cons c cs)
  from Cons.prems cmd_refines [of h head xs c] obtain h1 where
    h1: "cmd_heap head c h = Some h1" "dll h1 head (cmd_list c xs)" "dom h1 = dom h" by auto
  from Cons.IH [OF h1(2)] Cons.prems(2) h1 show ?case by simp
qed simp

definition demo_heap :: heap where
  "demo_heap = [1 \<mapsto> \<lparr>prev = 1, next = 1, priv = 0\<rparr>, 2 \<mapsto> \<lparr>prev = 0, next = 0, priv = 0\<rparr>,
     3 \<mapsto> \<lparr>prev = 0, next = 0, priv = 0\<rparr>, 4 \<mapsto> \<lparr>prev = 0, next = 0, priv = 0\<rparr>]"

lemma demo_heap_dll: "dll demo_heap 1 []" "dom demo_heap = {1, 2, 3, 4}"
  by (auto simp: dll_def linked_def demo_heap_def rd_next_def rd_prev_def)

definition demo_script :: "list_cmd list" where
  "demo_script = [Add_tail 2, Insert_before 3 2, Insert_after 4 3, Delete 2]"

theorem list_script_refines_witness:
  "\<exists>h'. run_heap 1 demo_script demo_heap = Some h' \<and> dll h' 1 [3, 4]"
proof -
  have "script_ok (dom demo_heap) 1 demo_script []"
    by (simp add: demo_script_def fresh_node_def demo_heap_dll)
  from list_script_refines [OF demo_heap_dll(1) this] show ?thesis
    by (auto simp: demo_script_def)
qed

text \<open>Draining a list is safe and complete.  The loop that unlinks and frees every node reads
  the successor of a node before the node is freed: on a well-formed list it ends after as many rounds
  as there are nodes, never follows a freed node, frees exactly the nodes of the list and leaves
  an empty list.\<close>

theorem list_drained:
  assumes "dll h head xs"
  shows "\<exists>h'. qdma_list_for_each_safe (Suc (length xs)) free_list_node head h = Some h' \<and>
    dll h' head [] \<and> dom h' = dom h - set xs"
  by (rule drain_list [OF assms])

definition demo_list :: heap where
  "demo_list = [1 \<mapsto> \<lparr>prev = 3, next = 2, priv = 0\<rparr>, 2 \<mapsto> \<lparr>prev = 1, next = 3, priv = 0\<rparr>,
     3 \<mapsto> \<lparr>prev = 2, next = 1, priv = 0\<rparr>]"

theorem list_drained_witness:
  "\<exists>h'. qdma_list_for_each_safe 3 free_list_node 1 demo_list = Some h' \<and> dom h' = {1}"
proof -
  have l: "dll demo_list 1 [2, 3]"
    by (simp add: dll_def linked_def demo_list_def rd_next_def rd_prev_def)
  have "dom demo_list - set [2, 3] = {1}" by (auto simp: demo_list_def)
  with list_drained [OF l] show ?thesis by (simp add: eval_nat_numeral) blast
qed

end
