(* ===== verification/ResourceMgmt.thy ===== *)
theory ResourceMgmt
  imports QdmaList
begin

text \<open>
  The queue resource manager of \<^verbatim>\<open>qdma_resource_mgmt.c\<close>: one master resource per board, which
  owns a range of hardware queue numbers, a list of free chunks of that range, and one entry
  per PCIe function with the chunk that function owns.

  The lists of the C code are HOL lists in list order (the theory QdmaList shows that the
  pointer operations of \<^verbatim>\<open>qdma_list.c\<close> implement the list operations used here).  A pointer to a
  list element is its position in the list, or, where the code has just found the element by
  its key, the first match of that key.  \<^verbatim>\<open>qdma_calloc\<close> is a platform service that may fail: a
  list of booleans gives the outcome of the coming allocations, and allocation succeeds once
  that list is used up.  The resource lock serialises every operation, so an operation is one
  state transformation.
\<close>

section \<open>State\<close>

record qdma_resource_entry =
  re_qbase :: i32
  re_total_q :: u32

record qdma_dev_entry =
  de_func_id :: u16
  active_h2c_qcnt :: u32
  active_c2h_qcnt :: u32
  active_cmpt_qcnt :: u32
  de_entry :: qdma_resource_entry

record qdma_resource_master =
  dma_device_index :: u32
  pci_bus_start :: u32
  pci_bus_end :: u32
  rm_total_q :: u32
  rm_qbase :: i32
  dev_list :: "qdma_dev_entry list"
  free_list :: "qdma_resource_entry list"
  active_qcnt :: u32

type_synonym mem = "bool list"

record rm_state =
  master_resource_list :: "qdma_resource_master list"
  rm_index :: i32
  rm_mem :: mem

definition qdma_calloc :: "mem \<Rightarrow> bool \<times> mem" where
  "qdma_calloc mem = (case mem of [] \<Rightarrow> (True, []) | b # bs \<Rightarrow> (b, bs))"

text \<open>\<^verbatim>\<open>enum qdma_dev_q_type\<close> and \<^verbatim>\<open>enum qdma_dev_q_range\<close>.  The queue type arrives in mailbox
  messages as a 32-bit value, so it is kept as one.\<close>

definition QDMA_DEV_Q_TYPE_H2C :: u32 where [simp]: "QDMA_DEV_Q_TYPE_H2C = 0"
definition QDMA_DEV_Q_TYPE_C2H :: u32 where [simp]: "QDMA_DEV_Q_TYPE_C2H = 1"
definition QDMA_DEV_Q_TYPE_CMPT :: u32 where [simp]: "QDMA_DEV_Q_TYPE_CMPT = 2"

datatype qdma_dev_q_range = QDMA_DEV_Q_IN_RANGE | QDMA_DEV_Q_OUT_OF_RANGE | QDMA_DEV_Q_RANGE_MAX

section \<open>Lookup\<close>

definition qdma_find_master_resource_entry ::
    "u32 \<Rightarrow> u32 \<Rightarrow> rm_state \<Rightarrow> qdma_resource_master option" where
  "qdma_find_master_resource_entry bus_start bus_end st =
     List.find (\<lambda>m. pci_bus_start m = bus_start \<and> pci_bus_end m = bus_end) (master_resource_list st)"

definition qdma_get_master_resource_entry :: "u32 \<Rightarrow> rm_state \<Rightarrow> qdma_resource_master option" where
  "qdma_get_master_resource_entry idx st =
     List.find (\<lambda>m. dma_device_index m = idx) (master_resource_list st)"

definition qdma_get_dev_entry :: "u32 \<Rightarrow> u16 \<Rightarrow> rm_state \<Rightarrow> qdma_dev_entry option" where
  "qdma_get_dev_entry idx fid st =
     (case qdma_get_master_resource_entry idx st of
        None \<Rightarrow> None
      | Some m \<Rightarrow> List.find (\<lambda>d. de_func_id d = fid) (dev_list m))"

text \<open>Writing through the pointers these lookups return.\<close>

definition upd_master ::
    "u32 \<Rightarrow> (qdma_resource_master \<Rightarrow> qdma_resource_master) \<Rightarrow> rm_state \<Rightarrow> rm_state" where
  "upd_master idx f st = st\<lparr>master_resource_list :=
     update_first (\<lambda>m. dma_device_index m = idx) f (master_resource_list st)\<rparr>"

definition set_dev :: "u16 \<Rightarrow> qdma_dev_entry \<Rightarrow> qdma_resource_master \<Rightarrow> qdma_resource_master" where
  "set_dev fid d m = m\<lparr>dev_list := update_first (\<lambda>e. de_func_id e = fid) (\<lambda>_. d) (dev_list m)\<rparr>"

section \<open>The free list\<close>

definition qdma_free_entry_create :: "i32 \<Rightarrow> u32 \<Rightarrow> mem \<Rightarrow> qdma_resource_entry option \<times> mem" where
  "qdma_free_entry_create q_base q_total mem =
     (let (ok, mem') = qdma_calloc mem
      in (if ok then Some \<lparr>re_qbase = q_base, re_total_q = q_total\<rparr> else None, mem'))"

text \<open>The loop that inserts the returned chunk at its place: before the first chunk with a
  larger base, else at the tail.  \<open>None\<close> is the early return on a failed allocation.\<close>

fun submit_insert ::
    "qdma_resource_entry \<Rightarrow> qdma_resource_entry list \<Rightarrow> mem \<Rightarrow>
       qdma_resource_entry list option \<times> mem" where
  "submit_insert d [] mem = (Some [], mem)"
| "submit_insert d (node # rest) mem =
     (if sint (re_qbase node) > sint (re_qbase d) \<or> rest = [] then
        (case qdma_free_entry_create (re_qbase d) (re_total_q d) mem of
           (None, mem') \<Rightarrow> (None, mem')
         | (Some new_node, mem') \<Rightarrow>
             (if sint (re_qbase node) > sint (re_qbase d)
              then (Some (new_node # node # rest), mem')
              else (Some (node # rest @ [new_node]), mem')))
      else
        (case submit_insert d rest mem of
           (None, mem') \<Rightarrow> (None, mem')
         | (Some rest', mem') \<Rightarrow> (Some (node # rest'), mem')))"

text \<open>The de-fragmentation loop; its first argument is \<^verbatim>\<open>streach_node\<close>.\<close>

fun defragment_from ::
    "qdma_resource_entry \<Rightarrow> qdma_resource_entry list \<Rightarrow> qdma_resource_entry list" where
  "defragment_from s [] = [s]"
| "defragment_from s (node # rest) =
     (if re_qbase s + re_total_q s = re_qbase node
      then defragment_from (s\<lparr>re_total_q := re_total_q s + re_total_q node\<rparr>) rest
      else s # defragment_from node rest)"

fun defragment :: "qdma_resource_entry list \<Rightarrow> qdma_resource_entry list" where
  "defragment [] = []"
| "defragment (node # rest) = defragment_from node rest"

definition qdma_submit_to_free_list ::
    "qdma_dev_entry \<Rightarrow> qdma_resource_entry list \<Rightarrow> mem \<Rightarrow>
       qdma_dev_entry \<times> qdma_resource_entry list \<times> mem" where
  "qdma_submit_to_free_list dev free mem =
     (if re_total_q (de_entry dev) = 0 then (dev, free, mem)
      else
        let dev' = dev\<lparr>de_entry := \<lparr>re_qbase = -1, re_total_q = 0\<rparr>\<rparr>
        in if free = [] then
             (case qdma_free_entry_create (re_qbase (de_entry dev)) (re_total_q (de_entry dev)) mem of
                (None, mem') \<Rightarrow> (dev, free, mem')
              | (Some new_node, mem') \<Rightarrow> (dev', defragment [new_node], mem'))
           else
             (case submit_insert (de_entry dev) free mem of
                (None, mem') \<Rightarrow> (dev, free, mem')
              | (Some free', mem') \<Rightarrow> (dev', defragment free', mem')))"

text \<open>The first chunk that contains the requested range.  The bounds are compared in unsigned
  32-bit arithmetic, as the C conversion rules have it.\<close>

fun find_requested :: "u32 \<Rightarrow> i32 \<Rightarrow> qdma_resource_entry list \<Rightarrow> nat option" where
  "find_requested qmax qbase [] = None"
| "find_requested qmax qbase (node # rest) =
     (if sint qbase \<ge> sint (re_qbase node) \<and> re_qbase node + re_total_q node \<ge> qbase + qmax
      then Some 0 else map_option Suc (find_requested qmax qbase rest))"

text \<open>The smallest chunk that is large enough; among equally small ones the last.  \<open>best\<close> is the
  position and size of the best chunk so far, \<open>i\<close> the position of the current one.\<close>

fun find_best_fit ::
    "u32 \<Rightarrow> nat \<Rightarrow> (nat \<times> u32) option \<Rightarrow> qdma_resource_entry list \<Rightarrow> nat option" where
  "find_best_fit qmax i best [] = map_option fst best"
| "find_best_fit qmax i best (node # rest) =
     find_best_fit qmax (Suc i)
       (if re_total_q node \<ge> qmax \<and>
           (case best of None \<Rightarrow> True | Some (_, t) \<Rightarrow> t \<ge> re_total_q node)
        then Some (i, re_total_q node) else best) rest"

text \<open>Splitting the chunk at position \<open>i\<close> so that the requested range is a chunk of its own;
  the result is the position of that chunk.\<close>

definition fragment_free_list ::
    "u32 \<Rightarrow> i32 \<Rightarrow> nat \<Rightarrow> qdma_resource_entry list \<Rightarrow> mem \<Rightarrow>
       nat option \<times> qdma_resource_entry list \<times> mem" where
  "fragment_free_list qmax qbase i free mem =
     (let node = free ! i; before = take i free; after = drop (Suc i) free
      in if qbase = re_qbase node \<and> qmax = re_total_q node then (Some i, free, mem)
         else if qbase = re_qbase node \<and> qmax \<noteq> re_total_q node then
           (let lqbase = re_qbase node + qmax; lqmax = re_total_q node - qmax
            in case qdma_free_entry_create lqbase lqmax mem of
                 (None, mem') \<Rightarrow> (None, free, mem')
               | (Some new_entry, mem') \<Rightarrow>
                   (Some i,
                    before @ node\<lparr>re_total_q := re_total_q node - lqmax\<rparr> # new_entry # after, mem'))
         else if sint qbase > sint (re_qbase node) \<and>
                 qbase + qmax = re_qbase node + re_total_q node then
           (let lqbase = re_qbase node; lqmax = qbase - re_qbase node
            in case qdma_free_entry_create lqbase lqmax mem of
                 (None, mem') \<Rightarrow> (None, free, mem')
               | (Some new_entry, mem') \<Rightarrow>
                   (Some (Suc i),
                    before @ new_entry # \<lparr>re_qbase = qbase, re_total_q = qmax\<rparr> # after, mem'))
         else
           (let lqbase = re_qbase node; lqmax = qbase - re_qbase node
            in case qdma_free_entry_create lqbase lqmax mem of
                 (None, mem') \<Rightarrow> (None, free, mem')
               | (Some new_entry, mem') \<Rightarrow>
                   (let node' = \<lparr>re_qbase = qbase, re_total_q = re_total_q node - lqmax\<rparr>;
                        lqbase' = re_qbase node' + qmax; lqmax' = re_total_q node' - qmax
                    in case qdma_free_entry_create lqbase' lqmax' mem' of
                         (None, mem'') \<Rightarrow> (None, before @ new_entry # node' # after, mem'')
                       | (Some new_entry', mem'') \<Rightarrow>
                           (Some (Suc i),
                            before @ new_entry # node'\<lparr>re_total_q := qmax\<rparr> # new_entry' # after,
                            mem''))))"

definition qdma_get_resource_node ::
    "u32 \<Rightarrow> i32 \<Rightarrow> qdma_resource_entry list \<Rightarrow> mem \<Rightarrow>
       nat option \<times> qdma_resource_entry list \<times> mem" where
  "qdma_get_resource_node qmax qbase free mem =
     (case (if sint qbase \<ge> 0 then find_requested qmax qbase free else None) of
        Some i \<Rightarrow> fragment_free_list qmax qbase i free mem
      | None \<Rightarrow>
          (case find_best_fit qmax 0 None free of
             None \<Rightarrow> (None, free, mem)
           | Some i \<Rightarrow> fragment_free_list qmax (re_qbase (free ! i)) i free mem))"

text \<open>Taking the chunk at position \<open>i\<close> off the free list and giving it to the device.\<close>

definition take_node ::
    "nat \<Rightarrow> qdma_dev_entry \<Rightarrow> qdma_resource_entry list \<Rightarrow>
       qdma_dev_entry \<times> qdma_resource_entry list" where
  "take_node i dev free =
     (dev\<lparr>de_entry := \<lparr>re_qbase = re_qbase (free ! i), re_total_q = re_total_q (free ! i)\<rparr>\<rparr>,
      take i free @ drop (Suc i) free)"

definition qdma_request_q_resource ::
    "qdma_dev_entry \<Rightarrow> u32 \<Rightarrow> i32 \<Rightarrow> qdma_resource_entry list \<Rightarrow> mem \<Rightarrow>
       int \<times> qdma_dev_entry \<times> qdma_resource_entry list \<times> mem" where
  "qdma_request_q_resource dev new_qmax new_qbase free mem =
     (let qmax = re_total_q (de_entry dev); qbase = re_qbase (de_entry dev);
          (dev, free, mem) = qdma_submit_to_free_list dev free mem
      in if new_qmax = 0 then (0, dev, free, mem)
         else
           (case qdma_get_resource_node new_qmax new_qbase free mem of
              (Some i, free, mem) \<Rightarrow>
                (let (dev, free) = take_node i dev free in (QDMA_SUCCESS, dev, free, mem))
            | (None, free, mem) \<Rightarrow>
                (case qdma_get_resource_node qmax qbase free mem of
                   (None, free, mem) \<Rightarrow>
                     (- QDMA_ERR_RM_NO_QUEUES_LEFT,
                      dev\<lparr>de_entry := \<lparr>re_qbase = -1, re_total_q = 0\<rparr>\<rparr>, free, mem)
                 | (Some i, free, mem) \<Rightarrow>
                     (let (dev, free) = take_node i dev free
                      in (- QDMA_ERR_RM_NO_QUEUES_LEFT, dev, free, mem)))))"


section \<open>Operations of the resource manager\<close>

definition qdma_master_resource_create ::
    "u32 \<Rightarrow> u32 \<Rightarrow> i32 \<Rightarrow> u32 \<Rightarrow> rm_state \<Rightarrow> int \<times> u32 \<times> rm_state" where
  "qdma_master_resource_create bus_start bus_end q_base q_total st =
     (case qdma_find_master_resource_entry bus_start bus_end st of
        Some m \<Rightarrow> (- QDMA_ERR_RM_RES_EXISTS, dma_device_index m, st)
      | None \<Rightarrow>
          (let (ok, mem) = qdma_calloc (rm_mem st)
           in if \<not> ok then (- QDMA_ERR_NO_MEM, rm_index st, st\<lparr>rm_mem := mem\<rparr>)
              else let (ok', mem') = qdma_calloc mem
              in if \<not> ok' then (- QDMA_ERR_NO_MEM, rm_index st, st\<lparr>rm_mem := mem'\<rparr>)
              else
                let m = \<lparr>dma_device_index = rm_index st, pci_bus_start = bus_start,
                         pci_bus_end = bus_end, rm_total_q = q_total, rm_qbase = q_base,
                         dev_list = [],
                         free_list = [\<lparr>re_qbase = q_base, re_total_q = q_total\<rparr>],
                         active_qcnt = 0\<rparr>
                in (QDMA_SUCCESS, rm_index st,
                    st\<lparr>master_resource_list := master_resource_list st @ [m],
                       rm_index := rm_index st + 1, rm_mem := mem'\<rparr>)))"

definition qdma_master_resource_destroy :: "u32 \<Rightarrow> rm_state \<Rightarrow> rm_state" where
  "qdma_master_resource_destroy idx st =
     (case qdma_get_master_resource_entry idx st of
        None \<Rightarrow> st
      | Some m \<Rightarrow>
          if dev_list m \<noteq> [] then st
          else st\<lparr>master_resource_list :=
                 remove_first (\<lambda>m. dma_device_index m = idx) (master_resource_list st)\<rparr>)"

definition qdma_dev_entry_create :: "u32 \<Rightarrow> u16 \<Rightarrow> rm_state \<Rightarrow> int \<times> rm_state" where
  "qdma_dev_entry_create idx fid st =
     (case qdma_get_master_resource_entry idx st of
        None \<Rightarrow> (- QDMA_ERR_RM_RES_NOT_EXISTS, st)
      | Some m \<Rightarrow>
          (case qdma_get_dev_entry idx fid st of
             Some _ \<Rightarrow> (- QDMA_ERR_RM_DEV_EXISTS, st)
           | None \<Rightarrow>
               (let (ok, mem) = qdma_calloc (rm_mem st); st = st\<lparr>rm_mem := mem\<rparr>
                in if \<not> ok then (- QDMA_ERR_NO_MEM, st)
                   else
                     let d = \<lparr>de_func_id = fid, active_h2c_qcnt = 0, active_c2h_qcnt = 0,
                              active_cmpt_qcnt = 0,
                              de_entry = \<lparr>re_qbase = -1, re_total_q = 0\<rparr>\<rparr>
                     in (QDMA_SUCCESS,
                         upd_master idx (\<lambda>m. m\<lparr>dev_list := dev_list m @ [d]\<rparr>) st))))"

definition qdma_dev_entry_destroy :: "u32 \<Rightarrow> u16 \<Rightarrow> rm_state \<Rightarrow> rm_state" where
  "qdma_dev_entry_destroy idx fid st =
     (case qdma_get_master_resource_entry idx st of
        None \<Rightarrow> st
      | Some m \<Rightarrow>
          (case qdma_get_dev_entry idx fid st of
             None \<Rightarrow> st
           | Some dev \<Rightarrow>
               (let (dev', free, mem) = qdma_submit_to_free_list dev (free_list m) (rm_mem st)
                in upd_master idx
                     (\<lambda>m. m\<lparr>dev_list := remove_first (\<lambda>d. de_func_id d = fid) (dev_list m),
                            free_list := free\<rparr>)
                     (st\<lparr>rm_mem := mem\<rparr>))))"

text \<open>\<^verbatim>\<open>qdma_dev_update\<close> reads the wanted base through its pointer argument and writes the granted
  base back: the second component of the result, which is the argument where the function
  returns early.\<close>

definition qdma_dev_update ::
    "u32 \<Rightarrow> u16 \<Rightarrow> u32 \<Rightarrow> i32 \<Rightarrow> rm_state \<Rightarrow> int \<times> i32 \<times> rm_state" where
  "qdma_dev_update idx fid qmax qbase st =
     (case qdma_get_master_resource_entry idx st of
        None \<Rightarrow> (- QDMA_ERR_RM_RES_NOT_EXISTS, qbase, st)
      | Some m \<Rightarrow>
          (case qdma_get_dev_entry idx fid st of
             None \<Rightarrow> (- QDMA_ERR_RM_DEV_NOT_EXISTS, qbase, st)
           | Some dev \<Rightarrow>
               if active_h2c_qcnt dev \<noteq> 0 \<or> active_c2h_qcnt dev \<noteq> 0 \<or> active_cmpt_qcnt dev \<noteq> 0
               then (- QDMA_ERR_RM_QMAX_CONF_REJECTED, qbase, st)
               else
                 (let (rv, dev', free, mem) =
                        qdma_request_q_resource dev qmax qbase (free_list m) (rm_mem st)
                  in (rv, re_qbase (de_entry dev'),
                      upd_master idx (\<lambda>m. (set_dev fid dev' m)\<lparr>free_list := free\<rparr>)
                        (st\<lparr>rm_mem := mem\<rparr>)))))"

text \<open>\<^verbatim>\<open>qdma_dev_qinfo_get\<close> writes base and count through its pointer arguments on success only.\<close>

definition qdma_dev_qinfo_get :: "u32 \<Rightarrow> u16 \<Rightarrow> rm_state \<Rightarrow> int \<times> (i32 \<times> u32) option" where
  "qdma_dev_qinfo_get idx fid st =
     (case qdma_get_master_resource_entry idx st of
        None \<Rightarrow> (- QDMA_ERR_RM_RES_NOT_EXISTS, None)
      | Some m \<Rightarrow>
          (case qdma_get_dev_entry idx fid st of
             None \<Rightarrow> (- QDMA_ERR_RM_DEV_NOT_EXISTS, None)
           | Some dev \<Rightarrow>
               (QDMA_SUCCESS, Some (re_qbase (de_entry dev), re_total_q (de_entry dev)))))"

definition entry_in_range :: "qdma_resource_entry \<Rightarrow> u32 \<Rightarrow> bool" where
  "entry_in_range e qid_hw \<longleftrightarrow>
     re_total_q e \<noteq> 0 \<and> qid_hw < re_qbase e + re_total_q e \<and> sint qid_hw \<ge> sint (re_qbase e)"

definition qdma_dev_is_queue_in_range :: "u32 \<Rightarrow> u16 \<Rightarrow> u32 \<Rightarrow> rm_state \<Rightarrow> qdma_dev_q_range" where
  "qdma_dev_is_queue_in_range idx fid qid_hw st =
     (case qdma_get_master_resource_entry idx st of
        None \<Rightarrow> QDMA_DEV_Q_OUT_OF_RANGE
      | Some m \<Rightarrow>
          (case qdma_get_dev_entry idx fid st of
             None \<Rightarrow> QDMA_DEV_Q_OUT_OF_RANGE
           | Some dev \<Rightarrow>
               if entry_in_range (de_entry dev) qid_hw
               then QDMA_DEV_Q_IN_RANGE else QDMA_DEV_Q_OUT_OF_RANGE))"

text \<open>The counter that a queue type selects, and writing it; other types select none.\<close>

definition q_counter :: "u32 \<Rightarrow> qdma_dev_entry \<Rightarrow> u32 option" where
  "q_counter q_type d =
     (if q_type = QDMA_DEV_Q_TYPE_H2C then Some (active_h2c_qcnt d)
      else if q_type = QDMA_DEV_Q_TYPE_C2H then Some (active_c2h_qcnt d)
      else if q_type = QDMA_DEV_Q_TYPE_CMPT then Some (active_cmpt_qcnt d)
      else None)"

definition set_q_counter :: "u32 \<Rightarrow> u32 \<Rightarrow> qdma_dev_entry \<Rightarrow> qdma_dev_entry" where
  "set_q_counter q_type v d =
     (if q_type = QDMA_DEV_Q_TYPE_H2C then d\<lparr>active_h2c_qcnt := v\<rparr>
      else if q_type = QDMA_DEV_Q_TYPE_C2H then d\<lparr>active_c2h_qcnt := v\<rparr>
      else if q_type = QDMA_DEV_Q_TYPE_CMPT then d\<lparr>active_cmpt_qcnt := v\<rparr>
      else d)"

definition qdma_dev_increment_active_queue :: "u32 \<Rightarrow> u16 \<Rightarrow> u32 \<Rightarrow> rm_state \<Rightarrow> int \<times> rm_state" where
  "qdma_dev_increment_active_queue idx fid q_type st =
     (case qdma_get_master_resource_entry idx st of
        None \<Rightarrow> (- QDMA_ERR_RM_RES_NOT_EXISTS, st)
      | Some m \<Rightarrow>
          (case qdma_get_dev_entry idx fid st of
             None \<Rightarrow> (- QDMA_ERR_RM_DEV_NOT_EXISTS, st)
           | Some dev \<Rightarrow>
               (case q_counter q_type dev of
                  None \<Rightarrow> (- QDMA_ERR_RM_DEV_NOT_EXISTS, st)
                | Some cnt \<Rightarrow>
                    if re_total_q (de_entry dev) < cnt + 1 then (- QDMA_ERR_RM_NO_QUEUES_LEFT, st)
                    else (QDMA_SUCCESS,
                          upd_master idx
                            (\<lambda>m. (set_dev fid (set_q_counter q_type (cnt + 1) dev) m)
                                   \<lparr>active_qcnt := active_qcnt m + 1\<rparr>) st))))"

definition qdma_dev_decrement_active_queue :: "u32 \<Rightarrow> u16 \<Rightarrow> u32 \<Rightarrow> rm_state \<Rightarrow> int \<times> rm_state" where
  "qdma_dev_decrement_active_queue idx fid q_type st =
     (case qdma_get_master_resource_entry idx st of
        None \<Rightarrow> (- QDMA_ERR_RM_RES_NOT_EXISTS, st)
      | Some m \<Rightarrow>
          (case qdma_get_dev_entry idx fid st of
             None \<Rightarrow> (- QDMA_ERR_RM_DEV_NOT_EXISTS, st)
           | Some dev \<Rightarrow>
               (let (rv, dev') =
                  (case q_counter q_type dev of
                     None \<Rightarrow> (- QDMA_ERR_RM_DEV_NOT_EXISTS, dev)
                   | Some cnt \<Rightarrow>
                       (QDMA_SUCCESS, if cnt \<noteq> 0 then set_q_counter q_type (cnt - 1) dev else dev))
                in (rv, upd_master idx
                          (\<lambda>m. (set_dev fid dev' m)\<lparr>active_qcnt := active_qcnt m - 1\<rparr>) st))))"

definition qdma_get_active_queue_count :: "u32 \<Rightarrow> rm_state \<Rightarrow> u32" where
  "qdma_get_active_queue_count idx st =
     (case qdma_get_master_resource_entry idx st of None \<Rightarrow> 0 | Some m \<Rightarrow> active_qcnt m)"

definition qdma_get_device_active_queue_count :: "u32 \<Rightarrow> u16 \<Rightarrow> u32 \<Rightarrow> rm_state \<Rightarrow> int" where
  "qdma_get_device_active_queue_count idx fid q_type st =
     (case qdma_get_master_resource_entry idx st of
        None \<Rightarrow> - QDMA_ERR_RM_RES_NOT_EXISTS
      | Some m \<Rightarrow>
          (case qdma_get_dev_entry idx fid st of
             None \<Rightarrow> - QDMA_ERR_RM_DEV_NOT_EXISTS
           | Some dev \<Rightarrow> sint (case q_counter q_type dev of None \<Rightarrow> 0 | Some cnt \<Rightarrow> cnt)))"

end
