(* ===== verification/ResourceInv.thy ===== *)
theory ResourceInv
  imports ResourceMgmt
begin

text \<open>
  The invariant of the resource manager and its preservation by every operation.

  A chunk stands for a set of hardware queue numbers.  The free list of a master resource is
  well formed when its chunks are non-empty, lie in the range of the master and come in
  increasing order without overlap.  The invariant of a master adds that the chunks owned by
  its functions are disjoint from each other and from the free chunks.  It holds whatever
  allocations fail; conservation of the queues (nothing is lost) holds while allocations
  succeed.
\<close>

section \<open>Chunks as sets of queue numbers\<close>

definition c_start :: "qdma_resource_entry \<Rightarrow> nat" where
  "c_start e = unat (re_qbase e)"

definition c_end :: "qdma_resource_entry \<Rightarrow> nat" where
  "c_end e = unat (re_qbase e) + unat (re_total_q e)"

definition queues :: "qdma_resource_entry \<Rightarrow> nat set" where
  "queues e = {c_start e ..< c_end e}"

definition all_queues :: "qdma_resource_entry list \<Rightarrow> nat set" where
  "all_queues es = (\<Union>e \<in> set es. queues e)"

definition chunk_ok :: "nat \<Rightarrow> nat \<Rightarrow> qdma_resource_entry \<Rightarrow> bool" where
  "chunk_ok lo hi e \<longleftrightarrow> re_total_q e \<noteq> 0 \<and> lo \<le> c_start e \<and> c_end e \<le> hi"

definition dev_chunk_ok :: "nat \<Rightarrow> nat \<Rightarrow> qdma_resource_entry \<Rightarrow> bool" where
  "dev_chunk_ok lo hi e \<longleftrightarrow> re_total_q e = 0 \<or> chunk_ok lo hi e"

definition free_ok :: "nat \<Rightarrow> nat \<Rightarrow> qdma_resource_entry list \<Rightarrow> bool" where
  "free_ok lo hi es \<longleftrightarrow>
     (\<forall>e \<in> set es. chunk_ok lo hi e) \<and> sorted_wrt (\<lambda>a b. c_end a \<le> c_start b) es"

lemma all_queues_simps [simp]:
  "all_queues [] = {}"
  "all_queues (e # es) = queues e \<union> all_queues es"
  "all_queues (es @ fs) = all_queues es \<union> all_queues fs"
  by (auto simp: all_queues_def)

lemma queues_empty_iff: "queues e = {} \<longleftrightarrow> re_total_q e = 0"
  by (auto simp: queues_def c_start_def c_end_def unat_eq_0)

lemma queues_empty [simp]: "re_total_q e = 0 \<Longrightarrow> queues e = {}"
  by (simp add: queues_empty_iff)

lemma chunk_nonempty: "chunk_ok lo hi e \<Longrightarrow> c_start e < c_end e"
  by (simp add: chunk_ok_def c_start_def c_end_def unat_gt_0)

lemma chunk_disjoint:
  assumes "c_start a < c_end a" and "c_start b < c_end b" and "queues a \<inter> queues b = {}"
  shows "c_end a \<le> c_start b \<or> c_end b \<le> c_start a"
  using assms by (auto simp: queues_def ivl_disj_int)

lemma disjoint_before:
  assumes "c_end a \<le> c_start b"
  shows "queues a \<inter> queues b = {}"
  using assms by (auto simp: queues_def)

lemma c_simps [simp]:
  "c_start \<lparr>re_qbase = b, re_total_q = t\<rparr> = unat b"
  "c_end \<lparr>re_qbase = b, re_total_q = t\<rparr> = unat b + unat t"
  by (simp_all add: c_start_def c_end_def)

lemma signed_compare:
  fixes a b :: "32 word"
  assumes "unat a < 2 ^ 31" and "unat b < 2 ^ 31"
  shows "sint a < sint b \<longleftrightarrow> unat a < unat b" and "sint a \<le> sint b \<longleftrightarrow> unat a \<le> unat b"
  by (simp_all only: sint_small [OF assms(1)] sint_small [OF assms(2)] of_nat_less_iff of_nat_le_iff)

lemma free_ok_Cons:
  "free_ok lo hi (e # es) \<longleftrightarrow>
     chunk_ok lo hi e \<and> free_ok lo hi es \<and> (\<forall>f \<in> set es. c_end e \<le> c_start f)"
  by (auto simp: free_ok_def)

lemma free_ok_append:
  "free_ok lo hi (es @ fs) \<longleftrightarrow>
     free_ok lo hi es \<and> free_ok lo hi fs \<and> (\<forall>e \<in> set es. \<forall>f \<in> set fs. c_end e \<le> c_start f)"
  by (auto simp: free_ok_def sorted_wrt_append)

lemma free_ok_Nil [simp]: "free_ok lo hi []"
  by (simp add: free_ok_def)

lemma free_ok_within: "free_ok lo hi es \<Longrightarrow> all_queues es \<subseteq> {lo ..< hi}"
  by (fastforce simp: free_ok_def all_queues_def chunk_ok_def queues_def)

text \<open>Replacing a chunk by a sorted sequence of chunks inside it keeps the list well formed.\<close>

lemma free_ok_replace:
  assumes "free_ok lo hi (before @ node # after)"
    and "sorted_wrt (\<lambda>a b. c_end a \<le> c_start b) xs"
    and "\<forall>e \<in> set xs. re_total_q e \<noteq> 0 \<and> c_start node \<le> c_start e \<and> c_end e \<le> c_end node"
  shows "free_ok lo hi (before @ xs @ after)"
  using assms unfolding free_ok_def
  by (fastforce simp: sorted_wrt_append chunk_ok_def)

section \<open>Returning a chunk to the free list\<close>

lemma free_entry_create:
  "qdma_free_entry_create b t mem =
     (if fst (qdma_calloc mem) then Some \<lparr>re_qbase = b, re_total_q = t\<rparr> else None,
      snd (qdma_calloc mem))"
  by (simp add: qdma_free_entry_create_def split: prod.splits)

lemma submit_insert_result:
  assumes "free_ok lo hi es" and "hi < 2 ^ 31" and "chunk_ok lo hi d"
    and "queues d \<inter> all_queues es = {}" and "es \<noteq> []"
    and "submit_insert d es mem = (Some es', mem')"
  shows "free_ok lo hi es'" and "all_queues es' = queues d \<union> all_queues es"
proof -
  have "free_ok lo hi es' \<and> all_queues es' = queues d \<union> all_queues es \<and> set es' = insert d (set es)"
    using assms
  proof (induction es arbitrary: es')
    case (Cons node rest)
    have d: "\<lparr>re_qbase = re_qbase d, re_total_q = re_total_q d\<rparr> = d" by (cases d) simp
    note node = chunk_nonempty [of lo hi node] and dd = chunk_nonempty [OF Cons.prems(3)]
    have ok: "chunk_ok lo hi node" "free_ok lo hi rest" "\<forall>f \<in> set rest. c_end node \<le> c_start f"
      using Cons.prems(1) by (auto simp: free_ok_Cons)
    have sep: "c_end node \<le> c_start d \<or> c_end d \<le> c_start node"
      using chunk_disjoint [OF node [OF ok(1)] dd] Cons.prems(4) by auto
    have gt: "sint (re_qbase node) > sint (re_qbase d) \<longleftrightarrow> c_start node > c_start d"
      using ok(1) Cons.prems(2,3) node [OF ok(1)] dd
      by (simp add: chunk_ok_def c_start_def signed_compare)
    show ?case
    proof (cases "c_start node > c_start d")
      case True
      with sep node [OF ok(1)] dd have "c_end d \<le> c_start node" by linarith
      moreover have "es' = d # node # rest"
        using Cons.prems(6) True gt d by (auto simp: free_entry_create split: if_splits)
      ultimately show ?thesis
        using ok Cons.prems(3) node [OF ok(1)] by (auto simp: free_ok_Cons)
    next
      case False
      with sep node [OF ok(1)] dd have nd: "c_end node \<le> c_start d" by linarith
      show ?thesis
      proof (cases "rest = []")
        case True
        with False gt Cons.prems(6) d have "es' = [node, d]"
          by (auto simp: free_entry_create split: if_splits)
        with nd ok Cons.prems(3) True show ?thesis by (auto simp: free_ok_Cons)
      next
        case nonempty: False
        with False gt Cons.prems(6) obtain rest' where
          r: "submit_insert d rest mem = (Some rest', mem')" "es' = node # rest'"
          by (auto split: prod.splits option.splits)
        from Cons.IH [OF ok(2) Cons.prems(2,3) _ nonempty r(1)] Cons.prems(4)
        have "free_ok lo hi rest' \<and> all_queues rest' = queues d \<union> all_queues rest \<and>
            set rest' = insert d (set rest)" by auto
        with r(2) nd ok show ?thesis by (auto simp: free_ok_Cons)
      qed
    qed
  qed simp
  then show "free_ok lo hi es'" and "all_queues es' = queues d \<union> all_queues es" by auto
qed


lemma submit_insert_nomem:
  assumes "submit_insert d es mem = (None, mem')"
  shows "False \<in> set mem"
  using assms
  by (induction es) (auto simp: free_entry_create qdma_calloc_def
      split: if_splits list.splits prod.splits option.splits)

lemma defragment_from_ok:
  assumes "free_ok lo hi (s # es)" and "hi < 2 ^ 31"
  shows "free_ok lo hi (defragment_from s es) \<and>
    all_queues (defragment_from s es) = queues s \<union> all_queues es \<and>
    sorted_wrt (\<lambda>a b. c_end a < c_start b) (defragment_from s es) \<and>
    (\<exists>r rs. defragment_from s es = r # rs \<and> re_qbase r = re_qbase s)"
  using assms
proof (induction es arbitrary: s)
  case (Cons node rest)
  have ok: "chunk_ok lo hi s" "chunk_ok lo hi node" "free_ok lo hi rest"
      "c_end s \<le> c_start node" "\<forall>f \<in> set rest. c_end node \<le> c_start f"
    using Cons.prems(1) by (auto simp: free_ok_Cons)
  have sum: "unat (re_qbase s + re_total_q s) = c_end s"
    using ok(1) Cons.prems(2) by (simp add: chunk_ok_def c_end_def unat_plus_bounded)
  show ?case
  proof (cases "re_qbase s + re_total_q s = re_qbase node")
    case True
    then have adj: "c_end s = c_start node" using sum by (simp add: c_start_def)
    define s' where "s' = s\<lparr>re_total_q := re_total_q s + re_total_q node\<rparr>"
    have bound: "unat (re_total_q s) + unat (re_total_q node) < 2 ^ 32"
      using ok(1,2) adj Cons.prems(2) by (auto simp: chunk_ok_def c_end_def c_start_def)
    then have tot: "unat (re_total_q s') = unat (re_total_q s) + unat (re_total_q node)"
      by (simp add: s'_def unat_plus_bounded)
    have s': "c_start s' = c_start s" "c_end s' = c_end node"
      using tot adj by (simp_all add: s'_def c_start_def c_end_def)
    have "re_total_q s' \<noteq> 0"
    proof
      assume "re_total_q s' = 0"
      with tot have "unat (re_total_q s) = 0" by simp
      with ok(1) show False by (simp add: chunk_ok_def unat_eq_0)
    qed
    then have "chunk_ok lo hi s'" using ok(1,2) s' by (simp add: chunk_ok_def)
    then have "free_ok lo hi (s' # rest)" using ok s' by (simp add: free_ok_Cons)
    note IH = Cons.IH [OF this Cons.prems(2)]
    have "queues s' = queues s \<union> queues node"
      using s' adj chunk_nonempty [OF ok(1)] chunk_nonempty [OF ok(2)] by (auto simp: queues_def)
    with IH True show ?thesis by (auto simp: s'_def)
  next
    case False
    have lt: "c_end s < c_start node"
    proof (rule ccontr)
      assume "\<not> c_end s < c_start node"
      with ok(4) have "unat (re_qbase s + re_total_q s) = unat (re_qbase node)"
        using sum by (simp add: c_start_def)
      then have "re_qbase s + re_total_q s = re_qbase node" using word_unat_eq_iff by blast
      with False show False by simp
    qed
    have nf: "free_ok lo hi (node # rest)" using ok by (simp add: free_ok_Cons)
    from Cons.IH [OF nf Cons.prems(2)] obtain r rs where
      r: "defragment_from node rest = r # rs" "re_qbase r = re_qbase node"
        "free_ok lo hi (r # rs)" "sorted_wrt (\<lambda>a b. c_end a < c_start b) (r # rs)"
        "all_queues (r # rs) = queues node \<union> all_queues rest"
      by auto
    have st: "c_start r = c_start node" using r(2) by (simp add: c_start_def)
    have "\<forall>f \<in> set (r # rs). c_end s < c_start f"
    proof
      fix f assume "f \<in> set (r # rs)"
      moreover have "c_start r < c_end r" using r(3) by (auto simp: free_ok_Cons chunk_nonempty)
      ultimately have "c_start r \<le> c_start f" using r(4) by auto
      with lt st show "c_end s < c_start f" by simp
    qed
    with r ok False show ?thesis by (auto simp: free_ok_Cons order_less_imp_le)
  qed
qed (auto simp: free_ok_Cons)

lemma defragment_ok:
  assumes "free_ok lo hi es" and "hi < 2 ^ 31"
  shows "free_ok lo hi (defragment es)" and "all_queues (defragment es) = all_queues es"
    and "sorted_wrt (\<lambda>a b. c_end a < c_start b) (defragment es)"
  using assms defragment_from_ok by (cases es; force)+


lemma calloc_mem: "set (snd (qdma_calloc mem)) \<subseteq> set mem"
  by (auto simp: qdma_calloc_def split: list.splits)

lemma calloc_fails: "\<not> fst (qdma_calloc mem) \<Longrightarrow> False \<in> set mem"
  by (auto simp: qdma_calloc_def split: list.splits)

lemma submit_insert_mem:
  "submit_insert d es mem = (r, mem') \<Longrightarrow> set mem' \<subseteq> set mem"
proof (induction es arbitrary: r)
  case (Cons e es)
  then show ?case
    using calloc_mem by (fastforce simp: free_entry_create split: if_splits prod.splits option.splits)
qed simp

text \<open>
  The outcome of returning the chunk of a device: either the chunk is now free, the list is
  well formed and coalesced and the device owns nothing, or an allocation failed and nothing
  changed.
\<close>

lemma submit_to_free_list_cases:
  assumes "free_ok lo hi free" and "hi < 2 ^ 31"
    and "dev_chunk_ok lo hi (de_entry dev)"
    and "queues (de_entry dev) \<inter> all_queues free = {}"
    and "qdma_submit_to_free_list dev free mem = (dev', free', mem')"
  obtains
    (kept) "dev' = dev" "free' = free" "False \<in> set mem \<or> re_total_q (de_entry dev) = 0"
      "set mem' \<subseteq> set mem"
  | (freed) "dev' = dev\<lparr>de_entry := \<lparr>re_qbase = -1, re_total_q = 0\<rparr>\<rparr>"
      "free_ok lo hi free'" "all_queues free' = queues (de_entry dev) \<union> all_queues free"
      "sorted_wrt (\<lambda>a b. c_end a < c_start b) free'" "set mem' \<subseteq> set mem"
proof (cases "re_total_q (de_entry dev) = 0")
  case True
  with assms(5) show thesis by (intro kept) (auto simp: qdma_submit_to_free_list_def)
next
  case False
  then have d: "chunk_ok lo hi (de_entry dev)" using assms(3) by (simp add: dev_chunk_ok_def)
  have eta: "\<lparr>re_qbase = re_qbase (de_entry dev), re_total_q = re_total_q (de_entry dev)\<rparr>
      = de_entry dev" by (cases "de_entry dev") simp
  show thesis
  proof (cases "free = []")
    case True
    show thesis
    proof (cases "fst (qdma_calloc mem)")
      case ok: True
      have "dev' = dev\<lparr>de_entry := \<lparr>re_qbase = -1, re_total_q = 0\<rparr>\<rparr>" "free' = [de_entry dev]"
        "mem' = snd (qdma_calloc mem)"
        using assms(5) False True ok eta
        by (auto simp: qdma_submit_to_free_list_def free_entry_create)
      then show thesis using d True calloc_mem by (intro freed) (auto simp: free_ok_Cons)
    next
      case fails: False
      then show thesis
        using assms(5) False True calloc_fails [OF fails] calloc_mem [of mem]
        by (intro kept) (auto simp: qdma_submit_to_free_list_def free_entry_create)
    qed
  next
    case nonempty: False
    obtain r mem1 where s: "submit_insert (de_entry dev) free mem = (r, mem1)" by fastforce
    note m = submit_insert_mem [OF s]
    show thesis
    proof (cases r)
      case None
      then show thesis using assms(5) False nonempty s m submit_insert_nomem [of _ _ mem mem1]
        by (intro kept) (auto simp: qdma_submit_to_free_list_def)
    next
      case (Some es)
      note ins = submit_insert_result [OF assms(1,2) d assms(4) nonempty s [unfolded Some]]
      have "dev' = dev\<lparr>de_entry := \<lparr>re_qbase = -1, re_total_q = 0\<rparr>\<rparr>" "free' = defragment es"
          "mem' = mem1"
        using assms(5) False nonempty s Some by (auto simp: qdma_submit_to_free_list_def)
      then show thesis
        using defragment_ok [OF ins(1) assms(2)] ins(2) m by (intro freed) simp_all
    qed
  qed
qed

section \<open>Taking a chunk off the free list\<close>

text \<open>
  Splitting a chunk that contains the requested range: on success the requested range is a
  chunk of its own and the other chunks are well formed and hold the remaining queues; when an
  allocation fails, the list still holds the same queues.
\<close>

definition carved ::
    "nat \<Rightarrow> nat \<Rightarrow> i32 \<Rightarrow> u32 \<Rightarrow> qdma_resource_entry list \<Rightarrow> mem \<Rightarrow>
       nat option \<times> qdma_resource_entry list \<times> mem \<Rightarrow> bool" where
  "carved lo hi qbase qmax free mem res =
     (case res of
        (None, free', mem') \<Rightarrow>
          free_ok lo hi free' \<and> all_queues free' = all_queues free \<and> False \<in> set mem \<and>
          set mem' \<subseteq> set mem
      | (Some j, free', mem') \<Rightarrow>
          (\<exists>xs ys. free' = xs @ \<lparr>re_qbase = qbase, re_total_q = qmax\<rparr> # ys \<and> j = length xs \<and>
             free_ok lo hi (xs @ ys) \<and>
             all_queues (xs @ ys) \<inter> {unat qbase ..< unat qbase + unat qmax} = {} \<and>
             all_queues (xs @ ys) \<union> {unat qbase ..< unat qbase + unat qmax} = all_queues free) \<and>
          set mem' \<subseteq> set mem)"

definition covers :: "nat \<Rightarrow> nat \<Rightarrow> qdma_resource_entry list \<Rightarrow> bool" where
  "covers a b es \<longleftrightarrow>
     es = [] \<and> a = b \<or> (\<exists>e. es = [e] \<and> re_total_q e \<noteq> 0 \<and> c_start e = a \<and> c_end e = b)"

lemma covers_queues: "covers a b es \<Longrightarrow> all_queues es = {a ..< b}"
  by (auto simp: covers_def queues_def)

lemma covers_single:
  "\<lbrakk>unat q = a; unat q + unat n = b; a < b\<rbrakk> \<Longrightarrow> covers a b [\<lparr>re_qbase = q, re_total_q = n\<rparr>]"
  by (auto simp: covers_def)

lemma covers_Nil: "a = b \<Longrightarrow> covers a b []"
  by (simp add: covers_def)

lemma replaced_queues:
  assumes "free_ok lo hi (before @ node # after)"
  shows "all_queues (before @ after) \<inter> queues node = {}"
proof -
  have "\<forall>e \<in> set (before @ after). queues e \<inter> queues node = {}"
    using assms disjoint_before by (fastforce simp: free_ok_append free_ok_Cons)
  then show ?thesis by (auto simp: all_queues_def)
qed

lemma carved_SomeI:
  assumes ok: "free_ok lo hi (before @ node # after)"
    and ls: "covers (c_start node) (unat qbase) ls"
    and rs: "covers (unat qbase + unat qmax) (c_end node) rs"
    and bounds: "c_start node \<le> unat qbase" "unat qbase + unat qmax \<le> c_end node"
    and "set mem' \<subseteq> set mem"
  shows "carved lo hi qbase qmax (before @ node # after) mem
    (Some (length (before @ ls)),
     (before @ ls) @ \<lparr>re_qbase = qbase, re_total_q = qmax\<rparr> # (rs @ after), mem')"
proof -
  have "free_ok lo hi (before @ (ls @ rs) @ after)"
    using ls rs bounds by (intro free_ok_replace [OF ok]) (auto simp: covers_def)
  moreover note q = covers_queues [OF ls] covers_queues [OF rs]
  have "queues node =
      all_queues ls \<union> {unat qbase ..< unat qbase + unat qmax} \<union> all_queues rs"
    using bounds by (auto simp: q queues_def)
  moreover have "(all_queues ls \<union> all_queues rs) \<inter> {unat qbase ..< unat qbase + unat qmax} = {}"
    by (auto simp: q)
  ultimately have "free_ok lo hi ((before @ ls) @ (rs @ after)) \<and>
    all_queues ((before @ ls) @ (rs @ after)) \<inter> {unat qbase ..< unat qbase + unat qmax} = {} \<and>
    all_queues ((before @ ls) @ (rs @ after)) \<union> {unat qbase ..< unat qbase + unat qmax}
      = all_queues (before @ node # after)"
    using replaced_queues [OF ok] by auto
  then show ?thesis unfolding carved_def prod.case option.case using assms(6) by blast
qed

lemma carved_NoneI:
  assumes ok: "free_ok lo hi (before @ node # after)"
    and "covers (c_start node) q ls" "covers q (c_end node) rs"
    and "c_start node \<le> q" "q \<le> c_end node" "False \<in> set mem" "set mem' \<subseteq> set mem"
  shows "carved lo hi qbase qmax (before @ node # after) mem (None, before @ ls @ rs @ after, mem')"
proof -
  have "free_ok lo hi (before @ (ls @ rs) @ after)"
    using assms(2-5) by (intro free_ok_replace [OF ok]) (auto simp: covers_def)
  moreover have "queues node = all_queues ls \<union> all_queues rs"
    using assms(4,5) by (auto simp: covers_queues [OF assms(2)] covers_queues [OF assms(3)] queues_def)
  ultimately show ?thesis using assms(6,7) by (auto simp: carved_def)
qed

lemma carved_unchanged:
  assumes "free_ok lo hi (before @ node # after)" and "\<not> fst (qdma_calloc mem)"
    and "mem' = snd (qdma_calloc mem)"
  shows "carved lo hi qbase qmax (before @ node # after) mem (None, before @ node # after, mem')"
  using assms calloc_fails calloc_mem by (simp add: carved_def)

lemma fragment_carved:
  assumes ok: "free_ok lo hi (before @ node # after)" and hi: "hi < 2 ^ 31"
    and b: "c_start node \<le> unat qbase" "unat qbase + unat qmax \<le> c_end node"
    and free: "free = before @ node # after" and i: "i = length before"
  shows "carved lo hi qbase qmax free mem (fragment_free_list qmax qbase i free mem)"
proof -
  have c: "chunk_ok lo hi node" using ok by (simp add: free_ok_append free_ok_Cons)
  have e: "c_start node = unat (re_qbase node)"
      "c_end node = unat (re_qbase node) + unat (re_total_q node)"
    by (simp_all add: c_start_def c_end_def)
  have chi: "c_end node < 2 ^ 31" using c hi by (simp add: chunk_ok_def)
  have node: "\<lparr>re_qbase = re_qbase node, re_total_q = re_total_q node\<rparr> = node"
      "node\<lparr>re_total_q := qmax\<rparr> = \<lparr>re_qbase = re_qbase node, re_total_q = qmax\<rparr>"
    by (cases node; simp)+
  let ?l = "qbase - re_qbase node"
  have l: "unat ?l = unat qbase - unat (re_qbase node)"
    using b e by (intro unat_minus_bounded) simp
  have t': "unat (re_total_q node - ?l) = unat (re_total_q node) - unat ?l"
    using b e l by (intro unat_minus_bounded) simp
  have sums: "unat (qbase + qmax) = unat qbase + unat qmax"
      "unat (re_qbase node + re_total_q node) = c_end node"
    using b chi e by (simp_all add: unat_plus_bounded)
  have gt: "sint qbase > sint (re_qbase node) \<longleftrightarrow> c_start node < unat qbase"
    using b chi e by (subst signed_compare) simp_all
  have mem2: "set (snd (qdma_calloc (snd (qdma_calloc mem)))) \<subseteq> set mem"
    using calloc_mem by blast
  consider (exact) "qbase = re_qbase node" "qmax = re_total_q node"
    | (left) "qbase = re_qbase node" "qmax \<noteq> re_total_q node"
    | (right) "qbase \<noteq> re_qbase node" "qbase + qmax = re_qbase node + re_total_q node"
    | (middle) "qbase \<noteq> re_qbase node" "qbase + qmax \<noteq> re_qbase node + re_total_q node"
    by blast
  then show ?thesis
  proof cases
    case exact
    then show ?thesis
      using carved_SomeI [OF ok covers_Nil covers_Nil b, of mem mem] node e
      by (simp add: fragment_free_list_def free i)
  next
    case left
    have "unat qmax \<noteq> unat (re_total_q node)" using left word_unat_eq_iff by blast
    then have lt: "unat qmax < unat (re_total_q node)" using left b e by simp
    have "covers (unat qbase + unat qmax) (c_end node)
        [\<lparr>re_qbase = re_qbase node + qmax, re_total_q = re_total_q node - qmax\<rparr>]"
      using left lt e sums(1) by (intro covers_single) (simp_all add: unat_minus_bounded)
    from carved_SomeI [OF ok covers_Nil this b calloc_mem] carved_unchanged [OF ok] left e
    show ?thesis
      by (cases "fst (qdma_calloc mem)")
        (simp_all add: fragment_free_list_def free i free_entry_create Let_def node(2))
  next
    case right
    have "unat qbase \<noteq> unat (re_qbase node)" using right word_unat_eq_iff by blast
    then have lt: "c_start node < unat qbase" using b e by simp
    have "unat qbase + unat qmax = c_end node" using right(2) sums by simp
    note rs = covers_Nil [OF this]
    have "covers (c_start node) (unat qbase) [\<lparr>re_qbase = re_qbase node, re_total_q = ?l\<rparr>]"
      using lt e l by (intro covers_single) simp_all
    from carved_SomeI [OF ok this rs b calloc_mem] carved_unchanged [OF ok] right lt gt
    show ?thesis
      by (cases "fst (qdma_calloc mem)")
        (simp_all add: fragment_free_list_def free i free_entry_create Let_def)
  next
    case middle
    have "unat qbase \<noteq> unat (re_qbase node)" using middle word_unat_eq_iff by blast
    then have lt: "c_start node < unat qbase" using b e by simp
    have "unat qbase + unat qmax \<noteq> c_end node" using middle(2) sums word_unat_eq_iff by metis
    then have lt': "unat qbase + unat qmax < c_end node" using b by simp
    have ls: "covers (c_start node) (unat qbase) [\<lparr>re_qbase = re_qbase node, re_total_q = ?l\<rparr>]"
      using lt e l by (intro covers_single) simp_all
    have rest: "covers (unat qbase) (c_end node)
        [\<lparr>re_qbase = qbase, re_total_q = re_total_q node - ?l\<rparr>]"
      using lt lt' e l t' by (intro covers_single) simp_all
    have "unat (re_total_q node - ?l - qmax) = unat (re_total_q node - ?l) - unat qmax"
      using lt lt' e l t' by (intro unat_minus_bounded) simp
    then have rs: "covers (unat qbase + unat qmax) (c_end node)
        [\<lparr>re_qbase = qbase + qmax, re_total_q = re_total_q node - ?l - qmax\<rparr>]"
      using lt lt' e l t' sums(1) by (intro covers_single) simp_all
    note some = carved_SomeI [OF ok ls rs b mem2]
      and none = carved_unchanged [OF ok]
      and half = carved_NoneI [OF ok ls rest _ _ _ mem2]
    have f2: "\<not> fst (qdma_calloc (snd (qdma_calloc mem))) \<Longrightarrow> False \<in> set mem"
      using calloc_fails calloc_mem by blast
    show ?thesis
    proof (cases "fst (qdma_calloc mem)")
      case first: True
      then show ?thesis
        using some half f2 lt lt' b middle
        by (cases "fst (qdma_calloc (snd (qdma_calloc mem)))")
          (simp_all add: fragment_free_list_def free i free_entry_create Let_def)
    next
      case False
      then show ?thesis
        using none middle
        by (simp add: fragment_free_list_def free i free_entry_create Let_def)
    qed
  qed
qed

definition contains :: "qdma_resource_entry \<Rightarrow> i32 \<Rightarrow> u32 \<Rightarrow> bool" where
  "contains e qbase qmax \<longleftrightarrow> c_start e \<le> unat qbase \<and> unat qbase + unat qmax \<le> c_end e"

lemma find_requested_test:
  assumes "chunk_ok lo hi node" and "hi < 2 ^ 31"
    and "0 \<le> sint qbase" and "unat qbase + unat qmax < 2 ^ 32"
  shows "sint qbase \<ge> sint (re_qbase node) \<and> re_qbase node + re_total_q node \<ge> qbase + qmax
    \<longleftrightarrow> contains node qbase qmax"
proof -
  have "unat (re_qbase node) < 2 ^ 31" using assms(1,2) by (simp add: chunk_ok_def c_end_def)
  note le = signed_compare(2) [OF this sint_nonneg_small [OF assms(3)]]
  have "unat (re_qbase node + re_total_q node) = c_end node"
    using assms(1,2) by (simp add: chunk_ok_def c_end_def unat_plus_bounded)
  moreover have "unat (qbase + qmax) = unat qbase + unat qmax"
    using assms(4) by (simp add: unat_plus_bounded)
  ultimately show ?thesis by (simp add: le contains_def c_start_def word_le_nat_alt)
qed

lemma find_requested_cases:
  assumes "\<forall>e \<in> set free. chunk_ok lo hi e" and "hi < 2 ^ 31"
    and "0 \<le> sint qbase" and "unat qbase + unat qmax < 2 ^ 32"
  shows "case find_requested qmax qbase free of
      None \<Rightarrow> \<forall>e \<in> set free. \<not> contains e qbase qmax
    | Some i \<Rightarrow> i < length free \<and> contains (free ! i) qbase qmax"
  using assms(1)
proof (induction free)
  case (Cons e es)
  then show ?case
    using find_requested_test [OF _ assms(2-4), of lo e] by (auto split: option.splits)
qed simp

lemma find_best_fit_spec:
  assumes "length pre = i"
    and "case best of
        None \<Rightarrow> \<forall>e \<in> set pre. \<not> re_total_q e \<ge> qmax
      | Some (k, t) \<Rightarrow> k < i \<and> t = re_total_q (pre ! k) \<and> t \<ge> qmax \<and>
          (\<forall>e \<in> set pre. re_total_q e \<ge> qmax \<longrightarrow> t \<le> re_total_q e)"
  shows "case find_best_fit qmax i best es of
      None \<Rightarrow> \<forall>e \<in> set (pre @ es). \<not> re_total_q e \<ge> qmax
    | Some k \<Rightarrow> k < length (pre @ es) \<and> re_total_q ((pre @ es) ! k) \<ge> qmax \<and>
        (\<forall>e \<in> set (pre @ es). re_total_q e \<ge> qmax \<longrightarrow>
           re_total_q ((pre @ es) ! k) \<le> re_total_q e)"
  using assms
proof (induction es arbitrary: pre i best)
  case Nil
  then show ?case by (auto split: option.splits)
next
  case (Cons node es)
  let ?best = "if re_total_q node \<ge> qmax \<and>
      (case best of None \<Rightarrow> True | Some (_, t) \<Rightarrow> t \<ge> re_total_q node)
    then Some (i, re_total_q node) else best"
  have "case ?best of
        None \<Rightarrow> \<forall>e \<in> set (pre @ [node]). \<not> re_total_q e \<ge> qmax
      | Some (k, t) \<Rightarrow> k < Suc i \<and> t = re_total_q ((pre @ [node]) ! k) \<and> t \<ge> qmax \<and>
          (\<forall>e \<in> set (pre @ [node]). re_total_q e \<ge> qmax \<longrightarrow> t \<le> re_total_q e)"
    using Cons.prems by (auto simp: nth_append split: option.splits if_splits prod.splits)
  from Cons.IH [OF _ this] Cons.prems(1) show ?case
    by (simp only: find_best_fit.simps append_assoc append_Cons append_Nil length_append list.size)
qed

lemma carved_cases:
  assumes "carved lo hi qbase qmax free mem res"
  obtains
    (none) free' mem' where "res = (None, free', mem')" "free_ok lo hi free'"
      "all_queues free' = all_queues free" "False \<in> set mem" "set mem' \<subseteq> set mem"
  | (some) xs ys mem' where
      "res = (Some (length xs), xs @ \<lparr>re_qbase = qbase, re_total_q = qmax\<rparr> # ys, mem')"
      "free_ok lo hi (xs @ ys)"
      "all_queues (xs @ ys) \<inter> {unat qbase ..< unat qbase + unat qmax} = {}"
      "all_queues (xs @ ys) \<union> {unat qbase ..< unat qbase + unat qmax} = all_queues free"
      "set mem' \<subseteq> set mem"
proof -
  obtain r free' mem' where res: "res = (r, free', mem')" by (cases res)
  show thesis
  proof (cases r)
    case None
    with assms res none show thesis by (simp add: carved_def)
  next
    case (Some j)
    with assms res some show thesis by (auto simp: carved_def)
  qed
qed

text \<open>
  The outcome of the search for a chunk.  It fails only when no chunk is large enough or an
  allocation fails; it honours the wanted base whenever a free chunk contains the wanted range.
  The hypothesis on the wanted range excludes the wrap-around of the bound the code computes.
\<close>

lemma get_resource_node_cases:
  assumes ok: "free_ok lo hi free" and hi: "hi < 2 ^ 31"
    and nowrap: "0 \<le> sint qbase \<longrightarrow> unat qbase + unat qmax < 2 ^ 32"
  obtains
    (none) free' mem' where "qdma_get_resource_node qmax qbase free mem = (None, free', mem')"
      "free_ok lo hi free'" "all_queues free' = all_queues free" "set mem' \<subseteq> set mem"
      "False \<in> set mem \<or> free' = free \<and> (\<forall>e \<in> set free. re_total_q e < qmax)"
  | (some) b xs ys mem' where
      "qdma_get_resource_node qmax qbase free mem =
         (Some (length xs), xs @ \<lparr>re_qbase = b, re_total_q = qmax\<rparr> # ys, mem')"
      "free_ok lo hi (xs @ ys)"
      "all_queues (xs @ ys) \<inter> {unat b ..< unat b + unat qmax} = {}"
      "all_queues (xs @ ys) \<union> {unat b ..< unat b + unat qmax} = all_queues free"
      "lo \<le> unat b" "unat b + unat qmax \<le> hi"
      "set mem' \<subseteq> set mem"
      "0 \<le> sint qbase \<Longrightarrow> \<exists>e \<in> set free. contains e qbase qmax \<Longrightarrow> b = qbase"
      "\<exists>e \<in> set free. qmax \<le> re_total_q e"
proof -
  note fails = none and succeeds = some
  have chunks: "\<forall>e \<in> set free. chunk_ok lo hi e" using ok by (simp add: free_ok_def)
  have carve: thesis if i: "i < length free" "contains (free ! i) b qmax"
    and g: "qdma_get_resource_node qmax qbase free mem = fragment_free_list qmax b i free mem"
    and b: "0 \<le> sint qbase \<Longrightarrow> \<exists>e \<in> set free. contains e qbase qmax \<Longrightarrow> b = qbase"
    for i b
  proof -
    have split: "free = take i free @ free ! i # drop (Suc i) free" "i = length (take i free)"
      using i(1) by (simp_all add: id_take_nth_drop)
    have mem: "free ! i \<in> set free" using i(1) by simp
    have bounds: "lo \<le> unat b" "unat b + unat qmax \<le> hi"
      using chunks mem i(2) by (auto simp: contains_def chunk_ok_def)
    have fits: "\<exists>e \<in> set free. qmax \<le> re_total_q e"
      using i(2) by (intro bexI [OF _ mem]) (simp add: contains_def c_start_def c_end_def word_le_nat_alt)
    have "carved lo hi b qmax free mem (fragment_free_list qmax b i free mem)"
      using i(2) split ok hi by (intro fragment_carved) (auto simp: contains_def)
    then show thesis
    proof (cases rule: carved_cases)
      case (none free' mem')
      with g show thesis by (intro fails [of free' mem']) auto
    next
      case (some xs ys mem')
      with g b bounds fits show thesis by (intro succeeds [of xs b ys mem']) auto
    qed
  qed
  show thesis
  proof (cases "\<exists>i. 0 \<le> sint qbase \<and> find_requested qmax qbase free = Some i")
    case True
    then obtain i where i: "0 \<le> sint qbase" "find_requested qmax qbase free = Some i" by blast
    with find_requested_cases [OF chunks hi i(1) nowrap [rule_format, OF i(1)]]
    show thesis by (intro carve [of i qbase]) (simp_all add: qdma_get_resource_node_def)
  next
    case False
    then have none: "(if 0 \<le> sint qbase then find_requested qmax qbase free else None) = None" by auto
    have nc: "\<not> (0 \<le> sint qbase \<and> (\<exists>e \<in> set free. contains e qbase qmax))"
      using False find_requested_cases [OF chunks hi _ nowrap [rule_format]] by (auto split: option.splits)
    have best: "case find_best_fit qmax 0 None free of
        None \<Rightarrow> \<forall>e \<in> set free. \<not> re_total_q e \<ge> qmax
      | Some k \<Rightarrow> k < length free \<and> re_total_q (free ! k) \<ge> qmax \<and>
          (\<forall>e \<in> set free. re_total_q e \<ge> qmax \<longrightarrow> re_total_q (free ! k) \<le> re_total_q e)"
      using find_best_fit_spec [where pre = "[]" and i = 0 and best = None and es = free
            and qmax = qmax, unfolded append_Nil] by simp
    show thesis
    proof (cases "find_best_fit qmax 0 None free")
      case None
      with best none ok show thesis
        by (intro fails) (auto simp: qdma_get_resource_node_def not_le)
    next
      case (Some k)
      with best none nc show thesis
        by (intro carve [of k "re_qbase (free ! k)"])
          (auto simp: qdma_get_resource_node_def contains_def c_start_def c_end_def word_le_nat_alt)
    qed
  qed
qed

text \<open>On a coalesced list a run of free queues always lies in one chunk.\<close>

lemma sorted_wrt_total:
  assumes "sorted_wrt R es" and "e \<in> set es" and "f \<in> set es"
  shows "e = f \<or> R e f \<or> R f e"
  using assms by (induction es) auto

lemma run_in_one_chunk:
  assumes s: "sorted_wrt (\<lambda>a b. c_end a < c_start b) es"
    and ok: "\<forall>e \<in> set es. chunk_ok lo hi e"
    and sub: "{a ..< b} \<subseteq> all_queues es" and "a < b"
  shows "\<exists>e \<in> set es. c_start e \<le> a \<and> b \<le> c_end e"
proof -
  from sub \<open>a < b\<close> obtain e where e: "e \<in> set es" "c_start e \<le> a" "a < c_end e"
    by (auto simp: all_queues_def queues_def subset_iff)
  have "b \<le> c_end e"
  proof (rule ccontr)
    assume "\<not> b \<le> c_end e"
    with e sub have "c_end e \<in> all_queues es" by (auto simp: subset_iff)
    then obtain f where f: "f \<in> set es" "c_start f \<le> c_end e" "c_end e < c_end f"
      by (auto simp: all_queues_def queues_def)
    with sorted_wrt_total [OF s e(1) f(1)] chunk_nonempty [of lo hi e] ok e(1)
    show False by fastforce
  qed
  with e show ?thesis by blast
qed

section \<open>A request of a function\<close>

text \<open>The queues a request may hand out: those of the free list and those the function gives
  back.  They are all still there unless an allocation failed.\<close>

definition pool_ok ::
    "nat \<Rightarrow> nat \<Rightarrow> nat set \<Rightarrow> mem \<Rightarrow> qdma_resource_entry list \<Rightarrow> mem \<Rightarrow> bool" where
  "pool_ok lo hi avail mem free' mem' \<longleftrightarrow>
     free_ok lo hi free' \<and> all_queues free' \<subseteq> avail \<and>
     (False \<notin> set mem \<longrightarrow> all_queues free' = avail) \<and> set mem' \<subseteq> set mem"

text \<open>What a request keeps whatever allocations fail: no queue appears from nowhere and no queue
  is both free and owned.\<close>

definition request_safe ::
    "nat \<Rightarrow> nat \<Rightarrow> nat set \<Rightarrow> mem \<Rightarrow> qdma_dev_entry \<Rightarrow>
       qdma_dev_entry \<Rightarrow> qdma_resource_entry list \<Rightarrow> mem \<Rightarrow> bool" where
  "request_safe lo hi avail mem dev dev' free' mem' \<longleftrightarrow>
     free_ok lo hi free' \<and> dev_chunk_ok lo hi (de_entry dev') \<and>
     queues (de_entry dev') \<inter> all_queues free' = {} \<and>
     queues (de_entry dev') \<union> all_queues free' \<subseteq> avail \<and>
     (False \<notin> set mem \<longrightarrow> queues (de_entry dev') \<union> all_queues free' = avail) \<and>
     dev' = dev\<lparr>de_entry := de_entry dev'\<rparr> \<and> set mem' \<subseteq> set mem"

lemma queues_eq: "queues \<lparr>re_qbase = b, re_total_q = t\<rparr> = {unat b ..< unat b + unat t}"
  by (simp add: queues_def)

lemma take_node_carved:
  "take_node (length xs) dev (xs @ e # ys) =
     (dev\<lparr>de_entry := \<lparr>re_qbase = re_qbase e, re_total_q = re_total_q e\<rparr>\<rparr>, xs @ ys)"
  by (simp add: take_node_def)

lemma dev_nowrap:
  assumes "dev_chunk_ok lo hi e" and "hi < 2 ^ 31" and "0 \<le> sint (re_qbase e)"
  shows "unat (re_qbase e) + unat (re_total_q e) < 2 ^ 32"
  using assms(1,2) sint_nonneg_small [OF assms(3)]
  by (auto simp: dev_chunk_ok_def chunk_ok_def c_end_def)

text \<open>One attempt to take a chunk from the pool.\<close>

lemma attempt_cases:
  assumes pool: "pool_ok lo hi avail mem free1 mem1" and hi: "hi < 2 ^ 31"
    and dev1: "dev1 = dev\<lparr>de_entry := de_entry dev1\<rparr>"
    and nowrap: "0 \<le> sint qbase \<longrightarrow> unat qbase + unat qmax < 2 ^ 32"
  obtains
    (none) free2 mem2 where "qdma_get_resource_node qmax qbase free1 mem1 = (None, free2, mem2)"
      "pool_ok lo hi avail mem free2 mem2"
      "False \<in> set mem \<or> free2 = free1 \<and> (\<forall>e \<in> set free1. re_total_q e < qmax)"
  | (some) i free2 mem2 dev' free' where
      "qdma_get_resource_node qmax qbase free1 mem1 = (Some i, free2, mem2)"
      "take_node i dev1 free2 = (dev', free')" "request_safe lo hi avail mem dev dev' free' mem2"
      "re_total_q (de_entry dev') = qmax"
      "0 \<le> sint qbase \<Longrightarrow> \<exists>e \<in> set free1. contains e qbase qmax \<Longrightarrow> re_qbase (de_entry dev') = qbase"
      "\<exists>e \<in> set free1. qmax \<le> re_total_q e"
proof -
  note fails = none and succeeds = some
  have ok: "free_ok lo hi free1" using pool by (simp add: pool_ok_def)
  from ok hi nowrap show thesis
  proof (cases rule: get_resource_node_cases [where mem = mem1])
    case (none free' mem')
    moreover have "False \<in> set mem1 \<longrightarrow> False \<in> set mem" using pool by (auto simp: pool_ok_def)
    ultimately show thesis
      using pool by (intro fails [of free' mem']) (auto simp: pool_ok_def)
  next
    case (some b xs ys mem')
    let ?dev = "dev1\<lparr>de_entry := \<lparr>re_qbase = b, re_total_q = qmax\<rparr>\<rparr>"
    have "dev_chunk_ok lo hi (de_entry ?dev)"
      using some(5,6) by (auto simp: dev_chunk_ok_def chunk_ok_def)
    moreover have "?dev = dev\<lparr>de_entry := de_entry ?dev\<rparr>" by (subst dev1) simp
    ultimately have "request_safe lo hi avail mem dev ?dev (xs @ ys) mem'"
      using some(2-4,7) pool by (auto simp: request_safe_def pool_ok_def queues_eq)
    with some show thesis
      by (intro succeeds [where dev' = ?dev and free' = "xs @ ys"]) (auto simp: take_node_carved)
  qed
qed

lemma submit_pool:
  assumes "free_ok lo hi free" and "hi < 2 ^ 31" and "dev_chunk_ok lo hi (de_entry dev)"
    and "queues (de_entry dev) \<inter> all_queues free = {}"
    and "qdma_submit_to_free_list dev free mem = (dev1, free1, mem1)"
    and "avail = queues (de_entry dev) \<union> all_queues free"
  shows "pool_ok lo hi avail mem free1 mem1" and "dev1 = dev\<lparr>de_entry := de_entry dev1\<rparr>"
    and "request_safe lo hi avail mem dev dev1 free1 mem1"
    and "False \<notin> set mem \<Longrightarrow> sorted_wrt (\<lambda>a b. c_end a < c_start b) free \<Longrightarrow>
      sorted_wrt (\<lambda>a b. c_end a < c_start b) free1"
  using assms(1-5) unfolding assms(6)
  by (cases rule: submit_to_free_list_cases;
      auto simp: pool_ok_def request_safe_def dev_chunk_ok_def)+

lemma request_q_resource_safe:
  assumes ok: "free_ok lo hi free" and hi: "hi < 2 ^ 31"
    and d: "dev_chunk_ok lo hi (de_entry dev)"
    and dis: "queues (de_entry dev) \<inter> all_queues free = {}"
    and nowrap: "0 \<le> sint new_qbase \<longrightarrow> unat new_qbase + unat new_qmax < 2 ^ 32"
    and res: "qdma_request_q_resource dev new_qmax new_qbase free mem = (rv, dev', free', mem')"
  shows "request_safe lo hi (queues (de_entry dev) \<union> all_queues free) mem dev dev' free' mem'"
proof -
  obtain dev1 free1 mem1 where s: "qdma_submit_to_free_list dev free mem = (dev1, free1, mem1)"
    by (metis prod.exhaust)
  let ?e = "de_entry dev"
  note p = submit_pool [OF ok hi d dis s refl]
  have old: "0 \<le> sint (re_qbase ?e) \<longrightarrow> unat (re_qbase ?e) + unat (re_total_q ?e) < 2 ^ 32"
    using dev_nowrap [OF d hi] by blast
  show ?thesis
  proof (cases "new_qmax = 0")
    case True
    with res s p(3) show ?thesis by (simp add: qdma_request_q_resource_def)
  next
    case nz: False
    from p(1) hi p(2) nowrap show ?thesis
    proof (cases rule: attempt_cases)
      case some
      with res s nz show ?thesis by (simp add: qdma_request_q_resource_def)
    next
      case (none free2 mem2)
      from none(2) hi p(2) old show ?thesis
      proof (cases rule: attempt_cases)
        case some
        with res s nz none(1) show ?thesis by (simp add: qdma_request_q_resource_def)
      next
        case none2: (none free3 mem3)
        have "dev' = dev1\<lparr>de_entry := \<lparr>re_qbase = -1, re_total_q = 0\<rparr>\<rparr>" "free' = free3" "mem' = mem3"
          using res s nz none(1) none2(1) by (simp_all add: qdma_request_q_resource_def)
        moreover have "dev1\<lparr>de_entry := x\<rparr> = dev\<lparr>de_entry := x\<rparr>" for x by (subst p(2)) simp
        ultimately show ?thesis
          using none2(2) by (auto simp: request_safe_def pool_ok_def dev_chunk_ok_def)
      qed
    qed
  qed
qed

definition run_available :: "nat \<Rightarrow> nat set \<Rightarrow> bool" where
  "run_available n avail \<longleftrightarrow> (\<exists>a. {a ..< a + n} \<subseteq> avail)"

lemma no_run:
  assumes "sorted_wrt (\<lambda>a b. c_end a < c_start b) es" and "free_ok lo hi es"
    and "\<forall>e \<in> set es. re_total_q e < qmax"
  shows "es = [] \<or> \<not> run_available (unat qmax) (all_queues es)"
proof (rule ccontr)
  assume "\<not> ?thesis"
  then obtain a where a: "es \<noteq> []" "{a ..< a + unat qmax} \<subseteq> all_queues es"
    by (auto simp: run_available_def)
  have "0 < unat qmax" using a(1) assms(3) by (cases es) (auto simp: word_less_nat_alt)
  moreover have "\<forall>e \<in> set es. chunk_ok lo hi e" using assms(2) by (simp add: free_ok_def)
  ultimately obtain e where "e \<in> set es" "c_start e \<le> a" "a + unat qmax \<le> c_end e"
    using run_in_one_chunk [OF assms(1) _ a(2), of lo hi] by auto
  moreover from this(1) assms(3) have "unat (re_total_q e) < unat qmax"
    by (auto simp: word_less_nat_alt)
  ultimately show False by (simp add: c_start_def c_end_def)
qed

text \<open>
  Without allocation failures and on a coalesced free list a request is decided exactly by the
  queues that are available, and a refused request leaves every function and the free list with
  the queues they had.
\<close>

lemma request_q_resource_exact:
  assumes ok: "free_ok lo hi free" and hi: "hi < 2 ^ 31"
    and d: "dev_chunk_ok lo hi (de_entry dev)"
    and dis: "queues (de_entry dev) \<inter> all_queues free = {}"
    and nowrap: "0 \<le> sint new_qbase \<longrightarrow> unat new_qbase + unat new_qmax < 2 ^ 32"
    and coalesced: "sorted_wrt (\<lambda>a b. c_end a < c_start b) free"
    and mem: "False \<notin> set mem" and nz: "new_qmax \<noteq> 0"
    and avail: "avail = queues (de_entry dev) \<union> all_queues free"
    and res: "qdma_request_q_resource dev new_qmax new_qbase free mem = (rv, dev', free', mem')"
  shows "if run_available (unat new_qmax) avail
    then rv = QDMA_SUCCESS \<and> re_total_q (de_entry dev') = new_qmax \<and>
      (0 \<le> sint new_qbase \<and> {unat new_qbase ..< unat new_qbase + unat new_qmax} \<subseteq> avail \<longrightarrow>
         re_qbase (de_entry dev') = new_qbase)
    else rv = - QDMA_ERR_RM_NO_QUEUES_LEFT \<and> queues (de_entry dev') = queues (de_entry dev)"
proof -
  obtain dev1 free1 mem1 where s: "qdma_submit_to_free_list dev free mem = (dev1, free1, mem1)"
    by (metis prod.exhaust)
  let ?e = "de_entry dev"
  note p = submit_pool [OF ok hi d dis s avail]
  have sorted: "sorted_wrt (\<lambda>a b. c_end a < c_start b) free1" using p(4) mem coalesced by blast
  have free1: "all_queues free1 = avail" "free_ok lo hi free1"
    using p(1) mem by (simp_all add: pool_ok_def)
  have chunks: "\<forall>e \<in> set free1. chunk_ok lo hi e" using free1(2) by (simp add: free_ok_def)
  have one: "\<exists>e \<in> set free1. contains e b n"
    if "{unat b ..< unat b + unat n} \<subseteq> avail" "n \<noteq> 0" for b n
    using run_in_one_chunk [OF sorted chunks, of "unat b" "unat b + unat n"] that free1
    by (auto simp: contains_def unat_gt_0)
  have old: "0 \<le> sint (re_qbase ?e) \<longrightarrow> unat (re_qbase ?e) + unat (re_total_q ?e) < 2 ^ 32"
    using dev_nowrap [OF d hi] by blast
  from p(1) hi p(2) nowrap show ?thesis
  proof (cases rule: attempt_cases)
    case (some i free2 mem2 d2 f2)
    obtain e where e: "e \<in> set free1" "new_qmax \<le> re_total_q e" using some(6) by blast
    have "{c_start e ..< c_start e + unat new_qmax} \<subseteq> queues e"
      using e(2) by (auto simp: queues_def c_end_def c_start_def word_le_nat_alt)
    then have "run_available (unat new_qmax) avail"
      using e(1) free1(1) by (auto simp: run_available_def all_queues_def)
    then show ?thesis
      using some res s nz one [of new_qbase new_qmax] by (auto simp: qdma_request_q_resource_def)
  next
    case (none free2 mem2)
    with mem have same: "free2 = free1" "\<forall>e \<in> set free1. re_total_q e < new_qmax" by auto
    have nr: "\<not> run_available (unat new_qmax) avail"
      using no_run [OF sorted free1(2) same(2)] nz free1(1)
      by (auto simp: run_available_def unat_gt_0)
    have base: "0 \<le> sint (re_qbase ?e)" "\<exists>e \<in> set free1. contains e (re_qbase ?e) (re_total_q ?e)"
      if "re_total_q ?e \<noteq> 0"
    proof -
      have c: "chunk_ok lo hi ?e" using d that by (simp add: dev_chunk_ok_def)
      then have "unat (re_qbase ?e) < 2 ^ 31" using hi by (simp add: chunk_ok_def c_end_def)
      then show "0 \<le> sint (re_qbase ?e)" by (simp add: sint_small)
      show "\<exists>e \<in> set free1. contains e (re_qbase ?e) (re_total_q ?e)"
        using one [of "re_qbase ?e" "re_total_q ?e"] that avail
        by (auto simp: queues_def c_start_def c_end_def)
    qed
    from none(2) hi p(2) old show ?thesis
    proof (cases rule: attempt_cases)
      case (some i free3 mem3 d2 f2)
      then have "dev' = d2" "rv = - QDMA_ERR_RM_NO_QUEUES_LEFT"
        using res s nz none(1) by (simp_all add: qdma_request_q_resource_def)
      moreover have "queues (de_entry d2) = queues ?e"
        using some(4,5) base same(1)
        by (cases "re_total_q ?e = 0") (auto simp: queues_def c_start_def c_end_def)
      ultimately show ?thesis using nr by simp
    next
      case none2: (none free3 mem3)
      then have small: "\<forall>e \<in> set free1. re_total_q e < re_total_q ?e" using mem same(1) by auto
      have "re_total_q ?e = 0"
      proof (rule ccontr)
        assume "re_total_q ?e \<noteq> 0"
        from base(2) [OF this] small show False
          by (fastforce simp: contains_def c_start_def c_end_def word_less_nat_alt)
      qed
      moreover have "dev' = dev1\<lparr>de_entry := \<lparr>re_qbase = -1, re_total_q = 0\<rparr>\<rparr>"
          "rv = - QDMA_ERR_RM_NO_QUEUES_LEFT"
        using res s nz none(1) none2(1) by (simp_all add: qdma_request_q_resource_def)
      ultimately show ?thesis using nr by simp
    qed
  qed
qed

end
