(* ===== verification/ResourceSafety.thy ===== *)
theory ResourceSafety
  imports ResourceInv
begin

text \<open>
  The invariant of a master resource, its preservation by every operation of the resource
  manager, and what follows for sequences of operations: the queues of a board are partitioned
  among its functions and the free list.
\<close>

section \<open>Invariant\<close>

definition m_lo :: "qdma_resource_master \<Rightarrow> nat" where
  "m_lo m = unat (rm_qbase m)"

definition m_hi :: "qdma_resource_master \<Rightarrow> nat" where
  "m_hi m = unat (rm_qbase m) + unat (rm_total_q m)"

definition owned :: "qdma_resource_master \<Rightarrow> nat set" where
  "owned m = all_queues (map de_entry (dev_list m))"

definition counters_ok :: "qdma_dev_entry \<Rightarrow> bool" where
  "counters_ok d \<longleftrightarrow>
     active_h2c_qcnt d \<le> re_total_q (de_entry d) \<and> active_c2h_qcnt d \<le> re_total_q (de_entry d) \<and>
     active_cmpt_qcnt d \<le> re_total_q (de_entry d)"

definition apart :: "qdma_dev_entry \<Rightarrow> qdma_dev_entry \<Rightarrow> bool" where
  "apart d e \<longleftrightarrow> de_func_id d \<noteq> de_func_id e \<and> queues (de_entry d) \<inter> queues (de_entry e) = {}"

definition master_inv :: "qdma_resource_master \<Rightarrow> bool" where
  "master_inv m \<longleftrightarrow>
     m_hi m < 2 ^ 31 \<and> free_ok (m_lo m) (m_hi m) (free_list m) \<and>
     (\<forall>d \<in> set (dev_list m). dev_chunk_ok (m_lo m) (m_hi m) (de_entry d) \<and> counters_ok d \<and>
        queues (de_entry d) \<inter> all_queues (free_list m) = {}) \<and>
     sorted_wrt apart (dev_list m)"

definition rm_inv :: "rm_state \<Rightarrow> bool" where
  "rm_inv st \<longleftrightarrow> (\<forall>m \<in> set (master_resource_list st). master_inv m)"

text \<open>Every queue of the board is owned or free.\<close>

definition conserved :: "qdma_resource_master \<Rightarrow> bool" where
  "conserved m \<longleftrightarrow> owned m \<union> all_queues (free_list m) = {m_lo m ..< m_hi m}"

definition rm_conserved :: "rm_state \<Rightarrow> bool" where
  "rm_conserved st \<longleftrightarrow> (\<forall>m \<in> set (master_resource_list st). conserved m)"

section \<open>Lookups and updates\<close>

lemma get_master_mem:
  "qdma_get_master_resource_entry idx st = Some m \<Longrightarrow>
     m \<in> set (master_resource_list st) \<and> dma_device_index m = idx"
  unfolding qdma_get_master_resource_entry_def by (auto elim: find_split)

lemma get_dev_split:
  assumes "qdma_get_master_resource_entry idx st = Some m"
    and "qdma_get_dev_entry idx fid st = Some dev"
  obtains ds es where "dev_list m = ds @ dev # es" and "de_func_id dev = fid"
    and "\<forall>d \<in> set ds. de_func_id d \<noteq> fid"
  using assms unfolding qdma_get_dev_entry_def by (auto elim: find_split)

lemma upd_master_masters:
  assumes "qdma_get_master_resource_entry idx st = Some m"
  shows "set (master_resource_list (upd_master idx f st)) \<subseteq>
    insert (f m) (set (master_resource_list st))"
  using assms unfolding qdma_get_master_resource_entry_def upd_master_def
  by (elim find_split) (auto simp: update_first_split)

lemma get_master_upd:
  assumes "qdma_get_master_resource_entry idx st = Some m" and "dma_device_index (f m) = idx"
  shows "qdma_get_master_resource_entry idx (upd_master idx f st) = Some (f m)"
  using assms unfolding qdma_get_master_resource_entry_def upd_master_def
  by (simp add: find_update_first)

lemma get_master_upd_other:
  assumes "idx' \<noteq> idx" and "\<And>m. dma_device_index m = idx \<Longrightarrow> dma_device_index (f m) = idx"
  shows "qdma_get_master_resource_entry idx' (upd_master idx f st) =
    qdma_get_master_resource_entry idx' st"
  using assms unfolding qdma_get_master_resource_entry_def upd_master_def
  by (auto intro!: find_update_first_other)

lemma get_master_mem_update [simp]:
  "qdma_get_master_resource_entry idx (st\<lparr>rm_mem := mem\<rparr>) = qdma_get_master_resource_entry idx st"
  "master_resource_list (st\<lparr>rm_mem := mem\<rparr>) = master_resource_list st"
  by (simp_all add: qdma_get_master_resource_entry_def)

lemma set_dev_split:
  assumes "dev_list m = ds @ dev # es" and "de_func_id dev = fid"
    and "\<forall>d \<in> set ds. de_func_id d \<noteq> fid"
  shows "dev_list (set_dev fid dev' m) = ds @ dev' # es"
  using assms by (simp add: set_dev_def update_first_split)

lemma set_dev_fields [simp]:
  "dma_device_index (set_dev fid d m) = dma_device_index m"
  "rm_qbase (set_dev fid d m) = rm_qbase m" "rm_total_q (set_dev fid d m) = rm_total_q m"
  "free_list (set_dev fid d m) = free_list m" "active_qcnt (set_dev fid d m) = active_qcnt m"
  by (simp_all add: set_dev_def)

lemma m_range_simps [simp]:
  "m_lo (m\<lparr>free_list := f\<rparr>) = m_lo m" "m_hi (m\<lparr>free_list := f\<rparr>) = m_hi m"
  "m_lo (m\<lparr>dev_list := ds\<rparr>) = m_lo m" "m_hi (m\<lparr>dev_list := ds\<rparr>) = m_hi m"
  "m_lo (m\<lparr>active_qcnt := c\<rparr>) = m_lo m" "m_hi (m\<lparr>active_qcnt := c\<rparr>) = m_hi m"
  "m_lo (set_dev fid d m) = m_lo m" "m_hi (set_dev fid d m) = m_hi m"
  by (simp_all add: m_lo_def m_hi_def)

lemma rm_inv_upd:
  assumes "rm_inv st" and "qdma_get_master_resource_entry idx st = Some m" and "master_inv (f m)"
  shows "rm_inv (upd_master idx f (st\<lparr>rm_mem := mem\<rparr>))"
  using assms upd_master_masters [of idx "st\<lparr>rm_mem := mem\<rparr>" m f]
  by (auto simp: rm_inv_def)

lemma rm_conserved_upd:
  assumes "rm_conserved st" and "qdma_get_master_resource_entry idx st = Some m" and "conserved (f m)"
  shows "rm_conserved (upd_master idx f (st\<lparr>rm_mem := mem\<rparr>))"
  using assms upd_master_masters [of idx "st\<lparr>rm_mem := mem\<rparr>" m f]
  by (auto simp: rm_conserved_def)

lemma rm_inv_mem:
  "rm_inv (st\<lparr>rm_mem := mem\<rparr>) = rm_inv st" "rm_conserved (st\<lparr>rm_mem := mem\<rparr>) = rm_conserved st"
  by (simp_all add: rm_inv_def rm_conserved_def)

lemma rm_inv_master: "rm_inv st \<Longrightarrow> qdma_get_master_resource_entry idx st = Some m \<Longrightarrow> master_inv m"
  using get_master_mem by (auto simp: rm_inv_def)

lemma rm_conserved_master:
  "rm_conserved st \<Longrightarrow> qdma_get_master_resource_entry idx st = Some m \<Longrightarrow> conserved m"
  using get_master_mem by (auto simp: rm_conserved_def)

section \<open>Replacing the chunk of one function\<close>

lemma others_apart:
  assumes "master_inv m" and "dev_list m = ds @ dev # es"
  shows "\<forall>d \<in> set (ds @ es). de_func_id d \<noteq> de_func_id dev \<and>
    queues (de_entry d) \<inter> (queues (de_entry dev) \<union> all_queues (free_list m)) = {}"
  using assms by (fastforce simp: master_inv_def apart_def sorted_wrt_append)

lemma master_inv_replace:
  assumes inv: "master_inv m" and dl: "dev_list m = ds @ dev # es"
    and safe: "request_safe (m_lo m) (m_hi m)
      (queues (de_entry dev) \<union> all_queues (free_list m)) mem dev dev' free' mem'"
    and cnt: "counters_ok dev'"
    and m': "dev_list m' = ds @ dev' # es" "free_list m' = free'"
      "m_lo m' = m_lo m" "m_hi m' = m_hi m"
  shows "master_inv m'"
proof -
  let ?avail = "queues (de_entry dev) \<union> all_queues (free_list m)"
  have id: "de_func_id dev' = de_func_id dev"
  proof -
    have "dev' = dev\<lparr>de_entry := de_entry dev'\<rparr>" using safe by (simp add: request_safe_def)
    then have "de_func_id dev' = de_func_id (dev\<lparr>de_entry := de_entry dev'\<rparr>)" by (rule arg_cong)
    then show ?thesis by simp
  qed
  have sub: "queues (de_entry dev') \<union> all_queues free' \<subseteq> ?avail"
    using safe by (simp add: request_safe_def)
  have other: "de_func_id d \<noteq> de_func_id dev \<and> queues (de_entry d) \<inter> queues (de_entry dev') = {} \<and>
      queues (de_entry d) \<inter> all_queues free' = {}" if "d \<in> set (ds @ es)" for d
    using others_apart [OF inv dl, rule_format, OF that] sub by blast
  have "sorted_wrt apart (ds @ dev' # es)"
    using inv other id unfolding master_inv_def dl
    by (auto simp: sorted_wrt_append apart_def Int_commute)
  moreover have "\<forall>d \<in> set (ds @ dev' # es). dev_chunk_ok (m_lo m) (m_hi m) (de_entry d) \<and>
      counters_ok d \<and> queues (de_entry d) \<inter> all_queues free' = {}"
    using inv other safe cnt unfolding master_inv_def dl by (auto simp: request_safe_def)
  ultimately show ?thesis
    using inv safe by (simp add: master_inv_def m' request_safe_def)
qed

lemma master_inv_remove:
  assumes inv: "master_inv m" and dl: "dev_list m = ds @ dev # es"
    and safe: "request_safe (m_lo m) (m_hi m)
      (queues (de_entry dev) \<union> all_queues (free_list m)) mem dev dev' free' mem'"
  shows "master_inv (m\<lparr>dev_list := ds @ es, free_list := free'\<rparr>)"
proof -
  have sub: "all_queues free' \<subseteq> queues (de_entry dev) \<union> all_queues (free_list m)"
    using safe by (simp add: request_safe_def)
  have other: "queues (de_entry d) \<inter> all_queues free' = {}" if "d \<in> set (ds @ es)" for d
    using others_apart [OF inv dl, rule_format, OF that] sub by blast
  show ?thesis
    using inv other safe unfolding master_inv_def dl
    by (auto simp: request_safe_def sorted_wrt_append)
qed

lemma conserved_replace:
  assumes "conserved m" and "dev_list m = ds @ dev # es"
    and "queues (de_entry dev') \<union> all_queues free' = queues (de_entry dev) \<union> all_queues (free_list m)"
    and "dev_list m' = ds @ dev' # es" "free_list m' = free'" "m_lo m' = m_lo m" "m_hi m' = m_hi m"
  shows "conserved m'"
  using assms by (auto simp: conserved_def owned_def)

section \<open>Preservation by the operations\<close>

definition request_nowrap :: "u32 \<Rightarrow> i32 \<Rightarrow> bool" where
  "request_nowrap qmax qbase \<longleftrightarrow> (0 \<le> sint qbase \<longrightarrow> unat qbase + unat qmax < 2 ^ 32)"

lemma update_step:
  assumes "rm_inv st" and "request_nowrap qmax qbase"
    and "qdma_get_master_resource_entry idx st = Some m"
    and "qdma_get_dev_entry idx fid st = Some dev"
    and "qdma_request_q_resource dev qmax qbase (free_list m) (rm_mem st) = (rv, dev', free', mem')"
  shows "request_safe (m_lo m) (m_hi m) (queues (de_entry dev) \<union> all_queues (free_list m))
    (rm_mem st) dev dev' free' mem'"
proof -
  note inv = rm_inv_master [OF assms(1,3)]
  obtain ds es where "dev_list m = ds @ dev # es" using get_dev_split [OF assms(3,4)] by blast
  with inv assms(2) show ?thesis
    by (intro request_q_resource_safe [OF _ _ _ _ _ assms(5)])
      (auto simp: master_inv_def request_nowrap_def)
qed

lemma counters_zero:
  "\<lbrakk>active_h2c_qcnt d = 0; active_c2h_qcnt d = 0; active_cmpt_qcnt d = 0; d' = d\<lparr>de_entry := e\<rparr>\<rbrakk>
    \<Longrightarrow> counters_ok d'"
  by (simp add: counters_ok_def)

lemma dev_update_inv:
  assumes "rm_inv st" and "request_nowrap qmax qbase"
  shows "rm_inv (snd (snd (qdma_dev_update idx fid qmax qbase st)))"
proof (cases "qdma_get_master_resource_entry idx st")
  case (Some m)
  note m = Some
  show ?thesis
  proof (cases "qdma_get_dev_entry idx fid st")
    case (Some dev)
    obtain ds es where dl: "dev_list m = ds @ dev # es" "de_func_id dev = fid"
        "\<forall>d \<in> set ds. de_func_id d \<noteq> fid" using get_dev_split [OF m Some] by blast
    obtain rv dev' free' mem' where
      r: "qdma_request_q_resource dev qmax qbase (free_list m) (rm_mem st) = (rv, dev', free', mem')"
      by (metis prod.exhaust)
    note safe = update_step [OF assms m Some r]
    show ?thesis
    proof (cases "active_h2c_qcnt dev \<noteq> 0 \<or> active_c2h_qcnt dev \<noteq> 0 \<or> active_cmpt_qcnt dev \<noteq> 0")
      case False
      then have "counters_ok dev'"
        using safe counters_zero [of dev dev' "de_entry dev'"] by (auto simp: request_safe_def)
      then have "master_inv ((set_dev fid dev' m)\<lparr>free_list := free'\<rparr>)"
        by (rule master_inv_replace [OF rm_inv_master [OF assms(1) m] dl(1) safe])
          (simp_all add: set_dev_split [OF dl])
      then show ?thesis
        using rm_inv_upd [OF assms(1) m, of "\<lambda>m. (set_dev fid dev' m)\<lparr>free_list := free'\<rparr>"]
          m Some r False by (simp add: qdma_dev_update_def)
    qed (use assms m Some in \<open>simp add: qdma_dev_update_def\<close>)
  qed (use assms m in \<open>simp add: qdma_dev_update_def\<close>)
qed (use assms in \<open>simp add: qdma_dev_update_def\<close>)

lemma dev_update_conserved:
  assumes "rm_inv st" and "request_nowrap qmax qbase" and "rm_conserved st"
    and "False \<notin> set (rm_mem st)"
  shows "rm_conserved (snd (snd (qdma_dev_update idx fid qmax qbase st)))"
proof (cases "qdma_get_master_resource_entry idx st")
  case (Some m)
  note m = Some
  show ?thesis
  proof (cases "qdma_get_dev_entry idx fid st")
    case (Some dev)
    obtain ds es where dl: "dev_list m = ds @ dev # es" "de_func_id dev = fid"
        "\<forall>d \<in> set ds. de_func_id d \<noteq> fid" using get_dev_split [OF m Some] by blast
    obtain rv dev' free' mem' where
      r: "qdma_request_q_resource dev qmax qbase (free_list m) (rm_mem st) = (rv, dev', free', mem')"
      by (metis prod.exhaust)
    have u: "queues (de_entry dev') \<union> all_queues free' = queues (de_entry dev) \<union> all_queues (free_list m)"
      using update_step [OF assms(1,2) m Some r] assms(4) by (simp add: request_safe_def)
    have "conserved ((set_dev fid dev' m)\<lparr>free_list := free'\<rparr>)"
      using conserved_replace [OF rm_conserved_master [OF assms(3) m] dl(1) u]
      by (simp add: set_dev_split [OF dl])
    then show ?thesis
      using rm_conserved_upd [OF assms(3) m, of "\<lambda>m. (set_dev fid dev' m)\<lparr>free_list := free'\<rparr>"]
        m Some r assms(3) by (simp add: qdma_dev_update_def)
  qed (use assms m in \<open>simp add: qdma_dev_update_def\<close>)
qed (use assms in \<open>simp add: qdma_dev_update_def\<close>)

lemma dev_entry_create_inv:
  assumes "rm_inv st"
  shows "rm_inv (snd (qdma_dev_entry_create idx fid st))"
proof (cases "qdma_get_master_resource_entry idx st")
  case (Some m)
  let ?d = "\<lparr>de_func_id = fid, active_h2c_qcnt = 0, active_c2h_qcnt = 0, active_cmpt_qcnt = 0,
    de_entry = \<lparr>re_qbase = -1, re_total_q = 0\<rparr>\<rparr>"
  have "master_inv (m\<lparr>dev_list := dev_list m @ [?d]\<rparr>)" if "qdma_get_dev_entry idx fid st = None"
    using rm_inv_master [OF assms Some] that Some
    by (auto simp: master_inv_def sorted_wrt_append apart_def dev_chunk_ok_def counters_ok_def
        qdma_get_dev_entry_def find_None_iff)
  then have "rm_inv (upd_master idx (\<lambda>m. m\<lparr>dev_list := dev_list m @ [?d]\<rparr>) (st\<lparr>rm_mem := mem\<rparr>))"
    if "qdma_get_dev_entry idx fid st = None" for mem using rm_inv_upd [OF assms Some] that by simp
  then show ?thesis
    using assms Some
    by (auto simp: qdma_dev_entry_create_def Let_def rm_inv_mem split: option.splits prod.splits)
qed (use assms in \<open>simp add: qdma_dev_entry_create_def\<close>)

lemma dev_entry_create_conserved:
  assumes "rm_conserved st"
  shows "rm_conserved (snd (qdma_dev_entry_create idx fid st))"
proof (cases "qdma_get_master_resource_entry idx st")
  case (Some m)
  have "conserved (m\<lparr>dev_list := dev_list m @ [d]\<rparr>)" if "re_total_q (de_entry d) = 0" for d
    using rm_conserved_master [OF assms Some] that by (simp add: conserved_def owned_def)
  then have "rm_conserved (upd_master idx (\<lambda>m. m\<lparr>dev_list := dev_list m @ [d]\<rparr>) (st\<lparr>rm_mem := mem\<rparr>))"
    if "re_total_q (de_entry d) = 0" for d mem using rm_conserved_upd [OF assms Some] that by simp
  then show ?thesis
    using assms Some
    by (auto simp: qdma_dev_entry_create_def Let_def rm_inv_mem split: option.splits prod.splits)
qed (use assms in \<open>simp add: qdma_dev_entry_create_def\<close>)

lemma submit_step:
  assumes "master_inv m" and "dev_list m = ds @ dev # es"
    and "qdma_submit_to_free_list dev (free_list m) mem = (dev', free', mem')"
  shows "request_safe (m_lo m) (m_hi m) (queues (de_entry dev) \<union> all_queues (free_list m))
      mem dev dev' free' mem'"
    and "pool_ok (m_lo m) (m_hi m) (queues (de_entry dev) \<union> all_queues (free_list m)) mem free' mem'"
  by (rule submit_pool [OF _ _ _ _ assms(3) refl]; use assms in \<open>auto simp: master_inv_def\<close>)+

lemma dev_entry_destroy_eq:
  assumes m: "qdma_get_master_resource_entry idx st = Some m"
    and dev: "qdma_get_dev_entry idx fid st = Some dev"
    and s: "qdma_submit_to_free_list dev (free_list m) (rm_mem st) = (dev', free', mem')"
  shows "qdma_dev_entry_destroy idx fid st = upd_master idx
    (\<lambda>m. m\<lparr>dev_list := remove_first (\<lambda>d. de_func_id d = fid) (dev_list m), free_list := free'\<rparr>)
    (st\<lparr>rm_mem := mem'\<rparr>)"
  using assms by (simp add: qdma_dev_entry_destroy_def)

lemma dev_entry_destroy_inv:
  assumes "rm_inv st"
  shows "rm_inv (qdma_dev_entry_destroy idx fid st) \<and>
    (rm_conserved st \<and> False \<notin> set (rm_mem st) \<longrightarrow> rm_conserved (qdma_dev_entry_destroy idx fid st))"
proof (cases "\<exists>m dev. qdma_get_master_resource_entry idx st = Some m \<and>
    qdma_get_dev_entry idx fid st = Some dev")
  case True
  then obtain m dev where m: "qdma_get_master_resource_entry idx st = Some m"
      and dev: "qdma_get_dev_entry idx fid st = Some dev" by blast
  obtain ds es where dl: "dev_list m = ds @ dev # es" "de_func_id dev = fid"
      "\<forall>d \<in> set ds. de_func_id d \<noteq> fid" using get_dev_split [OF m dev] by blast
  obtain dev' free' mem' where
    s: "qdma_submit_to_free_list dev (free_list m) (rm_mem st) = (dev', free', mem')"
    by (metis prod.exhaust)
  note step = submit_step [OF rm_inv_master [OF assms m] dl(1) s]
  have rem: "remove_first (\<lambda>d. de_func_id d = fid) (dev_list m) = ds @ es"
    using dl by (simp add: remove_first_split)
  have "master_inv (m\<lparr>dev_list := ds @ es, free_list := free'\<rparr>)"
    by (rule master_inv_remove [OF rm_inv_master [OF assms m] dl(1) step(1)])
  moreover have "conserved (m\<lparr>dev_list := ds @ es, free_list := free'\<rparr>)"
    if "rm_conserved st" "False \<notin> set (rm_mem st)"
    using rm_conserved_master [OF that(1) m] step(2) that(2)
    by (auto simp: conserved_def owned_def dl(1) pool_ok_def)
  ultimately show ?thesis
    using rm_inv_upd [OF assms m] rm_conserved_upd [OF _ m]
    by (simp add: dev_entry_destroy_eq [OF m dev s] rem)
next
  case False
  then have "qdma_dev_entry_destroy idx fid st = st"
    by (auto simp: qdma_dev_entry_destroy_def split: option.splits)
  with assms show ?thesis by simp
qed

lemma master_resource_create_inv:
  assumes "rm_inv st" and "q_total \<noteq> 0" and "unat q_base + unat q_total < 2 ^ 31"
  shows "rm_inv (snd (snd (qdma_master_resource_create bus_start bus_end q_base q_total st)))"
    and "rm_conserved st \<Longrightarrow>
      rm_conserved (snd (snd (qdma_master_resource_create bus_start bus_end q_base q_total st)))"
  using assms
  by (auto simp: qdma_master_resource_create_def rm_inv_def rm_conserved_def master_inv_def
      conserved_def owned_def queues_eq m_lo_def m_hi_def free_ok_Cons chunk_ok_def Let_def
      split: option.splits prod.splits)

lemma set_remove_first: "set (remove_first P xs) \<subseteq> set xs"
  by (induction xs) auto

lemma master_resource_destroy_inv:
  assumes "rm_inv st"
  shows "rm_inv (qdma_master_resource_destroy idx st)"
    and "rm_conserved st \<Longrightarrow> rm_conserved (qdma_master_resource_destroy idx st)"
  using assms set_remove_first
  by (fastforce simp: qdma_master_resource_destroy_def rm_inv_def rm_conserved_def
      split: option.splits)+

text \<open>The counters change neither the chunk nor the function of an entry.\<close>

lemma set_q_counter_fields [simp]:
  "de_entry (set_q_counter q_type v d) = de_entry d"
  "de_func_id (set_q_counter q_type v d) = de_func_id d"
  by (simp_all add: set_q_counter_def)

lemma q_counter_set:
  "q_counter q_type d = Some c \<Longrightarrow> q_counter q_type' (set_q_counter q_type v d) =
     (if q_type' = q_type then Some v else q_counter q_type' d)"
  by (auto simp: q_counter_def set_q_counter_def split: if_splits)

lemma counters_ok_alt:
  "counters_ok d \<longleftrightarrow> (\<forall>q_type c. q_counter q_type d = Some c \<longrightarrow> c \<le> re_total_q (de_entry d))"
  (is "_ \<longleftrightarrow> ?all")
proof
  assume ?all
  from this [rule_format, of 0] this [rule_format, of 1] this [rule_format, of 2]
  show "counters_ok d" by (simp add: counters_ok_def q_counter_def)
qed (auto simp: counters_ok_def q_counter_def split: if_splits)

lemma counters_ok_set:
  assumes "counters_ok d" and "q_counter q_type d = Some c" and "v \<le> re_total_q (de_entry d)"
  shows "counters_ok (set_q_counter q_type v d)"
  using assms by (auto simp: counters_ok_alt q_counter_set split: if_splits)

lemma master_inv_count:
  assumes inv: "master_inv m" and dl: "dev_list m = ds @ dev # es" "de_func_id dev = fid"
      "\<forall>d \<in> set ds. de_func_id d \<noteq> fid"
    and "counters_ok dev'" and dev': "de_entry dev' = de_entry dev" "de_func_id dev' = de_func_id dev"
  shows "master_inv ((set_dev fid dev' m)\<lparr>active_qcnt := n\<rparr>)"
    and "conserved ((set_dev fid dev' m)\<lparr>active_qcnt := n\<rparr>) = conserved m"
proof -
  have "sorted_wrt apart (ds @ dev' # es)"
    using inv unfolding master_inv_def dl(1) by (simp add: sorted_wrt_append apart_def dev')
  moreover have "\<forall>d \<in> set (ds @ dev' # es). dev_chunk_ok (m_lo m) (m_hi m) (de_entry d) \<and>
      counters_ok d \<and> queues (de_entry d) \<inter> all_queues (free_list m) = {}"
    using inv assms(5) unfolding master_inv_def dl(1) by (simp add: dev')
  ultimately show "master_inv ((set_dev fid dev' m)\<lparr>active_qcnt := n\<rparr>)"
    using inv by (simp add: master_inv_def set_dev_split [OF dl])
  show "conserved ((set_dev fid dev' m)\<lparr>active_qcnt := n\<rparr>) = conserved m"
    by (simp add: conserved_def owned_def set_dev_split [OF dl] dl(1) dev')
qed

lemma counters_step:
  assumes "rm_inv st" and m: "qdma_get_master_resource_entry idx st = Some m"
    and dev: "qdma_get_dev_entry idx fid st = Some dev"
    and "counters_ok dev \<Longrightarrow> counters_ok dev'"
    and "de_entry dev' = de_entry dev" "de_func_id dev' = de_func_id dev"
  shows "rm_inv (upd_master idx (\<lambda>m. (set_dev fid dev' m)\<lparr>active_qcnt := g m\<rparr>) st)"
    and "rm_conserved st \<Longrightarrow>
      rm_conserved (upd_master idx (\<lambda>m. (set_dev fid dev' m)\<lparr>active_qcnt := g m\<rparr>) st)"
proof -
  obtain ds es where dl: "dev_list m = ds @ dev # es" "de_func_id dev = fid"
      "\<forall>d \<in> set ds. de_func_id d \<noteq> fid" using get_dev_split [OF m dev] by blast
  note inv = rm_inv_master [OF assms(1) m]
  have ok: "counters_ok dev'" using inv dl(1) assms(4) by (simp add: master_inv_def)
  note step = master_inv_count [OF inv dl ok assms(5,6), of "g m"]
  have st: "st\<lparr>rm_mem := rm_mem st\<rparr> = st" by simp
  show "rm_inv (upd_master idx (\<lambda>m. (set_dev fid dev' m)\<lparr>active_qcnt := g m\<rparr>) st)"
    using rm_inv_upd [OF assms(1) m, of "\<lambda>m. (set_dev fid dev' m)\<lparr>active_qcnt := g m\<rparr>" "rm_mem st"]
      step(1) st by simp
  show "rm_conserved (upd_master idx (\<lambda>m. (set_dev fid dev' m)\<lparr>active_qcnt := g m\<rparr>) st)"
    if "rm_conserved st"
    using rm_conserved_upd [OF that m, of "\<lambda>m. (set_dev fid dev' m)\<lparr>active_qcnt := g m\<rparr>" "rm_mem st"]
      step(2) rm_conserved_master [OF that m] st by simp
qed

lemma increment_inv:
  assumes "rm_inv st"
  shows "rm_inv (snd (qdma_dev_increment_active_queue idx fid q_type st)) \<and>
    (rm_conserved st \<longrightarrow> rm_conserved (snd (qdma_dev_increment_active_queue idx fid q_type st)))"
  using assms counters_step [OF assms] counters_ok_set
  by (auto simp: qdma_dev_increment_active_queue_def not_less split: option.splits)

lemma decrement_counters:
  assumes "counters_ok dev" and "q_counter q_type dev = Some c" and "c \<noteq> 0"
  shows "counters_ok (set_q_counter q_type (c - 1) dev)"
proof -
  have "c - 1 \<le> c" using assms(3) by (simp add: word_le_nat_alt unat_minus_one)
  also have "c \<le> re_total_q (de_entry dev)" using assms(1,2) by (simp add: counters_ok_alt)
  finally show ?thesis using assms(1,2) by (intro counters_ok_set)
qed

lemma decrement_inv:
  assumes "rm_inv st"
  shows "rm_inv (snd (qdma_dev_decrement_active_queue idx fid q_type st)) \<and>
    (rm_conserved st \<longrightarrow> rm_conserved (snd (qdma_dev_decrement_active_queue idx fid q_type st)))"
  using assms counters_step [OF assms] decrement_counters
  by (auto simp: qdma_dev_decrement_active_queue_def split: option.splits)

section \<open>Sequences of operations\<close>

datatype rm_op =
    Master_create u32 u32 i32 u32
  | Master_destroy u32
  | Dev_create u32 u16
  | Dev_destroy u32 u16
  | Dev_update u32 u16 u32 i32
  | Increment u32 u16 u32
  | Decrement u32 u16 u32

fun rm_exec :: "rm_op \<Rightarrow> rm_state \<Rightarrow> rm_state" where
  "rm_exec (Master_create bs be qb qt) st = snd (snd (qdma_master_resource_create bs be qb qt st))"
| "rm_exec (Master_destroy idx) st = qdma_master_resource_destroy idx st"
| "rm_exec (Dev_create idx fid) st = snd (qdma_dev_entry_create idx fid st)"
| "rm_exec (Dev_destroy idx fid) st = qdma_dev_entry_destroy idx fid st"
| "rm_exec (Dev_update idx fid qmax qbase) st = snd (snd (qdma_dev_update idx fid qmax qbase st))"
| "rm_exec (Increment idx fid q_type) st = snd (qdma_dev_increment_active_queue idx fid q_type st)"
| "rm_exec (Decrement idx fid q_type) st = snd (qdma_dev_decrement_active_queue idx fid q_type st)"

text \<open>What the callers have to respect: a board has a non-empty queue range whose bounds are
  non-negative as C \<^verbatim>\<open>int\<close>, and the end of a wanted range does not wrap around.\<close>

fun rm_op_ok :: "rm_op \<Rightarrow> bool" where
  "rm_op_ok (Master_create _ _ qb qt) \<longleftrightarrow> qt \<noteq> 0 \<and> unat qb + unat qt < 2 ^ 31"
| "rm_op_ok (Dev_update _ _ qmax qbase) \<longleftrightarrow> request_nowrap qmax qbase"
| "rm_op_ok _ \<longleftrightarrow> True"

text \<open>Interface of a manager of exclusively owned resources: any state machine with an invariant
  that its guarded steps keep and under which an item has at most one owner.\<close>

locale guarded_machine =
  fixes exec :: "'op \<Rightarrow> 's \<Rightarrow> 's" and ok :: "'op \<Rightarrow> bool" and inv :: "'s \<Rightarrow> bool"
  assumes step: "inv s \<Longrightarrow> ok op \<Longrightarrow> inv (exec op s)"
begin

lemma run: "inv s \<Longrightarrow> list_all ok ops \<Longrightarrow> inv (fold exec ops s)"
  by (induction ops arbitrary: s) (auto intro: step)

end

locale exclusive_owner = guarded_machine exec ok inv
  for exec :: "'op \<Rightarrow> 's \<Rightarrow> 's" and ok :: "'op \<Rightarrow> bool" and inv :: "'s \<Rightarrow> bool" +
  fixes owns :: "'s \<Rightarrow> 'owner \<Rightarrow> 'item \<Rightarrow> bool"
  assumes exclusive: "inv s \<Longrightarrow> owns s f q \<Longrightarrow> owns s g q \<Longrightarrow> f = g"
begin

lemma run_exclusive:
  assumes "inv s" and "list_all ok ops"
    and "owns (fold exec ops s) f q" and "owns (fold exec ops s) g q"
  shows "f = g"
  using exclusive [OF run [OF assms(1,2)] assms(3,4)] .

end

text \<open>The range test of the code decides membership in the chunk of the function.\<close>

lemma entry_in_range_iff:
  assumes "dev_chunk_ok lo hi e" and "hi < 2 ^ 31"
  shows "entry_in_range e qid \<longleftrightarrow> unat qid \<in> queues e"
proof (cases "re_total_q e = 0")
  case False
  then have c: "chunk_ok lo hi e" using assms(1) by (simp add: dev_chunk_ok_def)
  have sum: "unat (re_qbase e + re_total_q e) = c_end e"
    using c assms(2) by (simp add: chunk_ok_def c_end_def unat_plus_bounded)
  have base: "unat (re_qbase e) < 2 ^ 31" using c assms(2) by (simp add: chunk_ok_def c_end_def)
  show ?thesis
  proof (cases "unat qid < c_end e")
    case True
    then have "unat qid < 2 ^ 31" using c assms(2) by (simp add: chunk_ok_def)
    then show ?thesis
      using False True sum base
      by (simp add: entry_in_range_def queues_def c_start_def word_less_nat_alt signed_compare)
  next
    case False
    then show ?thesis using sum by (simp add: entry_in_range_def queues_def word_less_nat_alt)
  qed
qed (simp add: entry_in_range_def)

definition rm_owns :: "rm_state \<Rightarrow> u32 \<times> u16 \<Rightarrow> u32 \<times> u32 \<Rightarrow> bool" where
  "rm_owns st f q \<longleftrightarrow>
     fst f = fst q \<and> qdma_dev_is_queue_in_range (fst f) (snd f) (snd q) st = QDMA_DEV_Q_IN_RANGE"

lemma in_range_dev:
  assumes "qdma_dev_is_queue_in_range idx fid qid st = QDMA_DEV_Q_IN_RANGE" and "rm_inv st"
  obtains m dev where "qdma_get_master_resource_entry idx st = Some m"
    and "dev \<in> set (dev_list m)" and "de_func_id dev = fid" and "unat qid \<in> queues (de_entry dev)"
proof -
  from assms(1) obtain m dev where m: "qdma_get_master_resource_entry idx st = Some m"
      and dev: "qdma_get_dev_entry idx fid st = Some dev" and r: "entry_in_range (de_entry dev) qid"
    by (auto simp: qdma_dev_is_queue_in_range_def split: option.splits if_splits)
  obtain ds es where dl: "dev_list m = ds @ dev # es" "de_func_id dev = fid"
    using get_dev_split [OF m dev] by blast
  have "dev_chunk_ok (m_lo m) (m_hi m) (de_entry dev)" "m_hi m < 2 ^ 31"
    using rm_inv_master [OF assms(2) m] dl(1) by (auto simp: master_inv_def)
  from entry_in_range_iff [OF this] r m dl show thesis by (intro that) auto
qed

lemma rm_exclusive:
  assumes "rm_inv st" and "rm_owns st f q" and "rm_owns st g q"
  shows "f = g"
proof -
  obtain i fid where f: "f = (i, fid)" by (cases f)
  obtain j gid where g: "g = (j, gid)" by (cases g)
  have eq: "fst q = i" "j = i" using assms(2,3) by (simp_all add: rm_owns_def f g)
  have f': "qdma_dev_is_queue_in_range i fid (snd q) st = QDMA_DEV_Q_IN_RANGE"
    and g': "qdma_dev_is_queue_in_range i gid (snd q) st = QDMA_DEV_Q_IN_RANGE"
    using assms(2,3) eq by (simp_all add: rm_owns_def f g)
  obtain m d where d: "qdma_get_master_resource_entry i st = Some m" "d \<in> set (dev_list m)"
      "de_func_id d = fid" "unat (snd q) \<in> queues (de_entry d)"
    using in_range_dev [OF f' assms(1)] by blast
  obtain e where e: "e \<in> set (dev_list m)" "de_func_id e = gid" "unat (snd q) \<in> queues (de_entry e)"
    using in_range_dev [OF g' assms(1)] d(1) by auto
  have "sorted_wrt apart (dev_list m)" using rm_inv_master [OF assms(1) d(1)] by (simp add: master_inv_def)
  from sorted_wrt_total [OF this d(2) e(1)] d e have "fid = gid" by (auto simp: apart_def)
  then show ?thesis by (simp add: f g eq(2))
qed

interpretation rm: exclusive_owner rm_exec rm_op_ok rm_inv rm_owns
proof
  fix s :: rm_state and op
  assume "rm_inv s" and "rm_op_ok op"
  then show "rm_inv (rm_exec op s)"
    by (cases op) (simp_all add: master_resource_create_inv master_resource_destroy_inv
        dev_entry_create_inv dev_entry_destroy_inv dev_update_inv increment_inv decrement_inv)
qed (fact rm_exclusive)

text \<open>A second reading of the same machine, while every allocation succeeds.\<close>

definition rm_full :: "rm_state \<Rightarrow> bool" where
  "rm_full st \<longleftrightarrow> rm_inv st \<and> rm_conserved st \<and> rm_mem st = []"

lemma upd_master_mem [simp]: "rm_mem (upd_master idx f st) = rm_mem st"
  by (simp add: upd_master_def)

lemma rm_exec_mem:
  assumes "rm_inv st" and "rm_op_ok op" and "rm_mem st = []"
  shows "rm_mem (rm_exec op st) = []"
proof (cases op)
  case (Dev_update idx fid qmax qbase)
  show ?thesis
  proof (cases "\<exists>m dev. qdma_get_master_resource_entry idx st = Some m \<and>
      qdma_get_dev_entry idx fid st = Some dev")
    case True
    then obtain m dev where m: "qdma_get_master_resource_entry idx st = Some m"
        and dev: "qdma_get_dev_entry idx fid st = Some dev" by blast
    obtain rv dev' free' mem' where
      r: "qdma_request_q_resource dev qmax qbase (free_list m) (rm_mem st) = (rv, dev', free', mem')"
      by (metis prod.exhaust)
    have "mem' = []"
      using update_step [OF assms(1) _ m dev r] assms(2,3) Dev_update by (simp add: request_safe_def)
    with r m dev assms(3) show ?thesis by (simp add: Dev_update qdma_dev_update_def)
  next
    case False
    with assms(3) show ?thesis
      by (auto simp: Dev_update qdma_dev_update_def split: option.splits)
  qed
next
  case (Dev_destroy idx fid)
  show ?thesis
  proof (cases "\<exists>m dev. qdma_get_master_resource_entry idx st = Some m \<and>
      qdma_get_dev_entry idx fid st = Some dev")
    case True
    then obtain m dev where m: "qdma_get_master_resource_entry idx st = Some m"
        and dev: "qdma_get_dev_entry idx fid st = Some dev" by blast
    obtain dev' free' mem' where
      s: "qdma_submit_to_free_list dev (free_list m) (rm_mem st) = (dev', free', mem')"
      by (metis prod.exhaust)
    obtain ds es where "dev_list m = ds @ dev # es" using get_dev_split [OF m dev] by blast
    from submit_step(2) [OF rm_inv_master [OF assms(1) m] this s] assms(3)
    show ?thesis by (simp add: Dev_destroy dev_entry_destroy_eq [OF m dev s] pool_ok_def)
  next
    case False
    with assms(3) show ?thesis
      by (auto simp: Dev_destroy qdma_dev_entry_destroy_def split: option.splits)
  qed
qed (use assms(3) in \<open>auto simp: qdma_master_resource_create_def qdma_calloc_def
    qdma_master_resource_destroy_def qdma_dev_entry_create_def Let_def
    qdma_dev_increment_active_queue_def qdma_dev_decrement_active_queue_def
    split: option.splits prod.splits\<close>)

interpretation rm_alloc: guarded_machine rm_exec rm_op_ok rm_full
proof
  fix s :: rm_state and op
  assume full: "rm_full s" and ok: "rm_op_ok op"
  then have "rm_conserved (rm_exec op s)"
    by (cases op) (simp_all add: rm_full_def master_resource_create_inv master_resource_destroy_inv
        dev_entry_create_conserved dev_entry_destroy_inv dev_update_conserved increment_inv
        decrement_inv)
  with full ok rm.step [of s op] rm_exec_mem [of s op] show "rm_full (rm_exec op s)"
    by (simp add: rm_full_def)
qed

definition rm_start :: "mem \<Rightarrow> rm_state" where
  "rm_start mem = \<lparr>master_resource_list = [], rm_index = 0, rm_mem = mem\<rparr>"

lemma rm_start_inv: "rm_inv (rm_start mem)" "rm_full (rm_start [])"
  by (simp_all add: rm_start_def rm_inv_def rm_full_def rm_conserved_def)

section \<open>Properties of the resource manager\<close>

lemma in_range_dichotomy:
  "qdma_dev_is_queue_in_range idx fid qid st \<noteq> QDMA_DEV_Q_IN_RANGE \<Longrightarrow>
     qdma_dev_is_queue_in_range idx fid qid st = QDMA_DEV_Q_OUT_OF_RANGE"
  by (auto simp: qdma_dev_is_queue_in_range_def split: option.splits if_splits)

text \<open>C1: No queue is ever shared.  After any sequence of resource manager operations whose
  wanted ranges do not wrap around, and whatever allocations fail, a hardware queue that is in the
  range of one function of a board is out of the range of every other function of that board.\<close>

theorem rm_no_sharing:
  assumes "list_all rm_op_ok ops" and "f \<noteq> g"
    and "qdma_dev_is_queue_in_range idx f qid (fold rm_exec ops (rm_start mem)) = QDMA_DEV_Q_IN_RANGE"
  shows "qdma_dev_is_queue_in_range idx g qid (fold rm_exec ops (rm_start mem))
    = QDMA_DEV_Q_OUT_OF_RANGE"
proof (rule in_range_dichotomy, rule notI)
  assume "qdma_dev_is_queue_in_range idx g qid (fold rm_exec ops (rm_start mem)) = QDMA_DEV_Q_IN_RANGE"
  with assms(3) rm.run_exclusive [OF rm_start_inv(1) assms(1), of mem "(idx, f)" "(idx, qid)" "(idx, g)"]
  have "f = g" by (simp add: rm_owns_def)
  with assms(2) show False ..
qed

definition demo_ops :: "rm_op list" where
  "demo_ops = [Master_create 0 1 0 16, Dev_create 0 1, Dev_create 0 2,
     Dev_update 0 1 4 (-1), Dev_update 0 2 6 4, Increment 0 1 0]"

lemma demo_ok: "list_all rm_op_ok demo_ops"
  by (simp add: demo_ops_def request_nowrap_def)

theorem rm_no_sharing_witness:
  "qdma_dev_is_queue_in_range 0 2 3 (fold rm_exec demo_ops (rm_start [])) = QDMA_DEV_Q_OUT_OF_RANGE"
proof (rule rm_no_sharing [OF demo_ok])
  show "(1::u16) \<noteq> 2" by simp
  show "qdma_dev_is_queue_in_range 0 1 3 (fold rm_exec demo_ops (rm_start [])) = QDMA_DEV_Q_IN_RANGE"
    by code_simp
qed

text \<open>C23: Queues are never lost.  While allocations succeed, after any sequence of operations whose requests do not wrap
  around the queue range of every board is partitioned: each queue is either owned by a function or free, and
  none is both.\<close>

theorem rm_queues_partitioned:
  assumes "list_all rm_op_ok ops"
    and "m \<in> set (master_resource_list (fold rm_exec ops (rm_start [])))"
  shows "owned m \<union> all_queues (free_list m) = {m_lo m ..< m_hi m} \<and>
    owned m \<inter> all_queues (free_list m) = {}"
proof -
  have full: "rm_full (fold rm_exec ops (rm_start []))"
    using rm_alloc.run [OF rm_start_inv(2) assms(1)] .
  then have "conserved m" "master_inv m"
    using assms(2) by (auto simp: rm_full_def rm_conserved_def rm_inv_def)
  then show ?thesis by (auto simp: conserved_def master_inv_def owned_def all_queues_def)
qed

theorem rm_queues_partitioned_witness:
  "owned (hd (master_resource_list (fold rm_exec demo_ops (rm_start [])))) \<union>
     all_queues (free_list (hd (master_resource_list (fold rm_exec demo_ops (rm_start [])))))
   = {0 ..< 16}"
proof -
  let ?ms = "master_resource_list (fold rm_exec demo_ops (rm_start []))"
  have ne: "?ms \<noteq> []" by code_simp
  have "m_lo (hd ?ms) = 0" "m_hi (hd ?ms) = 16" by code_simp+
  with rm_queues_partitioned [OF demo_ok hd_in_set [OF ne]] show ?thesis by simp
qed

lemma dev_update_state:
  assumes m: "qdma_get_master_resource_entry idx st = Some m"
    and dev: "qdma_get_dev_entry idx fid st = Some dev"
    and idle: "active_h2c_qcnt dev = 0" "active_c2h_qcnt dev = 0" "active_cmpt_qcnt dev = 0"
    and r: "qdma_request_q_resource dev qmax qbase (free_list m) (rm_mem st) = (rv, dev', free', mem')"
    and id: "de_func_id dev' = fid"
  shows "qdma_dev_update idx fid qmax qbase st =
      (rv, re_qbase (de_entry dev'), upd_master idx
         (\<lambda>m. (set_dev fid dev' m)\<lparr>free_list := free'\<rparr>) (st\<lparr>rm_mem := mem'\<rparr>))"
    and "qdma_get_dev_entry idx fid
      (upd_master idx (\<lambda>m. (set_dev fid dev' m)\<lparr>free_list := free'\<rparr>) (st\<lparr>rm_mem := mem'\<rparr>)) = Some dev'"
    and "qdma_get_master_resource_entry idx
      (upd_master idx (\<lambda>m. (set_dev fid dev' m)\<lparr>free_list := free'\<rparr>) (st\<lparr>rm_mem := mem'\<rparr>))
      = Some ((set_dev fid dev' m)\<lparr>free_list := free'\<rparr>)"
proof -
  let ?f = "\<lambda>m. (set_dev fid dev' m)\<lparr>free_list := free'\<rparr>"
  show "qdma_dev_update idx fid qmax qbase st =
      (rv, re_qbase (de_entry dev'), upd_master idx ?f (st\<lparr>rm_mem := mem'\<rparr>))"
    using assms by (simp add: qdma_dev_update_def)
  show get: "qdma_get_master_resource_entry idx (upd_master idx ?f (st\<lparr>rm_mem := mem'\<rparr>)) = Some (?f m)"
    using m get_master_mem [OF m] by (intro get_master_upd) simp_all
  have "List.find (\<lambda>d. de_func_id d = fid) (dev_list m) = Some dev"
    using m dev by (simp add: qdma_get_dev_entry_def)
  from find_update_first [OF this, of "\<lambda>_. dev'"] id
  show "qdma_get_dev_entry idx fid (upd_master idx ?f (st\<lparr>rm_mem := mem'\<rparr>)) = Some dev'"
    unfolding qdma_get_dev_entry_def get by (simp add: set_dev_def)
qed

lemma dev_update_decides:
  assumes inv: "rm_inv st" and m: "qdma_get_master_resource_entry idx st = Some m"
    and dev: "qdma_get_dev_entry idx fid st = Some dev"
    and idle: "active_h2c_qcnt dev = 0" "active_c2h_qcnt dev = 0" "active_cmpt_qcnt dev = 0"
    and coalesced: "sorted_wrt (\<lambda>a b. c_end a < c_start b) (free_list m)"
    and mem: "False \<notin> set (rm_mem st)" and nz: "qmax \<noteq> 0" and nowrap: "request_nowrap qmax qbase"
    and avail: "avail = queues (de_entry dev) \<union> all_queues (free_list m)"
    and upd: "qdma_dev_update idx fid qmax qbase st = (rv, b, st')"
  shows "if run_available (unat qmax) avail
    then rv = QDMA_SUCCESS \<and> qdma_dev_qinfo_get idx fid st' = (QDMA_SUCCESS, Some (b, qmax)) \<and>
      (0 \<le> sint qbase \<and> {unat qbase ..< unat qbase + unat qmax} \<subseteq> avail \<longrightarrow> b = qbase)
    else rv = - QDMA_ERR_RM_NO_QUEUES_LEFT \<and>
      (\<forall>qid. qdma_dev_is_queue_in_range idx fid qid st' = qdma_dev_is_queue_in_range idx fid qid st)"
proof -
  obtain ds es where dl: "dev_list m = ds @ dev # es" "de_func_id dev = fid"
    using get_dev_split [OF m dev] by blast
  obtain rv' dev' free' mem' where
    r: "qdma_request_q_resource dev qmax qbase (free_list m) (rm_mem st) = (rv', dev', free', mem')"
    by (metis prod.exhaust)
  note safe = update_step [OF inv nowrap m dev r]
  have hi: "m_hi m < 2 ^ 31" and d: "dev_chunk_ok (m_lo m) (m_hi m) (de_entry dev)"
    and fok: "free_ok (m_lo m) (m_hi m) (free_list m)"
    and dis: "queues (de_entry dev) \<inter> all_queues (free_list m) = {}"
    using rm_inv_master [OF inv m] dl(1) by (auto simp: master_inv_def)
  have "dev' = dev\<lparr>de_entry := de_entry dev'\<rparr>" using safe by (simp add: request_safe_def)
  then have "de_func_id dev' = de_func_id (dev\<lparr>de_entry := de_entry dev'\<rparr>)" by (rule arg_cong)
  then have id: "de_func_id dev' = fid" using dl(2) by simp
  note new = dev_update_state [OF m dev idle r id]
  from upd new(1) have st': "rv = rv'" "b = re_qbase (de_entry dev')"
    "st' = upd_master idx (\<lambda>m. (set_dev fid dev' m)\<lparr>free_list := free'\<rparr>) (st\<lparr>rm_mem := mem'\<rparr>)"
    by simp_all
  have d': "dev_chunk_ok (m_lo m) (m_hi m) (de_entry dev')" using safe by (simp add: request_safe_def)
  note range = entry_in_range_iff [OF d hi] entry_in_range_iff [OF d' hi]
  from request_q_resource_exact [OF fok hi d dis nowrap [unfolded request_nowrap_def] coalesced
      mem nz avail r]
  show ?thesis
    unfolding st' qdma_dev_qinfo_get_def qdma_dev_is_queue_in_range_def new(2,3) m dev option.case range
    by (auto split: if_splits)
qed

text \<open>C24: A request for queues is decided exactly.  For a request of at least one queue that does not wrap around, by an
  idle function, on a coalesced free list and while allocations succeed, \<^verbatim>\<open>qdma_dev_update\<close> succeeds exactly when the function's own queues
  together with the free ones contain a run of the wanted length; the function then owns exactly
  the wanted number of queues from the returned base, which is the wanted base whenever that range
  is available.  A refused request leaves the function with the queues it had.\<close>

theorem dev_update_exact:
  assumes inv: "rm_inv st" and m: "qdma_get_master_resource_entry idx st = Some m"
    and dev: "qdma_get_dev_entry idx fid st = Some dev"
    and idle: "active_h2c_qcnt dev = 0" "active_c2h_qcnt dev = 0" "active_cmpt_qcnt dev = 0"
    and coalesced: "sorted_wrt (\<lambda>a b. c_end a < c_start b) (free_list m)"
    and mem: "False \<notin> set (rm_mem st)" and nz: "qmax \<noteq> 0" and nowrap: "request_nowrap qmax qbase"
    and avail: "avail = queues (de_entry dev) \<union> all_queues (free_list m)"
    and upd: "qdma_dev_update idx fid qmax qbase st = (rv, b, st')"
  shows "if run_available (unat qmax) avail
    then rv = QDMA_SUCCESS \<and> qdma_dev_qinfo_get idx fid st' = (QDMA_SUCCESS, Some (b, qmax)) \<and>
      (0 \<le> sint qbase \<and> {unat qbase ..< unat qbase + unat qmax} \<subseteq> avail \<longrightarrow> b = qbase)
    else rv = - QDMA_ERR_RM_NO_QUEUES_LEFT \<and>
      (\<forall>qid. qdma_dev_is_queue_in_range idx fid qid st' = qdma_dev_is_queue_in_range idx fid qid st)"
  by (rule dev_update_decides [OF assms])

definition demo_st :: rm_state where
  "demo_st = fold rm_exec
     [Master_create 0 1 0 16, Dev_create 0 1, Dev_create 0 2, Dev_update 0 1 4 (-1)] (rm_start [])"

lemma demo_st_inv: "rm_inv demo_st"
  unfolding demo_st_def by (rule rm.run [OF rm_start_inv(1)]) (simp add: request_nowrap_def)

theorem dev_update_exact_witness:
  "fst (qdma_dev_update 0 2 6 8 demo_st) = 0 \<and>
   qdma_dev_qinfo_get 0 2 (snd (snd (qdma_dev_update 0 2 6 8 demo_st))) = (0, Some (8, 6))"
proof -
  let ?m = "the (qdma_get_master_resource_entry 0 demo_st)"
  let ?d = "the (qdma_get_dev_entry 0 2 demo_st)"
  let ?u = "qdma_dev_update 0 2 6 8 demo_st"
  have m: "qdma_get_master_resource_entry 0 demo_st = Some ?m" by code_simp
  have d: "qdma_get_dev_entry 0 2 demo_st = Some ?d" by code_simp
  have c: "active_h2c_qcnt ?d = 0" "active_c2h_qcnt ?d = 0" "active_cmpt_qcnt ?d = 0" by code_simp+
  have f: "free_list ?m = [\<lparr>re_qbase = 4, re_total_q = 12\<rparr>]" by code_simp
  have e: "re_total_q (de_entry ?d) = 0" by code_simp
  have mem: "rm_mem demo_st = []" by code_simp
  have avail: "{4 ..< 16} = queues (de_entry ?d) \<union> all_queues (free_list ?m)"
    by (simp add: e f queues_eq)
  have run: "run_available 6 {4 ..< 16}" unfolding run_available_def by (rule exI [of _ 8]) simp
  show ?thesis
    using dev_update_exact [OF demo_st_inv m d c, of 6 8 "{4 ..< 16}" "fst ?u" "fst (snd ?u)" "snd (snd ?u)"]
      f mem avail [symmetric] run by (simp add: request_nowrap_def)
qed

text \<open>C25: The active-queue counters of a function are bounded by its allocation.  After any
  sequence of operations, the number of active queues the manager reports for a function and a
  queue type lies between zero and the number of queues the function owns.\<close>

theorem active_count_bounded:
  assumes "list_all rm_op_ok ops" and "st = fold rm_exec ops (rm_start mem)"
    and q: "qdma_dev_qinfo_get idx fid st = (QDMA_SUCCESS, Some (b, n))"
  shows "0 \<le> qdma_get_device_active_queue_count idx fid q_type st \<and>
    qdma_get_device_active_queue_count idx fid q_type st \<le> int (unat n)"
proof -
  have inv: "rm_inv st" using rm.run [OF rm_start_inv(1) assms(1)] assms(2) by simp
  obtain m dev where m: "qdma_get_master_resource_entry idx st = Some m"
      and dev: "qdma_get_dev_entry idx fid st = Some dev" and n: "n = re_total_q (de_entry dev)"
    using q by (auto simp: qdma_dev_qinfo_get_def split: option.splits)
  obtain ds es where "dev_list m = ds @ dev # es" using get_dev_split [OF m dev] by blast
  then have ok: "counters_ok dev" and d: "dev_chunk_ok (m_lo m) (m_hi m) (de_entry dev)"
    and hi: "m_hi m < 2 ^ 31" using rm_inv_master [OF inv m] by (auto simp: master_inv_def)
  have small: "unat n < 2 ^ 31"
    using d hi n by (auto simp: dev_chunk_ok_def chunk_ok_def c_end_def)
  show ?thesis
  proof (cases "q_counter q_type dev")
    case (Some c)
    then have le: "unat c \<le> unat n" using ok n by (auto simp: counters_ok_alt word_le_nat_alt)
    then have "sint c = int (unat c)" using small by (intro sint_small) simp
    moreover have "uint c \<le> uint n" using le by (simp add: word_le_def [symmetric] word_le_nat_alt)
    ultimately show ?thesis
      using m dev Some by (simp add: qdma_get_device_active_queue_count_def)
  qed (simp add: qdma_get_device_active_queue_count_def m dev)
qed

theorem active_count_bounded_witness:
  "qdma_get_device_active_queue_count 0 1 0 (fold rm_exec demo_ops (rm_start [])) \<le> 4"
proof -
  have "qdma_dev_qinfo_get 0 1 (fold rm_exec demo_ops (rm_start [])) = (QDMA_SUCCESS, Some (0, 4))"
    by code_simp
  from active_count_bounded [OF demo_ok refl this, of 0] show ?thesis by simp
qed

text \<open>The board an operation works on.\<close>

fun op_board :: "rm_op \<Rightarrow> u32 option" where
  "op_board (Master_create _ _ _ _) = None"
| "op_board (Master_destroy idx) = Some idx"
| "op_board (Dev_create idx _) = Some idx"
| "op_board (Dev_destroy idx _) = Some idx"
| "op_board (Dev_update idx _ _ _) = Some idx"
| "op_board (Increment idx _ _) = Some idx"
| "op_board (Decrement idx _ _) = Some idx"

lemma find_remove_first_other:
  "\<lbrakk>\<And>x. P x \<Longrightarrow> \<not> Q x\<rbrakk> \<Longrightarrow> List.find Q (remove_first P xs) = List.find Q xs"
  by (induction xs) auto

text \<open>Boards are isolated.  An operation on one board leaves the whole record of every other
  board as it was: its functions, their chunks, their counters and its free list.\<close>

theorem board_isolation:
  assumes "op_board op = Some idx" and "idx' \<noteq> idx"
  shows "qdma_get_master_resource_entry idx' (rm_exec op st) = qdma_get_master_resource_entry idx' st"
proof (cases op)
  case (Master_destroy i)
  then show ?thesis
    using assms find_remove_first_other
      [of "\<lambda>m. dma_device_index m = idx" "\<lambda>m. dma_device_index m = idx'" "master_resource_list st"]
    by (auto simp: qdma_master_resource_destroy_def qdma_get_master_resource_entry_def split: option.splits)
qed (use assms in \<open>auto simp: qdma_dev_entry_create_def qdma_dev_entry_destroy_def qdma_dev_update_def
    qdma_dev_increment_active_queue_def qdma_dev_decrement_active_queue_def get_master_upd_other Let_def
    split: option.splits prod.splits\<close>)

theorem board_isolation_witness:
  "qdma_get_master_resource_entry 1 (rm_exec (Dev_update 0 2 6 8) demo_st) =
     qdma_get_master_resource_entry 1 demo_st"
  by (rule board_isolation [where idx = 0]) simp_all

text \<open>Wrap-around of the wanted range breaks exclusive ownership.  The search for a wanted base
  compares \<^verbatim>\<open>qbase + qmax\<close> in 32-bit arithmetic, so a wanted count close to the largest value
  passes the test.  One such request of a first function leaves overlapping chunks on the free list,
  and two ordinary requests of a second and a third function then own queue 5 both.\<close>

theorem wrapped_request_shares_queue:
  "let st = fold rm_exec
     [Master_create 0 1 0 16, Dev_create 0 1, Dev_create 0 2, Dev_create 0 3,
      Dev_update 0 1 0xFFFFFFFC 8, Dev_update 0 2 8 (-1), Dev_update 0 3 12 (-1)] (rm_start [])
   in qdma_dev_is_queue_in_range 0 2 5 st = QDMA_DEV_Q_IN_RANGE \<and>
      qdma_dev_is_queue_in_range 0 3 5 st = QDMA_DEV_Q_IN_RANGE"
  by code_simp

text \<open>A refused request can fragment the free list for good.  When a function that owns no
  queue is refused, the code restores an allocation of zero queues at its old base, which can split
  a free chunk in two; nothing merges the halves while the function owns no queue, and a later
  request for all sixteen queues is refused although all sixteen are free.\<close>

theorem refused_request_fragments:
  "let st = fold rm_exec
     [Master_create 0 1 0 16, Dev_create 0 1, Dev_create 0 2, Dev_update 0 2 4 (-1),
      Dev_update 0 1 100 (-1), Dev_update 0 2 0 (-1), Dev_update 0 1 100 (-1)] (rm_start [])
   in map free_list (master_resource_list st) =
        [[\<lparr>re_qbase = 0, re_total_q = 4\<rparr>, \<lparr>re_qbase = 4, re_total_q = 12\<rparr>]] \<and>
      fst (qdma_dev_update 0 1 16 (-1) st) = - QDMA_ERR_RM_NO_QUEUES_LEFT"
  by code_simp

text \<open>Decrementing a counter that is already zero.  The counter of the function stops at zero,
  but the counter of the board is decremented all the same, so one unmatched decrement makes the
  board report that its largest possible number of queues is active.\<close>

theorem decrement_underflow:
  assumes "qdma_get_master_resource_entry idx st = Some m" and "active_qcnt m = 0"
    and "qdma_get_dev_entry idx fid st = Some dev"
  shows "qdma_get_active_queue_count idx (snd (qdma_dev_decrement_active_queue idx fid q_type st))
    = 0xFFFFFFFF"
proof -
  have "dma_device_index m = idx" using get_master_mem [OF assms(1)] by simp
  then show ?thesis
    using assms by (simp add: qdma_dev_decrement_active_queue_def qdma_get_active_queue_count_def
        get_master_upd Let_def split: prod.splits)
qed

theorem decrement_underflow_witness:
  "qdma_get_active_queue_count 0 (snd (qdma_dev_decrement_active_queue 0 1 0 demo_st)) = 0xFFFFFFFF"
proof (rule decrement_underflow)
  show "qdma_get_master_resource_entry 0 demo_st = Some (the (qdma_get_master_resource_entry 0 demo_st))"
    by code_simp
  show "active_qcnt (the (qdma_get_master_resource_entry 0 demo_st)) = 0" by code_simp
  show "qdma_get_dev_entry 0 1 demo_st = Some (the (qdma_get_dev_entry 0 1 demo_st))" by code_simp
qed

end
