(* ===== verification/RegFields.thy ===== *)
theory RegFields
  imports Prelude
begin

text \<open>
  Bit fields of registers: the helper macros of \<^verbatim>\<open>qdma_access_common.h\<close> and
  \<^verbatim>\<open>qdma_soft_reg.h\<close>.  A field is given by a contiguous mask; the macros find the position of
  the field by a binary search for the lowest set bit of the mask.  The theory shows that the
  search finds that bit and derives the algebra of fields the context codecs rest on: extracting
  a field that was set gives the value cut to the width of the field, extracting it from a word
  in which only other fields were set gives zero, and extraction distributes over bitwise or.
\<close>

unbundle bit_operations_syntax

section \<open>Lowest set bit\<close>

definition tz_step :: "nat \<Rightarrow> nat \<times> u64 \<Rightarrow> nat \<times> u64" where
  "tz_step k pv =
     (if snd pv AND mask k = 0 then (fst pv + k, drop_bit k (snd pv)) else pv)"

definition get_trailing_zeros :: "u64 \<Rightarrow> nat" where
  "get_trailing_zeros value =
     (let pv = tz_step 2 (tz_step 4 (tz_step 8 (tz_step 16 (tz_step 32 (0, value)))))
      in if snd pv AND 1 = 0 then fst pv + 1 else fst pv)"

definition lowest :: "u64 \<Rightarrow> nat \<Rightarrow> bool" where
  "lowest v n \<longleftrightarrow> bit v n \<and> (\<forall>i < n. \<not> bit v i)"

lemma and_mask_zero_iff:
  fixes v :: "'a::len word"
  shows "v AND mask k = 0 \<longleftrightarrow> (\<forall>i < k. \<not> bit v i)"
proof -
  have "v AND mask k = 0 \<longleftrightarrow> take_bit k v = 0" by (simp add: take_bit_eq_mask)
  also have "\<dots> \<longleftrightarrow> (\<forall>i < k. \<not> bit v i)"
    by (auto simp: bit_eq_iff bit_take_bit_iff) (meson bit_imp_le_length)
  finally show ?thesis .
qed

lemma tz_step_lowest:
  assumes "lowest v n" and "n < 2 * k"
  shows "\<exists>n'. lowest (snd (tz_step k (p, v))) n' \<and> n' < k \<and> fst (tz_step k (p, v)) + n' = p + n"
proof (cases "v AND mask k = 0")
  case True
  with assms(1) have "k \<le> n" by (auto simp: and_mask_zero_iff lowest_def not_less)
  with assms True show ?thesis
    by (intro exI [of _ "n - k"]) (auto simp: tz_step_def lowest_def bit_drop_bit_eq)
next
  case False
  then obtain i where "i < k" "bit v i" by (auto simp: and_mask_zero_iff)
  with assms(1) have "n < k" by (auto simp: lowest_def) (meson le_less_trans not_le)
  with assms False show ?thesis by (auto simp: tz_step_def)
qed

lemma tz_chain:
  assumes "\<exists>n'. lowest (snd q) n' \<and> n' < 2 * k \<and> fst q + n' = n"
  shows "\<exists>n'. lowest (snd (tz_step k q)) n' \<and> n' < k \<and> fst (tz_step k q) + n' = n"
  using assms tz_step_lowest [of "snd q" _ k "fst q"] by auto

text \<open>The reference: the position of the lowest set bit of a non-zero word.\<close>

lemma get_trailing_zeros_lowest:
  assumes "lowest v n"
  shows "get_trailing_zeros v = n"
proof -
  have "n < 64" using assms bit_imp_le_length [of v n] by (simp add: lowest_def)
  then have "\<exists>n'. lowest (snd (0 :: nat, v)) n' \<and> n' < 2 * 32 \<and> fst (0 :: nat, v) + n' = n"
    using assms by simp
  from tz_chain [OF this] have "\<exists>n'. lowest (snd (tz_step 32 (0, v))) n' \<and> n' < 2 * 16 \<and>
      fst (tz_step 32 (0, v)) + n' = n" by simp
  from tz_chain [OF this] have "\<exists>n'. lowest (snd (tz_step 16 (tz_step 32 (0, v)))) n' \<and> n' < 2 * 8 \<and>
      fst (tz_step 16 (tz_step 32 (0, v))) + n' = n" by simp
  from tz_chain [OF this] have "\<exists>n'. lowest (snd (tz_step 8 (tz_step 16 (tz_step 32 (0, v))))) n' \<and>
      n' < 2 * 4 \<and> fst (tz_step 8 (tz_step 16 (tz_step 32 (0, v)))) + n' = n" by simp
  from tz_chain [OF this] have "\<exists>n'. lowest (snd (tz_step 4 (tz_step 8 (tz_step 16 (tz_step 32 (0, v)))))) n' \<and>
      n' < 2 * 2 \<and> fst (tz_step 4 (tz_step 8 (tz_step 16 (tz_step 32 (0, v))))) + n' = n" by simp
  from tz_chain [OF this] obtain n' where
    n': "lowest (snd (tz_step 2 (tz_step 4 (tz_step 8 (tz_step 16 (tz_step 32 (0, v))))))) n'" "n' < 2"
      "fst (tz_step 2 (tz_step 4 (tz_step 8 (tz_step 16 (tz_step 32 (0, v)))))) + n' = n" by blast
  moreover have "x AND 1 = 0 \<longleftrightarrow> n' = 1" if "lowest x n'" for x
    using that n'(2) and_mask_zero_iff [of x 1] by (auto simp: lowest_def less_2_cases_iff)
  ultimately show ?thesis by (auto simp: get_trailing_zeros_def Let_def less_2_cases_iff)
qed

section \<open>Masks and fields\<close>

definition GENMASK :: "nat \<Rightarrow> nat \<Rightarrow> u32" where
  "GENMASK h l = push_bit l 0xFFFFFFFF AND drop_bit (32 - 1 - h) 0xFFFFFFFF"

definition GENMASK_ULL :: "nat \<Rightarrow> nat \<Rightarrow> u64" where
  "GENMASK_ULL h l = push_bit l 0xFFFFFFFFFFFFFFFF AND drop_bit (64 - 1 - h) 0xFFFFFFFFFFFFFFFF"

definition BIT :: "nat \<Rightarrow> u32" where
  "BIT n = push_bit n 1"

definition FIELD_SHIFT :: "'a::len word \<Rightarrow> nat" where
  "FIELD_SHIFT m = get_trailing_zeros (ucast m)"

definition FIELD_SET :: "'a::len word \<Rightarrow> 'a word \<Rightarrow> 'a word" where
  "FIELD_SET m val = push_bit (FIELD_SHIFT m) val AND m"

definition FIELD_GET :: "'a::len word \<Rightarrow> 'a word \<Rightarrow> 'a word" where
  "FIELD_GET m reg = drop_bit (FIELD_SHIFT m) (reg AND m)"

text \<open>The shape of a contiguous mask.\<close>

definition is_field :: "'a::len word \<Rightarrow> nat \<Rightarrow> nat \<Rightarrow> bool" where
  "is_field m h l \<longleftrightarrow> l \<le> h \<and> h < LENGTH('a) \<and> LENGTH('a) \<le> 64 \<and>
     (\<forall>n. bit m n \<longleftrightarrow> l \<le> n \<and> n \<le> h)"

lemma ones32: "(0xFFFFFFFF :: u32) = - 1" by simp

lemma ones64: "(0xFFFFFFFFFFFFFFFF :: u64) = - 1" by simp

lemma GENMASK_field [field_simps_qdma]: "l \<le> h \<Longrightarrow> h < 32 \<Longrightarrow> is_field (GENMASK h l) h l"
  unfolding is_field_def GENMASK_def ones32
  by (auto simp: bit_and_iff bit_not_iff bit_mask_iff)

lemma GENMASK_ULL_field [field_simps_qdma]: "l \<le> h \<Longrightarrow> h < 64 \<Longrightarrow> is_field (GENMASK_ULL h l) h l"
  unfolding is_field_def GENMASK_ULL_def ones64
  by (auto simp: bit_and_iff bit_not_iff bit_mask_iff)

lemma field_bit: "is_field m h l \<Longrightarrow> bit m n \<longleftrightarrow> l \<le> n \<and> n \<le> h"
  by (simp add: is_field_def)

lemma field_bounds: "is_field (m :: 'a::len word) h l \<Longrightarrow> l \<le> h \<and> h < LENGTH('a)"
  by (simp add: is_field_def)

lemma BIT_GENMASK [field_simps_qdma]:
  assumes "n < 32"
  shows "BIT n = GENMASK n n"
proof (rule bit_eqI)
  fix i
  have "is_field (GENMASK n n) n n" using assms by (intro GENMASK_field) simp_all
  then show "bit (BIT n) i = bit (GENMASK n n) i"
    using assms by (auto simp: BIT_def field_bit bit_push_bit_iff bit_exp_iff)
qed

lemma FIELD_SHIFT_field:
  fixes m :: "'a::len word"
  assumes "is_field m h l"
  shows "FIELD_SHIFT m = l"
proof -
  have "lowest (ucast m) l"
    using assms by (auto simp: lowest_def is_field_def bit_ucast_iff)
  then show ?thesis by (simp add: FIELD_SHIFT_def get_trailing_zeros_lowest)
qed

lemma FIELD_GET_field:
  fixes m :: "'a::len word"
  assumes "is_field m h l"
  shows "FIELD_GET m r = take_bit (Suc h - l) (drop_bit l r)"
proof (rule bit_eqI)
  fix i
  show "bit (FIELD_GET m r) i = bit (take_bit (Suc h - l) (drop_bit l r)) i"
    using field_bounds [OF assms] unfolding FIELD_GET_def FIELD_SHIFT_field [OF assms]
    by (auto simp: bit_and_iff bit_drop_bit_eq bit_take_bit_iff field_bit [OF assms])
qed

lemma FIELD_SET_field:
  fixes m :: "'a::len word"
  assumes "is_field m h l"
  shows "FIELD_SET m v = push_bit l (take_bit (Suc h - l) v)"
proof (rule bit_eqI)
  fix i
  show "bit (FIELD_SET m v) i = bit (push_bit l (take_bit (Suc h - l) v)) i"
    using field_bounds [OF assms] unfolding FIELD_SET_def FIELD_SHIFT_field [OF assms]
    by (auto simp: bit_and_iff bit_push_bit_iff bit_take_bit_iff field_bit [OF assms])
qed

text \<open>Extraction distributes over bitwise or, whatever the mask.\<close>

lemma FIELD_GET_or [field_simps_qdma]: "FIELD_GET m (x OR y) = FIELD_GET m x OR FIELD_GET m y"
  by (rule bit_eqI) (auto simp: FIELD_GET_def bit_and_iff bit_or_iff bit_drop_bit_eq)

lemma FIELD_GET_SET:
  fixes m :: "'a::len word"
  assumes "is_field m h l"
  shows "FIELD_GET m (FIELD_SET m v) = take_bit (Suc h - l) v"
proof (rule bit_eqI)
  fix i
  show "bit (FIELD_GET m (FIELD_SET m v)) i = bit (take_bit (Suc h - l) v) i"
    using field_bounds [OF assms] unfolding FIELD_GET_field [OF assms] FIELD_SET_field [OF assms]
    by (auto simp: bit_drop_bit_eq bit_push_bit_iff bit_take_bit_iff)
qed

lemma FIELD_GET_SET_other:
  fixes m :: "'a::len word"
  assumes "is_field m h l" and "is_field m' h' l'" and "h < l' \<or> h' < l"
  shows "FIELD_GET m (FIELD_SET m' v) = 0"
proof (rule bit_eqI)
  fix i
  show "bit (FIELD_GET m (FIELD_SET m' v)) i = bit 0 i"
    using assms(3) unfolding FIELD_GET_field [OF assms(1)] FIELD_SET_field [OF assms(2)]
    by (auto simp: bit_drop_bit_eq bit_push_bit_iff bit_take_bit_iff)
qed

text \<open>The same for masks written as the source writes them, ready for the simplifier.\<close>

lemma get_set_GENMASK [field_simps_qdma]:
  "l \<le> h \<Longrightarrow> h < 32 \<Longrightarrow> FIELD_GET (GENMASK h l) (FIELD_SET (GENMASK h l) v) = take_bit (Suc h - l) v"
  by (intro FIELD_GET_SET GENMASK_field)

lemma get_set_GENMASK_other [field_simps_qdma]:
  "l \<le> h \<Longrightarrow> h < 32 \<Longrightarrow> l' \<le> h' \<Longrightarrow> h' < 32 \<Longrightarrow> h < l' \<or> h' < l \<Longrightarrow>
     FIELD_GET (GENMASK h l) (FIELD_SET (GENMASK h' l') v) = 0"
  by (rule FIELD_GET_SET_other [OF GENMASK_field GENMASK_field])

end
