(* ===== verification/RegAccess.thy ===== *)
theory RegAccess
  imports RegFields
begin

text \<open>
  Register access.  The device is a parameter: a record of the functions the platform layer
  provides (register read, register write and delay) over an arbitrary device state; a device
  handle is such a record, or \<open>None\<close> for a null pointer.  The theory models the polling loop
  \<^verbatim>\<open>hw_monitor_reg\<close>, the CSR array access of \<^verbatim>\<open>qdma_access_common.c\<close> and the indirect context
  access of \<^verbatim>\<open>qdma_soft_access.c\<close>, states what the code relies on from the context engine of the
  device, and shows that under it a context that was written is read back.
\<close>

record 's hw_dev =
  reg_read :: "u32 \<Rightarrow> 's \<Rightarrow> u32 \<times> 's"
  reg_write :: "u32 \<Rightarrow> u32 \<Rightarrow> 's \<Rightarrow> 's"
  udelay :: "u32 \<Rightarrow> 's \<Rightarrow> 's"

type_synonym 's dev_hndl = "'s hw_dev option"

section \<open>Polling\<close>

definition QDMA_REG_POLL_DFLT_INTERVAL_US :: u32 where [simp]: "QDMA_REG_POLL_DFLT_INTERVAL_US = 10"
definition QDMA_REG_POLL_DFLT_TIMEOUT_US :: u32 where [simp]: "QDMA_REG_POLL_DFLT_TIMEOUT_US = 500000"

lemma countdown:
  fixes c :: u32
  assumes "c \<noteq> 1"
  shows "unat (c - 2) < unat (c - 1)"
proof -
  have "c - 1 \<noteq> 0" and "c - 2 = (c - 1) - 1" using assms by simp_all
  then have "unat (c - 2) = unat (c - 1) - 1" using unat_minus_one [of "c - 1"] by simp
  with \<open>c - 1 \<noteq> 0\<close> show ?thesis by (simp add: unat_gt_0)
qed

text \<open>The do-while loop.  The C counter is decremented before it is tested, so a start value of
  zero wraps around; it is kept as a 32-bit word.\<close>

function monitor_loop ::
    "'s hw_dev \<Rightarrow> u32 \<Rightarrow> u32 \<Rightarrow> u32 \<Rightarrow> u32 \<Rightarrow> u32 \<Rightarrow> 's \<Rightarrow> bool \<times> 's" where
  "monitor_loop hw reg msk val interval_us count s =
     (let (v, s) = reg_read hw reg s
      in if v AND msk = val then (True, s)
         else
           let s = udelay hw interval_us s; count = count - 1
           in if count \<noteq> 0 then monitor_loop hw reg msk val interval_us count s else (False, s))"
  by pat_completeness auto
termination
  by (relation "measure (\<lambda>(hw, reg, msk, val, i, count, s). unat (count - 1))")
    (auto simp: countdown)

definition hw_monitor_reg ::
    "'s hw_dev \<Rightarrow> u32 \<Rightarrow> u32 \<Rightarrow> u32 \<Rightarrow> u32 \<Rightarrow> u32 \<Rightarrow> 's \<Rightarrow> int \<times> 's" where
  "hw_monitor_reg hw reg msk val interval_us timeout_us s =
     (let interval_us = (if interval_us = 0 then QDMA_REG_POLL_DFLT_INTERVAL_US else interval_us);
          timeout_us = (if timeout_us = 0 then QDMA_REG_POLL_DFLT_TIMEOUT_US else timeout_us);
          count = timeout_us div interval_us;
          (found, s) = monitor_loop hw reg msk val interval_us count s
      in if found then (QDMA_SUCCESS, s)
         else
           let (v, s) = reg_read hw reg s
           in if v AND msk = val then (QDMA_SUCCESS, s) else (- QDMA_ERR_HWACC_BUSY_TIMEOUT, s))"

declare monitor_loop.simps [simp del]

text \<open>The state after the given number of unsuccessful polls, and what the next poll reads.\<close>

fun polled :: "'s hw_dev \<Rightarrow> u32 \<Rightarrow> u32 \<Rightarrow> nat \<Rightarrow> 's \<Rightarrow> 's" where
  "polled hw reg interval_us 0 s = s"
| "polled hw reg interval_us (Suc k) s =
     polled hw reg interval_us k (udelay hw interval_us (snd (reg_read hw reg s)))"

definition hit :: "'s hw_dev \<Rightarrow> u32 \<Rightarrow> u32 \<Rightarrow> u32 \<Rightarrow> 's \<Rightarrow> bool" where
  "hit hw reg msk val s \<longleftrightarrow> fst (reg_read hw reg s) AND msk = val"

lemma monitor_loop_result:
  assumes "count \<noteq> 0"
  shows "monitor_loop hw reg msk val i count s =
    (case List.find (\<lambda>k. hit hw reg msk val (polled hw reg i k s)) [0 ..< unat count] of
       Some k \<Rightarrow> (True, snd (reg_read hw reg (polled hw reg i k s)))
     | None \<Rightarrow> (False, polled hw reg i (unat count) s))"
  using assms
proof (induction hw reg msk val i count s rule: monitor_loop.induct)
  case (1 hw reg msk val i count s)
  obtain v s1 where r: "reg_read hw reg s = (v, s1)" by fastforce
  have n: "unat count = Suc (unat (count - 1))"
    using 1(2) by (simp add: unat_minus_one unat_gt_0)
  have upt: "[0 ..< unat count] = 0 # map Suc [0 ..< unat (count - 1)]"
    by (simp only: n map_Suc_upt upt_conv_Cons)
  have find_map: "List.find P (map Suc xs) = map_option Suc (List.find (\<lambda>k. P (Suc k)) xs)" for P xs
    by (induction xs) auto
  show ?case
  proof (cases "v AND msk = val")
    case True
    then show ?thesis by (simp add: monitor_loop.simps [of hw] r upt hit_def)
  next
    case miss: False
    show ?thesis
    proof (cases "count - 1 = 0")
      case True
      then have "unat count = 1" using n by simp
      then show ?thesis using True miss by (simp add: monitor_loop.simps [of hw] r upt hit_def)
    next
      case False
      from 1(1) [OF refl r [symmetric] miss refl refl False False] miss False
      show ?thesis
        unfolding upt
        by (subst monitor_loop.simps)
          (simp add: r n hit_def find_map Let_def split: option.splits)
    qed
  qed
qed

section \<open>Arrays of configuration registers\<close>

fun write_seq :: "'s hw_dev \<Rightarrow> u32 \<Rightarrow> u32 list \<Rightarrow> 's \<Rightarrow> 's" where
  "write_seq hw addr [] s = s"
| "write_seq hw addr (w # ws) s = write_seq hw (addr + 4) ws (reg_write hw addr w s)"

fun read_seq :: "'s hw_dev \<Rightarrow> u32 \<Rightarrow> nat \<Rightarrow> 's \<Rightarrow> u32 list \<times> 's" where
  "read_seq hw addr 0 s = ([], s)"
| "read_seq hw addr (Suc n) s =
     (let (v, s) = reg_read hw addr s; (vs, s) = read_seq hw (addr + 4) n s in (v # vs, s))"

definition qdma_write_csr_values :: "'s hw_dev \<Rightarrow> u32 \<Rightarrow> u32 \<Rightarrow> u32 \<Rightarrow> u32 list \<Rightarrow> 's \<Rightarrow> 's" where
  "qdma_write_csr_values hw reg_offst idx cnt values s =
     write_seq hw (reg_offst + idx * 4) (take (unat cnt) values) s"

definition qdma_read_csr_values :: "'s hw_dev \<Rightarrow> u32 \<Rightarrow> u32 \<Rightarrow> u32 \<Rightarrow> 's \<Rightarrow> u32 list \<times> 's" where
  "qdma_read_csr_values hw reg_offst idx cnt s = read_seq hw (reg_offst + idx * 4) (unat cnt) s"

section \<open>Indirect context access\<close>

datatype ind_ctxt_cmd_op = QDMA_CTXT_CMD_CLR | QDMA_CTXT_CMD_WR | QDMA_CTXT_CMD_RD | QDMA_CTXT_CMD_INV

datatype ind_ctxt_cmd_sel =
    QDMA_CTXT_SEL_SW_C2H | QDMA_CTXT_SEL_SW_H2C | QDMA_CTXT_SEL_HW_C2H | QDMA_CTXT_SEL_HW_H2C
  | QDMA_CTXT_SEL_CR_C2H | QDMA_CTXT_SEL_CR_H2C | QDMA_CTXT_SEL_CMPT | QDMA_CTXT_SEL_PFTCH
  | QDMA_CTXT_SEL_INT_COAL | QDMA_CTXT_SEL_PASID_RAM_LOW | QDMA_CTXT_SEL_PASID_RAM_HIGH
  | QDMA_CTXT_SEL_TIMER | QDMA_CTXT_SEL_FMAP

fun op_code :: "ind_ctxt_cmd_op \<Rightarrow> u32" where
  "op_code QDMA_CTXT_CMD_CLR = 0"
| "op_code QDMA_CTXT_CMD_WR = 1"
| "op_code QDMA_CTXT_CMD_RD = 2"
| "op_code QDMA_CTXT_CMD_INV = 3"

fun sel_code :: "ind_ctxt_cmd_sel \<Rightarrow> u32" where
  "sel_code QDMA_CTXT_SEL_SW_C2H = 0"
| "sel_code QDMA_CTXT_SEL_SW_H2C = 1"
| "sel_code QDMA_CTXT_SEL_HW_C2H = 2"
| "sel_code QDMA_CTXT_SEL_HW_H2C = 3"
| "sel_code QDMA_CTXT_SEL_CR_C2H = 4"
| "sel_code QDMA_CTXT_SEL_CR_H2C = 5"
| "sel_code QDMA_CTXT_SEL_CMPT = 6"
| "sel_code QDMA_CTXT_SEL_PFTCH = 7"
| "sel_code QDMA_CTXT_SEL_INT_COAL = 8"
| "sel_code QDMA_CTXT_SEL_PASID_RAM_LOW = 9"
| "sel_code QDMA_CTXT_SEL_PASID_RAM_HIGH = 10"
| "sel_code QDMA_CTXT_SEL_TIMER = 11"
| "sel_code QDMA_CTXT_SEL_FMAP = 12"

definition QDMA_OFFSET_IND_CTXT_DATA :: u32 where "QDMA_OFFSET_IND_CTXT_DATA = 0x804"
definition QDMA_OFFSET_IND_CTXT_MASK :: u32 where "QDMA_OFFSET_IND_CTXT_MASK = 0x824"
definition QDMA_OFFSET_IND_CTXT_CMD :: u32 where "QDMA_OFFSET_IND_CTXT_CMD = 0x844"
definition QDMA_IND_CTXT_CMD_BUSY_MASK :: u32 where [simp]: "QDMA_IND_CTXT_CMD_BUSY_MASK = 1"
definition QDMA_IND_CTXT_DATA_NUM_REGS :: nat where [simp]: "QDMA_IND_CTXT_DATA_NUM_REGS = 8"

text \<open>\<^verbatim>\<open>union qdma_ind_ctxt_cmd\<close>: bit 0 is \<^verbatim>\<open>busy\<close>, then \<^verbatim>\<open>sel\<close> on four bits, \<^verbatim>\<open>op\<close> on two and
  \<^verbatim>\<open>qid\<close> on twelve; a queue number is cut to its field.\<close>

definition ctxt_cmd :: "ind_ctxt_cmd_sel \<Rightarrow> ind_ctxt_cmd_op \<Rightarrow> u16 \<Rightarrow> u32" where
  "ctxt_cmd sel op hw_qid =
     push_bit 1 (take_bit 4 (sel_code sel)) OR push_bit 5 (take_bit 2 (op_code op)) OR
     push_bit 7 (take_bit 12 (ucast hw_qid))"

definition ctxt_wait :: "'s hw_dev \<Rightarrow> 's \<Rightarrow> int \<times> 's" where
  "ctxt_wait hw s =
     (let (rv, s) = hw_monitor_reg hw QDMA_OFFSET_IND_CTXT_CMD QDMA_IND_CTXT_CMD_BUSY_MASK 0
                      QDMA_REG_POLL_DFLT_INTERVAL_US QDMA_REG_POLL_DFLT_TIMEOUT_US s
      in if rv \<noteq> 0 then (- QDMA_ERR_HWACC_BUSY_TIMEOUT, s) else (QDMA_SUCCESS, s))"

definition qdma_indirect_reg_invalidate ::
    "'s hw_dev \<Rightarrow> ind_ctxt_cmd_sel \<Rightarrow> u16 \<Rightarrow> 's \<Rightarrow> int \<times> 's" where
  "qdma_indirect_reg_invalidate hw sel hw_qid s =
     ctxt_wait hw (reg_write hw QDMA_OFFSET_IND_CTXT_CMD (ctxt_cmd sel QDMA_CTXT_CMD_INV hw_qid) s)"

definition qdma_indirect_reg_clear ::
    "'s hw_dev \<Rightarrow> ind_ctxt_cmd_sel \<Rightarrow> u16 \<Rightarrow> 's \<Rightarrow> int \<times> 's" where
  "qdma_indirect_reg_clear hw sel hw_qid s =
     ctxt_wait hw (reg_write hw QDMA_OFFSET_IND_CTXT_CMD (ctxt_cmd sel QDMA_CTXT_CMD_CLR hw_qid) s)"

text \<open>The words are written through the pointer argument on success only.\<close>

definition qdma_indirect_reg_read ::
    "'s hw_dev \<Rightarrow> ind_ctxt_cmd_sel \<Rightarrow> u16 \<Rightarrow> nat \<Rightarrow> 's \<Rightarrow> int \<times> u32 list option \<times> 's" where
  "qdma_indirect_reg_read hw sel hw_qid cnt s =
     (let (rv, s) = ctxt_wait hw
            (reg_write hw QDMA_OFFSET_IND_CTXT_CMD (ctxt_cmd sel QDMA_CTXT_CMD_RD hw_qid) s)
      in if rv \<noteq> 0 then (rv, None, s)
         else let (ws, s) = read_seq hw QDMA_OFFSET_IND_CTXT_DATA cnt s in (QDMA_SUCCESS, Some ws, s))"

definition ctxt_data :: "u32 list \<Rightarrow> u32 list" where
  "ctxt_data ws =
     map (\<lambda>i. if i < length ws then ws ! i else 0) [0 ..< QDMA_IND_CTXT_DATA_NUM_REGS]"

definition qdma_indirect_reg_write ::
    "'s hw_dev \<Rightarrow> ind_ctxt_cmd_sel \<Rightarrow> u16 \<Rightarrow> u32 list \<Rightarrow> 's \<Rightarrow> int \<times> 's" where
  "qdma_indirect_reg_write hw sel hw_qid ws s =
     ctxt_wait hw (write_seq hw QDMA_OFFSET_IND_CTXT_DATA
       (ctxt_data ws @ replicate QDMA_IND_CTXT_DATA_NUM_REGS 0xFFFFFFFF @
        [ctxt_cmd sel QDMA_CTXT_CMD_WR hw_qid]) s)"

section \<open>What the code relies on from the context engine\<close>

text \<open>
  \<open>regs s a\<close> is the value of the register at address \<open>a\<close> and \<open>ctx s c q\<close> the stored context of
  kind \<open>c\<close> for index \<open>q\<close>, eight words.  The data and mask registers are plain storage.  A
  command word selects a context: a write command stores the bits of the data registers that the
  mask registers select, a read command loads the data registers, and clear and invalidate
  commands zero the context; other contexts are not touched.  The busy bit of the command
  register is clear once the command is done, which it is by the time of the first poll.
\<close>

definition data_addr :: "nat \<Rightarrow> u32" where
  "data_addr i = QDMA_OFFSET_IND_CTXT_DATA + 4 * of_nat i"

definition ctxt_mem_quiet ::
    "'s hw_dev \<Rightarrow> ('s \<Rightarrow> u32 \<Rightarrow> u32) \<Rightarrow> ('s \<Rightarrow> ind_ctxt_cmd_sel \<Rightarrow> u16 \<Rightarrow> u32 list) \<Rightarrow> bool" where
  "ctxt_mem_quiet hw regs ctx \<longleftrightarrow>
     (\<forall>s i. i < 16 \<longrightarrow>
        reg_read hw (data_addr i) s = (regs s (data_addr i), s) \<and>
        (\<forall>v. regs (reg_write hw (data_addr i) v s) = (regs s)(data_addr i := v) \<and>
             ctx (reg_write hw (data_addr i) v s) = ctx s)) \<and>
     (\<forall>s. \<exists>v. reg_read hw QDMA_OFFSET_IND_CTXT_CMD s = (v, s) \<and> v AND 1 = 0)"

definition ctxt_cmds_done ::
    "'s hw_dev \<Rightarrow> ('s \<Rightarrow> u32 \<Rightarrow> u32) \<Rightarrow> ('s \<Rightarrow> ind_ctxt_cmd_sel \<Rightarrow> u16 \<Rightarrow> u32 list) \<Rightarrow> bool" where
  "ctxt_cmds_done hw regs ctx \<longleftrightarrow>
     (\<forall>s sel op qid. let s' = reg_write hw QDMA_OFFSET_IND_CTXT_CMD (ctxt_cmd sel op qid) s;
          q = take_bit 12 qid
        in length (ctx s sel q) = 8 \<and>
           (\<forall>sel2 q2. (sel2, q2) \<noteq> (sel, q) \<longrightarrow> ctx s' sel2 q2 = ctx s sel2 q2) \<and>
           (case op of
              QDMA_CTXT_CMD_WR \<Rightarrow> ctx s' sel q =
                map (\<lambda>i. (ctx s sel q ! i AND NOT (regs s (data_addr (8 + i)))) OR
                          (regs s (data_addr i) AND regs s (data_addr (8 + i)))) [0 ..< 8]
            | QDMA_CTXT_CMD_RD \<Rightarrow> ctx s' sel q = ctx s sel q \<and>
                (\<forall>i < 8. regs s' (data_addr i) = ctx s sel q ! i)
            | _ \<Rightarrow> ctx s' sel q = replicate 8 0))"

definition ctxt_engine ::
    "'s hw_dev \<Rightarrow> ('s \<Rightarrow> u32 \<Rightarrow> u32) \<Rightarrow> ('s \<Rightarrow> ind_ctxt_cmd_sel \<Rightarrow> u16 \<Rightarrow> u32 list) \<Rightarrow> bool" where
  "ctxt_engine hw regs ctx \<longleftrightarrow> ctxt_mem_quiet hw regs ctx \<and> ctxt_cmds_done hw regs ctx"

lemma data_addr_Suc: "data_addr (Suc i) = data_addr i + 4"
  by (simp add: data_addr_def)

lemma data_addr_shift: "data_addr (i + j) = data_addr i + 4 * of_nat j"
  by (simp add: data_addr_def algebra_simps)

lemma data_addr_less:
  assumes "i < 17"
  shows "unat (data_addr i) = 0x804 + 4 * i"
proof -
  have i: "unat (of_nat i :: u32) = i" using assms by (simp add: unat_of_nat)
  have m: "unat (4 * of_nat i :: u32) = 4 * i" using assms i by (simp add: unat_word_ariths)
  show ?thesis unfolding data_addr_def QDMA_OFFSET_IND_CTXT_DATA_def
    using assms m by (simp add: unat_plus_bounded)
qed

lemma data_addr_inj:
  assumes "i < 17" and "j < 17" and "i \<noteq> j"
  shows "data_addr i \<noteq> data_addr j"
proof
  assume "data_addr i = data_addr j"
  then have "unat (data_addr i) = unat (data_addr j)" by (rule arg_cong)
  then have "0x804 + 4 * i = 0x804 + 4 * j" unfolding data_addr_less [OF assms(1)] data_addr_less [OF assms(2)] .
  with assms(3) show False by simp
qed

lemma data_addr_16: "data_addr 16 = QDMA_OFFSET_IND_CTXT_CMD"
  by (simp add: data_addr_def QDMA_OFFSET_IND_CTXT_CMD_def QDMA_OFFSET_IND_CTXT_DATA_def)

lemma data_addr_0: "data_addr 0 = QDMA_OFFSET_IND_CTXT_DATA"
  by (simp add: data_addr_def)

lemma write_seq_append:
  "write_seq hw a (xs @ ys) s = write_seq hw (a + 4 * of_nat (length xs)) ys (write_seq hw a xs s)"
  by (induction xs arbitrary: a s) (simp_all add: algebra_simps)

lemma quiet_write:
  assumes "ctxt_mem_quiet hw regs ctx" and "i < 16"
  shows "regs (reg_write hw (data_addr i) v s) = (regs s)(data_addr i := v)"
    and "ctx (reg_write hw (data_addr i) v s) = ctx s"
    and "reg_read hw (data_addr i) s = (regs s (data_addr i), s)"
  using assms by (simp_all add: ctxt_mem_quiet_def)

lemma write_seq_regs:
  assumes q: "ctxt_mem_quiet hw regs ctx" and "i + length ws \<le> 16"
  shows "ctx (write_seq hw (data_addr i) ws s) = ctx s \<and>
    (\<forall>j < length ws. regs (write_seq hw (data_addr i) ws s) (data_addr (i + j)) = ws ! j) \<and>
    (\<forall>k < i. regs (write_seq hw (data_addr i) ws s) (data_addr k) = regs s (data_addr k))"
  using assms(2)
proof (induction ws arbitrary: i s)
  case (Cons w ws)
  then have i: "i < 16" by simp
  let ?s = "write_seq hw (data_addr (Suc i)) ws (reg_write hw (data_addr i) w s)"
  have step: "write_seq hw (data_addr i) (w # ws) s = ?s" by (simp add: data_addr_Suc)
  have IH: "ctx ?s = ctx s" "\<And>j. j < length ws \<Longrightarrow> regs ?s (data_addr (Suc i + j)) = ws ! j"
      "\<And>k. k < Suc i \<Longrightarrow> regs ?s (data_addr k) = ((regs s)(data_addr i := w)) (data_addr k)"
    using Cons.IH [of "Suc i" "reg_write hw (data_addr i) w s"] Cons.prems
    by (simp_all add: quiet_write [OF q i])
  have "regs ?s (data_addr (i + j)) = (w # ws) ! j" if "j < length (w # ws)" for j
    using that IH(2) [of "j - 1"] IH(3) [of i] by (cases j) simp_all
  moreover have "regs ?s (data_addr k) = regs s (data_addr k)" if "k < i" for k
    using IH(3) [of k] that data_addr_inj [of k i] i by simp
  ultimately show ?case unfolding step using IH(1) by blast
qed simp

lemma read_seq_regs:
  assumes q: "ctxt_mem_quiet hw regs ctx" and "i + n \<le> 16"
  shows "read_seq hw (data_addr i) n s = (map (\<lambda>j. regs s (data_addr j)) [i ..< i + n], s)"
  using assms(2)
proof (induction n arbitrary: i)
  case (Suc n)
  then have i: "i < 16" by simp
  have "[i ..< i + Suc n] = i # [Suc i ..< Suc i + n]" by (simp add: upt_rec)
  with Suc.IH [of "Suc i"] Suc.prems show ?case
    by (simp add: quiet_write [OF q i] data_addr_Suc del: upt.simps)
qed simp

lemma ctxt_wait_ready:
  assumes "ctxt_mem_quiet hw regs ctx"
  shows "ctxt_wait hw s = (QDMA_SUCCESS, s)"
proof -
  obtain v where "reg_read hw QDMA_OFFSET_IND_CTXT_CMD s = (v, s)" "v AND 1 = 0"
    using assms unfolding ctxt_mem_quiet_def by blast
  then show ?thesis
    by (simp add: ctxt_wait_def hw_monitor_reg_def monitor_loop.simps [of hw] Let_def)
qed

lemma ctxt_data_simps:
  "length (ctxt_data ws) = 8" "i < 8 \<Longrightarrow> ctxt_data ws ! i = (if i < length ws then ws ! i else 0)"
  by (simp_all add: ctxt_data_def)

lemma ctxt_data_take:
  assumes "length ws \<le> 8"
  shows "take (length ws) (ctxt_data ws) = ws"
  using assms by (intro nth_equalityI) (simp_all add: ctxt_data_simps)

lemma engine_step:
  assumes "ctxt_engine hw regs ctx"
  shows "\<forall>sel2 q2. (sel2, q2) \<noteq> (sel, take_bit 12 qid) \<longrightarrow>
      ctx (reg_write hw QDMA_OFFSET_IND_CTXT_CMD (ctxt_cmd sel op qid) s) sel2 q2 = ctx s sel2 q2"
    and "op = QDMA_CTXT_CMD_WR \<Longrightarrow>
      ctx (reg_write hw QDMA_OFFSET_IND_CTXT_CMD (ctxt_cmd sel op qid) s) sel (take_bit 12 qid) =
        map (\<lambda>i. (ctx s sel (take_bit 12 qid) ! i AND NOT (regs s (data_addr (8 + i)))) OR
                  (regs s (data_addr i) AND regs s (data_addr (8 + i)))) [0 ..< 8]"
    and "op = QDMA_CTXT_CMD_RD \<Longrightarrow>
      ctx (reg_write hw QDMA_OFFSET_IND_CTXT_CMD (ctxt_cmd sel op qid) s) sel (take_bit 12 qid) =
        ctx s sel (take_bit 12 qid) \<and>
      (\<forall>i < 8. regs (reg_write hw QDMA_OFFSET_IND_CTXT_CMD (ctxt_cmd sel op qid) s) (data_addr i) =
        ctx s sel (take_bit 12 qid) ! i)"
    and "op = QDMA_CTXT_CMD_CLR \<or> op = QDMA_CTXT_CMD_INV \<Longrightarrow>
      ctx (reg_write hw QDMA_OFFSET_IND_CTXT_CMD (ctxt_cmd sel op qid) s) sel (take_bit 12 qid) =
        replicate 8 0"
    and "length (ctx s sel (take_bit 12 qid)) = 8"
  using assms unfolding ctxt_engine_def ctxt_cmds_done_def Let_def
  by (auto split: ind_ctxt_cmd_op.splits)

text \<open>What the four indirect operations do to the stored contexts.\<close>

lemma indirect_write:
  assumes e: "ctxt_engine hw regs ctx" and "length ws \<le> 8"
  obtains s' where "qdma_indirect_reg_write hw sel qid ws s = (QDMA_SUCCESS, s')"
    and "ctx s' = (ctx s)(sel := (ctx s sel)(take_bit 12 qid := ctxt_data ws))"
proof -
  have q: "ctxt_mem_quiet hw regs ctx" using e by (simp add: ctxt_engine_def)
  let ?s1 = "write_seq hw (data_addr 0) (ctxt_data ws @ replicate 8 0xFFFFFFFF) s"
  have r: "ctx ?s1 = ctx s" "\<forall>j < 16. regs ?s1 (data_addr j) = (ctxt_data ws @ replicate 8 0xFFFFFFFF) ! j"
    using write_seq_regs [OF q, of 0 "ctxt_data ws @ replicate 8 0xFFFFFFFF" s]
    by (simp_all add: ctxt_data_simps)
  let ?s2 = "reg_write hw QDMA_OFFSET_IND_CTXT_CMD (ctxt_cmd sel QDMA_CTXT_CMD_WR qid) ?s1"
  have w: "qdma_indirect_reg_write hw sel qid ws s = (QDMA_SUCCESS, ?s2)"
    using write_seq_append [of hw "data_addr 0" "ctxt_data ws @ replicate 8 0xFFFFFFFF"
        "[ctxt_cmd sel QDMA_CTXT_CMD_WR qid]" s]
    by (simp add: qdma_indirect_reg_write_def ctxt_wait_ready [OF q] ctxt_data_simps
        data_addr_shift [of 0 16, symmetric, simplified] data_addr_16 data_addr_0 [symmetric])
  have "ctx ?s2 sel (take_bit 12 qid) = ctxt_data ws"
  proof (rule nth_equalityI)
    fix i assume "i < length (ctx ?s2 sel (take_bit 12 qid))"
    then have i: "i < 8" by (simp add: engine_step(2) [OF e refl])
    then have "regs ?s1 (data_addr i) = ctxt_data ws ! i" "regs ?s1 (data_addr (8 + i)) = - 1"
      using r(2) [rule_format, of i] r(2) [rule_format, of "8 + i"]
      by (simp_all add: nth_append ctxt_data_simps)
    with i show "ctx ?s2 sel (take_bit 12 qid) ! i = ctxt_data ws ! i"
      by (simp add: engine_step(2) [OF e refl])
  qed (simp add: engine_step(2) [OF e refl] ctxt_data_simps)
  moreover have "\<forall>sel2 q2. (sel2, q2) \<noteq> (sel, take_bit 12 qid) \<longrightarrow> ctx ?s2 sel2 q2 = ctx s sel2 q2"
    using engine_step(1) [OF e] r(1) by simp
  ultimately have "ctx ?s2 = (ctx s)(sel := (ctx s sel)(take_bit 12 qid := ctxt_data ws))"
    by (intro ext) auto
  with w show thesis by (rule that)
qed

lemma indirect_read:
  assumes e: "ctxt_engine hw regs ctx" and "cnt \<le> 8"
  obtains s' where "qdma_indirect_reg_read hw sel qid cnt s =
      (QDMA_SUCCESS, Some (take cnt (ctx s sel (take_bit 12 qid))), s')"
    and "ctx s' = ctx s"
proof -
  have q: "ctxt_mem_quiet hw regs ctx" using e by (simp add: ctxt_engine_def)
  let ?s' = "reg_write hw QDMA_OFFSET_IND_CTXT_CMD (ctxt_cmd sel QDMA_CTXT_CMD_RD qid) s"
  note rd = engine_step(3) [OF e refl, of sel qid s] and len = engine_step(5) [OF e, of s sel qid]
  have "read_seq hw (data_addr 0) cnt ?s' = (take cnt (ctx s sel (take_bit 12 qid)), ?s')"
    using read_seq_regs [OF q, of 0 cnt ?s'] assms(2) rd len
    by (auto intro!: nth_equalityI)
  then have "qdma_indirect_reg_read hw sel qid cnt s =
      (QDMA_SUCCESS, Some (take cnt (ctx s sel (take_bit 12 qid))), ?s')"
    by (simp add: qdma_indirect_reg_read_def ctxt_wait_ready [OF q] data_addr_0)
  moreover have "ctx ?s' = ctx s"
    using engine_step(1) [OF e, of sel qid QDMA_CTXT_CMD_RD s] rd by (intro ext) (metis prod.inject)
  ultimately show thesis by (rule that)
qed

lemma indirect_erase:
  assumes e: "ctxt_engine hw regs ctx"
  shows "\<exists>s'. qdma_indirect_reg_clear hw sel qid s = (QDMA_SUCCESS, s') \<and>
      ctx s' = (ctx s)(sel := (ctx s sel)(take_bit 12 qid := replicate 8 0))"
    and "\<exists>s'. qdma_indirect_reg_invalidate hw sel qid s = (QDMA_SUCCESS, s') \<and>
      ctx s' = (ctx s)(sel := (ctx s sel)(take_bit 12 qid := replicate 8 0))"
proof -
  have q: "ctxt_mem_quiet hw regs ctx" using e by (simp add: ctxt_engine_def)
  have "ctx (reg_write hw QDMA_OFFSET_IND_CTXT_CMD (ctxt_cmd sel op qid) s) =
      (ctx s)(sel := (ctx s sel)(take_bit 12 qid := replicate 8 0))"
    if "op = QDMA_CTXT_CMD_CLR \<or> op = QDMA_CTXT_CMD_INV" for op
    using engine_step(1) [OF e, of sel qid op s] engine_step(4) [OF e that, of sel qid s]
    by (intro ext) auto
  then show "\<exists>s'. qdma_indirect_reg_clear hw sel qid s = (QDMA_SUCCESS, s') \<and>
      ctx s' = (ctx s)(sel := (ctx s sel)(take_bit 12 qid := replicate 8 0))"
    and "\<exists>s'. qdma_indirect_reg_invalidate hw sel qid s = (QDMA_SUCCESS, s') \<and>
      ctx s' = (ctx s)(sel := (ctx s sel)(take_bit 12 qid := replicate 8 0))"
    by (simp_all add: qdma_indirect_reg_clear_def qdma_indirect_reg_invalidate_def ctxt_wait_ready [OF q])
qed

end
