(* ===== verification/ContextTypes.thy ===== *)
theory ContextTypes
  imports RegAccess
begin

text \<open>
  The context structures of \<^verbatim>\<open>qdma_access_common.h\<close> and the access types.  A structure is a record
  whose fields carry the prefix of the structure, since many fields have the same name in several
  structures.  Null pointers to structures are \<open>None\<close>.
\<close>

datatype qdma_hw_access_type =
    QDMA_HW_ACCESS_READ | QDMA_HW_ACCESS_WRITE | QDMA_HW_ACCESS_CLEAR
  | QDMA_HW_ACCESS_INVALIDATE | QDMA_HW_ACCESS_MAX

record qdma_fmap_cfg =
  fmap_qbase :: u16
  fmap_qmax :: u16

record qdma_qid2vec =
  qv_c2h_vector :: u8
  qv_c2h_en_coal :: u8
  qv_h2c_vector :: u8
  qv_h2c_en_coal :: u8

record qdma_descq_sw_ctxt =
  sw_ring_bs_addr :: u64
  sw_vec :: u16
  sw_pidx :: u16
  sw_irq_arm :: u8
  sw_fnc_id :: u8
  sw_qen :: u8
  sw_frcd_en :: u8
  sw_wbi_chk :: u8
  sw_wbi_intvl_en :: u8
  sw_at :: u8
  sw_fetch_max :: u8
  sw_rngsz_idx :: u8
  sw_desc_sz :: u8
  sw_bypass :: u8
  sw_mm_chn :: u8
  sw_wbk_en :: u8
  sw_irq_en :: u8
  sw_port_id :: u8
  sw_irq_no_last :: u8
  sw_err :: u8
  sw_err_wb_sent :: u8
  sw_irq_req :: u8
  sw_mrkr_dis :: u8
  sw_is_mm :: u8
  sw_intr_aggr :: u8
  sw_pasid_en :: u8
  sw_dis_intr_on_vf :: u8
  sw_virtio_en :: u8
  sw_pack_byp_out :: u8
  sw_irq_byp :: u8
  sw_host_id :: u8
  sw_pasid :: u32
  sw_virtio_dsc_base :: u64

record qdma_descq_hw_ctxt =
  hwc_cidx :: u16
  hwc_crd_use :: u16
  hwc_dsc_pend :: u8
  hwc_idl_stp_b :: u8
  hwc_evt_pnd :: u8
  hwc_fetch_pnd :: u8

record qdma_descq_credit_ctxt =
  cr_credit :: u32

record qdma_descq_prefetch_ctxt =
  pf_sw_crdt :: u16
  pf_bypass :: u8
  pf_bufsz_idx :: u8
  pf_port_id :: u8
  pf_var_desc :: u8
  pf_num_pftch :: u16
  pf_err :: u8
  pf_pfch_en :: u8
  pf_pfch :: u8
  pf_valid :: u8

record qdma_descq_cmpt_ctxt =
  cm_bs_addr :: u64
  cm_vec :: u16
  cm_pidx :: u16
  cm_cidx :: u16
  cm_en_stat_desc :: u8
  cm_en_int :: u8
  cm_trig_mode :: u8
  cm_fnc_id :: u8
  cm_counter_idx :: u8
  cm_timer_idx :: u8
  cm_in_st :: u8
  cm_color :: u8
  cm_ringsz_idx :: u8
  cm_desc_sz :: u8
  cm_valid :: u8
  cm_err :: u8
  cm_user_trig_pend :: u8
  cm_timer_running :: u8
  cm_full_upd :: u8
  cm_ovf_chk_dis :: u8
  cm_at :: u8
  cm_int_aggr :: u8
  cm_dis_intr_on_vf :: u8
  cm_vio :: u8
  cm_dir_c2h :: u8
  cm_host_id :: u8
  cm_pasid :: u32
  cm_pasid_en :: u8
  cm_vio_eop :: u8
  cm_sh_cmpt :: u8

record qdma_indirect_intr_ctxt =
  ic_baddr_4k :: u64
  ic_vec :: u16
  ic_pidx :: u16
  ic_valid :: u8
  ic_int_st :: u8
  ic_color :: u8
  ic_page_size :: u8
  ic_at :: u8
  ic_host_id :: u8
  ic_pasid :: u32
  ic_pasid_en :: u8
  ic_func_id :: u16

record qdma_descq_context =
  qid2vec :: qdma_qid2vec
  fmap :: qdma_fmap_cfg
  sw_ctxt :: qdma_descq_sw_ctxt
  hw_ctxt :: qdma_descq_hw_ctxt
  cr_ctxt :: qdma_descq_credit_ctxt
  pfetch_ctxt :: qdma_descq_prefetch_ctxt
  cmpt_ctxt :: qdma_descq_cmpt_ctxt

section \<open>Moving fields between words of different width\<close>

lemma ucast_take_ucast [field_simps_qdma]:
  fixes x :: "'a::len word"
  assumes "LENGTH('a) \<le> 32"
  shows "ucast (take_bit n (ucast x :: u32)) = take_bit n x"
proof (rule bit_eqI)
  fix i
  assume "possible_bit TYPE('a word) i"
  then have "i < LENGTH('a)" by simp
  with assms show "bit (ucast (take_bit n (ucast x :: u32)) :: 'a word) i = bit (take_bit n x) i"
    by (auto simp: bit_ucast_iff bit_take_bit_iff)
qed

lemma ucast_mod2_ucast [field_simps_qdma]:
  fixes x :: "'a::len word"
  assumes "LENGTH('a) \<le> 32"
  shows "ucast ((ucast x :: u32) mod 2) = x mod 2"
  using ucast_take_ucast [OF assms, of 1 x] by simp

lemma take_bit_full8: "take_bit 8 (x :: u8) = x"
  by (simp add: take_bit_word_eq_self)

lemma take_bit_full16: "take_bit 16 (x :: u16) = x"
  by (simp add: take_bit_word_eq_self)

text \<open>A 64-bit value sent as two 32-bit words.\<close>

lemma split_join64:
  fixes x :: u64
  shows "push_bit 32 (ucast (ucast (drop_bit 32 x AND 0xFFFFFFFF) :: u32)) OR
    ucast (ucast (x AND 0xFFFFFFFF) :: u32) = x"
proof -
  have m: "(0xFFFFFFFF :: u64) = mask 32" by (simp add: mask_eq_exp_minus_1)
  show ?thesis
  proof (rule bit_eqI)
    fix i
    assume "possible_bit TYPE(64 word) i"
    then have "i < 64" by simp
    then show "bit ((push_bit 32 (ucast (ucast (drop_bit 32 x AND 0xFFFFFFFF) :: u32)) OR
        ucast (ucast (x AND 0xFFFFFFFF) :: u32)) :: u64) i = bit x i"
      unfolding m
      by (auto simp: bit_or_iff bit_push_bit_iff bit_ucast_iff bit_and_iff bit_mask_iff bit_drop_bit_eq)
  qed
qed

end
