(* ===== verification/ContextCodec.thy ===== *)
theory ContextCodec
  imports SoftContext
begin

text \<open>
  Round trips of the contexts.  A codec turns a structure into words and stores the fields of
  words into a structure; its law is that parsing the words of a structure whose values fit their
  fields gives the structure back.  Under the assumptions on the context engine it follows, once
  for all contexts, that a context that was programmed is read back and that programming it does
  not disturb any other context.
\<close>

section \<open>The interface of a codec\<close>

locale ctxt_codec =
  fixes words :: "'c \<Rightarrow> u32 list" and parse :: "u32 list \<Rightarrow> 'c \<Rightarrow> 'c"
    and n :: nat and fits :: "'c \<Rightarrow> 'c \<Rightarrow> bool"
  assumes words_length: "length (words c) = n" and n_le: "n \<le> 8"
    and parse_words: "fits c c0 \<Longrightarrow> parse (words c) c0 = c"
begin

lemma write_stores:
  assumes "ctxt_engine hw regs ctx"
  obtains s1 where "ctxt_write words sel (Some hw) qid (Some c) s = (QDMA_SUCCESS, s1)"
    and "ctx s1 = (ctx s)(sel := (ctx s sel)(take_bit 12 qid := ctxt_data (words c)))"
proof -
  have "length (words c) \<le> 8" using words_length n_le by simp
  from indirect_write [OF assms this, of sel qid s] show thesis
    using that by (metis (no_types, lifting) ctxt_write_def option.case(2) prod.case)
qed

lemma read_back:
  assumes "ctxt_engine hw regs ctx" and "ctx s sel (take_bit 12 qid) = ctxt_data (words c)"
    and "fits c c0"
  obtains s1 where "ctxt_read parse n sel (Some hw) qid (Some c0) s = (QDMA_SUCCESS, Some c, s1)"
    and "ctx s1 = ctx s"
proof -
  obtain s1 where r: "qdma_indirect_reg_read hw sel qid n s =
      (QDMA_SUCCESS, Some (take n (ctx s sel (take_bit 12 qid))), s1)" "ctx s1 = ctx s"
    using indirect_read [OF assms(1) n_le, of sel qid s] by blast
  have "take n (ctxt_data (words c)) = words c"
    using ctxt_data_take [of "words c"] words_length [of c] n_le by simp
  with r assms(2) parse_words [OF assms(3)] show thesis
    by (intro that [of s1]) (simp_all add: ctxt_read_def)
qed

lemma roundtrip:
  assumes "ctxt_engine hw regs ctx" and "fits c c0"
  obtains s1 s2 where "ctxt_write words sel (Some hw) qid (Some c) s = (QDMA_SUCCESS, s1)"
    and "ctxt_read parse n sel (Some hw) qid (Some c0) s1 = (QDMA_SUCCESS, Some c, s2)"
    and "ctx s2 = (ctx s)(sel := (ctx s sel)(take_bit 12 qid := ctxt_data (words c)))"
proof -
  obtain s1 where w: "ctxt_write words sel (Some hw) qid (Some c) s = (QDMA_SUCCESS, s1)"
      "ctx s1 = (ctx s)(sel := (ctx s sel)(take_bit 12 qid := ctxt_data (words c)))"
    using write_stores [OF assms(1)] by blast
  then have "ctx s1 sel (take_bit 12 qid) = ctxt_data (words c)" by simp
  from read_back [OF assms(1) this assms(2)] w that show thesis by metis
qed

end

section \<open>Values that fit their fields\<close>

definition fits_bits :: "nat \<Rightarrow> 'a::len word \<Rightarrow> bool" where
  "fits_bits k x \<longleftrightarrow> take_bit k x = x"

definition fmap_fits :: "qdma_fmap_cfg \<Rightarrow> qdma_fmap_cfg \<Rightarrow> bool" where
  "fmap_fits c c0 \<longleftrightarrow> fits_bits 11 (fmap_qbase c) \<and> fits_bits 12 (fmap_qmax c)"

text \<open>Fields the context does not carry have to agree already.\<close>

definition sw_fits :: "qdma_descq_sw_ctxt \<Rightarrow> qdma_descq_sw_ctxt \<Rightarrow> bool" where
  "sw_fits c c0 \<longleftrightarrow>
     list_all (fits_bits 1) [sw_irq_arm c, sw_qen c, sw_frcd_en c, sw_wbi_chk c, sw_wbi_intvl_en c,
       sw_at c, sw_bypass c, sw_mm_chn c, sw_wbk_en c, sw_irq_en c, sw_irq_no_last c,
       sw_err_wb_sent c, sw_irq_req c, sw_mrkr_dis c, sw_is_mm c, sw_intr_aggr c] \<and>
     fits_bits 3 (sw_fetch_max c) \<and> fits_bits 4 (sw_rngsz_idx c) \<and> fits_bits 2 (sw_desc_sz c) \<and>
     fits_bits 3 (sw_port_id c) \<and> fits_bits 2 (sw_err c) \<and> fits_bits 11 (sw_vec c) \<and>
     sw_pasid_en c = sw_pasid_en c0 \<and> sw_dis_intr_on_vf c = sw_dis_intr_on_vf c0 \<and>
     sw_virtio_en c = sw_virtio_en c0 \<and> sw_pack_byp_out c = sw_pack_byp_out c0 \<and>
     sw_irq_byp c = sw_irq_byp c0 \<and> sw_host_id c = sw_host_id c0 \<and> sw_pasid c = sw_pasid c0 \<and>
     sw_virtio_dsc_base c = sw_virtio_dsc_base c0"

lemma fits_bits_all:
  "fits_bits 8 (x :: u8)" "fits_bits 16 (y :: u16)"
  by (simp_all add: fits_bits_def take_bit_full8 take_bit_full16)

lemma fits_bits_simp: "fits_bits k x \<Longrightarrow> take_bit k x = x"
  by (simp add: fits_bits_def)

interpretation fmap_codec: ctxt_codec fmap_words fmap_parse QDMA_FMAP_NUM_WORDS fmap_fits
proof
  fix c c0 :: qdma_fmap_cfg
  assume "fmap_fits c c0"
  then have "take_bit 11 (fmap_qbase c) = fmap_qbase c" "take_bit 12 (fmap_qmax c) = fmap_qmax c"
    by (simp_all add: fmap_fits_def fits_bits_def)
  then show "fmap_parse (fmap_words c) c0 = c"
    by (simp add: fmap_words_def fmap_parse_def field_simps_qdma)
qed (simp_all add: fmap_words_def)

interpretation sw_codec: ctxt_codec sw_words sw_parse QDMA_SW_CONTEXT_NUM_WORDS sw_fits
proof
  fix c c0 :: qdma_descq_sw_ctxt
  assume "sw_fits c c0"
  then show "sw_parse (sw_words c) c0 = c"
    by (intro qdma_descq_sw_ctxt.equality)
      (simp_all add: sw_words_def sw_parse_def field_simps_qdma sw_fits_def fits_bits_def
        split_join64 take_bit_full8 take_bit_full16)
qed (simp_all add: sw_words_def)

section \<open>Fields split over two words\<close>

lemma join_crdt:
  fixes x :: u16
  shows "ucast (FIELD_SET (GENMASK 2 0) (take_bit 3 (FIELD_GET (GENMASK 2 0) (ucast x))) OR
    FIELD_SET (GENMASK 15 3) (take_bit 13 (FIELD_GET (GENMASK 15 3) (ucast x)))) = x"
proof (rule bit_eqI)
  have f: "is_field (GENMASK 2 0) 2 0" "is_field (GENMASK 15 3) 15 3"
    by (intro GENMASK_field; simp)+
  fix i
  assume "possible_bit TYPE(16 word) i"
  then show "bit (ucast (FIELD_SET (GENMASK 2 0) (take_bit 3 (FIELD_GET (GENMASK 2 0) (ucast x))) OR
      FIELD_SET (GENMASK 15 3) (take_bit 13 (FIELD_GET (GENMASK 15 3) (ucast x)))) :: u16) i = bit x i"
    by (auto simp: FIELD_GET_field [OF f(1)] FIELD_SET_field [OF f(1)] FIELD_GET_field [OF f(2)]
        FIELD_SET_field [OF f(2)] bit_ucast_iff bit_or_iff bit_push_bit_iff bit_take_bit_iff
        bit_drop_bit_eq)
qed

lemma join_pidx:
  fixes x :: u16
  shows "ucast (FIELD_SET (GENMASK 3 0) (take_bit 4 (FIELD_GET (GENMASK 3 0) (ucast x))) OR
    FIELD_SET (GENMASK 15 4) (take_bit 12 (FIELD_GET (GENMASK 15 4) (ucast x)))) = x"
proof (rule bit_eqI)
  have f: "is_field (GENMASK 3 0) 3 0" "is_field (GENMASK 15 4) 15 4"
    by (intro GENMASK_field; simp)+
  fix i
  assume "possible_bit TYPE(16 word) i"
  then show "bit (ucast (FIELD_SET (GENMASK 3 0) (take_bit 4 (FIELD_GET (GENMASK 3 0) (ucast x))) OR
      FIELD_SET (GENMASK 15 4) (take_bit 12 (FIELD_GET (GENMASK 15 4) (ucast x)))) :: u16) i = bit x i"
    by (auto simp: FIELD_GET_field [OF f(1)] FIELD_SET_field [OF f(1)] FIELD_GET_field [OF f(2)]
        FIELD_SET_field [OF f(2)] bit_ucast_iff bit_or_iff bit_push_bit_iff bit_take_bit_iff
        bit_drop_bit_eq)
qed

text \<open>Addresses are kept without their low twelve bits.\<close>

definition page_aligned :: "u64 \<Rightarrow> bool" where
  "page_aligned a \<longleftrightarrow> take_bit 12 a = 0"

lemma page_aligned_bit: "page_aligned a \<Longrightarrow> bit a i \<Longrightarrow> 12 \<le> i"
proof (rule ccontr)
  assume "page_aligned a" "bit a i" "\<not> 12 \<le> i"
  then have "bit (take_bit 12 a) i" by (simp add: bit_take_bit_iff)
  with \<open>page_aligned a\<close> show False by (simp add: page_aligned_def)
qed

lemma join_cmpt_addr:
  assumes "page_aligned a"
  shows "FIELD_SET (GENMASK_ULL 37 12) (ucast (take_bit 26 (ucast (FIELD_GET (GENMASK_ULL 37 12) a) :: u32))) OR
    FIELD_SET (GENMASK_ULL 63 38) (ucast (take_bit 26 (ucast (FIELD_GET (GENMASK_ULL 63 38) a) :: u32))) = a"
    (is "?l = a")
proof (rule bit_eqI)
  have f: "is_field (GENMASK_ULL 37 12) 37 12" "is_field (GENMASK_ULL 63 38) 63 38"
    by (intro GENMASK_ULL_field; simp)+
  fix i
  assume "possible_bit TYPE(64 word) i"
  then show "bit ?l i = bit a i"
    using page_aligned_bit [OF assms, of i]
    by (cases "38 \<le> i")
      (auto simp: FIELD_GET_field [OF f(1)] FIELD_SET_field [OF f(1)] FIELD_GET_field [OF f(2)]
        FIELD_SET_field [OF f(2)] bit_ucast_iff bit_or_iff bit_push_bit_iff bit_take_bit_iff
        bit_drop_bit_eq)
qed

lemma join_intr_addr:
  assumes "page_aligned a"
  shows "FIELD_SET (GENMASK_ULL 28 12) (ucast (take_bit 17 (ucast (FIELD_GET (GENMASK_ULL 28 12) a) :: u32))) OR
    FIELD_SET (GENMASK_ULL 60 29) (ucast (take_bit 32 (ucast (FIELD_GET (GENMASK_ULL 60 29) a) :: u32))) OR
    FIELD_SET (GENMASK_ULL 63 61) (ucast (take_bit 3 (ucast (FIELD_GET (GENMASK_ULL 63 61) a) :: u32))) = a"
    (is "?l = a")
proof (rule bit_eqI)
  have f: "is_field (GENMASK_ULL 28 12) 28 12" "is_field (GENMASK_ULL 60 29) 60 29"
      "is_field (GENMASK_ULL 63 61) 63 61"
    by (intro GENMASK_ULL_field; simp)+
  fix i
  assume "possible_bit TYPE(64 word) i"
  then show "bit ?l i = bit a i"
    using page_aligned_bit [OF assms, of i]
    by (cases "29 \<le> i"; cases "61 \<le> i")
      (auto simp: FIELD_GET_field [OF f(1)] FIELD_SET_field [OF f(1)] FIELD_GET_field [OF f(2)]
        FIELD_SET_field [OF f(2)] FIELD_GET_field [OF f(3)] FIELD_SET_field [OF f(3)]
        bit_ucast_iff bit_or_iff bit_push_bit_iff bit_take_bit_iff bit_drop_bit_eq)
qed

lemmas joins = join_crdt join_pidx join_cmpt_addr join_intr_addr

section \<open>Prefetch, completion and interrupt contexts\<close>

definition pfetch_fits :: "qdma_descq_prefetch_ctxt \<Rightarrow> qdma_descq_prefetch_ctxt \<Rightarrow> bool" where
  "pfetch_fits c c0 \<longleftrightarrow>
     list_all (fits_bits 1) [pf_bypass c, pf_err c, pf_pfch_en c, pf_pfch c, pf_valid c] \<and>
     fits_bits 4 (pf_bufsz_idx c) \<and> fits_bits 3 (pf_port_id c) \<and>
     pf_var_desc c = pf_var_desc c0 \<and> pf_num_pftch c = pf_num_pftch c0"

interpretation pfetch_codec:
  ctxt_codec pfetch_words pfetch_parse QDMA_PFETCH_CONTEXT_NUM_WORDS pfetch_fits
proof
  fix c c0 :: qdma_descq_prefetch_ctxt
  assume "pfetch_fits c c0"
  then show "pfetch_parse (pfetch_words c) c0 = c"
    by (intro qdma_descq_prefetch_ctxt.equality)
      (simp_all add: pfetch_words_def pfetch_parse_def Let_def field_simps_qdma pfetch_fits_def
        fits_bits_def joins)
qed (simp_all add: pfetch_words_def Let_def)

definition cmpt_fits :: "qdma_descq_cmpt_ctxt \<Rightarrow> qdma_descq_cmpt_ctxt \<Rightarrow> bool" where
  "cmpt_fits c c0 \<longleftrightarrow>
     list_all (fits_bits 1) [cm_en_stat_desc c, cm_en_int c, cm_color c, cm_valid c,
       cm_user_trig_pend c, cm_timer_running c, cm_full_upd c, cm_ovf_chk_dis c, cm_at c,
       cm_int_aggr c] \<and>
     fits_bits 3 (cm_trig_mode c) \<and> fits_bits 4 (cm_counter_idx c) \<and> fits_bits 4 (cm_timer_idx c) \<and>
     fits_bits 2 (cm_in_st c) \<and> fits_bits 4 (cm_ringsz_idx c) \<and> fits_bits 2 (cm_desc_sz c) \<and>
     fits_bits 2 (cm_err c) \<and> fits_bits 11 (cm_vec c) \<and> page_aligned (cm_bs_addr c) \<and>
     cm_dis_intr_on_vf c = cm_dis_intr_on_vf c0 \<and> cm_vio c = cm_vio c0 \<and>
     cm_dir_c2h c = cm_dir_c2h c0 \<and> cm_host_id c = cm_host_id c0 \<and> cm_pasid c = cm_pasid c0 \<and>
     cm_pasid_en c = cm_pasid_en c0 \<and> cm_vio_eop c = cm_vio_eop c0 \<and> cm_sh_cmpt c = cm_sh_cmpt c0"

interpretation cmpt_codec: ctxt_codec cmpt_words cmpt_parse QDMA_CMPT_CONTEXT_NUM_WORDS cmpt_fits
proof
  fix c c0 :: qdma_descq_cmpt_ctxt
  assume "cmpt_fits c c0"
  then show "cmpt_parse (cmpt_words c) c0 = c"
    by (intro qdma_descq_cmpt_ctxt.equality)
      (simp_all add: cmpt_words_def cmpt_parse_def Let_def field_simps_qdma cmpt_fits_def
        fits_bits_def joins take_bit_full8 take_bit_full16)
qed (simp_all add: cmpt_words_def Let_def)

definition intr_fits :: "qdma_indirect_intr_ctxt \<Rightarrow> qdma_indirect_intr_ctxt \<Rightarrow> bool" where
  "intr_fits c c0 \<longleftrightarrow>
     list_all (fits_bits 1) [ic_valid c, ic_int_st c, ic_color c, ic_at c] \<and>
     fits_bits 11 (ic_vec c) \<and> fits_bits 3 (ic_page_size c) \<and> fits_bits 12 (ic_pidx c) \<and>
     page_aligned (ic_baddr_4k c) \<and> ic_host_id c = ic_host_id c0 \<and> ic_pasid c = ic_pasid c0 \<and>
     ic_pasid_en c = ic_pasid_en c0 \<and> ic_func_id c = ic_func_id c0"

interpretation intr_codec: ctxt_codec intr_words intr_parse QDMA_IND_INTR_CONTEXT_NUM_WORDS intr_fits
proof
  fix c c0 :: qdma_indirect_intr_ctxt
  assume "intr_fits c c0"
  then show "intr_parse (intr_words c) c0 = c"
    by (intro qdma_indirect_intr_ctxt.equality)
      (simp_all add: intr_words_def intr_parse_def Let_def field_simps_qdma intr_fits_def
        fits_bits_def joins)
qed (simp_all add: intr_words_def Let_def)

end
