(* ===== verification/ContextProps.thy ===== *)
theory ContextProps
  imports ContextCodec
begin

text \<open>
  Properties of register and context access.  The theory also builds a context engine that meets
  the assumptions made on the device, which shows that they are consistent; the properties are
  evaluated on it.
\<close>

section \<open>A context engine\<close>

record engine =
  e_regs :: "u32 \<Rightarrow> u32"
  e_ctx :: "ind_ctxt_cmd_sel \<Rightarrow> u16 \<Rightarrow> nat \<Rightarrow> u32"

definition all_sels :: "ind_ctxt_cmd_sel list" where
  "all_sels = [QDMA_CTXT_SEL_SW_C2H, QDMA_CTXT_SEL_SW_H2C, QDMA_CTXT_SEL_HW_C2H, QDMA_CTXT_SEL_HW_H2C,
     QDMA_CTXT_SEL_CR_C2H, QDMA_CTXT_SEL_CR_H2C, QDMA_CTXT_SEL_CMPT, QDMA_CTXT_SEL_PFTCH,
     QDMA_CTXT_SEL_INT_COAL, QDMA_CTXT_SEL_PASID_RAM_LOW, QDMA_CTXT_SEL_PASID_RAM_HIGH,
     QDMA_CTXT_SEL_TIMER, QDMA_CTXT_SEL_FMAP]"

definition engine_cmd :: "u32 \<Rightarrow> engine \<Rightarrow> engine" where
  "engine_cmd v s =
     (let qid = ucast (take_bit 12 (drop_bit 7 v)) :: u16; op = take_bit 2 (drop_bit 5 v) in
      case List.find (\<lambda>sel. sel_code sel = take_bit 4 (drop_bit 1 v)) all_sels of
        None \<Rightarrow> s
      | Some sel \<Rightarrow>
          if op = 1 then
            s\<lparr>e_ctx := (e_ctx s)(sel := (e_ctx s sel)(qid := \<lambda>i.
               (e_ctx s sel qid i AND NOT (e_regs s (data_addr (8 + i)))) OR
               (e_regs s (data_addr i) AND e_regs s (data_addr (8 + i)))))\<rparr>
          else if op = 2 then
            s\<lparr>e_regs := fold (\<lambda>i r. r(data_addr i := e_ctx s sel qid i)) [0 ..< 8] (e_regs s)\<rparr>
          else s\<lparr>e_ctx := (e_ctx s)(sel := (e_ctx s sel)(qid := \<lambda>i. 0))\<rparr>)"

definition engine_hw :: "engine hw_dev" where
  "engine_hw = \<lparr>
     reg_read = \<lambda>a s. (if a = QDMA_OFFSET_IND_CTXT_CMD then 0 else e_regs s a, s),
     reg_write = \<lambda>a v s. if a = QDMA_OFFSET_IND_CTXT_CMD then engine_cmd v s
                          else s\<lparr>e_regs := (e_regs s)(a := v)\<rparr>,
     udelay = \<lambda>_ s. s\<rparr>"

definition engine_ctx :: "engine \<Rightarrow> ind_ctxt_cmd_sel \<Rightarrow> u16 \<Rightarrow> u32 list" where
  "engine_ctx s sel q = map (e_ctx s sel q) [0 ..< 8]"

lemma pack_fields:
  fixes x y z :: u32
  assumes "a + k \<le> b" and "b + l \<le> c" and "c + m \<le> 32"
  shows "take_bit k (drop_bit a (push_bit a (take_bit k x) OR push_bit b (take_bit l y) OR
      push_bit c (take_bit m z))) = take_bit k x"
    and "take_bit l (drop_bit b (push_bit a (take_bit k x) OR push_bit b (take_bit l y) OR
      push_bit c (take_bit m z))) = take_bit l y"
    and "take_bit m (drop_bit c (push_bit a (take_bit k x) OR push_bit b (take_bit l y) OR
      push_bit c (take_bit m z))) = take_bit m z"
  by (rule bit_eqI; use assms in \<open>auto simp: bit_take_bit_iff bit_drop_bit_eq bit_or_iff bit_push_bit_iff\<close>)+

lemma cmd_fields:
  "take_bit 4 (drop_bit 1 (ctxt_cmd sel op qid)) = take_bit 4 (sel_code sel)"
  "take_bit 2 (drop_bit 5 (ctxt_cmd sel op qid)) = take_bit 2 (op_code op)"
  "take_bit 12 (drop_bit 7 (ctxt_cmd sel op qid)) = take_bit 12 (ucast qid)"
  unfolding ctxt_cmd_def by (rule pack_fields [where a = 1 and b = 5 and c = 7]; simp)+

lemma find_sel: "List.find (\<lambda>sel'. sel_code sel' = take_bit 4 (sel_code sel)) all_sels = Some sel"
  by (cases sel) (simp_all add: all_sels_def)

lemma data_addr_not_cmd: "i < 16 \<Longrightarrow> data_addr i \<noteq> QDMA_OFFSET_IND_CTXT_CMD"
  using data_addr_inj [of i 16] by (simp add: data_addr_16)

lemma fold_upd:
  assumes "distinct xs" and "inj_on f (set xs)"
  shows "i \<in> set xs \<Longrightarrow> fold (\<lambda>i r. r(f i := g i)) xs r (f i) = g i"
  using assms
proof (induction xs arbitrary: r)
  case (Cons x xs)
  have keep: "fold (\<lambda>i r. r(f i := g i)) ys r' (f x) = r' (f x)"
    if "x \<notin> set ys" "inj_on f (set (x # ys))" for ys r'
    using that by (induction ys arbitrary: r') auto
  have step: "fold (\<lambda>i r. r(f i := g i)) (x # xs) r = fold (\<lambda>i r. r(f i := g i)) xs (r(f x := g x))"
    by simp
  show ?case
  proof (cases "i = x")
    case True
    have "fold (\<lambda>i r. r(f i := g i)) xs (r(f x := g x)) (f x) = (r(f x := g x)) (f x)"
      by (rule keep) (use Cons.prems in auto)
    then show ?thesis unfolding step True by (rule trans) (simp only: fun_upd_same)
  next
    case False
    then show ?thesis unfolding step by (intro Cons.IH) (use Cons.prems in auto)
  qed
qed simp

lemma engine_cmd_eval:
  "engine_cmd (ctxt_cmd sel op qid) s =
     (case op of
        QDMA_CTXT_CMD_WR \<Rightarrow>
          s\<lparr>e_ctx := (e_ctx s)(sel := (e_ctx s sel)(take_bit 12 qid := \<lambda>i.
             (e_ctx s sel (take_bit 12 qid) i AND NOT (e_regs s (data_addr (8 + i)))) OR
             (e_regs s (data_addr i) AND e_regs s (data_addr (8 + i)))))\<rparr>
      | QDMA_CTXT_CMD_RD \<Rightarrow>
          s\<lparr>e_regs := fold (\<lambda>i r. r(data_addr i := e_ctx s sel (take_bit 12 qid) i)) [0 ..< 8] (e_regs s)\<rparr>
      | _ \<Rightarrow> s\<lparr>e_ctx := (e_ctx s)(sel := (e_ctx s sel)(take_bit 12 qid := \<lambda>i. 0))\<rparr>)"
proof -
  have q: "ucast (take_bit 12 (ucast qid :: u32)) = take_bit 12 qid"
    by (rule ucast_take_ucast) simp
  show ?thesis
    unfolding engine_cmd_def Let_def cmd_fields find_sel option.case q by (cases op) simp_all
qed

lemma loaded:
  assumes "i < 8"
  shows "fold (\<lambda>i r. r(data_addr i := g i)) [0 ..< 8] r (data_addr i) = g i"
proof (rule fold_upd)
  show "inj_on data_addr (set [0 ..< 8])"
    by (intro inj_onI, rule ccontr, drule data_addr_inj [rotated 2]) simp_all
qed (use assms in simp_all)

lemma engine_ok: "ctxt_engine engine_hw e_regs engine_ctx"
proof -
  have "ctxt_mem_quiet engine_hw e_regs engine_ctx"
    by (auto simp: ctxt_mem_quiet_def engine_hw_def engine_ctx_def data_addr_not_cmd fun_eq_iff)
  moreover have "ctxt_cmds_done engine_hw e_regs engine_ctx"
    unfolding ctxt_cmds_done_def Let_def
  proof (intro allI)
    fix s sel op qid
    have w: "reg_write engine_hw QDMA_OFFSET_IND_CTXT_CMD (ctxt_cmd sel op qid) s =
        engine_cmd (ctxt_cmd sel op qid) s" by (simp add: engine_hw_def)
    show "length (engine_ctx s sel (take_bit 12 qid)) = 8 \<and>
      (\<forall>sel2 q2. (sel2, q2) \<noteq> (sel, take_bit 12 qid) \<longrightarrow>
        engine_ctx (reg_write engine_hw QDMA_OFFSET_IND_CTXT_CMD (ctxt_cmd sel op qid) s) sel2 q2 =
        engine_ctx s sel2 q2) \<and>
      (case op of
         QDMA_CTXT_CMD_WR \<Rightarrow>
           engine_ctx (reg_write engine_hw QDMA_OFFSET_IND_CTXT_CMD (ctxt_cmd sel op qid) s) sel (take_bit 12 qid) =
           map (\<lambda>i. (engine_ctx s sel (take_bit 12 qid) ! i AND NOT (e_regs s (data_addr (8 + i)))) OR
                (e_regs s (data_addr i) AND e_regs s (data_addr (8 + i)))) [0 ..< 8]
       | QDMA_CTXT_CMD_RD \<Rightarrow>
           engine_ctx (reg_write engine_hw QDMA_OFFSET_IND_CTXT_CMD (ctxt_cmd sel op qid) s) sel (take_bit 12 qid) =
           engine_ctx s sel (take_bit 12 qid) \<and>
           (\<forall>i < 8. e_regs (reg_write engine_hw QDMA_OFFSET_IND_CTXT_CMD (ctxt_cmd sel op qid) s) (data_addr i) =
              engine_ctx s sel (take_bit 12 qid) ! i)
       | _ \<Rightarrow> engine_ctx (reg_write engine_hw QDMA_OFFSET_IND_CTXT_CMD (ctxt_cmd sel op qid) s) sel (take_bit 12 qid) =
           replicate 8 0)"
      unfolding w engine_cmd_eval
      by (cases op) (auto simp: engine_ctx_def loaded map_replicate_const fun_eq_iff)
  qed
  ultimately show ?thesis by (simp add: ctxt_engine_def)
qed

definition engine0 :: engine where
  "engine0 = \<lparr>e_regs = \<lambda>_. 0, e_ctx = \<lambda>_ _ _. 0\<rparr>"

section \<open>Properties\<close>

text \<open>C30: The portable search for trailing zeros is correct.  For every non-zero 64-bit value the
  binary search of \<^verbatim>\<open>get_trailing_zeros\<close> returns the index of the lowest set bit, which is what
  the compiler builtin of the other variant returns.\<close>

theorem get_trailing_zeros_correct:
  assumes "v \<noteq> 0"
  shows "get_trailing_zeros v = (LEAST n. bit v n)"
proof -
  have "\<exists>n. bit v n" using assms by (auto simp: bit_eq_iff)
  then have "bit v (LEAST n. bit v n)" by (rule LeastI_ex)
  then have "lowest v (LEAST n. bit v n)" by (auto simp: lowest_def dest: not_less_Least)
  then show ?thesis by (rule get_trailing_zeros_lowest)
qed

theorem get_trailing_zeros_correct_witness:
  "get_trailing_zeros 0x0001F80000000000 = (LEAST n. bit (0x0001F80000000000 :: u64) n)"
  by (rule get_trailing_zeros_correct) simp

text \<open>C28: Polling decides exactly and always ends.  With a non-zero poll count,
  \<^verbatim>\<open>hw_monitor_reg\<close> succeeds exactly when one of the reads at the start of the first \<open>n\<close> poll
  intervals, or the final read after them, finds the expected value; otherwise it reports a
  busy timeout.\<close>

theorem hw_monitor_reg_decides:
  assumes "interval_us \<noteq> 0" and "timeout_us \<noteq> 0" and "n = unat (timeout_us div interval_us)" and "n \<noteq> 0"
  shows "fst (hw_monitor_reg hw reg msk val interval_us timeout_us s) =
    (if \<exists>k \<le> n. hit hw reg msk val (polled hw reg interval_us k s)
     then QDMA_SUCCESS else - QDMA_ERR_HWACC_BUSY_TIMEOUT)"
proof -
  have nz: "timeout_us div interval_us \<noteq> 0" using assms(3,4) by (auto simp: unat_eq_0)
  note loop = monitor_loop_result [OF nz, of hw reg msk val interval_us s, folded assms(3)]
  show ?thesis
  proof (cases "List.find (\<lambda>k. hit hw reg msk val (polled hw reg interval_us k s)) [0 ..< n]")
    case None
    then have miss: "\<forall>k < n. \<not> hit hw reg msk val (polled hw reg interval_us k s)"
      by (auto simp: find_None_iff)
    have "(\<exists>k \<le> n. hit hw reg msk val (polled hw reg interval_us k s)) \<longleftrightarrow>
        hit hw reg msk val (polled hw reg interval_us n s)"
      using miss by (auto simp: le_less)
    with None loop assms(1,2) show ?thesis
      by (auto simp: hw_monitor_reg_def hit_def Let_def split: prod.splits)
  next
    case (Some k)
    then have "k < n" "hit hw reg msk val (polled hw reg interval_us k s)"
      by (auto simp: find_Some_iff)
    with Some loop assms(1,2) show ?thesis
      by (auto simp: hw_monitor_reg_def Let_def split: prod.splits intro: less_imp_le)
  qed
qed

text \<open>A register that becomes ready after three reads.\<close>

definition slow_hw :: "nat hw_dev" where
  "slow_hw = \<lparr>reg_read = \<lambda>a s. (if s < 3 then 1 else 0, Suc s), reg_write = \<lambda>a v s. s, udelay = \<lambda>_ s. s\<rparr>"

theorem hw_monitor_reg_decides_witness:
  "fst (hw_monitor_reg slow_hw 0x844 1 0 10 500000 0) = 0"
proof -
  have n: "(50000 :: nat) = unat ((500000 :: u32) div 10)" by simp
  have "hit slow_hw 0x844 1 0 (polled slow_hw 0x844 10 3 0)"
    by (simp add: hit_def slow_hw_def numeral_3_eq_3)
  then have "\<exists>k \<le> 50000. hit slow_hw 0x844 1 0 (polled slow_hw 0x844 10 k 0)"
    by (intro exI [of _ 3]) simp
  with hw_monitor_reg_decides [OF _ _ n, where hw = slow_hw and reg = "0x844" and msk = 1 and val = 0 and s = 0]
  show ?thesis by simp
qed

text \<open>C26: Software contexts round-trip.  Programming the software context of a queue and reading
  it back gives the same context, if its values fit their register fields, and leaves every other
  stored context as it was.\<close>

theorem sw_context_roundtrip:
  assumes "ctxt_engine hw regs ctx" and "c2h \<le> 1" and "sw_fits c c0"
  shows "\<exists>s1 s2. qdma_sw_ctx_conf (Some hw) c2h qid (Some c) QDMA_HW_ACCESS_WRITE s = (QDMA_SUCCESS, Some c, s1) \<and>
    qdma_sw_ctx_conf (Some hw) c2h qid (Some c0) QDMA_HW_ACCESS_READ s1 = (QDMA_SUCCESS, Some c, s2) \<and>
    (\<forall>sel q. (sel, q) \<noteq> (sw_sel c2h, take_bit 12 qid) \<longrightarrow> ctx s2 sel q = ctx s sel q)"
proof -
  have c2h: "\<not> c2h > 1" using assms(2) by (simp add: not_less)
  obtain s1 s2 where "ctxt_write sw_words (sw_sel c2h) (Some hw) qid (Some c) s = (QDMA_SUCCESS, s1)"
      "ctxt_read sw_parse QDMA_SW_CONTEXT_NUM_WORDS (sw_sel c2h) (Some hw) qid (Some c0) s1 = (QDMA_SUCCESS, Some c, s2)"
      "ctx s2 = (ctx s)(sw_sel c2h := (ctx s (sw_sel c2h))(take_bit 12 qid := ctxt_data (sw_words c)))"
    using sw_codec.roundtrip [OF assms(1,3)] by blast
  with c2h show ?thesis
    by (auto simp: qdma_sw_ctx_conf_def qdma_sw_context_write_def qdma_sw_context_read_def keep_ctxt_def)
qed

definition demo_sw :: qdma_descq_sw_ctxt where
  "demo_sw = \<lparr>sw_ring_bs_addr = 0x123456789A000, sw_vec = 5, sw_pidx = 0, sw_irq_arm = 1, sw_fnc_id = 4,
     sw_qen = 1, sw_frcd_en = 1, sw_wbi_chk = 1, sw_wbi_intvl_en = 1, sw_at = 0, sw_fetch_max = 0,
     sw_rngsz_idx = 9, sw_desc_sz = 2, sw_bypass = 0, sw_mm_chn = 0, sw_wbk_en = 1, sw_irq_en = 1,
     sw_port_id = 0, sw_irq_no_last = 0, sw_err = 0, sw_err_wb_sent = 0, sw_irq_req = 0, sw_mrkr_dis = 0,
     sw_is_mm = 1, sw_intr_aggr = 0, sw_pasid_en = 0, sw_dis_intr_on_vf = 0, sw_virtio_en = 0,
     sw_pack_byp_out = 0, sw_irq_byp = 0, sw_host_id = 0, sw_pasid = 0, sw_virtio_dsc_base = 0\<rparr>"

theorem sw_context_roundtrip_witness:
  "\<exists>s1 s2. qdma_sw_ctx_conf (Some engine_hw) 1 7 (Some demo_sw) QDMA_HW_ACCESS_WRITE engine0 = (QDMA_SUCCESS, Some demo_sw, s1) \<and>
    qdma_sw_ctx_conf (Some engine_hw) 1 7 (Some demo_sw) QDMA_HW_ACCESS_READ s1 = (QDMA_SUCCESS, Some demo_sw, s2)"
proof -
  have "sw_fits demo_sw demo_sw" by code_simp
  from sw_context_roundtrip [OF engine_ok _ this, of 1 7 engine0] show ?thesis by auto
qed

text \<open>Completion contexts round-trip, if the ring address is page aligned and the values fit
  their fields, for every trigger mode the code accepts.\<close>

theorem cmpt_context_roundtrip:
  assumes "ctxt_engine hw regs ctx" and "cm_trig_mode c \<le> QDMA_CMPT_UPDATE_TRIG_MODE_TMR_CNTR"
    and "cmpt_fits c c0"
  shows "\<exists>s1 s2. qdma_cmpt_ctx_conf (Some hw) qid (Some c) QDMA_HW_ACCESS_WRITE s = (QDMA_SUCCESS, Some c, s1) \<and>
    qdma_cmpt_ctx_conf (Some hw) qid (Some c0) QDMA_HW_ACCESS_READ s1 = (QDMA_SUCCESS, Some c, s2) \<and>
    (\<forall>sel q. (sel, q) \<noteq> (QDMA_CTXT_SEL_CMPT, take_bit 12 qid) \<longrightarrow> ctx s2 sel q = ctx s sel q)"
proof -
  have "\<not> cm_trig_mode c > QDMA_CMPT_UPDATE_TRIG_MODE_TMR_CNTR" using assms(2) by (simp add: not_less)
  then have "qdma_cmpt_context_write (Some hw) qid (Some c) s =
      ctxt_write cmpt_words QDMA_CTXT_SEL_CMPT (Some hw) qid (Some c) s"
    by (simp add: qdma_cmpt_context_write_def ctxt_write_def)
  moreover obtain s1 s2 where
      "ctxt_write cmpt_words QDMA_CTXT_SEL_CMPT (Some hw) qid (Some c) s = (QDMA_SUCCESS, s1)"
      "ctxt_read cmpt_parse QDMA_CMPT_CONTEXT_NUM_WORDS QDMA_CTXT_SEL_CMPT (Some hw) qid (Some c0) s1 = (QDMA_SUCCESS, Some c, s2)"
      "ctx s2 = (ctx s)(QDMA_CTXT_SEL_CMPT := (ctx s QDMA_CTXT_SEL_CMPT)(take_bit 12 qid := ctxt_data (cmpt_words c)))"
    using cmpt_codec.roundtrip [OF assms(1,3)] by blast
  ultimately show ?thesis
    by (auto simp: qdma_cmpt_ctx_conf_def qdma_cmpt_context_read_def keep_ctxt_def)
qed

definition demo_cmpt :: qdma_descq_cmpt_ctxt where
  "demo_cmpt = \<lparr>cm_bs_addr = 0xFEDCBA9876543000, cm_vec = 3, cm_pidx = 0x1234, cm_cidx = 0x4321,
     cm_en_stat_desc = 1, cm_en_int = 1, cm_trig_mode = 5, cm_fnc_id = 2, cm_counter_idx = 15,
     cm_timer_idx = 9, cm_in_st = 0, cm_color = 1, cm_ringsz_idx = 4, cm_desc_sz = 3, cm_valid = 1,
     cm_err = 0, cm_user_trig_pend = 0, cm_timer_running = 0, cm_full_upd = 0, cm_ovf_chk_dis = 0,
     cm_at = 0, cm_int_aggr = 0, cm_dis_intr_on_vf = 0, cm_vio = 0, cm_dir_c2h = 0, cm_host_id = 0,
     cm_pasid = 0, cm_pasid_en = 0, cm_vio_eop = 0, cm_sh_cmpt = 0\<rparr>"

theorem cmpt_context_roundtrip_witness:
  "\<exists>s1 s2. qdma_cmpt_ctx_conf (Some engine_hw) 7 (Some demo_cmpt) QDMA_HW_ACCESS_WRITE engine0 = (QDMA_SUCCESS, Some demo_cmpt, s1) \<and>
    qdma_cmpt_ctx_conf (Some engine_hw) 7 (Some demo_cmpt) QDMA_HW_ACCESS_READ s1 = (QDMA_SUCCESS, Some demo_cmpt, s2)"
proof -
  have "cmpt_fits demo_cmpt demo_cmpt" by code_simp
  from cmpt_context_roundtrip [OF engine_ok _ this, of 7 engine0] show ?thesis
    by (auto simp: demo_cmpt_def)
qed

text \<open>Prefetch contexts round-trip; the sixteen-bit software credit, which the context keeps
  in two words, is put together again.\<close>

theorem pfetch_context_roundtrip:
  assumes "ctxt_engine hw regs ctx" and "pfetch_fits c c0"
  shows "\<exists>s1 s2. qdma_pfetch_ctx_conf (Some hw) qid (Some c) QDMA_HW_ACCESS_WRITE s = (QDMA_SUCCESS, Some c, s1) \<and>
    qdma_pfetch_ctx_conf (Some hw) qid (Some c0) QDMA_HW_ACCESS_READ s1 = (QDMA_SUCCESS, Some c, s2) \<and>
    (\<forall>sel q. (sel, q) \<noteq> (QDMA_CTXT_SEL_PFTCH, take_bit 12 qid) \<longrightarrow> ctx s2 sel q = ctx s sel q)"
proof -
  obtain s1 s2 where
      "ctxt_write pfetch_words QDMA_CTXT_SEL_PFTCH (Some hw) qid (Some c) s = (QDMA_SUCCESS, s1)"
      "ctxt_read pfetch_parse QDMA_PFETCH_CONTEXT_NUM_WORDS QDMA_CTXT_SEL_PFTCH (Some hw) qid (Some c0) s1 = (QDMA_SUCCESS, Some c, s2)"
      "ctx s2 = (ctx s)(QDMA_CTXT_SEL_PFTCH := (ctx s QDMA_CTXT_SEL_PFTCH)(take_bit 12 qid := ctxt_data (pfetch_words c)))"
    using pfetch_codec.roundtrip [OF assms] by blast
  then show ?thesis
    by (auto simp: qdma_pfetch_ctx_conf_def qdma_pfetch_context_write_def qdma_pfetch_context_read_def
        keep_ctxt_def)
qed

definition demo_pfetch :: qdma_descq_prefetch_ctxt where
  "demo_pfetch = \<lparr>pf_sw_crdt = 0xABCD, pf_bypass = 1, pf_bufsz_idx = 11, pf_port_id = 2, pf_var_desc = 0,
     pf_num_pftch = 0, pf_err = 0, pf_pfch_en = 1, pf_pfch = 0, pf_valid = 1\<rparr>"

theorem pfetch_context_roundtrip_witness:
  "\<exists>s1 s2. qdma_pfetch_ctx_conf (Some engine_hw) 7 (Some demo_pfetch) QDMA_HW_ACCESS_WRITE engine0 = (QDMA_SUCCESS, Some demo_pfetch, s1) \<and>
    qdma_pfetch_ctx_conf (Some engine_hw) 7 (Some demo_pfetch) QDMA_HW_ACCESS_READ s1 = (QDMA_SUCCESS, Some demo_pfetch, s2)"
proof -
  have "pfetch_fits demo_pfetch demo_pfetch" by code_simp
  from pfetch_context_roundtrip [OF engine_ok this, of 7 engine0] show ?thesis by auto
qed

text \<open>Interrupt aggregation contexts round-trip; the page-aligned ring address, which the
  context keeps in three words, is put together again.\<close>

theorem intr_context_roundtrip:
  assumes "ctxt_engine hw regs ctx" and "intr_fits c c0"
  shows "\<exists>s1 s2. qdma_indirect_intr_ctx_conf (Some hw) ring (Some c) QDMA_HW_ACCESS_WRITE s = (QDMA_SUCCESS, Some c, s1) \<and>
    qdma_indirect_intr_ctx_conf (Some hw) ring (Some c0) QDMA_HW_ACCESS_READ s1 = (QDMA_SUCCESS, Some c, s2) \<and>
    (\<forall>sel q. (sel, q) \<noteq> (QDMA_CTXT_SEL_INT_COAL, take_bit 12 ring) \<longrightarrow> ctx s2 sel q = ctx s sel q)"
proof -
  obtain s1 s2 where
      "ctxt_write intr_words QDMA_CTXT_SEL_INT_COAL (Some hw) ring (Some c) s = (QDMA_SUCCESS, s1)"
      "ctxt_read intr_parse QDMA_IND_INTR_CONTEXT_NUM_WORDS QDMA_CTXT_SEL_INT_COAL (Some hw) ring (Some c0) s1 = (QDMA_SUCCESS, Some c, s2)"
      "ctx s2 = (ctx s)(QDMA_CTXT_SEL_INT_COAL := (ctx s QDMA_CTXT_SEL_INT_COAL)(take_bit 12 ring := ctxt_data (intr_words c)))"
    using intr_codec.roundtrip [OF assms] by blast
  then show ?thesis
    by (auto simp: qdma_indirect_intr_ctx_conf_def qdma_indirect_intr_context_write_def
        qdma_indirect_intr_context_read_def keep_ctxt_def)
qed

definition demo_intr :: qdma_indirect_intr_ctxt where
  "demo_intr = \<lparr>ic_baddr_4k = 0xFEDCBA9876543000, ic_vec = 9, ic_pidx = 0x123, ic_valid = 1, ic_int_st = 0,
     ic_color = 1, ic_page_size = 7, ic_at = 0, ic_host_id = 0, ic_pasid = 0, ic_pasid_en = 0, ic_func_id = 0\<rparr>"

theorem intr_context_roundtrip_witness:
  "\<exists>s1 s2. qdma_indirect_intr_ctx_conf (Some engine_hw) 3 (Some demo_intr) QDMA_HW_ACCESS_WRITE engine0 = (QDMA_SUCCESS, Some demo_intr, s1) \<and>
    qdma_indirect_intr_ctx_conf (Some engine_hw) 3 (Some demo_intr) QDMA_HW_ACCESS_READ s1 = (QDMA_SUCCESS, Some demo_intr, s2)"
proof -
  have "intr_fits demo_intr demo_intr" by code_simp
  from intr_context_roundtrip [OF engine_ok this, of 3 engine0] show ?thesis by auto
qed

lemma FIELD_GET_zero [simp]: "FIELD_GET m 0 = 0"
  by (simp add: FIELD_GET_def)

text \<open>Clearing or invalidating the software context of a queue disables the queue: reading the
  context afterwards gives a context whose queue-enable flag and ring address are zero, and no
  other stored context changes.\<close>

theorem sw_context_erased:
  assumes e: "ctxt_engine hw regs ctx" and c2h: "c2h \<le> 1"
    and a: "access = QDMA_HW_ACCESS_CLEAR \<or> access = QDMA_HW_ACCESS_INVALIDATE"
  shows "\<exists>s1 s2 c'. qdma_sw_ctx_conf (Some hw) c2h qid None access s = (QDMA_SUCCESS, None, s1) \<and>
    qdma_sw_ctx_conf (Some hw) c2h qid (Some c) QDMA_HW_ACCESS_READ s1 = (QDMA_SUCCESS, Some c', s2) \<and>
    sw_qen c' = 0 \<and> sw_ring_bs_addr c' = 0 \<and>
    (\<forall>sel q. (sel, q) \<noteq> (sw_sel c2h, take_bit 12 qid) \<longrightarrow> ctx s2 sel q = ctx s sel q)"
proof -
  have c2h': "\<not> c2h > 1" using c2h by (simp add: not_less)
  obtain s1 where s1: "qdma_sw_ctx_conf (Some hw) c2h qid None access s = (QDMA_SUCCESS, None, s1)"
      "ctx s1 = (ctx s)(sw_sel c2h := (ctx s (sw_sel c2h))(take_bit 12 qid := replicate 8 0))"
    using indirect_erase [OF e, of "sw_sel c2h" qid s] a c2h'
    by (auto simp: qdma_sw_ctx_conf_def qdma_sw_context_clear_def qdma_sw_context_invalidate_def
        ctxt_clear_def ctxt_invalidate_def keep_ctxt_def)
  obtain s2 where s2: "qdma_indirect_reg_read hw (sw_sel c2h) qid 5 s1 =
      (QDMA_SUCCESS, Some (take 5 (ctx s1 (sw_sel c2h) (take_bit 12 qid))), s2)" "ctx s2 = ctx s1"
    using indirect_read [OF e, of 5 "sw_sel c2h" qid s1] by auto
  have zeros: "take 5 (ctx s1 (sw_sel c2h) (take_bit 12 qid)) = replicate 5 0" using s1(2) by simp
  let ?c = "sw_parse (replicate 5 0) c"
  have "qdma_sw_ctx_conf (Some hw) c2h qid (Some c) QDMA_HW_ACCESS_READ s1 = (QDMA_SUCCESS, Some ?c, s2)"
    using s2(1) c2h' unfolding zeros
    by (simp add: qdma_sw_ctx_conf_def qdma_sw_context_read_def ctxt_read_def)
  moreover have "sw_qen ?c = 0" "sw_ring_bs_addr ?c = 0" by (simp_all add: sw_parse_def)
  ultimately show ?thesis using s1 s2(2) by auto
qed

theorem sw_context_erased_witness:
  "\<exists>s1 s2 c'. qdma_sw_ctx_conf (Some engine_hw) 1 7 None QDMA_HW_ACCESS_INVALIDATE engine0 = (QDMA_SUCCESS, None, s1) \<and>
    qdma_sw_ctx_conf (Some engine_hw) 1 7 (Some demo_sw) QDMA_HW_ACCESS_READ s1 = (QDMA_SUCCESS, Some c', s2) \<and>
    sw_qen c' = 0"
  using sw_context_erased [OF engine_ok, of 1 QDMA_HW_ACCESS_INVALIDATE 7 engine0 demo_sw] by auto

text \<open>Invalid arguments never reach the device.  A null device handle, a direction other than
  the two defined ones, an access type the context does not support, or a completion trigger mode
  out of range makes the access functions return the invalid-parameter error with the device and
  the structure untouched.\<close>

theorem invalid_access_rejected:
  "qdma_sw_ctx_conf None c2h qid ctxt access s = (- QDMA_ERR_INV_PARAM, ctxt, s) \<and>
   (c2h > 1 \<longrightarrow> qdma_sw_ctx_conf dev c2h qid ctxt access s = (- QDMA_ERR_INV_PARAM, ctxt, s)) \<and>
   qdma_hw_ctx_conf dev c2h qid hctxt QDMA_HW_ACCESS_WRITE s = (- QDMA_ERR_INV_PARAM, hctxt, s) \<and>
   qdma_fmap_conf dev fid config QDMA_HW_ACCESS_INVALIDATE s = (- QDMA_ERR_INV_PARAM, config, s) \<and>
   (cm_trig_mode c > 5 \<longrightarrow>
     qdma_cmpt_ctx_conf dev qid (Some c) QDMA_HW_ACCESS_WRITE s = (- QDMA_ERR_INV_PARAM, Some c, s))"
  by (auto simp: qdma_sw_ctx_conf_def qdma_sw_context_read_def qdma_sw_context_write_def
      qdma_sw_context_clear_def qdma_sw_context_invalidate_def ctxt_read_def ctxt_write_def ctxt_clear_def
      ctxt_invalidate_def keep_ctxt_def qdma_hw_ctx_conf_def qdma_fmap_conf_def qdma_cmpt_ctx_conf_def
      qdma_cmpt_context_write_def split: qdma_hw_access_type.splits option.splits)

theorem invalid_access_rejected_witness:
  "qdma_sw_ctx_conf (Some engine_hw) 2 7 None QDMA_HW_ACCESS_CLEAR engine0 = (- QDMA_ERR_INV_PARAM, None, engine0)"
  using invalid_access_rejected
    [of 2 7 None QDMA_HW_ACCESS_CLEAR engine0 "Some engine_hw" None 0 None demo_cmpt] by simp

end
