(* ===== verification/MboxTypes.thy ===== *)
theory MboxTypes
  imports ContextTypes ResourceMgmt
begin

text \<open>
  Messages of the mailbox between a virtual function and its parent (\<^verbatim>\<open>qdma_mbox_protocol.c\<close> and
  \<^verbatim>\<open>.h\<close>), and the table of device access functions (\<^verbatim>\<open>struct qdma_hw_access\<close>) the handlers call.

  A message is a union of structures that all begin with the header.  It is modelled as one record
  with the header and the members of the structures; the members \<^verbatim>\<open>qbase\<close> and \<^verbatim>\<open>qmax\<close> of the hello
  and the fmap structure lie at the same place and are one field here, since the code writes them
  through one structure and reads them through the other.  Every other member is only accessed
  through the structure that belongs to the opcode.  Bit fields are words of their width.  Arrays
  are lists; an access beyond an array makes the operation undefined, which is \<open>None\<close>.
\<close>

section \<open>Opcodes and return codes\<close>

definition MBOX_OP_VF_BYE :: u8 where [mbox_defs]: "MBOX_OP_VF_BYE = 0"
definition MBOX_OP_HELLO :: u8 where [mbox_defs]: "MBOX_OP_HELLO = 1"
definition MBOX_OP_FMAP :: u8 where [mbox_defs]: "MBOX_OP_FMAP = 2"
definition MBOX_OP_CSR :: u8 where [mbox_defs]: "MBOX_OP_CSR = 3"
definition MBOX_OP_QREQ :: u8 where [mbox_defs]: "MBOX_OP_QREQ = 4"
definition MBOX_OP_QNOTIFY_ADD :: u8 where [mbox_defs]: "MBOX_OP_QNOTIFY_ADD = 5"
definition MBOX_OP_QNOTIFY_DEL :: u8 where [mbox_defs]: "MBOX_OP_QNOTIFY_DEL = 6"
definition MBOX_OP_GET_QACTIVE_CNT :: u8 where [mbox_defs]: "MBOX_OP_GET_QACTIVE_CNT = 7"
definition MBOX_OP_QCTXT_WRT :: u8 where [mbox_defs]: "MBOX_OP_QCTXT_WRT = 8"
definition MBOX_OP_QCTXT_RD :: u8 where [mbox_defs]: "MBOX_OP_QCTXT_RD = 9"
definition MBOX_OP_QCTXT_CLR :: u8 where [mbox_defs]: "MBOX_OP_QCTXT_CLR = 10"
definition MBOX_OP_QCTXT_INV :: u8 where [mbox_defs]: "MBOX_OP_QCTXT_INV = 11"
definition MBOX_OP_INTR_CTXT_WRT :: u8 where [mbox_defs]: "MBOX_OP_INTR_CTXT_WRT = 12"
definition MBOX_OP_INTR_CTXT_RD :: u8 where [mbox_defs]: "MBOX_OP_INTR_CTXT_RD = 13"
definition MBOX_OP_INTR_CTXT_CLR :: u8 where [mbox_defs]: "MBOX_OP_INTR_CTXT_CLR = 14"
definition MBOX_OP_INTR_CTXT_INV :: u8 where [mbox_defs]: "MBOX_OP_INTR_CTXT_INV = 15"
definition MBOX_OP_RESET_PREPARE :: u8 where [mbox_defs]: "MBOX_OP_RESET_PREPARE = 16"
definition MBOX_OP_RESET_DONE :: u8 where [mbox_defs]: "MBOX_OP_RESET_DONE = 17"
definition MBOX_OP_REG_LIST_READ :: u8 where [mbox_defs]: "MBOX_OP_REG_LIST_READ = 18"
definition MBOX_OP_PF_BYE :: u8 where [mbox_defs]: "MBOX_OP_PF_BYE = 19"
definition MBOX_OP_PF_RESET_VF_BYE :: u8 where [mbox_defs]: "MBOX_OP_PF_RESET_VF_BYE = 20"
definition MBOX_MSG_OP_RSP_OFFSET :: u8 where [mbox_defs]: "MBOX_MSG_OP_RSP_OFFSET = 0x80"
definition MBOX_OP_RESET_PREPARE_RESP :: u8 where [mbox_defs]: "MBOX_OP_RESET_PREPARE_RESP = 0x90"
definition MBOX_OP_RESET_DONE_RESP :: u8 where [mbox_defs]: "MBOX_OP_RESET_DONE_RESP = 0x91"
definition MBOX_OP_PF_BYE_RESP :: u8 where [mbox_defs]: "MBOX_OP_PF_BYE_RESP = 0x93"

definition QDMA_MBOX_VF_ONLINE :: int where [simp]: "QDMA_MBOX_VF_ONLINE = 1"
definition QDMA_MBOX_VF_OFFLINE :: int where [simp]: "QDMA_MBOX_VF_OFFLINE = -1"
definition QDMA_MBOX_VF_RESET :: int where [simp]: "QDMA_MBOX_VF_RESET = 2"
definition QDMA_MBOX_PF_RESET_DONE :: int where [simp]: "QDMA_MBOX_PF_RESET_DONE = 3"
definition QDMA_MBOX_PF_BYE :: int where [simp]: "QDMA_MBOX_PF_BYE = 4"
definition QDMA_MBOX_VF_RESET_BYE :: int where [simp]: "QDMA_MBOX_VF_RESET_BYE = 5"

definition QDMA_GLOBAL_CSR_ARRAY_SZ :: nat where [simp]: "QDMA_GLOBAL_CSR_ARRAY_SZ = 16"
definition QDMA_NUM_DATA_VEC_FOR_INTR_CXT :: nat where [simp]: "QDMA_NUM_DATA_VEC_FOR_INTR_CXT = 1"
definition QDMA_MAX_REGISTER_DUMP :: nat where [simp]: "QDMA_MAX_REGISTER_DUMP = 14"

section \<open>Structures\<close>

datatype mbox_cmpt_ctxt_type =
    QDMA_MBOX_CMPT_CTXT_ONLY | QDMA_MBOX_CMPT_WITH_MM | QDMA_MBOX_CMPT_WITH_ST
  | QDMA_MBOX_CMPT_CTXT_NONE

datatype qdma_global_csr_type =
    QDMA_CSR_RING_SZ | QDMA_CSR_TIMER_CNT | QDMA_CSR_CNT_TH | QDMA_CSR_BUF_SZ | QDMA_CSR_MAX

record qdma_dev_attributes =
  num_pfs :: u8
  num_qs :: u16
  flr_present :: "1 word"
  st_en :: "1 word"
  mm_en :: "1 word"
  mm_cmpt_en :: "1 word"
  mailbox_en :: "1 word"
  debug_mode :: "1 word"
  desc_eng_mode :: "2 word"
  mm_channel_max :: u8
  qid2vec_ctx :: "1 word"
  cmpt_ovf_chk_dis :: "1 word"
  mailbox_intr :: "1 word"
  sw_desc_64b :: "1 word"
  cmpt_desc_64b :: "1 word"
  dynamic_bar :: "1 word"
  legacy_intr :: "1 word"
  cmpt_trig_count_timer :: "1 word"

record qdma_csr_info =
  csr_ringsz :: "u16 list"
  csr_bufsz :: "u16 list"
  csr_timer_cnt :: "u8 list"
  csr_cnt_thres :: "u8 list"
  csr_wb_intvl :: u8

record mbox_descq_conf =
  dc_ring_bs_addr :: u64
  dc_cmpt_ring_bs_addr :: u64
  dc_forced_en :: "1 word"
  dc_en_bypass :: "1 word"
  dc_irq_arm :: "1 word"
  dc_wbi_intvl_en :: "1 word"
  dc_wbi_chk :: "1 word"
  dc_at :: "1 word"
  dc_wbk_en :: "1 word"
  dc_irq_en :: "1 word"
  dc_pfch_en :: "1 word"
  dc_en_bypass_prefetch :: "1 word"
  dc_dis_overflow_check :: "1 word"
  dc_cmpt_int_en :: "1 word"
  dc_cmpt_at :: "1 word"
  dc_cmpt_color :: "1 word"
  dc_cmpt_full_upd :: "1 word"
  dc_cmpl_stat_en :: "1 word"
  dc_desc_sz :: "2 word"
  dc_cmpt_desc_sz :: "2 word"
  dc_triggermode :: "3 word"
  dc_func_id :: u16
  dc_cnt_thres :: u8
  dc_timer_thres :: u8
  dc_intr_id :: "11 word"
  dc_intr_aggr :: "1 word"
  dc_ringsz :: u16
  dc_bufsz :: u16
  dc_cmpt_ringsz :: u16

record mbox_msg_intr_ctxt =
  num_rings :: u8
  ring_index_list :: "u32 list"
  ictxt :: "qdma_indirect_intr_ctxt list"

record mbox_msg_hdr =
  hdr_op :: u8
  hdr_status :: u8
  src_func_id :: u16
  dst_func_id :: u16

record mbox_msg_qctxt =
  qc_qid_hw :: u16
  qc_st :: "1 word"
  qc_c2h :: "1 word"
  cmpt_ctxt_type :: mbox_cmpt_ctxt_type
  descq_conf :: mbox_descq_conf
  descq_ctxt :: qdma_descq_context

type_synonym qdma_reg_data = "u32 \<times> u32"

text \<open>The union of the messages, as a record with one member for each payload.  The members do not overlap and have no
  size: that the larger payloads do not fit the 128 bytes of the message buffers of the driver, which concerns the
  response to a context read with a completion context, is not visible here.\<close>

record qdma_mbox_txrx =
  hdr :: mbox_msg_hdr
  m_qbase :: u32
  m_qmax :: u32
  hello_dev_cap :: qdma_dev_attributes
  hello_dma_device_index :: u32
  m_intr_ctxt :: mbox_msg_intr_ctxt
  m_qctxt :: mbox_msg_qctxt
  m_csr_info :: qdma_csr_info
  h2c_queues :: u32
  c2h_queues :: u32
  cmpt_queues :: u32
  qn_qid_hw :: u16
  qn_q_type :: u32
  group_num :: u16
  num_regs :: u16
  reg_list :: "qdma_reg_data list"

section \<open>Structures filled with zeros\<close>

definition fmap_zero :: qdma_fmap_cfg where "fmap_zero = \<lparr>fmap_qbase = 0, fmap_qmax = 0\<rparr>"

definition sw_zero :: qdma_descq_sw_ctxt where
  "sw_zero = \<lparr>sw_ring_bs_addr = 0, sw_vec = 0, sw_pidx = 0, sw_irq_arm = 0, sw_fnc_id = 0, sw_qen = 0,
     sw_frcd_en = 0, sw_wbi_chk = 0, sw_wbi_intvl_en = 0, sw_at = 0, sw_fetch_max = 0, sw_rngsz_idx = 0,
     sw_desc_sz = 0, sw_bypass = 0, sw_mm_chn = 0, sw_wbk_en = 0, sw_irq_en = 0, sw_port_id = 0,
     sw_irq_no_last = 0, sw_err = 0, sw_err_wb_sent = 0, sw_irq_req = 0, sw_mrkr_dis = 0, sw_is_mm = 0,
     sw_intr_aggr = 0, sw_pasid_en = 0, sw_dis_intr_on_vf = 0, sw_virtio_en = 0, sw_pack_byp_out = 0,
     sw_irq_byp = 0, sw_host_id = 0, sw_pasid = 0, sw_virtio_dsc_base = 0\<rparr>"

definition hwc_zero :: qdma_descq_hw_ctxt where
  "hwc_zero = \<lparr>hwc_cidx = 0, hwc_crd_use = 0, hwc_dsc_pend = 0, hwc_idl_stp_b = 0, hwc_evt_pnd = 0,
     hwc_fetch_pnd = 0\<rparr>"

definition pf_zero :: qdma_descq_prefetch_ctxt where
  "pf_zero = \<lparr>pf_sw_crdt = 0, pf_bypass = 0, pf_bufsz_idx = 0, pf_port_id = 0, pf_var_desc = 0,
     pf_num_pftch = 0, pf_err = 0, pf_pfch_en = 0, pf_pfch = 0, pf_valid = 0\<rparr>"

definition cm_zero :: qdma_descq_cmpt_ctxt where
  "cm_zero = \<lparr>cm_bs_addr = 0, cm_vec = 0, cm_pidx = 0, cm_cidx = 0, cm_en_stat_desc = 0, cm_en_int = 0,
     cm_trig_mode = 0, cm_fnc_id = 0, cm_counter_idx = 0, cm_timer_idx = 0, cm_in_st = 0, cm_color = 0,
     cm_ringsz_idx = 0, cm_desc_sz = 0, cm_valid = 0, cm_err = 0, cm_user_trig_pend = 0,
     cm_timer_running = 0, cm_full_upd = 0, cm_ovf_chk_dis = 0, cm_at = 0, cm_int_aggr = 0,
     cm_dis_intr_on_vf = 0, cm_vio = 0, cm_dir_c2h = 0, cm_host_id = 0, cm_pasid = 0, cm_pasid_en = 0,
     cm_vio_eop = 0, cm_sh_cmpt = 0\<rparr>"

definition ic_zero :: qdma_indirect_intr_ctxt where
  "ic_zero = \<lparr>ic_baddr_4k = 0, ic_vec = 0, ic_pidx = 0, ic_valid = 0, ic_int_st = 0, ic_color = 0,
     ic_page_size = 0, ic_at = 0, ic_host_id = 0, ic_pasid = 0, ic_pasid_en = 0, ic_func_id = 0\<rparr>"

definition descq_zero :: qdma_descq_context where
  "descq_zero = \<lparr>qid2vec = \<lparr>qv_c2h_vector = 0, qv_c2h_en_coal = 0, qv_h2c_vector = 0, qv_h2c_en_coal = 0\<rparr>,
     fmap = fmap_zero, sw_ctxt = sw_zero, hw_ctxt = hwc_zero, cr_ctxt = \<lparr>cr_credit = 0\<rparr>,
     pfetch_ctxt = pf_zero, cmpt_ctxt = cm_zero\<rparr>"

definition conf_zero :: mbox_descq_conf where
  "conf_zero = \<lparr>dc_ring_bs_addr = 0, dc_cmpt_ring_bs_addr = 0, dc_forced_en = 0, dc_en_bypass = 0,
     dc_irq_arm = 0, dc_wbi_intvl_en = 0, dc_wbi_chk = 0, dc_at = 0, dc_wbk_en = 0, dc_irq_en = 0,
     dc_pfch_en = 0, dc_en_bypass_prefetch = 0, dc_dis_overflow_check = 0, dc_cmpt_int_en = 0,
     dc_cmpt_at = 0, dc_cmpt_color = 0, dc_cmpt_full_upd = 0, dc_cmpl_stat_en = 0, dc_desc_sz = 0,
     dc_cmpt_desc_sz = 0, dc_triggermode = 0, dc_func_id = 0, dc_cnt_thres = 0, dc_timer_thres = 0,
     dc_intr_id = 0, dc_intr_aggr = 0, dc_ringsz = 0, dc_bufsz = 0, dc_cmpt_ringsz = 0\<rparr>"

definition attr_zero :: qdma_dev_attributes where
  "attr_zero = \<lparr>num_pfs = 0, num_qs = 0, flr_present = 0, st_en = 0, mm_en = 0, mm_cmpt_en = 0,
     mailbox_en = 0, debug_mode = 0, desc_eng_mode = 0, mm_channel_max = 0, qid2vec_ctx = 0,
     cmpt_ovf_chk_dis = 0, mailbox_intr = 0, sw_desc_64b = 0, cmpt_desc_64b = 0, dynamic_bar = 0,
     legacy_intr = 0, cmpt_trig_count_timer = 0\<rparr>"

definition msg_zero :: qdma_mbox_txrx where
  "msg_zero = \<lparr>hdr = \<lparr>hdr_op = 0, hdr_status = 0, src_func_id = 0, dst_func_id = 0\<rparr>,
     m_qbase = 0, m_qmax = 0, hello_dev_cap = attr_zero, hello_dma_device_index = 0,
     m_intr_ctxt = \<lparr>num_rings = 0, ring_index_list = replicate QDMA_NUM_DATA_VEC_FOR_INTR_CXT 0,
       ictxt = replicate QDMA_NUM_DATA_VEC_FOR_INTR_CXT ic_zero\<rparr>,
     m_qctxt = \<lparr>qc_qid_hw = 0, qc_st = 0, qc_c2h = 0, cmpt_ctxt_type = QDMA_MBOX_CMPT_CTXT_ONLY,
       descq_conf = conf_zero, descq_ctxt = descq_zero\<rparr>,
     m_csr_info = \<lparr>csr_ringsz = replicate 16 0, csr_bufsz = replicate 16 0, csr_timer_cnt = replicate 16 0,
       csr_cnt_thres = replicate 16 0, csr_wb_intvl = 0\<rparr>,
     h2c_queues = 0, c2h_queues = 0, cmpt_queues = 0, qn_qid_hw = 0, qn_q_type = 0,
     group_num = 0, num_regs = 0, reg_list = replicate QDMA_MAX_REGISTER_DUMP (0, 0)\<rparr>"

section \<open>Access functions of the device\<close>

text \<open>The members of \<^verbatim>\<open>struct qdma_hw_access\<close> the mailbox code calls.\<close>

record 's qdma_hw_access =
  hw_fmap_conf :: "u16 \<Rightarrow> qdma_fmap_cfg option \<Rightarrow> qdma_hw_access_type \<Rightarrow> 's \<Rightarrow>
    int \<times> qdma_fmap_cfg option \<times> 's"
  hw_sw_ctx_conf :: "u8 \<Rightarrow> u16 \<Rightarrow> qdma_descq_sw_ctxt option \<Rightarrow> qdma_hw_access_type \<Rightarrow> 's \<Rightarrow>
    int \<times> qdma_descq_sw_ctxt option \<times> 's"
  hw_pfetch_ctx_conf :: "u16 \<Rightarrow> qdma_descq_prefetch_ctxt option \<Rightarrow> qdma_hw_access_type \<Rightarrow> 's \<Rightarrow>
    int \<times> qdma_descq_prefetch_ctxt option \<times> 's"
  hw_cmpt_ctx_conf :: "u16 \<Rightarrow> qdma_descq_cmpt_ctxt option \<Rightarrow> qdma_hw_access_type \<Rightarrow> 's \<Rightarrow>
    int \<times> qdma_descq_cmpt_ctxt option \<times> 's"
  hw_hw_ctx_conf :: "u8 \<Rightarrow> u16 \<Rightarrow> qdma_descq_hw_ctxt option \<Rightarrow> qdma_hw_access_type \<Rightarrow> 's \<Rightarrow>
    int \<times> qdma_descq_hw_ctxt option \<times> 's"
  hw_credit_ctx_conf :: "u8 \<Rightarrow> u16 \<Rightarrow> qdma_descq_credit_ctxt option \<Rightarrow> qdma_hw_access_type \<Rightarrow> 's \<Rightarrow>
    int \<times> qdma_descq_credit_ctxt option \<times> 's"
  hw_indirect_intr_ctx_conf :: "u16 \<Rightarrow> qdma_indirect_intr_ctxt option \<Rightarrow> qdma_hw_access_type \<Rightarrow> 's \<Rightarrow>
    int \<times> qdma_indirect_intr_ctxt option \<times> 's"
  hw_global_csr_conf :: "u8 \<Rightarrow> u8 \<Rightarrow> u32 list \<Rightarrow> qdma_global_csr_type \<Rightarrow> qdma_hw_access_type \<Rightarrow> 's \<Rightarrow>
    int \<times> u32 list \<times> 's"
  hw_get_device_attributes :: "'s \<Rightarrow> qdma_dev_attributes \<times> 's"
  hw_read_reg_list :: "u8 \<Rightarrow> u16 \<Rightarrow> 's \<Rightarrow> int \<times> u16 \<times> qdma_reg_data list \<times> 's"
  mbox_base_pf :: u32
  mbox_base_vf :: u32

end
