(* ===== verification/SoftCsr.thy ===== *)
theory SoftCsr
  imports SoftContext MboxTypes
begin

text \<open>
  The direct registers of the soft QDMA IP (\<^verbatim>\<open>qdma_soft_access.c\<close>, \<^verbatim>\<open>qdma_access_common.c\<close>): device
  attributes, the arrays of configuration registers with their default values, the index updates of
  the queues, the writeback interval, the memory-mapped channel, legacy interrupts, the user bar and
  the initialisation of the context memory.
\<close>

unbundle bit_operations_syntax

section \<open>Registers and masks\<close>

definition QDMA_ERR_HWACC_NO_PEND_LEGCY_INTR :: int where [simp]: "QDMA_ERR_HWACC_NO_PEND_LEGCY_INTR = 5"
definition QDMA_ERR_HWACC_BAR_NOT_FOUND :: int where [simp]: "QDMA_ERR_HWACC_BAR_NOT_FOUND = 6"

definition QDMA_OFFSET_GLBL_RNG_SZ :: u32 where [reg_offsets]: "QDMA_OFFSET_GLBL_RNG_SZ = 0x204"
definition QDMA_OFFSET_GLBL_DSC_CFG :: u32 where [reg_offsets]: "QDMA_OFFSET_GLBL_DSC_CFG = 0x250"
definition QDMA_OFFSET_GLBL_INTERRUPT_CFG :: u32 where [reg_offsets]: "QDMA_OFFSET_GLBL_INTERRUPT_CFG = 0x2C4"
definition QDMA_OFFSET_C2H_TIMER_CNT :: u32 where [reg_offsets]: "QDMA_OFFSET_C2H_TIMER_CNT = 0xA00"
definition QDMA_OFFSET_C2H_CNT_TH :: u32 where [reg_offsets]: "QDMA_OFFSET_C2H_CNT_TH = 0xA40"
definition QDMA_OFFSET_C2H_BUF_SZ :: u32 where [reg_offsets]: "QDMA_OFFSET_C2H_BUF_SZ = 0xAB0"
definition QDMA_OFFSET_C2H_PFETCH_CFG :: u32 where [reg_offsets]: "QDMA_OFFSET_C2H_PFETCH_CFG = 0xB08"
definition QDMA_OFFSET_C2H_INT_TIMER_TICK :: u32 where [reg_offsets]: "QDMA_OFFSET_C2H_INT_TIMER_TICK = 0xB0C"
definition QDMA_OFFSET_C2H_WRB_COAL_CFG :: u32 where [reg_offsets]: "QDMA_OFFSET_C2H_WRB_COAL_CFG = 0xB50"
definition QDMA_OFFSET_C2H_PFETCH_CACHE_DEPTH :: u32
  where [reg_offsets]: "QDMA_OFFSET_C2H_PFETCH_CACHE_DEPTH = 0xBE0"
definition QDMA_OFFSET_C2H_CMPT_COAL_BUF_DEPTH :: u32
  where [reg_offsets]: "QDMA_OFFSET_C2H_CMPT_COAL_BUF_DEPTH = 0xBE4"
definition QDMA_OFFSET_H2C_REQ_THROT :: u32 where [reg_offsets]: "QDMA_OFFSET_H2C_REQ_THROT = 0xE24"
definition QDMA_OFFSET_H2C_MM_CONTROL :: u32 where [reg_offsets]: "QDMA_OFFSET_H2C_MM_CONTROL = 0x1204"
definition QDMA_OFFSET_C2H_MM_CONTROL :: u32 where [reg_offsets]: "QDMA_OFFSET_C2H_MM_CONTROL = 0x1004"
definition QDMA_OFFSET_GLBL2_PF_BARLITE_INT :: u32
  where [reg_offsets]: "QDMA_OFFSET_GLBL2_PF_BARLITE_INT = 0x104"
definition QDMA_OFFSET_GLBL2_PF_BARLITE_EXT :: u32
  where [reg_offsets]: "QDMA_OFFSET_GLBL2_PF_BARLITE_EXT = 0x10C"
definition QDMA_OFFSET_GLBL2_CHANNEL_MDMA :: u32 where [reg_offsets]: "QDMA_OFFSET_GLBL2_CHANNEL_MDMA = 0x118"
definition QDMA_OFFSET_GLBL2_CHANNEL_QDMA_CAP :: u32
  where [reg_offsets]: "QDMA_OFFSET_GLBL2_CHANNEL_QDMA_CAP = 0x120"
definition QDMA_OFFSET_GLBL2_MISC_CAP :: u32 where [reg_offsets]: "QDMA_OFFSET_GLBL2_MISC_CAP = 0x134"
definition QDMA_OFFSET_VF_USER_BAR_ID :: u32 where [reg_offsets]: "QDMA_OFFSET_VF_USER_BAR_ID = 0x1018"
definition QDMA_OFFSET_DMAP_SEL_INT_CIDX :: u32 where [reg_offsets]: "QDMA_OFFSET_DMAP_SEL_INT_CIDX = 0x18000"
definition QDMA_OFFSET_DMAP_SEL_H2C_DSC_PIDX :: u32
  where [reg_offsets]: "QDMA_OFFSET_DMAP_SEL_H2C_DSC_PIDX = 0x18004"
definition QDMA_OFFSET_DMAP_SEL_C2H_DSC_PIDX :: u32
  where [reg_offsets]: "QDMA_OFFSET_DMAP_SEL_C2H_DSC_PIDX = 0x18008"
definition QDMA_OFFSET_DMAP_SEL_CMPT_CIDX :: u32 where [reg_offsets]: "QDMA_OFFSET_DMAP_SEL_CMPT_CIDX = 0x1800C"
definition QDMA_OFFSET_VF_DMAP_SEL_INT_CIDX :: u32 where [reg_offsets]: "QDMA_OFFSET_VF_DMAP_SEL_INT_CIDX = 0x3000"
definition QDMA_OFFSET_VF_DMAP_SEL_H2C_DSC_PIDX :: u32
  where [reg_offsets]: "QDMA_OFFSET_VF_DMAP_SEL_H2C_DSC_PIDX = 0x3004"
definition QDMA_OFFSET_VF_DMAP_SEL_C2H_DSC_PIDX :: u32
  where [reg_offsets]: "QDMA_OFFSET_VF_DMAP_SEL_C2H_DSC_PIDX = 0x3008"
definition QDMA_OFFSET_VF_DMAP_SEL_CMPT_CIDX :: u32
  where [reg_offsets]: "QDMA_OFFSET_VF_DMAP_SEL_CMPT_CIDX = 0x300C"

abbreviation QDMA_GLBL_DSC_CFG_WB_ACC_INT_MASK :: u32 where "QDMA_GLBL_DSC_CFG_WB_ACC_INT_MASK \<equiv> GENMASK 2 0"
abbreviation QDMA_GLBL_DSC_CFG_MAX_DSC_FETCH_MASK :: u32 where "QDMA_GLBL_DSC_CFG_MAX_DSC_FETCH_MASK \<equiv> GENMASK 5 3"
abbreviation QDMA_GLBL_INTR_CFG_EN_LGCY_INTR_MASK :: u32 where "QDMA_GLBL_INTR_CFG_EN_LGCY_INTR_MASK \<equiv> BIT 0"
abbreviation QDMA_GLBL_INTR_LGCY_INTR_PEND_MASK :: u32 where "QDMA_GLBL_INTR_LGCY_INTR_PEND_MASK \<equiv> BIT 1"
abbreviation QDMA_C2H_EVT_QCNT_TH_MASK :: u32 where "QDMA_C2H_EVT_QCNT_TH_MASK \<equiv> GENMASK 31 25"
abbreviation QDMA_C2H_PFCH_QCNT_MASK :: u32 where "QDMA_C2H_PFCH_QCNT_MASK \<equiv> GENMASK 24 18"
abbreviation QDMA_C2H_NUM_PFCH_MASK :: u32 where "QDMA_C2H_NUM_PFCH_MASK \<equiv> GENMASK 17 9"
abbreviation QDMA_C2H_PFCH_FL_TH_MASK :: u32 where "QDMA_C2H_PFCH_FL_TH_MASK \<equiv> GENMASK 8 0"
abbreviation QDMA_C2H_MAX_BUF_SZ_MASK :: u32 where "QDMA_C2H_MAX_BUF_SZ_MASK \<equiv> GENMASK 31 26"
abbreviation QDMA_C2H_TICK_VAL_MASK :: u32 where "QDMA_C2H_TICK_VAL_MASK \<equiv> GENMASK 25 14"
abbreviation QDMA_C2H_TICK_CNT_MASK :: u32 where "QDMA_C2H_TICK_CNT_MASK \<equiv> GENMASK 13 2"
abbreviation QDMA_H2C_REQ_THROT_EN_REQ_MASK :: u32 where "QDMA_H2C_REQ_THROT_EN_REQ_MASK \<equiv> BIT 31"
abbreviation QDMA_H2C_REQ_THRESH_MASK :: u32 where "QDMA_H2C_REQ_THRESH_MASK \<equiv> GENMASK 25 17"
abbreviation QDMA_H2C_REQ_THROT_EN_DATA_MASK :: u32 where "QDMA_H2C_REQ_THROT_EN_DATA_MASK \<equiv> BIT 16"
abbreviation QDMA_H2C_DATA_THRESH_MASK :: u32 where "QDMA_H2C_DATA_THRESH_MASK \<equiv> GENMASK 15 0"
abbreviation QDMA_GLBL2_PF3_BAR_MAP_MASK :: u32 where "QDMA_GLBL2_PF3_BAR_MAP_MASK \<equiv> GENMASK 23 18"
abbreviation QDMA_GLBL2_PF2_BAR_MAP_MASK :: u32 where "QDMA_GLBL2_PF2_BAR_MAP_MASK \<equiv> GENMASK 17 12"
abbreviation QDMA_GLBL2_PF1_BAR_MAP_MASK :: u32 where "QDMA_GLBL2_PF1_BAR_MAP_MASK \<equiv> GENMASK 11 6"
abbreviation QDMA_GLBL2_PF0_BAR_MAP_MASK :: u32 where "QDMA_GLBL2_PF0_BAR_MAP_MASK \<equiv> GENMASK 5 0"
abbreviation QDMA_GLBL2_ST_C2H_MASK :: u32 where "QDMA_GLBL2_ST_C2H_MASK \<equiv> BIT 17"
abbreviation QDMA_GLBL2_ST_H2C_MASK :: u32 where "QDMA_GLBL2_ST_H2C_MASK \<equiv> BIT 16"
abbreviation QDMA_GLBL2_MM_C2H_MASK :: u32 where "QDMA_GLBL2_MM_C2H_MASK \<equiv> BIT 8"
abbreviation QDMA_GLBL2_MM_H2C_MASK :: u32 where "QDMA_GLBL2_MM_H2C_MASK \<equiv> BIT 0"
abbreviation QDMA_GLBL2_MULTQ_MAX_MASK :: u32 where "QDMA_GLBL2_MULTQ_MAX_MASK \<equiv> GENMASK 11 0"
abbreviation QDMA_GLBL2_MM_CMPT_EN_MASK :: u32 where "QDMA_GLBL2_MM_CMPT_EN_MASK \<equiv> BIT 2"
abbreviation QDMA_GLBL2_FLR_PRESENT_MASK :: u32 where "QDMA_GLBL2_FLR_PRESENT_MASK \<equiv> BIT 1"
abbreviation QDMA_GLBL2_MAILBOX_EN_MASK :: u32 where "QDMA_GLBL2_MAILBOX_EN_MASK \<equiv> BIT 0"
abbreviation QDMA_DMA_SEL_INT_SW_CIDX_MASK :: u32 where "QDMA_DMA_SEL_INT_SW_CIDX_MASK \<equiv> GENMASK 15 0"
abbreviation QDMA_DMA_SEL_INT_RING_IDX_MASK :: u32 where "QDMA_DMA_SEL_INT_RING_IDX_MASK \<equiv> GENMASK 23 16"
abbreviation QDMA_DMA_SEL_DESC_PIDX_MASK :: u32 where "QDMA_DMA_SEL_DESC_PIDX_MASK \<equiv> GENMASK 15 0"
abbreviation QDMA_DMA_SEL_IRQ_EN_MASK :: u32 where "QDMA_DMA_SEL_IRQ_EN_MASK \<equiv> BIT 16"
abbreviation QDMA_DMAP_SEL_CMPT_IRQ_EN_MASK :: u32 where "QDMA_DMAP_SEL_CMPT_IRQ_EN_MASK \<equiv> BIT 28"
abbreviation QDMA_DMAP_SEL_CMPT_STS_DESC_EN_MASK :: u32 where "QDMA_DMAP_SEL_CMPT_STS_DESC_EN_MASK \<equiv> BIT 27"
abbreviation QDMA_DMAP_SEL_CMPT_TRG_MODE_MASK :: u32 where "QDMA_DMAP_SEL_CMPT_TRG_MODE_MASK \<equiv> GENMASK 26 24"
abbreviation QDMA_DMAP_SEL_CMPT_TMR_CNT_MASK :: u32 where "QDMA_DMAP_SEL_CMPT_TMR_CNT_MASK \<equiv> GENMASK 23 20"
abbreviation QDMA_DMAP_SEL_CMPT_CNT_THRESH_MASK :: u32 where "QDMA_DMAP_SEL_CMPT_CNT_THRESH_MASK \<equiv> GENMASK 19 16"
abbreviation QDMA_DMAP_SEL_CMPT_WRB_CIDX_MASK :: u32 where "QDMA_DMAP_SEL_CMPT_WRB_CIDX_MASK \<equiv> GENMASK 15 0"

section \<open>Device attributes\<close>

definition flag :: "bool \<Rightarrow> 'a::len word" where
  "flag b = (if b then 1 else 0)"

definition num_pfs_of :: "u32 \<Rightarrow> u8" where
  "num_pfs_of reg_val =
     flag (FIELD_GET QDMA_GLBL2_PF0_BAR_MAP_MASK reg_val \<noteq> 0) +
     flag (FIELD_GET QDMA_GLBL2_PF1_BAR_MAP_MASK reg_val \<noteq> 0) +
     flag (FIELD_GET QDMA_GLBL2_PF2_BAR_MAP_MASK reg_val \<noteq> 0) +
     flag (FIELD_GET QDMA_GLBL2_PF3_BAR_MAP_MASK reg_val \<noteq> 0)"

definition soft_attributes :: "u32 \<Rightarrow> u32 \<Rightarrow> u32 \<Rightarrow> u32 \<Rightarrow> qdma_dev_attributes" where
  "soft_attributes bars qcap misc mdma =
     \<lparr>num_pfs = num_pfs_of bars, num_qs = ucast (FIELD_GET QDMA_GLBL2_MULTQ_MAX_MASK qcap),
      flr_present = ucast (FIELD_GET QDMA_GLBL2_FLR_PRESENT_MASK misc),
      st_en = flag (FIELD_GET QDMA_GLBL2_ST_C2H_MASK mdma \<noteq> 0 \<and> FIELD_GET QDMA_GLBL2_ST_H2C_MASK mdma \<noteq> 0),
      mm_en = flag (FIELD_GET QDMA_GLBL2_MM_C2H_MASK mdma \<noteq> 0 \<and> FIELD_GET QDMA_GLBL2_MM_H2C_MASK mdma \<noteq> 0),
      mm_cmpt_en = ucast (FIELD_GET QDMA_GLBL2_MM_CMPT_EN_MASK misc),
      mailbox_en = ucast (FIELD_GET QDMA_GLBL2_MAILBOX_EN_MASK misc),
      debug_mode = 0, desc_eng_mode = 0, mm_channel_max = 1, qid2vec_ctx = 0, cmpt_ovf_chk_dis = 1,
      mailbox_intr = 1, sw_desc_64b = 1, cmpt_desc_64b = 1, dynamic_bar = 1, legacy_intr = 1,
      cmpt_trig_count_timer = 1\<rparr>"

definition qdma_get_device_attributes ::
    "'s dev_hndl \<Rightarrow> qdma_dev_attributes option \<Rightarrow> 's \<Rightarrow> int \<times> qdma_dev_attributes option \<times> 's" where
  "qdma_get_device_attributes dev dev_info s =
     (case (dev, dev_info) of
        (Some hw, Some _) \<Rightarrow>
          (let (bars, s) = reg_read hw QDMA_OFFSET_GLBL2_PF_BARLITE_INT s;
               (qcap, s) = reg_read hw QDMA_OFFSET_GLBL2_CHANNEL_QDMA_CAP s;
               (misc, s) = reg_read hw QDMA_OFFSET_GLBL2_MISC_CAP s;
               (mdma, s) = reg_read hw QDMA_OFFSET_GLBL2_CHANNEL_MDMA s
           in (QDMA_SUCCESS, Some (soft_attributes bars qcap misc mdma), s))
      | _ \<Rightarrow> (- QDMA_ERR_INV_PARAM, dev_info, s))"

text \<open>The calls below pass the address of a local structure and a valid handle.\<close>

definition device_attributes :: "'s hw_dev \<Rightarrow> 's \<Rightarrow> qdma_dev_attributes \<times> 's" where
  "device_attributes hw s =
     (case qdma_get_device_attributes (Some hw) (Some attr_zero) s of
        (rv, a, s) \<Rightarrow> (case a of Some a \<Rightarrow> a | None \<Rightarrow> attr_zero, s))"

section \<open>Arrays of configuration registers\<close>

definition QDMA_NUM_RING_SIZES :: nat where [simp]: "QDMA_NUM_RING_SIZES = 16"
definition QDMA_NUM_C2H_TIMERS :: nat where [simp]: "QDMA_NUM_C2H_TIMERS = 16"
definition QDMA_NUM_C2H_BUFFER_SIZES :: nat where [simp]: "QDMA_NUM_C2H_BUFFER_SIZES = 16"
definition QDMA_NUM_C2H_COUNTERS :: nat where [simp]: "QDMA_NUM_C2H_COUNTERS = 16"

text \<open>The checks the eight functions share: handle, array and count, and the end of the range.  The
  function \<open>supported\<close> says which devices have the registers; the ring sizes are not guarded by
  the attributes.  A read overwrites the first \<open>count\<close> elements of the array.\<close>

definition csr_guard :: "'s dev_hndl \<Rightarrow> u32 list option \<Rightarrow> nat \<Rightarrow> u8 \<Rightarrow> u8 \<Rightarrow> ('s hw_dev \<times> u32 list) option" where
  "csr_guard dev vals max_cnt index count =
     (case (dev, vals) of
        (Some hw, Some vs) \<Rightarrow>
          if count = 0 \<or> unat index + unat count > max_cnt then None else Some (hw, vs)
      | _ \<Rightarrow> None)"

definition csr_write ::
    "(qdma_dev_attributes \<Rightarrow> bool) option \<Rightarrow> u32 \<Rightarrow> nat \<Rightarrow> 's dev_hndl \<Rightarrow> u8 \<Rightarrow> u8 \<Rightarrow> u32 list option \<Rightarrow> 's \<Rightarrow>
       int \<times> 's" where
  "csr_write supported reg max_cnt dev index count vals s =
     (case csr_guard dev vals max_cnt index count of
        None \<Rightarrow> (- QDMA_ERR_INV_PARAM, s)
      | Some (hw, vs) \<Rightarrow>
          (case supported of
             None \<Rightarrow> (QDMA_SUCCESS, qdma_write_csr_values hw reg (ucast index) (ucast count) vs s)
           | Some P \<Rightarrow>
               (let (dev_cap, s) = device_attributes hw s
                in if P dev_cap
                   then (QDMA_SUCCESS, qdma_write_csr_values hw reg (ucast index) (ucast count) vs s)
                   else (- QDMA_ERR_HWACC_FEATURE_NOT_SUPPORTED, s))))"

definition csr_read ::
    "(qdma_dev_attributes \<Rightarrow> bool) option \<Rightarrow> u32 \<Rightarrow> nat \<Rightarrow> 's dev_hndl \<Rightarrow> u8 \<Rightarrow> u8 \<Rightarrow> u32 list option \<Rightarrow> 's \<Rightarrow>
       int \<times> u32 list option \<times> 's" where
  "csr_read supported reg max_cnt dev index count vals s =
     (let get = (\<lambda>hw vs s. case qdma_read_csr_values hw reg (ucast index) (ucast count) s of
                   (ws, s) \<Rightarrow> (QDMA_SUCCESS, Some (ws @ drop (unat count) vs), s))
      in case csr_guard dev vals max_cnt index count of
        None \<Rightarrow> (- QDMA_ERR_INV_PARAM, vals, s)
      | Some (hw, vs) \<Rightarrow>
          (case supported of
             None \<Rightarrow> get hw vs s
           | Some P \<Rightarrow>
               (let (dev_cap, s) = device_attributes hw s
                in if P dev_cap then get hw vs s
                   else (- QDMA_ERR_HWACC_FEATURE_NOT_SUPPORTED, vals, s))))"

definition st_or_cmpt :: "qdma_dev_attributes \<Rightarrow> bool" where
  "st_or_cmpt cap \<longleftrightarrow> st_en cap \<noteq> 0 \<or> mm_cmpt_en cap \<noteq> 0"

definition qdma_write_global_ring_sizes :: "'s dev_hndl \<Rightarrow> u8 \<Rightarrow> u8 \<Rightarrow> u32 list option \<Rightarrow> 's \<Rightarrow> int \<times> 's" where
  "qdma_write_global_ring_sizes = csr_write None QDMA_OFFSET_GLBL_RNG_SZ QDMA_NUM_RING_SIZES"

definition qdma_read_global_ring_sizes ::
    "'s dev_hndl \<Rightarrow> u8 \<Rightarrow> u8 \<Rightarrow> u32 list option \<Rightarrow> 's \<Rightarrow> int \<times> u32 list option \<times> 's" where
  "qdma_read_global_ring_sizes = csr_read None QDMA_OFFSET_GLBL_RNG_SZ QDMA_NUM_RING_SIZES"

definition qdma_write_global_timer_count :: "'s dev_hndl \<Rightarrow> u8 \<Rightarrow> u8 \<Rightarrow> u32 list option \<Rightarrow> 's \<Rightarrow> int \<times> 's" where
  "qdma_write_global_timer_count = csr_write (Some st_or_cmpt) QDMA_OFFSET_C2H_TIMER_CNT QDMA_NUM_C2H_TIMERS"

definition qdma_read_global_timer_count ::
    "'s dev_hndl \<Rightarrow> u8 \<Rightarrow> u8 \<Rightarrow> u32 list option \<Rightarrow> 's \<Rightarrow> int \<times> u32 list option \<times> 's" where
  "qdma_read_global_timer_count = csr_read (Some st_or_cmpt) QDMA_OFFSET_C2H_TIMER_CNT QDMA_NUM_C2H_TIMERS"

definition qdma_write_global_counter_threshold ::
    "'s dev_hndl \<Rightarrow> u8 \<Rightarrow> u8 \<Rightarrow> u32 list option \<Rightarrow> 's \<Rightarrow> int \<times> 's" where
  "qdma_write_global_counter_threshold =
     csr_write (Some st_or_cmpt) QDMA_OFFSET_C2H_CNT_TH QDMA_NUM_C2H_COUNTERS"

definition qdma_read_global_counter_threshold ::
    "'s dev_hndl \<Rightarrow> u8 \<Rightarrow> u8 \<Rightarrow> u32 list option \<Rightarrow> 's \<Rightarrow> int \<times> u32 list option \<times> 's" where
  "qdma_read_global_counter_threshold =
     csr_read (Some st_or_cmpt) QDMA_OFFSET_C2H_CNT_TH QDMA_NUM_C2H_COUNTERS"

definition qdma_write_global_buffer_sizes :: "'s dev_hndl \<Rightarrow> u8 \<Rightarrow> u8 \<Rightarrow> u32 list option \<Rightarrow> 's \<Rightarrow> int \<times> 's" where
  "qdma_write_global_buffer_sizes =
     csr_write (Some (\<lambda>cap. st_en cap \<noteq> 0)) QDMA_OFFSET_C2H_BUF_SZ QDMA_NUM_C2H_BUFFER_SIZES"

definition qdma_read_global_buffer_sizes ::
    "'s dev_hndl \<Rightarrow> u8 \<Rightarrow> u8 \<Rightarrow> u32 list option \<Rightarrow> 's \<Rightarrow> int \<times> u32 list option \<times> 's" where
  "qdma_read_global_buffer_sizes =
     csr_read (Some (\<lambda>cap. st_en cap \<noteq> 0)) QDMA_OFFSET_C2H_BUF_SZ QDMA_NUM_C2H_BUFFER_SIZES"

definition csr_access ::
    "('s \<Rightarrow> int \<times> u32 list option \<times> 's) \<Rightarrow> ('s \<Rightarrow> int \<times> 's) \<Rightarrow> u32 list option \<Rightarrow> qdma_hw_access_type \<Rightarrow> 's \<Rightarrow>
       int \<times> u32 list option \<times> 's" where
  "csr_access rd wr vals access_type s =
     (case access_type of
        QDMA_HW_ACCESS_READ \<Rightarrow> rd s
      | QDMA_HW_ACCESS_WRITE \<Rightarrow> (case wr s of (rv, s) \<Rightarrow> (rv, vals, s))
      | _ \<Rightarrow> (- QDMA_ERR_INV_PARAM, vals, s))"

definition qdma_global_csr_conf ::
    "'s dev_hndl \<Rightarrow> u8 \<Rightarrow> u8 \<Rightarrow> u32 list option \<Rightarrow> qdma_global_csr_type \<Rightarrow> qdma_hw_access_type \<Rightarrow> 's \<Rightarrow>
       int \<times> u32 list option \<times> 's" where
  "qdma_global_csr_conf dev index count vals csr_type access_type s =
     (case csr_type of
        QDMA_CSR_RING_SZ \<Rightarrow>
          csr_access (qdma_read_global_ring_sizes dev index count vals)
            (qdma_write_global_ring_sizes dev index count vals) vals access_type s
      | QDMA_CSR_TIMER_CNT \<Rightarrow>
          csr_access (qdma_read_global_timer_count dev index count vals)
            (qdma_write_global_timer_count dev index count vals) vals access_type s
      | QDMA_CSR_CNT_TH \<Rightarrow>
          csr_access (qdma_read_global_counter_threshold dev index count vals)
            (qdma_write_global_counter_threshold dev index count vals) vals access_type s
      | QDMA_CSR_BUF_SZ \<Rightarrow>
          csr_access (qdma_read_global_buffer_sizes dev index count vals)
            (qdma_write_global_buffer_sizes dev index count vals) vals access_type s
      | QDMA_CSR_MAX \<Rightarrow> (- QDMA_ERR_INV_PARAM, vals, s))"

section \<open>Default configuration\<close>

definition default_rng_sz :: "u32 list" where
  "default_rng_sz = [2049, 65, 129, 193, 257, 385, 513, 769, 1025, 1537, 3073, 4097, 6145, 8193, 12289, 16385]"

definition default_tmr_cnt :: "u32 list" where
  "default_tmr_cnt = [1, 2, 4, 5, 8, 10, 15, 20, 25, 30, 50, 75, 100, 125, 150, 200]"

definition default_cnt_th :: "u32 list" where
  "default_cnt_th = [2, 4, 8, 16, 24, 32, 48, 64, 80, 96, 112, 128, 144, 160, 176, 192]"

definition default_buf_sz :: "u32 list" where
  "default_buf_sz = [4096, 256, 512, 1024, 2048, 3968, 4096, 4096, 4096, 4096, 4096, 4096, 4096, 8192, 9018, 16384]"

text \<open>The parts of \<^verbatim>\<open>qdma_set_default_global_csr\<close>: registers of devices with completions, and
  registers of streaming devices.\<close>

definition default_cmpt_regs :: "'s hw_dev \<Rightarrow> 's \<Rightarrow> 's" where
  "default_cmpt_regs hw s =
     (let s = qdma_write_csr_values hw QDMA_OFFSET_C2H_CNT_TH 0 16 default_cnt_th s;
          s = qdma_write_csr_values hw QDMA_OFFSET_C2H_TIMER_CNT 0 16 default_tmr_cnt s
      in reg_write hw QDMA_OFFSET_GLBL_DSC_CFG
           (FIELD_SET QDMA_GLBL_DSC_CFG_MAX_DSC_FETCH_MASK 6 OR FIELD_SET QDMA_GLBL_DSC_CFG_WB_ACC_INT_MASK 5) s)"

definition default_st_regs :: "'s hw_dev \<Rightarrow> 's \<Rightarrow> 's" where
  "default_st_regs hw s =
     (let s = qdma_write_csr_values hw QDMA_OFFSET_C2H_BUF_SZ 0 16 default_buf_sz s;
          (cfg_val, s) = reg_read hw QDMA_OFFSET_C2H_PFETCH_CACHE_DEPTH s;
          s = reg_write hw QDMA_OFFSET_C2H_PFETCH_CFG
                (FIELD_SET QDMA_C2H_PFCH_FL_TH_MASK 256 OR FIELD_SET QDMA_C2H_NUM_PFCH_MASK 8 OR
                 FIELD_SET QDMA_C2H_PFCH_QCNT_MASK (drop_bit 1 cfg_val) OR
                 FIELD_SET QDMA_C2H_EVT_QCNT_TH_MASK (drop_bit 1 cfg_val - 2)) s;
          s = reg_write hw QDMA_OFFSET_C2H_INT_TIMER_TICK 25 s;
          (cfg_val, s) = reg_read hw QDMA_OFFSET_C2H_CMPT_COAL_BUF_DEPTH s;
          s = reg_write hw QDMA_OFFSET_C2H_WRB_COAL_CFG
                (FIELD_SET QDMA_C2H_TICK_CNT_MASK 5 OR FIELD_SET QDMA_C2H_TICK_VAL_MASK 25 OR
                 FIELD_SET QDMA_C2H_MAX_BUF_SZ_MASK cfg_val) s
      in reg_write hw QDMA_OFFSET_H2C_REQ_THROT
           (FIELD_SET QDMA_H2C_DATA_THRESH_MASK 0x4000 OR FIELD_SET QDMA_H2C_REQ_THROT_EN_DATA_MASK 1 OR
            FIELD_SET QDMA_H2C_REQ_THRESH_MASK 0x60 OR FIELD_SET QDMA_H2C_REQ_THROT_EN_REQ_MASK 0) s)"

definition qdma_set_default_global_csr :: "'s dev_hndl \<Rightarrow> 's \<Rightarrow> int \<times> 's" where
  "qdma_set_default_global_csr dev s =
     (case dev of
        None \<Rightarrow> (- QDMA_ERR_INV_PARAM, s)
      | Some hw \<Rightarrow>
          (let (dev_cap, s) = device_attributes hw s;
               s = qdma_write_csr_values hw QDMA_OFFSET_GLBL_RNG_SZ 0 16 default_rng_sz s;
               s = (if st_or_cmpt dev_cap then default_cmpt_regs hw s else s);
               s = (if st_en dev_cap \<noteq> 0 then default_st_regs hw s else s)
           in (QDMA_SUCCESS, s)))"

section \<open>Queue indices\<close>

record qdma_q_pidx_reg_info =
  pidx :: u16
  pidx_irq_en :: u8

record qdma_intr_cidx_reg_info =
  sw_cidx :: u16
  rng_idx :: u8

record qdma_q_cmpt_cidx_reg_info =
  wrb_cidx :: u16
  counter_idx :: u8
  timer_idx :: u8
  trig_mode :: u8
  wrb_en :: u8
  cmpt_irq_en :: u8

definition QDMA_PIDX_STEP :: u32 where [simp]: "QDMA_PIDX_STEP = 0x10"
definition QDMA_CMPT_CIDX_STEP :: u32 where [simp]: "QDMA_CMPT_CIDX_STEP = 0x10"
definition QDMA_INT_CIDX_STEP :: u32 where [simp]: "QDMA_INT_CIDX_STEP = 0x10"

definition pidx_reg_addr :: "bool \<Rightarrow> u16 \<Rightarrow> bool \<Rightarrow> u32" where
  "pidx_reg_addr is_vf qid is_c2h =
     (if \<not> is_vf then (if is_c2h then QDMA_OFFSET_DMAP_SEL_C2H_DSC_PIDX else QDMA_OFFSET_DMAP_SEL_H2C_DSC_PIDX)
      else (if is_c2h then QDMA_OFFSET_VF_DMAP_SEL_C2H_DSC_PIDX else QDMA_OFFSET_VF_DMAP_SEL_H2C_DSC_PIDX))
     + ucast qid * QDMA_PIDX_STEP"

definition qdma_queue_pidx_update ::
    "'s dev_hndl \<Rightarrow> bool \<Rightarrow> u16 \<Rightarrow> bool \<Rightarrow> qdma_q_pidx_reg_info option \<Rightarrow> 's \<Rightarrow> int \<times> 's" where
  "qdma_queue_pidx_update dev is_vf qid is_c2h reg_info s =
     (case (dev, reg_info) of
        (Some hw, Some r) \<Rightarrow>
          (QDMA_SUCCESS,
           reg_write hw (pidx_reg_addr is_vf qid is_c2h)
             (FIELD_SET QDMA_DMA_SEL_DESC_PIDX_MASK (ucast (pidx r)) OR
              FIELD_SET QDMA_DMA_SEL_IRQ_EN_MASK (ucast (pidx_irq_en r))) s)
      | _ \<Rightarrow> (- QDMA_ERR_INV_PARAM, s))"

definition cmpt_cidx_reg_addr :: "bool \<Rightarrow> u16 \<Rightarrow> u32" where
  "cmpt_cidx_reg_addr is_vf qid =
     (if is_vf then QDMA_OFFSET_VF_DMAP_SEL_CMPT_CIDX else QDMA_OFFSET_DMAP_SEL_CMPT_CIDX)
     + ucast qid * QDMA_CMPT_CIDX_STEP"

definition cmpt_cidx_word :: "qdma_q_cmpt_cidx_reg_info \<Rightarrow> u32" where
  "cmpt_cidx_word r =
     FIELD_SET QDMA_DMAP_SEL_CMPT_WRB_CIDX_MASK (ucast (wrb_cidx r)) OR
     FIELD_SET QDMA_DMAP_SEL_CMPT_CNT_THRESH_MASK (ucast (counter_idx r)) OR
     FIELD_SET QDMA_DMAP_SEL_CMPT_TMR_CNT_MASK (ucast (timer_idx r)) OR
     FIELD_SET QDMA_DMAP_SEL_CMPT_TRG_MODE_MASK (ucast (trig_mode r)) OR
     FIELD_SET QDMA_DMAP_SEL_CMPT_STS_DESC_EN_MASK (ucast (wrb_en r)) OR
     FIELD_SET QDMA_DMAP_SEL_CMPT_IRQ_EN_MASK (ucast (cmpt_irq_en r))"

definition qdma_queue_cmpt_cidx_update ::
    "'s dev_hndl \<Rightarrow> bool \<Rightarrow> u16 \<Rightarrow> qdma_q_cmpt_cidx_reg_info option \<Rightarrow> 's \<Rightarrow> int \<times> 's" where
  "qdma_queue_cmpt_cidx_update dev is_vf qid reg_info s =
     (case (dev, reg_info) of
        (Some hw, Some r) \<Rightarrow> (QDMA_SUCCESS, reg_write hw (cmpt_cidx_reg_addr is_vf qid) (cmpt_cidx_word r) s)
      | _ \<Rightarrow> (- QDMA_ERR_INV_PARAM, s))"

definition cmpt_cidx_parse :: "u32 \<Rightarrow> qdma_q_cmpt_cidx_reg_info" where
  "cmpt_cidx_parse w =
     \<lparr>wrb_cidx = ucast (FIELD_GET QDMA_DMAP_SEL_CMPT_WRB_CIDX_MASK w),
      counter_idx = ucast (FIELD_GET QDMA_DMAP_SEL_CMPT_CNT_THRESH_MASK w),
      timer_idx = ucast (FIELD_GET QDMA_DMAP_SEL_CMPT_TMR_CNT_MASK w),
      trig_mode = ucast (FIELD_GET QDMA_DMAP_SEL_CMPT_TRG_MODE_MASK w),
      wrb_en = ucast (FIELD_GET QDMA_DMAP_SEL_CMPT_STS_DESC_EN_MASK w),
      cmpt_irq_en = ucast (FIELD_GET QDMA_DMAP_SEL_CMPT_IRQ_EN_MASK w)\<rparr>"

definition qdma_queue_cmpt_cidx_read ::
    "'s dev_hndl \<Rightarrow> bool \<Rightarrow> u16 \<Rightarrow> qdma_q_cmpt_cidx_reg_info option \<Rightarrow> 's \<Rightarrow>
       int \<times> qdma_q_cmpt_cidx_reg_info option \<times> 's" where
  "qdma_queue_cmpt_cidx_read dev is_vf qid reg_info s =
     (case (dev, reg_info) of
        (Some hw, Some _) \<Rightarrow>
          (case reg_read hw (cmpt_cidx_reg_addr is_vf qid) s of
             (w, s) \<Rightarrow> (QDMA_SUCCESS, Some (cmpt_cidx_parse w), s))
      | _ \<Rightarrow> (- QDMA_ERR_INV_PARAM, reg_info, s))"

definition intr_cidx_reg_addr :: "bool \<Rightarrow> u16 \<Rightarrow> u32" where
  "intr_cidx_reg_addr is_vf qid =
     (if is_vf then QDMA_OFFSET_VF_DMAP_SEL_INT_CIDX else QDMA_OFFSET_DMAP_SEL_INT_CIDX)
     + ucast qid * QDMA_INT_CIDX_STEP"

definition qdma_queue_intr_cidx_update ::
    "'s dev_hndl \<Rightarrow> bool \<Rightarrow> u16 \<Rightarrow> qdma_intr_cidx_reg_info option \<Rightarrow> 's \<Rightarrow> int \<times> 's" where
  "qdma_queue_intr_cidx_update dev is_vf qid reg_info s =
     (case (dev, reg_info) of
        (Some hw, Some r) \<Rightarrow>
          (QDMA_SUCCESS,
           reg_write hw (intr_cidx_reg_addr is_vf qid)
             (FIELD_SET QDMA_DMA_SEL_INT_SW_CIDX_MASK (ucast (sw_cidx r)) OR
              FIELD_SET QDMA_DMA_SEL_INT_RING_IDX_MASK (ucast (rng_idx r))) s)
      | _ \<Rightarrow> (- QDMA_ERR_INV_PARAM, s))"

section \<open>User bar\<close>

definition QDMA_BAR_NUM :: nat where [simp]: "QDMA_BAR_NUM = 6"

text \<open>A shift by 32 bits or more is undefined in C.\<close>

definition qdma_get_user_bar ::
    "'s dev_hndl \<Rightarrow> bool \<Rightarrow> u16 \<Rightarrow> u8 option \<Rightarrow> 's \<Rightarrow> (int \<times> u8 option \<times> 's) option" where
  "qdma_get_user_bar dev is_vf func_id user_bar s =
     (case (dev, user_bar) of
        (Some hw, Some _) \<Rightarrow>
          (let (v, s) = reg_read hw (if is_vf then QDMA_OFFSET_VF_USER_BAR_ID
                                     else QDMA_OFFSET_GLBL2_PF_BARLITE_EXT) s
           in if \<not> is_vf \<and> 6 * unat func_id \<ge> 32 then None
              else
                let user_bar_id = (if is_vf then v else drop_bit (6 * unat func_id) v) AND 0x3F
                in Some (case List.find (\<lambda>i. bit user_bar_id i) [0 ..< QDMA_BAR_NUM] of
                     Some i \<Rightarrow> (QDMA_SUCCESS, Some (of_nat i), s)
                   | None \<Rightarrow> (- QDMA_ERR_HWACC_BAR_NOT_FOUND, Some 0, s)))
      | _ \<Rightarrow> Some (- QDMA_ERR_INV_PARAM, user_bar, s))"

section \<open>Writeback interval\<close>

text \<open>The interval is the enumeration value.\<close>

definition QDMA_NUM_WRB_INTERVALS :: u32 where [simp]: "QDMA_NUM_WRB_INTERVALS = 8"

definition qdma_global_writeback_interval_write :: "'s dev_hndl \<Rightarrow> u32 \<Rightarrow> 's \<Rightarrow> int \<times> 's" where
  "qdma_global_writeback_interval_write dev wb_int s =
     (case dev of
        None \<Rightarrow> (- QDMA_ERR_INV_PARAM, s)
      | Some hw \<Rightarrow>
          if wb_int \<ge> QDMA_NUM_WRB_INTERVALS then (- QDMA_ERR_INV_PARAM, s)
          else
            let (dev_cap, s) = device_attributes hw s
            in if st_or_cmpt dev_cap
               then let (v, s) = reg_read hw QDMA_OFFSET_GLBL_DSC_CFG s
                    in (QDMA_SUCCESS, reg_write hw QDMA_OFFSET_GLBL_DSC_CFG
                          (v OR FIELD_SET QDMA_GLBL_DSC_CFG_WB_ACC_INT_MASK wb_int) s)
               else (- QDMA_ERR_HWACC_FEATURE_NOT_SUPPORTED, s))"

definition qdma_global_writeback_interval_read :: "'s dev_hndl \<Rightarrow> u32 option \<Rightarrow> 's \<Rightarrow> int \<times> u32 option \<times> 's" where
  "qdma_global_writeback_interval_read dev wb_int s =
     (case (dev, wb_int) of
        (Some hw, Some _) \<Rightarrow>
          (let (dev_cap, s) = device_attributes hw s
           in if st_or_cmpt dev_cap
              then let (v, s) = reg_read hw QDMA_OFFSET_GLBL_DSC_CFG s
                   in (QDMA_SUCCESS, Some (FIELD_GET QDMA_GLBL_DSC_CFG_WB_ACC_INT_MASK v), s)
              else (- QDMA_ERR_HWACC_FEATURE_NOT_SUPPORTED, wb_int, s))
      | _ \<Rightarrow> (- QDMA_ERR_INV_PARAM, wb_int, s))"

text \<open>A write through a null pointer dereferences it, which is undefined.\<close>

definition qdma_global_writeback_interval_conf ::
    "'s dev_hndl \<Rightarrow> u32 option \<Rightarrow> qdma_hw_access_type \<Rightarrow> 's \<Rightarrow> (int \<times> u32 option \<times> 's) option" where
  "qdma_global_writeback_interval_conf dev wb_int access_type s =
     (case access_type of
        QDMA_HW_ACCESS_READ \<Rightarrow> Some (qdma_global_writeback_interval_read dev wb_int s)
      | QDMA_HW_ACCESS_WRITE \<Rightarrow>
          (case wb_int of None \<Rightarrow> None
           | Some w \<Rightarrow> (case qdma_global_writeback_interval_write dev w s of (rv, s) \<Rightarrow> Some (rv, wb_int, s)))
      | _ \<Rightarrow> Some (- QDMA_ERR_INV_PARAM, wb_int, s))"

section \<open>Channel and legacy interrupts\<close>

definition QDMA_MM_CONTROL_STEP :: u32 where [simp]: "QDMA_MM_CONTROL_STEP = 0x100"

definition qdma_mm_channel_conf :: "'s dev_hndl \<Rightarrow> u8 \<Rightarrow> bool \<Rightarrow> u8 \<Rightarrow> 's \<Rightarrow> int \<times> 's" where
  "qdma_mm_channel_conf dev channel is_c2h enable s =
     (case dev of
        None \<Rightarrow> (- QDMA_ERR_INV_PARAM, s)
      | Some hw \<Rightarrow>
          (let reg_addr = (if is_c2h then QDMA_OFFSET_C2H_MM_CONTROL else QDMA_OFFSET_H2C_MM_CONTROL);
               (dev_cap, s) = device_attributes hw s
           in (QDMA_SUCCESS,
               if mm_en dev_cap \<noteq> 0
               then reg_write hw (reg_addr + ucast channel * QDMA_MM_CONTROL_STEP) (ucast enable) s else s)))"

datatype status_type = DISABLE | ENABLE

fun status_code :: "status_type \<Rightarrow> u32" where
  "status_code DISABLE = 0"
| "status_code ENABLE = 1"

definition qdma_is_legacy_intr_pend :: "'s dev_hndl \<Rightarrow> 's \<Rightarrow> int \<times> 's" where
  "qdma_is_legacy_intr_pend dev s =
     (case dev of
        None \<Rightarrow> (- QDMA_ERR_INV_PARAM, s)
      | Some hw \<Rightarrow>
          (let (v, s) = reg_read hw QDMA_OFFSET_GLBL_INTERRUPT_CFG s
           in (if FIELD_GET QDMA_GLBL_INTR_LGCY_INTR_PEND_MASK v \<noteq> 0 then QDMA_SUCCESS
               else - QDMA_ERR_HWACC_NO_PEND_LEGCY_INTR, s)))"

definition qdma_clear_pend_legacy_intr :: "'s dev_hndl \<Rightarrow> 's \<Rightarrow> int \<times> 's" where
  "qdma_clear_pend_legacy_intr dev s =
     (case dev of
        None \<Rightarrow> (- QDMA_ERR_INV_PARAM, s)
      | Some hw \<Rightarrow>
          (let (v, s) = reg_read hw QDMA_OFFSET_GLBL_INTERRUPT_CFG s
           in (QDMA_SUCCESS, reg_write hw QDMA_OFFSET_GLBL_INTERRUPT_CFG
                 (v OR FIELD_SET QDMA_GLBL_INTR_LGCY_INTR_PEND_MASK 1) s)))"

definition qdma_legacy_intr_conf :: "'s dev_hndl \<Rightarrow> status_type \<Rightarrow> 's \<Rightarrow> int \<times> 's" where
  "qdma_legacy_intr_conf dev enable s =
     (case dev of
        None \<Rightarrow> (- QDMA_ERR_INV_PARAM, s)
      | Some hw \<Rightarrow>
          (let (v, s) = reg_read hw QDMA_OFFSET_GLBL_INTERRUPT_CFG s
           in (QDMA_SUCCESS, reg_write hw QDMA_OFFSET_GLBL_INTERRUPT_CFG
                 (v OR FIELD_SET QDMA_GLBL_INTR_CFG_EN_LGCY_INTR_MASK (status_code enable)) s)))"

section \<open>Initialisation of the context memory\<close>

text \<open>The selectors from \<^verbatim>\<open>QDMA_CTXT_SEL_SW_C2H\<close> to \<^verbatim>\<open>QDMA_CTXT_SEL_PFTCH\<close>, without the streaming
  contexts when the device has no streaming.  The loop over the queues returns at the first failure;
  the results for the function maps are not looked at.\<close>

definition init_sels :: "qdma_dev_attributes \<Rightarrow> ind_ctxt_cmd_sel list" where
  "init_sels cap =
     filter (\<lambda>sel. \<not> (st_en cap = 0 \<and> (sel = QDMA_CTXT_SEL_PFTCH \<or> sel = QDMA_CTXT_SEL_CMPT)))
       [QDMA_CTXT_SEL_SW_C2H, QDMA_CTXT_SEL_SW_H2C, QDMA_CTXT_SEL_HW_C2H, QDMA_CTXT_SEL_HW_H2C,
        QDMA_CTXT_SEL_CR_C2H, QDMA_CTXT_SEL_CR_H2C, QDMA_CTXT_SEL_CMPT, QDMA_CTXT_SEL_PFTCH]"

fun clear_all :: "'s hw_dev \<Rightarrow> (ind_ctxt_cmd_sel \<times> u16) list \<Rightarrow> 's \<Rightarrow> int \<times> 's" where
  "clear_all hw [] s = (QDMA_SUCCESS, s)"
| "clear_all hw ((sel, q) # cs) s =
     (let (rv, s) = qdma_indirect_reg_clear hw sel q s in if rv < 0 then (rv, s) else clear_all hw cs s)"

definition qdma_init_ctxt_memory :: "'s dev_hndl \<Rightarrow> 's \<Rightarrow> int \<times> 's" where
  "qdma_init_ctxt_memory dev s =
     (case dev of
        None \<Rightarrow> (- QDMA_ERR_INV_PARAM, s)
      | Some hw \<Rightarrow>
          (let (cap, s) = device_attributes hw s;
               (rv, s) = clear_all hw
                 (concat (map (\<lambda>i. map (\<lambda>sel. (sel, of_nat i)) (init_sels cap)) [0 ..< unat (num_qs cap)])) s
           in if rv < 0 then (rv, s)
              else (QDMA_SUCCESS,
                    fold (\<lambda>i s. snd (qdma_indirect_reg_clear hw QDMA_CTXT_SEL_FMAP (of_nat i) s))
                      [0 ..< unat (num_pfs cap)] s)))"

end
