(* ===== verification/CsrProps.thy ===== *)
theory CsrProps
  imports SoftCsr ContextProps
begin

text \<open>
  Properties of the direct registers: round trips of the configuration arrays and of the completion
  index register, separation of the index registers of the queues, what the writeback interval and
  the legacy interrupt functions really do, and the initialisation of the context memory.
\<close>

lemma take_bit_small: "unat w < 2 ^ k \<Longrightarrow> take_bit k w = w"
  by (rule unsigned_word_eqI [where ?'a = nat]) (simp add: unsigned_take_bit_eq take_bit_nat_eq_self)

section \<open>Plain registers\<close>

text \<open>What the code relies on from configuration registers: a read returns the stored value and has no
  effect, a write changes this register only.\<close>

definition plain_regs :: "'s hw_dev \<Rightarrow> ('s \<Rightarrow> u32 \<Rightarrow> u32) \<Rightarrow> u32 set \<Rightarrow> bool" where
  "plain_regs hw regs A \<longleftrightarrow>
     (\<forall>s. \<forall>a \<in> A. reg_read hw a s = (regs s a, s) \<and>
        (\<forall>v. regs (reg_write hw a v s) = (regs s)(a := v)))"

definition reg_at :: "u32 \<Rightarrow> nat \<Rightarrow> u32" where
  "reg_at base i = base + 4 * of_nat i"

lemma reg_at_simps: "reg_at base 0 = base" "reg_at base i + 4 = reg_at base (Suc i)"
  by (simp_all add: reg_at_def)

lemma reg_at_inj:
  assumes "i < 64" and "j < 64" and "reg_at base i = reg_at base j"
  shows "i = j"
proof -
  have u: "unat (4 * of_nat k :: u32) = 4 * k" if "k < 64" for k
    using that by (simp add: unat_word_ariths unat_of_nat)
  have "(4 * of_nat i :: u32) = 4 * of_nat j" using assms(3) by (simp add: reg_at_def)
  then have "4 * i = 4 * j" using u [OF assms(1)] u [OF assms(2)] by metis
  then show ?thesis by simp
qed

lemma plain_read_seq:
  assumes "plain_regs hw regs A"
  shows "\<forall>i < n. reg_at base (k + i) \<in> A \<Longrightarrow>
    read_seq hw (reg_at base k) n s = (map (\<lambda>i. regs s (reg_at base i)) [k ..< k + n], s)"
proof (induction n arbitrary: k)
  case (Suc n)
  have "reg_read hw (reg_at base k) s = (regs s (reg_at base k), s)"
    using assms Suc.prems [rule_format, of 0] by (simp add: plain_regs_def)
  moreover have "\<forall>i < n. reg_at base (Suc k + i) \<in> A" using Suc.prems by auto
  ultimately show ?case
    using Suc.IH [of "Suc k"] upt_conv_Cons [of k "k + Suc n"] by (simp add: reg_at_simps del: upt_Suc)
qed simp

lemma plain_write_other:
  assumes "plain_regs hw regs A"
  shows "\<forall>i < length ws. reg_at base (k + i) \<in> A \<Longrightarrow> \<forall>i < length ws. a \<noteq> reg_at base (k + i) \<Longrightarrow>
    regs (write_seq hw (reg_at base k) ws s) a = regs s a"
proof (induction ws arbitrary: k s)
  case (Cons w ws)
  have "regs (reg_write hw (reg_at base k) w s) = (regs s)(reg_at base k := w)"
    using assms Cons.prems(1) [rule_format, of 0] by (simp add: plain_regs_def)
  moreover have "\<forall>i < length ws. reg_at base (Suc k + i) \<in> A"
    and "\<forall>i < length ws. a \<noteq> reg_at base (Suc k + i)" using Cons.prems by auto
  moreover have "a \<noteq> reg_at base k" using Cons.prems(2) [rule_format, of 0] by simp
  ultimately show ?case using Cons.IH [of "Suc k"] by (simp add: reg_at_simps)
qed simp

lemma plain_write_nth:
  assumes "plain_regs hw regs A"
  shows "\<forall>i < length ws. reg_at base (k + i) \<in> A \<Longrightarrow> k + length ws \<le> 64 \<Longrightarrow> i < length ws \<Longrightarrow>
    regs (write_seq hw (reg_at base k) ws s) (reg_at base (k + i)) = ws ! i"
proof (induction ws arbitrary: k s i)
  case (Cons w ws)
  have w: "regs (reg_write hw (reg_at base k) w s) = (regs s)(reg_at base k := w)"
    using assms Cons.prems(1) [rule_format, of 0] by (simp add: plain_regs_def)
  have A: "\<forall>j < length ws. reg_at base (Suc k + j) \<in> A" using Cons.prems(1) by auto
  show ?case
  proof (cases i)
    case 0
    have "\<forall>j < length ws. reg_at base k \<noteq> reg_at base (Suc k + j)"
    proof (intro allI impI notI)
      fix j assume "j < length ws" and "reg_at base k = reg_at base (Suc k + j)"
      with reg_at_inj [of k "Suc k + j" base] Cons.prems(2) show False by simp
    qed
    from plain_write_other [OF assms A this] show ?thesis by (simp add: 0 reg_at_simps w)
  next
    case (Suc i')
    then show ?thesis using Cons.IH [OF A, of i'] Cons.prems(2,3) by (simp add: reg_at_simps)
  qed
qed simp

lemma plain_write_read:
  assumes "plain_regs hw regs A" and "\<forall>i < length ws. reg_at base (k + i) \<in> A" and "k + length ws \<le> 64"
  shows "read_seq hw (reg_at base k) (length ws) (write_seq hw (reg_at base k) ws s) =
    (ws, write_seq hw (reg_at base k) ws s)"
  unfolding plain_read_seq [OF assms(1,2)]
  by (auto intro!: nth_equalityI plain_write_nth [OF assms])

section \<open>Configuration arrays\<close>

definition attr_addrs :: "u32 set" where
  "attr_addrs = {QDMA_OFFSET_GLBL2_PF_BARLITE_INT, QDMA_OFFSET_GLBL2_CHANNEL_QDMA_CAP,
     QDMA_OFFSET_GLBL2_MISC_CAP, QDMA_OFFSET_GLBL2_CHANNEL_MDMA}"

definition attr_of :: "(u32 \<Rightarrow> u32) \<Rightarrow> qdma_dev_attributes" where
  "attr_of r = soft_attributes (r QDMA_OFFSET_GLBL2_PF_BARLITE_INT) (r QDMA_OFFSET_GLBL2_CHANNEL_QDMA_CAP)
     (r QDMA_OFFSET_GLBL2_MISC_CAP) (r QDMA_OFFSET_GLBL2_CHANNEL_MDMA)"

lemma device_attributes_plain:
  "plain_regs hw regs A \<Longrightarrow> attr_addrs \<subseteq> A \<Longrightarrow> device_attributes hw s = (attr_of (regs s), s)"
  by (simp add: device_attributes_def qdma_get_device_attributes_def plain_regs_def attr_addrs_def attr_of_def)

fun csr_base :: "qdma_global_csr_type \<Rightarrow> u32" where
  "csr_base QDMA_CSR_RING_SZ = QDMA_OFFSET_GLBL_RNG_SZ"
| "csr_base QDMA_CSR_TIMER_CNT = QDMA_OFFSET_C2H_TIMER_CNT"
| "csr_base QDMA_CSR_CNT_TH = QDMA_OFFSET_C2H_CNT_TH"
| "csr_base QDMA_CSR_BUF_SZ = QDMA_OFFSET_C2H_BUF_SZ"
| "csr_base QDMA_CSR_MAX = 0"

fun csr_supported :: "qdma_global_csr_type \<Rightarrow> qdma_dev_attributes \<Rightarrow> bool" where
  "csr_supported QDMA_CSR_RING_SZ cap \<longleftrightarrow> True"
| "csr_supported QDMA_CSR_TIMER_CNT cap \<longleftrightarrow> st_or_cmpt cap"
| "csr_supported QDMA_CSR_CNT_TH cap \<longleftrightarrow> st_or_cmpt cap"
| "csr_supported QDMA_CSR_BUF_SZ cap \<longleftrightarrow> st_en cap \<noteq> 0"
| "csr_supported QDMA_CSR_MAX cap \<longleftrightarrow> False"

definition csr_addrs :: "u32 set" where
  "csr_addrs = {reg_at (csr_base t) i | t i. t \<noteq> QDMA_CSR_MAX \<and> i < 16}"

lemma csr_addr_bounds:
  assumes "i < 16" and "t \<noteq> QDMA_CSR_MAX"
  shows "unat (reg_at (csr_base t) i) = unat (csr_base t) + 4 * i"
proof -
  have "unat (4 * of_nat i :: u32) = 4 * i" using assms(1) by (simp add: unat_word_ariths unat_of_nat)
  moreover have "unat (csr_base t) \<le> 0xAB0" by (cases t) (simp_all add: reg_offsets)
  ultimately show ?thesis
    using assms(1) unat_plus_bounded [of "csr_base t" "4 * of_nat i"] by (simp add: reg_at_def)
qed

lemma attr_not_csr:
  assumes "i < 16" and "t \<noteq> QDMA_CSR_MAX" and "a \<in> attr_addrs"
  shows "a \<noteq> reg_at (csr_base t) i"
proof -
  have "unat a < 0x204" using assms(3) by (auto simp: attr_addrs_def reg_offsets)
  moreover have "0x204 \<le> unat (csr_base t)" using assms(2) by (cases t) (simp_all add: reg_offsets)
  ultimately show ?thesis using csr_addr_bounds [OF assms(1,2)] by auto
qed

lemma csr_offset: "reg + ucast (index :: u8) * 4 = reg_at reg (unat index)"
  by (simp add: reg_at_def)

lemma unat_ucast8: "unat (ucast (q :: u8) :: u32) = unat q"
proof -
  have "unat q < 2 ^ 8" using unsigned_less [of q] by simp
  then show ?thesis by (simp add: unsigned_ucast_eq take_bit_nat_eq_self)
qed

text \<open>Access to one array in terms of the registers.\<close>

lemma global_csr_write:
  assumes plain: "plain_regs hw regs (attr_addrs \<union> csr_addrs)" and "csr_supported t (attr_of (regs s))"
    and "count \<noteq> 0" and "unat index + unat count \<le> 16"
  shows "qdma_global_csr_conf (Some hw) index count (Some vs) t QDMA_HW_ACCESS_WRITE s =
    (QDMA_SUCCESS, Some vs, write_seq hw (reg_at (csr_base t) (unat index)) (take (unat count) vs) s)"
  using assms(2-4)
  by (cases t) (simp_all add: qdma_global_csr_conf_def csr_access_def csr_write_def csr_guard_def
      device_attributes_plain [OF plain] qdma_write_csr_values_def csr_offset unat_ucast8
      qdma_write_global_ring_sizes_def qdma_write_global_timer_count_def
      qdma_write_global_counter_threshold_def qdma_write_global_buffer_sizes_def)

lemma global_csr_read:
  assumes plain: "plain_regs hw regs (attr_addrs \<union> csr_addrs)" and "csr_supported t (attr_of (regs s))"
    and "count \<noteq> 0" and "unat index + unat count \<le> 16"
  shows "qdma_global_csr_conf (Some hw) index count (Some vs) t QDMA_HW_ACCESS_READ s =
    (case read_seq hw (reg_at (csr_base t) (unat index)) (unat count) s of
       (ws, s') \<Rightarrow> (QDMA_SUCCESS, Some (ws @ drop (unat count) vs), s'))"
  using assms(2-4)
  by (cases t) (simp_all add: qdma_global_csr_conf_def csr_access_def csr_read_def csr_guard_def
      device_attributes_plain [OF plain] qdma_read_csr_values_def csr_offset unat_ucast8
      qdma_read_global_ring_sizes_def qdma_read_global_timer_count_def
      qdma_read_global_counter_threshold_def qdma_read_global_buffer_sizes_def)

lemma attr_kept:
  assumes "plain_regs hw regs (attr_addrs \<union> csr_addrs)" and "t \<noteq> QDMA_CSR_MAX" and "k + length ws \<le> 16"
  shows "attr_of (regs (write_seq hw (reg_at (csr_base t) k) ws s)) = attr_of (regs s)"
proof -
  have A: "\<forall>i < length ws. reg_at (csr_base t) (k + i) \<in> attr_addrs \<union> csr_addrs"
    using assms(2,3) by (fastforce simp: csr_addrs_def)
  have "regs (write_seq hw (reg_at (csr_base t) k) ws s) a = regs s a" if "a \<in> attr_addrs" for a
  proof (rule plain_write_other [OF assms(1) A], intro allI impI)
    fix i assume "i < length ws"
    with assms(3) show "a \<noteq> reg_at (csr_base t) (k + i)" by (intro attr_not_csr [OF _ assms(2) that]) simp
  qed
  then show ?thesis by (simp add: attr_of_def attr_addrs_def)
qed

text \<open>The configuration arrays round-trip.  For every kind of array the device supports, writing
  a range inside the array and reading it back gives the values written.\<close>

theorem global_csr_roundtrip:
  assumes plain: "plain_regs hw regs (attr_addrs \<union> csr_addrs)" and sup: "csr_supported t (attr_of (regs s))"
    and cnt: "count \<noteq> 0" "unat index + unat count \<le> 16" and len: "length vs = unat count" "length old = unat count"
  shows "\<exists>s'. qdma_global_csr_conf (Some hw) index count (Some vs) t QDMA_HW_ACCESS_WRITE s = (QDMA_SUCCESS, Some vs, s') \<and>
    qdma_global_csr_conf (Some hw) index count (Some old) t QDMA_HW_ACCESS_READ s' = (QDMA_SUCCESS, Some vs, s')"
proof -
  have t: "t \<noteq> QDMA_CSR_MAX" using sup by auto
  let ?s = "write_seq hw (reg_at (csr_base t) (unat index)) vs s"
  have A: "\<forall>i < length vs. reg_at (csr_base t) (unat index + i) \<in> attr_addrs \<union> csr_addrs"
    using t cnt(2) len by (fastforce simp: csr_addrs_def)
  have sup': "csr_supported t (attr_of (regs ?s))"
    using sup cnt(2) len by (simp add: attr_kept [OF plain t])
  show ?thesis
    using global_csr_write [OF plain sup cnt, of vs] global_csr_read [OF plain sup' cnt, of old]
      plain_write_read [OF plain A] cnt(2) len by simp
qed

text \<open>A register file in which every register is plain.\<close>

definition file_hw :: "(u32 \<Rightarrow> u32) hw_dev" where
  "file_hw = \<lparr>reg_read = \<lambda>a s. (s a, s), reg_write = \<lambda>a v s. s(a := v), udelay = \<lambda>_ s. s\<rparr>"

lemma file_plain: "plain_regs file_hw (\<lambda>s. s) A"
  by (simp add: plain_regs_def file_hw_def)

text \<open>A device with streaming, four queues and one physical function.\<close>

definition st_file :: "u32 \<Rightarrow> u32" where
  "st_file = (\<lambda>_. 0)(QDMA_OFFSET_GLBL2_CHANNEL_MDMA := 0x30101, QDMA_OFFSET_GLBL2_CHANNEL_QDMA_CAP := 4,
     QDMA_OFFSET_GLBL2_PF_BARLITE_INT := 1)"

theorem global_csr_roundtrip_witness:
  "\<exists>s'. qdma_global_csr_conf (Some file_hw) 3 2 (Some [10, 11]) QDMA_CSR_BUF_SZ QDMA_HW_ACCESS_WRITE st_file
      = (QDMA_SUCCESS, Some [10, 11], s') \<and>
    qdma_global_csr_conf (Some file_hw) 3 2 (Some [0, 0]) QDMA_CSR_BUF_SZ QDMA_HW_ACCESS_READ s'
      = (QDMA_SUCCESS, Some [10, 11], s')"
proof (rule global_csr_roundtrip [OF file_plain])
  show "csr_supported QDMA_CSR_BUF_SZ (attr_of st_file)" by code_simp
qed simp_all

section \<open>Writeback interval and legacy interrupts\<close>

text \<open>Setting the writeback interval does not replace the old one.  The code sets bits in the
  field without clearing it, so on a supported device the interval read back after writing
  \<open>w\<close> is the bitwise or of \<open>w\<close> and the interval that was there; it is \<open>w\<close> only if the old one has no other bits.\<close>

theorem writeback_interval_accumulates:
  assumes plain: "plain_regs hw regs (attr_addrs \<union> {QDMA_OFFSET_GLBL_DSC_CFG})"
    and "st_or_cmpt (attr_of (regs s))" and "w < QDMA_NUM_WRB_INTERVALS"
  shows "\<exists>s'. qdma_global_writeback_interval_conf (Some hw) (Some w) QDMA_HW_ACCESS_WRITE s = Some (QDMA_SUCCESS, Some w, s') \<and>
    qdma_global_writeback_interval_conf (Some hw) (Some x) QDMA_HW_ACCESS_READ s' =
      Some (QDMA_SUCCESS, Some (FIELD_GET QDMA_GLBL_DSC_CFG_WB_ACC_INT_MASK (regs s QDMA_OFFSET_GLBL_DSC_CFG) OR w), s')"
proof -
  have at: "device_attributes hw s = (attr_of (regs s), s)" for s
    by (rule device_attributes_plain [OF plain]) auto
  have rd: "reg_read hw QDMA_OFFSET_GLBL_DSC_CFG s = (regs s QDMA_OFFSET_GLBL_DSC_CFG, s)"
    and wr: "regs (reg_write hw QDMA_OFFSET_GLBL_DSC_CFG v s) = (regs s)(QDMA_OFFSET_GLBL_DSC_CFG := v)" for s v
    using plain by (simp_all add: plain_regs_def)
  have attr: "attr_of ((regs s)(QDMA_OFFSET_GLBL_DSC_CFG := v)) = attr_of (regs s)" for v
    by (simp add: attr_of_def reg_offsets)
  have "unat w < 2 ^ 3" using assms(3) by (simp add: word_less_nat_alt)
  then have "take_bit 3 w = w" by (rule take_bit_small)
  with assms(2,3) show ?thesis
    by (simp add: qdma_global_writeback_interval_conf_def qdma_global_writeback_interval_write_def
        qdma_global_writeback_interval_read_def at rd wr attr not_le field_simps_qdma)
qed

theorem writeback_interval_accumulates_witness:
  "\<exists>s'. qdma_global_writeback_interval_conf (Some file_hw) (Some 2) QDMA_HW_ACCESS_WRITE
      (st_file(QDMA_OFFSET_GLBL_DSC_CFG := 5)) = Some (QDMA_SUCCESS, Some 2, s') \<and>
    qdma_global_writeback_interval_conf (Some file_hw) (Some 0) QDMA_HW_ACCESS_READ s' = Some (QDMA_SUCCESS, Some 7, s')"
proof -
  let ?s = "st_file(QDMA_OFFSET_GLBL_DSC_CFG := 5)"
  have "st_or_cmpt (attr_of ?s)" by code_simp
  moreover have "FIELD_GET QDMA_GLBL_DSC_CFG_WB_ACC_INT_MASK (?s QDMA_OFFSET_GLBL_DSC_CFG) OR 2 = 7" by code_simp
  ultimately show ?thesis using writeback_interval_accumulates [OF file_plain, of ?s 2 0] by simp
qed

text \<open>Legacy interrupts cannot be disabled.  The function that enables or disables them sets the
  enable bit from its argument without clearing it: a call with \<^verbatim>\<open>DISABLE\<close> succeeds and writes the
  value back that the register had.\<close>

theorem legacy_intr_disable_no_effect:
  assumes "plain_regs hw regs {QDMA_OFFSET_GLBL_INTERRUPT_CFG}"
  shows "\<exists>s'. qdma_legacy_intr_conf (Some hw) DISABLE s = (QDMA_SUCCESS, s') \<and> regs s' = regs s"
proof -
  have "FIELD_SET QDMA_GLBL_INTR_CFG_EN_LGCY_INTR_MASK 0 = 0" by (simp add: FIELD_SET_def)
  with assms show ?thesis by (simp add: qdma_legacy_intr_conf_def plain_regs_def)
qed

theorem legacy_intr_disable_no_effect_witness:
  "\<exists>s'. qdma_legacy_intr_conf (Some file_hw) DISABLE (\<lambda>_. 1) = (QDMA_SUCCESS, s') \<and> s' QDMA_OFFSET_GLBL_INTERRUPT_CFG = 1"
  using legacy_intr_disable_no_effect [OF file_plain, of "\<lambda>_. 1"] by auto

section \<open>Index registers of the queues\<close>

datatype q_reg = Intr_cidx | Pidx bool | Cmpt_cidx

fun q_reg_addr :: "bool \<Rightarrow> q_reg \<Rightarrow> u16 \<Rightarrow> u32" where
  "q_reg_addr is_vf Intr_cidx qid = intr_cidx_reg_addr is_vf qid"
| "q_reg_addr is_vf (Pidx is_c2h) qid = pidx_reg_addr is_vf qid is_c2h"
| "q_reg_addr is_vf Cmpt_cidx qid = cmpt_cidx_reg_addr is_vf qid"

fun q_reg_slot :: "q_reg \<Rightarrow> nat" where
  "q_reg_slot Intr_cidx = 0"
| "q_reg_slot (Pidx is_c2h) = (if is_c2h then 8 else 4)"
| "q_reg_slot Cmpt_cidx = 12"

lemma q_reg_addr_unat:
  "unat (q_reg_addr is_vf r qid) = (if is_vf then 0x3000 else 0x18000) + q_reg_slot r + 16 * unat qid"
proof -
  have q: "unat qid < 2 ^ 16" using unsigned_less [of qid] by simp
  have "unat (ucast qid :: u32) = unat qid" using q by (simp add: unsigned_ucast_eq take_bit_nat_eq_self)
  then have "unat (ucast qid * 0x10 :: u32) = 16 * unat qid" using q by (simp add: unat_word_ariths)
  then have "unat (b + ucast qid * 0x10) = unat b + 16 * unat qid" if "unat b < 2 ^ 20" for b :: u32
    using that q unat_plus_bounded [of b "ucast qid * 0x10"] by simp
  then show ?thesis
    by (cases r) (simp_all add: intr_cidx_reg_addr_def pidx_reg_addr_def cmpt_cidx_reg_addr_def reg_offsets)
qed

text \<open>Index registers never collide.  For all queue numbers, the registers of the interrupt
  ring index, of the producer indices of both directions and of the completion index are different
  registers, and so are those of different queues: updating an index of one queue reaches no other
  index, and the address arithmetic does not wrap around.\<close>

theorem queue_index_registers_distinct:
  "q_reg_addr is_vf r qid = q_reg_addr is_vf r' qid' \<longleftrightarrow> r = r' \<and> qid = qid'"
proof
  assume "q_reg_addr is_vf r qid = q_reg_addr is_vf r' qid'"
  then have eq: "q_reg_slot r + 16 * unat qid = q_reg_slot r' + 16 * unat qid'"
    using q_reg_addr_unat [of is_vf r qid] q_reg_addr_unat [of is_vf r' qid'] by simp
  have slot: "q_reg_slot r < 16" for r by (cases r) auto
  have "q_reg_slot r = q_reg_slot r'"
    using arg_cong [OF eq, of "\<lambda>n. n mod 16"] slot [of r] slot [of r'] by simp
  moreover from this eq have "qid = qid'" by (simp add: word_unat_eq_iff)
  ultimately show "r = r' \<and> qid = qid'" by (cases r; cases r') (auto split: if_splits)
qed simp

definition cmpt_cidx_fits :: "qdma_q_cmpt_cidx_reg_info \<Rightarrow> bool" where
  "cmpt_cidx_fits r \<longleftrightarrow> counter_idx r < 16 \<and> timer_idx r < 16 \<and> trig_mode r < 8 \<and> wrb_en r < 2 \<and> cmpt_irq_en r < 2"

lemma field_back8:
  fixes x :: u8
  assumes "unat x < 2 ^ k" and "k \<le> 8"
  shows "ucast (take_bit k (ucast x :: u32)) = x"
proof (rule bit_eqI)
  fix n
  have "take_bit k x = x" using assms(1) by (rule take_bit_small)
  then have "bit x n \<Longrightarrow> n < k" by (metis bit_take_bit_iff)
  then show "bit (ucast (take_bit k (ucast x :: u32)) :: u8) n = bit x n" if "possible_bit TYPE(u8) n"
    using that by (auto simp: bit_ucast_iff bit_take_bit_iff)
qed

lemma field_back16: "ucast (take_bit 16 (ucast (x :: u16) :: u32)) = x"
  by (rule bit_eqI) (auto simp: bit_ucast_iff bit_take_bit_iff)

text \<open>The completion index register round-trips.  Values that fit their fields are read back as
  they were written, through the update function of the soft IP and the common read function.\<close>

theorem cmpt_cidx_roundtrip:
  assumes "plain_regs hw regs {cmpt_cidx_reg_addr is_vf qid}" and "cmpt_cidx_fits r"
  shows "\<exists>s'. qdma_queue_cmpt_cidx_update (Some hw) is_vf qid (Some r) s = (QDMA_SUCCESS, s') \<and>
    qdma_queue_cmpt_cidx_read (Some hw) is_vf qid (Some r0) s' = (QDMA_SUCCESS, Some r, s')"
proof -
  have "unat (counter_idx r) < 2 ^ 4" "unat (timer_idx r) < 2 ^ 4" "unat (trig_mode r) < 2 ^ 3"
    "unat (wrb_en r) < 2 ^ 1" "unat (cmpt_irq_en r) < 2 ^ 1"
    using assms(2) by (simp_all add: cmpt_cidx_fits_def word_less_nat_alt)
  note fields = this [THEN field_back8, simplified] field_back16
  have "cmpt_cidx_parse (cmpt_cidx_word r) = r"
    by (simp add: cmpt_cidx_parse_def cmpt_cidx_word_def field_simps_qdma fields)
  with assms(1) show ?thesis
    by (simp add: qdma_queue_cmpt_cidx_update_def qdma_queue_cmpt_cidx_read_def plain_regs_def)
qed

theorem cmpt_cidx_roundtrip_witness:
  "\<exists>s'. qdma_queue_cmpt_cidx_update (Some file_hw) True 7
      (Some \<lparr>wrb_cidx = 513, counter_idx = 15, timer_idx = 9, trig_mode = 5, wrb_en = 1, cmpt_irq_en = 1\<rparr>) st_file
      = (QDMA_SUCCESS, s') \<and>
    map_option wrb_cidx (fst (snd (qdma_queue_cmpt_cidx_read (Some file_hw) True 7
      (Some \<lparr>wrb_cidx = 0, counter_idx = 0, timer_idx = 0, trig_mode = 0, wrb_en = 0, cmpt_irq_en = 0\<rparr>) s'))) = Some 513"
  using cmpt_cidx_roundtrip [OF file_plain, of
      "\<lparr>wrb_cidx = 513, counter_idx = 15, timer_idx = 9, trig_mode = 5, wrb_en = 1, cmpt_irq_en = 1\<rparr>" True "7" st_file
      "\<lparr>wrb_cidx = 0, counter_idx = 0, timer_idx = 0, trig_mode = 0, wrb_en = 0, cmpt_irq_en = 0\<rparr>"]
  by (auto simp: cmpt_cidx_fits_def)

section \<open>Initialisation of the context memory\<close>

lemma clear_all_does:
  assumes e: "ctxt_engine hw regs ctx"
  shows "\<exists>s'. clear_all hw cs s = (QDMA_SUCCESS, s') \<and>
    (\<forall>sel q. ctx s' sel q = (if \<exists>i. (sel, i) \<in> set cs \<and> take_bit 12 i = q then replicate 8 0 else ctx s sel q))"
proof (induction cs arbitrary: s)
  case (Cons c cs)
  obtain sel i where c: "c = (sel, i)" by (cases c)
  obtain s1 where s1: "qdma_indirect_reg_clear hw sel i s = (QDMA_SUCCESS, s1)"
      "ctx s1 = (ctx s)(sel := (ctx s sel)(take_bit 12 i := replicate 8 0))"
    using indirect_erase(1) [OF e] by blast
  obtain s2 where "clear_all hw cs s1 = (QDMA_SUCCESS, s2)"
      "\<forall>sel q. ctx s2 sel q = (if \<exists>i. (sel, i) \<in> set cs \<and> take_bit 12 i = q then replicate 8 0 else ctx s1 sel q)"
    using Cons.IH [of s1] by blast
  then show ?case using s1 c by auto
qed simp

text \<open>The unchecked loop over the function maps is the checked one when the device works.\<close>

lemma fmap_clear_all:
  assumes e: "ctxt_engine hw regs ctx"
  shows "fold (\<lambda>i s. snd (qdma_indirect_reg_clear hw QDMA_CTXT_SEL_FMAP (of_nat i) s)) is s =
    snd (clear_all hw (map (\<lambda>i. (QDMA_CTXT_SEL_FMAP, of_nat i)) is) s)"
proof (induction "is" arbitrary: s)
  case (Cons i "is")
  obtain s1 where "qdma_indirect_reg_clear hw QDMA_CTXT_SEL_FMAP (of_nat i) s = (QDMA_SUCCESS, s1)"
    using indirect_erase(1) [OF e] by blast
  then show ?case using Cons.IH by simp
qed simp

text \<open>The contexts that initialisation has to clear: software, hardware and credit contexts of both directions for
  every queue, completion and prefetch contexts if there is streaming, and the function maps.\<close>

definition init_clears :: "qdma_dev_attributes \<Rightarrow> ind_ctxt_cmd_sel \<Rightarrow> u16 \<Rightarrow> bool" where
  "init_clears cap sel q \<longleftrightarrow>
     ((sel \<in> {QDMA_CTXT_SEL_SW_C2H, QDMA_CTXT_SEL_SW_H2C, QDMA_CTXT_SEL_HW_C2H, QDMA_CTXT_SEL_HW_H2C,
               QDMA_CTXT_SEL_CR_C2H, QDMA_CTXT_SEL_CR_H2C} \<or>
       st_en cap \<noteq> 0 \<and> sel \<in> {QDMA_CTXT_SEL_CMPT, QDMA_CTXT_SEL_PFTCH}) \<and>
      (\<exists>i < num_qs cap. q = take_bit 12 i)) \<or>
     (sel = QDMA_CTXT_SEL_FMAP \<and> q < ucast (num_pfs cap))"

lemma of_nat_below:
  fixes n :: "'a :: len word" and P :: "'a word \<Rightarrow> bool"
  shows "(\<exists>i < unat n. P (of_nat i)) \<longleftrightarrow> (\<exists>w < n. P w)"
proof
  assume "\<exists>i < unat n. P (of_nat i)"
  then obtain i where i: "i < unat n" "P (of_nat i)" by blast
  have "i < 2 ^ LENGTH('a)" using i(1) by (rule less_trans) (rule unsigned_less)
  then have "unat (of_nat i :: 'a word) = i" by (simp add: unat_of_nat)
  with i have "of_nat i < n" by (simp add: word_less_nat_alt)
  with i show "\<exists>w < n. P w" by blast
next
  assume "\<exists>w < n. P w"
  then obtain w where "w < n" "P w" by blast
  then have "unat w < unat n" "P (of_nat (unat w))" by (simp_all add: word_less_nat_alt)
  then show "\<exists>i < unat n. P (of_nat i)" by blast
qed

lemma init_queue_iff:
  "(\<exists>i. (sel, i) \<in> set (concat (map (\<lambda>j. map (\<lambda>sel. (sel, of_nat j)) sels) [0 ..< unat n])) \<and> take_bit 12 i = q)
     \<longleftrightarrow> sel \<in> set sels \<and> (\<exists>i < (n :: u16). q = take_bit 12 i)"
proof -
  have "(\<exists>i. (sel, i) \<in> set (concat (map (\<lambda>j. map (\<lambda>sel. (sel, of_nat j)) sels) [0 ..< unat n])) \<and> take_bit 12 i = q)
      \<longleftrightarrow> sel \<in> set sels \<and> (\<exists>i < unat n. q = take_bit 12 (of_nat i :: u16))"
    by (auto simp: image_iff intro!: exI [of _ "of_nat _"])
  also have "\<dots> \<longleftrightarrow> sel \<in> set sels \<and> (\<exists>i < n. q = take_bit 12 i)"
    using of_nat_below [of n "\<lambda>w. q = take_bit 12 w"] by simp
  finally show ?thesis .
qed

lemma init_fmap_iff:
  "(\<exists>i. (sel, i) \<in> set (map (\<lambda>i. (QDMA_CTXT_SEL_FMAP, of_nat i)) [0 ..< unat n]) \<and> take_bit 12 i = (q :: u16))
     \<longleftrightarrow> sel = QDMA_CTXT_SEL_FMAP \<and> q < ucast (n :: u8)"
proof -
  have n: "unat (ucast n :: u16) = unat n" "unat n < 256"
    using unsigned_less [of n, where ?'a = nat] by (simp_all add: unsigned_ucast_eq take_bit_nat_eq_self)
  have small: "take_bit 12 (w :: u16) = w" if "w < ucast n" for w
    using that n by (intro take_bit_small) (simp add: word_less_nat_alt)
  have "(\<exists>i. (sel, i) \<in> set (map (\<lambda>i. (QDMA_CTXT_SEL_FMAP, of_nat i)) [0 ..< unat n]) \<and> take_bit 12 i = q)
      \<longleftrightarrow> sel = QDMA_CTXT_SEL_FMAP \<and> (\<exists>i < unat n. take_bit 12 (of_nat i) = q)"
    by (auto simp: image_iff intro!: exI [of _ "of_nat _"])
  moreover have "(\<exists>i < unat n. take_bit 12 (of_nat i) = q) \<longleftrightarrow> (\<exists>w < ucast n. take_bit 12 w = q)"
    using of_nat_below [of "ucast n :: u16" "\<lambda>w. take_bit 12 w = q"] n by simp
  moreover have "\<dots> \<longleftrightarrow> q < ucast n" using small by metis
  ultimately show ?thesis by simp
qed

text \<open>C27: Initialisation of the context memory is complete and touches nothing else.  It succeeds;
  afterwards the software, hardware and credit contexts of both directions are zero for every queue
  of the device, and the completion and prefetch contexts as well if the device supports streaming,
  and so are the function maps of the physical functions.  All other stored contexts are unchanged.\<close>

theorem init_ctxt_memory_clears:
  assumes e: "ctxt_engine hw regs ctx" and plain: "plain_regs hw regs attr_addrs"
  shows "\<exists>s'. qdma_init_ctxt_memory (Some hw) s = (QDMA_SUCCESS, s') \<and>
    (\<forall>sel q. ctx s' sel q = (if init_clears (attr_of (regs s)) sel q then replicate 8 0 else ctx s sel q))"
proof -
  let ?cap = "attr_of (regs s)"
  let ?qs = "concat (map (\<lambda>i. map (\<lambda>sel. (sel, of_nat i)) (init_sels ?cap)) [0 ..< unat (num_qs ?cap)])"
  let ?fs = "map (\<lambda>i. (QDMA_CTXT_SEL_FMAP, of_nat i)) [0 ..< unat (num_pfs ?cap)]"
  obtain s1 where s1: "clear_all hw ?qs s = (QDMA_SUCCESS, s1)"
      "\<And>sel q. ctx s1 sel q = (if sel \<in> set (init_sels ?cap) \<and> (\<exists>i < num_qs ?cap. q = take_bit 12 i)
         then replicate 8 0 else ctx s sel q)"
    using clear_all_does [OF e, of ?qs s] unfolding init_queue_iff by blast
  obtain s2 where s2: "clear_all hw ?fs s1 = (QDMA_SUCCESS, s2)"
      "\<And>sel q. ctx s2 sel q = (if sel = QDMA_CTXT_SEL_FMAP \<and> q < ucast (num_pfs ?cap)
         then replicate 8 0 else ctx s1 sel q)"
    using clear_all_does [OF e, of ?fs s1] unfolding init_fmap_iff by blast
  have "qdma_init_ctxt_memory (Some hw) s = (QDMA_SUCCESS, s2)"
    unfolding qdma_init_ctxt_memory_def option.case
    by (simp only: device_attributes_plain [OF plain subset_refl] Let_def prod.case s1(1) fmap_clear_all [OF e] s2(1)) simp
  moreover have "init_clears ?cap sel q \<longleftrightarrow> sel \<in> set (init_sels ?cap) \<and> (\<exists>i < num_qs ?cap. q = take_bit 12 i) \<or>
      sel = QDMA_CTXT_SEL_FMAP \<and> q < ucast (num_pfs ?cap)" for sel q
    unfolding init_clears_def init_sels_def by auto
  ultimately show ?thesis using s1(2) s2(2) by auto
qed

definition init_engine :: engine where
  "init_engine = \<lparr>e_regs = (\<lambda>_. 0)(QDMA_OFFSET_GLBL2_PF_BARLITE_INT := 1,
     QDMA_OFFSET_GLBL2_CHANNEL_QDMA_CAP := 3), e_ctx = \<lambda>_ _ _. 7\<rparr>"

lemma engine_plain_attr: "plain_regs engine_hw e_regs attr_addrs"
  by (auto simp: plain_regs_def engine_hw_def attr_addrs_def reg_offsets QDMA_OFFSET_IND_CTXT_CMD_def)

theorem init_ctxt_memory_clears_witness:
  "\<exists>s'. qdma_init_ctxt_memory (Some engine_hw) init_engine = (QDMA_SUCCESS, s') \<and>
    engine_ctx s' QDMA_CTXT_SEL_SW_C2H 2 = replicate 8 0 \<and>
    engine_ctx s' QDMA_CTXT_SEL_CMPT 2 = replicate 8 7"
proof -
  have "2 < num_qs (attr_of (e_regs init_engine))" by code_simp
  moreover have "take_bit 12 (2 :: u16) = 2" by simp
  ultimately have "init_clears (attr_of (e_regs init_engine)) QDMA_CTXT_SEL_SW_C2H 2"
    unfolding init_clears_def by force
  moreover have "st_en (attr_of (e_regs init_engine)) = 0" by code_simp
  then have "\<not> init_clears (attr_of (e_regs init_engine)) QDMA_CTXT_SEL_CMPT 2" by (simp add: init_clears_def)
  moreover have "engine_ctx init_engine QDMA_CTXT_SEL_CMPT 2 = replicate 8 7" by code_simp
  ultimately show ?thesis
    using init_ctxt_memory_clears [OF engine_ok engine_plain_attr, of init_engine] by auto
qed

end
