(* ===== verification/MboxHw.thy ===== *)
theory MboxHw
  imports RegAccess MboxTypes
begin

text \<open>
  The hardware side of the mailbox (\<^verbatim>\<open>qdma_mbox_send\<close>, \<^verbatim>\<open>qdma_mbox_rcv\<close> and the other functions at the
  end of \<^verbatim>\<open>qdma_mbox_protocol.c\<close>), over the register access of the theory RegAccess.  Here a message
  is what the registers hold, a list of 32 words; the header lies in the first two of them, in the
  little-endian layout of \<^verbatim>\<open>struct mbox_msg_hdr\<close>.
\<close>

unbundle bit_operations_syntax

section \<open>Registers\<close>

definition MBOX_FN_STATUS :: u32 where [mbox_defs]: "MBOX_FN_STATUS = 0"
definition M_MBOX_FN_STATUS_IN_MSG :: u32 where [mbox_defs]: "M_MBOX_FN_STATUS_IN_MSG = 1"
definition F_MBOX_FN_STATUS_OUT_MSG :: u32 where [mbox_defs]: "F_MBOX_FN_STATUS_OUT_MSG = 2"
definition F_MBOX_FN_STATUS_ACK :: u32 where [mbox_defs]: "F_MBOX_FN_STATUS_ACK = 4"
definition G_MBOX_FN_STATUS_SRC :: "u32 \<Rightarrow> u32" where
  "G_MBOX_FN_STATUS_SRC x = drop_bit 4 x AND 0xFFF"
definition MBOX_FN_CMD :: u32 where [mbox_defs]: "MBOX_FN_CMD = 4"
definition F_MBOX_FN_CMD_SND :: u32 where [mbox_defs]: "F_MBOX_FN_CMD_SND = 1"
definition F_MBOX_FN_CMD_RCV :: u32 where [mbox_defs]: "F_MBOX_FN_CMD_RCV = 2"
definition MBOX_ISR_VEC :: u32 where [mbox_defs]: "MBOX_ISR_VEC = 8"
definition MBOX_FN_TARGET :: u32 where [mbox_defs]: "MBOX_FN_TARGET = 0xC"
definition V_MBOX_FN_TARGET_ID :: "u32 \<Rightarrow> u32" where "V_MBOX_FN_TARGET_ID x = x AND 0xFFF"
definition MBOX_ISR_EN :: u32 where [mbox_defs]: "MBOX_ISR_EN = 0x10"
definition MBOX_PF_ACK_BASE :: u32 where [mbox_defs]: "MBOX_PF_ACK_BASE = 0x20"
definition MBOX_PF_ACK_STEP :: u32 where [mbox_defs]: "MBOX_PF_ACK_STEP = 4"
definition MBOX_PF_ACK_COUNT :: nat where [mbox_defs]: "MBOX_PF_ACK_COUNT = 8"
definition MBOX_IN_MSG_BASE :: u32 where [mbox_defs]: "MBOX_IN_MSG_BASE = 0x800"
definition MBOX_OUT_MSG_BASE :: u32 where [mbox_defs]: "MBOX_OUT_MSG_BASE = 0xc00"
definition MBOX_MSG_REG_MAX :: nat where [mbox_defs]: "MBOX_MSG_REG_MAX = 32"

section \<open>The header inside a raw message\<close>

definition raw_hdr :: "u32 list \<Rightarrow> mbox_msg_hdr" where
  "raw_hdr raw =
     \<lparr>hdr_op = ucast (raw ! 0), hdr_status = ucast (drop_bit 8 (raw ! 0)),
      src_func_id = ucast (drop_bit 16 (raw ! 0)), dst_func_id = ucast (raw ! 1)\<rparr>"

definition raw_set_src :: "u16 \<Rightarrow> u32 list \<Rightarrow> u32 list" where
  "raw_set_src src raw = raw[0 := (raw ! 0 AND 0xFFFF) OR push_bit 16 (ucast src)]"

section \<open>Operations\<close>

text \<open>The base addresses are members of the access table of the device.\<close>

definition get_mbox_offset :: "'t qdma_hw_access \<Rightarrow> bool \<Rightarrow> u32" where
  "get_mbox_offset acc is_vf = (if is_vf then mbox_base_vf acc else mbox_base_pf acc)"

definition mbox_pf_hw_clear_func_ack :: "'t qdma_hw_access \<Rightarrow> 's hw_dev \<Rightarrow> u16 \<Rightarrow> 's \<Rightarrow> 's" where
  "mbox_pf_hw_clear_func_ack acc hw func_id s =
     (let idx = unat func_id div 32; b = unat func_id mod 32
      in reg_write hw (get_mbox_offset acc False + MBOX_PF_ACK_BASE + of_nat idx * MBOX_PF_ACK_STEP)
           (push_bit b 1) s)"

fun clear_ack_loop :: "'s hw_dev \<Rightarrow> nat \<Rightarrow> u32 \<Rightarrow> 's \<Rightarrow> 's" where
  "clear_ack_loop hw 0 reg s = s"
| "clear_ack_loop hw (Suc n) reg s =
     (let (v, s) = reg_read hw reg s;
          s = (if v = 0 then s else reg_write hw reg v s)
      in clear_ack_loop hw n (reg + MBOX_PF_ACK_STEP) s)"

definition qdma_mbox_pf_hw_clear_ack :: "'t qdma_hw_access \<Rightarrow> 's hw_dev \<Rightarrow> 's \<Rightarrow> 's" where
  "qdma_mbox_pf_hw_clear_ack acc hw s =
     (let base = get_mbox_offset acc False; (v, s) = reg_read hw (base + MBOX_FN_STATUS) s
      in if v AND F_MBOX_FN_STATUS_ACK = 0 then s
         else clear_ack_loop hw MBOX_PF_ACK_COUNT (base + MBOX_PF_ACK_BASE) s)"

definition qdma_mbox_send ::
    "'t qdma_hw_access \<Rightarrow> 's hw_dev \<Rightarrow> bool \<Rightarrow> u32 list \<Rightarrow> 's \<Rightarrow> int \<times> 's" where
  "qdma_mbox_send acc hw is_vf raw s =
     (let dst = dst_func_id (raw_hdr raw); base = get_mbox_offset acc is_vf;
          (v, s) = reg_read hw (base + MBOX_FN_STATUS) s
      in if v AND F_MBOX_FN_STATUS_OUT_MSG \<noteq> 0 then (- QDMA_ERR_MBOX_SEND_BUSY, s)
         else
           let s = (if is_vf then s
                    else reg_write hw (base + MBOX_FN_TARGET) (V_MBOX_FN_TARGET_ID (ucast dst)) s);
               s = write_seq hw (base + MBOX_OUT_MSG_BASE) (take MBOX_MSG_REG_MAX raw) s;
               s = (if is_vf then s else mbox_pf_hw_clear_func_ack acc hw dst s)
           in (QDMA_SUCCESS, reg_write hw (base + MBOX_FN_CMD) F_MBOX_FN_CMD_SND s))"

text \<open>The buffer is untouched when no message is there.\<close>

definition qdma_mbox_rcv ::
    "'t qdma_hw_access \<Rightarrow> 's hw_dev \<Rightarrow> bool \<Rightarrow> u32 list \<Rightarrow> 's \<Rightarrow> int \<times> u32 list \<times> 's" where
  "qdma_mbox_rcv acc hw is_vf raw s =
     (let base = get_mbox_offset acc is_vf; (v, s) = reg_read hw (base + MBOX_FN_STATUS) s
      in if v AND M_MBOX_FN_STATUS_IN_MSG = 0 then (- QDMA_ERR_MBOX_NO_MSG_IN, raw, s)
         else
           let from_id = (if is_vf then 0 else G_MBOX_FN_STATUS_SRC v);
               s = (if is_vf then s else reg_write hw (base + MBOX_FN_TARGET) from_id s);
               (raw, s) = read_seq hw (base + MBOX_IN_MSG_BASE) MBOX_MSG_REG_MAX s;
               s = reg_write hw (base + MBOX_FN_CMD) F_MBOX_FN_CMD_RCV s
           in if list_all (\<lambda>w. w = 0) raw then (- QDMA_ERR_MBOX_ALL_ZERO_MSG, raw, s)
              else if \<not> is_vf \<and> from_id \<noteq> ucast (src_func_id (raw_hdr raw))
              then (QDMA_SUCCESS, raw_set_src (ucast from_id) raw, s)
              else (QDMA_SUCCESS, raw, s))"

definition qdma_mbox_hw_init :: "'t qdma_hw_access \<Rightarrow> 's hw_dev \<Rightarrow> bool \<Rightarrow> 's \<Rightarrow> 's" where
  "qdma_mbox_hw_init acc hw is_vf s =
     (let base = get_mbox_offset acc is_vf in
      if is_vf then
        let (v, s) = reg_read hw (base + MBOX_FN_STATUS) s
        in if v AND M_MBOX_FN_STATUS_IN_MSG \<noteq> 0
           then reg_write hw (base + MBOX_FN_CMD) F_MBOX_FN_CMD_RCV s else s
      else qdma_mbox_pf_hw_clear_ack acc hw s)"

definition qdma_mbox_enable_interrupts :: "'t qdma_hw_access \<Rightarrow> 's hw_dev \<Rightarrow> bool \<Rightarrow> 's \<Rightarrow> 's" where
  "qdma_mbox_enable_interrupts acc hw is_vf s =
     (let base = get_mbox_offset acc is_vf
      in reg_write hw (base + MBOX_ISR_EN) 1 (reg_write hw (base + MBOX_ISR_VEC) 0 s))"

definition qdma_mbox_disable_interrupts :: "'t qdma_hw_access \<Rightarrow> 's hw_dev \<Rightarrow> bool \<Rightarrow> 's \<Rightarrow> 's" where
  "qdma_mbox_disable_interrupts acc hw is_vf s =
     reg_write hw (get_mbox_offset acc is_vf + MBOX_ISR_EN) 0 s"

definition qdma_mbox_out_status :: "'t qdma_hw_access \<Rightarrow> 's hw_dev \<Rightarrow> bool \<Rightarrow> 's \<Rightarrow> u8 \<times> 's" where
  "qdma_mbox_out_status acc hw is_vf s =
     (let (v, s) = reg_read hw (get_mbox_offset acc is_vf + MBOX_FN_STATUS) s
      in (if v AND F_MBOX_FN_STATUS_OUT_MSG \<noteq> 0 then 1 else 0, s))"

section \<open>The header of a message\<close>

lemma raw_set_src_hdr:
  assumes "raw \<noteq> []"
  shows "raw_hdr (raw_set_src src raw) = (raw_hdr raw)\<lparr>src_func_id := src\<rparr>"
    and "tl (raw_set_src src raw) = tl raw"
proof -
  obtain w ws where raw: "raw = w # ws" using assms by (cases raw) auto
  have low: "(0xFFFF :: u32) = mask 16" by (simp add: mask_eq_exp_minus_1)
  have "ucast ((w AND 0xFFFF) OR push_bit 16 (ucast src)) = (ucast w :: u8)"
    "ucast (drop_bit 8 ((w AND 0xFFFF) OR push_bit 16 (ucast src))) = (ucast (drop_bit 8 w) :: u8)"
    "ucast (drop_bit 16 ((w AND 0xFFFF) OR push_bit 16 (ucast src))) = src"
    unfolding low
    by (rule bit_eqI; auto simp: bit_ucast_iff bit_drop_bit_eq bit_and_iff bit_or_iff bit_push_bit_iff bit_mask_iff)+
  then show "raw_hdr (raw_set_src src raw) = (raw_hdr raw)\<lparr>src_func_id := src\<rparr>"
    and "tl (raw_set_src src raw) = tl raw"
    by (simp_all add: raw raw_hdr_def raw_set_src_def)
qed

lemma read_seq_length: "read_seq hw a n s = (ws, s') \<Longrightarrow> length ws = n"
  by (induction n arbitrary: a s ws) (auto split: prod.splits)

text \<open>What the parent gets when it receives a message: the words of the registers with the sender
  that the hardware reports put into the header.\<close>

lemma rcv_pf:
  assumes "reg_read hw (mbox_base_pf acc + MBOX_FN_STATUS) s = (v, s1)" and "v AND M_MBOX_FN_STATUS_IN_MSG \<noteq> 0"
    and "read_seq hw (mbox_base_pf acc + MBOX_IN_MSG_BASE) MBOX_MSG_REG_MAX
      (reg_write hw (mbox_base_pf acc + MBOX_FN_TARGET) (G_MBOX_FN_STATUS_SRC v) s1) = (ws, s2)"
    and "\<not> list_all (\<lambda>w. w = 0) ws"
  shows "\<exists>raw'. qdma_mbox_rcv acc hw False raw s =
      (QDMA_SUCCESS, raw', reg_write hw (mbox_base_pf acc + MBOX_FN_CMD) F_MBOX_FN_CMD_RCV s2) \<and>
    raw_hdr raw' = (raw_hdr ws)\<lparr>src_func_id := ucast (G_MBOX_FN_STATUS_SRC v)\<rparr> \<and> tl raw' = tl ws"
proof -
  have "length ws = 32" using read_seq_length [OF assms(3)] by (simp add: MBOX_MSG_REG_MAX_def)
  then have ne: "ws \<noteq> []" by auto
  show ?thesis
  proof (cases "G_MBOX_FN_STATUS_SRC v = ucast (src_func_id (raw_hdr ws))")
    case True
    then have "ucast (G_MBOX_FN_STATUS_SRC v) = src_func_id (raw_hdr ws)" 
      by (auto intro!: bit_eqI simp: bit_ucast_iff)
    with True show ?thesis using assms by (simp add: qdma_mbox_rcv_def get_mbox_offset_def Let_def)
  next
    case False
    then show ?thesis
      using assms raw_set_src_hdr [OF ne] by (simp add: qdma_mbox_rcv_def get_mbox_offset_def Let_def)
  qed
qed

section \<open>What the code relies on from the mailbox hardware\<close>

text \<open>
  The wire between a virtual function with hardware number \<open>fid\<close> and its parent.  \<open>outm\<close> and \<open>inm\<close>
  are the contents of the outgoing message registers of the virtual function and of the incoming
  ones of the parent.  The outgoing registers are plain storage; the send command moves their
  contents to the parent, whose status register then shows a message and its sender; reading the
  incoming registers and selecting a target do not change the message.
\<close>

definition out_addr :: "'t qdma_hw_access \<Rightarrow> nat \<Rightarrow> u32" where
  "out_addr acc i = mbox_base_vf acc + MBOX_OUT_MSG_BASE + 4 * of_nat i"

definition in_addr :: "'t qdma_hw_access \<Rightarrow> nat \<Rightarrow> u32" where
  "in_addr acc i = mbox_base_pf acc + MBOX_IN_MSG_BASE + 4 * of_nat i"

definition mbox_wire ::
    "'t qdma_hw_access \<Rightarrow> 's hw_dev \<Rightarrow> 's hw_dev \<Rightarrow> u16 \<Rightarrow> ('s \<Rightarrow> nat \<Rightarrow> u32) \<Rightarrow> ('s \<Rightarrow> nat \<Rightarrow> u32) \<Rightarrow> bool" where
  "mbox_wire acc hwv hwp fid outm inm \<longleftrightarrow>
     (\<forall>s i v. i < 32 \<longrightarrow> outm (reg_write hwv (out_addr acc i) v s) = (outm s)(i := v)) \<and>
     (\<forall>s. let s' = reg_write hwv (mbox_base_vf acc + MBOX_FN_CMD) F_MBOX_FN_CMD_SND s in
        inm s' = outm s \<and>
        (\<exists>v. reg_read hwp (mbox_base_pf acc + MBOX_FN_STATUS) s' = (v, s') \<and>
             v AND M_MBOX_FN_STATUS_IN_MSG \<noteq> 0 \<and> G_MBOX_FN_STATUS_SRC v = ucast fid)) \<and>
     (\<forall>s v. inm (reg_write hwp (mbox_base_pf acc + MBOX_FN_TARGET) v s) = inm s) \<and>
     (\<forall>s i. i < 32 \<longrightarrow> reg_read hwp (in_addr acc i) s = (inm s i, s))"

lemma wire_sent:
  assumes "mbox_wire acc hwv hwp fid outm inm"
    and "s' = reg_write hwv (mbox_base_vf acc + MBOX_FN_CMD) F_MBOX_FN_CMD_SND s"
  obtains v where "reg_read hwp (mbox_base_pf acc + MBOX_FN_STATUS) s' = (v, s')"
    and "v AND M_MBOX_FN_STATUS_IN_MSG \<noteq> 0" and "G_MBOX_FN_STATUS_SRC v = ucast fid"
    and "inm s' = outm s"
  using assms unfolding mbox_wire_def Let_def by blast

lemma write_out:
  assumes "mbox_wire acc hwv hwp fid outm inm"
  shows "k + length ws \<le> 32 \<Longrightarrow> i < 32 \<Longrightarrow> outm (write_seq hwv (out_addr acc k) ws s) i =
    (if k \<le> i \<and> i < k + length ws then ws ! (i - k) else outm s i)"
proof (induction ws arbitrary: k s)
  case (Cons w ws)
  have next_: "out_addr acc k + 4 = out_addr acc (Suc k)" by (simp add: out_addr_def)
  have upd: "outm (reg_write hwv (out_addr acc j) w s) = (outm s)(j := w)" if "j < 32" for j
    using assms that by (simp add: mbox_wire_def)
  show ?case using Cons.IH [of "Suc k" "reg_write hwv (out_addr acc k) w s"] Cons.prems
    by (auto simp: next_ upd nth_Cons' Suc_diff_le not_less_eq_eq)
qed auto

lemma read_in:
  assumes "mbox_wire acc hwv hwp fid outm inm"
  shows "k + n \<le> 32 \<Longrightarrow> read_seq hwp (in_addr acc k) n s = (map (inm s) [k ..< k + n], s)"
proof (induction n arbitrary: k)
  case (Suc n)
  have next_: "in_addr acc k + 4 = in_addr acc (Suc k)" by (simp add: in_addr_def)
  have "reg_read hwp (in_addr acc k) s = (inm s k, s)" using assms Suc.prems by (simp add: mbox_wire_def)
  then show ?case
    using Suc.IH [of "Suc k"] Suc.prems upt_conv_Cons [of k "k + Suc n"] by (simp add: next_ del: upt_Suc)
qed simp

text \<open>C31: A message reaches the parent unchanged and with its true sender.  When the outgoing mailbox
  of a virtual function is free, sending succeeds, and the parent that then receives gets the same
  32 words, except that the source in the header is the function the hardware names, whatever the
  sender wrote there.\<close>

theorem mbox_send_rcv:
  assumes wire: "mbox_wire acc hwv hwp fid outm inm" and len: "length raw = 32" and nz: "\<exists>w \<in> set raw. w \<noteq> 0"
    and free: "fst (reg_read hwv (mbox_base_vf acc + MBOX_FN_STATUS) s) AND F_MBOX_FN_STATUS_OUT_MSG = 0"
  shows "\<exists>s1 raw' s2. qdma_mbox_send acc hwv True raw s = (QDMA_SUCCESS, s1) \<and>
    qdma_mbox_rcv acc hwp False buf s1 = (QDMA_SUCCESS, raw', s2) \<and>
    raw_hdr raw' = (raw_hdr raw)\<lparr>src_func_id := fid\<rparr> \<and> tl raw' = tl raw"
proof -
  obtain v0 s0 where r: "reg_read hwv (mbox_base_vf acc + MBOX_FN_STATUS) s = (v0, s0)" by fastforce
  let ?w = "write_seq hwv (out_addr acc 0) raw s0"
  let ?s1 = "reg_write hwv (mbox_base_vf acc + MBOX_FN_CMD) F_MBOX_FN_CMD_SND ?w"
  have send: "qdma_mbox_send acc hwv True raw s = (QDMA_SUCCESS, ?s1)"
    using free r len by (simp add: qdma_mbox_send_def get_mbox_offset_def MBOX_MSG_REG_MAX_def out_addr_def Let_def)
  obtain v where v: "reg_read hwp (mbox_base_pf acc + MBOX_FN_STATUS) ?s1 = (v, ?s1)"
      "v AND M_MBOX_FN_STATUS_IN_MSG \<noteq> 0" "G_MBOX_FN_STATUS_SRC v = ucast fid" and in1: "inm ?s1 = outm ?w"
    using wire_sent [OF wire refl, of ?w] by blast
  let ?s2 = "reg_write hwp (mbox_base_pf acc + MBOX_FN_TARGET) (G_MBOX_FN_STATUS_SRC v) ?s1"
  have in2: "inm ?s2 = outm ?w" using wire in1 by (simp add: mbox_wire_def)
  have "map (inm ?s2) [0 ..< 32] = raw"
    using write_out [OF wire, of 0 raw] len by (intro nth_equalityI) (simp_all add: in2)
  then have rd: "read_seq hwp (mbox_base_pf acc + MBOX_IN_MSG_BASE) MBOX_MSG_REG_MAX ?s2 = (raw, ?s2)"
    using read_in [OF wire, of 0 32 ?s2] by (simp add: in_addr_def MBOX_MSG_REG_MAX_def)
  have "\<not> list_all (\<lambda>w. w = 0) raw" using nz by (auto simp: list_all_iff)
  moreover have "ucast (ucast fid :: u32) = fid" by (rule bit_eqI) (auto simp: bit_ucast_iff)
  ultimately show ?thesis using send rcv_pf [OF v(1,2) rd, of buf] v(3) by auto
qed

text \<open>A mailbox that behaves as assumed: the outgoing and incoming words, and whether a message is
  waiting.\<close>

record wire =
  w_out :: "nat \<Rightarrow> u32"
  w_in :: "nat \<Rightarrow> u32"
  w_full :: bool

definition wire_acc :: "unit qdma_hw_access" where
  "wire_acc = \<lparr>hw_fmap_conf = \<lambda>_ c _ s. (0, c, s), hw_sw_ctx_conf = \<lambda>_ _ c _ s. (0, c, s),
     hw_pfetch_ctx_conf = \<lambda>_ c _ s. (0, c, s), hw_cmpt_ctx_conf = \<lambda>_ c _ s. (0, c, s),
     hw_hw_ctx_conf = \<lambda>_ _ c _ s. (0, c, s), hw_credit_ctx_conf = \<lambda>_ _ c _ s. (0, c, s),
     hw_indirect_intr_ctx_conf = \<lambda>_ c _ s. (0, c, s), hw_global_csr_conf = \<lambda>_ _ v _ _ s. (0, v, s),
     hw_get_device_attributes = \<lambda>s. (attr_zero, s), hw_read_reg_list = \<lambda>_ _ s. (0, 0, [], s),
     mbox_base_pf = 0x2400, mbox_base_vf = 0x1000\<rparr>"

definition word_index :: "u32 \<Rightarrow> nat" where
  "word_index a = unat a div 4"

definition wire_vf :: "wire hw_dev" where
  "wire_vf = \<lparr>reg_read = \<lambda>a s. (0, s),
     reg_write = \<lambda>a v s.
       if a = 0x1000 + MBOX_FN_CMD then s\<lparr>w_in := w_out s, w_full := True\<rparr>
       else s\<lparr>w_out := (w_out s)(word_index (a - (0x1000 + MBOX_OUT_MSG_BASE)) := v)\<rparr>,
     udelay = \<lambda>_ s. s\<rparr>"

definition wire_pf :: "wire hw_dev" where
  "wire_pf = \<lparr>reg_read = \<lambda>a s.
       if a = 0x2400 + MBOX_FN_STATUS then (if w_full s then 0x51 else 0, s)
       else (w_in s (word_index (a - (0x2400 + MBOX_IN_MSG_BASE))), s),
     reg_write = \<lambda>a v s. if a = 0x2400 + MBOX_FN_CMD then s\<lparr>w_full := False\<rparr> else s,
     udelay = \<lambda>_ s. s\<rparr>"

lemma word_index_addr:
  assumes "i < 32"
  shows "word_index (4 * of_nat i) = i"
proof -
  have "unat (4 * of_nat i :: u32) = 4 * i" using assms by (simp add: unat_word_ariths unat_of_nat)
  then show ?thesis by (simp add: word_index_def)
qed

lemma addr_apart:
  assumes "i < 32"
  shows "out_addr wire_acc i \<noteq> 0x1000 + MBOX_FN_CMD" and "in_addr wire_acc i \<noteq> 0x2400 + MBOX_FN_STATUS"
proof -
  have u: "unat (4 * of_nat i :: u32) = 4 * i" using assms by (simp add: unat_word_ariths unat_of_nat)
  have "unat (0x1C00 + 4 * of_nat i :: u32) = 0x1C00 + 4 * i"
    using assms u unat_plus_bounded [of "0x1C00" "4 * of_nat i :: u32"] by simp
  then show "out_addr wire_acc i \<noteq> 0x1000 + MBOX_FN_CMD"
    by (intro notI) (drule arg_cong [of _ _ unat], simp add: out_addr_def wire_acc_def mbox_defs)
  have "unat (0x2C00 + 4 * of_nat i :: u32) = 0x2C00 + 4 * i"
    using assms u unat_plus_bounded [of "0x2C00" "4 * of_nat i :: u32"] by simp
  then show "in_addr wire_acc i \<noteq> 0x2400 + MBOX_FN_STATUS"
    by (intro notI) (drule arg_cong [of _ _ unat], simp add: in_addr_def wire_acc_def mbox_defs)
qed

lemma wire_ok: "mbox_wire wire_acc wire_vf wire_pf 5 w_out w_in"
proof -
  have o: "out_addr wire_acc i - (0x1000 + MBOX_OUT_MSG_BASE) = 4 * of_nat i" 
    and n: "in_addr wire_acc i - (0x2400 + MBOX_IN_MSG_BASE) = 4 * of_nat i" for i
    by (simp_all add: out_addr_def in_addr_def wire_acc_def)
  have b: "mbox_base_vf wire_acc = 0x1000" "mbox_base_pf wire_acc = 0x2400" by (simp_all add: wire_acc_def)
  show ?thesis
    unfolding mbox_wire_def Let_def b
    by (simp add: wire_vf_def wire_pf_def o n addr_apart word_index_addr)
      (simp add: mbox_defs G_MBOX_FN_STATUS_SRC_def)
qed

theorem mbox_send_rcv_witness:
  "\<exists>s1 raw' s2. qdma_mbox_send wire_acc wire_vf True (0x00630004 # replicate 31 7) \<lparr>w_out = \<lambda>_. 0, w_in = \<lambda>_. 0, w_full = False\<rparr>
      = (QDMA_SUCCESS, s1) \<and>
    qdma_mbox_rcv wire_acc wire_pf False (replicate 32 0) s1 = (QDMA_SUCCESS, raw', s2) \<and>
    hdr_op (raw_hdr raw') = 4 \<and> src_func_id (raw_hdr raw') = 5"
proof -
  let ?raw = "0x00630004 # replicate 31 7 :: u32 list"
  let ?s = "\<lparr>w_out = \<lambda>_. 0, w_in = \<lambda>_. 0, w_full = False\<rparr>"
  have "fst (reg_read wire_vf (mbox_base_vf wire_acc + MBOX_FN_STATUS) ?s) AND F_MBOX_FN_STATUS_OUT_MSG = 0"
    by (simp add: wire_vf_def)
  from mbox_send_rcv [OF wire_ok _ _ this, of ?raw "replicate 32 0"] show ?thesis
    by (auto simp: raw_hdr_def)
qed

end
