(* ===== verification/MboxHandler.thy ===== *)
theory MboxHandler
  imports MboxTypes
begin

text \<open>
  The parent side of the mailbox protocol, \<^verbatim>\<open>qdma_mbox_protocol.c\<close>: the composition of queue
  contexts from a message, the context operations on behalf of a virtual function and the message
  handler \<^verbatim>\<open>qdma_mbox_pf_rcv_msg_handler\<close>.  The state is the resource manager of the theory
  ResourceMgmt and the device, which is reached through the table of access functions.
\<close>

unbundle bit_operations_syntax

section \<open>Indices of configured sizes\<close>

text \<open>The first of the sixteen entries of a configuration register array with a given property.\<close>

definition first_idx :: "(u32 \<Rightarrow> bool) \<Rightarrow> u32 list \<Rightarrow> nat option" where
  "first_idx P vals = List.find (\<lambda>i. P (vals ! i)) [0 ..< QDMA_GLOBAL_CSR_ARRAY_SZ]"

definition csr_idx ::
    "'s qdma_hw_access \<Rightarrow> qdma_global_csr_type \<Rightarrow> (u32 \<Rightarrow> bool) \<Rightarrow> int \<Rightarrow> 's \<Rightarrow> int \<times> nat \<times> 's" where
  "csr_idx hw csr_type P err d =
     (case hw_global_csr_conf hw 0 16 (replicate QDMA_GLOBAL_CSR_ARRAY_SZ 0) csr_type
             QDMA_HW_ACCESS_READ d of
        (rv, vals, d) \<Rightarrow>
          if rv \<noteq> 0 then (rv, 0, d)
          else (case first_idx P vals of Some i \<Rightarrow> (QDMA_SUCCESS, i, d) | None \<Rightarrow> (- err, 0, d)))"

definition get_ring_idx :: "'s qdma_hw_access \<Rightarrow> u16 \<Rightarrow> 's \<Rightarrow> int \<times> nat \<times> 's" where
  "get_ring_idx hw ring_sz =
     csr_idx hw QDMA_CSR_RING_SZ (\<lambda>v. ucast ring_sz = v - 1) QDMA_ERR_MBOX_INV_RINGSZ"

definition get_buf_idx :: "'s qdma_hw_access \<Rightarrow> u16 \<Rightarrow> 's \<Rightarrow> int \<times> nat \<times> 's" where
  "get_buf_idx hw buf_sz = csr_idx hw QDMA_CSR_BUF_SZ (\<lambda>v. v = ucast buf_sz) QDMA_ERR_MBOX_INV_BUFSZ"

definition get_cntr_idx :: "'s qdma_hw_access \<Rightarrow> u8 \<Rightarrow> 's \<Rightarrow> int \<times> nat \<times> 's" where
  "get_cntr_idx hw cntr_val =
     csr_idx hw QDMA_CSR_CNT_TH (\<lambda>v. v = ucast cntr_val) QDMA_ERR_MBOX_INV_CNTR_TH"

definition get_tmr_idx :: "'s qdma_hw_access \<Rightarrow> u8 \<Rightarrow> 's \<Rightarrow> int \<times> nat \<times> 's" where
  "get_tmr_idx hw tmr_val =
     csr_idx hw QDMA_CSR_TIMER_CNT (\<lambda>v. v = ucast tmr_val) QDMA_ERR_MBOX_INV_TMR_TH"

section \<open>Composition of contexts\<close>

text \<open>The pointer arguments of these functions are addresses of local variables and never null.\<close>

definition sw_of_conf :: "mbox_msg_qctxt \<Rightarrow> nat \<Rightarrow> qdma_descq_sw_ctxt \<Rightarrow> qdma_descq_sw_ctxt" where
  "sw_of_conf qctxt rng_idx sw =
     (let conf = descq_conf qctxt;
          sw = sw\<lparr>sw_vec := ucast (dc_intr_id conf), sw_intr_aggr := ucast (dc_intr_aggr conf),
                  sw_ring_bs_addr := dc_ring_bs_addr conf, sw_wbi_chk := ucast (dc_wbi_chk conf),
                  sw_wbi_intvl_en := ucast (dc_wbi_intvl_en conf), sw_rngsz_idx := of_nat rng_idx,
                  sw_bypass := ucast (dc_en_bypass conf), sw_wbk_en := ucast (dc_wbk_en conf),
                  sw_irq_en := ucast (dc_irq_en conf), sw_is_mm := NOT (ucast (qc_st qctxt)),
                  sw_mm_chn := 0, sw_qen := 1, sw_frcd_en := ucast (dc_forced_en conf),
                  sw_desc_sz := ucast (dc_desc_sz conf), sw_fnc_id := ucast (dc_func_id conf),
                  sw_irq_arm := ucast (dc_irq_arm conf)\<rparr>
      in if qc_st qctxt \<noteq> 0 \<and> qc_c2h qctxt \<noteq> 0
         then sw\<lparr>sw_irq_en := 0, sw_irq_arm := 0, sw_wbk_en := 0, sw_wbi_chk := 0\<rparr> else sw)"

definition mbox_compose_sw_context ::
    "'s qdma_hw_access \<Rightarrow> mbox_msg_qctxt \<Rightarrow> qdma_descq_sw_ctxt \<Rightarrow> 's \<Rightarrow>
       int \<times> qdma_descq_sw_ctxt \<times> 's" where
  "mbox_compose_sw_context hw qctxt sw d =
     (case get_ring_idx hw (dc_ringsz (descq_conf qctxt)) d of
        (rv, rng_idx, d) \<Rightarrow>
          if rv < 0 then (rv, sw, d) else (QDMA_SUCCESS, sw_of_conf qctxt rng_idx sw, d))"

definition pf_of_conf :: "mbox_descq_conf \<Rightarrow> nat \<Rightarrow> qdma_descq_prefetch_ctxt \<Rightarrow> qdma_descq_prefetch_ctxt" where
  "pf_of_conf conf buf_idx pf =
     pf\<lparr>pf_valid := 1, pf_bypass := ucast (dc_en_bypass_prefetch conf),
        pf_bufsz_idx := of_nat buf_idx, pf_pfch_en := ucast (dc_pfch_en conf)\<rparr>"

definition mbox_compose_prefetch_context ::
    "'s qdma_hw_access \<Rightarrow> mbox_msg_qctxt \<Rightarrow> qdma_descq_prefetch_ctxt \<Rightarrow> 's \<Rightarrow>
       int \<times> qdma_descq_prefetch_ctxt \<times> 's" where
  "mbox_compose_prefetch_context hw qctxt pf d =
     (let conf = descq_conf qctxt in
      case get_buf_idx hw (dc_bufsz conf) d of
        (rv, buf_idx, d) \<Rightarrow>
          if rv < 0 then (rv, pf, d)
          else (QDMA_SUCCESS, pf_of_conf conf buf_idx pf, d))"

definition cm_of_conf ::
    "mbox_descq_conf \<Rightarrow> nat \<Rightarrow> nat \<Rightarrow> nat \<Rightarrow> qdma_descq_cmpt_ctxt \<Rightarrow> qdma_descq_cmpt_ctxt" where
  "cm_of_conf conf cntr_idx tmr_idx rng_idx cm =
     cm\<lparr>cm_bs_addr := dc_cmpt_ring_bs_addr conf, cm_en_stat_desc := ucast (dc_cmpl_stat_en conf),
        cm_en_int := ucast (dc_cmpt_int_en conf), cm_trig_mode := ucast (dc_triggermode conf),
        cm_fnc_id := ucast (dc_func_id conf), cm_timer_idx := of_nat tmr_idx,
        cm_counter_idx := of_nat cntr_idx, cm_color := 1, cm_ringsz_idx := of_nat rng_idx,
        cm_desc_sz := ucast (dc_cmpt_desc_sz conf), cm_valid := 1,
        cm_ovf_chk_dis := ucast (dc_dis_overflow_check conf), cm_vec := ucast (dc_intr_id conf),
        cm_int_aggr := ucast (dc_intr_aggr conf)\<rparr>"

definition mbox_compose_cmpt_context ::
    "'s qdma_hw_access \<Rightarrow> mbox_msg_qctxt \<Rightarrow> qdma_descq_cmpt_ctxt \<Rightarrow> 's \<Rightarrow>
       int \<times> qdma_descq_cmpt_ctxt \<times> 's" where
  "mbox_compose_cmpt_context hw qctxt cm d =
     (let conf = descq_conf qctxt in
      case get_cntr_idx hw (dc_cnt_thres conf) d of (rv, cntr_idx, d) \<Rightarrow>
      if rv < 0 then (rv, cm, d) else
      case get_tmr_idx hw (dc_timer_thres conf) d of (rv, tmr_idx, d) \<Rightarrow>
      if rv < 0 then (rv, cm, d) else
      case get_ring_idx hw (dc_cmpt_ringsz conf) d of (rv, rng_idx, d) \<Rightarrow>
      if rv < 0 then (rv, cm, d) else
        (QDMA_SUCCESS, cm_of_conf conf cntr_idx tmr_idx rng_idx cm, d))"

section \<open>Operations on the contexts of a queue\<close>

text \<open>The chain of calls with an early return on a negative result.\<close>

definition and_then :: "int \<times> 's \<Rightarrow> ('s \<Rightarrow> int \<times> 's) \<Rightarrow> int \<times> 's" where
  "and_then r k = (if fst r < 0 then r else k (snd r))"

definition no_ctxt :: "int \<times> 'c \<times> 's \<Rightarrow> int \<times> 's" where
  "no_ctxt r = (fst r, snd (snd r))"

definition with_cmpt :: "mbox_cmpt_ctxt_type \<Rightarrow> bool" where
  "with_cmpt t \<longleftrightarrow> t = QDMA_MBOX_CMPT_WITH_MM \<or> t = QDMA_MBOX_CMPT_WITH_ST"

text \<open>\<^verbatim>\<open>mbox_clear_queue_contexts\<close> and \<^verbatim>\<open>mbox_invalidate_queue_contexts\<close> differ in the access type
  only.  When the queue is out of range they return the result of the preceding successful
  call.\<close>

definition erase_queue_contexts ::
    "qdma_hw_access_type \<Rightarrow> 's qdma_hw_access \<Rightarrow> rm_state \<Rightarrow> u8 \<Rightarrow> u16 \<Rightarrow> u16 \<Rightarrow> u8 \<Rightarrow> u8 \<Rightarrow>
       mbox_cmpt_ctxt_type \<Rightarrow> 's \<Rightarrow> int \<times> 's" where
  "erase_queue_contexts access hw rm idx func_id qid_hw st c2h cmpt_type d =
     (if cmpt_type = QDMA_MBOX_CMPT_CTXT_ONLY then
        and_then (no_ctxt (hw_cmpt_ctx_conf hw qid_hw None access d)) (\<lambda>d. (QDMA_SUCCESS, d))
      else
        let rv = fst (qdma_dev_qinfo_get (ucast idx) func_id rm) in
        if rv < 0 then (rv, d)
        else if qdma_dev_is_queue_in_range (ucast idx) func_id (ucast qid_hw) rm \<noteq> QDMA_DEV_Q_IN_RANGE
        then (rv, d)
        else
          and_then (no_ctxt (hw_sw_ctx_conf hw c2h qid_hw None access d)) (\<lambda>d.
          and_then (no_ctxt (hw_hw_ctx_conf hw c2h qid_hw None access d)) (\<lambda>d.
          and_then (no_ctxt (hw_credit_ctx_conf hw c2h qid_hw None access d)) (\<lambda>d.
          and_then (if st \<noteq> 0 \<and> c2h \<noteq> 0 then no_ctxt (hw_pfetch_ctx_conf hw qid_hw None access d)
                    else (QDMA_SUCCESS, d)) (\<lambda>d.
          and_then (if with_cmpt cmpt_type then no_ctxt (hw_cmpt_ctx_conf hw qid_hw None access d)
                    else (QDMA_SUCCESS, d)) (\<lambda>d.
          (QDMA_SUCCESS, d)))))))"

definition mbox_clear_queue_contexts ::
    "'s qdma_hw_access \<Rightarrow> rm_state \<Rightarrow> u8 \<Rightarrow> u16 \<Rightarrow> u16 \<Rightarrow> u8 \<Rightarrow> u8 \<Rightarrow> mbox_cmpt_ctxt_type \<Rightarrow> 's \<Rightarrow>
       int \<times> 's" where
  "mbox_clear_queue_contexts = erase_queue_contexts QDMA_HW_ACCESS_CLEAR"

definition mbox_invalidate_queue_contexts ::
    "'s qdma_hw_access \<Rightarrow> rm_state \<Rightarrow> u8 \<Rightarrow> u16 \<Rightarrow> u16 \<Rightarrow> u8 \<Rightarrow> u8 \<Rightarrow> mbox_cmpt_ctxt_type \<Rightarrow> 's \<Rightarrow>
       int \<times> 's" where
  "mbox_invalidate_queue_contexts = erase_queue_contexts QDMA_HW_ACCESS_INVALIDATE"

definition write_cmpt_only ::
    "'s qdma_hw_access \<Rightarrow> mbox_msg_qctxt \<Rightarrow> 's \<Rightarrow> int \<times> 's" where
  "write_cmpt_only hw qctxt d =
     (case mbox_compose_cmpt_context hw qctxt cm_zero d of
        (rv, cm, d) \<Rightarrow>
          if rv < 0 then (rv, d)
          else
            and_then (no_ctxt (hw_cmpt_ctx_conf hw (qc_qid_hw qctxt) None QDMA_HW_ACCESS_CLEAR d)) (\<lambda>d.
            and_then (no_ctxt (hw_cmpt_ctx_conf hw (qc_qid_hw qctxt) (Some cm) QDMA_HW_ACCESS_WRITE d))
              (\<lambda>d. (QDMA_SUCCESS, d))))"

definition write_queue_ctxts ::
    "'s qdma_hw_access \<Rightarrow> rm_state \<Rightarrow> u8 \<Rightarrow> mbox_msg_qctxt \<Rightarrow> 's \<Rightarrow> int \<times> 's" where
  "write_queue_ctxts hw rm idx qctxt d =
     (let qid_hw = qc_qid_hw qctxt; st_c2h = (qc_st qctxt \<noteq> 0 \<and> qc_c2h qctxt \<noteq> 0);
          cmpt = with_cmpt (cmpt_ctxt_type qctxt) in
      case mbox_compose_sw_context hw qctxt sw_zero d of (rv, sw, d) \<Rightarrow>
      if rv < 0 then (rv, d) else
      case (if st_c2h then mbox_compose_prefetch_context hw qctxt pf_zero d
            else (QDMA_SUCCESS, pf_zero, d)) of (rv, pf, d) \<Rightarrow>
      if rv < 0 then (rv, d) else
      case (if cmpt then mbox_compose_cmpt_context hw qctxt cm_zero d
            else (QDMA_SUCCESS, cm_zero, d)) of (rv, cm, d) \<Rightarrow>
      if rv < 0 then (rv, d) else
        and_then (mbox_clear_queue_contexts hw rm idx (dc_func_id (descq_conf qctxt)) qid_hw
                    (ucast (qc_st qctxt)) (ucast (qc_c2h qctxt)) (cmpt_ctxt_type qctxt) d) (\<lambda>d.
        and_then (no_ctxt (hw_sw_ctx_conf hw (ucast (qc_c2h qctxt)) qid_hw (Some sw)
                    QDMA_HW_ACCESS_WRITE d)) (\<lambda>d.
        and_then (if st_c2h then no_ctxt (hw_pfetch_ctx_conf hw qid_hw (Some pf) QDMA_HW_ACCESS_WRITE d)
                  else (QDMA_SUCCESS, d)) (\<lambda>d.
        and_then (if cmpt then no_ctxt (hw_cmpt_ctx_conf hw qid_hw (Some cm) QDMA_HW_ACCESS_WRITE d)
                  else (QDMA_SUCCESS, d)) (\<lambda>d.
        (QDMA_SUCCESS, d))))))"

definition mbox_write_queue_contexts ::
    "'s qdma_hw_access \<Rightarrow> rm_state \<Rightarrow> u8 \<Rightarrow> mbox_msg_qctxt \<Rightarrow> 's \<Rightarrow> int \<times> 's" where
  "mbox_write_queue_contexts hw rm idx qctxt d =
     (let func_id = dc_func_id (descq_conf qctxt);
          rv = fst (qdma_dev_qinfo_get (ucast idx) func_id rm) in
      if rv < 0 then (rv, d)
      else if qdma_dev_is_queue_in_range (ucast idx) func_id (ucast (qc_qid_hw qctxt)) rm
                \<noteq> QDMA_DEV_Q_IN_RANGE then (rv, d)
      else if cmpt_ctxt_type qctxt = QDMA_MBOX_CMPT_CTXT_ONLY then write_cmpt_only hw qctxt d
      else write_queue_ctxts hw rm idx qctxt d)"

text \<open>A read stores the context it got, also when a later one fails.\<close>

definition read_step ::
    "int \<times> 'c option \<times> 's \<Rightarrow> ('c \<Rightarrow> 'd \<Rightarrow> 'd) \<Rightarrow> 'd \<Rightarrow> ('d \<Rightarrow> 's \<Rightarrow> int \<times> 'd \<times> 's) \<Rightarrow> int \<times> 'd \<times> 's" where
  "read_step r upd ctxt k =
     (case r of (rv, c, d) \<Rightarrow>
        let ctxt = (case c of Some c \<Rightarrow> upd c ctxt | None \<Rightarrow> ctxt)
        in if rv < 0 then (rv, ctxt, d) else k ctxt d)"

definition mbox_read_queue_contexts ::
    "'s qdma_hw_access \<Rightarrow> u16 \<Rightarrow> u16 \<Rightarrow> u8 \<Rightarrow> u8 \<Rightarrow> mbox_cmpt_ctxt_type \<Rightarrow> qdma_descq_context \<Rightarrow> 's \<Rightarrow>
       int \<times> qdma_descq_context \<times> 's" where
  "mbox_read_queue_contexts hw func_id qid_hw st c2h cmpt_type ctxt d =
     read_step (hw_sw_ctx_conf hw c2h qid_hw (Some (sw_ctxt ctxt)) QDMA_HW_ACCESS_READ d)
       (\<lambda>c t. t\<lparr>sw_ctxt := c\<rparr>) ctxt (\<lambda>ctxt d.
     read_step (hw_hw_ctx_conf hw c2h qid_hw (Some (hw_ctxt ctxt)) QDMA_HW_ACCESS_READ d)
       (\<lambda>c t. t\<lparr>hw_ctxt := c\<rparr>) ctxt (\<lambda>ctxt d.
     read_step (hw_credit_ctx_conf hw c2h qid_hw (Some (cr_ctxt ctxt)) QDMA_HW_ACCESS_READ d)
       (\<lambda>c t. t\<lparr>cr_ctxt := c\<rparr>) ctxt (\<lambda>ctxt d.
     read_step (hw_fmap_conf hw func_id (Some (fmap ctxt)) QDMA_HW_ACCESS_READ d)
       (\<lambda>c t. t\<lparr>fmap := c\<rparr>) ctxt (\<lambda>ctxt d.
     read_step (if st \<noteq> 0 \<and> c2h \<noteq> 0
                then hw_pfetch_ctx_conf hw qid_hw (Some (pfetch_ctxt ctxt)) QDMA_HW_ACCESS_READ d
                else (QDMA_SUCCESS, None, d))
       (\<lambda>c t. t\<lparr>pfetch_ctxt := c\<rparr>) ctxt (\<lambda>ctxt d.
     read_step (if with_cmpt cmpt_type
                then hw_cmpt_ctx_conf hw qid_hw (Some (cmpt_ctxt ctxt)) QDMA_HW_ACCESS_READ d
                else (QDMA_SUCCESS, None, d))
       (\<lambda>c t. t\<lparr>cmpt_ctxt := c\<rparr>) ctxt (\<lambda>ctxt d.
     (QDMA_SUCCESS, ctxt, d)))))))"

section \<open>The message handler of the parent\<close>

definition set_status :: "int \<Rightarrow> qdma_mbox_txrx \<Rightarrow> qdma_mbox_txrx" where
  "set_status rv m = m\<lparr>hdr := (hdr m)\<lparr>hdr_status := of_int rv\<rparr>\<rparr>"

text \<open>The cases of the switch.  Each gives the value of \<^verbatim>\<open>rv\<close>, the response, the resource manager
  and the device at the end of the case.\<close>

definition op_vf_bye ::
    "'s qdma_hw_access \<Rightarrow> u8 \<Rightarrow> qdma_mbox_txrx \<Rightarrow> rm_state \<Rightarrow> 's \<Rightarrow> int \<times> rm_state \<times> 's" where
  "op_vf_bye hw idx rcv rm d =
     (let src = src_func_id (hdr rcv);
          (rv, d) = no_ctxt (hw_fmap_conf hw src (Some fmap_zero) QDMA_HW_ACCESS_WRITE d)
      in (rv, qdma_dev_entry_destroy (ucast idx) src rm, d))"

definition op_hello ::
    "'s qdma_hw_access \<Rightarrow> u8 \<Rightarrow> qdma_mbox_txrx \<Rightarrow> qdma_mbox_txrx \<Rightarrow> rm_state \<Rightarrow> 's \<Rightarrow>
       int \<times> qdma_mbox_txrx \<times> rm_state \<times> 's" where
  "op_hello hw idx rcv resp rm d =
     (let src = src_func_id (hdr rcv);
          (rv, info) = qdma_dev_qinfo_get (ucast idx) src rm;
          (qbase, qmax) = (case info of Some i \<Rightarrow> i | None \<Rightarrow> (m_qbase rcv, m_qmax rcv));
          (rv, rm) = (if rv < 0 then qdma_dev_entry_create (ucast idx) src rm else (rv, rm));
          (resp, d) =
            (if rv = 0 then
               let (attr, d) = hw_get_device_attributes hw d
               in (resp\<lparr>m_qbase := qbase, m_qmax := qmax, hello_dma_device_index := ucast idx,
                        hello_dev_cap := attr\<rparr>, d)
             else (resp, d));
          (_, d) = no_ctxt (hw_fmap_conf hw src (Some fmap_zero) QDMA_HW_ACCESS_WRITE d)
      in (rv, resp, rm, d))"

definition op_fmap :: "'s qdma_hw_access \<Rightarrow> qdma_mbox_txrx \<Rightarrow> 's \<Rightarrow> int \<times> 's" where
  "op_fmap hw rcv d =
     no_ctxt (hw_fmap_conf hw (src_func_id (hdr rcv))
       (Some \<lparr>fmap_qbase = ucast (m_qbase rcv), fmap_qmax = ucast (m_qmax rcv)\<rparr>)
       QDMA_HW_ACCESS_WRITE d)"

definition csr_array ::
    "'s qdma_hw_access \<Rightarrow> qdma_global_csr_type \<Rightarrow> 's \<Rightarrow> int \<times> u32 list \<times> 's" where
  "csr_array hw csr_type d =
     hw_global_csr_conf hw 0 16 (replicate QDMA_GLOBAL_CSR_ARRAY_SZ 0) csr_type QDMA_HW_ACCESS_READ d"

definition csr_failed :: "int \<Rightarrow> bool" where
  "csr_failed rv \<longleftrightarrow> rv < 0 \<and> rv \<noteq> - QDMA_ERR_HWACC_FEATURE_NOT_SUPPORTED"

definition op_csr ::
    "'s qdma_hw_access \<Rightarrow> qdma_mbox_txrx \<Rightarrow> 's \<Rightarrow> int \<times> qdma_mbox_txrx \<times> 's" where
  "op_csr hw resp d =
     (let zeros = replicate QDMA_GLOBAL_CSR_ARRAY_SZ 0 in
      case csr_array hw QDMA_CSR_RING_SZ d of (rv, ringsz, d) \<Rightarrow>
      if rv < 0 then (rv, resp, d) else
      case hw_get_device_attributes hw d of (cap, d) \<Rightarrow>
      case (if st_en cap \<noteq> 0 then csr_array hw QDMA_CSR_BUF_SZ d else (rv, zeros, d)) of (rv, bufsz, d) \<Rightarrow>
      if st_en cap \<noteq> 0 \<and> csr_failed rv then (rv, resp, d) else
      case (if st_en cap \<noteq> 0 \<or> mm_cmpt_en cap \<noteq> 0 then csr_array hw QDMA_CSR_TIMER_CNT d
            else (rv, zeros, d)) of (rv, tmr_th, d) \<Rightarrow>
      if (st_en cap \<noteq> 0 \<or> mm_cmpt_en cap \<noteq> 0) \<and> csr_failed rv then (rv, resp, d) else
      case (if st_en cap \<noteq> 0 \<or> mm_cmpt_en cap \<noteq> 0 then csr_array hw QDMA_CSR_CNT_TH d
            else (rv, zeros, d)) of (rv, cntr_th, d) \<Rightarrow>
      if (st_en cap \<noteq> 0 \<or> mm_cmpt_en cap \<noteq> 0) \<and> csr_failed rv then (rv, resp, d) else
        let info = (m_csr_info resp)\<lparr>csr_ringsz := map ucast (take QDMA_GLOBAL_CSR_ARRAY_SZ ringsz)\<rparr>;
            info = (if rv = 0 then
                      info\<lparr>csr_bufsz := map ucast (take QDMA_GLOBAL_CSR_ARRAY_SZ bufsz),
                           csr_timer_cnt := map ucast (take QDMA_GLOBAL_CSR_ARRAY_SZ tmr_th),
                           csr_cnt_thres := map ucast (take QDMA_GLOBAL_CSR_ARRAY_SZ cntr_th)\<rparr>
                    else info)
        in (if rv = - QDMA_ERR_HWACC_FEATURE_NOT_SUPPORTED then QDMA_SUCCESS else rv,
            resp\<lparr>m_csr_info := info\<rparr>, d))"

definition op_qreq ::
    "'s qdma_hw_access \<Rightarrow> u8 \<Rightarrow> qdma_mbox_txrx \<Rightarrow> qdma_mbox_txrx \<Rightarrow> rm_state \<Rightarrow> 's \<Rightarrow>
       int \<times> qdma_mbox_txrx \<times> rm_state \<times> 's" where
  "op_qreq hw idx rcv resp rm d =
     (let src = src_func_id (hdr rcv);
          (rv, _, rm) = qdma_dev_update (ucast idx) src (m_qmax rcv) (m_qbase rcv) rm;
          (rv, info) = (if rv = 0 then qdma_dev_qinfo_get (ucast idx) src rm else (rv, None));
          resp = (case info of Some (qbase, qmax) \<Rightarrow> resp\<lparr>m_qbase := qbase, m_qmax := qmax\<rparr> | None \<Rightarrow> resp)
      in if rv < 0 then (- QDMA_ERR_MBOX_NUM_QUEUES, resp, rm, d)
         else (rv, resp, rm,
               snd (no_ctxt (hw_fmap_conf hw src (Some fmap_zero) QDMA_HW_ACCESS_WRITE d))))"

definition op_qnotify ::
    "(u32 \<Rightarrow> u16 \<Rightarrow> u32 \<Rightarrow> rm_state \<Rightarrow> int \<times> rm_state) \<Rightarrow> u8 \<Rightarrow> qdma_mbox_txrx \<Rightarrow> rm_state \<Rightarrow>
       int \<times> rm_state" where
  "op_qnotify count idx rcv rm =
     (let src = src_func_id (hdr rcv) in
      if qdma_dev_is_queue_in_range (ucast idx) src (ucast (qn_qid_hw rcv)) rm \<noteq> QDMA_DEV_Q_IN_RANGE
      then (- QDMA_ERR_MBOX_INV_QID, rm)
      else count (ucast idx) src (qn_q_type rcv) rm)"

definition op_get_qactive_cnt ::
    "u8 \<Rightarrow> qdma_mbox_txrx \<Rightarrow> qdma_mbox_txrx \<Rightarrow> rm_state \<Rightarrow> int \<times> qdma_mbox_txrx" where
  "op_get_qactive_cnt idx rcv resp rm =
     (let src = src_func_id (hdr rcv);
          h2c = qdma_get_device_active_queue_count (ucast idx) src QDMA_DEV_Q_TYPE_H2C rm;
          c2h = qdma_get_device_active_queue_count (ucast idx) src QDMA_DEV_Q_TYPE_C2H rm;
          cmpt = qdma_get_device_active_queue_count (ucast idx) src QDMA_DEV_Q_TYPE_CMPT rm
      in (cmpt, resp\<lparr>h2c_queues := of_int h2c, c2h_queues := of_int c2h, cmpt_queues := of_int cmpt\<rparr>))"

text \<open>The loops over interrupt rings.  The arrays of the message are declared with one element; C leaves an access with a
  larger index undefined, also where the bytes of the second element would still be inside the message buffer, and so
  does the model.\<close>

fun ring_loop ::
    "(nat \<Rightarrow> int \<times> qdma_mbox_txrx \<times> 's \<Rightarrow> int \<times> qdma_mbox_txrx \<times> 's) \<Rightarrow> nat \<Rightarrow> nat list \<Rightarrow>
       int \<times> qdma_mbox_txrx \<times> 's \<Rightarrow> (int \<times> qdma_mbox_txrx \<times> 's) option" where
  "ring_loop body len [] s = Some s"
| "ring_loop body len (i # is) s = (if i < len then ring_loop body len is (body i s) else None)"

definition status_if_failed :: "int \<Rightarrow> qdma_mbox_txrx \<Rightarrow> qdma_mbox_txrx" where
  "status_if_failed rv resp = (if rv < 0 then set_status rv resp else resp)"

definition intr_wrt_body ::
    "'s qdma_hw_access \<Rightarrow> mbox_msg_intr_ctxt \<Rightarrow> nat \<Rightarrow> int \<times> qdma_mbox_txrx \<times> 's \<Rightarrow>
       int \<times> qdma_mbox_txrx \<times> 's" where
  "intr_wrt_body hw ic i s =
     (case s of (_, resp, d) \<Rightarrow>
        let ring = ucast (ring_index_list ic ! i);
            (rv, d) = no_ctxt (hw_indirect_intr_ctx_conf hw ring None QDMA_HW_ACCESS_CLEAR d);
            resp = status_if_failed rv resp;
            (rv, d) = no_ctxt (hw_indirect_intr_ctx_conf hw ring (Some (ictxt ic ! i)) QDMA_HW_ACCESS_WRITE d)
        in (rv, status_if_failed rv resp, d))"

definition intr_rd_body ::
    "'s qdma_hw_access \<Rightarrow> mbox_msg_intr_ctxt \<Rightarrow> nat \<Rightarrow> int \<times> qdma_mbox_txrx \<times> 's \<Rightarrow>
       int \<times> qdma_mbox_txrx \<times> 's" where
  "intr_rd_body hw ic i s =
     (case s of (_, resp, d) \<Rightarrow>
        let ring = ucast (ring_index_list ic ! i);
            (rv, c, d) = hw_indirect_intr_ctx_conf hw ring (Some (ictxt (m_intr_ctxt resp) ! i))
                           QDMA_HW_ACCESS_READ d;
            resp = (case c of Some c \<Rightarrow> resp\<lparr>m_intr_ctxt := (m_intr_ctxt resp)
                                \<lparr>ictxt := (ictxt (m_intr_ctxt resp))[i := c]\<rparr>\<rparr> | None \<Rightarrow> resp)
        in (rv, status_if_failed rv resp, d))"

definition intr_erase_body ::
    "qdma_hw_access_type \<Rightarrow> 's qdma_hw_access \<Rightarrow> mbox_msg_intr_ctxt \<Rightarrow> nat \<Rightarrow> int \<times> qdma_mbox_txrx \<times> 's \<Rightarrow>
       int \<times> qdma_mbox_txrx \<times> 's" where
  "intr_erase_body access hw ic i s =
     (case s of (_, resp, d) \<Rightarrow>
        let (rv, d) = no_ctxt (hw_indirect_intr_ctx_conf hw (ucast (ring_index_list ic ! i)) None access d)
        in (rv, status_if_failed rv resp, d))"

definition op_intr ::
    "(mbox_msg_intr_ctxt \<Rightarrow> nat \<Rightarrow> int \<times> qdma_mbox_txrx \<times> 's \<Rightarrow> int \<times> qdma_mbox_txrx \<times> 's) \<Rightarrow>
       qdma_mbox_txrx \<Rightarrow> qdma_mbox_txrx \<Rightarrow> 's \<Rightarrow> (int \<times> qdma_mbox_txrx \<times> 's) option" where
  "op_intr body rcv resp d =
     (let ic = m_intr_ctxt rcv
      in ring_loop (body ic) QDMA_NUM_DATA_VEC_FOR_INTR_CXT [0 ..< unat (num_rings ic)]
           (QDMA_SUCCESS, resp, d))"

definition op_reg_list_read ::
    "'s qdma_hw_access \<Rightarrow> qdma_mbox_txrx \<Rightarrow> qdma_mbox_txrx \<Rightarrow> 's \<Rightarrow> int \<times> qdma_mbox_txrx \<times> 's" where
  "op_reg_list_read hw rcv resp d =
     (case hw_read_reg_list hw 1 (group_num rcv) d of (rv, n, regs, d) \<Rightarrow>
        let resp = resp\<lparr>num_regs := n, reg_list := regs\<rparr>
        in (if rv < 0 \<or> n = 0 then - QDMA_ERR_MBOX_REG_READ_FAILED else rv, resp, d))"

text \<open>The label \<^verbatim>\<open>exit_func\<close>.\<close>

definition finish ::
    "u16 \<Rightarrow> qdma_mbox_txrx \<Rightarrow> int \<Rightarrow> int \<times> qdma_mbox_txrx \<times> rm_state \<times> 's \<Rightarrow>
       (int \<times> qdma_mbox_txrx \<times> rm_state \<times> 's) option" where
  "finish func_id rcv ret res =
     (case res of (rv, resp, rm, d) \<Rightarrow>
        Some (ret, resp\<lparr>hdr := \<lparr>hdr_op = hdr_op (hdr rcv) + MBOX_MSG_OP_RSP_OFFSET,
                               hdr_status = of_int rv, src_func_id = func_id,
                               dst_func_id = src_func_id (hdr rcv)\<rparr>\<rparr>, rm, d))"

definition qdma_mbox_pf_rcv_msg_handler ::
    "'s qdma_hw_access \<Rightarrow> u8 \<Rightarrow> u16 \<Rightarrow> qdma_mbox_txrx option \<Rightarrow> qdma_mbox_txrx \<Rightarrow> rm_state \<Rightarrow> 's \<Rightarrow>
       (int \<times> qdma_mbox_txrx \<times> rm_state \<times> 's) option" where
  "qdma_mbox_pf_rcv_msg_handler hw idx func_id rcv_msg resp rm d =
     (case rcv_msg of None \<Rightarrow> Some (- QDMA_ERR_INV_PARAM, resp, rm, d)
      | Some rcv \<Rightarrow>
        let op = hdr_op (hdr rcv); src = src_func_id (hdr rcv); q = m_qctxt rcv;
            fin = finish func_id rcv;
            intr = (\<lambda>body. case op_intr body rcv resp d of None \<Rightarrow> None
                     | Some (rv, resp, d) \<Rightarrow> fin 0 (rv, resp, rm, d))
        in
        if op = MBOX_OP_VF_BYE then
          (case op_vf_bye hw idx rcv rm d of (rv, rm, d) \<Rightarrow> fin QDMA_MBOX_VF_OFFLINE (rv, resp, rm, d))
        else if op = MBOX_OP_PF_RESET_VF_BYE then
          (case op_vf_bye hw idx rcv rm d of (rv, rm, d) \<Rightarrow> fin QDMA_MBOX_VF_RESET_BYE (rv, resp, rm, d))
        else if op = MBOX_OP_HELLO then fin QDMA_MBOX_VF_ONLINE (op_hello hw idx rcv resp rm d)
        else if op = MBOX_OP_FMAP then
          (case op_fmap hw rcv d of (rv, d) \<Rightarrow>
             if rv < 0 then Some (rv, resp, rm, d) else fin 0 (rv, resp, rm, d))
        else if op = MBOX_OP_CSR then
          (case op_csr hw resp d of (rv, resp, d) \<Rightarrow> fin 0 (rv, resp, rm, d))
        else if op = MBOX_OP_QREQ then fin 0 (op_qreq hw idx rcv resp rm d)
        else if op = MBOX_OP_QNOTIFY_ADD then
          (case op_qnotify qdma_dev_increment_active_queue idx rcv rm of (rv, rm) \<Rightarrow> fin 0 (rv, resp, rm, d))
        else if op = MBOX_OP_QNOTIFY_DEL then
          (case op_qnotify qdma_dev_decrement_active_queue idx rcv rm of (rv, rm) \<Rightarrow> fin 0 (rv, resp, rm, d))
        else if op = MBOX_OP_GET_QACTIVE_CNT then
          (case op_get_qactive_cnt idx rcv resp rm of (rv, resp) \<Rightarrow> fin 0 (rv, resp, rm, d))
        else if op = MBOX_OP_INTR_CTXT_WRT then intr (intr_wrt_body hw)
        else if op = MBOX_OP_INTR_CTXT_RD then intr (intr_rd_body hw)
        else if op = MBOX_OP_INTR_CTXT_CLR then intr (intr_erase_body QDMA_HW_ACCESS_CLEAR hw)
        else if op = MBOX_OP_INTR_CTXT_INV then intr (intr_erase_body QDMA_HW_ACCESS_INVALIDATE hw)
        else if op = MBOX_OP_QCTXT_INV then
          (case mbox_invalidate_queue_contexts hw rm idx src (qc_qid_hw q) (ucast (qc_st q))
                  (ucast (qc_c2h q)) (cmpt_ctxt_type q) d of (rv, d) \<Rightarrow> fin 0 (rv, resp, rm, d))
        else if op = MBOX_OP_QCTXT_CLR then
          (case mbox_clear_queue_contexts hw rm idx src (qc_qid_hw q) (ucast (qc_st q))
                  (ucast (qc_c2h q)) (cmpt_ctxt_type q) d of (rv, d) \<Rightarrow> fin 0 (rv, resp, rm, d))
        else if op = MBOX_OP_QCTXT_RD then
          (case mbox_read_queue_contexts hw src (qc_qid_hw q) (ucast (qc_st q)) (ucast (qc_c2h q))
                  (cmpt_ctxt_type q) (descq_ctxt (m_qctxt resp)) d of (rv, ctxt, d) \<Rightarrow>
             fin 0 (rv, resp\<lparr>m_qctxt := (m_qctxt resp)\<lparr>descq_ctxt := ctxt\<rparr>\<rparr>, rm, d))
        else if op = MBOX_OP_QCTXT_WRT then
          (case mbox_write_queue_contexts hw rm idx
                  (q\<lparr>descq_conf := (descq_conf q)\<lparr>dc_func_id := src\<rparr>\<rparr>) d of (rv, d) \<Rightarrow>
             fin 0 (rv, resp, rm, d))
        else if op = MBOX_OP_RESET_PREPARE_RESP then Some (QDMA_MBOX_VF_RESET, resp, rm, d)
        else if op = MBOX_OP_RESET_DONE_RESP then Some (QDMA_MBOX_PF_RESET_DONE, resp, rm, d)
        else if op = MBOX_OP_REG_LIST_READ then
          (case op_reg_list_read hw rcv resp d of (rv, resp, d) \<Rightarrow> fin 0 (rv, resp, rm, d))
        else if op = MBOX_OP_PF_BYE_RESP then Some (QDMA_MBOX_PF_BYE, resp, rm, d)
        else Some (- QDMA_ERR_MBOX_INV_MSG, resp, rm, d))"

end
