(* ===== verification/MboxCompose.thy ===== *)
theory MboxCompose
  imports MboxTypes
begin

text \<open>
  The requesting side of the mailbox protocol: the functions that compose a message, the functions
  that read a response, and the handler of a virtual function for the messages of its parent
  (\<^verbatim>\<open>qdma_mbox_compose_*\<close>, \<^verbatim>\<open>qdma_mbox_vf_*\<close> of \<^verbatim>\<open>qdma_mbox_protocol.c\<close>).  A buffer is an
  optional message, \<open>None\<close> being the null pointer that the composing functions reject.
\<close>

section \<open>Composing messages\<close>

text \<open>Every composing function rejects a null buffer, fills the message with zeros and then sets
  some members.\<close>

definition compose ::
    "(qdma_mbox_txrx \<Rightarrow> qdma_mbox_txrx) \<Rightarrow> qdma_mbox_txrx option \<Rightarrow> int \<times> qdma_mbox_txrx option" where
  "compose fill raw_data =
     (case raw_data of None \<Rightarrow> (- QDMA_ERR_INV_PARAM, None)
      | Some _ \<Rightarrow> (QDMA_SUCCESS, Some (fill msg_zero)))"

definition put_hdr :: "u8 \<Rightarrow> u16 \<Rightarrow> u16 \<Rightarrow> qdma_mbox_txrx \<Rightarrow> qdma_mbox_txrx" where
  "put_hdr op src dst m =
     m\<lparr>hdr := (hdr m)\<lparr>hdr_op := op, src_func_id := src, dst_func_id := dst\<rparr>\<rparr>"

definition put_qctxt ::
    "u16 \<Rightarrow> u8 \<Rightarrow> u8 \<Rightarrow> mbox_cmpt_ctxt_type \<Rightarrow> qdma_mbox_txrx \<Rightarrow> qdma_mbox_txrx" where
  "put_qctxt qid st c2h ct m =
     m\<lparr>m_qctxt := (m_qctxt m)\<lparr>qc_qid_hw := qid, qc_c2h := ucast c2h, qc_st := ucast st,
                               cmpt_ctxt_type := ct\<rparr>\<rparr>"

definition qmda_mbox_compose_vf_online ::
    "u16 \<Rightarrow> u16 \<Rightarrow> i32 \<Rightarrow> qdma_mbox_txrx option \<Rightarrow> int \<times> qdma_mbox_txrx option" where
  "qmda_mbox_compose_vf_online func_id qmax qbase =
     compose (\<lambda>m. (put_hdr MBOX_OP_HELLO func_id 0 m)\<lparr>m_qbase := qbase, m_qmax := ucast qmax\<rparr>)"

definition qdma_mbox_compose_vf_offline ::
    "u16 \<Rightarrow> qdma_mbox_txrx option \<Rightarrow> int \<times> qdma_mbox_txrx option" where
  "qdma_mbox_compose_vf_offline func_id = compose (put_hdr MBOX_OP_VF_BYE func_id 0)"

definition qdma_mbox_compose_vf_reset_offline ::
    "u16 \<Rightarrow> qdma_mbox_txrx option \<Rightarrow> int \<times> qdma_mbox_txrx option" where
  "qdma_mbox_compose_vf_reset_offline func_id = compose (put_hdr MBOX_OP_PF_RESET_VF_BYE func_id 0)"

definition qdma_mbox_compose_vf_qreq ::
    "u16 \<Rightarrow> u16 \<Rightarrow> i32 \<Rightarrow> qdma_mbox_txrx option \<Rightarrow> int \<times> qdma_mbox_txrx option" where
  "qdma_mbox_compose_vf_qreq func_id qmax qbase =
     compose (\<lambda>m. (put_hdr MBOX_OP_QREQ func_id 0 m)\<lparr>m_qbase := qbase, m_qmax := ucast qmax\<rparr>)"

definition qdma_mbox_compose_vf_notify_qadd ::
    "u16 \<Rightarrow> u16 \<Rightarrow> u32 \<Rightarrow> qdma_mbox_txrx option \<Rightarrow> int \<times> qdma_mbox_txrx option" where
  "qdma_mbox_compose_vf_notify_qadd func_id qid_hw q_type =
     compose (\<lambda>m. (put_hdr MBOX_OP_QNOTIFY_ADD func_id 0 m)\<lparr>qn_qid_hw := qid_hw, qn_q_type := q_type\<rparr>)"

definition qdma_mbox_compose_vf_get_device_active_qcnt ::
    "u16 \<Rightarrow> qdma_mbox_txrx option \<Rightarrow> int \<times> qdma_mbox_txrx option" where
  "qdma_mbox_compose_vf_get_device_active_qcnt func_id =
     compose (put_hdr MBOX_OP_GET_QACTIVE_CNT func_id 0)"

definition qdma_mbox_compose_vf_notify_qdel ::
    "u16 \<Rightarrow> u16 \<Rightarrow> u32 \<Rightarrow> qdma_mbox_txrx option \<Rightarrow> int \<times> qdma_mbox_txrx option" where
  "qdma_mbox_compose_vf_notify_qdel func_id qid_hw q_type =
     compose (\<lambda>m. (put_hdr MBOX_OP_QNOTIFY_DEL func_id 0 m)\<lparr>qn_qid_hw := qid_hw, qn_q_type := q_type\<rparr>)"

definition qdma_mbox_compose_vf_fmap_prog ::
    "u16 \<Rightarrow> u16 \<Rightarrow> i32 \<Rightarrow> qdma_mbox_txrx option \<Rightarrow> int \<times> qdma_mbox_txrx option" where
  "qdma_mbox_compose_vf_fmap_prog func_id qmax qbase =
     compose (\<lambda>m. (put_hdr MBOX_OP_FMAP func_id 0 m)\<lparr>m_qbase := qbase, m_qmax := ucast qmax\<rparr>)"

definition qdma_mbox_compose_vf_qctxt_write ::
    "u16 \<Rightarrow> u16 \<Rightarrow> u8 \<Rightarrow> u8 \<Rightarrow> mbox_cmpt_ctxt_type \<Rightarrow> mbox_descq_conf \<Rightarrow> qdma_mbox_txrx option \<Rightarrow>
       int \<times> qdma_mbox_txrx option" where
  "qdma_mbox_compose_vf_qctxt_write func_id qid_hw st c2h ct conf =
     compose (\<lambda>m. let m = put_qctxt qid_hw st c2h ct (put_hdr MBOX_OP_QCTXT_WRT func_id 0 m)
                  in m\<lparr>m_qctxt := (m_qctxt m)\<lparr>descq_conf := conf\<rparr>\<rparr>)"

definition qdma_mbox_compose_vf_qctxt_read ::
    "u16 \<Rightarrow> u16 \<Rightarrow> u8 \<Rightarrow> u8 \<Rightarrow> mbox_cmpt_ctxt_type \<Rightarrow> qdma_mbox_txrx option \<Rightarrow>
       int \<times> qdma_mbox_txrx option" where
  "qdma_mbox_compose_vf_qctxt_read func_id qid_hw st c2h ct =
     compose (\<lambda>m. put_qctxt qid_hw st c2h ct (put_hdr MBOX_OP_QCTXT_RD func_id 0 m))"

definition qdma_mbox_compose_vf_qctxt_invalidate ::
    "u16 \<Rightarrow> u16 \<Rightarrow> u8 \<Rightarrow> u8 \<Rightarrow> mbox_cmpt_ctxt_type \<Rightarrow> qdma_mbox_txrx option \<Rightarrow>
       int \<times> qdma_mbox_txrx option" where
  "qdma_mbox_compose_vf_qctxt_invalidate func_id qid_hw st c2h ct =
     compose (\<lambda>m. put_qctxt qid_hw st c2h ct (put_hdr MBOX_OP_QCTXT_INV func_id 0 m))"

definition qdma_mbox_compose_vf_qctxt_clear ::
    "u16 \<Rightarrow> u16 \<Rightarrow> u8 \<Rightarrow> u8 \<Rightarrow> mbox_cmpt_ctxt_type \<Rightarrow> qdma_mbox_txrx option \<Rightarrow>
       int \<times> qdma_mbox_txrx option" where
  "qdma_mbox_compose_vf_qctxt_clear func_id qid_hw st c2h ct =
     compose (\<lambda>m. put_qctxt qid_hw st c2h ct (put_hdr MBOX_OP_QCTXT_CLR func_id 0 m))"

definition qdma_mbox_compose_csr_read ::
    "u16 \<Rightarrow> qdma_mbox_txrx option \<Rightarrow> int \<times> qdma_mbox_txrx option" where
  "qdma_mbox_compose_csr_read func_id = compose (put_hdr MBOX_OP_CSR func_id 0)"

definition qdma_mbox_compose_reg_read ::
    "u16 \<Rightarrow> u16 \<Rightarrow> qdma_mbox_txrx option \<Rightarrow> int \<times> qdma_mbox_txrx option" where
  "qdma_mbox_compose_reg_read func_id grp =
     compose (\<lambda>m. (put_hdr MBOX_OP_REG_LIST_READ func_id 0 m)\<lparr>group_num := grp\<rparr>)"

definition qdma_mbox_compose_vf_intr_ctxt_write ::
    "u16 \<Rightarrow> mbox_msg_intr_ctxt \<Rightarrow> qdma_mbox_txrx option \<Rightarrow> int \<times> qdma_mbox_txrx option" where
  "qdma_mbox_compose_vf_intr_ctxt_write func_id ic =
     compose (\<lambda>m. (put_hdr MBOX_OP_INTR_CTXT_WRT func_id 0 m)\<lparr>m_intr_ctxt := ic\<rparr>)"

definition qdma_mbox_compose_vf_intr_ctxt_read ::
    "u16 \<Rightarrow> mbox_msg_intr_ctxt \<Rightarrow> qdma_mbox_txrx option \<Rightarrow> int \<times> qdma_mbox_txrx option" where
  "qdma_mbox_compose_vf_intr_ctxt_read func_id ic =
     compose (\<lambda>m. (put_hdr MBOX_OP_INTR_CTXT_RD func_id 0 m)\<lparr>m_intr_ctxt := ic\<rparr>)"

definition qdma_mbox_compose_vf_intr_ctxt_clear ::
    "u16 \<Rightarrow> mbox_msg_intr_ctxt \<Rightarrow> qdma_mbox_txrx option \<Rightarrow> int \<times> qdma_mbox_txrx option" where
  "qdma_mbox_compose_vf_intr_ctxt_clear func_id ic =
     compose (\<lambda>m. (put_hdr MBOX_OP_INTR_CTXT_CLR func_id 0 m)\<lparr>m_intr_ctxt := ic\<rparr>)"

definition qdma_mbox_compose_vf_intr_ctxt_invalidate ::
    "u16 \<Rightarrow> mbox_msg_intr_ctxt \<Rightarrow> qdma_mbox_txrx option \<Rightarrow> int \<times> qdma_mbox_txrx option" where
  "qdma_mbox_compose_vf_intr_ctxt_invalidate func_id ic =
     compose (\<lambda>m. (put_hdr MBOX_OP_INTR_CTXT_INV func_id 0 m)\<lparr>m_intr_ctxt := ic\<rparr>)"

text \<open>Messages of the parent; their function arguments are bytes.\<close>

definition qdma_mbox_compose_vf_reset_message ::
    "qdma_mbox_txrx option \<Rightarrow> u8 \<Rightarrow> u8 \<Rightarrow> int \<times> qdma_mbox_txrx option" where
  "qdma_mbox_compose_vf_reset_message raw src dst =
     compose (put_hdr MBOX_OP_RESET_PREPARE (ucast src) (ucast dst)) raw"

definition qdma_mbox_compose_pf_reset_done_message ::
    "qdma_mbox_txrx option \<Rightarrow> u8 \<Rightarrow> u8 \<Rightarrow> int \<times> qdma_mbox_txrx option" where
  "qdma_mbox_compose_pf_reset_done_message raw src dst =
     compose (put_hdr MBOX_OP_RESET_DONE (ucast src) (ucast dst)) raw"

definition qdma_mbox_compose_pf_offline ::
    "qdma_mbox_txrx option \<Rightarrow> u8 \<Rightarrow> u8 \<Rightarrow> int \<times> qdma_mbox_txrx option" where
  "qdma_mbox_compose_pf_offline raw src dst =
     compose (put_hdr MBOX_OP_PF_BYE (ucast src) (ucast dst)) raw"

section \<open>Reading a response\<close>

text \<open>The opcodes are promoted to \<^verbatim>\<open>int\<close> before the comparison, so the sum does not wrap here.\<close>

definition qdma_mbox_is_msg_response :: "qdma_mbox_txrx \<Rightarrow> qdma_mbox_txrx \<Rightarrow> u8" where
  "qdma_mbox_is_msg_response tx rx =
     (if uint (hdr_op (hdr tx)) + uint MBOX_MSG_OP_RSP_OFFSET = uint (hdr_op (hdr rx)) then 1 else 0)"

definition qdma_mbox_vf_response_status :: "qdma_mbox_txrx \<Rightarrow> int" where
  "qdma_mbox_vf_response_status m = sint (hdr_status (hdr m))"

definition qdma_mbox_vf_func_id_get :: "qdma_mbox_txrx \<Rightarrow> bool \<Rightarrow> u8" where
  "qdma_mbox_vf_func_id_get m is_vf =
     ucast (if is_vf then dst_func_id (hdr m) else src_func_id (hdr m))"

definition qdma_mbox_vf_active_queues_get :: "qdma_mbox_txrx \<Rightarrow> u32 \<Rightarrow> int" where
  "qdma_mbox_vf_active_queues_get m q_type =
     (if q_type = QDMA_DEV_Q_TYPE_H2C then sint (h2c_queues m)
      else if q_type = QDMA_DEV_Q_TYPE_C2H then sint (c2h_queues m)
      else if q_type = QDMA_DEV_Q_TYPE_CMPT then sint (cmpt_queues m) else 0)"

definition qdma_mbox_vf_parent_func_id_get :: "qdma_mbox_txrx \<Rightarrow> u8" where
  "qdma_mbox_vf_parent_func_id_get m = ucast (src_func_id (hdr m))"

definition qdma_mbox_vf_dev_info_get :: "qdma_mbox_txrx \<Rightarrow> int \<times> qdma_dev_attributes \<times> u32" where
  "qdma_mbox_vf_dev_info_get m =
     (qdma_mbox_vf_response_status m, hello_dev_cap m, hello_dma_device_index m)"

definition qdma_mbox_vf_qinfo_get :: "qdma_mbox_txrx \<Rightarrow> int \<times> i32 \<times> u16" where
  "qdma_mbox_vf_qinfo_get m = (qdma_mbox_vf_response_status m, m_qbase m, ucast (m_qmax m))"

definition qdma_mbox_vf_csr_get :: "qdma_mbox_txrx \<Rightarrow> int \<times> qdma_csr_info" where
  "qdma_mbox_vf_csr_get m = (qdma_mbox_vf_response_status m, m_csr_info m)"

text \<open>The copy takes a byte count of eight bits, so of \<^verbatim>\<open>num_regs\<close> entries of eight bytes only the
  number modulo 32 is copied; copying more than the message holds is undefined.\<close>

definition qdma_mbox_vf_reg_list_get ::
    "qdma_mbox_txrx \<Rightarrow> qdma_reg_data list \<Rightarrow> (int \<times> u16 \<times> qdma_reg_data list) option" where
  "qdma_mbox_vf_reg_list_get m old =
     (let k = (unat (num_regs m) * 8) mod 256 div 8 in
      if k > length (reg_list m) \<or> k > length old then None
      else Some (qdma_mbox_vf_response_status m, num_regs m, take k (reg_list m) @ drop k old))"

definition qdma_mbox_vf_context_get :: "qdma_mbox_txrx \<Rightarrow> int \<times> qdma_descq_context" where
  "qdma_mbox_vf_context_get m = (qdma_mbox_vf_response_status m, descq_ctxt (m_qctxt m))"

definition qdma_mbox_vf_intr_context_get :: "qdma_mbox_txrx \<Rightarrow> int \<times> mbox_msg_intr_ctxt" where
  "qdma_mbox_vf_intr_context_get m = (qdma_mbox_vf_response_status m, m_intr_ctxt m)"

section \<open>Messages of the parent\<close>

definition reply_hdr :: "qdma_mbox_txrx \<Rightarrow> qdma_mbox_txrx \<Rightarrow> qdma_mbox_txrx" where
  "reply_hdr rcv resp =
     put_hdr (hdr_op (hdr rcv) + MBOX_MSG_OP_RSP_OFFSET) (dst_func_id (hdr rcv)) (src_func_id (hdr rcv)) resp"

definition qdma_mbox_vf_rcv_msg_handler ::
    "qdma_mbox_txrx \<Rightarrow> qdma_mbox_txrx \<Rightarrow> int \<times> qdma_mbox_txrx" where
  "qdma_mbox_vf_rcv_msg_handler rcv resp =
     (let op = hdr_op (hdr rcv) in
      if op = MBOX_OP_RESET_PREPARE then (QDMA_MBOX_VF_RESET, reply_hdr rcv resp)
      else if op = MBOX_OP_RESET_DONE then (QDMA_MBOX_PF_RESET_DONE, reply_hdr rcv resp)
      else if op = MBOX_OP_PF_BYE then (QDMA_MBOX_PF_BYE, reply_hdr rcv resp)
      else (0, resp))"

lemmas compose_defs =
  compose_def put_hdr_def put_qctxt_def qmda_mbox_compose_vf_online_def qdma_mbox_compose_vf_offline_def
  qdma_mbox_compose_vf_reset_offline_def qdma_mbox_compose_vf_qreq_def
  qdma_mbox_compose_vf_notify_qadd_def qdma_mbox_compose_vf_get_device_active_qcnt_def
  qdma_mbox_compose_vf_notify_qdel_def qdma_mbox_compose_vf_fmap_prog_def
  qdma_mbox_compose_vf_qctxt_write_def qdma_mbox_compose_vf_qctxt_read_def
  qdma_mbox_compose_vf_qctxt_invalidate_def qdma_mbox_compose_vf_qctxt_clear_def
  qdma_mbox_compose_csr_read_def qdma_mbox_compose_reg_read_def
  qdma_mbox_compose_vf_intr_ctxt_write_def qdma_mbox_compose_vf_intr_ctxt_read_def
  qdma_mbox_compose_vf_intr_ctxt_clear_def qdma_mbox_compose_vf_intr_ctxt_invalidate_def
  qdma_mbox_compose_vf_reset_message_def qdma_mbox_compose_pf_reset_done_message_def
  qdma_mbox_compose_pf_offline_def

end
