(* ===== verification/MboxProps.thy ===== *)
theory MboxProps
  imports MboxHandler MboxCompose ResourceSafety
begin

text \<open>
  Properties of the mailbox handler of the parent: what a message does to the resource manager, who
  gets the response, when the handler is defined, and which contexts a virtual function can reach.
\<close>

section \<open>The handler as a client of the resource manager\<close>

text \<open>The resource manager operations that a message leads to.\<close>

definition mbox_rm_ops :: "u8 \<Rightarrow> qdma_mbox_txrx \<Rightarrow> rm_state \<Rightarrow> rm_op list" where
  "mbox_rm_ops idx rcv rm =
     (let op = hdr_op (hdr rcv); src = src_func_id (hdr rcv);
          in_range = (qdma_dev_is_queue_in_range (ucast idx) src (ucast (qn_qid_hw rcv)) rm
                        = QDMA_DEV_Q_IN_RANGE)
      in if op = MBOX_OP_VF_BYE \<or> op = MBOX_OP_PF_RESET_VF_BYE then [Dev_destroy (ucast idx) src]
         else if op = MBOX_OP_HELLO then
           (if fst (qdma_dev_qinfo_get (ucast idx) src rm) < 0 then [Dev_create (ucast idx) src] else [])
         else if op = MBOX_OP_QREQ then [Dev_update (ucast idx) src (m_qmax rcv) (m_qbase rcv)]
         else if op = MBOX_OP_QNOTIFY_ADD \<and> in_range then [Increment (ucast idx) src (qn_q_type rcv)]
         else if op = MBOX_OP_QNOTIFY_DEL \<and> in_range then [Decrement (ucast idx) src (qn_q_type rcv)]
         else [])"

lemma finish_Some: "finish func_id rcv ret res = Some (ret', resp', rm', d') \<Longrightarrow> rm' = fst (snd (snd res))"
  by (auto simp: finish_def split: prod.splits)

lemma op_hello_rm:
  "fst (snd (snd (op_hello hw idx rcv resp rm d))) =
     (if fst (qdma_dev_qinfo_get (ucast idx) (src_func_id (hdr rcv)) rm) < 0
      then snd (qdma_dev_entry_create (ucast idx) (src_func_id (hdr rcv)) rm) else rm)"
  by (simp add: op_hello_def Let_def split: prod.splits option.splits)

lemma op_qreq_rm:
  "fst (snd (snd (op_qreq hw idx rcv resp rm d))) =
     snd (snd (qdma_dev_update (ucast idx) (src_func_id (hdr rcv)) (m_qmax rcv) (m_qbase rcv) rm))"
  by (simp add: op_qreq_def Let_def split: prod.splits)

lemma handler_rm:
  assumes "qdma_mbox_pf_rcv_msg_handler hw idx func_id (Some rcv) resp rm d = Some (ret, resp', rm', d')"
  shows "rm' = fold rm_exec (mbox_rm_ops idx rcv rm) rm"
  using assms
  by (auto simp: qdma_mbox_pf_rcv_msg_handler_def mbox_rm_ops_def Let_def mbox_defs op_hello_rm op_qreq_rm
      op_vf_bye_def op_qnotify_def dest!: finish_Some split: if_splits prod.splits option.splits)

section \<open>When the handler is defined\<close>

definition is_intr_op :: "u8 \<Rightarrow> bool" where
  "is_intr_op op \<longleftrightarrow> op = MBOX_OP_INTR_CTXT_WRT \<or> op = MBOX_OP_INTR_CTXT_RD \<or>
     op = MBOX_OP_INTR_CTXT_CLR \<or> op = MBOX_OP_INTR_CTXT_INV"

lemma ring_loop_None: "ring_loop body len is s = None \<longleftrightarrow> (\<exists>i \<in> set is. len \<le> i)"
  by (induction "is" arbitrary: s) auto

lemma op_intr_None: "op_intr body rcv resp d = None \<longleftrightarrow> 1 < unat (num_rings (m_intr_ctxt rcv))"
  by (auto simp: op_intr_def Let_def ring_loop_None)

lemma finish_not_None [simp]: "finish func_id rcv ret res \<noteq> None"
  by (simp add: finish_def split: prod.splits)

lemma intr_None:
  "(case op_intr body rcv resp d of None \<Rightarrow> None
      | Some (rv, resp, d) \<Rightarrow> finish func_id rcv 0 (rv, resp, rm, d)) = None
    \<longleftrightarrow> 1 < unat (num_rings (m_intr_ctxt rcv))"
  unfolding op_intr_None [of body rcv resp d, symmetric]
  by (cases "op_intr body rcv resp d") (simp_all add: finish_def split: prod.splits)

text \<open>On messages as records, the handler indexes an array out of its bounds exactly for the interrupt context
  operations with more than one ring: the loop runs to the ring count of the message, and the arrays of a message are
  declared with one element.\<close>

lemma handler_None:
  "qdma_mbox_pf_rcv_msg_handler hw idx func_id (Some rcv) resp rm d = None \<longleftrightarrow>
     is_intr_op (hdr_op (hdr rcv)) \<and> 1 < unat (num_rings (m_intr_ctxt rcv))"
  by (simp add: qdma_mbox_pf_rcv_msg_handler_def is_intr_op_def Let_def mbox_defs intr_None finish_def
      split: prod.splits)

section \<open>Sequences of messages\<close>

text \<open>The parent handles messages one after another, each with a fresh response buffer; the state
  is \<open>None\<close> once the handler has accessed memory outside a message.\<close>

definition mbox_exec ::
    "'s qdma_hw_access \<Rightarrow> u8 \<Rightarrow> u16 \<Rightarrow> qdma_mbox_txrx \<Rightarrow> (rm_state \<times> 's) option \<Rightarrow> (rm_state \<times> 's) option" where
  "mbox_exec hw idx func_id rcv s =
     (case s of None \<Rightarrow> None
      | Some (rm, d) \<Rightarrow>
          map_option (\<lambda>(ret, resp, rm, d). (rm, d))
            (qdma_mbox_pf_rcv_msg_handler hw idx func_id (Some rcv) msg_zero rm d))"

text \<open>What a virtual function has to respect: at most one interrupt ring in a message, a wanted queue range that does
  not wrap around, and no request to read contexts with the completion context.  The last is because the
  driver passes buffers of 128 bytes, and the completion context lies beyond them; the message as a record has no size,
  so the handler is not undefined there and the case is excluded here.\<close>

definition mbox_msg_ok :: "qdma_mbox_txrx \<Rightarrow> bool" where
  "mbox_msg_ok rcv \<longleftrightarrow>
     (is_intr_op (hdr_op (hdr rcv)) \<longrightarrow> num_rings (m_intr_ctxt rcv) \<le> 1) \<and>
     (hdr_op (hdr rcv) = MBOX_OP_QREQ \<longrightarrow> request_nowrap (m_qmax rcv) (m_qbase rcv)) \<and>
     (hdr_op (hdr rcv) = MBOX_OP_QCTXT_RD \<longrightarrow> \<not> with_cmpt (cmpt_ctxt_type (m_qctxt rcv)))"

definition mbox_inv :: "(rm_state \<times> 's) option \<Rightarrow> bool" where
  "mbox_inv s \<longleftrightarrow> (case s of None \<Rightarrow> False | Some (rm, d) \<Rightarrow> rm_inv rm)"

definition mbox_owns :: "(rm_state \<times> 's) option \<Rightarrow> u32 \<times> u16 \<Rightarrow> u32 \<times> u32 \<Rightarrow> bool" where
  "mbox_owns s f q \<longleftrightarrow> (case s of None \<Rightarrow> False | Some (rm, d) \<Rightarrow> rm_owns rm f q)"

lemma mbox_rm_ops_ok: "mbox_msg_ok rcv \<Longrightarrow> list_all rm_op_ok (mbox_rm_ops idx rcv rm)"
  by (auto simp: mbox_rm_ops_def mbox_msg_ok_def Let_def)

lemma mbox_exec_inv:
  assumes "mbox_inv s" and "mbox_msg_ok rcv"
  shows "mbox_inv (mbox_exec hw idx func_id rcv s)"
proof -
  obtain rm d where s: "s = Some (rm, d)" "rm_inv rm"
    using assms(1) by (auto simp: mbox_inv_def split: option.splits)
  have "qdma_mbox_pf_rcv_msg_handler hw idx func_id (Some rcv) msg_zero rm d \<noteq> None"
    using assms(2) by (auto simp: handler_None mbox_msg_ok_def word_le_nat_alt)
  then obtain ret resp' rm' d' where
    h: "qdma_mbox_pf_rcv_msg_handler hw idx func_id (Some rcv) msg_zero rm d = Some (ret, resp', rm', d')"
    by auto
  have "rm_inv rm'"
    unfolding handler_rm [OF h] by (rule rm.run [OF s(2) mbox_rm_ops_ok [OF assms(2)]])
  then show ?thesis by (simp add: mbox_exec_def s h mbox_inv_def)
qed

interpretation mb: exclusive_owner "mbox_exec hw idx func_id" mbox_msg_ok mbox_inv mbox_owns
  for hw idx func_id
  by (unfold_locales, erule (1) mbox_exec_inv)
    (auto simp: mbox_inv_def mbox_owns_def split: option.splits dest: rm_exclusive)

section \<open>Properties\<close>

text \<open>C2: Messages never make two functions share a queue.  From any consistent state of the
  resource manager, take any sequence of messages whose queue requests do not wrap around, whose
  interrupt messages name at most one ring and whose context reads do not ask for the completion context.  The
  handler handles all of them, and afterwards a queue in the range of one function is in the range of no
  other function of the board.\<close>

theorem mbox_no_sharing:
  assumes "rm_inv rm" and "list_all mbox_msg_ok msgs"
  shows "\<exists>rm' d'. fold (mbox_exec hw idx func_id) msgs (Some (rm, d)) = Some (rm', d') \<and>
    (\<forall>board f g qid. qdma_dev_is_queue_in_range board f qid rm' = QDMA_DEV_Q_IN_RANGE \<longrightarrow>
       qdma_dev_is_queue_in_range board g qid rm' = QDMA_DEV_Q_IN_RANGE \<longrightarrow> f = g)"
proof -
  have start: "mbox_inv (Some (rm, d))" using assms(1) by (simp add: mbox_inv_def)
  then obtain rm' d' where end_: "fold (mbox_exec hw idx func_id) msgs (Some (rm, d)) = Some (rm', d')"
    using mb.run [OF start assms(2), of hw idx func_id] by (auto simp: mbox_inv_def split: option.splits)
  have "f = g" if "qdma_dev_is_queue_in_range board f qid rm' = QDMA_DEV_Q_IN_RANGE"
    and "qdma_dev_is_queue_in_range board g qid rm' = QDMA_DEV_Q_IN_RANGE" for board f g qid
    using mb.run_exclusive [OF start assms(2), of hw idx func_id "(board, f)" "(board, qid)" "(board, g)"] that
    by (simp add: end_ mbox_owns_def rm_owns_def)
  with end_ show ?thesis by blast
qed

text \<open>A device whose access functions do nothing and succeed, for the witnesses.\<close>

definition idle_hw :: "unit qdma_hw_access" where
  "idle_hw = \<lparr>hw_fmap_conf = \<lambda>_ c _ s. (0, c, s), hw_sw_ctx_conf = \<lambda>_ _ c _ s. (0, c, s),
     hw_pfetch_ctx_conf = \<lambda>_ c _ s. (0, c, s), hw_cmpt_ctx_conf = \<lambda>_ c _ s. (0, c, s),
     hw_hw_ctx_conf = \<lambda>_ _ c _ s. (0, c, s), hw_credit_ctx_conf = \<lambda>_ _ c _ s. (0, c, s),
     hw_indirect_intr_ctx_conf = \<lambda>_ c _ s. (0, c, s), hw_global_csr_conf = \<lambda>_ _ v _ _ s. (0, v, s),
     hw_get_device_attributes = \<lambda>s. (attr_zero, s), hw_read_reg_list = \<lambda>_ _ s. (0, 0, [], s),
     mbox_base_pf = 0x2400, mbox_base_vf = 0x1000\<rparr>"

definition demo_msgs :: "qdma_mbox_txrx list" where
  "demo_msgs = map (\<lambda>r. the (snd r))
     [qmda_mbox_compose_vf_online 5 0 (-1) (Some msg_zero), qmda_mbox_compose_vf_online 6 0 (-1) (Some msg_zero),
      qdma_mbox_compose_vf_qreq 5 4 (-1) (Some msg_zero), qdma_mbox_compose_vf_qreq 6 3 2 (Some msg_zero),
      qdma_mbox_compose_vf_notify_qadd 5 1 0 (Some msg_zero)]"

definition demo_board :: rm_state where
  "demo_board = fold rm_exec [Master_create 0 1 0 16] (rm_start [])"

lemma demo_board_inv: "rm_inv demo_board"
  unfolding demo_board_def by (rule rm.run [OF rm_start_inv(1)]) simp

theorem mbox_no_sharing_witness:
  "\<exists>rm' d'. fold (mbox_exec idle_hw 0 4) demo_msgs (Some (demo_board, ())) = Some (rm', d') \<and>
    qdma_dev_is_queue_in_range 0 5 3 rm' = QDMA_DEV_Q_IN_RANGE \<and>
    qdma_dev_is_queue_in_range 0 6 3 rm' \<noteq> QDMA_DEV_Q_IN_RANGE"
proof -
  have "list_all mbox_msg_ok demo_msgs"
    by (simp add: demo_msgs_def compose_defs msg_zero_def mbox_msg_ok_def is_intr_op_def mbox_defs
        request_nowrap_def)
  from mbox_no_sharing [OF demo_board_inv this, of idle_hw 0 4 "()"]
  obtain rm' d' where r: "fold (mbox_exec idle_hw 0 4) demo_msgs (Some (demo_board, ())) = Some (rm', d')"
    and ex: "\<forall>f g. qdma_dev_is_queue_in_range 0 f 3 rm' = QDMA_DEV_Q_IN_RANGE \<longrightarrow>
       qdma_dev_is_queue_in_range 0 g 3 rm' = QDMA_DEV_Q_IN_RANGE \<longrightarrow> f = g" by blast
  have "map_option (\<lambda>(rm, d). qdma_dev_is_queue_in_range 0 5 3 rm)
      (fold (mbox_exec idle_hw 0 4) demo_msgs (Some (demo_board, ()))) = Some QDMA_DEV_Q_IN_RANGE"
    by code_simp
  with r have "qdma_dev_is_queue_in_range 0 5 3 rm' = QDMA_DEV_Q_IN_RANGE" by simp
  moreover have "(5 :: u16) \<noteq> 6" by simp
  ultimately show ?thesis using r ex by blast
qed

definition answered :: "u8 \<Rightarrow> bool" where
  "answered op \<longleftrightarrow> op \<in> set
     [MBOX_OP_VF_BYE, MBOX_OP_HELLO, MBOX_OP_FMAP, MBOX_OP_CSR, MBOX_OP_QREQ, MBOX_OP_QNOTIFY_ADD,
      MBOX_OP_QNOTIFY_DEL, MBOX_OP_GET_QACTIVE_CNT, MBOX_OP_QCTXT_WRT, MBOX_OP_QCTXT_RD,
      MBOX_OP_QCTXT_CLR, MBOX_OP_QCTXT_INV, MBOX_OP_INTR_CTXT_WRT, MBOX_OP_INTR_CTXT_RD,
      MBOX_OP_INTR_CTXT_CLR, MBOX_OP_INTR_CTXT_INV, MBOX_OP_REG_LIST_READ, MBOX_OP_PF_RESET_VF_BYE]"

definition reply_to :: "u16 \<Rightarrow> qdma_mbox_txrx \<Rightarrow> qdma_mbox_txrx \<Rightarrow> bool" where
  "reply_to func_id rcv resp \<longleftrightarrow> hdr_op (hdr resp) = hdr_op (hdr rcv) + MBOX_MSG_OP_RSP_OFFSET \<and>
     src_func_id (hdr resp) = func_id \<and> dst_func_id (hdr resp) = src_func_id (hdr rcv)"

lemma finish_reply:
  "finish func_id rcv ret res = Some (ret', resp', rm', d') \<Longrightarrow> reply_to func_id rcv resp' \<and> ret' = ret"
  by (auto simp: finish_def reply_to_def split: prod.splits)

lemma handler_reply:
  assumes "qdma_mbox_pf_rcv_msg_handler hw idx func_id (Some rcv) resp rm d = Some (ret, resp', rm', d')"
    and "answered (hdr_op (hdr rcv))" and "\<not> (hdr_op (hdr rcv) = MBOX_OP_FMAP \<and> ret < 0 \<and> resp' = resp)"
  shows "reply_to func_id rcv resp'"
  using assms unfolding qdma_mbox_pf_rcv_msg_handler_def Let_def option.case
  by (auto simp: answered_def mbox_defs dest!: finish_reply split: if_splits prod.splits option.splits)

text \<open>Every request is answered to its sender, with one exception.  For each request opcode of a
  virtual function the response carries the matching response opcode, is addressed to the sender
  and names the handling function as its source, and the sender recognises it as the response.  The
  exception is a failed write of the function map, where the handler returns the error to its caller
  and leaves the response buffer as it was.\<close>

theorem mbox_response_addressed:
  assumes "answered (hdr_op (hdr rcv))"
    and "qdma_mbox_pf_rcv_msg_handler hw idx func_id (Some rcv) resp rm d = Some (ret, resp', rm', d')"
  shows "(hdr_op (hdr rcv) = MBOX_OP_FMAP \<and> ret < 0 \<and> resp' = resp) \<or>
    (qdma_mbox_is_msg_response rcv resp' = 1 \<and> src_func_id (hdr resp') = func_id \<and>
     dst_func_id (hdr resp') = src_func_id (hdr rcv))"
proof (cases "hdr_op (hdr rcv) = MBOX_OP_FMAP \<and> ret < 0 \<and> resp' = resp")
  case False
  have "uint (hdr_op (hdr rcv)) + 128 = uint (hdr_op (hdr rcv) + 128)"
    using assms(1) by (auto simp: answered_def mbox_defs)
  with handler_reply [OF assms(2,1) False] show ?thesis
    by (simp add: qdma_mbox_is_msg_response_def reply_to_def mbox_defs)
qed simp

theorem mbox_response_addressed_witness:
  "\<exists>ret resp' rm' d'. qdma_mbox_pf_rcv_msg_handler idle_hw 0 4 (Some (hd demo_msgs)) msg_zero demo_board ()
      = Some (ret, resp', rm', d') \<and>
    qdma_mbox_is_msg_response (hd demo_msgs) resp' = 1 \<and> dst_func_id (hdr resp') = 5"
proof -
  have m: "hdr_op (hdr (hd demo_msgs)) = MBOX_OP_HELLO" "src_func_id (hdr (hd demo_msgs)) = 5"
    by (simp_all add: demo_msgs_def compose_defs)
  have "qdma_mbox_pf_rcv_msg_handler idle_hw 0 4 (Some (hd demo_msgs)) msg_zero demo_board () \<noteq> None"
    by (simp add: handler_None is_intr_op_def m mbox_defs)
  then obtain ret resp' rm' d' where
    h: "qdma_mbox_pf_rcv_msg_handler idle_hw 0 4 (Some (hd demo_msgs)) msg_zero demo_board ()
      = Some (ret, resp', rm', d')" by auto
  from mbox_response_addressed [OF _ h] h show ?thesis by (auto simp: m answered_def mbox_defs)
qed

lemma unat_ucast16: "unat (ucast (q :: u16) :: u32) = unat q"
proof -
  have "unat q < 2 ^ 16" using unsigned_less [of q] by simp
  then show ?thesis by (simp add: unsigned_ucast_eq take_bit_nat_eq_self)
qed

lemma ucast16_back: "ucast (ucast (q :: u16) :: u32) = q"
  by (rule bit_eqI) (auto simp: bit_ucast_iff)

lemma request_nowrap_u16: "request_nowrap (ucast (qmax :: u16)) qbase"
proof -
  have "unat (ucast qmax :: u32) < 2 ^ 16"
    using unsigned_less [of qmax] by (simp add: unat_ucast16)
  moreover have "unat qbase < 2 ^ 31" if "0 \<le> sint qbase"
    using that sint_nonneg_small by simp
  ultimately show ?thesis by (auto simp: request_nowrap_def)
qed

lemma handler_qreq:
  assumes "hdr_op (hdr rcv) = MBOX_OP_QREQ"
  shows "qdma_mbox_pf_rcv_msg_handler hw idx func_id (Some rcv) resp rm d =
    finish func_id rcv 0 (op_qreq hw idx rcv resp rm d)"
  using assms by (simp add: qdma_mbox_pf_rcv_msg_handler_def mbox_defs)

lemma op_qreq_result:
  assumes "qdma_dev_update (ucast idx) (src_func_id (hdr rcv)) (m_qmax rcv) (m_qbase rcv) rm = (rv, b, rm')"
  shows "rv = 0 \<Longrightarrow> qdma_dev_qinfo_get (ucast idx) (src_func_id (hdr rcv)) rm' = (0, Some (b', n)) \<Longrightarrow>
      \<exists>d'. op_qreq hw idx rcv resp rm d = (0, resp\<lparr>m_qbase := b', m_qmax := n\<rparr>, rm', d')"
    and "rv < 0 \<Longrightarrow> op_qreq hw idx rcv resp rm d = (- QDMA_ERR_MBOX_NUM_QUEUES, resp, rm', d)"
  using assms by (simp_all add: op_qreq_def)

text \<open>C3: A queue request of a virtual function is decided exactly, end to end.  The message that
  \<^verbatim>\<open>qdma_mbox_compose_vf_qreq\<close> builds is handled by the parent; for a request of at least one queue by an
  idle function, on a coalesced free list and while allocations succeed, the response that the virtual function reads
  reports success exactly when a run of the wanted length is available to it.  It then names
  the very range the parent recorded, at the wanted base if that range is available.  Otherwise
  the function keeps its queues and reads the error of the protocol.\<close>

theorem qreq_end_to_end:
  assumes inv: "rm_inv rm" and m: "qdma_get_master_resource_entry (ucast idx) rm = Some m"
    and dev: "qdma_get_dev_entry (ucast idx) fid rm = Some dev"
    and idle: "active_h2c_qcnt dev = 0" "active_c2h_qcnt dev = 0" "active_cmpt_qcnt dev = 0"
    and coalesced: "sorted_wrt (\<lambda>a b. c_end a < c_start b) (free_list m)"
    and mem: "False \<notin> set (rm_mem rm)" and nz: "qmax \<noteq> 0"
    and avail: "avail = queues (de_entry dev) \<union> all_queues (free_list m)"
    and msg: "qdma_mbox_compose_vf_qreq fid qmax qbase (Some buf) = (rv, Some msg)"
    and h: "qdma_mbox_pf_rcv_msg_handler hw idx func_id (Some msg) resp rm d = Some (ret, resp', rm', d')"
  shows "rv = QDMA_SUCCESS \<and> qdma_mbox_is_msg_response msg resp' = 1 \<and>
    (if run_available (unat qmax) avail
     then \<exists>b. qdma_mbox_vf_qinfo_get resp' = (QDMA_SUCCESS, b, qmax) \<and>
       qdma_dev_qinfo_get (ucast idx) fid rm' = (QDMA_SUCCESS, Some (b, ucast qmax)) \<and>
       (0 \<le> sint qbase \<and> {unat qbase ..< unat qbase + unat qmax} \<subseteq> avail \<longrightarrow> b = qbase)
     else qdma_mbox_vf_response_status resp' = - QDMA_ERR_MBOX_NUM_QUEUES \<and>
       (\<forall>qid. qdma_dev_is_queue_in_range (ucast idx) fid qid rm' =
              qdma_dev_is_queue_in_range (ucast idx) fid qid rm))"
proof -
  from msg have rv: "rv = QDMA_SUCCESS" and msg': "hdr_op (hdr msg) = MBOX_OP_QREQ"
      "src_func_id (hdr msg) = fid" "m_qbase msg = qbase" "m_qmax msg = ucast qmax"
    by (auto simp: compose_defs)
  obtain u b st' where upd: "qdma_dev_update (ucast idx) fid (ucast qmax) qbase rm = (u, b, st')"
    by (metis prod.exhaust)
  have nz': "(ucast qmax :: u32) \<noteq> 0" and n: "unat (ucast qmax :: u32) = unat qmax"
    using nz unat_ucast16 [of qmax] by (auto simp: unat_eq_0 simp flip: unat_eq_0)
  note dec = dev_update_decides [OF inv m dev idle coalesced mem nz' request_nowrap_u16 avail upd, unfolded n]
  note q = op_qreq_result [where idx = idx and rcv = msg and rm = rm and hw = hw and resp = resp and d = d,
      unfolded msg', OF upd]
  show ?thesis
  proof (cases "run_available (unat qmax) avail")
    case True
    with dec have ok: "u = 0" "qdma_dev_qinfo_get (ucast idx) fid st' = (0, Some (b, ucast qmax))" by simp_all
    obtain d2 where "op_qreq hw idx msg resp rm d = (0, resp\<lparr>m_qbase := b, m_qmax := ucast qmax\<rparr>, st', d2)"
      using q(1) [OF ok] by blast
    with h True dec rv show ?thesis
      by (simp add: handler_qreq [OF msg'(1)] finish_def qdma_mbox_vf_qinfo_get_def msg'(1)
          qdma_mbox_vf_response_status_def qdma_mbox_is_msg_response_def mbox_defs)
         (auto simp: finish_def ucast16_back)
  next
    case False
    with dec have "u < 0" by simp
    with q(2) h False dec rv show ?thesis
      by (auto simp: handler_qreq [OF msg'(1)] finish_def msg'(1) qdma_mbox_vf_response_status_def
          qdma_mbox_is_msg_response_def mbox_defs)
  qed
qed

definition demo_two :: rm_state where
  "demo_two = fold rm_exec
     [Master_create 0 1 0 16, Dev_create 0 5, Dev_create 0 6, Dev_update 0 5 4 (-1)] (rm_start [])"

theorem qreq_end_to_end_witness:
  "\<exists>msg ret resp' rm' d'. qdma_mbox_compose_vf_qreq 6 6 8 (Some msg_zero) = (QDMA_SUCCESS, Some msg) \<and>
     qdma_mbox_pf_rcv_msg_handler idle_hw 0 4 (Some msg) msg_zero demo_two () = Some (ret, resp', rm', d') \<and>
     qdma_mbox_vf_qinfo_get resp' = (QDMA_SUCCESS, 8, 6)"
proof -
  let ?m = "the (qdma_get_master_resource_entry 0 demo_two)"
  let ?d = "the (qdma_get_dev_entry 0 6 demo_two)"
  let ?msg = "the (snd (qdma_mbox_compose_vf_qreq 6 6 8 (Some msg_zero)))"
  have inv: "rm_inv demo_two"
    unfolding demo_two_def by (rule rm.run [OF rm_start_inv(1)]) (simp add: request_nowrap_def)
  have m: "qdma_get_master_resource_entry (ucast (0 :: u8)) demo_two = Some ?m" by code_simp
  have d: "qdma_get_dev_entry (ucast (0 :: u8)) 6 demo_two = Some ?d" by code_simp
  have c: "active_h2c_qcnt ?d = 0" "active_c2h_qcnt ?d = 0" "active_cmpt_qcnt ?d = 0" by code_simp+
  have f: "free_list ?m = [\<lparr>re_qbase = 4, re_total_q = 12\<rparr>]" by code_simp
  have e: "re_total_q (de_entry ?d) = 0" by code_simp
  have mem: "rm_mem demo_two = []" by code_simp
  have avail: "{4 ..< 16} = queues (de_entry ?d) \<union> all_queues (free_list ?m)"
    by (simp add: e f queues_eq)
  have run: "run_available 6 {4 ..< 16}" unfolding run_available_def by (rule exI [of _ 8]) simp
  have msg: "qdma_mbox_compose_vf_qreq 6 6 8 (Some msg_zero) = (QDMA_SUCCESS, Some ?msg)"
    by (simp add: compose_defs)
  have "qdma_mbox_pf_rcv_msg_handler idle_hw 0 4 (Some ?msg) msg_zero demo_two () \<noteq> None"
    by (simp add: handler_None compose_defs is_intr_op_def mbox_defs)
  then obtain ret resp' rm' d' where
    h: "qdma_mbox_pf_rcv_msg_handler idle_hw 0 4 (Some ?msg) msg_zero demo_two () = Some (ret, resp', rm', d')"
    by auto
  have "qdma_mbox_vf_qinfo_get resp' = (QDMA_SUCCESS, 8, 6)"
    using qreq_end_to_end [OF inv m d c _ _ _ avail msg h] f mem run by auto
  with msg h show ?thesis by blast
qed

section \<open>Contexts and ownership\<close>

text \<open>The context operations that test whether the queue belongs to the sender.\<close>

definition checked_ctxt_op :: "qdma_mbox_txrx \<Rightarrow> bool" where
  "checked_ctxt_op rcv \<longleftrightarrow> hdr_op (hdr rcv) = MBOX_OP_QCTXT_WRT \<or>
     (hdr_op (hdr rcv) = MBOX_OP_QCTXT_CLR \<or> hdr_op (hdr rcv) = MBOX_OP_QCTXT_INV) \<and>
     cmpt_ctxt_type (m_qctxt rcv) \<noteq> QDMA_MBOX_CMPT_CTXT_ONLY"

definition unchecked_ctxt_op :: "qdma_mbox_txrx \<Rightarrow> bool" where
  "unchecked_ctxt_op rcv \<longleftrightarrow> hdr_op (hdr rcv) = MBOX_OP_QCTXT_RD \<or>
     (hdr_op (hdr rcv) = MBOX_OP_QCTXT_CLR \<or> hdr_op (hdr rcv) = MBOX_OP_QCTXT_INV) \<and>
     cmpt_ctxt_type (m_qctxt rcv) = QDMA_MBOX_CMPT_CTXT_ONLY"

lemma checked_out_of_range:
  assumes "checked_ctxt_op rcv"
    and "qdma_dev_is_queue_in_range (ucast idx) (src_func_id (hdr rcv)) (ucast (qc_qid_hw (m_qctxt rcv))) rm
      \<noteq> QDMA_DEV_Q_IN_RANGE"
  shows "qdma_mbox_pf_rcv_msg_handler hw idx func_id (Some rcv) resp rm d =
    finish func_id rcv 0 (fst (qdma_dev_qinfo_get (ucast idx) (src_func_id (hdr rcv)) rm), resp, rm, d)"
  using assms
  by (auto simp: qdma_mbox_pf_rcv_msg_handler_def checked_ctxt_op_def mbox_defs Let_def
      mbox_write_queue_contexts_def mbox_clear_queue_contexts_def mbox_invalidate_queue_contexts_def
      erase_queue_contexts_def)

text \<open>C5: A function cannot change the contexts of a queue that belongs to another function with the operations that
  check the owner.  When the resource manager is consistent and a queue is in the range of a function, a message of
  any other function that writes contexts of that queue, or that clears or invalidates them with another type than
  \<^verbatim>\<open>QDMA_MBOX_CMPT_CTXT_ONLY\<close>, leaves the device and the resource manager as they were.  Clearing and
  invalidating the completion context alone, and reading, do not check the owner and are excluded.\<close>

theorem mbox_context_isolation:
  assumes "rm_inv rm" and "checked_ctxt_op rcv" and "src_func_id (hdr rcv) \<noteq> f"
    and "qdma_dev_is_queue_in_range (ucast idx) f (ucast (qc_qid_hw (m_qctxt rcv))) rm = QDMA_DEV_Q_IN_RANGE"
    and "qdma_mbox_pf_rcv_msg_handler hw idx func_id (Some rcv) resp rm d = Some (ret, resp', rm', d')"
  shows "d' = d \<and> rm' = rm"
proof -
  let ?q = "ucast (qc_qid_hw (m_qctxt rcv)) :: u32"
  have "qdma_dev_is_queue_in_range (ucast idx) (src_func_id (hdr rcv)) ?q rm \<noteq> QDMA_DEV_Q_IN_RANGE"
    using rm_exclusive [OF assms(1), of "(ucast idx, src_func_id (hdr rcv))" "(ucast idx, ?q)" "(ucast idx, f)"]
      assms(3,4) by (auto simp: rm_owns_def)
  from checked_out_of_range [OF assms(2) this, of hw func_id resp d] assms(5) show ?thesis by (simp add: finish_def)
qed

definition foreign_write :: qdma_mbox_txrx where
  "foreign_write = the (snd (qdma_mbox_compose_vf_qctxt_write 6 2 0 0 QDMA_MBOX_CMPT_CTXT_NONE conf_zero (Some msg_zero)))"

lemma foreign_write_simps:
  "hdr_op (hdr foreign_write) = MBOX_OP_QCTXT_WRT" "src_func_id (hdr foreign_write) = 6"
  "qc_qid_hw (m_qctxt foreign_write) = 2" "checked_ctxt_op foreign_write"
  by (simp_all add: foreign_write_def compose_defs checked_ctxt_op_def Let_def)

lemma demo_two_inv: "rm_inv demo_two"
  unfolding demo_two_def by (rule rm.run [OF rm_start_inv(1)]) (simp add: request_nowrap_def)

text \<open>A device that counts the accesses to its contexts.\<close>

definition counting_hw :: "nat qdma_hw_access" where
  "counting_hw = \<lparr>hw_fmap_conf = \<lambda>_ c _ s. (0, c, Suc s), hw_sw_ctx_conf = \<lambda>_ _ c _ s. (0, c, Suc s),
     hw_pfetch_ctx_conf = \<lambda>_ c _ s. (0, c, Suc s), hw_cmpt_ctx_conf = \<lambda>_ c _ s. (0, c, Suc s),
     hw_hw_ctx_conf = \<lambda>_ _ c _ s. (0, c, Suc s), hw_credit_ctx_conf = \<lambda>_ _ c _ s. (0, c, Suc s),
     hw_indirect_intr_ctx_conf = \<lambda>_ c _ s. (0, c, Suc s), hw_global_csr_conf = \<lambda>_ _ v _ _ s. (0, v, s),
     hw_get_device_attributes = \<lambda>s. (attr_zero, s), hw_read_reg_list = \<lambda>_ _ s. (0, 0, [], s),
     mbox_base_pf = 0x2400, mbox_base_vf = 0x1000\<rparr>"

theorem mbox_context_isolation_witness:
  "\<exists>ret resp'. qdma_mbox_pf_rcv_msg_handler counting_hw 0 4 (Some foreign_write) msg_zero demo_two 0
      = Some (ret, resp', demo_two, 0)"
proof -
  have "qdma_mbox_pf_rcv_msg_handler counting_hw 0 4 (Some foreign_write) msg_zero demo_two 0 \<noteq> None"
    by (simp add: handler_None is_intr_op_def foreign_write_simps mbox_defs)
  then obtain ret resp' rm' d' where
    h: "qdma_mbox_pf_rcv_msg_handler counting_hw 0 4 (Some foreign_write) msg_zero demo_two 0
      = Some (ret, resp', rm', d')" by auto
  have "qdma_dev_is_queue_in_range (ucast (0 :: u8)) 5 (ucast (2 :: u16)) demo_two = QDMA_DEV_Q_IN_RANGE"
    by code_simp
  with mbox_context_isolation [OF demo_two_inv foreign_write_simps(4) _ _ h, of 5] h show ?thesis
    by (simp add: foreign_write_simps)
qed

text \<open>C33: A context operation that checks the owner is reported as a success for a queue outside the range of the
  sender.  These are writing contexts, and clearing or invalidating them with another type than
  \<^verbatim>\<open>QDMA_MBOX_CMPT_CTXT_ONLY\<close>.  The sender is a known function.  The handler leaves the device alone, but the variable that holds the result still has the value
  of the preceding successful query, so the sender reads status zero and takes its context to be
  programmed.\<close>

theorem mbox_out_of_range_reports_success:
  assumes "checked_ctxt_op rcv"
    and "qdma_dev_is_queue_in_range (ucast idx) (src_func_id (hdr rcv)) (ucast (qc_qid_hw (m_qctxt rcv))) rm
      \<noteq> QDMA_DEV_Q_IN_RANGE"
    and "qdma_dev_qinfo_get (ucast idx) (src_func_id (hdr rcv)) rm = (QDMA_SUCCESS, info)"
  shows "\<exists>resp'. qdma_mbox_pf_rcv_msg_handler hw idx func_id (Some rcv) resp rm d = Some (0, resp', rm, d) \<and>
    qdma_mbox_vf_response_status resp' = QDMA_SUCCESS"
  using assms(3) unfolding checked_out_of_range [OF assms(1,2)]
  by (simp add: finish_def qdma_mbox_vf_response_status_def)

theorem mbox_out_of_range_reports_success_witness:
  "\<exists>resp'. qdma_mbox_pf_rcv_msg_handler counting_hw 0 4 (Some foreign_write) msg_zero demo_two 0
      = Some (0, resp', demo_two, 0) \<and> qdma_mbox_vf_response_status resp' = 0"
proof -
  have "qdma_dev_is_queue_in_range (ucast (0 :: u8)) 6 (ucast (2 :: u16)) demo_two \<noteq> QDMA_DEV_Q_IN_RANGE"
    "qdma_dev_qinfo_get (ucast (0 :: u8)) 6 demo_two = (QDMA_SUCCESS, Some (-1, 0))"
    by code_simp+
  with mbox_out_of_range_reports_success [OF foreign_write_simps(4), of 0 demo_two _ counting_hw 4 msg_zero 0]
  show ?thesis by (simp add: foreign_write_simps)
qed

text \<open>Some context operations ignore ownership.  Reading the contexts of a queue, and clearing
  or invalidating a completion context alone, are carried out without asking the resource
  manager: the result, the response and the effect on the device are the same for every state of
  the resource manager, whoever owns the queue.\<close>

theorem mbox_unchecked_context_ops:
  assumes "unchecked_ctxt_op rcv"
  shows "\<exists>ret resp' d'. \<forall>rm. qdma_mbox_pf_rcv_msg_handler hw idx func_id (Some rcv) resp rm d =
    Some (ret, resp', rm, d')"
proof (cases "hdr_op (hdr rcv) = MBOX_OP_QCTXT_RD")
  case True
  obtain rv ctxt d1 where "mbox_read_queue_contexts hw (src_func_id (hdr rcv)) (qc_qid_hw (m_qctxt rcv))
      (ucast (qc_st (m_qctxt rcv))) (ucast (qc_c2h (m_qctxt rcv))) (cmpt_ctxt_type (m_qctxt rcv))
      (descq_ctxt (m_qctxt resp)) d = (rv, ctxt, d1)" by (metis prod.exhaust)
  with True show ?thesis by (simp add: qdma_mbox_pf_rcv_msg_handler_def mbox_defs Let_def finish_def)
next
  case False
  define access where
    "access = (if hdr_op (hdr rcv) = MBOX_OP_QCTXT_CLR then QDMA_HW_ACCESS_CLEAR else QDMA_HW_ACCESS_INVALIDATE)"
  obtain rv d1 where "and_then (no_ctxt (hw_cmpt_ctx_conf hw (qc_qid_hw (m_qctxt rcv)) None access d))
      (\<lambda>d. (QDMA_SUCCESS, d)) = (rv, d1)" by (metis prod.exhaust)
  with False assms show ?thesis
    by (auto simp: qdma_mbox_pf_rcv_msg_handler_def unchecked_ctxt_op_def mbox_defs finish_def access_def
        mbox_clear_queue_contexts_def mbox_invalidate_queue_contexts_def erase_queue_contexts_def)
qed

theorem mbox_unchecked_context_ops_witness:
  "\<exists>msg ret resp'. qdma_mbox_compose_vf_qctxt_clear 6 2 0 0 QDMA_MBOX_CMPT_CTXT_ONLY (Some msg_zero) = (0, Some msg) \<and>
     qdma_mbox_pf_rcv_msg_handler counting_hw 0 4 (Some msg) msg_zero demo_two 0 = Some (ret, resp', demo_two, 1)"
proof -
  let ?msg = "the (snd (qdma_mbox_compose_vf_qctxt_clear 6 2 0 0 QDMA_MBOX_CMPT_CTXT_ONLY (Some msg_zero)))"
  have "unchecked_ctxt_op ?msg" by (simp add: unchecked_ctxt_op_def compose_defs)
  from mbox_unchecked_context_ops [OF this, of counting_hw 0 4 msg_zero 0]
  obtain ret resp' d' where
    h: "\<forall>rm. qdma_mbox_pf_rcv_msg_handler counting_hw 0 4 (Some ?msg) msg_zero rm 0 = Some (ret, resp', rm, d')"
    by blast
  have "map_option (\<lambda>(_, _, _, d). d)
      (qdma_mbox_pf_rcv_msg_handler counting_hw 0 4 (Some ?msg) msg_zero demo_two 0) = Some 1" by code_simp
  with h have "d' = 1" by simp
  with h show ?thesis by (simp add: compose_defs)
qed

section \<open>Counts of active queues\<close>

lemma device_count_range:
  "- (2 ^ 31) \<le> qdma_get_device_active_queue_count idx fid t rm \<and>
     qdma_get_device_active_queue_count idx fid t rm < 2 ^ 31"
proof -
  have "- (2 ^ 31) \<le> sint (w :: u32) \<and> sint w < 2 ^ 31" for w
    using sint_greater_eq [of w] sint_less [of w] by simp
  then show ?thesis by (auto simp: qdma_get_device_active_queue_count_def split: option.splits)
qed

lemma count_fits_int:
  "signed_take_bit 31 (qdma_get_device_active_queue_count idx fid t rm) =
     qdma_get_device_active_queue_count idx fid t rm"
  using device_count_range [of idx fid t rm] by (simp add: signed_take_bit_int_eq_self)

text \<open>A virtual function reads its counts of active queues correctly, but not its status.  For
  every queue type the count in the response is the one of the resource manager; the status of the
  response is the count of completion queues cut to a signed byte, so it is zero only for certain
  counts.\<close>

theorem mbox_active_counts:
  assumes "hdr_op (hdr rcv) = MBOX_OP_GET_QACTIVE_CNT" and "q_type \<in> {QDMA_DEV_Q_TYPE_H2C, QDMA_DEV_Q_TYPE_C2H, QDMA_DEV_Q_TYPE_CMPT}"
  shows "\<exists>resp'. qdma_mbox_pf_rcv_msg_handler hw idx func_id (Some rcv) resp rm d = Some (0, resp', rm, d) \<and>
    qdma_mbox_vf_active_queues_get resp' q_type =
      qdma_get_device_active_queue_count (ucast idx) (src_func_id (hdr rcv)) q_type rm \<and>
    qdma_mbox_vf_response_status resp' = signed_take_bit 7
      (qdma_get_device_active_queue_count (ucast idx) (src_func_id (hdr rcv)) QDMA_DEV_Q_TYPE_CMPT rm)"
  using assms
  by (auto simp: qdma_mbox_pf_rcv_msg_handler_def mbox_defs op_get_qactive_cnt_def Let_def finish_def
      qdma_mbox_vf_active_queues_get_def qdma_mbox_vf_response_status_def count_fits_int sint_sbintrunc')

text \<open>A function with 200 completion queues, all active, reads status \<open>-56\<close>.\<close>

definition demo_busy :: rm_state where
  "demo_busy = \<lparr>master_resource_list = [\<lparr>dma_device_index = 0, pci_bus_start = 0, pci_bus_end = 1, rm_total_q = 256,
     rm_qbase = 0, dev_list = [\<lparr>de_func_id = 5, active_h2c_qcnt = 200, active_c2h_qcnt = 200, active_cmpt_qcnt = 200,
       de_entry = \<lparr>re_qbase = 0, re_total_q = 200\<rparr>\<rparr>], free_list = [\<lparr>re_qbase = 200, re_total_q = 56\<rparr>],
     active_qcnt = 600\<rparr>], rm_index = 1, rm_mem = []\<rparr>"

theorem mbox_active_counts_witness:
  "\<exists>msg resp'. qdma_mbox_compose_vf_get_device_active_qcnt 5 (Some msg_zero) = (0, Some msg) \<and>
     qdma_mbox_pf_rcv_msg_handler idle_hw 0 4 (Some msg) msg_zero demo_busy () = Some (0, resp', demo_busy, ()) \<and>
     qdma_mbox_vf_active_queues_get resp' QDMA_DEV_Q_TYPE_CMPT = 200 \<and>
     qdma_mbox_vf_response_status resp' = - 56"
proof -
  let ?msg = "the (snd (qdma_mbox_compose_vf_get_device_active_qcnt 5 (Some msg_zero)))"
  have msg: "hdr_op (hdr ?msg) = MBOX_OP_GET_QACTIVE_CNT" "src_func_id (hdr ?msg) = 5"
    by (simp_all add: compose_defs)
  have c: "qdma_get_device_active_queue_count 0 5 2 demo_busy = 200"
    by code_simp
  from mbox_active_counts [OF msg(1), of QDMA_DEV_Q_TYPE_CMPT idle_hw 0 4 msg_zero demo_busy "()"]
  show ?thesis by (auto simp: msg c compose_defs)
qed

end
