(* ===== verification/SoftMbox.thy ===== *)
theory SoftMbox
  imports CsrProps MboxProps
begin

text \<open>
  The mailbox handler on the soft QDMA IP: the table of access functions that
  \<^verbatim>\<open>qdma_hw_access_init\<close> fills for this IP, and what a context write request of a virtual function
  does to the contexts stored in the device.
\<close>

section \<open>The access table\<close>

text \<open>The register list read is not modelled and is an argument.\<close>

definition soft_access ::
    "'s hw_dev \<Rightarrow> (u8 \<Rightarrow> u16 \<Rightarrow> 's \<Rightarrow> int \<times> u16 \<times> qdma_reg_data list \<times> 's) \<Rightarrow> 's qdma_hw_access" where
  "soft_access hw rdlist =
     \<lparr>hw_fmap_conf = qdma_fmap_conf (Some hw), hw_sw_ctx_conf = qdma_sw_ctx_conf (Some hw),
      hw_pfetch_ctx_conf = qdma_pfetch_ctx_conf (Some hw), hw_cmpt_ctx_conf = qdma_cmpt_ctx_conf (Some hw),
      hw_hw_ctx_conf = qdma_hw_ctx_conf (Some hw), hw_credit_ctx_conf = qdma_credit_ctx_conf (Some hw),
      hw_indirect_intr_ctx_conf = qdma_indirect_intr_ctx_conf (Some hw),
      hw_global_csr_conf = (\<lambda>index count vals t access s.
        case qdma_global_csr_conf (Some hw) index count (Some vals) t access s of
          (rv, vs, s) \<Rightarrow> (rv, case vs of Some vs \<Rightarrow> vs | None \<Rightarrow> vals, s)),
      hw_get_device_attributes = device_attributes hw, hw_read_reg_list = rdlist,
      mbox_base_pf = 0x2400, mbox_base_vf = 0x1000\<rparr>"

section \<open>Effects on the stored contexts\<close>

definition does ::
    "('s \<Rightarrow> 'm) \<Rightarrow> ('s \<Rightarrow> int \<times> 's) \<Rightarrow> ('m \<Rightarrow> 'm) \<Rightarrow> bool" where
  "does ctx f g \<longleftrightarrow> (\<forall>d. \<exists>d'. f d = (QDMA_SUCCESS, d') \<and> ctx d' = g (ctx d))"

definition ctx_put ::
    "ind_ctxt_cmd_sel \<Rightarrow> u16 \<Rightarrow> u32 list \<Rightarrow> (ind_ctxt_cmd_sel \<Rightarrow> u16 \<Rightarrow> u32 list) \<Rightarrow>
       ind_ctxt_cmd_sel \<Rightarrow> u16 \<Rightarrow> u32 list" where
  "ctx_put sel q ws m = m(sel := (m sel)(q := ws))"

lemma does_return: "does ctx (\<lambda>d. (QDMA_SUCCESS, d)) (\<lambda>m. m)"
  by (simp add: does_def)

lemma does_then:
  assumes "does ctx f g" and "does ctx k h"
  shows "does ctx (\<lambda>d. and_then (f d) k) (\<lambda>m. h (g m))"
  unfolding does_def
proof
  fix d
  obtain d1 where "f d = (QDMA_SUCCESS, d1)" "ctx d1 = g (ctx d)" using assms(1) unfolding does_def by blast
  moreover obtain d2 where "k d1 = (QDMA_SUCCESS, d2)" "ctx d2 = h (ctx d1)" using assms(2) unfolding does_def by blast
  ultimately show "\<exists>d'. and_then (f d) k = (QDMA_SUCCESS, d') \<and> ctx d' = h (g (ctx d))"
    by (simp add: and_then_def)
qed

lemma does_if:
  "(b \<Longrightarrow> does ctx f g) \<Longrightarrow> does ctx (\<lambda>d. if b then f d else (QDMA_SUCCESS, d)) (\<lambda>m. if b then g m else m)"
  by (cases b) (simp_all add: does_def)

lemma c2h_small: "\<not> (ucast (b :: 1 word) :: u8) > 1"
proof -
  have "unat b < 2 ^ 1" using unsigned_less [of b] by simp
  then have "unat (ucast b :: u8) \<le> 1" by (simp add: unsigned_ucast_eq take_bit_nat_eq_self)
  then show ?thesis by (simp add: word_less_nat_alt)
qed

lemma clear_does:
  assumes "ctxt_engine hw regs ctx"
  shows "does ctx (ctxt_clear sel (Some hw) qid) (ctx_put sel (take_bit 12 qid) (replicate 8 0))"
  using indirect_erase(1) [OF assms] by (simp add: does_def ctxt_clear_def ctx_put_def)

lemma ctxt_write_some: "ctxt_write words sel (Some hw) qid (Some c) = qdma_indirect_reg_write hw sel qid (words c)"
  by (rule ext) (simp add: ctxt_write_def)

lemma write_does:
  assumes "ctxt_engine hw regs ctx" and "length (words c) \<le> 8"
  shows "does ctx (ctxt_write words sel (Some hw) qid (Some c)) (ctx_put sel (take_bit 12 qid) (ctxt_data (words c)))"
  unfolding does_def
proof
  fix d
  obtain d' where "qdma_indirect_reg_write hw sel qid (words c) d = (QDMA_SUCCESS, d')"
      "ctx d' = (ctx d)(sel := (ctx d sel)(take_bit 12 qid := ctxt_data (words c)))"
    using indirect_write [OF assms, of sel qid d] by blast
  then show "\<exists>d'. ctxt_write words sel (Some hw) qid (Some c) d = (QDMA_SUCCESS, d') \<and>
      ctx d' = ctx_put sel (take_bit 12 qid) (ctxt_data (words c)) (ctx d)"
    by (simp add: ctxt_write_def ctx_put_def)
qed

lemma soft_clear_does:
  assumes e: "ctxt_engine hw regs ctx" and c2h: "\<not> c2h > (1 :: u8)"
  shows "does ctx (\<lambda>d. no_ctxt (hw_sw_ctx_conf (soft_access hw rl) c2h qid None QDMA_HW_ACCESS_CLEAR d))
      (ctx_put (sw_sel c2h) (take_bit 12 qid) (replicate 8 0))"
    and "does ctx (\<lambda>d. no_ctxt (hw_hw_ctx_conf (soft_access hw rl) c2h qid None QDMA_HW_ACCESS_CLEAR d))
      (ctx_put (hw_sel c2h) (take_bit 12 qid) (replicate 8 0))"
    and "does ctx (\<lambda>d. no_ctxt (hw_credit_ctx_conf (soft_access hw rl) c2h qid None QDMA_HW_ACCESS_CLEAR d))
      (ctx_put (cr_sel c2h) (take_bit 12 qid) (replicate 8 0))"
    and "does ctx (\<lambda>d. no_ctxt (hw_pfetch_ctx_conf (soft_access hw rl) qid None QDMA_HW_ACCESS_CLEAR d))
      (ctx_put QDMA_CTXT_SEL_PFTCH (take_bit 12 qid) (replicate 8 0))"
    and "does ctx (\<lambda>d. no_ctxt (hw_cmpt_ctx_conf (soft_access hw rl) qid None QDMA_HW_ACCESS_CLEAR d))
      (ctx_put QDMA_CTXT_SEL_CMPT (take_bit 12 qid) (replicate 8 0))"
  using clear_does [OF e] c2h
  by (simp_all add: soft_access_def no_ctxt_def keep_ctxt_def qdma_sw_ctx_conf_def qdma_hw_ctx_conf_def
      qdma_credit_ctx_conf_def qdma_pfetch_ctx_conf_def qdma_cmpt_ctx_conf_def qdma_sw_context_clear_def
      qdma_hw_context_clear_def qdma_credit_context_clear_def qdma_pfetch_context_clear_def
      qdma_cmpt_context_clear_def)

lemma soft_write_does:
  assumes e: "ctxt_engine hw regs ctx"
  shows "\<not> c2h > (1 :: u8) \<Longrightarrow>
      does ctx (\<lambda>d. no_ctxt (hw_sw_ctx_conf (soft_access hw rl) c2h qid (Some sw) QDMA_HW_ACCESS_WRITE d))
        (ctx_put (sw_sel c2h) (take_bit 12 qid) (ctxt_data (sw_words sw)))"
    and "does ctx (\<lambda>d. no_ctxt (hw_pfetch_ctx_conf (soft_access hw rl) qid (Some pf) QDMA_HW_ACCESS_WRITE d))
        (ctx_put QDMA_CTXT_SEL_PFTCH (take_bit 12 qid) (ctxt_data (pfetch_words pf)))"
    and "\<not> cm_trig_mode cm > QDMA_CMPT_UPDATE_TRIG_MODE_TMR_CNTR \<Longrightarrow>
      does ctx (\<lambda>d. no_ctxt (hw_cmpt_ctx_conf (soft_access hw rl) qid (Some cm) QDMA_HW_ACCESS_WRITE d))
        (ctx_put QDMA_CTXT_SEL_CMPT (take_bit 12 qid) (ctxt_data (cmpt_words cm)))"
proof -
  have len: "length (sw_words sw) \<le> 8" "length (pfetch_words pf) \<le> 8" "length (cmpt_words cm) \<le> 8"
    by (simp_all add: sw_words_def pfetch_words_def cmpt_words_def)
  show "does ctx (\<lambda>d. no_ctxt (hw_sw_ctx_conf (soft_access hw rl) c2h qid (Some sw) QDMA_HW_ACCESS_WRITE d))
        (ctx_put (sw_sel c2h) (take_bit 12 qid) (ctxt_data (sw_words sw)))" if "\<not> c2h > (1 :: u8)"
    using write_does [OF e, where words = sw_words and c = sw and qid = qid, OF len(1)] that
    by (simp add: soft_access_def no_ctxt_def keep_ctxt_def qdma_sw_ctx_conf_def qdma_sw_context_write_def)
  show "does ctx (\<lambda>d. no_ctxt (hw_pfetch_ctx_conf (soft_access hw rl) qid (Some pf) QDMA_HW_ACCESS_WRITE d))
        (ctx_put QDMA_CTXT_SEL_PFTCH (take_bit 12 qid) (ctxt_data (pfetch_words pf)))"
    using write_does [OF e, where words = pfetch_words and c = pf and qid = qid, OF len(2)]
    by (simp add: soft_access_def no_ctxt_def keep_ctxt_def qdma_pfetch_ctx_conf_def qdma_pfetch_context_write_def)
  show "does ctx (\<lambda>d. no_ctxt (hw_cmpt_ctx_conf (soft_access hw rl) qid (Some cm) QDMA_HW_ACCESS_WRITE d))
        (ctx_put QDMA_CTXT_SEL_CMPT (take_bit 12 qid) (ctxt_data (cmpt_words cm)))"
    if "\<not> cm_trig_mode cm > QDMA_CMPT_UPDATE_TRIG_MODE_TMR_CNTR"
    using write_does [OF e, where words = cmpt_words and c = cm and qid = qid, OF len(3)] that
    by (simp add: soft_access_def no_ctxt_def keep_ctxt_def qdma_cmpt_ctx_conf_def qdma_cmpt_context_write_def
        ctxt_write_some)
qed

section \<open>Clearing and writing the contexts of a queue\<close>

definition queue_in_range :: "rm_state \<Rightarrow> u8 \<Rightarrow> u16 \<Rightarrow> u16 \<Rightarrow> bool" where
  "queue_in_range rm idx fid qid \<longleftrightarrow>
     qdma_dev_is_queue_in_range (ucast idx) fid (ucast qid) rm = QDMA_DEV_Q_IN_RANGE"

lemma in_range_qinfo: "queue_in_range rm idx fid qid \<Longrightarrow> fst (qdma_dev_qinfo_get (ucast idx) fid rm) = 0"
  by (auto simp: queue_in_range_def qdma_dev_is_queue_in_range_def qdma_dev_qinfo_get_def
      split: option.splits if_splits)

text \<open>What clearing does to the stored contexts.\<close>

definition cleared :: "u8 \<Rightarrow> u8 \<Rightarrow> mbox_cmpt_ctxt_type \<Rightarrow> u16 \<Rightarrow> (ind_ctxt_cmd_sel \<Rightarrow> u16 \<Rightarrow> u32 list) \<Rightarrow>
    ind_ctxt_cmd_sel \<Rightarrow> u16 \<Rightarrow> u32 list" where
  "cleared st c2h ct q m =
     (let zero = (\<lambda>sel m. ctx_put sel q (replicate 8 0) m);
          m = zero (cr_sel c2h) (zero (hw_sel c2h) (zero (sw_sel c2h) m));
          m = (if st \<noteq> 0 \<and> c2h \<noteq> 0 then zero QDMA_CTXT_SEL_PFTCH m else m)
      in if with_cmpt ct then zero QDMA_CTXT_SEL_CMPT m else m)"

lemma clear_queue_does:
  assumes e: "ctxt_engine hw regs ctx" and c2h: "\<not> c2h > 1" and r: "queue_in_range rm idx fid qid"
    and ct: "ct \<noteq> QDMA_MBOX_CMPT_CTXT_ONLY"
  shows "does ctx (mbox_clear_queue_contexts (soft_access hw rl) rm idx fid qid st c2h ct)
    (cleared st c2h ct (take_bit 12 qid))"
proof -
  note clr = soft_clear_does [OF e c2h, where qid = qid and rl = rl]
  have "mbox_clear_queue_contexts (soft_access hw rl) rm idx fid qid st c2h ct = (\<lambda>d.
      and_then (no_ctxt (hw_sw_ctx_conf (soft_access hw rl) c2h qid None QDMA_HW_ACCESS_CLEAR d)) (\<lambda>d.
      and_then (no_ctxt (hw_hw_ctx_conf (soft_access hw rl) c2h qid None QDMA_HW_ACCESS_CLEAR d)) (\<lambda>d.
      and_then (no_ctxt (hw_credit_ctx_conf (soft_access hw rl) c2h qid None QDMA_HW_ACCESS_CLEAR d)) (\<lambda>d.
      and_then (if st \<noteq> 0 \<and> c2h \<noteq> 0
                then no_ctxt (hw_pfetch_ctx_conf (soft_access hw rl) qid None QDMA_HW_ACCESS_CLEAR d)
                else (QDMA_SUCCESS, d)) (\<lambda>d.
      and_then (if with_cmpt ct
                then no_ctxt (hw_cmpt_ctx_conf (soft_access hw rl) qid None QDMA_HW_ACCESS_CLEAR d)
                else (QDMA_SUCCESS, d)) (\<lambda>d. (QDMA_SUCCESS, d)))))))"
    using in_range_qinfo [OF r] r ct
    by (simp add: mbox_clear_queue_contexts_def erase_queue_contexts_def queue_in_range_def fun_eq_iff)
  moreover note does_then [OF clr(1) does_then [OF clr(2) does_then [OF clr(3)
      does_then [OF does_if [of "st \<noteq> 0 \<and> c2h \<noteq> 0", OF clr(4)]
        does_then [OF does_if [of "with_cmpt ct", OF clr(5)] does_return]]]]]
  ultimately show ?thesis by (simp only: cleared_def [abs_def] Let_def)
qed

section \<open>Looking up configured sizes\<close>

definition csr_vals :: "(u32 \<Rightarrow> u32) \<Rightarrow> qdma_global_csr_type \<Rightarrow> u32 list" where
  "csr_vals r t = map (\<lambda>i. r (reg_at (csr_base t) i)) [0 ..< 16]"

lemma csr_idx_soft:
  assumes plain: "plain_regs hw regs (attr_addrs \<union> csr_addrs)" and sup: "csr_supported t (attr_of (regs d))"
  shows "csr_idx (soft_access hw rl) t P err d =
    (case first_idx P (csr_vals (regs d) t) of Some i \<Rightarrow> (QDMA_SUCCESS, i, d) | None \<Rightarrow> (- err, 0, d))"
proof -
  have t: "t \<noteq> QDMA_CSR_MAX" using sup by auto
  have "\<forall>i < 16. reg_at (csr_base t) (0 + i) \<in> attr_addrs \<union> csr_addrs" using t by (auto simp: csr_addrs_def)
  from plain_read_seq [OF plain this]
  have "read_seq hw (csr_base t) 16 d = (csr_vals (regs d) t, d)" by (simp add: csr_vals_def reg_at_simps)
  then have "qdma_global_csr_conf (Some hw) 0 16 (Some (replicate 16 0)) t QDMA_HW_ACCESS_READ d =
      (QDMA_SUCCESS, Some (csr_vals (regs d) t), d)"
    using global_csr_read [OF plain sup, of 16 0 "replicate 16 0"] by (simp add: reg_at_simps)
  then show ?thesis by (simp add: csr_idx_def soft_access_def)
qed

section \<open>A context write request\<close>

text \<open>The indices that the sizes of a request have in the configuration arrays, if they are
  configured and the device has the arrays the request needs.\<close>

record size_idx =
  i_ring :: nat
  i_buf :: nat
  i_cntr :: nat
  i_tmr :: nat
  i_cmpt_ring :: nat

definition wants_pfetch :: "mbox_msg_qctxt \<Rightarrow> bool" where
  "wants_pfetch q \<longleftrightarrow> qc_st q \<noteq> 0 \<and> qc_c2h q \<noteq> 0"

definition sizes_configured :: "(u32 \<Rightarrow> u32) \<Rightarrow> mbox_msg_qctxt \<Rightarrow> size_idx \<Rightarrow> bool" where
  "sizes_configured r q i \<longleftrightarrow>
     (let conf = descq_conf q; at = (\<lambda>t P. first_idx P (csr_vals r t)) in
      at QDMA_CSR_RING_SZ (\<lambda>v. ucast (dc_ringsz conf) = v - 1) = Some (i_ring i) \<and>
      (wants_pfetch q \<longrightarrow> st_en (attr_of r) \<noteq> 0 \<and>
         at QDMA_CSR_BUF_SZ (\<lambda>v. v = ucast (dc_bufsz conf)) = Some (i_buf i)) \<and>
      (with_cmpt (cmpt_ctxt_type q) \<longrightarrow> st_or_cmpt (attr_of r) \<and>
         at QDMA_CSR_CNT_TH (\<lambda>v. v = ucast (dc_cnt_thres conf)) = Some (i_cntr i) \<and>
         at QDMA_CSR_TIMER_CNT (\<lambda>v. v = ucast (dc_timer_thres conf)) = Some (i_tmr i) \<and>
         at QDMA_CSR_RING_SZ (\<lambda>v. ucast (dc_cmpt_ringsz conf) = v - 1) = Some (i_cmpt_ring i) \<and>
         dc_triggermode conf \<le> 5))"

lemma compose_soft:
  assumes plain: "plain_regs hw regs (attr_addrs \<union> csr_addrs)" and c: "sizes_configured (regs d) q i"
  shows "mbox_compose_sw_context (soft_access hw rl) q sw d = (QDMA_SUCCESS, sw_of_conf q (i_ring i) sw, d)"
    and "wants_pfetch q \<Longrightarrow> mbox_compose_prefetch_context (soft_access hw rl) q pf d =
      (QDMA_SUCCESS, pf_of_conf (descq_conf q) (i_buf i) pf, d)"
    and "with_cmpt (cmpt_ctxt_type q) \<Longrightarrow> mbox_compose_cmpt_context (soft_access hw rl) q cm d =
      (QDMA_SUCCESS, cm_of_conf (descq_conf q) (i_cntr i) (i_tmr i) (i_cmpt_ring i) cm, d)"
  using c
  by (simp_all add: sizes_configured_def Let_def mbox_compose_sw_context_def get_ring_idx_def
      mbox_compose_prefetch_context_def get_buf_idx_def mbox_compose_cmpt_context_def get_cntr_idx_def
      get_tmr_idx_def csr_idx_soft [OF plain])

text \<open>The contexts after a write request.\<close>

definition written :: "mbox_msg_qctxt \<Rightarrow> size_idx \<Rightarrow> (ind_ctxt_cmd_sel \<Rightarrow> u16 \<Rightarrow> u32 list) \<Rightarrow>
    ind_ctxt_cmd_sel \<Rightarrow> u16 \<Rightarrow> u32 list" where
  "written q i m =
     (let c2h = ucast (qc_c2h q); k = take_bit 12 (qc_qid_hw q); conf = descq_conf q;
          m = cleared (ucast (qc_st q)) c2h (cmpt_ctxt_type q) k m;
          m = ctx_put (sw_sel c2h) k (ctxt_data (sw_words (sw_of_conf q (i_ring i) sw_zero))) m;
          m = (if wants_pfetch q
               then ctx_put QDMA_CTXT_SEL_PFTCH k (ctxt_data (pfetch_words (pf_of_conf conf (i_buf i) pf_zero))) m
               else m)
      in if with_cmpt (cmpt_ctxt_type q)
         then ctx_put QDMA_CTXT_SEL_CMPT k (ctxt_data (cmpt_words
                (cm_of_conf conf (i_cntr i) (i_tmr i) (i_cmpt_ring i) cm_zero))) m
         else m)"

lemma trig_mode_ok:
  assumes "dc_triggermode conf \<le> 5"
  shows "\<not> cm_trig_mode (cm_of_conf conf a b c cm_zero) > QDMA_CMPT_UPDATE_TRIG_MODE_TMR_CNTR"
proof -
  have "unat (dc_triggermode conf) < 2 ^ 3" using unsigned_less [of "dc_triggermode conf"] by simp
  then have "unat (ucast (dc_triggermode conf) :: u8) = unat (dc_triggermode conf)"
    by (simp add: unsigned_ucast_eq take_bit_nat_eq_self)
  then show ?thesis using assms by (simp add: cm_of_conf_def word_less_nat_alt word_le_nat_alt)
qed

lemma write_queue_does:
  assumes e: "ctxt_engine hw regs ctx" and plain: "plain_regs hw regs (attr_addrs \<union> csr_addrs)"
    and r: "queue_in_range rm idx (dc_func_id (descq_conf q)) (qc_qid_hw q)"
    and ct: "cmpt_ctxt_type q \<noteq> QDMA_MBOX_CMPT_CTXT_ONLY" and c: "sizes_configured (regs d) q i"
  shows "\<exists>d'. mbox_write_queue_contexts (soft_access hw rl) rm idx q d = (QDMA_SUCCESS, d') \<and>
    ctx d' = written q i (ctx d)"
proof -
  let ?c2h = "ucast (qc_c2h q) :: u8" and ?k = "qc_qid_hw q" and ?conf = "descq_conf q"
  let ?sw = "sw_of_conf q (i_ring i) sw_zero" and ?pf = "pf_of_conf ?conf (i_buf i) pf_zero"
  let ?cm = "cm_of_conf ?conf (i_cntr i) (i_tmr i) (i_cmpt_ring i) cm_zero"
  let ?cmpt = "with_cmpt (cmpt_ctxt_type q)"
  note comp = compose_soft [OF plain c, where rl = rl]
  have trig: "?cmpt \<Longrightarrow> \<not> cm_trig_mode ?cm > QDMA_CMPT_UPDATE_TRIG_MODE_TMR_CNTR"
    using c by (intro trig_mode_ok) (simp add: sizes_configured_def Let_def)
  have eq: "mbox_write_queue_contexts (soft_access hw rl) rm idx q d = (\<lambda>d.
      and_then (mbox_clear_queue_contexts (soft_access hw rl) rm idx (dc_func_id ?conf) ?k
        (ucast (qc_st q)) ?c2h (cmpt_ctxt_type q) d) (\<lambda>d.
      and_then (no_ctxt (hw_sw_ctx_conf (soft_access hw rl) ?c2h ?k (Some ?sw) QDMA_HW_ACCESS_WRITE d)) (\<lambda>d.
      and_then (if wants_pfetch q
        then no_ctxt (hw_pfetch_ctx_conf (soft_access hw rl) ?k (Some ?pf) QDMA_HW_ACCESS_WRITE d)
        else (QDMA_SUCCESS, d)) (\<lambda>d.
      and_then (if ?cmpt then no_ctxt (hw_cmpt_ctx_conf (soft_access hw rl) ?k (Some ?cm) QDMA_HW_ACCESS_WRITE d)
        else (QDMA_SUCCESS, d)) (\<lambda>d. (QDMA_SUCCESS, d)))))) d"
    using in_range_qinfo [OF r] r ct comp
    by (cases "wants_pfetch q"; cases ?cmpt)
      (simp_all add: mbox_write_queue_contexts_def write_queue_ctxts_def queue_in_range_def Let_def
        wants_pfetch_def [symmetric])
  note does_then [OF clear_queue_does [OF e c2h_small r ct, where rl = rl and st = "ucast (qc_st q)"]
      does_then [OF soft_write_does(1) [OF e c2h_small, where rl = rl and qid = ?k and sw = ?sw]
        does_then [OF does_if [of "wants_pfetch q", OF soft_write_does(2) [OF e, where rl = rl and qid = ?k and pf = ?pf]]
          does_then [OF does_if [of ?cmpt, OF soft_write_does(3) [OF e trig, where rl = rl and qid = ?k]] does_return]]]]
  then show ?thesis unfolding eq by (simp only: does_def written_def [abs_def] Let_def)
qed

text \<open>The contexts that a write request may change: software, hardware and credit context of the direction of the
  request, the prefetch context for streaming to the host, and the completion context if the request has one.\<close>

definition written_sels :: "mbox_msg_qctxt \<Rightarrow> ind_ctxt_cmd_sel set" where
  "written_sels q =
     (if qc_c2h q \<noteq> 0 then {QDMA_CTXT_SEL_SW_C2H, QDMA_CTXT_SEL_HW_C2H, QDMA_CTXT_SEL_CR_C2H}
      else {QDMA_CTXT_SEL_SW_H2C, QDMA_CTXT_SEL_HW_H2C, QDMA_CTXT_SEL_CR_H2C}) \<union>
     (if qc_st q \<noteq> 0 \<and> qc_c2h q \<noteq> 0 then {QDMA_CTXT_SEL_PFTCH} else {}) \<union>
     (if with_cmpt (cmpt_ctxt_type q) then {QDMA_CTXT_SEL_CMPT} else {})"

lemma ucast_1bit_0: "(ucast (b :: 1 word) :: u8) = 0 \<longleftrightarrow> b = 0"
proof -
  have "unat b < 2 ^ 1" using unsigned_less [of b] by simp
  then have "unat (ucast b :: u8) = unat b" by (simp add: unsigned_ucast_eq take_bit_nat_eq_self)
  then show ?thesis by (metis unat_eq_zero)
qed

lemma written_simps:
  fixes q i m
  defines "c2h \<equiv> ucast (qc_c2h q) :: u8" and "k \<equiv> take_bit 12 (qc_qid_hw q)"
  shows "written q i m (sw_sel c2h) k = ctxt_data (sw_words (sw_of_conf q (i_ring i) sw_zero))"
    and "written q i m (hw_sel c2h) k = replicate 8 0" and "written q i m (cr_sel c2h) k = replicate 8 0"
    and "wants_pfetch q \<Longrightarrow> written q i m QDMA_CTXT_SEL_PFTCH k =
      ctxt_data (pfetch_words (pf_of_conf (descq_conf q) (i_buf i) pf_zero))"
    and "with_cmpt (cmpt_ctxt_type q) \<Longrightarrow> written q i m QDMA_CTXT_SEL_CMPT k =
      ctxt_data (cmpt_words (cm_of_conf (descq_conf q) (i_cntr i) (i_tmr i) (i_cmpt_ring i) cm_zero))"
    and "k2 \<noteq> k \<or> sel \<notin> written_sels q \<Longrightarrow> written q i m sel k2 = m sel k2"
  unfolding assms
  by (simp_all add: written_def cleared_def ctx_put_def Let_def sw_sel_def hw_sel_def cr_sel_def)
    (auto simp: written_sels_def wants_pfetch_def sw_sel_def hw_sel_def cr_sel_def ucast_1bit_0)

lemma write_request_handled:
  assumes e: "ctxt_engine hw regs ctx" and plain: "plain_regs hw regs (attr_addrs \<union> csr_addrs)"
    and op: "hdr_op (hdr rcv) = MBOX_OP_QCTXT_WRT"
    and q: "q = (m_qctxt rcv)\<lparr>descq_conf := (descq_conf (m_qctxt rcv))\<lparr>dc_func_id := src_func_id (hdr rcv)\<rparr>\<rparr>"
    and r: "queue_in_range rm idx (src_func_id (hdr rcv)) (qc_qid_hw q)"
    and ct: "cmpt_ctxt_type q \<noteq> QDMA_MBOX_CMPT_CTXT_ONLY" and sizes: "sizes_configured (regs d) q i"
  shows "\<exists>resp' d'. qdma_mbox_pf_rcv_msg_handler (soft_access hw rl) idx func_id (Some rcv) resp rm d
      = Some (0, resp', rm, d') \<and> qdma_mbox_vf_response_status resp' = QDMA_SUCCESS \<and> ctx d' = written q i (ctx d)"
proof -
  have "dc_func_id (descq_conf q) = src_func_id (hdr rcv)" by (simp add: q)
  with write_queue_does [OF e plain _ ct sizes, where rl = rl and rm = rm and idx = idx] r
  obtain d' where w: "mbox_write_queue_contexts (soft_access hw rl) rm idx q d = (QDMA_SUCCESS, d')"
      "ctx d' = written q i (ctx d)" by auto
  have "qdma_mbox_pf_rcv_msg_handler (soft_access hw rl) idx func_id (Some rcv) resp rm d =
      finish func_id rcv 0 (QDMA_SUCCESS, resp, rm, d')"
    using op w(1) by (simp add: qdma_mbox_pf_rcv_msg_handler_def mbox_defs Let_def q)
  then show ?thesis by (simp add: finish_def qdma_mbox_vf_response_status_def w(2))
qed

text \<open>C4: A context write request programs exactly the contexts of its queue.  On the soft IP, when
  the queue belongs to the sender, the sizes of the request are configured in the device and the request is not for the
  completion context alone, the handler succeeds: the software context of the queue is the one composed from the
  request, its hardware and credit contexts are cleared, its prefetch and completion contexts are programmed if the
  request asks for them.  No other context changes, neither of another queue nor of this one.\<close>

theorem mbox_context_write_programs:
  assumes e: "ctxt_engine hw regs ctx" and plain: "plain_regs hw regs (attr_addrs \<union> csr_addrs)"
    and op: "hdr_op (hdr rcv) = MBOX_OP_QCTXT_WRT"
    and q: "q = (m_qctxt rcv)\<lparr>descq_conf := (descq_conf (m_qctxt rcv))\<lparr>dc_func_id := src_func_id (hdr rcv)\<rparr>\<rparr>"
    and r: "queue_in_range rm idx (src_func_id (hdr rcv)) (qc_qid_hw q)"
    and ct: "cmpt_ctxt_type q \<noteq> QDMA_MBOX_CMPT_CTXT_ONLY" and sizes: "sizes_configured (regs d) q i"
    and k: "k = take_bit 12 (qc_qid_hw q)" and c2h: "c2h = ucast (qc_c2h q)"
  shows "\<exists>resp' d'. qdma_mbox_pf_rcv_msg_handler (soft_access hw rl) idx func_id (Some rcv) resp rm d
      = Some (0, resp', rm, d') \<and> qdma_mbox_vf_response_status resp' = QDMA_SUCCESS \<and>
    ctx d' (sw_sel c2h) k = ctxt_data (sw_words (sw_of_conf q (i_ring i) sw_zero)) \<and>
    ctx d' (hw_sel c2h) k = replicate 8 0 \<and> ctx d' (cr_sel c2h) k = replicate 8 0 \<and>
    (wants_pfetch q \<longrightarrow> ctx d' QDMA_CTXT_SEL_PFTCH k =
       ctxt_data (pfetch_words (pf_of_conf (descq_conf q) (i_buf i) pf_zero))) \<and>
    (with_cmpt (cmpt_ctxt_type q) \<longrightarrow> ctx d' QDMA_CTXT_SEL_CMPT k =
       ctxt_data (cmpt_words (cm_of_conf (descq_conf q) (i_cntr i) (i_tmr i) (i_cmpt_ring i) cm_zero))) \<and>
    (\<forall>sel k2. k2 \<noteq> k \<or> sel \<notin> written_sels q \<longrightarrow> ctx d' sel k2 = ctx d sel k2)"
  using write_request_handled [OF e plain op q r ct sizes, where rl = rl and func_id = func_id and resp = resp]
  unfolding k c2h by (auto simp: written_simps)

definition write_msg :: qdma_mbox_txrx where
  "write_msg = the (snd (qdma_mbox_compose_vf_qctxt_write 5 2 1 1 QDMA_MBOX_CMPT_WITH_ST
     (conf_zero\<lparr>dc_ringsz := 64, dc_bufsz := 4096, dc_cnt_thres := 2, dc_timer_thres := 1,
                dc_cmpt_ringsz := 2048, dc_triggermode := 1\<rparr>) (Some msg_zero)))"

definition write_engine :: engine where
  "write_engine = \<lparr>e_regs = st_file(0x204 := 2049, 0x208 := 65, 0xA00 := 1, 0xA40 := 2, 0xAB0 := 4096),
     e_ctx = \<lambda>_ _ _. 7\<rparr>"

lemma cmd_not_csr: "QDMA_OFFSET_IND_CTXT_CMD \<notin> csr_addrs"
proof
  assume "QDMA_OFFSET_IND_CTXT_CMD \<in> csr_addrs"
  then obtain t i where ti: "QDMA_OFFSET_IND_CTXT_CMD = reg_at (csr_base t) i" "t \<noteq> QDMA_CSR_MAX" "i < 16"
    by (auto simp: csr_addrs_def)
  from csr_addr_bounds [OF ti(3,2)] have "unat (csr_base t) + 4 * i = 0x844"
    unfolding ti(1) [symmetric] by (simp add: QDMA_OFFSET_IND_CTXT_CMD_def)
  with ti(2,3) show False by (cases t) (simp_all add: reg_offsets)
qed

lemma engine_plain: "plain_regs engine_hw e_regs (attr_addrs \<union> csr_addrs)"
proof -
  have "QDMA_OFFSET_IND_CTXT_CMD \<notin> attr_addrs"
    by (simp add: attr_addrs_def reg_offsets QDMA_OFFSET_IND_CTXT_CMD_def)
  with cmd_not_csr show ?thesis by (auto simp: plain_regs_def engine_hw_def)
qed

theorem mbox_context_write_programs_witness:
  "\<exists>resp' d'. qdma_mbox_pf_rcv_msg_handler (soft_access engine_hw (\<lambda>_ _ s. (0, 0, [], s))) 0 4 (Some write_msg)
      msg_zero demo_two write_engine = Some (0, resp', demo_two, d') \<and>
    engine_ctx d' QDMA_CTXT_SEL_HW_C2H 2 = replicate 8 0 \<and>
    engine_ctx d' QDMA_CTXT_SEL_SW_H2C 2 = engine_ctx write_engine QDMA_CTXT_SEL_SW_H2C 2 \<and>
    (\<forall>sel. engine_ctx d' sel 1 = engine_ctx write_engine sel 1)"
proof -
  let ?q = "(m_qctxt write_msg)\<lparr>descq_conf := (descq_conf (m_qctxt write_msg))\<lparr>dc_func_id := src_func_id (hdr write_msg)\<rparr>\<rparr>"
  let ?i = "\<lparr>i_ring = 1, i_buf = 0, i_cntr = 0, i_tmr = 0, i_cmpt_ring = 0\<rparr>"
  have op: "hdr_op (hdr write_msg) = MBOX_OP_QCTXT_WRT" by code_simp
  have r: "queue_in_range demo_two 0 (src_func_id (hdr write_msg)) (qc_qid_hw ?q)" by code_simp
  have ct: "cmpt_ctxt_type ?q \<noteq> QDMA_MBOX_CMPT_CTXT_ONLY" by code_simp
  have sizes: "sizes_configured (e_regs write_engine) ?q ?i" by code_simp
  have sel: "QDMA_CTXT_SEL_SW_H2C \<notin> written_sels ?q" by code_simp
  have k: "2 = take_bit 12 (qc_qid_hw ?q)" and c: "1 = (ucast (qc_c2h ?q) :: u8)" by code_simp+
  from mbox_context_write_programs [OF engine_ok engine_plain op refl r ct sizes k c,
      of "\<lambda>_ _ s. (0, 0, [], s)" 4 msg_zero] sel
  show ?thesis by (auto simp: hw_sel_def)
qed

end
