(* ===== verification/DescqRing.thy ===== *)
theory DescqRing
  imports Prelude
begin

text \<open>
  Ring index arithmetic of the descriptor queues (\<^verbatim>\<open>qdma_descq.h\<close>, \<^verbatim>\<open>qdma_descq.c\<close>): the C
  functions on 32-bit words, and the interface \<open>ring_index\<close> that the queue theories use.  The
  interface reads an index through an abstraction function into the natural numbers below the
  ring size, where increment, decrement and distance are arithmetic modulo the ring size.
\<close>

section \<open>The functions of the code\<close>

definition ring_idx_delta :: "u32 \<Rightarrow> u32 \<Rightarrow> u32 \<Rightarrow> u32" where
  "ring_idx_delta new old rngsz = (if new \<ge> old then new - old else new + (rngsz - old))"

definition ring_idx_incr :: "u32 \<Rightarrow> u32 \<Rightarrow> u32 \<Rightarrow> u32" where
  "ring_idx_incr idx cnt rngsz = (let idx = idx + cnt in if idx \<ge> rngsz then idx - rngsz else idx)"

definition ring_idx_decr :: "u32 \<Rightarrow> u32 \<Rightarrow> u32 \<Rightarrow> u32" where
  "ring_idx_decr idx cnt rngsz = (if idx \<ge> cnt then idx - cnt else rngsz - (cnt - idx))"

definition incr_pidx :: "u32 \<Rightarrow> u32 \<Rightarrow> u32 \<Rightarrow> u32" where
  "incr_pidx pidx incr_val ring_sz =
     (let pidx = pidx + incr_val in if pidx \<ge> ring_sz then pidx - ring_sz else pidx)"

text \<open>The kernel function \<^verbatim>\<open>fls\<close>: the number of the highest set bit, counted from one.\<close>

definition fls :: "u32 \<Rightarrow> nat" where
  "fls w = (case List.find (bit w) (rev [0 ..< 32]) of Some n \<Rightarrow> Suc n | None \<Rightarrow> 0)"

definition get_next_powof2 :: "u32 \<Rightarrow> u32" where
  "get_next_powof2 value =
     (let num_bits = fls value - 1; msk = push_bit num_bits 1 - 1
      in push_bit num_bits (drop_bit num_bits (value + msk)))"

section \<open>The interface\<close>

text \<open>\<open>pos\<close> reads an index of the implementation; \<open>size n\<close> is the number of slots; \<open>ok n\<close> says that
  the ring is small enough for the arithmetic of the implementation.\<close>

locale ring_index =
  fixes incr :: "'i \<Rightarrow> 'i \<Rightarrow> 'n \<Rightarrow> 'i" and decr :: "'i \<Rightarrow> 'i \<Rightarrow> 'n \<Rightarrow> 'i"
    and delta :: "'i \<Rightarrow> 'i \<Rightarrow> 'n \<Rightarrow> 'i"
    and pos :: "'i \<Rightarrow> nat" and slots :: "'n \<Rightarrow> nat" and ok :: "'n \<Rightarrow> bool"
  assumes incr_law: "ok n \<Longrightarrow> pos i < slots n \<Longrightarrow> pos k \<le> slots n \<Longrightarrow> pos (incr i k n) = (pos i + pos k) mod slots n"
    and decr_law: "ok n \<Longrightarrow> pos i < slots n \<Longrightarrow> pos k \<le> slots n \<Longrightarrow>
      pos (decr i k n) = (if pos k \<le> pos i then pos i - pos k else slots n - (pos k - pos i))"
    and delta_law: "ok n \<Longrightarrow> pos i < slots n \<Longrightarrow> pos j < slots n \<Longrightarrow>
      pos (delta j i n) = (pos j + slots n - pos i) mod slots n"
    and pos_inj: "pos i = pos j \<Longrightarrow> i = j"
    and slots_pos: "ok n \<Longrightarrow> 0 < slots n"
begin

lemma incr_bound: "ok n \<Longrightarrow> pos i < slots n \<Longrightarrow> pos k \<le> slots n \<Longrightarrow> pos (incr i k n) < slots n"
  using incr_law slots_pos by simp

lemma delta_bound: "ok n \<Longrightarrow> pos i < slots n \<Longrightarrow> pos j < slots n \<Longrightarrow> pos (delta j i n) < slots n"
  using delta_law slots_pos by simp

text \<open>The distance travelled is what was added, and travelling the distance arrives.\<close>

lemma delta_incr:
  assumes "ok n" and "pos i < slots n" and "pos k < slots n"
  shows "delta (incr i k n) i n = k"
proof (rule pos_inj)
  have "pos (delta (incr i k n) i n) = ((pos i + pos k) mod slots n + slots n - pos i) mod slots n"
    using assms by (simp add: incr_law delta_law)
  also have "\<dots> = pos k"
  proof (cases "pos i + pos k < slots n")
    case False
    then have "(pos i + pos k) mod slots n = pos i + pos k - slots n"
      using assms by (simp add: le_mod_geq)
    then show ?thesis using assms False by simp
  qed (use assms in simp)
  finally show "pos (delta (incr i k n) i n) = pos k" .
qed

lemma incr_delta:
  assumes "ok n" and "pos i < slots n" and "pos j < slots n"
  shows "incr i (delta j i n) n = j"
proof (rule pos_inj)
  have "pos (incr i (delta j i n) n) = (pos i + (pos j + slots n - pos i) mod slots n) mod slots n"
    using assms delta_bound [OF assms(1,2,3)] by (simp add: incr_law delta_law)
  also have "\<dots> = (pos i + (pos j + slots n - pos i)) mod slots n" by (simp only: mod_add_right_eq)
  also have "\<dots> = pos j" using assms by simp
  finally show "pos (incr i (delta j i n) n) = pos j" .
qed

lemma decr_incr:
  assumes "ok n" and "pos i < slots n" and "pos k < slots n"
  shows "decr (incr i k n) k n = i"
proof (rule pos_inj)
  have b: "pos (incr i k n) < slots n" using assms by (simp add: incr_bound)
  show "pos (decr (incr i k n) k n) = pos i"
  proof (cases "pos i + pos k < slots n")
    case True
    then show ?thesis using assms b decr_law [OF assms(1) b, of k] by (simp add: incr_law)
  next
    case False
    then have "pos (incr i k n) = pos i + pos k - slots n" using assms by (simp add: incr_law le_mod_geq)
    then show ?thesis using assms b False decr_law [OF assms(1) b, of k] by (simp split: if_splits)
  qed
qed

end

section \<open>The interface holds for the functions of the code\<close>

definition ring_ok :: "u32 \<Rightarrow> bool" where
  "ring_ok n \<longleftrightarrow> 0 < unat n \<and> unat n < 2 ^ 31"

lemma ring_idx_incr_unat:
  assumes "ring_ok n" and "unat i < unat n" and "unat k \<le> unat n"
  shows "unat (ring_idx_incr i k n) = (unat i + unat k) mod unat n"
proof -
  have s: "unat (i + k) = unat i + unat k"
    using assms by (intro unat_plus_bounded) (simp add: ring_ok_def)
  show ?thesis
  proof (cases "unat i + unat k < unat n")
    case True
    then show ?thesis using s by (simp add: ring_idx_incr_def Let_def word_le_nat_alt)
  next
    case False
    then have "unat (i + k - n) = unat i + unat k - unat n"
      using s by (subst unat_minus_bounded) simp_all
    then show ?thesis using False s assms by (simp add: ring_idx_incr_def Let_def word_le_nat_alt le_mod_geq)
  qed
qed

lemma ring_idx_delta_unat:
  assumes "ring_ok n" and "unat i < unat n" and "unat j < unat n"
  shows "unat (ring_idx_delta j i n) = (unat j + unat n - unat i) mod unat n"
proof (cases "unat i \<le> unat j")
  case True
  then have "(unat j + unat n - unat i) mod unat n = (unat j - unat i + unat n) mod unat n" by simp
  also have "\<dots> = unat j - unat i" using assms by simp
  finally show ?thesis using True by (simp add: ring_idx_delta_def word_le_nat_alt unat_minus_bounded)
next
  case False
  have d: "unat (n - i) = unat n - unat i" using assms by (simp add: unat_minus_bounded)
  have "unat (j + (n - i)) = unat j + (unat n - unat i)"
    using assms d False by (subst unat_plus_bounded) (simp_all add: ring_ok_def)
  moreover have "(unat j + unat n - unat i) mod unat n = unat j + (unat n - unat i)"
    using False assms by simp
  ultimately show ?thesis using False by (simp add: ring_idx_delta_def word_le_nat_alt)
qed

lemma ring_idx_decr_unat:
  assumes "ring_ok n" and "unat i < unat n" and "unat k \<le> unat n"
  shows "unat (ring_idx_decr i k n) = (if unat k \<le> unat i then unat i - unat k else unat n - (unat k - unat i))"
proof (cases "unat k \<le> unat i")
  case True
  then show ?thesis by (simp add: ring_idx_decr_def word_le_nat_alt unat_minus_bounded)
next
  case False
  then have "unat (k - i) = unat k - unat i" by (simp add: unat_minus_bounded)
  then have "unat (n - (k - i)) = unat n - (unat k - unat i)"
    using assms by (subst unat_minus_bounded) simp_all
  then show ?thesis using False by (simp add: ring_idx_decr_def word_le_nat_alt)
qed

interpretation ring: ring_index ring_idx_incr ring_idx_decr ring_idx_delta unat unat ring_ok
  by unfold_locales
    (simp_all add: ring_idx_incr_unat ring_idx_decr_unat ring_idx_delta_unat ring_ok_def word_unat_eq_iff)

text \<open>The queue code has a second name for the increment.\<close>

lemma incr_pidx_eq: "incr_pidx = ring_idx_incr"
  by (simp add: incr_pidx_def ring_idx_incr_def fun_eq_iff)

text \<open>Stepping to the next slot, as the descriptor loops do it.\<close>

lemma next_slot:
  assumes "ring_ok n" and "unat p < unat n"
  shows "(if p + 1 = n then 0 else p + 1) = ring_idx_incr p 1 n"
proof -
  have "unat (p + 1) = unat p + 1" using assms by (subst unat_plus_bounded) (simp_all add: ring_ok_def)
  then have "p + 1 \<ge> n \<longleftrightarrow> p + 1 = n" using assms by (auto simp: word_le_nat_alt word_unat_eq_iff)
  then show ?thesis by (simp add: ring_idx_incr_def Let_def)
qed

end
