(* ===== verification/Descq.thy ===== *)
theory Descq
  imports DescqRing SoftCsr
begin

text \<open>
  Descriptor queues of the driver core (\<^verbatim>\<open>libqdma/qdma_descq.c\<close>, \<^verbatim>\<open>qdma_descq.h\<close>): submission of
  memory-mapped (MM) requests, and completion by the index that the device writes back, which MM and
  streaming host-to-card (ST H2C) queues share.

  A queue is a record.  Its lock makes each function atomic; the index written back is read from the
  device state, which may change at every read.  The descriptor ring is a list, and the pointer into
  it is the index \<^verbatim>\<open>pidx\<close>, which the code moves in step with the pointer.  The scatter-gather list of
  a request is a list, its length is \<^verbatim>\<open>sgcnt\<close>.  The two work lists hold the requests themselves; a
  completed request is moved to \<open>dq_done\<close>, which records what the caller of the driver is told.  Waking
  threads and unmapping pages have no effect on this state.  The latency measurement (\<^verbatim>\<open>ping_pong_en\<close>)
  is not modelled.
\<close>

section \<open>Types\<close>

definition EIO :: int where [simp]: "EIO = 5"
definition ENOMEM :: int where [simp]: "ENOMEM = 12"
definition EBUSY :: int where [simp]: "EBUSY = 16"
definition ENODEV :: int where [simp]: "ENODEV = 19"
definition EINVAL :: int where [simp]: "EINVAL = 22"
definition ENODATA :: int where [simp]: "ENODATA = 61"

definition PAGE_SIZE :: u32 where [simp]: "PAGE_SIZE = 4096"

datatype q_state_t = Q_STATE_DISABLED | Q_STATE_ENABLED | Q_STATE_ONLINE

datatype queue_type_t = Q_H2C | Q_C2H | Q_CMPT | Q_H2C_C2H

datatype qdma_drv_mode = AUTO_MODE | POLL_MODE | DIRECT_INTR_MODE | INDIRECT_INTR_MODE | LEGACY_INTR_MODE

text \<open>One entry of a scatter-gather list; the page is named by a number.\<close>

record qdma_sw_sg =
  sg_pg :: "nat option"
  sg_offset :: u32
  sg_len :: u32
  sg_dma_addr :: u64

text \<open>A request with the private part that the driver keeps in it (\<^verbatim>\<open>struct qdma_sgt_req_cb\<close>).  The
  number stands for the address of the structure; \<open>cb_sg\<close> is the index of the entry pointed to.\<close>

record qdma_request =
  rq_id :: nat
  rq_count :: u32
  rq_ep_addr :: u64
  rq_sgl :: "qdma_sw_sg list"
  rq_fp_done :: bool
  rq_no_memcpy :: bool
  cb_desc_nr :: u32
  cb_offset :: u32
  cb_sg_offset :: u32
  cb_sg :: "nat option"
  cb_sg_idx :: u32
  cb_left :: u32
  cb_status :: int
  cb_is_done :: bool
  cb_unmap_needed :: bool

record qdma_queue_conf =
  cf_qidx :: u32
  cf_st :: bool
  cf_q_type :: queue_type_t
  cf_irq_en :: u8
  cf_desc_rng_sz_idx :: u8
  cf_wb_status_en :: u8
  cf_cmpl_status_acc_en :: u8
  cf_cmpl_status_pend_chk :: u8
  cf_desc_bypass :: bool
  cf_pfetch_en :: u8
  cf_fetch_credit :: u8
  cf_c2h_buf_sz_idx :: u8
  cf_cmpl_rng_sz_idx :: u8
  cf_cmpl_desc_sz :: u8
  cf_cmpl_stat_en :: u8
  cf_cmpl_udd_en :: bool
  cf_cmpl_timer_idx :: u8
  cf_cmpl_cnt_th_idx :: u8
  cf_cmpl_trig_mode :: u8
  cf_cmpl_en_intr :: u8
  cf_sw_desc_sz :: u8
  cf_pfetch_bypass :: u8
  cf_cmpl_ovf_chk_dis :: u8
  cf_port_id :: u8
  cf_adaptive_rx :: bool
  cf_latency_optimize :: bool
  cf_init_pidx_dis :: bool
  cf_mm_channel :: u8
  cf_pidx_acc :: u32
  cf_fp_c2h_packet :: bool
  cf_rngsz :: u32
  cf_rngsz_cmpt :: u32
  cf_c2h_bufsz :: u32
  cf_aperture_size :: u32

text \<open>The highest trigger mode of \<^verbatim>\<open>enum tigger_mode_t\<close>.\<close>

definition TRIG_MODE_COMBO :: u8 where [simp]: "TRIG_MODE_COMBO = 5"

record xdev_stats =
  total_mm_h2c_pkts :: u64
  total_mm_c2h_pkts :: u64
  total_st_h2c_pkts :: u64
  total_st_c2h_pkts :: u64

record 'd qdma_descq =
  dq_conf :: qdma_queue_conf
  dq_drv_mode :: qdma_drv_mode
  dq_state :: q_state_t
  dq_stop_wait :: bool
  dq_proc_req_running :: bool
  dq_work_list :: "qdma_request list"
  dq_work_req_pend :: u32
  dq_pend_list :: "qdma_request list"
  dq_pend_list_empty :: bool
  dq_avail :: u32
  dq_pidx :: u32
  dq_cidx :: u32
  dq_credit :: u32
  dq_desc :: "'d list"
  dq_desc_pend :: u8
  dq_pidx_info :: qdma_q_pidx_reg_info
  dq_total_cmpl_descs :: u64
  dq_stats :: xdev_stats
  dq_done :: "(qdma_request \<times> u32 \<times> int) list"

text \<open>What the queue code uses of the device: the producer index register, through the access table
  (\<^verbatim>\<open>queue_pidx_update\<close>), and the consumer index of the completion status that the device writes to
  host memory.\<close>

record 's ring_dev =
  rd_pidx_update :: "u32 \<Rightarrow> queue_type_t \<Rightarrow> qdma_q_pidx_reg_info \<Rightarrow> 's \<Rightarrow> int \<times> 's"
  rd_cmpl_cidx :: "'s \<Rightarrow> u16 \<times> 's"

section \<open>Requests\<close>

text \<open>The loop of \<^verbatim>\<open>qdma_sgl_find_offset\<close>: the entry and the offset in it where the transfer goes on.
  Past the last entry the code returns an error.\<close>

fun find_offset_loop :: "nat \<Rightarrow> qdma_sw_sg list \<Rightarrow> u32 \<Rightarrow> u32 \<Rightarrow> (nat \<times> u32) option" where
  "find_offset_loop i [] len off = None"
| "find_offset_loop i (sg # sgs) len off =
     (let len = len + sg_len sg
      in if len = off then (if sgs = [] then None else Some (Suc i, 0))
         else if len > off then Some (i, sg_len sg - (len - off))
         else find_offset_loop (Suc i) sgs len off)"

definition qdma_sgl_find_offset :: "qdma_request \<Rightarrow> (nat \<times> u32) option" where
  "qdma_sgl_find_offset req =
     (if rq_count req = 0 then Some (0, 0) else find_offset_loop 0 (rq_sgl req) 0 (cb_offset req))"

text \<open>\<^verbatim>\<open>qdma_update_request\<close> on the first request of the work list, which is how it is called: the request
  is moved to the pending list when all of its data is in descriptors.\<close>

definition qdma_update_request ::
    "qdma_request \<Rightarrow> u32 \<Rightarrow> u32 \<Rightarrow> u32 \<Rightarrow> nat option \<Rightarrow> 'd qdma_descq \<Rightarrow> 'd qdma_descq" where
  "qdma_update_request req num_desc data_cnt sgoff sg q =
     (let req = req\<lparr>cb_desc_nr := cb_desc_nr req + num_desc, cb_offset := cb_offset req + data_cnt,
                    cb_sg_offset := sgoff, cb_sg := sg\<rparr>
      in if cb_offset req \<ge> rq_count req
         then q\<lparr>dq_work_list := tl (dq_work_list q), dq_work_req_pend := dq_work_req_pend q - 1,
                dq_pend_list := dq_pend_list q @ [req]\<rparr>
         else q\<lparr>dq_work_list := req # tl (dq_work_list q)\<rparr>)"

definition qdma_work_queue_add :: "qdma_request \<Rightarrow> 'd qdma_descq \<Rightarrow> 'd qdma_descq" where
  "qdma_work_queue_add cb q =
     q\<lparr>dq_work_list := dq_work_list q @ [cb], dq_work_req_pend := dq_work_req_pend q + 1\<rparr>"

definition incr_cmpl_desc_cnt :: "u32 \<Rightarrow> 'd qdma_descq \<Rightarrow> 'd qdma_descq" where
  "incr_cmpl_desc_cnt cnt q =
     (let st = dq_stats q; n = ucast cnt :: u64;
          st = (case (cf_st (dq_conf q), cf_q_type (dq_conf q)) of
                  (False, Q_H2C) \<Rightarrow> st\<lparr>total_mm_h2c_pkts := total_mm_h2c_pkts st + n\<rparr>
                | (False, Q_C2H) \<Rightarrow> st\<lparr>total_mm_c2h_pkts := total_mm_c2h_pkts st + n\<rparr>
                | (True, Q_H2C) \<Rightarrow> st\<lparr>total_st_h2c_pkts := total_st_h2c_pkts st + n\<rparr>
                | (False, Q_CMPT) \<Rightarrow> st\<lparr>total_st_h2c_pkts := total_st_h2c_pkts st + n\<rparr>
                | (False, Q_H2C_C2H) \<Rightarrow> st\<lparr>total_st_c2h_pkts := total_st_c2h_pkts st + n\<rparr>
                | (True, Q_C2H) \<Rightarrow> st\<lparr>total_st_c2h_pkts := total_st_c2h_pkts st + n\<rparr>
                | (True, Q_CMPT) \<Rightarrow> st\<lparr>total_st_h2c_pkts := total_st_h2c_pkts st + n\<rparr>
                | (True, Q_H2C_C2H) \<Rightarrow> st\<lparr>total_st_c2h_pkts := total_st_c2h_pkts st + n\<rparr>)
      in q\<lparr>dq_total_cmpl_descs := dq_total_cmpl_descs q + n, dq_stats := st\<rparr>)"

text \<open>\<^verbatim>\<open>qdma_sgt_req_done\<close>.  With a callback, a request that is not complete is reported as an error;
  the byte count passed on is \<^verbatim>\<open>cb->offset\<close>.  Without one, the waiting thread is woken and reads the
  status.\<close>

definition is_st_c2h :: "qdma_queue_conf \<Rightarrow> bool" where
  "is_st_c2h c \<longleftrightarrow> cf_st c \<and> cf_q_type c = Q_C2H"

definition req_error :: "qdma_queue_conf \<Rightarrow> qdma_request \<Rightarrow> int \<Rightarrow> int" where
  "req_error c cb err =
     (if rq_fp_done cb \<and> cb_offset cb \<noteq> rq_count cb \<and> \<not> is_st_c2h c then - EINVAL else err)"

definition qdma_sgt_req_done :: "qdma_request \<Rightarrow> int \<Rightarrow> 'd qdma_descq \<Rightarrow> 'd qdma_descq" where
  "qdma_sgt_req_done cb err q =
     (let err = req_error (dq_conf q) cb err;
          cb' = cb\<lparr>cb_unmap_needed := False, cb_status := err, cb_is_done := True\<rparr>
      in q\<lparr>dq_pend_list := remove_first (\<lambda>r. rq_id r = rq_id cb) (dq_pend_list q),
           dq_done := dq_done q @ [(cb', cb_offset cb, err)],
           dq_pend_list_empty :=
             (if cf_fp_c2h_packet (dq_conf q) then True
              else if is_st_c2h (dq_conf q) then dq_avail q = 0
              else dq_avail q = cf_rngsz (dq_conf q) - 1)\<rparr>)"

section \<open>The producer index register\<close>

definition queue_pidx_update :: "'s ring_dev \<Rightarrow> 'd qdma_descq \<Rightarrow> 's \<Rightarrow> int \<times> 's" where
  "queue_pidx_update dev q s =
     rd_pidx_update dev (cf_qidx (dq_conf q)) (cf_q_type (dq_conf q)) (dq_pidx_info q) s"

definition qdma_pidx_update :: "'s ring_dev \<Rightarrow> bool \<Rightarrow> 'd qdma_descq \<Rightarrow> 's \<Rightarrow> int \<times> 'd qdma_descq \<times> 's" where
  "qdma_pidx_update dev force q s =
     (let desc_avail_max = cf_rngsz (dq_conf q) - 1; acc = cf_pidx_acc (dq_conf q)
      in if force \<or> dq_avail q > desc_avail_max - acc \<or> \<not> ucast (dq_desc_pend q) < acc
         then (let (ret, s) = queue_pidx_update dev q s
               in if ret < 0 then (- EINVAL, q, s) else (ret, q\<lparr>dq_desc_pend := 0\<rparr>, s))
         else (0, q, s))"

section \<open>Completion\<close>

text \<open>The loop over the pending list.  Its list argument is the pending list of the queue: each round
  takes the first entry.\<close>

fun complete_loop :: "qdma_request list \<Rightarrow> u32 \<Rightarrow> 'd qdma_descq \<Rightarrow> u32 \<times> 'd qdma_descq" where
  "complete_loop [] cr q = (cr, q)"
| "complete_loop (cb # rest) cr q =
     (if cr \<ge> cb_desc_nr cb
      then let cr = cr - cb_desc_nr cb; q = qdma_sgt_req_done cb 0 q
           in if cr = 0 then (cr, q) else complete_loop rest cr q
      else (0, q\<lparr>dq_pend_list := cb\<lparr>cb_desc_nr := cb_desc_nr cb - cr\<rparr> # rest\<rparr>))"

definition cmpl_credits :: "u32 \<Rightarrow> u32 \<Rightarrow> u32 \<Rightarrow> u32" where
  "cmpl_credits cidx_hw cidx rngsz = (if cidx_hw < cidx then (rngsz - cidx) + cidx_hw else cidx_hw - cidx)"

definition descq_mm_n_h2c_cmpl_status ::
    "'s ring_dev \<Rightarrow> 'd qdma_descq \<Rightarrow> 's \<Rightarrow> int \<times> 'd qdma_descq \<times> 's" where
  "descq_mm_n_h2c_cmpl_status dev q s =
     (if dq_pidx q = dq_cidx q then (0, q, s)
      else
        let cidx = dq_cidx q; (c, s) = rd_cmpl_cidx dev s; cidx_hw = ucast c
        in if cidx_hw = cidx then (0, q, s)
           else
             let cr = cmpl_credits cidx_hw cidx (cf_rngsz (dq_conf q));
                 q = q\<lparr>dq_cidx := cidx_hw, dq_avail := dq_avail q + cr, dq_credit := dq_credit q + cr\<rparr>;
                 q = incr_cmpl_desc_cnt cr q;
                 (cr, q) = complete_loop (dq_pend_list q) (dq_credit q) q;
                 (_, q, s) = qdma_pidx_update dev True (q\<lparr>dq_credit := cr\<rparr>) s
             in (0, q, s))"

definition polls :: "'d qdma_descq \<Rightarrow> bool" where
  "polls q \<longleftrightarrow> dq_drv_mode q = POLL_MODE \<or> dq_drv_mode q = AUTO_MODE"

definition descq_poll_mm_n_h2c_cmpl_status ::
    "'s ring_dev \<Rightarrow> 'd qdma_descq \<Rightarrow> 's \<Rightarrow> 'd qdma_descq \<times> 's" where
  "descq_poll_mm_n_h2c_cmpl_status dev q s =
     (if polls q then snd (descq_mm_n_h2c_cmpl_status dev (q\<lparr>dq_proc_req_running := True\<rparr>) s) else (q, s))"

section \<open>Filling descriptors\<close>

text \<open>The state of the two nested loops that turn scatter-gather entries into descriptors: the ring, the
  producer index, the extra state \<open>fl_x\<close> of the kind of queue (the device address for MM), the counts,
  the offset in the current entry, and the index of the last descriptor written.\<close>

record ('d, 'x) fill =
  fl_ring :: "'d list"
  fl_pidx :: u32
  fl_x :: 'x
  fl_cnt :: u32
  fl_data :: u32
  fl_sgoff :: u32
  fl_end :: "u32 option"

text \<open>A kind of queue: how one descriptor is made from the source address and the length left, and what
  is done to the following slot when the index does not wrap.\<close>

record ('d, 'x) filler =
  fr_emit :: "nat \<Rightarrow> 'x \<Rightarrow> u64 \<Rightarrow> u32 \<Rightarrow> 'd \<Rightarrow> u32 \<times> 'd \<times> 'x"
  fr_next :: "'d \<Rightarrow> 'd"

definition fill_one ::
    "('d, 'x) filler \<Rightarrow> u32 \<Rightarrow> nat \<Rightarrow> u64 \<Rightarrow> u32 \<Rightarrow> ('d, 'x) fill \<Rightarrow> u32 \<times> ('d, 'x) fill" where
  "fill_one fr rngsz i src tlen f =
     (let p = fl_pidx f; (len, d, x) = fr_emit fr i (fl_x f) src tlen (fl_ring f ! unat p);
          ring = (fl_ring f)[unat p := d]; p' = p + 1
      in (len,
          f\<lparr>fl_ring := (if p' = rngsz then ring else ring[unat p' := fr_next fr (ring ! unat p')]),
            fl_pidx := (if p' = rngsz then 0 else p'), fl_x := x, fl_cnt := fl_cnt f + 1,
            fl_data := fl_data f + len, fl_sgoff := fl_sgoff f + len, fl_end := Some p\<rparr>))"

text \<open>The inner do-while loop.  Its first argument is the number of descriptors that may still be
  written, which is positive when the loop is entered.\<close>

fun fill_seg ::
    "('d, 'x) filler \<Rightarrow> u32 \<Rightarrow> nat \<Rightarrow> nat \<Rightarrow> u64 \<Rightarrow> u32 \<Rightarrow> ('d, 'x) fill \<Rightarrow> u32 \<times> ('d, 'x) fill" where
  "fill_seg fr rngsz i 0 src tlen f = (tlen, f)"
| "fill_seg fr rngsz i (Suc room) src tlen f =
     (let (len, f) = fill_one fr rngsz i src tlen f; tlen = tlen - len
      in if room = 0 \<or> tlen = 0 then (tlen, f) else fill_seg fr rngsz i room (src + ucast len) tlen f)"

text \<open>The loop over the entries from index \<open>i\<close> on.  The index is advanced also when the inner loop ran
  out of descriptors.\<close>

fun fill_sgs ::
    "('d, 'x) filler \<Rightarrow> u32 \<Rightarrow> u32 \<Rightarrow> nat \<Rightarrow> qdma_sw_sg list \<Rightarrow> ('d, 'x) fill \<Rightarrow> nat \<times> ('d, 'x) fill" where
  "fill_sgs fr rngsz desc_max i [] f = (i, f)"
| "fill_sgs fr rngsz desc_max i (sg # sgs) f =
     (if \<not> fl_cnt f < desc_max then (i, f)
      else
        let off = fl_sgoff f; tlen = sg_len sg - off; src = sg_dma_addr sg + ucast off;
            (tlen, f) = fill_seg fr rngsz i (unat (desc_max - fl_cnt f)) src tlen (f\<lparr>fl_sgoff := 0\<rparr>)
        in fill_sgs fr rngsz desc_max (Suc i) sgs (if tlen = 0 then f\<lparr>fl_sgoff := 0\<rparr> else f))"

text \<open>What the two request loops do after filling: the entry to go on with, the request, the ring and
  the indices of the queue.\<close>

definition fill_done :: "qdma_request \<Rightarrow> nat \<times> ('d, 'x) fill \<Rightarrow> 'd qdma_descq \<Rightarrow> 'd qdma_descq" where
  "fill_done req r q =
     (let (i, f) = r; whole = (i = length (rq_sgl req));
          q = qdma_update_request req (fl_cnt f) (fl_data f) (if whole then 0 else fl_sgoff f)
                (if whole then None else Some i) q
      in q\<lparr>dq_desc := fl_ring f, dq_pidx := fl_pidx f, dq_avail := dq_avail q - fl_cnt f\<rparr>)"

section \<open>Memory-mapped requests\<close>

record qdma_mm_desc =
  mm_src_addr :: u64
  mm_flag_len :: u32
  mm_rsvd0 :: u32
  mm_dst_addr :: u64
  mm_rsvd1 :: u64

definition S_DESC_F_DV :: nat where [simp]: "S_DESC_F_DV = 28"
definition S_DESC_F_SOP :: nat where [simp]: "S_DESC_F_SOP = 29"
definition S_DESC_F_EOP :: nat where [simp]: "S_DESC_F_EOP = 30"
definition QDMA_DESC_BLEN_MAX :: u32 where [simp]: "QDMA_DESC_BLEN_MAX = push_bit 28 1 - 1"

text \<open>One MM descriptor.  With an aperture (keyhole) the device address wraps inside it.\<close>

definition mm_emit ::
    "bool \<Rightarrow> bool \<Rightarrow> u32 \<Rightarrow> u64 \<Rightarrow> u64 \<Rightarrow> u64 \<Rightarrow> u64 \<Rightarrow> u32 \<Rightarrow> qdma_mm_desc \<Rightarrow> u32 \<times> qdma_mm_desc \<times> u64" where
  "mm_emit c2h keyhole_en aperture start ep_addr_max ep_addr src tlen d =
     (let len = min tlen aperture;
          ep_addr = (if keyhole_en \<and> ep_addr > ep_addr_max then start else ep_addr);
          len = (if keyhole_en \<and> ep_addr + ucast len > ep_addr_max then ucast (ep_addr_max - ep_addr + 1) else len)
      in (len,
          \<lparr>mm_src_addr = (if c2h then ep_addr else src), mm_flag_len = len OR push_bit S_DESC_F_DV 1,
           mm_rsvd0 = 0, mm_dst_addr = (if c2h then src else ep_addr), mm_rsvd1 = 0\<rparr>,
          ep_addr + ucast len))"

definition mm_aperture :: "qdma_queue_conf \<Rightarrow> u32" where
  "mm_aperture c = (if cf_aperture_size c \<noteq> 0 then cf_aperture_size c else QDMA_DESC_BLEN_MAX)"

definition mm_filler :: "qdma_queue_conf \<Rightarrow> qdma_request \<Rightarrow> (qdma_mm_desc, u64) filler" where
  "mm_filler c req =
     \<lparr>fr_emit = (\<lambda>i. mm_emit (cf_q_type c = Q_C2H) (cf_aperture_size c \<noteq> 0) (mm_aperture c) (rq_ep_addr req)
                   (rq_ep_addr req + ucast (mm_aperture c) - 1)),
      fr_next = (\<lambda>d. d)\<rparr>"

definition mm_ep_addr :: "qdma_queue_conf \<Rightarrow> qdma_request \<Rightarrow> u64" where
  "mm_ep_addr c req =
     (if cf_aperture_size c = 0 then rq_ep_addr req + ucast (cb_offset req)
      else rq_ep_addr req + ucast (cb_offset req AND (mm_aperture c - 1)))"

definition mm_flags :: "u32 \<Rightarrow> u32 \<Rightarrow> qdma_mm_desc list \<Rightarrow> qdma_mm_desc list" where
  "mm_flags desc_start desc_end ring =
     (let set = (\<lambda>b p ring. ring[unat p := (ring ! unat p)\<lparr>mm_flag_len := mm_flag_len (ring ! unat p) OR push_bit b 1\<rparr>])
      in set S_DESC_F_SOP desc_start (set S_DESC_F_EOP desc_end ring))"

text \<open>The request loop.  It has fuel because a request whose scatter-gather list is shorter than its
  count keeps the code in the loop for ever, as does a bypass handler that consumes nothing; the
  optional handler \<open>bypass\<close> is \<^verbatim>\<open>fp_bypass_desc_fill\<close>, used when the queue is in bypass mode.\<close>

type_synonym ('d, 's) bypass_fill =
  "(qdma_request \<Rightarrow> 'd qdma_descq \<Rightarrow> 's \<Rightarrow> int \<times> 'd qdma_descq \<times> 's) option"

definition bypass_of :: "('d, 's) bypass_fill \<Rightarrow> 'd qdma_descq \<Rightarrow> ('d, 's) bypass_fill" where
  "bypass_of bypass q = (if cf_desc_bypass (dq_conf q) then bypass else None)"

definition desc_room ::
    "'s ring_dev \<Rightarrow> 'd qdma_descq \<Rightarrow> 's \<Rightarrow> 'd qdma_descq \<times> 's" where
  "desc_room dev q s = (if dq_avail q = 0 then descq_poll_mm_n_h2c_cmpl_status dev q s else (q, s))"

definition mm_fill :: "qdma_request \<Rightarrow> nat \<times> u32 \<Rightarrow> qdma_mm_desc qdma_descq \<Rightarrow> nat \<times> (qdma_mm_desc, u64) fill" where
  "mm_fill req start q =
     fill_sgs (mm_filler (dq_conf q) req) (cf_rngsz (dq_conf q)) (dq_avail q) (fst start)
       (drop (fst start) (rq_sgl req))
       \<lparr>fl_ring = dq_desc q, fl_pidx = dq_pidx q, fl_x = mm_ep_addr (dq_conf q) req, fl_cnt = 0, fl_data = 0,
        fl_sgoff = snd start, fl_end = None\<rparr>"

fun mm_loop ::
    "nat \<Rightarrow> 's ring_dev \<Rightarrow> (qdma_mm_desc, 's) bypass_fill \<Rightarrow> u32 \<Rightarrow> qdma_mm_desc qdma_descq \<Rightarrow> 's \<Rightarrow>
       (u32 \<times> qdma_mm_desc qdma_descq \<times> 's) option" where
  "mm_loop 0 dev bypass written q s = None"
| "mm_loop (Suc fuel) dev bypass written q s =
     (case dq_work_list q of
        [] \<Rightarrow> Some (written, q, s)
      | req # _ \<Rightarrow>
          (let (q, s) = desc_room dev q s
           in if dq_avail q = 0 then Some (written, q, s)
              else
                case bypass of
                  Some h \<Rightarrow>
                    (let (n, q, s) = h req q s
                     in mm_loop fuel dev bypass (written + (if n > 0 then of_int n else 0)) q s)
                | None \<Rightarrow>
                    (case qdma_sgl_find_offset req of
                       None \<Rightarrow> mm_loop fuel dev bypass written (qdma_update_request req 0 0 0 None q) s
                     | Some start \<Rightarrow>
                         (let r = mm_fill req start q; f = snd r
                          in case fl_end f of
                               None \<Rightarrow> Some (written, q, s)
                             | Some e \<Rightarrow>
                                 mm_loop fuel dev bypass (written + fl_cnt f)
                                   (fill_done req (fst r, f\<lparr>fl_ring := mm_flags (dq_pidx q) e (fl_ring f)\<rparr>) q) s))))"

text \<open>The parts before and after the loop are the same for MM and for ST H2C requests.\<close>

definition proc_finish ::
    "'s ring_dev \<Rightarrow> u32 \<times> 'd qdma_descq \<times> 's \<Rightarrow> int \<times> 'd qdma_descq \<times> 's" where
  "proc_finish dev r =
     (let (written, q, s) = r
      in if written = 0 then (0, q\<lparr>dq_proc_req_running := False\<rparr>, s)
         else
           let q = q\<lparr>dq_pend_list_empty := False, dq_pidx_info := (dq_pidx_info q)\<lparr>pidx := ucast (dq_pidx q)\<rparr>\<rparr>;
               (rv, s) = queue_pidx_update dev q s
           in if rv < 0 then (- EINVAL, q, s)
              else let (q, s) = descq_poll_mm_n_h2c_cmpl_status dev q s
                   in (0, q\<lparr>dq_proc_req_running := False\<rparr>, s))"

definition proc_request ::
    "(u32 \<Rightarrow> 'd qdma_descq \<Rightarrow> 's \<Rightarrow> (u32 \<times> 'd qdma_descq \<times> 's) option) \<Rightarrow> 's ring_dev \<Rightarrow>
       'd qdma_descq \<Rightarrow> 's \<Rightarrow> (int \<times> 'd qdma_descq \<times> 's) option" where
  "proc_request loop dev q s =
     (if dq_stop_wait q then (case descq_mm_n_h2c_cmpl_status dev q s of (_, q, s) \<Rightarrow> Some (0, q, s))
      else if dq_state q \<noteq> Q_STATE_ONLINE then Some (0, q, s)
      else if dq_proc_req_running q then Some (0, q, s)
      else
        let (q, s) = descq_poll_mm_n_h2c_cmpl_status dev q s
        in map_option (proc_finish dev) (loop 0 q s))"

definition descq_mm_proc_request ::
    "nat \<Rightarrow> 's ring_dev \<Rightarrow> (qdma_mm_desc, 's) bypass_fill \<Rightarrow> qdma_mm_desc qdma_descq \<Rightarrow> 's \<Rightarrow>
       (int \<times> qdma_mm_desc qdma_descq \<times> 's) option" where
  "descq_mm_proc_request fuel dev bypass q s =
     proc_request (mm_loop fuel dev (bypass_of bypass q)) dev q s"

end
