(* ===== verification/DescqFill.thy ===== *)
theory DescqFill
  imports Descq
begin

text \<open>
  What the descriptor loops write.  A descriptor is viewed as the list of byte transfers it asks for,
  each a pair of a host address and what the device does with the byte.  The locale \<open>desc_fill\<close> states
  what one kind of descriptor promises; inside it, the loops are shown to write, in order and to
  consecutive slots of the ring, exactly the bytes of the scatter-gather list from the given offset on,
  up to the number of descriptors available.
\<close>

section \<open>Slices of a ring\<close>

definition slice :: "'d list \<Rightarrow> nat \<Rightarrow> nat \<Rightarrow> 'd list" where
  "slice ring p c = map (\<lambda>k. ring ! ((p + k) mod length ring)) [0 ..< c]"

lemma slice_Suc: "slice ring p (Suc c) = slice ring p c @ [ring ! ((p + c) mod length ring)]"
  by (simp add: slice_def)

lemma slot_inj:
  fixes n :: nat
  assumes "(p + j) mod n = (p + k) mod n" and "j < n" and "k < n"
  shows "j = k"
proof -
  have eq: "j mod n = k mod n" if "j \<le> k" "(p + j) mod n = (p + k) mod n" for j k
  proof -
    from that have "n dvd (p + k) - (p + j)" by (metis mod_eq_dvd_iff_nat add_left_mono)
    then have "n dvd k - j" by simp
    then show ?thesis using that(1) by (metis mod_eq_dvd_iff_nat)
  qed
  have "j mod n = k mod n" by (cases "j \<le> k") (use eq [of j k] eq [of k j] assms in auto)
  then show ?thesis using assms by simp
qed

lemma slice_update:
  assumes "p < length ring" and "c \<le> k" and "k < length ring"
  shows "slice (ring[(p + k) mod length ring := d]) p c = slice ring p c"
  unfolding slice_def
proof (rule map_cong)
  fix j assume "j \<in> set [0 ..< c]"
  then have "(p + k) mod length ring \<noteq> (p + j) mod length ring"
    using assms slot_inj [of p k "length ring" j] by auto
  then show "ring[(p + k) mod length ring := d] ! ((p + j) mod length (ring[(p + k) mod length ring := d])) =
      ring ! ((p + j) mod length ring)" by simp
qed simp

section \<open>Bytes of scatter-gather lists\<close>

definition seg_bytes :: "u64 \<Rightarrow> nat \<Rightarrow> u64 list" where
  "seg_bytes a n = map (\<lambda>k. a + of_nat k) [0 ..< n]"

definition sgl_bytes :: "qdma_sw_sg list \<Rightarrow> u64 list" where
  "sgl_bytes sgl = concat (map (\<lambda>sg. seg_bytes (sg_dma_addr sg) (unat (sg_len sg))) sgl)"

lemma length_seg_bytes [simp]: "length (seg_bytes a n) = n"
  by (simp add: seg_bytes_def)

lemma seg_bytes_nth: "k < n \<Longrightarrow> seg_bytes a n ! k = a + of_nat k"
  by (simp add: seg_bytes_def)

lemma drop_seg_bytes: "drop m (seg_bytes a n) = seg_bytes (a + of_nat m) (n - m)"
  by (rule nth_equalityI) (simp_all add: seg_bytes_nth)

lemma sgl_bytes_simps [simp]:
  "sgl_bytes [] = []"
  "sgl_bytes (sg # sgs) = seg_bytes (sg_dma_addr sg) (unat (sg_len sg)) @ sgl_bytes sgs"
  by (simp_all add: sgl_bytes_def)

lemma sgl_bytes_append [simp]: "sgl_bytes (xs @ ys) = sgl_bytes xs @ sgl_bytes ys"
  by (simp add: sgl_bytes_def)

section \<open>The interface of a descriptor kind\<close>

text \<open>\<open>vw\<close> views a descriptor as byte transfers; \<open>dev x k\<close> is what the device does with the \<open>k\<close>-th byte
  from state \<open>x\<close> on; \<open>ok\<close> holds for the states that occur.\<close>

definition transfers :: "u64 list \<Rightarrow> (nat \<Rightarrow> 'a) \<Rightarrow> nat \<Rightarrow> (u64 \<times> 'a) list" where
  "transfers bs g m = map (\<lambda>k. (bs ! k, g k)) [0 ..< m]"

lemma transfers_append:
  assumes "m \<le> length bs" and "k \<le> length cs" and "m = length bs \<or> k = 0"
  shows "transfers (bs @ cs) g (m + k) = transfers bs g m @ transfers cs (\<lambda>j. g (m + j)) k"
  using assms by (intro nth_equalityI) (auto simp: transfers_def nth_append)

lemma transfers_take:
  assumes "m + k \<le> length bs"
  shows "transfers bs g (m + k) = transfers bs g m @ transfers (drop m bs) (\<lambda>j. g (m + j)) k"
  using assms by (intro nth_equalityI) (auto simp: transfers_def nth_append)

locale desc_fill =
  fixes fr :: "('d, 'x) filler" and vw :: "'d \<Rightarrow> (u64 \<times> 'a) list" and dev :: "'x \<Rightarrow> nat \<Rightarrow> 'a"
    and ok :: "'x \<Rightarrow> bool"
  assumes emit: "ok x \<Longrightarrow> fr_emit fr i x src tlen d = (len, d', x') \<Longrightarrow>
      unat len \<le> unat tlen \<and> (tlen \<noteq> 0 \<longrightarrow> len \<noteq> 0) \<and>
      vw d' = transfers (seg_bytes src (unat len)) (dev x) (unat len) \<and>
      ok x' \<and> (\<forall>k. dev x' k = dev x (unat len + k))"
begin

text \<open>The state of the loops, started at slot \<open>p\<close> of \<open>ring0\<close> with \<open>n\<close> slots and device state \<open>x0\<close>: how far
  the index has moved, that later slots are untouched, what has been written, and how many bytes.\<close>

definition filling :: "'d list \<Rightarrow> nat \<Rightarrow> 'x \<Rightarrow> ('d, 'x) fill \<Rightarrow> bool" where
  "filling ring0 p x0 f \<longleftrightarrow>
     (let n = length ring0; c = unat (fl_cnt f) in
      length (fl_ring f) = n \<and> p < n \<and> c < n \<and> unat (fl_pidx f) = (p + c) mod n \<and>
      (\<forall>k. c < k \<and> k < n \<longrightarrow> fl_ring f ! ((p + k) mod n) = ring0 ! ((p + k) mod n)) \<and>
      ok (fl_x f) \<and> (\<forall>k. dev (fl_x f) k = dev x0 (unat (fl_data f) + k)) \<and>
      map_option unat (fl_end f) = (if c = 0 then None else Some ((p + c - 1) mod n)))"

definition written_view :: "nat \<Rightarrow> ('d, 'x) fill \<Rightarrow> (u64 \<times> 'a) list" where
  "written_view p f = concat (map vw (slice (fl_ring f) p (unat (fl_cnt f))))"

lemma fill_one_spec:
  assumes f: "filling ring0 p x0 f" and n: "n = length ring0" "n = unat rngsz" "ring_ok rngsz"
    and room: "Suc (unat (fl_cnt f)) < n" and data: "unat (fl_data f) + unat tlen < 2 ^ 32"
    and r: "fill_one fr rngsz i src tlen f = (len, f')"
  shows "filling ring0 p x0 f'" and "unat len \<le> unat tlen" and "tlen \<noteq> 0 \<Longrightarrow> len \<noteq> 0"
    and "unat (fl_cnt f') = Suc (unat (fl_cnt f))" and "unat (fl_data f') = unat (fl_data f) + unat len"
    and "fl_sgoff f' = fl_sgoff f + len"
    and "written_view p f' = written_view p f @
      transfers (seg_bytes src (unat len)) (\<lambda>k. dev x0 (unat (fl_data f) + k)) (unat len)"
proof -
  let ?c = "unat (fl_cnt f)"
  let ?p = "(p + ?c) mod n"
  have len_f: "length (fl_ring f) = n" and pn: "p < n" and pidx: "unat (fl_pidx f) = ?p" and okx: "ok (fl_x f)"
    and later: "\<And>k. ?c < k \<Longrightarrow> k < n \<Longrightarrow> fl_ring f ! ((p + k) mod n) = ring0 ! ((p + k) mod n)"
    and devx: "\<And>k. dev (fl_x f) k = dev x0 (unat (fl_data f) + k)"
    using f n(1) by (auto simp: filling_def Let_def)
  obtain d x where em: "fr_emit fr i (fl_x f) src tlen (fl_ring f ! unat (fl_pidx f)) = (len, d, x)"
    using r by (auto simp: fill_one_def Let_def split: prod.splits)
  note e = emit [OF okx em]
  have pn': "unat (fl_pidx f) < unat rngsz"
    using mod_less_divisor [of n "p + ?c"] pidx pn n(2) by (cases n) simp_all
  have nxt: "(if fl_pidx f + 1 = rngsz then 0 else fl_pidx f + 1) = ring_idx_incr (fl_pidx f) 1 rngsz"
    by (rule next_slot [OF n(3) pn'])
  have pidx': "unat (ring_idx_incr (fl_pidx f) 1 rngsz) = (p + Suc ?c) mod n"
    using ring_idx_incr_unat [OF n(3) pn', of 1] n(2) pn pidx by (simp add: mod_simps)
  let ?ring = "(fl_ring f)[?p := d]"
  let ?ring' = "if fl_pidx f + 1 = rngsz then ?ring
      else ?ring[(p + Suc ?c) mod n := fr_next fr (?ring ! ((p + Suc ?c) mod n))]"
  have p1: "unat (fl_pidx f + 1) = (p + Suc ?c) mod n" if "fl_pidx f + 1 \<noteq> rngsz" using pidx' nxt that by simp
  have f': "f' = f\<lparr>fl_ring := ?ring', fl_pidx := ring_idx_incr (fl_pidx f) 1 rngsz, fl_x := x, fl_cnt := fl_cnt f + 1,
      fl_data := fl_data f + len, fl_sgoff := fl_sgoff f + len, fl_end := Some (fl_pidx f)\<rparr>"
    using r em p1 unfolding fill_one_def Let_def nxt by (auto simp: pidx)
  have cnt': "unat (fl_cnt f + 1) = Suc ?c" using room n by (subst unat_plus_bounded) (simp_all add: ring_ok_def)
  have data': "unat (fl_data f + len) = unat (fl_data f) + unat len"
    using data e by (intro unat_plus_bounded) simp
  have len': "length ?ring' = n" using len_f by simp
  have keep: "?ring' ! ((p + k) mod n) = ring0 ! ((p + k) mod n)" if k: "Suc ?c < k" "k < n" for k
  proof -
    have "(p + ?c) mod n \<noteq> (p + k) mod n" "(p + Suc ?c) mod n \<noteq> (p + k) mod n"
      using slot_inj [of p ?c n k] slot_inj [of p "Suc ?c" n k] k room by auto
    then show ?thesis using later [of k] k by simp
  qed
  show "filling ring0 p x0 f'"
    unfolding filling_def Let_def
    using len' pn room keep e devx n(1) by (simp add: f' cnt' pidx pidx' data' add.assoc)
  have "slice ?ring' p (Suc ?c) = slice (fl_ring f) p ?c @ [d]"
  proof -
    have "slice ?ring p (Suc ?c) = slice (fl_ring f) p ?c @ [d]"
      using slice_update [of p "fl_ring f" ?c ?c d] len_f pn room by (simp add: slice_Suc)
    moreover have "slice ?ring' p (Suc ?c) = slice ?ring p (Suc ?c)"
      using slice_update [of p ?ring "Suc ?c" "Suc ?c"] len_f pn room by simp
    ultimately show ?thesis by simp
  qed
  then have "written_view p f' = written_view p f @ vw d"
    by (simp add: written_view_def f' cnt')
  moreover have "vw d = transfers (seg_bytes src (unat len)) (\<lambda>k. dev x0 (unat (fl_data f) + k)) (unat len)"
    using e by (simp add: transfers_def devx)
  ultimately show "written_view p f' = written_view p f @
      transfers (seg_bytes src (unat len)) (\<lambda>k. dev x0 (unat (fl_data f) + k)) (unat len)" by simp
  show "unat len \<le> unat tlen" and "tlen \<noteq> 0 \<Longrightarrow> len \<noteq> 0" using e by simp_all
  show "unat (fl_cnt f') = Suc ?c" and "unat (fl_data f') = unat (fl_data f) + unat len"
    and "fl_sgoff f' = fl_sgoff f + len" using data' cnt' by (simp_all add: f')
qed

lemma fill_seg_spec:
  assumes "filling ring0 p x0 f" and n: "n = length ring0" "n = unat rngsz" "ring_ok rngsz"
    and "0 < room" and "unat (fl_cnt f) + room < n" and "unat (fl_data f) + unat tlen < 2 ^ 32"
    and "fill_seg fr rngsz i room src tlen f = (tlen', f')"
  shows "filling ring0 p x0 f' \<and> unat tlen' \<le> unat tlen \<and> (tlen \<noteq> 0 \<longrightarrow> tlen' \<noteq> tlen) \<and>
    unat (fl_cnt f) < unat (fl_cnt f') \<and> unat (fl_cnt f') \<le> unat (fl_cnt f) + room \<and>
    (tlen' \<noteq> 0 \<longrightarrow> unat (fl_cnt f') = unat (fl_cnt f) + room) \<and>
    (tlen \<noteq> 0 \<longrightarrow> unat (fl_cnt f') + unat tlen' \<le> unat (fl_cnt f) + unat tlen) \<and>
    unat (fl_data f') = unat (fl_data f) + (unat tlen - unat tlen') \<and>
    fl_sgoff f' = fl_sgoff f + (tlen - tlen') \<and>
    written_view p f' = written_view p f @
      transfers (seg_bytes src (unat tlen)) (\<lambda>k. dev x0 (unat (fl_data f) + k)) (unat tlen - unat tlen')"
  using assms(1,5-)
proof (induction room arbitrary: src tlen f)
  case (Suc room)
  obtain len f1 where one: "fill_one fr rngsz i src tlen f = (len, f1)" by fastforce
  have r: "Suc (unat (fl_cnt f)) < n" using Suc.prems(3) by simp
  note s1 = fill_one_spec [OF Suc.prems(1) n r Suc.prems(4) one]
  have tl: "unat (tlen - len) = unat tlen - unat len" using s1(2) by (rule unat_minus_bounded)
  have short: "transfers (seg_bytes src (unat len)) g (unat len) = transfers (seg_bytes src (unat tlen)) g (unat len)"
    for g :: "nat \<Rightarrow> 'a" using s1(2) by (simp add: transfers_def seg_bytes_nth)
  show ?case
  proof (cases "room = 0 \<or> tlen - len = 0")
    case True
    then have res: "tlen' = tlen - len" "f' = f1" using Suc.prems(5) one by auto
    have "tlen' \<noteq> tlen" if "tlen \<noteq> 0" using s1(3) [OF that] res(1) by simp
    moreover have "tlen' \<noteq> 0 \<longrightarrow> unat (fl_cnt f') = unat (fl_cnt f) + Suc room"
      using True res s1(4) by auto
    moreover have "unat tlen' \<le> unat tlen" and "unat tlen - unat tlen' = unat len" and "tlen - tlen' = len"
      using res tl s1(2) by simp_all
    moreover have "unat (fl_cnt f') + unat tlen' \<le> unat (fl_cnt f) + unat tlen" if "tlen \<noteq> 0"
      using s1(3) [OF that] s1(2,4) res tl by (simp add: word_unat_eq_iff)
    ultimately show ?thesis using s1(1,4-7) by (simp add: res(2) short)
  next
    case False
    then have rec: "fill_seg fr rngsz i room (src + ucast len) (tlen - len) f1 = (tlen', f')"
      using Suc.prems(5) one by auto
    have "unat (fl_cnt f1) + room < n" "unat (fl_data f1) + unat (tlen - len) < 2 ^ 32"
      using Suc.prems(3,4) s1 tl by simp_all
    note ih = Suc.IH [OF s1(1) _ this rec]
    have ih1: "filling ring0 p x0 f'" "unat tlen' \<le> unat tlen - unat len" "unat (fl_cnt f1) < unat (fl_cnt f')"
      "unat (fl_cnt f') \<le> unat (fl_cnt f1) + room" "tlen' \<noteq> 0 \<Longrightarrow> unat (fl_cnt f') = unat (fl_cnt f1) + room"
      "unat (fl_data f') = unat (fl_data f1) + (unat tlen - unat len - unat tlen')"
      "fl_sgoff f' = fl_sgoff f1 + (tlen - len - tlen')" "tlen' \<noteq> tlen - len"
      "unat (fl_cnt f') + unat tlen' \<le> unat (fl_cnt f1) + (unat tlen - unat len)"
      "written_view p f' = written_view p f1 @ transfers (seg_bytes (src + ucast len) (unat tlen - unat len))
         (\<lambda>k. dev x0 (unat (fl_data f1) + k)) (unat tlen - unat len - unat tlen')"
      using ih False tl by auto
    have "seg_bytes (src + ucast len) (unat tlen - unat len) = drop (unat len) (seg_bytes src (unat tlen))"
      by (simp add: drop_seg_bytes)
    then have "transfers (seg_bytes src (unat tlen)) (\<lambda>k. dev x0 (unat (fl_data f) + k)) (unat len) @
        transfers (seg_bytes (src + ucast len) (unat tlen - unat len)) (\<lambda>k. dev x0 (unat (fl_data f1) + k))
          (unat tlen - unat len - unat tlen') =
        transfers (seg_bytes src (unat tlen)) (\<lambda>k. dev x0 (unat (fl_data f) + k))
          (unat len + (unat tlen - unat len - unat tlen'))"
      using s1(2,5) by (subst transfers_take) (simp_all add: add.assoc)
    moreover have "unat len + (unat tlen - unat len - unat tlen') = unat tlen - unat tlen'"
      using ih1(2) s1(2) by simp
    ultimately have "written_view p f' = written_view p f @
      transfers (seg_bytes src (unat tlen)) (\<lambda>k. dev x0 (unat (fl_data f) + k)) (unat tlen - unat tlen')"
      using ih1(10) s1(7) short by simp
    moreover have "fl_sgoff f' = fl_sgoff f + (tlen - tlen')" using ih1(7) s1(6) by simp
    moreover have "tlen' \<noteq> tlen" if "tlen \<noteq> 0"
    proof
      assume "tlen' = tlen"
      with ih1(2) s1(2) have "unat len = 0" by simp
      with s1(3) [OF that] show False by (simp add: unat_eq_0)
    qed
    moreover have "unat (fl_cnt f') + unat tlen' \<le> unat (fl_cnt f) + unat tlen" if "tlen \<noteq> 0"
      using s1(3) [OF that] s1(2,4) ih1(9) by (simp add: word_unat_eq_iff)
    ultimately show ?thesis using ih1 s1 by auto
  qed
qed simp

text \<open>The loop over the entries: all bytes from the offset on, or as many as the descriptors allow.\<close>

lemma fill_sgs_stop: "\<not> fl_cnt f < desc_max \<Longrightarrow> fill_sgs fr rngsz desc_max i sgs f = (i, f)"
  by (cases sgs) simp_all

lemma fill_sgs_spec:
  assumes "filling ring0 p x0 f" and n: "n = length ring0" "n = unat rngsz" "ring_ok rngsz"
    and dm: "unat desc_max < n" and "unat (fl_cnt f) \<le> unat desc_max"
    and "sgs \<noteq> [] \<Longrightarrow> unat (fl_sgoff f) \<le> unat (sg_len (hd sgs))"
    and "unat (fl_data f) + length (drop (unat (fl_sgoff f)) (sgl_bytes sgs)) < 2 ^ 32"
    and "fill_sgs fr rngsz desc_max i sgs f = (i', f')"
  shows "\<exists>m. filling ring0 p x0 f' \<and> m \<le> length (drop (unat (fl_sgoff f)) (sgl_bytes sgs)) \<and>
    unat (fl_cnt f) \<le> unat (fl_cnt f') \<and> unat (fl_cnt f') \<le> unat desc_max \<and>
    unat (fl_data f') = unat (fl_data f) + m \<and>
    written_view p f' = written_view p f @
      transfers (drop (unat (fl_sgoff f)) (sgl_bytes sgs)) (\<lambda>k. dev x0 (unat (fl_data f) + k)) m \<and>
    (m = length (drop (unat (fl_sgoff f)) (sgl_bytes sgs)) \<or> unat (fl_cnt f') = unat desc_max) \<and>
    (sgs \<noteq> [] \<and> unat (fl_cnt f) < unat desc_max \<longrightarrow> unat (fl_cnt f) < unat (fl_cnt f') \<and>
       (unat (fl_sgoff f) < unat (sg_len (hd sgs)) \<longrightarrow> 0 < m)) \<and>
    ((\<forall>sg \<in> set sgs. sg_len sg \<noteq> 0) \<and> (sgs \<noteq> [] \<longrightarrow> unat (fl_sgoff f) < unat (sg_len (hd sgs))) \<longrightarrow>
       unat (fl_cnt f') \<le> unat (fl_cnt f) + m)"
  using assms(1,6-)
proof (induction sgs arbitrary: i f)
  case Nil
  then show ?case by (intro exI [of _ 0]) (simp add: transfers_def)
next
  case (Cons sg sgs)
  let ?off = "fl_sgoff f"
  let ?len = "unat (sg_len sg) - unat ?off"
  let ?seg = "seg_bytes (sg_dma_addr sg + ucast ?off) ?len"
  have off: "unat ?off \<le> unat (sg_len sg)" using Cons.prems(3) by simp
  have bs: "drop (unat ?off) (sgl_bytes (sg # sgs)) = ?seg @ sgl_bytes sgs"
    using off by (simp add: drop_seg_bytes)
  have total: "unat (fl_data f) + ?len + length (sgl_bytes sgs) < 2 ^ 32" using Cons.prems(4) unfolding bs by simp
  show ?case
  proof (cases "fl_cnt f < desc_max")
    case False
    then have "f' = f" "unat (fl_cnt f) = unat desc_max" using Cons.prems(2,5) by (auto simp: word_less_nat_alt)
    then show ?thesis using Cons.prems(1) by (intro exI [of _ 0]) (simp add: transfers_def)
  next
    case True
    let ?room = "unat (desc_max - fl_cnt f)"
    have room: "?room = unat desc_max - unat (fl_cnt f)" "0 < ?room" "unat (fl_cnt f) + ?room = unat desc_max"
      using True by (simp_all add: unat_minus_bounded word_less_nat_alt)
    obtain t f1 where seg: "fill_seg fr rngsz i ?room (sg_dma_addr sg + ucast ?off) (sg_len sg - ?off) (f\<lparr>fl_sgoff := 0\<rparr>) = (t, f1)"
      by fastforce
    have tl: "unat (sg_len sg - ?off) = ?len" using off by (rule unat_minus_bounded)
    let ?f1 = "if t = 0 then f1\<lparr>fl_sgoff := 0\<rparr> else f1"
    have rest: "fill_sgs fr rngsz desc_max (Suc i) sgs ?f1 = (i', f')" using Cons.prems(5) True seg by simp
    have "filling ring0 p x0 (f\<lparr>fl_sgoff := 0\<rparr>)" using Cons.prems(1) by (simp add: filling_def)
    note s = fill_seg_spec [OF this n _ _ _ seg]
    have s1: "filling ring0 p x0 f1" "unat t \<le> ?len" "sg_len sg - ?off \<noteq> 0 \<longrightarrow> t \<noteq> sg_len sg - ?off"
      "unat (fl_cnt f) < unat (fl_cnt f1)" "unat (fl_cnt f1) \<le> unat desc_max"
      "t \<noteq> 0 \<longrightarrow> unat (fl_cnt f1) = unat desc_max" "unat (fl_data f1) = unat (fl_data f) + (?len - unat t)"
      "sg_len sg - ?off \<noteq> 0 \<longrightarrow> unat (fl_cnt f1) + unat t \<le> unat (fl_cnt f) + ?len"
      "written_view p f1 = written_view p f @ transfers ?seg (\<lambda>k. dev x0 (unat (fl_data f) + k)) (?len - unat t)"
      using s room dm Cons.prems(4) bs tl by (simp_all add: written_view_def)
    have pos: "0 < ?len - unat t" if "unat ?off < unat (sg_len sg)"
      using that s1(2,3) tl by (metis diff_is_0_eq le_antisym not_less unat_0 word_unat_eq_iff zero_less_diff)
    have few: "unat (fl_cnt f1) \<le> unat (fl_cnt f) + (?len - unat t)" if "unat ?off < unat (sg_len sg)"
    proof -
      have "sg_len sg - ?off \<noteq> 0" using that tl by (metis unat_0 zero_less_diff less_irrefl)
      then show ?thesis using s1(2,8) by linarith
    qed
    have le: "?len - unat t \<le> ?len + length (sgl_bytes sgs)" by linarith
    show ?thesis
    proof (cases "t = 0")
      case False
      then have "f' = f1" using rest s1(6) fill_sgs_stop [of f1 desc_max rngsz "Suc i" sgs] by (simp add: word_less_nat_alt)
      moreover have "unat (fl_cnt f1) = unat desc_max" using s1(6) False by simp
      moreover have "transfers (?seg @ sgl_bytes sgs) g (?len - unat t) = transfers ?seg g (?len - unat t)"
        for g :: "nat \<Rightarrow> 'a" using transfers_append [of "?len - unat t" ?seg 0 "sgl_bytes sgs" g] by (simp add: transfers_def)
      ultimately show ?thesis unfolding bs using s1(1,4,7,9) pos few le
        by (intro exI [of _ "?len - unat t"]) (simp only: length_append length_seg_bytes list.sel simp_thms, simp)
    next
      case True
      have "filling ring0 p x0 ?f1" using s1(1) by (simp add: filling_def)
      note ih = Cons.IH [OF this _ _ _ rest]
      obtain m where m: "filling ring0 p x0 f'" "m \<le> length (sgl_bytes sgs)" "unat (fl_cnt f1) \<le> unat (fl_cnt f')"
        "unat (fl_cnt f') \<le> unat desc_max" "unat (fl_data f') = unat (fl_data f1) + m"
        "written_view p f' = written_view p f1 @ transfers (sgl_bytes sgs) (\<lambda>k. dev x0 (unat (fl_data f1) + k)) m"
        "m = length (sgl_bytes sgs) \<or> unat (fl_cnt f') = unat desc_max"
        "(\<forall>sg \<in> set sgs. sg_len sg \<noteq> 0) \<and> (sgs \<noteq> [] \<longrightarrow> 0 < unat (sg_len (hd sgs))) \<longrightarrow>
           unat (fl_cnt f') \<le> unat (fl_cnt f1) + m"
        using ih True s1(5,7) total by (auto simp: written_view_def)
      have "transfers (?seg @ sgl_bytes sgs) g (?len + m) = transfers ?seg g ?len @ transfers (sgl_bytes sgs) (\<lambda>j. g (?len + j)) m"
        for g :: "nat \<Rightarrow> 'a" using m(2) by (intro transfers_append) simp_all
      moreover have "unat (fl_cnt f') \<le> unat (fl_cnt f) + (?len + m)"
        if "\<forall>sg' \<in> set (sg # sgs). sg_len sg' \<noteq> 0" "unat ?off < unat (sg_len sg)"
        using few [OF that(2)] True m(8) that(1) by (cases sgs) (auto simp: unat_gt_0)
      ultimately show ?thesis unfolding bs using s1 m True pos
        by (intro exI [of _ "?len + m"]) (auto simp: add.assoc)
    qed
  qed
qed

end

section \<open>Requests\<close>

text \<open>A request as the callers of the driver make it: a scatter-gather list that holds as many bytes as
  the count says, in entries that are not empty unless the whole request is.  The bound keeps the
  descriptor counters of 32 bits from overflowing.\<close>

definition request_ok :: "qdma_request \<Rightarrow> bool" where
  "request_ok r \<longleftrightarrow> rq_sgl r \<noteq> [] \<and> unat (rq_count r) = length (sgl_bytes (rq_sgl r)) \<and>
     (rq_count r \<noteq> 0 \<longrightarrow> (\<forall>sg \<in> set (rq_sgl r). sg_len sg \<noteq> 0)) \<and> unat (rq_count r) + 2 ^ 17 < 2 ^ 32"

definition to_write :: "qdma_request \<Rightarrow> bool" where
  "to_write r \<longleftrightarrow> unat (cb_offset r) < unat (rq_count r) \<or> rq_count r = 0 \<and> cb_offset r = 0"

lemma find_offset_loop_spec:
  assumes "\<forall>sg \<in> set sgs. sg_len sg \<noteq> 0" and "unat acc \<le> unat off"
    and "unat off < unat acc + length (sgl_bytes sgs)" and "unat acc + length (sgl_bytes sgs) < 2 ^ 32"
  shows "\<exists>i o1. find_offset_loop i0 sgs acc off = Some (i0 + i, o1) \<and> i < length sgs \<and>
    unat o1 < unat (sg_len (sgs ! i)) \<and>
    drop (unat off - unat acc) (sgl_bytes sgs) = drop (unat o1) (sgl_bytes (drop i sgs))"
  using assms
proof (induction sgs arbitrary: i0 acc)
  case (Cons sg sgs)
  let ?len = "acc + sg_len sg"
  have len: "unat ?len = unat acc + unat (sg_len sg)" using Cons.prems(4) by (intro unat_plus_bounded) simp
  consider "?len = off" | "?len > off" | "?len < off" by force
  then show ?case
  proof cases
    case 1
    then have "sgs \<noteq> []" using Cons.prems(3) len by auto
    then obtain sg1 sgs1 where "sgs = sg1 # sgs1" by (cases sgs) auto
    moreover from this have "0 < unat (sg_len sg1)" using Cons.prems(1) by (simp add: unat_gt_0)
    moreover have "unat off - unat acc = unat (sg_len sg)" using 1 len by simp
    ultimately show ?thesis using 1 by (intro exI [of _ "1 :: nat"] exI [of _ "0 :: u32"]) (simp add: Let_def)
  next
    case 2
    have d: "unat (?len - off) = unat acc + unat (sg_len sg) - unat off"
      using 2 len by (subst unat_minus_bounded) (auto simp: word_less_nat_alt)
    have o1: "unat (sg_len sg - (?len - off)) = unat off - unat acc"
      using Cons.prems(2) 2 len d by (subst unat_minus_bounded) (auto simp: word_less_nat_alt)
    moreover have "unat off - unat acc < unat (sg_len sg)" using 2 len Cons.prems(2) by (simp add: word_less_nat_alt)
    ultimately have "unat (sg_len sg - (?len - off)) < unat (sg_len sg)" by (simp only:)
    then show ?thesis using 2 o1 by (intro exI [of _ "0 :: nat"] exI [of _ "sg_len sg - (?len - off)"]) (auto simp: Let_def)
  next
    case 3
    have "\<exists>i o1. find_offset_loop (Suc i0) sgs ?len off = Some (Suc i0 + i, o1) \<and> i < length sgs \<and>
      unat o1 < unat (sg_len (sgs ! i)) \<and>
      drop (unat off - unat ?len) (sgl_bytes sgs) = drop (unat o1) (sgl_bytes (drop i sgs))"
      using Cons.prems 3 len by (intro Cons.IH) (auto simp: word_less_nat_alt)
    then obtain i o1 where "find_offset_loop (Suc i0) sgs ?len off = Some (Suc i0 + i, o1)" "i < length sgs"
      "unat o1 < unat (sg_len (sgs ! i))"
      "drop (unat off - unat ?len) (sgl_bytes sgs) = drop (unat o1) (sgl_bytes (drop i sgs))" by blast
    moreover have "\<not> ?len = off" "\<not> off < ?len" using 3 by auto
    ultimately show ?thesis using 3 len
      by (intro exI [of _ "Suc i"] exI [of _ o1]) (auto simp: Let_def word_less_nat_alt)
  qed
qed simp

text \<open>The place where a request goes on.\<close>

lemma find_offset_spec:
  assumes rq: "request_ok req" "to_write req"
  shows "\<exists>i o1. qdma_sgl_find_offset req = Some (i, o1) \<and> i < length (rq_sgl req) \<and>
    unat o1 \<le> unat (sg_len (rq_sgl req ! i)) \<and>
    (rq_count req \<noteq> 0 \<longrightarrow> unat o1 < unat (sg_len (rq_sgl req ! i))) \<and>
    drop (unat (cb_offset req)) (sgl_bytes (rq_sgl req)) = drop (unat o1) (sgl_bytes (drop i (rq_sgl req)))"
proof (cases "rq_count req = 0")
  case True
  then show ?thesis using rq by (simp add: qdma_sgl_find_offset_def request_ok_def to_write_def)
next
  case False
  then show ?thesis
    using rq find_offset_loop_spec [of "rq_sgl req" 0 "cb_offset req" 0]
    by (fastforce simp: qdma_sgl_find_offset_def request_ok_def to_write_def)
qed

context desc_fill
begin

text \<open>One round of a request loop: it writes at least one descriptor and no more than there is room for,
  leaves the slots that follow alone, and what it writes are the next bytes of the request: all of them,
  or as many as fit.\<close>

lemma fill_request:
  assumes ring: "n = length ring0" "n = unat rngsz" "ring_ok rngsz" "unat p < n" and x: "ok x"
    and dm: "0 < unat desc_max" "unat desc_max < n" and rq: "request_ok req" "to_write req"
    and start: "qdma_sgl_find_offset req = Some start"
    and r: "fill_sgs fr rngsz desc_max (fst start) (drop (fst start) (rq_sgl req))
      \<lparr>fl_ring = ring0, fl_pidx = p, fl_x = x, fl_cnt = 0, fl_data = 0, fl_sgoff = snd start, fl_end = None\<rparr> = (i, f)"
  shows "length (fl_ring f) = n" and "unat (fl_pidx f) = (unat p + unat (fl_cnt f)) mod n"
    and "0 < unat (fl_cnt f)" and "unat (fl_cnt f) \<le> unat desc_max"
    and "\<And>k. unat (fl_cnt f) < k \<Longrightarrow> k < n \<Longrightarrow>
      fl_ring f ! ((unat p + k) mod n) = ring0 ! ((unat p + k) mod n)"
    and "map_option unat (fl_end f) = Some ((unat p + unat (fl_cnt f) - 1) mod n)"
    and "concat (map vw (slice (fl_ring f) (unat p) (unat (fl_cnt f)))) =
      transfers (drop (unat (cb_offset req)) (sgl_bytes (rq_sgl req))) (dev x) (unat (fl_data f))"
    and "unat (cb_offset req) + unat (fl_data f) \<le> unat (rq_count req)"
    and "unat (cb_offset req) + unat (fl_data f) = unat (rq_count req) \<or> unat (fl_cnt f) = unat desc_max"
    and "rq_count req \<noteq> 0 \<Longrightarrow> unat (fl_cnt f) \<le> unat (fl_data f) \<and> 0 < unat (fl_data f)"
proof -
  let ?f0 = "\<lparr>fl_ring = ring0, fl_pidx = p, fl_x = x, fl_cnt = 0, fl_data = 0, fl_sgoff = snd start, fl_end = None\<rparr>"
  let ?sgs = "drop (fst start) (rq_sgl req)" and ?bs = "drop (unat (cb_offset req)) (sgl_bytes (rq_sgl req))"
  obtain i1 o1 where st: "start = (i1, o1)" "i1 < length (rq_sgl req)" "unat o1 \<le> unat (sg_len (rq_sgl req ! i1))"
    "rq_count req \<noteq> 0 \<longrightarrow> unat o1 < unat (sg_len (rq_sgl req ! i1))" "?bs = drop (unat o1) (sgl_bytes (drop i1 (rq_sgl req)))"
    using find_offset_spec [OF rq] start by auto
  have ne: "?sgs \<noteq> []" and hd: "hd ?sgs = rq_sgl req ! i1" using st(1,2) by (simp_all add: hd_drop_conv_nth)
  have len: "length ?bs = unat (rq_count req) - unat (cb_offset req)" using rq(1) by (simp add: request_ok_def)
  have le: "unat (cb_offset req) \<le> unat (rq_count req)" using rq(2) by (auto simp: to_write_def)
  have f0: "filling ring0 (unat p) x ?f0" using ring x by (auto simp: filling_def)
  have b: "unat (fl_data ?f0) + length (drop (unat (fl_sgoff ?f0)) (sgl_bytes ?sgs)) < 2 ^ 32"
  proof -
    have "unat (rq_count req) < 2 ^ 32" using rq(1) by (simp add: request_ok_def)
    then have "length ?bs < 2 ^ 32" unfolding len by linarith
    then show ?thesis using st(1) by (simp flip: st(5))
  qed
  obtain m where m: "filling ring0 (unat p) x f" "m \<le> length ?bs" "unat (fl_cnt f) \<le> unat desc_max"
    "unat (fl_data f) = m" "written_view (unat p) f = transfers ?bs (dev x) m"
    "m = length ?bs \<or> unat (fl_cnt f) = unat desc_max" "0 < unat (fl_cnt f)"
    "unat o1 < unat (sg_len (rq_sgl req ! i1)) \<longrightarrow> 0 < m"
    "(\<forall>sg \<in> set ?sgs. sg_len sg \<noteq> 0) \<and> unat o1 < unat (sg_len (rq_sgl req ! i1)) \<longrightarrow> unat (fl_cnt f) \<le> m"
    using fill_sgs_spec [OF f0 ring(1-3) dm(2) _ _ b r] ne hd st(1,3) dm(1)
    by (auto simp: written_view_def slice_def simp flip: st(5))
  show "length (fl_ring f) = n" and "unat (fl_pidx f) = (unat p + unat (fl_cnt f)) mod n"
    and "\<And>k. unat (fl_cnt f) < k \<Longrightarrow> k < n \<Longrightarrow>
      fl_ring f ! ((unat p + k) mod n) = ring0 ! ((unat p + k) mod n)"
    and "map_option unat (fl_end f) = Some ((unat p + unat (fl_cnt f) - 1) mod n)"
    using m(1,7) ring(1) by (simp_all add: filling_def Let_def)
  show "0 < unat (fl_cnt f)" and "unat (fl_cnt f) \<le> unat desc_max" by fact+
  show "concat (map vw (slice (fl_ring f) (unat p) (unat (fl_cnt f)))) = transfers ?bs (dev x) (unat (fl_data f))"
    using m(4,5) by (simp add: written_view_def)
  show "unat (cb_offset req) + unat (fl_data f) \<le> unat (rq_count req)"
    and "unat (cb_offset req) + unat (fl_data f) = unat (rq_count req) \<or> unat (fl_cnt f) = unat desc_max"
    using m(2,4,6) len le by auto
  show "unat (fl_cnt f) \<le> unat (fl_data f) \<and> 0 < unat (fl_data f)" if "rq_count req \<noteq> 0"
    using m(4,8,9) st(4) rq(1) that by (auto simp: request_ok_def dest: in_set_dropD)
qed

end

end
