(* ===== verification/DescqMm.thy ===== *)
theory DescqMm
  imports DescqFill
begin

text \<open>
  Memory-mapped descriptors: the interpretation of the interface \<open>desc_fill\<close>, and what one round of
  \<^verbatim>\<open>descq_mm_proc_request\<close> writes for a request, with and without an aperture (keyhole).
\<close>

lemma unat_ucast_64 [simp]: "unat (ucast (w :: u32) :: u64) = unat w"
  by transfer (simp add: take_bit_nat_eq_self)

section \<open>Memory-mapped descriptors\<close>

text \<open>The device reads the 28-bit length field; the flags above it are not part of the length.  A byte is
  transferred between a host address and a card address.\<close>

definition mm_len :: "qdma_mm_desc \<Rightarrow> nat" where
  "mm_len d = unat (take_bit 28 (mm_flag_len d))"

definition mm_view :: "qdma_queue_conf \<Rightarrow> qdma_mm_desc \<Rightarrow> (u64 \<times> u64) list" where
  "mm_view c d =
     (let (host, card) = (if cf_q_type c = Q_C2H then (mm_dst_addr d, mm_src_addr d) else (mm_src_addr d, mm_dst_addr d))
      in map (\<lambda>k. (host + of_nat k, card + of_nat k)) [0 ..< mm_len d])"

text \<open>The card address of the \<open>k\<close>-th byte from \<open>x\<close> on: with an aperture it stays inside it.\<close>

definition mm_card :: "qdma_queue_conf \<Rightarrow> qdma_request \<Rightarrow> u64 \<Rightarrow> nat \<Rightarrow> u64" where
  "mm_card c req x k =
     (if cf_aperture_size c = 0 then x + of_nat k
      else rq_ep_addr req + of_nat ((unat x - unat (rq_ep_addr req) + k) mod unat (cf_aperture_size c)))"

definition mm_ok :: "qdma_queue_conf \<Rightarrow> qdma_request \<Rightarrow> u64 \<Rightarrow> bool" where
  "mm_ok c req x \<longleftrightarrow> cf_aperture_size c = 0 \<or>
     unat (cf_aperture_size c) < 2 ^ 28 \<and> unat (rq_ep_addr req) + 2 * unat (cf_aperture_size c) < 2 ^ 64 \<and>
     unat (rq_ep_addr req) \<le> unat x \<and> unat x \<le> unat (rq_ep_addr req) + unat (cf_aperture_size c)"

lemma take_bit_28: "unat (len :: u32) < 2 ^ 28 \<Longrightarrow> unat (take_bit 28 len) = unat len"
  by (simp add: unsigned_take_bit_eq take_bit_nat_eq_self)

lemma card_start:
  assumes "mm_ok c req x" and "cf_aperture_size c \<noteq> 0"
  defines "s \<equiv> unat (rq_ep_addr req)" and "a \<equiv> unat (cf_aperture_size c)"
  defines "x1 \<equiv> (if x > rq_ep_addr req + ucast (cf_aperture_size c) - 1 then rq_ep_addr req else x)"
  shows "unat (rq_ep_addr req + ucast (cf_aperture_size c) - 1) = s + a - 1"
    and "s \<le> unat x1" and "unat x1 < s + a" and "(unat x - s + k) mod a = (unat x1 - s + k) mod a"
proof -
  have a: "0 < a" "a < 2 ^ 28" "s + 2 * a < 2 ^ 64" "s \<le> unat x" "unat x \<le> s + a"
    using assms by (auto simp: mm_ok_def unat_gt_0)
  have u: "unat (ucast (cf_aperture_size c) :: u64) = a" by (simp add: a_def)
  have m1: "unat (rq_ep_addr req + ucast (cf_aperture_size c)) = s + a"
    using a u by (subst unat_plus_bounded) (simp_all add: s_def)
  show m: "unat (rq_ep_addr req + ucast (cf_aperture_size c) - 1) = s + a - 1"
    using m1 a by (subst unat_minus_bounded) simp_all
  show "s \<le> unat x1" "unat x1 < s + a" using m a by (auto simp: x1_def s_def word_less_nat_alt)
  show "(unat x - s + k) mod a = (unat x1 - s + k) mod a"
  proof (cases "x > rq_ep_addr req + ucast (cf_aperture_size c) - 1")
    case True
    then have "unat x = s + a" using m a by (simp add: word_less_nat_alt)
    then show ?thesis using True by (simp add: x1_def s_def)
  qed (simp add: x1_def)
qed


lemma mm_view_emit:
  assumes "unat len < 2 ^ 28" and "\<And>k. k < unat len \<Longrightarrow> y + of_nat k = g k"
  shows "mm_view c \<lparr>mm_src_addr = (if cf_q_type c = Q_C2H then y else src), mm_flag_len = len OR push_bit 28 1,
      mm_rsvd0 = 0, mm_dst_addr = (if cf_q_type c = Q_C2H then src else y), mm_rsvd1 = 0\<rparr> =
    transfers (seg_bytes src (unat len)) g (unat len)"
  using assms by (simp add: mm_view_def mm_len_def take_bit_28 transfers_def seg_bytes_nth)

lemma min_unat: "unat (min a b) = min (unat a) (unat b)"
  by (simp add: min_def word_le_nat_alt)

lemma mm_emit_law:
  assumes ok: "mm_ok c req x" and em: "fr_emit (mm_filler c req) i x src tlen d = (len, d', x')"
  shows "unat len \<le> unat tlen \<and> (tlen \<noteq> 0 \<longrightarrow> len \<noteq> 0) \<and>
      mm_view c d' = transfers (seg_bytes src (unat len)) (mm_card c req x) (unat len) \<and>
      mm_ok c req x' \<and> (\<forall>k. mm_card c req x' k = mm_card c req x (unat len + k))"
proof (cases "cf_aperture_size c = 0")
  case True
  have len: "len = min tlen QDMA_DESC_BLEN_MAX" and d': "d' = \<lparr>mm_src_addr = (if cf_q_type c = Q_C2H then x else src),
      mm_flag_len = len OR push_bit 28 1, mm_rsvd0 = 0, mm_dst_addr = (if cf_q_type c = Q_C2H then src else x), mm_rsvd1 = 0\<rparr>"
    and x': "x' = x + ucast len"
    using em True by (auto simp: mm_filler_def mm_emit_def mm_aperture_def Let_def)
  have u: "unat len = min (unat tlen) (2 ^ 28 - 1)" by (simp add: len min_unat)
  have "mm_view c d' = transfers (seg_bytes src (unat len)) (mm_card c req x) (unat len)"
    unfolding d' by (rule mm_view_emit) (simp_all add: u mm_card_def True)
  moreover have "len \<noteq> 0" if "tlen \<noteq> 0"
  proof -
    have "0 < unat len" using that u by (simp add: unat_gt_0)
    then show ?thesis by auto
  qed
  moreover have "mm_card c req x' k = mm_card c req x (unat len + k)" for k
    by (simp add: mm_card_def True x' add.assoc)
  moreover have "unat len \<le> unat tlen" using u by simp
  ultimately show ?thesis by (simp add: mm_ok_def True)
next
  case False
  let ?s = "unat (rq_ep_addr req)" and ?a = "unat (cf_aperture_size c)"
  let ?m = "rq_ep_addr req + ucast (cf_aperture_size c) - 1"
  define x1 where "x1 = (if x > ?m then rq_ep_addr req else x)"
  note st = card_start [OF ok False, folded x1_def]
  have a: "0 < ?a" "?a < 2 ^ 28" "?s + 2 * ?a < 2 ^ 64" using ok False by (auto simp: mm_ok_def unat_gt_0)
  define l where "l = min tlen (cf_aperture_size c)"
  have len: "len = (if x1 + ucast l > ?m then ucast (?m - x1 + 1) else l)" and x': "x' = x1 + ucast len"
    and d': "d' = \<lparr>mm_src_addr = (if cf_q_type c = Q_C2H then x1 else src),
      mm_flag_len = len OR push_bit 28 1, mm_rsvd0 = 0, mm_dst_addr = (if cf_q_type c = Q_C2H then src else x1), mm_rsvd1 = 0\<rparr>"
    using em False by (auto simp: mm_filler_def mm_emit_def mm_aperture_def Let_def l_def x1_def)
  have l: "unat l = min (unat tlen) ?a" by (simp add: l_def min_unat)
  have xl: "unat (x1 + ucast l) = unat x1 + unat l" using st(2,3) a l by (subst unat_plus_bounded) simp_all
  have mx: "unat (?m - x1 + 1) = ?s + ?a - unat x1"
  proof -
    have "unat (?m - x1) = ?s + ?a - 1 - unat x1" using st(1,3) by (subst unat_minus_bounded) simp_all
    then show ?thesis using st(2,3) a by (subst unat_plus_bounded) simp_all
  qed
  have room: "unat (ucast (?m - x1 + 1) :: u32) = ?s + ?a - unat x1"
    using mx st(2) a by (simp add: unsigned_ucast_eq unsigned_take_bit_eq take_bit_nat_eq_self)
  have u: "unat len = min (unat tlen) (?s + ?a - unat x1)"
    using xl st(1,2,3) l room by (auto simp: len word_less_nat_alt min_def)
  have x'u: "unat x' = unat x1 + unat len" using st(2,3) a u unfolding x' by (subst unat_plus_bounded) simp_all
  have "mm_view c d' = transfers (seg_bytes src (unat len)) (mm_card c req x) (unat len)"
    unfolding d'
  proof (rule mm_view_emit)
    show "unat len < 2 ^ 28" using u st(2) a by simp
    fix k assume k: "k < unat len"
    have "unat x1 - ?s + k < ?a" using k u st(2) by linarith
    then have "(unat x1 - ?s + k) mod ?a = unat x1 - ?s + k" by (rule mod_less)
    moreover have "x1 = rq_ep_addr req + of_nat (unat x1 - ?s)"
      using st(2) by (simp add: of_nat_diff)
    ultimately show "x1 + of_nat k = mm_card c req x k"
      using False st(4) [of k] by (simp add: mm_card_def add.assoc of_nat_diff)
  qed
  moreover have "len \<noteq> 0" if "tlen \<noteq> 0"
  proof -
    have "0 < unat len" using that u st(3) by (simp add: unat_gt_0)
    then show ?thesis by auto
  qed
  moreover have "mm_ok c req x'" using False a st(2,3) u x'u by (simp add: mm_ok_def)
  moreover have "mm_card c req x' k = mm_card c req x (unat len + k)" for k
  proof -
    have "unat x' - ?s + k = unat x1 - ?s + (unat len + k)" using x'u st(2) by simp
    then show ?thesis using False st(4) [of "unat len + k"] by (simp add: mm_card_def add.assoc)
  qed
  ultimately show ?thesis using u by simp
qed

interpretation mm: desc_fill "mm_filler c req" "mm_view c" "mm_card c req" "mm_ok c req" for c req
  by unfold_locales (rule mm_emit_law)

end
