(* ===== verification/DescqH2c.thy ===== *)
theory DescqH2c
  imports DescqMm
begin

text \<open>
  Streaming host-to-card requests (\<^verbatim>\<open>descq_proc_st_h2c_request\<close> and its variant for drivers that fill
  descriptors themselves), the functions that drive both kinds of queue, and the submission of requests
  (\<^verbatim>\<open>libqdma/qdma_descq.c\<close>, \<^verbatim>\<open>libqdma/libqdma_export.c\<close>).
\<close>

section \<open>Streaming requests\<close>

record qdma_h2c_desc =
  h2c_cdh_flags :: u16
  h2c_pld_len :: u16
  h2c_len :: u16
  h2c_flags :: u16
  h2c_src_addr :: u64

definition S_H2C_DESC_F_SOP :: u16 where [simp]: "S_H2C_DESC_F_SOP = 1"
definition S_H2C_DESC_F_EOP :: u16 where [simp]: "S_H2C_DESC_F_EOP = 2"
definition S_H2C_DESC_F_ZERO_CDH :: u16 where [simp]: "S_H2C_DESC_F_ZERO_CDH = 13"

definition h2c_pktsz :: "qdma_request \<Rightarrow> u32" where
  "h2c_pktsz req = (if rq_ep_addr req \<noteq> 0 then min (ucast (rq_ep_addr req)) PAGE_SIZE else PAGE_SIZE)"

definition h2c_clear :: "qdma_h2c_desc \<Rightarrow> qdma_h2c_desc" where
  "h2c_clear d = d\<lparr>h2c_flags := 0, h2c_cdh_flags := 0\<rparr>"

text \<open>One descriptor for entry \<open>i\<close> of \<open>sg_max\<close>; the packet flags are set for queues in bypass mode.\<close>

definition h2c_emit :: "bool \<Rightarrow> nat \<Rightarrow> u32 \<Rightarrow> nat \<Rightarrow> u64 \<Rightarrow> u32 \<Rightarrow> qdma_h2c_desc \<Rightarrow> u32 \<times> qdma_h2c_desc" where
  "h2c_emit bypass sg_max pktsz i src tlen d =
     (let len = min tlen pktsz;
          d = d\<lparr>h2c_src_addr := src, h2c_len := ucast len, h2c_pld_len := ucast len,
                h2c_cdh_flags := h2c_cdh_flags d OR S_H2C_DESC_F_ZERO_CDH\<rparr>;
          d = (if bypass \<and> i = 0 then d\<lparr>h2c_flags := h2c_flags d OR S_H2C_DESC_F_SOP\<rparr> else d);
          d = (if bypass \<and> Suc i = sg_max then d\<lparr>h2c_flags := h2c_flags d OR S_H2C_DESC_F_EOP\<rparr> else d)
      in (len, d))"

definition h2c_filler :: "qdma_queue_conf \<Rightarrow> qdma_request \<Rightarrow> (qdma_h2c_desc, unit) filler" where
  "h2c_filler c req =
     \<lparr>fr_emit = (\<lambda>i x src tlen d. case h2c_emit (cf_desc_bypass c) (length (rq_sgl req)) (h2c_pktsz req) i src tlen d
                   of (len, d) \<Rightarrow> (len, d, x)),
      fr_next = h2c_clear\<rparr>"

definition h2c_fill ::
    "qdma_request \<Rightarrow> nat \<times> u32 \<Rightarrow> qdma_h2c_desc qdma_descq \<Rightarrow> nat \<times> (qdma_h2c_desc, unit) fill" where
  "h2c_fill req start q =
     fill_sgs (h2c_filler (dq_conf q) req) (cf_rngsz (dq_conf q)) (dq_avail q) (fst start)
       (drop (fst start) (rq_sgl req))
       \<lparr>fl_ring = (dq_desc q)[unat (dq_pidx q) := h2c_clear (dq_desc q ! unat (dq_pidx q))], fl_pidx = dq_pidx q,
        fl_x = (), fl_cnt = 0, fl_data = 0, fl_sgoff = snd start, fl_end = None\<rparr>"

text \<open>The request loop; unlike the loop for MM it ends when no descriptor was written.\<close>

fun h2c_loop ::
    "nat \<Rightarrow> 's ring_dev \<Rightarrow> (qdma_h2c_desc, 's) bypass_fill \<Rightarrow> u32 \<Rightarrow> qdma_h2c_desc qdma_descq \<Rightarrow> 's \<Rightarrow>
       (u32 \<times> qdma_h2c_desc qdma_descq \<times> 's) option" where
  "h2c_loop 0 dev bypass written q s = None"
| "h2c_loop (Suc fuel) dev bypass written q s =
     (case dq_work_list q of
        [] \<Rightarrow> Some (written, q, s)
      | req # _ \<Rightarrow>
          (let (q, s) = desc_room dev q s
           in if dq_avail q = 0 then Some (written, q, s)
              else
                case bypass of
                  Some h \<Rightarrow>
                    (let (n, q, s) = h req q s
                     in if n > 0 then h2c_loop fuel dev bypass (written + of_int n) q s
                        else Some (written, q, s))
                | None \<Rightarrow>
                    (case qdma_sgl_find_offset req of
                       None \<Rightarrow> h2c_loop fuel dev bypass written (qdma_update_request req 0 0 0 None q) s
                     | Some start \<Rightarrow>
                         (let r = h2c_fill req start q; q = fill_done req r q; cnt = fl_cnt (snd r)
                          in if cnt = 0 then Some (written, q, s)
                             else h2c_loop fuel dev bypass (written + cnt) q s))))"

text \<open>The measurement of round trips (\<^verbatim>\<open>ping_pong_en\<close>), which puts a time stamp into the packet, is taken to be off.\<close>

definition descq_proc_st_h2c_request ::
    "nat \<Rightarrow> 's ring_dev \<Rightarrow> (qdma_h2c_desc, 's) bypass_fill \<Rightarrow> qdma_h2c_desc qdma_descq \<Rightarrow> 's \<Rightarrow>
       (int \<times> qdma_h2c_desc qdma_descq \<times> 's) option" where
  "descq_proc_st_h2c_request fuel dev bypass q s =
     proc_request (h2c_loop fuel dev (bypass_of bypass q)) dev q s"

text \<open>The variant in which the handler \<open>h\<close> fills all descriptors.  \<open>None\<close> stands for running out of fuel,
  and for taking the first entry of an empty work list, which the code does when its counter of work
  requests is wrong.  The lock is free when the function is entered.\<close>

type_synonym ('d, 's) desc_handler = "qdma_request \<Rightarrow> 'd qdma_descq \<Rightarrow> 's \<Rightarrow> int \<times> 'd qdma_descq \<times> 's"

fun qep_setup ::
    "nat \<Rightarrow> ('d, 's) desc_handler \<Rightarrow> u32 \<Rightarrow> 'd qdma_descq \<Rightarrow> 's \<Rightarrow> (u32 \<times> 'd qdma_descq \<times> 's) option" where
  "qep_setup 0 h written q s = None"
| "qep_setup (Suc fuel) h written q s =
     (if dq_work_req_pend q = 0 \<or> dq_avail q = 0 then Some (written, q, s)
      else case dq_work_list q of
        [] \<Rightarrow> None
      | req # _ \<Rightarrow>
          (let (n, q, s) = h req q s; desc_cnt = of_int n; written' = written + desc_cnt
           in if desc_cnt = 0 then Some (written, q, s)
              else if written' \<ge> cf_pidx_acc (dq_conf q) then Some (written', q, s)
              else qep_setup fuel h written' q s))"

fun qep_rounds ::
    "nat \<Rightarrow> 's ring_dev \<Rightarrow> ('d, 's) desc_handler \<Rightarrow> 'd qdma_descq \<Rightarrow> 's \<Rightarrow> (int \<times> 'd qdma_descq \<times> 's) option" where
  "qep_rounds 0 dev h q s = None"
| "qep_rounds (Suc fuel) dev h q s =
     Option.bind (qep_setup fuel h 0 q s) (\<lambda>(written, q, s).
       if written = 0
       then if dq_work_req_pend q \<noteq> 0 \<and> dq_avail q = cf_rngsz (dq_conf q) - 1
            then map_option (\<lambda>(_, q, s). (0, q, s))
                   (if dq_stop_wait q
                    then (case descq_mm_n_h2c_cmpl_status dev q s of (_, q, s) \<Rightarrow> Some (0, q, s))
                    else if dq_state q \<noteq> Q_STATE_ONLINE then Some (0, q, s)
                    else qep_rounds fuel dev h q s)
            else Some (0, q, s)
       else
         let q = q\<lparr>dq_desc_pend := dq_desc_pend q + ucast written,
                   dq_pidx_info := (dq_pidx_info q)\<lparr>pidx := ucast (dq_pidx q)\<rparr>\<rparr>;
             (ret, q, s) = qdma_pidx_update dev False q s
         in if ret < 0 then Some (- EINVAL, q, s)
            else if dq_work_req_pend q \<noteq> 0 \<and> written \<ge> cf_pidx_acc (dq_conf q) then qep_rounds fuel dev h q s
            else Some (ret, q, s))"

definition descq_proc_st_h2c_request_qep ::
    "nat \<Rightarrow> 's ring_dev \<Rightarrow> ('d, 's) desc_handler \<Rightarrow> 'd qdma_descq \<Rightarrow> 's \<Rightarrow> (int \<times> 'd qdma_descq \<times> 's) option" where
  "descq_proc_st_h2c_request_qep fuel dev h q s =
     (if dq_stop_wait q then (case descq_mm_n_h2c_cmpl_status dev q s of (_, q, s) \<Rightarrow> Some (0, q, s))
      else if dq_state q \<noteq> Q_STATE_ONLINE then Some (0, q, s)
      else qep_rounds fuel dev h q s)"

section \<open>Driving a queue\<close>

text \<open>\<^verbatim>\<open>qdma_descq_proc_sgt_request\<close> for the two kinds of descriptor ring.\<close>

definition proc_sgt_request_mm ::
    "nat \<Rightarrow> 's ring_dev \<Rightarrow> (qdma_mm_desc, 's) bypass_fill \<Rightarrow> qdma_mm_desc qdma_descq \<Rightarrow> 's \<Rightarrow>
       (int \<times> qdma_mm_desc qdma_descq \<times> 's) option" where
  "proc_sgt_request_mm fuel dev bypass q s =
     (if \<not> cf_st (dq_conf q) then descq_mm_proc_request fuel dev bypass q s else Some (- EINVAL, q, s))"

definition proc_sgt_request_st ::
    "nat \<Rightarrow> 's ring_dev \<Rightarrow> (qdma_h2c_desc, 's) bypass_fill \<Rightarrow> qdma_h2c_desc qdma_descq \<Rightarrow> 's \<Rightarrow>
       (int \<times> qdma_h2c_desc qdma_descq \<times> 's) option" where
  "proc_sgt_request_st fuel dev bypass q s =
     (if cf_st (dq_conf q) \<and> cf_q_type (dq_conf q) = Q_H2C
      then case bypass_of bypass q of
             Some h \<Rightarrow>
               if dq_drv_mode q = DIRECT_INTR_MODE then descq_proc_st_h2c_request_qep fuel dev h q s
               else descq_proc_st_h2c_request fuel dev bypass q s
           | None \<Rightarrow> descq_proc_st_h2c_request fuel dev bypass q s
      else Some (- EINVAL, q, s))"

text \<open>\<^verbatim>\<open>qdma_descq_service_cmpl_update\<close> for queues that are not ST C2H; \<open>proc\<close> is the function above.\<close>

type_synonym ('d, 's) queue_proc = "'d qdma_descq \<Rightarrow> 's \<Rightarrow> (int \<times> 'd qdma_descq \<times> 's) option"

definition service_cmpl_update ::
    "'s ring_dev \<Rightarrow> ('d, 's) queue_proc \<Rightarrow> 'd qdma_descq \<Rightarrow> 's \<Rightarrow> (int \<times> 'd qdma_descq \<times> 's) option" where
  "service_cmpl_update dev proc q s =
     (if polls q
      then if \<not> dq_proc_req_running q then map_option (\<lambda>(_, q, s). (0, q, s)) (proc q s) else Some (0, q, s)
      else
        let (_, q, s) = descq_mm_n_h2c_cmpl_status dev q s
        in if dq_work_req_pend q \<noteq> 0 \<or> dq_desc_pend q \<noteq> 0 then proc q s else Some (0, q, s))"

text \<open>\<^verbatim>\<open>qdma_q_desc_get\<close>: descriptors for a handler, starting at the index returned.\<close>

definition qdma_q_desc_get ::
    "'s ring_dev \<Rightarrow> u32 \<Rightarrow> 'd qdma_descq \<Rightarrow> 's \<Rightarrow> (int + u32) \<times> 'd qdma_descq \<times> 's" where
  "qdma_q_desc_get dev desc_cnt q s =
     (if desc_cnt \<ge> cf_rngsz (dq_conf q) then (Inl (- EINVAL), q, s)
      else
        let (q, s) = (if dq_avail q < desc_cnt then snd (descq_mm_n_h2c_cmpl_status dev q s) else (q, s))
        in if dq_avail q < desc_cnt then (Inl (- EBUSY), q, s)
           else (Inr (dq_pidx q),
                 q\<lparr>dq_pidx := incr_pidx (dq_pidx q) desc_cnt (cf_rngsz (dq_conf q)),
                   dq_avail := dq_avail q - desc_cnt\<rparr>, s))"

section \<open>Submitting requests\<close>

definition cb_reset :: "qdma_request \<Rightarrow> qdma_request" where
  "cb_reset req =
     req\<lparr>cb_desc_nr := 0, cb_offset := 0, cb_sg_offset := 0, cb_sg := None, cb_sg_idx := 0, cb_left := 0,
         cb_status := 0, cb_is_done := False, cb_unmap_needed := False\<rparr>"

text \<open>\<^verbatim>\<open>qdma_request_submit\<close> for queues that are not ST C2H, up to the point where the caller waits: an
  error, or the request is on its way.  The first part ends when the lock of the queue is released with the request
  on the work list; other operations may run before the second part, which calls the function that processes
  requests.  \<open>map_rv\<close> is the result of mapping the scatter-gather list when the caller has not mapped it.\<close>

definition bad_direction :: "bool \<Rightarrow> queue_type_t \<Rightarrow> bool" where
  "bad_direction write t \<longleftrightarrow> write \<and> t \<noteq> Q_H2C \<or> \<not> write \<and> t \<noteq> Q_C2H"

definition request_enqueue ::
    "bool \<Rightarrow> int option \<Rightarrow> qdma_request \<Rightarrow> 'd qdma_descq \<Rightarrow> int \<times> 'd qdma_descq" where
  "request_enqueue write map_rv req q =
     (if cf_q_type (dq_conf q) = Q_CMPT then (- EINVAL, q)
      else if bad_direction write (cf_q_type (dq_conf q)) then (- EINVAL, q)
      else
        let cb = cb_reset req
        in case map_rv of
             Some rv \<Rightarrow>
               if rv < 0 then (rv, q)
               else if dq_state q \<noteq> Q_STATE_ONLINE then (- EINVAL, q)
               else (0, qdma_work_queue_add (cb\<lparr>cb_unmap_needed := True\<rparr>) q)
           | None \<Rightarrow>
               if dq_state q \<noteq> Q_STATE_ONLINE then (- EINVAL, q)
               else (0, qdma_work_queue_add cb q))"

definition qdma_request_submit ::
    "('d, 's) queue_proc \<Rightarrow> bool \<Rightarrow> int option \<Rightarrow> qdma_request \<Rightarrow> 'd qdma_descq \<Rightarrow> 's \<Rightarrow>
       (int \<times> 'd qdma_descq \<times> 's) option" where
  "qdma_request_submit proc write map_rv req q s =
     (case request_enqueue write map_rv req q of
        (rv, q) \<Rightarrow> if rv < 0 then Some (rv, q, s) else map_option (\<lambda>(_, q, s). (0, q, s)) (proc q s))"

text \<open>The end of the wait, by completion or by timeout: a request that is not done is taken off its list.\<close>

definition qdma_request_wait_for_cmpl :: "nat \<Rightarrow> 'd qdma_descq \<Rightarrow> int \<times> 'd qdma_descq" where
  "qdma_request_wait_for_cmpl rid q =
     (case List.find (\<lambda>(r, _, _). rq_id r = rid) (dq_done q) of
        Some (r, _, _) \<Rightarrow> (if cb_status r \<noteq> 0 then - EIO else 0, q)
      | None \<Rightarrow>
          (- EIO, q\<lparr>dq_work_list := remove_first (\<lambda>r. rq_id r = rid) (dq_work_list q),
                    dq_pend_list := remove_first (\<lambda>r. rq_id r = rid) (dq_pend_list q)\<rparr>))"

text \<open>\<^verbatim>\<open>qdma_batch_request_submit\<close> for queues that are not ST C2H.  A request whose mapping fails is
  reported to its caller, and is added to the work list like the others; the counter of work requests
  is not changed.\<close>

definition batch_prepare :: "qdma_request \<times> int option \<Rightarrow> 'd qdma_descq \<Rightarrow> qdma_request \<times> 'd qdma_descq" where
  "batch_prepare rm q =
     (case rm of
        (req, None) \<Rightarrow> (cb_reset req, q)
      | (req, Some rv) \<Rightarrow>
          ((cb_reset req)\<lparr>cb_unmap_needed := True\<rparr>,
           if rv < 0 then q\<lparr>dq_done := dq_done q @ [(cb_reset req, 0, rv)]\<rparr> else q))"

fun batch_prepares :: "(qdma_request \<times> int option) list \<Rightarrow> 'd qdma_descq \<Rightarrow> qdma_request list \<times> 'd qdma_descq" where
  "batch_prepares [] q = ([], q)"
| "batch_prepares (rm # rms) q =
     (let (cb, q) = batch_prepare rm q; (cbs, q) = batch_prepares rms q in (cb # cbs, q))"

definition qdma_batch_request_submit ::
    "('d, 's) queue_proc \<Rightarrow> bool \<Rightarrow> (qdma_request \<times> int option) list \<Rightarrow> 'd qdma_descq \<Rightarrow> 's \<Rightarrow>
       (int \<times> 'd qdma_descq \<times> 's) option" where
  "qdma_batch_request_submit proc write reqv q s =
     (if cf_q_type (dq_conf q) = Q_CMPT then Some (- EINVAL, q, s)
      else if bad_direction write (cf_q_type (dq_conf q)) then Some (- EINVAL, q, s)
      else if \<not> rq_fp_done (fst (hd reqv)) then Some (- EINVAL, q, s)
      else
        let (cbs, q) = batch_prepares reqv q
        in if dq_state q \<noteq> Q_STATE_ONLINE then Some (- EINVAL, q, s)
           else map_option (\<lambda>(_, q, s). (0, q, s))
                  (proc (q\<lparr>dq_work_list := dq_work_list q @ cbs\<rparr>) s))"

section \<open>The interface of the streaming descriptors\<close>

text \<open>The device takes \<^verbatim>\<open>len\<close> bytes from \<^verbatim>\<open>src_addr\<close>; there is no card address.\<close>

definition h2c_view :: "qdma_h2c_desc \<Rightarrow> (u64 \<times> unit) list" where
  "h2c_view d = map (\<lambda>k. (h2c_src_addr d + of_nat k, ())) [0 ..< unat (h2c_len d)]"

lemma h2c_emit_law:
  assumes ps: "h2c_pktsz req \<noteq> 0" and em: "fr_emit (h2c_filler c req) i x src tlen d = (len, d', x')"
  shows "unat len \<le> unat tlen \<and> (tlen \<noteq> 0 \<longrightarrow> len \<noteq> 0) \<and>
      h2c_view d' = transfers (seg_bytes src (unat len)) (\<lambda>_. ()) (unat len)"
proof -
  have len: "len = min tlen (h2c_pktsz req)" and d': "h2c_src_addr d' = src" "h2c_len d' = ucast len"
    using em by (auto simp: h2c_filler_def h2c_emit_def Let_def split: if_splits)
  have "unat (h2c_pktsz req) \<le> 4096" by (auto simp: h2c_pktsz_def min_unat)
  then have u: "unat len \<le> unat tlen" "unat len \<le> 4096" by (auto simp: len min_unat)
  have "unat (ucast len :: u16) = unat len"
    using u by (simp add: unsigned_ucast_eq unsigned_take_bit_eq take_bit_nat_eq_self)
  then show ?thesis using u(1) ps by (auto simp: h2c_view_def d' transfers_def seg_bytes_nth len min_def)
qed

interpretation h2c: desc_fill "h2c_filler c req" h2c_view "\<lambda>_ _. ()" "\<lambda>_. h2c_pktsz req \<noteq> 0" for c req
  using h2c_emit_law by unfold_locales blast

end
