(* ===== verification/DescqC2h.thy ===== *)
theory DescqC2h
  imports DescqH2c
begin

text \<open>
  Streaming card-to-host (ST C2H) queues (\<^verbatim>\<open>libqdma/qdma_st_c2h.c\<close>).  The descriptors of such a queue are a
  free list of receive buffers: the device fills buffers in ring order and writes an entry to the completion
  ring for each packet.  The driver turns a completion entry into packet buffers, copies data out of them
  into the memory of the caller, and gives the buffers back.

  The host memory that matters here is explicit: bytes by page and offset, the reference count of each page,
  and the outcomes of the page allocations to come.  A page is named by a number; a null page is \<open>None\<close>.
  Pointers to the entries of the free list are indices; the pointer \<^verbatim>\<open>next\<close> of an entry is the following
  index, and the first for the last.  The pointer \<^verbatim>\<open>desc_cmpt_cur\<close> into the completion ring moves in step with
  \<^verbatim>\<open>cidx_cmpt\<close>.
\<close>

section \<open>Types\<close>

record qdma_c2h_desc =
  c2h_dst_addr :: u64

record qdma_sdesc_info =
  si_valid :: bool
  si_sop :: bool
  si_eop :: bool
  si_cidx :: u32

record qdma_sw_pg_sg =
  pg_base :: "nat option"
  pg_dma_base_addr :: u64
  pg_offset :: u32

record qdma_flq =
  fq_size :: u32
  fq_desc_buf_size :: u32
  fq_num_pages :: u32
  fq_num_pgs_mask :: u32
  fq_num_bufs_per_pg :: u32
  fq_alloc_idx :: u32
  fq_recycle_idx :: u32
  fq_max_pg_offset :: u32
  fq_desc_pg_order :: u8
  fq_desc_pg_shift :: u8
  fq_udd_cnt :: u32
  fq_pkt_cnt :: u32
  fq_pkt_dlen :: u32
  fq_alloc_fail :: u64
  fq_mapping_err :: u64
  fq_pidx_pend :: u32
  fq_pg_sdesc :: "qdma_sw_pg_sg list"
  fq_sdesc :: "qdma_sw_sg list"
  fq_sdesc_info :: "qdma_sdesc_info list"

record qdma_ul_cmpt_info =
  ci_format :: bool
  ci_color :: bool
  ci_err :: bool
  ci_desc_used :: bool
  ci_eot :: bool
  ci_len :: u16
  ci_pidx :: u32
  ci_entry :: u64

type_synonym host_bytes = "nat option \<Rightarrow> nat \<Rightarrow> u8"

datatype page_result = Page nat u64 | No_memory | Map_error

text \<open>A queue with what only ST C2H queues have, and the host memory.\<close>

record c2h_q =
  cq_q :: "qdma_c2h_desc qdma_descq"
  cq_flq :: qdma_flq
  cq_err :: bool
  cq_color :: bool
  cq_cidx_cmpt :: u32
  cq_pidx_cmpt :: u32
  cq_cmpt_cidx_info :: qdma_q_cmpt_cidx_reg_info
  cq_cmpt_entry_len :: u8
  cq_moving_avg :: u32
  cq_avg_thr_hi :: u32
  cq_avg_thr_lo :: u32
  cq_sorted_idx :: u8
  cq_monitor_cnt :: u8
  cq_bytes :: host_bytes
  cq_refs :: "nat \<Rightarrow> int"
  cq_pages :: "page_result list"

text \<open>The device: the registers, and the completion ring with its status in host memory.\<close>

record 's c2h_dev =
  cd_ring :: "'s ring_dev"
  cd_cmpt_cidx_update :: "u32 \<Rightarrow> qdma_q_cmpt_cidx_reg_info \<Rightarrow> 's \<Rightarrow> int \<times> 's"
  cd_cmpt_pidx :: "'s \<Rightarrow> u16 \<times> 's"
  cd_cmpt_entry :: "u32 \<Rightarrow> 's \<Rightarrow> u64 \<times> 's"

text \<open>The configuration of the device and the handlers of the caller: \<^verbatim>\<open>fp_descq_c2h_packet\<close> and
  \<^verbatim>\<open>fp_proc_ul_cmpt_entry\<close>.\<close>

record global_csr_conf =
  cs_ring_sz :: "u32 list"
  cs_c2h_cnt_th :: "u32 list"
  cs_c2h_buf_sz :: "u32 list"

record 's c2h_env =
  ce_csr :: global_csr_conf
  ce_sorted_c2h_cntr_idx :: "u8 list"
  ce_intr_moderation :: bool
  ce_c2h_packet :: "u32 \<Rightarrow> int \<Rightarrow> u32 option \<Rightarrow> u64 option \<Rightarrow> c2h_q \<Rightarrow> 's \<Rightarrow> int \<times> c2h_q \<times> 's"
  ce_ul_cmpt_entry :: "(u64 \<Rightarrow> int \<times> qdma_ul_cmpt_info) option"

definition QDMA_GLOBAL_CSR_ARRAY_LEN :: u8 where [simp]: "QDMA_GLOBAL_CSR_ARRAY_LEN = 16"
definition PAGE_SHIFT :: u8 where [simp]: "PAGE_SHIFT = 12"

text \<open>Updates of parts of the queue.\<close>

abbreviation upd_q :: "(qdma_c2h_desc qdma_descq \<Rightarrow> qdma_c2h_desc qdma_descq) \<Rightarrow> c2h_q \<Rightarrow> c2h_q" where
  "upd_q f c \<equiv> c\<lparr>cq_q := f (cq_q c)\<rparr>"

abbreviation upd_flq :: "(qdma_flq \<Rightarrow> qdma_flq) \<Rightarrow> c2h_q \<Rightarrow> c2h_q" where
  "upd_flq f c \<equiv> c\<lparr>cq_flq := f (cq_flq c)\<rparr>"

abbreviation conf_of :: "c2h_q \<Rightarrow> qdma_queue_conf" where
  "conf_of c \<equiv> dq_conf (cq_q c)"

section \<open>Receive buffers\<close>

definition flq_free_one :: "qdma_sw_sg \<Rightarrow> qdma_c2h_desc \<Rightarrow> qdma_sw_sg \<times> qdma_c2h_desc" where
  "flq_free_one sdesc desc =
     (let (sdesc, desc) = (if sg_dma_addr sdesc \<noteq> 0 then (sdesc\<lparr>sg_dma_addr := 0\<rparr>, desc\<lparr>c2h_dst_addr := 0\<rparr>)
                           else (sdesc, desc))
      in (if sg_pg sdesc \<noteq> None then sdesc\<lparr>sg_pg := None, sg_offset := 0\<rparr> else sdesc, desc))"

text \<open>\<^verbatim>\<open>flq_fill_one\<close> on entry \<open>i\<close>: the next buffer of the page at the allocation index.\<close>

definition flq_fill_one :: "nat \<Rightarrow> c2h_q \<Rightarrow> int \<times> c2h_q" where
  "flq_fill_one i c =
     (let flq = cq_flq c
      in if fq_num_pages flq = 0 then (- EINVAL, c)
         else
           let buf_sz = fq_desc_buf_size flq; pg_idx = fq_alloc_idx flq AND fq_num_pgs_mask flq
           in if pg_idx \<ge> fq_num_pages flq then (- EINVAL, c)
              else
                let pg = fq_pg_sdesc flq ! unat pg_idx
                in case pg_base pg of
                     None \<Rightarrow> (- EINVAL, c)
                   | Some p \<Rightarrow>
                       if pg_offset pg + buf_sz > fq_max_pg_offset flq then (- ENOMEM, c)
                       else
                         let addr = pg_dma_base_addr pg + ucast (pg_offset pg);
                             sdesc = (fq_sdesc flq ! i)\<lparr>sg_pg := Some p, sg_offset := pg_offset pg,
                                       sg_dma_addr := addr, sg_len := cf_c2h_bufsz (conf_of c)\<rparr>;
                             pg' = pg\<lparr>pg_offset := pg_offset pg + buf_sz\<rparr>;
                             full = (pg_offset pg' + buf_sz > fq_max_pg_offset flq)
                         in (0, c\<lparr>cq_q := (cq_q c)\<lparr>dq_desc := (dq_desc (cq_q c))[i := \<lparr>c2h_dst_addr = addr\<rparr>]\<rparr>,
                                  cq_refs := (cq_refs c)(p := cq_refs c p + 1),
                                  cq_flq := flq\<lparr>fq_sdesc := (fq_sdesc flq)[i := sdesc],
                                                fq_pg_sdesc := (fq_pg_sdesc flq)[unat pg_idx := pg'],
                                                fq_alloc_idx := (if full then fq_alloc_idx flq + 1 else fq_alloc_idx flq)\<rparr>\<rparr>))"

definition flq_unmap_page_one :: "qdma_sw_pg_sg \<Rightarrow> qdma_sw_pg_sg" where
  "flq_unmap_page_one pg = (if pg_dma_base_addr pg \<noteq> 0 then pg\<lparr>pg_dma_base_addr := 0\<rparr> else pg)"

text \<open>\<^verbatim>\<open>put_page\<close>, \<open>n\<close> times.\<close>

definition put_pages :: "nat \<Rightarrow> nat \<Rightarrow> (nat \<Rightarrow> int) \<Rightarrow> nat \<Rightarrow> int" where
  "put_pages n p refs = refs(p := refs p - int n)"

definition flq_free_page_one :: "nat \<Rightarrow> qdma_sw_pg_sg \<Rightarrow> (nat \<Rightarrow> int) \<Rightarrow> qdma_sw_pg_sg \<times> (nat \<Rightarrow> int)" where
  "flq_free_page_one pg_shift pg refs =
     (case pg_base pg of
        None \<Rightarrow> (pg, refs)
      | Some p \<Rightarrow>
          (let page_count = drop_bit pg_shift (pg_offset pg) + 1
           in ((flq_unmap_page_one pg)\<lparr>pg_base := None, pg_dma_base_addr := 0\<rparr>, put_pages (unat page_count) p refs)))"

fun free_pages_loop :: "nat \<Rightarrow> qdma_sw_pg_sg list \<Rightarrow> (nat \<Rightarrow> int) \<Rightarrow> nat \<Rightarrow> int" where
  "free_pages_loop pg_shift [] refs = refs"
| "free_pages_loop pg_shift (pg # pgs) refs = free_pages_loop pg_shift pgs (snd (flq_free_page_one pg_shift pg refs))"

definition flq_zero :: qdma_flq where
  "flq_zero =
     \<lparr>fq_size = 0, fq_desc_buf_size = 0, fq_num_pages = 0, fq_num_pgs_mask = 0, fq_num_bufs_per_pg = 0,
      fq_alloc_idx = 0, fq_recycle_idx = 0, fq_max_pg_offset = 0, fq_desc_pg_order = 0, fq_desc_pg_shift = 0,
      fq_udd_cnt = 0, fq_pkt_cnt = 0, fq_pkt_dlen = 0, fq_alloc_fail = 0, fq_mapping_err = 0, fq_pidx_pend = 0,
      fq_pg_sdesc = [], fq_sdesc = [], fq_sdesc_info = []\<rparr>"

text \<open>The loop over the pages runs to \<^verbatim>\<open>num_pages\<close>.  Without the array of pages it reads through a pointer
  near null in its second round, which is \<open>None\<close>.\<close>

definition descq_flq_free_page_resource :: "c2h_q \<Rightarrow> c2h_q option" where
  "descq_flq_free_page_resource c =
     (if fq_pg_sdesc (cq_flq c) = [] \<and> fq_num_pages (cq_flq c) > 1 then None
      else Some (c\<lparr>cq_flq := flq_zero,
              cq_refs := free_pages_loop (unat (fq_desc_pg_shift (cq_flq c))) (fq_pg_sdesc (cq_flq c)) (cq_refs c)\<rparr>))"

text \<open>The descriptors that stay in the ring have their addresses cleared; the entries themselves are freed.\<close>

definition descq_flq_free_resource :: "c2h_q \<Rightarrow> c2h_q" where
  "descq_flq_free_resource c =
     (if fq_sdesc (cq_flq c) = [] then c
      else c\<lparr>cq_q := (cq_q c)\<lparr>dq_desc := map2 (\<lambda>sd d. snd (flq_free_one sd d)) (fq_sdesc (cq_flq c)) (dq_desc (cq_q c))\<rparr>,
             cq_flq := (cq_flq c)\<lparr>fq_sdesc := [], fq_sdesc_info := []\<rparr>\<rparr>)"

text \<open>\<^verbatim>\<open>flq_fill_page_one\<close> for the page entry \<open>pg\<close>: a new page has one reference.\<close>

definition flq_fill_page_one ::
    "qdma_sw_pg_sg \<Rightarrow> (nat \<Rightarrow> int) \<times> page_result list \<Rightarrow> int \<times> qdma_sw_pg_sg \<times> (nat \<Rightarrow> int) \<times> page_result list" where
  "flq_fill_page_one pg rs =
     (case rs of
        (refs, Page p a # ps) \<Rightarrow> (0, \<lparr>pg_base = Some p, pg_dma_base_addr = a, pg_offset = 0\<rparr>, refs(p := 1), ps)
      | (refs, Map_error # ps) \<Rightarrow> (- EINVAL, pg, refs, ps)
      | (refs, No_memory # ps) \<Rightarrow> (- ENOMEM, pg, refs, ps)
      | (refs, []) \<Rightarrow> (- ENOMEM, pg, refs, []))"

fun fill_pages ::
    "qdma_sw_pg_sg list \<Rightarrow> (nat \<Rightarrow> int) \<times> page_result list \<Rightarrow>
       int \<times> qdma_sw_pg_sg list \<times> (nat \<Rightarrow> int) \<times> page_result list" where
  "fill_pages [] rs = (0, [], rs)"
| "fill_pages (pg # pgs) rs =
     (let (rv, pg, rs) = flq_fill_page_one pg rs
      in if rv < 0 then (rv, pg # pgs, rs)
         else let (rv, pgs, rs) = fill_pages pgs rs in (rv, pg # pgs, rs))"

fun fill_bufs :: "nat list \<Rightarrow> c2h_q \<Rightarrow> int \<times> c2h_q" where
  "fill_bufs [] c = (0, c)"
| "fill_bufs (i # is) c = (let (rv, c) = flq_fill_one i c in if rv < 0 then (rv, c) else fill_bufs is c)"

definition num_pages_of :: "u32 \<Rightarrow> u32 \<Rightarrow> u32" where
  "num_pages_of sz bufs_per_pg =
     (let n = sz div bufs_per_pg + (if sz mod bufs_per_pg = 0 then 0 else 1); n = get_next_powof2 n
      in if n < sz then push_bit 1 n else n)"

text \<open>\<^verbatim>\<open>descq_flq_alloc_resource\<close>.  The two flags are the outcomes of the two allocations of arrays; a failure
  of the code that frees is \<open>None\<close>.\<close>

definition pg_sdesc_zero :: qdma_sw_pg_sg where
  "pg_sdesc_zero = \<lparr>pg_base = None, pg_dma_base_addr = 0, pg_offset = 0\<rparr>"

definition sdesc_zero :: qdma_sw_sg where
  "sdesc_zero = \<lparr>sg_pg = None, sg_offset = 0, sg_len = 0, sg_dma_addr = 0\<rparr>"

definition sinfo_zero :: qdma_sdesc_info where
  "sinfo_zero = \<lparr>si_valid = False, si_sop = False, si_eop = False, si_cidx = 0\<rparr>"

definition descq_flq_alloc_resource :: "bool \<Rightarrow> bool \<Rightarrow> c2h_q \<Rightarrow> (int \<times> c2h_q) option" where
  "descq_flq_alloc_resource pg_ok sd_ok c =
     (let flq = cq_flq c; bufs = drop_bit (unat (fq_desc_pg_shift flq)) (fq_max_pg_offset flq);
          flq = flq\<lparr>fq_num_bufs_per_pg := bufs\<rparr>
      in if bufs = 0 then Some (- EINVAL, c\<lparr>cq_flq := flq\<rparr>)
         else
           let n = num_pages_of (fq_size flq) bufs; flq = flq\<lparr>fq_num_pages := n, fq_num_pgs_mask := n - 1\<rparr>
           in if \<not> pg_ok then Some (- ENOMEM, c\<lparr>cq_flq := flq\<rparr>)
              else
                let (rv, pgs, refs, ps) = fill_pages (replicate (unat n) pg_sdesc_zero) (cq_refs c, cq_pages c);
                    c = c\<lparr>cq_flq := flq\<lparr>fq_pg_sdesc := pgs\<rparr>, cq_refs := refs, cq_pages := ps\<rparr>
                in if rv < 0 then map_option (\<lambda>c. (rv, c)) (descq_flq_free_page_resource c)
                   else if \<not> sd_ok then map_option (\<lambda>c. (- ENOMEM, c)) (descq_flq_free_page_resource c)
                   else
                     let k = unat (fq_size flq);
                         c = upd_flq (\<lambda>f. f\<lparr>fq_sdesc := replicate k sdesc_zero, fq_sdesc_info := replicate k sinfo_zero,
                                            fq_alloc_idx := 0\<rparr>) c;
                         (rv, c) = fill_bufs [0 ..< k] c
                     in if rv < 0 then map_option (\<lambda>c. (rv, c)) (descq_flq_free_page_resource (descq_flq_free_resource c))
                        else Some (0, c))"

text \<open>The part of \<^verbatim>\<open>qdma_descq_alloc_resource\<close> for ST C2H queues.  The flags are the outcomes of the four
  allocations.\<close>

definition flq_conf :: "u32 \<Rightarrow> u32 \<Rightarrow> qdma_flq \<Rightarrow> qdma_flq" where
  "flq_conf rngsz c2h_bufsz flq =
     (let buf = get_next_powof2 c2h_bufsz; shift = of_nat (fls buf) - 1; order = (if shift < PAGE_SHIFT then 0 else shift - PAGE_SHIFT)
      in flq\<lparr>fq_size := rngsz, fq_desc_buf_size := buf, fq_desc_pg_shift := shift, fq_desc_pg_order := order,
             fq_max_pg_offset := push_bit (unat order) PAGE_SIZE\<rparr>)"

definition c2h_free_resource :: "c2h_q \<Rightarrow> c2h_q option" where
  "c2h_free_resource c =
     (if dq_desc (cq_q c) = [] then Some c
      else map_option (upd_q (dq_desc_update (\<lambda>_. []))) (descq_flq_free_page_resource (descq_flq_free_resource c)))"

definition c2h_alloc_resource :: "bool \<Rightarrow> bool \<Rightarrow> bool \<Rightarrow> bool \<Rightarrow> c2h_q \<Rightarrow> (int \<times> c2h_q) option" where
  "c2h_alloc_resource desc_ok pg_ok sd_ok cmpt_ok c =
     (if \<not> desc_ok then map_option (\<lambda>c. (- ENOMEM, c)) (c2h_free_resource c)
      else
        let c = upd_q (dq_desc_update (\<lambda>_. replicate (unat (cf_rngsz (conf_of c))) \<lparr>c2h_dst_addr = 0\<rparr>)) c;
            c = upd_flq (flq_conf (cf_rngsz (conf_of c)) (cf_c2h_bufsz (conf_of c))) c
        in Option.bind (descq_flq_alloc_resource pg_ok sd_ok c) (\<lambda>(rv, c).
             if rv < 0 then map_option (\<lambda>c. (- ENOMEM, c)) (c2h_free_resource c)
             else
               let c = c\<lparr>cq_color := True\<rparr>
               in if cmpt_ok then Some (0, c) else map_option (\<lambda>c. (- ENOMEM, c)) (c2h_free_resource c)))"

section \<open>Giving buffers back\<close>

text \<open>The first loop of \<^verbatim>\<open>flq_refill_pages\<close>.  It has fuel because it does not end when no page has a buffer
  in use.\<close>

fun release_loop ::
    "nat \<Rightarrow> bool \<Rightarrow> u32 \<Rightarrow> u32 \<Rightarrow> u32 \<Rightarrow> qdma_flq \<Rightarrow> (nat \<Rightarrow> int) \<Rightarrow> (u32 \<times> qdma_flq \<times> (nat \<Rightarrow> int)) option" where
  "release_loop 0 put count i n flq refs = None"
| "release_loop (Suc fuel) put count i n flq refs =
     (if \<not> i < count then Some (n, flq, refs)
      else
        let k = unat (n AND fq_num_pgs_mask flq); pg = fq_pg_sdesc flq ! k;
            free = min (drop_bit (unat (fq_desc_pg_shift flq)) (pg_offset pg)) (count - i);
            pg' = pg\<lparr>pg_offset := pg_offset pg - free * fq_desc_buf_size flq\<rparr>
        in release_loop fuel put count (i + free) (if pg_offset pg' = 0 then n + 1 else n)
             (flq\<lparr>fq_pg_sdesc := (fq_pg_sdesc flq)[k := pg']\<rparr>)
             (case pg_base pg of Some p \<Rightarrow> if put then put_pages (unat free) p refs else refs | None \<Rightarrow> refs))"

text \<open>The second loop: pages without buffers in use, up to the allocation index, are exchanged for new ones.\<close>

definition renew_stops :: "qdma_flq \<Rightarrow> bool" where
  "renew_stops flq \<longleftrightarrow>
     pg_offset (fq_pg_sdesc flq ! unat (fq_recycle_idx flq AND fq_num_pgs_mask flq)) \<noteq> 0 \<or>
     fq_recycle_idx flq = fq_alloc_idx flq"

definition renew_one ::
    "qdma_flq \<Rightarrow> (nat \<Rightarrow> int) \<Rightarrow> page_result list \<Rightarrow> int \<times> qdma_flq \<times> (nat \<Rightarrow> int) \<times> page_result list" where
  "renew_one flq refs ps =
     (let k = unat (fq_recycle_idx flq AND fq_num_pgs_mask flq); pg = fq_pg_sdesc flq ! k;
          refs = (case pg_base pg of Some p \<Rightarrow> put_pages 1 p refs | None \<Rightarrow> refs);
          (rv, pg, refs, ps) = flq_fill_page_one (flq_unmap_page_one pg) (refs, ps)
      in (rv, flq\<lparr>fq_pg_sdesc := (fq_pg_sdesc flq)[k := pg]\<rparr>, refs, ps))"

fun renew_pages :: "page_result list \<Rightarrow> qdma_flq \<Rightarrow> (nat \<Rightarrow> int) \<Rightarrow> qdma_flq \<times> (nat \<Rightarrow> int) \<times> page_result list" where
  "renew_pages [] flq refs = (if renew_stops flq then (flq, refs, []) else snd (renew_one flq refs []))"
| "renew_pages (r # ps) flq refs =
     (if renew_stops flq then (flq, refs, r # ps)
      else
        let (rv, flq, refs, _) = renew_one flq refs (r # ps)
        in if rv < 0 then (flq, refs, ps)
           else renew_pages ps (flq\<lparr>fq_recycle_idx := fq_recycle_idx flq + 1\<rparr>) refs)"

definition flq_refill_pages :: "nat \<Rightarrow> u32 \<Rightarrow> bool \<Rightarrow> c2h_q \<Rightarrow> c2h_q option" where
  "flq_refill_pages fuel count recycle c =
     map_option (\<lambda>(n, flq, refs).
         if recycle then c\<lparr>cq_flq := flq\<lparr>fq_recycle_idx := n\<rparr>, cq_refs := refs\<rparr>
         else let (flq, refs, ps) = renew_pages (cq_pages c) flq refs
              in c\<lparr>cq_flq := flq, cq_refs := refs, cq_pages := ps\<rparr>)
       (release_loop fuel (\<not> recycle \<and> \<not> cf_fp_c2h_packet (conf_of c)) count 0 (fq_recycle_idx (cq_flq c)) (cq_flq c) (cq_refs c))"

text \<open>The loop of \<^verbatim>\<open>qdma_flq_refill\<close>: the number of rounds left, the index, the rounds done.\<close>

definition entry_back :: "nat \<Rightarrow> c2h_q \<Rightarrow> c2h_q" where
  "entry_back k c =
     c\<lparr>cq_flq := (cq_flq c)\<lparr>fq_sdesc_info := (fq_sdesc_info (cq_flq c))
                     [k := (fq_sdesc_info (cq_flq c) ! k)\<lparr>si_valid := False, si_sop := False, si_eop := False\<rparr>]\<rparr>,
       cq_q := (cq_q c)\<lparr>dq_avail := dq_avail (cq_q c) + 1\<rparr>\<rparr>"

definition renew_buf :: "nat \<Rightarrow> c2h_q \<Rightarrow> int \<times> c2h_q" where
  "renew_buf k c =
     (let (sd, d) = flq_free_one (fq_sdesc (cq_flq c) ! k) (dq_desc (cq_q c) ! k)
      in flq_fill_one k
           (c\<lparr>cq_flq := (cq_flq c)\<lparr>fq_sdesc := (fq_sdesc (cq_flq c))[k := sd]\<rparr>,
              cq_q := (cq_q c)\<lparr>dq_desc := (dq_desc (cq_q c))[k := d]\<rparr>\<rparr>))"

fun refill_loop :: "nat \<Rightarrow> bool \<Rightarrow> u32 \<Rightarrow> u32 \<Rightarrow> c2h_q \<Rightarrow> u32 \<times> c2h_q" where
  "refill_loop 0 recycle idx i c = (i, c)"
| "refill_loop (Suc n) recycle idx i c =
     (let idx = (if idx = fq_size (cq_flq c) then 0 else idx); k = unat idx
      in if recycle
         then refill_loop n recycle (idx + 1) (i + 1)
                (entry_back k (upd_flq (\<lambda>f. f\<lparr>fq_sdesc := (fq_sdesc f)
                   [k := (fq_sdesc f ! k)\<lparr>sg_len := cf_c2h_bufsz (conf_of c)\<rparr>]\<rparr>) c))
         else
           let (rv, c) = renew_buf k c
           in if rv < 0
              then (i, upd_flq (\<lambda>f. if rv = - ENOMEM then f\<lparr>fq_alloc_fail := fq_alloc_fail f + 1\<rparr>
                                    else f\<lparr>fq_mapping_err := fq_mapping_err f + 1\<rparr>) c)
              else refill_loop n recycle (idx + 1) (i + 1) (entry_back k c))"

definition qdma_flq_refill :: "nat \<Rightarrow> u32 \<Rightarrow> u32 \<Rightarrow> bool \<Rightarrow> c2h_q \<Rightarrow> (u32 \<times> c2h_q) option" where
  "qdma_flq_refill fuel idx count recycle c =
     map_option (\<lambda>c.
         let (i, c) = refill_loop (unat count) recycle idx 0 c; q = cq_q c
         in (i, if dq_work_list q = [] \<and> dq_pend_list q = [] then c\<lparr>cq_q := q\<lparr>dq_pend_list_empty := True\<rparr>\<rparr> else c))
       (if recycle then Some c else flq_refill_pages fuel count recycle c)"

end
