(* ===== verification/DescqC2hProc.thy ===== *)
theory DescqC2hProc
  imports DescqC2h
begin

text \<open>
  Reading received data and processing completion entries of ST C2H queues (\<^verbatim>\<open>libqdma/qdma_st_c2h.c\<close>), and
  the functions of \<^verbatim>\<open>qdma_descq.c\<close> and \<^verbatim>\<open>libqdma_export.c\<close> that set up such queues and submit reads.
\<close>

section \<open>Reading\<close>

text \<open>\<^verbatim>\<open>memcpy\<close> between places in pages; source and destination do not overlap where the code calls it.\<close>

definition memcpy :: "nat option \<times> nat \<Rightarrow> nat option \<times> nat \<Rightarrow> nat \<Rightarrow> host_bytes \<Rightarrow> host_bytes" where
  "memcpy dst src n m =
     m(fst dst := (\<lambda>k. if snd dst \<le> k \<and> k < snd dst + n then m (fst src) (snd src + (k - snd dst)) else m (fst dst) k))"

text \<open>The variables of the two loops of \<^verbatim>\<open>descq_st_c2h_read\<close>: the target entries left, the index of the
  first of them, the offset in it, the bytes copied, and the memory.\<close>

record read_st =
  rd_tsgs :: "qdma_sw_sg list"
  rd_j :: u32
  rd_tsgoff :: u32
  rd_copied :: u32
  rd_bytes :: host_bytes

text \<open>The inner loop, for one receive buffer: it returns what is left of the buffer.  When the target entry
  is not full after a copy, the buffer is empty and the loop ends.\<close>

fun copy_entry ::
    "bool \<Rightarrow> nat option \<Rightarrow> nat \<Rightarrow> u32 \<Rightarrow> qdma_sw_sg list \<Rightarrow> read_st \<Rightarrow> u32 \<times> read_st" where
  "copy_entry no_memcpy pg faddr flen [] r = (flen, r\<lparr>rd_tsgs := []\<rparr>)"
| "copy_entry no_memcpy pg faddr flen (t # ts) r =
     (if flen = 0 then (flen, r\<lparr>rd_tsgs := t # ts\<rparr>)
      else
        let off = rd_tsgoff r; copy = min flen (sg_len t - off); toff = sg_offset t + off;
            bytes = (if no_memcpy then rd_bytes r
                     else memcpy (sg_pg t, unat toff) (pg, faddr) (unat copy) (rd_bytes r));
            r = r\<lparr>rd_tsgoff := off + copy, rd_copied := rd_copied r + copy, rd_bytes := bytes\<rparr>
        in if off + copy = sg_len t
           then copy_entry no_memcpy pg (faddr + unat copy) (flen - copy) ts (r\<lparr>rd_tsgoff := 0, rd_j := rd_j r + 1\<rparr>)
           else (flen - copy, r\<lparr>rd_tsgs := t # ts\<rparr>))"

text \<open>The outer loop over at most \<open>n\<close> buffers from index \<open>k\<close> on.  It returns the number of buffers that were
  read to the end, and the index of the next buffer with the bytes that were read of it.\<close>

definition next_idx :: "'a list \<Rightarrow> nat \<Rightarrow> nat" where
  "next_idx xs k = (if Suc k = length xs then 0 else Suc k)"

fun read_entries ::
    "bool \<Rightarrow> qdma_sw_sg list \<Rightarrow> nat \<Rightarrow> nat \<Rightarrow> u32 \<Rightarrow> read_st \<Rightarrow> u32 \<times> u32 \<times> nat \<times> read_st" where
  "read_entries no_memcpy sdesc 0 k i r = (i, 0, k, r)"
| "read_entries no_memcpy sdesc (Suc n) k i r =
     (if rd_tsgs r = [] then (i, 0, k, r)
      else
        let e = sdesc ! k;
            (flen, r) = copy_entry no_memcpy (sg_pg e) (unat (sg_offset e)) (sg_len e) (rd_tsgs r) r; foff = sg_len e - flen
        in if foff = sg_len e then read_entries no_memcpy sdesc n (next_idx sdesc k) (i + 1) r else (i, foff, k, r))"

definition flq_recycle :: "u32 \<Rightarrow> u32 \<Rightarrow> c2h_q \<Rightarrow> c2h_q" where
  "flq_recycle idx count c = (case qdma_flq_refill 0 idx count True c of Some (_, c) \<Rightarrow> c | None \<Rightarrow> c)"

definition advance_entry :: "nat \<Rightarrow> u32 \<Rightarrow> qdma_flq \<Rightarrow> qdma_flq" where
  "advance_entry k foff flq =
     flq\<lparr>fq_sdesc := (fq_sdesc flq)[k := (fq_sdesc flq ! k)\<lparr>sg_offset := sg_offset (fq_sdesc flq ! k) + foff,
                                                              sg_len := sg_len (fq_sdesc flq ! k) - foff\<rparr>]\<rparr>"

text \<open>The last buffer that the device may use is the one before the first that is not read yet.\<close>

definition last_free :: "c2h_q \<Rightarrow> c2h_q" where
  "last_free c =
     upd_q (\<lambda>q. q\<lparr>dq_pidx_info := (dq_pidx_info q)
                    \<lparr>pidx := ucast (ring_idx_decr (fq_pidx_pend (cq_flq c)) 1 (fq_size (cq_flq c)))\<rparr>\<rparr>) c"

definition c2h_pidx_update :: "'s c2h_dev \<Rightarrow> c2h_q \<Rightarrow> 's \<Rightarrow> int \<times> 's" where
  "c2h_pidx_update dev c s = queue_pidx_update (cd_ring dev) (cq_q c) s"

definition read_start :: "qdma_request \<Rightarrow> host_bytes \<Rightarrow> read_st" where
  "read_start req m =
     \<lparr>rd_tsgs = drop (unat (cb_sg_idx req)) (rq_sgl req), rd_j = cb_sg_idx req, rd_tsgoff = cb_sg_offset req,
      rd_copied = 0, rd_bytes = m\<rparr>"

text \<open>The read.  The bookkeeping of the measurement of round trips (\<^verbatim>\<open>ping_pong_en\<close>), which does not touch the data, is
  left out.\<close>

definition descq_st_c2h_read ::
    "'s c2h_dev \<Rightarrow> bool \<Rightarrow> bool \<Rightarrow> qdma_request \<Rightarrow> c2h_q \<Rightarrow> 's \<Rightarrow> int \<times> qdma_request \<times> c2h_q \<times> 's" where
  "descq_st_c2h_read dev update_pidx refill req c s =
     (let flq = cq_flq c; fsgcnt = ring_idx_delta (dq_pidx (cq_q c)) (fq_pidx_pend flq) (fq_size flq)
      in if fsgcnt = 0 then (0, req, c, s)
         else if cb_sg_idx req \<noteq> 0 \<and> length (rq_sgl req) \<le> unat (cb_sg_idx req) then (- EINVAL, req, c, s)
         else
           let (i, foff, k, r) = read_entries (rq_no_memcpy req) (fq_sdesc flq) (unat fsgcnt) (unat (fq_pidx_pend flq)) 0
                                   (read_start req (cq_bytes c));
               c = upd_q (incr_cmpl_desc_cnt i) (c\<lparr>cq_bytes := rd_bytes r\<rparr>);
               c = (if refill \<and> i \<noteq> 0 then flq_recycle (fq_pidx_pend flq) i c else c);
               c = upd_flq (\<lambda>f. f\<lparr>fq_pidx_pend := ring_idx_incr (fq_pidx_pend f) i (fq_size f)\<rparr>) c;
               c = (if foff \<noteq> 0 then upd_flq (advance_entry k foff) c else c);
               c = (if i \<noteq> 0 \<and> update_pidx then last_free c else c);
               (rv, s) = (if i \<noteq> 0 \<and> update_pidx then c2h_pidx_update dev c s else (0, s))
           in if rv < 0 then (- EINVAL, req, c, s)
              else (sint (rd_copied r),
                    req\<lparr>cb_sg_idx := rd_j r, cb_sg_offset := rd_tsgoff r, cb_left := cb_left req - rd_copied r\<rparr>,
                    upd_flq (\<lambda>f. f\<lparr>fq_pkt_dlen := fq_pkt_dlen f - rd_copied r\<rparr>) c, s))"

text \<open>The loop over the pending requests.  A request is at the head of the pending list when it is reached.\<close>

fun packets_loop :: "'s c2h_dev \<Rightarrow> qdma_request list \<Rightarrow> c2h_q \<Rightarrow> 's \<Rightarrow> c2h_q \<times> 's" where
  "packets_loop dev [] c s = (c, s)"
| "packets_loop dev (cb # cbs) c s =
     (if cb_left cb = 0 then (upd_q (qdma_sgt_req_done cb 0) c, s)
      else
        let (rv, cb, c, s) = descq_st_c2h_read dev False False cb c s;
            c = upd_q (\<lambda>q. q\<lparr>dq_pend_list := cb # cbs\<rparr>) c
        in if rv < 0 then packets_loop dev cbs (upd_q (qdma_sgt_req_done cb rv) c) s
           else if cb_left cb = 0 then packets_loop dev cbs (upd_q (qdma_sgt_req_done cb 0) c) s
           else (c, s))"

definition qdma_c2h_packets_proc_dflt :: "'s c2h_dev \<Rightarrow> c2h_q \<Rightarrow> 's \<Rightarrow> c2h_q \<times> 's" where
  "qdma_c2h_packets_proc_dflt dev c s = packets_loop dev (dq_pend_list (cq_q c)) c s"

section \<open>Completion entries\<close>

definition cmpt_next :: "c2h_q \<Rightarrow> c2h_q" where
  "cmpt_next c =
     (if cq_cidx_cmpt c + 1 = cf_rngsz_cmpt (conf_of c) then c\<lparr>cq_cidx_cmpt := 0, cq_color := \<not> cq_color c\<rparr>
      else c\<lparr>cq_cidx_cmpt := cq_cidx_cmpt c + 1\<rparr>)"

definition is_new_cmpl_entry :: "c2h_q \<Rightarrow> qdma_ul_cmpt_info \<Rightarrow> bool" where
  "is_new_cmpl_entry c cmpl \<longleftrightarrow> ci_color cmpl = cq_color c"

definition F_C2H_CMPT_ENTRY_F_FORMAT :: u64 where [simp]: "F_C2H_CMPT_ENTRY_F_FORMAT = push_bit 0 1"
definition F_C2H_CMPT_ENTRY_F_COLOR :: u64 where [simp]: "F_C2H_CMPT_ENTRY_F_COLOR = push_bit 1 1"
definition F_C2H_CMPT_ENTRY_F_ERR :: u64 where [simp]: "F_C2H_CMPT_ENTRY_F_ERR = push_bit 2 1"
definition F_C2H_CMPT_ENTRY_F_DESC_USED :: u64 where [simp]: "F_C2H_CMPT_ENTRY_F_DESC_USED = push_bit 3 1"
definition F_C2H_CMPT_ENTRY_F_EOT :: u64 where [simp]: "F_C2H_CMPT_ENTRY_F_EOT = push_bit 20 1"
definition S_C2H_CMPT_ENTRY_LENGTH :: nat where [simp]: "S_C2H_CMPT_ENTRY_LENGTH = 4"
definition M_C2H_CMPT_ENTRY_LENGTH :: u64 where [simp]: "M_C2H_CMPT_ENTRY_LENGTH = 0xFFFF"

definition parse_cmpl_entry :: "u64 \<Rightarrow> int \<times> qdma_ul_cmpt_info" where
  "parse_cmpl_entry cmpt =
     (let format = (cmpt AND F_C2H_CMPT_ENTRY_F_FORMAT \<noteq> 0); used = (cmpt AND F_C2H_CMPT_ENTRY_F_DESC_USED \<noteq> 0)
      in (0, \<lparr>ci_format = format, ci_color = (cmpt AND F_C2H_CMPT_ENTRY_F_COLOR \<noteq> 0),
              ci_err = (cmpt AND F_C2H_CMPT_ENTRY_F_ERR \<noteq> 0), ci_desc_used = used,
              ci_eot = (cmpt AND F_C2H_CMPT_ENTRY_F_EOT \<noteq> 0),
              ci_len = (if \<not> format \<and> used
                        then ucast (drop_bit S_C2H_CMPT_ENTRY_LENGTH cmpt AND M_C2H_CMPT_ENTRY_LENGTH) else 0),
              ci_pidx = 0, ci_entry = cmpt\<rparr>))"

text \<open>The number of buffers that a packet of the given length uses, and the length in the last of them.  The
  loop does not end for a buffer size of zero.\<close>

partial_function (option) fl_loop :: "u32 \<Rightarrow> u32 \<Rightarrow> int \<Rightarrow> (int \<times> u32) option" where
  "fl_loop c2h_bufsz l_len l_fl_nr =
     (if l_len \<ge> c2h_bufsz then fl_loop c2h_bufsz (l_len - c2h_bufsz) (l_fl_nr + 1) else Some (l_fl_nr, l_len))"

declare fl_loop.simps [code]

definition get_fl_nr :: "u32 \<Rightarrow> u32 \<Rightarrow> nat \<Rightarrow> u32 \<Rightarrow> (int \<times> u32) option" where
  "get_fl_nr len c2h_bufsz pg_shift pg_mask =
     (if len AND (len - 1) = 0
      then Some (if len \<noteq> 0 then sint (drop_bit pg_shift (len + pg_mask)) else 1,
                 if len AND pg_mask = 0 then c2h_bufsz else len AND pg_mask)
      else if len \<le> c2h_bufsz then Some (1, len)
      else map_option (\<lambda>(n, l). if l \<noteq> 0 then (n + 1, l) else (n, c2h_bufsz)) (fl_loop c2h_bufsz len 0))"

text \<open>\<^verbatim>\<open>rcv_pkt\<close> marks the buffers of a packet.\<close>

fun mark_loop :: "nat \<Rightarrow> nat \<Rightarrow> u32 \<Rightarrow> qdma_sdesc_info list \<Rightarrow> qdma_sdesc_info list" where
  "mark_loop 0 k cidx info = info"
| "mark_loop (Suc n) k cidx info =
     mark_loop n (next_idx info k) cidx (info[k := (info ! k)\<lparr>si_valid := True, si_cidx := cidx\<rparr>])"

definition mark_pkt :: "nat \<Rightarrow> nat \<Rightarrow> nat \<Rightarrow> u32 \<Rightarrow> qdma_sdesc_info list \<Rightarrow> qdma_sdesc_info list" where
  "mark_pkt n first final cidx info =
     (let info = mark_loop n first cidx info; info = info[first := (info ! first)\<lparr>si_sop := True\<rparr>]
      in info[final := (info ! final)\<lparr>si_eop := True\<rparr>])"

definition rcv_pkt ::
    "'s c2h_env \<Rightarrow> qdma_ul_cmpt_info \<Rightarrow> u32 \<Rightarrow> c2h_q \<Rightarrow> 's \<Rightarrow> (int \<times> qdma_ul_cmpt_info \<times> c2h_q \<times> 's) option" where
  "rcv_pkt env cmpl len c s =
     (let flq = cq_flq c; q = cq_q c; shift = unat (fq_desc_pg_shift flq); rngsz = cf_rngsz (dq_conf q)
      in map_option (\<lambda>(fl_nr, l_len).
           let last = ring_idx_incr (ci_pidx cmpl) (of_int (fl_nr - 1)) rngsz; nxt = ring_idx_incr last 1 rngsz;
               cidx_next = ring_idx_incr (cq_cidx_cmpt c) 1 (cf_rngsz_cmpt (dq_conf q)); k = unat last;
               flq = flq\<lparr>fq_sdesc := (fq_sdesc flq)[k := (fq_sdesc flq ! k)\<lparr>sg_len := (if len = 0 then 0 else l_len)\<rparr>]\<rparr>;
               c = c\<lparr>cq_flq := flq\<rparr>
           in if dq_avail q < of_int fl_nr then (- EBUSY, cmpl, c, s)
              else
                let c = c\<lparr>cq_q := q\<lparr>dq_avail := dq_avail q - of_int fl_nr\<rparr>\<rparr>
                in if cf_fp_c2h_packet (dq_conf q)
                   then let (rv, c, s) = ce_c2h_packet env len fl_nr (Some (ci_pidx cmpl))
                                           (if cf_cmpl_udd_en (dq_conf q) then Some (ci_entry cmpl) else None) c s
                        in if rv < 0 then (rv, cmpl, c, s)
                           else (0, cmpl\<lparr>ci_pidx := nxt\<rparr>, upd_flq (\<lambda>f. f\<lparr>fq_pidx_pend := nxt\<rparr>) c, s)
                   else (0, cmpl\<lparr>ci_pidx := nxt\<rparr>,
                         c\<lparr>cq_flq := flq\<lparr>fq_sdesc_info := mark_pkt (nat fl_nr) (unat (ci_pidx cmpl)) k cidx_next (fq_sdesc_info flq),
                                         fq_pkt_dlen := fq_pkt_dlen flq + len,
                                         fq_udd_cnt := (if cf_cmpl_udd_en (dq_conf q) then fq_udd_cnt flq + 1 else fq_udd_cnt flq)\<rparr>\<rparr>, s))
         (get_fl_nr len (cf_c2h_bufsz (dq_conf q)) shift (push_bit shift 1 - 1)))"

definition rcv_udd_only :: "'s c2h_env \<Rightarrow> qdma_ul_cmpt_info \<Rightarrow> c2h_q \<Rightarrow> 's \<Rightarrow> int \<times> c2h_q \<times> 's" where
  "rcv_udd_only env cmpl c s =
     (if cf_fp_c2h_packet (conf_of c) then ce_c2h_packet env 0 0 None (Some (ci_entry cmpl)) c s
      else (0, upd_flq (\<lambda>f. f\<lparr>fq_udd_cnt := fq_udd_cnt f + 1\<rparr>) c, s))"

definition descq_cmpl_err_check :: "qdma_ul_cmpt_info \<Rightarrow> c2h_q \<Rightarrow> int \<times> c2h_q" where
  "descq_cmpl_err_check cmpl c =
     (if ci_format cmpl \<or> (\<not> ci_desc_used cmpl \<and> \<not> cf_cmpl_udd_en (conf_of c)) \<or> ci_err cmpl
      then (- EINVAL, c\<lparr>cq_err := True\<rparr>) else (0, c))"

section \<open>The adaptive counter threshold\<close>

definition cnt_th :: "'s c2h_env \<Rightarrow> u8 \<Rightarrow> u32" where
  "cnt_th env i = cs_c2h_cnt_th (ce_csr env) ! unat i"

definition sorted_idx :: "'s c2h_env \<Rightarrow> u8 \<Rightarrow> u8" where
  "sorted_idx env i = ce_sorted_c2h_cntr_idx env ! unat i"

definition descq_adjust_c2h_cntr_avgs :: "'s c2h_env \<Rightarrow> c2h_q \<Rightarrow> c2h_q" where
  "descq_adjust_c2h_cntr_avgs env c =
     (let lat = cf_latency_optimize (conf_of c); avg = cnt_th env (counter_idx (cq_cmpt_cidx_info c)); k = cq_sorted_idx c;
          hi = cnt_th env (sorted_idx env (if k = QDMA_GLOBAL_CSR_ARRAY_LEN - 1 then k else k + 1));
          lo = cnt_th env (sorted_idx env (if k > 0 then k - 1 else k))
      in c\<lparr>cq_moving_avg := avg, cq_avg_thr_hi := drop_bit 1 (if lat then hi + hi else avg + hi),
           cq_avg_thr_lo := drop_bit 1 (if lat then lo + lo else avg + lo)\<rparr>)"

definition use_counter :: "'s c2h_env \<Rightarrow> u8 \<Rightarrow> c2h_q \<Rightarrow> c2h_q" where
  "use_counter env k c =
     descq_adjust_c2h_cntr_avgs env
       (c\<lparr>cq_cmpt_cidx_info := (cq_cmpt_cidx_info c)\<lparr>counter_idx := sorted_idx env k\<rparr>, cq_sorted_idx := k\<rparr>)"

text \<open>The thresholds are cut to eight bits before they are compared.\<close>

definition cntr_val :: "'s c2h_env \<Rightarrow> u8 \<Rightarrow> u32" where
  "cntr_val env k = ucast (ucast (cnt_th env (sorted_idx env k)) :: u8)"

definition descq_incr_c2h_cntr_th :: "'s c2h_env \<Rightarrow> c2h_q \<Rightarrow> c2h_q" where
  "descq_incr_c2h_cntr_th env c =
     (if cq_sorted_idx c = QDMA_GLOBAL_CSR_ARRAY_LEN - 1 then c
      else
        let c = c\<lparr>cq_monitor_cnt := 0\<rparr>; i = cq_sorted_idx c; avg = cq_moving_avg c;
            curr = cntr_val env i; new = cntr_val env (i + 1)
        in if new \<ge> avg \<and> new - avg \<ge> avg - curr then c
           else if new < drop_bit 1 (cf_rngsz (conf_of c)) then use_counter env (i + 1) c
           else c)"

definition descq_decr_c2h_cntr_th :: "'s c2h_env \<Rightarrow> u32 \<Rightarrow> c2h_q \<Rightarrow> c2h_q" where
  "descq_decr_c2h_cntr_th env budget c =
     (if cq_sorted_idx c = 0 then c
      else
        let c = c\<lparr>cq_monitor_cnt := 0\<rparr>; i = cq_sorted_idx c; avg = cq_moving_avg c;
            curr = cntr_val env i; new = cntr_val env (i - 1)
        in if new \<le> avg \<and> avg - new \<ge> curr - avg then c
           else if \<not> cf_latency_optimize (conf_of c) \<and> new < budget - 2 then c
           else use_counter env (i - 1) c)"

definition MAX_C2H_CNTR_STAGNANT_CNT :: u8 where [simp]: "MAX_C2H_CNTR_STAGNANT_CNT = 16"

definition descq_adjust_c2h_cntr_th :: "'s c2h_env \<Rightarrow> u32 \<Rightarrow> u32 \<Rightarrow> c2h_q \<Rightarrow> c2h_q" where
  "descq_adjust_c2h_cntr_th env pend budget c =
     (let c = c\<lparr>cq_moving_avg := drop_bit 1 (cq_moving_avg c + pend)\<rparr>
      in if cq_avg_thr_hi c \<le> cq_moving_avg c then descq_incr_c2h_cntr_th env c
         else if cq_avg_thr_lo c \<ge> cq_moving_avg c then descq_decr_c2h_cntr_th env budget c
         else
           let c = c\<lparr>cq_monitor_cnt := cq_monitor_cnt c + 1\<rparr>
           in if cq_monitor_cnt c = MAX_C2H_CNTR_STAGNANT_CNT
              then (descq_decr_c2h_cntr_th env budget c)\<lparr>cq_monitor_cnt := 0\<rparr> else c)"

section \<open>Processing completions\<close>

definition parse_entry :: "'s c2h_env \<Rightarrow> c2h_q \<Rightarrow> u64 \<Rightarrow> int \<times> qdma_ul_cmpt_info" where
  "parse_entry env c entry =
     (case ce_ul_cmpt_entry env of
        Some f \<Rightarrow> if cf_desc_bypass (conf_of c) then f entry else parse_cmpl_entry entry
      | None \<Rightarrow> parse_cmpl_entry entry)"

text \<open>The loop over the entries: the result is negative when the function returns from inside the loop;
  otherwise it goes on with the producer index and the number of entries processed.\<close>

fun process_entries ::
    "'s c2h_env \<Rightarrow> 's c2h_dev \<Rightarrow> nat \<Rightarrow> u32 \<Rightarrow> u32 \<Rightarrow> c2h_q \<Rightarrow> 's \<Rightarrow> (int \<times> u32 \<times> u32 \<times> c2h_q \<times> 's) option" where
  "process_entries env dev 0 p cnt c s = Some (0, p, cnt, c, s)"
| "process_entries env dev (Suc n) p cnt c s =
     (let (entry, s) = cd_cmpt_entry dev (cq_cidx_cmpt c) s; (rv, cmpl) = parse_entry env c entry
      in if rv < 0 then Some (rv, p, cnt, c, s)
         else
           let (rv, c) = descq_cmpl_err_check cmpl c
           in if rv < 0 then Some (rv, p, cnt, c, s)
              else if \<not> is_new_cmpl_entry c cmpl then Some (0, p, cnt, c, s)
              else
                let cmpl = cmpl\<lparr>ci_pidx := p\<rparr>
                in Option.bind
                     (if ci_desc_used cmpl then rcv_pkt env cmpl (ucast (ci_len cmpl)) c s
                      else if cf_cmpl_udd_en (conf_of c)
                      then case rcv_udd_only env cmpl c s of (rv, c, s) \<Rightarrow> Some (rv, cmpl, c, s)
                      else Some (0, cmpl, c, s))
                     (\<lambda>(rv, cmpl, c, s).
                        if rv < 0 then Some (0, p, cnt, c, s)
                        else process_entries env dev n (ci_pidx cmpl) (cnt + 1) (cmpt_next c) s))"

definition c2h_cidx_update :: "'s c2h_dev \<Rightarrow> c2h_q \<Rightarrow> 's \<Rightarrow> int \<times> 's" where
  "c2h_cidx_update dev c s = cd_cmpt_cidx_update dev (cf_qidx (conf_of c)) (cq_cmpt_cidx_info c) s"

definition cmpt_pend :: "'s c2h_dev \<Rightarrow> c2h_q \<Rightarrow> 's \<Rightarrow> u32 \<times> 's" where
  "cmpt_pend dev c s =
     (let (p, s) = cd_cmpt_pidx dev s in (ring_idx_delta (ucast p) (cq_cidx_cmpt c) (cf_rngsz_cmpt (conf_of c)), s))"

definition set_pkt_cnt :: "u32 \<Rightarrow> c2h_q \<Rightarrow> c2h_q" where
  "set_pkt_cnt n c = upd_flq (\<lambda>f. f\<lparr>fq_pkt_cnt := n\<rparr>) c"

text \<open>Interrupt moderation in the combined trigger mode.\<close>

definition moderate :: "'s c2h_env \<Rightarrow> 's c2h_dev \<Rightarrow> int \<Rightarrow> u32 \<Rightarrow> c2h_q \<Rightarrow> 's \<Rightarrow> c2h_q \<times> 's" where
  "moderate env dev read_weight proc_cnt c s =
     (if ce_intr_moderation env \<and> trig_mode (cq_cmpt_cidx_info c) = TRIG_MODE_COMBO
      then
        let (pend, s) = cmpt_pend dev c s; c = set_pkt_cnt pend c;
            irq = (if read_weight \<noteq> 0 \<and> pend > of_int read_weight then 0 else 1);
            c = c\<lparr>cq_cmpt_cidx_info := (cq_cmpt_cidx_info c)\<lparr>cmpt_irq_en := irq\<rparr>\<rparr>
        in (if cf_adaptive_rx (conf_of c) then descq_adjust_c2h_cntr_th env (pend + proc_cnt) (of_int read_weight) c else c, s)
      else (c, s))"

text \<open>The buffers that were consumed are given back, and the device is told.\<close>

definition return_bufs ::
    "nat \<Rightarrow> 's c2h_dev \<Rightarrow> bool \<Rightarrow> u32 \<Rightarrow> c2h_q \<Rightarrow> 's \<Rightarrow> (int \<times> c2h_q \<times> 's) option" where
  "return_bufs fuel dev upd_cmpl pidx_pend c s =
     (let flq = cq_flq c
      in if fq_pidx_pend flq = pidx_pend then Some (0, c, s)
         else map_option (\<lambda>(_, c).
                if upd_cmpl \<and> \<not> dq_stop_wait (cq_q c)
                then let c = last_free c
                     in if cf_fp_c2h_packet (conf_of c) then (0, c, s)
                        else let (rv, s) = c2h_pidx_update dev c s in (if rv < 0 then - EINVAL else 0, c, s)
                else (0, c, s))
              (qdma_flq_refill fuel pidx_pend (ring_idx_delta (fq_pidx_pend flq) pidx_pend (fq_size flq))
                 (\<not> cf_fp_c2h_packet (conf_of c)) c))"

definition deliver ::
    "nat \<Rightarrow> 's c2h_dev \<Rightarrow> bool \<Rightarrow> u32 \<Rightarrow> u32 \<Rightarrow> u32 \<Rightarrow> c2h_q \<Rightarrow> 's \<Rightarrow> (int \<times> c2h_q \<times> 's) option" where
  "deliver fuel dev upd_cmpl pidx_pend pidx_cmpt p c s =
     (let c = upd_q (\<lambda>q. q\<lparr>dq_pidx := p\<rparr>)
                (c\<lparr>cq_pidx_cmpt := pidx_cmpt,
                   cq_cmpt_cidx_info := (cq_cmpt_cidx_info c)\<lparr>wrb_cidx := ucast (cq_cidx_cmpt c)\<rparr>\<rparr>);
          (rv, c, s) = (if cf_fp_c2h_packet (conf_of c) then (0, c, s)
                        else let (rv, s) = c2h_cidx_update dev c s
                             in if rv < 0 then (- EINVAL, c, s)
                                else case qdma_c2h_packets_proc_dflt dev c s of (c, s) \<Rightarrow> (0, c, s))
      in if rv < 0 then Some (rv, c, s)
         else let (pend, s) = cmpt_pend dev c s in return_bufs fuel dev upd_cmpl pidx_pend (set_pkt_cnt pend c) s)"

definition descq_process_completion_st_c2h ::
    "nat \<Rightarrow> 's c2h_env \<Rightarrow> 's c2h_dev \<Rightarrow> int \<Rightarrow> bool \<Rightarrow> c2h_q \<Rightarrow> 's \<Rightarrow> (int \<times> c2h_q \<times> 's) option" where
  "descq_process_completion_st_c2h fuel env dev budget upd_cmpl c s =
     (let (p, s) = cd_cmpt_pidx dev s; pidx_cmpt = ucast p
      in if cq_err c then Some (- EINVAL, c, s)
         else
           let pend = ring_idx_delta pidx_cmpt (cq_cidx_cmpt c) (cf_rngsz_cmpt (conf_of c))
           in if pend = 0
              then if dq_drv_mode (cq_q c) \<noteq> POLL_MODE
                   then let (rv, s) = c2h_cidx_update dev c s in Some (if rv < 0 then - EINVAL else - ENODATA, c, s)
                   else Some (- ENODATA, c, s)
              else
                let pidx_pend = fq_pidx_pend (cq_flq c); c = set_pkt_cnt pend c;
                    n = (if budget = 0 \<or> budget > sint pend then sint pend else budget)
                in Option.bind (process_entries env dev (nat n) (dq_pidx (cq_q c)) 0 c s) (\<lambda>(rv, p, cnt, c, s).
                     if rv < 0 then Some (rv, c, s)
                     else
                       let (c, s) = moderate env dev budget cnt (set_pkt_cnt (fq_pkt_cnt (cq_flq c) - cnt) c) s
                       in if cnt = 0 then Some (0, c, s)
                          else deliver fuel dev upd_cmpl pidx_pend pidx_cmpt p c s))"

section \<open>The interface to the caller\<close>

definition qdma_queue_c2h_peek :: "c2h_q \<Rightarrow> u32 \<times> u32 \<times> u32" where
  "qdma_queue_c2h_peek c = (fq_udd_cnt (cq_flq c), fq_pkt_cnt (cq_flq c), fq_pkt_dlen (cq_flq c))"

record qdma_cmpl_ctrl =
  cc_cnt_th_idx :: u8
  cc_timer_idx :: u8
  cc_trigger_mode :: u8
  cc_en_stat_desc :: u8
  cc_cmpl_en_intr :: u8

definition set_cmpl_ctrl :: "qdma_cmpl_ctrl \<Rightarrow> c2h_q \<Rightarrow> c2h_q" where
  "set_cmpl_ctrl cc c =
     c\<lparr>cq_q := (cq_q c)\<lparr>dq_conf := (conf_of c)\<lparr>cf_cmpl_trig_mode := cc_trigger_mode cc, cf_cmpl_timer_idx := cc_timer_idx cc,
           cf_cmpl_cnt_th_idx := cc_cnt_th_idx cc, cf_cmpl_en_intr := cc_cmpl_en_intr cc, cf_cmpl_stat_en := cc_en_stat_desc cc\<rparr>\<rparr>,
       cq_cmpt_cidx_info := (cq_cmpt_cidx_info c)\<lparr>trig_mode := cc_trigger_mode cc, timer_idx := cc_timer_idx cc,
           counter_idx := cc_cnt_th_idx cc, cmpt_irq_en := cc_cmpl_en_intr cc, wrb_en := cc_en_stat_desc cc,
           wrb_cidx := ucast (cq_cidx_cmpt c)\<rparr>\<rparr>"

definition qdma_queue_packet_read ::
    "'s c2h_dev \<Rightarrow> qdma_cmpl_ctrl option \<Rightarrow> qdma_request \<Rightarrow> c2h_q \<Rightarrow> 's \<Rightarrow> int \<times> qdma_request \<times> c2h_q \<times> 's" where
  "qdma_queue_packet_read dev cctrl req c s =
     (if \<not> is_st_c2h (conf_of c) then (- EINVAL, req, c, s)
      else
        let (rv, c, s) = (case cctrl of
                            None \<Rightarrow> (0, c, s)
                          | Some cc \<Rightarrow> let c = set_cmpl_ctrl cc c; (rv, s) = c2h_cidx_update dev c s in (rv, c, s))
        in if rv < 0 then (- EINVAL, req, c, s)
           else case descq_st_c2h_read dev True True (cb_reset req) c s of
                  (_, req, c, s) \<Rightarrow> (sint (rq_count req - cb_left req), req, c, s))"

text \<open>\<^verbatim>\<open>qdma_request_submit_st_c2h\<close> up to the point where the caller waits.  The request returned is the one on
  the pending list, or the one that was completed.\<close>

definition qdma_request_submit_st_c2h ::
    "'s c2h_dev \<Rightarrow> qdma_request \<Rightarrow> c2h_q \<Rightarrow> 's \<Rightarrow> int \<times> qdma_request \<times> c2h_q \<times> 's" where
  "qdma_request_submit_st_c2h dev req c s =
     (let req = req\<lparr>cb_left := rq_count req\<rparr>; q = cq_q c
      in if dq_stop_wait q then (0, req, c, s)
         else if dq_state q \<noteq> Q_STATE_ONLINE then (- EINVAL, req, c, s)
         else
           let pend = dq_pend_list q; (_, req, c, s) = descq_st_c2h_read dev True True req (upd_q (\<lambda>q. q\<lparr>dq_pend_list := pend @ [req]\<rparr>) c) s
           in if cb_left req = 0 then (sint (rq_count req), req, upd_q (\<lambda>q. q\<lparr>dq_pend_list := pend\<rparr>) c, s)
              else (0, req, upd_q (\<lambda>q. q\<lparr>dq_pend_list := pend @ [req], dq_pend_list_empty := False\<rparr>) c, s))"

definition service_cmpl_update_c2h ::
    "nat \<Rightarrow> 's c2h_env \<Rightarrow> 's c2h_dev \<Rightarrow> int \<Rightarrow> bool \<Rightarrow> c2h_q \<Rightarrow> 's \<Rightarrow> (int \<times> c2h_q \<times> 's) option" where
  "service_cmpl_update_c2h fuel env dev budget upd c s =
     (if dq_state (cq_q c) = Q_STATE_ONLINE then descq_process_completion_st_c2h fuel env dev budget upd c s
      else Some (- EINVAL, c, s))"

end
