(* ===== verification/DescqRefine.thy ===== *)
theory DescqRefine
  imports DescqH2c
begin

text \<open>
  The abstract view of a descriptor queue: the requests that are not done, in order, each with the
  descriptors written for it that the device has not consumed.  Completion takes descriptors off the
  front; a request that is fully written is done when its last descriptor is taken.  The queue of the
  code refines this view: its indices, its credit and the counters in the requests determine the same
  descriptors in the ring.
\<close>

section \<open>The abstract queue\<close>

text \<open>The descriptor counter of a request belongs to the implementation.\<close>

definition rq_core :: "qdma_request \<Rightarrow> qdma_request" where
  "rq_core r = r\<lparr>cb_desc_nr := 0\<rparr>"

text \<open>The device consumes \<open>n\<close> descriptors; the first \<open>p\<close> requests are fully written.\<close>

fun consume :: "nat \<Rightarrow> nat \<Rightarrow> ('r \<times> 'd list) list \<Rightarrow> 'r list \<times> ('r \<times> 'd list) list" where
  "consume p n [] = ([], [])"
| "consume 0 n ((r, ds) # as) = ([], (r, drop n ds) # as)"
| "consume (Suc p) n ((r, ds) # as) =
     (if length ds \<le> n then (let (done, as) = consume p (n - length ds) as in (r # done, as))
      else ([], (r, drop n ds) # as))"

text \<open>\<open>n\<close> descriptors \<open>ds\<close> are written for the first request that is not fully written.\<close>

definition post :: "nat \<Rightarrow> (qdma_request \<Rightarrow> qdma_request) \<Rightarrow> 'd list \<Rightarrow> (qdma_request \<times> 'd list) list \<Rightarrow> (qdma_request \<times> 'd list) list" where
  "post p f ds as = as[p := (f (fst (as ! p)), snd (as ! p) @ ds)]"

section \<open>The completion loop\<close>

definition done_entry :: "qdma_queue_conf \<Rightarrow> qdma_request \<Rightarrow> qdma_request \<times> u32 \<times> int" where
  "done_entry c r =
     (r\<lparr>cb_unmap_needed := False, cb_status := req_error c r 0, cb_is_done := True\<rparr>, cb_offset r, req_error c r 0)"

fun settle :: "u32 \<Rightarrow> qdma_request list \<Rightarrow> qdma_request list \<times> qdma_request list \<times> u32" where
  "settle cr [] = ([], [], cr)"
| "settle cr (r # rs) =
     (if cr \<ge> cb_desc_nr r
      then if cr - cb_desc_nr r = 0 then ([r], rs, 0)
           else (let (d, p, c) = settle (cr - cb_desc_nr r) rs in (r # d, p, c))
      else ([], r\<lparr>cb_desc_nr := cb_desc_nr r - cr\<rparr> # rs, 0))"

definition pend_empty :: "'d qdma_descq \<Rightarrow> bool" where
  "pend_empty q =
     (if cf_fp_c2h_packet (dq_conf q) then True
      else if is_st_c2h (dq_conf q) then dq_avail q = 0
      else dq_avail q = cf_rngsz (dq_conf q) - 1)"

lemma complete_loop_settle:
  assumes "dq_pend_list q = qs" and "settle cr qs = (d, p, c)"
  shows "complete_loop qs cr q =
    (c, q\<lparr>dq_pend_list := p, dq_done := dq_done q @ map (done_entry (dq_conf q)) d,
          dq_pend_list_empty := (if d = [] then dq_pend_list_empty q else pend_empty q)\<rparr>)"
  using assms
proof (induction qs arbitrary: cr q d)
  case (Cons r rs)
  show ?case
  proof (cases "cr \<ge> cb_desc_nr r")
    case False
    then show ?thesis using Cons.prems by auto
  next
    case True
    let ?q = "qdma_sgt_req_done r 0 q"
    have q: "?q = q\<lparr>dq_pend_list := rs, dq_done := dq_done q @ [done_entry (dq_conf q) r],
        dq_pend_list_empty := pend_empty q\<rparr>"
      using Cons.prems(1) by (simp add: qdma_sgt_req_done_def done_entry_def pend_empty_def Let_def)
    show ?thesis
    proof (cases "cr - cb_desc_nr r = 0")
      case True
      then show ?thesis using Cons.prems \<open>cr \<ge> cb_desc_nr r\<close> by (auto simp: q Let_def)
    next
      case False
      obtain d1 where d1: "settle (cr - cb_desc_nr r) rs = (d1, p, c)" "d = r # d1"
        using Cons.prems(2) True False by (auto split: prod.splits)
      have "complete_loop rs (cr - cb_desc_nr r) ?q =
        (c, ?q\<lparr>dq_pend_list := p, dq_done := dq_done ?q @ map (done_entry (dq_conf ?q)) d1,
          dq_pend_list_empty := (if d1 = [] then dq_pend_list_empty ?q else pend_empty ?q)\<rparr>)"
        by (rule Cons.IH [OF _ d1(1)]) (simp add: q)
      moreover have "pend_empty ?q = pend_empty q" by (simp add: q pend_empty_def)
      ultimately show ?thesis using True False d1(2) by (simp add: q Let_def)
    qed
  qed
qed auto

section \<open>Counters and descriptors\<close>

text \<open>The counter of a request is the number of its descriptors that are not consumed; the first request
  counts also the consumed ones that are still in the credit of the queue.\<close>

fun counts :: "nat \<Rightarrow> nat list \<Rightarrow> nat list \<Rightarrow> bool" where
  "counts cr [] [] \<longleftrightarrow> cr = 0"
| "counts cr (d # ds) (l # ls) \<longleftrightarrow> d = l + cr \<and> ds = ls"
| "counts cr _ _ \<longleftrightarrow> False"

abbreviation desc_nrs :: "qdma_request list \<Rightarrow> nat list" where
  "desc_nrs rs \<equiv> map (\<lambda>r. unat (cb_desc_nr r)) rs"

abbreviation lens :: "('r \<times> 'd list) list \<Rightarrow> nat list" where
  "lens as \<equiv> map (\<lambda>a. length (snd a)) as"

text \<open>\<open>p\<close> requests are fully written and have descriptors; only one further request has any.\<close>

definition in_order :: "nat \<Rightarrow> ('r \<times> 'd list) list \<Rightarrow> bool" where
  "in_order p as \<longleftrightarrow> (\<forall>a \<in> set (take p as). snd a \<noteq> []) \<and> (\<forall>a \<in> set (drop (Suc p) as). snd a = [])"

lemma counts_zero: "counts 0 ds ls \<longleftrightarrow> ds = ls"
  by (cases ds; cases ls) auto

lemma in_order_Cons: "in_order (Suc p) (a # as) \<longleftrightarrow> snd a \<noteq> [] \<and> in_order p as"
  by (auto simp: in_order_def)

lemma length_concat_snd: "length (concat (map snd as)) = sum_list (lens as)"
  by (induction as) auto

lemma in_order_0: "in_order 0 (a # as) \<Longrightarrow> concat (map snd as) = []"
  by (auto simp: in_order_def)

lemma settle_consume:
  assumes "settle cr P = (d, p, c)" and "map fst as = map rq_core (P @ W)"
    and "counts cr0 (desc_nrs (P @ W)) (lens as)" and "unat cr = cr0 + n"
    and "n \<le> length (concat (map snd as))" and "in_order (length P) as"
  shows "\<exists>as'. consume (length P) n as = (map rq_core d, as') \<and> map fst as' = map rq_core (p @ W) \<and>
    counts (unat c) (desc_nrs (p @ W)) (lens as') \<and> concat (map snd as') = drop n (concat (map snd as)) \<and>
    in_order (length p) as' \<and> map rq_core P = map rq_core (d @ p)"
  using assms
proof (induction P arbitrary: cr cr0 n as d p c)
  case Nil
  then have r: "d = []" "p = []" "c = cr" by auto
  show ?case
  proof (cases as)
    case Nil
    with Nil.prems r show ?thesis by auto
  next
    case (Cons a as1)
    obtain w ds where a: "a = (w, ds)" by (cases a)
    have e: "concat (map snd as1) = []" using Nil.prems(6) Cons by (simp add: in_order_0)
    have n: "n \<le> length ds" using Nil.prems(5) Cons a by (simp add: e)
    obtain w1 W1 where W: "W = w1 # W1" using Nil.prems(2) Cons by (cases W) auto
    show ?thesis using Nil.prems r Cons a e n W by (auto simp: in_order_def)
  qed
next
  case (Cons r P)
  obtain a as1 where as: "as = a # as1" using Cons.prems(2) by (cases as) auto
  obtain ds where a: "a = (rq_core r, ds)" using Cons.prems(2) as by (cases a) auto
  have ord: "ds \<noteq> []" "in_order (length P) as1" using Cons.prems(6) as a by (auto simp: in_order_Cons)
  have nr: "unat (cb_desc_nr r) = length ds + cr0" and cnt: "desc_nrs (P @ W) = lens as1"
    using Cons.prems(3) as a by auto
  have fst1: "map fst as1 = map rq_core (P @ W)" using Cons.prems(2) as by simp
  show ?case
  proof (cases "cr \<ge> cb_desc_nr r")
    case False
    then have n: "n < length ds" using Cons.prems(4) nr by (simp add: word_le_nat_alt)
    have res: "d = []" "p = r\<lparr>cb_desc_nr := cb_desc_nr r - cr\<rparr> # P" "c = 0" using Cons.prems(1) False by auto
    have "unat (cb_desc_nr r - cr) = length ds - n" using nr Cons.prems(4) n by (subst unat_minus_bounded) simp_all
    then show ?thesis using n res cnt fst1 ord(2) as a by (auto simp: in_order_Cons rq_core_def)
  next
    case True
    then have n: "length ds \<le> n" using Cons.prems(4) nr by (simp add: word_le_nat_alt)
    have cr': "unat (cr - cb_desc_nr r) = 0 + (n - length ds)"
      using Cons.prems(4) nr n by (subst unat_minus_bounded) simp_all
    have le: "n - length ds \<le> length (concat (map snd as1))" using Cons.prems(5) as a by simp
    obtain d1 c1 p1 where rest: "settle (cr - cb_desc_nr r) P = (d1, p1, c1)" by (metis prod_cases3)
    have res: "d = r # d1" "p = p1" "c = c1"
      if "cr - cb_desc_nr r \<noteq> 0" using Cons.prems(1) True rest that by (auto split: prod.splits)
    note ih = Cons.IH [OF rest fst1 _ cr' le ord(2)]
    show ?thesis
    proof (cases "cr - cb_desc_nr r = 0")
      case False
      with ih cnt res show ?thesis using as a n by (auto simp: counts_zero)
    next
      case z: True
      then have n: "n = length ds" using cr' n by simp
      have res: "d = [r]" "p = P" "c = 0" using Cons.prems(1) True z by auto
      have "consume (length P) 0 as1 = ([], as1)"
        using ord(2) by (cases as1; cases P) (auto simp: in_order_Cons)
      then show ?thesis using res n as a fst1 cnt ord(2) by (auto simp: counts_zero)
    qed
  qed
qed

section \<open>The queue as a refinement\<close>

definition dq_rngsz :: "'d qdma_descq \<Rightarrow> nat" where
  "dq_rngsz q = unat (cf_rngsz (dq_conf q))"

definition dq_used :: "'d qdma_descq \<Rightarrow> nat" where
  "dq_used q = dq_rngsz q - 1 - unat (dq_avail q)"

text \<open>Indices inside the ring, one slot always free, and the producer index as far ahead of the consumer
  index as there are descriptors in use.  Ring sizes are 16-bit, as the indices of the device.\<close>

definition queue_ok :: "'d qdma_descq \<Rightarrow> bool" where
  "queue_ok q \<longleftrightarrow> 1 < dq_rngsz q \<and> dq_rngsz q \<le> 2 ^ 16 \<and> length (dq_desc q) = dq_rngsz q \<and>
     unat (dq_cidx q) < dq_rngsz q \<and> unat (dq_avail q) < dq_rngsz q \<and>
     unat (dq_pidx q) = (unat (dq_cidx q) + dq_used q) mod dq_rngsz q"

definition outstanding :: "'d qdma_descq \<Rightarrow> (qdma_request \<times> 'd list) list \<Rightarrow> bool" where
  "outstanding q as \<longleftrightarrow> queue_ok q \<and>
     map fst as = map rq_core (dq_pend_list q @ dq_work_list q) \<and>
     slice (dq_desc q) (unat (dq_cidx q)) (dq_used q) = concat (map snd as) \<and>
     counts (unat (dq_credit q)) (desc_nrs (dq_pend_list q @ dq_work_list q)) (lens as) \<and>
     in_order (length (dq_pend_list q)) as \<and>
     (\<forall>r \<in> set (dq_pend_list q @ dq_work_list q). unat (cb_desc_nr r) + 2 ^ 16 < 2 ^ 32)"

lemma queue_ok_ring: "queue_ok q \<Longrightarrow> ring_ok (cf_rngsz (dq_conf q))"
  by (simp add: queue_ok_def ring_ok_def dq_rngsz_def)

lemma queue_ok_pidx: "queue_ok q \<Longrightarrow> unat (dq_pidx q) < dq_rngsz q"
  by (simp add: queue_ok_def)

lemma length_slice [simp]: "length (slice ring p c) = c"
  by (simp add: slice_def)

lemma slice_drop: "j \<le> c \<Longrightarrow> slice ring ((p + j) mod length ring) (c - j) = drop j (slice ring p c)"
proof (rule nth_equalityI)
  fix i assume "j \<le> c" and "i < length (slice ring ((p + j) mod length ring) (c - j))"
  then have "j + i < c" and "i < c - j" by simp_all
  then show "slice ring ((p + j) mod length ring) (c - j) ! i = drop j (slice ring p c) ! i"
    by (simp add: slice_def mod_simps add.assoc)
qed simp

lemma mod_step: "j \<le> a \<Longrightarrow> ((x + j) mod n + (a - j)) mod n = (x + a) mod (n :: nat)"
  by (metis add.assoc le_add_diff_inverse mod_add_left_eq)

text \<open>What reading the index written back leaves alone.\<close>

definition frame :: "'d qdma_descq \<Rightarrow> 'd qdma_descq \<Rightarrow> bool" where
  "frame q q' \<longleftrightarrow> dq_conf q' = dq_conf q \<and> dq_drv_mode q' = dq_drv_mode q \<and> dq_state q' = dq_state q \<and>
     dq_stop_wait q' = dq_stop_wait q \<and> dq_proc_req_running q' = dq_proc_req_running q \<and>
     dq_work_list q' = dq_work_list q \<and> dq_work_req_pend q' = dq_work_req_pend q \<and> dq_pidx q' = dq_pidx q \<and>
     dq_desc q' = dq_desc q \<and> dq_pidx_info q' = dq_pidx_info q"

lemma incr_cmpl_desc_cnt_fields [simp]:
  "dq_conf (incr_cmpl_desc_cnt cnt q) = dq_conf q" "dq_pend_list (incr_cmpl_desc_cnt cnt q) = dq_pend_list q"
  "dq_cidx (incr_cmpl_desc_cnt cnt q) = dq_cidx q" "dq_avail (incr_cmpl_desc_cnt cnt q) = dq_avail q"
  "dq_credit (incr_cmpl_desc_cnt cnt q) = dq_credit q" "dq_done (incr_cmpl_desc_cnt cnt q) = dq_done q"
  "dq_work_list (incr_cmpl_desc_cnt cnt q) = dq_work_list q" "dq_desc (incr_cmpl_desc_cnt cnt q) = dq_desc q"
  "dq_pidx (incr_cmpl_desc_cnt cnt q) = dq_pidx q" "dq_drv_mode (incr_cmpl_desc_cnt cnt q) = dq_drv_mode q"
  "dq_state (incr_cmpl_desc_cnt cnt q) = dq_state q" "dq_stop_wait (incr_cmpl_desc_cnt cnt q) = dq_stop_wait q"
  "dq_proc_req_running (incr_cmpl_desc_cnt cnt q) = dq_proc_req_running q"
  "dq_work_req_pend (incr_cmpl_desc_cnt cnt q) = dq_work_req_pend q"
  "dq_pidx_info (incr_cmpl_desc_cnt cnt q) = dq_pidx_info q"
  by (simp_all add: incr_cmpl_desc_cnt_def Let_def)

lemma consume_0: "in_order p as \<Longrightarrow> consume p 0 as = ([], as)"
  by (cases as; cases p) (auto simp: in_order_Cons)

lemma unat_ucast_u16 [simp]: "unat (ucast (w :: u16) :: u32) = unat w"
  by transfer (simp add: take_bit_nat_eq_self)

lemma outstandingD:
  assumes "outstanding q as"
  shows "queue_ok q" and "map fst as = map rq_core (dq_pend_list q @ dq_work_list q)"
    and "slice (dq_desc q) (unat (dq_cidx q)) (dq_used q) = concat (map snd as)"
    and "counts (unat (dq_credit q)) (desc_nrs (dq_pend_list q @ dq_work_list q)) (lens as)"
    and "in_order (length (dq_pend_list q)) as"
    and "\<forall>r \<in> set (dq_pend_list q @ dq_work_list q). unat (cb_desc_nr r) + 2 ^ 16 < 2 ^ 32"
    and "dq_used q = length (concat (map snd as))"
  using assms length_slice by (auto simp: outstanding_def simp del: map_append) (metis length_slice)+

lemma settle_small:
  "settle cr P = (d, p, c) \<Longrightarrow> \<forall>r \<in> set P. unat (cb_desc_nr r) + 2 ^ 16 < 2 ^ 32 \<Longrightarrow>
    \<forall>r \<in> set p. unat (cb_desc_nr r) + 2 ^ 16 < 2 ^ 32"
proof (induction P arbitrary: cr d)
  case (Cons r P)
  have "unat (cb_desc_nr r - cr) \<le> unat (cb_desc_nr r)" if "\<not> cb_desc_nr r \<le> cr"
    using that by (subst unat_minus_bounded) (simp_all add: word_le_nat_alt)
  then show ?case using Cons by (fastforce split: if_splits prod.splits)
qed auto

lemma consumed_outstanding:
  assumes out: "outstanding q as" and j: "j \<le> dq_used q"
    and f: "dq_conf q' = dq_conf q" "dq_desc q' = dq_desc q" "dq_pidx q' = dq_pidx q" "dq_work_list q' = dq_work_list q"
    and c: "unat (dq_cidx q') = (unat (dq_cidx q) + j) mod dq_rngsz q" "unat (dq_avail q') = unat (dq_avail q) + j"
    and p: "map fst as' = map rq_core (dq_pend_list q' @ dq_work_list q)"
      "counts (unat (dq_credit q')) (desc_nrs (dq_pend_list q' @ dq_work_list q)) (lens as')"
      "concat (map snd as') = drop j (concat (map snd as))" "in_order (length (dq_pend_list q')) as'"
      "\<forall>r \<in> set (dq_pend_list q'). unat (cb_desc_nr r) + 2 ^ 16 < 2 ^ 32"
  shows "outstanding q' as'" and "dq_used q' = dq_used q - j"
proof -
  have r: "dq_rngsz q' = dq_rngsz q" using f by (simp add: dq_rngsz_def)
  show u: "dq_used q' = dq_used q - j" using c r by (simp add: dq_used_def)
  note o = outstandingD [OF out]
  have "queue_ok q'"
    using o(1) j c(1) mod_step [of j "dq_used q" "unat (dq_cidx q)"]
    unfolding queue_ok_def u r f c(2) by (auto simp: dq_used_def)
  moreover have "slice (dq_desc q') (unat (dq_cidx q')) (dq_used q') = concat (map snd as')"
    using slice_drop [OF j, of "dq_desc q" "unat (dq_cidx q)"] o(1,3) p(3) by (simp add: f u c queue_ok_def)
  ultimately show "outstanding q' as'"
    using p f(4) o(6) unfolding outstanding_def by auto
qed

lemma out_credit:
  assumes "outstanding q as"
  shows "unat (dq_credit q) + 2 ^ 16 < 2 ^ 32"
proof -
  have c: "counts (unat (dq_credit q)) (desc_nrs (dq_pend_list q @ dq_work_list q)) (lens as)"
    and b: "\<forall>r \<in> set (dq_pend_list q @ dq_work_list q). unat (cb_desc_nr r) + 2 ^ 16 < 2 ^ 32"
    using assms by (auto simp: outstanding_def)
  show ?thesis
  proof (cases "dq_pend_list q @ dq_work_list q")
    case Nil
    then show ?thesis using c by (cases as) auto
  next
    case (Cons r rs)
    then have "unat (dq_credit q) \<le> unat (cb_desc_nr r)" using c by (cases as) auto
    moreover have "unat (cb_desc_nr r) + 2 ^ 16 < 2 ^ 32" using b Cons by simp
    ultimately show ?thesis by simp
  qed
qed

text \<open>The completion credits are the distance between the indices.\<close>

lemma cmpl_credits_delta: "cmpl_credits = ring_idx_delta"
  by (simp add: cmpl_credits_def ring_idx_delta_def fun_eq_iff not_le [symmetric] add.commute)

section \<open>The device\<close>

lemma ring_distance:
  assumes "c < k" and "(j :: nat) < k"
  shows "((c + j) mod k + k - c) mod k = j"
proof -
  have "((c + j) mod k + k - c) mod k = ((c + j) mod k + (k - c)) mod k" using assms by simp
  also have "\<dots> = (c + j + (k - c)) mod k" by (simp only: mod_add_left_eq)
  also have "\<dots> = j" using assms by simp
  finally show ?thesis .
qed

text \<open>How far the index that the device wrote back is ahead of the queue; a queue with nothing outstanding does
  not read it.\<close>

definition cmpl_advance :: "'s ring_dev \<Rightarrow> 'd qdma_descq \<Rightarrow> 's \<Rightarrow> nat" where
  "cmpl_advance dev q s = (if dq_pidx q = dq_cidx q then 0
     else (unat (fst (rd_cmpl_cidx dev s)) + dq_rngsz q - unat (dq_cidx q)) mod dq_rngsz q)"

text \<open>What the queue relies on: the consumer index read from host memory has moved from its last value
  towards the last producer index posted, and an update of the producer index register posts the index
  unless it fails.  \<open>cons\<close> and \<open>tail\<close> read the two indices of the queue from the state of the device; \<open>n\<close>
  is the ring size.\<close>

locale ring_device =
  fixes dev :: "'s ring_dev" and qid :: u32 and t :: queue_type_t and n :: nat
    and cons :: "'s \<Rightarrow> nat" and tail :: "'s \<Rightarrow> nat"
  assumes read: "rd_cmpl_cidx dev s = (c, s') \<Longrightarrow> cons s < n \<Longrightarrow> tail s < n \<Longrightarrow>
      tail s' = tail s \<and> cons s' = unat c \<and>
      (\<exists>j \<le> (tail s + n - cons s) mod n. unat c = (cons s + j) mod n)"
    and update: "rd_pidx_update dev qid t info s = (r, s') \<Longrightarrow>
      cons s' = cons s \<and> tail s' = (if r < 0 then tail s else unat (pidx info))"
begin

text \<open>The device and the queue agree on the consumer index; what is posted, and what the next update
  will post, has been written.\<close>

definition in_step :: "'d qdma_descq \<Rightarrow> 's \<Rightarrow> bool" where
  "in_step q s \<longleftrightarrow> dq_rngsz q = n \<and> cf_qidx (dq_conf q) = qid \<and> cf_q_type (dq_conf q) = t \<and> cons s = unat (dq_cidx q) \<and>
     (\<exists>a b. a \<le> b \<and> b \<le> dq_used q \<and> tail s = (cons s + a) mod n \<and>
        unat (pidx (dq_pidx_info q)) = (cons s + b) mod n)"

lemma in_step_read:
  assumes q: "queue_ok q" and st: "in_step q s" and rd: "rd_cmpl_cidx dev s = (c, s')"
  obtains j where "j \<le> dq_used q" and "j = (unat c + n - unat (dq_cidx q)) mod n" and "unat c = (unat (dq_cidx q) + j) mod n" and "cons s' = unat c"
    and "\<exists>a b. a \<le> b \<and> b \<le> dq_used q - j \<and> tail s' = (unat c + a) mod n \<and>
        unat (pidx (dq_pidx_info q)) = (unat c + b) mod n"
proof -
  obtain a b where ab: "a \<le> b" "b \<le> dq_used q" "tail s = (cons s + a) mod n"
    "unat (pidx (dq_pidx_info q)) = (cons s + b) mod n" and n: "dq_rngsz q = n" and cs: "cons s = unat (dq_cidx q)"
    using st by (auto simp: in_step_def)
  have lt: "cons s < n" "0 < n" "dq_used q < n" using q n cs by (auto simp: queue_ok_def dq_used_def)
  have "(tail s + n - cons s) mod n = a" using ring_distance [of "cons s" n a] ab(1-3) lt by simp
  moreover have "tail s < n" using ab(3) lt by simp
  ultimately obtain j where j: "j \<le> a" "unat c = (cons s + j) mod n" "cons s' = unat c" "tail s' = tail s"
    using read [OF rd lt(1)] by auto
  have "tail s' = (unat c + (a - j)) mod n" "unat (pidx (dq_pidx_info q)) = (unat c + (b - j)) mod n"
    using j ab mod_step [of j a] mod_step [of j b] by simp_all
  moreover have "a - j \<le> b - j" and "b - j \<le> dq_used q - j" using ab(1,2) by simp_all
  ultimately have ex: "\<exists>a b. a \<le> b \<and> b \<le> dq_used q - j \<and> tail s' = (unat c + a) mod n \<and>
      unat (pidx (dq_pidx_info q)) = (unat c + b) mod n" by blast
  have "j < n" using j(1) ab(1,2) lt by linarith
  then have jd: "j = (unat c + n - unat (dq_cidx q)) mod n" unfolding j(2) cs [symmetric] by (rule ring_distance [OF lt(1), symmetric])
  show ?thesis by (rule that [OF _ jd _ j(3) ex]) (use j(1,2) ab(1,2) cs in simp_all)
qed

lemma pidx_update_in_step:
  assumes "in_step q s" and "qdma_pidx_update dev True q s = (r, q', s')"
  shows "in_step q' s'" and "q' = q \<or> q' = q\<lparr>dq_desc_pend := 0\<rparr>"
proof -
  have id: "cf_qidx (dq_conf q) = qid" "cf_q_type (dq_conf q) = t" using assms(1) by (simp_all add: in_step_def)
  obtain r1 where u: "rd_pidx_update dev qid t (dq_pidx_info q) s = (r1, s')"
    and q': "q' = (if r1 < 0 then q else q\<lparr>dq_desc_pend := 0\<rparr>)"
    using assms(2) by (auto simp: qdma_pidx_update_def queue_pidx_update_def id Let_def split: prod.splits if_splits)
  show "q' = q \<or> q' = q\<lparr>dq_desc_pend := 0\<rparr>" using q' by auto
  obtain a b where ab: "a \<le> b" "b \<le> dq_used q" "tail s = (cons s + a) mod n"
    "unat (pidx (dq_pidx_info q)) = (cons s + b) mod n" "dq_rngsz q = n" "cons s = unat (dq_cidx q)"
    using assms(1) by (auto simp: in_step_def)
  show "in_step q' s'"
  proof (cases "r1 < 0")
    case True
    then show ?thesis using update [OF u] ab id q' by (auto simp: in_step_def)
  next
    case False
    then have "tail s' = (cons s' + b) mod n" "cons s' = cons s" using update [OF u] ab by auto
    then show ?thesis using ab id q' False
      by (auto simp: in_step_def dq_used_def dq_rngsz_def intro!: exI [of _ b])
  qed
qed

text \<open>Reading the index written back consumes descriptors from the front of the abstract queue, and
  reports exactly the requests that are consumed by that.\<close>

lemma cmpl_status_refines:
  assumes out: "outstanding q as" and st: "in_step q s" and r: "descq_mm_n_h2c_cmpl_status dev q s = (rv, q', s')"
  shows "\<exists>j d as'. consume (length (dq_pend_list q)) j as = (map rq_core d, as') \<and> j \<le> dq_used q \<and>
    outstanding q' as' \<and> in_step q' s' \<and> frame q q' \<and> dq_used q' = dq_used q - j \<and>
    j = cmpl_advance dev q s \<and> unat (dq_cidx q') = (unat (dq_cidx q) + j) mod dq_rngsz q \<and>
    dq_done q' = dq_done q @ map (done_entry (dq_conf q)) d \<and>
    map rq_core (dq_pend_list q) = map rq_core (d @ dq_pend_list q')"
proof -
  note o = outstandingD [OF out]
  note ok = o(1) and ord = o(5)
  have n: "dq_rngsz q = n" and id: "cf_qidx (dq_conf q) = qid" "cf_q_type (dq_conf q) = t"
    using st by (simp_all add: in_step_def)
  have none: ?thesis if "q' = q" "in_step q s'" "cmpl_advance dev q s = 0"
    using that out ord consume_0 [OF ord] ok
    by (intro exI [of _ 0] exI [of _ "[]"] exI [of _ as]) (simp add: frame_def queue_ok_def)
  show ?thesis
  proof (cases "dq_pidx q = dq_cidx q")
    case True
    then show ?thesis using r st none by (simp add: descq_mm_n_h2c_cmpl_status_def cmpl_advance_def)
  next
    case ne: False
    obtain c s1 where rd: "rd_cmpl_cidx dev s = (c, s1)" by fastforce
    obtain j where ju: "j \<le> dq_used q" and adv0: "j = (unat c + n - unat (dq_cidx q)) mod n"
      and jc: "unat c = (unat (dq_cidx q) + j) mod n" "cons s1 = unat c"
      and ab: "\<exists>a b. a \<le> b \<and> b \<le> dq_used q - j \<and> tail s1 = (unat c + a) mod n \<and>
        unat (pidx (dq_pidx_info q)) = (unat c + b) mod n"
      by (rule in_step_read [OF ok st rd])
    note j = ju jc
    have adv: "cmpl_advance dev q s = j" using ne rd n adv0 by (simp add: cmpl_advance_def)
    show ?thesis
    proof (cases "ucast c = dq_cidx q")
      case True
      then have "unat c = unat (dq_cidx q)" by (metis unat_ucast_u16)
      moreover obtain a b where "a \<le> b" "b \<le> dq_used q" "tail s1 = (unat c + a) mod n"
        "unat (pidx (dq_pidx_info q)) = (unat c + b) mod n" using ab by (meson diff_le_self order_trans)
      ultimately have "in_step q s1" using j(3) n id unfolding in_step_def by auto
      moreover have "cmpl_advance dev q s = 0" using \<open>unat c = unat (dq_cidx q)\<close> adv adv0 ok n by (simp add: queue_ok_def)
      ultimately show ?thesis using r ne rd True none by (simp add: descq_mm_n_h2c_cmpl_status_def)
    next
      case False
      define cr where "cr = cmpl_credits (ucast c) (dq_cidx q) (cf_rngsz (dq_conf q))"
      have jn: "j < n" "unat (of_nat j :: u32) = j"
        using j(1) ok n by (auto simp: queue_ok_def dq_used_def unat_of_nat)
      have cs: "unat (dq_cidx q) < unat (cf_rngsz (dq_conf q))" using ok by (simp add: queue_ok_def dq_rngsz_def)
      have "ucast c = ring_idx_incr (dq_cidx q) (of_nat j) (cf_rngsz (dq_conf q))"
        using ring_idx_incr_unat [OF queue_ok_ring [OF ok] cs, of "of_nat j"] j(2) jn n
        by (simp add: word_unat_eq_iff dq_rngsz_def)
      then have "cr = of_nat j"
        unfolding cr_def cmpl_credits_delta using jn n cs
        by (simp add: ring.delta_incr [OF queue_ok_ring [OF ok]] dq_rngsz_def)
      then have cr: "unat cr = j" using jn by simp
      obtain d p cl where se: "settle (dq_credit q + cr) (dq_pend_list q) = (d, p, cl)" by (metis prod_cases3)
      have credit: "unat (dq_credit q + cr) = unat (dq_credit q) + j"
        using out_credit [OF out] cr j(1) ok by (subst unat_plus_bounded) (auto simp: queue_ok_def dq_used_def)
      obtain as' where as': "consume (length (dq_pend_list q)) j as = (map rq_core d, as')"
        "map fst as' = map rq_core (p @ dq_work_list q)" "counts (unat cl) (desc_nrs (p @ dq_work_list q)) (lens as')"
        "concat (map snd as') = drop j (concat (map snd as))" "in_order (length p) as'"
        "map rq_core (dq_pend_list q) = map rq_core (d @ p)"
        using settle_consume [OF se o(2) o(4) credit _ o(5)] j(1) o(7) by auto
      define q1 where "q1 = incr_cmpl_desc_cnt cr (q\<lparr>dq_cidx := ucast c, dq_avail := dq_avail q + cr, dq_credit := dq_credit q + cr\<rparr>)"
      define q2 where "q2 = q1\<lparr>dq_pend_list := p, dq_done := dq_done q1 @ map (done_entry (dq_conf q1)) d,
          dq_pend_list_empty := (if d = [] then dq_pend_list_empty q1 else pend_empty q1), dq_credit := cl\<rparr>"
      obtain r1 where up: "qdma_pidx_update dev True q2 s1 = (r1, q', s')"
        using r ne rd False complete_loop_settle [of q1 "dq_pend_list q" "dq_credit q + cr" d p cl] se
        by (auto simp: descq_mm_n_h2c_cmpl_status_def Let_def q1_def q2_def cr_def split: prod.splits)
      have f: "dq_conf q2 = dq_conf q" "dq_desc q2 = dq_desc q" "dq_pidx q2 = dq_pidx q" "dq_work_list q2 = dq_work_list q"
        "dq_cidx q2 = ucast c" "dq_avail q2 = dq_avail q + cr" "dq_pend_list q2 = p" "dq_credit q2 = cl" "frame q q2"
        "dq_done q2 = dq_done q @ map (done_entry (dq_conf q)) d"
        by (simp_all add: q1_def q2_def frame_def)
      have av: "unat (dq_avail q2) = unat (dq_avail q) + j"
        using ok j(1) cr by (simp add: f, subst unat_plus_bounded) (auto simp: queue_ok_def dq_used_def)
      have out2: "outstanding q2 as'" and us: "dq_used q2 = dq_used q - j"
        by (rule consumed_outstanding [OF out j(1) f(1-4)]; use j(2) n av as' f o(6) settle_small [OF se] in auto)+
      have "in_step q2 s1" using ab j(3) n id f us unfolding in_step_def frame_def by (auto simp: dq_rngsz_def)
      note step = pidx_update_in_step [OF this up]
      have "outstanding q' as'" "frame q q'" "dq_used q' = dq_used q - j" "dq_done q' = dq_done q2" "dq_pend_list q' = p"
        using step(2) out2 us f(7,9) by (auto simp: outstanding_def queue_ok_def frame_def dq_used_def dq_rngsz_def)
      moreover have "unat (dq_cidx q') = (unat (dq_cidx q) + j) mod dq_rngsz q" using step(2) f(5) j(2) n by auto
      ultimately show ?thesis using as' j(1) step(1) f(10) adv by (intro exI [of _ j] exI [of _ d] exI [of _ as']) simp
    qed
  qed
qed

end

section \<open>Writing descriptors\<close>

lemma slice_append: "slice ring p (a + b) = slice ring p a @ slice ring ((p + a) mod length ring) b"
  by (rule nth_equalityI) (auto simp: slice_def nth_append mod_simps add.assoc)

lemma slice_kept:
  assumes n: "length ring' = length ring" "0 < length ring" and c: "u + c < length ring"
    and kept: "\<And>k. c < k \<Longrightarrow> k < length ring \<Longrightarrow>
      ring' ! ((p + u + k) mod length ring) = ring ! ((p + u + k) mod length ring)"
  shows "slice ring' p u = slice ring p u"
proof (rule nth_equalityI)
  fix i assume "i < length (slice ring' p u)"
  then have i: "i < u" by simp
  have "p + u + (length ring - u + i) = p + i + length ring" using c by simp
  then have "(p + u + (length ring - u + i)) mod length ring = (p + i) mod length ring" by (simp only: mod_add_self2)
  then have "ring' ! ((p + i) mod length ring) = ring ! ((p + i) mod length ring)"
    using kept [of "length ring - u + i"] c i by simp
  then show "slice ring' p u ! i = slice ring p u ! i" using i n by (simp add: slice_def)
qed simp

lemma counts_update:
  "counts cr ds ls \<Longrightarrow> i < length ds \<Longrightarrow> counts cr (ds[i := ds ! i + c]) (ls[i := ls ! i + c])"
  by (cases ds; cases ls; cases i) auto

text \<open>What a round of a request loop makes of the request.\<close>

definition written :: "u32 \<Rightarrow> u32 \<Rightarrow> nat option \<Rightarrow> qdma_request \<Rightarrow> qdma_request" where
  "written data sgoff sg r = r\<lparr>cb_offset := cb_offset r + data, cb_sg_offset := sgoff, cb_sg := sg\<rparr>"

lemma post_outstanding:
  fixes q :: "'d qdma_descq"
  assumes out: "outstanding q as" and wl: "dq_work_list q = req # ws"
    and ring: "length ring = dq_rngsz q"
      "\<And>k. unat cnt < k \<Longrightarrow> k < dq_rngsz q \<Longrightarrow>
        ring ! ((unat (dq_pidx q) + k) mod dq_rngsz q) = dq_desc q ! ((unat (dq_pidx q) + k) mod dq_rngsz q)"
    and cnt: "0 < unat cnt" "unat cnt \<le> unat (dq_avail q)" "unat p = (unat (dq_pidx q) + unat cnt) mod dq_rngsz q"
    and small: "unat (cb_desc_nr req) + unat cnt + 2 ^ 16 < 2 ^ 32"
    and q': "q' = (qdma_update_request req cnt data sgoff sg q)\<lparr>dq_desc := ring, dq_pidx := p, dq_avail := dq_avail q - cnt\<rparr>"
  shows "outstanding q' (post (length (dq_pend_list q)) (written data sgoff sg) (slice ring (unat (dq_pidx q)) (unat cnt)) as)"
    and "dq_used q' = dq_used q + unat cnt" and "dq_pend_list q' @ dq_work_list q' =
      dq_pend_list q @ written data sgoff sg (req\<lparr>cb_desc_nr := cb_desc_nr req + cnt\<rparr>) # ws"
proof -
  note o = outstandingD [OF out]
  let ?np = "length (dq_pend_list q)" and ?r = "written data sgoff sg (req\<lparr>cb_desc_nr := cb_desc_nr req + cnt\<rparr>)"
  let ?new = "slice ring (unat (dq_pidx q)) (unat cnt)"
  have f: "dq_conf q' = dq_conf q" "dq_cidx q' = dq_cidx q" "dq_credit q' = dq_credit q" "dq_desc q' = ring"
      "dq_pidx q' = p" "dq_avail q' = dq_avail q - cnt"
    unfolding q' by (simp_all add: qdma_update_request_def Let_def)
  have np: "dq_pend_list q' = dq_pend_list q @ [?r] \<and> dq_work_list q' = ws \<or>
      dq_pend_list q' = dq_pend_list q \<and> dq_work_list q' = ?r # ws"
    unfolding q' using wl by (auto simp: qdma_update_request_def written_def Let_def)
  then show act: "dq_pend_list q' @ dq_work_list q' = dq_pend_list q @ ?r # ws" by auto
  have av: "unat (dq_avail q') = unat (dq_avail q) - unat cnt" using cnt(2) f by (simp add: unat_minus_bounded)
  have r: "dq_rngsz q' = dq_rngsz q" using f by (simp add: dq_rngsz_def)
  show used: "dq_used q' = dq_used q + unat cnt"
    using o(1) cnt(2) av r by (simp add: dq_used_def queue_ok_def)
  have rest: "length as = Suc (?np + length ws)" using arg_cong [OF o(2), of length] wl by simp
  have asp: "as = take ?np as @ as ! ?np # drop (Suc ?np) as" using rest by (intro id_take_nth_drop) simp
  have core: "fst (as ! ?np) = rq_core req" using arg_cong [OF o(2), of "\<lambda>xs. xs ! ?np"] rest wl by (simp add: nth_append)
  have tl: "concat (map snd (drop (Suc ?np) as)) = []" using o(5) by (auto simp: in_order_def)
  have new: "post ?np (written data sgoff sg) ?new as =
      take ?np as @ (rq_core ?r, snd (as ! ?np) @ ?new) # drop (Suc ?np) as"
    using rest core by (simp add: post_def upd_conv_take_nth_drop rq_core_def written_def)
  have "unat (dq_avail q - cnt) < dq_rngsz q" using av f o(1) by (auto simp: queue_ok_def intro: le_less_trans [OF diff_le_self])
  then have "queue_ok q'"
    using o(1) cnt(3) used unfolding queue_ok_def f r by (simp add: mod_simps add.assoc ring(1))
  moreover have "map fst (post ?np (written data sgoff sg) ?new as) = map rq_core (dq_pend_list q' @ dq_work_list q')"
  proof -
    have "map fst as = map rq_core (dq_pend_list q) @ rq_core req # map rq_core ws" using o(2) wl by simp
    then have "map fst (take ?np as) = map rq_core (dq_pend_list q)" "map fst (drop (Suc ?np) as) = map rq_core ws"
      by (simp_all add: take_map [symmetric] drop_map [symmetric])
    then show ?thesis unfolding act new by simp
  qed
  moreover have "slice (dq_desc q') (unat (dq_cidx q')) (dq_used q') = concat (map snd (post ?np (written data sgoff sg) ?new as))"
  proof -
    have u: "dq_used q + unat cnt < length (dq_desc q)" and n: "length ring = length (dq_desc q)" "0 < length (dq_desc q)"
      using o(1) cnt(2) ring(1) by (auto simp: queue_ok_def dq_used_def)
    have p: "unat (dq_pidx q) = (unat (dq_cidx q) + dq_used q) mod length (dq_desc q)"
      using o(1) by (simp add: queue_ok_def)
    have "slice ring (unat (dq_cidx q)) (dq_used q) = slice (dq_desc q) (unat (dq_cidx q)) (dq_used q)"
      using ring(2) o(1) by (intro slice_kept [OF n u]) (simp add: p queue_ok_def mod_simps)
    moreover have "concat (map snd as) = concat (map snd (take ?np as)) @ snd (as ! ?np)"
      by (subst asp) (simp add: tl)
    ultimately show ?thesis unfolding f used slice_append new using o(3) p n(1) by (simp add: tl)
  qed
  moreover have "counts (unat (dq_credit q')) (desc_nrs (dq_pend_list q' @ dq_work_list q')) (lens (post ?np (written data sgoff sg) ?new as))"
  proof -
    have "unat (cb_desc_nr req + cnt) = unat (cb_desc_nr req) + unat cnt"
      using small by (intro unat_plus_bounded) simp
    then have "desc_nrs (dq_pend_list q' @ dq_work_list q') =
        (desc_nrs (dq_pend_list q @ dq_work_list q))[?np := desc_nrs (dq_pend_list q @ dq_work_list q) ! ?np + unat cnt]"
      unfolding act wl by (simp add: nth_append list_update_append written_def)
    moreover have "lens (post ?np (written data sgoff sg) ?new as) = (lens as)[?np := lens as ! ?np + unat cnt]"
      using rest by (simp add: post_def map_update)
    ultimately show ?thesis using counts_update [OF o(4), of ?np] wl by (simp add: f)
  qed
  moreover have "in_order (length (dq_pend_list q')) (post ?np (written data sgoff sg) ?new as)"
    unfolding new using o(5) np rest cnt(1) set_drop_subset_set_drop [of "Suc ?np" "Suc (Suc ?np)" as]
    by (fastforce simp: in_order_def slice_def)
  moreover have "\<forall>r \<in> set (dq_pend_list q' @ dq_work_list q'). unat (cb_desc_nr r) + 2 ^ 16 < 2 ^ 32"
  proof -
    have "unat (cb_desc_nr ?r) = unat (cb_desc_nr req) + unat cnt"
      using small by (simp add: written_def, subst unat_plus_bounded) simp_all
    then show ?thesis unfolding act using o(6) wl small by auto
  qed
  ultimately show "outstanding q' (post ?np (written data sgoff sg) ?new as)"
    unfolding outstanding_def by blast
qed

end
