(* ===== verification/DescqC2hRead.thy ===== *)
theory DescqC2hRead
  imports DescqC2hProc DescqRefine
begin

text \<open>
  Reading from an ST C2H queue as consumption from a stream of bytes.  The buffers that hold received
  data, from the first that is not read to the producer index, are a stream; the entries of the target
  scatter-gather list are a list of places.  A read moves the head of the stream to the head of the
  places, and leaves the rest of both.
\<close>

section \<open>Places and bytes\<close>

definition places :: "qdma_sw_sg \<Rightarrow> (nat option \<times> nat) list" where
  "places t = map (\<lambda>k. (sg_pg t, unat (sg_offset t) + k)) [0 ..< unat (sg_len t)]"

definition sgl_places :: "qdma_sw_sg list \<Rightarrow> (nat option \<times> nat) list" where
  "sgl_places ts = concat (map places ts)"

definition bytes_at :: "host_bytes \<Rightarrow> (nat option \<times> nat) list \<Rightarrow> u8 list" where
  "bytes_at m ps = map (\<lambda>(p, k). m p k) ps"

fun put_bytes :: "(nat option \<times> nat) list \<Rightarrow> u8 list \<Rightarrow> host_bytes \<Rightarrow> host_bytes" where
  "put_bytes ((p, k) # ps) (b # bs) m = put_bytes ps bs (m(p := (m p)(k := b)))"
| "put_bytes _ _ m = m"

lemma length_places [simp]: "length (places t) = unat (sg_len t)"
  by (simp add: places_def)

lemma sgl_places_simps [simp]: "sgl_places [] = []" "sgl_places (t # ts) = places t @ sgl_places ts"
  by (simp_all add: sgl_places_def)

lemma length_bytes_at [simp]: "length (bytes_at m ps) = length ps"
  by (simp add: bytes_at_def)

lemma bytes_at_simps [simp]:
  "bytes_at m [] = []" "bytes_at m (ps @ qs) = bytes_at m ps @ bytes_at m qs"
  by (simp_all add: bytes_at_def)

lemma take_bytes_at [simp]: "take n (bytes_at m ps) = bytes_at m (take n ps)"
  by (simp add: bytes_at_def take_map)

lemma drop_bytes_at [simp]: "drop n (bytes_at m ps) = bytes_at m (drop n ps)"
  by (simp add: bytes_at_def drop_map)

lemma put_bytes_append:
  "length ps = length bs \<Longrightarrow> put_bytes (ps @ qs) (bs @ cs) m = put_bytes qs cs (put_bytes ps bs m)"
  by (induction ps bs m rule: put_bytes.induct) auto

lemma put_bytes_other: "(p, k) \<notin> set ps \<Longrightarrow> put_bytes ps bs m p k = m p k"
  by (induction ps bs m rule: put_bytes.induct) auto

lemma bytes_at_put_other: "set ps \<inter> set qs = {} \<Longrightarrow> bytes_at (put_bytes qs bs m) ps = bytes_at m ps"
  by (auto simp: bytes_at_def intro!: put_bytes_other)

lemma bytes_at_put: "distinct ps \<Longrightarrow> length ps = length bs \<Longrightarrow> bytes_at (put_bytes ps bs m) ps = bs"
proof (induction ps bs m rule: put_bytes.induct)
  case (1 p k ps b bs m)
  let ?m = "m(p := (m p)(k := b))"
  have "bytes_at (put_bytes ps bs ?m) ps = bs" using 1 by (simp add: fun_upd_def)
  moreover have "put_bytes ps bs ?m p k = b" using 1(2) by (simp add: put_bytes_other)
  ultimately show ?case by (simp add: bytes_at_def)
qed simp_all

text \<open>\<^verbatim>\<open>memcpy\<close> writes the bytes of the source to the places of the target.\<close>

definition range_at :: "nat option \<times> nat \<Rightarrow> nat \<Rightarrow> (nat option \<times> nat) list" where
  "range_at a n = map (\<lambda>k. (fst a, snd a + k)) [0 ..< n]"

lemma length_range_at [simp]: "length (range_at a n) = n"
  by (simp add: range_at_def)

lemma set_range_at: "(p, k) \<in> set (range_at a n) \<longleftrightarrow> p = fst a \<and> snd a \<le> k \<and> k < snd a + n"
  by (auto simp: range_at_def image_iff intro!: bexI [of _ "k - snd a"])

lemma range_at_Suc: "range_at a (Suc n) = range_at a n @ [(fst a, snd a + n)]"
  by (simp add: range_at_def)

lemma put_bytes_range:
  "length bs = n \<Longrightarrow> put_bytes (range_at a n) bs m p k =
    (if p = fst a \<and> snd a \<le> k \<and> k < snd a + n then bs ! (k - snd a) else m p k)"
proof (induction n arbitrary: bs)
  case (Suc n)
  then obtain cs c where bs: "bs = cs @ [c]" "length cs = n" by (metis length_Suc_conv_rev)
  then have "put_bytes (range_at a (Suc n)) bs m p k =
      ((put_bytes (range_at a n) cs m)(fst a := (put_bytes (range_at a n) cs m (fst a))(snd a + n := c))) p k"
    by (simp add: range_at_Suc put_bytes_append)
  then show ?case using Suc.IH [of cs] bs by (auto simp: nth_append less_Suc_eq_le)
qed (auto simp: range_at_def)

lemma memcpy_put: "memcpy dst src n m = put_bytes (range_at dst n) (bytes_at m (range_at src n)) m"
proof (intro ext)
  fix p k show "memcpy dst src n m p k = put_bytes (range_at dst n) (bytes_at m (range_at src n)) m p k"
    by (simp add: put_bytes_range memcpy_def) (auto simp: bytes_at_def range_at_def)
qed

lemma places_range: "places t = range_at (sg_pg t, unat (sg_offset t)) (unat (sg_len t))"
  by (simp add: places_def range_at_def)

lemma drop_range_at: "drop j (range_at a n) = range_at (fst a, snd a + j) (n - j)"
  by (rule nth_equalityI) (simp_all add: range_at_def ac_simps)

lemma take_range_at: "j \<le> n \<Longrightarrow> take j (range_at a n) = range_at a j"
  by (simp add: range_at_def take_map)

section \<open>One buffer\<close>

definition left_places :: "read_st \<Rightarrow> (nat option \<times> nat) list" where
  "left_places r = drop (unat (rd_tsgoff r)) (sgl_places (rd_tsgs r))"

text \<open>A target list whose entries do not wrap around, with an offset inside the first entry.\<close>

definition target_ok :: "read_st \<Rightarrow> bool" where
  "target_ok r \<longleftrightarrow>
     (\<forall>t \<in> set (rd_tsgs r). unat (sg_offset t) + unat (sg_len t) < 2 ^ 32) \<and>
     (rd_tsgs r \<noteq> [] \<longrightarrow> unat (rd_tsgoff r) \<le> unat (sg_len (hd (rd_tsgs r))))"

text \<open>What a loop that moves the bytes at \<open>src\<close> does to the state.  The flag says whether the bytes matter:
  what is counted does not depend on where the data is.\<close>

definition moved :: "bool \<Rightarrow> nat \<Rightarrow> (nat option \<times> nat) list \<Rightarrow> read_st \<Rightarrow> read_st \<Rightarrow> bool" where
  "moved b d src r r' \<longleftrightarrow>
     d = min (length src) (length (left_places r)) \<and>
     left_places r' = drop d (left_places r) \<and> unat (rd_copied r') = unat (rd_copied r) + d \<and>
     (b \<longrightarrow> rd_bytes r' = put_bytes (take d (left_places r)) (bytes_at (rd_bytes r) (take d src)) (rd_bytes r)) \<and>
     target_ok r' \<and> (\<exists>j \<le> length (rd_tsgs r). rd_tsgs r' = drop j (rd_tsgs r) \<and> rd_j r' = rd_j r + of_nat j)"

lemma moved_refl: "target_ok r \<Longrightarrow> src = [] \<or> left_places r = [] \<Longrightarrow> moved b 0 src r r"
  by (auto simp: moved_def intro: exI [of _ 0])

lemma moved_trans:
  assumes a: "moved b d src r r1" and b: "moved b e src' r1 r2" and d: "d = length src"
    and disj: "b \<Longrightarrow> set (src @ src') \<inter> set (left_places r) = {}"
  shows "moved b (d + e) (src @ src') r r2"
proof -
  let ?L = "left_places r" and ?m = "rd_bytes r"
  note a' = a [unfolded moved_def] and b' = b [unfolded moved_def]
  have L1: "left_places r1 = drop d ?L" and dl: "d \<le> length ?L" and m1: "b \<Longrightarrow> rd_bytes r1 = put_bytes (take d ?L) (bytes_at ?m src) ?m"
    using a' d by auto
  have e: "e = min (length src') (length ?L - d)" using b' L1 by auto
  have tk: "take (d + e) ?L = take d ?L @ take e (drop d ?L)" "take (d + e) (src @ src') = src @ take e src'"
    by (simp_all add: take_add d)
  have "rd_bytes r2 = put_bytes (take (d + e) ?L) (bytes_at ?m (take (d + e) (src @ src'))) ?m" if b
  proof -
    have "set (take e src') \<inter> set (take d ?L) = {}"
      using disj [OF that] set_take_subset [of e src'] set_take_subset [of d ?L] by auto
    then have "bytes_at (rd_bytes r1) (take e src') = bytes_at ?m (take e src')"
      unfolding m1 [OF that] by (rule bytes_at_put_other)
    then have "rd_bytes r2 = put_bytes (take e (drop d ?L)) (bytes_at ?m (take e src')) (rd_bytes r1)"
      using b' L1 that by simp
    also have "\<dots> = put_bytes (take (d + e) ?L) (bytes_at ?m (take (d + e) (src @ src'))) ?m"
      unfolding tk m1 [OF that] bytes_at_simps by (rule put_bytes_append [symmetric]) (use dl d in simp)
    finally show ?thesis .
  qed
  moreover obtain i j where "rd_tsgs r1 = drop i (rd_tsgs r)" "rd_j r1 = rd_j r + of_nat i" "i \<le> length (rd_tsgs r)"
    "rd_tsgs r2 = drop j (rd_tsgs r1)" "rd_j r2 = rd_j r1 + of_nat j" "j \<le> length (rd_tsgs r1)"
    using a' b' by blast
  then have "\<exists>k \<le> length (rd_tsgs r). rd_tsgs r2 = drop k (rd_tsgs r) \<and> rd_j r2 = rd_j r + of_nat k"
    by (intro exI [of _ "i + j"]) (auto simp: add.commute)
  ultimately show ?thesis using a' b' L1 e d dl by (auto simp: moved_def min_def add.commute)
qed

lemma copy_step:
  assumes r: "target_ok (r\<lparr>rd_tsgs := t # ts\<rparr>)" and copy: "copy = min flen (sg_len t - rd_tsgoff r)"
    and room: "unat (rd_copied r) + unat flen < 2 ^ 32"
    and r1: "r1 = r\<lparr>rd_tsgs := t # ts, rd_tsgoff := rd_tsgoff r + copy, rd_copied := rd_copied r + copy,
      rd_bytes := (if nm then rd_bytes r else memcpy (sg_pg t, unat (sg_offset t + rd_tsgoff r)) (pg, faddr) (unat copy) (rd_bytes r))\<rparr>"
    and nm: "b \<Longrightarrow> \<not> nm"
  shows "unat copy = min (unat flen) (unat (sg_len t) - unat (rd_tsgoff r))"
    and "unat (rd_tsgoff r1) = unat (rd_tsgoff r) + unat copy"
    and "moved b (unat copy) (range_at (pg, faddr) (unat copy)) (r\<lparr>rd_tsgs := t # ts\<rparr>) r1"
proof -
  let ?r = "r\<lparr>rd_tsgs := t # ts\<rparr>" and ?off = "unat (rd_tsgoff r)"
  have off: "?off \<le> unat (sg_len t)" and fit: "unat (sg_offset t) + unat (sg_len t) < 2 ^ 32"
    using r by (simp_all add: target_ok_def)
  show c: "unat copy = min (unat flen) (unat (sg_len t) - ?off)"
    unfolding copy by (simp add: min_unat unat_minus_bounded off)
  have toff: "unat (sg_offset t + rd_tsgoff r) = unat (sg_offset t) + ?off" using off fit by (intro unat_plus_bounded) simp
  have lt: "unat (sg_len t) < 2 ^ 32" using fit by simp
  show o1: "unat (rd_tsgoff r1) = ?off + unat copy"
    using unat_plus_bounded [of "rd_tsgoff r" copy] c off lt by (simp add: r1)
  have cp: "unat (rd_copied r1) = unat (rd_copied r) + unat copy"
    using unat_plus_bounded [of "rd_copied r" copy] c room by (simp add: r1)
  have L: "left_places ?r = range_at (sg_pg t, unat (sg_offset t) + ?off) (unat (sg_len t) - ?off) @ sgl_places ts"
    using off by (simp add: left_places_def places_range drop_range_at)
  have le: "unat copy \<le> unat (sg_len t) - ?off" using c by simp
  have tk: "take (unat copy) (left_places ?r) = range_at (sg_pg t, unat (sg_offset t) + ?off) (unat copy)"
    using le by (simp add: L take_range_at)
  have "left_places r1 = drop (unat copy) (left_places ?r)"
    using o1 off le unfolding left_places_def by (simp add: r1 add.commute)
  moreover have "b \<Longrightarrow> rd_bytes r1 = put_bytes (take (unat copy) (left_places ?r)) (bytes_at (rd_bytes r) (range_at (pg, faddr) (unat copy))) (rd_bytes r)"
    using nm by (simp add: r1 memcpy_put toff tk)
  moreover have "target_ok r1" using r o1 off le by (simp add: target_ok_def r1)
  ultimately show "moved b (unat copy) (range_at (pg, faddr) (unat copy)) ?r r1"
    using cp le by (auto simp: moved_def L r1 intro: exI [of _ 0])
qed

lemma moved_next:
  assumes "target_ok r" and "rd_tsgs r = t # ts" and "rd_tsgoff r = sg_len t"
  shows "moved b 0 [] r (r\<lparr>rd_tsgs := ts, rd_tsgoff := 0, rd_j := rd_j r + 1\<rparr>)"
  using assms by (auto simp: moved_def left_places_def target_ok_def intro!: exI [of _ 1])

lemma range_at_split: "j \<le> n \<Longrightarrow> range_at a j @ range_at (fst a, snd a + j) (n - j) = range_at a n"
  by (metis append_take_drop_id drop_range_at take_range_at)

lemma copy_entry_spec:
  assumes "target_ok (r\<lparr>rd_tsgs := ts\<rparr>)" and "unat (rd_copied r) + unat flen < 2 ^ 32"
    and "b \<Longrightarrow> set (range_at (pg, faddr) (unat flen)) \<inter> set (left_places (r\<lparr>rd_tsgs := ts\<rparr>)) = {}"
    and "copy_entry nm pg faddr flen ts r = (flen', r')" and "b \<Longrightarrow> \<not> nm"
  shows "unat flen' \<le> unat flen \<and> moved b (unat flen - unat flen') (range_at (pg, faddr) (unat flen)) (r\<lparr>rd_tsgs := ts\<rparr>) r' \<and>
    (flen' \<noteq> 0 \<longrightarrow> rd_tsgs r' = [])"
  using assms
proof (induction ts arbitrary: faddr flen r)
  case Nil
  then show ?case by (auto simp: left_places_def intro!: moved_refl)
next
  case (Cons t ts)
  let ?r = "r\<lparr>rd_tsgs := t # ts\<rparr>" and ?src = "range_at (pg, faddr) (unat flen)"
  show ?case
  proof (cases "flen = 0")
    case True
    then show ?thesis using Cons.prems(1,4) by (auto simp: range_at_def intro!: moved_refl)
  next
    case False
    define copy where "copy = min flen (sg_len t - rd_tsgoff r)"
    define r1 where "r1 = r\<lparr>rd_tsgs := t # ts, rd_tsgoff := rd_tsgoff r + copy, rd_copied := rd_copied r + copy,
      rd_bytes := (if nm then rd_bytes r else memcpy (sg_pg t, unat (sg_offset t + rd_tsgoff r)) (pg, faddr) (unat copy) (rd_bytes r))\<rparr>"
    note st = copy_step [OF Cons.prems(1) copy_def Cons.prems(2) r1_def Cons.prems(5)]
    have cf: "unat copy \<le> unat flen" using st(1) by simp
    have src: "?src = range_at (pg, faddr) (unat copy) @ range_at (pg, faddr + unat copy) (unat flen - unat copy)"
      using range_at_split [OF cf, of "(pg, faddr)"] by simp
    have sub: "unat (flen - copy) = unat flen - unat copy" using cf by (rule unat_minus_bounded)
    show ?thesis
    proof (cases "rd_tsgoff r + copy = sg_len t")
      case True
      define r2 where "r2 = r\<lparr>rd_copied := rd_copied r + copy, rd_bytes := rd_bytes r1, rd_tsgoff := 0, rd_j := rd_j r + 1\<rparr>"
      have ok1: "target_ok r1" using st(3) by (simp add: moved_def)
      have "r2\<lparr>rd_tsgs := ts\<rparr> = r1\<lparr>rd_tsgs := ts, rd_tsgoff := 0, rd_j := rd_j r1 + 1\<rparr>"
        by (cases r) (simp add: r2_def r1_def)
      then have n1: "moved b 0 [] r1 (r2\<lparr>rd_tsgs := ts\<rparr>)" using moved_next [OF ok1, of t ts b] True by (simp add: r1_def)
      have "moved b (unat copy + 0) (range_at (pg, faddr) (unat copy) @ []) ?r (r2\<lparr>rd_tsgs := ts\<rparr>)"
        by (rule moved_trans [OF st(3) n1]) (use Cons.prems(3) src in auto)
      then have m2: "moved b (unat copy) (range_at (pg, faddr) (unat copy)) ?r (r2\<lparr>rd_tsgs := ts\<rparr>)" by simp
      have ce: "copy_entry nm pg (faddr + unat copy) (flen - copy) ts r2 = (flen', r')"
        using Cons.prems(4) False True by (cases nm) (simp_all add: Let_def copy_def [symmetric] r1_def r2_def)
      have "set (left_places (r2\<lparr>rd_tsgs := ts\<rparr>)) \<subseteq> set (left_places ?r)"
        using m2 set_drop_subset [of "unat copy" "left_places ?r"] by (simp add: moved_def)
      then have "unat flen' \<le> unat (flen - copy) \<and>
          moved b (unat (flen - copy) - unat flen') (range_at (pg, faddr + unat copy) (unat (flen - copy))) (r2\<lparr>rd_tsgs := ts\<rparr>) r' \<and>
          (flen' \<noteq> 0 \<longrightarrow> rd_tsgs r' = [])"
        using Cons.IH [OF _ _ _ ce Cons.prems(5)] m2 Cons.prems(2,3) src sub cf by (fastforce simp: moved_def)
      then have le: "unat flen' \<le> unat flen - unat copy" and fin: "flen' \<noteq> 0 \<longrightarrow> rd_tsgs r' = []"
        and m3: "moved b (unat flen - unat copy - unat flen') (range_at (pg, faddr + unat copy) (unat flen - unat copy)) (r2\<lparr>rd_tsgs := ts\<rparr>) r'"
        unfolding sub by blast+
      have "unat copy + (unat flen - unat copy - unat flen') = unat flen - unat flen'" "unat flen' \<le> unat flen"
        using le cf by linarith+
      moreover have "moved b (unat copy + (unat flen - unat copy - unat flen')) ?src ?r r'"
        unfolding src by (rule moved_trans [OF m2 m3]) (use Cons.prems(3) src in simp_all)
      ultimately show ?thesis using fin by simp
    next
      case ne: False
      then have "copy = flen" by (auto simp: copy_def min_def split: if_splits)
      moreover have r1': "r1 = r\<lparr>rd_tsgoff := rd_tsgoff r + copy, rd_copied := rd_copied r + copy,
          rd_bytes := (if nm then rd_bytes r else memcpy (sg_pg t, unat (sg_offset t + rd_tsgoff r)) (pg, faddr) (unat copy) (rd_bytes r)),
          rd_tsgs := t # ts\<rparr>"
        by (simp add: r1_def)
      moreover have "flen' = flen - copy" "r' = r1"
        using Cons.prems(4) ne False unfolding r1' by (cases nm; simp add: Let_def copy_def [symmetric])+
      ultimately show ?thesis using st(3) by simp
    qed
  qed
qed

section \<open>The buffers of a queue\<close>

lemma moved_extend:
  assumes "moved b d src r r'" and "left_places r' = []"
  shows "moved b d (src @ src') r r'"
proof -
  have "d = length (left_places r)" "d \<le> length src" using assms by (auto simp: moved_def)
  then show ?thesis using assms by (auto simp: moved_def)
qed

lemma next_idx_mod: "k < length xs \<Longrightarrow> next_idx xs k = Suc k mod length xs"
  by (auto simp: next_idx_def)

lemma slice_Cons: "k < length xs \<Longrightarrow> slice xs k (Suc n) = xs ! k # slice xs (next_idx xs k) n"
  using slice_append [of xs k 1 n] by (simp add: slice_def next_idx_mod)

lemma read_entries_spec:
  assumes "target_ok r" and "unat (rd_copied r) + length (sgl_places (slice sdesc k n)) < 2 ^ 32"
    and "b \<Longrightarrow> set (sgl_places (slice sdesc k n)) \<inter> set (left_places r) = {}"
    and "k < length sdesc" and "unat i + n < 2 ^ 32" and "read_entries nm sdesc n k i r = (i', foff, k', r')"
    and "b \<Longrightarrow> \<not> nm"
  shows "\<exists>q d. q \<le> n \<and> unat i' = unat i + q \<and> k' = (k + q) mod length sdesc \<and>
    moved b d (sgl_places (slice sdesc k n)) r r' \<and>
    drop d (sgl_places (slice sdesc k n)) = drop (unat foff) (sgl_places (slice sdesc k' (n - q))) \<and>
    (foff \<noteq> 0 \<longrightarrow> q < n \<and> unat foff < unat (sg_len (sdesc ! k')))"
  using assms
proof (induction n arbitrary: k i r)
  case 0
  then show ?case by (auto simp: slice_def intro!: exI [of _ 0] moved_refl)
next
  case (Suc n)
  let ?e = "sdesc ! k" and ?k = "next_idx sdesc k"
  let ?src = "places ?e" and ?rest = "sgl_places (slice sdesc ?k n)"
  have sl: "sgl_places (slice sdesc k (Suc n)) = ?src @ ?rest" using Suc.prems(4) by (simp add: slice_Cons)
  show ?case
  proof (cases "rd_tsgs r = []")
    case True
    then have "moved b 0 (?src @ ?rest) r r" using Suc.prems(1) by (auto simp: left_places_def intro!: moved_refl)
    then show ?thesis using True Suc.prems(4,6) by (auto simp: slice_Cons intro!: exI [of _ 0])
  next
    case False
    obtain flen r1 where ce: "copy_entry nm (sg_pg ?e) (unat (sg_offset ?e)) (sg_len ?e) (rd_tsgs r) r = (flen, r1)"
      by fastforce
    have "unat flen \<le> unat (sg_len ?e) \<and> moved b (unat (sg_len ?e) - unat flen) ?src r r1 \<and> (flen \<noteq> 0 \<longrightarrow> rd_tsgs r1 = [])"
      using copy_entry_spec [OF _ _ _ ce Suc.prems(7)] Suc.prems(1-3) unfolding sl places_range by auto
    then have le: "unat flen \<le> unat (sg_len ?e)" and m1: "moved b (unat (sg_len ?e) - unat flen) ?src r r1"
      and fin: "flen \<noteq> 0 \<Longrightarrow> rd_tsgs r1 = []" by blast+
    have sub: "unat (sg_len ?e - flen) = unat (sg_len ?e) - unat flen" using le by (rule unat_minus_bounded)
    show ?thesis
    proof (cases "flen = 0")
      case True
      then have m1': "moved b (length ?src) ?src r r1" using m1 by simp
      have sub1: "set (left_places r1) \<subseteq> set (left_places r)" using m1' set_drop_subset by (fastforce simp: moved_def)
      have c1: "unat (rd_copied r1) = unat (rd_copied r) + length ?src" and t1: "target_ok r1" using m1' by (auto simp: moved_def)
      have i1: "unat (i + 1) = unat i + 1" using Suc.prems(5) unat_plus_bounded [of i 1] by simp
      have re: "read_entries nm sdesc n ?k (i + 1) r1 = (i', foff, k', r')" using Suc.prems(6) False True ce by simp
      have d1: "b \<Longrightarrow> set ?rest \<inter> set (left_places r1) = {}" using Suc.prems(3) sub1 unfolding sl by auto
      have c2: "unat (rd_copied r1) + length ?rest < 2 ^ 32" using c1 Suc.prems(2) unfolding sl by simp
      have k1: "?k < length sdesc" "?k = Suc k mod length sdesc" using Suc.prems(4) by (auto simp: next_idx_def)
      have i2: "unat (i + 1) + n < 2 ^ 32" using Suc.prems(5) i1 by simp
      obtain q d where q: "q \<le> n" "unat i' = unat i + Suc q" "k' = (?k + q) mod length sdesc" "moved b d ?rest r1 r'"
        "drop d ?rest = drop (unat foff) (sgl_places (slice sdesc k' (n - q)))" "foff \<noteq> 0 \<longrightarrow> q < n \<and> unat foff < unat (sg_len (sdesc ! k'))"
        using Suc.IH [OF t1 c2 d1 k1(1) i2 re Suc.prems(7)] unfolding i1 by auto
      have "moved b (length ?src + d) (?src @ ?rest) r r'"
        by (rule moved_trans [OF m1' q(4) refl]) (use Suc.prems(3) sl in simp)
      then show ?thesis using q k1(2) unfolding sl
        by (intro exI [of _ "Suc q"] exI [of _ "length ?src + d"]) (auto simp: mod_simps)
    next
      case ne: False
      then have ts: "rd_tsgs r1 = []" by (rule fin)
      then have ext: "moved b (unat (sg_len ?e) - unat flen) (?src @ ?rest) r r1"
        by (intro moved_extend [OF m1]) (simp add: left_places_def)
      have pos: "0 < unat flen" using ne by (simp add: unat_gt_0)
      then have "sg_len ?e - flen \<noteq> sg_len ?e" using ne by simp
      then have res: "i' = i" "foff = sg_len ?e - flen" "k' = k" "r' = r1"
        using Suc.prems(6) False ce by (auto simp: Let_def)
      show ?thesis using ext res sub pos le Suc.prems(4) sl
        by (intro exI [of _ 0] exI [of _ "unat (sg_len ?e) - unat flen"]) auto
    qed
  qed
qed

end
