(* ===== verification/DescqC2hInv.thy ===== *)
theory DescqC2hInv
  imports DescqC2hRead
begin

text \<open>
  The accounting of the receive buffers of an ST C2H queue.  Seen from a slot \<open>lo\<close> on, the ring has \<open>w\<close>
  buffers that were read and not yet given back, \<open>n\<close> buffers with received data, and free buffers; one
  slot always stays unused.  The predicate \<open>acct\<close> ties the indices, the number of free buffers and the
  number of bytes received to these numbers, and is kept by every operation.
\<close>

section \<open>Slots\<close>

definition in_slots :: "nat \<Rightarrow> nat \<Rightarrow> nat \<Rightarrow> nat \<Rightarrow> bool" where
  "in_slots N p n j \<longleftrightarrow> (\<exists>k < n. j = (p + k) mod N)"

lemma in_slots_0 [simp]: "\<not> in_slots N p 0 j"
  by (simp add: in_slots_def)

lemma in_slots_Suc: "in_slots N p (Suc n) j \<longleftrightarrow> j = p mod N \<or> in_slots N (Suc p) n j"
proof
  assume "in_slots N p (Suc n) j"
  then obtain k where "k < Suc n" "j = (p + k) mod N" by (auto simp: in_slots_def)
  then show "j = p mod N \<or> in_slots N (Suc p) n j" by (cases k) (auto simp: in_slots_def)
next
  assume "j = p mod N \<or> in_slots N (Suc p) n j"
  then show "in_slots N p (Suc n) j"
  proof
    assume "in_slots N (Suc p) n j"
    then obtain k where "k < n" "j = (Suc p + k) mod N" by (auto simp: in_slots_def)
    then show ?thesis unfolding in_slots_def by (intro exI [of _ "Suc k"]) simp
  qed (auto simp: in_slots_def intro: exI [of _ 0])
qed

lemma in_slots_mod: "in_slots N (p mod N) n j = in_slots N p n j"
  by (simp add: in_slots_def mod_simps)

lemma not_in_slots: "n \<le> k \<Longrightarrow> k < N \<Longrightarrow> \<not> in_slots N p n ((p + k) mod N)"
  unfolding in_slots_def using slot_inj [of p k N] by fastforce

lemma slice_eqI:
  assumes "length xs = length ys" and "\<And>k. k < n \<Longrightarrow> xs ! ((p + k) mod length ys) = ys ! ((p + k) mod length ys)"
  shows "slice xs p n = slice ys p n"
  using assms by (simp add: slice_def)

text \<open>The new length of the entries that are given back; nothing else of the entries changes.\<close>

definition relen :: "u32 \<Rightarrow> qdma_sw_sg \<Rightarrow> qdma_sw_sg" where
  "relen n e = e\<lparr>sg_len := n\<rparr>"

definition recycled :: "nat \<Rightarrow> nat \<Rightarrow> c2h_q \<Rightarrow> c2h_q \<Rightarrow> bool" where
  "recycled p n c c' \<longleftrightarrow>
     (\<exists>S I. c' = c\<lparr>cq_flq := (cq_flq c)\<lparr>fq_sdesc := S, fq_sdesc_info := I\<rparr>,
                   cq_q := (cq_q c)\<lparr>dq_avail := dq_avail (cq_q c) + of_nat n\<rparr>\<rparr> \<and>
        length S = length (fq_sdesc (cq_flq c)) \<and> length I = length (fq_sdesc_info (cq_flq c)) \<and>
        (\<forall>j < length S. S ! j = (if in_slots (length S) p n j then relen (cf_c2h_bufsz (conf_of c)) (fq_sdesc (cq_flq c) ! j)
                                  else fq_sdesc (cq_flq c) ! j)))"

lemma recycled_0: "recycled p 0 c c"
  unfolding recycled_def by (intro exI [of _ "fq_sdesc (cq_flq c)"] exI [of _ "fq_sdesc_info (cq_flq c)"]) simp

lemma recycled_step:
  assumes a: "recycled (Suc p) n c1 c2"
    and c1: "c1 = entry_back k (upd_flq (\<lambda>f. f\<lparr>fq_sdesc := (fq_sdesc f)[k := relen (cf_c2h_bufsz (conf_of c)) (fq_sdesc f ! k)]\<rparr>) c)"
    and k: "k = p mod length (fq_sdesc (cq_flq c))"
  shows "recycled p (Suc n) c c2"
proof -
  let ?N = "length (fq_sdesc (cq_flq c))" and ?b = "cf_c2h_bufsz (conf_of c)"
  have f1: "fq_sdesc (cq_flq c1) = (fq_sdesc (cq_flq c))[k := relen ?b (fq_sdesc (cq_flq c) ! k)]"
    "length (fq_sdesc_info (cq_flq c1)) = length (fq_sdesc_info (cq_flq c))" "conf_of c1 = conf_of c"
    by (simp_all add: c1 entry_back_def)
  obtain S I where S: "c2 = c1\<lparr>cq_flq := (cq_flq c1)\<lparr>fq_sdesc := S, fq_sdesc_info := I\<rparr>,
      cq_q := (cq_q c1)\<lparr>dq_avail := dq_avail (cq_q c1) + of_nat n\<rparr>\<rparr>" "length S = ?N" "length I = length (fq_sdesc_info (cq_flq c))"
    "\<forall>j < ?N. S ! j = (if in_slots ?N (Suc p) n j then relen ?b (fq_sdesc (cq_flq c1) ! j) else fq_sdesc (cq_flq c1) ! j)"
    using a unfolding recycled_def f1(2,3) by (auto simp: f1(1))
  have "S ! j = (if in_slots ?N p (Suc n) j then relen ?b (fq_sdesc (cq_flq c) ! j) else fq_sdesc (cq_flq c) ! j)" if "j < ?N" for j
    using S(4) that k unfolding in_slots_Suc f1(1) by (cases "j = k") (auto simp: relen_def)
  moreover have "c2 = c\<lparr>cq_flq := (cq_flq c)\<lparr>fq_sdesc := S, fq_sdesc_info := I\<rparr>,
      cq_q := (cq_q c)\<lparr>dq_avail := dq_avail (cq_q c) + of_nat (Suc n)\<rparr>\<rparr>"
    by (simp add: S(1) c1 entry_back_def add.assoc)
  ultimately show ?thesis using S(2,3) unfolding recycled_def by (intro exI [of _ S] exI [of _ I]) simp
qed

lemma recycled_mod: "recycled (p mod length (fq_sdesc (cq_flq c))) n c c' = recycled p n c c'"
  by (simp add: recycled_def in_slots_mod cong: conj_cong)

lemma refill_loop_recycled:
  assumes "ring_ok (fq_size (cq_flq c))" and "length (fq_sdesc (cq_flq c)) = unat (fq_size (cq_flq c))"
    and "unat idx \<le> unat (fq_size (cq_flq c))" and "refill_loop n True idx i c = (i', c')"
  shows "recycled (unat idx) n c c' \<and> i' = i + of_nat n"
  using assms
proof (induction n arbitrary: idx i c)
  case 0
  then show ?case by (simp add: recycled_0)
next
  case (Suc n)
  let ?N = "fq_size (cq_flq c)"
  define k where "k = (if idx = ?N then 0 else idx)"
  define c1 where "c1 = entry_back (unat k) (upd_flq (\<lambda>f. f\<lparr>fq_sdesc := (fq_sdesc f)[unat k := relen (cf_c2h_bufsz (conf_of c)) (fq_sdesc f ! unat k)]\<rparr>) c)"
  have kN: "unat k < unat ?N" "unat k = unat idx mod unat ?N"
    using Suc.prems(1,3) by (auto simp: k_def ring_ok_def word_unat_eq_iff)
  have k1: "unat (k + 1) = unat k + 1" using kN(1) Suc.prems(1) unat_plus_bounded [of k 1] by (simp add: ring_ok_def)
  have f: "fq_size (cq_flq c1) = ?N" "length (fq_sdesc (cq_flq c1)) = unat ?N" using Suc.prems(2) by (simp_all add: c1_def entry_back_def)
  have "refill_loop n True (k + 1) (i + 1) c1 = (i', c')"
    using Suc.prems(4) by (simp add: Let_def k_def c1_def relen_def)
  then have "recycled (unat (k + 1)) n c1 c' \<and> i' = i + 1 + of_nat n"
    using Suc.IH [of c1 "k + 1" "i + 1"] Suc.prems(1) f kN k1 by simp
  then have "recycled (Suc (unat k)) n c1 c'" and i': "i' = i + of_nat (Suc n)" by (simp_all add: k1 add.assoc)
  then have "recycled (unat k) (Suc n) c c'" using c1_def kN(1) Suc.prems(2) by (intro recycled_step) simp_all
  then show ?case using i' kN(2) Suc.prems(2) recycled_mod [of "unat idx" c "Suc n" c'] by simp
qed

lemma flq_recycle_fields:
  assumes "ring_ok (fq_size (cq_flq c))" and "length (fq_sdesc (cq_flq c)) = unat (fq_size (cq_flq c))"
    and "unat idx < unat (fq_size (cq_flq c))"
  obtains S I where "cq_flq (flq_recycle idx n c) = (cq_flq c)\<lparr>fq_sdesc := S, fq_sdesc_info := I\<rparr>"
    and "length S = length (fq_sdesc (cq_flq c))" and "length I = length (fq_sdesc_info (cq_flq c))"
    and "\<And>j. j < length S \<Longrightarrow> S ! j = (if in_slots (length S) (unat idx) (unat n) j
      then relen (cf_c2h_bufsz (conf_of c)) (fq_sdesc (cq_flq c) ! j) else fq_sdesc (cq_flq c) ! j)"
    and "\<exists>e. flq_recycle idx n c = c\<lparr>cq_flq := (cq_flq c)\<lparr>fq_sdesc := S, fq_sdesc_info := I\<rparr>,
      cq_q := (cq_q c)\<lparr>dq_avail := dq_avail (cq_q c) + n, dq_pend_list_empty := e\<rparr>\<rparr>"
proof -
  obtain i' c' where rl: "refill_loop (unat n) True idx 0 c = (i', c')" by fastforce
  have "recycled (unat idx) (unat n) c c'" using refill_loop_recycled [OF assms(1,2) _ rl] assms(3) by simp
  then obtain S I where c': "c' = c\<lparr>cq_flq := (cq_flq c)\<lparr>fq_sdesc := S, fq_sdesc_info := I\<rparr>,
        cq_q := (cq_q c)\<lparr>dq_avail := dq_avail (cq_q c) + n\<rparr>\<rparr>"
    and l: "length S = length (fq_sdesc (cq_flq c))" "length I = length (fq_sdesc_info (cq_flq c))"
    and s: "\<forall>j < length S. S ! j = (if in_slots (length S) (unat idx) (unat n) j
      then relen (cf_c2h_bufsz (conf_of c)) (fq_sdesc (cq_flq c) ! j) else fq_sdesc (cq_flq c) ! j)"
    by (auto simp: recycled_def)
  have fr: "flq_recycle idx n c = (if dq_work_list (cq_q c') = [] \<and> dq_pend_list (cq_q c') = []
      then c'\<lparr>cq_q := (cq_q c')\<lparr>dq_pend_list_empty := True\<rparr>\<rparr> else c')"
    by (simp add: flq_recycle_def qdma_flq_refill_def rl Let_def)
  have "cq_flq (flq_recycle idx n c) = (cq_flq c)\<lparr>fq_sdesc := S, fq_sdesc_info := I\<rparr>" unfolding fr by (simp add: c')
  moreover have "\<exists>e. flq_recycle idx n c = c\<lparr>cq_flq := (cq_flq c)\<lparr>fq_sdesc := S, fq_sdesc_info := I\<rparr>,
      cq_q := (cq_q c)\<lparr>dq_avail := dq_avail (cq_q c) + n, dq_pend_list_empty := e\<rparr>\<rparr>"
    unfolding fr c' by (cases "dq_work_list (cq_q c) = [] \<and> dq_pend_list (cq_q c) = []")
      (auto intro: exI [of _ True] exI [of _ "dq_pend_list_empty (cq_q c)"])
  ultimately show thesis using that l s by blast
qed

section \<open>The accounting\<close>

definition acct :: "nat \<Rightarrow> nat \<Rightarrow> nat \<Rightarrow> u32 \<Rightarrow> u32 \<Rightarrow> qdma_flq \<Rightarrow> u32 \<Rightarrow> bool" where
  "acct lo w n p b f a \<longleftrightarrow>
     ring_ok (fq_size f) \<and> length (fq_sdesc f) = unat (fq_size f) \<and> length (fq_sdesc_info f) = unat (fq_size f) \<and>
     w + n < unat (fq_size f) \<and> unat (fq_pidx_pend f) = (lo + w) mod unat (fq_size f) \<and>
     unat p = (lo + w + n) mod unat (fq_size f) \<and> unat a = unat (fq_size f) - 1 - (w + n) \<and>
     (\<forall>k \<in> {w + n ..< unat (fq_size f)}. sg_len (fq_sdesc f ! ((lo + k) mod unat (fq_size f))) = b) \<and>
     fq_pkt_dlen f = of_nat (length (sgl_places (slice (fq_sdesc f) ((lo + w) mod unat (fq_size f)) n)))"

definition c2h_acct :: "nat \<Rightarrow> nat \<Rightarrow> nat \<Rightarrow> u32 \<Rightarrow> c2h_q \<Rightarrow> bool" where
  "c2h_acct lo w n p c \<longleftrightarrow>
     cf_rngsz (conf_of c) = fq_size (cq_flq c) \<and> acct lo w n p (cf_c2h_bufsz (conf_of c)) (cq_flq c) (dq_avail (cq_q c))"

lemma delta_slots:
  assumes a: "ring_ok N" "n < unat N" "unat i = x mod unat N" "unat j = (x + n) mod unat N"
  shows "unat (ring_idx_delta j i N) = n"
proof -
  let ?N = "unat N"
  have "unat (ring_idx_delta j i N) = ((x + n) mod ?N + ?N - x mod ?N) mod ?N"
    using a by (simp add: ring_idx_delta_unat ring_ok_def)
  also have "\<dots> = n"
  proof (cases "x mod ?N + n < ?N")
    case True
    have "(x + n) mod ?N = x mod ?N + n" using True by (metis mod_add_left_eq mod_less)
    then show ?thesis using True a by simp
  next
    case False
    have "(x + n) mod ?N = (x mod ?N + n) mod ?N" by (simp add: mod_simps)
    also have "\<dots> = (x mod ?N + n - ?N) mod ?N" using False by (intro le_mod_geq) simp
    also have "\<dots> = x mod ?N + n - ?N"
      using a(1,2) mod_less_divisor [of ?N x] unfolding ring_ok_def by (intro mod_less) linarith
    finally show ?thesis using False a by simp
  qed
  finally show ?thesis .
qed

lemma acct_delta: "acct lo w n p b f a \<Longrightarrow> unat (ring_idx_delta p (fq_pidx_pend f) (fq_size f)) = n"
  by (rule delta_slots [of _ _ _ "lo + w"]) (auto simp: acct_def)

text \<open>A buffer that was read in part.\<close>

lemma slice_head_update:
  assumes "k < length S" and "0 < m" and "m \<le> length S"
  shows "slice (S[k := e]) k m = e # tl (slice S k m)"
proof -
  obtain m' where m: "m = Suc m'" using assms(2) gr0_implies_Suc by blast
  have "slice (S[k := e]) (next_idx S k) m' = slice S (next_idx S k) m'"
  proof (rule slice_eqI)
    fix j assume "j < m'"
    then have "Suc j < length S" "0 < length S" using assms m by linarith+
    then have "(k + Suc j) mod length S \<noteq> (k + 0) mod length S" using slot_inj [of k "Suc j" "length S" 0] by fast
    then have "(next_idx S k + j) mod length S \<noteq> k" using assms(1) by (simp add: next_idx_mod mod_simps)
    then show "S[k := e] ! ((next_idx S k + j) mod length S) = S ! ((next_idx S k + j) mod length S)" by simp
  qed simp
  then show ?thesis using assms(1) m by (simp add: slice_Cons next_idx_def)
qed

lemma advance_places:
  assumes "unat foff \<le> unat (sg_len e)" and "unat (sg_offset e) + unat (sg_len e) < 2 ^ 32"
  shows "places (e\<lparr>sg_offset := sg_offset e + foff, sg_len := sg_len e - foff\<rparr>) = drop (unat foff) (places e)"
  using assms unat_plus_bounded [of "sg_offset e" foff] unat_minus_bounded [of foff "sg_len e"]
  by (simp add: places_range drop_range_at)

definition advanced :: "nat \<Rightarrow> u32 \<Rightarrow> qdma_sw_sg list \<Rightarrow> qdma_sw_sg list" where
  "advanced k foff S = (if foff = 0 then S
     else S[k := (S ! k)\<lparr>sg_offset := sg_offset (S ! k) + foff, sg_len := sg_len (S ! k) - foff\<rparr>])"

lemma length_advanced [simp]: "length (advanced k foff S) = length S"
  by (simp add: advanced_def)

lemma advanced_slice:
  assumes "k < length S" and "m \<le> length S" and "foff \<noteq> 0 \<Longrightarrow> 0 < m \<and> unat foff \<le> unat (sg_len (S ! k))"
  shows "length (sgl_places (slice (advanced k foff S) k m)) = length (sgl_places (slice S k m)) - unat foff"
    and "foff \<noteq> 0 \<Longrightarrow> unat (sg_offset (S ! k)) + unat (sg_len (S ! k)) < 2 ^ 32 \<Longrightarrow>
      sgl_places (slice (advanced k foff S) k m) = drop (unat foff) (sgl_places (slice S k m))"
proof -
  have "slice (advanced k foff S) k m = (S ! k)\<lparr>sg_offset := sg_offset (S ! k) + foff, sg_len := sg_len (S ! k) - foff\<rparr> # tl (slice S k m)"
    "slice S k m = S ! k # tl (slice S k m)" if "foff \<noteq> 0"
    using that assms slice_head_update [OF assms(1) _ assms(2)] slice_Cons [OF assms(1), of "m - 1"] by (auto simp: advanced_def)
  note e = this
  show "length (sgl_places (slice (advanced k foff S) k m)) = length (sgl_places (slice S k m)) - unat foff"
  proof (cases "foff = 0")
    case False
    have "length (sgl_places (slice S k m)) = unat (sg_len (S ! k)) + length (sgl_places (tl (slice S k m)))"
      by (subst e(2) [OF False]) simp
    then show ?thesis using assms(3) [OF False] by (simp add: e(1) [OF False] unat_minus_bounded)
  qed (simp add: advanced_def)
  show "sgl_places (slice (advanced k foff S) k m) = drop (unat foff) (sgl_places (slice S k m))"
    if "foff \<noteq> 0" "unat (sg_offset (S ! k)) + unat (sg_len (S ! k)) < 2 ^ 32"
    using assms(3) [OF that(1)] that by (subst e(2) [OF that(1)]) (simp add: e(1) [OF that(1)] advance_places)
qed

text \<open>The entries that wait, after the first \<open>foff\<close> bytes of the first one were taken.\<close>

definition head_taken :: "u32 \<Rightarrow> qdma_sw_sg list \<Rightarrow> qdma_sw_sg list" where
  "head_taken foff es = (case es of [] \<Rightarrow> []
     | e # es \<Rightarrow> e\<lparr>sg_offset := sg_offset e + foff, sg_len := sg_len e - foff\<rparr> # es)"

lemma head_taken_0 [simp]: "head_taken 0 es = es"
  by (simp add: head_taken_def split: list.split)

lemma advanced_head:
  assumes "k < length S" and "m \<le> length S" and "foff \<noteq> 0 \<Longrightarrow> 0 < m"
  shows "slice (advanced k foff S) k m = head_taken foff (slice S k m)"
proof (cases "foff = 0")
  case False
  let ?e = "(S ! k)\<lparr>sg_offset := sg_offset (S ! k) + foff, sg_len := sg_len (S ! k) - foff\<rparr>"
  have m: "0 < m" using assms(3) [OF False] .
  then obtain m' where "m = Suc m'" using gr0_conv_Suc by blast
  then have "slice S k m = S ! k # slice S (next_idx S k) m'" using slice_Cons [OF assms(1)] by simp
  moreover have "slice (advanced k foff S) k m = ?e # tl (slice S k m)"
    using slice_head_update [OF assms(1) m assms(2), of ?e] False by (simp only: advanced_def if_False)
  ultimately show ?thesis by (simp add: head_taken_def)
qed (simp add: advanced_def)

text \<open>A read of \<open>q\<close> whole buffers and \<open>foff\<close> bytes of the next, without and with giving the buffers back.\<close>

lemma acct_remaining:
  assumes a: "acct lo w n p b f a" and q: "q \<le> n" "foff \<noteq> 0 \<longrightarrow> q < n \<and> unat foff < unat (sg_len (fq_sdesc f ! ((lo + w + q) mod unat (fq_size f))))"
    and S: "length S = unat (fq_size f)"
      "\<And>k. w + q \<le> k \<Longrightarrow> k < unat (fq_size f) \<Longrightarrow> S ! ((lo + k) mod unat (fq_size f)) = fq_sdesc f ! ((lo + k) mod unat (fq_size f))"
    and d: "length (sgl_places (slice (fq_sdesc f) ((lo + w) mod unat (fq_size f)) n)) - d =
      length (sgl_places (slice (fq_sdesc f) ((lo + w + q) mod unat (fq_size f)) (n - q))) - unat foff"
      "d \<le> length (sgl_places (slice (fq_sdesc f) ((lo + w) mod unat (fq_size f)) n))"
    and f': "f' = f\<lparr>fq_sdesc := advanced ((lo + w + q) mod unat (fq_size f)) foff S, fq_sdesc_info := I,
        fq_pidx_pend := ring_idx_incr (fq_pidx_pend f) (of_nat q) (fq_size f), fq_pkt_dlen := fq_pkt_dlen f - of_nat d\<rparr>"
    and I: "length I = unat (fq_size f)"
  shows "acct lo (w + q) (n - q) p b f' a"
    and "w = 0 \<Longrightarrow> (\<And>k. k < q \<Longrightarrow> sg_len (S ! ((lo + k) mod unat (fq_size f))) = b) \<Longrightarrow>
      acct ((lo + q) mod unat (fq_size f)) 0 (n - q) p b f' (a + of_nat q)"
proof -
  let ?N = "unat (fq_size f)" and ?k = "(lo + w + q) mod unat (fq_size f)"
  note a' = a [unfolded acct_def]
  have N: "0 < ?N" "w + n < ?N" "?N < 2 ^ 31" using a' by (auto simp: ring_ok_def)
  have uq: "unat (of_nat q :: u32) = q" using q(1) N by (simp add: unat_of_nat take_bit_nat_eq_self)
  have pend: "unat (fq_pidx_pend f') = ?k"
    using a' uq q(1) N by (simp add: f' ring_idx_incr_unat mod_simps)
  have kS: "?k < length S" using N(1) S(1) by simp
  have same: "slice S ?k (n - q) = slice (fq_sdesc f) ?k (n - q)"
    using S(2) [of "w + q + _"] S(1) a' q(1) N by (intro slice_eqI) (auto simp: mod_simps add.assoc)
  have hd_same: "S ! ?k = fq_sdesc f ! ?k" using S(2) [of "w + q"] q(1) N by (simp add: add.assoc)
  have len: "length (sgl_places (slice (advanced ?k foff S) ?k (n - q))) = length (sgl_places (slice S ?k (n - q))) - unat foff"
    using q N S(1) hd_same by (intro advanced_slice(1) [OF kS]) auto
  have dlen: "fq_pkt_dlen f' = of_nat (length (sgl_places (slice (fq_sdesc f') ?k (n - q))))"
    using a' d len same by (simp add: f' of_nat_diff flip: d(1))
  have free: "sg_len (fq_sdesc f' ! ((lo + k) mod ?N)) = b" if "w + n \<le> k" "k < ?N" for k
  proof -
    have "(lo + k) mod ?N \<noteq> ?k \<or> foff = 0" using slot_inj [of lo k ?N "w + q"] that q N by (auto simp: add.assoc)
    then show ?thesis using a' that q(1) S(2) [of k] by (auto simp: f' advanced_def)
  qed
  show "acct lo (w + q) (n - q) p b f' a"
    unfolding acct_def using a' q(1) pend dlen free S(1) I by (auto simp: f' add.assoc)
  show "acct ((lo + q) mod ?N) 0 (n - q) p b f' (a + of_nat q)"
    if w: "w = 0" and rec: "\<And>k. k < q \<Longrightarrow> sg_len (S ! ((lo + k) mod ?N)) = b"
  proof -
    have av: "unat (a + of_nat q) = ?N - 1 - (n - q)"
      using a' w q(1) N uq by (subst unat_plus_bounded) simp_all
    have free': "sg_len (fq_sdesc f' ! (((lo + q) mod ?N + k) mod ?N)) = b" if "n - q \<le> k" "k < ?N" for k
    proof (cases "q + k < ?N")
      case True
      then show ?thesis using free [of "q + k"] that w q(1) by (simp add: mod_simps add.assoc)
    next
      case False
      define j where "j = q + k - ?N"
      have j: "j < q" "j < ?N" "lo + q + k = lo + j + ?N" using False that q(1) N by (auto simp: j_def)
      have "((lo + q) mod ?N + k) mod ?N = (lo + q + k) mod ?N" by (simp add: mod_simps)
      then have eq: "((lo + q) mod ?N + k) mod ?N = (lo + j) mod ?N" unfolding j(3) by simp
      have "(lo + j) mod ?N \<noteq> ?k \<or> foff = 0" using slot_inj [of lo j ?N q] j q N w by auto
      then show ?thesis using rec [OF j(1)] unfolding eq by (auto simp: f' advanced_def)
    qed
    have pp: "((lo + q) mod ?N + (n - q)) mod ?N = (lo + n) mod ?N" "((lo + q) mod ?N + 0) mod ?N = (lo + q) mod ?N"
      using mod_add_left_eq [of "lo + q" ?N "n - q"] q(1) by simp_all
    show ?thesis unfolding acct_def using a' q(1) w pend dlen av free' S(1) I N pp by (simp add: f')
  qed
qed

section \<open>A read\<close>

text \<open>The slots that a read of \<open>i\<close> buffers leaves: with \<open>refill\<close> the buffers have their full length again.\<close>

definition given_back :: "bool \<Rightarrow> nat \<Rightarrow> nat \<Rightarrow> u32 \<Rightarrow> qdma_sw_sg list \<Rightarrow> qdma_sw_sg list \<Rightarrow> bool" where
  "given_back refill p i b S S' \<longleftrightarrow>
     length S' = length S \<and>
     (\<forall>j < length S. S' ! j = (if refill \<and> in_slots (length S) p i j then relen b (S ! j) else S ! j))"

lemma given_back_no: "given_back False p i b S S' \<longleftrightarrow> S' = S"
  by (auto simp: given_back_def intro: nth_equalityI)

lemma given_back_0: "given_back refill p 0 b S S"
  by (simp add: given_back_def)

lemma recycle_given_back:
  assumes "ring_ok (fq_size (cq_flq c))" and "length (fq_sdesc (cq_flq c)) = unat (fq_size (cq_flq c))"
    and "unat idx < unat (fq_size (cq_flq c))"
  obtains S I e where "(if refill \<and> i \<noteq> 0 then flq_recycle idx i c else c) =
      c\<lparr>cq_flq := (cq_flq c)\<lparr>fq_sdesc := S, fq_sdesc_info := I\<rparr>,
        cq_q := (cq_q c)\<lparr>dq_avail := dq_avail (cq_q c) + (if refill then i else 0), dq_pend_list_empty := e\<rparr>\<rparr>"
    and "given_back refill (unat idx) (unat i) (cf_c2h_bufsz (conf_of c)) (fq_sdesc (cq_flq c)) S"
    and "length I = length (fq_sdesc_info (cq_flq c))"
proof (cases "refill \<and> i \<noteq> 0")
  case True
  let ?b = "cf_c2h_bufsz (conf_of c)"
  obtain S I where l: "length S = length (fq_sdesc (cq_flq c))" "length I = length (fq_sdesc_info (cq_flq c))"
    "\<And>j. j < length S \<Longrightarrow> S ! j = (if in_slots (length S) (unat idx) (unat i) j
      then relen ?b (fq_sdesc (cq_flq c) ! j) else fq_sdesc (cq_flq c) ! j)"
    and e: "\<exists>e. flq_recycle idx i c = c\<lparr>cq_flq := (cq_flq c)\<lparr>fq_sdesc := S, fq_sdesc_info := I\<rparr>,
      cq_q := (cq_q c)\<lparr>dq_avail := dq_avail (cq_q c) + i, dq_pend_list_empty := e\<rparr>\<rparr>"
    by (rule flq_recycle_fields [OF assms]) blast
  obtain e where e: "flq_recycle idx i c = c\<lparr>cq_flq := (cq_flq c)\<lparr>fq_sdesc := S, fq_sdesc_info := I\<rparr>,
      cq_q := (cq_q c)\<lparr>dq_avail := dq_avail (cq_q c) + i, dq_pend_list_empty := e\<rparr>\<rparr>" using e by blast
  have "given_back refill (unat idx) (unat i) ?b (fq_sdesc (cq_flq c)) S" using l(1,3) True by (simp add: given_back_def)
  then show thesis by (intro that [where S = S and I = I and e = e]) (simp_all only: e True if_True l simp_thms)
next
  case False
  let ?S = "fq_sdesc (cq_flq c)" and ?I = "fq_sdesc_info (cq_flq c)"
  have g: "given_back refill (unat idx) (unat i) (cf_c2h_bufsz (conf_of c)) ?S ?S"
    using False given_back_0 [of refill "unat idx"] by (cases refill) (simp_all add: given_back_no)
  have "(if refill \<and> i \<noteq> 0 then flq_recycle idx i c else c) = c\<lparr>cq_flq := (cq_flq c)\<lparr>fq_sdesc := ?S, fq_sdesc_info := ?I\<rparr>,
        cq_q := (cq_q c)\<lparr>dq_avail := dq_avail (cq_q c) + (if refill then i else 0), dq_pend_list_empty := dq_pend_list_empty (cq_q c)\<rparr>\<rparr>"
    using False by (cases refill) simp_all
  then show thesis by (rule that [OF _ g refl])
qed

lemma read_fields:
  assumes f: "f = cq_flq c" "ring_ok (fq_size f)" "length (fq_sdesc f) = unat (fq_size f)" "unat (fq_pidx_pend f) < unat (fq_size f)"
    and n: "ring_idx_delta (dq_pidx (cq_q c)) (fq_pidx_pend f) (fq_size f) \<noteq> 0"
    and idx: "cb_sg_idx req = 0 \<or> unat (cb_sg_idx req) < length (rq_sgl req)"
    and upd: "update_pidx \<Longrightarrow> \<forall>c s. 0 \<le> fst (c2h_pidx_update dev c s)"
    and re: "read_entries (rq_no_memcpy req) (fq_sdesc f) (unat (ring_idx_delta (dq_pidx (cq_q c)) (fq_pidx_pend f) (fq_size f)))
      (unat (fq_pidx_pend f)) 0 (read_start req (cq_bytes c)) = (i, foff, k, r)"
    and rd: "descq_st_c2h_read dev update_pidx refill req c s = (rv, req', c', s')"
  obtains S I where "cq_flq c' = f\<lparr>fq_sdesc := advanced k foff S, fq_sdesc_info := I,
      fq_pidx_pend := ring_idx_incr (fq_pidx_pend f) i (fq_size f), fq_pkt_dlen := fq_pkt_dlen f - rd_copied r\<rparr>"
    and "given_back refill (unat (fq_pidx_pend f)) (unat i) (cf_c2h_bufsz (conf_of c)) (fq_sdesc f) S"
    and "length I = length (fq_sdesc_info f)" and "dq_avail (cq_q c') = dq_avail (cq_q c) + (if refill then i else 0)"
    and "dq_pidx (cq_q c') = dq_pidx (cq_q c)" and "conf_of c' = conf_of c" and "cq_bytes c' = rd_bytes r"
    and "dq_pend_list (cq_q c') = dq_pend_list (cq_q c)" and "cq_err c' = cq_err c" and "rv = sint (rd_copied r)"
    and "req' = req\<lparr>cb_sg_idx := rd_j r, cb_sg_offset := rd_tsgoff r, cb_left := cb_left req - rd_copied r\<rparr>"
    and "dq_desc (cq_q c') = dq_desc (cq_q c)"
proof -
  define c1 where "c1 = upd_q (incr_cmpl_desc_cnt i) (c\<lparr>cq_bytes := rd_bytes r\<rparr>)"
  have c1: "cq_flq c1 = f" "conf_of c1 = conf_of c" "dq_avail (cq_q c1) = dq_avail (cq_q c)" "dq_pidx (cq_q c1) = dq_pidx (cq_q c)"
    "cq_bytes c1 = rd_bytes r" "dq_pend_list (cq_q c1) = dq_pend_list (cq_q c)" "cq_err c1 = cq_err c" "dq_desc (cq_q c1) = dq_desc (cq_q c)"
    by (simp_all add: c1_def f(1))
  define c2 where "c2 = (if refill \<and> i \<noteq> 0 then flq_recycle (fq_pidx_pend f) i c1 else c1)"
  obtain S I e where c2: "c2 = c1\<lparr>cq_flq := f\<lparr>fq_sdesc := S, fq_sdesc_info := I\<rparr>,
        cq_q := (cq_q c1)\<lparr>dq_avail := dq_avail (cq_q c) + (if refill then i else 0), dq_pend_list_empty := e\<rparr>\<rparr>"
    and S: "given_back refill (unat (fq_pidx_pend f)) (unat i) (cf_c2h_bufsz (conf_of c)) (fq_sdesc f) S"
    and I: "length I = length (fq_sdesc_info f)"
    using recycle_given_back [of c1 "fq_pidx_pend f" refill i] f(2-4) unfolding c1 c2_def by metis
  define c3 where "c3 = upd_flq (\<lambda>g. g\<lparr>fq_pidx_pend := ring_idx_incr (fq_pidx_pend g) i (fq_size g)\<rparr>) c2"
  define c4 where "c4 = (if foff \<noteq> 0 then upd_flq (advance_entry k foff) c3 else c3)"
  define c5 where "c5 = (if i \<noteq> 0 \<and> update_pidx then last_free c4 else c4)"
  define us where "us = (if i \<noteq> 0 \<and> update_pidx then c2h_pidx_update dev c5 s else (0, s))"
  have idx': "(cb_sg_idx req \<noteq> 0 \<and> length (rq_sgl req) \<le> unat (cb_sg_idx req)) = False" using idx by auto
  have us: "\<not> fst us < 0" using upd by (auto simp: us_def not_less)
  have "descq_st_c2h_read dev update_pidx refill req c s = (case us of (rv, s) \<Rightarrow> if rv < 0 then (- EINVAL, req, c5, s)
      else (sint (rd_copied r), req\<lparr>cb_sg_idx := rd_j r, cb_sg_offset := rd_tsgoff r, cb_left := cb_left req - rd_copied r\<rparr>,
        upd_flq (\<lambda>g. g\<lparr>fq_pkt_dlen := fq_pkt_dlen g - rd_copied r\<rparr>) c5, s))"
    unfolding descq_st_c2h_read_def
    by (simp only: f(1) [symmetric] n idx' if_False re prod.case Let_def c1_def [symmetric] c2_def [symmetric] c3_def [symmetric]
      c4_def [symmetric] c5_def [symmetric] us_def [symmetric] cong: let_weak_cong)
  then have eq: "rv = sint (rd_copied r)" "c' = upd_flq (\<lambda>g. g\<lparr>fq_pkt_dlen := fq_pkt_dlen g - rd_copied r\<rparr>) c5"
    "req' = req\<lparr>cb_sg_idx := rd_j r, cb_sg_offset := rd_tsgoff r, cb_left := cb_left req - rd_copied r\<rparr>"
    using us rd by (cases us; simp)+
  have c4: "cq_flq c4 = f\<lparr>fq_sdesc := advanced k foff S, fq_sdesc_info := I, fq_pidx_pend := ring_idx_incr (fq_pidx_pend f) i (fq_size f)\<rparr>"
    by (simp add: c4_def c3_def c2 advanced_def advance_entry_def)
  have c4': "dq_avail (cq_q c4) = dq_avail (cq_q c) + (if refill then i else 0)" "dq_pidx (cq_q c4) = dq_pidx (cq_q c)"
    "conf_of c4 = conf_of c" "cq_bytes c4 = rd_bytes r" "dq_pend_list (cq_q c4) = dq_pend_list (cq_q c)" "cq_err c4 = cq_err c"
    "dq_desc (cq_q c4) = dq_desc (cq_q c)" using c1 by (simp_all add: c4_def c3_def c2)
  have c5: "cq_flq c5 = cq_flq c4" "dq_avail (cq_q c5) = dq_avail (cq_q c4)" "dq_pidx (cq_q c5) = dq_pidx (cq_q c4)"
    "conf_of c5 = conf_of c4" "cq_bytes c5 = cq_bytes c4" "dq_pend_list (cq_q c5) = dq_pend_list (cq_q c4)" "cq_err c5 = cq_err c4"
    "dq_desc (cq_q c5) = dq_desc (cq_q c4)" by (simp_all add: c5_def last_free_def)
  show thesis by (rule that [OF _ S I]) (simp_all add: eq c5 c4 c4')
qed

text \<open>What a queue holds for the reader, and what a request has left to fill.\<close>

definition pending :: "c2h_q \<Rightarrow> qdma_sw_sg list" where
  "pending c = slice (fq_sdesc (cq_flq c)) (unat (fq_pidx_pend (cq_flq c)))
     (unat (ring_idx_delta (dq_pidx (cq_q c)) (fq_pidx_pend (cq_flq c)) (fq_size (cq_flq c))))"

definition req_places :: "qdma_request \<Rightarrow> (nat option \<times> nat) list" where
  "req_places req = drop (unat (cb_sg_offset req)) (sgl_places (drop (unat (cb_sg_idx req)) (rq_sgl req)))"

definition req_wf :: "qdma_request \<Rightarrow> bool" where
  "req_wf req \<longleftrightarrow> length (rq_sgl req) < 2 ^ 32 \<and> target_ok (read_start req (\<lambda>_ _. 0))"

lemma target_ok_start: "target_ok (read_start req m) = target_ok (read_start req m')"
  by (simp add: target_ok_def read_start_def)

lemma read_start_simps [simp]:
  "left_places (read_start req m) = req_places req" "rd_copied (read_start req m) = 0" "rd_bytes (read_start req m) = m"
  by (simp_all add: left_places_def read_start_def req_places_def)

definition lens_ok :: "u32 \<Rightarrow> qdma_sw_sg list \<Rightarrow> bool" where
  "lens_ok b S \<longleftrightarrow> (\<forall>e \<in> set S. unat (sg_len e) \<le> unat b)"

lemma lens_ok_nth: "lens_ok b S \<longleftrightarrow> (\<forall>j < length S. unat (sg_len (S ! j)) \<le> unat b)"
  by (simp add: lens_ok_def all_set_conv_all_nth)

lemma lens_ok_given_back: "lens_ok b S \<Longrightarrow> given_back refill p i b S S' \<Longrightarrow> lens_ok b S'"
  by (auto simp: lens_ok_nth given_back_def relen_def)

lemma lens_ok_advanced: "lens_ok b S \<Longrightarrow> unat foff \<le> unat (sg_len (S ! k)) \<Longrightarrow> lens_ok b (advanced k foff S)"
proof -
  assume a: "lens_ok b S" "unat foff \<le> unat (sg_len (S ! k))"
  have "unat (sg_len (advanced k foff S ! j)) \<le> unat (sg_len (S ! j))" if "j < length S" for j
    using a(2) that by (cases "j = k") (simp_all add: advanced_def unat_minus_bounded)
  then show ?thesis using a(1) by (fastforce simp: lens_ok_nth)
qed

lemma length_sgl_places_le: "lens_ok b S \<Longrightarrow> length (sgl_places S) \<le> length S * unat b"
  by (induction S) (auto simp: lens_ok_def)

lemma lens_ok_slice: "lens_ok b S \<Longrightarrow> 0 < length S \<Longrightarrow> lens_ok b (slice S p n)"
  by (auto simp: lens_ok_nth slice_def)

lemma pending_acct: "c2h_acct lo w n (dq_pidx (cq_q c)) c \<Longrightarrow>
    pending c = slice (fq_sdesc (cq_flq c)) ((lo + w) mod unat (fq_size (cq_flq c))) n"
  unfolding pending_def by (auto simp: c2h_acct_def acct_delta) (simp add: acct_def)

text \<open>The request after a read.\<close>

definition req_after :: "read_st \<Rightarrow> qdma_request \<Rightarrow> qdma_request" where
  "req_after r req = req\<lparr>cb_sg_idx := rd_j r, cb_sg_offset := rd_tsgoff r, cb_left := cb_left req - rd_copied r\<rparr>"

lemma req_after_places:
  assumes wf: "req_wf req" and m: "moved b d src (read_start req m) r"
    and idx: "unat (cb_sg_idx req) \<le> length (rq_sgl req)"
  shows "req_places (req_after r req) = left_places r" and "req_wf (req_after r req)"
proof -
  obtain j where j: "j \<le> length (rq_sgl req) - unat (cb_sg_idx req)" "rd_tsgs r = drop j (drop (unat (cb_sg_idx req)) (rq_sgl req))"
    "rd_j r = cb_sg_idx req + of_nat j" and ok: "target_ok r"
    using m unfolding moved_def by (auto simp: read_start_def)
  have l: "length (rq_sgl req) < 2 ^ 32" using wf by (simp add: req_wf_def)
  then have "unat (of_nat j :: u32) = j" using j(1) by (simp add: unat_of_nat take_bit_nat_eq_self)
  then have "unat (rd_j r) = unat (cb_sg_idx req) + j" using unat_plus_bounded [of "cb_sg_idx req" "of_nat j"] l j(1,3) idx by simp
  then have ts: "drop (unat (rd_j r)) (rq_sgl req) = rd_tsgs r" by (simp add: j(2) add.commute)
  show "req_places (req_after r req) = left_places r" by (simp add: req_places_def left_places_def req_after_def ts)
  show "req_wf (req_after r req)" using l ok by (simp add: req_wf_def req_after_def target_ok_def read_start_def ts)
qed

text \<open>What a read that finished \<open>q\<close> buffers leaves: the remaining entries, the first of them possibly read in part, in
  their slots, with the same descriptors.\<close>

definition read_leaves :: "nat \<Rightarrow> c2h_q \<Rightarrow> c2h_q \<Rightarrow> bool" where
  "read_leaves q c c' \<longleftrightarrow> q \<le> length (pending c) \<and> dq_desc (cq_q c') = dq_desc (cq_q c) \<and> fq_size (cq_flq c') = fq_size (cq_flq c) \<and>
     unat (fq_pidx_pend (cq_flq c')) = (unat (fq_pidx_pend (cq_flq c)) + q) mod unat (fq_size (cq_flq c)) \<and>
     (\<exists>foff. pending c' = head_taken foff (drop q (pending c)) \<and> (foff \<noteq> 0 \<longrightarrow> unat foff \<le> unat (sg_len (hd (drop q (pending c))))))"

lemma read_core:
  assumes a: "c2h_acct lo w n (dq_pidx (cq_q c)) c" and n: "n \<noteq> 0" and wf: "req_wf req"
    and idx: "cb_sg_idx req = 0 \<or> unat (cb_sg_idx req) < length (rq_sgl req)"
    and upd: "update_pidx \<Longrightarrow> \<forall>c s. 0 \<le> fst (c2h_pidx_update dev c s)" and w: "refill \<Longrightarrow> w = 0"
    and room: "length (sgl_places (pending c)) < 2 ^ 31"
    and b: "b \<Longrightarrow> \<not> rq_no_memcpy req \<and> set (sgl_places (pending c)) \<inter> set (req_places req) = {}"
    and rd: "descq_st_c2h_read dev update_pidx refill req c s = (rv, req', c', s')"
  obtains q d r lo' w' where "q \<le> n" and "moved b d (sgl_places (pending c)) (read_start req (cq_bytes c)) r"
    and "req' = req_after r req" and "rv = int d" and "rd_copied r = of_nat d" and "cq_bytes c' = rd_bytes r"
    and "conf_of c' = conf_of c" and "dq_pidx (cq_q c') = dq_pidx (cq_q c)"
    and "dq_pend_list (cq_q c') = dq_pend_list (cq_q c)" and "cq_err c' = cq_err c" and "fq_desc_pg_shift (cq_flq c') = fq_desc_pg_shift (cq_flq c)"
    and "c2h_acct lo' w' (n - q) (dq_pidx (cq_q c')) c'" and "if refill then w' = 0 else lo' = lo \<and> w' = w + q"
    and "lens_ok (cf_c2h_bufsz (conf_of c)) (fq_sdesc (cq_flq c)) \<Longrightarrow> lens_ok (cf_c2h_bufsz (conf_of c)) (fq_sdesc (cq_flq c'))"
    and "\<forall>e \<in> set (pending c). unat (sg_offset e) + unat (sg_len e) < 2 ^ 32 \<Longrightarrow> sgl_places (pending c') = drop d (sgl_places (pending c))"
    and "read_leaves q c c'"
proof -
  let ?f = "cq_flq c" and ?b = "cf_c2h_bufsz (conf_of c)"
  let ?N = "unat (fq_size ?f)" and ?S = "fq_sdesc ?f" and ?k = "(lo + w) mod unat (fq_size (cq_flq c))" and ?p = "dq_pidx (cq_q c)"
  have acc: "acct lo w n ?p ?b ?f (dq_avail (cq_q c))" and rs: "cf_rngsz (conf_of c) = fq_size ?f" using a by (simp_all add: c2h_acct_def)
  note ad = acc [unfolded acct_def]
  have N: "ring_ok (fq_size ?f)" "length ?S = ?N" "unat (fq_pidx_pend ?f) = ?k" "?k < ?N" "0 < ?N" "w + n < ?N" "?N < 2 ^ 31"
    using ad by (auto simp: ring_ok_def)
  have dl: "unat (ring_idx_delta ?p (fq_pidx_pend ?f) (fq_size ?f)) = n" using acc by (rule acct_delta)
  have pe: "pending c = slice ?S ?k n" using a by (rule pending_acct)
  obtain i foff k r where re: "read_entries (rq_no_memcpy req) ?S n ?k 0 (read_start req (cq_bytes c)) = (i, foff, k, r)"
    using prod_cases4 by blast
  have "\<exists>q d. q \<le> n \<and> unat i = unat (0::u32) + q \<and> k = (?k + q) mod length ?S \<and> moved b d (sgl_places (slice ?S ?k n)) (read_start req (cq_bytes c)) r \<and>
    drop d (sgl_places (slice ?S ?k n)) = drop (unat foff) (sgl_places (slice ?S k (n - q))) \<and>
    (foff \<noteq> 0 \<longrightarrow> q < n \<and> unat foff < unat (sg_len (?S ! k)))"
    using wf room b N unfolding req_wf_def pe
    by (intro read_entries_spec [OF _ _ _ _ _ re]) (auto simp: target_ok_start [of req "cq_bytes c" "\<lambda>_ _. 0"])
  then obtain q d where q: "q \<le> n" "unat i = q" and k: "k = (lo + w + q) mod ?N" and m: "moved b d (sgl_places (slice ?S ?k n)) (read_start req (cq_bytes c)) r"
    and rest: "drop d (sgl_places (slice ?S ?k n)) = drop (unat foff) (sgl_places (slice ?S k (n - q)))"
    and fo: "foff \<noteq> 0 \<longrightarrow> q < n \<and> unat foff < unat (sg_len (?S ! k))"
    using N(2) by (auto simp: mod_simps)
  have i: "i = of_nat q" using q(2) by (metis of_nat_unat ucast_id)
  have d: "d \<le> length (sgl_places (slice ?S ?k n))" "d < 2 ^ 31" "unat (rd_copied r) = d" using m room by (auto simp: moved_def pe read_start_def)
  have cp: "rd_copied r = of_nat d" using d(3) by (metis of_nat_unat ucast_id)
  have nz: "ring_idx_delta ?p (fq_pidx_pend ?f) (fq_size ?f) \<noteq> 0" using n dl by auto
  obtain S I where f': "cq_flq c' = ?f\<lparr>fq_sdesc := advanced k foff S, fq_sdesc_info := I,
      fq_pidx_pend := ring_idx_incr (fq_pidx_pend ?f) i (fq_size ?f), fq_pkt_dlen := fq_pkt_dlen ?f - rd_copied r\<rparr>"
    and S: "given_back refill ?k (unat i) ?b ?S S" and I: "length I = length (fq_sdesc_info ?f)"
    and av: "dq_avail (cq_q c') = dq_avail (cq_q c) + (if refill then i else 0)"
    and o: "dq_pidx (cq_q c') = ?p" "conf_of c' = conf_of c" "cq_bytes c' = rd_bytes r" "rv = sint (rd_copied r)" "req' = req_after r req"
      "dq_pend_list (cq_q c') = dq_pend_list (cq_q c)" "cq_err c' = cq_err c" and dd0: "dq_desc (cq_q c') = dq_desc (cq_q c)"
    unfolding req_after_def
    using read_fields [OF refl N(1,2) _ nz idx upd _ rd] re N(3,4) dl by metis
  have Sl: "length S = ?N" using S N(2) by (simp add: given_back_def)
  have keep: "S ! ((lo + j) mod ?N) = ?S ! ((lo + j) mod ?N)" if "w + q \<le> j" "j < ?N" for j
    using S N(2,5) that w not_in_slots [of q "j" ?N lo] by (auto simp: given_back_def q(2) in_slots_mod)
  have ret: "sg_len (S ! ((lo + j) mod ?N)) = ?b" if refill "j < q" for j
    using S N(2,5) that w by (auto simp: given_back_def q(2) relen_def in_slots_def mod_simps)
  have dd: "length (sgl_places (slice ?S ?k n)) - d = length (sgl_places (slice ?S k (n - q))) - unat foff"
    using arg_cong [OF rest, of length] by simp
  note f'' = f' [unfolded i cp k] and dd' = dd [unfolded k] and fo' = fo [unfolded k]
  have Il: "length I = ?N" using I ad by simp
  have "\<exists>lo' w'. acct lo' w' (n - q) ?p ?b (cq_flq c') (dq_avail (cq_q c')) \<and> (if refill then w' = 0 else lo' = lo \<and> w' = w + q)"
  proof (cases refill)
    case True
    then show ?thesis
      using acct_remaining(2) [OF acc q(1) fo' Sl keep dd' d(1) f'' Il w [OF True] ret] av by (auto simp: i)
  next
    case False
    then show ?thesis using acct_remaining(1) [OF acc q(1) fo' Sl keep dd' d(1) f'' Il] av by auto
  qed
  then obtain lo' w' where acc': "acct lo' w' (n - q) ?p ?b (cq_flq c') (dq_avail (cq_q c'))"
    and lw: "if refill then w' = 0 else lo' = lo \<and> w' = w + q" by blast
  then have a': "c2h_acct lo' w' (n - q) (dq_pidx (cq_q c')) c'" using rs o(1,2) by (simp add: c2h_acct_def f')
  have kS: "k < length S" "n - q \<le> length S" using N k Sl by simp_all
  have same: "slice S k (n - q) = slice ?S k (n - q)"
    using keep [of "w + q + _"] Sl N q(1) unfolding k by (intro slice_eqI) (auto simp: mod_simps add.assoc)
  have hd_same: "S ! k = ?S ! k" using keep [of "w + q"] q(1) N unfolding k by (simp add: add.assoc)
  have fo2: "foff \<noteq> 0 \<Longrightarrow> 0 < n - q \<and> unat foff \<le> unat (sg_len (S ! k))" using fo hd_same by simp
  have lens: "lens_ok ?b ?S \<Longrightarrow> lens_ok ?b (fq_sdesc (cq_flq c'))"
    using lens_ok_given_back [OF _ S] lens_ok_advanced [of ?b S foff k] fo2 by (cases "foff = 0") (auto simp: f' advanced_def)
  have kp: "unat (fq_pidx_pend (cq_flq c')) = k"
    using ring_idx_incr_unat [of "fq_size ?f" "fq_pidx_pend ?f" i] N q k by (simp add: f' mod_simps)
  have pc: "pending c' = slice (advanced k foff S) k (n - q)"
    unfolding pending_def using acct_delta [OF acc'] kp by (simp add: o f')
  have dr: "drop q (pending c) = slice ?S k (n - q)" using slice_drop [OF q(1), of ?S ?k] N(2) unfolding pe k by (simp add: mod_simps)
  have "pending c' = head_taken foff (drop q (pending c))" unfolding pc dr same [symmetric] using fo2 by (intro advanced_head [OF kS]) simp
  moreover have "foff \<noteq> 0 \<longrightarrow> unat foff \<le> unat (sg_len (hd (drop q (pending c))))"
    using fo kS(1) Sl N(2) slice_Cons [of k ?S "n - q - 1"] unfolding dr by (cases "n - q") auto
  ultimately have lv: "read_leaves q c c'" unfolding read_leaves_def using q(1) pe kp k dd0 N(3) by (auto simp: f' mod_simps)
  have "sgl_places (pending c') = drop d (sgl_places (pending c))" if "\<forall>e \<in> set (pending c). unat (sg_offset e) + unat (sg_len e) < 2 ^ 32"
  proof -
    have "foff \<noteq> 0 \<Longrightarrow> unat (sg_offset (S ! k)) + unat (sg_len (S ! k)) < 2 ^ 32"
    proof -
      assume "foff \<noteq> 0"
      then have "q < n" using fo by simp
      then have "?S ! k \<in> set (pending c)" unfolding pe k by (auto simp: slice_def N(2) mod_simps)
      then show ?thesis using that unfolding hd_same by blast
    qed
    then show ?thesis unfolding pe rest pc using advanced_slice(2) [OF kS fo2] same
      by (cases "foff = 0") (simp_all add: advanced_def)
  qed
  moreover have "rv = int d" using o(4) d by (simp add: sint_small)
  ultimately show thesis using that [of q d r lo' w'] q(1) m cp o a' lw lens lv by (simp add: pe f')
qed

lemma read_nothing:
  assumes "c2h_acct lo w 0 (dq_pidx (cq_q c)) c"
  shows "descq_st_c2h_read dev update_pidx refill req c s = (0, req, c, s)" and "pending c = []"
proof -
  have "unat (ring_idx_delta (dq_pidx (cq_q c)) (fq_pidx_pend (cq_flq c)) (fq_size (cq_flq c))) = 0"
    using assms acct_delta by (auto simp: c2h_acct_def)
  then show "descq_st_c2h_read dev update_pidx refill req c s = (0, req, c, s)" and "pending c = []"
    by (simp_all add: descq_st_c2h_read_def pending_def slice_def Let_def unat_eq_0)
qed

end
