(* ===== verification/DescqC2hAcct.thy ===== *)
theory DescqC2hAcct
  imports DescqC2hInv
begin

text \<open>
  The operations of an ST C2H queue keep the accounting of \<^theory_text>\<open>DescqC2hInv\<close>: a packet that is received uses
  the buffers that \<^verbatim>\<open>get_fl_nr\<close> counts, the default handler reads them, and the buffers that were read are
  given back.
\<close>

section \<open>The number of buffers of a packet\<close>

lemma fl_loop_divides:
  assumes "b \<noteq> 0"
  shows "fl_loop b l n = Some (n + int (unat l div unat b), of_nat (unat l mod unat b))"
proof (induction "unat l" arbitrary: l n rule: less_induct)
  case less
  have b: "0 < unat b" using assms by (simp add: unat_gt_0)
  show ?case
  proof (cases "b \<le> l")
    case True
    then have le: "unat b \<le> unat l" and sub: "unat (l - b) = unat l - unat b" by (simp_all add: word_le_nat_alt unat_minus_bounded)
    have "fl_loop b (l - b) (n + 1) = Some (n + 1 + int (unat (l - b) div unat b), of_nat (unat (l - b) mod unat b))"
      using less [of "l - b" "n + 1"] sub le b by simp
    moreover have "int (unat l div unat b) = 1 + int ((unat l - unat b) div unat b)" "unat l mod unat b = (unat l - unat b) mod unat b"
      using le b by (simp_all add: le_div_geq le_mod_geq)
    ultimately show ?thesis using True by (subst fl_loop.simps) (simp add: sub)
  next
    case False
    then show ?thesis by (subst fl_loop.simps) (simp add: word_le_nat_alt)
  qed
qed

text \<open>The number of buffers of size \<open>b\<close> that \<open>len\<close> bytes fill, and the bytes in the last of them.\<close>

definition bufs_for :: "nat \<Rightarrow> nat \<Rightarrow> nat" where
  "bufs_for b len = (len + b - 1) div b"

definition last_len :: "nat \<Rightarrow> nat \<Rightarrow> nat" where
  "last_len b len = len - (bufs_for b len - 1) * b"

lemma bufs_for_dvd: "0 < b \<Longrightarrow> 0 < len \<Longrightarrow> len mod b = 0 \<Longrightarrow> bufs_for b len = len div b \<and> last_len b len = b"
proof -
  assume b: "0 < b" "0 < len" "len mod b = 0"
  then obtain k where k: "len = Suc k * b" by (metis mod_0_imp_dvd dvdE mult.commute mult_0_right not0_implies_Suc less_numeral_extra(3))
  have "(Suc k * b + b - 1) div b = (Suc k * b + (b - 1)) div b" using b(1) by simp
  also have "\<dots> = Suc k" using b(1) by (simp only: div_mult_self3) simp
  finally show ?thesis using b(1) by (simp add: bufs_for_def last_len_def k)
qed

lemma bufs_for_ndvd: "0 < b \<Longrightarrow> len mod b \<noteq> 0 \<Longrightarrow> bufs_for b len = len div b + 1 \<and> last_len b len = len mod b"
proof -
  assume b: "0 < b" "len mod b \<noteq> 0"
  have "(len div b + 1) * b = len div b * b + b" by simp
  then have "len + b - 1 = (len mod b - 1) + (len div b + 1) * b" using b(2) div_mult_mod_eq [of len b] by linarith
  then have "bufs_for b len = len div b + 1 + (len mod b - 1) div b" using b(1) unfolding bufs_for_def by (simp only: div_mult_self1)
  moreover have "(len mod b - 1) div b = 0" using b mod_less_divisor [of b len] by (intro div_less) linarith
  ultimately show ?thesis by (simp add: last_len_def minus_div_mult_eq_mod)
qed

lemma bufs_for_sum:
  assumes "0 < b" and "0 < len"
  shows "0 < bufs_for b len" and "(bufs_for b len - 1) * b + last_len b len = len" and "0 < last_len b len" and "last_len b len \<le> b"
proof -
  show "0 < bufs_for b len" using assms by (simp add: bufs_for_def div_greater_zero_iff)
  show "(bufs_for b len - 1) * b + last_len b len = len" "0 < last_len b len" "last_len b len \<le> b"
    using bufs_for_dvd [OF assms] bufs_for_ndvd [OF assms(1), of len] assms div_mult_mod_eq [of len b] mod_less_divisor [OF assms(1), of len]
    by (cases "len mod b = 0"; auto simp: diff_mult_distrib dvd_div_mult_self)+
qed

lemma unat_pow2: "s < 32 \<Longrightarrow> unat (2 ^ s :: u32) = 2 ^ s"
proof -
  assume "s < 32"
  then have "(2::nat) ^ s < 2 ^ 32" by (intro power_strict_increasing) simp_all
  then have "unat (of_nat (2 ^ s) :: u32) = 2 ^ s" unfolding unat_of_nat by (intro mod_less) simp
  then show ?thesis by simp
qed

lemma get_fl_nr_pow2:
  assumes "len \<noteq> 0" and "unat len < 2 ^ 16" and "shift < 31" and "len AND (len - 1) = 0"
  shows "get_fl_nr len (2 ^ shift) shift (2 ^ shift - 1) =
    Some (int (bufs_for (2 ^ shift) (unat len)), of_nat (last_len (2 ^ shift) (unat len)))"
proof -
  let ?B = "2 ^ shift :: u32" and ?b = "2 ^ shift :: nat"
  have b: "unat ?B = ?b" "?b \<le> 2 ^ 30" using unat_pow2 [of shift] power_increasing [of shift 30 "2::nat"] assms(3) by simp_all
  have m: "unat (?B - 1) = ?b - 1" using b unat_minus_bounded [of 1 ?B] by simp
  have s: "unat (len + (?B - 1)) = unat len + ?b - 1" using unat_plus_bounded [of len "?B - 1"] assms(2) b m by simp
  have u: "unat (drop_bit shift (len + (?B - 1))) = bufs_for ?b (unat len)"
    unfolding unat_drop_bit_eq s bufs_for_def by (simp add: drop_bit_eq_div)
  moreover have "bufs_for ?b (unat len) \<le> unat len + ?b - 1" by (simp add: bufs_for_def)
  ultimately have nr: "sint (drop_bit shift (len + (?B - 1))) = int (bufs_for ?b (unat len))"
    using assms(2) b(2) by (subst sint_small) simp_all
  have msk: "unat (len AND (?B - 1)) = unat len mod ?b"
    using assms(3) by (simp add: unat_mod unat_pow2 take_bit_eq_mod flip: mask_eq_decr_exp take_bit_eq_mask)
  have pos: "0 < ?b" "0 < unat len" using assms(1) by (simp_all add: unat_gt_0)
  show ?thesis
  proof (cases "unat len mod ?b = 0")
    case True
    then have "len AND (?B - 1) = 0" using msk by (simp add: word_unat_eq_iff)
    then show ?thesis using bufs_for_dvd [OF pos True] nr assms(1,4) b(1) by (simp add: get_fl_nr_def)
  next
    case False
    then have "len AND (?B - 1) \<noteq> 0" using msk by (metis unat_0)
    moreover have "len AND (?B - 1) = of_nat (unat len mod ?b)" using msk by (metis of_nat_unat ucast_id)
    ultimately show ?thesis using bufs_for_ndvd [OF pos(1) False] nr assms(1,4) by (simp add: get_fl_nr_def)
  qed
qed

lemma get_fl_nr_loop:
  assumes "b \<noteq> 0" and "len AND (len - 1) \<noteq> 0"
  shows "get_fl_nr len b shift m = Some (int (bufs_for (unat b) (unat len)), of_nat (last_len (unat b) (unat len)))"
proof -
  have len: "0 < unat len" "0 < unat b" using assms by (auto simp: unat_gt_0)
  show ?thesis
  proof (cases "len \<le> b")
    case True
    then have "bufs_for (unat b) (unat len) = 1"
      using len by (auto simp: bufs_for_def word_le_nat_alt intro!: div_nat_eqI)
    then show ?thesis using assms True by (simp add: get_fl_nr_def last_len_def)
  next
    case False
    have "unat len mod unat b < unat b" using len(2) by simp
    moreover have "unat b < 2 ^ 32" using unsigned_less [of b] by simp
    ultimately have "unat len mod unat b < 2 ^ 32" by (rule less_trans)
    then have "unat (of_nat (unat len mod unat b) :: u32) = unat len mod unat b" unfolding unat_of_nat by (intro mod_less) simp
    then have "(of_nat (unat len mod unat b) :: u32) = 0 \<longleftrightarrow> unat len mod unat b = 0"
      unfolding word_unat_eq_iff by (simp only: unat_0)
    then show ?thesis
      using assms False bufs_for_dvd [OF len(2,1)] bufs_for_ndvd [OF len(2), of "unat len"]
      by (cases "unat len mod unat b = 0") (simp_all add: get_fl_nr_def fl_loop_divides)
  qed
qed

section \<open>Receiving a packet\<close>

lemma u32_less: "unat (b :: u32) < 2 ^ 32"
  using unsigned_less [of b] by simp

lemma sgl_places_append [simp]: "sgl_places (xs @ ys) = sgl_places xs @ sgl_places ys"
  by (simp add: sgl_places_def)

lemma length_sgl_places_all: "\<forall>e \<in> set S. sg_len e = b \<Longrightarrow> length (sgl_places S) = length S * unat b"
  by (induction S) auto

lemma length_mark [simp]: "length (mark_loop n k cidx I) = length I" "length (mark_pkt n first final cidx I) = length I"
proof -
  show l: "length (mark_loop n k cidx I) = length I" for n k I by (induction n k cidx I rule: mark_loop.induct) auto
  show "length (mark_pkt n first final cidx I) = length I" by (simp add: mark_pkt_def l Let_def)
qed

text \<open>The number of buffers, for packets without data too.\<close>

definition pkt_bufs :: "u32 \<Rightarrow> u32 \<Rightarrow> nat" where
  "pkt_bufs b len = (if len = 0 then 1 else bufs_for (unat b) (unat len))"

definition pkt_last :: "u32 \<Rightarrow> u32 \<Rightarrow> nat" where
  "pkt_last b len = (if len = 0 then 0 else last_len (unat b) (unat len))"

lemma pkt_bufs_sum:
  assumes "b \<noteq> 0"
  shows "0 < pkt_bufs b len" and "(pkt_bufs b len - 1) * unat b + pkt_last b len = unat len" and "pkt_last b len \<le> unat b"
  using bufs_for_sum [of "unat b" "unat len"] assms by (auto simp: pkt_bufs_def pkt_last_def unat_gt_0)

lemma acct_received:
  assumes a: "acct lo w n p b f a" and k: "0 < k" "k \<le> unat a" and l: "(k - 1) * unat b + l = unat len" "l \<le> unat b"
    and f': "f' = f\<lparr>fq_sdesc := (fq_sdesc f)[(lo + w + n + (k - 1)) mod unat (fq_size f) :=
        (fq_sdesc f ! ((lo + w + n + (k - 1)) mod unat (fq_size f)))\<lparr>sg_len := of_nat l\<rparr>],
        fq_sdesc_info := I, fq_pkt_dlen := fq_pkt_dlen f + len, fq_udd_cnt := u\<rparr>"
    and I: "length I = unat (fq_size f)" and p': "unat p' = (lo + w + n + k) mod unat (fq_size f)"
    and a': "a' = a - of_nat k"
  shows "acct lo w (n + k) p' b f' a'"
proof -
  let ?N = "unat (fq_size f)" and ?S = "fq_sdesc f" and ?x = "lo + w" and ?S' = "fq_sdesc f'"
  let ?j = "(lo + w + n + (k - 1)) mod unat (fq_size f)"
  note ad = a [unfolded acct_def]
  have N: "length ?S = ?N" "0 < ?N" "w + n + k < ?N" "?N < 2 ^ 31" using ad k by (auto simp: ring_ok_def)
  have S': "length ?S' = ?N" "\<And>j. j \<noteq> ?j \<Longrightarrow> ?S' ! j = ?S ! j" "sg_len (?S' ! ?j) = of_nat l" using N by (simp_all add: f')
  have ne: "(lo + j) mod ?N \<noteq> ?j" if "j < ?N" "j \<noteq> w + n + (k - 1)" for j
  proof
    assume "(lo + j) mod ?N = ?j"
    then have "(lo + j) mod ?N = (lo + (w + n + (k - 1))) mod ?N" by (simp only: add.assoc)
    then have "j = w + n + (k - 1)" using that(1) N(3) k(1) by (elim slot_inj) simp_all
    then show False using that(2) by simp
  qed
  have free: "sg_len (?S ! ((lo + j) mod ?N)) = b" if "w + n \<le> j" "j < ?N" for j using ad that by auto
  have old: "slice ?S' (?x mod ?N) n = slice ?S (?x mod ?N) n"
    using S' N ne [of "w + _"] k by (intro slice_eqI) (auto simp: mod_simps add.assoc)
  have new: "sg_len e = b" if e: "e \<in> set (slice ?S' ((?x + n) mod ?N) (k - 1))" for e
  proof -
    obtain j where j: "j < k - 1" "e = ?S' ! ((?x + n + j) mod ?N)" using e S'(1) by (auto simp: slice_def mod_simps)
    have "(?x + n + j) mod ?N \<noteq> ?j" using ne [of "w + n + j"] j N by (simp add: add.assoc)
    then show ?thesis using j S'(2) free [of "w + n + j"] N by (simp add: add.assoc)
  qed
  have "slice ?S' ((?x + n) mod ?N) (Suc (k - 1)) = slice ?S' ((?x + n) mod ?N) (k - 1) @ [?S' ! ?j]"
    using S'(1) by (simp add: slice_Suc mod_simps)
  then have "slice ?S' (?x mod ?N) (n + k) = slice ?S (?x mod ?N) n @ slice ?S' ((?x + n) mod ?N) (k - 1) @ [?S' ! ?j]"
    using slice_append [of ?S' "?x mod ?N" n k] old k(1) S'(1) by (simp add: mod_simps)
  moreover have "unat (of_nat l :: u32) = l" using l(2) u32_less [of b] unfolding unat_of_nat by (intro mod_less) simp
  ultimately have tot: "length (sgl_places (slice ?S' (?x mod ?N) (n + k))) = length (sgl_places (slice ?S (?x mod ?N) n)) + unat len"
    using length_sgl_places_all [of "slice ?S' ((?x + n) mod ?N) (k - 1)" b] new l(1) S'(3) by simp
  have free': "sg_len (?S' ! ((lo + j) mod ?N)) = b" if "w + (n + k) \<le> j" "j < ?N" for j
    using ne [of j] S'(2) free [of j] that k by simp
  have "unat a' = unat a - k" using k N unfolding a' by (subst unat_minus_bounded) (simp_all add: unat_of_nat)
  then show ?thesis unfolding acct_def using ad N p' I tot free' S'(1) by (auto simp: f' add.assoc)
qed

text \<open>A queue with the default handler whose buffers are a power of two.\<close>

definition flq_conf_ok :: "c2h_q \<Rightarrow> bool" where
  "flq_conf_ok c \<longleftrightarrow>
     \<not> cf_fp_c2h_packet (conf_of c) \<and> fq_desc_pg_shift (cq_flq c) < 31 \<and>
     cf_c2h_bufsz (conf_of c) = 2 ^ unat (fq_desc_pg_shift (cq_flq c)) \<and>
     unat (cf_rngsz (conf_of c)) * unat (cf_c2h_bufsz (conf_of c)) < 2 ^ 31"

lemma get_fl_nr_pkt:
  assumes "shift < 31" and "unat len < 2 ^ 16"
  shows "\<exists>l. get_fl_nr len (2 ^ shift) shift (2 ^ shift - 1) = Some (int (pkt_bufs (2 ^ shift) len), l) \<and>
    (if len = 0 then 0 else l) = of_nat (pkt_last (2 ^ shift) len)"
proof (cases "len = 0")
  case True
  then show ?thesis by (simp add: get_fl_nr_def pkt_bufs_def pkt_last_def)
next
  case False
  have b: "unat (2 ^ shift :: u32) = 2 ^ shift" using assms(1) by (simp add: unat_pow2)
  then have nz: "(2 :: u32) ^ shift \<noteq> 0" using unat_0 by (metis power_not_zero zero_neq_numeral)
  show ?thesis
    using get_fl_nr_pow2 [OF False assms(2,1)] get_fl_nr_loop [OF nz, of len shift "2 ^ shift - 1"] False b
    by (cases "len AND (len - 1) = 0") (simp_all add: pkt_bufs_def pkt_last_def)
qed

text \<open>Of the queue, a packet only changes the free list and the number of free buffers.\<close>

definition same_rest :: "c2h_q \<Rightarrow> c2h_q \<Rightarrow> bool" where
  "same_rest c c' \<longleftrightarrow>
     conf_of c' = conf_of c \<and> dq_pidx (cq_q c') = dq_pidx (cq_q c) \<and> dq_pend_list (cq_q c') = dq_pend_list (cq_q c) \<and>
     fq_desc_pg_shift (cq_flq c') = fq_desc_pg_shift (cq_flq c) \<and> fq_pidx_pend (cq_flq c') = fq_pidx_pend (cq_flq c) \<and>
     fq_size (cq_flq c') = fq_size (cq_flq c)"

lemma same_rest_trans: "same_rest a b \<Longrightarrow> same_rest b c \<Longrightarrow> same_rest a c"
  by (simp add: same_rest_def)

lemma flq_conf_ok_same: "same_rest c c' \<Longrightarrow> flq_conf_ok c \<Longrightarrow> flq_conf_ok c'"
  unfolding same_rest_def flq_conf_ok_def by metis

lemma lens_ok_update: "lens_ok b S \<Longrightarrow> unat (sg_len e) \<le> unat b \<Longrightarrow> lens_ok b (S[j := e])"
  unfolding lens_ok_def using set_update_subset_insert [of S j e] by auto

lemma rcv_pkt_accounts:
  assumes a: "c2h_acct lo w n (ci_pidx cmpl) c" and ok: "flq_conf_ok c" and len: "unat len < 2 ^ 16"
    and lens: "lens_ok (cf_c2h_bufsz (conf_of c)) (fq_sdesc (cq_flq c))"
    and room: "pkt_bufs (cf_c2h_bufsz (conf_of c)) len \<le> unat (dq_avail (cq_q c))"
  obtains cmpl' c' where "rcv_pkt env cmpl len c s = Some (0, cmpl', c', s)"
    and "c2h_acct lo w (n + pkt_bufs (cf_c2h_bufsz (conf_of c)) len) (ci_pidx cmpl') c'" and "same_rest c c'"
    and "lens_ok (cf_c2h_bufsz (conf_of c)) (fq_sdesc (cq_flq c'))" and "cq_err c' = cq_err c"
proof -
  let ?f = "cq_flq c" and ?b = "cf_c2h_bufsz (conf_of c)" and ?p = "ci_pidx cmpl" and ?q = "cq_q c"
  let ?N = "unat (fq_size ?f)" and ?sh = "unat (fq_desc_pg_shift ?f)"
  define k where "k = pkt_bufs ?b len"
  have acc: "acct lo w n ?p ?b ?f (dq_avail ?q)" and rs: "cf_rngsz (conf_of c) = fq_size ?f" using a by (simp_all add: c2h_acct_def)
  note ad = acc [unfolded acct_def]
  have sh: "?sh < 31" "?b = 2 ^ ?sh" "\<not> cf_fp_c2h_packet (conf_of c)" using ok by (auto simp: flq_conf_ok_def word_less_nat_alt)
  then have "unat ?b = 2 ^ ?sh" by (simp add: unat_pow2)
  then have b0: "?b \<noteq> 0" using unat_0 by (metis power_not_zero zero_neq_numeral)
  note k = pkt_bufs_sum [OF b0, of len, folded k_def]
  have kN: "k \<le> unat (dq_avail ?q)" "k < ?N" "?N < 2 ^ 31" using room ad by (auto simp: k_def ring_ok_def)
  obtain l where g: "get_fl_nr len ?b ?sh (push_bit ?sh 1 - 1) = Some (int k, l)" and l: "(if len = 0 then 0 else l) = of_nat (pkt_last ?b len)"
    using get_fl_nr_pkt [OF sh(1) len] unfolding k_def sh(2) by auto
  have uk: "unat (of_nat (k - 1) :: u32) = k - 1" "unat (of_nat k :: u32) = k" "unat (1::u32) = 1"
    using kN by (simp_all add: unat_of_nat)
  define last where "last = ring_idx_incr ?p (of_nat (k - 1)) (fq_size ?f)"
  define nxt where "nxt = ring_idx_incr last 1 (fq_size ?f)"
  have ua: "unat last = (lo + w + n + (k - 1)) mod ?N"
    unfolding last_def using ad kN uk by (subst ring_idx_incr_unat) (auto simp: mod_simps)
  then have un: "unat nxt = (lo + w + n + k) mod ?N"
    unfolding nxt_def using ad kN k(1) uk by (subst ring_idx_incr_unat) (auto simp: mod_simps)
  define S where "S = (fq_sdesc ?f)[unat last := (fq_sdesc ?f ! unat last)\<lparr>sg_len := of_nat (pkt_last ?b len)\<rparr>]"
  define I where "I = mark_pkt k (unat ?p) (unat last) (ring_idx_incr (cq_cidx_cmpt c) 1 (cf_rngsz_cmpt (conf_of c))) (fq_sdesc_info ?f)"
  define u where "u = (if cf_cmpl_udd_en (conf_of c) then fq_udd_cnt ?f + 1 else fq_udd_cnt ?f)"
  define f' where "f' = ?f\<lparr>fq_sdesc := S, fq_sdesc_info := I, fq_pkt_dlen := fq_pkt_dlen ?f + len, fq_udd_cnt := u\<rparr>"
  define c' where "c' = c\<lparr>cq_flq := f', cq_q := ?q\<lparr>dq_avail := dq_avail ?q - of_nat k\<rparr>\<rparr>"
  have "\<not> dq_avail ?q < of_nat k" using kN uk by (simp add: word_less_nat_alt not_less)
  then have r: "rcv_pkt env cmpl len c s = Some (0, cmpl\<lparr>ci_pidx := nxt\<rparr>, c', s)"
    unfolding rcv_pkt_def Let_def g using k(1) sh(3) l
    by (simp add: rs last_def nxt_def c'_def f'_def S_def I_def u_def of_nat_diff)
  have Il: "length I = ?N" using ad by (simp add: I_def)
  have "f' = ?f\<lparr>fq_sdesc := (fq_sdesc ?f)[(lo + w + n + (k - 1)) mod ?N := (fq_sdesc ?f ! ((lo + w + n + (k - 1)) mod ?N))\<lparr>sg_len := of_nat (pkt_last ?b len)\<rparr>],
      fq_sdesc_info := I, fq_pkt_dlen := fq_pkt_dlen ?f + len, fq_udd_cnt := u\<rparr>"
    unfolding f'_def S_def ua ..
  then have "acct lo w (n + k) nxt ?b f' (dq_avail ?q - of_nat k)"
    using acct_received [OF acc k(1) kN(1) k(2,3) _ Il un refl] by blast
  then have "c2h_acct lo w (n + k) (ci_pidx (cmpl\<lparr>ci_pidx := nxt\<rparr>)) c'" using rs by (simp add: c2h_acct_def c'_def f'_def)
  moreover have "lens_ok ?b (fq_sdesc (cq_flq c'))"
    using lens_ok_update [OF lens] k(3) u32_less [of ?b] by (simp add: c'_def f'_def S_def unat_of_nat)
  ultimately show thesis using that [OF r] by (simp add: k_def same_rest_def c'_def f'_def)
qed

definition rx_ok :: "nat \<Rightarrow> nat \<Rightarrow> nat \<Rightarrow> u32 \<Rightarrow> c2h_q \<Rightarrow> bool" where
  "rx_ok lo w n p c \<longleftrightarrow>
     c2h_acct lo w n p c \<and> flq_conf_ok c \<and> lens_ok (cf_c2h_bufsz (conf_of c)) (fq_sdesc (cq_flq c))"

lemma rx_room:
  assumes "rx_ok lo w n (dq_pidx (cq_q c)) c"
  shows "length (sgl_places (pending c)) < 2 ^ 31"
proof -
  let ?f = "cq_flq c" and ?b = "cf_c2h_bufsz (conf_of c)"
  have a: "acct lo w n (dq_pidx (cq_q c)) ?b ?f (dq_avail (cq_q c))" and rs: "cf_rngsz (conf_of c) = fq_size ?f"
    and le: "lens_ok ?b (fq_sdesc ?f)" and r: "unat (fq_size ?f) * unat ?b < 2 ^ 31" and c: "c2h_acct lo w n (dq_pidx (cq_q c)) c"
    using assms by (auto simp: rx_ok_def c2h_acct_def flq_conf_ok_def)
  have "n < unat (fq_size ?f)" "length (fq_sdesc ?f) = unat (fq_size ?f)" using a by (auto simp: acct_def)
  then have "length (sgl_places (pending c)) \<le> n * unat ?b"
    using length_sgl_places_le [OF lens_ok_slice [OF le]] by (metis pending_acct [OF c] length_slice gr_implies_not0 not_gr0)
  also have "\<dots> \<le> unat (fq_size ?f) * unat ?b" using \<open>n < unat (fq_size ?f)\<close> by simp
  finally show ?thesis using r by simp
qed

text \<open>A read of one request, as far as the accounting goes.\<close>

lemma read_accounts:
  assumes a: "rx_ok lo w n (dq_pidx (cq_q c)) c" and wf: "req_wf req" and w: "refill \<Longrightarrow> w = 0"
    and upd: "update_pidx \<Longrightarrow> \<forall>c s. 0 \<le> fst (c2h_pidx_update dev c s)"
    and rd: "descq_st_c2h_read dev update_pidx refill req c s = (rv, req', c', s')"
  obtains lo' w' n' where "rx_ok lo' w' n' (dq_pidx (cq_q c')) c'" and "if refill then w' = 0 else lo' = lo" and "req_wf req'"
    and "dq_pidx (cq_q c') = dq_pidx (cq_q c)" and "dq_pend_list (cq_q c') = dq_pend_list (cq_q c)" and "cq_err c' = cq_err c"
    and "conf_of c' = conf_of c" and "rq_id req' = rq_id req"
proof (cases "n = 0")
  case True
  then have "c2h_acct lo w 0 (dq_pidx (cq_q c)) c" using a by (simp add: rx_ok_def)
  then have "req' = req" "c' = c" using rd by (simp_all add: read_nothing(1))
  then show thesis using that [of lo w n] a wf w by auto
next
  case False
  have acc: "c2h_acct lo w n (dq_pidx (cq_q c)) c" using a by (simp add: rx_ok_def)
  show thesis
  proof (cases "cb_sg_idx req = 0 \<or> unat (cb_sg_idx req) < length (rq_sgl req)")
    case True
    obtain q d r lo' w' where m: "moved False d (sgl_places (pending c)) (read_start req (cq_bytes c)) r"
      and eq: "req' = req_after r req" "conf_of c' = conf_of c" "dq_pidx (cq_q c') = dq_pidx (cq_q c)"
        "dq_pend_list (cq_q c') = dq_pend_list (cq_q c)" "cq_err c' = cq_err c" "fq_desc_pg_shift (cq_flq c') = fq_desc_pg_shift (cq_flq c)"
      and a': "c2h_acct lo' w' (n - q) (dq_pidx (cq_q c')) c'" and w': "if refill then w' = 0 else lo' = lo \<and> w' = w + q"
      and l: "lens_ok (cf_c2h_bufsz (conf_of c)) (fq_sdesc (cq_flq c'))"
      using read_core [where b = False, OF acc False wf True upd w rx_room [OF a] _ rd] a unfolding rx_ok_def by metis
    have "rx_ok lo' w' (n - q) (dq_pidx (cq_q c')) c'" using a a' l eq unfolding rx_ok_def flq_conf_ok_def by metis
    moreover have "req_wf req'" using req_after_places(2) [OF wf m] True unfolding eq(1) by auto
    ultimately show thesis using that eq w' by (auto simp: req_after_def split: if_splits)
  next
    case idx: False
    have "unat (ring_idx_delta (dq_pidx (cq_q c)) (fq_pidx_pend (cq_flq c)) (fq_size (cq_flq c))) = n"
      using acc acct_delta by (auto simp: c2h_acct_def)
    then have "ring_idx_delta (dq_pidx (cq_q c)) (fq_pidx_pend (cq_flq c)) (fq_size (cq_flq c)) \<noteq> 0" using False by auto
    then have "req' = req" "c' = c" using rd idx by (simp_all add: descq_st_c2h_read_def Let_def not_less)
    then show thesis using that [of lo w n] a wf w by auto
  qed
qed

lemma rx_ok_kept [simp]:
  "rx_ok lo w n p (c\<lparr>cq_q := qdma_sgt_req_done r e q\<rparr>) = rx_ok lo w n p (c\<lparr>cq_q := q\<rparr>)"
  "rx_ok lo w n p (c\<lparr>cq_q := q\<lparr>dq_pend_list := l\<rparr>\<rparr>) = rx_ok lo w n p (c\<lparr>cq_q := q\<rparr>)"
  by (simp_all add: rx_ok_def c2h_acct_def flq_conf_ok_def qdma_sgt_req_done_def Let_def)

lemma req_done_fields [simp]:
  "dq_pidx (qdma_sgt_req_done r e q) = dq_pidx q" "dq_conf (qdma_sgt_req_done r e q) = dq_conf q"
  "dq_pend_list (qdma_sgt_req_done r e q) = remove_first (\<lambda>x. rq_id x = rq_id r) (dq_pend_list q)"
  by (simp_all add: qdma_sgt_req_done_def Let_def)

lemma packets_loop_accounts:
  assumes "rx_ok lo w n (dq_pidx (cq_q c)) c" and "\<forall>r \<in> set cbs. req_wf r" and "dq_pend_list (cq_q c) = cbs"
    and "packets_loop dev cbs c s = (c', s')"
  shows "\<exists>w' n'. rx_ok lo w' n' (dq_pidx (cq_q c')) c' \<and> (\<forall>r \<in> set (dq_pend_list (cq_q c')). req_wf r) \<and>
    dq_pidx (cq_q c') = dq_pidx (cq_q c) \<and> cq_err c' = cq_err c \<and> conf_of c' = conf_of c"
  using assms
proof (induction cbs arbitrary: w n c s)
  case Nil
  then show ?case by auto
next
  case (Cons cb cbs)
  show ?case
  proof (cases "cb_left cb = 0")
    case True
    then have "c' = upd_q (qdma_sgt_req_done cb 0) c" using Cons.prems(4) by simp
    then show ?thesis using Cons.prems(1-3) by auto
  next
    case False
    obtain rv cb1 c1 s1 where rd: "descq_st_c2h_read dev False False cb c s = (rv, cb1, c1, s1)" by (metis prod_cases4)
    have wfc: "req_wf cb" using Cons.prems(2) by simp
    obtain w1 n1 where r1: "rx_ok lo w1 n1 (dq_pidx (cq_q c1)) c1" and wf: "req_wf cb1" and p1: "dq_pidx (cq_q c1) = dq_pidx (cq_q c)"
      and e1: "cq_err c1 = cq_err c" and cf1: "conf_of c1 = conf_of c" and id1: "rq_id cb1 = rq_id cb"
      by (rule read_accounts [OF Cons.prems(1) wfc _ _ rd]) auto
    define c2 where "c2 = upd_q (\<lambda>q. q\<lparr>dq_pend_list := cb1 # cbs\<rparr>) c1"
    have next_ok: "\<exists>w' n'. rx_ok lo w' n' (dq_pidx (cq_q c')) c' \<and> (\<forall>r \<in> set (dq_pend_list (cq_q c')). req_wf r) \<and>
        dq_pidx (cq_q c') = dq_pidx (cq_q c) \<and> cq_err c' = cq_err c \<and> conf_of c' = conf_of c"
      if "packets_loop dev cbs (upd_q (qdma_sgt_req_done cb1 e) c2) s1 = (c', s')" for e
      using Cons.IH [OF _ _ _ that, of w1 n1] r1 p1 e1 cf1 id1 Cons.prems(2)
      by (simp add: c2_def) metis
    have pl: "(if rv < 0 then packets_loop dev cbs (upd_q (qdma_sgt_req_done cb1 rv) c2) s1
        else if cb_left cb1 = 0 then packets_loop dev cbs (upd_q (qdma_sgt_req_done cb1 0) c2) s1 else (c2, s1)) = (c', s')"
      using Cons.prems(4) unfolding c2_def by (simp only: packets_loop.simps False if_False rd Let_def prod.case)
    show ?thesis
    proof (cases "\<not> rv < 0 \<and> cb_left cb1 \<noteq> 0")
      case True
      then have "c' = c2" using pl by auto
      moreover have "rx_ok lo w1 n1 (dq_pidx (cq_q c2)) c2" using r1 by (simp add: c2_def)
      ultimately show ?thesis using wf Cons.prems(2) p1 e1 cf1 by (auto simp: c2_def)
    next
      case False
      then obtain e where "packets_loop dev cbs (upd_q (qdma_sgt_req_done cb1 e) c2) s1 = (c', s')"
        using pl by (cases "rv < 0") auto
      then show ?thesis by (rule next_ok)
    qed
  qed
qed

section \<open>Processing completions\<close>

text \<open>The device uses only buffers that it was given: each packet of the entries that are processed fits in
  the free buffers.\<close>

fun credit_ok :: "'s c2h_env \<Rightarrow> 's c2h_dev \<Rightarrow> nat \<Rightarrow> u32 \<Rightarrow> c2h_q \<Rightarrow> 's \<Rightarrow> bool" where
  "credit_ok env dev 0 p c s \<longleftrightarrow> True"
| "credit_ok env dev (Suc n) p c s \<longleftrightarrow>
     (let (entry, s) = cd_cmpt_entry dev (cq_cidx_cmpt c) s; cmpl = snd (parse_entry env c entry)
      in fst (descq_cmpl_err_check cmpl c) < 0 \<or> \<not> is_new_cmpl_entry c cmpl \<or>
         (if ci_desc_used cmpl
          then pkt_bufs (cf_c2h_bufsz (conf_of c)) (ucast (ci_len cmpl)) \<le> unat (dq_avail (cq_q c)) \<and>
               (case rcv_pkt env (cmpl\<lparr>ci_pidx := p\<rparr>) (ucast (ci_len cmpl)) c s of
                  Some (_, cmpl, c, s) \<Rightarrow> credit_ok env dev n (ci_pidx cmpl) (cmpt_next c) s
                | None \<Rightarrow> True)
          else case rcv_udd_only env (cmpl\<lparr>ci_pidx := p\<rparr>) c s of (_, c, s) \<Rightarrow> credit_ok env dev n p (cmpt_next c) s))"

lemma u16_len: "unat (ucast (x :: u16) :: u32) < 2 ^ 16"
  using unsigned_less [of x] by simp

lemma rx_ok_counts [simp]:
  "rx_ok lo w n p (c\<lparr>cq_flq := (cq_flq c)\<lparr>fq_udd_cnt := u\<rparr>\<rparr>) = rx_ok lo w n p c"
  "rx_ok lo w n p (c\<lparr>cq_flq := (cq_flq c)\<lparr>fq_pkt_cnt := u\<rparr>\<rparr>) = rx_ok lo w n p c"
  by (simp_all add: rx_ok_def c2h_acct_def acct_def flq_conf_ok_def)

lemma cmpt_next_kept [simp]:
  "rx_ok lo w n p (cmpt_next c) = rx_ok lo w n p c" "same_rest c0 (cmpt_next c) = same_rest c0 c" "cq_err (cmpt_next c) = cq_err c"
  by (simp_all add: cmpt_next_def rx_ok_def c2h_acct_def flq_conf_ok_def same_rest_def)

lemma rcv_udd_only_kept:
  assumes "rx_ok lo w n p c"
  obtains c' where "rcv_udd_only env cmpl c s = (0, c', s)" and "rx_ok lo w n p c'" and "same_rest c c'" and "cq_err c' = cq_err c"
proof -
  have "\<not> cf_fp_c2h_packet (conf_of c)" using assms by (simp add: rx_ok_def flq_conf_ok_def)
  then show thesis using that [of "upd_flq (\<lambda>f. f\<lparr>fq_udd_cnt := fq_udd_cnt f + 1\<rparr>) c"] assms
    by (simp add: rcv_udd_only_def same_rest_def)
qed

lemma parse_entry_default: "ce_ul_cmpt_entry env = None \<Longrightarrow> parse_entry env c entry = (0, snd (parse_cmpl_entry entry))"
  by (simp add: parse_entry_def parse_cmpl_entry_def Let_def)

lemma rcv_entry_accounts:
  assumes a: "rx_ok lo w n (ci_pidx cmpl) c"
    and k: "ci_desc_used cmpl \<Longrightarrow> pkt_bufs (cf_c2h_bufsz (conf_of c)) (ucast (ci_len cmpl)) \<le> unat (dq_avail (cq_q c))"
  obtains cmpl2 c2 n2 where "rx_ok lo w n2 (ci_pidx cmpl2) c2" and "same_rest c c2"
    and "ci_desc_used cmpl \<longrightarrow> rcv_pkt env cmpl (ucast (ci_len cmpl)) c s = Some (0, cmpl2, c2, s)"
    and "\<not> ci_desc_used cmpl \<longrightarrow> rcv_udd_only env cmpl c s = (0, c2, s) \<and> cmpl2 = cmpl"
proof (cases "ci_desc_used cmpl")
  case True
  have a': "c2h_acct lo w n (ci_pidx cmpl) c" "flq_conf_ok c" "lens_ok (cf_c2h_bufsz (conf_of c)) (fq_sdesc (cq_flq c))"
    using a by (simp_all add: rx_ok_def)
  obtain cmpl2 c2 where r: "rcv_pkt env cmpl (ucast (ci_len cmpl)) c s = Some (0, cmpl2, c2, s)"
    and a2: "c2h_acct lo w (n + pkt_bufs (cf_c2h_bufsz (conf_of c)) (ucast (ci_len cmpl))) (ci_pidx cmpl2) c2"
    and sr: "same_rest c c2" and le: "lens_ok (cf_c2h_bufsz (conf_of c)) (fq_sdesc (cq_flq c2))"
    by (rule rcv_pkt_accounts [OF a'(1,2) u16_len a'(3) k [OF True]])
  have "rx_ok lo w (n + pkt_bufs (cf_c2h_bufsz (conf_of c)) (ucast (ci_len cmpl))) (ci_pidx cmpl2) c2"
    using a2 le flq_conf_ok_same [OF sr a'(2)] sr by (simp add: rx_ok_def same_rest_def)
  then show thesis using that sr r True by blast
next
  case False
  obtain c2 where "rcv_udd_only env cmpl c s = (0, c2, s)" "rx_ok lo w n (ci_pidx cmpl) c2" "same_rest c c2"
    by (rule rcv_udd_only_kept [OF a])
  then show thesis using that False by blast
qed

lemma process_entries_accounts:
  assumes "ce_ul_cmpt_entry env = None" and "rx_ok lo w n p c" and "credit_ok env dev m p c s" and "unat cnt + m < 2 ^ 32"
  shows "\<exists>rv p' cnt' c' s' n'. process_entries env dev m p cnt c s = Some (rv, p', cnt', c', s') \<and>
    rx_ok lo w n' p' c' \<and> same_rest c c' \<and> (rv < 0 \<longrightarrow> cq_err c') \<and> unat cnt \<le> unat cnt' \<and> (cnt' = cnt \<longrightarrow> p' = p)"
  using assms
proof (induction m arbitrary: n p cnt c s)
  case 0
  then show ?case by (auto simp: same_rest_def)
next
  case (Suc m)
  obtain entry s1 where e: "cd_cmpt_entry dev (cq_cidx_cmpt c) s = (entry, s1)" by fastforce
  define cmpl where "cmpl = snd (parse_cmpl_entry entry)"
  note pe = parse_entry_default [OF Suc.prems(1), of c entry, folded cmpl_def]
  note un = process_entries.simps(2) [of env dev m p cnt c s, unfolded e pe Let_def prod.case]
  note cr = Suc.prems(3) [unfolded credit_ok.simps e pe Let_def prod.case snd_conv]
  have c1: "unat (cnt + 1) = unat cnt + 1" using Suc.prems(4) unat_plus_bounded [of cnt 1] by simp
  consider (err) "fst (descq_cmpl_err_check cmpl c) < 0" | (old) "\<not> fst (descq_cmpl_err_check cmpl c) < 0" "\<not> is_new_cmpl_entry c cmpl"
    | (new) "\<not> fst (descq_cmpl_err_check cmpl c) < 0" "is_new_cmpl_entry c cmpl" by blast
  then show ?case
  proof cases
    case err
    then have "descq_cmpl_err_check cmpl c = (- EINVAL, c\<lparr>cq_err := True\<rparr>)" by (auto simp: descq_cmpl_err_check_def split: if_splits)
    then have "process_entries env dev (Suc m) p cnt c s = Some (- EINVAL, p, cnt, c\<lparr>cq_err := True\<rparr>, s1)" unfolding un by simp
    then show ?thesis using Suc.prems(2) by (auto simp: same_rest_def rx_ok_def c2h_acct_def flq_conf_ok_def)
  next
    case old
    then have "descq_cmpl_err_check cmpl c = (0, c)" by (auto simp: descq_cmpl_err_check_def split: if_splits)
    then have "process_entries env dev (Suc m) p cnt c s = Some (0, p, cnt, c, s1)" unfolding un using old by simp
    then show ?thesis using Suc.prems(2) by (auto simp: same_rest_def)
  next
    case new
    then have ec: "descq_cmpl_err_check cmpl c = (0, c)" "ci_desc_used cmpl \<or> cf_cmpl_udd_en (conf_of c)"
      by (auto simp: descq_cmpl_err_check_def split: if_splits)
    let ?cmpl = "cmpl\<lparr>ci_pidx := p\<rparr>"
    note cr' = cr [unfolded ec(1) fst_conv] and new' = new(2)
    have a0: "rx_ok lo w n (ci_pidx ?cmpl) c" using Suc.prems(2) by simp
    have k: "ci_desc_used ?cmpl \<Longrightarrow> pkt_bufs (cf_c2h_bufsz (conf_of c)) (ucast (ci_len ?cmpl)) \<le> unat (dq_avail (cq_q c))"
      using cr' new' by (simp split: if_splits)
    obtain cmpl2 c2 n2 where rx: "rx_ok lo w n2 (ci_pidx cmpl2) c2" and sr: "same_rest c c2"
      and r: "ci_desc_used ?cmpl \<longrightarrow> rcv_pkt env ?cmpl (ucast (ci_len ?cmpl)) c s1 = Some (0, cmpl2, c2, s1)"
        "\<not> ci_desc_used ?cmpl \<longrightarrow> rcv_udd_only env ?cmpl c s1 = (0, c2, s1) \<and> cmpl2 = ?cmpl"
      by (rule rcv_entry_accounts [OF a0 k, where env = env and s = s1])
    have cr2: "credit_ok env dev m (ci_pidx cmpl2) (cmpt_next c2) s1"
      using cr' new' r by (cases "ci_desc_used cmpl") auto
    have pr: "process_entries env dev (Suc m) p cnt c s = process_entries env dev m (ci_pidx cmpl2) (cnt + 1) (cmpt_next c2) s1"
      unfolding un ec(1) using new' ec(2) r by (cases "ci_desc_used cmpl") auto
    obtain rv p' cnt' c' s' n' where f: "process_entries env dev m (ci_pidx cmpl2) (cnt + 1) (cmpt_next c2) s1 = Some (rv, p', cnt', c', s')"
      "rx_ok lo w n' p' c'" "same_rest (cmpt_next c2) c'" "rv < 0 \<longrightarrow> cq_err c'" "unat (cnt + 1) \<le> unat cnt'"
      using Suc.IH [OF Suc.prems(1) _ cr2, of n2 "cnt + 1"] rx c1 Suc.prems(4) by auto
    have "same_rest c c'" using same_rest_trans [of c "cmpt_next c2" c'] sr f(3) by simp
    moreover have "unat cnt < unat cnt'" using f(5) c1 by simp
    ultimately show ?thesis using f pr by auto
  qed
qed

lemma acct_returned:
  assumes a: "acct lo w n p b f a" and S: "given_back True (lo mod unat (fq_size f)) w b (fq_sdesc f) S" and I: "length I = length (fq_sdesc_info f)"
  shows "acct ((lo + w) mod unat (fq_size f)) 0 n p b (f\<lparr>fq_sdesc := S, fq_sdesc_info := I\<rparr>) (a + of_nat w)"
proof -
  let ?N = "unat (fq_size f)" and ?S = "fq_sdesc f"
  note ad = a [unfolded acct_def]
  have N: "0 < ?N" "w + n < ?N" "?N < 2 ^ 31" "length ?S = ?N" using ad by (auto simp: ring_ok_def)
  have Sl: "length S = ?N" and Sn: "\<And>j. j < ?N \<Longrightarrow> S ! j = (if in_slots ?N lo w j then relen b (?S ! j) else ?S ! j)"
    using S N(4) by (auto simp: given_back_def in_slots_mod)
  have keep: "S ! ((lo + j) mod ?N) = ?S ! ((lo + j) mod ?N)" if "w \<le> j" "j < ?N" for j
    using Sn [of "(lo + j) mod ?N"] not_in_slots [OF that, of lo] N(1) by simp
  have same: "slice S ((lo + w) mod ?N) n = slice ?S ((lo + w) mod ?N) n"
    using keep [of "w + _"] Sl N by (intro slice_eqI) (auto simp: mod_simps add.assoc)
  have free: "sg_len (S ! (((lo + w) mod ?N + k) mod ?N)) = b" if k: "n \<le> k" "k < ?N" for k
  proof (cases "w + k < ?N")
    case True
    then have "sg_len (?S ! ((lo + (w + k)) mod ?N)) = b" using ad k by auto
    then show ?thesis using keep [of "w + k"] True by (simp add: mod_simps add.assoc)
  next
    case False
    define j where "j = w + k - ?N"
    have j: "j < w" "lo + w + k = lo + j + ?N" using False k N by (auto simp: j_def)
    have "((lo + w) mod ?N + k) mod ?N = (lo + w + k) mod ?N" by (simp add: mod_simps)
    then have "((lo + w) mod ?N + k) mod ?N = (lo + j) mod ?N" unfolding j(2) by simp
    moreover have "in_slots ?N lo w ((lo + j) mod ?N)" using j(1) by (auto simp: in_slots_def)
    ultimately show ?thesis using Sn [of "(lo + j) mod ?N"] N(1) by (simp add: relen_def)
  qed
  have "unat (a + of_nat w) = ?N - 1 - n" using ad N by (subst unat_plus_bounded) (simp_all add: unat_of_nat)
  moreover have "((lo + w) mod ?N + n) mod ?N = (lo + w + n) mod ?N" by (simp add: mod_simps)
  ultimately show ?thesis unfolding acct_def using ad N Sl I same free by simp
qed

lemma return_bufs_recycles:
  assumes ok: "flq_conf_ok c" and ne: "fq_pidx_pend (cq_flq c) \<noteq> pidx_pend"
  obtains rv s' where "return_bufs fuel dev upd_cmpl pidx_pend c s = Some (rv,
    let c1 = flq_recycle pidx_pend (ring_idx_delta (fq_pidx_pend (cq_flq c)) pidx_pend (fq_size (cq_flq c))) c
    in if upd_cmpl \<and> \<not> dq_stop_wait (cq_q c1) then last_free c1 else c1, s')"
proof -
  let ?n = "ring_idx_delta (fq_pidx_pend (cq_flq c)) pidx_pend (fq_size (cq_flq c))"
  obtain i where r: "qdma_flq_refill fuel pidx_pend ?n True c = Some (i, flq_recycle pidx_pend ?n c)"
    by (cases "refill_loop (unat ?n) True pidx_pend 0 c") (simp add: flq_recycle_def qdma_flq_refill_def Let_def)
  have fp: "(\<not> cf_fp_c2h_packet (conf_of c)) = True" using ok by (simp add: flq_conf_ok_def)
  define c1 where "c1 = flq_recycle pidx_pend ?n c"
  obtain rv s1 where u: "c2h_pidx_update dev (last_free c1) s = (rv, s1)" by fastforce
  have "\<exists>rv s'. return_bufs fuel dev upd_cmpl pidx_pend c s =
      Some (rv, if upd_cmpl \<and> \<not> dq_stop_wait (cq_q c1) then last_free c1 else c1, s')"
    unfolding return_bufs_def Let_def using ne r [folded c1_def] u fp
    by (cases "upd_cmpl \<and> \<not> dq_stop_wait (cq_q c1)"; cases "cf_fp_c2h_packet (conf_of (last_free c1))") auto
  then show thesis using that unfolding c1_def Let_def by blast
qed

lemma flq_conf_ok_cong:
  "flq_conf_ok c \<Longrightarrow> conf_of c' = conf_of c \<Longrightarrow> fq_desc_pg_shift (cq_flq c') = fq_desc_pg_shift (cq_flq c) \<Longrightarrow> flq_conf_ok c'"
  unfolding flq_conf_ok_def by metis

lemma last_free_kept [simp]: "rx_ok lo w n p (last_free c) = rx_ok lo w n p c" "dq_pidx (cq_q (last_free c)) = dq_pidx (cq_q c)"
  by (simp_all add: last_free_def rx_ok_def c2h_acct_def flq_conf_ok_def)

lemma return_bufs_accounts:
  assumes a: "rx_ok lo w n (dq_pidx (cq_q c)) c" and lo: "unat pidx_pend = lo" "lo < unat (fq_size (cq_flq c))"
  obtains lo' c' s' rv where "return_bufs fuel dev upd_cmpl pidx_pend c s = Some (rv, c', s')" and "rx_ok lo' 0 n (dq_pidx (cq_q c')) c'"
    and "dq_pidx (cq_q c') = dq_pidx (cq_q c)" and "dq_pend_list (cq_q c') = dq_pend_list (cq_q c)" and "conf_of c' = conf_of c"
    and "cq_err c' = cq_err c"
proof -
  let ?f = "cq_flq c" and ?b = "cf_c2h_bufsz (conf_of c)"
  have acc: "acct lo w n (dq_pidx (cq_q c)) ?b ?f (dq_avail (cq_q c))" and rs: "cf_rngsz (conf_of c) = fq_size ?f" and ok: "flq_conf_ok c"
    and le: "lens_ok ?b (fq_sdesc ?f)" using a by (auto simp: rx_ok_def c2h_acct_def)
  note ad = acc [unfolded acct_def]
  have dl: "unat (ring_idx_delta (fq_pidx_pend ?f) pidx_pend (fq_size ?f)) = w"
    using ad lo by (intro delta_slots [of _ _ _ lo]) auto
  show thesis
  proof (cases "fq_pidx_pend ?f = pidx_pend")
    case True
    then have "w = 0" using dl by (simp add: ring_idx_delta_def)
    moreover have "return_bufs fuel dev upd_cmpl pidx_pend c s = Some (0, c, s)" using True by (simp add: return_bufs_def)
    ultimately show thesis using a by (intro that [of 0 c s lo]) simp_all
  next
    case False
    define k where "k = ring_idx_delta (fq_pidx_pend ?f) pidx_pend (fq_size ?f)"
    have k: "k = of_nat w" "unat k = w" using dl unfolding k_def [symmetric] by (metis of_nat_unat ucast_id)+
    obtain S I where S: "length S = length (fq_sdesc ?f)" "length I = length (fq_sdesc_info ?f)"
      "\<And>j. j < length S \<Longrightarrow> S ! j = (if in_slots (length S) (unat pidx_pend) (unat k) j then relen ?b (fq_sdesc ?f ! j) else fq_sdesc ?f ! j)"
      and e: "\<exists>e. flq_recycle pidx_pend k c = c\<lparr>cq_flq := ?f\<lparr>fq_sdesc := S, fq_sdesc_info := I\<rparr>,
        cq_q := (cq_q c)\<lparr>dq_avail := dq_avail (cq_q c) + k, dq_pend_list_empty := e\<rparr>\<rparr>"
      by (rule flq_recycle_fields [of c pidx_pend k]) (use ad lo in auto)
    define c1 where "c1 = flq_recycle pidx_pend k c"
    obtain e where c1: "c1 = c\<lparr>cq_flq := ?f\<lparr>fq_sdesc := S, fq_sdesc_info := I\<rparr>,
        cq_q := (cq_q c)\<lparr>dq_avail := dq_avail (cq_q c) + k, dq_pend_list_empty := e\<rparr>\<rparr>" using e unfolding c1_def by blast
    have g: "given_back True (lo mod unat (fq_size ?f)) w ?b (fq_sdesc ?f) S" using S k lo by (simp add: given_back_def)
    have "rx_ok ((lo + w) mod unat (fq_size ?f)) 0 n (dq_pidx (cq_q c1)) c1"
      using acct_returned [OF acc g S(2)] lens_ok_given_back [OF le g] flq_conf_ok_cong [OF ok, of c1] rs
      unfolding rx_ok_def c2h_acct_def k(1) [symmetric] by (simp add: c1)
    moreover define c2 where "c2 = (if upd_cmpl \<and> \<not> dq_stop_wait (cq_q c1) then last_free c1 else c1)"
    ultimately have "rx_ok ((lo + w) mod unat (fq_size ?f)) 0 n (dq_pidx (cq_q c2)) c2"
      by (simp add: c2_def)
    then have rx: "rx_ok ((lo + w) mod unat (fq_size ?f)) 0 n (dq_pidx (cq_q c2)) c2" .
    obtain rv s' where "return_bufs fuel dev upd_cmpl pidx_pend c s = Some (rv, c2, s')"
      unfolding c2_def c1_def k_def using return_bufs_recycles [OF ok False, of fuel dev upd_cmpl s] unfolding Let_def by blast
    from this rx show thesis by (rule that) (simp_all add: c2_def c1 last_free_def)
  qed
qed

text \<open>The adaptive threshold only changes its own fields.\<close>

lemma use_counter_kept [simp]:
  "cq_q (use_counter env k c) = cq_q c" "cq_flq (use_counter env k c) = cq_flq c" "cq_err (use_counter env k c) = cq_err c"
  by (simp_all add: use_counter_def descq_adjust_c2h_cntr_avgs_def Let_def)

lemma step_threshold_kept [simp]:
  "cq_q (descq_incr_c2h_cntr_th env c) = cq_q c" "cq_flq (descq_incr_c2h_cntr_th env c) = cq_flq c"
  "cq_err (descq_incr_c2h_cntr_th env c) = cq_err c"
  "cq_q (descq_decr_c2h_cntr_th env b c) = cq_q c" "cq_flq (descq_decr_c2h_cntr_th env b c) = cq_flq c"
  "cq_err (descq_decr_c2h_cntr_th env b c) = cq_err c"
  by (simp_all add: descq_incr_c2h_cntr_th_def descq_decr_c2h_cntr_th_def Let_def)

lemma adjust_kept [simp]:
  "cq_q (descq_adjust_c2h_cntr_th env x y c) = cq_q c" "cq_flq (descq_adjust_c2h_cntr_th env x y c) = cq_flq c"
  "cq_err (descq_adjust_c2h_cntr_th env x y c) = cq_err c"
  by (simp_all add: descq_adjust_c2h_cntr_th_def Let_def)

lemma rx_ok_cong:
  assumes "conf_of c' = conf_of c" and "dq_avail (cq_q c') = dq_avail (cq_q c)" and "cq_flq c' = (cq_flq c)\<lparr>fq_pkt_cnt := u\<rparr>"
  shows "rx_ok lo w n p c' = rx_ok lo w n p c"
  using assms by (simp add: rx_ok_def c2h_acct_def acct_def flq_conf_ok_def)

lemma moderate_kept:
  assumes "moderate env dev b n c s = (c', s')"
  obtains u where "cq_q c' = cq_q c" and "cq_flq c' = (cq_flq c)\<lparr>fq_pkt_cnt := u\<rparr>" and "cq_err c' = cq_err c"
proof (cases "ce_intr_moderation env \<and> trig_mode (cq_cmpt_cidx_info c) = TRIG_MODE_COMBO")
  case True
  obtain pend s1 where p: "cmpt_pend dev c s = (pend, s1)" by fastforce
  define c1 where "c1 = (set_pkt_cnt pend c)\<lparr>cq_cmpt_cidx_info := (cq_cmpt_cidx_info (set_pkt_cnt pend c))
      \<lparr>cmpt_irq_en := (if b \<noteq> 0 \<and> pend > of_int b then 0 else 1)\<rparr>\<rparr>"
  have "c' = (if cf_adaptive_rx (conf_of c1) then descq_adjust_c2h_cntr_th env (pend + n) (of_int b) c1 else c1)"
    using assms True unfolding moderate_def c1_def by (simp add: p Let_def)
  moreover have "cq_q c1 = cq_q c" "cq_flq c1 = (cq_flq c)\<lparr>fq_pkt_cnt := pend\<rparr>" "cq_err c1 = cq_err c"
    by (simp_all add: c1_def set_pkt_cnt_def)
  ultimately show thesis by (intro that [of pend]) simp_all
next
  case False
  then have "c' = c" using assms unfolding moderate_def if_not_P [OF False] by simp
  then show thesis using that [of "fq_pkt_cnt (cq_flq c)"] by simp
qed

section \<open>The invariant\<close>

definition c2h_inv :: "c2h_q \<Rightarrow> bool" where
  "c2h_inv c \<longleftrightarrow>
     rx_ok (unat (fq_pidx_pend (cq_flq c))) 0
       (unat (ring_idx_delta (dq_pidx (cq_q c)) (fq_pidx_pend (cq_flq c)) (fq_size (cq_flq c)))) (dq_pidx (cq_q c)) c \<and>
     (\<forall>r \<in> set (dq_pend_list (cq_q c)). req_wf r)"

lemma acct_mod: "acct lo w n p b f a \<Longrightarrow> acct (lo mod unat (fq_size f)) w n p b f a"
proof -
  have "(lo mod N + w + n) mod N = (lo + w + n) mod N" for N by (metis mod_add_left_eq add.assoc)
  then show "acct lo w n p b f a \<Longrightarrow> acct (lo mod unat (fq_size f)) w n p b f a" by (simp add: acct_def mod_simps)
qed

lemma c2h_invI:
  assumes "rx_ok lo 0 n (dq_pidx (cq_q c)) c" and "\<forall>r \<in> set (dq_pend_list (cq_q c)). req_wf r"
  shows "c2h_inv c"
proof -
  have a: "acct lo 0 n (dq_pidx (cq_q c)) (cf_c2h_bufsz (conf_of c)) (cq_flq c) (dq_avail (cq_q c))"
    using assms(1) by (simp add: rx_ok_def c2h_acct_def)
  have "unat (fq_pidx_pend (cq_flq c)) = lo mod unat (fq_size (cq_flq c))" using a by (simp add: acct_def)
  then show ?thesis using acct_mod [OF a] acct_delta [OF a] assms by (simp add: c2h_inv_def rx_ok_def c2h_acct_def)
qed

lemma acct_pend_less: "acct lo w n p b f a \<Longrightarrow> unat (fq_pidx_pend f) < unat (fq_size f)"
  by (simp add: acct_def ring_ok_def)

lemma deliver_accounts:
  assumes a: "rx_ok lo 0 n p c" and lo: "lo = unat (fq_pidx_pend (cq_flq c))" and wf: "\<forall>r \<in> set (dq_pend_list (cq_q c)). req_wf r"
    and pp: "pidx_pend = fq_pidx_pend (cq_flq c)"
  obtains rv c' s' where "deliver fuel dev upd_cmpl pidx_pend pidx_cmpt p c s = Some (rv, c', s')" and "c2h_inv c'" and "cq_err c' = cq_err c"
proof -
  define c1 where "c1 = upd_q (\<lambda>q. q\<lparr>dq_pidx := p\<rparr>)
      (c\<lparr>cq_pidx_cmpt := pidx_cmpt, cq_cmpt_cidx_info := (cq_cmpt_cidx_info c)\<lparr>wrb_cidx := ucast (cq_cidx_cmpt c)\<rparr>\<rparr>)"
  have c1: "rx_ok lo 0 n (dq_pidx (cq_q c1)) c1" "\<forall>r \<in> set (dq_pend_list (cq_q c1)). req_wf r" "cq_err c1 = cq_err c" "conf_of c1 = conf_of c"
    using a wf rx_ok_cong [of c1 c "fq_pkt_cnt (cq_flq c)"] by (simp_all add: c1_def)
  have fp: "\<not> cf_fp_c2h_packet (conf_of c1)" using a by (simp add: c1(4) rx_ok_def flq_conf_ok_def)
  obtain rv1 s1 where u: "c2h_cidx_update dev c1 s = (rv1, s1)" by fastforce
  obtain c2 s2 where pk: "qdma_c2h_packets_proc_dflt dev c1 s1 = (c2, s2)" by fastforce
  show thesis
  proof (cases "rv1 < 0")
    case True
    then have "deliver fuel dev upd_cmpl pidx_pend pidx_cmpt p c s = Some (- EINVAL, c1, s1)"
      using fp u unfolding deliver_def c1_def by (simp add: Let_def)
    then show thesis using that c2h_invI [OF c1(1,2)] c1(3) by blast
  next
    case False
    obtain w2 n2 where c2: "rx_ok lo w2 n2 (dq_pidx (cq_q c2)) c2" "\<forall>r \<in> set (dq_pend_list (cq_q c2)). req_wf r" "cq_err c2 = cq_err c1" "conf_of c2 = conf_of c1"
      using packets_loop_accounts [OF c1(1,2) refl pk [unfolded qdma_c2h_packets_proc_dflt_def]] by blast
    obtain pend s3 where cp: "cmpt_pend dev c2 s2 = (pend, s3)" by fastforce
    define c3 where "c3 = set_pkt_cnt pend c2"
    have c3: "rx_ok lo w2 n2 (dq_pidx (cq_q c3)) c3" "\<forall>r \<in> set (dq_pend_list (cq_q c3)). req_wf r" "cq_err c3 = cq_err c"
      using c2 c1(3) by (simp_all add: c3_def set_pkt_cnt_def)
    have d: "deliver fuel dev upd_cmpl pidx_pend pidx_cmpt p c s = return_bufs fuel dev upd_cmpl pidx_pend c3 s3"
      using fp u False pk cp unfolding deliver_def c1_def c3_def by (simp add: Let_def)
    have "cf_rngsz (conf_of c3) = fq_size (cq_flq c3)" "cf_rngsz (conf_of c) = fq_size (cq_flq c)"
      "acct lo 0 n p (cf_c2h_bufsz (conf_of c)) (cq_flq c) (dq_avail (cq_q c))" using c3(1) a by (simp_all add: rx_ok_def c2h_acct_def)
    then have lt: "lo < unat (fq_size (cq_flq c3))" using acct_pend_less [of lo 0 n p _ "cq_flq c"] c2(4) c1(4) lo
      by (auto simp: c3_def set_pkt_cnt_def)
    obtain lo' c' s' rv where r: "return_bufs fuel dev upd_cmpl pidx_pend c3 s3 = Some (rv, c', s')" "rx_ok lo' 0 n2 (dq_pidx (cq_q c')) c'"
        "dq_pend_list (cq_q c') = dq_pend_list (cq_q c3)" "cq_err c' = cq_err c3"
      by (rule return_bufs_accounts [OF c3(1) _ lt, where pidx_pend = pidx_pend]) (use lo pp in simp)
    show thesis using that [of rv c' s'] d r c2h_invI [OF r(2)] c3 by simp
  qed
qed

text \<open>The entries that one call of \<^verbatim>\<open>descq_process_completion_st_c2h\<close> processes respect the credit.\<close>

definition in_credit :: "'s c2h_env \<Rightarrow> 's c2h_dev \<Rightarrow> int \<Rightarrow> c2h_q \<Rightarrow> 's \<Rightarrow> bool" where
  "in_credit env dev budget c s \<longleftrightarrow>
     (let (p, s) = cd_cmpt_pidx dev s; pend = ring_idx_delta (ucast p) (cq_cidx_cmpt c) (cf_rngsz_cmpt (conf_of c));
          n = (if budget = 0 \<or> budget > sint pend then sint pend else budget)
      in credit_ok env dev (nat n) (dq_pidx (cq_q c)) (set_pkt_cnt pend c) s)"

lemma entries_bounded:
  fixes pend :: u32
  shows "nat (if budget = 0 \<or> budget > sint pend then sint pend else budget) < 2 ^ 32"
proof -
  have "sint pend < 2 ^ 31" using sint_lt [of pend] by simp
  then show ?thesis by auto
qed

lemma completion_accounts:
  assumes inv: "c2h_inv c" and ul: "ce_ul_cmpt_entry env = None" and cr: "in_credit env dev budget c s"
  obtains rv c' s' where "descq_process_completion_st_c2h fuel env dev budget upd_cmpl c s = Some (rv, c', s')" and "cq_err c' \<or> c2h_inv c'"
proof -
  obtain p s1 where p: "cd_cmpt_pidx dev s = (p, s1)" by fastforce
  define pend where "pend = ring_idx_delta (ucast p) (cq_cidx_cmpt c) (cf_rngsz_cmpt (conf_of c))"
  define m where "m = nat (if budget = 0 \<or> budget > sint pend then sint pend else budget)"
  define c1 where "c1 = set_pkt_cnt pend c"
  show thesis
  proof (cases "cq_err c \<or> pend = 0")
    case True
    then have "\<exists>rv s'. descq_process_completion_st_c2h fuel env dev budget upd_cmpl c s = Some (rv, c, s')"
      using p unfolding descq_process_completion_st_c2h_def pend_def by (auto simp: Let_def split: prod.splits)
    then show thesis using that inv by blast
  next
    case False
    let ?lo = "unat (fq_pidx_pend (cq_flq c))" and ?P = "dq_pidx (cq_q c)"
    obtain n where rx: "rx_ok ?lo 0 n ?P c" and wf: "\<forall>r \<in> set (dq_pend_list (cq_q c)). req_wf r" using inv by (auto simp: c2h_inv_def)
    have c1: "rx_ok ?lo 0 n ?P c1" using rx by (simp add: c1_def set_pkt_cnt_def)
    have crm: "credit_ok env dev m ?P c1 s1" using cr unfolding in_credit_def p Let_def prod.case m_def pend_def c1_def .
    have lt: "unat (0::u32) + m < 2 ^ 32" using entries_bounded [of budget pend] by (simp add: m_def)
    obtain rv p' cnt c2 s2 n2 where pr: "process_entries env dev m ?P 0 c1 s1 = Some (rv, p', cnt, c2, s2)" and c2: "rx_ok ?lo 0 n2 p' c2"
      and sr: "same_rest c1 c2" and er: "rv < 0 \<longrightarrow> cq_err c2" and cp: "cnt = 0 \<longrightarrow> p' = ?P"
      using process_entries_accounts [OF ul c1 crm lt] by auto
    define c2' where "c2' = set_pkt_cnt (fq_pkt_cnt (cq_flq c2) - cnt) c2"
    obtain c3 s3 where mo: "moderate env dev budget cnt c2' s2 = (c3, s3)" by fastforce
    obtain u where "cq_q c3 = cq_q c2'" "cq_flq c3 = (cq_flq c2')\<lparr>fq_pkt_cnt := u\<rparr>" "cq_err c3 = cq_err c2'"
      by (rule moderate_kept [OF mo])
    then have c3: "cq_q c3 = cq_q c2" "cq_flq c3 = (cq_flq c2)\<lparr>fq_pkt_cnt := u\<rparr>" by (simp_all add: c2'_def set_pkt_cnt_def)
    then have rx3: "rx_ok ?lo 0 n2 p' c3" using c2 rx_ok_cong [of c3 c2 u] by simp
    have k3: "fq_pidx_pend (cq_flq c3) = fq_pidx_pend (cq_flq c)" "dq_pend_list (cq_q c3) = dq_pend_list (cq_q c)" "dq_pidx (cq_q c3) = ?P"
      using sr c3 by (simp_all add: same_rest_def c1_def set_pkt_cnt_def)
    have q1: "dq_pidx (cq_q c1) = ?P" by (simp add: c1_def set_pkt_cnt_def)
    have eq: "descq_process_completion_st_c2h fuel env dev budget upd_cmpl c s =
      (if rv < 0 then Some (rv, c2, s2) else if cnt = 0 then Some (0, c3, s3)
       else deliver fuel dev upd_cmpl (fq_pidx_pend (cq_flq c)) (ucast p) p' c3 s3)"
      unfolding descq_process_completion_st_c2h_def p Let_def prod.case pend_def [symmetric] c1_def [symmetric] m_def [symmetric] q1
      using False by (simp add: pr mo [unfolded c2'_def])
    consider "rv < 0" | "\<not> rv < 0" "cnt = 0" | "\<not> rv < 0" "cnt \<noteq> 0" by blast
    then show thesis
    proof cases
      case 1
      then show thesis using that eq er by simp
    next
      case 2
      then have "c2h_inv c3" using c2h_invI [of ?lo n2 c3] rx3 cp k3 wf by simp
      then show thesis using that eq 2 by simp
    next
      case 3
      obtain rv' c' s' where "deliver fuel dev upd_cmpl (fq_pidx_pend (cq_flq c)) (ucast p) p' c3 s3 = Some (rv', c', s')" "c2h_inv c'"
        by (rule deliver_accounts [OF rx3]) (use k3 wf in simp_all)
      then show thesis using that eq 3 by simp
    qed
  qed
qed

section \<open>A new queue\<close>

lemma shift_of_pow2: "k < 31 \<Longrightarrow> of_nat (fls (get_next_powof2 (2 ^ k))) - 1 = (of_nat k :: u8)"
proof -
  have "\<forall>k \<in> set [0 ..< 31]. of_nat (fls (get_next_powof2 (2 ^ k))) - 1 = (of_nat k :: u8)" by code_simp
  then show "k < 31 \<Longrightarrow> of_nat (fls (get_next_powof2 (2 ^ k))) - 1 = (of_nat k :: u8)" by simp
qed

definition fill_frame :: "c2h_q \<Rightarrow> c2h_q \<Rightarrow> bool" where
  "fill_frame c c' \<longleftrightarrow>
     same_rest c c' \<and> dq_avail (cq_q c') = dq_avail (cq_q c) \<and> cq_err c' = cq_err c \<and>
     fq_pkt_dlen (cq_flq c') = fq_pkt_dlen (cq_flq c) \<and> fq_sdesc_info (cq_flq c') = fq_sdesc_info (cq_flq c) \<and>
     length (fq_sdesc (cq_flq c')) = length (fq_sdesc (cq_flq c))"

lemma fill_frame_trans: "fill_frame a b \<Longrightarrow> fill_frame b c \<Longrightarrow> fill_frame a c"
  by (simp add: fill_frame_def same_rest_def)

lemma fill_one_frame:
  assumes "flq_fill_one i c = (rv, c')"
  shows "fill_frame c c'"
    and "\<not> rv < 0 \<Longrightarrow> i < length (fq_sdesc (cq_flq c)) \<Longrightarrow> sg_len (fq_sdesc (cq_flq c') ! i) = cf_c2h_bufsz (conf_of c)"
    and "j \<noteq> i \<Longrightarrow> fq_sdesc (cq_flq c') ! j = fq_sdesc (cq_flq c) ! j"
  using assms by (auto simp: flq_fill_one_def fill_frame_def same_rest_def Let_def split: if_splits option.splits)

lemma fill_bufs_frame:
  assumes "fill_bufs is c = (rv, c')" and "\<not> rv < 0" and "set is \<subseteq> {..< length (fq_sdesc (cq_flq c))}"
  shows "fill_frame c c' \<and> (\<forall>i. i \<in> set is \<or> i < length (fq_sdesc (cq_flq c)) \<and> sg_len (fq_sdesc (cq_flq c) ! i) = cf_c2h_bufsz (conf_of c) \<longrightarrow>
    sg_len (fq_sdesc (cq_flq c') ! i) = cf_c2h_bufsz (conf_of c))"
  using assms
proof (induction "is" arbitrary: c)
  case Nil
  then show ?case by (auto simp: fill_frame_def same_rest_def)
next
  case (Cons i "is")
  obtain rv1 c1 where f: "flq_fill_one i c = (rv1, c1)" by fastforce
  have n: "\<not> rv1 < 0" "fill_bufs is c1 = (rv, c')" using Cons.prems(1,2) f by (auto split: if_splits)
  have fr: "fill_frame c c1" using fill_one_frame(1) [OF f] .
  then have k: "length (fq_sdesc (cq_flq c1)) = length (fq_sdesc (cq_flq c))" "conf_of c1 = conf_of c" by (simp_all add: fill_frame_def same_rest_def)
  note IH = Cons.IH [OF n(2) Cons.prems(2), unfolded k]
  have "fill_frame c c'" using fill_frame_trans [OF fr] IH Cons.prems(3) by auto
  moreover have "sg_len (fq_sdesc (cq_flq c') ! j) = cf_c2h_bufsz (conf_of c)"
    if "j \<in> set (i # is) \<or> j < length (fq_sdesc (cq_flq c)) \<and> sg_len (fq_sdesc (cq_flq c) ! j) = cf_c2h_bufsz (conf_of c)" for j
    using that IH fill_one_frame(2) [OF f n(1)] fill_one_frame(3) [OF f, of j] Cons.prems(3) by (cases "j = i") auto
  ultimately show ?case by blast
qed

text \<open>The result of \<^verbatim>\<open>qdma_descq_config_complete\<close> and \<^verbatim>\<open>qdma_descq_alloc_resource\<close> on a queue without buffers.\<close>

definition c2h_fresh :: "c2h_q \<Rightarrow> bool" where
  "c2h_fresh c \<longleftrightarrow>
     cq_flq c = flq_zero \<and> dq_avail (cq_q c) = cf_rngsz (conf_of c) - 1 \<and> dq_pidx (cq_q c) = 0 \<and> dq_pend_list (cq_q c) = [] \<and>
     ring_ok (cf_rngsz (conf_of c)) \<and> \<not> cf_fp_c2h_packet (conf_of c) \<and>
     (\<exists>k < 31. cf_c2h_bufsz (conf_of c) = 2 ^ k) \<and> unat (cf_rngsz (conf_of c)) * unat (cf_c2h_bufsz (conf_of c)) < 2 ^ 31"

lemma alloc_filled:
  assumes a: "descq_flq_alloc_resource pg_ok sd_ok c = Some (rv, c')" and rv: "\<not> rv < 0"
  obtains c1 rv1 where "fill_bufs [0 ..< unat (fq_size (cq_flq c))] c1 = (rv1, c')" and "\<not> rv1 < 0"
    and "length (fq_sdesc (cq_flq c1)) = unat (fq_size (cq_flq c))" and "length (fq_sdesc_info (cq_flq c1)) = unat (fq_size (cq_flq c))"
    and "same_rest c c1" and "dq_avail (cq_q c1) = dq_avail (cq_q c)" and "fq_pkt_dlen (cq_flq c1) = fq_pkt_dlen (cq_flq c)"
proof -
  let ?bufs = "drop_bit (unat (fq_desc_pg_shift (cq_flq c))) (fq_max_pg_offset (cq_flq c))"
  let ?n = "num_pages_of (fq_size (cq_flq c)) ?bufs" and ?k = "unat (fq_size (cq_flq c))"
  obtain rv0 pgs refs ps where fp: "fill_pages (replicate (unat ?n) pg_sdesc_zero) (cq_refs c, cq_pages c) = (rv0, pgs, refs, ps)"
    by (metis prod_cases4)
  define c0 where "c0 = c\<lparr>cq_flq := (cq_flq c)\<lparr>fq_num_bufs_per_pg := ?bufs, fq_num_pages := ?n, fq_num_pgs_mask := ?n - 1, fq_pg_sdesc := pgs\<rparr>,
      cq_refs := refs, cq_pages := ps\<rparr>"
  define c1 where "c1 = upd_flq (\<lambda>f. f\<lparr>fq_sdesc := replicate ?k sdesc_zero, fq_sdesc_info := replicate ?k sinfo_zero, fq_alloc_idx := 0\<rparr>) c0"
  obtain rv1 c2 where fb: "fill_bufs [0 ..< ?k] c1 = (rv1, c2)" by fastforce
  have eq: "descq_flq_alloc_resource pg_ok sd_ok c =
    (if ?bufs = 0 then Some (- EINVAL, c\<lparr>cq_flq := (cq_flq c)\<lparr>fq_num_bufs_per_pg := ?bufs\<rparr>\<rparr>)
     else if \<not> pg_ok then Some (- ENOMEM, c\<lparr>cq_flq := (cq_flq c)\<lparr>fq_num_bufs_per_pg := ?bufs, fq_num_pages := ?n, fq_num_pgs_mask := ?n - 1\<rparr>\<rparr>)
     else if rv0 < 0 then map_option (\<lambda>c. (rv0, c)) (descq_flq_free_page_resource c0)
     else if \<not> sd_ok then map_option (\<lambda>c. (- ENOMEM, c)) (descq_flq_free_page_resource c0)
     else if rv1 < 0 then map_option (\<lambda>c. (rv1, c)) (descq_flq_free_page_resource (descq_flq_free_resource c2))
     else Some (0, c2))"
    using fb unfolding c1_def c0_def by (simp add: descq_flq_alloc_resource_def Let_def fp)
  have "\<not> rv1 < 0 \<and> c' = c2" using a rv unfolding eq by (auto split: if_splits)
  then show thesis using fb by (intro that [of c1 rv1]) (simp_all add: c1_def c0_def same_rest_def)
qed

lemma alloc_accounts:
  assumes fr: "c2h_fresh c" and al: "c2h_alloc_resource desc_ok pg_ok sd_ok cmpt_ok c = Some (0, c')"
  shows "c2h_inv c'"
proof -
  let ?b = "cf_c2h_bufsz (conf_of c)" and ?N = "unat (cf_rngsz (conf_of c))"
  define c0 where "c0 = upd_flq (flq_conf (cf_rngsz (conf_of c)) ?b) (upd_q (dq_desc_update (\<lambda>_. replicate ?N \<lparr>c2h_dst_addr = 0\<rparr>)) c)"
  obtain k where k: "k < 31" "?b = 2 ^ k" using fr by (auto simp: c2h_fresh_def)
  have c0: "fq_size (cq_flq c0) = cf_rngsz (conf_of c)" "fq_desc_pg_shift (cq_flq c0) = of_nat k" "fq_pidx_pend (cq_flq c0) = 0"
    "fq_pkt_dlen (cq_flq c0) = 0" "cq_q c0 = (cq_q c)\<lparr>dq_desc := replicate ?N \<lparr>c2h_dst_addr = 0\<rparr>\<rparr>"
    using fr shift_of_pow2 [OF k(1)] by (simp_all add: c0_def flq_conf_def Let_def c2h_fresh_def flq_zero_def k(2))
  obtain rv c2 where da: "descq_flq_alloc_resource pg_ok sd_ok c0 = Some (rv, c2)" "\<not> rv < 0" and c': "c' = c2\<lparr>cq_color := True\<rparr>"
    using al unfolding c2h_alloc_resource_def Let_def c0_def by (auto split: if_splits bind_splits)
  obtain c1 rv1 where fb: "fill_bufs [0 ..< ?N] c1 = (rv1, c2)" "\<not> rv1 < 0" and l: "length (fq_sdesc (cq_flq c1)) = ?N" "length (fq_sdesc_info (cq_flq c1)) = ?N"
    and sr: "same_rest c0 c1" "dq_avail (cq_q c1) = dq_avail (cq_q c)" "fq_pkt_dlen (cq_flq c1) = 0"
    using alloc_filled [OF da] c0 by auto
  have ff: "fill_frame c1 c2" "\<And>j. j < ?N \<Longrightarrow> sg_len (fq_sdesc (cq_flq c2) ! j) = cf_c2h_bufsz (conf_of c1)"
    using fill_bufs_frame [OF fb] l by (auto simp: atLeast0LessThan)
  have k2: "conf_of c2 = conf_of c" "fq_size (cq_flq c2) = cf_rngsz (conf_of c)" "fq_desc_pg_shift (cq_flq c2) = of_nat k" "fq_pidx_pend (cq_flq c2) = 0"
    "fq_pkt_dlen (cq_flq c2) = 0" "dq_avail (cq_q c2) = cf_rngsz (conf_of c) - 1" "dq_pidx (cq_q c2) = 0" "dq_pend_list (cq_q c2) = []"
    "length (fq_sdesc (cq_flq c2)) = ?N" "length (fq_sdesc_info (cq_flq c2)) = ?N" "conf_of c1 = conf_of c"
    using ff(1) sr c0 l fr by (simp_all add: fill_frame_def same_rest_def c2h_fresh_def)
  have ring: "ring_ok (cf_rngsz (conf_of c))" using fr by (simp add: c2h_fresh_def)
  have "unat (cf_rngsz (conf_of c) - 1) = ?N - 1" using ring by (subst unat_minus_bounded) (simp_all add: ring_ok_def)
  then have "acct 0 0 0 0 ?b (cq_flq c2) (cf_rngsz (conf_of c) - 1)"
    using ring ff(2) k2 by (simp add: acct_def ring_ok_def slice_def)
  moreover have "lens_ok ?b (fq_sdesc (cq_flq c2))" using ff(2) k2 by (simp add: lens_ok_nth)
  moreover have "flq_conf_ok c2" using fr k unfolding flq_conf_ok_def c2h_fresh_def k2(1,3) by (simp add: word_less_nat_alt unat_of_nat)
  ultimately have "rx_ok 0 0 0 (dq_pidx (cq_q c2)) c2" using k2 unfolding rx_ok_def c2h_acct_def by simp
  then have "rx_ok 0 0 0 (dq_pidx (cq_q c')) c'" using rx_ok_cong [of c' c2 "fq_pkt_cnt (cq_flq c2)"] by (simp add: c')
  then show ?thesis by (rule c2h_invI) (simp add: c' k2)
qed

section \<open>Reads\<close>

lemma refill_loop_err: "cq_err (snd (refill_loop n True idx i c)) = cq_err c"
  by (induction n arbitrary: idx i c) (auto simp: Let_def entry_back_def)

lemma flq_recycle_err [simp]: "cq_err (flq_recycle idx n c) = cq_err c"
  using refill_loop_err [of "unat n" idx 0 c]
  by (cases "refill_loop (unat n) True idx 0 c") (simp add: flq_recycle_def qdma_flq_refill_def Let_def)

lemma read_err:
  assumes rd: "descq_st_c2h_read dev update_pidx refill req c s = (rv, req', c', s')"
  shows "cq_err c' = cq_err c"
proof -
  let ?n = "ring_idx_delta (dq_pidx (cq_q c)) (fq_pidx_pend (cq_flq c)) (fq_size (cq_flq c))"
  obtain i foff k r where re: "read_entries (rq_no_memcpy req) (fq_sdesc (cq_flq c)) (unat ?n) (unat (fq_pidx_pend (cq_flq c))) 0
      (read_start req (cq_bytes c)) = (i, foff, k, r)" by (rule prod_cases4)
  define c1 where "c1 = upd_q (incr_cmpl_desc_cnt i) (c\<lparr>cq_bytes := rd_bytes r\<rparr>)"
  define c2 where "c2 = (if refill \<and> i \<noteq> 0 then flq_recycle (fq_pidx_pend (cq_flq c)) i c1 else c1)"
  define c3 where "c3 = upd_flq (\<lambda>g. g\<lparr>fq_pidx_pend := ring_idx_incr (fq_pidx_pend g) i (fq_size g)\<rparr>) c2"
  define c4 where "c4 = (if foff \<noteq> 0 then upd_flq (advance_entry k foff) c3 else c3)"
  define c5 where "c5 = (if i \<noteq> 0 \<and> update_pidx then last_free c4 else c4)"
  define us where "us = (if i \<noteq> 0 \<and> update_pidx then c2h_pidx_update dev c5 s else (0, s))"
  have "cq_err c5 = cq_err c" by (simp add: c5_def c4_def c3_def c2_def c1_def last_free_def)
  moreover have "descq_st_c2h_read dev update_pidx refill req c s = (if ?n = 0 then (0, req, c, s)
      else if cb_sg_idx req \<noteq> 0 \<and> length (rq_sgl req) \<le> unat (cb_sg_idx req) then (- EINVAL, req, c, s)
      else (case us of (rv, s) \<Rightarrow> if rv < 0 then (- EINVAL, req, c5, s)
      else (sint (rd_copied r), req\<lparr>cb_sg_idx := rd_j r, cb_sg_offset := rd_tsgoff r, cb_left := cb_left req - rd_copied r\<rparr>,
        upd_flq (\<lambda>g. g\<lparr>fq_pkt_dlen := fq_pkt_dlen g - rd_copied r\<rparr>) c5, s)))"
    unfolding descq_st_c2h_read_def
    by (simp only: re prod.case Let_def c1_def [symmetric] c2_def [symmetric] c3_def [symmetric]
      c4_def [symmetric] c5_def [symmetric] us_def [symmetric] cong: let_weak_cong)
  ultimately show ?thesis using rd by (cases us) (auto split: if_splits)
qed

lemma c2h_inv_cong:
  assumes "c2h_inv c" and "cf_rngsz (conf_of c') = cf_rngsz (conf_of c)" and "cf_c2h_bufsz (conf_of c') = cf_c2h_bufsz (conf_of c)"
    and "cf_fp_c2h_packet (conf_of c') = cf_fp_c2h_packet (conf_of c)" and "dq_avail (cq_q c') = dq_avail (cq_q c)" and "dq_pidx (cq_q c') = dq_pidx (cq_q c)"
    and "\<forall>r \<in> set (dq_pend_list (cq_q c')). req_wf r" and "cq_flq c' = cq_flq c"
  shows "c2h_inv c'"
  using assms unfolding c2h_inv_def rx_ok_def c2h_acct_def flq_conf_ok_def by metis

lemma c2h_inv_reqs: "c2h_inv c \<Longrightarrow> \<forall>r \<in> set (dq_pend_list (cq_q c)). req_wf r"
  by (simp add: c2h_inv_def)

lemma read_keeps:
  assumes inv: "c2h_inv c" and wf: "req_wf req" and upd: "\<forall>c s. 0 \<le> fst (c2h_pidx_update dev c s)"
    and rd: "descq_st_c2h_read dev True True req c s = (rv, req', c', s')"
  shows "c2h_inv c'" and "req_wf req'"
proof -
  have rx: "rx_ok (unat (fq_pidx_pend (cq_flq c))) 0
      (unat (ring_idx_delta (dq_pidx (cq_q c)) (fq_pidx_pend (cq_flq c)) (fq_size (cq_flq c)))) (dq_pidx (cq_q c)) c"
    and pl: "\<forall>r \<in> set (dq_pend_list (cq_q c)). req_wf r" using inv by (auto simp: c2h_inv_def)
  obtain lo' w' n' where r: "rx_ok lo' w' n' (dq_pidx (cq_q c')) c'" "if True then w' = 0 else lo' = unat (fq_pidx_pend (cq_flq c))" "req_wf req'"
      "dq_pend_list (cq_q c') = dq_pend_list (cq_q c)"
    by (rule read_accounts [OF rx wf _ _ rd]) (use upd in simp_all)
  show "c2h_inv c'" using c2h_invI [of lo' n' c'] r pl by simp
  show "req_wf req'" by (rule r(3))
qed

lemma set_cmpl_ctrl_fields [simp]:
  "cq_err (set_cmpl_ctrl cc c) = cq_err c" "cq_flq (set_cmpl_ctrl cc c) = cq_flq c" "dq_avail (cq_q (set_cmpl_ctrl cc c)) = dq_avail (cq_q c)"
  "dq_pidx (cq_q (set_cmpl_ctrl cc c)) = dq_pidx (cq_q c)" "dq_pend_list (cq_q (set_cmpl_ctrl cc c)) = dq_pend_list (cq_q c)"
  "cf_rngsz (conf_of (set_cmpl_ctrl cc c)) = cf_rngsz (conf_of c)" "cf_c2h_bufsz (conf_of (set_cmpl_ctrl cc c)) = cf_c2h_bufsz (conf_of c)"
  "cf_fp_c2h_packet (conf_of (set_cmpl_ctrl cc c)) = cf_fp_c2h_packet (conf_of c)"
  by (simp_all add: set_cmpl_ctrl_def)

lemma packet_read_keeps:
  assumes inv: "cq_err c \<or> c2h_inv c" and wf: "req_wf (cb_reset req)" and upd: "\<forall>c s. 0 \<le> fst (c2h_pidx_update dev c s)"
    and rd: "qdma_queue_packet_read dev cctrl req c s = (rv, req', c', s')"
  shows "cq_err c' \<or> c2h_inv c'"
proof (cases "is_st_c2h (conf_of c)")
  case False
  then show ?thesis using rd inv by (auto simp: qdma_queue_packet_read_def)
next
  case True
  obtain rv1 c1 s1 where c1: "(case cctrl of None \<Rightarrow> (0, c, s)
      | Some cc \<Rightarrow> let c = set_cmpl_ctrl cc c; (rv, s) = c2h_cidx_update dev c s in (rv, c, s)) = (rv1, c1, s1)" by (rule prod_cases3)
  then have "c1 = c \<or> (\<exists>cc. c1 = set_cmpl_ctrl cc c)" by (auto simp: Let_def split: option.splits prod.splits)
  moreover have "cq_err (set_cmpl_ctrl cc c) = cq_err c" "c2h_inv c \<Longrightarrow> c2h_inv (set_cmpl_ctrl cc c)" for cc
    using c2h_inv_cong [of c "set_cmpl_ctrl cc c"] c2h_inv_reqs [of c] by simp_all
  ultimately have k: "cq_err c1 = cq_err c" "c2h_inv c \<Longrightarrow> c2h_inv c1" by auto
  obtain rv2 req2 c2 s2 where r: "descq_st_c2h_read dev True True (cb_reset req) c1 s1 = (rv2, req2, c2, s2)" by (rule prod_cases4)
  have c': "c' = (if rv1 < 0 then c1 else c2)" using rd True unfolding qdma_queue_packet_read_def c1 by (auto simp: r split: if_splits)
  show ?thesis using inv k read_keeps(1) [OF _ wf upd r] read_err [OF r] unfolding c' by auto
qed

lemma submit_keeps:
  assumes inv: "cq_err c \<or> c2h_inv c" and wf: "req_wf req" and upd: "\<forall>c s. 0 \<le> fst (c2h_pidx_update dev c s)"
    and rd: "qdma_request_submit_st_c2h dev req c s = (rv, req', c', s')"
  shows "cq_err c' \<or> c2h_inv c'"
proof (cases "dq_stop_wait (cq_q c) \<or> dq_state (cq_q c) \<noteq> Q_STATE_ONLINE")
  case True
  then show ?thesis using rd inv by (auto simp: qdma_request_submit_st_c2h_def Let_def split: if_splits)
next
  case False
  let ?req = "req\<lparr>cb_left := rq_count req\<rparr>"
  define c1 where "c1 = upd_q (\<lambda>q. q\<lparr>dq_pend_list := dq_pend_list q @ [?req]\<rparr>) c"
  have wf1: "req_wf ?req" using wf by (simp add: req_wf_def target_ok_def read_start_def)
  have i1: "cq_err c1 = cq_err c" "c2h_inv c \<Longrightarrow> c2h_inv c1"
    using c2h_inv_cong [of c c1] c2h_inv_reqs [of c] wf1 by (simp_all add: c1_def)
  obtain rv2 req2 c2 s2 where r: "descq_st_c2h_read dev True True ?req c1 s = (rv2, req2, c2, s2)" by (rule prod_cases4)
  have i2: "cq_err c2 = cq_err c1" "c2h_inv c1 \<Longrightarrow> c2h_inv c2 \<and> req_wf req2" using read_err [OF r] read_keeps [OF _ wf1 upd r] by auto
  have c': "c' = (if cb_left req2 = 0 then upd_q (\<lambda>q. q\<lparr>dq_pend_list := dq_pend_list (cq_q c)\<rparr>) c2
      else upd_q (\<lambda>q. q\<lparr>dq_pend_list := dq_pend_list (cq_q c) @ [req2], dq_pend_list_empty := False\<rparr>) c2)"
    using rd False r unfolding qdma_request_submit_st_c2h_def c1_def by (auto simp: Let_def split: if_splits)
  have "cq_err c' = cq_err c2" unfolding c' by simp
  moreover have "c2h_inv c2 \<Longrightarrow> c2h_inv c'" if "c2h_inv c"
    using c2h_inv_cong [of c2 c'] c2h_inv_reqs [OF that] that i1(2) i2(2) unfolding c' by simp
  ultimately show ?thesis using inv i1 i2 by auto
qed

end
