(* ===== verification/DescqC2hSetup.thy ===== *)
theory DescqC2hSetup
  imports DescqC2hProc
begin

text \<open>
  Setup of queues with a completion ring: the configuration of such a queue
  (\<^verbatim>\<open>qdma_descq_config_complete\<close>, \<^verbatim>\<open>qdma_descq_prog_hw\<close>, \<^verbatim>\<open>qdma_q_init_pointers\<close>,
  \<^verbatim>\<open>qdma_queue_update_pointers\<close> in \<^verbatim>\<open>qdma_descq.c\<close>), the order of the counter thresholds
  (\<^verbatim>\<open>qdma_sort_c2h_cntr_th_values\<close> in \<^verbatim>\<open>qdma_regs.c\<close>), and reading of completion data
  (\<^verbatim>\<open>qdma_descq_read_cmpt_data\<close>).
\<close>

section \<open>Order of the counter thresholds\<close>

text \<open>\<open>ref\<close> is the index found last (\<open>None\<close> in the first round), \<open>least\<close> the value found last.\<close>

definition th_skip :: "u32 list \<Rightarrow> nat option \<Rightarrow> u8 \<Rightarrow> nat \<Rightarrow> bool" where
  "th_skip th ref least i \<longleftrightarrow> ref = Some i \<or> th ! i < ucast least"

fun th_scan :: "u32 list \<Rightarrow> nat option \<Rightarrow> u8 \<Rightarrow> nat list \<Rightarrow> u8 \<times> u8 \<Rightarrow> u8 \<times> u8" where
  "th_scan th ref least [] vi = vi"
| "th_scan th ref least (i # is) vi =
     th_scan th ref least is
       (if \<not> th_skip th ref least i \<and> ucast (fst vi) \<ge> th ! i then (ucast (th ! i), of_nat i) else vi)"

fun th_round :: "u32 list \<Rightarrow> nat option \<Rightarrow> u8 \<Rightarrow> nat list \<Rightarrow> u8 \<times> u8 \<Rightarrow> u8 \<times> u8" where
  "th_round th ref least [] vi = vi"
| "th_round th ref least (i # is) vi =
     (if th_skip th ref least i then th_round th ref least is vi
      else th_scan th ref least (i # is) (ucast (th ! i), of_nat i))"

fun th_rounds :: "nat \<Rightarrow> u32 list \<Rightarrow> nat option \<Rightarrow> u8 \<Rightarrow> u8 \<times> u8 \<Rightarrow> u8 \<Rightarrow> u8 list" where
  "th_rounds 0 th ref least vi j = []"
| "th_rounds (Suc n) th ref least vi j =
     (let (val, idx) = th_round th ref least [0 ..< 16] vi
      in idx # th_rounds n th (Some (unat idx)) val (val, j + 1) (j + 1))"

definition qdma_sort_c2h_cntr_th_values :: "u32 list \<Rightarrow> u8 list" where
  "qdma_sort_c2h_cntr_th_values th = th_rounds 16 th None 0 (ucast (th ! 0), 0) 0"

section \<open>Configuration\<close>

text \<open>The completion ring is the smallest ring that is larger than the one asked for, if there is one.\<close>

fun best_fit :: "u32 list \<Rightarrow> u32 \<Rightarrow> nat list \<Rightarrow> nat option \<Rightarrow> nat option" where
  "best_fit sz v [] best = best"
| "best_fit sz v (i # is) best =
     best_fit sz v is
       (if sz ! i > v
        then case best of None \<Rightarrow> Some i | Some b \<Rightarrow> if sz ! i < sz ! b then Some i else best
        else best)"

definition has_cmpt_ring :: "qdma_queue_conf \<Rightarrow> bool" where
  "has_cmpt_ring c \<longleftrightarrow> cf_st c \<and> cf_q_type c = Q_C2H \<or> \<not> cf_st c \<and> cf_q_type c = Q_CMPT"

definition cmpt_conf :: "global_csr_conf \<Rightarrow> qdma_queue_conf \<Rightarrow> qdma_queue_conf" where
  "cmpt_conf csr c =
     (let sz = cs_ring_sz csr; v = sz ! unat (cf_cmpl_rng_sz_idx c);
          idx = (case best_fit sz v [0 ..< 16] None of Some b \<Rightarrow> of_nat b | None \<Rightarrow> cf_cmpl_rng_sz_idx c)
      in c\<lparr>cf_cmpl_rng_sz_idx := idx, cf_rngsz_cmpt := sz ! unat idx - 1,
           cf_c2h_bufsz := cs_c2h_buf_sz csr ! unat (cf_c2h_buf_sz_idx c)\<rparr>)"

definition cmpt_info :: "qdma_queue_conf \<Rightarrow> qdma_q_cmpt_cidx_reg_info \<Rightarrow> qdma_q_cmpt_cidx_reg_info" where
  "cmpt_info c i =
     i\<lparr>cmpt_irq_en := cf_cmpl_en_intr c, trig_mode := cf_cmpl_trig_mode c, timer_idx := cf_cmpl_timer_idx c,
       counter_idx := cf_cmpl_cnt_th_idx c, wrb_en := cf_cmpl_stat_en c\<rparr>"

text \<open>The position of the threshold in the order, and the first averages.\<close>

definition counter_pos :: "'s c2h_env \<Rightarrow> u8 \<Rightarrow> u8 \<Rightarrow> u8" where
  "counter_pos env idx old =
     (case List.find (\<lambda>i. ce_sorted_c2h_cntr_idx env ! i = idx) [0 ..< 16] of Some i \<Rightarrow> of_nat i | None \<Rightarrow> old)"

definition first_avgs :: "'s c2h_env \<Rightarrow> c2h_q \<Rightarrow> c2h_q" where
  "first_avgs env c =
     (let avg = cnt_th env (cf_cmpl_cnt_th_idx (conf_of c)); k = counter_pos env (cf_cmpl_cnt_th_idx (conf_of c)) (cq_sorted_idx c);
          hi = cnt_th env (sorted_idx env (if k = QDMA_GLOBAL_CSR_ARRAY_LEN - 1 then k else k + 1));
          lo = cnt_th env (sorted_idx env (if k = 0 then 0 else k - 1))
      in c\<lparr>cq_moving_avg := avg, cq_sorted_idx := k, cq_avg_thr_hi := drop_bit 1 (avg + hi), cq_avg_thr_lo := drop_bit 1 (avg + lo)\<rparr>)"

definition qdma_descq_config_complete :: "'s c2h_env \<Rightarrow> c2h_q \<Rightarrow> c2h_q" where
  "qdma_descq_config_complete env c =
     (let csr = ce_csr env; conf = (conf_of c)\<lparr>cf_rngsz := cs_ring_sz csr ! unat (cf_desc_rng_sz_idx (conf_of c)) - 1\<rparr>;
          cmpt = has_cmpt_ring conf; conf = (if cmpt then cmpt_conf csr conf else conf);
          c = (if cmpt then c\<lparr>cq_cmpt_cidx_info := cmpt_info conf (cq_cmpt_cidx_info c)\<rparr> else c);
          c = upd_q (\<lambda>q. q\<lparr>dq_conf := conf,
                dq_pidx_info := (dq_pidx_info q)\<lparr>pidx_irq_en := (if is_st_c2h conf then 0 else cf_irq_en conf)\<rparr>,
                dq_avail := cf_rngsz conf - 1, dq_pend_list_empty := True, dq_pidx := 0, dq_cidx := 0, dq_credit := 0,
                dq_work_req_pend := 0\<rparr>) (c\<lparr>cq_cidx_cmpt := 0, cq_pidx_cmpt := 0\<rparr>)
      in if cmpt then first_avgs env (c\<lparr>cq_cmpt_entry_len := push_bit (unat (cf_cmpl_desc_sz conf)) 8\<rparr>) else c)"

text \<open>Telling the device about the completion ring and the free list.  \<open>setup\<close> is the result of
  \<^verbatim>\<open>qdma_descq_context_setup\<close>.\<close>

definition first_pointers :: "'s c2h_dev \<Rightarrow> c2h_q \<Rightarrow> 's \<Rightarrow> int \<times> c2h_q \<times> 's" where
  "first_pointers dev c s =
     (let c = c\<lparr>cq_cmpt_cidx_info := (cq_cmpt_cidx_info c)\<lparr>wrb_cidx := 0\<rparr>\<rparr>; (rv, s) = c2h_cidx_update dev c s
      in if rv < 0 then (- EINVAL, c, s)
         else if cf_q_type (conf_of c) = Q_CMPT then (rv, c, s)
         else
           let c = upd_q (\<lambda>q. q\<lparr>dq_pidx_info := (dq_pidx_info q)\<lparr>pidx := ucast (cf_rngsz (dq_conf q) - 1)\<rparr>\<rparr>) c;
               (rv, s) = c2h_pidx_update dev c s
           in (if rv < 0 then - EINVAL else rv, c, s))"

definition qdma_descq_prog_hw :: "int \<Rightarrow> 's c2h_dev \<Rightarrow> c2h_q \<Rightarrow> 's \<Rightarrow> int \<times> c2h_q \<times> 's" where
  "qdma_descq_prog_hw setup dev c s =
     (if setup < 0 then (setup, c, s)
      else if has_cmpt_ring (conf_of c) \<and> \<not> cf_init_pidx_dis (conf_of c) then first_pointers dev c s
      else (setup, c, s))"

definition qdma_q_init_pointers :: "'s c2h_dev \<Rightarrow> c2h_q \<Rightarrow> 's \<Rightarrow> int \<times> c2h_q \<times> 's" where
  "qdma_q_init_pointers dev c s =
     (if has_cmpt_ring (conf_of c) \<and> cf_init_pidx_dis (conf_of c)
      then case first_pointers dev c s of (rv, c, s) \<Rightarrow> (if rv < 0 then - EINVAL else 0, c, s)
      else (- EINVAL, c, s))"

text \<open>The lock is released on every path, also where it was not taken.\<close>

definition qdma_queue_update_pointers :: "'s c2h_dev \<Rightarrow> c2h_q \<Rightarrow> 's \<Rightarrow> int \<times> 's" where
  "qdma_queue_update_pointers dev c s =
     (if \<not> is_st_c2h (conf_of c) then (- EINVAL, s)
      else if dq_state (cq_q c) \<noteq> Q_STATE_ONLINE then (- ENODEV, s)
      else
        let (rv, s) = c2h_cidx_update dev c s
        in if rv < 0 then (- EBUSY, s) else let (rv, s) = c2h_pidx_update dev c s in (if rv < 0 then - EBUSY else rv, s))"

section \<open>Completion data\<close>

text \<open>\<^verbatim>\<open>qdma_descq_read_cmpt\<close> copies entries of the completion ring, given as the list of their bytes; the
  first four bits of the first byte are cleared.  Reading past the ring is \<open>None\<close>.\<close>

definition qdma_descq_read_cmpt :: "u8 list list \<Rightarrow> u32 \<Rightarrow> c2h_q \<Rightarrow> u8 list option" where
  "qdma_descq_read_cmpt ring n c =
     (let k = unat (cq_cidx_cmpt c); es = take (unat n) (drop k ring)
      in if length es < unat n then None
         else case concat es of [] \<Rightarrow> Some [] | b # bs \<Rightarrow> Some ((b AND 0xF0) # bs))"

definition qdma_descq_read_cmpt_data ::
    "'s c2h_dev \<Rightarrow> u8 list list \<Rightarrow> bool \<Rightarrow> c2h_q \<Rightarrow> 's \<Rightarrow> (int \<times> u32 \<times> u8 list \<times> c2h_q \<times> 's) option" where
  "qdma_descq_read_cmpt_data dev ring alloc_ok c s =
     (if cf_st (conf_of c) then Some (- EINVAL, 0, [], c, s)
      else
        let (p, s) = cd_cmpt_pidx dev s; rngsz = cf_rngsz_cmpt (conf_of c);
            pend = ring_idx_delta (ucast p) (cq_cidx_cmpt c) rngsz; n = min pend rngsz
        in if pend = 0
           then if dq_drv_mode (cq_q c) \<noteq> POLL_MODE
                then let c = c\<lparr>cq_cmpt_cidx_info := (cq_cmpt_cidx_info c)\<lparr>wrb_cidx := ucast (cq_cidx_cmpt c)\<rparr>\<rparr>;
                         (rv, s) = c2h_cidx_update dev c s
                     in Some (if rv < 0 then (- EINVAL, n, [], c, s) else (0, 0, [], c, s))
                else Some (0, 0, [], c, s)
           else if n = 0 then Some (0, 0, [], c, s)
           else if \<not> alloc_ok then Some (0, 0, [], c, s)
           else map_option (\<lambda>data.
                  let cidx = cq_cidx_cmpt c + n;
                      c = c\<lparr>cq_cidx_cmpt := cidx, cq_cmpt_cidx_info := (cq_cmpt_cidx_info c)\<lparr>wrb_cidx := ucast cidx\<rparr>\<rparr>;
                      (rv, s) = c2h_cidx_update dev c s
                  in (if rv < 0 then - EINVAL else rv, n, data, c, s))
                (qdma_descq_read_cmpt ring n c))"

end
