(* ===== verification/DescqC2hSort.thy ===== *)
theory DescqC2hSort
  imports DescqC2hSetup
begin

text \<open>
  The order of the counter thresholds that \<^verbatim>\<open>qdma_sort_c2h_cntr_th_values\<close> computes (\<^verbatim>\<open>qdma_regs.c\<close>): each round
  of its selection sort finds the least threshold above the one of the round before.
\<close>

section \<open>One round\<close>

text \<open>The thresholds fit in the eight bits that the code keeps of them.\<close>

definition th_ok :: "u32 list \<Rightarrow> bool" where
  "th_ok th \<longleftrightarrow> length th = 16 \<and> distinct th \<and> (\<forall>t \<in> set th. unat t < 256)"

lemma ucast_th: "unat t < 256 \<Longrightarrow> ucast (ucast (t :: u32) :: u8) = t"
  by (simp add: word_unat_eq_iff unsigned_ucast_eq unsigned_take_bit_eq take_bit_nat_eq_self)

text \<open>The pair that a round works on: the value is the threshold of the index.\<close>

definition pair_ok :: "u32 list \<Rightarrow> u8 \<times> u8 \<Rightarrow> bool" where
  "pair_ok th vi \<longleftrightarrow> unat (snd vi) < 16 \<and> fst vi = ucast (th ! unat (snd vi))"

lemma pair_of: "i < 16 \<Longrightarrow> pair_ok th (ucast (th ! i), of_nat i) \<and> unat (of_nat i :: u8) = i"
  by (simp add: pair_ok_def unat_of_nat)

lemma th_scan_least:
  assumes "th_ok th" and "pair_ok th vi" and "set is \<subseteq> {..< 16}"
  shows "pair_ok th (th_scan th ref least is vi) \<and>
    (let k = unat (snd (th_scan th ref least is vi)) in
       (k = unat (snd vi) \<or> k \<in> set is \<and> \<not> th_skip th ref least k) \<and> th ! k \<le> th ! unat (snd vi) \<and>
       (\<forall>i \<in> set is. \<not> th_skip th ref least i \<longrightarrow> th ! k \<le> th ! i))"
  using assms(2,3)
proof (induction "is" arbitrary: vi)
  case Nil
  then show ?case by simp
next
  case (Cons i "is")
  define vi' where "vi' = (if \<not> th_skip th ref least i \<and> ucast (fst vi) \<ge> th ! i then (ucast (th ! i), of_nat i) else vi)"
  have i: "i < 16" using Cons.prems(2) by simp
  have v: "ucast (fst vi) = th ! unat (snd vi)"
    using Cons.prems(1) assms(1) by (auto simp: pair_ok_def th_ok_def intro!: ucast_th)
  have ok: "pair_ok th vi'" using Cons.prems(1) pair_of [OF i] by (simp add: vi'_def)
  have le: "th ! unat (snd vi') \<le> th ! unat (snd vi)" "\<not> th_skip th ref least i \<longrightarrow> th ! unat (snd vi') \<le> th ! i"
    "unat (snd vi') = unat (snd vi) \<or> unat (snd vi') = i \<and> \<not> th_skip th ref least i"
    using v pair_of [OF i, of th] by (auto simp: vi'_def not_le)
  have IH: "pair_ok th (th_scan th ref least is vi') \<and>
    (let k = unat (snd (th_scan th ref least is vi')) in
       (k = unat (snd vi') \<or> k \<in> set is \<and> \<not> th_skip th ref least k) \<and> th ! k \<le> th ! unat (snd vi') \<and>
       (\<forall>i \<in> set is. \<not> th_skip th ref least i \<longrightarrow> th ! k \<le> th ! i))"
    using Cons.IH [OF ok] Cons.prems(2) by simp
  have "th_scan th ref least (i # is) vi = th_scan th ref least is vi'" by (simp add: vi'_def)
  then show ?case using IH le unfolding Let_def by (auto intro: order_trans)
qed

lemma th_round_least:
  assumes "th_ok th" and "set is \<subseteq> {..< 16}" and "\<exists>i \<in> set is. \<not> th_skip th ref least i"
  obtains k where "th_round th ref least is vi = (ucast (th ! k), of_nat k)" and "k \<in> set is" and "\<not> th_skip th ref least k"
    and "\<forall>i \<in> set is. \<not> th_skip th ref least i \<longrightarrow> th ! k \<le> th ! i"
  using assms(2,3)
proof (induction "is" arbitrary: thesis)
  case Nil
  then show ?case by simp
next
  case (Cons i "is")
  show ?case
  proof (cases "th_skip th ref least i")
    case True
    then show ?thesis using Cons by auto
  next
    case False
    define r where "r = th_scan th ref least (i # is) (ucast (th ! i), of_nat i)"
    have i: "i < 16" using Cons.prems(2) by simp
    note p = pair_of [OF i, of th]
    define k where "k = unat (snd r)"
    have ok: "pair_ok th r" and k: "k = i \<or> k \<in> set (i # is) \<and> \<not> th_skip th ref least k"
      and le: "\<forall>j \<in> set (i # is). \<not> th_skip th ref least j \<longrightarrow> th ! k \<le> th ! j"
      using th_scan_least [OF assms(1) p [THEN conjunct1] Cons.prems(2), of ref least] p unfolding r_def [symmetric] k_def Let_def by auto
    have "r = (ucast (th ! k), of_nat k)" using ok by (cases r) (simp add: pair_ok_def k_def)
    moreover have "th_round th ref least (i # is) vi = r" using False by (simp add: r_def)
    ultimately show ?thesis using Cons.prems(1) [of k] k le False by auto
  qed
qed

section \<open>All rounds\<close>

definition th_left :: "u32 list \<Rightarrow> nat option \<Rightarrow> u8 \<Rightarrow> nat set" where
  "th_left th ref least = {i. i < 16 \<and> \<not> th_skip th ref least i}"

lemma th_left_next:
  assumes th: "th_ok th" and ref: "ref = None \<or> (\<exists>m < 16. ref = Some m \<and> least = ucast (th ! m))"
    and k: "k \<in> th_left th ref least" "\<forall>i \<in> th_left th ref least. th ! k \<le> th ! i"
  shows "th_left th (Some k) (ucast (th ! k)) = th_left th ref least - {k}"
proof -
  have u: "ucast (ucast (th ! i) :: u8) = th ! i" if "i < 16" for i using th that by (intro ucast_th) (auto simp: th_ok_def)
  have k16: "k < 16" "\<not> th_skip th ref least k" using k(1) by (auto simp: th_left_def)
  have "\<not> th_skip th ref least i" if i: "i < 16" "i \<noteq> k" "th ! k \<le> th ! i" for i
  proof
    assume sk: "th_skip th ref least i"
    have "ucast least \<le> th ! k" using k16(2) by (simp add: th_skip_def not_less)
    then have m: "ref = Some i" using sk i(3) by (auto simp: th_skip_def not_less dest: order_trans)
    then have "ucast least = th ! i" using ref u by auto
    then have "th ! i = th ! k" using \<open>ucast least \<le> th ! k\<close> i(3) by simp
    then show False using th i(1,2) k16(1) by (simp add: th_ok_def nth_eq_iff_index_eq)
  qed
  then show ?thesis using k u k16 by (auto simp: th_left_def th_skip_def not_less)
qed

lemma th_rounds_sort:
  assumes "th_ok th" and "ref = None \<or> (\<exists>m < 16. ref = Some m \<and> least = ucast (th ! m))" and "card (th_left th ref least) = n"
  shows "set (map unat (th_rounds n th ref least vi j)) = th_left th ref least \<and> length (th_rounds n th ref least vi j) = n \<and>
    distinct (map unat (th_rounds n th ref least vi j)) \<and> sorted (map (\<lambda>i. th ! unat i) (th_rounds n th ref least vi j))"
  using assms(2,3)
proof (induction n arbitrary: ref least vi j)
  case 0
  moreover have "finite (th_left th ref least)" by (simp add: th_left_def)
  ultimately show ?case by simp
next
  case (Suc n)
  let ?R = "th_left th ref least"
  have fin: "finite ?R" by (simp add: th_left_def)
  have up: "set [0 ..< 16] \<subseteq> {..< (16 :: nat)}" by auto
  have "?R \<noteq> {}" using Suc.prems(2) by auto
  then have "\<exists>i \<in> set [0 ..< 16]. \<not> th_skip th ref least i" by (auto simp: th_left_def)
  then obtain k where r: "th_round th ref least [0 ..< 16] vi = (ucast (th ! k), of_nat k)" and k: "k \<in> ?R" "\<forall>i \<in> ?R. th ! k \<le> th ! i"
    by (rule th_round_least [OF assms(1) up, where vi = vi]) (auto simp: th_left_def)
  have k16: "k < 16" "unat (of_nat k :: u8) = k" using k(1) pair_of [of k th] by (auto simp: th_left_def)
  have nx: "th_left th (Some k) (ucast (th ! k)) = ?R - {k}" by (rule th_left_next [OF assms(1) Suc.prems(1) k])
  have "card (th_left th (Some k) (ucast (th ! k))) = n" using nx fin k(1) Suc.prems(2) by simp
  note IH = Suc.IH [OF _ this, of "(ucast (th ! k), j + 1)" "j + 1"]
  have "th_rounds (Suc n) th ref least vi j = of_nat k # th_rounds n th (Some k) (ucast (th ! k)) (ucast (th ! k), j + 1) (j + 1)"
    by (simp add: r k16)
  moreover have "\<forall>i \<in> set (th_rounds n th (Some k) (ucast (th ! k)) (ucast (th ! k), j + 1) (j + 1)). th ! k \<le> th ! unat i"
    using IH k16(1) k(2) unfolding nx by auto
  ultimately show ?case using IH k16 k(1) unfolding nx by auto
qed

text \<open>C34: For sixteen different thresholds of eight bits, the result lists every index once, in the order of the
  thresholds.\<close>

theorem c2h_cntr_sorted:
  assumes "th_ok th"
  shows "distinct (map unat (qdma_sort_c2h_cntr_th_values th)) \<and> set (map unat (qdma_sort_c2h_cntr_th_values th)) = {0 ..< 16} \<and>
    sorted (map (\<lambda>i. th ! unat i) (qdma_sort_c2h_cntr_th_values th))"
proof -
  have all: "th_left th None 0 = {0 ..< 16}" by (auto simp: th_left_def th_skip_def)
  show ?thesis
    using th_rounds_sort [OF assms, of None 0 16 "(ucast (th ! 0), 0)" 0] all by (simp add: qdma_sort_c2h_cntr_th_values_def)
qed

text \<open>The default values of the thresholds, in another order.\<close>

definition demo_cnt_th :: "u32 list" where
  "demo_cnt_th = [64, 2, 4, 8, 16, 24, 32, 48, 80, 96, 112, 128, 144, 160, 176, 192]"

theorem c2h_cntr_sorted_witness:
  "th_ok demo_cnt_th \<and> sorted (map (\<lambda>i. demo_cnt_th ! unat i) (qdma_sort_c2h_cntr_th_values demo_cnt_th)) \<and>
   qdma_sort_c2h_cntr_th_values demo_cnt_th = [1, 2, 3, 4, 5, 6, 7, 0, 8, 9, 10, 11, 12, 13, 14, 15]"
proof -
  have "th_ok demo_cnt_th" by code_simp
  moreover have "qdma_sort_c2h_cntr_th_values demo_cnt_th = [1, 2, 3, 4, 5, 6, 7, 0, 8, 9, 10, 11, 12, 13, 14, 15]" by code_simp
  ultimately show ?thesis using c2h_cntr_sorted by blast
qed

end
