(* ===== verification/DescqLoop.thy ===== *)
theory DescqLoop
  imports DescqRefine "HOL-Library.Sublist"
begin

text \<open>
  The request loops of the two kinds of queue.  The interface \<open>request_queue\<close> states what one round of
  such a loop does; on a device that keeps the contract \<open>ring_device\<close>, the functions that work on a
  queue are shown to keep its invariant, to report requests in the order of their submission, and to end.
\<close>

section \<open>Descriptors and bytes\<close>

text \<open>The unconsumed descriptors of a request ask for its last bytes among those written so far; for all
  but the first request, whose descriptors the device may have consumed in part, they ask for all of
  them.\<close>

definition exact :: "('d \<Rightarrow> 'b list) \<Rightarrow> (qdma_request \<Rightarrow> 'b list) \<Rightarrow> (qdma_request \<times> 'd list) list \<Rightarrow> bool" where
  "exact vw bytes as \<longleftrightarrow>
     (\<forall>a \<in> set as. suffix (concat (map vw (snd a))) (take (unat (cb_offset (fst a))) (bytes (fst a)))) \<and>
     (\<forall>a \<in> set (tl as). concat (map vw (snd a)) = take (unat (cb_offset (fst a))) (bytes (fst a)))"

lemma exact_Cons: "exact vw bytes (a # as) \<longleftrightarrow>
    suffix (concat (map vw (snd a))) (take (unat (cb_offset (fst a))) (bytes (fst a))) \<and>
    (\<forall>a \<in> set as. concat (map vw (snd a)) = take (unat (cb_offset (fst a))) (bytes (fst a)))"
  by (auto simp: exact_def)

lemma exact_tl: "exact vw bytes (a # as) \<Longrightarrow> exact vw bytes as"
  by (cases as) (simp_all add: exact_Cons exact_def)

lemma suffix_drop_view: "suffix (concat (map vw ds)) bs \<Longrightarrow> suffix (concat (map vw (drop n ds))) bs"
  by (metis append_take_drop_id concat_append map_append suffix_order.trans suffixI)

lemma consume_exact:
  "exact vw bytes as \<Longrightarrow> consume p n as = (d, as') \<Longrightarrow> exact vw bytes as'"
proof (induction p n as arbitrary: d rule: consume.induct)
  case (3 p n r ds as)
  show ?case
  proof (cases "length ds \<le> n")
    case True
    then show ?thesis using 3 exact_tl [OF "3.prems"(1)] by (auto split: prod.splits)
  next
    case False
    then show ?thesis using 3 by (auto simp: exact_Cons suffix_drop_view)
  qed
qed (auto simp: exact_Cons suffix_drop_view)

lemma post_exact:
  assumes ex: "exact vw bytes as" and p: "p < length as"
    and r: "unat (cb_offset (f (fst (as ! p)))) = unat (cb_offset (fst (as ! p))) + m" "bytes (f (fst (as ! p))) = bytes (fst (as ! p))"
    and new: "concat (map vw ds) = take m (drop (unat (cb_offset (fst (as ! p)))) (bytes (fst (as ! p))))"
  shows "exact vw bytes (post p f ds as)"
proof -
  obtain a as1 where as: "as = a # as1" using p by (cases as) auto
  show ?thesis
  proof (cases p)
    case 0
    then show ?thesis using ex r new unfolding as
      by (auto simp: exact_Cons post_def take_add suffix_def)
  next
    case (Suc k)
    have k: "k < length as1" using p as Suc by simp
    then have "concat (map vw (snd (as1 ! k))) = take (unat (cb_offset (fst (as1 ! k)))) (bytes (fst (as1 ! k)))"
      using ex unfolding as by (simp add: exact_Cons)
    then show ?thesis using ex r new k unfolding as Suc
      by (auto simp: exact_Cons post_def take_add dest!: set_update_subset_insert [THEN subsetD])
  qed
qed

section \<open>One round\<close>

text \<open>\<open>cnt\<close> descriptors for the next \<open>data\<close> bytes of a request are in the ring at the producer index, which
  moves to \<open>p\<close>; other slots that the device may still read are untouched.  The bytes are all that were
  left, or there is no room for more.\<close>

definition round_ok :: "('d \<Rightarrow> 'b list) \<Rightarrow> 'b list \<Rightarrow> 'd qdma_descq \<Rightarrow> qdma_request \<Rightarrow> u32 \<Rightarrow> u32 \<Rightarrow> u32 \<Rightarrow> 'd list \<Rightarrow> bool" where
  "round_ok vw bs q req cnt data p ring \<longleftrightarrow>
     0 < unat cnt \<and> unat cnt \<le> unat (dq_avail q) \<and> length ring = dq_rngsz q \<and>
     (\<forall>k. unat cnt < k \<and> k < dq_rngsz q \<longrightarrow>
        ring ! ((unat (dq_pidx q) + k) mod dq_rngsz q) = dq_desc q ! ((unat (dq_pidx q) + k) mod dq_rngsz q)) \<and>
     unat p = (unat (dq_pidx q) + unat cnt) mod dq_rngsz q \<and>
     concat (map vw (slice ring (unat (dq_pidx q)) (unat cnt))) = take (unat data) (drop (unat (cb_offset req)) bs) \<and>
     unat (cb_offset req) + unat data \<le> unat (rq_count req) \<and>
     (unat (cb_offset req) + unat data = unat (rq_count req) \<or> cnt = dq_avail q) \<and>
     (rq_count req \<noteq> 0 \<longrightarrow> unat cnt \<le> unat data \<and> 0 < unat data)"

definition round_q :: "qdma_request \<Rightarrow> u32 \<Rightarrow> u32 \<Rightarrow> u32 \<Rightarrow> nat option \<Rightarrow> u32 \<Rightarrow> 'd list \<Rightarrow> 'd qdma_descq \<Rightarrow> 'd qdma_descq" where
  "round_q req cnt data sgoff sg p ring q =
     (qdma_update_request req cnt data sgoff sg q)\<lparr>dq_desc := ring, dq_pidx := p, dq_avail := dq_avail q - cnt\<rparr>"

section \<open>What is kept\<close>

text \<open>All requests ever submitted, in order, without the private part that the driver writes.\<close>

definition history :: "'d qdma_descq \<Rightarrow> qdma_request list" where
  "history q = map (\<lambda>d. cb_reset (fst d)) (dq_done q) @ map cb_reset (dq_pend_list q @ dq_work_list q)"

definition work_left :: "'d qdma_descq \<Rightarrow> nat" where
  "work_left q = sum_list (map (\<lambda>r. Suc (unat (rq_count r) - unat (cb_offset r))) (dq_work_list q))"

text \<open>Writing descriptors leaves these alone.\<close>

definition same_but_lists :: "'d qdma_descq \<Rightarrow> 'd qdma_descq \<Rightarrow> bool" where
  "same_but_lists q q' \<longleftrightarrow> dq_conf q' = dq_conf q \<and> dq_drv_mode q' = dq_drv_mode q \<and> dq_state q' = dq_state q \<and>
     dq_stop_wait q' = dq_stop_wait q \<and> dq_proc_req_running q' = dq_proc_req_running q \<and> dq_cidx q' = dq_cidx q \<and>
     dq_pidx_info q' = dq_pidx_info q \<and> dq_done q' = dq_done q"

lemma cb_reset_simps [simp]:
  "cb_reset (written d o1 sg r) = cb_reset r" "cb_reset (r\<lparr>cb_desc_nr := n\<rparr>) = cb_reset r"
  "cb_reset (r\<lparr>cb_unmap_needed := b\<rparr>) = cb_reset r" "cb_reset (cb_reset r) = cb_reset r"
  by (simp_all add: cb_reset_def written_def)

lemma round_q_fields:
  assumes "dq_work_list q = req # ws" and "req' = written data sgoff sg (req\<lparr>cb_desc_nr := cb_desc_nr req + cnt\<rparr>)"
  shows "dq_work_list (round_q req cnt data sgoff sg p ring q) = (if rq_count req \<le> cb_offset req + data then ws else req' # ws)"
    and "dq_pend_list (round_q req cnt data sgoff sg p ring q) =
      dq_pend_list q @ (if rq_count req \<le> cb_offset req + data then [req'] else [])"
    and "dq_work_req_pend (round_q req cnt data sgoff sg p ring q) =
      dq_work_req_pend q - (if rq_count req \<le> cb_offset req + data then 1 else 0)"
    and "same_but_lists q (round_q req cnt data sgoff sg p ring q)"
    and "dq_avail (round_q req cnt data sgoff sg p ring q) = dq_avail q - cnt"
    and "history (round_q req cnt data sgoff sg p ring q) = history q"
  using assms by (simp_all add: round_q_def qdma_update_request_def written_def same_but_lists_def history_def cb_reset_def Let_def)

section \<open>The interface of the request loops\<close>

locale request_queue =
  fixes vw :: "qdma_queue_conf \<Rightarrow> 'd \<Rightarrow> 'b list" and bytes :: "qdma_queue_conf \<Rightarrow> qdma_request \<Rightarrow> 'b list"
    and ok :: "qdma_queue_conf \<Rightarrow> qdma_request \<Rightarrow> bool"
    and loop :: "nat \<Rightarrow> 's ring_dev \<Rightarrow> u32 \<Rightarrow> 'd qdma_descq \<Rightarrow> 's \<Rightarrow> (u32 \<times> 'd qdma_descq \<times> 's) option"
  assumes bytes_reset: "bytes c (cb_reset r) = bytes c r"
    and ok_reset: "ok c (cb_reset r) = ok c r"
    and loop_fuel: "loop 0 dev w q s = None"
    and loop_empty: "dq_work_list q = [] \<Longrightarrow> loop (Suc fuel) dev w q s = Some (w, q, s)"
    and loop_full: "dq_work_list q \<noteq> [] \<Longrightarrow> desc_room dev q s = (q1, s1) \<Longrightarrow> dq_avail q1 = 0 \<Longrightarrow>
      loop (Suc fuel) dev w q s = Some (w, q1, s1)"
    and loop_round: "dq_work_list q = req # ws \<Longrightarrow> desc_room dev q s = (q1, s1) \<Longrightarrow> dq_avail q1 \<noteq> 0 \<Longrightarrow>
      queue_ok q1 \<Longrightarrow> request_ok req \<Longrightarrow> to_write req \<Longrightarrow> ok (dq_conf q1) req \<Longrightarrow>
      \<exists>cnt data sgoff sg p ring. round_ok (vw (dq_conf q1)) (bytes (dq_conf q1) req) q1 req cnt data p ring \<and>
        loop (Suc fuel) dev w q s = loop fuel dev (w + cnt) (round_q req cnt data sgoff sg p ring q1) s1"
begin

lemma bytes_core: "bytes c (r\<lparr>cb_desc_nr := k\<rparr>) = bytes c r" and bytes_written: "bytes c (written d o1 sg r) = bytes c r"
  by (metis bytes_reset cb_reset_simps)+

lemma ok_written: "ok c (written d o1 sg (r\<lparr>cb_desc_nr := k\<rparr>)) = ok c r"
  by (metis ok_reset cb_reset_simps)

text \<open>The invariant of a queue and its abstract queue.\<close>

definition queue_inv :: "'d qdma_descq \<Rightarrow> (qdma_request \<times> 'd list) list \<Rightarrow> bool" where
  "queue_inv q as \<longleftrightarrow> outstanding q as \<and> exact (vw (dq_conf q)) (bytes (dq_conf q)) as \<and>
     (\<forall>r \<in> set (dq_pend_list q). cb_offset r = rq_count r) \<and>
     (\<forall>r \<in> set (dq_work_list q). request_ok r \<and> to_write r \<and> unat (cb_desc_nr r) \<le> unat (cb_offset r) \<and>
        ok (dq_conf q) r) \<and>
     dq_work_req_pend q = of_nat (length (dq_work_list q))"

lemma round_inv:
  assumes inv: "queue_inv q as" and wl: "dq_work_list q = req # ws"
    and rnd: "round_ok (vw (dq_conf q)) (bytes (dq_conf q) req) q req cnt data p ring"
    and q': "q' = round_q req cnt data sgoff sg p ring q"
  shows "\<exists>as'. queue_inv q' as'" and "work_left q' < work_left q" and "dq_used q' = dq_used q + unat cnt"
proof -
  have out: "outstanding q as" and ex: "exact (vw (dq_conf q)) (bytes (dq_conf q)) as"
    and pend: "\<forall>r \<in> set (dq_pend_list q). cb_offset r = rq_count r"
    and work: "\<forall>r \<in> set (req # ws). request_ok r \<and> to_write r \<and> unat (cb_desc_nr r) \<le> unat (cb_offset r) \<and> ok (dq_conf q) r"
    and wp: "dq_work_req_pend q = of_nat (Suc (length ws))"
    using inv wl by (simp_all add: queue_inv_def)
  have r: "0 < unat cnt" "unat cnt \<le> unat (dq_avail q)" "length ring = dq_rngsz q"
    "\<And>k. unat cnt < k \<Longrightarrow> k < dq_rngsz q \<Longrightarrow>
        ring ! ((unat (dq_pidx q) + k) mod dq_rngsz q) = dq_desc q ! ((unat (dq_pidx q) + k) mod dq_rngsz q)"
    "unat p = (unat (dq_pidx q) + unat cnt) mod dq_rngsz q"
    "concat (map (vw (dq_conf q)) (slice ring (unat (dq_pidx q)) (unat cnt))) =
       take (unat data) (drop (unat (cb_offset req)) (bytes (dq_conf q) req))"
    "unat (cb_offset req) + unat data \<le> unat (rq_count req)"
    "rq_count req \<noteq> 0 \<longrightarrow> unat cnt \<le> unat data \<and> 0 < unat data"
    using rnd by (simp_all add: round_ok_def)
  note o = outstandingD [OF out]
  have count: "unat (rq_count req) + 2 ^ 17 < 2 ^ 32" using work by (simp add: request_ok_def)
  define req' where "req' = written data sgoff sg (req\<lparr>cb_desc_nr := cb_desc_nr req + cnt\<rparr>)"
  have off: "unat (cb_offset req + data) = unat (cb_offset req) + unat data"
    using r(7) count by (intro unat_plus_bounded) simp
  have small: "unat (cb_desc_nr req) + unat cnt \<le> unat (cb_offset req) + unat data \<or>
      rq_count req = 0 \<and> cb_offset req = 0 \<and> unat cnt < 2 ^ 16"
  proof (cases "rq_count req = 0")
    case True
    then show ?thesis using r(2) o(1) work by (auto simp: queue_ok_def to_write_def)
  qed (use r(8) work in auto)
  have few: "unat (cb_desc_nr req) + unat cnt + 2 ^ 16 < 2 ^ 32" using small r(7) count work by auto
  note po = post_outstanding [OF out wl r(3,4,1,2,5) few q' [unfolded round_q_def]]
  show "dq_used q' = dq_used q + unat cnt" by (rule po(2))
  note f = round_q_fields [OF wl req'_def, of p ring, folded q']
  have conf: "dq_conf q' = dq_conf q" using f(4) by (simp add: same_but_lists_def)
  have moved: "rq_count req \<le> cb_offset req + data \<longleftrightarrow> unat (cb_offset req) + unat data = unat (rq_count req)"
    using off r(7) by (auto simp: word_le_nat_alt)
  have more: "rq_count req \<noteq> 0" if "\<not> rq_count req \<le> cb_offset req + data" using that by auto
  show "work_left q' < work_left q"
    using r(7,8) off more by (cases "rq_count req \<le> cb_offset req + data") (auto simp: work_left_def f(1) wl req'_def written_def)
  let ?as = "post (length (dq_pend_list q)) (written data sgoff sg) (slice ring (unat (dq_pidx q)) (unat cnt)) as"
  have len: "length (dq_pend_list q) < length as" using arg_cong [OF o(2), of length] wl by simp
  have core: "fst (as ! length (dq_pend_list q)) = rq_core req"
    using arg_cong [OF o(2), of "\<lambda>xs. xs ! length (dq_pend_list q)"] len wl by (simp add: nth_append)
  have "exact (vw (dq_conf q)) (bytes (dq_conf q)) ?as"
    using off r(6) by (intro post_exact [OF ex len, where m = "unat data"])
      (simp_all add: core bytes_written, simp_all add: written_def rq_core_def bytes_core)
  moreover have "request_ok req' \<and> to_write req' \<and> unat (cb_desc_nr req') \<le> unat (cb_offset req') \<and> ok (dq_conf q) req'"
    if n: "\<not> rq_count req \<le> cb_offset req + data"
  proof -
    have "unat (cb_desc_nr req + cnt) = unat (cb_desc_nr req) + unat cnt" using few by (intro unat_plus_bounded) simp
    then have "unat (cb_desc_nr req') \<le> unat (cb_offset req')"
      using small more [OF n] off by (simp add: req'_def written_def)
    moreover have "request_ok req'" "ok (dq_conf q) req'"
      using work unfolding req'_def ok_written by (simp_all add: request_ok_def written_def)
    moreover have "to_write req'" using n off by (simp add: to_write_def req'_def written_def word_le_nat_alt)
    ultimately show ?thesis by simp
  qed
  moreover have "cb_offset req' = rq_count req'" if "rq_count req \<le> cb_offset req + data"
    using that moved off by (simp add: req'_def written_def word_unat_eq_iff)
  ultimately have "queue_inv q' ?as"
    unfolding queue_inv_def conf using po(1) pend work wp f(1-3) by auto
  then show "\<exists>as'. queue_inv q' as'" by blast
qed

end

section \<open>A queue on a device\<close>

text \<open>What the caller of the driver is told of a completed request.\<close>

definition reported_ok :: "qdma_request \<times> u32 \<times> int \<Rightarrow> bool" where
  "reported_ok d \<longleftrightarrow> (case d of (r, n, err) \<Rightarrow> n = rq_count r \<and> err = 0 \<and> cb_is_done r \<and> cb_status r = 0)"

text \<open>Every function on a queue only adds to the reports, in the order of submission.\<close>

definition progress :: "'d qdma_descq \<Rightarrow> 'd qdma_descq \<Rightarrow> bool" where
  "progress q q' \<longleftrightarrow> dq_conf q' = dq_conf q \<and> dq_drv_mode q' = dq_drv_mode q \<and> dq_state q' = dq_state q \<and>
     dq_stop_wait q' = dq_stop_wait q \<and> history q' = history q \<and>
     (\<exists>ds. dq_done q' = dq_done q @ ds \<and> (\<forall>d \<in> set ds. reported_ok d))"

lemma progress_refl [simp]: "progress q q"
  by (simp add: progress_def)

lemma progress_trans: "progress q q1 \<Longrightarrow> progress q1 q2 \<Longrightarrow> progress q q2"
  by (fastforce simp: progress_def)

lemma core_fields:
  assumes "rq_core r = rq_core r'"
  shows "cb_offset r = cb_offset r'" and "rq_count r = rq_count r'" and "cb_reset r = cb_reset r'"
  using arg_cong [OF assms, of cb_offset] arg_cong [OF assms, of rq_count] arg_cong [OF assms, of cb_reset]
  by (simp_all add: rq_core_def)

context ring_device
begin

lemma in_step_mono:
  assumes "in_step q s" and "dq_conf q' = dq_conf q" and "dq_cidx q' = dq_cidx q"
    and "dq_pidx_info q' = dq_pidx_info q" and "dq_used q \<le> dq_used q'"
  shows "in_step q' s"
proof -
  obtain a b where "a \<le> b" "b \<le> dq_used q" "tail s = (cons s + a) mod n"
    "unat (pidx (dq_pidx_info q)) = (cons s + b) mod n" "dq_rngsz q = n" "cons s = unat (dq_cidx q)"
    "cf_qidx (dq_conf q) = qid" "cf_q_type (dq_conf q) = t"
    using assms(1) by (auto simp: in_step_def)
  moreover from this assms(5) have "b \<le> dq_used q'" by simp
  ultimately show ?thesis using assms(2-4) unfolding in_step_def dq_rngsz_def by auto
qed

end

locale queue_on_device = ring_device dev qid t n cons tail + request_queue vw bytes ok loop
  for dev :: "'s ring_dev" and qid :: u32 and t :: queue_type_t and n :: nat and cons tail :: "'s \<Rightarrow> nat"
    and vw :: "qdma_queue_conf \<Rightarrow> 'd \<Rightarrow> 'b list" and bytes ok
    and loop :: "nat \<Rightarrow> 's ring_dev \<Rightarrow> u32 \<Rightarrow> 'd qdma_descq \<Rightarrow> 's \<Rightarrow> (u32 \<times> 'd qdma_descq \<times> 's) option"
begin

lemma cmpl_inv:
  assumes inv: "queue_inv q as" and st: "in_step q s" and r: "descq_mm_n_h2c_cmpl_status dev q s = (rv, q', s')"
  shows "(\<exists>as'. queue_inv q' as') \<and> in_step q' s' \<and> frame q q' \<and> progress q q' \<and> dq_used q' \<le> dq_used q"
proof -
  have out: "outstanding q as" and ex: "exact (vw (dq_conf q)) (bytes (dq_conf q)) as"
    and pend: "\<forall>r \<in> set (dq_pend_list q). cb_offset r = rq_count r"
    using inv by (simp_all add: queue_inv_def)
  obtain j d as' where c: "consume (length (dq_pend_list q)) j as = (map rq_core d, as')" "outstanding q' as'"
    "in_step q' s'" "frame q q'" "dq_used q' = dq_used q - j" "dq_done q' = dq_done q @ map (done_entry (dq_conf q)) d"
    "map rq_core (dq_pend_list q) = map rq_core (d @ dq_pend_list q')"
    using cmpl_status_refines [OF out st r] by blast
  have full: "cb_offset r = rq_count r" if "r \<in> set (d @ dq_pend_list q')" for r
  proof -
    have "rq_core r \<in> rq_core ` set (dq_pend_list q)" using that c(7) by (metis imageI list.set_map)
    then obtain r0 where "r0 \<in> set (dq_pend_list q)" "rq_core r = rq_core r0" by auto
    then show ?thesis using core_fields [of r r0] pend by simp
  qed
  have "queue_inv q' as'"
    using inv c(2,4) full consume_exact [OF ex c(1)] by (auto simp: queue_inv_def frame_def)
  moreover have "history q' = history q"
  proof -
    have "map cb_reset (dq_pend_list q) = map cb_reset (d @ dq_pend_list q')"
    proof -
      have "map cb_reset (map rq_core xs) = map cb_reset xs" for xs by (simp add: rq_core_def)
      then show ?thesis using c(7) by metis
    qed
    then show ?thesis using c(4,6) by (simp add: history_def frame_def done_entry_def cb_reset_def)
  qed
  moreover have "reported_ok (done_entry (dq_conf q) r)" if "r \<in> set d" for r
    using full [of r] that by (simp add: reported_ok_def done_entry_def req_error_def)
  then have "progress q q'" using c(4,6) \<open>history q' = history q\<close> by (auto simp: progress_def frame_def)
  ultimately show ?thesis using c(3,4,5) by auto
qed

end

context queue_on_device
begin

text \<open>A queue in order, as the functions find it and leave it.\<close>

definition good :: "'d qdma_descq \<Rightarrow> 's \<Rightarrow> bool" where
  "good q s \<longleftrightarrow> (\<exists>as. queue_inv q as) \<and> in_step q s"

lemma good_running [simp]: "good (q\<lparr>dq_proc_req_running := b\<rparr>) s = good q s"
  by (simp add: good_def queue_inv_def in_step_def outstanding_def queue_ok_def dq_rngsz_def dq_used_def)

lemma progress_running [simp]:
  "progress (q\<lparr>dq_proc_req_running := b\<rparr>) q' = progress q q'" "progress q (q'\<lparr>dq_proc_req_running := b\<rparr>) = progress q q'"
  by (simp_all add: progress_def history_def)

lemma cmpl_good:
  assumes "good q s" and "descq_mm_n_h2c_cmpl_status dev q s = (rv, q', s')"
  shows "good q' s'" and "frame q q'" and "progress q q'" and "dq_used q' \<le> dq_used q"
  using assms cmpl_inv by (auto simp: good_def)

lemma poll_good:
  assumes "good q s" and "descq_poll_mm_n_h2c_cmpl_status dev q s = (q', s')"
  shows "good q' s'" and "progress q q'" and "dq_work_list q' = dq_work_list q"
proof -
  have "good q' s' \<and> progress q q' \<and> dq_work_list q' = dq_work_list q"
  proof (cases "polls q")
    case True
    obtain rv where "descq_mm_n_h2c_cmpl_status dev (q\<lparr>dq_proc_req_running := True\<rparr>) s = (rv, q', s')"
      using assms(2) True
      by (cases "descq_mm_n_h2c_cmpl_status dev (q\<lparr>dq_proc_req_running := True\<rparr>) s")
        (simp add: descq_poll_mm_n_h2c_cmpl_status_def)
    from cmpl_good [OF _ this] assms(1) show ?thesis by (simp add: frame_def)
  next
    case False
    then show ?thesis using assms by (simp add: descq_poll_mm_n_h2c_cmpl_status_def)
  qed
  then show "good q' s'" and "progress q q'" and "dq_work_list q' = dq_work_list q" by simp_all
qed

lemma room_good:
  assumes "good q s" and "desc_room dev q s = (q', s')"
  shows "good q' s'" and "progress q q'" and "dq_work_list q' = dq_work_list q"
proof -
  have "good q' s' \<and> progress q q' \<and> dq_work_list q' = dq_work_list q"
  proof (cases "dq_avail q = 0")
    case True
    then show ?thesis using assms poll_good [OF assms(1)] by (simp add: desc_room_def)
  next
    case False
    then show ?thesis using assms by (simp add: desc_room_def)
  qed
  then show "good q' s'" and "progress q q'" and "dq_work_list q' = dq_work_list q" by simp_all
qed

lemma good_work:
  assumes "good q s" and "dq_work_list q = req # ws"
  shows "queue_ok q" and "request_ok req" and "to_write req" and "ok (dq_conf q) req"
  using assms by (auto simp: good_def queue_inv_def dest: outstandingD)

lemma round_good:
  assumes g: "good q s" and wl: "dq_work_list q = req # ws"
    and rnd: "round_ok (vw (dq_conf q)) (bytes (dq_conf q) req) q req cnt data p ring"
    and q': "q' = round_q req cnt data sgoff sg p ring q"
  shows "good q' s" and "progress q q'" and "work_left q' < work_left q" and "dq_used q' = dq_used q + unat cnt"
proof -
  obtain as where inv: "queue_inv q as" and st: "in_step q s" using g by (auto simp: good_def)
  note r = round_inv [OF inv wl rnd q']
  note f = round_q_fields [OF wl refl, of cnt data sgoff sg p ring, folded q']
  show "work_left q' < work_left q" and u: "dq_used q' = dq_used q + unat cnt" by (fact r)+
  show "progress q q'" using f(4,6) by (auto simp: progress_def same_but_lists_def)
  have "in_step q' s" using f(4) u by (intro in_step_mono [OF st]) (simp_all add: same_but_lists_def)
  then show "good q' s" using r(1) by (simp add: good_def)
qed

text \<open>The loop keeps the queue in order; with fuel for the bytes to write it ends, with all requests written
  or the ring full.\<close>

lemma loop_good:
  assumes "good q s"
  shows "(\<forall>w' q' s'. loop fuel dev w q s = Some (w', q', s') \<longrightarrow>
      good q' s' \<and> progress q q' \<and> (dq_work_list q' = [] \<or> dq_avail q' = 0)) \<and>
    (work_left q < fuel \<longrightarrow> loop fuel dev w q s \<noteq> None)"
  using assms
proof (induction fuel arbitrary: w q s)
  case 0
  then show ?case by (simp add: loop_fuel)
next
  case (Suc fuel)
  show ?case
  proof (cases "dq_work_list q")
    case Nil
    then show ?thesis using Suc.prems by (simp add: loop_empty)
  next
    case (Cons req ws)
    obtain q1 s1 where room: "desc_room dev q s = (q1, s1)" by fastforce
    note g1 = room_good [OF Suc.prems room]
    show ?thesis
    proof (cases "dq_avail q1 = 0")
      case True
      then show ?thesis using loop_full [OF _ room] Cons g1 by simp
    next
      case False
      have wl: "dq_work_list q1 = req # ws" using g1(3) Cons by simp
      note gw = good_work [OF g1(1) wl]
      obtain cnt data sgoff sg p ring where
        rnd: "round_ok (vw (dq_conf q1)) (bytes (dq_conf q1) req) q1 req cnt data p ring"
        and l: "loop (Suc fuel) dev w q s = loop fuel dev (w + cnt) (round_q req cnt data sgoff sg p ring q1) s1"
        using loop_round [OF Cons room False gw] by blast
      define q2 where "q2 = round_q req cnt data sgoff sg p ring q1"
      note r = round_good [OF g1(1) wl rnd q2_def]
      have "work_left q1 = work_left q" using g1(3) by (simp add: work_left_def)
      then have "work_left q2 < fuel" if "work_left q < Suc fuel" using r(3) that by simp
      moreover have "progress q q2" using g1(2) r(2) by (rule progress_trans)
      ultimately show ?thesis
        using Suc.IH [OF r(1), of "w + cnt"] progress_trans unfolding l q2_def [symmetric] by blast
    qed
  qed
qed

end

lemma counts_append: "counts cr ds ls \<Longrightarrow> counts cr (ds @ [0]) (ls @ [0])"
  by (cases ds; cases ls) auto

lemma exact_append:
  assumes "exact vw bytes as" and "cb_offset r = 0"
  shows "exact vw bytes (as @ [(r, [])])"
  using assms by (cases as) (auto simp: exact_def)

lemma outstanding_add:
  assumes "outstanding q as" and "cb_desc_nr r = 0"
  shows "outstanding (qdma_work_queue_add r q) (as @ [(rq_core r, [])])"
proof -
  have "drop (Suc (length (dq_pend_list q))) (as @ [(rq_core r, [])]) =
      drop (Suc (length (dq_pend_list q))) as @ drop (Suc (length (dq_pend_list q)) - length as) [(rq_core r, [])]"
    by simp
  moreover have "length (dq_pend_list q) \<le> length as"
    using arg_cong [OF outstandingD(2) [OF assms(1)], of length] by simp
  ultimately have "in_order (length (dq_pend_list q)) (as @ [(rq_core r, [])])"
    using outstandingD(5) [OF assms(1)] unfolding in_order_def by (auto dest: in_set_dropD)
  then show ?thesis
    using assms counts_append [OF outstandingD(4) [OF assms(1)]]
    by (auto simp: outstanding_def qdma_work_queue_add_def queue_ok_def dq_used_def dq_rngsz_def)
qed

context queue_on_device
begin

text \<open>Posting the index: the device may now consume all that was written.\<close>

definition with_index :: "'d qdma_descq \<Rightarrow> 'd qdma_descq" where
  "with_index q = q\<lparr>dq_pend_list_empty := False, dq_pidx_info := (dq_pidx_info q)\<lparr>pidx := ucast (dq_pidx q)\<rparr>\<rparr>"

lemma post_index_good:
  assumes g: "good q s" and up: "queue_pidx_update dev (with_index q) s = (rv, s')"
  shows "good (with_index q) s'" and "progress q (with_index q)" and "0 \<le> rv \<Longrightarrow> tail s' = unat (dq_pidx q)"
proof -
  obtain as where inv: "queue_inv q as" and st: "in_step q s" using g by (auto simp: good_def)
  let ?q = "with_index q"
  have qok: "queue_ok q" using inv by (auto simp: queue_inv_def dest: outstandingD)
  have "unat (dq_pidx q) < 2 ^ 16" using queue_ok_pidx [OF qok] qok unfolding queue_ok_def by linarith
  then have pi: "unat (pidx (dq_pidx_info ?q)) = unat (dq_pidx q)"
    by (simp add: with_index_def unsigned_ucast_eq unsigned_take_bit_eq take_bit_nat_eq_self)
  obtain a b where ab: "a \<le> b" "b \<le> dq_used q" "tail s = (cons s + a) mod n" "dq_rngsz q = n" "cons s = unat (dq_cidx q)"
    and id: "cf_qidx (dq_conf ?q) = qid" "cf_q_type (dq_conf ?q) = t"
    using st by (auto simp: in_step_def with_index_def)
  have f: "dq_rngsz ?q = dq_rngsz q" "dq_used ?q = dq_used q" "dq_cidx ?q = dq_cidx q"
    by (simp_all add: with_index_def dq_used_def dq_rngsz_def)
  have p: "unat (pidx (dq_pidx_info ?q)) = (cons s + dq_used q) mod n"
    using pi qok ab by (simp add: queue_ok_def)
  have u: "cons s' = cons s" "tail s' = (if rv < 0 then tail s else unat (pidx (dq_pidx_info ?q)))"
    using update up by (auto simp: queue_pidx_update_def id)
  have "in_step ?q s'"
    unfolding in_step_def u f using ab id p by (auto intro: exI [of _ a] exI [of _ "dq_used q"] order_trans)
  then show "good ?q s'"
    using inv by (auto simp: good_def queue_inv_def with_index_def outstanding_def queue_ok_def dq_rngsz_def dq_used_def)
  show "progress q ?q" by (simp add: with_index_def progress_def history_def)
  show "tail s' = unat (dq_pidx q)" if "0 \<le> rv" using u(2) pi that by simp
qed

lemma finish_good:
  assumes g: "good q s" and r: "proc_finish dev (w, q, s) = (rv, q', s')"
  shows "good q' s'" and "progress q q'"
proof -
  have "good q' s' \<and> progress q q'"
  proof (cases "w = 0")
    case True
    then show ?thesis using assms by (auto simp: proc_finish_def)
  next
    case False
    obtain rv1 s1 where up: "queue_pidx_update dev (with_index q) s = (rv1, s1)" by fastforce
    note p = post_index_good [OF g up]
    show ?thesis
    proof (cases "rv1 < 0")
      case True
      then show ?thesis using r False up p(1,2) by (simp add: proc_finish_def with_index_def Let_def)
    next
      case nf: False
      obtain q2 s2 where po: "descq_poll_mm_n_h2c_cmpl_status dev (with_index q) s1 = (q2, s2)" by fastforce
      have "q' = q2\<lparr>dq_proc_req_running := False\<rparr>" "s' = s2"
        using r False up nf po by (auto simp: proc_finish_def with_index_def Let_def)
      then show ?thesis using poll_good [OF p(1) po] progress_trans [OF p(2)] by simp
    qed
  qed
  then show "good q' s'" and "progress q q'" by simp_all
qed

lemma proc_good:
  assumes g: "good q s"
  shows "(\<forall>rv q' s'. proc_request (loop fuel dev) dev q s = Some (rv, q', s') \<longrightarrow> good q' s' \<and> progress q q') \<and>
    (work_left q < fuel \<longrightarrow> proc_request (loop fuel dev) dev q s \<noteq> None)"
proof -
  consider "dq_stop_wait q" | "\<not> dq_stop_wait q" "dq_state q \<noteq> Q_STATE_ONLINE \<or> dq_proc_req_running q"
    | "\<not> dq_stop_wait q" "dq_state q = Q_STATE_ONLINE" "\<not> dq_proc_req_running q" by blast
  then show ?thesis
  proof cases
    case 1
    then show ?thesis using cmpl_good [OF g] by (cases "descq_mm_n_h2c_cmpl_status dev q s") (simp add: proc_request_def)
  next
    case 2
    then show ?thesis using g by (auto simp: proc_request_def)
  next
    case 3
    obtain q1 s1 where po: "descq_poll_mm_n_h2c_cmpl_status dev q s = (q1, s1)" by fastforce
    note p = poll_good [OF g po]
    have eq: "proc_request (loop fuel dev) dev q s = map_option (proc_finish dev) (loop fuel dev 0 q1 s1)"
      using 3 po by (simp add: proc_request_def)
    have "work_left q1 = work_left q" using p(3) by (simp add: work_left_def)
    moreover note loop_good [OF p(1), of fuel 0]
    moreover have "good q' s' \<and> progress q q'" if "good q2 s2" "progress q1 q2" "proc_finish dev (w, q2, s2) = (rv, q', s')"
      for w q2 s2 rv q' s' using finish_good [OF that(1,3)] that(2) p(2) by (blast intro: progress_trans)
    ultimately show ?thesis unfolding eq by (auto simp: map_option_eq_Some)
  qed
qed

text \<open>Submission appends to the history.\<close>

lemma add_good:
  assumes g: "good q s" and r: "request_ok r" "ok (dq_conf q) r" "cb_offset r = 0" "cb_desc_nr r = 0"
  shows "good (qdma_work_queue_add r q) s" and "history (qdma_work_queue_add r q) = history q @ [cb_reset r]"
    and "dq_done (qdma_work_queue_add r q) = dq_done q"
    and "work_left (qdma_work_queue_add r q) = work_left q + Suc (unat (rq_count r))"
proof -
  obtain as where inv: "queue_inv q as" and st: "in_step q s" using g by (auto simp: good_def)
  have tw: "to_write r" using r(3) by (auto simp: to_write_def unat_gt_0)
  have "queue_inv (qdma_work_queue_add r q) (as @ [(rq_core r, [])])"
    using inv r tw outstanding_add [of q as r] exact_append [of "vw (dq_conf q)" "bytes (dq_conf q)" as "rq_core r"]
    unfolding queue_inv_def by (auto simp: qdma_work_queue_add_def rq_core_def)
  moreover have "in_step (qdma_work_queue_add r q) s"
    by (rule in_step_mono [OF st]) (simp_all add: qdma_work_queue_add_def dq_used_def dq_rngsz_def)
  ultimately show "good (qdma_work_queue_add r q) s" by (auto simp: good_def)
qed (use r(3) in \<open>simp_all add: qdma_work_queue_add_def history_def work_left_def\<close>)

end

section \<open>A device that works\<close>

text \<open>Updates of the producer index succeed, and all that was posted has been consumed when the index is
  read again.  On such a device every request completes.\<close>

locale eager_queue = queue_on_device dev qid t n cons tail vw bytes ok loop
  for dev :: "'s ring_dev" and qid t n cons tail and vw :: "qdma_queue_conf \<Rightarrow> 'd \<Rightarrow> 'b list" and bytes ok loop +
  assumes eager: "rd_cmpl_cidx dev s = (c, s') \<Longrightarrow> unat c = tail s"
    and update_ok: "rd_pidx_update dev qid t info s = (r, s') \<Longrightarrow> 0 \<le> r"
begin

lemma good_queue_ok: "good q s \<Longrightarrow> queue_ok q" and good_in_step: "good q s \<Longrightarrow> in_step q s"
  by (auto simp: good_def queue_inv_def dest: outstandingD)

lemma index_eq:
  assumes "queue_ok q"
  shows "dq_pidx q = dq_cidx q \<longleftrightarrow> dq_used q = 0"
proof -
  have q: "unat (dq_pidx q) = (unat (dq_cidx q) + dq_used q) mod dq_rngsz q" "unat (dq_cidx q) < dq_rngsz q" "dq_used q < dq_rngsz q"
    using assms by (auto simp: queue_ok_def dq_used_def)
  then have "unat (dq_pidx q) = unat (dq_cidx q) \<longleftrightarrow> dq_used q = 0"
    using slot_inj [of "unat (dq_cidx q)" "dq_used q" "dq_rngsz q" 0] by auto
  then show ?thesis by (simp add: word_unat_eq_iff)
qed

text \<open>A read finds nothing when all that was posted has been seen, and everything when all that was
  written has been posted.\<close>

lemma cmpl_nothing:
  assumes g: "good q s" and t: "tail s = unat (dq_cidx q)" and r: "descq_mm_n_h2c_cmpl_status dev q s = (rv, q', s')"
  shows "q' = q" and "tail s' = tail s"
proof -
  have "q' = q \<and> tail s' = tail s"
  proof (cases "dq_pidx q = dq_cidx q")
    case True
    then show ?thesis using r by (simp add: descq_mm_n_h2c_cmpl_status_def)
  next
    case False
    obtain c s1 where rd: "rd_cmpl_cidx dev s = (c, s1)" by fastforce
    have "unat (ucast c :: u32) = unat (dq_cidx q)" using eager [OF rd] t by simp
    then have c: "ucast c = dq_cidx q" by (simp add: word_unat_eq_iff)
    have "cons s < n" "tail s < n" using good_in_step [OF g] good_queue_ok [OF g] t by (auto simp: in_step_def queue_ok_def)
    then show ?thesis using read [OF rd] r False rd c by (simp add: descq_mm_n_h2c_cmpl_status_def)
  qed
  then show "q' = q" and "tail s' = tail s" by simp_all
qed

lemma complete_loop_cidx: "complete_loop qs cr q = (c, q') \<Longrightarrow> dq_cidx q' = dq_cidx q"
  by (induction qs cr q rule: complete_loop.induct) (auto simp: Let_def qdma_sgt_req_done_def split: if_splits)

lemma pidx_update_cidx: "qdma_pidx_update dev f q s = (r, q', s') \<Longrightarrow> dq_cidx q' = dq_cidx q"
  by (auto simp: qdma_pidx_update_def Let_def split: if_splits prod.splits)

lemma cmpl_everything:
  assumes g: "good q s" and t: "tail s = unat (dq_pidx q)" and r: "descq_mm_n_h2c_cmpl_status dev q s = (rv, q', s')"
  shows "dq_used q' = 0" and "tail s' = unat (dq_pidx q')"
proof -
  note c = cmpl_good [OF g r]
  have pq: "dq_pidx q' = dq_pidx q" using c(2) by (simp add: frame_def)
  have "dq_cidx q' = dq_pidx q"
  proof (cases "dq_pidx q = dq_cidx q")
    case True
    then show ?thesis using r by (simp add: descq_mm_n_h2c_cmpl_status_def)
  next
    case False
    obtain c1 s1 where rd: "rd_cmpl_cidx dev s = (c1, s1)" by fastforce
    have "unat (ucast c1 :: u32) = unat (dq_pidx q)" using eager [OF rd] t by simp
    then have c1: "ucast c1 = dq_pidx q" by (simp add: word_unat_eq_iff)
    then show ?thesis using r False rd
      by (auto simp: descq_mm_n_h2c_cmpl_status_def Let_def dest!: complete_loop_cidx pidx_update_cidx split: prod.splits)
  qed
  then show u: "dq_used q' = 0" using index_eq [OF good_queue_ok [OF c(1)]] pq by simp
  obtain a b where "a \<le> b" "b \<le> dq_used q'" "tail s' = (cons s' + a) mod n" "cons s' = unat (dq_cidx q')" "dq_rngsz q' = n"
    using good_in_step [OF c(1)] by (auto simp: in_step_def)
  then show "tail s' = unat (dq_pidx q')"
    using u good_queue_ok [OF c(1)] by (simp add: queue_ok_def)
qed

lemma poll_nothing:
  assumes g: "good q s" and t: "tail s = unat (dq_cidx q)" and r: "descq_poll_mm_n_h2c_cmpl_status dev q s = (q', s')"
  shows "q' = (if polls q then q\<lparr>dq_proc_req_running := True\<rparr> else q)" and "tail s' = tail s"
proof -
  obtain rv q1 s1 where c: "descq_mm_n_h2c_cmpl_status dev (q\<lparr>dq_proc_req_running := True\<rparr>) s = (rv, q1, s1)"
    by (metis prod_cases3)
  note c1 = cmpl_nothing [OF _ _ c]
  show "q' = (if polls q then q\<lparr>dq_proc_req_running := True\<rparr> else q)" and "tail s' = tail s"
    using r c c1 g t by (auto simp: descq_poll_mm_n_h2c_cmpl_status_def split: if_splits)
qed

lemma drained:
  assumes "good q s" and "dq_used q = 0"
  shows "dq_pend_list q = []"
proof -
  obtain as where out: "outstanding q as" using assms(1) by (auto simp: good_def queue_inv_def)
  note o = outstandingD [OF out]
  have "concat (map snd as) = []" using o(7) assms(2) by simp
  moreover have "length (dq_pend_list q) \<le> length as" using arg_cong [OF o(2), of length] by simp
  ultimately show ?thesis using o(5) by (cases as; cases "dq_pend_list q") (auto simp: in_order_def)
qed

end

text \<open>How often the function that processes requests is called.\<close>

fun repeat_proc :: "nat \<Rightarrow> ('d, 's) queue_proc \<Rightarrow> 'd qdma_descq \<Rightarrow> 's \<Rightarrow> ('d qdma_descq \<times> 's) option" where
  "repeat_proc 0 proc q s = Some (q, s)"
| "repeat_proc (Suc k) proc q s = (case proc q s of None \<Rightarrow> None | Some (_, q, s) \<Rightarrow> repeat_proc k proc q s)"

context eager_queue
begin

text \<open>While nothing new is posted, the loop writes until the work or the room is gone, and counts what it
  writes.\<close>

lemma loop_eager:
  assumes "good q s" and "tail s = unat (dq_cidx q)" and "unat w + (dq_rngsz q - dq_used q) < 2 ^ 32"
    and "loop fuel dev w q s = Some (w', q', s')"
  shows "unat w' = unat w + (dq_used q' - dq_used q) \<and> dq_used q \<le> dq_used q' \<and> tail s' = unat (dq_cidx q') \<and>
    work_left q' \<le> work_left q \<and> (dq_used q < dq_used q' \<longrightarrow> work_left q' < work_left q)"
  using assms
proof (induction fuel arbitrary: w q s)
  case 0
  then show ?case by (simp add: loop_fuel)
next
  case (Suc fuel)
  show ?case
  proof (cases "dq_work_list q")
    case Nil
    then show ?thesis using Suc.prems by (simp add: loop_empty)
  next
    case (Cons req ws)
    obtain q1 s1 where room: "desc_room dev q s = (q1, s1)" by fastforce
    note g1 = room_good [OF Suc.prems(1) room]
    have q1: "q1 = q \<or> q1 = q\<lparr>dq_proc_req_running := True\<rparr>" and t1: "tail s1 = tail s"
      using room poll_nothing [OF Suc.prems(1,2)] by (auto simp: desc_room_def split: if_splits)
    have f1: "dq_used q1 = dq_used q" "dq_cidx q1 = dq_cidx q" "work_left q1 = work_left q" "dq_rngsz q1 = dq_rngsz q"
      using q1 by (auto simp: dq_used_def dq_rngsz_def work_left_def)
    show ?thesis
    proof (cases "dq_avail q1 = 0")
      case True
      then have "w' = w" "q' = q1" "s' = s1" using loop_full [OF _ room] Cons Suc.prems(4) by simp_all
      then show ?thesis using f1 t1 Suc.prems(2) by simp
    next
      case False
      have wl: "dq_work_list q1 = req # ws" using g1(3) Cons by simp
      obtain cnt data sgoff sg p ring where
        rnd: "round_ok (vw (dq_conf q1)) (bytes (dq_conf q1) req) q1 req cnt data p ring"
        and l: "loop (Suc fuel) dev w q s = loop fuel dev (w + cnt) (round_q req cnt data sgoff sg p ring q1) s1"
        using loop_round [OF Cons room False good_work [OF g1(1) wl]] by blast
      define q2 where "q2 = round_q req cnt data sgoff sg p ring q1"
      note r = round_good [OF g1(1) wl rnd q2_def]
      have f2: "dq_cidx q2 = dq_cidx q1" "dq_rngsz q2 = dq_rngsz q1"
        using round_q_fields(4) [OF wl refl, of cnt data sgoff sg p ring] by (simp_all add: q2_def same_but_lists_def dq_rngsz_def)
      have cnt: "unat cnt \<le> dq_rngsz q - dq_used q" "0 < unat cnt"
        using rnd good_queue_ok [OF r(1)] r(4) f1 f2 by (auto simp: round_ok_def queue_ok_def dq_used_def)
      have w: "unat (w + cnt) = unat w + unat cnt" using Suc.prems(3) cnt by (intro unat_plus_bounded) simp
      have "unat (w + cnt) + (dq_rngsz q2 - dq_used q2) < 2 ^ 32" "tail s1 = unat (dq_cidx q2)"
        using Suc.prems(2,3) w r(4) f1 f2 t1 cnt by simp_all
      from Suc.IH [OF r(1) this(2,1)] Suc.prems(4) show ?thesis
        using w r(3,4) f1 cnt unfolding l q2_def [symmetric] by auto
    qed
  qed
qed

text \<open>A queue between calls: polled, on line, all that was written has been posted.\<close>

definition at_rest :: "'d qdma_descq \<Rightarrow> 's \<Rightarrow> bool" where
  "at_rest q s \<longleftrightarrow> good q s \<and> tail s = unat (dq_pidx q) \<and> polls q \<and> dq_state q = Q_STATE_ONLINE \<and>
     \<not> dq_stop_wait q \<and> \<not> dq_proc_req_running q"

lemma finish_eager:
  assumes g: "good q s" and w: "w \<noteq> 0" and p: "polls q" and r: "proc_finish dev (w, q, s) = (rv, q', s')"
  shows "rv = 0" and "dq_used q' = 0" and "tail s' = unat (dq_pidx q')" and "\<not> dq_proc_req_running q'"
    and "dq_work_list q' = dq_work_list q"
proof -
  obtain rv1 s1 where up: "queue_pidx_update dev (with_index q) s = (rv1, s1)" by fastforce
  have "cf_qidx (dq_conf q) = qid" "cf_q_type (dq_conf q) = t" using good_in_step [OF g] by (simp_all add: in_step_def)
  then have pos: "0 \<le> rv1" using up update_ok by (auto simp: queue_pidx_update_def with_index_def)
  note pi = post_index_good [OF g up]
  let ?q = "(with_index q)\<lparr>dq_proc_req_running := True\<rparr>"
  obtain rv2 q2 s2 where c: "descq_mm_n_h2c_cmpl_status dev ?q s1 = (rv2, q2, s2)" by (metis prod_cases3)
  have "polls (with_index q)" using p by (simp add: polls_def with_index_def)
  then have q': "rv = 0" "q' = q2\<lparr>dq_proc_req_running := False\<rparr>" "s' = s2"
    using r w up pos c by (auto simp: proc_finish_def with_index_def descq_poll_mm_n_h2c_cmpl_status_def Let_def)
  have t: "tail s1 = unat (dq_pidx ?q)" using pi(3) pos by (simp add: with_index_def)
  have g1: "good ?q s1" using pi(1) by simp
  note e = cmpl_everything [OF g1 t c] and f = cmpl_good(2) [OF g1 c]
  show "rv = 0" by fact
  show "dq_used q' = 0" and "tail s' = unat (dq_pidx q')" and "\<not> dq_proc_req_running q'"
    and "dq_work_list q' = dq_work_list q"
    using e f q' by (simp_all add: dq_used_def dq_rngsz_def frame_def with_index_def)
qed

lemma call_eager:
  assumes a: "at_rest q s" and r: "proc_request (loop fuel dev) dev q s = Some (rv, q', s')"
  shows "rv = 0" and "at_rest q' s'" and "progress q q'"
    and "dq_pend_list q' = []" and "dq_work_list q' = [] \<or> work_left q' < work_left q"
proof -
  have g: "good q s" and t: "tail s = unat (dq_pidx q)" and pl: "polls q"
    and on: "dq_state q = Q_STATE_ONLINE" "\<not> dq_stop_wait q" "\<not> dq_proc_req_running q"
    using a by (simp_all add: at_rest_def)
  obtain q1 s1 where po: "descq_poll_mm_n_h2c_cmpl_status dev q s = (q1, s1)" by fastforce
  note p1 = poll_good [OF g po]
  obtain rv0 where c: "descq_mm_n_h2c_cmpl_status dev (q\<lparr>dq_proc_req_running := True\<rparr>) s = (rv0, q1, s1)"
    using po pl by (cases "descq_mm_n_h2c_cmpl_status dev (q\<lparr>dq_proc_req_running := True\<rparr>) s")
      (simp add: descq_poll_mm_n_h2c_cmpl_status_def)
  have u1: "dq_used q1 = 0" and t1: "tail s1 = unat (dq_pidx q1)"
    using cmpl_everything [OF _ _ c] g t by simp_all
  have ci: "dq_cidx q1 = dq_pidx q1" using index_eq [OF good_queue_ok [OF p1(1)]] u1 by simp
  have wl: "work_left q1 = work_left q" using p1(3) by (simp add: work_left_def)
  obtain w q2 s2 where l: "loop fuel dev 0 q1 s1 = Some (w, q2, s2)" and f: "proc_finish dev (w, q2, s2) = (rv, q', s')"
    using r on po by (auto simp: proc_request_def map_option_eq_Some)
  have g2: "good q2 s2" "progress q1 q2" "dq_work_list q2 = [] \<or> dq_avail q2 = 0"
    using loop_good [OF p1(1), of fuel 0] l by blast+
  have "unat (0 :: u32) + (dq_rngsz q1 - dq_used q1) < 2 ^ 32"
    using good_queue_ok [OF p1(1)] by (simp add: queue_ok_def u1)
  from loop_eager [OF p1(1) _ this l] have le: "unat w = dq_used q2" "tail s2 = unat (dq_cidx q2)"
    "0 < dq_used q2 \<longrightarrow> work_left q2 < work_left q"
    using t1 ci u1 wl by simp_all
  note g3 = finish_good [OF g2(1) f]
  have pr: "progress q q'" using p1(2) g2(2) g3(2) progress_trans by blast
  then have on3: "dq_state q' = Q_STATE_ONLINE" "\<not> dq_stop_wait q'" "polls q'"
    using on pl by (simp_all add: progress_def polls_def)
  have pl2: "polls q2" using p1(2) g2(2) pl by (simp add: progress_def polls_def)
  have "rv = 0 \<and> at_rest q' s' \<and> dq_pend_list q' = [] \<and> (dq_work_list q' = [] \<or> work_left q' < work_left q)"
  proof (cases "w = 0")
    case True
    then have u2: "dq_used q2 = 0" using le(1) by simp
    then have "dq_avail q2 \<noteq> 0" using good_queue_ok [OF g2(1)] by (auto simp: queue_ok_def dq_used_def)
    then have "dq_work_list q2 = []" using g2(3) by simp
    moreover have "rv = 0" "q' = q2\<lparr>dq_proc_req_running := False\<rparr>" "s' = s2" using f True by (simp_all add: proc_finish_def)
    moreover have "dq_cidx q2 = dq_pidx q2" using index_eq [OF good_queue_ok [OF g2(1)]] u2 by simp
    moreover have "dq_pend_list q2 = []" using drained [OF g2(1) u2] .
    ultimately show ?thesis using g3(1) on3 le(2) by (simp add: at_rest_def)
  next
    case False
    note e = finish_eager [OF g2(1) False pl2 f]
    have "0 < dq_used q2" using False le(1) by (simp add: unat_gt_0 flip: le(1))
    then have "work_left q' < work_left q" using le(3) e(5) by (simp add: work_left_def)
    then show ?thesis using g3(1) on3 e drained [OF g3(1) e(2)] by (simp add: at_rest_def)
  qed
  then show "rv = 0" and "at_rest q' s'" and "progress q q'"
    and "dq_pend_list q' = []" and "dq_work_list q' = [] \<or> work_left q' < work_left q" using pr by simp_all
qed

text \<open>Every request is reported, in the order of submission, after at most as many calls as there are bytes
  and requests.\<close>

lemma all_complete:
  assumes "at_rest q s" and "work_left q < fuel" and "work_left q < k"
  shows "\<exists>q' s'. repeat_proc k (proc_request (loop fuel dev) dev) q s = Some (q', s') \<and> at_rest q' s' \<and> progress q q' \<and>
    dq_pend_list q' = [] \<and> dq_work_list q' = []"
  using assms
proof (induction k arbitrary: q s)
  case (Suc k)
  have "good q s" using Suc.prems(1) by (simp add: at_rest_def)
  then obtain rv q1 s1 where r: "proc_request (loop fuel dev) dev q s = Some (rv, q1, s1)"
    using proc_good [of q s fuel] Suc.prems(2) by (metis not_None_eq prod_cases3)
  note c = r call_eager(2-5) [OF Suc.prems(1) r]
  show ?case
  proof (cases k)
    case 0
    then show ?thesis using c Suc.prems(3) by (auto simp: work_left_def)
  next
    case (Suc k')
    have "work_left q1 < fuel" "work_left q1 < k"
      using c(5) Suc.prems(2,3) Suc by (auto simp: work_left_def)
    from Suc.IH [OF c(2) this] show ?thesis using c(1,3) by (auto intro: progress_trans)
  qed
qed simp

end

end
