(* ===== verification/DescqProps.thy ===== *)
theory DescqProps
  imports DescqLoop
begin

text \<open>
  The interpretations of the interface \<open>request_queue\<close> for memory-mapped and for streaming queues, and
  the properties of both: what the descriptors ask for, that no operation loses, duplicates or reorders a
  request, that the device finds only descriptors that were written for it, that the loops end, and that
  a device that works lets every request complete.
\<close>

section \<open>What a memory-mapped request asks for\<close>

text \<open>The card address of byte \<open>k\<close> of a request: consecutive, or inside the aperture over and over again.
  The aperture is a power of two that the length field of a descriptor can hold.\<close>

definition mm_target :: "qdma_queue_conf \<Rightarrow> qdma_request \<Rightarrow> nat \<Rightarrow> u64" where
  "mm_target c r k =
     rq_ep_addr r + of_nat (if cf_aperture_size c = 0 then k else k mod unat (cf_aperture_size c))"

definition mm_bytes :: "qdma_queue_conf \<Rightarrow> qdma_request \<Rightarrow> (u64 \<times> u64) list" where
  "mm_bytes c r = transfers (sgl_bytes (rq_sgl r)) (mm_target c r) (unat (rq_count r))"

definition mm_conf_ok :: "qdma_queue_conf \<Rightarrow> qdma_request \<Rightarrow> bool" where
  "mm_conf_ok c r \<longleftrightarrow> cf_aperture_size c = 0 \<or>
     (\<exists>j < 28. cf_aperture_size c = 2 ^ j) \<and> unat (rq_ep_addr r) + 2 * unat (cf_aperture_size c) < 2 ^ 64"

lemma unat_exp_32: "j < 32 \<Longrightarrow> unat (2 ^ j :: u32) = 2 ^ j"
proof -
  assume "j < 32"
  then have "(2 :: nat) ^ j < 2 ^ 32" by (rule power_strict_increasing) simp
  moreover have "(2 :: u32) ^ j = of_nat (2 ^ j)" by simp
  ultimately show ?thesis by (simp only: unat_of_nat mod_less len_num1 len_of_numeral_defs word_size) simp
qed

lemma mm_start:
  assumes "mm_conf_ok c r"
  shows "mm_ok c r (mm_ep_addr c r)" and "mm_card c r (mm_ep_addr c r) k = mm_target c r (unat (cb_offset r) + k)"
proof -
  have "mm_ok c r (mm_ep_addr c r) \<and> mm_card c r (mm_ep_addr c r) k = mm_target c r (unat (cb_offset r) + k)"
  proof (cases "cf_aperture_size c = 0")
    case True
    then show ?thesis by (simp add: mm_ok_def mm_card_def mm_target_def mm_ep_addr_def add.assoc)
  next
    case False
    then obtain j where j: "j < 28" "cf_aperture_size c = 2 ^ j" "unat (rq_ep_addr r) + 2 * unat (cf_aperture_size c) < 2 ^ 64"
      using assms by (auto simp: mm_conf_ok_def)
    have a: "unat (cf_aperture_size c) = 2 ^ j" "(2 :: nat) ^ j < 2 ^ 28"
      using j power_strict_increasing [of j 28 "2 :: nat"] by (simp_all add: unat_exp_32)
    have off: "unat (cb_offset r AND (mm_aperture c - 1)) = unat (cb_offset r) mod 2 ^ j"
      using j False by (simp add: mm_aperture_def flip: mask_eq_exp_minus_1 take_bit_eq_mask)
        (simp add: take_bit_eq_mod unat_mod_distrib unat_exp_32)
    have lt: "unat (cb_offset r) mod 2 ^ j < 2 ^ j" by simp
    have sum: "unat (rq_ep_addr r) + unat (cb_offset r) mod 2 ^ j < 2 ^ 64" using lt j(3) a(1) by linarith
    have ep: "unat (mm_ep_addr c r) = unat (rq_ep_addr r) + unat (cb_offset r) mod 2 ^ j"
      unfolding mm_ep_addr_def using False off sum by (simp, subst unat_plus_bounded) simp_all
    then show ?thesis using False j a lt
      by (simp add: mm_ok_def mm_card_def mm_target_def mod_simps)
  qed
  then show "mm_ok c r (mm_ep_addr c r)" and "mm_card c r (mm_ep_addr c r) k = mm_target c r (unat (cb_offset r) + k)"
    by simp_all
qed

lemma length_mm_bytes [simp]: "length (mm_bytes c r) = unat (rq_count r)"
  by (simp add: mm_bytes_def transfers_def)

lemma mm_bytes_segment:
  assumes "mm_conf_ok c r" and "request_ok r" and "unat (cb_offset r) + m \<le> unat (rq_count r)"
  shows "transfers (drop (unat (cb_offset r)) (sgl_bytes (rq_sgl r))) (mm_card c r (mm_ep_addr c r)) m =
    take m (drop (unat (cb_offset r)) (mm_bytes c r))"
  using assms(2,3) by (intro nth_equalityI) (simp_all add: mm_bytes_def transfers_def mm_start [OF assms(1)] request_ok_def)

text \<open>The flags of the first and the last descriptor are outside the length field.\<close>

lemma mm_view_flag: "28 \<le> b \<Longrightarrow> mm_view c (d\<lparr>mm_flag_len := mm_flag_len d OR push_bit b 1\<rparr>) = mm_view c d"
proof -
  assume "28 \<le> b"
  then have "take_bit 28 (mm_flag_len d OR push_bit b 1) = take_bit 28 (mm_flag_len d)"
    by (intro bit_eqI) (auto simp: bit_simps)
  then show ?thesis by (simp add: mm_view_def mm_len_def)
qed

lemma mm_flags_props:
  assumes "unat s < length ring" and "unat e < length ring"
  shows "length (mm_flags s e ring) = length ring" and "map (mm_view c) (mm_flags s e ring) = map (mm_view c) ring"
    and "k \<noteq> unat s \<Longrightarrow> k \<noteq> unat e \<Longrightarrow> mm_flags s e ring ! k = ring ! k"
proof -
  have "map f (xs[i := g (xs ! i)]) = map f xs" if "i < length xs" "f (g (xs ! i)) = f (xs ! i)"
    for f :: "qdma_mm_desc \<Rightarrow> (u64 \<times> u64) list" and g i xs
    using that by (simp add: map_update list_update_same_conv)
  then show "map (mm_view c) (mm_flags s e ring) = map (mm_view c) ring"
    using assms mm_view_flag [of 29 c] mm_view_flag [of 30 c] unfolding mm_flags_def Let_def by simp
qed (simp_all add: mm_flags_def Let_def)

lemma map_slice: "ring \<noteq> [] \<Longrightarrow> map f (slice ring p c) = slice (map f ring) p c"
  by (simp add: slice_def)


lemma mm_bytes_reset: "mm_bytes c (cb_reset r) = mm_bytes c r" and mm_conf_ok_reset: "mm_conf_ok c (cb_reset r) = mm_conf_ok c r"
  by (simp_all add: mm_bytes_def mm_target_def mm_conf_ok_def transfers_def cb_reset_def)

lemma fill_done_round: "fill_done req (i, f) q =
    round_q req (fl_cnt f) (fl_data f) (if i = length (rq_sgl req) then 0 else fl_sgoff f)
       (if i = length (rq_sgl req) then None else Some i) (fl_pidx f) (fl_ring f) q"
  by (simp add: round_q_def fill_done_def qdma_update_request_def Let_def)

text \<open>One round for a memory-mapped request.\<close>

lemma mm_round:
  assumes ok: "queue_ok q" and av: "dq_avail q \<noteq> 0" and rq: "request_ok req" "to_write req" "mm_conf_ok (dq_conf q) req"
    and st: "qdma_sgl_find_offset req = Some start" and r: "mm_fill req start q = (i, f)"
  obtains e where "fl_end f = Some e"
    and "round_ok (mm_view (dq_conf q)) (mm_bytes (dq_conf q) req) q req (fl_cnt f) (fl_data f) (fl_pidx f)
      (mm_flags (dq_pidx q) e (fl_ring f))"
proof -
  have n: "dq_rngsz q = length (dq_desc q)" "dq_rngsz q = unat (cf_rngsz (dq_conf q))" "unat (dq_pidx q) < dq_rngsz q"
    "0 < unat (dq_avail q)" "unat (dq_avail q) < dq_rngsz q"
    using ok av queue_ok_pidx [OF ok] by (auto simp: queue_ok_def dq_rngsz_def unat_gt_0)
  note fr = mm.fill_request [OF n(1,2) queue_ok_ring [OF ok] n(3) mm_start(1) [OF rq(3)] n(4,5) rq(1,2) st r [unfolded mm_fill_def]]
  obtain e where e: "fl_end f = Some e" "unat e = (unat (dq_pidx q) + unat (fl_cnt f) - 1) mod dq_rngsz q" using fr(6) by auto
  have lt: "unat (dq_pidx q) < length (fl_ring f)" "unat e < length (fl_ring f)" using fr(1) n(3) e(2) by simp_all
  note fl = mm_flags_props [OF lt]
  have kept: "mm_flags (dq_pidx q) e (fl_ring f) ! ((unat (dq_pidx q) + k) mod dq_rngsz q) =
        dq_desc q ! ((unat (dq_pidx q) + k) mod dq_rngsz q)" if k: "unat (fl_cnt f) < k" "k < dq_rngsz q" for k
  proof -
    have "(unat (dq_pidx q) + k) mod dq_rngsz q \<noteq> unat (dq_pidx q)"
      using slot_inj [of "unat (dq_pidx q)" k "dq_rngsz q" 0] k n(3) by auto
    moreover have "unat (fl_cnt f) - 1 < k" "unat (fl_cnt f) - 1 < dq_rngsz q" using k fr(3) by linarith+
    then have "(unat (dq_pidx q) + k) mod dq_rngsz q \<noteq> unat e"
      using slot_inj [of "unat (dq_pidx q)" k "dq_rngsz q" "unat (fl_cnt f) - 1"] k fr(3) e(2) by auto
    ultimately show ?thesis using fl(3) fr(5) k by simp
  qed
  have ne: "fl_ring f \<noteq> []" "mm_flags (dq_pidx q) e (fl_ring f) \<noteq> []" using lt fl(1) by auto
  have same: "map (mm_view (dq_conf q)) (slice (mm_flags (dq_pidx q) e (fl_ring f)) p c) =
      map (mm_view (dq_conf q)) (slice (fl_ring f) p c)" for p c
    unfolding map_slice [OF ne(1)] map_slice [OF ne(2)] fl(2) ..
  have "round_ok (mm_view (dq_conf q)) (mm_bytes (dq_conf q) req) q req (fl_cnt f) (fl_data f) (fl_pidx f)
      (mm_flags (dq_pidx q) e (fl_ring f))"
    unfolding round_ok_def same fr(7) mm_bytes_segment [OF rq(3,1) fr(8)]
    using fr(1-4,8-10) fl(1) kept by (auto simp: word_unat_eq_iff)
  then show ?thesis using that e(1) by blast
qed

interpretation mmq: request_queue mm_view mm_bytes mm_conf_ok "\<lambda>fuel dev. mm_loop fuel dev None"
proof unfold_locales
  fix q :: "qdma_mm_desc qdma_descq" and req ws fuel and dev :: "'a ring_dev" and w s q1 s1
  assume wl: "dq_work_list q = req # ws" and room: "desc_room dev q s = (q1, s1)" and av: "dq_avail q1 \<noteq> 0"
    and ok: "queue_ok q1" and rq: "request_ok req" "to_write req" "mm_conf_ok (dq_conf q1) req"
  obtain start where st: "qdma_sgl_find_offset req = Some start" using find_offset_spec [OF rq(1,2)] by auto
  obtain i f where r: "mm_fill req start q1 = (i, f)" by fastforce
  obtain e where e: "fl_end f = Some e"
    and rnd: "round_ok (mm_view (dq_conf q1)) (mm_bytes (dq_conf q1) req) q1 req (fl_cnt f) (fl_data f) (fl_pidx f)
      (mm_flags (dq_pidx q1) e (fl_ring f))"
    using mm_round [OF ok av rq st r] by blast
  have "mm_loop (Suc fuel) dev None w q s = mm_loop fuel dev None (w + fl_cnt f)
      (round_q req (fl_cnt f) (fl_data f) (if i = length (rq_sgl req) then 0 else fl_sgoff f)
        (if i = length (rq_sgl req) then None else Some i) (fl_pidx f) (mm_flags (dq_pidx q1) e (fl_ring f)) q1) s1"
    using wl room av st r e by (simp add: Let_def fill_done_round)
  with rnd show "\<exists>cnt data sgoff sg p ring. round_ok (mm_view (dq_conf q1)) (mm_bytes (dq_conf q1) req) q1 req cnt data p ring \<and>
      mm_loop (Suc fuel) dev None w q s = mm_loop fuel dev None (w + cnt) (round_q req cnt data sgoff sg p ring q1) s1"
    by blast
qed (auto simp: mm_bytes_reset mm_conf_ok_reset split: list.splits prod.splits)

section \<open>Streaming requests\<close>

definition h2c_bytes :: "qdma_request \<Rightarrow> (u64 \<times> unit) list" where
  "h2c_bytes r = transfers (sgl_bytes (rq_sgl r)) (\<lambda>_. ()) (unat (rq_count r))"

lemma h2c_bytes_segment:
  assumes "request_ok r" and "unat (cb_offset r) + m \<le> unat (rq_count r)"
  shows "transfers (drop (unat (cb_offset r)) (sgl_bytes (rq_sgl r))) (\<lambda>_. ()) m = take m (drop (unat (cb_offset r)) (h2c_bytes r))"
  using assms by (intro nth_equalityI) (simp_all add: h2c_bytes_def transfers_def request_ok_def)

lemma h2c_round:
  assumes ok: "queue_ok q" and av: "dq_avail q \<noteq> 0" and rq: "request_ok req" "to_write req" "h2c_pktsz req \<noteq> 0"
    and st: "qdma_sgl_find_offset req = Some start" and r: "h2c_fill req start q = (i, f)"
  shows "round_ok h2c_view (h2c_bytes req) q req (fl_cnt f) (fl_data f) (fl_pidx f) (fl_ring f)"
proof -
  let ?ring = "(dq_desc q)[unat (dq_pidx q) := h2c_clear (dq_desc q ! unat (dq_pidx q))]"
  have n: "dq_rngsz q = length ?ring" "dq_rngsz q = unat (cf_rngsz (dq_conf q))" "unat (dq_pidx q) < dq_rngsz q"
    "0 < unat (dq_avail q)" "unat (dq_avail q) < dq_rngsz q"
    using ok av queue_ok_pidx [OF ok] by (auto simp: queue_ok_def dq_rngsz_def unat_gt_0)
  note fr = h2c.fill_request [OF n(1,2) queue_ok_ring [OF ok] n(3) rq(3) n(4,5) rq(1,2) st r [unfolded h2c_fill_def]]
  have "fl_ring f ! ((unat (dq_pidx q) + k) mod dq_rngsz q) = dq_desc q ! ((unat (dq_pidx q) + k) mod dq_rngsz q)"
    if k: "unat (fl_cnt f) < k" "k < dq_rngsz q" for k
  proof -
    have "unat (dq_pidx q) \<noteq> (unat (dq_pidx q) + k) mod dq_rngsz q"
      using slot_inj [of "unat (dq_pidx q)" k "dq_rngsz q" 0] k n(3) by auto
    then show ?thesis using fr(5) [OF k] by simp
  qed
  then show ?thesis
    unfolding round_ok_def fr(7) h2c_bytes_segment [OF rq(1) fr(8)]
    using fr(1-4,8-10) by (auto simp: word_unat_eq_iff)
qed

interpretation h2cq: request_queue "\<lambda>_. h2c_view" "\<lambda>_. h2c_bytes" "\<lambda>_ r. h2c_pktsz r \<noteq> 0"
    "\<lambda>fuel dev. h2c_loop fuel dev None"
proof unfold_locales
  fix q :: "qdma_h2c_desc qdma_descq" and req ws fuel and dev :: "'a ring_dev" and w s q1 s1
  assume wl: "dq_work_list q = req # ws" and room: "desc_room dev q s = (q1, s1)" and av: "dq_avail q1 \<noteq> 0"
    and ok: "queue_ok q1" and rq: "request_ok req" "to_write req" "h2c_pktsz req \<noteq> 0"
  obtain start where st: "qdma_sgl_find_offset req = Some start" using find_offset_spec [OF rq(1,2)] by auto
  obtain i f where r: "h2c_fill req start q1 = (i, f)" by fastforce
  note rnd = h2c_round [OF ok av rq st r]
  have "fl_cnt f \<noteq> 0" using rnd by (auto simp: round_ok_def)
  then have "h2c_loop (Suc fuel) dev None w q s = h2c_loop fuel dev None (w + fl_cnt f)
      (round_q req (fl_cnt f) (fl_data f) (if i = length (rq_sgl req) then 0 else fl_sgoff f)
        (if i = length (rq_sgl req) then None else Some i) (fl_pidx f) (fl_ring f) q1) s1"
    using wl room av st r by (simp add: Let_def fill_done_round)
  with rnd show "\<exists>cnt data sgoff sg p ring. round_ok h2c_view (h2c_bytes req) q1 req cnt data p ring \<and>
      h2c_loop (Suc fuel) dev None w q s = h2c_loop fuel dev None (w + cnt) (round_q req cnt data sgoff sg p ring q1) s1"
    by blast
qed (auto simp: h2c_bytes_def h2c_pktsz_def cb_reset_def split: list.splits prod.splits)

end
