(* ===== verification/DescqRun.thy ===== *)
theory DescqRun
  imports DescqProps
begin

text \<open>
  Descriptor queues in use: a new queue, the operations on it in any order, and the device.  The contract
  of the device is interpreted on the register access of the soft IP with a DMA engine that consumes what
  is posted.  The properties speak of all queues that the operations can reach.
\<close>

section \<open>The device\<close>

text \<open>The macro \<^verbatim>\<open>queue_pidx_update\<close> calls the access table; the queue type is passed on as the flag for
  the direction.  The completion status is memory that the device writes.\<close>

definition soft_ring_dev :: "'s hw_dev \<Rightarrow> bool \<Rightarrow> ('s \<Rightarrow> u16 \<times> 's) \<Rightarrow> 's ring_dev" where
  "soft_ring_dev hw is_vf status =
     \<lparr>rd_pidx_update = (\<lambda>qid t info s. qdma_queue_pidx_update (Some hw) is_vf (ucast qid) (t \<noteq> Q_H2C) (Some info) s),
      rd_cmpl_cidx = status\<rparr>"

text \<open>An engine: its registers, and the consumer index that it last wrote to memory.\<close>

type_synonym engine = "(u32 \<Rightarrow> u32) \<times> u16"

definition engine_hw :: "engine hw_dev" where
  "engine_hw = \<lparr>reg_read = \<lambda>a s. (fst s a, s), reg_write = \<lambda>a v s. ((fst s)(a := v), snd s), udelay = \<lambda>_ s. s\<rparr>"

definition posted_index :: "bool \<Rightarrow> u32 \<Rightarrow> queue_type_t \<Rightarrow> engine \<Rightarrow> u32" where
  "posted_index is_vf qid t s = FIELD_GET QDMA_DMA_SEL_DESC_PIDX_MASK (fst s (pidx_reg_addr is_vf (ucast qid) (t \<noteq> Q_H2C)))"

definition dma_engine :: "bool \<Rightarrow> u32 \<Rightarrow> queue_type_t \<Rightarrow> engine ring_dev" where
  "dma_engine is_vf qid t =
     soft_ring_dev engine_hw is_vf (\<lambda>s. let c = ucast (posted_index is_vf qid t s) in (c, fst s, c))"

definition engine_cons :: "engine \<Rightarrow> nat" where
  "engine_cons s = unat (snd s)"

definition engine_tail :: "bool \<Rightarrow> u32 \<Rightarrow> queue_type_t \<Rightarrow> engine \<Rightarrow> nat" where
  "engine_tail is_vf qid t s = unat (posted_index is_vf qid t s)"

lemma posted_index_16: "unat (ucast (posted_index is_vf qid t s) :: u16) = unat (posted_index is_vf qid t s)"
  unfolding posted_index_def FIELD_GET_field [OF GENMASK_field [of 0 15, simplified]]
  by (simp add: unsigned_ucast_eq unsigned_take_bit_eq)

lemma take_bit_u16 [simp]: "take_bit 16 (unat (w :: u16)) = unat w"
  by (rule take_bit_nat_eq_self) (use unsigned_less [of w, where 'a = nat] in simp)

lemma engine_update:
  "rd_pidx_update (dma_engine is_vf qid t) qid t info s = (r, s') \<Longrightarrow>
    r = 0 \<and> engine_cons s' = engine_cons s \<and> engine_tail is_vf qid t s' = unat (pidx info)"
  by (auto simp: dma_engine_def soft_ring_dev_def qdma_queue_pidx_update_def engine_hw_def engine_cons_def
      engine_tail_def posted_index_def field_simps_qdma unsigned_take_bit_eq)

lemma engine_read:
  "rd_cmpl_cidx (dma_engine is_vf qid t) s = (c, s') \<Longrightarrow>
    unat c = engine_tail is_vf qid t s \<and> engine_cons s' = unat c \<and> engine_tail is_vf qid t s' = engine_tail is_vf qid t s"
  by (auto simp: dma_engine_def soft_ring_dev_def engine_cons_def engine_tail_def posted_index_16 Let_def)
    (simp add: posted_index_def)

interpretation engine: ring_device "dma_engine is_vf qid t" qid t n engine_cons "engine_tail is_vf qid t" for is_vf qid t n
proof unfold_locales
  fix s c s'
  assume rd: "rd_cmpl_cidx (dma_engine is_vf qid t) s = (c, s')" and lt: "engine_cons s < n" "engine_tail is_vf qid t s < n"
  have "(engine_cons s + (engine_tail is_vf qid t s + n - engine_cons s) mod n) mod n = engine_tail is_vf qid t s"
    using lt by (simp add: mod_simps)
  then show "engine_tail is_vf qid t s' = engine_tail is_vf qid t s \<and> engine_cons s' = unat c \<and>
    (\<exists>j \<le> (engine_tail is_vf qid t s + n - engine_cons s) mod n. unat c = (engine_cons s + j) mod n)"
    using engine_read [OF rd] by (auto intro!: exI [of _ "(engine_tail is_vf qid t s + n - engine_cons s) mod n"])
qed (use engine_update in fastforce)

interpretation mm_engine: eager_queue "dma_engine is_vf qid t" qid t n engine_cons "engine_tail is_vf qid t"
    mm_view mm_bytes mm_conf_ok "\<lambda>fuel dev. mm_loop fuel dev None" for is_vf qid t n
  by unfold_locales (use engine_read engine_update in fastforce)+

interpretation h2c_engine: eager_queue "dma_engine is_vf qid t" qid t n engine_cons "engine_tail is_vf qid t"
    "\<lambda>_. h2c_view" "\<lambda>_. h2c_bytes" "\<lambda>_ r. h2c_pktsz r \<noteq> 0" "\<lambda>fuel dev. h2c_loop fuel dev None" for is_vf qid t n
  by unfold_locales (use engine_read engine_update in fastforce)+

section \<open>A new queue\<close>

text \<open>\<^verbatim>\<open>qdma_descq_init\<close> clears the structure and \<^verbatim>\<open>qdma_descq_config\<close> copies the configuration into it;
  interrupts are enabled unless the driver polls.\<close>

definition irq_conf :: "qdma_drv_mode \<Rightarrow> qdma_queue_conf \<Rightarrow> qdma_queue_conf" where
  "irq_conf mode c = (let irq = (if mode \<noteq> POLL_MODE then 1 else 0) in c\<lparr>cf_irq_en := irq, cf_cmpl_en_intr := irq\<rparr>)"

definition new_queue :: "qdma_drv_mode \<Rightarrow> qdma_queue_conf \<Rightarrow> 'd qdma_descq" where
  "new_queue mode c =
     \<lparr>dq_conf = irq_conf mode c, dq_drv_mode = mode, dq_state = Q_STATE_DISABLED, dq_stop_wait = False,
      dq_proc_req_running = False, dq_work_list = [], dq_work_req_pend = 0, dq_pend_list = [],
      dq_pend_list_empty = False, dq_avail = 0, dq_pidx = 0, dq_cidx = 0, dq_credit = 0, dq_desc = [],
      dq_desc_pend = 0, dq_pidx_info = \<lparr>pidx = 0, pidx_irq_en = 0\<rparr>, dq_total_cmpl_descs = 0,
      dq_stats = \<lparr>total_mm_h2c_pkts = 0, total_mm_c2h_pkts = 0, total_st_h2c_pkts = 0, total_st_c2h_pkts = 0\<rparr>,
      dq_done = []\<rparr>"

text \<open>The part of \<^verbatim>\<open>qdma_descq_config_complete\<close> for queues without a completion ring; \<open>ring_sz\<close> is the entry
  of the global ring size registers that the queue uses.\<close>

definition config_complete :: "u32 \<Rightarrow> 'd qdma_descq \<Rightarrow> 'd qdma_descq" where
  "config_complete ring_sz q =
     (let c = (dq_conf q)\<lparr>cf_rngsz := ring_sz - 1\<rparr>
      in q\<lparr>dq_conf := c,
           dq_pidx_info := (dq_pidx_info q)\<lparr>pidx_irq_en := (if is_st_c2h c then 0 else cf_irq_en c)\<rparr>,
           dq_avail := cf_rngsz c - 1, dq_pend_list_empty := True, dq_pidx := 0, dq_cidx := 0, dq_credit := 0,
           dq_work_req_pend := 0\<rparr>)"

text \<open>\<^verbatim>\<open>desc_ring_alloc\<close>: a ring of zeroes.\<close>

definition alloc_ring :: "'d \<Rightarrow> 'd qdma_descq \<Rightarrow> 'd qdma_descq" where
  "alloc_ring zero q = q\<lparr>dq_desc := replicate (unat (cf_rngsz (dq_conf q))) zero\<rparr>"

definition started_queue :: "'d \<Rightarrow> qdma_drv_mode \<Rightarrow> u32 \<Rightarrow> qdma_queue_conf \<Rightarrow> 'd qdma_descq" where
  "started_queue zero mode ring_sz c =
     (alloc_ring zero (config_complete ring_sz (new_queue mode c)))\<lparr>dq_state := Q_STATE_ONLINE\<rparr>"

definition mm_zero :: qdma_mm_desc where
  "mm_zero = \<lparr>mm_src_addr = 0, mm_flag_len = 0, mm_rsvd0 = 0, mm_dst_addr = 0, mm_rsvd1 = 0\<rparr>"

definition h2c_zero :: qdma_h2c_desc where
  "h2c_zero = \<lparr>h2c_cdh_flags = 0, h2c_pld_len = 0, h2c_len = 0, h2c_flags = 0, h2c_src_addr = 0\<rparr>"

section \<open>Operations in any order\<close>

text \<open>A run from a state: well-formed requests put on the work list, calls of the function that processes
  requests, by the thread that submitted or by another, and service of completions.  Each is atomic under the lock of
  the queue; a submission is the first followed, at any later time, by the second.  The list holds the requests that
  were accepted.\<close>

inductive run :: "('d, 's) queue_proc \<Rightarrow> 's ring_dev \<Rightarrow> (qdma_request \<Rightarrow> bool) \<Rightarrow> 'd qdma_descq \<times> 's \<Rightarrow>
    qdma_request list \<Rightarrow> 'd qdma_descq \<times> 's \<Rightarrow> bool"
  for proc dev ok st where
  start: "run proc dev ok st [] st"
| enqueue: "run proc dev ok st subs (q, s) \<Longrightarrow> request_ok req \<Longrightarrow> ok req \<Longrightarrow>
    request_enqueue write map_rv req q = (rv, q') \<Longrightarrow>
    run proc dev ok st (subs @ (if rv = 0 then [cb_reset req] else [])) (q', s)"
| process: "run proc dev ok st subs (q, s) \<Longrightarrow> proc q s = Some (rv, q', s') \<Longrightarrow> run proc dev ok st subs (q', s')"
| service: "run proc dev ok st subs (q, s) \<Longrightarrow> service_cmpl_update dev proc q s = Some (rv, q', s') \<Longrightarrow>
    run proc dev ok st subs (q', s')"

lemma request_ok_reset [simp]: "request_ok (cb_reset r) = request_ok r" "request_ok (r\<lparr>cb_unmap_needed := b\<rparr>) = request_ok r"
  "cb_offset (cb_reset r) = 0" "cb_desc_nr (cb_reset r) = 0" "rq_count (cb_reset r) = rq_count r"
  by (simp_all add: request_ok_def cb_reset_def)

lemma enqueue_cases:
  assumes "request_enqueue write map_rv req q = (rv, q')"
  obtains "rv < 0" and "q' = q"
  | b where "rv = 0" and "dq_state q = Q_STATE_ONLINE" and "q' = qdma_work_queue_add ((cb_reset req)\<lparr>cb_unmap_needed := b\<rparr>) q"
proof (cases "cf_q_type (dq_conf q) = Q_CMPT \<or> bad_direction write (cf_q_type (dq_conf q)) \<or>
    (\<exists>r. map_rv = Some r \<and> r < 0) \<or> dq_state q \<noteq> Q_STATE_ONLINE")
  case True
  then have "rv < 0 \<and> q' = q"
    using assms by (auto simp: request_enqueue_def Let_def split: if_splits option.splits)
  then show ?thesis using that(1) by blast
next
  case False
  show ?thesis
  proof (cases map_rv)
    case None
    have "(cb_reset req)\<lparr>cb_unmap_needed := False\<rparr> = cb_reset req" by (simp add: cb_reset_def)
    then show ?thesis using that(2) [of False] False None assms by (simp add: request_enqueue_def)
  next
    case (Some r)
    then show ?thesis using that(2) [of True] False assms by (simp add: request_enqueue_def Let_def)
  qed
qed

text \<open>A submission without interruption is a run of two steps.\<close>

lemma run_submit:
  assumes "run proc dev ok st subs (q, s)" and "request_ok req" and "ok req"
    and "qdma_request_submit proc write map_rv req q s = Some (rv, q', s')"
  shows "run proc dev ok st (subs @ (if rv = 0 then [cb_reset req] else [])) (q', s')"
proof -
  obtain rv1 q1 where e: "request_enqueue write map_rv req q = (rv1, q1)" by fastforce
  note step = run.enqueue [OF assms(1-3) e]
  show ?thesis
  proof (cases "rv1 < 0")
    case True
    then show ?thesis using step assms(4) e by (auto simp: qdma_request_submit_def)
  next
    case False
    then have "rv1 = 0" using e by (auto elim: enqueue_cases)
    then obtain rv2 where "proc q1 s = Some (rv2, q', s')" "rv = 0"
      using assms(4) e by (auto simp: qdma_request_submit_def)
    with run.process [OF step] \<open>rv1 = 0\<close> show ?thesis by simp
  qed
qed

context queue_on_device
begin

lemma add_reset_good:
  assumes "good q s" and "request_ok req" and "ok (dq_conf q) req"
    and q1_def: "q1 = qdma_work_queue_add ((cb_reset req)\<lparr>cb_unmap_needed := b\<rparr>) q"
  shows "good q1 s" and "history q1 = history q @ [cb_reset req]" and "dq_done q1 = dq_done q" and "dq_conf q1 = dq_conf q"
proof -
  have "ok (dq_conf q) ((cb_reset req)\<lparr>cb_unmap_needed := b\<rparr>)" using assms(3) ok_reset cb_reset_simps(3,4) by metis
  note a = add_good [OF assms(1) _ this, folded q1_def]
  show "good q1 s" and "history q1 = history q @ [cb_reset req]" and "dq_done q1 = dq_done q"
    using a assms(2) by simp_all
  show "dq_conf q1 = dq_conf q" by (simp add: q1_def qdma_work_queue_add_def)
qed

lemma service_good:
  assumes g: "good q s" and r: "service_cmpl_update dev (proc_request (loop fuel dev) dev) q s = Some (rv, q', s')"
  shows "good q' s' \<and> progress q q'"
proof (cases "polls q")
  case True
  then show ?thesis using r g proc_good [OF g, of fuel] by (auto simp: service_cmpl_update_def split: if_splits)
next
  case False
  obtain rv1 q1 s1 where c: "descq_mm_n_h2c_cmpl_status dev q s = (rv1, q1, s1)" by (metis prod_cases3)
  note g1 = cmpl_good [OF g c]
  then show ?thesis using r False c proc_good [OF g1(1), of fuel]
    by (auto simp: service_cmpl_update_def intro: progress_trans split: if_splits)
qed

text \<open>Nothing is lost, duplicated or reordered, and every report is a success with the full count.\<close>

lemma run_good:
  assumes "run (proc_request (loop fuel dev) dev) dev (ok (dq_conf q0)) (q0, s0) subs (q, s)" and "good q0 s0"
  shows "good q s \<and> dq_conf q = dq_conf q0 \<and> history q = history q0 @ subs \<and>
    (\<exists>ds. dq_done q = dq_done q0 @ ds \<and> (\<forall>d \<in> set ds. reported_ok d))"
  using assms
proof (induction subs "(q, s)" arbitrary: q s rule: run.induct)
  case start
  then show ?case by simp
next
  case (enqueue subs q s req wr map_rv rv q')
  note ih = enqueue.hyps(2) [OF enqueue.prems]
  from enqueue.hyps(5) show ?case
  proof (cases rule: enqueue_cases)
    case 1
    then show ?thesis using ih by simp
  next
    case (2 b)
    then show ?thesis using add_reset_good [OF _ _ _ 2(3)] ih enqueue.hyps(3,4) by auto
  qed
next
  case (process subs q s rv q' s')
  note ih = process.hyps(2) [OF process.prems]
  have "good q' s' \<and> progress q q'" using proc_good [of q s fuel] process.hyps(3) ih by blast
  then show ?case using ih by (fastforce simp: progress_def)
next
  case (service subs q s rv q' s')
  note ih = service.hyps(2) [OF service.prems]
  have "good q' s' \<and> progress q q'" using service_good service.hyps(3) ih by blast
  then show ?case using ih by (fastforce simp: progress_def)
qed

lemma started_good:
  assumes "3 \<le> unat ring_sz" and "unat ring_sz \<le> 2 ^ 16 + 1" and "n = unat ring_sz - 1"
    and "cf_qidx c = qid" and "cf_q_type c = t" and "cons s = 0" and "tail s = 0"
  shows "good (started_queue zero mode ring_sz c) s" and "history (started_queue zero mode ring_sz c) = []"
    and "dq_done (started_queue zero mode ring_sz c) = []"
    and "dq_conf (started_queue zero mode ring_sz c) = (irq_conf mode c)\<lparr>cf_rngsz := ring_sz - 1\<rparr>"
proof -
  let ?q = "started_queue zero mode ring_sz c"
  have r: "unat (ring_sz - 1) = unat ring_sz - 1" using assms(1) by (subst unat_minus_bounded) simp_all
  have a: "unat (ring_sz - 1 - 1) = unat ring_sz - 2" using assms(1) r by (subst unat_minus_bounded) simp_all
  note d = started_queue_def alloc_ring_def config_complete_def new_queue_def irq_conf_def Let_def
  have f: "dq_rngsz ?q = n" "unat (dq_avail ?q) = n - 1" "dq_used ?q = 0" "dq_cidx ?q = 0" "dq_pidx ?q = 0" "length (dq_desc ?q) = n"
    "dq_work_list ?q = []" "dq_pend_list ?q = []" "dq_credit ?q = 0" "dq_work_req_pend ?q = 0" "pidx (dq_pidx_info ?q) = 0"
    "cf_qidx (dq_conf ?q) = qid" "cf_q_type (dq_conf ?q) = t"
    using assms r a by (simp_all add: d dq_rngsz_def dq_used_def)
  have "1 < n" "n \<le> 2 ^ 16" "n - 1 < n" using assms(1-3) by linarith+
  then have "queue_ok ?q" unfolding queue_ok_def f by simp
  then have "queue_inv ?q []" using f by (simp add: queue_inv_def outstanding_def slice_def exact_def in_order_def)
  moreover have "in_step ?q s" unfolding in_step_def using f assms(6,7) by (auto intro!: exI [of _ 0])
  ultimately show "good ?q s" by (auto simp: good_def)
qed (simp_all add: started_queue_def alloc_ring_def config_complete_def new_queue_def history_def Let_def)

end

context queue_on_device
begin

text \<open>With fuel for the bytes to write, a submission on a queue that is on line is accepted.\<close>

lemma submit_accepted:
  assumes g: "good q s" and on: "dq_state q = Q_STATE_ONLINE" and rq: "request_ok req" "ok (dq_conf q) req"
    and dir: "cf_q_type (dq_conf q) \<noteq> Q_CMPT" "\<not> bad_direction wr (cf_q_type (dq_conf q))"
    and fuel: "work_left q + Suc (unat (rq_count req)) < fuel"
  shows "\<exists>q' s'. qdma_request_submit (proc_request (loop fuel dev) dev) wr None req q s = Some (0, q', s')"
proof -
  let ?q = "qdma_work_queue_add (cb_reset req) q"
  have okr: "ok (dq_conf q) (cb_reset req)" using rq(2) by (simp add: ok_reset)
  note a = add_good [OF g _ okr]
  have "good ?q s" "work_left ?q < fuel" using a(1,4) rq(1) fuel by simp_all
  then obtain rv q' s' where "proc_request (loop fuel dev) dev ?q s = Some (rv, q', s')"
    using proc_good [of ?q s fuel] by (metis not_None_eq prod_cases3)
  then show ?thesis using on dir by (simp add: qdma_request_submit_def request_enqueue_def)
qed

end

context queue_on_device
begin

text \<open>All that is known of a run from a new queue.\<close>

lemma run_started:
  assumes c: "n = unat ring_sz - 1" "3 \<le> unat ring_sz" "unat ring_sz \<le> 2 ^ 16 + 1" "cf_qidx c = qid" "cf_q_type c = t"
    and s0: "cons s0 = 0" "tail s0 = 0"
    and r: "run (proc_request (loop fuel dev) dev) dev (ok ((irq_conf mode c)\<lparr>cf_rngsz := ring_sz - 1\<rparr>))
      (started_queue zero mode ring_sz c, s0) subs (q, s)"
  shows "good q s" and "history q = subs" and "\<forall>d \<in> set (dq_done q). reported_ok d"
    and "\<exists>as. outstanding q as \<and> exact (vw (dq_conf q)) (bytes (dq_conf q)) as"
    and "work_left q < fuel' \<Longrightarrow> proc_request (loop fuel' dev) dev q s \<noteq> None"
proof -
  note g0 = started_good [OF c(2,3,1,4,5) s0, of zero mode]
  have rg: "good q s \<and> history q = subs \<and> (\<forall>d \<in> set (dq_done q). reported_ok d)"
    using run_good [of fuel "started_queue zero mode ring_sz c" s0 subs q s] r g0 by auto
  then show g: "good q s" and "history q = subs" and "\<forall>d \<in> set (dq_done q). reported_ok d" by simp_all
  show "\<exists>as. outstanding q as \<and> exact (vw (dq_conf q)) (bytes (dq_conf q)) as"
    using g by (auto simp: good_def queue_inv_def)
  show "proc_request (loop fuel' dev) dev q s \<noteq> None" if "work_left q < fuel'"
    using proc_good [OF g, of fuel'] that by simp
qed

end

context eager_queue
begin

lemma run_at_rest:
  assumes "run (proc_request (loop fuel dev) dev) dev (ok (dq_conf q0)) (q0, s0) subs (q, s)" and "at_rest q0 s0"
  shows "at_rest q s \<and> dq_conf q = dq_conf q0"
  using assms
proof (induction subs "(q, s)" arbitrary: q s rule: run.induct)
  case start
  then show ?case by simp
next
  case (enqueue subs q s req wr map_rv rv q')
  note ih = enqueue.hyps(2) [OF enqueue.prems]
  from enqueue.hyps(5) show ?case
  proof (cases rule: enqueue_cases)
    case 1
    then show ?thesis using ih by simp
  next
    case (2 b)
    have "good q' s" "dq_conf q' = dq_conf q"
      using add_reset_good [OF _ _ _ 2(3)] ih enqueue.hyps(3,4) by (auto simp: at_rest_def)
    then show ?thesis using ih by (simp add: at_rest_def 2(3) qdma_work_queue_add_def polls_def)
  qed
next
  case (process subs q s rv q' s')
  note ih = process.hyps(2) [OF process.prems]
  then show ?case using call_eager [of q s fuel rv q' s'] process.hyps(3) by (simp add: progress_def)
next
  case (service subs q s rv q' s')
  note ih = service.hyps(2) [OF service.prems]
  then obtain rv1 where "proc_request (loop fuel dev) dev q s = Some (rv1, q', s')"
    using service.hyps(3) by (auto simp: service_cmpl_update_def at_rest_def split: if_splits)
  then show ?case using call_eager [of q s fuel rv1 q' s'] ih by (simp add: progress_def)
qed

lemma run_completes:
  assumes r: "run (proc_request (loop fuel dev) dev) dev (ok (dq_conf q0)) (q0, s0) subs (q, s)" and q0: "at_rest q0 s0"
    and h: "history q0 = []" "dq_done q0 = []" and fuel: "work_left q < fuel'"
  shows "\<exists>q' s'. repeat_proc (Suc (work_left q)) (proc_request (loop fuel' dev) dev) q s = Some (q', s') \<and>
    map (\<lambda>d. cb_reset (fst d)) (dq_done q') = subs \<and> (\<forall>d \<in> set (dq_done q'). reported_ok d)"
proof -
  have g0: "good q0 s0" using q0 by (simp add: at_rest_def)
  have a: "at_rest q s" using run_at_rest [OF r q0] by simp
  obtain q' s' where c: "repeat_proc (Suc (work_left q)) (proc_request (loop fuel' dev) dev) q s = Some (q', s')" "progress q q'"
    "dq_pend_list q' = []" "dq_work_list q' = []" using all_complete [OF a fuel, of "Suc (work_left q)"] by auto
  have "history q = subs" "\<forall>d \<in> set (dq_done q). reported_ok d" using run_good [OF r g0] h by auto
  then show ?thesis using c by (fastforce simp: progress_def history_def)
qed

end

section \<open>Properties of the queues\<close>

text \<open>A device at the start of a queue: it keeps its contract for the queue, and its indices are zero.\<close>

definition device_at_start :: "'s ring_dev \<Rightarrow> qdma_queue_conf \<Rightarrow> u32 \<Rightarrow> ('s \<Rightarrow> nat) \<Rightarrow> ('s \<Rightarrow> nat) \<Rightarrow> 's \<Rightarrow> bool" where
  "device_at_start dev c ring_sz cons tail s \<longleftrightarrow>
     ring_device dev (cf_qidx c) (cf_q_type c) (unat ring_sz - 1) cons tail \<and> cons s = 0 \<and> tail s = 0 \<and>
     3 \<le> unat ring_sz \<and> unat ring_sz \<le> 2 ^ 16 + 1"

lemma mm_proc_eq: "descq_mm_proc_request fuel dev None = proc_request (mm_loop fuel dev None) dev"
  by (simp add: descq_mm_proc_request_def bypass_of_def fun_eq_iff)

lemma h2c_proc_eq: "descq_proc_st_h2c_request fuel dev None = proc_request (h2c_loop fuel dev None) dev"
  by (simp add: descq_proc_st_h2c_request_def bypass_of_def fun_eq_iff)

lemma mm_conf_ok_rngsz [simp]: "mm_conf_ok (c\<lparr>cf_rngsz := k\<rparr>) = mm_conf_ok c"
    "mm_conf_ok (irq_conf mode c) = mm_conf_ok c"
  by (simp_all add: mm_conf_ok_def irq_conf_def fun_eq_iff)

lemma mm_on_device:
  "ring_device dev qid t n cons tail \<Longrightarrow>
    queue_on_device dev qid t n cons tail mm_view mm_bytes mm_conf_ok (\<lambda>fuel dev. mm_loop fuel dev None)"
  by (rule queue_on_device.intro [OF _ mmq.request_queue_axioms])

lemma h2c_on_device:
  "ring_device dev qid t n cons tail \<Longrightarrow>
    queue_on_device dev qid t n cons tail (\<lambda>_. h2c_view) (\<lambda>_. h2c_bytes) (\<lambda>_ r. h2c_pktsz r \<noteq> 0)
      (\<lambda>fuel dev. h2c_loop fuel dev None)"
  by (rule queue_on_device.intro [OF _ h2cq.request_queue_axioms])

text \<open>What holds of the runs of the two kinds of queue.\<close>

lemma mm_run_started:
  assumes dev: "device_at_start dev c ring_sz cons tail s0"
    and r: "run (descq_mm_proc_request fuel dev None) dev (mm_conf_ok c) (started_queue mm_zero mode ring_sz c, s0) subs (q, s)"
  shows "history q = subs" and "\<forall>d \<in> set (dq_done q). reported_ok d"
    and "\<exists>as. outstanding q as \<and> exact (mm_view (dq_conf q)) (mm_bytes (dq_conf q)) as"
    and "work_left q < fuel' \<Longrightarrow> descq_mm_proc_request fuel' dev None q s \<noteq> None"
proof -
  note d = dev [unfolded device_at_start_def]
  note rs = queue_on_device.run_started [OF mm_on_device [OF d [THEN conjunct1]] refl]
  show "history q = subs" and "\<forall>d \<in> set (dq_done q). reported_ok d"
    and "\<exists>as. outstanding q as \<and> exact (mm_view (dq_conf q)) (mm_bytes (dq_conf q)) as"
    and "work_left q < fuel' \<Longrightarrow> descq_mm_proc_request fuel' dev None q s \<noteq> None"
    using rs(2-5) [of c s0 fuel mode mm_zero subs q s] d r by (simp_all add: mm_proc_eq)
qed

lemma h2c_run_started:
  assumes dev: "device_at_start dev c ring_sz cons tail s0"
    and r: "run (descq_proc_st_h2c_request fuel dev None) dev (\<lambda>r. h2c_pktsz r \<noteq> 0)
      (started_queue h2c_zero mode ring_sz c, s0) subs (q, s)"
  shows "history q = subs" and "\<forall>d \<in> set (dq_done q). reported_ok d"
    and "\<exists>as. outstanding q as \<and> exact h2c_view h2c_bytes as"
    and "work_left q < fuel' \<Longrightarrow> descq_proc_st_h2c_request fuel' dev None q s \<noteq> None"
proof -
  note d = dev [unfolded device_at_start_def]
  note rs = queue_on_device.run_started [OF h2c_on_device [OF d [THEN conjunct1]] refl]
  show "history q = subs" and "\<forall>d \<in> set (dq_done q). reported_ok d"
    and "\<exists>as. outstanding q as \<and> exact h2c_view h2c_bytes as"
    and "work_left q < fuel' \<Longrightarrow> descq_proc_st_h2c_request fuel' dev None q s \<noteq> None"
    using rs(2-5) [of c s0 fuel h2c_zero mode subs q s] d r by (simp_all add: h2c_proc_eq)
qed

text \<open>C14: However submissions of well-formed requests, processing and completions follow each other, the slots of a memory-mapped
  queue between the consumer and the producer index hold exactly the descriptors of the requests that are
  not yet reported, in the order of submission.  The descriptors of a request ask for its bytes in order,
  each byte from its place in the scatter-gather list to its place on the card (or back), and none of the
  bytes written so far is missing: for the oldest request the device may have consumed the first ones,
  for every other request they are all there.  So no descriptor that the device may still read is ever
  overwritten, and the device never finds one that was not written for it.\<close>

theorem mm_queue_refines:
  assumes "device_at_start dev c ring_sz cons tail s0"
    and "run (descq_mm_proc_request fuel dev None) dev (mm_conf_ok c) (started_queue mm_zero mode ring_sz c, s0) subs (q, s)"
  shows "\<exists>as. outstanding q as \<and> exact (mm_view (dq_conf q)) (mm_bytes (dq_conf q)) as"
  by (rule mm_run_started(3) [OF assms])

text \<open>C15: No request is lost, duplicated or overtaken in runs of submissions of well-formed requests, processing and
  service calls, without batches and without waits that time out: the requests reported so far, followed by those that
  are pending and those that wait, are the accepted requests in the order of their submission.  Every
  report is a success with the full byte count.\<close>

theorem mm_reports_in_order:
  assumes "device_at_start dev c ring_sz cons tail s0"
    and "run (descq_mm_proc_request fuel dev None) dev (mm_conf_ok c) (started_queue mm_zero mode ring_sz c, s0) subs (q, s)"
  shows "map (\<lambda>d. cb_reset (fst d)) (dq_done q) @ map cb_reset (dq_pend_list q @ dq_work_list q) = subs \<and>
    (\<forall>d \<in> set (dq_done q). reported_ok d)"
  using mm_run_started(1,2) [OF assms] by (simp add: history_def)

text \<open>C18: Processing the requests of a memory-mapped queue ends when the requests are well-formed: a round for every byte
  that is left and one for every request is enough.\<close>

theorem mm_proc_terminates:
  assumes "device_at_start dev c ring_sz cons tail s0"
    and "run (descq_mm_proc_request fuel dev None) dev (mm_conf_ok c) (started_queue mm_zero mode ring_sz c, s0) subs (q, s)"
    and "work_left q < fuel'"
  shows "\<exists>rv q' s'. descq_mm_proc_request fuel' dev None q s = Some (rv, q', s')"
  using mm_run_started(4) [OF assms] by (metis not_None_eq prod_cases3)

text \<open>C19: The same for streaming host-to-card queues, with well-formed requests and without the ping-pong measurement: the ring holds the descriptors of the requests that are
  not reported, which ask for their bytes in order; reports come in the order of submission, with the full
  count; and processing ends.  The packet size of a request, which the caller passes as the address, must
  not have its lower half zero.\<close>

theorem h2c_queue_refines:
  assumes "device_at_start dev c ring_sz cons tail s0"
    and "run (descq_proc_st_h2c_request fuel dev None) dev (\<lambda>r. h2c_pktsz r \<noteq> 0)
      (started_queue h2c_zero mode ring_sz c, s0) subs (q, s)"
  shows "(\<exists>as. outstanding q as \<and> exact h2c_view h2c_bytes as) \<and>
    map (\<lambda>d. cb_reset (fst d)) (dq_done q) @ map cb_reset (dq_pend_list q @ dq_work_list q) = subs \<and>
    (\<forall>d \<in> set (dq_done q). reported_ok d) \<and>
    (\<exists>r. descq_proc_st_h2c_request (Suc (work_left q)) dev None q s = Some r)"
  using h2c_run_started [OF assms] by (auto simp: history_def)

definition eager_device :: "'s ring_dev \<Rightarrow> qdma_queue_conf \<Rightarrow> ('s \<Rightarrow> nat) \<Rightarrow> bool" where
  "eager_device dev c tail \<longleftrightarrow> (\<forall>s. unat (fst (rd_cmpl_cidx dev s)) = tail s) \<and>
     (\<forall>info s. 0 \<le> fst (rd_pidx_update dev (cf_qidx c) (cf_q_type c) info s))"

lemma mm_eager:
  assumes "ring_device dev (cf_qidx c) (cf_q_type c) n cons tail" and "eager_device dev c tail"
  shows "eager_queue dev (cf_qidx c) (cf_q_type c) n cons tail mm_view mm_bytes mm_conf_ok (\<lambda>fuel dev. mm_loop fuel dev None)"
proof (intro eager_queue.intro eager_queue_axioms.intro mm_on_device [OF assms(1)])
  fix s x s' assume "rd_cmpl_cidx dev s = (x, s')"
  then show "unat x = tail s" using assms(2) by (metis eager_device_def fst_conv)
next
  fix info s r s' assume "rd_pidx_update dev (cf_qidx c) (cf_q_type c) info s = (r, s')"
  then show "0 \<le> r" using assms(2) by (metis eager_device_def fst_conv)
qed

text \<open>C17: On a device that accepts producer indices and has consumed what was posted by the time the index
  it writes back is read, every accepted well-formed request of a polled memory-mapped queue is reported, in order and
  with its full count, after finitely many calls of the function that processes requests.\<close>

theorem mm_requests_complete:
  assumes dev: "device_at_start dev c ring_sz cons tail s0" "eager_device dev c tail"
    and mode: "mode = POLL_MODE \<or> mode = AUTO_MODE"
    and r: "run (descq_mm_proc_request fuel dev None) dev (mm_conf_ok c) (started_queue mm_zero mode ring_sz c, s0) subs (q, s)"
  shows "\<exists>q' s'. repeat_proc (Suc (work_left q)) (descq_mm_proc_request (Suc (work_left q)) dev None) q s = Some (q', s') \<and>
    map (\<lambda>d. cb_reset (fst d)) (dq_done q') = subs \<and> (\<forall>d \<in> set (dq_done q'). reported_ok d)"
proof -
  let ?q0 = "started_queue mm_zero mode ring_sz c"
  note d = dev(1) [unfolded device_at_start_def]
  note l = mm_eager [OF d [THEN conjunct1] dev(2)]
  note g0 = queue_on_device.started_good [OF mm_on_device [OF d [THEN conjunct1]], of ring_sz c s0 mm_zero mode]
  have "eager_queue.at_rest (cf_qidx c) (cf_q_type c) (unat ring_sz - 1) cons tail mm_view mm_bytes mm_conf_ok ?q0 s0"
    unfolding eager_queue.at_rest_def [OF l] using g0(1) d mode
    by (simp add: polls_def started_queue_def alloc_ring_def config_complete_def new_queue_def Let_def)
  then show ?thesis
    using eager_queue.run_completes [OF l, of fuel ?q0 s0 subs q s "Suc (work_left q)"] g0(2-4) d r by (simp add: mm_proc_eq)
qed

section \<open>A concrete queue\<close>

text \<open>A ring of four slots on queue 3, on the engine; a request of twelve bytes in two pieces.\<close>

definition demo_conf :: qdma_queue_conf where
  "demo_conf = \<lparr>cf_qidx = 3, cf_st = False, cf_q_type = Q_H2C, cf_irq_en = 0, cf_desc_rng_sz_idx = 0,
     cf_wb_status_en = 0, cf_cmpl_status_acc_en = 0, cf_cmpl_status_pend_chk = 0,
     cf_desc_bypass = False, cf_pfetch_en = 0, cf_fetch_credit = 0, cf_c2h_buf_sz_idx = 0,
     cf_cmpl_rng_sz_idx = 0, cf_cmpl_desc_sz = 0, cf_cmpl_stat_en = 0, cf_cmpl_udd_en = False,
     cf_cmpl_timer_idx = 0, cf_cmpl_cnt_th_idx = 0, cf_cmpl_trig_mode = 0, cf_cmpl_en_intr = 0,
     cf_sw_desc_sz = 0, cf_pfetch_bypass = 0, cf_cmpl_ovf_chk_dis = 0, cf_port_id = 0,
     cf_adaptive_rx = False, cf_latency_optimize = False, cf_init_pidx_dis = False,
     cf_mm_channel = 0, cf_pidx_acc = 0, cf_fp_c2h_packet = False, cf_rngsz = 0, cf_rngsz_cmpt = 0,
     cf_c2h_bufsz = 0, cf_aperture_size = 0\<rparr>"

definition demo_dev :: "engine ring_dev" where
  "demo_dev = dma_engine False 3 Q_H2C"

definition demo_state :: engine where
  "demo_state = (\<lambda>_. 0, 0)"

definition demo_req :: qdma_request where
  "demo_req = \<lparr>rq_id = 1, rq_count = 12, rq_ep_addr = 0x1000,
     rq_sgl = [\<lparr>sg_pg = Some 0, sg_offset = 0, sg_len = 8, sg_dma_addr = 0xA000\<rparr>,
               \<lparr>sg_pg = Some 1, sg_offset = 0, sg_len = 4, sg_dma_addr = 0xB000\<rparr>],
     rq_fp_done = True, rq_no_memcpy = False, cb_desc_nr = 0, cb_offset = 0, cb_sg_offset = 0, cb_sg = None,
     cb_sg_idx = 0, cb_left = 0, cb_status = 0, cb_is_done = False, cb_unmap_needed = False\<rparr>"

lemma demo_device: "device_at_start demo_dev demo_conf 5 engine_cons (engine_tail False 3 Q_H2C) demo_state"
proof -
  have "engine_cons demo_state = 0" "engine_tail False 3 Q_H2C demo_state = 0" by code_simp+
  then show ?thesis using engine.ring_device_axioms [of False 3 Q_H2C]
    by (simp add: device_at_start_def demo_dev_def demo_conf_def)
qed

lemma demo_request: "request_ok demo_req" "mm_conf_ok demo_conf demo_req" "h2c_pktsz demo_req \<noteq> 0"
  by (simp_all add: request_ok_def mm_conf_ok_def h2c_pktsz_def demo_req_def demo_conf_def)

lemma demo_run_mm: "\<exists>q s. run (descq_mm_proc_request 20 demo_dev None) demo_dev (mm_conf_ok demo_conf)
    (started_queue mm_zero POLL_MODE 5 demo_conf, demo_state) [cb_reset demo_req] (q, s)"
proof -
  let ?q0 = "started_queue mm_zero POLL_MODE 5 demo_conf"
  note d = demo_device [unfolded device_at_start_def]
  note l = mm_on_device [OF d [THEN conjunct1]]
  note g0 = queue_on_device.started_good [OF l, of 5 demo_conf demo_state mm_zero POLL_MODE]
  have "dq_state ?q0 = Q_STATE_ONLINE" "cf_q_type (dq_conf ?q0) = Q_H2C" "work_left ?q0 + Suc (unat (rq_count demo_req)) < 20"
    by code_simp+
  then obtain q s where sub: "qdma_request_submit (descq_mm_proc_request 20 demo_dev None) True None demo_req ?q0 demo_state = Some (0, q, s)"
    using queue_on_device.submit_accepted [OF l, of ?q0 demo_state demo_req True 20] g0 d demo_request
    by (auto simp: mm_proc_eq bad_direction_def)
  have "run (descq_mm_proc_request 20 demo_dev None) demo_dev (mm_conf_ok demo_conf) (?q0, demo_state) [] (?q0, demo_state)"
    by (rule run.start)
  from run_submit [OF this demo_request(1,2) sub] show ?thesis by (intro exI [of _ q] exI [of _ s]) simp
qed

lemma demo_run_h2c: "\<exists>q s. run (descq_proc_st_h2c_request 20 demo_dev None) demo_dev (\<lambda>r. h2c_pktsz r \<noteq> 0)
    (started_queue h2c_zero POLL_MODE 5 demo_conf, demo_state) [cb_reset demo_req] (q, s)"
proof -
  let ?q0 = "started_queue h2c_zero POLL_MODE 5 demo_conf"
  note d = demo_device [unfolded device_at_start_def]
  note l = h2c_on_device [OF d [THEN conjunct1]]
  note g0 = queue_on_device.started_good [OF l, of 5 demo_conf demo_state h2c_zero POLL_MODE]
  have "dq_state ?q0 = Q_STATE_ONLINE" "cf_q_type (dq_conf ?q0) = Q_H2C" "work_left ?q0 + Suc (unat (rq_count demo_req)) < 20"
    by code_simp+
  then obtain q s where sub: "qdma_request_submit (descq_proc_st_h2c_request 20 demo_dev None) True None demo_req ?q0 demo_state = Some (0, q, s)"
    using queue_on_device.submit_accepted [OF l, of ?q0 demo_state demo_req True 20] g0 d demo_request
    by (auto simp: h2c_proc_eq bad_direction_def)
  have "run (descq_proc_st_h2c_request 20 demo_dev None) demo_dev (\<lambda>r. h2c_pktsz r \<noteq> 0) (?q0, demo_state) [] (?q0, demo_state)"
    by (rule run.start)
  from run_submit [OF this demo_request(1,3) sub] show ?thesis by (intro exI [of _ q] exI [of _ s]) simp
qed

theorem mm_queue_refines_witness:
  "\<exists>q s as. run (descq_mm_proc_request 20 demo_dev None) demo_dev (mm_conf_ok demo_conf)
      (started_queue mm_zero POLL_MODE 5 demo_conf, demo_state) [cb_reset demo_req] (q, s) \<and>
    outstanding q as \<and> exact (mm_view (dq_conf q)) (mm_bytes (dq_conf q)) as"
  using demo_run_mm mm_queue_refines [OF demo_device] by blast

theorem mm_reports_in_order_witness:
  "\<exists>q s. run (descq_mm_proc_request 20 demo_dev None) demo_dev (mm_conf_ok demo_conf)
      (started_queue mm_zero POLL_MODE 5 demo_conf, demo_state) [cb_reset demo_req] (q, s) \<and>
    map (\<lambda>d. cb_reset (fst d)) (dq_done q) @ map cb_reset (dq_pend_list q @ dq_work_list q) = [cb_reset demo_req]"
  using demo_run_mm mm_reports_in_order [OF demo_device] by blast

theorem mm_proc_terminates_witness:
  "\<exists>q s r. run (descq_mm_proc_request 20 demo_dev None) demo_dev (mm_conf_ok demo_conf)
      (started_queue mm_zero POLL_MODE 5 demo_conf, demo_state) [cb_reset demo_req] (q, s) \<and>
    descq_mm_proc_request (Suc (work_left q)) demo_dev None q s = Some r"
  using demo_run_mm mm_proc_terminates [OF demo_device] by (metis lessI)

theorem mm_requests_complete_witness:
  "\<exists>q' s'. run (descq_mm_proc_request 20 demo_dev None) demo_dev (mm_conf_ok demo_conf)
      (started_queue mm_zero POLL_MODE 5 demo_conf, demo_state) [cb_reset demo_req] (q', s') \<and>
    (\<exists>q s. repeat_proc (Suc (work_left q')) (descq_mm_proc_request (Suc (work_left q')) demo_dev None) q' s' = Some (q, s) \<and>
      map (\<lambda>d. cb_reset (fst d)) (dq_done q) = [cb_reset demo_req])"
proof -
  have "unat (fst (rd_cmpl_cidx demo_dev s)) = engine_tail False 3 Q_H2C s" for s
    by (cases "rd_cmpl_cidx demo_dev s") (use engine_read [of False 3 Q_H2C s] in \<open>simp add: demo_dev_def\<close>)
  moreover have "0 \<le> fst (rd_pidx_update demo_dev 3 Q_H2C info s)" for info s
    by (cases "rd_pidx_update demo_dev 3 Q_H2C info s") (use engine_update [of False 3 Q_H2C info s] in \<open>simp add: demo_dev_def\<close>)
  ultimately have "eager_device demo_dev demo_conf (engine_tail False 3 Q_H2C)"
    by (simp add: eager_device_def demo_conf_def)
  note c = mm_requests_complete [OF demo_device this, of POLL_MODE]
  obtain q s where r: "run (descq_mm_proc_request 20 demo_dev None) demo_dev (mm_conf_ok demo_conf)
      (started_queue mm_zero POLL_MODE 5 demo_conf, demo_state) [cb_reset demo_req] (q, s)" using demo_run_mm by blast
  obtain q' s' where "repeat_proc (Suc (work_left q)) (descq_mm_proc_request (Suc (work_left q)) demo_dev None) q s = Some (q', s')"
    "map (\<lambda>d. cb_reset (fst d)) (dq_done q') = [cb_reset demo_req]" using c [OF disjI1 [OF refl] r] by (elim exE conjE)
  with r show ?thesis by (intro exI conjI)
qed

theorem h2c_queue_refines_witness:
  "\<exists>q s. run (descq_proc_st_h2c_request 20 demo_dev None) demo_dev (\<lambda>r. h2c_pktsz r \<noteq> 0)
      (started_queue h2c_zero POLL_MODE 5 demo_conf, demo_state) [cb_reset demo_req] (q, s) \<and>
    (\<exists>as. outstanding q as \<and> exact h2c_view h2c_bytes as) \<and>
    map (\<lambda>d. cb_reset (fst d)) (dq_done q) @ map cb_reset (dq_pend_list q @ dq_work_list q) = [cb_reset demo_req]"
  using demo_run_h2c h2c_queue_refines [OF demo_device] by blast

section \<open>Where the queues go wrong\<close>

text \<open>Past the end of the scatter-gather list the search for the place to go on fails.\<close>

lemma find_offset_past:
  assumes "\<forall>sg \<in> set sgs. sg_len sg \<noteq> 0" and "unat acc + length (sgl_bytes sgs) \<le> unat off"
  shows "find_offset_loop i sgs acc off = None"
  using assms
proof (induction sgs arbitrary: i acc)
  case (Cons sg sgs)
  have len: "unat (acc + sg_len sg) = unat acc + unat (sg_len sg)"
    using Cons.prems(2) unsigned_less [of off, where ?'a = nat] by (intro unat_plus_bounded) simp
  then have le: "\<not> off < acc + sg_len sg" using Cons.prems(2) by (simp add: word_less_nat_alt)
  have nil: "sgs = []" if "acc + sg_len sg = off"
  proof (cases sgs)
    case (Cons sg1 sgs1)
    then have "0 < unat (sg_len sg1)" using Cons.prems(1) by (simp add: unat_gt_0)
    then show ?thesis using Cons.prems(2) len that Cons by auto
  qed simp
  show ?case using nil le len Cons.prems by (auto simp: Let_def intro: Cons.IH)
qed simp

lemma past_end_loops:
  assumes "dq_work_list q = req # ws" and "dq_avail q \<noteq> 0" and "qdma_sgl_find_offset req = None"
    and "cb_offset req < rq_count req"
  shows "mm_loop fuel dev None w q s = None"
  using assms
proof (induction fuel arbitrary: req q)
  case (Suc fuel)
  let ?req = "req\<lparr>cb_sg_offset := 0, cb_sg := None\<rparr>" and ?q = "qdma_update_request req 0 0 0 None q"
  have q: "dq_work_list ?q = ?req # ws" "dq_avail ?q = dq_avail q"
    using Suc.prems(1,4) by (simp_all add: qdma_update_request_def Let_def flip: not_less)
  have "mm_loop (Suc fuel) dev None w q s = mm_loop fuel dev None w ?q s"
    using Suc.prems by (simp add: desc_room_def)
  moreover have "qdma_sgl_find_offset ?req = qdma_sgl_find_offset req" by (simp add: qdma_sgl_find_offset_def)
  then have "mm_loop fuel dev None w ?q s = None"
    using Suc.prems q by (intro Suc.IH [of _ ?req]) simp_all
  ultimately show ?case by simp
qed simp

text \<open>The first round for a short request writes what a request with the right count would write: all bytes of the
  list, when there is room for them.\<close>

lemma short_round:
  assumes ok: "queue_ok q" and wl: "dq_work_list q = req # ws" and conf: "mm_conf_ok (dq_conf q) req"
    and fresh: "cb_offset req = 0" and sgl: "\<forall>sg \<in> set (rq_sgl req). sg_len sg \<noteq> 0" "rq_sgl req \<noteq> []"
    and n: "n = length (sgl_bytes (rq_sgl req))" "n < unat (rq_count req)" "n < unat (dq_avail q)"
  shows "\<exists>q' req' w'. mm_loop (Suc fuel) dev None w q s = mm_loop fuel dev None w' q' s \<and>
    dq_work_list q' = req' # ws \<and> dq_avail q' \<noteq> 0 \<and> rq_sgl req' = rq_sgl req \<and> rq_count req' = rq_count req \<and> unat (cb_offset req') = n"
proof -
  define r where "r = req\<lparr>rq_count := of_nat n\<rparr>"
  have small: "n < 2 ^ 16" using n(3) ok by (simp add: queue_ok_def)
  then have un: "unat (of_nat n :: u32) = n" by (simp add: unat_of_nat take_bit_nat_eq_self)
  have pos: "0 < n" using sgl n(1) by (cases "rq_sgl req") (auto simp: unat_gt_0)
  have rq: "request_ok r" "to_write r" "mm_conf_ok (dq_conf q) r"
    using sgl n(1) small un pos conf fresh by (simp_all add: r_def request_ok_def to_write_def mm_conf_ok_def)
  have av: "dq_avail q \<noteq> 0" using n(3) by auto
  obtain start where st: "qdma_sgl_find_offset r = Some start" using find_offset_spec [OF rq(1,2)] by auto
  have nz: "(of_nat n :: u32) \<noteq> 0" "rq_count req \<noteq> 0" using un pos n(2) by auto
  then have st': "qdma_sgl_find_offset req = Some start" using st by (simp add: qdma_sgl_find_offset_def r_def)
  obtain i f where f: "mm_fill r start q = (i, f)" by fastforce
  have "mm_filler c r = mm_filler c req" "mm_ep_addr c r = mm_ep_addr c req" "rq_sgl r = rq_sgl req" for c
    by (simp_all add: r_def mm_filler_def mm_ep_addr_def)
  then have f': "mm_fill req start q = (i, f)" using f by (simp only: mm_fill_def)
  obtain e where e: "fl_end f = Some e" and rnd: "round_ok (mm_view (dq_conf q)) (mm_bytes (dq_conf q) r) q r (fl_cnt f) (fl_data f) (fl_pidx f)
      (mm_flags (dq_pidx q) e (fl_ring f))" by (rule mm_round [OF ok av rq st f])
  have cnt: "unat (fl_cnt f) \<le> unat (fl_data f)" "unat (fl_data f) \<le> n" "unat (fl_data f) = n \<or> unat (fl_cnt f) = unat (dq_avail q)"
    using rnd fresh un nz(1) by (auto simp: round_ok_def r_def)
  then have d: "unat (fl_data f) = n" "unat (fl_cnt f) < unat (dq_avail q)" using n(3) by auto
  let ?q = "fill_done req (i, f\<lparr>fl_ring := mm_flags (dq_pidx q) e (fl_ring f)\<rparr>) q"
  have "mm_loop (Suc fuel) dev None w q s = mm_loop fuel dev None (w + fl_cnt f) ?q s"
    using wl av st' f' e by (simp add: desc_room_def)
  moreover have "\<not> rq_count req \<le> cb_offset req + fl_data f" using d(1) n(2) fresh by (simp add: word_le_nat_alt)
  then have "dq_work_list ?q = req\<lparr>cb_desc_nr := cb_desc_nr req + fl_cnt f, cb_offset := fl_data f,
        cb_sg_offset := (if i = length (rq_sgl req) then 0 else fl_sgoff f),
        cb_sg := (if i = length (rq_sgl req) then None else Some i)\<rparr> # ws" "dq_avail ?q = dq_avail q - fl_cnt f"
    using wl fresh by (simp_all add: fill_done_def qdma_update_request_def Let_def)
  moreover have "dq_avail q - fl_cnt f \<noteq> 0" using d(2) by auto
  ultimately show ?thesis using d(1) by (intro exI conjI) (assumption | simp)+
qed

text \<open>C36: A memory-mapped request whose count is larger than the bytes in its scatter-gather list stops the
  queue for ever.  On a queue that is on line and has nothing outstanding, with more free slots than the list has
  bytes, a new request of that kind at the head of the work list keeps the function that processes requests from
  returning, with any number of rounds: when the bytes of the list are written and the count is not reached, the
  loop goes on with the same request without doing anything, with the lock of the queue held.\<close>

theorem short_request_loops:
  assumes ok: "queue_ok q" and wl: "dq_work_list q = req # ws" and conf: "mm_conf_ok (dq_conf q) req"
    and fresh: "cb_offset req = 0" and sgl: "\<forall>sg \<in> set (rq_sgl req). sg_len sg \<noteq> 0" "rq_sgl req \<noteq> []"
    and short: "length (sgl_bytes (rq_sgl req)) < unat (rq_count req)" "length (sgl_bytes (rq_sgl req)) < unat (dq_avail q)"
    and idle: "dq_pidx q = dq_cidx q" "dq_state q = Q_STATE_ONLINE" "\<not> dq_proc_req_running q" "\<not> dq_stop_wait q"
  shows "descq_mm_proc_request fuel dev None q s = None"
proof -
  have "mm_loop fuel dev None 0 (q\<lparr>dq_proc_req_running := b\<rparr>) s = None" for b
  proof (cases fuel)
    case (Suc k)
    let ?q = "q\<lparr>dq_proc_req_running := b\<rparr>"
    have r: "queue_ok ?q" "dq_work_list ?q = req # ws" "mm_conf_ok (dq_conf ?q) req" "length (sgl_bytes (rq_sgl req)) < unat (dq_avail ?q)"
      using ok wl conf short(2) by (simp_all add: queue_ok_def dq_rngsz_def dq_used_def)
    obtain q' req' w' where q': "mm_loop (Suc k) dev None 0 ?q s = mm_loop k dev None w' q' s"
      "dq_work_list q' = req' # ws" "dq_avail q' \<noteq> 0" "rq_sgl req' = rq_sgl req" "rq_count req' = rq_count req"
      "unat (cb_offset req') = length (sgl_bytes (rq_sgl req))"
      using short_round [OF r(1-3) fresh sgl refl short(1) r(4), where fuel = k and dev = dev and w = 0 and s = s] by blast
    have "rq_count req \<noteq> 0" using short(1) by auto
    then have "qdma_sgl_find_offset req' = None" using q'(4-6) sgl(1) by (simp add: qdma_sgl_find_offset_def find_offset_past)
    then show ?thesis using Suc q' short(1) past_end_loops [OF q'(2,3)] by (simp add: word_less_nat_alt)
  qed simp
  note loops = this [of True] this [of False]
  moreover have "q\<lparr>dq_proc_req_running := False\<rparr> = q" using idle(3) by simp
  ultimately show ?thesis
    using idle by (simp add: mm_proc_eq proc_request_def descq_poll_mm_n_h2c_cmpl_status_def descq_mm_n_h2c_cmpl_status_def)
qed

theorem short_request_loops_witness:
  "descq_mm_proc_request 1000 demo_dev None (qdma_work_queue_add (demo_req\<lparr>rq_count := 20, rq_sgl :=
      [\<lparr>sg_pg = Some 0, sg_offset = 0, sg_len = 2, sg_dma_addr = 0xA000\<rparr>]\<rparr>)
     (started_queue mm_zero POLL_MODE 5 demo_conf)) demo_state = None"
proof (rule short_request_loops)
  let ?r = "demo_req\<lparr>rq_count := 20, rq_sgl := [\<lparr>sg_pg = Some 0, sg_offset = 0, sg_len = 2, sg_dma_addr = 0xA000\<rparr>]\<rparr>"
  let ?q = "qdma_work_queue_add ?r (started_queue mm_zero POLL_MODE 5 demo_conf)"
  show "dq_work_list ?q = ?r # []" by code_simp
  have "(dq_rngsz ?q, length (dq_desc ?q), dq_cidx ?q, dq_avail ?q, dq_pidx ?q, dq_used ?q) = (4, 4, 0, 3, 0, 0)" by code_simp
  then show "queue_ok ?q" "length (sgl_bytes (rq_sgl ?r)) < unat (dq_avail ?q)" "dq_pidx ?q = dq_cidx ?q"
    by (simp_all add: queue_ok_def)
  show "dq_state ?q = Q_STATE_ONLINE" "\<not> dq_proc_req_running ?q" "\<not> dq_stop_wait ?q" by code_simp+
  show "mm_conf_ok (dq_conf ?q) ?r"
    by (simp add: mm_conf_ok_def qdma_work_queue_add_def started_queue_def alloc_ring_def config_complete_def new_queue_def irq_conf_def
        demo_conf_def Let_def)
qed (simp_all add: demo_req_def)

text \<open>C35: A request that times out while its descriptors are with the device makes the next request complete
  early.  The wait takes the request off the pending list and leaves its descriptors in the ring; when the
  device has consumed only these, the queue reports the request after it, if it has no more descriptors, as a success.\<close>

theorem timeout_completes_next:
  assumes pend: "dq_pend_list q = r1 # r2 # rest" "rq_id r1 \<noteq> rq_id r2" "dq_work_list q = []"
    and nd: "\<forall>d \<in> set (dq_done q). rq_id (fst d) \<noteq> rq_id r1"
    and dev: "rd_cmpl_cidx dev s = (c, s1)" "dq_pidx q \<noteq> dq_cidx q" "ucast c \<noteq> dq_cidx q"
    and cr: "dq_credit q = 0" "cmpl_credits (ucast c) (dq_cidx q) (cf_rngsz (dq_conf q)) = cb_desc_nr r1"
      "cb_desc_nr r2 \<le> cb_desc_nr r1" "cb_offset r2 = rq_count r2"
    and w: "qdma_request_wait_for_cmpl (rq_id r1) q = (rv, q1)"
    and st: "descq_mm_n_h2c_cmpl_status dev q1 s = (rv2, q2, s2)"
  shows "rv = - EIO \<and> dq_avail q2 = dq_avail q + cb_desc_nr r1 \<and> done_entry (dq_conf q) r2 \<in> set (dq_done q2)"
proof -
  have "List.find (\<lambda>(r, _, _). rq_id r = rq_id r1) (dq_done q) = None"
    using nd by (auto simp: find_None_iff)
  then have q1: "rv = - EIO" "q1 = q\<lparr>dq_work_list := [], dq_pend_list := r2 # rest\<rparr>"
    using w pend by (simp_all add: qdma_request_wait_for_cmpl_def)
  obtain d p cl where se: "settle (cb_desc_nr r1) (r2 # rest) = (d, p, cl)" by (metis prod_cases3)
  have d: "r2 \<in> set d" using se cr(3) by (auto split: if_splits prod.splits)
  define q0 where "q0 = incr_cmpl_desc_cnt (cb_desc_nr r1) (q1\<lparr>dq_cidx := ucast c, dq_avail := dq_avail q + cb_desc_nr r1, dq_credit := cb_desc_nr r1\<rparr>)"
  define qc where "qc = q0\<lparr>dq_pend_list := p, dq_done := dq_done q0 @ map (done_entry (dq_conf q0)) d,
      dq_pend_list_empty := (if d = [] then dq_pend_list_empty q0 else pend_empty q0), dq_credit := cl\<rparr>"
  have "dq_pend_list q0 = r2 # rest" by (simp add: q0_def q1)
  from complete_loop_settle [OF this se] obtain rv3 where "qdma_pidx_update dev True qc s1 = (rv3, q2, s2)"
    using st dev cr(1,2) unfolding descq_mm_n_h2c_cmpl_status_def
    by (auto simp: q1 q0_def qc_def Let_def split: prod.splits)
  then have "dq_avail q2 = dq_avail qc \<and> dq_done q2 = dq_done qc"
    by (auto simp: qdma_pidx_update_def Let_def split: if_splits prod.splits)
  moreover have "dq_avail qc = dq_avail q + cb_desc_nr r1" "done_entry (dq_conf q) r2 \<in> set (dq_done qc)"
    using d by (auto simp: qc_def q0_def q1)
  ultimately show ?thesis using q1(1) by simp
qed

theorem timeout_completes_next_witness:
  "let r1 = demo_req\<lparr>cb_desc_nr := 1, cb_offset := 12\<rparr>; r2 = r1\<lparr>rq_id := 2\<rparr>;
       q = (started_queue mm_zero POLL_MODE 5 demo_conf)\<lparr>dq_pend_list := [r1, r2], dq_pidx := 2, dq_avail := 1\<rparr>;
       (rv, q1) = qdma_request_wait_for_cmpl 1 q;
       (_, q2, _) = descq_mm_n_h2c_cmpl_status demo_dev q1 (\<lambda>_. 1, 0)
   in rv = - EIO \<and> dq_avail q2 = 2 \<and> done_entry (dq_conf q) r2 \<in> set (dq_done q2)"
proof -
  let ?r1 = "demo_req\<lparr>cb_desc_nr := 1, cb_offset := 12\<rparr>" and ?s = "(\<lambda>_. 1, 0) :: engine"
  let ?r2 = "?r1\<lparr>rq_id := 2\<rparr>"
  let ?q = "(started_queue mm_zero POLL_MODE 5 demo_conf)\<lparr>dq_pend_list := [?r1, ?r2], dq_pidx := 2, dq_avail := 1\<rparr>"
  obtain rv q1 where w: "qdma_request_wait_for_cmpl (rq_id ?r1) ?q = (rv, q1)" by fastforce
  obtain rv2 q2 s2 where st: "descq_mm_n_h2c_cmpl_status demo_dev q1 ?s = (rv2, q2, s2)" by (metis prod_cases3)
  obtain c s1 where rd: "rd_cmpl_cidx demo_dev ?s = (c, s1)" by (metis surj_pair)
  have "ucast (posted_index False 3 Q_H2C ?s) = (1 :: u16)" by code_simp
  then have c: "c = 1" using rd by (auto simp: demo_dev_def dma_engine_def soft_ring_dev_def Let_def)
  have "rv = - EIO \<and> dq_avail q2 = dq_avail ?q + cb_desc_nr ?r1 \<and> done_entry (dq_conf ?q) ?r2 \<in> set (dq_done q2)"
    by (rule timeout_completes_next [OF _ _ _ _ rd [unfolded c] _ _ _ _ _ _ w st, where rest = "[]"]; code_simp)
  then show ?thesis using w st by (simp add: demo_req_def)
qed

text \<open>A batch does not count its requests, so the counter of work requests wraps around when the first of
  them has been written.\<close>

lemma batch_counter_wraps:
  "map_option (\<lambda>(rv, q, s). (rv, dq_work_req_pend q, dq_work_list q))
     (qdma_batch_request_submit (descq_mm_proc_request 20 demo_dev None) True [(demo_req, None)]
       (started_queue mm_zero POLL_MODE 5 demo_conf) demo_state) = Some (0, 0xFFFFFFFF, [])"
  by code_simp

text \<open>After a failed update of the producer index a polled queue does nothing any more.\<close>

lemma failed_update_stops_queue:
  assumes "proc_finish dev (w, q, s) = (- EINVAL, q', s')" and "dq_proc_req_running q" and "\<not> dq_stop_wait q"
  shows "proc_request loop dev q' s'' = Some (0, q', s'')"
proof -
  have "dq_proc_req_running q'" "\<not> dq_stop_wait q'"
    using assms by (auto simp: proc_finish_def Let_def split: if_splits prod.splits)
  then show ?thesis by (auto simp: proc_request_def)
qed

section \<open>Completion\<close>

text \<open>C16: Reading the index that the device wrote back is the abstract step.  The number of descriptors taken off
  the front of the outstanding ones is the distance, around the ring, from the consumer index of the queue to the
  index read, none if the queue had nothing outstanding; the consumer index becomes the index read, and the used
  slots become fewer by that number.  The requests reported are exactly those that are fully written and whose last
  descriptor is among them, in order; the rest of the queue still holds exactly the remaining descriptors.\<close>

theorem completion_refines_consume:
  assumes "ring_device dev qid t n cons tail" and "outstanding q as" and "ring_device.in_step qid t n cons tail q s"
    and "descq_mm_n_h2c_cmpl_status dev q s = (rv, q', s')"
    and j: "j = (if dq_pidx q = dq_cidx q then 0
      else (unat (fst (rd_cmpl_cidx dev s)) + dq_rngsz q - unat (dq_cidx q)) mod dq_rngsz q)"
  shows "\<exists>d as'. consume (length (dq_pend_list q)) j as = (map rq_core d, as') \<and>
    outstanding q' as' \<and> dq_done q' = dq_done q @ map (done_entry (dq_conf q)) d \<and>
    j \<le> dq_used q \<and> dq_used q' = dq_used q - j \<and> unat (dq_cidx q') = (unat (dq_cidx q) + j) mod dq_rngsz q"
  using ring_device.cmpl_status_refines [OF assms(1-4)] unfolding j cmpl_advance_def by blast

theorem completion_refines_consume_witness:
  "let r = demo_req\<lparr>cb_desc_nr := 1, cb_offset := 12\<rparr>;
       q = (started_queue mm_zero POLL_MODE 5 demo_conf)\<lparr>dq_pend_list := [r], dq_pidx := 1, dq_avail := 2,
              dq_pidx_info := \<lparr>pidx = 1, pidx_irq_en = 0\<rparr>\<rparr>;
       (_, q', _) = descq_mm_n_h2c_cmpl_status demo_dev q (\<lambda>_. 1, 0)
   in outstanding q [(rq_core r, [mm_zero])] \<and> dq_used q' = 0 \<and> dq_cidx q' = 1 \<and> (\<exists>as'. outstanding q' as')"
proof -
  let ?r = "demo_req\<lparr>cb_desc_nr := 1, cb_offset := 12\<rparr>" and ?s = "(\<lambda>_. 1, 0) :: engine"
  let ?q = "(started_queue mm_zero POLL_MODE 5 demo_conf)\<lparr>dq_pend_list := [?r], dq_pidx := 1, dq_avail := 2,
      dq_pidx_info := \<lparr>pidx = 1, pidx_irq_en = 0\<rparr>\<rparr>"
  have f: "dq_rngsz ?q = 4" "dq_used ?q = 1" "unat (dq_avail ?q) = 2" "length (dq_desc ?q) = 4" "dq_cidx ?q = 0" "dq_pidx ?q = 1"
    "dq_pend_list ?q = [?r]" "dq_work_list ?q = []" "dq_credit ?q = 0" "slice (dq_desc ?q) 0 1 = [mm_zero]"
    "cf_qidx (dq_conf ?q) = 3" "cf_q_type (dq_conf ?q) = Q_H2C" "unat (pidx (dq_pidx_info ?q)) = 1"
    "engine_cons ?s = 0" "engine_tail False 3 Q_H2C ?s = 1"
    by code_simp+
  have out: "outstanding ?q [(rq_core ?r, [mm_zero])]"
    unfolding outstanding_def queue_ok_def using f by (simp add: in_order_def)
  have st: "ring_device.in_step 3 Q_H2C 4 engine_cons (engine_tail False 3 Q_H2C) ?q ?s"
    unfolding engine.in_step_def f by (simp, intro exI [of _ 1]) simp
  obtain rv q' s' where r: "descq_mm_n_h2c_cmpl_status demo_dev ?q ?s = (rv, q', s')" by (metis prod_cases3)
  have "fst (rd_cmpl_cidx demo_dev ?s) = 1" by code_simp
  with completion_refines_consume [OF engine.ring_device_axioms out st r [unfolded demo_dev_def] refl]
  have "dq_used q' = 0" "unat (dq_cidx q') = 1" "\<exists>as'. outstanding q' as'"
    using f(1-3,5,6) by (auto simp: demo_dev_def)
  then show ?thesis using out r by (simp add: word_unat_eq_iff)
qed

end
