(* ===== verification/DescqC2hProps.thy ===== *)
theory DescqC2hProps
  imports DescqC2hAcct DescqC2hSort DescqRun
begin

text \<open>
  What holds of ST C2H queues: a read takes bytes from a stream, the accounting of the receive buffers holds
  in every reachable state, and the number of buffers that a packet uses.
\<close>

section \<open>A read as a step of a stream\<close>

text \<open>The specification: as many bytes as both sides have go from the head of the stream to the head of the
  places.\<close>

definition stream_read ::
    "u8 list \<Rightarrow> (nat option \<times> nat) list \<Rightarrow> host_bytes \<Rightarrow> nat \<times> u8 list \<times> (nat option \<times> nat) list \<times> host_bytes" where
  "stream_read xs ps m =
     (let n = min (length xs) (length ps) in (n, drop n xs, drop n ps, put_bytes (take n ps) (take n xs) m))"

text \<open>The received data is where the device put it.  The device writes to the address in the descriptor of a slot,
  a bus address that \<open>dma\<close> relates to the page; the entry of the slot says how many bytes are left.  From the first
  buffer \<open>t\<close> bytes were taken before.\<close>

definition pending_descs :: "c2h_q \<Rightarrow> qdma_c2h_desc list" where
  "pending_descs c = slice (dq_desc (cq_q c)) (unat (fq_pidx_pend (cq_flq c))) (length (pending c))"

definition buffer_start :: "(nat option \<Rightarrow> u64) \<Rightarrow> qdma_sw_sg \<Rightarrow> qdma_c2h_desc \<Rightarrow> nat" where
  "buffer_start dma e d = unat (c2h_dst_addr d - dma (sg_pg e))"

fun device_places :: "(nat option \<Rightarrow> u64) \<Rightarrow> nat \<Rightarrow> qdma_sw_sg list \<Rightarrow> qdma_c2h_desc list \<Rightarrow> (nat option \<times> nat) list" where
  "device_places dma t (e # es) (d # ds) =
     range_at (sg_pg e, buffer_start dma e d + t) (unat (sg_len e)) @ device_places dma 0 es ds"
| "device_places dma t es ds = []"

definition received :: "(nat option \<Rightarrow> u64) \<Rightarrow> nat \<Rightarrow> c2h_q \<Rightarrow> u8 list" where
  "received dma t c = bytes_at (cq_bytes c) (device_places dma t (pending c) (pending_descs c))"

text \<open>The offsets that the driver keeps are right: the first waiting entry starts \<open>t\<close> bytes after the start of its
  buffer, all others at the start.\<close>

fun offsets_at :: "(nat option \<Rightarrow> u64) \<Rightarrow> nat \<Rightarrow> qdma_sw_sg list \<Rightarrow> qdma_c2h_desc list \<Rightarrow> bool" where
  "offsets_at dma t (e # es) (d # ds) \<longleftrightarrow> unat (sg_offset e) = buffer_start dma e d + t \<and> offsets_at dma 0 es ds"
| "offsets_at dma t es ds \<longleftrightarrow> es = []"

definition offsets_ok :: "(nat option \<Rightarrow> u64) \<Rightarrow> nat \<Rightarrow> c2h_q \<Rightarrow> bool" where
  "offsets_ok dma t c \<longleftrightarrow> length (dq_desc (cq_q c)) = unat (fq_size (cq_flq c)) \<and> offsets_at dma t (pending c) (pending_descs c)"

lemma offsets_places: "offsets_at dma t es ds \<Longrightarrow> device_places dma t es ds = sgl_places es"
  by (induction dma t es ds rule: device_places.induct) (auto simp: places_range sgl_places_def)

lemma received_eq: "offsets_ok dma t c \<Longrightarrow> received dma t c = bytes_at (cq_bytes c) (sgl_places (pending c))"
  by (simp add: received_def offsets_ok_def offsets_places)

lemma offsets_drop: "offsets_at dma t es ds \<Longrightarrow> offsets_at dma (if q = 0 then t else 0) (drop q es) (drop q ds)"
proof (induction dma t es ds arbitrary: q rule: offsets_at.induct)
  case (1 dma t e es d ds)
  then show ?case using "1.IH" [of "q - 1"] by (cases q) (auto split: if_splits)
qed auto

lemma offsets_head:
  assumes "offsets_at dma t es ds" and "foff \<noteq> 0 \<longrightarrow> unat (sg_offset (hd es)) + unat foff < 2 ^ 32"
  shows "offsets_at dma (t + unat foff) (head_taken foff es) ds"
proof (cases es)
  case (Cons e es')
  then obtain d ds' where ds: "ds = d # ds'" using assms(1) by (cases ds) auto
  have "unat (sg_offset e + foff) = unat (sg_offset e) + unat foff"
    using assms(2) Cons by (cases "foff = 0") (simp_all add: unat_plus_bounded)
  then show ?thesis using assms(1) Cons ds by (simp add: head_taken_def buffer_start_def)
qed (use assms in \<open>simp add: head_taken_def\<close>)

text \<open>A read leaves the offsets right.\<close>

lemma offsets_kept:
  assumes ok: "offsets_ok dma t c" and lv: "read_leaves q c c'"
    and small: "\<forall>e \<in> set (pending c). unat (sg_offset e) + unat (sg_len e) < 2 ^ 32"
  shows "\<exists>t'. offsets_ok dma t' c'"
proof -
  obtain foff where f: "pending c' = head_taken foff (drop q (pending c))" "foff \<noteq> 0 \<longrightarrow> unat foff \<le> unat (sg_len (hd (drop q (pending c))))"
    and q: "q \<le> length (pending c)" "dq_desc (cq_q c') = dq_desc (cq_q c)" "fq_size (cq_flq c') = fq_size (cq_flq c)"
      "unat (fq_pidx_pend (cq_flq c')) = (unat (fq_pidx_pend (cq_flq c)) + q) mod unat (fq_size (cq_flq c))"
    using lv by (auto simp: read_leaves_def)
  have len: "length (pending c') = length (pending c) - q" unfolding f(1) by (simp add: head_taken_def split: list.split) (metis length_drop length_Cons)
  have "pending_descs c' = drop q (pending_descs c)"
    using slice_drop [OF q(1), of "dq_desc (cq_q c)" "unat (fq_pidx_pend (cq_flq c))"] ok
    unfolding pending_descs_def len q(2,4) by (simp add: offsets_ok_def)
  moreover have "unat (sg_offset (hd (drop q (pending c)))) + unat foff < 2 ^ 32" if "drop q (pending c) \<noteq> []" "foff \<noteq> 0"
    using small that f(2) hd_in_set [OF that(1)] by (fastforce dest: in_set_dropD)
  moreover have "offsets_at dma t0 (head_taken foff []) ds" for t0 ds by (simp add: head_taken_def)
  ultimately have "\<exists>t'. offsets_at dma t' (pending c') (pending_descs c')"
    using offsets_head [OF offsets_drop [where dma = dma and t = t and es = "pending c" and ds = "pending_descs c" and q = q], of foff] ok
    unfolding f(1) offsets_ok_def by metis
  then show ?thesis using ok q(2,3) by (simp add: offsets_ok_def)
qed

text \<open>When a read is sound: the entries do not wrap around, the target is apart from the receive buffers,
  less than 2 GiB is waiting, and the request wants the data copied.\<close>

definition readable :: "qdma_request \<Rightarrow> c2h_q \<Rightarrow> bool" where
  "readable req c \<longleftrightarrow>
     req_wf req \<and> (cb_sg_idx req = 0 \<or> unat (cb_sg_idx req) < length (rq_sgl req)) \<and> \<not> rq_no_memcpy req \<and>
     length (sgl_places (pending c)) < 2 ^ 31 \<and> set (sgl_places (pending c)) \<inter> set (req_places req) = {} \<and>
     (\<forall>e \<in> set (pending c). unat (sg_offset e) + unat (sg_len e) < 2 ^ 32)"

text \<open>C21: A read from an ST C2H queue takes bytes from the stream that the device wrote: as many as are waiting and as
  the request has room for go, in order, from the addresses that the descriptors gave the device to the places that
  the request has left; nothing else in memory changes, the rest of the stream waits for the next read, the result is
  the number of bytes, and the accounting of the buffers is kept.  The request wants the data copied, the update of
  the producer index succeeds, as it does for the queues of the function, and the offsets that the driver
  keeps for the waiting buffers agree with the descriptors; a read keeps that for the buffers that still wait.
  A buffer that is used again after it was read in parts breaks the agreement (\<open>recycled_offset_kept\<close>).\<close>

theorem c2h_read_refines:
  assumes a: "c2h_acct lo w n (dq_pidx (cq_q c)) c" and w: "refill \<Longrightarrow> w = 0" and r: "readable req c"
    and off: "offsets_ok dma t c" and upd: "\<forall>c s. 0 \<le> fst (c2h_pidx_update dev c s)"
    and rd: "descq_st_c2h_read dev update_pidx refill req c s = (rv, req', c', s')"
  shows "0 \<le> rv \<and> (\<exists>t'. offsets_ok dma t' c' \<and>
      (nat rv, received dma t' c', req_places req', cq_bytes c') = stream_read (received dma t c) (req_places req) (cq_bytes c)) \<and>
    cb_left req' = cb_left req - of_int rv \<and> fq_pkt_dlen (cq_flq c') = fq_pkt_dlen (cq_flq c) - of_int rv \<and>
    (\<exists>lo' w' n'. c2h_acct lo' w' n' (dq_pidx (cq_q c')) c' \<and> (refill \<longrightarrow> w' = 0))"
proof (cases "n = 0")
  case True
  then have "rv = 0" "req' = req" "c' = c" using rd by (simp_all add: read_nothing(1) [OF a [unfolded True]])
  then show ?thesis using read_nothing(2) [OF a [unfolded True]] a w off received_eq [OF off] by (auto simp: stream_read_def)
next
  case False
  let ?P = "sgl_places (pending c)" and ?L = "req_places req" and ?m = "cq_bytes c"
  obtain q d r lo' w' where m: "moved True d ?P (read_start req ?m) r"
    and eq: "req' = req_after r req" "rv = int d" "rd_copied r = of_nat d" "cq_bytes c' = rd_bytes r"
    and a': "c2h_acct lo' w' (n - q) (dq_pidx (cq_q c')) c'" and w': "if refill then w' = 0 else lo' = lo \<and> w' = w + q"
    and p': "sgl_places (pending c') = drop d ?P" and lv: "read_leaves q c c'"
    using read_core [where b = True, OF a False _ _ _ w _ _ rd] r upd unfolding readable_def by metis
  obtain t' where off': "offsets_ok dma t' c'" using offsets_kept [OF off lv] r by (auto simp: readable_def)
  have d: "d = min (length ?P) (length ?L)" "left_places r = drop d ?L" "rd_bytes r = put_bytes (take d ?L) (bytes_at ?m (take d ?P)) ?m"
    using m by (simp_all add: moved_def)
  have idx: "unat (cb_sg_idx req) \<le> length (rq_sgl req)" and wf: "req_wf req" and disj: "set ?P \<inter> set ?L = {}"
    using r by (auto simp: readable_def)
  have "set (drop d ?P) \<inter> set (take d ?L) = {}" using disj set_drop_subset [of d ?P] set_take_subset [of d ?L] by blast
  then have "received dma t' c' = drop d (received dma t c)"
    unfolding received_eq [OF off] received_eq [OF off'] p' eq(4) d(3) by (simp add: bytes_at_put_other)
  moreover have "fq_pkt_dlen (cq_flq c) = of_nat (length ?P)" "fq_pkt_dlen (cq_flq c') = of_nat (length ?P - d)"
    using a a' pending_acct [OF a] pending_acct [OF a'] arg_cong [OF p', of length] by (auto simp: c2h_acct_def acct_def)
  moreover have "\<exists>lo' w' n'. c2h_acct lo' w' n' (dq_pidx (cq_q c')) c' \<and> (refill \<longrightarrow> w' = 0)"
    using a' w' by (intro exI [of _ lo'] exI [of _ w'] exI [of _ "n - q"]) simp
  ultimately show ?thesis using eq d off' received_eq [OF off] req_after_places(1) [OF wf m idx]
    by (auto simp: stream_read_def Let_def req_after_def of_nat_diff intro!: exI [of _ t'])
qed

section \<open>Reachable states\<close>

text \<open>The states that a new queue reaches: completions are processed while the device keeps to its credit, and
  callers read and submit requests.\<close>

inductive c2h_run :: "'s c2h_env \<Rightarrow> 's c2h_dev \<Rightarrow> nat \<Rightarrow> c2h_q \<times> 's \<Rightarrow> c2h_q \<times> 's \<Rightarrow> bool"
  for env :: "'s c2h_env" and dev :: "'s c2h_dev" and fuel :: nat and start :: "c2h_q \<times> 's"
where
  c2h_start: "c2h_run env dev fuel start start"
| c2h_completion: "c2h_run env dev fuel start (c', s')"
  if "c2h_run env dev fuel start (c, s)" and "in_credit env dev budget c s"
    and "descq_process_completion_st_c2h fuel env dev budget upd_cmpl c s = Some (rv, c', s')"
| c2h_packet_read: "c2h_run env dev fuel start (c', s')"
  if "c2h_run env dev fuel start (c, s)" and "req_wf (cb_reset req)" and "qdma_queue_packet_read dev cctrl req c s = (rv, req', c', s')"
| c2h_submit: "c2h_run env dev fuel start (c', s')"
  if "c2h_run env dev fuel start (c, s)" and "req_wf req" and "qdma_request_submit_st_c2h dev req c s = (rv, req', c', s')"

lemma c2h_run_inv:
  assumes r: "c2h_run env dev fuel (c0, s0) (c, s)" and c0: "c2h_inv c0" and ul: "ce_ul_cmpt_entry env = None"
    and upd: "\<forall>c s. 0 \<le> fst (c2h_pidx_update dev c s)"
  shows "cq_err c \<or> c2h_inv c"
  using r c0
proof (induction "(c, s)" arbitrary: c s rule: c2h_run.induct)
  case c2h_start
  then show ?case by simp
next
  case (c2h_completion c s budget upd_cmpl rv c' s')
  show ?case
  proof (cases "c2h_inv c")
    case True
    then show ?thesis using completion_accounts [OF True ul c2h_completion.hyps(3)] c2h_completion.hyps(4)
      by (metis option.inject prod.inject)
  next
    case False
    then have "cq_err c" using c2h_completion.hyps(2) c2h_completion.prems by simp
    then have "c' = c" using c2h_completion.hyps(4) by (auto simp: descq_process_completion_st_c2h_def Let_def split: prod.splits)
    then show ?thesis using \<open>cq_err c\<close> by simp
  qed
next
  case (c2h_packet_read c s req cctrl rv req' c' s')
  show ?case by (rule packet_read_keeps [OF _ c2h_packet_read.hyps(3) upd c2h_packet_read.hyps(4)]) (use c2h_packet_read in simp)
next
  case (c2h_submit c s req rv req' c' s')
  show ?case by (rule submit_keeps [OF _ c2h_submit.hyps(3) upd c2h_submit.hyps(4)]) (use c2h_submit in simp)
qed

text \<open>C20: Buffers are neither lost nor counted twice.  In every state that completions, reads and submissions reach
  from a new queue, unless the device reported an error: the free buffers, those with data and one unused slot
  make up the ring, the count of bytes is that of the data waiting, no buffer has more data than its size, the
  free buffers have their full size, and processing of completions returns.  The device uses only buffers it was
  given, the size of the buffers is a power of two, the default packet handler is used, and updates of the
  producer index succeed.\<close>

theorem c2h_accounting:
  assumes new: "c2h_fresh c00" "c2h_alloc_resource desc_ok pg_ok sd_ok cmpt_ok c00 = Some (0, c0)"
    and ul: "ce_ul_cmpt_entry env = None" and upd: "\<forall>c s. 0 \<le> fst (c2h_pidx_update dev c s)"
    and run: "c2h_run env dev fuel (c0, s0) (c, s)" and ok: "\<not> cq_err c"
  shows "unat (dq_avail (cq_q c)) + length (pending c) + 1 = unat (fq_size (cq_flq c)) \<and>
    fq_pkt_dlen (cq_flq c) = of_nat (length (sgl_places (pending c))) \<and>
    (\<forall>e \<in> set (pending c). unat (sg_len e) \<le> unat (cf_c2h_bufsz (conf_of c))) \<and>
    (\<forall>k < unat (dq_avail (cq_q c)). sg_len (fq_sdesc (cq_flq c) ! ((unat (dq_pidx (cq_q c)) + k) mod unat (fq_size (cq_flq c)))) =
      cf_c2h_bufsz (conf_of c)) \<and>
    (in_credit env dev budget c s \<longrightarrow> descq_process_completion_st_c2h fuel env dev budget upd_cmpl c s \<noteq> None)"
proof -
  have inv: "c2h_inv c" using c2h_run_inv [OF run alloc_accounts [OF new] ul upd] ok by simp
  let ?f = "cq_flq c" and ?N = "unat (fq_size (cq_flq c))" and ?lo = "unat (fq_pidx_pend (cq_flq c))" and ?b = "cf_c2h_bufsz (conf_of c)"
  obtain n where rx: "rx_ok ?lo 0 n (dq_pidx (cq_q c)) c" using inv by (auto simp: c2h_inv_def)
  then have ca: "c2h_acct ?lo 0 n (dq_pidx (cq_q c)) c" and le: "lens_ok ?b (fq_sdesc ?f)" by (simp_all add: rx_ok_def)
  then have a: "acct ?lo 0 n (dq_pidx (cq_q c)) ?b ?f (dq_avail (cq_q c))" by (simp add: c2h_acct_def)
  have p: "pending c = slice (fq_sdesc ?f) (?lo mod ?N) n" using pending_acct [OF ca] by simp
  have "0 < length (fq_sdesc ?f)" using a by (simp add: acct_def ring_ok_def)
  then have "lens_ok ?b (pending c)" unfolding p by (rule lens_ok_slice [OF le])
  moreover have "sg_len (fq_sdesc ?f ! ((unat (dq_pidx (cq_q c)) + k) mod ?N)) = ?b" if "k < unat (dq_avail (cq_q c))" for k
  proof -
    have "sg_len (fq_sdesc ?f ! ((?lo + (n + k)) mod ?N)) = ?b" using a that by (auto simp: acct_def)
    moreover have "unat (dq_pidx (cq_q c)) = (?lo + n) mod ?N" using a by (simp add: acct_def)
    ultimately show ?thesis by (simp add: mod_simps add.assoc)
  qed
  moreover have "in_credit env dev budget c s \<longrightarrow> descq_process_completion_st_c2h fuel env dev budget upd_cmpl c s \<noteq> None"
    using completion_accounts [OF inv ul] by (metis option.distinct(1))
  ultimately show ?thesis using a unfolding p lens_ok_def by (auto simp: acct_def)
qed

section \<open>A concrete queue\<close>

text \<open>A ring of four buffers of four bytes; the device reports one packet of six bytes.\<close>

definition demo_c2h_conf :: qdma_queue_conf where
  "demo_c2h_conf = demo_conf\<lparr>cf_st := True, cf_q_type := Q_C2H, cf_rngsz_cmpt := 8, cf_c2h_bufsz := 4\<rparr>"

definition demo_c2h :: c2h_q where
  "demo_c2h = \<lparr>cq_q = started_queue \<lparr>c2h_dst_addr = 0\<rparr> POLL_MODE 5 demo_c2h_conf, cq_flq = flq_zero, cq_err = False,
     cq_color = False, cq_cidx_cmpt = 0, cq_pidx_cmpt = 0,
     cq_cmpt_cidx_info = \<lparr>wrb_cidx = 0, counter_idx = 0, timer_idx = 0, trig_mode = 0, wrb_en = 0, cmpt_irq_en = 0\<rparr>,
     cq_cmpt_entry_len = 8, cq_moving_avg = 0, cq_avg_thr_hi = 0, cq_avg_thr_lo = 0, cq_sorted_idx = 0, cq_monitor_cnt = 0,
     cq_bytes = (\<lambda>p k. of_nat k + 1), cq_refs = (\<lambda>_. 0), cq_pages = [Page 10 0x10000, Page 11 0x20000]\<rparr>"

definition demo_c2h_dev :: "unit c2h_dev" where
  "demo_c2h_dev = \<lparr>cd_ring = \<lparr>rd_pidx_update = (\<lambda>_ _ _ s. (0, s)), rd_cmpl_cidx = (\<lambda>s. (0, s))\<rparr>,
     cd_cmpt_cidx_update = (\<lambda>_ _ s. (0, s)), cd_cmpt_pidx = (\<lambda>s. (1, s)), cd_cmpt_entry = (\<lambda>_ s. (0x6A, s))\<rparr>"

definition demo_c2h_env :: "unit c2h_env" where
  "demo_c2h_env = \<lparr>ce_csr = \<lparr>cs_ring_sz = [], cs_c2h_cnt_th = [], cs_c2h_buf_sz = []\<rparr>, ce_sorted_c2h_cntr_idx = [],
     ce_intr_moderation = False, ce_c2h_packet = (\<lambda>_ _ _ _ c s. (0, c, s)), ce_ul_cmpt_entry = None\<rparr>"

definition demo_c2h_new :: c2h_q where
  "demo_c2h_new = snd (the (c2h_alloc_resource True True True True demo_c2h))"

definition demo_c2h_rcvd :: c2h_q where
  "demo_c2h_rcvd = fst (snd (the (descq_process_completion_st_c2h 10 demo_c2h_env demo_c2h_dev 0 True demo_c2h_new ())))"

lemma demo_c2h_alloc: "c2h_alloc_resource True True True True demo_c2h = Some (0, demo_c2h_new)"
proof -
  have "map_option fst (c2h_alloc_resource True True True True demo_c2h) = Some 0" by code_simp
  then show ?thesis by (auto simp: demo_c2h_new_def)
qed

lemma demo_c2h_credit: "in_credit demo_c2h_env demo_c2h_dev 0 demo_c2h_new ()"
  by code_simp

lemma demo_c2h_completion:
  "descq_process_completion_st_c2h 10 demo_c2h_env demo_c2h_dev 0 True demo_c2h_new () = Some (0, demo_c2h_rcvd, ())"
proof -
  have "map_option fst (descq_process_completion_st_c2h 10 demo_c2h_env demo_c2h_dev 0 True demo_c2h_new ()) = Some 0" by code_simp
  then show ?thesis by (auto simp: demo_c2h_rcvd_def)
qed

lemma demo_c2h_fresh: "c2h_fresh demo_c2h"
proof -
  have "dq_avail (cq_q demo_c2h) = cf_rngsz (conf_of demo_c2h) - 1" "dq_pidx (cq_q demo_c2h) = 0" "dq_pend_list (cq_q demo_c2h) = []"
    "cf_rngsz (conf_of demo_c2h) = 4" "cf_c2h_bufsz (conf_of demo_c2h) = 2 ^ 2" "\<not> cf_fp_c2h_packet (conf_of demo_c2h)" by code_simp+
  then show ?thesis unfolding c2h_fresh_def by (auto simp: demo_c2h_def ring_ok_def intro: exI [of _ 2])
qed

lemma demo_c2h_run: "c2h_run demo_c2h_env demo_c2h_dev 10 (demo_c2h_new, ()) (demo_c2h_rcvd, ())"
  by (rule c2h_run.c2h_completion [OF c2h_run.c2h_start demo_c2h_credit demo_c2h_completion])

lemma demo_c2h_updates: "\<forall>c s. 0 \<le> fst (c2h_pidx_update demo_c2h_dev c s)" "ce_ul_cmpt_entry demo_c2h_env = None"
  by (simp_all add: c2h_pidx_update_def queue_pidx_update_def demo_c2h_dev_def demo_c2h_env_def)

lemma demo_c2h_state:
  "\<not> cq_err demo_c2h_rcvd" "dq_avail (cq_q demo_c2h_rcvd) = 1" "fq_pkt_dlen (cq_flq demo_c2h_rcvd) = 6"
  "pending demo_c2h_rcvd = [\<lparr>sg_pg = Some 10, sg_offset = 0, sg_len = 4, sg_dma_addr = 0x10000\<rparr>,
    \<lparr>sg_pg = Some 10, sg_offset = 4, sg_len = 2, sg_dma_addr = 0x10004\<rparr>]"
proof -
  have "(let c = demo_c2h_rcvd in (cq_err c, dq_avail (cq_q c), fq_pkt_dlen (cq_flq c), pending c)) =
    (False, 1, 6, [\<lparr>sg_pg = Some 10, sg_offset = 0, sg_len = 4, sg_dma_addr = 0x10000\<rparr>,
       \<lparr>sg_pg = Some 10, sg_offset = 4, sg_len = 2, sg_dma_addr = 0x10004\<rparr>])"
    by code_simp
  then show "\<not> cq_err demo_c2h_rcvd" "dq_avail (cq_q demo_c2h_rcvd) = 1" "fq_pkt_dlen (cq_flq demo_c2h_rcvd) = 6"
    "pending demo_c2h_rcvd = [\<lparr>sg_pg = Some 10, sg_offset = 0, sg_len = 4, sg_dma_addr = 0x10000\<rparr>,
      \<lparr>sg_pg = Some 10, sg_offset = 4, sg_len = 2, sg_dma_addr = 0x10004\<rparr>]"
    by (simp_all add: Let_def)
qed

lemma demo_c2h_readable: "readable (cb_reset demo_req) demo_c2h_rcvd"
  unfolding readable_def demo_c2h_state(4)
  by (auto simp: req_wf_def target_ok_def read_start_def req_places_def places_range set_range_at cb_reset_def demo_req_def)

theorem c2h_accounting_witness:
  "unat (dq_avail (cq_q demo_c2h_rcvd)) = 1 \<and> length (pending demo_c2h_rcvd) = 2 \<and> unat (fq_size (cq_flq demo_c2h_rcvd)) = 4"
  using c2h_accounting [OF demo_c2h_fresh demo_c2h_alloc demo_c2h_updates(2,1) demo_c2h_run demo_c2h_state(1), of 0 True]
  by (auto simp: demo_c2h_state)

lemma demo_c2h_offsets: "offsets_ok (\<lambda>_. 0x10000) 0 demo_c2h_rcvd"
proof -
  have "(let c = demo_c2h_rcvd in (length (dq_desc (cq_q c)), unat (fq_size (cq_flq c)), pending_descs c)) =
    (4, 4, [\<lparr>c2h_dst_addr = 0x10000\<rparr>, \<lparr>c2h_dst_addr = 0x10004\<rparr>])" by code_simp
  then show ?thesis by (simp add: Let_def offsets_ok_def demo_c2h_state(4) buffer_start_def)
qed

theorem c2h_read_refines_witness:
  "\<exists>rv req' c' t'. descq_st_c2h_read demo_c2h_dev True True (cb_reset demo_req) demo_c2h_rcvd () = (rv, req', c', ()) \<and> rv = 6 \<and>
    received (\<lambda>_. 0x10000) t' c' = [] \<and>
    bytes_at (cq_bytes c') (take 6 (req_places (cb_reset demo_req))) = received (\<lambda>_. 0x10000) 0 demo_c2h_rcvd"
proof -
  obtain rv req' c' where rd: "descq_st_c2h_read demo_c2h_dev True True (cb_reset demo_req) demo_c2h_rcvd () = (rv, req', c', ())"
    by (metis (full_types) prod_cases4 old.unit.exhaust)
  have inv: "c2h_inv demo_c2h_rcvd" using c2h_run_inv [OF demo_c2h_run alloc_accounts [OF demo_c2h_fresh demo_c2h_alloc] demo_c2h_updates(2,1)] demo_c2h_state(1) by simp
  then obtain lo n where a: "c2h_acct lo 0 n (dq_pidx (cq_q demo_c2h_rcvd)) demo_c2h_rcvd" by (auto simp: c2h_inv_def rx_ok_def)
  let ?S = "received (\<lambda>_. 0x10000) 0 demo_c2h_rcvd" and ?L = "req_places (cb_reset demo_req)"
  have L: "distinct ?L" "length ?L = 12" by code_simp+
  have S: "length ?S = 6" by (simp add: received_eq [OF demo_c2h_offsets] demo_c2h_state(4))
  obtain t' where "0 \<le> rv" "(nat rv, received (\<lambda>_. 0x10000) t' c', req_places req', cq_bytes c') = stream_read ?S ?L (cq_bytes demo_c2h_rcvd)"
    using c2h_read_refines [OF a _ demo_c2h_readable demo_c2h_offsets demo_c2h_updates(1) rd] by auto
  then have "rv = 6" "received (\<lambda>_. 0x10000) t' c' = []" "cq_bytes c' = put_bytes (take 6 ?L) ?S (cq_bytes demo_c2h_rcvd)"
    using L S by (auto simp: stream_read_def Let_def)
  moreover have "bytes_at (put_bytes (take 6 ?L) ?S m) (take 6 ?L) = ?S" for m using L S by (intro bytes_at_put) simp_all
  ultimately show ?thesis using rd by auto
qed

section \<open>Packets and buffers\<close>

text \<open>C29: The number of buffers that a packet uses, and the data in the last of them, are those of a packet that fills
  its buffers in order.  For lengths that are a power of two the buffer size has to be the power of two that the
  shift stands for.\<close>

theorem get_fl_nr_splits:
  assumes len: "len \<noteq> 0" "unat len < 2 ^ 16" and b: "b \<noteq> 0" and sh: "shift < 31" and pow: "len AND (len - 1) = 0 \<Longrightarrow> b = 2 ^ shift"
  shows "\<exists>n l. get_fl_nr len b shift (2 ^ shift - 1) = Some (int n, of_nat l) \<and>
    0 < n \<and> (n - 1) * unat b + l = unat len \<and> 0 < l \<and> l \<le> unat b"
proof -
  have "get_fl_nr len b shift (2 ^ shift - 1) = Some (int (bufs_for (unat b) (unat len)), of_nat (last_len (unat b) (unat len)))"
  proof (cases "len AND (len - 1) = 0")
    case True
    then show ?thesis using get_fl_nr_pow2 [OF len sh True] pow [OF True] sh by (simp add: unat_pow2)
  next
    case False
    then show ?thesis by (rule get_fl_nr_loop [OF b])
  qed
  then show ?thesis using bufs_for_sum [of "unat b" "unat len"] len(1) b by (auto simp: unat_gt_0)
qed

theorem get_fl_nr_splits_witness:
  "\<exists>n l. get_fl_nr 9000 4096 12 (2 ^ 12 - 1) = Some (int n, of_nat l) \<and> (n - 1) * 4096 + l = 9000 \<and> n = 3"
proof -
  have "(9000 :: u32) AND (9000 - 1) \<noteq> 0" by code_simp
  then obtain n l where "get_fl_nr 9000 4096 12 (2 ^ 12 - 1) = Some (int n, of_nat l)" "0 < n" "(n - 1) * 4096 + l = 9000" "0 < l" "l \<le> 4096"
    using get_fl_nr_splits [of 9000 4096 12] by auto
  moreover from this have "n = 3" by (cases n) auto
  ultimately show ?thesis by blast
qed

text \<open>
  With buffers of 3968 bytes, one of the default sizes, a packet of 4096 bytes uses two buffers, and the code
  counts one.
\<close>

theorem get_fl_nr_undercounts: "get_fl_nr 4096 3968 12 (2 ^ 12 - 1) = Some (1, 3968) \<and> bufs_for 3968 4096 = 2"
proof -
  have "get_fl_nr 4096 3968 12 (2 ^ 12 - 1) = Some (1, 3968)" by code_simp
  then show ?thesis by (simp add: bufs_for_def)
qed

text \<open>A request for three bytes.\<close>

definition demo_part :: qdma_request where
  "demo_part = demo_req\<lparr>rq_count := 3, rq_sgl := [\<lparr>sg_pg = Some 0, sg_offset = 0, sg_len = 3, sg_dma_addr = 0\<rparr>]\<rparr>"

definition read_part :: "c2h_q \<Rightarrow> c2h_q" where
  "read_part c = fst (snd (snd (qdma_queue_packet_read demo_c2h_dev None demo_part c ())))"

text \<open>A buffer that was read in two parts and given back keeps the offset of the second part.  Two reads of three
  bytes take a packet of six: all buffers are free again, and the first has an offset of three, while its
  descriptor still names its start and the next buffer is four bytes further.\<close>

theorem recycled_offset_kept:
  "(let c = read_part (read_part demo_c2h_rcvd); e = fq_sdesc (cq_flq c) ! 0
    in pending c = [] \<and> dq_avail (cq_q c) = 3 \<and> sg_offset e = 3 \<and> sg_len e = 4 \<and>
       c2h_dst_addr (dq_desc (cq_q c) ! 0) = 0x10000 \<and> c2h_dst_addr (dq_desc (cq_q c) ! 1) = 0x10004)"
  by code_simp

end
