(* ===== verification/QueueContext.thy ===== *)
theory QueueContext
  imports Descq MboxHandler MboxCompose
begin

text \<open>
  Contexts of the queues and of the interrupt rings in the driver core, \<^verbatim>\<open>libqdma/qdma_context.c\<close>, with
  \<^verbatim>\<open>get_intr_ring_index\<close> of \<^verbatim>\<open>qdma_intr.c\<close> and the translation of error codes of \<^verbatim>\<open>qdma_platform.c\<close>.  The
  file is compiled twice.  On a physical function it programs the contexts through the access table, which
  is an argument; on a virtual function it sends a mailbox message and waits for the reply, and the
  function that does so, \<^verbatim>\<open>qdma_mbox_msg_send\<close>, is an argument.  The variants for the virtual function
  carry the suffix \<open>_vf\<close>.

  An \<^verbatim>\<open>int\<close> of the code that is only converted to unsigned types is kept as \<open>u32\<close>.  The value \<open>None\<close> stands
  for an access outside an array.  The dumps of contexts as text are not modelled.
\<close>

section \<open>Error codes\<close>

definition EPERM :: int where [simp]: "EPERM = 1"
definition QDMA_ERR_HWACC_INV_CONFIG_BAR :: int where [simp]: "QDMA_ERR_HWACC_INV_CONFIG_BAR = 4"
definition QDMA_ERR_MBOX_FMAP_WR_FAILED :: int where [simp]: "QDMA_ERR_MBOX_FMAP_WR_FAILED = 14"

definition error_code_map_list :: "(int \<times> int) list" where
  "error_code_map_list =
     [(QDMA_SUCCESS, 0), (QDMA_ERR_INV_PARAM, EINVAL), (QDMA_ERR_NO_MEM, ENOMEM),
      (QDMA_ERR_HWACC_BUSY_TIMEOUT, EBUSY), (QDMA_ERR_HWACC_INV_CONFIG_BAR, EINVAL),
      (QDMA_ERR_HWACC_NO_PEND_LEGCY_INTR, EINVAL), (QDMA_ERR_HWACC_BAR_NOT_FOUND, EINVAL),
      (QDMA_ERR_HWACC_FEATURE_NOT_SUPPORTED, EINVAL), (QDMA_ERR_RM_RES_EXISTS, EPERM),
      (QDMA_ERR_RM_RES_NOT_EXISTS, EINVAL), (QDMA_ERR_RM_DEV_EXISTS, EPERM),
      (QDMA_ERR_RM_DEV_NOT_EXISTS, EINVAL), (QDMA_ERR_RM_NO_QUEUES_LEFT, EPERM),
      (QDMA_ERR_RM_QMAX_CONF_REJECTED, EPERM), (QDMA_ERR_MBOX_FMAP_WR_FAILED, EIO),
      (QDMA_ERR_MBOX_NUM_QUEUES, EINVAL), (QDMA_ERR_MBOX_INV_QID, EINVAL),
      (QDMA_ERR_MBOX_INV_RINGSZ, EINVAL), (QDMA_ERR_MBOX_INV_BUFSZ, EINVAL),
      (QDMA_ERR_MBOX_INV_CNTR_TH, EINVAL), (QDMA_ERR_MBOX_INV_TMR_TH, EINVAL),
      (QDMA_ERR_MBOX_INV_MSG, EINVAL), (QDMA_ERR_MBOX_SEND_BUSY, EBUSY),
      (QDMA_ERR_MBOX_NO_MSG_IN, EINVAL), (QDMA_ERR_MBOX_REG_READ_FAILED, EIO),
      (QDMA_ERR_MBOX_ALL_ZERO_MSG, EINVAL)]"

definition qdma_get_err_code :: "int \<Rightarrow> int option" where
  "qdma_get_err_code acc_err_code =
     (let i = - acc_err_code
      in if 0 \<le> i \<and> nat i < length error_code_map_list then Some (- snd (error_code_map_list ! nat i)) else None)"

text \<open>A call of an access function: a negative result is translated and returned.\<close>

definition or_errno :: "int \<times> 's \<Rightarrow> ('s \<Rightarrow> (int \<times> 's) option) \<Rightarrow> (int \<times> 's) option" where
  "or_errno r k =
     (if fst r < 0 then map_option (\<lambda>e. (e, snd r)) (qdma_get_err_code (fst r)) else k (snd r))"

section \<open>Device and queue\<close>

text \<open>An interrupt aggregation ring; its memory is named by a number.\<close>

record intr_coal_conf =
  vec_id :: u16
  intr_rng_num_entries :: u16
  intr_ring_bus :: u64
  intr_ring_base :: "nat option"
  coal_color :: u8
  intr_cidx_info :: qdma_intr_cidx_reg_info

text \<open>The fields of the device structure that this file uses.\<close>

record xlnx_dma_dev =
  xd_drv_mode :: qdma_drv_mode
  xd_intr_rngsz :: u8
  xd_func_id :: u16
  xd_dvec_start_idx :: u32
  xd_intr_coal_list :: "intr_coal_conf list"
  xd_qid2vec_ctx :: bool
  xd_c2h_cnt_th :: "u32 list"
  xd_c2h_timer_cnt :: "u32 list"

text \<open>The fields of the queue structure that this file uses; \<open>cq_at\<close> is a field of its configuration.\<close>

record ctx_descq =
  cq_conf :: qdma_queue_conf
  cq_at :: u8
  cq_channel :: u8
  cq_intr_id :: u32
  cq_desc_bus :: u64
  cq_desc_cmpt_bus :: u64
  cq_qidx_hw :: u32

definition FETCH_MAX_NUM :: u8 where [simp]: "FETCH_MAX_NUM = 7"
definition DESC_SZ_8B :: u8 where [simp]: "DESC_SZ_8B = 0"
definition DESC_SZ_16B :: u8 where [simp]: "DESC_SZ_16B = 1"
definition DESC_SZ_32B :: u8 where [simp]: "DESC_SZ_32B = 2"
definition DESC_SZ_64B :: u8 where [simp]: "DESC_SZ_64B = 3"

fun q_type_num :: "queue_type_t \<Rightarrow> u8" where
  "q_type_num Q_H2C = 0"
| "q_type_num Q_C2H = 1"
| "q_type_num Q_CMPT = 2"
| "q_type_num Q_H2C_C2H = 3"

definition aggr_mode :: "xlnx_dma_dev \<Rightarrow> bool" where
  "aggr_mode xdev \<longleftrightarrow> xd_drv_mode xdev = INDIRECT_INTR_MODE \<or> xd_drv_mode xdev = AUTO_MODE"

definition get_intr_ring_index :: "xlnx_dma_dev \<Rightarrow> u32 \<Rightarrow> u32" where
  "get_intr_ring_index xdev vector_index =
     (vector_index - xd_dvec_start_idx xdev) + ucast (xd_func_id xdev) * of_nat QDMA_NUM_DATA_VEC_FOR_INTR_CXT"

section \<open>Composing contexts\<close>

definition intr_ctxt_of :: "xlnx_dma_dev \<Rightarrow> intr_coal_conf \<Rightarrow> qdma_indirect_intr_ctxt \<Rightarrow> qdma_indirect_intr_ctxt" where
  "intr_ctxt_of xdev entry c =
     c\<lparr>ic_valid := 1, ic_vec := vec_id entry, ic_baddr_4k := intr_ring_bus entry, ic_color := coal_color entry,
       ic_page_size := xd_intr_rngsz xdev, ic_func_id := xd_func_id xdev\<rparr>"

definition make_intr_context ::
    "xlnx_dma_dev \<Rightarrow> qdma_indirect_intr_ctxt list \<Rightarrow> (int \<times> qdma_indirect_intr_ctxt list) option" where
  "make_intr_context xdev ctxt =
     (if \<not> aggr_mode xdev then Some (- EINVAL, ctxt)
      else if length (xd_intr_coal_list xdev) < QDMA_NUM_DATA_VEC_FOR_INTR_CXT \<or>
              length ctxt < QDMA_NUM_DATA_VEC_FOR_INTR_CXT then None
      else Some (0, map (\<lambda>i. if i < QDMA_NUM_DATA_VEC_FOR_INTR_CXT
                              then intr_ctxt_of xdev (xd_intr_coal_list xdev ! i) (ctxt ! i) else ctxt ! i)
                        [0 ..< length ctxt]))"

definition make_sw_context :: "xlnx_dma_dev \<Rightarrow> ctx_descq \<Rightarrow> qdma_descq_sw_ctxt" where
  "make_sw_context xdev q =
     (let conf = cq_conf q; st = cf_st conf; t = cf_q_type conf; sw = sw_zero;
          sw = (if aggr_mode xdev
                then sw\<lparr>sw_vec := ucast (get_intr_ring_index xdev (cq_intr_id q)), sw_intr_aggr := 1\<rparr>
                else sw\<lparr>sw_vec := ucast (cq_intr_id q)\<rparr>);
          sw = sw\<lparr>sw_ring_bs_addr := cq_desc_bus q, sw_wbi_chk := cf_cmpl_status_pend_chk conf,
                  sw_wbi_intvl_en := cf_cmpl_status_acc_en conf, sw_rngsz_idx := cf_desc_rng_sz_idx conf,
                  sw_bypass := of_bool (cf_desc_bypass conf), sw_wbk_en := cf_wb_status_en conf,
                  sw_irq_en := cf_irq_en conf, sw_is_mm := NOT (of_bool st), sw_qen := 1\<rparr>;
          sw = (if cf_desc_bypass conf \<and> cf_sw_desc_sz conf = DESC_SZ_64B
                then sw\<lparr>sw_desc_sz := cf_sw_desc_sz conf\<rparr>
                else let sw = sw\<lparr>sw_fetch_max := FETCH_MAX_NUM\<rparr>
                     in if \<not> st
                        then sw\<lparr>sw_desc_sz := DESC_SZ_32B, sw_mm_chn := cq_channel q, sw_host_id := cq_channel q\<rparr>
                        else if t = Q_C2H then sw\<lparr>sw_frcd_en := cf_fetch_credit conf, sw_desc_sz := DESC_SZ_8B\<rparr>
                        else if t = Q_H2C then sw\<lparr>sw_frcd_en := cf_fetch_credit conf, sw_desc_sz := DESC_SZ_16B\<rparr>
                        else sw\<lparr>sw_desc_sz := DESC_SZ_16B\<rparr>);
          sw = sw\<lparr>sw_fnc_id := ucast (xd_func_id xdev), sw_irq_arm := cf_irq_en conf\<rparr>;
          sw = (if st \<and> t = Q_C2H
                then sw\<lparr>sw_irq_en := 0, sw_irq_arm := 0, sw_wbk_en := 0, sw_wbi_chk := 0\<rparr> else sw)
      in if \<not> cf_desc_bypass conf \<and> (\<not> st \<or> t = Q_H2C) then sw\<lparr>sw_mrkr_dis := 1\<rparr> else sw)"

definition make_qid2vec_context :: "xlnx_dma_dev \<Rightarrow> ctx_descq \<Rightarrow> qdma_qid2vec" where
  "make_qid2vec_context xdev q =
     (let c = \<lparr>qv_c2h_vector = 0, qv_c2h_en_coal = 0, qv_h2c_vector = 0, qv_h2c_en_coal = 0\<rparr>;
          (vec_num, en_coal) = (if aggr_mode xdev then (get_intr_ring_index xdev (cq_intr_id q), 1)
                                else (cq_intr_id q, 0))
      in if cf_q_type (cq_conf q) = Q_C2H then c\<lparr>qv_c2h_en_coal := en_coal, qv_c2h_vector := ucast vec_num\<rparr>
         else if cf_q_type (cq_conf q) = Q_H2C then c\<lparr>qv_h2c_en_coal := en_coal, qv_h2c_vector := ucast vec_num\<rparr>
         else c)"

definition make_prefetch_context :: "ctx_descq \<Rightarrow> qdma_descq_prefetch_ctxt" where
  "make_prefetch_context q =
     pf_zero\<lparr>pf_valid := 1, pf_bypass := cf_pfetch_bypass (cq_conf q),
             pf_bufsz_idx := cf_c2h_buf_sz_idx (cq_conf q), pf_pfch_en := cf_pfetch_en (cq_conf q)\<rparr>"

definition make_cmpt_context :: "xlnx_dma_dev \<Rightarrow> ctx_descq \<Rightarrow> qdma_descq_cmpt_ctxt" where
  "make_cmpt_context xdev q =
     (let conf = cq_conf q;
          cm = cm_zero\<lparr>cm_en_stat_desc := cf_cmpl_stat_en conf, cm_en_int := cf_cmpl_en_intr conf,
                 cm_trig_mode := cf_cmpl_trig_mode conf, cm_fnc_id := ucast (xd_func_id xdev),
                 cm_timer_idx := cf_cmpl_timer_idx conf, cm_counter_idx := cf_cmpl_cnt_th_idx conf,
                 cm_color := 1, cm_ringsz_idx := cf_cmpl_rng_sz_idx conf,
                 cm_bs_addr := cq_desc_cmpt_bus q, cm_desc_sz := cf_cmpl_desc_sz conf,
                 cm_full_upd := of_bool (cf_adaptive_rx conf), cm_valid := 1,
                 cm_ovf_chk_dis := cf_cmpl_ovf_chk_dis conf\<rparr>
      in if aggr_mode xdev
         then cm\<lparr>cm_vec := ucast (get_intr_ring_index xdev (cq_intr_id q)), cm_int_aggr := 1\<rparr>
         else cm\<lparr>cm_vec := ucast (cq_intr_id q)\<rparr>)"

section \<open>Physical function\<close>

definition has_cmpt_ctxt :: "bool \<Rightarrow> queue_type_t \<Rightarrow> bool" where
  "has_cmpt_ctxt st t \<longleftrightarrow> st \<and> t = Q_C2H \<or> \<not> st \<and> t = Q_CMPT"

text \<open>The code spells the calls out twice, for clearing and for invalidating; the two differ in the access
  type only.\<close>

definition qdma_descq_context_clear ::
    "'s qdma_hw_access \<Rightarrow> u32 \<Rightarrow> bool \<Rightarrow> queue_type_t \<Rightarrow> bool \<Rightarrow> 's \<Rightarrow> (int \<times> 's) option" where
  "qdma_descq_context_clear hw qid_hw st t clr d =
     (let acc = (if clr then QDMA_HW_ACCESS_CLEAR else QDMA_HW_ACCESS_INVALIDATE);
          c2h = q_type_num t; qid = ucast qid_hw;
          cmpt = (\<lambda>d. if has_cmpt_ctxt st t
                       then or_errno (no_ctxt (hw_cmpt_ctx_conf hw qid None acc d)) (\<lambda>d. Some (0, d))
                       else Some (0, d))
      in if t \<noteq> Q_CMPT
         then or_errno (no_ctxt (hw_sw_ctx_conf hw c2h qid None acc d)) (\<lambda>d.
              or_errno (no_ctxt (hw_hw_ctx_conf hw c2h qid None acc d)) (\<lambda>d.
              or_errno (no_ctxt (hw_credit_ctx_conf hw c2h qid None acc d)) (\<lambda>d.
              if st \<and> t = Q_C2H then or_errno (no_ctxt (hw_pfetch_ctx_conf hw qid None acc d)) cmpt
              else cmpt d)))
         else cmpt d)"

text \<open>The access function of the queue to vector map (\<^verbatim>\<open>qid2vec\<close>, only of CPM4 devices) is an argument; its
  result is not looked at.  The error code of clearing has been translated by
  \<^verbatim>\<open>qdma_descq_context_clear\<close>; the code translates it again.\<close>

definition qdma_descq_context_program ::
    "'s qdma_hw_access \<Rightarrow> (u8 \<Rightarrow> u16 \<Rightarrow> qdma_qid2vec \<Rightarrow> 's \<Rightarrow> 's) \<Rightarrow> xlnx_dma_dev \<Rightarrow> u32 \<Rightarrow> bool \<Rightarrow>
       queue_type_t \<Rightarrow> qdma_descq_context \<Rightarrow> 's \<Rightarrow> (int \<times> 's) option" where
  "qdma_descq_context_program hw q2v xdev qid_hw st t context d =
     (let c2h = q_type_num t; qid = ucast qid_hw; acc = QDMA_HW_ACCESS_WRITE;
          cmpt = (\<lambda>d. if has_cmpt_ctxt st t
                       then or_errno (no_ctxt (hw_cmpt_ctx_conf hw qid (Some (cmpt_ctxt context)) acc d)) (\<lambda>d. Some (0, d))
                       else Some (0, d))
      in case qdma_descq_context_clear hw qid_hw st t True d of
           None \<Rightarrow> None
         | Some r \<Rightarrow> or_errno r (\<lambda>d.
             if t \<noteq> Q_CMPT
             then or_errno (no_ctxt (hw_sw_ctx_conf hw c2h qid (Some (sw_ctxt context)) acc d)) (\<lambda>d.
                  let d = (if xd_qid2vec_ctx xdev \<and> xd_drv_mode xdev \<noteq> POLL_MODE
                           then q2v c2h qid (qid2vec context) d else d)
                  in if st \<and> c2h \<noteq> 0
                     then or_errno (no_ctxt (hw_pfetch_ctx_conf hw qid (Some (pfetch_ctxt context)) acc d)) cmpt
                     else cmpt d)
             else cmpt d))"

definition made_context :: "xlnx_dma_dev \<Rightarrow> ctx_descq \<Rightarrow> qdma_descq_context" where
  "made_context xdev q =
     (let st = cf_st (cq_conf q); t = cf_q_type (cq_conf q); c = descq_zero;
          c = (if t \<noteq> Q_CMPT
               then let c = c\<lparr>sw_ctxt := make_sw_context xdev q\<rparr>;
                        c = (if xd_qid2vec_ctx xdev \<and> xd_drv_mode xdev \<noteq> POLL_MODE
                             then c\<lparr>qid2vec := make_qid2vec_context xdev q\<rparr> else c)
                    in if st \<and> t = Q_C2H then c\<lparr>pfetch_ctxt := make_prefetch_context q\<rparr> else c
               else c)
      in if has_cmpt_ctxt st t then c\<lparr>cmpt_ctxt := make_cmpt_context xdev q\<rparr> else c)"

definition qdma_descq_context_setup ::
    "'s qdma_hw_access \<Rightarrow> (u8 \<Rightarrow> u16 \<Rightarrow> qdma_qid2vec \<Rightarrow> 's \<Rightarrow> 's) \<Rightarrow> xlnx_dma_dev \<Rightarrow> ctx_descq \<Rightarrow> 's \<Rightarrow>
       (int \<times> 's) option" where
  "qdma_descq_context_setup hw q2v xdev q d =
     qdma_descq_context_program hw q2v xdev (cq_qidx_hw q) (cf_st (cq_conf q)) (cf_q_type (cq_conf q))
       (made_context xdev q) d"

text \<open>One read of a context: the structure is updated through the pointer, a negative result is translated.\<close>

definition read_field ::
    "int \<times> 'c option \<times> 's \<Rightarrow> ('c \<Rightarrow> qdma_descq_context \<Rightarrow> qdma_descq_context) \<Rightarrow> qdma_descq_context \<Rightarrow>
       (qdma_descq_context \<Rightarrow> 's \<Rightarrow> (int \<times> qdma_descq_context \<times> 's) option) \<Rightarrow>
       (int \<times> qdma_descq_context \<times> 's) option" where
  "read_field r put context k =
     (case r of (rv, c, d) \<Rightarrow>
        let context = (case c of Some c \<Rightarrow> put c context | None \<Rightarrow> context)
        in if rv < 0 then map_option (\<lambda>e. (e, context, d)) (qdma_get_err_code rv) else k context d)"

definition qdma_descq_context_read ::
    "'s qdma_hw_access \<Rightarrow> xlnx_dma_dev \<Rightarrow> u32 \<Rightarrow> bool \<Rightarrow> queue_type_t \<Rightarrow> 's \<Rightarrow>
       (int \<times> qdma_descq_context \<times> 's) option" where
  "qdma_descq_context_read hw xdev qid_hw st t d =
     (let context = descq_zero; c2h = q_type_num t; qid = ucast qid_hw; acc = QDMA_HW_ACCESS_READ;
          cmpt = (\<lambda>context d. if has_cmpt_ctxt st t
                    then read_field (hw_cmpt_ctx_conf hw qid (Some (cmpt_ctxt context)) acc d)
                           (\<lambda>c x. x\<lparr>cmpt_ctxt := c\<rparr>) context (\<lambda>context d. Some (0, context, d))
                    else Some (0, context, d))
      in if t \<noteq> Q_CMPT
         then read_field (hw_sw_ctx_conf hw c2h qid (Some (sw_ctxt context)) acc d)
                (\<lambda>c x. x\<lparr>sw_ctxt := c\<rparr>) context (\<lambda>context d.
              read_field (hw_hw_ctx_conf hw c2h qid (Some (hw_ctxt context)) acc d)
                (\<lambda>c x. x\<lparr>hw_ctxt := c\<rparr>) context (\<lambda>context d.
              read_field (hw_credit_ctx_conf hw c2h qid (Some (cr_ctxt context)) acc d)
                (\<lambda>c x. x\<lparr>cr_ctxt := c\<rparr>) context (\<lambda>context d.
              read_field (hw_fmap_conf hw (xd_func_id xdev) (Some (fmap context)) acc d)
                (\<lambda>c x. x\<lparr>fmap := c\<rparr>) context (\<lambda>context d.
              if st \<and> c2h \<noteq> 0
              then read_field (hw_pfetch_ctx_conf hw qid (Some (pfetch_ctxt context)) acc d)
                     (\<lambda>c x. x\<lparr>pfetch_ctxt := c\<rparr>) context cmpt
              else cmpt context d))))
         else cmpt context d)"

subsection \<open>Interrupt contexts\<close>

fun prog_loop :: "'s qdma_hw_access \<Rightarrow> mbox_msg_intr_ctxt \<Rightarrow> nat list \<Rightarrow> 's \<Rightarrow> (int \<times> 's) option" where
  "prog_loop hw ic [] d = Some (0, d)"
| "prog_loop hw ic (i # is) d =
     (if i < length (ring_index_list ic) \<and> i < length (ictxt ic)
      then or_errno (no_ctxt (hw_indirect_intr_ctx_conf hw (ucast (ring_index_list ic ! i))
             (Some (ictxt ic ! i)) QDMA_HW_ACCESS_WRITE d)) (prog_loop hw ic is)
      else None)"

definition qdma_prog_intr_context :: "'s qdma_hw_access \<Rightarrow> mbox_msg_intr_ctxt \<Rightarrow> 's \<Rightarrow> (int \<times> 's) option" where
  "qdma_prog_intr_context hw ic d = prog_loop hw ic [0 ..< unat (num_rings ic)] d"

fun intr_setup_loop ::
    "'s qdma_hw_access \<Rightarrow> xlnx_dma_dev \<Rightarrow> qdma_indirect_intr_ctxt list \<Rightarrow> nat list \<Rightarrow> 's \<Rightarrow> (int \<times> 's) option" where
  "intr_setup_loop hw xdev ctxt [] d = Some (0, d)"
| "intr_setup_loop hw xdev ctxt (i # is) d =
     (let ridx = ucast (get_intr_ring_index xdev (of_nat i + xd_dvec_start_idx xdev))
      in or_errno (no_ctxt (hw_indirect_intr_ctx_conf hw ridx None QDMA_HW_ACCESS_CLEAR d)) (\<lambda>d.
         or_errno (no_ctxt (hw_indirect_intr_ctx_conf hw ridx (Some (ctxt ! i)) QDMA_HW_ACCESS_WRITE d))
           (intr_setup_loop hw xdev ctxt is)))"

definition qdma_intr_context_setup :: "'s qdma_hw_access \<Rightarrow> xlnx_dma_dev \<Rightarrow> 's \<Rightarrow> (int \<times> 's) option" where
  "qdma_intr_context_setup hw xdev d =
     (if \<not> aggr_mode xdev then Some (0, d)
      else case make_intr_context xdev (replicate QDMA_NUM_DATA_VEC_FOR_INTR_CXT ic_zero) of
             None \<Rightarrow> None
           | Some (rv, ctxt) \<Rightarrow>
               if rv < 0 then Some (rv, d)
               else intr_setup_loop hw xdev ctxt [0 ..< QDMA_NUM_DATA_VEC_FOR_INTR_CXT] d)"

definition qdma_intr_context_read ::
    "'s qdma_hw_access \<Rightarrow> u32 \<Rightarrow> 's \<Rightarrow> (int \<times> qdma_indirect_intr_ctxt \<times> 's) option" where
  "qdma_intr_context_read hw ridx d =
     (case hw_indirect_intr_ctx_conf hw (ucast ridx) (Some ic_zero) QDMA_HW_ACCESS_READ d of
        (rv, c, d) \<Rightarrow>
          let c = (case c of Some c \<Rightarrow> c | None \<Rightarrow> ic_zero)
          in if rv < 0 then map_option (\<lambda>e. (e, c, d)) (qdma_get_err_code rv) else Some (0, c, d))"

section \<open>Virtual function\<close>

text \<open>The function that sends a message and waits for the reply, which replaces the message.\<close>

type_synonym 's msg_send = "qdma_mbox_txrx \<Rightarrow> 's \<Rightarrow> int \<times> qdma_mbox_txrx \<times> 's"

definition vf_cmpt_ctxt_type :: "bool \<Rightarrow> queue_type_t \<Rightarrow> mbox_cmpt_ctxt_type" where
  "vf_cmpt_ctxt_type st t =
     (if \<not> st then (if t = Q_CMPT then QDMA_MBOX_CMPT_CTXT_ONLY else QDMA_MBOX_CMPT_CTXT_NONE)
      else if t = Q_C2H then QDMA_MBOX_CMPT_WITH_ST else QDMA_MBOX_CMPT_CTXT_NONE)"

text \<open>Send the composed message and look at the status of the reply.\<close>

definition send_for_status :: "'s msg_send \<Rightarrow> int \<times> qdma_mbox_txrx option \<Rightarrow> 's \<Rightarrow> int \<times> 's" where
  "send_for_status send composed d =
     (case send (case snd composed of Some m \<Rightarrow> m | None \<Rightarrow> msg_zero) d of (rv, m, d) \<Rightarrow>
        if rv < 0 then (rv, d)
        else let rv = qdma_mbox_vf_response_status m in (if rv < 0 then - EINVAL else rv, d))"

definition qdma_intr_context_setup_vf :: "bool \<Rightarrow> 's msg_send \<Rightarrow> xlnx_dma_dev \<Rightarrow> 's \<Rightarrow> (int \<times> 's) option" where
  "qdma_intr_context_setup_vf mem send xdev d =
     (if \<not> aggr_mode xdev then Some (0, d)
      else if \<not> mem then Some (- ENOMEM, d)
      else let idx = map (\<lambda>i. get_intr_ring_index xdev (xd_dvec_start_idx xdev + of_nat i))
                       [0 ..< QDMA_NUM_DATA_VEC_FOR_INTR_CXT]
           in case make_intr_context xdev (replicate QDMA_NUM_DATA_VEC_FOR_INTR_CXT ic_zero) of
                None \<Rightarrow> None
              | Some (rv, ctxt) \<Rightarrow>
                  if rv < 0 then Some (rv, d)
                  else Some (send_for_status send (qdma_mbox_compose_vf_intr_ctxt_write (xd_func_id xdev)
                         \<lparr>num_rings = of_nat QDMA_NUM_DATA_VEC_FOR_INTR_CXT, ring_index_list = idx, ictxt = ctxt\<rparr>
                         (Some msg_zero)) d))"

text \<open>A failed send is only logged; the message, reply or not, is then read.\<close>

definition qdma_intr_context_read_vf ::
    "bool \<Rightarrow> 's msg_send \<Rightarrow> xlnx_dma_dev \<Rightarrow> u32 \<Rightarrow> qdma_indirect_intr_ctxt \<Rightarrow> 's \<Rightarrow>
       (int \<times> qdma_indirect_intr_ctxt \<times> 's) option" where
  "qdma_intr_context_read_vf mem send xdev ridx ctxt d =
     (if \<not> mem then Some (- ENOMEM, ctxt, d)
      else let ic = \<lparr>num_rings = 1,
                     ring_index_list = (replicate QDMA_NUM_DATA_VEC_FOR_INTR_CXT 0)[0 := ridx],
                     ictxt = replicate QDMA_NUM_DATA_VEC_FOR_INTR_CXT ic_zero\<rparr>;
               m = (case snd (qdma_mbox_compose_vf_intr_ctxt_read (xd_func_id xdev) ic (Some msg_zero)) of
                      Some m \<Rightarrow> m | None \<Rightarrow> msg_zero)
           in case send m d of (_, m, d) \<Rightarrow>
                (case qdma_mbox_vf_intr_context_get m of (rv, ic) \<Rightarrow>
                   if rv < 0 then Some (- EINVAL, ctxt, d)
                   else if ictxt ic = [] then None else Some (rv, ictxt ic ! 0, d)))"

definition qdma_descq_context_clear_vf ::
    "bool \<Rightarrow> 's msg_send \<Rightarrow> xlnx_dma_dev \<Rightarrow> u32 \<Rightarrow> bool \<Rightarrow> queue_type_t \<Rightarrow> bool \<Rightarrow> 's \<Rightarrow> int \<times> 's" where
  "qdma_descq_context_clear_vf mem send xdev qid_hw st t clr d =
     (if \<not> mem then (- ENOMEM, d)
      else let compose = (if clr then qdma_mbox_compose_vf_qctxt_clear else qdma_mbox_compose_vf_qctxt_invalidate)
           in send_for_status send (compose (xd_func_id xdev) (ucast qid_hw) (of_bool st) (q_type_num t)
                (vf_cmpt_ctxt_type st t) (Some msg_zero)) d)"

definition qdma_descq_context_read_vf ::
    "bool \<Rightarrow> 's msg_send \<Rightarrow> xlnx_dma_dev \<Rightarrow> u32 \<Rightarrow> bool \<Rightarrow> queue_type_t \<Rightarrow> qdma_descq_context \<Rightarrow> 's \<Rightarrow>
       int \<times> qdma_descq_context \<times> 's" where
  "qdma_descq_context_read_vf mem send xdev qid_hw st t context d =
     (if \<not> mem then (- ENOMEM, context, d)
      else let m = (case snd (qdma_mbox_compose_vf_qctxt_read (xd_func_id xdev) (ucast qid_hw) (of_bool st)
                      (q_type_num t) (vf_cmpt_ctxt_type st t) (Some msg_zero)) of Some m \<Rightarrow> m | None \<Rightarrow> msg_zero)
           in case send m d of (rv, m, d) \<Rightarrow>
                if rv < 0 then (rv, context, d)
                else case qdma_mbox_vf_context_get m of (rv, context) \<Rightarrow>
                       (if rv < 0 then - EINVAL else rv, context, d))"

text \<open>The arrays have 16 entries and the index fields of the configuration have four bits.\<close>

definition csr_entry :: "u32 list \<Rightarrow> u8 \<Rightarrow> u32" where
  "csr_entry vals i = vals ! unat (take_bit 4 i)"

definition vf_descq_conf :: "xlnx_dma_dev \<Rightarrow> ctx_descq \<Rightarrow> mbox_descq_conf" where
  "vf_descq_conf xdev q =
     (let conf = cq_conf q;
          dc = conf_zero\<lparr>dc_ring_bs_addr := cq_desc_bus q, dc_cmpt_ring_bs_addr := cq_desc_cmpt_bus q,
                 dc_en_bypass := of_bool (cf_desc_bypass conf), dc_irq_arm := ucast (cf_irq_en conf),
                 dc_wbi_intvl_en := ucast (cf_cmpl_status_acc_en conf),
                 dc_wbi_chk := ucast (cf_cmpl_status_pend_chk conf), dc_at := ucast (cq_at q),
                 dc_wbk_en := ucast (cf_wb_status_en conf), dc_irq_en := ucast (cf_irq_en conf),
                 dc_pfch_en := ucast (cf_pfetch_en conf), dc_en_bypass_prefetch := ucast (cf_pfetch_bypass conf),
                 dc_dis_overflow_check := ucast (cf_cmpl_ovf_chk_dis conf),
                 dc_cmpt_int_en := ucast (cf_cmpl_en_intr conf), dc_cmpl_stat_en := ucast (cf_cmpl_stat_en conf)\<rparr>;
          dc = (if cf_desc_bypass conf \<and> cf_sw_desc_sz conf = DESC_SZ_64B
                then dc\<lparr>dc_desc_sz := ucast (cf_sw_desc_sz conf)\<rparr>
                else if cf_q_type conf \<noteq> Q_CMPT
                then if \<not> cf_st conf then dc\<lparr>dc_desc_sz := ucast DESC_SZ_32B\<rparr>
                     else if q_type_num (cf_q_type conf) \<noteq> 0
                     then dc\<lparr>dc_desc_sz := ucast DESC_SZ_8B, dc_forced_en := ucast (cf_fetch_credit conf)\<rparr>
                     else dc\<lparr>dc_desc_sz := ucast DESC_SZ_16B\<rparr>
                else dc);
          dc = dc\<lparr>dc_cmpt_desc_sz := ucast (cf_cmpl_desc_sz conf), dc_triggermode := ucast (cf_cmpl_trig_mode conf),
                  dc_cmpt_at := ucast (cq_at q), dc_cmpt_color := 1, dc_cmpt_full_upd := 0,
                  dc_func_id := xd_func_id xdev,
                  dc_cnt_thres := ucast (csr_entry (xd_c2h_cnt_th xdev) (cf_cmpl_cnt_th_idx conf)),
                  dc_timer_thres := ucast (csr_entry (xd_c2h_timer_cnt xdev) (cf_cmpl_timer_idx conf)),
                  dc_ringsz := ucast (cf_rngsz conf), dc_bufsz := ucast (cf_c2h_bufsz conf),
                  dc_cmpt_ringsz := ucast (cf_rngsz_cmpt conf)\<rparr>
      in if aggr_mode xdev
         then dc\<lparr>dc_intr_id := ucast (get_intr_ring_index xdev (cq_intr_id q) AND 0xFFF), dc_intr_aggr := 1\<rparr>
         else dc\<lparr>dc_intr_id := ucast (cq_intr_id q)\<rparr>)"

definition qdma_descq_context_setup_vf ::
    "bool \<Rightarrow> 's msg_send \<Rightarrow> xlnx_dma_dev \<Rightarrow> ctx_descq \<Rightarrow> 's \<Rightarrow> int \<times> 's" where
  "qdma_descq_context_setup_vf mem send xdev q d =
     (if \<not> mem then (- ENOMEM, d)
      else let st = cf_st (cq_conf q); t = cf_q_type (cq_conf q)
           in send_for_status send (qdma_mbox_compose_vf_qctxt_write (xd_func_id xdev) (ucast (cq_qidx_hw q))
                (of_bool st) (q_type_num t) (vf_cmpt_ctxt_type st t) (vf_descq_conf xdev q) (Some msg_zero)) d)"

end
