(* ===== verification/QueueCtxProps.thy ===== *)
theory QueueCtxProps
  imports QueueContext SoftMbox
begin

text \<open>
  Properties of the context setup of the driver core on the soft IP: what it stores in the device, that it
  is read back, and that a virtual function, whose requests travel through the mailbox to the handler of the
  physical function, gets the contexts that the physical function would make for the same queue, up to a few
  fields that the message does not carry.
\<close>

type_synonym ctx_map = "ind_ctxt_cmd_sel \<Rightarrow> u16 \<Rightarrow> u32 list"

section \<open>Error codes\<close>

text \<open>The table is indexed by the code, so its entries have to be in the order of the codes.\<close>

lemma error_table_aligned: "map fst error_code_map_list = map int [0 ..< length error_code_map_list]"
  by (simp add: error_code_map_list_def upt_rec)

lemma err_code_errno:
  assumes "(code, errno) \<in> set error_code_map_list"
  shows "qdma_get_err_code (- code) = Some (- errno)"
  using assms by (auto simp: error_code_map_list_def qdma_get_err_code_def)

text \<open>Translating a second time, as \<^verbatim>\<open>qdma_descq_context_program\<close> does with the result of clearing, turns
  a timeout into an invalid argument and an invalid argument into a timeout.\<close>

lemma clear_error_translated_twice:
  assumes "qdma_descq_context_clear hw qid st t True d = Some (- errno, d')" and "0 < errno"
  shows "qdma_descq_context_program hw q2v xdev qid st t c d = map_option (\<lambda>e. (e, d')) (qdma_get_err_code (- errno))"
    and "qdma_get_err_code (- EBUSY) = Some (- EINVAL)" and "qdma_get_err_code (- EINVAL) = Some (- EBUSY)"
  using assms by (simp_all add: qdma_descq_context_program_def or_errno_def qdma_get_err_code_def error_code_map_list_def)

section \<open>Effects on the stored contexts\<close>

definition returns :: "('s \<Rightarrow> 'm) \<Rightarrow> ('s \<Rightarrow> (int \<times> 's) option) \<Rightarrow> ('m \<Rightarrow> 'm) \<Rightarrow> bool" where
  "returns ctx f g \<longleftrightarrow> (\<forall>d. \<exists>d'. f d = Some (0, d') \<and> ctx d' = g (ctx d))"

lemma returns_zero: "returns ctx (\<lambda>d. Some (0, d)) (\<lambda>m. m)"
  by (simp add: returns_def)

lemma returns_then:
  assumes "does ctx f g" and "returns ctx k h"
  shows "returns ctx (\<lambda>d. or_errno (f d) k) (\<lambda>m. h (g m))"
  unfolding returns_def
proof
  fix d
  obtain d1 where "f d = (QDMA_SUCCESS, d1)" "ctx d1 = g (ctx d)" using assms(1) unfolding does_def by blast
  moreover obtain d2 where "k d1 = Some (0, d2)" "ctx d2 = h (ctx d1)" using assms(2) unfolding returns_def by blast
  ultimately show "\<exists>d'. or_errno (f d) k = Some (0, d') \<and> ctx d' = h (g (ctx d))" by (simp add: or_errno_def)
qed

lemma returns_if:
  "(b \<Longrightarrow> returns ctx f g) \<Longrightarrow> (\<not> b \<Longrightarrow> returns ctx f' g') \<Longrightarrow>
    returns ctx (\<lambda>d. if b then f d else f' d) (\<lambda>m. if b then g m else g' m)"
  by (cases b) simp_all

lemma returns_bind:
  assumes "returns ctx f g" and "returns ctx k h"
  shows "returns ctx (\<lambda>d. case f d of None \<Rightarrow> None | Some r \<Rightarrow> or_errno r k) (\<lambda>m. h (g m))"
  unfolding returns_def
proof
  fix d
  obtain d1 where "f d = Some (0, d1)" "ctx d1 = g (ctx d)" using assms(1) unfolding returns_def by blast
  moreover obtain d2 where "k d1 = Some (0, d2)" "ctx d2 = h (ctx d1)" using assms(2) unfolding returns_def by blast
  ultimately show "\<exists>d'. (case f d of None \<Rightarrow> None | Some r \<Rightarrow> or_errno r k) = Some (0, d') \<and> ctx d' = h (g (ctx d))"
    by (simp add: or_errno_def)
qed

lemma returns_cong: "returns ctx f g \<Longrightarrow> (\<And>m. g m = g' m) \<Longrightarrow> returns ctx f g'"
  by (simp add: returns_def)

section \<open>Clearing and programming a queue\<close>

text \<open>The contexts that belong to a queue of a type.\<close>

definition owns_sel :: "bool \<Rightarrow> queue_type_t \<Rightarrow> ind_ctxt_cmd_sel \<Rightarrow> bool" where
  "owns_sel st t sel \<longleftrightarrow>
     t \<noteq> Q_CMPT \<and> sel \<in> {sw_sel (q_type_num t), hw_sel (q_type_num t), cr_sel (q_type_num t)} \<or>
     st \<and> t = Q_C2H \<and> sel = QDMA_CTXT_SEL_PFTCH \<or> has_cmpt_ctxt st t \<and> sel = QDMA_CTXT_SEL_CMPT"

definition erased :: "bool \<Rightarrow> queue_type_t \<Rightarrow> u16 \<Rightarrow> ctx_map \<Rightarrow> ctx_map" where
  "erased st t k m = (\<lambda>sel. if owns_sel st t sel then (m sel)(k := replicate 8 0) else m sel)"

definition set_up :: "qdma_descq_context \<Rightarrow> bool \<Rightarrow> queue_type_t \<Rightarrow> u16 \<Rightarrow> ctx_map \<Rightarrow> ctx_map" where
  "set_up c st t k m =
     (let m = erased st t k m;
          m = (if t \<noteq> Q_CMPT then ctx_put (sw_sel (q_type_num t)) k (ctxt_data (sw_words (sw_ctxt c))) m else m);
          m = (if st \<and> t = Q_C2H then ctx_put QDMA_CTXT_SEL_PFTCH k (ctxt_data (pfetch_words (pfetch_ctxt c))) m else m)
      in if has_cmpt_ctxt st t then ctx_put QDMA_CTXT_SEL_CMPT k (ctxt_data (cmpt_words (cmpt_ctxt c))) m else m)"

lemma q_type_small: "t \<noteq> Q_CMPT \<Longrightarrow> t \<noteq> Q_H2C_C2H \<Longrightarrow> \<not> q_type_num t > 1"
  by (cases t) simp_all

lemma clear_returns:
  assumes e: "ctxt_engine hw regs ctx" and t: "t \<noteq> Q_H2C_C2H"
  shows "returns ctx (qdma_descq_context_clear (soft_access hw rl) qid st t True) (erased st t (take_bit 12 (ucast qid)))"
proof -
  let ?c2h = "q_type_num t" and ?k = "take_bit 12 (ucast qid) :: u16"
  let ?zero = "\<lambda>sel. ctx_put sel ?k (replicate 8 0)"
  define cmpt where "cmpt = (\<lambda>d. if has_cmpt_ctxt st t
      then or_errno (no_ctxt (hw_cmpt_ctx_conf (soft_access hw rl) (ucast qid) None QDMA_HW_ACCESS_CLEAR d)) (\<lambda>d. Some (0, d))
      else Some (0, d))"
  have cm: "returns ctx cmpt (\<lambda>m. if has_cmpt_ctxt st t then ?zero QDMA_CTXT_SEL_CMPT m else m)"
    unfolding cmpt_def
    by (rule returns_if [OF returns_then [OF soft_clear_does(5) [OF e, where c2h = 0] returns_zero] returns_zero]) simp
  show ?thesis
  proof (cases "t = Q_CMPT")
    case True
    then have "qdma_descq_context_clear (soft_access hw rl) qid st t True = cmpt"
      unfolding cmpt_def by (intro ext) (simp add: qdma_descq_context_clear_def Let_def)
    moreover have "erased st t ?k = (\<lambda>m. if has_cmpt_ctxt st t then ?zero QDMA_CTXT_SEL_CMPT m else m)"
      using True by (auto simp: erased_def owns_sel_def ctx_put_def fun_eq_iff)
    ultimately show ?thesis using cm by simp
  next
    case False
    note clr = soft_clear_does [OF e q_type_small [OF False t], where qid = "ucast qid" and rl = rl]
    have "qdma_descq_context_clear (soft_access hw rl) qid st t True = (\<lambda>d.
        or_errno (no_ctxt (hw_sw_ctx_conf (soft_access hw rl) ?c2h (ucast qid) None QDMA_HW_ACCESS_CLEAR d)) (\<lambda>d.
        or_errno (no_ctxt (hw_hw_ctx_conf (soft_access hw rl) ?c2h (ucast qid) None QDMA_HW_ACCESS_CLEAR d)) (\<lambda>d.
        or_errno (no_ctxt (hw_credit_ctx_conf (soft_access hw rl) ?c2h (ucast qid) None QDMA_HW_ACCESS_CLEAR d)) (\<lambda>d.
        if st \<and> t = Q_C2H
        then or_errno (no_ctxt (hw_pfetch_ctx_conf (soft_access hw rl) (ucast qid) None QDMA_HW_ACCESS_CLEAR d)) cmpt
        else cmpt d))))"
      using False unfolding cmpt_def by (intro ext) (simp add: qdma_descq_context_clear_def Let_def)
    then show ?thesis
      using False t
      by (simp only:) (rule returns_cong [OF returns_then [OF clr(1) returns_then [OF clr(2) returns_then [OF clr(3)
          returns_if [of "st \<and> t = Q_C2H", OF returns_then [OF clr(4) cm] cm]]]]],
        cases t; auto simp: erased_def owns_sel_def has_cmpt_ctxt_def ctx_put_def fun_eq_iff sw_sel_def hw_sel_def cr_sel_def)
  qed
qed

lemma program_returns:
  assumes e: "ctxt_engine hw regs ctx" and t: "t \<noteq> Q_H2C_C2H" and q2v: "\<not> xd_qid2vec_ctx xdev"
    and trig: "has_cmpt_ctxt st t \<Longrightarrow> \<not> cm_trig_mode (cmpt_ctxt c) > QDMA_CMPT_UPDATE_TRIG_MODE_TMR_CNTR"
  shows "returns ctx (qdma_descq_context_program (soft_access hw rl) qv xdev qid st t c)
    (set_up c st t (take_bit 12 (ucast qid)))"
proof -
  let ?c2h = "q_type_num t" and ?k = "take_bit 12 (ucast qid) :: u16" and ?acc = "soft_access hw rl"
  define cmpt where "cmpt = (\<lambda>d. if has_cmpt_ctxt st t
      then or_errno (no_ctxt (hw_cmpt_ctx_conf ?acc (ucast qid) (Some (cmpt_ctxt c)) QDMA_HW_ACCESS_WRITE d)) (\<lambda>d. Some (0, d))
      else Some (0, d))"
  have cm: "returns ctx cmpt (\<lambda>m. if has_cmpt_ctxt st t then ctx_put QDMA_CTXT_SEL_CMPT ?k (ctxt_data (cmpt_words (cmpt_ctxt c))) m else m)"
    unfolding cmpt_def by (rule returns_if [OF returns_then [OF soft_write_does(3) [OF e trig] returns_zero] returns_zero])
  note clr = clear_returns [OF e t, where rl = rl and qid = qid and st = st]
  show ?thesis
  proof (cases "t = Q_CMPT")
    case True
    then have "qdma_descq_context_program ?acc qv xdev qid st t c = (\<lambda>d.
        case qdma_descq_context_clear ?acc qid st t True d of None \<Rightarrow> None | Some r \<Rightarrow> or_errno r cmpt)"
      unfolding cmpt_def by (intro ext) (simp add: qdma_descq_context_program_def Let_def cong: option.case_cong)
    then show ?thesis using True
      by (simp only:) (rule returns_cong [OF returns_bind [OF clr [unfolded True] cm [unfolded True]]], simp add: set_up_def)
  next
    case False
    note wr = soft_write_does [OF e, where qid = "ucast qid" and rl = rl]
    have "qdma_descq_context_program ?acc qv xdev qid st t c = (\<lambda>d.
        case qdma_descq_context_clear ?acc qid st t True d of None \<Rightarrow> None | Some r \<Rightarrow> or_errno r (\<lambda>d.
          or_errno (no_ctxt (hw_sw_ctx_conf ?acc ?c2h (ucast qid) (Some (sw_ctxt c)) QDMA_HW_ACCESS_WRITE d)) (\<lambda>d.
          if st \<and> ?c2h \<noteq> 0
          then or_errno (no_ctxt (hw_pfetch_ctx_conf ?acc (ucast qid) (Some (pfetch_ctxt c)) QDMA_HW_ACCESS_WRITE d)) cmpt
          else cmpt d)))"
      unfolding cmpt_def using False q2v by (intro ext) (simp add: qdma_descq_context_program_def Let_def cong: option.case_cong)
    then show ?thesis
      by (simp only:) (rule returns_cong [OF returns_bind [OF clr returns_then [OF wr(1) [OF q_type_small [OF False t]]
          returns_if [of "st \<and> ?c2h \<noteq> 0", OF returns_then [OF wr(2) cm] cm]]]],
        use False t in \<open>cases t; simp add: set_up_def\<close>)
  qed
qed

lemma set_up_simps:
  assumes "t \<noteq> Q_H2C_C2H"
  shows "t \<noteq> Q_CMPT \<Longrightarrow> set_up c st t k m (sw_sel (q_type_num t)) k = ctxt_data (sw_words (sw_ctxt c))"
    and "t \<noteq> Q_CMPT \<Longrightarrow> set_up c st t k m (hw_sel (q_type_num t)) k = replicate 8 0"
    and "t \<noteq> Q_CMPT \<Longrightarrow> set_up c st t k m (cr_sel (q_type_num t)) k = replicate 8 0"
    and "st \<Longrightarrow> t = Q_C2H \<Longrightarrow> set_up c st t k m QDMA_CTXT_SEL_PFTCH k = ctxt_data (pfetch_words (pfetch_ctxt c))"
    and "has_cmpt_ctxt st t \<Longrightarrow> set_up c st t k m QDMA_CTXT_SEL_CMPT k = ctxt_data (cmpt_words (cmpt_ctxt c))"
    and "k2 \<noteq> k \<or> \<not> owns_sel st t sel \<Longrightarrow> set_up c st t k m sel k2 = m sel k2"
  using assms
  by (cases t; force simp: set_up_def erased_def owns_sel_def ctx_put_def Let_def sw_sel_def hw_sel_def cr_sel_def has_cmpt_ctxt_def)+

lemma made_context_simps:
  fixes xdev q
  defines "st \<equiv> cf_st (cq_conf q)" and "t \<equiv> cf_q_type (cq_conf q)"
  shows "t \<noteq> Q_CMPT \<Longrightarrow> sw_ctxt (made_context xdev q) = make_sw_context xdev q"
    and "st \<Longrightarrow> t = Q_C2H \<Longrightarrow> pfetch_ctxt (made_context xdev q) = make_prefetch_context q"
    and "has_cmpt_ctxt st t \<Longrightarrow> cmpt_ctxt (made_context xdev q) = make_cmpt_context xdev q"
  unfolding assms by (simp_all add: made_context_def Let_def)

lemma setup_returns:
  assumes e: "ctxt_engine hw regs ctx" and t: "cf_q_type (cq_conf q) \<noteq> Q_H2C_C2H" and q2v: "\<not> xd_qid2vec_ctx xdev"
    and trig: "cf_cmpl_trig_mode (cq_conf q) \<le> QDMA_CMPT_UPDATE_TRIG_MODE_TMR_CNTR"
  shows "returns ctx (qdma_descq_context_setup (soft_access hw rl) qv xdev q)
    (set_up (made_context xdev q) (cf_st (cq_conf q)) (cf_q_type (cq_conf q)) (take_bit 12 (ucast (cq_qidx_hw q))))"
proof -
  have "cm_trig_mode (make_cmpt_context xdev q) = cf_cmpl_trig_mode (cq_conf q)"
    by (simp add: make_cmpt_context_def Let_def)
  then have "has_cmpt_ctxt (cf_st (cq_conf q)) (cf_q_type (cq_conf q)) \<Longrightarrow>
      \<not> cm_trig_mode (cmpt_ctxt (made_context xdev q)) > QDMA_CMPT_UPDATE_TRIG_MODE_TMR_CNTR"
    using trig by (simp add: made_context_simps not_less)
  from program_returns [OF e t q2v this] show ?thesis by (simp add: qdma_descq_context_setup_def [abs_def])
qed

text \<open>C8: Starting a queue programs exactly its contexts.  On the soft IP, \<^verbatim>\<open>qdma_descq_context_setup\<close>
  succeeds for every queue with a trigger mode the IP knows; the software, prefetch and completion contexts
  of the queue are the ones made from its configuration, the hardware and credit contexts are clear, and no
  context of another queue, and no context of this index that the type of queue does not have, changes.\<close>

theorem context_setup_programs:
  assumes e: "ctxt_engine hw regs ctx" and t: "t = cf_q_type (cq_conf q)" "t \<noteq> Q_H2C_C2H"
    and st: "st = cf_st (cq_conf q)" and q2v: "\<not> xd_qid2vec_ctx xdev"
    and trig: "cf_cmpl_trig_mode (cq_conf q) \<le> QDMA_CMPT_UPDATE_TRIG_MODE_TMR_CNTR"
    and k: "k = take_bit 12 (ucast (cq_qidx_hw q))"
  shows "\<exists>d'. qdma_descq_context_setup (soft_access hw rl) qv xdev q d = Some (0, d') \<and>
    (t \<noteq> Q_CMPT \<longrightarrow> ctx d' (sw_sel (q_type_num t)) k = ctxt_data (sw_words (make_sw_context xdev q)) \<and>
       ctx d' (hw_sel (q_type_num t)) k = replicate 8 0 \<and> ctx d' (cr_sel (q_type_num t)) k = replicate 8 0) \<and>
    (st \<and> t = Q_C2H \<longrightarrow> ctx d' QDMA_CTXT_SEL_PFTCH k = ctxt_data (pfetch_words (make_prefetch_context q))) \<and>
    (has_cmpt_ctxt st t \<longrightarrow> ctx d' QDMA_CTXT_SEL_CMPT k = ctxt_data (cmpt_words (make_cmpt_context xdev q))) \<and>
    (\<forall>sel k2. k2 \<noteq> k \<or> \<not> owns_sel st t sel \<longrightarrow> ctx d' sel k2 = ctx d sel k2)"
proof -
  obtain d' where d': "qdma_descq_context_setup (soft_access hw rl) qv xdev q d = Some (0, d')"
      "ctx d' = set_up (made_context xdev q) st t k (ctx d)"
    using setup_returns [OF e t(2) [unfolded t(1)] q2v trig, where rl = rl and qv = qv]
    unfolding returns_def t(1) st k by blast
  show ?thesis
    using d' set_up_simps [OF t(2)] made_context_simps [of q xdev, folded t(1) st] by (intro exI [of _ d']) simp
qed

section \<open>Reading the contexts of a queue\<close>

definition fetches :: "('s \<Rightarrow> 'm) \<Rightarrow> ('s \<Rightarrow> int \<times> 'c option \<times> 's) \<Rightarrow> ('m \<Rightarrow> 'c) \<Rightarrow> bool" where
  "fetches ctx f v \<longleftrightarrow> (\<forall>d. \<exists>d'. f d = (QDMA_SUCCESS, Some (v (ctx d)), d') \<and> ctx d' = ctx d)"

lemma fetches_ctxt_read:
  assumes "ctxt_engine hw regs ctx" and "n \<le> 8"
  shows "fetches ctx (ctxt_read parse n sel (Some hw) qid (Some c0)) (\<lambda>m. parse (take n (m sel (take_bit 12 qid))) c0)"
  unfolding fetches_def
proof
  fix d
  obtain d1 where "qdma_indirect_reg_read hw sel qid n d = (QDMA_SUCCESS, Some (take n (ctx d sel (take_bit 12 qid))), d1)"
      "ctx d1 = ctx d"
    using indirect_read [OF assms, of sel qid d] by blast
  then show "\<exists>d'. ctxt_read parse n sel (Some hw) qid (Some c0) d =
      (QDMA_SUCCESS, Some (parse (take n (ctx d sel (take_bit 12 qid))) c0), d') \<and> ctx d' = ctx d"
    by (simp add: ctxt_read_def)
qed

lemma soft_fetches:
  assumes e: "ctxt_engine hw regs ctx"
  shows "\<not> c2h > (1 :: u8) \<Longrightarrow> fetches ctx (hw_sw_ctx_conf (soft_access hw rl) c2h qid (Some sw) QDMA_HW_ACCESS_READ)
      (\<lambda>m. sw_parse (take 5 (m (sw_sel c2h) (take_bit 12 qid))) sw)"
    and "\<not> c2h > (1 :: u8) \<Longrightarrow> fetches ctx (hw_hw_ctx_conf (soft_access hw rl) c2h qid (Some hc) QDMA_HW_ACCESS_READ)
      (\<lambda>m. hw_parse (take 2 (m (hw_sel c2h) (take_bit 12 qid))) hc)"
    and "\<not> c2h > (1 :: u8) \<Longrightarrow> fetches ctx (hw_credit_ctx_conf (soft_access hw rl) c2h qid (Some cr) QDMA_HW_ACCESS_READ)
      (\<lambda>m. cr_parse (take 1 (m (cr_sel c2h) (take_bit 12 qid))) cr)"
    and "fetches ctx (hw_fmap_conf (soft_access hw rl) qid (Some fm) QDMA_HW_ACCESS_READ)
      (\<lambda>m. fmap_parse (take 2 (m QDMA_CTXT_SEL_FMAP (take_bit 12 qid))) fm)"
    and "fetches ctx (hw_pfetch_ctx_conf (soft_access hw rl) qid (Some pf) QDMA_HW_ACCESS_READ)
      (\<lambda>m. pfetch_parse (take 2 (m QDMA_CTXT_SEL_PFTCH (take_bit 12 qid))) pf)"
    and "fetches ctx (hw_cmpt_ctx_conf (soft_access hw rl) qid (Some cm) QDMA_HW_ACCESS_READ)
      (\<lambda>m. cmpt_parse (take 5 (m QDMA_CTXT_SEL_CMPT (take_bit 12 qid))) cm)"
    and "fetches ctx (hw_indirect_intr_ctx_conf (soft_access hw rl) qid (Some ic) QDMA_HW_ACCESS_READ)
      (\<lambda>m. intr_parse (take 3 (m QDMA_CTXT_SEL_INT_COAL (take_bit 12 qid))) ic)"
  using fetches_ctxt_read [OF e, where n = 5 and parse = sw_parse and qid = qid]
    fetches_ctxt_read [OF e, where n = 2 and parse = hw_parse and qid = qid]
    fetches_ctxt_read [OF e, where n = 1 and parse = cr_parse and qid = qid]
    fetches_ctxt_read [OF e, where n = 2 and parse = fmap_parse and qid = qid]
    fetches_ctxt_read [OF e, where n = 2 and parse = pfetch_parse and qid = qid]
    fetches_ctxt_read [OF e, where n = 5 and parse = cmpt_parse and qid = qid]
    fetches_ctxt_read [OF e, where n = 3 and parse = intr_parse and qid = qid]
  by (simp_all add: soft_access_def fetches_def qdma_sw_ctx_conf_def qdma_sw_context_read_def qdma_hw_ctx_conf_def
      qdma_hw_context_read_def qdma_credit_ctx_conf_def qdma_credit_context_read_def qdma_fmap_conf_def qdma_fmap_read_def
      qdma_pfetch_ctx_conf_def qdma_pfetch_context_read_def qdma_cmpt_ctx_conf_def qdma_cmpt_context_read_def
      qdma_indirect_intr_ctx_conf_def qdma_indirect_intr_context_read_def)

lemma read_field_fetches:
  assumes "fetches ctx f v" and "ctx d = m"
    and "\<And>d1. ctx d1 = m \<Longrightarrow> \<exists>d2. k (put (v m) x) d1 = Some (0, r, d2) \<and> ctx d2 = m"
  shows "\<exists>d2. read_field (f d) put x k = Some (0, r, d2) \<and> ctx d2 = m"
proof -
  obtain d1 where "f d = (QDMA_SUCCESS, Some (v m), d1)" "ctx d1 = m"
    using assms(1,2) unfolding fetches_def by blast
  with assms(3) [of d1] show ?thesis by (simp add: read_field_def)
qed

text \<open>The structure that the stored words of a queue give.\<close>

definition parsed :: "ctx_map \<Rightarrow> u16 \<Rightarrow> u16 \<Rightarrow> bool \<Rightarrow> queue_type_t \<Rightarrow> qdma_descq_context" where
  "parsed m fid k st t =
     (let c2h = q_type_num t; c = descq_zero;
          c = (if t \<noteq> Q_CMPT
               then c\<lparr>sw_ctxt := sw_parse (take 5 (m (sw_sel c2h) k)) sw_zero,
                      hw_ctxt := hw_parse (take 2 (m (hw_sel c2h) k)) hwc_zero,
                      cr_ctxt := cr_parse (take 1 (m (cr_sel c2h) k)) \<lparr>cr_credit = 0\<rparr>,
                      fmap := fmap_parse (take 2 (m QDMA_CTXT_SEL_FMAP (take_bit 12 fid))) fmap_zero\<rparr>
               else c);
          c = (if st \<and> t = Q_C2H then c\<lparr>pfetch_ctxt := pfetch_parse (take 2 (m QDMA_CTXT_SEL_PFTCH k)) pf_zero\<rparr> else c)
      in if has_cmpt_ctxt st t then c\<lparr>cmpt_ctxt := cmpt_parse (take 5 (m QDMA_CTXT_SEL_CMPT k)) cm_zero\<rparr> else c)"

lemma soft_context_read:
  assumes e: "ctxt_engine hw regs ctx" and t: "t \<noteq> Q_H2C_C2H"
  shows "\<exists>d'. qdma_descq_context_read (soft_access hw rl) xdev qid st t d =
    Some (0, parsed (ctx d) (xd_func_id xdev) (take_bit 12 (ucast qid)) st t, d') \<and> ctx d' = ctx d"
proof -
  let ?acc = "soft_access hw rl" and ?k = "take_bit 12 (ucast qid) :: u16"
  define cmpt where "cmpt = (\<lambda>context d. if has_cmpt_ctxt st t
      then read_field (hw_cmpt_ctx_conf ?acc (ucast qid) (Some (cmpt_ctxt context)) QDMA_HW_ACCESS_READ d)
             (\<lambda>c x. x\<lparr>cmpt_ctxt := c\<rparr>) context (\<lambda>context d. Some (0, context, d))
      else Some (0, context, d))"
  define put where "put = (\<lambda>x :: qdma_descq_context. if has_cmpt_ctxt st t
      then x\<lparr>cmpt_ctxt := cmpt_parse (take 5 (ctx d QDMA_CTXT_SEL_CMPT ?k)) (cmpt_ctxt x)\<rparr> else x)"
  note rf = soft_fetches [OF e, where qid = "ucast qid" and rl = rl]
  have cm: "\<exists>d2. cmpt x d1 = Some (0, put x, d2) \<and> ctx d2 = ctx d" if "ctx d1 = ctx d" for x d1
  proof (cases "has_cmpt_ctxt st t")
    case True
    then show ?thesis unfolding cmpt_def put_def
      by (simp only: if_True) (rule read_field_fetches [OF rf(6) that], simp)
  qed (use that in \<open>simp add: cmpt_def put_def\<close>)
  show ?thesis
  proof (cases "t = Q_CMPT")
    case True
    have "qdma_descq_context_read ?acc xdev qid st t d = cmpt descq_zero d"
      using True unfolding cmpt_def by (simp add: qdma_descq_context_read_def Let_def)
    moreover have "parsed (ctx d) (xd_func_id xdev) ?k st t = put descq_zero"
      using True by (simp add: parsed_def put_def descq_zero_def Let_def)
    ultimately show ?thesis using cm [of d descq_zero] by (simp only: refl)
  next
    case False
    note c2h = q_type_small [OF False t]
    have ifs: "\<exists>d2. (if st \<and> q_type_num t \<noteq> 0
        then read_field (hw_pfetch_ctx_conf ?acc (ucast qid) (Some (pfetch_ctxt x)) QDMA_HW_ACCESS_READ d1)
               (\<lambda>c x. x\<lparr>pfetch_ctxt := c\<rparr>) x cmpt
        else cmpt x d1) =
        Some (0, put (if st \<and> t = Q_C2H then y\<lparr>pfetch_ctxt := pfetch_parse (take 2 (ctx d QDMA_CTXT_SEL_PFTCH ?k)) (pfetch_ctxt y)\<rparr> else y), d2)
        \<and> ctx d2 = ctx d" if d1: "ctx d1 = ctx d" and "y = x" for x y d1
    proof (cases "st \<and> t = Q_C2H")
      case True
      then have "st \<and> q_type_num t \<noteq> 0" by simp
      then show ?thesis unfolding \<open>y = x\<close> if_P [OF True] if_P [OF \<open>st \<and> q_type_num t \<noteq> 0\<close>]
        by - (rule read_field_fetches [OF rf(5) d1], rule cm)
    next
      case False
      then have "\<not> (st \<and> q_type_num t \<noteq> 0)" using \<open>t \<noteq> Q_CMPT\<close> t by (cases t) auto
      then show ?thesis unfolding \<open>y = x\<close> using False by (simp only: if_False) (rule cm [OF d1])
    qed
    have "parsed (ctx d) (xd_func_id xdev) ?k st t = put (if st \<and> t = Q_C2H
        then x\<lparr>pfetch_ctxt := pfetch_parse (take 2 (ctx d QDMA_CTXT_SEL_PFTCH ?k)) (pfetch_ctxt x)\<rparr> else x)"
      if "x = descq_zero\<lparr>sw_ctxt := sw_parse (take 5 (ctx d (sw_sel (q_type_num t)) ?k)) sw_zero,
        hw_ctxt := hw_parse (take 2 (ctx d (hw_sel (q_type_num t)) ?k)) hwc_zero,
        cr_ctxt := cr_parse (take 1 (ctx d (cr_sel (q_type_num t)) ?k)) \<lparr>cr_credit = 0\<rparr>,
        fmap := fmap_parse (take 2 (ctx d QDMA_CTXT_SEL_FMAP (take_bit 12 (xd_func_id xdev)))) fmap_zero\<rparr>" for x
      using False that by (simp add: parsed_def put_def descq_zero_def Let_def)
    note p = this [OF refl]
    have "qdma_descq_context_read ?acc xdev qid st t d =
        read_field (hw_sw_ctx_conf ?acc (q_type_num t) (ucast qid) (Some (sw_ctxt descq_zero)) QDMA_HW_ACCESS_READ d)
          (\<lambda>c x. x\<lparr>sw_ctxt := c\<rparr>) descq_zero (\<lambda>x d.
        read_field (hw_hw_ctx_conf ?acc (q_type_num t) (ucast qid) (Some (hw_ctxt x)) QDMA_HW_ACCESS_READ d)
          (\<lambda>c x. x\<lparr>hw_ctxt := c\<rparr>) x (\<lambda>x d.
        read_field (hw_credit_ctx_conf ?acc (q_type_num t) (ucast qid) (Some (cr_ctxt x)) QDMA_HW_ACCESS_READ d)
          (\<lambda>c x. x\<lparr>cr_ctxt := c\<rparr>) x (\<lambda>x d.
        read_field (hw_fmap_conf ?acc (xd_func_id xdev) (Some (fmap x)) QDMA_HW_ACCESS_READ d)
          (\<lambda>c x. x\<lparr>fmap := c\<rparr>) x (\<lambda>x d.
        if st \<and> q_type_num t \<noteq> 0
        then read_field (hw_pfetch_ctx_conf ?acc (ucast qid) (Some (pfetch_ctxt x)) QDMA_HW_ACCESS_READ d)
               (\<lambda>c x. x\<lparr>pfetch_ctxt := c\<rparr>) x cmpt
        else cmpt x d))))"
      using False unfolding cmpt_def by (simp add: qdma_descq_context_read_def Let_def)
    then show ?thesis unfolding p
      by (simp only:) (rule read_field_fetches [OF rf(1) [OF c2h] refl],
        rule read_field_fetches [OF rf(2) [OF c2h]], assumption, rule read_field_fetches [OF rf(3) [OF c2h]], assumption,
        rule read_field_fetches [OF soft_fetches(4) [OF e]], assumption, rule ifs, assumption, simp add: descq_zero_def)
  qed
qed

section \<open>Reading back what was set up\<close>

text \<open>The fields of the configuration are bit fields of these widths.\<close>

definition conf_widths :: "qdma_queue_conf \<Rightarrow> bool" where
  "conf_widths c \<longleftrightarrow>
     list_all (fits_bits 1) [cf_irq_en c, cf_wb_status_en c, cf_cmpl_status_acc_en c, cf_cmpl_status_pend_chk c,
       cf_pfetch_en c, cf_fetch_credit c, cf_cmpl_stat_en c, cf_cmpl_en_intr c, cf_pfetch_bypass c,
       cf_cmpl_ovf_chk_dis c] \<and>
     list_all (fits_bits 4) [cf_desc_rng_sz_idx c, cf_c2h_buf_sz_idx c, cf_cmpl_rng_sz_idx c, cf_cmpl_timer_idx c,
       cf_cmpl_cnt_th_idx c] \<and>
     list_all (fits_bits 2) [cf_cmpl_desc_sz c, cf_sw_desc_sz c] \<and> fits_bits 3 (cf_cmpl_trig_mode c)"

text \<open>The number of the vector or of the interrupt ring of a queue.\<close>

definition queue_vec :: "xlnx_dma_dev \<Rightarrow> ctx_descq \<Rightarrow> u32" where
  "queue_vec xdev q = (if aggr_mode xdev then get_intr_ring_index xdev (cq_intr_id q) else cq_intr_id q)"

lemma fits_bits_consts [simp]: "fits_bits k (0 :: 'a::len word)" "fits_bits 1 (1 :: u8)" "fits_bits 1 (of_bool b :: u8)"
  "fits_bits 3 (7 :: u8)" "fits_bits 2 (3 :: u8)" "fits_bits 2 (2 :: u8)" "fits_bits 2 (1 :: u8)"
  "fits_bits (Suc 0) (1 :: u8)" "fits_bits (Suc 0) (of_bool b :: u8)"
  by (simp_all add: fits_bits_def take_bit_eq_mask mask_eq_exp_minus_1)

text \<open>What the words of the software context keep: the field \<^verbatim>\<open>is_mm\<close>, which the code sets to the complement
  of a bit, is cut to one bit, and the soft IP has no host id.\<close>

definition stored_sw :: "xlnx_dma_dev \<Rightarrow> ctx_descq \<Rightarrow> qdma_descq_sw_ctxt" where
  "stored_sw xdev q = (make_sw_context xdev q)\<lparr>sw_is_mm := of_bool (\<not> cf_st (cq_conf q)), sw_host_id := 0\<rparr>"

lemma make_sw_context_fields:
  "sw_is_mm (make_sw_context xdev q) = NOT (of_bool (cf_st (cq_conf q)))"
  "sw_vec (make_sw_context xdev q) = ucast (queue_vec xdev q)"
  "sw_intr_aggr (make_sw_context xdev q) = of_bool (aggr_mode xdev)"
  by (simp_all add: make_sw_context_def Let_def queue_vec_def sw_zero_def)

lemma stored_sw_words: "sw_words (stored_sw xdev q) = sw_words (make_sw_context xdev q)"
proof -
  have "FIELD_SET (BIT 31 :: u32) (ucast (NOT (of_bool True) :: u8)) = FIELD_SET (BIT 31) (ucast (of_bool (\<not> True) :: u8))"
    "FIELD_SET (BIT 31 :: u32) (ucast (NOT (of_bool False) :: u8)) = FIELD_SET (BIT 31) (ucast (of_bool (\<not> False) :: u8))"
    by code_simp+
  then have "FIELD_SET (BIT 31 :: u32) (ucast (NOT (of_bool b) :: u8)) = FIELD_SET (BIT 31) (ucast (of_bool (\<not> b) :: u8))" for b
    by (cases b) (simp_all only:)
  then show ?thesis by (simp add: stored_sw_def sw_words_def make_sw_context_fields)
qed

lemma stored_sw_fits:
  assumes "conf_widths (cq_conf q)" and "fits_bits 1 (cq_channel q)" and "fits_bits 11 (ucast (queue_vec xdev q) :: u16)"
  shows "sw_fits (stored_sw xdev q) sw_zero"
  using assms unfolding sw_fits_def stored_sw_def
  by (simp add: conf_widths_def make_sw_context_fields)
    (simp add: make_sw_context_def Let_def sw_zero_def)

lemma parsed_set_up:
  assumes t: "t = cf_q_type (cq_conf q)" "t \<noteq> Q_H2C_C2H" and st: "st = cf_st (cq_conf q)"
    and w: "conf_widths (cq_conf q)" "fits_bits 1 (cq_channel q)" "fits_bits 11 (ucast (queue_vec xdev q) :: u16)"
    and al: "page_aligned (cq_desc_cmpt_bus q)"
  shows "t \<noteq> Q_CMPT \<Longrightarrow> sw_parse (take 5 (ctxt_data (sw_words (make_sw_context xdev q)))) sw_zero = stored_sw xdev q"
    and "hw_parse (take 2 (replicate 8 0)) hwc_zero = hwc_zero" and "cr_parse (take 1 (replicate 8 0)) \<lparr>cr_credit = 0\<rparr> = \<lparr>cr_credit = 0\<rparr>"
    and "pfetch_parse (take 2 (ctxt_data (pfetch_words (make_prefetch_context q)))) pf_zero = make_prefetch_context q"
    and "cmpt_parse (take 5 (ctxt_data (cmpt_words (make_cmpt_context xdev q)))) cm_zero = make_cmpt_context xdev q"
proof -
  have "take 5 (ctxt_data (sw_words c)) = sw_words c" for c
    using ctxt_data_take [of "sw_words c"] sw_codec.words_length [of c] by simp
  then show "sw_parse (take 5 (ctxt_data (sw_words (make_sw_context xdev q)))) sw_zero = stored_sw xdev q"
    using sw_codec.parse_words [OF stored_sw_fits [OF w]] by (simp add: stored_sw_words)
  show "hw_parse (take 2 (replicate 8 0)) hwc_zero = hwc_zero" "cr_parse (take 1 (replicate 8 0)) \<lparr>cr_credit = 0\<rparr> = \<lparr>cr_credit = 0\<rparr>"
    by (simp_all add: hw_parse_def cr_parse_def hwc_zero_def)
  have "pfetch_fits (make_prefetch_context q) pf_zero"
    using w(1) by (simp add: pfetch_fits_def make_prefetch_context_def pf_zero_def conf_widths_def)
  moreover have "take 2 (ctxt_data (pfetch_words c)) = pfetch_words c" for c
    using ctxt_data_take [of "pfetch_words c"] pfetch_codec.words_length [of c] by simp
  ultimately show "pfetch_parse (take 2 (ctxt_data (pfetch_words (make_prefetch_context q)))) pf_zero = make_prefetch_context q"
    by (simp add: pfetch_codec.parse_words)
  have "cmpt_fits (make_cmpt_context xdev q) cm_zero"
    using w al by (cases "aggr_mode xdev") (simp_all add: cmpt_fits_def make_cmpt_context_def cm_zero_def conf_widths_def queue_vec_def Let_def)
  moreover have "take 5 (ctxt_data (cmpt_words c)) = cmpt_words c" for c
    using ctxt_data_take [of "cmpt_words c"] cmpt_codec.words_length [of c] by simp
  ultimately show "cmpt_parse (take 5 (ctxt_data (cmpt_words (make_cmpt_context xdev q)))) cm_zero = make_cmpt_context xdev q"
    by (simp add: cmpt_codec.parse_words)
qed

text \<open>C10: The contexts of a started queue are read back.  On the soft IP, setting up a queue and then
  reading its contexts gives the contexts that were made from the configuration, the hardware and credit
  contexts empty, if the vector fits its field of eleven bits and the completion ring is page aligned; of the
  software context, \<^verbatim>\<open>is_mm\<close> comes back as one bit and the host id, which the IP does not have, as zero.\<close>

theorem context_setup_read_back:
  assumes e: "ctxt_engine hw regs ctx" and t: "t = cf_q_type (cq_conf q)" "t \<noteq> Q_H2C_C2H"
    and st: "st = cf_st (cq_conf q)" and q2v: "\<not> xd_qid2vec_ctx xdev"
    and trig: "cf_cmpl_trig_mode (cq_conf q) \<le> QDMA_CMPT_UPDATE_TRIG_MODE_TMR_CNTR"
    and w: "conf_widths (cq_conf q)" "fits_bits 1 (cq_channel q)" "fits_bits 11 (ucast (queue_vec xdev q) :: u16)"
    and al: "page_aligned (cq_desc_cmpt_bus q)"
  shows "\<exists>d1 c d2. qdma_descq_context_setup (soft_access hw rl) qv xdev q d = Some (0, d1) \<and>
    qdma_descq_context_read (soft_access hw rl) xdev (cq_qidx_hw q) st t d1 = Some (0, c, d2) \<and>
    (t \<noteq> Q_CMPT \<longrightarrow>
       sw_ctxt c = (make_sw_context xdev q)\<lparr>sw_is_mm := of_bool (\<not> st), sw_host_id := 0\<rparr> \<and>
       hw_ctxt c = hwc_zero \<and> cr_ctxt c = \<lparr>cr_credit = 0\<rparr>) \<and>
    (st \<and> t = Q_C2H \<longrightarrow> pfetch_ctxt c = make_prefetch_context q) \<and>
    (has_cmpt_ctxt st t \<longrightarrow> cmpt_ctxt c = make_cmpt_context xdev q)"
proof -
  let ?k = "take_bit 12 (ucast (cq_qidx_hw q)) :: u16"
  obtain d1 where d1: "qdma_descq_context_setup (soft_access hw rl) qv xdev q d = Some (0, d1)"
      "ctx d1 = set_up (made_context xdev q) st t ?k (ctx d)"
    using setup_returns [OF e t(2) [unfolded t(1)] q2v trig, where rl = rl and qv = qv]
    unfolding returns_def t(1) st by blast
  define c where "c = parsed (ctx d1) (xd_func_id xdev) ?k st t"
  obtain d2 where d2: "qdma_descq_context_read (soft_access hw rl) xdev (cq_qidx_hw q) st t d1 = Some (0, c, d2)"
    using soft_context_read [OF e t(2), where d = d1] unfolding c_def by blast
  note p = parsed_set_up [OF t st w al]
  note s = set_up_simps [OF t(2)] and m = made_context_simps [of q xdev, folded t(1) st]
  have f: "t \<noteq> Q_CMPT \<Longrightarrow> sw_ctxt c = sw_parse (take 5 (ctx d1 (sw_sel (q_type_num t)) ?k)) sw_zero"
    "t \<noteq> Q_CMPT \<Longrightarrow> hw_ctxt c = hw_parse (take 2 (ctx d1 (hw_sel (q_type_num t)) ?k)) hwc_zero"
    "t \<noteq> Q_CMPT \<Longrightarrow> cr_ctxt c = cr_parse (take 1 (ctx d1 (cr_sel (q_type_num t)) ?k)) \<lparr>cr_credit = 0\<rparr>"
    "st \<Longrightarrow> t = Q_C2H \<Longrightarrow> pfetch_ctxt c = pfetch_parse (take 2 (ctx d1 QDMA_CTXT_SEL_PFTCH ?k)) pf_zero"
    "has_cmpt_ctxt st t \<Longrightarrow> cmpt_ctxt c = cmpt_parse (take 5 (ctx d1 QDMA_CTXT_SEL_CMPT ?k)) cm_zero"
    by (simp_all add: c_def parsed_def Let_def)
  have "sw_ctxt c = stored_sw xdev q \<and> hw_ctxt c = hwc_zero \<and> cr_ctxt c = \<lparr>cr_credit = 0\<rparr>" if "t \<noteq> Q_CMPT"
    unfolding f(1-3) [OF that] d1(2) s(1-3) [OF that] m(1) [OF that] p(1) [OF that] p(2,3) by simp
  moreover have "pfetch_ctxt c = make_prefetch_context q" if "st" "t = Q_C2H"
    unfolding f(4) [OF that] d1(2) s(4) [OF that] m(2) [OF that] p(4) ..
  moreover have "cmpt_ctxt c = make_cmpt_context xdev q" if "has_cmpt_ctxt st t"
    unfolding f(5) [OF that] d1(2) s(5) [OF that] m(3) [OF that] p(5) ..
  ultimately show ?thesis using d1(1) d2 unfolding stored_sw_def st by blast
qed

section \<open>Queues of a virtual function\<close>

text \<open>Sending a message when the mailbox carries it to the handler of the physical function and the reply
  back: the state is the one of the resource manager and of the device.\<close>

definition via_pf :: "'s qdma_hw_access \<Rightarrow> u8 \<Rightarrow> u16 \<Rightarrow> (rm_state \<times> 's) msg_send" where
  "via_pf acc idx func_id m s =
     (case qdma_mbox_pf_rcv_msg_handler acc idx func_id (Some m) msg_zero (fst s) (snd s) of
        Some (rv, resp, rm, d) \<Rightarrow> (0, resp, (rm, d))
      | None \<Rightarrow> (- EBUSY, m, s))"

text \<open>The request that the virtual function sends, as the handler sees it.\<close>

definition vf_request :: "xlnx_dma_dev \<Rightarrow> ctx_descq \<Rightarrow> mbox_msg_qctxt" where
  "vf_request xdev q =
     \<lparr>qc_qid_hw = ucast (cq_qidx_hw q), qc_st = of_bool (cf_st (cq_conf q)),
      qc_c2h = ucast (q_type_num (cf_q_type (cq_conf q))),
      cmpt_ctxt_type = vf_cmpt_ctxt_type (cf_st (cq_conf q)) (cf_q_type (cq_conf q)),
      descq_conf = vf_descq_conf xdev q, descq_ctxt = descq_ctxt (m_qctxt msg_zero)\<rparr>"

lemma ucast_down_up: "ucast (ucast (x :: 'a::len word) :: 'b::len word) = take_bit LENGTH('b) x"
  by (rule bit_eqI) (auto simp: bit_ucast_iff bit_take_bit_iff)

lemma ucast_fits:
  fixes x :: u8
  shows "fits_bits 1 x \<Longrightarrow> ucast (ucast x :: 1 word) = x" and "fits_bits 2 x \<Longrightarrow> ucast (ucast x :: 2 word) = x"
    and "fits_bits 3 x \<Longrightarrow> ucast (ucast x :: 3 word) = x"
  by (simp_all add: ucast_down_up fits_bits_def)

lemma ucast_vec:
  fixes v :: u32
  assumes "fits_bits 11 (ucast v :: u16)"
  shows "ucast (ucast v :: 11 word) = (ucast v :: u16)" and "ucast (ucast (v AND 0xFFF) :: 11 word) = (ucast v :: u16)"
proof -
  have m: "(0xFFF :: u32) = mask 12" by (simp add: mask_eq_exp_minus_1)
  have "ucast (ucast v :: 11 word) = take_bit 11 (ucast v :: u16)"
    "ucast (ucast (v AND 0xFFF) :: 11 word) = take_bit 11 (ucast v :: u16)"
    unfolding m by (rule bit_eqI; auto simp: bit_ucast_iff bit_take_bit_iff bit_and_iff bit_mask_iff)+
  then show "ucast (ucast v :: 11 word) = (ucast v :: u16)" "ucast (ucast (v AND 0xFFF) :: 11 word) = (ucast v :: u16)"
    using assms by (simp_all add: fits_bits_def)
qed

text \<open>The contexts that the handler composes, compared with those of the physical function.\<close>

lemma make_sw_fields:
  fixes xdev q
  defines "c \<equiv> cq_conf q" and "sw \<equiv> make_sw_context xdev q"
  shows "sw_ring_bs_addr sw = cq_desc_bus q" and "sw_pidx sw = 0" and "sw_at sw = 0" and "sw_port_id sw = 0"
    and "sw_irq_no_last sw = 0" and "sw_err sw = 0" and "sw_err_wb_sent sw = 0" and "sw_irq_req sw = 0"
    and "sw_pasid_en sw = 0" and "sw_dis_intr_on_vf sw = 0" and "sw_virtio_en sw = 0" and "sw_pack_byp_out sw = 0"
    and "sw_irq_byp sw = 0" and "sw_pasid sw = 0" and "sw_virtio_dsc_base sw = 0" and "sw_qen sw = 1"
    and "sw_irq_arm sw = (if is_st_c2h c then 0 else cf_irq_en c)"
    and "sw_irq_en sw = (if is_st_c2h c then 0 else cf_irq_en c)"
    and "sw_wbk_en sw = (if is_st_c2h c then 0 else cf_wb_status_en c)"
    and "sw_wbi_chk sw = (if is_st_c2h c then 0 else cf_cmpl_status_pend_chk c)"
    and "sw_wbi_intvl_en sw = cf_cmpl_status_acc_en c" and "sw_bypass sw = of_bool (cf_desc_bypass c)"
    and "sw_fnc_id sw = ucast (xd_func_id xdev)"
    and "sw_desc_sz sw = (if cf_desc_bypass c \<and> cf_sw_desc_sz c = 3 then 3 else if \<not> cf_st c then 2
          else if cf_q_type c = Q_C2H then 0 else 1)"
    and "sw_frcd_en sw = (if \<not> (cf_desc_bypass c \<and> cf_sw_desc_sz c = 3) \<and> cf_st c \<and>
          (cf_q_type c = Q_C2H \<or> cf_q_type c = Q_H2C) then cf_fetch_credit c else 0)"
  by (auto simp: assms make_sw_context_def Let_def sw_zero_def is_st_c2h_def)

lemma vf_request_conf:
  fixes xdev q
  defines "c \<equiv> cq_conf q" and "dc \<equiv> vf_descq_conf xdev q"
  assumes w: "conf_widths (cq_conf q)" and v: "fits_bits 11 (ucast (queue_vec xdev q) :: u16)"
    and t: "cf_q_type (cq_conf q) = Q_H2C \<or> cf_q_type (cq_conf q) = Q_C2H"
  shows "ucast (dc_intr_id dc) = (ucast (queue_vec xdev q) :: u16)" and "ucast (dc_intr_aggr dc) = (of_bool (aggr_mode xdev) :: u8)"
    and "dc_ring_bs_addr dc = cq_desc_bus q" and "ucast (dc_wbi_chk dc) = cf_cmpl_status_pend_chk c"
    and "ucast (dc_wbi_intvl_en dc) = cf_cmpl_status_acc_en c" and "ucast (dc_en_bypass dc) = (of_bool (cf_desc_bypass c) :: u8)"
    and "ucast (dc_wbk_en dc) = cf_wb_status_en c" and "ucast (dc_irq_en dc) = cf_irq_en c" and "ucast (dc_irq_arm dc) = cf_irq_en c"
    and "dc_func_id dc = xd_func_id xdev"
    and "ucast (dc_desc_sz dc) = (if cf_desc_bypass c \<and> cf_sw_desc_sz c = 3 then 3 else if \<not> cf_st c then 2
          else if cf_q_type c = Q_C2H then 0 else (1 :: u8))"
    and "ucast (dc_forced_en dc) = (if \<not> (cf_desc_bypass c \<and> cf_sw_desc_sz c = 3) \<and> cf_st c \<and> cf_q_type c = Q_C2H
          then cf_fetch_credit c else 0)"
    and "ucast (dc_pfch_en dc) = cf_pfetch_en c" and "ucast (dc_en_bypass_prefetch dc) = cf_pfetch_bypass c"
    and "dc_cmpt_ring_bs_addr dc = cq_desc_cmpt_bus q" and "ucast (dc_cmpl_stat_en dc) = cf_cmpl_stat_en c"
    and "ucast (dc_cmpt_int_en dc) = cf_cmpl_en_intr c" and "ucast (dc_triggermode dc) = cf_cmpl_trig_mode c"
    and "ucast (dc_cmpt_desc_sz dc) = cf_cmpl_desc_sz c" and "ucast (dc_dis_overflow_check dc) = cf_cmpl_ovf_chk_dis c"
proof -
  have vec: "ucast (dc_intr_id dc) = (ucast (queue_vec xdev q) :: u16)"
    using ucast_vec [OF v] by (cases "aggr_mode xdev") (simp_all add: assms(2) vf_descq_conf_def Let_def queue_vec_def)
  then show "ucast (dc_intr_id dc) = (ucast (queue_vec xdev q) :: u16)" .
  have bits: "(ucast (of_bool b :: 1 word) :: u8) = of_bool b" for b by (cases b) simp_all
  have "(ucast (ucast (x :: u8) :: 1 word) :: u8) = x" if "fits_bits (Suc 0) x" for x
    using ucast_fits(1) [of x] that by simp
  note u = this ucast_fits(2,3) bits
  show "ucast (dc_intr_aggr dc) = (of_bool (aggr_mode xdev) :: u8)" "dc_ring_bs_addr dc = cq_desc_bus q"
    "ucast (dc_wbi_chk dc) = cf_cmpl_status_pend_chk c" "ucast (dc_wbi_intvl_en dc) = cf_cmpl_status_acc_en c"
    "ucast (dc_en_bypass dc) = (of_bool (cf_desc_bypass c) :: u8)" "ucast (dc_wbk_en dc) = cf_wb_status_en c"
    "ucast (dc_irq_en dc) = cf_irq_en c" "ucast (dc_irq_arm dc) = cf_irq_en c" "dc_func_id dc = xd_func_id xdev"
    "ucast (dc_pfch_en dc) = cf_pfetch_en c" "ucast (dc_en_bypass_prefetch dc) = cf_pfetch_bypass c"
    "dc_cmpt_ring_bs_addr dc = cq_desc_cmpt_bus q" "ucast (dc_cmpl_stat_en dc) = cf_cmpl_stat_en c"
    "ucast (dc_cmpt_int_en dc) = cf_cmpl_en_intr c" "ucast (dc_triggermode dc) = cf_cmpl_trig_mode c"
    "ucast (dc_cmpt_desc_sz dc) = cf_cmpl_desc_sz c" "ucast (dc_dis_overflow_check dc) = cf_cmpl_ovf_chk_dis c"
    using w by (simp_all add: assms(1,2) vf_descq_conf_def Let_def conf_widths_def u conf_zero_def)
  show "ucast (dc_desc_sz dc) = (if cf_desc_bypass c \<and> cf_sw_desc_sz c = 3 then 3 else if \<not> cf_st c then 2
      else if cf_q_type c = Q_C2H then 0 else (1 :: u8))"
    "ucast (dc_forced_en dc) = (if \<not> (cf_desc_bypass c \<and> cf_sw_desc_sz c = 3) \<and> cf_st c \<and> cf_q_type c = Q_C2H
      then cf_fetch_credit c else 0)"
    using t w by (auto simp: assms(1,2) vf_descq_conf_def Let_def conf_widths_def u conf_zero_def)
qed

lemma vf_sw_context:
  assumes w: "conf_widths (cq_conf q)" and v: "fits_bits 11 (ucast (queue_vec xdev q) :: u16)"
    and t: "cf_q_type (cq_conf q) = Q_H2C \<or> cf_q_type (cq_conf q) = Q_C2H"
  shows "sw_of_conf (vf_request xdev q) i sw_zero =
    (make_sw_context xdev q)\<lparr>sw_rngsz_idx := of_nat i, sw_fetch_max := 0, sw_mrkr_dis := 0, sw_mm_chn := 0, sw_host_id := 0,
      sw_frcd_en := (if cf_q_type (cq_conf q) = Q_H2C then 0 else sw_frcd_en (make_sw_context xdev q))\<rparr>"
proof -
  note f = vf_request_conf [OF w v t]
  have st: "qc_st (vf_request xdev q) \<noteq> 0 \<and> qc_c2h (vf_request xdev q) \<noteq> 0 \<longleftrightarrow> is_st_c2h (cq_conf q)"
    using t by (auto simp: vf_request_def is_st_c2h_def)
  have mm: "NOT (ucast (qc_st (vf_request xdev q))) = (NOT (of_bool (cf_st (cq_conf q))) :: u8)"
    by (cases "cf_st (cq_conf q)") (simp_all add: vf_request_def)
  have conf: "descq_conf (vf_request xdev q) = vf_descq_conf xdev q" by (simp add: vf_request_def)
  show ?thesis
    by (rule qdma_descq_sw_ctxt.equality)
      (use t in \<open>auto simp: sw_of_conf_def Let_def st mm conf f make_sw_fields make_sw_context_fields sw_zero_def\<close>)
qed

lemma vf_prefetch_context:
  assumes "conf_widths (cq_conf q)" and "fits_bits 11 (ucast (queue_vec xdev q) :: u16)"
    and "cf_q_type (cq_conf q) = Q_H2C \<or> cf_q_type (cq_conf q) = Q_C2H"
  shows "pf_of_conf (vf_descq_conf xdev q) i pf_zero = (make_prefetch_context q)\<lparr>pf_bufsz_idx := of_nat i\<rparr>"
  by (simp add: pf_of_conf_def make_prefetch_context_def vf_request_conf [OF assms])

lemma vf_cmpt_context:
  assumes "conf_widths (cq_conf q)" and "fits_bits 11 (ucast (queue_vec xdev q) :: u16)"
    and "cf_q_type (cq_conf q) = Q_H2C \<or> cf_q_type (cq_conf q) = Q_C2H"
  shows "cm_of_conf (vf_descq_conf xdev q) a b r cm_zero = (make_cmpt_context xdev q)\<lparr>cm_counter_idx := of_nat a,
    cm_timer_idx := of_nat b, cm_ringsz_idx := of_nat r, cm_full_upd := 0\<rparr>"
  by (cases "aggr_mode xdev")
    (simp_all add: cm_of_conf_def make_cmpt_context_def Let_def queue_vec_def vf_request_conf [OF assms] cm_zero_def)

text \<open>C9: A virtual function gets the contexts that the physical function would make.  When a queue of a
  virtual function is set up, the request travels through the mailbox to the handler of the physical
  function, which looks the sizes up in the configuration of the device and programs the contexts.  The
  software, prefetch and completion contexts stored for the queue are those that
  \<^verbatim>\<open>make_sw_context\<close>, \<^verbatim>\<open>make_prefetch_context\<close> and \<^verbatim>\<open>make_cmpt_context\<close> make on a physical function, with the
  indices found for the sizes, except for the fields that the message does not carry: the fetch limit, the
  marker and channel bits, the fetch credit of host-to-card queues and the full update bit are zero.  No
  context of another queue changes.\<close>

theorem vf_context_setup_like_pf:
  assumes e: "ctxt_engine hw regs ctx" and plain: "plain_regs hw regs (attr_addrs \<union> csr_addrs)"
    and t: "t = cf_q_type (cq_conf q)" "t = Q_H2C \<or> t = Q_C2H" and st: "st = cf_st (cq_conf q)"
    and w: "conf_widths (cq_conf q)" "fits_bits 11 (ucast (queue_vec xdev q) :: u16)"
    and r: "queue_in_range rm idx (xd_func_id xdev) (ucast (cq_qidx_hw q))"
    and sizes: "sizes_configured (regs d) (vf_request xdev q) i" and k: "k = take_bit 12 (ucast (cq_qidx_hw q))"
  shows "\<exists>d'. qdma_descq_context_setup_vf True (via_pf (soft_access hw rl) idx pf_id) xdev q (rm, d) = (0, (rm, d')) \<and>
    ctx d' (sw_sel (q_type_num t)) k = ctxt_data (sw_words ((make_sw_context xdev q)
      \<lparr>sw_rngsz_idx := of_nat (i_ring i), sw_fetch_max := 0, sw_mrkr_dis := 0, sw_mm_chn := 0, sw_host_id := 0,
       sw_frcd_en := (if t = Q_H2C then 0 else sw_frcd_en (make_sw_context xdev q))\<rparr>)) \<and>
    (st \<and> t = Q_C2H \<longrightarrow>
       ctx d' QDMA_CTXT_SEL_PFTCH k = ctxt_data (pfetch_words ((make_prefetch_context q)\<lparr>pf_bufsz_idx := of_nat (i_buf i)\<rparr>)) \<and>
       ctx d' QDMA_CTXT_SEL_CMPT k = ctxt_data (cmpt_words ((make_cmpt_context xdev q)
         \<lparr>cm_counter_idx := of_nat (i_cntr i), cm_timer_idx := of_nat (i_tmr i), cm_ringsz_idx := of_nat (i_cmpt_ring i),
          cm_full_upd := 0\<rparr>))) \<and>
    (\<forall>sel k2. k2 \<noteq> k \<longrightarrow> ctx d' sel k2 = ctx d sel k2)"
proof -
  define m where "m = the (snd (qdma_mbox_compose_vf_qctxt_write (xd_func_id xdev) (ucast (cq_qidx_hw q))
      (of_bool st) (q_type_num t) (vf_cmpt_ctxt_type st t) (vf_descq_conf xdev q) (Some msg_zero)))"
  have comp: "snd (qdma_mbox_compose_vf_qctxt_write (xd_func_id xdev) (ucast (cq_qidx_hw q))
      (of_bool st) (q_type_num t) (vf_cmpt_ctxt_type st t) (vf_descq_conf xdev q) (Some msg_zero)) = Some m"
    by (simp add: m_def qdma_mbox_compose_vf_qctxt_write_def compose_def)
  have h: "hdr_op (hdr m) = MBOX_OP_QCTXT_WRT" "src_func_id (hdr m) = xd_func_id xdev"
    by (simp_all add: m_def qdma_mbox_compose_vf_qctxt_write_def compose_def put_qctxt_def put_hdr_def Let_def)
  have "m_qctxt m = vf_request xdev q"
    by (rule mbox_msg_qctxt.equality) (simp_all add: m_def qdma_mbox_compose_vf_qctxt_write_def compose_def
        put_qctxt_def put_hdr_def Let_def vf_request_def t(1) st)
  moreover have t': "cf_q_type (cq_conf q) = Q_H2C \<or> cf_q_type (cq_conf q) = Q_C2H" using t by simp
  then have "dc_func_id (vf_descq_conf xdev q) = xd_func_id xdev" by (rule vf_request_conf(10) [OF w])
  ultimately have q: "vf_request xdev q =
      (m_qctxt m)\<lparr>descq_conf := (descq_conf (m_qctxt m))\<lparr>dc_func_id := src_func_id (hdr m)\<rparr>\<rparr>"
    using h(2) by (simp add: vf_request_def)
  have r': "queue_in_range rm idx (src_func_id (hdr m)) (qc_qid_hw (vf_request xdev q))"
    using r h(2) by (simp add: vf_request_def)
  have ct: "cmpt_ctxt_type (vf_request xdev q) \<noteq> QDMA_MBOX_CMPT_CTXT_ONLY"
    using t' by (auto simp: vf_request_def vf_cmpt_ctxt_type_def)
  have k': "k = take_bit 12 (qc_qid_hw (vf_request xdev q))" by (simp add: vf_request_def k)
  have c2h: "q_type_num t = ucast (qc_c2h (vf_request xdev q))" using t by (auto simp: vf_request_def)
  obtain resp' d' where hd: "qdma_mbox_pf_rcv_msg_handler (soft_access hw rl) idx pf_id (Some m) msg_zero rm d
      = Some (0, resp', rm, d')" "qdma_mbox_vf_response_status resp' = QDMA_SUCCESS"
    and ctx: "ctx d' = written (vf_request xdev q) i (ctx d)"
    using write_request_handled [OF e plain h(1) q r' ct sizes, where rl = rl and resp = msg_zero and func_id = pf_id] by blast
  note ws = written_simps [where q = "vf_request xdev q" and i = i, folded c2h k']
  have "qdma_descq_context_setup_vf True (via_pf (soft_access hw rl) idx pf_id) xdev q (rm, d) = (0, (rm, d'))"
    using hd comp by (simp add: qdma_descq_context_setup_vf_def send_for_status_def via_pf_def t(1) st Let_def)
  moreover have conf: "descq_conf (vf_request xdev q) = vf_descq_conf xdev q" by (simp add: vf_request_def)
  have "wants_pfetch (vf_request xdev q)" "with_cmpt (cmpt_ctxt_type (vf_request xdev q))" if "st \<and> t = Q_C2H"
    using that t st by (simp_all add: wants_pfetch_def vf_request_def with_cmpt_def vf_cmpt_ctxt_type_def)
  note pf = ws(4) [OF this(1), unfolded conf vf_prefetch_context [OF w t']] and cm = ws(5) [OF this(2), unfolded conf vf_cmpt_context [OF w t']]
  note sw = ws(1) [unfolded vf_sw_context [OF w t'], folded t(1)]
  ultimately show ?thesis using pf cm sw ws(6) [OF disjI1] by (intro exI [of _ d'] conjI impI allI) (simp_all only: ctx)
qed

section \<open>Example\<close>

definition ctx_xdev :: xlnx_dma_dev where
  "ctx_xdev = \<lparr>xd_drv_mode = AUTO_MODE, xd_intr_rngsz = 0, xd_func_id = 5, xd_dvec_start_idx = 2,
     xd_intr_coal_list = [], xd_qid2vec_ctx = False, xd_c2h_cnt_th = [2, 4, 8, 16, 24, 32, 48, 64, 80, 96, 112, 128, 144, 160, 176, 192],
     xd_c2h_timer_cnt = [1, 2, 4, 5, 8, 10, 15, 20, 25, 30, 50, 75, 100, 125, 150, 200]\<rparr>"

definition ctx_queue :: ctx_descq where
  "ctx_queue = \<lparr>cq_conf = \<lparr>cf_qidx = 2, cf_st = True, cf_q_type = Q_C2H, cf_irq_en = 1, cf_desc_rng_sz_idx = 1,
       cf_wb_status_en = 1, cf_cmpl_status_acc_en = 1, cf_cmpl_status_pend_chk = 1, cf_desc_bypass = False,
       cf_pfetch_en = 1, cf_fetch_credit = 1, cf_c2h_buf_sz_idx = 0, cf_cmpl_rng_sz_idx = 0, cf_cmpl_desc_sz = 1,
       cf_cmpl_stat_en = 1, cf_cmpl_udd_en = False, cf_cmpl_timer_idx = 0, cf_cmpl_cnt_th_idx = 0, cf_cmpl_trig_mode = 1,
       cf_cmpl_en_intr = 1, cf_sw_desc_sz = 0, cf_pfetch_bypass = 0, cf_cmpl_ovf_chk_dis = 0, cf_port_id = 0,
       cf_adaptive_rx = True, cf_latency_optimize = False, cf_init_pidx_dis = False, cf_mm_channel = 0, cf_pidx_acc = 8,
       cf_fp_c2h_packet = False, cf_rngsz = 64, cf_rngsz_cmpt = 2048, cf_c2h_bufsz = 4096, cf_aperture_size = 0\<rparr>,
     cq_at = 0, cq_channel = 0, cq_intr_id = 2, cq_desc_bus = 0x12345678000, cq_desc_cmpt_bus = 0x87654321000,
     cq_qidx_hw = 2\<rparr>"

theorem context_setup_programs_witness:
  "\<exists>d'. qdma_descq_context_setup (soft_access engine_hw (\<lambda>_ _ s. (0, 0, [], s))) (\<lambda>_ _ _ s. s) ctx_xdev ctx_queue write_engine
      = Some (0, d') \<and>
    engine_ctx d' QDMA_CTXT_SEL_CMPT 2 = ctxt_data (cmpt_words (make_cmpt_context ctx_xdev ctx_queue)) \<and>
    engine_ctx d' QDMA_CTXT_SEL_SW_H2C 2 = engine_ctx write_engine QDMA_CTXT_SEL_SW_H2C 2"
proof -
  have "Q_C2H = cf_q_type (cq_conf ctx_queue)" "True = cf_st (cq_conf ctx_queue)" "\<not> xd_qid2vec_ctx ctx_xdev"
    "cf_cmpl_trig_mode (cq_conf ctx_queue) \<le> QDMA_CMPT_UPDATE_TRIG_MODE_TMR_CNTR"
    "2 = (take_bit 12 (ucast (cq_qidx_hw ctx_queue)) :: u16)"
    by (simp_all add: ctx_queue_def ctx_xdev_def)
  from context_setup_programs [OF engine_ok this(1) _ this(2-5), of "\<lambda>_ _ s. (0, 0, [], s)" "\<lambda>_ _ _ s. s" write_engine]
  show ?thesis by (auto simp: has_cmpt_ctxt_def owns_sel_def sw_sel_def hw_sel_def cr_sel_def)
qed

theorem context_setup_read_back_witness:
  "\<exists>d1 c d2. qdma_descq_context_setup (soft_access engine_hw (\<lambda>_ _ s. (0, 0, [], s))) (\<lambda>_ _ _ s. s) ctx_xdev ctx_queue engine0
      = Some (0, d1) \<and>
    qdma_descq_context_read (soft_access engine_hw (\<lambda>_ _ s. (0, 0, [], s))) ctx_xdev 2 True Q_C2H d1 = Some (0, c, d2) \<and>
    pfetch_ctxt c = make_prefetch_context ctx_queue \<and> cmpt_ctxt c = make_cmpt_context ctx_xdev ctx_queue"
proof -
  have "Q_C2H = cf_q_type (cq_conf ctx_queue)" "True = cf_st (cq_conf ctx_queue)" "\<not> xd_qid2vec_ctx ctx_xdev"
    "cf_cmpl_trig_mode (cq_conf ctx_queue) \<le> QDMA_CMPT_UPDATE_TRIG_MODE_TMR_CNTR" and q: "cq_qidx_hw ctx_queue = 2"
    by (simp_all add: ctx_queue_def ctx_xdev_def)
  moreover have "conf_widths (cq_conf ctx_queue)" "fits_bits 1 (cq_channel ctx_queue)"
    "fits_bits 11 (ucast (queue_vec ctx_xdev ctx_queue) :: u16)" "page_aligned (cq_desc_cmpt_bus ctx_queue)"
    by code_simp+
  ultimately show ?thesis
    using context_setup_read_back [OF engine_ok, of Q_C2H ctx_queue True ctx_xdev "\<lambda>_ _ s. (0, 0, [], s)" "\<lambda>_ _ _ s. s" engine0]
    by (auto simp: has_cmpt_ctxt_def q)
qed

theorem vf_context_setup_like_pf_witness:
  "\<exists>d'. qdma_descq_context_setup_vf True (via_pf (soft_access engine_hw (\<lambda>_ _ s. (0, 0, [], s))) 0 4) ctx_xdev ctx_queue
      (demo_two, write_engine) = (0, (demo_two, d')) \<and>
    engine_ctx d' QDMA_CTXT_SEL_PFTCH 2 = ctxt_data (pfetch_words (make_prefetch_context ctx_queue)) \<and>
    (\<forall>sel. engine_ctx d' sel 1 = engine_ctx write_engine sel 1)"
proof -
  let ?i = "\<lparr>i_ring = 1, i_buf = 0, i_cntr = 0, i_tmr = 0, i_cmpt_ring = 0\<rparr>"
  have t: "Q_C2H = cf_q_type (cq_conf ctx_queue)" "True = cf_st (cq_conf ctx_queue)"
    "2 = (take_bit 12 (ucast (cq_qidx_hw ctx_queue)) :: u16)" by (simp_all add: ctx_queue_def)
  have w: "conf_widths (cq_conf ctx_queue)" "fits_bits 11 (ucast (queue_vec ctx_xdev ctx_queue) :: u16)" by code_simp+
  have r: "queue_in_range demo_two 0 (xd_func_id ctx_xdev) (ucast (cq_qidx_hw ctx_queue))" by code_simp
  have s: "sizes_configured (e_regs write_engine) (vf_request ctx_xdev ctx_queue) ?i" by code_simp
  have "(make_prefetch_context ctx_queue)\<lparr>pf_bufsz_idx := 0\<rparr> = make_prefetch_context ctx_queue"
    by (simp add: make_prefetch_context_def ctx_queue_def)
  with vf_context_setup_like_pf [OF engine_ok engine_plain t(1) _ t(2) w r s t(3), of "\<lambda>_ _ s. (0, 0, [], s)" 4]
  show ?thesis by auto
qed

section \<open>Interrupt contexts\<close>

text \<open>When the message cannot be sent, reading an interrupt context on a virtual function only logs the error:
  the request, whose status is zero, is taken for the reply, and the caller gets an empty context and a
  success.\<close>

lemma intr_read_unsent_succeeds:
  assumes "\<And>m d. send m d = (- EBUSY, m, d)"
  shows "qdma_intr_context_read_vf True send xdev ridx c d = Some (0, ic_zero, d)"
proof -
  have "hdr_status (hdr msg_zero) = 0" by (simp add: msg_zero_def)
  then show ?thesis
    by (simp add: assms qdma_intr_context_read_vf_def qdma_mbox_compose_vf_intr_ctxt_read_def compose_def put_hdr_def
        qdma_mbox_vf_intr_context_get_def qdma_mbox_vf_response_status_def Let_def)
qed

lemma soft_intr_does:
  assumes e: "ctxt_engine hw regs ctx"
  shows "does ctx (\<lambda>d. no_ctxt (hw_indirect_intr_ctx_conf (soft_access hw rl) r None QDMA_HW_ACCESS_CLEAR d))
      (ctx_put QDMA_CTXT_SEL_INT_COAL (take_bit 12 r) (replicate 8 0))"
    and "does ctx (\<lambda>d. no_ctxt (hw_indirect_intr_ctx_conf (soft_access hw rl) r (Some c) QDMA_HW_ACCESS_WRITE d))
      (ctx_put QDMA_CTXT_SEL_INT_COAL (take_bit 12 r) (ctxt_data (intr_words c)))"
proof -
  have len: "length (intr_words c) \<le> 8" by (simp add: intr_words_def Let_def)
  show "does ctx (\<lambda>d. no_ctxt (hw_indirect_intr_ctx_conf (soft_access hw rl) r None QDMA_HW_ACCESS_CLEAR d))
      (ctx_put QDMA_CTXT_SEL_INT_COAL (take_bit 12 r) (replicate 8 0))"
    using clear_does [OF e] by (simp add: soft_access_def no_ctxt_def keep_ctxt_def qdma_indirect_intr_ctx_conf_def
        qdma_indirect_intr_context_clear_def)
  show "does ctx (\<lambda>d. no_ctxt (hw_indirect_intr_ctx_conf (soft_access hw rl) r (Some c) QDMA_HW_ACCESS_WRITE d))
      (ctx_put QDMA_CTXT_SEL_INT_COAL (take_bit 12 r) (ctxt_data (intr_words c)))"
    using write_does [OF e, where words = intr_words and c = c and qid = r, OF len]
    by (simp add: soft_access_def no_ctxt_def keep_ctxt_def qdma_indirect_intr_ctx_conf_def qdma_indirect_intr_context_write_def)
qed

lemma ring_index_first: "ucast (get_intr_ring_index xdev (xd_dvec_start_idx xdev)) = xd_func_id xdev"
  by (simp add: get_intr_ring_index_def ucast_down_up take_bit_word_eq_self)

text \<open>Setting up the interrupt ring of a function programs its context and nothing else.\<close>

lemma intr_setup_returns:
  assumes e: "ctxt_engine hw regs ctx" and m: "aggr_mode xdev" and l: "xd_intr_coal_list xdev = [entry]"
  shows "returns ctx (qdma_intr_context_setup (soft_access hw rl) xdev)
    (ctx_put QDMA_CTXT_SEL_INT_COAL (take_bit 12 (xd_func_id xdev)) (ctxt_data (intr_words (intr_ctxt_of xdev entry ic_zero))))"
proof -
  let ?r = "ucast (get_intr_ring_index xdev (xd_dvec_start_idx xdev)) :: u16" and ?c = "intr_ctxt_of xdev entry ic_zero"
  have nil: "intr_setup_loop acc xdev c [] = (\<lambda>d. Some (0, d))" for acc :: "'a qdma_hw_access" and c
    by (rule ext) simp
  have "qdma_intr_context_setup (soft_access hw rl) xdev = (\<lambda>d.
      or_errno (no_ctxt (hw_indirect_intr_ctx_conf (soft_access hw rl) ?r None QDMA_HW_ACCESS_CLEAR d)) (\<lambda>d.
      or_errno (no_ctxt (hw_indirect_intr_ctx_conf (soft_access hw rl) ?r (Some ?c) QDMA_HW_ACCESS_WRITE d)) (\<lambda>d. Some (0, d))))"
    using m l nil
    by (intro ext) (simp add: qdma_intr_context_setup_def make_intr_context_def Let_def)
  then show ?thesis
    by (simp only: ring_index_first) (rule returns_cong [OF returns_then [OF soft_intr_does(1) [OF e] returns_then [OF soft_intr_does(2) [OF e] returns_zero]]],
      simp add: ctx_put_def fun_eq_iff)
qed

text \<open>C11: The interrupt rings of functions do not disturb each other.  On the soft IP, when a function with one
  interrupt aggregation ring, whose values fit their fields, has set it up, reading the context of its ring gives the
  address, vector, colour and size of the ring; the function number, which the IP does not store, reads as zero.
  The contexts of the rings of other functions, and all other contexts, are as before.\<close>

theorem intr_context_setup_read_back:
  assumes e: "ctxt_engine hw regs ctx" and m: "aggr_mode xdev" and l: "xd_intr_coal_list xdev = [entry]"
    and f: "intr_fits ((intr_ctxt_of xdev entry ic_zero)\<lparr>ic_func_id := 0\<rparr>) ic_zero"
  shows "\<exists>d1 d2. qdma_intr_context_setup (soft_access hw rl) xdev d = Some (0, d1) \<and>
    qdma_intr_context_read (soft_access hw rl) (get_intr_ring_index xdev (xd_dvec_start_idx xdev)) d1 =
      Some (0, (intr_ctxt_of xdev entry ic_zero)\<lparr>ic_func_id := 0\<rparr>, d2) \<and>
    (\<forall>sel k. (sel, k) \<noteq> (QDMA_CTXT_SEL_INT_COAL, take_bit 12 (xd_func_id xdev)) \<longrightarrow> ctx d2 sel k = ctx d sel k)"
proof -
  let ?c = "intr_ctxt_of xdev entry ic_zero"
  obtain d1 where d1: "qdma_intr_context_setup (soft_access hw rl) xdev d = Some (0, d1)"
      "ctx d1 = ctx_put QDMA_CTXT_SEL_INT_COAL (take_bit 12 (xd_func_id xdev)) (ctxt_data (intr_words ?c)) (ctx d)"
    using intr_setup_returns [OF e m l, where rl = rl] unfolding returns_def by blast
  have w: "intr_words (?c\<lparr>ic_func_id := 0\<rparr>) = intr_words ?c" by (simp add: intr_words_def)
  have "take 3 (ctxt_data (intr_words ?c)) = intr_words ?c"
    using ctxt_data_take [of "intr_words ?c"] intr_codec.words_length [of ?c] by simp
  then have p: "intr_parse (take 3 (ctx d1 QDMA_CTXT_SEL_INT_COAL (take_bit 12 (xd_func_id xdev)))) ic_zero = ?c\<lparr>ic_func_id := 0\<rparr>"
    using intr_codec.parse_words [OF f] by (simp add: d1(2) ctx_put_def w)
  obtain d2 where "hw_indirect_intr_ctx_conf (soft_access hw rl) (xd_func_id xdev) (Some ic_zero) QDMA_HW_ACCESS_READ d1 =
      (QDMA_SUCCESS, Some (?c\<lparr>ic_func_id := 0\<rparr>), d2)" "ctx d2 = ctx d1"
    using soft_fetches(7) [OF e, of rl "xd_func_id xdev" ic_zero] p unfolding fetches_def by metis
  then show ?thesis using d1 by (auto simp: qdma_intr_context_read_def ring_index_first ctx_put_def)
qed

definition intr_xdev :: xlnx_dma_dev where
  "intr_xdev = ctx_xdev\<lparr>xd_intr_rngsz := 3, xd_intr_coal_list := [\<lparr>vec_id = 2, intr_rng_num_entries = 2048, intr_ring_bus = 0x5000,
     intr_ring_base = Some 0, coal_color = 1, intr_cidx_info = \<lparr>sw_cidx = 0, rng_idx = 5\<rparr>\<rparr>]\<rparr>"

theorem intr_context_setup_read_back_witness:
  "\<exists>d1 c d2. qdma_intr_context_setup (soft_access engine_hw (\<lambda>_ _ s. (0, 0, [], s))) intr_xdev engine0 = Some (0, d1) \<and>
    qdma_intr_context_read (soft_access engine_hw (\<lambda>_ _ s. (0, 0, [], s))) 5 d1 = Some (0, c, d2) \<and>
    ic_baddr_4k c = 0x5000 \<and> ic_page_size c = 3"
proof -
  let ?e = "hd (xd_intr_coal_list intr_xdev)"
  have "aggr_mode intr_xdev" "xd_intr_coal_list intr_xdev = [?e]" by (simp_all add: intr_xdev_def ctx_xdev_def aggr_mode_def)
  moreover have "intr_fits ((intr_ctxt_of intr_xdev ?e ic_zero)\<lparr>ic_func_id := 0\<rparr>) ic_zero" by code_simp
  moreover have "get_intr_ring_index intr_xdev (xd_dvec_start_idx intr_xdev) = 5"
    by (simp add: get_intr_ring_index_def intr_xdev_def ctx_xdev_def)
  moreover have "ic_baddr_4k (intr_ctxt_of intr_xdev ?e ic_zero) = 0x5000" "ic_page_size (intr_ctxt_of intr_xdev ?e ic_zero) = 3"
    by (simp_all add: intr_xdev_def intr_ctxt_of_def)
  ultimately show ?thesis
    using intr_context_setup_read_back [OF engine_ok, of intr_xdev ?e "\<lambda>_ _ s. (0, 0, [], s)" engine0] by auto
qed

end
