(* ===== verification/QueueIntr.thy ===== *)
theory QueueIntr
  imports QueueContext
begin

text \<open>
  Interrupts of the driver core, \<^verbatim>\<open>libqdma/qdma_intr.c\<close>: the handlers of data interrupts with and without
  aggregation, the choice of the vector of a queue (\<^verbatim>\<open>desc_alloc_irq\<close> of \<^verbatim>\<open>qdma_descq.c\<close>), registration and
  release of the vectors, the aggregation rings, and legacy interrupts.

  The handlers tell queues that there is something to do, by calling the handler of the user or by
  scheduling the work of the queue; the model records these calls in their order.  The memory of an
  aggregation ring is written by the device, so an entry is read from the state of the device, which may
  change at every read.  What the kernel provides (vectors, interrupt registration, memory) is an argument.
  The measurement of latency (\<^verbatim>\<open>ping_pong_en\<close>) is not modelled.
\<close>

section \<open>Queues and entries\<close>

text \<open>A queue as the handlers see it: its number, whether the user has registered a handler, and the CPU its
  work is bound to.\<close>

record intr_queue =
  iq_qidx :: u32
  iq_isr_top :: bool
  iq_cpu :: "nat option"

record qdma_dev =
  qd_qmax :: u16
  qd_qbase :: u16
  qd_h2c :: "intr_queue list"
  qd_c2h :: "intr_queue list"

text \<open>The address of a queue: the array and the index in it.\<close>

type_synonym queue_ref = "bool \<times> u64"

datatype intr_event = Isr_top queue_ref | Work queue_ref | Work_on nat queue_ref

definition queue_at :: "qdma_dev \<Rightarrow> queue_ref \<Rightarrow> intr_queue option" where
  "queue_at qdev r =
     (let qs = (if fst r then qd_c2h qdev else qd_h2c qdev)
      in if unat (snd r) < length qs then Some (qs ! unat (snd r)) else None)"

definition qdma_device_get_descq_by_hw_qid :: "qdma_dev \<Rightarrow> u64 \<Rightarrow> u8 \<Rightarrow> queue_ref" where
  "qdma_device_get_descq_by_hw_qid qdev qidx_hw c2h = (c2h \<noteq> 0, qidx_hw - ucast (qd_qbase qdev))"

definition signal :: "intr_queue \<Rightarrow> queue_ref \<Rightarrow> intr_event" where
  "signal q r =
     (if iq_isr_top q then Isr_top r else case iq_cpu q of Some cpu \<Rightarrow> Work_on cpu r | None \<Rightarrow> Work r)"

text \<open>The bit fields of a ring entry, from the lowest bit.\<close>

definition bits_at :: "nat \<Rightarrow> nat \<Rightarrow> u64 \<Rightarrow> u64" where
  "bits_at lo n w = take_bit n (drop_bit lo w)"

record intr_ring_entry =
  re_color :: u8
  re_type :: u8
  re_qid :: u32

definition ring_cpm :: "u64 \<Rightarrow> intr_ring_entry" where
  "ring_cpm w = \<lparr>re_color = ucast (bits_at 63 1 w), re_type = ucast (bits_at 51 1 w), re_qid = ucast (bits_at 52 11 w)\<rparr>"

definition ring_generic :: "u64 \<Rightarrow> intr_ring_entry" where
  "ring_generic w = \<lparr>re_color = ucast (bits_at 63 1 w), re_type = ucast (bits_at 38 1 w), re_qid = ucast (bits_at 39 24 w)\<rparr>"

definition ring_entry :: "bool \<Rightarrow> u64 \<Rightarrow> intr_ring_entry" where
  "ring_entry cpm4 w = (if cpm4 then ring_cpm w else ring_generic w)"

section \<open>Aggregated interrupts\<close>

text \<open>What the handler uses of the device: an entry of a ring, and the register of the consumer index.\<close>

record 's aggr_dev =
  ad_entry :: "nat option \<Rightarrow> nat \<Rightarrow> 's \<Rightarrow> u64 \<times> 's"
  ad_cidx_update :: "u32 \<Rightarrow> qdma_intr_cidx_reg_info \<Rightarrow> 's \<Rightarrow> int \<times> 's"

text \<open>\<^verbatim>\<open>queue_intr_cidx_update\<close> on the soft IP.\<close>

definition soft_aggr_dev :: "'s hw_dev \<Rightarrow> bool \<Rightarrow> (nat option \<Rightarrow> nat \<Rightarrow> 's \<Rightarrow> u64 \<times> 's) \<Rightarrow> 's aggr_dev" where
  "soft_aggr_dev hw is_vf entry =
     \<lparr>ad_entry = entry,
      ad_cidx_update = (\<lambda>qid info. qdma_queue_intr_cidx_update (Some hw) is_vf (ucast qid) (Some info))\<rparr>"

text \<open>What the handler changes: the rings, the queue updated last, and the record of calls.\<close>

record aggr_state =
  ag_coal :: "intr_coal_conf list"
  ag_prev :: "queue_ref option"
  ag_events :: "intr_event list"

datatype aggr_out = Agg_ok | Agg_out_of_bounds

text \<open>One step of \<^verbatim>\<open>sw_cidx\<close>.  At the end of the ring the colour of the first ring in the list is
  toggled.\<close>

definition next_cidx :: "nat \<Rightarrow> u32 \<Rightarrow> intr_coal_conf list \<Rightarrow> u32 \<times> intr_coal_conf list" where
  "next_cidx k counter coal =
     (let e = coal ! k; info = intr_cidx_info e; info = info\<lparr>sw_cidx := sw_cidx info + 1\<rparr>
      in if sw_cidx info = intr_rng_num_entries e
         then let coal = coal[0 := (coal ! 0)\<lparr>coal_color := (if coal_color (coal ! 0) \<noteq> 0 then 0 else 1)\<rparr>]
              in (0, coal[k := (coal ! k)\<lparr>intr_cidx_info := info\<lparr>sw_cidx := 0\<rparr>\<rparr>])
         else (counter + 1, coal[k := e\<lparr>intr_cidx_info := info\<rparr>]))"

text \<open>The loop over the entries.  The function that finds the queue returns a pointer in every case; the
  test for a null pointer has no effect.\<close>

partial_function (option) aggregate_loop ::
    "'s aggr_dev \<Rightarrow> bool \<Rightarrow> qdma_dev \<Rightarrow> nat \<Rightarrow> u32 \<Rightarrow> queue_ref option \<Rightarrow> aggr_state \<Rightarrow> 's \<Rightarrow>
       (aggr_out \<times> queue_ref option \<times> aggr_state \<times> 's) option" where
  "aggregate_loop dev cpm4 qdev k counter descq a d =
     (case ad_entry dev (intr_ring_base (ag_coal a ! k)) (unat counter) d of (w, d) \<Rightarrow>
      let e = ring_entry cpm4 w
      in if re_color e \<noteq> coal_color (ag_coal a ! k) then Some (Agg_ok, descq, a, d)
         else let r = qdma_device_get_descq_by_hw_qid qdev (ucast (re_qid e)) (re_type e)
              in case queue_at qdev r of
                   None \<Rightarrow> Some (Agg_out_of_bounds, descq, a, d)
                 | Some q \<Rightarrow>
                     (case next_cidx k counter (ag_coal a) of (counter, coal) \<Rightarrow>
                        aggregate_loop dev cpm4 qdev k counter (Some r)
                          (a\<lparr>ag_coal := coal, ag_prev := Some r, ag_events := ag_events a @ [signal q r]\<rparr>) d))"

declare aggregate_loop.simps [code]

text \<open>The update of the register after the loop: through the last queue found, or, when no entry was new,
  through the queue of the last update.\<close>

definition cidx_update_via ::
    "'s aggr_dev \<Rightarrow> qdma_dev \<Rightarrow> nat \<Rightarrow> queue_ref option \<Rightarrow> aggr_state \<Rightarrow> 's \<Rightarrow> (aggr_out \<times> aggr_state \<times> 's) option" where
  "cidx_update_via dev qdev k descq a d =
     (case (case descq of Some r \<Rightarrow> Some r | None \<Rightarrow> ag_prev a) of
        None \<Rightarrow> Some (Agg_ok, a, d)
      | Some r \<Rightarrow>
          (case queue_at qdev r of
             None \<Rightarrow> Some (Agg_out_of_bounds, a, d)
           | Some q \<Rightarrow> Some (Agg_ok, a, snd (ad_cidx_update dev (iq_qidx q) (intr_cidx_info (ag_coal a ! k)) d))))"

definition data_intr_aggregate ::
    "'s aggr_dev \<Rightarrow> bool \<Rightarrow> qdma_dev \<Rightarrow> u32 \<Rightarrow> u16 list \<Rightarrow> u32 \<Rightarrow> aggr_state \<Rightarrow> 's \<Rightarrow>
       (aggr_out \<times> aggr_state \<times> 's) option" where
  "data_intr_aggregate dev cpm4 qdev dvec_start_idx msix_entries vidx a d =
     (let k = unat (vidx - dvec_start_idx)
      in if \<not> k < length (ag_coal a) \<or> \<not> unat vidx < length msix_entries then Some (Agg_out_of_bounds, a, d)
         else if msix_entries ! unat vidx \<noteq> vec_id (ag_coal a ! k) then Some (Agg_ok, a, d)
         else let counter = ucast (sw_cidx (intr_cidx_info (ag_coal a ! k)))
              in case aggregate_loop dev cpm4 qdev k counter None a d of
                   None \<Rightarrow> None
                 | Some (out, descq, a, d) \<Rightarrow>
                     if out = Agg_out_of_bounds then Some (Agg_out_of_bounds, a, d)
                     else cidx_update_via dev qdev k descq a d)"

section \<open>Direct interrupts\<close>

text \<open>Every queue of the vector is told.\<close>

definition data_intr_direct :: "(queue_ref \<times> intr_queue) list \<Rightarrow> intr_event list \<Rightarrow> intr_event list" where
  "data_intr_direct intr_list events = fold (\<lambda>(r, q) ev. ev @ [signal q r]) intr_list events"

text \<open>The handler of a data vector; \<open>queues\<close> gives the queues of a vector.\<close>

definition data_intr_handler ::
    "'s aggr_dev \<Rightarrow> bool \<Rightarrow> qdma_dev \<Rightarrow> xlnx_dma_dev \<Rightarrow> u16 list \<Rightarrow> (u32 \<Rightarrow> (queue_ref \<times> intr_queue) list) \<Rightarrow> u32 \<Rightarrow>
       aggr_state \<Rightarrow> 's \<Rightarrow> (aggr_out \<times> aggr_state \<times> 's) option" where
  "data_intr_handler dev cpm4 qdev xdev msix_entries queues vector_index a d =
     (if aggr_mode xdev
      then data_intr_aggregate dev cpm4 qdev (xd_dvec_start_idx xdev) msix_entries vector_index a d
      else Some (Agg_ok, a\<lparr>ag_events := data_intr_direct (queues vector_index) (ag_events a)\<rparr>, d))"

text \<open>The vector of an interrupt number.\<close>

fun data_vector_handler :: "nat \<Rightarrow> nat list \<Rightarrow> nat \<Rightarrow> nat option" where
  "data_vector_handler i [] irq = None"
| "data_vector_handler i (v # vs) irq = (if v = irq then Some i else data_vector_handler (Suc i) vs irq)"

text \<open>The loop of \<^verbatim>\<open>desc_alloc_irq\<close> over the numbers of queues of the data vectors.\<close>

fun fewest_loop :: "nat \<Rightarrow> nat list \<Rightarrow> nat \<Rightarrow> int \<Rightarrow> nat" where
  "fewest_loop i [] idx least = idx"
| "fewest_loop i (c # cs) idx least =
     (if c = 0 then i
      else let least = (if least < 0 then int c else least)
           in if int c < least then fewest_loop (Suc i) cs i (int c) else fewest_loop (Suc i) cs idx least)"

definition desc_alloc_irq :: "qdma_drv_mode \<Rightarrow> nat \<Rightarrow> nat list \<Rightarrow> nat \<Rightarrow> nat" where
  "desc_alloc_irq mode dvec_start_idx cnts intr_id =
     (if cnts = [] then intr_id
      else if mode = DIRECT_INTR_MODE then fewest_loop dvec_start_idx (drop dvec_start_idx cnts) dvec_start_idx (- 1)
      else dvec_start_idx)"

section \<open>Registration of vectors\<close>

datatype intr_type_list = INTR_TYPE_ERROR | INTR_TYPE_USER | INTR_TYPE_DATA | INTR_TYPE_MBOX

definition XDEV_FLAG_IRQ :: u32 where [simp]: "XDEV_FLAG_IRQ = 2"

record intr_conf =
  ic_drv_mode :: qdma_drv_mode
  ic_master_pf :: bool
  ic_mbox_irq :: bool
  ic_msix_qvec_max :: u16
  ic_user_msix_qvec_max :: u16
  ic_data_msix_qvec_max :: u16

text \<open>What the kernel answers: the number of vectors of the device, whether memory is found for the two
  arrays, the result of enabling MSI-X, and the result of requesting a vector.\<close>

record intr_env =
  ie_vec_count :: int
  ie_mem_msix :: bool
  ie_mem_info :: bool
  ie_enable :: int
  ie_request :: "nat \<Rightarrow> int"

text \<open>The vectors of the device: \<open>iv_types\<close> has the entries of \<^verbatim>\<open>dev_intr_info_list\<close> that were set up, \<open>iv_held\<close>
  the vectors that are registered with the kernel.\<close>

record intr_vecs =
  iv_num_vecs :: int
  iv_dvec_start_idx :: nat
  iv_types :: "intr_type_list list"
  iv_held :: "nat list"
  iv_msix_enabled :: bool
  iv_flags :: u32

definition intr_vector_setup :: "intr_env \<Rightarrow> nat \<Rightarrow> intr_type_list \<Rightarrow> intr_vecs \<Rightarrow> int \<times> intr_vecs" where
  "intr_vector_setup env idx t v =
     (let v = v\<lparr>iv_types := take idx (iv_types v) @ [t]\<rparr>; rv = ie_request env idx
      in if rv \<noteq> 0 then (rv, v) else (0, v\<lparr>iv_held := iv_held v @ [idx]\<rparr>))"

text \<open>Set up vectors of the given types from an index on, until one fails.\<close>

fun vectors_loop :: "intr_env \<Rightarrow> nat \<Rightarrow> intr_type_list list \<Rightarrow> intr_vecs \<Rightarrow> int \<times> nat \<times> intr_vecs" where
  "vectors_loop env i [] v = (0, i, v)"
| "vectors_loop env i (t # ts) v =
     (case intr_vector_setup env i t v of (rv, v) \<Rightarrow>
        if rv \<noteq> 0 then (rv, i, v) else vectors_loop env (Suc i) ts v)"

text \<open>The clean-up: the vectors below the index are released.\<close>

definition cleanup_irq :: "nat \<Rightarrow> intr_vecs \<Rightarrow> intr_vecs" where
  "cleanup_irq i v =
     v\<lparr>iv_held := filter (\<lambda>x. \<not> x < i) (iv_held v), iv_msix_enabled := False, iv_num_vecs := 0\<rparr>"

definition fixed_types :: "intr_conf \<Rightarrow> intr_type_list list" where
  "fixed_types c =
     (if ic_mbox_irq c then [INTR_TYPE_MBOX] else []) @
     replicate (unat (ic_user_msix_qvec_max c)) INTR_TYPE_USER @
     (if ic_master_pf c then [INTR_TYPE_ERROR] else [])"

definition num_vecs_req :: "intr_conf \<Rightarrow> int" where
  "num_vecs_req c =
     int (unat (ic_user_msix_qvec_max c)) + int (unat (ic_data_msix_qvec_max c)) +
     (if ic_master_pf c then 1 else 0) + (if ic_mbox_irq c then 1 else 0)"

definition intr_setup :: "intr_env \<Rightarrow> intr_conf \<Rightarrow> intr_vecs \<Rightarrow> int \<times> intr_vecs" where
  "intr_setup env c v =
     (if ic_drv_mode c = POLL_MODE \<or> ic_drv_mode c = LEGACY_INTR_MODE then (0, v)
      else if ie_vec_count env = 0 then (0, v)
      else if ic_data_msix_qvec_max c = 0 then (- EINVAL, v)
      else let v = v\<lparr>iv_num_vecs := min (ie_vec_count env) (int (unat (ic_msix_qvec_max c)))\<rparr>
           in if num_vecs_req c > iv_num_vecs v then (- EINVAL, v)
              else if \<not> ie_mem_msix env then (- ENOMEM, v)
              else if \<not> ie_mem_info env then (- ENOMEM, v)
              else let v = v\<lparr>iv_types := []\<rparr>
                   in if ie_enable env < 0 then (ie_enable env, v)
                      else let v = v\<lparr>iv_msix_enabled := True\<rparr>
                           in case vectors_loop env 0 (fixed_types c) v of (rv, i, v) \<Rightarrow>
                                if rv \<noteq> 0 then (rv, cleanup_irq i v)
                                else let v = v\<lparr>iv_dvec_start_idx := i\<rparr>
                                     in case vectors_loop env i (replicate (nat (iv_num_vecs v) - i) INTR_TYPE_DATA) v of
                                          (rv, i, v) \<Rightarrow>
                                            if rv \<noteq> 0 then (rv, cleanup_irq i v)
                                            else (rv, v\<lparr>iv_flags := iv_flags v OR XDEV_FLAG_IRQ\<rparr>))"

definition intr_teardown :: "intr_vecs \<Rightarrow> intr_vecs" where
  "intr_teardown v =
     v\<lparr>iv_held := filter (\<lambda>x. \<not> int x < iv_num_vecs v) (iv_held v),
       iv_msix_enabled := (if iv_num_vecs v \<noteq> 0 then False else iv_msix_enabled v)\<rparr>"

fun get_intr_vec_index :: "intr_type_list list \<Rightarrow> nat \<Rightarrow> intr_type_list \<Rightarrow> u8" where
  "get_intr_vec_index [] i t = 0"
| "get_intr_vec_index (x # xs) i t = (if x = t then of_nat i else get_intr_vec_index xs (Suc i) t)"

text \<open>The set-up of the error interrupt; \<open>error_intr_setup\<close> is the function of the access layer.\<close>

definition qdma_err_intr_setup ::
    "(u16 \<Rightarrow> u8 \<Rightarrow> 's \<Rightarrow> int \<times> 's) \<Rightarrow> xlnx_dma_dev \<Rightarrow> intr_vecs \<Rightarrow> 's \<Rightarrow> int \<times> 's" where
  "qdma_err_intr_setup error_intr_setup xdev v d =
     (case error_intr_setup (xd_func_id xdev) (get_intr_vec_index (iv_types v) 0 INTR_TYPE_ERROR) d of (rv, d) \<Rightarrow>
        if rv < 0 then (- EINVAL, d) else (0, d))"

section \<open>Aggregation rings\<close>

text \<open>The allocation of ring memory: an answer of the kernel per request, a number that names the memory and
  its bus address, or nothing.  The rings held are recorded.\<close>

type_synonym ring_mem = "(nat \<times> u64) option list"

fun ring_setup_loop ::
    "xlnx_dma_dev \<Rightarrow> u16 list \<Rightarrow> u16 \<Rightarrow> nat \<Rightarrow> nat \<Rightarrow> ring_mem \<Rightarrow> intr_coal_conf list \<Rightarrow>
       (int \<times> intr_coal_conf list) option" where
  "ring_setup_loop xdev msix num_entries counter 0 mem rings = Some (0, rings)"
| "ring_setup_loop xdev msix num_entries counter (Suc n) mem rings =
     (let vidx = counter + unat (xd_dvec_start_idx xdev)
      in case mem of
           [] \<Rightarrow> None
         | None # _ \<Rightarrow> Some (- ENOMEM, [])
         | Some (base, bus) # mem \<Rightarrow>
             if \<not> vidx < length msix then None
             else let e = \<lparr>vec_id = msix ! vidx, intr_rng_num_entries = num_entries, intr_ring_bus = bus,
                           intr_ring_base = Some base, coal_color = 1,
                           intr_cidx_info = \<lparr>sw_cidx = 0, rng_idx = ucast (get_intr_ring_index xdev (ucast (msix ! vidx)))\<rparr>\<rparr>
                  in ring_setup_loop xdev msix num_entries (Suc counter) n mem (rings @ [e]))"

definition intr_ring_setup ::
    "int \<Rightarrow> bool \<Rightarrow> u16 list \<Rightarrow> ring_mem \<Rightarrow> xlnx_dma_dev \<Rightarrow> (int \<times> xlnx_dma_dev) option" where
  "intr_ring_setup num_vecs mem_list msix mem xdev =
     (if \<not> aggr_mode xdev then Some (0, xdev\<lparr>xd_intr_coal_list := []\<rparr>)
      else if num_vecs \<noteq> 0 then
        (if \<not> mem_list then Some (- ENOMEM, xdev)
         else let num_entries = ucast ((ucast (xd_intr_rngsz xdev) + 1) * 512 :: u32)
              in case ring_setup_loop xdev msix num_entries 0 QDMA_NUM_DATA_VEC_FOR_INTR_CXT mem [] of
                   None \<Rightarrow> None
                 | Some (rv, coal) \<Rightarrow>
                     if rv < 0 then Some (rv, xdev) else Some (0, xdev\<lparr>xd_intr_coal_list := coal\<rparr>))
      else Some (0, xdev\<lparr>xd_intr_coal_list := [], xd_drv_mode := POLL_MODE\<rparr>))"

text \<open>Release of the rings: the contexts are invalidated and the memory of the rings is freed, until an
  invalidation fails.  The memory freed is recorded.\<close>

fun intr_context_invalidate ::
    "'s qdma_hw_access \<Rightarrow> xlnx_dma_dev \<Rightarrow> nat list \<Rightarrow> nat option list \<Rightarrow> 's \<Rightarrow> nat option list \<times> 's" where
  "intr_context_invalidate hw xdev [] freed d = (freed, d)"
| "intr_context_invalidate hw xdev (i # is) freed d =
     (case hw_indirect_intr_ctx_conf hw (ucast (get_intr_ring_index xdev (of_nat i + xd_dvec_start_idx xdev))) None
             QDMA_HW_ACCESS_INVALIDATE d of (rv, _, d) \<Rightarrow>
        if rv < 0 then (freed, d)
        else intr_context_invalidate hw xdev is (freed @ [intr_ring_base (xd_intr_coal_list xdev ! i)]) d)"

text \<open>Then the array of rings is freed, whether or not all invalidations succeeded.\<close>

definition intr_ring_teardown :: "'s qdma_hw_access \<Rightarrow> xlnx_dma_dev \<Rightarrow> 's \<Rightarrow> nat option list \<times> 's" where
  "intr_ring_teardown hw xdev d = intr_context_invalidate hw xdev [0..<QDMA_NUM_DATA_VEC_FOR_INTR_CXT] [] d"

text \<open>The set-up of all interrupts of a device.  Without vectors \<^verbatim>\<open>intr_ring_setup\<close> has chosen polling and left no
  rings; the mode is then changed to direct interrupts.  The functions of the access layer that set up, enable
  and rearm the error interrupt are arguments.\<close>

record 's err_intr_dev =
  ed_setup :: "u16 \<Rightarrow> u8 \<Rightarrow> 's \<Rightarrow> int \<times> 's"
  ed_enable :: "'s \<Rightarrow> int \<times> 's"
  ed_rearm :: "'s \<Rightarrow> int \<times> 's"

definition setup_error_intr ::
    "'s err_intr_dev \<Rightarrow> bool \<Rightarrow> intr_vecs \<Rightarrow> xlnx_dma_dev \<Rightarrow> 's \<Rightarrow> (int \<times> xlnx_dma_dev \<times> 's) option" where
  "setup_error_intr err master_pf v xdev d =
     (if \<not> (xd_drv_mode xdev \<noteq> POLL_MODE \<and> xd_drv_mode xdev \<noteq> LEGACY_INTR_MODE \<and> master_pf) then Some (0, xdev, d)
      else case qdma_err_intr_setup (ed_setup err) xdev v d of (rv, d) \<Rightarrow> if rv < 0 then Some (- EINVAL, xdev, d)
      else case ed_enable err d of (rv, d) \<Rightarrow> if rv < 0 then Some (- EINVAL, xdev, d)
      else case ed_rearm err d of (rv, d) \<Rightarrow> if rv < 0 then Some (- EINVAL, xdev, d) else Some (rv, xdev, d))"

definition qdma_device_interrupt_setup ::
    "'s qdma_hw_access \<Rightarrow> 's err_intr_dev \<Rightarrow> bool \<Rightarrow> intr_vecs \<Rightarrow> bool \<Rightarrow> u16 list \<Rightarrow> ring_mem \<Rightarrow> xlnx_dma_dev \<Rightarrow> 's \<Rightarrow>
       (int \<times> xlnx_dma_dev \<times> 's) option" where
  "qdma_device_interrupt_setup hw err master_pf v mem_list msix mem xdev d =
     (if aggr_mode xdev
      then case intr_ring_setup (iv_num_vecs v) mem_list msix mem xdev of
             None \<Rightarrow> None
           | Some (rv, xdev) \<Rightarrow>
               if rv \<noteq> 0 then Some (- EINVAL, xdev, d)
               else if xd_intr_coal_list xdev \<noteq> []
               then case qdma_intr_context_setup hw xdev d of
                      None \<Rightarrow> None
                    | Some (rv, d) \<Rightarrow> if rv \<noteq> 0 then Some (rv, xdev, d) else setup_error_intr err master_pf v xdev d
               else setup_error_intr err master_pf v (xdev\<lparr>xd_drv_mode := DIRECT_INTR_MODE\<rparr>) d
      else setup_error_intr err master_pf v xdev d)"

text \<open>The release of the rings of a device that has them.\<close>

definition qdma_device_interrupt_cleanup :: "'s qdma_hw_access \<Rightarrow> xlnx_dma_dev \<Rightarrow> 's \<Rightarrow> nat option list \<times> 's" where
  "qdma_device_interrupt_cleanup hw xdev d =
     (if xd_intr_coal_list xdev \<noteq> [] then intr_ring_teardown hw xdev d else ([], d))"

section \<open>Legacy interrupts\<close>

text \<open>One list of queues and one interrupt for all of them.  The device and the kernel: the configuration of
  legacy interrupts, the pending bit, the request of the interrupt, and the service of a queue.\<close>

record 'q legacy_state =
  lg_list :: "'q list"
  lg_irq :: bool

record ('q, 's) legacy_dev =
  ld_intr_conf :: "status_type \<Rightarrow> 's \<Rightarrow> int \<times> 's"
  ld_is_pend :: "'s \<Rightarrow> int \<times> 's"
  ld_clear_pend :: "'s \<Rightarrow> int \<times> 's"
  ld_request_irq :: "'s \<Rightarrow> int \<times> 's"
  ld_service :: "'q \<Rightarrow> 's \<Rightarrow> 's"

definition intr_legacy_setup :: "('q, 's) legacy_dev \<Rightarrow> 'q option \<Rightarrow> 'q legacy_state \<Rightarrow> 's \<Rightarrow> int \<times> 'q legacy_state \<times> 's" where
  "intr_legacy_setup dev descq l d =
     (case descq of
        None \<Rightarrow> (- EINVAL, l, d)
      | Some q \<Rightarrow>
          if lg_list l = [] then
            (case ld_intr_conf dev DISABLE d of (rv, d) \<Rightarrow>
               if rv \<noteq> 0 then (- EINVAL, l, d)
               else case ld_request_irq dev d of (rv, d) \<Rightarrow>
                 if rv < 0 then (rv, l, d)
                 else let l = l\<lparr>lg_irq := True, lg_list := lg_list l @ [q]\<rparr>
                      in case ld_intr_conf dev ENABLE d of (rv, d) \<Rightarrow>
                           if rv \<noteq> 0 then (- EINVAL, l, d) else (0, l, d))
          else (1, l\<lparr>lg_list := lg_list l @ [q]\<rparr>, d))"

text \<open>Deleting a queue that is not in the list is left undefined: after an earlier deletion its pointers are not
  valid.\<close>

definition intr_legacy_clear :: "('q, 's) legacy_dev \<Rightarrow> 'q option \<Rightarrow> 'q legacy_state \<Rightarrow> 's \<Rightarrow> ('q legacy_state \<times> 's) option" where
  "intr_legacy_clear dev descq l d =
     (case descq of
        None \<Rightarrow> Some (l, d)
      | Some q \<Rightarrow>
          if q \<notin> set (lg_list l) then None
          else let l = l\<lparr>lg_list := remove1 q (lg_list l)\<rparr>
               in if lg_list l = [] then Some (l\<lparr>lg_irq := False\<rparr>, snd (ld_intr_conf dev DISABLE d)) else Some (l, d))"

text \<open>The handler: when an interrupt is pending (result zero) every queue of the list is served, in order,
  the pending bit is cleared and the interrupt is enabled again.\<close>

definition irq_legacy :: "('q, 's) legacy_dev \<Rightarrow> 'q legacy_state \<Rightarrow> 's \<Rightarrow> bool \<times> 's" where
  "irq_legacy dev l d =
     (case ld_is_pend dev d of (rv, d) \<Rightarrow>
        if rv = 0
        then let d = fold (ld_service dev) (lg_list l) d; d = snd (ld_clear_pend dev d)
             in (True, snd (ld_intr_conf dev ENABLE d))
        else (False, d))"

end
