(* ===== verification/QueueLife.thy ===== *)
theory QueueLife
  imports QueueIntr ResourceMgmt
begin

text \<open>
  The life of a queue in the driver core of a physical function: \<^verbatim>\<open>qdma_queue_add\<close>, \<^verbatim>\<open>qdma_queue_config\<close>,
  \<^verbatim>\<open>qdma_queue_start\<close>, \<^verbatim>\<open>qdma_queue_stop\<close> and \<^verbatim>\<open>qdma_queue_remove\<close> of \<^verbatim>\<open>libqdma_export.c\<close>, with the functions they use
  in \<^verbatim>\<open>qdma_device.c\<close> and \<^verbatim>\<open>qdma_descq.c\<close>.  They keep together the states of the queues, the counts of active
  queues in the resource manager, the lists of queues of the interrupt vectors, and the list of the legacy
  interrupt.

  Messages to the caller, the debug file system, the assignment of a queue to a thread and the counters of
  requests are not modelled.  The sizes that
  \<^verbatim>\<open>qdma_descq_config_complete\<close> looks up, the memory of the rings and the programming by \<^verbatim>\<open>qdma_descq_prog_hw\<close> are
  modelled with the queues and contexts; here memory and programming are arguments.  An access outside the
  arrays of queues, or to vectors that do not exist, is the result \<open>None\<close>.
\<close>

section \<open>State\<close>

definition ERANGE :: int where [simp]: "ERANGE = 34"
definition ENXIO :: int where [simp]: "ENXIO = 6"
definition QDMA_QUEUE_IDX_INVALID :: u32 where [simp]: "QDMA_QUEUE_IDX_INVALID = 0xFFFF"
definition CMPT_DESC_SZ_64B :: u8 where [simp]: "CMPT_DESC_SZ_64B = 3"

datatype qdma_desc_eng_mode = QDMA_DESC_ENG_INTERNAL_BYPASS | QDMA_DESC_ENG_BYPASS_ONLY | QDMA_DESC_ENG_INTERNAL_ONLY

text \<open>A queue is named by its array and its index in it.\<close>

type_synonym life_ref = "queue_type_t \<times> nat"

record life_queue =
  lq_state :: q_state_t
  lq_conf :: qdma_queue_conf
  lq_intr_id :: nat
  lq_channel :: u8
  lq_stop_wait :: bool
  lq_pend_list :: "qdma_request list"
  lq_work_list :: "qdma_request list"
  lq_done :: "(qdma_request \<times> u32 \<times> int) list"
  lq_resource :: bool

record intr_info_t =
  vi_list :: "life_ref list"
  vi_cnt :: nat

text \<open>What does not change while queues come and go.\<close>

record life_conf =
  lc_drv_mode :: qdma_drv_mode
  lc_st_en :: bool
  lc_mm_en :: bool
  lc_mm_cmpt_en :: bool
  lc_versal :: bool
  lc_cpm4 :: bool
  lc_eqdma_2020_2 :: bool
  lc_desc_eng_mode :: qdma_desc_eng_mode
  lc_dma_device_index :: u32
  lc_func_id :: u16
  lc_qbase :: u16
  lc_qmax :: u16
  lc_dvec_start_idx :: nat

record 's life =
  lf_init_qrange :: bool
  lf_h2c :: "life_queue list"
  lf_c2h :: "life_queue list"
  lf_cmpt :: "life_queue list"
  lf_vecs :: "intr_info_t list"
  lf_legacy :: "life_ref legacy_state"
  lf_rm :: rm_state
  lf_dev :: 's

record 's life_env =
  le_hw :: "'s qdma_hw_access"
  le_csr_read :: "'s \<Rightarrow> int \<times> 's"
  le_memory :: "life_ref \<Rightarrow> bool"
  le_prog_hw :: "life_ref \<Rightarrow> life_queue \<Rightarrow> 's \<Rightarrow> int \<times> 's"
  le_legacy :: "(life_ref, 's) legacy_dev"

definition descqs :: "queue_type_t \<Rightarrow> 's life \<Rightarrow> life_queue list" where
  "descqs t l = (case t of Q_H2C \<Rightarrow> lf_h2c l | Q_C2H \<Rightarrow> lf_c2h l | _ \<Rightarrow> lf_cmpt l)"

definition queue_get :: "life_ref \<Rightarrow> 's life \<Rightarrow> life_queue option" where
  "queue_get r l = (if snd r < length (descqs (fst r) l) then Some (descqs (fst r) l ! snd r) else None)"

definition queue_put :: "life_ref \<Rightarrow> life_queue \<Rightarrow> 's life \<Rightarrow> 's life" where
  "queue_put r q l =
     (case fst r of
        Q_H2C \<Rightarrow> l\<lparr>lf_h2c := (lf_h2c l)[snd r := q]\<rparr>
      | Q_C2H \<Rightarrow> l\<lparr>lf_c2h := (lf_c2h l)[snd r := q]\<rparr>
      | _ \<Rightarrow> l\<lparr>lf_cmpt := (lf_cmpt l)[snd r := q]\<rparr>)"

definition qidx_hw :: "life_conf \<Rightarrow> life_ref \<Rightarrow> u32" where
  "qidx_hw c r = ucast (lc_qbase c) + of_nat (snd r)"

text \<open>The array and index of a queue handle; with \<open>init\<close> a disabled queue is refused.\<close>

definition qdma_device_get_descq_by_id :: "life_conf \<Rightarrow> nat \<Rightarrow> bool \<Rightarrow> 's life \<Rightarrow> life_ref option" where
  "qdma_device_get_descq_by_id c idx init l =
     (let qmax = unat (lc_qmax c);
          r = (if idx \<ge> qmax
               then if idx - qmax \<ge> qmax
                    then if idx - 2 * qmax \<ge> qmax then None else Some (Q_CMPT, idx - 2 * qmax)
                    else Some (Q_C2H, idx - qmax)
               else Some (Q_H2C, idx))
      in case r of
           None \<Rightarrow> None
         | Some r \<Rightarrow>
             if init \<and> map_option lq_state (queue_get r l) = Some Q_STATE_DISABLED then None else Some r)"

section \<open>Checks of a configuration\<close>

definition qdma_validate_qconfig :: "life_conf \<Rightarrow> qdma_queue_conf \<Rightarrow> int" where
  "qdma_validate_qconfig c conf =
     (if cf_cmpl_trig_mode conf > TRIG_MODE_COMBO then - EINVAL
      else if lc_versal c \<and> lc_cpm4 c then
        (if cf_cmpl_desc_sz conf = CMPT_DESC_SZ_64B \<or> cf_sw_desc_sz conf = DESC_SZ_64B then - EINVAL
         else if cf_cmpl_trig_mode conf = TRIG_MODE_COMBO then - EINVAL else 0)
      else 0)"

text \<open>The masks of \<^verbatim>\<open>is_usable_queue\<close>.\<close>

definition Q_PRESENT_H2C_MASK :: u32 where [simp]: "Q_PRESENT_H2C_MASK = 1"
definition Q_PRESENT_C2H_MASK :: u32 where [simp]: "Q_PRESENT_C2H_MASK = 2"
definition Q_PRESENT_CMPT_MASK :: u32 where [simp]: "Q_PRESENT_CMPT_MASK = 4"
definition Q_MODE_MASK :: u32 where [simp]: "Q_MODE_MASK = 8"

definition present :: "life_queue \<Rightarrow> bool" where
  "present q \<longleftrightarrow> lq_state q \<noteq> Q_STATE_DISABLED"

definition refmask :: "life_queue \<Rightarrow> life_queue \<Rightarrow> life_queue \<Rightarrow> u32" where
  "refmask h2c c2h cmpt =
     (let m = 0;
          m = (if present h2c then m OR Q_PRESENT_H2C_MASK OR (if cf_st (lq_conf h2c) then Q_MODE_MASK else 0) else m);
          m = (if present c2h then m OR Q_PRESENT_C2H_MASK OR (if cf_st (lq_conf c2h) then Q_MODE_MASK else 0) else m)
      in if present cmpt then m OR Q_PRESENT_CMPT_MASK else m)"

definition rejected :: "queue_type_t \<Rightarrow> bool \<Rightarrow> u32 \<Rightarrow> bool" where
  "rejected t st m \<longleftrightarrow>
     (if t = Q_CMPT then m AND (Q_PRESENT_CMPT_MASK OR Q_MODE_MASK) \<noteq> 0
      else
        let (own, other) = (if t = Q_H2C then (Q_PRESENT_H2C_MASK, Q_PRESENT_C2H_MASK)
                            else (Q_PRESENT_C2H_MASK, Q_PRESENT_H2C_MASK));
            chkmask = other OR Q_MODE_MASK
        in st \<and> m AND Q_PRESENT_CMPT_MASK \<noteq> 0 \<or>
           st \<and> m AND other \<noteq> 0 \<and> m AND chkmask = other \<or>
           \<not> st \<and> m AND other \<noteq> 0 \<and> m AND chkmask = chkmask \<or>
           m AND own \<noteq> 0)"

definition is_usable_queue :: "nat \<Rightarrow> queue_type_t \<Rightarrow> bool \<Rightarrow> 's life \<Rightarrow> bool option" where
  "is_usable_queue i t st l =
     (case (queue_get (Q_H2C, i) l, queue_get (Q_C2H, i) l, queue_get (Q_CMPT, i) l) of
        (Some h2c, Some c2h, Some cmpt) \<Rightarrow> Some (\<not> rejected t st (refmask h2c c2h cmpt))
      | _ \<Rightarrow> None)"

section \<open>Adding a queue\<close>

definition device_set_qrange :: "'s life_env \<Rightarrow> life_conf \<Rightarrow> 's life \<Rightarrow> (int \<times> 's life) option" where
  "device_set_qrange env c l =
     (case or_errno (no_ctxt (hw_fmap_conf (le_hw env) (lc_func_id c)
              (Some \<lparr>fmap_qbase = lc_qbase c, fmap_qmax = lc_qmax c\<rparr>) QDMA_HW_ACCESS_WRITE (lf_dev l)))
            (\<lambda>d. Some (0, d)) of
        None \<Rightarrow> None
      | Some (rv, d) \<Rightarrow> Some (rv, l\<lparr>lf_dev := d, lf_init_qrange := (if rv < 0 then lf_init_qrange l else True)\<rparr>))"

definition qdma_device_prep_q_resource :: "'s life_env \<Rightarrow> life_conf \<Rightarrow> 's life \<Rightarrow> (int \<times> 's life) option" where
  "qdma_device_prep_q_resource env c l =
     (if lf_init_qrange l then Some (0, l)
      else case le_csr_read env (lf_dev l) of (rv, d) \<Rightarrow>
        if rv < 0 then Some (rv, l\<lparr>lf_dev := d\<rparr>) else device_set_qrange env c (l\<lparr>lf_dev := d\<rparr>))"

text \<open>The counts of active queues: a streaming card-to-host queue has a completion queue of its own.\<close>

definition dev_q_type :: "queue_type_t \<Rightarrow> u32" where
  "dev_q_type t = ucast (q_type_num t)"

definition count_added :: "life_conf \<Rightarrow> qdma_queue_conf \<Rightarrow> rm_state \<Rightarrow> int \<times> rm_state" where
  "count_added c conf rm =
     (let idx = lc_dma_device_index c; fid = lc_func_id c; t = dev_q_type (cf_q_type conf);
          (rv, rm) = qdma_dev_increment_active_queue idx fid t rm
      in if rv < 0 then (rv, rm)
         else if cf_st conf \<and> cf_q_type conf = Q_C2H
         then (let (rv, rm) = qdma_dev_increment_active_queue idx fid QDMA_DEV_Q_TYPE_CMPT rm
               in if rv < 0 then (rv, snd (qdma_dev_decrement_active_queue idx fid t rm)) else (0, rm))
         else (0, rm))"

definition count_removed :: "life_conf \<Rightarrow> qdma_queue_conf \<Rightarrow> rm_state \<Rightarrow> int \<times> rm_state" where
  "count_removed c conf rm =
     (let idx = lc_dma_device_index c; fid = lc_func_id c; t = dev_q_type (cf_q_type conf);
          (rv, rm) = qdma_dev_decrement_active_queue idx fid t rm
      in if rv < 0 then (rv, rm)
         else if cf_st conf \<and> cf_q_type conf = Q_C2H
         then (let (rv, rm) = qdma_dev_decrement_active_queue idx fid QDMA_DEV_Q_TYPE_CMPT rm
               in if rv < 0 then (rv, snd (qdma_dev_increment_active_queue idx fid t rm)) else (0, rm))
         else (0, rm))"

text \<open>\<^verbatim>\<open>qdma_descq_config\<close>, for a new configuration and for a change of one.\<close>

definition qdma_descq_config :: "life_conf \<Rightarrow> qdma_queue_conf \<Rightarrow> bool \<Rightarrow> life_queue \<Rightarrow> life_queue" where
  "qdma_descq_config c conf reconfig q =
     (if \<not> reconfig then q\<lparr>lq_conf := conf\<rparr>
      else
        let irq = (if lc_drv_mode c \<noteq> POLL_MODE then 1 else 0)
        in q\<lparr>lq_conf := (lq_conf q)
               \<lparr>cf_desc_rng_sz_idx := cf_desc_rng_sz_idx conf, cf_cmpl_rng_sz_idx := cf_cmpl_rng_sz_idx conf,
                cf_c2h_buf_sz_idx := cf_c2h_buf_sz_idx conf, cf_irq_en := irq, cf_cmpl_en_intr := irq,
                cf_wb_status_en := cf_wb_status_en conf, cf_cmpl_status_acc_en := cf_cmpl_status_acc_en conf,
                cf_cmpl_status_pend_chk := cf_cmpl_status_pend_chk conf, cf_cmpl_stat_en := cf_cmpl_stat_en conf,
                cf_cmpl_trig_mode := cf_cmpl_trig_mode conf, cf_cmpl_timer_idx := cf_cmpl_timer_idx conf,
                cf_fetch_credit := cf_fetch_credit conf, cf_cmpl_cnt_th_idx := cf_cmpl_cnt_th_idx conf,
                cf_desc_bypass := cf_desc_bypass conf, cf_pfetch_bypass := cf_pfetch_bypass conf,
                cf_pfetch_en := cf_pfetch_en conf, cf_cmpl_udd_en := cf_cmpl_udd_en conf,
                cf_cmpl_desc_sz := cf_cmpl_desc_sz conf, cf_sw_desc_sz := cf_sw_desc_sz conf,
                cf_cmpl_ovf_chk_dis := cf_cmpl_ovf_chk_dis conf, cf_adaptive_rx := cf_adaptive_rx conf,
                cf_aperture_size := cf_aperture_size conf, cf_pidx_acc := cf_pidx_acc conf\<rparr>,
             lq_channel := (if lc_versal c then cf_mm_channel conf else lq_channel q)\<rparr>)"

text \<open>The choice of the queue.  With no index given, the first usable index is searched; the loop steps the
  pointer along with the index and then adds the index once more.\<close>

definition pick_queue :: "life_conf \<Rightarrow> qdma_queue_conf \<Rightarrow> 's life \<Rightarrow> (int + nat \<times> nat) option" where
  "pick_queue c conf l =
     (if cf_qidx conf = QDMA_QUEUE_IDX_INVALID
      then case find (\<lambda>i. is_usable_queue i (cf_q_type conf) (cf_st conf) l = Some True) [0..<unat (lc_qmax c)] of
             None \<Rightarrow> Some (Inl (- EPERM))
           | Some i \<Rightarrow> Some (Inr (i, i + i))
      else case is_usable_queue (unat (cf_qidx conf)) (cf_q_type conf) (cf_st conf) l of
             None \<Rightarrow> None
           | Some u \<Rightarrow> Some (if u then Inr (unat (cf_qidx conf), unat (cf_qidx conf)) else Inl (- EPERM)))"

definition queue_state :: "life_ref \<Rightarrow> q_state_t \<Rightarrow> 's life \<Rightarrow> 's life option" where
  "queue_state r s l = map_option (\<lambda>q. queue_put r (q\<lparr>lq_state := s\<rparr>) l) (queue_get r l)"

text \<open>In legacy mode only one queue is supported.\<close>

definition add_legacy :: "'s life_env \<Rightarrow> life_conf \<Rightarrow> life_ref \<Rightarrow> 's life \<Rightarrow> (int \<times> 's life) option" where
  "add_legacy env c r l =
     (if lc_drv_mode c \<noteq> LEGACY_INTR_MODE then Some (0, l)
      else case intr_legacy_setup (le_legacy env) (Some r) (lf_legacy l) (lf_dev l) of (rv, lg, d) \<Rightarrow>
        let l = l\<lparr>lf_legacy := lg, lf_dev := d\<rparr>
        in if rv > 0
           then case intr_legacy_clear (le_legacy env) (Some r) lg d of
                  None \<Rightarrow> None
                | Some (lg, d) \<Rightarrow>
                    map_option (Pair (- EINVAL)) (queue_state r Q_STATE_DISABLED (l\<lparr>lf_legacy := lg, lf_dev := d\<rparr>))
           else if rv < 0 then map_option (Pair (- EINVAL)) (queue_state r Q_STATE_DISABLED l)
           else Some (0, l))"

definition add_checks :: "life_conf \<Rightarrow> qdma_queue_conf \<Rightarrow> 's life \<Rightarrow> int" where
  "add_checks c conf l =
     (if cf_q_type conf = Q_H2C_C2H then - EINVAL
      else if cf_st conf \<and> cf_q_type conf = Q_CMPT then - EINVAL
      else if cf_q_type conf = Q_CMPT \<and> \<not> lc_mm_cmpt_en c then - EINVAL
      else if cf_st conf \<and> \<not> lc_st_en c \<or> \<not> cf_st conf \<and> \<not> lc_mm_en c then - EINVAL
      else if qdma_validate_qconfig c conf < 0 then qdma_validate_qconfig c conf
      else if cf_qidx conf \<noteq> QDMA_QUEUE_IDX_INVALID \<and> cf_qidx conf \<ge> ucast (lc_qmax c) then - EINVAL
      else if (of_int (qdma_get_device_active_queue_count (lc_dma_device_index c) (lc_func_id c)
                 (dev_q_type (cf_q_type conf)) (lf_rm l)) :: u32) \<ge> ucast (lc_qmax c) then - EIO
      else 0)"

definition queue_handle :: "life_conf \<Rightarrow> queue_type_t \<Rightarrow> nat \<Rightarrow> nat" where
  "queue_handle c t i =
     i + (if t = Q_C2H then unat (lc_qmax c) else 0) + (if t = Q_CMPT then 2 * unat (lc_qmax c) else 0)"

text \<open>The queue is enabled before its resources are prepared; only the failure of the legacy interrupt
  disables it again.\<close>

definition add_queue ::
    "'s life_env \<Rightarrow> life_conf \<Rightarrow> qdma_queue_conf \<Rightarrow> life_ref \<Rightarrow> 's life \<Rightarrow> (int \<times> 's life) option" where
  "add_queue env c conf r l =
     (case queue_state r Q_STATE_ENABLED l of
        None \<Rightarrow> None
      | Some l \<Rightarrow>
      case qdma_device_prep_q_resource env c l of
        None \<Rightarrow> None
      | Some (rv, l) \<Rightarrow> if rv < 0 then Some (rv, l) else
      case add_legacy env c r l of
        None \<Rightarrow> None
      | Some (rv, l) \<Rightarrow> if rv < 0 then Some (rv, l) else
      case queue_get r l of
        None \<Rightarrow> None
      | Some q \<Rightarrow>
          let l = queue_put r (qdma_descq_config c conf False q) l
          in case count_added c conf (lf_rm l) of (rv, rm) \<Rightarrow> Some (rv, l\<lparr>lf_rm := rm\<rparr>))"

text \<open>The result has the handle of the queue; \<open>valid\<close> says that the handle of the device and the pointers of the
  caller are valid.\<close>

definition qdma_queue_add ::
    "'s life_env \<Rightarrow> life_conf \<Rightarrow> bool \<Rightarrow> qdma_queue_conf \<Rightarrow> 's life \<Rightarrow> (int \<times> nat option \<times> 's life) option" where
  "qdma_queue_add env c valid conf l =
     (if \<not> valid then Some (- EINVAL, None, l)
      else if add_checks c conf l < 0 then Some (add_checks c conf l, None, l)
      else case pick_queue c conf l of
        None \<Rightarrow> None
      | Some (Inl rv) \<Rightarrow> Some (rv, None, l)
      | Some (Inr (qidx, slot)) \<Rightarrow>
          case add_queue env c (conf\<lparr>cf_qidx := of_nat qidx\<rparr>) (cf_q_type conf, slot) l of
            None \<Rightarrow> None
          | Some (rv, l) \<Rightarrow>
              if rv < 0 then Some (rv, None, l) else Some (0, Some (queue_handle c (cf_q_type conf) qidx), l))"

section \<open>Changing and removing a queue\<close>

definition qdma_queue_config ::
    "life_conf \<Rightarrow> bool \<Rightarrow> nat \<Rightarrow> qdma_queue_conf \<Rightarrow> 's life \<Rightarrow> (int \<times> 's life) option" where
  "qdma_queue_config c valid idx conf l =
     (if \<not> valid then Some (- EINVAL, l)
      else case qdma_device_get_descq_by_id c idx False l of
        None \<Rightarrow> Some (- EINVAL, l)
      | Some r \<Rightarrow>
          case queue_get r l of
            None \<Rightarrow> None
          | Some q \<Rightarrow>
              if lq_state q \<noteq> Q_STATE_ENABLED then Some (- EINVAL, l)
              else if qdma_validate_qconfig c conf \<noteq> 0 then Some (qdma_validate_qconfig c conf, l)
              else Some (0, queue_put r (qdma_descq_config c conf True q) l))"

definition qdma_queue_remove :: "'s life_env \<Rightarrow> life_conf \<Rightarrow> bool \<Rightarrow> nat \<Rightarrow> 's life \<Rightarrow> (int \<times> 's life) option" where
  "qdma_queue_remove env c valid idx l =
     (if \<not> valid then Some (- EINVAL, l)
      else case qdma_device_get_descq_by_id c idx True l of
        None \<Rightarrow> Some (- EINVAL, l)
      | Some r \<Rightarrow>
          case queue_get r l of
            None \<Rightarrow> None
          | Some q \<Rightarrow>
              if lq_state q \<noteq> Q_STATE_ENABLED then Some (- EINVAL, l)
              else case count_removed c (lq_conf q) (lf_rm l) of (rv, rm) \<Rightarrow>
                let l = l\<lparr>lf_rm := rm\<rparr>
                in if rv < 0 then Some (rv, l)
                   else let l = queue_put r (q\<lparr>lq_state := Q_STATE_DISABLED\<rparr>) l
                        in if lc_drv_mode c = LEGACY_INTR_MODE
                           then case intr_legacy_clear (le_legacy env) (Some r) (lf_legacy l) (lf_dev l) of
                                  None \<Rightarrow> None
                                | Some (lg, d) \<Rightarrow> Some (0, l\<lparr>lf_legacy := lg, lf_dev := d\<rparr>)
                           else Some (0, l))"

section \<open>Starting and stopping a queue\<close>

definition start_checks :: "life_conf \<Rightarrow> life_queue \<Rightarrow> int" where
  "start_checks c q =
     (let a = cf_aperture_size (lq_conf q)
      in if lq_state q \<noteq> Q_STATE_ENABLED then - EINVAL
         else if lc_eqdma_2020_2 c \<and> lc_desc_eng_mode c = QDMA_DESC_ENG_BYPASS_ONLY then - EINVAL
         else if lc_eqdma_2020_2 c \<and> cf_desc_bypass (lq_conf q) \<and> lc_desc_eng_mode c = QDMA_DESC_ENG_INTERNAL_ONLY
         then - EINVAL
         else if a \<noteq> 0 \<and> a AND (a - 1) \<noteq> 0 then - ERANGE
         else 0)"

definition vec_add :: "nat \<Rightarrow> life_ref \<Rightarrow> intr_info_t list \<Rightarrow> intr_info_t list option" where
  "vec_add v r vecs =
     (if v < length vecs
      then let i = vecs ! v in Some (vecs[v := i\<lparr>vi_list := vi_list i @ [r], vi_cnt := vi_cnt i + 1\<rparr>]) else None)"

definition vec_del :: "nat \<Rightarrow> life_ref \<Rightarrow> intr_info_t list \<Rightarrow> intr_info_t list option" where
  "vec_del v r vecs =
     (if v < length vecs \<and> r \<in> set (vi_list (vecs ! v))
      then let i = vecs ! v in Some (vecs[v := i\<lparr>vi_list := remove1 r (vi_list i), vi_cnt := vi_cnt i - 1\<rparr>]) else None)"

text \<open>Memory is allocated and the vector chosen, then the contexts are programmed; when that fails they are
  cleared and the memory is freed.\<close>

definition start_queue :: "'s life_env \<Rightarrow> life_conf \<Rightarrow> life_ref \<Rightarrow> life_queue \<Rightarrow> 's life \<Rightarrow> (int \<times> 's life) option" where
  "start_queue env c r q l =
     (case le_prog_hw env r q (lf_dev l) of (rv, d) \<Rightarrow>
        if rv < 0
        then case qdma_descq_context_clear (le_hw env) (qidx_hw c r) (cf_st (lq_conf q)) (cf_q_type (lq_conf q)) True d of
               None \<Rightarrow> None
             | Some (_, d) \<Rightarrow> Some (rv, queue_put r (q\<lparr>lq_resource := False\<rparr>) (l\<lparr>lf_dev := d\<rparr>))
        else case (if lf_vecs l \<noteq> [] then vec_add (lq_intr_id q) r (lf_vecs l) else Some []) of
               None \<Rightarrow> None
             | Some vecs \<Rightarrow> Some (0, queue_put r (q\<lparr>lq_state := Q_STATE_ONLINE\<rparr>) (l\<lparr>lf_dev := d, lf_vecs := vecs\<rparr>)))"

definition qdma_queue_start :: "'s life_env \<Rightarrow> life_conf \<Rightarrow> bool \<Rightarrow> nat \<Rightarrow> 's life \<Rightarrow> (int \<times> 's life) option" where
  "qdma_queue_start env c valid idx l =
     (if \<not> valid then Some (- EINVAL, l)
      else case qdma_device_get_descq_by_id c idx True l of
        None \<Rightarrow> Some (- EINVAL, l)
      | Some r \<Rightarrow>
          case queue_get r l of
            None \<Rightarrow> None
          | Some q \<Rightarrow>
              if start_checks c q < 0 then Some (start_checks c q, l)
              else if \<not> le_memory env r then Some (- ENOMEM, l)
              else start_queue env c r (q\<lparr>lq_resource := True, lq_intr_id := desc_alloc_irq (lc_drv_mode c)
                     (lc_dvec_start_idx c) (map vi_cnt (lf_vecs l)) (lq_intr_id q)\<rparr>) l)"

text \<open>Requests that are left are ended with \<^verbatim>\<open>ENXIO\<close>; those with a callback are taken off the list, the others
  stay until the thread that waits for them removes them.\<close>

definition cancelled :: "qdma_request \<Rightarrow> qdma_request" where
  "cancelled r = r\<lparr>cb_is_done := True, cb_status := - ENXIO\<rparr>"

definition cancel_requests :: "life_queue \<Rightarrow> life_queue" where
  "cancel_requests q =
     (let rs = lq_pend_list q @ lq_work_list q
      in q\<lparr>lq_pend_list := map cancelled (filter (\<lambda>r. \<not> rq_fp_done r) (lq_pend_list q)),
           lq_work_list := map cancelled (filter (\<lambda>r. \<not> rq_fp_done r) (lq_work_list q)),
           lq_done := lq_done q @ map (\<lambda>r. (cancelled r, 0, - ENXIO)) (filter rq_fp_done rs)\<rparr>)"

text \<open>The lists are those at the end of the wait for pending requests.\<close>

definition stop_queue :: "'s life_env \<Rightarrow> life_conf \<Rightarrow> life_ref \<Rightarrow> life_queue \<Rightarrow> 's life \<Rightarrow> (int \<times> 's life) option" where
  "stop_queue env c r q l =
     (case qdma_descq_context_clear (le_hw env) (qidx_hw c r) (cf_st (lq_conf q)) (cf_q_type (lq_conf q)) False (lf_dev l) of
        None \<Rightarrow> None
      | Some (_, d) \<Rightarrow>
          case (if lc_drv_mode c \<noteq> POLL_MODE \<and> lc_drv_mode c \<noteq> LEGACY_INTR_MODE
                then vec_del (lq_intr_id q) r (lf_vecs l) else Some (lf_vecs l)) of
            None \<Rightarrow> None
          | Some vecs \<Rightarrow> Some (0, queue_put r (q\<lparr>lq_resource := False\<rparr>) (l\<lparr>lf_dev := d, lf_vecs := vecs\<rparr>)))"

definition qdma_queue_stop :: "'s life_env \<Rightarrow> life_conf \<Rightarrow> bool \<Rightarrow> nat \<Rightarrow> 's life \<Rightarrow> (int \<times> 's life) option" where
  "qdma_queue_stop env c valid idx l =
     (if \<not> valid then Some (- EINVAL, l)
      else case qdma_device_get_descq_by_id c idx True l of
        None \<Rightarrow> Some (- EINVAL, l)
      | Some r \<Rightarrow>
          case queue_get r l of
            None \<Rightarrow> None
          | Some q \<Rightarrow>
              if lq_state q \<noteq> Q_STATE_ONLINE then Some (- EINVAL, l)
              else stop_queue env c r (cancel_requests (q\<lparr>lq_state := Q_STATE_ENABLED, lq_stop_wait := False\<rparr>)) l)"

end
