(* ===== verification/QueueIntrProps.thy ===== *)
theory QueueIntrProps
  imports QueueIntr QueueCtxProps "HOL-Library.Sublist"
begin

text \<open>
  Properties of the interrupt handling.  The device writes entries into the aggregation ring and marks each
  with the colour of its lap; the handler follows by colour.  The locale \<open>aggr_ring\<close> states what the device
  does; the handler refines the sequence of entries written: it tells the queue of each entry once, in order.
\<close>

section \<open>The ring and its colours\<close>

text \<open>The memory of a ring of \<open>N\<close> entries, zero at first, after the entries \<open>ws\<close> were written in turn.\<close>

definition aggr_mem :: "nat \<Rightarrow> u64 list \<Rightarrow> u64 list" where
  "aggr_mem N ws = fold (\<lambda>(k, w) m. m[k mod N := w]) (enumerate 0 ws) (replicate N 0)"

definition lap_color :: "nat \<Rightarrow> nat \<Rightarrow> u8" where
  "lap_color N k = (if even (k div N) then 1 else 0)"

lemma aggr_mem_Nil [simp]: "aggr_mem N [] = replicate N 0" by (simp add: aggr_mem_def)

lemma aggr_mem_snoc [simp]: "aggr_mem N (ws @ [w]) = (aggr_mem N ws)[length ws mod N := w]"
  by (simp add: aggr_mem_def enumerate_append_eq)

lemma length_aggr_mem [simp]: "length (aggr_mem N ws) = N"
  by (induction ws rule: rev_induct) simp_all

lemma mod_apart: "c < n \<Longrightarrow> n < c + N \<Longrightarrow> n mod N \<noteq> c mod (N :: nat)"
  by (metis add_diff_inverse_nat dvd_imp_le less_diff_conv2 mod_eq_dvd_iff_nat not_less_iff_gr_or_eq
      order_less_imp_le zero_less_diff add.commute not_le)

lemma aggr_mem_entry: "0 < N \<Longrightarrow> c < length ws \<Longrightarrow> length ws \<le> c + N \<Longrightarrow> aggr_mem N ws ! (c mod N) = ws ! c"
proof (induction ws rule: rev_induct)
  case (snoc w ws)
  show ?case
  proof (cases "c = length ws")
    case False
    then have "length ws mod N \<noteq> c mod N" using snoc.prems by (intro mod_apart) auto
    with False snoc show ?thesis by (simp add: nth_append)
  qed (use snoc in \<open>simp add: nth_append\<close>)
qed simp

lemma aggr_mem_unwritten: "length ws \<le> i \<Longrightarrow> i < N \<Longrightarrow> aggr_mem N ws ! i = 0"
  by (induction ws rule: rev_induct) auto

lemma lap_color_add [simp]: "0 < N \<Longrightarrow> lap_color N (c + N) = (if lap_color N c = 0 then 1 else 0)"
  by (auto simp: lap_color_def div_add_self2)

lemma lap_color_Suc:
  "0 < N \<Longrightarrow> lap_color N (Suc c) =
     (if Suc (c mod N) = N then if lap_color N c \<noteq> 0 then 0 else 1 else lap_color N c)"
  by (auto simp: lap_color_def div_Suc mod_Suc)

section \<open>Entries and the contract of the device\<close>

definition entry_queue :: "bool \<Rightarrow> qdma_dev \<Rightarrow> u64 \<Rightarrow> queue_ref" where
  "entry_queue cpm4 qdev w =
     qdma_device_get_descq_by_hw_qid qdev (ucast (re_qid (ring_entry cpm4 w))) (re_type (ring_entry cpm4 w))"

definition entry_signal :: "bool \<Rightarrow> qdma_dev \<Rightarrow> u64 \<Rightarrow> intr_event" where
  "entry_signal cpm4 qdev w = (let r = entry_queue cpm4 qdev w in signal (the (queue_at qdev r)) r)"

definition entry_ok :: "bool \<Rightarrow> qdma_dev \<Rightarrow> nat \<Rightarrow> nat \<Rightarrow> u64 \<Rightarrow> bool" where
  "entry_ok cpm4 qdev N k w \<longleftrightarrow>
     re_color (ring_entry cpm4 w) = lap_color N k \<and> queue_at qdev (entry_queue cpm4 qdev w) \<noteq> None"

lemma ring_entry_0 [simp]: "re_color (ring_entry cpm4 0) = 0"
  by (simp add: ring_entry_def ring_cpm_def ring_generic_def bits_at_def)

text \<open>In a good state the device has written the entries \<open>posted\<close>, of which it knows \<open>seen\<close> to be consumed,
  and does not write over entries that are not.  It may write more at any read.  An update of the consumer
  index gives it the number of entries consumed, modulo the size of the ring.\<close>

locale aggr_ring =
  fixes dev :: "'s aggr_dev" and cpm4 :: bool and qdev :: qdma_dev and N :: nat and base :: "nat option"
    and ok :: "'s \<Rightarrow> bool" and posted :: "'s \<Rightarrow> u64 list" and seen :: "'s \<Rightarrow> nat"
  assumes size: "0 < N" "N < 2 ^ 16"
    and room: "ok s \<Longrightarrow> length (posted s) < seen s + N"
    and entries: "ok s \<Longrightarrow> k < length (posted s) \<Longrightarrow> entry_ok cpm4 qdev N k (posted s ! k)"
    and read: "ok s \<Longrightarrow> i < N \<Longrightarrow> ad_entry dev base i s = (w, s') \<Longrightarrow>
      ok s' \<and> seen s' = seen s \<and> prefix (posted s) (posted s') \<and> w = aggr_mem N (posted s') ! i"
    and update: "ok s \<Longrightarrow> seen s \<le> c \<Longrightarrow> c \<le> length (posted s) \<Longrightarrow> unat (sw_cidx info) = c mod N \<Longrightarrow>
      ad_cidx_update dev qid info s = (rv, s') \<Longrightarrow> ok s' \<and> seen s' = c \<and> prefix (posted s) (posted s')"
begin

text \<open>The colour of the slot at the consumer index tells whether the entry is new.\<close>

lemma slot_new:
  assumes "ok s" and "seen s \<le> c" and "c < length (posted s)"
  shows "aggr_mem N (posted s) ! (c mod N) = posted s ! c"
  using assms size room [of s] by (intro aggr_mem_entry) auto

lemma slot_old:
  assumes "ok s" and "c = length (posted s)"
  shows "re_color (ring_entry cpm4 (aggr_mem N (posted s) ! (c mod N))) \<noteq> lap_color N c"
proof (cases "c < N")
  case True
  then show ?thesis using assms by (simp add: aggr_mem_unwritten lap_color_def)
next
  case False
  then obtain b where b: "c = b + N" by (metis add.commute le_Suc_ex not_less)
  have "aggr_mem N (posted s) ! (b mod N) = posted s ! b"
    using assms b size by (intro aggr_mem_entry) auto
  moreover have "c mod N = b mod N" by (simp add: b)
  moreover have "b < length (posted s)" using assms(2) b size by simp
  ultimately have "re_color (ring_entry cpm4 (aggr_mem N (posted s) ! (c mod N))) = lap_color N b"
    using entries [OF assms(1), of b] by (simp add: entry_ok_def)
  then show ?thesis using b size by simp
qed

text \<open>The position of the handler: it has consumed \<open>c\<close> entries.\<close>

definition at_entry :: "nat \<Rightarrow> intr_coal_conf list \<Rightarrow> bool" where
  "at_entry c coal \<longleftrightarrow>
     (\<exists>e. coal = [e] \<and> intr_rng_num_entries e = of_nat N \<and> intr_ring_base e = base \<and>
        unat (sw_cidx (intr_cidx_info e)) = c mod N \<and> coal_color e = lap_color N c)"

lemma at_entry_next:
  assumes "at_entry c coal"
  shows "\<exists>coal'. next_cidx 0 (of_nat (c mod N)) coal = (of_nat (Suc c mod N), coal') \<and> at_entry (Suc c) coal' \<and>
    vec_id (coal' ! 0) = vec_id (coal ! 0)"
proof -
  obtain e where e: "coal = [e]" "intr_rng_num_entries e = of_nat N" "intr_ring_base e = base"
      "unat (sw_cidx (intr_cidx_info e)) = c mod N" "coal_color e = lap_color N c"
    using assms by (auto simp: at_entry_def)
  have "c mod N < N" using size by simp
  with size have s: "unat (sw_cidx (intr_cidx_info e) + 1) = Suc (c mod N)"
    using e(4) by (subst unat_plus_bounded) auto
  have "sw_cidx (intr_cidx_info e) + 1 = of_nat N \<longleftrightarrow> Suc (c mod N) = N"
    using size by (simp add: word_unat_eq_iff s unat_of_nat take_bit_nat_eq_self)
  then show ?thesis
    using e s size lap_color_Suc [of N c] mod_Suc [of c N] unfolding at_entry_def next_cidx_def by (auto simp: Let_def)
qed

text \<open>The loop tells the queue of every entry from the position on and stops behind the last one
  written.\<close>

definition told :: "nat \<Rightarrow> 's \<Rightarrow> aggr_state \<Rightarrow> nat \<Rightarrow> 's \<Rightarrow> aggr_state \<Rightarrow> bool" where
  "told c d a c' d' a' \<longleftrightarrow>
     ok d' \<and> seen d' = seen d \<and> prefix (posted d) (posted d') \<and> c \<le> c' \<and> c' = length (posted d') \<and>
     at_entry c' (ag_coal a') \<and> vec_id (ag_coal a' ! 0) = vec_id (ag_coal a ! 0) \<and>
     ag_events a' = ag_events a @ map (entry_signal cpm4 qdev) (drop c (posted d')) \<and>
     ag_prev a' = (if c = c' then ag_prev a else Some (entry_queue cpm4 qdev (last (posted d'))))"

lemma aggregate_loop_tells:
  assumes "ok d" and "seen d \<le> c" and "c \<le> length (posted d)" and "at_entry c (ag_coal a)"
  shows "\<exists>c' d' a'. aggregate_loop dev cpm4 qdev 0 (of_nat (c mod N)) descq a d =
      Some (Agg_ok, if c = c' then descq else ag_prev a', a', d') \<and> told c d a c' d' a'"
  using assms
proof (induction "seen d + N - c" arbitrary: c d a descq rule: less_induct)
  case less
  obtain w d1 where r: "ad_entry dev base (c mod N) d = (w, d1)" by force
  have d1: "ok d1" "seen d1 = seen d" "prefix (posted d) (posted d1)" "w = aggr_mem N (posted d1) ! (c mod N)"
    using read [OF less.prems(1) _ r] size by auto
  have u: "unat (of_nat (c mod N) :: u32) = c mod N"
  proof -
    have "c mod N < N" using size by simp
    with size show ?thesis by (simp add: unat_of_nat take_bit_nat_eq_self)
  qed
  obtain e where e: "ag_coal a = [e]" "intr_ring_base e = base" "coal_color e = lap_color N c"
    using less.prems(4) by (auto simp: at_entry_def)
  have len: "c \<le> length (posted d1)" using less.prems(3) d1(3) prefix_length_le by force
  show ?case
  proof (cases "c = length (posted d1)")
    case True
    then show ?thesis
      using slot_old [OF d1(1) True] d1 less.prems(4) e r u
      by (intro exI [of _ c] exI [of _ d1] exI [of _ a]) (simp add: aggregate_loop.simps told_def)
  next
    case False
    with len have c: "c < length (posted d1)" by simp
    with slot_new [OF d1(1)] less.prems(2) d1 have w: "w = posted d1 ! c" by simp
    have k: "re_color (ring_entry cpm4 w) = lap_color N c" "queue_at qdev (entry_queue cpm4 qdev w) \<noteq> None"
      using entries [OF d1(1) c] by (simp_all add: w entry_ok_def)
    then obtain q where q: "queue_at qdev (entry_queue cpm4 qdev w) = Some q" by blast
    obtain coal' where n: "next_cidx 0 (of_nat (c mod N)) (ag_coal a) = (of_nat (Suc c mod N), coal')"
        "at_entry (Suc c) coal'" "vec_id (coal' ! 0) = vec_id (ag_coal a ! 0)"
      using at_entry_next [OF less.prems(4)] by blast
    define a1 where "a1 = a\<lparr>ag_coal := coal', ag_prev := Some (entry_queue cpm4 qdev w),
      ag_events := ag_events a @ [entry_signal cpm4 qdev w]\<rparr>"
    have step: "aggregate_loop dev cpm4 qdev 0 (of_nat (c mod N)) descq a d =
        aggregate_loop dev cpm4 qdev 0 (of_nat (Suc c mod N)) (Some (entry_queue cpm4 qdev w)) a1 d1"
      using e r u k q n
      by (subst aggregate_loop.simps)
        (simp add: a1_def entry_queue_def [symmetric] entry_signal_def Let_def)
    have "seen d + N - Suc c < seen d + N - c" using room [OF d1(1)] d1(2) c by simp
    from less.hyps [of d1 "Suc c" a1 "Some (entry_queue cpm4 qdev w)"] this d1 less.prems(2) c n
    obtain c' d' a' where ih: "aggregate_loop dev cpm4 qdev 0 (of_nat (Suc c mod N)) (Some (entry_queue cpm4 qdev w)) a1 d1 =
        Some (Agg_ok, if Suc c = c' then Some (entry_queue cpm4 qdev w) else ag_prev a', a', d')"
        "told (Suc c) d1 a1 c' d' a'"
      by (auto simp: a1_def)
    have d': "prefix (posted d1) (posted d')" "Suc c \<le> c'" "c' = length (posted d')"
      using ih(2) by (simp_all add: told_def)
    then have wc: "posted d' ! c = w" using c w by (auto simp: prefix_def nth_append)
    have "drop c (posted d') = w # drop (Suc c) (posted d')"
      using Cons_nth_drop_Suc [of c "posted d'"] d' wc by simp
    moreover have "Suc c = c' \<Longrightarrow> last (posted d') = w" using d' wc by (metis diff_Suc_1 last_conv_nth length_0_conv old.nat.distinct(1))
    ultimately show ?thesis
      using ih d1 d' n step
      by (intro exI [of _ c'] exI [of _ d'] exI [of _ a'])
        (auto simp: told_def a1_def prefix_order.trans)
  qed
qed

text \<open>The invariant of a run: the calls made are those for the first \<open>c\<close> entries.\<close>

definition aggr_inv :: "u16 \<Rightarrow> nat \<Rightarrow> aggr_state \<Rightarrow> 's \<Rightarrow> bool" where
  "aggr_inv v c a d \<longleftrightarrow>
     ok d \<and> seen d \<le> c \<and> c \<le> length (posted d) \<and> at_entry c (ag_coal a) \<and> vec_id (ag_coal a ! 0) = v \<and>
     ag_events a = map (entry_signal cpm4 qdev) (take c (posted d)) \<and>
     ag_prev a = (if c = 0 then None else Some (entry_queue cpm4 qdev (posted d ! (c - 1))))"

lemma aggr_inv_more:
  assumes "aggr_inv v c a d" and "ok d'" and "prefix (posted d) (posted d')" and "seen d' \<le> c"
  shows "aggr_inv v c a d'"
proof -
  from assms(3) obtain ws where "posted d' = posted d @ ws" by (auto simp: prefix_def)
  with assms show ?thesis by (auto simp: aggr_inv_def nth_append)
qed

lemma told_inv:
  assumes i: "aggr_inv v c a d" and t: "told c d a c' d' a'"
  shows "aggr_inv v c' a' d'"
proof -
  from t obtain ws where ws: "posted d' = posted d @ ws" by (auto simp: told_def prefix_def)
  have c: "c \<le> length (posted d)" "c' = length (posted d')" "seen d \<le> c" using i t by (simp_all add: aggr_inv_def told_def)
  have "ag_events a' = map (entry_signal cpm4 qdev) (take c (posted d') @ drop c (posted d'))"
    using i t ws c unfolding aggr_inv_def told_def by simp
  moreover have "ag_prev a' = (if c' = 0 then None else Some (entry_queue cpm4 qdev (posted d' ! (c' - 1))))"
    using i t ws c unfolding aggr_inv_def told_def by (auto simp: last_conv_nth nth_append)
  ultimately show ?thesis using i t c unfolding aggr_inv_def told_def by simp
qed

lemma entry_queue_found: "aggr_inv v c a d \<Longrightarrow> 0 < c \<Longrightarrow> queue_at qdev (entry_queue cpm4 qdev (posted d ! (c - 1))) \<noteq> None"
  using entries [of d "c - 1"] by (auto simp: aggr_inv_def entry_ok_def)

text \<open>The handler returns; everything written before the call is handled, and the device is told.\<close>

lemma handler_tells:
  assumes i: "aggr_inv (msix ! unat vidx) c a d" and v: "unat vidx < length msix"
  shows "\<exists>c' a' d'. data_intr_aggregate dev cpm4 qdev vidx msix vidx a d = Some (Agg_ok, a', d') \<and>
    aggr_inv (msix ! unat vidx) c' a' d' \<and> prefix (posted d) (posted d') \<and> length (posted d) \<le> c' \<and>
    (0 < c' \<longrightarrow> seen d' = c')"
proof -
  obtain e where e: "ag_coal a = [e]" "unat (sw_cidx (intr_cidx_info e)) = c mod N" "vec_id e = msix ! unat vidx"
    using i by (auto simp: aggr_inv_def at_entry_def)
  then have idx: "(ucast (sw_cidx (intr_cidx_info e)) :: u32) = of_nat (c mod N)"
    by (metis of_nat_unat)
  obtain c' d1 a1 where l: "aggregate_loop dev cpm4 qdev 0 (of_nat (c mod N)) None a d =
      Some (Agg_ok, if c = c' then None else ag_prev a1, a1, d1)" "told c d a c' d1 a1"
    using aggregate_loop_tells [of d c a None] i by (auto simp: aggr_inv_def)
  note inv = told_inv [OF i l(2)]
  have c': "length (posted d) \<le> c'" "c \<le> c'" "prefix (posted d) (posted d1)" "c = c' \<Longrightarrow> ag_prev a1 = ag_prev a"
    using l(2) prefix_length_le by (auto simp: told_def)
  have via: "(case if c = c' then None else ag_prev a1 of None \<Rightarrow> ag_prev a1 | Some r \<Rightarrow> Some r) = ag_prev a1"
    by (simp split: option.split)
  have run: "data_intr_aggregate dev cpm4 qdev vidx msix vidx a d =
      cidx_update_via dev qdev 0 (if c = c' then None else ag_prev a1) a1 d1"
    using e v idx l(1) by (simp add: data_intr_aggregate_def)
  show ?thesis
  proof (cases "c' = 0")
    case True
    then show ?thesis
      using inv c' run
      by (intro exI [of _ c'] exI [of _ a1] exI [of _ d1]) (auto simp: cidx_update_via_def aggr_inv_def)
  next
    case False
    then obtain q where q: "ag_prev a1 = Some (entry_queue cpm4 qdev (posted d1 ! (c' - 1)))"
        "queue_at qdev (entry_queue cpm4 qdev (posted d1 ! (c' - 1))) = Some q"
      using entry_queue_found [OF inv] inv by (auto simp: aggr_inv_def)
    obtain rv d2 where d2: "ad_cidx_update dev (iq_qidx q) (intr_cidx_info (ag_coal a1 ! 0)) d1 = (rv, d2)" by force
    have "unat (sw_cidx (intr_cidx_info (ag_coal a1 ! 0))) = c' mod N" using inv by (auto simp: aggr_inv_def at_entry_def)
    then have u: "ok d2 \<and> seen d2 = c' \<and> prefix (posted d1) (posted d2)"
      using update [OF _ _ _ _ d2, of c'] inv by (auto simp: aggr_inv_def)
    have "data_intr_aggregate dev cpm4 qdev vidx msix vidx a d = Some (Agg_ok, a1, d2)"
      unfolding run cidx_update_via_def via q(1) by (simp add: q(2) [simplified] d2)
    moreover have "aggr_inv (msix ! unat vidx) c' a1 d2" using u by (intro aggr_inv_more [OF inv]) auto
    ultimately show ?thesis
      using u c' prefix_order.trans by (intro exI [of _ c'] exI [of _ a1] exI [of _ d2]) auto
  qed
qed

end

section \<open>Runs of the handler\<close>

text \<open>From the set-up of the ring on, the handler is called for the interrupts of its vector, and the device
  goes on writing entries.\<close>

inductive aggr_run ::
    "'s aggr_dev \<Rightarrow> bool \<Rightarrow> qdma_dev \<Rightarrow> xlnx_dma_dev \<Rightarrow> u16 list \<Rightarrow> ('s \<Rightarrow> bool) \<Rightarrow> ('s \<Rightarrow> u64 list) \<Rightarrow> ('s \<Rightarrow> nat) \<Rightarrow>
       aggr_state \<Rightarrow> 's \<Rightarrow> bool"
  for dev cpm4 qdev xdev msix ok posted seen where
  start: "ok d \<Longrightarrow> posted d = [] \<Longrightarrow> seen d = 0 \<Longrightarrow>
    aggr_run dev cpm4 qdev xdev msix ok posted seen
      \<lparr>ag_coal = xd_intr_coal_list xdev, ag_prev = None, ag_events = []\<rparr> d"
| interrupt: "aggr_run dev cpm4 qdev xdev msix ok posted seen a d \<Longrightarrow>
    data_intr_aggregate dev cpm4 qdev (xd_dvec_start_idx xdev) msix (xd_dvec_start_idx xdev) a d = Some (out, a', d') \<Longrightarrow>
    aggr_run dev cpm4 qdev xdev msix ok posted seen a' d'"
| device: "aggr_run dev cpm4 qdev xdev msix ok posted seen a d \<Longrightarrow>
    ok d' \<Longrightarrow> prefix (posted d) (posted d') \<Longrightarrow> seen d' = seen d \<Longrightarrow>
    aggr_run dev cpm4 qdev xdev msix ok posted seen a d'"

lemma ring_setup_entry:
  assumes "intr_ring_setup num_vecs True msix (Some (b, bus) # mem) xdev0 = Some (0, xdev)"
    and "aggr_mode xdev0" and "num_vecs \<noteq> 0" and "unat (xd_dvec_start_idx xdev0) < length msix"
    and "N = (unat (xd_intr_rngsz xdev0) + 1) * 512" and "N < 2 ^ 16"
  shows "\<exists>e. xd_intr_coal_list xdev = [e] \<and> vec_id e = msix ! unat (xd_dvec_start_idx xdev) \<and>
    intr_rng_num_entries e = of_nat N \<and> intr_ring_base e = Some b \<and> coal_color e = 1 \<and> sw_cidx (intr_cidx_info e) = 0"
    "xd_dvec_start_idx xdev = xd_dvec_start_idx xdev0"
proof -
  have "(ucast (xd_intr_rngsz xdev0) + 1) * 512 = (of_nat N :: u32)" by (simp add: assms(5) of_nat_unat)
  then have "(ucast ((ucast (xd_intr_rngsz xdev0) + 1) * 512 :: u32) :: u16) = of_nat N"
    using assms(6) by (simp add: unsigned_of_nat take_bit_nat_eq_self)
  then show "\<exists>e. xd_intr_coal_list xdev = [e] \<and> vec_id e = msix ! unat (xd_dvec_start_idx xdev) \<and>
      intr_rng_num_entries e = of_nat N \<and> intr_ring_base e = Some b \<and> coal_color e = 1 \<and> sw_cidx (intr_cidx_info e) = 0"
    "xd_dvec_start_idx xdev = xd_dvec_start_idx xdev0"
    using assms(1-4) by (auto simp: intr_ring_setup_def Let_def)
qed

text \<open>C13: Aggregated interrupts are neither lost nor handled twice.  Take a ring set up by
  \<^verbatim>\<open>intr_ring_setup\<close> and any run in which the device writes entries and the handler is called for its vector.
  The calls made to queues are at all times those for the first entries written, one per entry and in their
  order.  A further call of \<^verbatim>\<open>data_intr_aggregate\<close> returns, although the device may write during the loop;
  afterwards every entry that was written before the call has been handled, no access was out of bounds, and
  the device knows how many entries are consumed.\<close>

theorem aggregated_interrupts_exact:
  assumes dev: "aggr_ring dev cpm4 qdev N (Some b) ok posted seen"
    and su: "intr_ring_setup num_vecs True msix (Some (b, bus) # mem) xdev0 = Some (0, xdev)"
      "aggr_mode xdev0" "num_vecs \<noteq> 0" "unat (xd_dvec_start_idx xdev0) < length msix"
    and N: "N = (unat (xd_intr_rngsz xdev0) + 1) * 512"
    and run: "aggr_run dev cpm4 qdev xdev msix ok posted seen a d"
  shows "(\<exists>c \<le> length (posted d). ag_events a = map (entry_signal cpm4 qdev) (take c (posted d))) \<and>
    (\<exists>a' d' c'. data_intr_aggregate dev cpm4 qdev (xd_dvec_start_idx xdev) msix (xd_dvec_start_idx xdev) a d =
         Some (Agg_ok, a', d') \<and>
       prefix (posted d) (posted d') \<and> length (posted d) \<le> c' \<and> c' \<le> length (posted d') \<and>
       ag_events a' = map (entry_signal cpm4 qdev) (take c' (posted d')) \<and> (0 < c' \<longrightarrow> seen d' = c'))"
proof -
  let ?v = "xd_dvec_start_idx xdev"
  note size = aggr_ring.size [OF dev] and inv_def = aggr_ring.aggr_inv_def [OF dev]
  note ring = ring_setup_entry [OF su N size(2)]
  have v: "unat ?v < length msix" using su(4) ring(2) by simp
  note tells = aggr_ring.handler_tells [OF dev _ v]
  from run have "\<exists>c. aggr_ring.aggr_inv cpm4 qdev N (Some b) ok posted seen (msix ! unat ?v) c a d"
  proof (induction rule: aggr_run.induct)
    case (start d)
    then show ?case
      using ring size by (intro exI [of _ 0]) (auto simp: inv_def aggr_ring.at_entry_def [OF dev] lap_color_def)
  next
    case (interrupt a d out a' d')
    then show ?case using tells by fastforce
  next
    case (device a d d')
    then obtain c where "aggr_ring.aggr_inv cpm4 qdev N (Some b) ok posted seen (msix ! unat ?v) c a d" by blast
    from aggr_ring.aggr_inv_more [OF dev this] device.hyps this show ?case by (auto simp: inv_def)
  qed
  then obtain c where c: "aggr_ring.aggr_inv cpm4 qdev N (Some b) ok posted seen (msix ! unat ?v) c a d" by blast
  then show ?thesis using tells [OF c] unfolding inv_def by blast
qed

section \<open>A device with an interrupt engine\<close>

text \<open>An engine that has entries to write, writes one whenever the memory is read and there is room, and takes
  the consumer index from the register that \<^verbatim>\<open>qdma_queue_intr_cidx_update\<close> of the soft IP writes.\<close>

record intr_engine =
  ig_todo :: "u64 list"
  ig_posted :: "u64 list"
  ig_seen :: nat

definition paint :: "nat \<Rightarrow> nat \<Rightarrow> u64 \<Rightarrow> u64" where
  "paint N k w = (if lap_color N k = 1 then set_bit 63 w else unset_bit 63 w)"

definition ig_write :: "nat \<Rightarrow> intr_engine \<Rightarrow> intr_engine" where
  "ig_write N s =
     (case ig_todo s of
        [] \<Rightarrow> s
      | w # ws \<Rightarrow>
          if Suc (length (ig_posted s)) < ig_seen s + N
          then s\<lparr>ig_todo := ws, ig_posted := ig_posted s @ [paint N (length (ig_posted s)) w]\<rparr> else s)"

definition ig_consumed :: "nat \<Rightarrow> nat \<Rightarrow> nat \<Rightarrow> nat" where
  "ig_consumed N i seen = seen + (i + N - seen mod N) mod N"

definition ig_hw :: "nat \<Rightarrow> intr_engine hw_dev" where
  "ig_hw N = \<lparr>reg_read = \<lambda>a s. (0, s),
     reg_write = \<lambda>a v s.
       if 0x18000 \<le> unat a \<and> unat a mod 16 = 0
       then s\<lparr>ig_seen := ig_consumed N (unat (FIELD_GET QDMA_DMA_SEL_INT_SW_CIDX_MASK v)) (ig_seen s)\<rparr> else s,
     udelay = \<lambda>_ s. s\<rparr>"

definition ig_dev :: "nat \<Rightarrow> intr_engine aggr_dev" where
  "ig_dev N = soft_aggr_dev (ig_hw N) False (\<lambda>_ i s. let s = ig_write N s in (aggr_mem N (ig_posted s) ! i, s))"

definition ig_ok :: "bool \<Rightarrow> qdma_dev \<Rightarrow> nat \<Rightarrow> intr_engine \<Rightarrow> bool" where
  "ig_ok cpm4 qdev N s \<longleftrightarrow>
     length (ig_posted s) < ig_seen s + N \<and>
     (\<forall>k < length (ig_posted s). entry_ok cpm4 qdev N k (ig_posted s ! k)) \<and>
     (\<forall>w \<in> set (ig_todo s). queue_at qdev (entry_queue cpm4 qdev w) \<noteq> None)"

lemma top_bit: "bits_at 63 (Suc 0) w = of_bool (bit w 63)"
  by (simp add: bits_at_def bit_iff_odd_drop_bit mod2_eq_if)

lemma bits_at_paint:
  "lo + n \<le> 63 \<Longrightarrow> bits_at lo n (paint N k w) = bits_at lo n w"
  "bits_at 63 (Suc 0) (paint N k w) = of_bool (lap_color N k = 1)"
proof -
  show "lo + n \<le> 63 \<Longrightarrow> bits_at lo n (paint N k w) = bits_at lo n w"
    by (rule bit_eqI) (auto simp: bits_at_def paint_def bit_take_bit_iff bit_drop_bit_eq bit_set_bit_iff bit_unset_bit_iff)
  show "bits_at 63 (Suc 0) (paint N k w) = of_bool (lap_color N k = 1)"
    by (simp add: top_bit paint_def bit_set_bit_iff bit_unset_bit_iff)
qed

lemma entry_painted:
  assumes "queue_at qdev (entry_queue cpm4 qdev w) \<noteq> None"
  shows "entry_ok cpm4 qdev N k (paint N k w)"
proof -
  have "re_type (ring_entry cpm4 (paint N k w)) = re_type (ring_entry cpm4 w)"
    "re_qid (ring_entry cpm4 (paint N k w)) = re_qid (ring_entry cpm4 w)"
    "re_color (ring_entry cpm4 (paint N k w)) = lap_color N k"
    by (simp_all add: ring_entry_def ring_cpm_def ring_generic_def bits_at_paint lap_color_def)
  with assms show ?thesis by (simp add: entry_ok_def entry_queue_def)
qed

lemma ig_write_ok:
  assumes "ig_ok cpm4 qdev N s"
  shows "ig_ok cpm4 qdev N (ig_write N s) \<and> ig_seen (ig_write N s) = ig_seen s \<and>
    prefix (ig_posted s) (ig_posted (ig_write N s))"
  using assms entry_painted
  by (auto simp: ig_write_def ig_ok_def nth_append less_Suc_eq split: list.split)

lemma ig_consumed_eq:
  assumes "seen \<le> c" and "c < seen + N"
  shows "ig_consumed N (c mod N) seen = c"
proof -
  obtain r where r: "c = seen + r" "r < N" using assms by (metis le_Suc_ex nat_add_left_cancel_less)
  define m where "m = seen mod N"
  have m: "m < N" using r by (simp add: m_def)
  have "c mod N = (m + r) mod N" by (simp add: m_def r(1) mod_simps)
  also have "\<dots> = (if m + r < N then m + r else m + r - N)" using m r(2) by (simp add: mod_if)
  finally have "(c mod N + N - m) mod N = r" using m r(2) by auto
  then show ?thesis by (simp add: ig_consumed_def m_def [symmetric] r(1))
qed

lemma ig_update:
  "ad_cidx_update (ig_dev N) qid info s = (0, s\<lparr>ig_seen := ig_consumed N (unat (sw_cidx info)) (ig_seen s)\<rparr>)"
proof -
  have a: "unat (intr_cidx_reg_addr False (ucast qid)) = 0x18000 + 16 * unat (ucast qid :: u16)"
    using q_reg_addr_unat [of False Intr_cidx "ucast qid"] by simp
  have "unat (sw_cidx info) < 2 ^ 16" using unsigned_less [of "sw_cidx info"] by simp
  then have "unat (take_bit 16 (ucast (sw_cidx info) :: u32)) = unat (sw_cidx info)"
    by (simp add: unsigned_take_bit_eq unsigned_ucast_eq take_bit_nat_eq_self)
  with a show ?thesis
    by (simp add: ig_dev_def soft_aggr_dev_def ig_hw_def qdma_queue_intr_cidx_update_def field_simps_qdma)
qed

lemma ig_ring:
  assumes "0 < N" and "N < 2 ^ 16"
  shows "aggr_ring (ig_dev N) cpm4 qdev N base (ig_ok cpm4 qdev N) ig_posted ig_seen"
proof
  fix s i w s'
  assume "ig_ok cpm4 qdev N s" "i < N" "ad_entry (ig_dev N) base i s = (w, s')"
  then show "ig_ok cpm4 qdev N s' \<and> ig_seen s' = ig_seen s \<and> prefix (ig_posted s) (ig_posted s') \<and>
      w = aggr_mem N (ig_posted s') ! i"
    using ig_write_ok by (auto simp: ig_dev_def soft_aggr_dev_def Let_def)
next
  fix s c info qid rv s'
  assume ok: "ig_ok cpm4 qdev N s" and c: "ig_seen s \<le> c" "c \<le> length (ig_posted s)" "unat (sw_cidx info) = c mod N"
    and u: "ad_cidx_update (ig_dev N) qid info s = (rv, s')"
  have "c < ig_seen s + N" using ok c by (simp add: ig_ok_def)
  with c u have "s' = s\<lparr>ig_seen := c\<rparr>" by (simp add: ig_update ig_consumed_eq)
  with ok c show "ig_ok cpm4 qdev N s' \<and> ig_seen s' = c \<and> prefix (ig_posted s) (ig_posted s')" by (auto simp: ig_ok_def)
qed (use assms in \<open>auto simp: ig_ok_def\<close>)

interpretation ig_512: aggr_ring "ig_dev 512" cpm4 qdev 512 base "ig_ok cpm4 qdev 512" ig_posted ig_seen for cpm4 qdev base
  by (rule ig_ring) simp_all

text \<open>A function with two queues at base 8: an entry for its card-to-host queue 9.\<close>

definition demo_qdev :: qdma_dev where
  "demo_qdev = \<lparr>qd_qmax = 2, qd_qbase = 8,
     qd_h2c = replicate 2 \<lparr>iq_qidx = 0, iq_isr_top = False, iq_cpu = None\<rparr>,
     qd_c2h = replicate 2 \<lparr>iq_qidx = 1, iq_isr_top = False, iq_cpu = Some 3\<rparr>\<rparr>"

definition demo_entry :: u64 where
  "demo_entry = push_bit 39 9 OR push_bit 38 1"

definition aggr_xdev :: xlnx_dma_dev where
  "aggr_xdev = ctx_xdev\<lparr>xd_drv_mode := INDIRECT_INTR_MODE, xd_intr_rngsz := 0, xd_dvec_start_idx := 1\<rparr>"

theorem aggregated_interrupts_exact_witness:
  "\<exists>a' d' c'. data_intr_aggregate (ig_dev 512) False demo_qdev 1 [0, 1]
      1 \<lparr>ag_coal = xd_intr_coal_list (snd (the (intr_ring_setup 2 True [0, 1] [Some (7, 0x4000)] aggr_xdev))),
         ag_prev = None, ag_events = []\<rparr>
      \<lparr>ig_todo = [], ig_posted = [paint 512 0 demo_entry], ig_seen = 0\<rparr> = Some (Agg_ok, a', d') \<and>
    ag_events a' = map (entry_signal False demo_qdev) (take c' (ig_posted d')) \<and>
    ag_events a' \<noteq> [] \<and> hd (ag_events a') = Work_on 3 (True, 1) \<and> ig_seen d' = c'"
proof -
  let ?xdev = "snd (the (intr_ring_setup 2 True [0, 1] [Some (7, 0x4000)] aggr_xdev))"
  let ?a = "\<lparr>ag_coal = xd_intr_coal_list ?xdev, ag_prev = None, ag_events = []\<rparr>"
  let ?d = "\<lparr>ig_todo = [], ig_posted = [paint 512 0 demo_entry], ig_seen = 0\<rparr>"
  have su: "intr_ring_setup 2 True [0, 1] [Some (7, 0x4000)] aggr_xdev = Some (0, ?xdev)" "aggr_mode aggr_xdev"
    "unat (xd_dvec_start_idx aggr_xdev) < length [0, 1 :: u16]" "512 = (unat (xd_intr_rngsz aggr_xdev) + 1) * 512"
    "xd_dvec_start_idx ?xdev = 1"
    by code_simp+
  have q: "queue_at demo_qdev (entry_queue False demo_qdev demo_entry) \<noteq> None"
    and sig: "entry_signal False demo_qdev (paint 512 0 demo_entry) = Work_on 3 (True, 1)" by code_simp+
  have "aggr_run (ig_dev 512) False demo_qdev ?xdev [0, 1] (ig_ok False demo_qdev 512) ig_posted ig_seen ?a
      \<lparr>ig_todo = [], ig_posted = [], ig_seen = 0\<rparr>"
    by (intro aggr_run.start) (simp_all add: ig_ok_def)
  from aggr_run.device [OF this, of ?d]
  have "aggr_run (ig_dev 512) False demo_qdev ?xdev [0, 1] (ig_ok False demo_qdev 512) ig_posted ig_seen ?a ?d"
    using entry_painted [OF q] by (simp add: ig_ok_def)
  from aggregated_interrupts_exact [OF ig_512.aggr_ring_axioms su(1,2) _ su(3,4) this] su(5)
  obtain a' d' c' where r: "data_intr_aggregate (ig_dev 512) False demo_qdev 1 [0, 1] 1 ?a ?d = Some (Agg_ok, a', d')"
      "prefix [paint 512 0 demo_entry] (ig_posted d')" "1 \<le> c'"
      "ag_events a' = map (entry_signal False demo_qdev) (take c' (ig_posted d'))" "ig_seen d' = c'"
    by auto
  moreover obtain ws where "ig_posted d' = paint 512 0 demo_entry # ws" using r(2) by (auto simp: prefix_def)
  ultimately show ?thesis using sig by (intro exI [of _ a'] exI [of _ d'] exI [of _ c']) (simp add: take_Cons')
qed

section \<open>Choice of a vector\<close>

lemma fewest_loop_least:
  assumes "\<forall>x \<in> set cs0. least \<le> int x" and "idx0 < length cs0" and "int (cs0 ! idx0) = least" and "0 < least"
  shows "\<exists>j < length (cs0 @ cs). fewest_loop (i + length cs0) cs (i + idx0) least = i + j \<and>
    (\<forall>x \<in> set (cs0 @ cs). (cs0 @ cs) ! j \<le> x)"
  using assms
proof (induction cs arbitrary: cs0 idx0 least)
  case Nil
  then show ?case by (intro exI [of _ idx0]) auto
next
  case (Cons c cs)
  show ?case
  proof (cases "c = 0")
    case True
    then show ?thesis by (intro exI [of _ "length cs0"]) simp
  next
    case False
    then have pos: "0 < int c" by simp
    show ?thesis
    proof (cases "int c < least")
      case True
      have "\<forall>x \<in> set (cs0 @ [c]). int c \<le> int x" using Cons.prems(1) True by auto
      from Cons.IH [OF this _ _ pos, of "length cs0"] True False Cons.prems(4) show ?thesis by simp
    next
      case c: False
      have "\<forall>x \<in> set (cs0 @ [c]). least \<le> int x" using Cons.prems(1) c by auto
      moreover have "int ((cs0 @ [c]) ! idx0) = least" using Cons.prems(2,3) by (simp add: nth_append)
      ultimately show ?thesis using Cons.IH [of "cs0 @ [c]" least idx0] c False Cons.prems(2,4) by simp
    qed
  qed
qed

lemma fewest_vector:
  assumes "dvec < length cnts"
  shows "dvec \<le> desc_alloc_irq DIRECT_INTR_MODE dvec cnts intr_id \<and>
    desc_alloc_irq DIRECT_INTR_MODE dvec cnts intr_id < length cnts \<and>
    (\<forall>v. dvec \<le> v \<and> v < length cnts \<longrightarrow> cnts ! desc_alloc_irq DIRECT_INTR_MODE dvec cnts intr_id \<le> cnts ! v)"
proof -
  obtain c cs where cs: "drop dvec cnts = c # cs" using assms by (metis Cons_nth_drop_Suc)
  have "\<exists>j < length (c # cs). fewest_loop dvec (c # cs) dvec (- 1) = dvec + j \<and> (\<forall>x \<in> set (c # cs). (c # cs) ! j \<le> x)"
  proof (cases "c = 0")
    case False
    with fewest_loop_least [of "[c]" "int c" 0 cs dvec] show ?thesis by simp
  qed (auto intro: exI [of _ 0])
  then obtain j where j: "j < length (drop dvec cnts)" "fewest_loop dvec (drop dvec cnts) dvec (- 1) = dvec + j"
      "\<forall>x \<in> set (drop dvec cnts). drop dvec cnts ! j \<le> x"
    unfolding cs by blast
  have "desc_alloc_irq DIRECT_INTR_MODE dvec cnts intr_id = dvec + j"
    using assms j(2) by (auto simp: desc_alloc_irq_def)
  moreover have "cnts ! (dvec + j) \<le> cnts ! v" if "dvec \<le> v" "v < length cnts" for v
  proof -
    have "cnts ! v \<in> set (drop dvec cnts)"
      using nth_mem [of "v - dvec" "drop dvec cnts"] that by simp
    then show ?thesis using j(1,3) by simp
  qed
  ultimately show ?thesis using j(1) by (simp add: less_diff_conv add.commute)
qed

text \<open>A queue gets the least loaded vector.  In direct interrupt mode \<^verbatim>\<open>desc_alloc_irq\<close> chooses a data
  vector of the device, and no data vector has fewer queues than the one chosen.\<close>

theorem fewest_queues_vector:
  assumes "dvec < length cnts"
  shows "dvec \<le> desc_alloc_irq DIRECT_INTR_MODE dvec cnts intr_id \<and>
    desc_alloc_irq DIRECT_INTR_MODE dvec cnts intr_id < length cnts \<and>
    (\<forall>v. dvec \<le> v \<and> v < length cnts \<longrightarrow> cnts ! desc_alloc_irq DIRECT_INTR_MODE dvec cnts intr_id \<le> cnts ! v)"
  using assms by (rule fewest_vector)

theorem fewest_queues_vector_witness:
  "desc_alloc_irq DIRECT_INTR_MODE 1 [9, 4, 2, 7] 0 = 2 \<and> [9, 4, 2, 7 :: nat] ! desc_alloc_irq DIRECT_INTR_MODE 1 [9, 4, 2, 7] 0 \<le> 4"
  using fewest_queues_vector [of 1 "[9, 4, 2, 7]" 0] by (simp add: desc_alloc_irq_def)

section \<open>Registration of the vectors\<close>

lemma vectors_loop_result:
  assumes "vectors_loop env i ts v = (rv, j, v')" and "length (iv_types v) = i"
  shows "i \<le> j \<and> iv_held v' = iv_held v @ [i..<j] \<and> iv_num_vecs v' = iv_num_vecs v \<and>
    iv_msix_enabled v' = iv_msix_enabled v \<and> iv_dvec_start_idx v' = iv_dvec_start_idx v \<and>
    (rv = 0 \<longrightarrow> j = i + length ts \<and> iv_types v' = iv_types v @ ts)"
  using assms
proof (induction ts arbitrary: i v)
  case (Cons t ts)
  obtain r v1 where s: "intr_vector_setup env i t v = (r, v1)" by force
  show ?case
  proof (cases "r = 0")
    case True
    then have v1: "v1 = v\<lparr>iv_types := iv_types v @ [t], iv_held := iv_held v @ [i]\<rparr>"
      using s Cons.prems(2) by (auto simp: intr_vector_setup_def Let_def split: if_splits)
    with Cons.IH [of "Suc i" v1] Cons.prems s True show ?thesis by (auto simp: upt_conv_Cons)
  next
    case False
    then have "v1 = v\<lparr>iv_types := iv_types v @ [t]\<rparr>" using s Cons.prems(2) by (auto simp: intr_vector_setup_def Let_def split: if_splits)
    with Cons.prems s False show ?thesis by auto
  qed
qed simp

lemma num_vecs_req_fixed: "num_vecs_req c = int (length (fixed_types c) + unat (ic_data_msix_qvec_max c))"
  by (simp add: num_vecs_req_def fixed_types_def)

lemma cleanup_releases [simp]: "iv_held v = [0..<i] \<Longrightarrow> iv_held (cleanup_irq i v) = []"
  by (simp add: cleanup_irq_def)

text \<open>C22: Interrupt vectors are set up all or none, in the modes that use MSI-X interrupts and on a device that has MSI-X
  vectors.  When \<^verbatim>\<open>intr_setup\<close> fails, no vector stays registered.
  When it succeeds, the vectors are those for the mailbox, the user and errors, as configured, followed by at
  least as many data vectors as asked for; all of them are registered, and \<^verbatim>\<open>intr_teardown\<close> releases them
  all.\<close>

theorem vectors_all_or_none:
  assumes "ic_drv_mode c \<noteq> POLL_MODE" "ic_drv_mode c \<noteq> LEGACY_INTR_MODE" and "ie_vec_count env \<noteq> 0"
    and "iv_held v = []" and r: "intr_setup env c v = (rv, v')"
  shows "(rv \<noteq> 0 \<longrightarrow> iv_held v' = []) \<and>
    (rv = 0 \<longrightarrow> (\<exists>n. unat (ic_data_msix_qvec_max c) \<le> n \<and> 0 < n \<and>
       iv_types v' = fixed_types c @ replicate n INTR_TYPE_DATA \<and> iv_dvec_start_idx v' = length (fixed_types c) \<and>
       iv_held v' = [0..<length (iv_types v')] \<and> iv_num_vecs v' = int (length (iv_types v')) \<and>
       iv_held (intr_teardown v') = []))"
proof -
  define w where "w = v\<lparr>iv_num_vecs := min (ie_vec_count env) (int (unat (ic_msix_qvec_max c))), iv_types := [],
    iv_msix_enabled := True\<rparr>"
  obtain rv1 i v1 where l1: "vectors_loop env 0 (fixed_types c) w = (rv1, i, v1)" by (metis prod_cases3)
  note f1 = vectors_loop_result [OF l1]
  define v2 where "v2 = v1\<lparr>iv_dvec_start_idx := i\<rparr>"
  define n where "n = nat (iv_num_vecs v2) - i"
  obtain rv3 j v3 where l2: "vectors_loop env i (replicate n INTR_TYPE_DATA) v2 = (rv3, j, v3)" by (metis prod_cases3)
  note f2 = vectors_loop_result [OF l2]
  consider (early) "iv_held v' = []" "rv \<noteq> 0"
    | (late) "0 < ic_data_msix_qvec_max c" "num_vecs_req c \<le> iv_num_vecs w"
        "(rv, v') = (if rv1 \<noteq> 0 then (rv1, cleanup_irq i v1) else if rv3 \<noteq> 0 then (rv3, cleanup_irq j v3)
            else (rv3, v3\<lparr>iv_flags := iv_flags v3 OR XDEV_FLAG_IRQ\<rparr>))"
    using assms l1 l2 by (auto simp: intr_setup_def Let_def w_def v2_def n_def word_gt_0 not_less split: if_splits)
  then show ?thesis
  proof cases
    case late
    have w: "iv_types w = []" "iv_held w = []" using assms(4) by (simp_all add: w_def)
    note f1 = f1 [unfolded w, simplified]
    show ?thesis
    proof (cases "rv1 = 0")
      case False
      then show ?thesis using late(3) f1 by simp
    next
      case rv1: True
      then have v2: "iv_types v2 = fixed_types c" "iv_held v2 = [0..<i]" "length (iv_types v2) = i" "iv_num_vecs v2 = iv_num_vecs w"
        using f1 by (simp_all add: v2_def)
      note f2 = f2 [OF v2(3)]
      have held: "iv_held v3 = [0..<j]" using f2 v2(2) upt_add_eq_append [of 0 i "j - i"] by simp
      show ?thesis
      proof (cases "rv3 = 0")
        case False
        then show ?thesis using late(3) rv1 held by simp
      next
        case True
        define m where "m = unat (ic_data_msix_qvec_max c)"
        have "int (i + m) \<le> iv_num_vecs w" using late(2) v2(1,3) unfolding num_vecs_req_fixed m_def by simp
        then have "m \<le> n" "i + n = nat (iv_num_vecs w)" "0 \<le> iv_num_vecs w"
          by (simp_all add: n_def v2(4) nat_le_iff)
        moreover have "0 < m" unfolding m_def using late(1) by (simp add: word_less_nat_alt)
        ultimately show ?thesis
          using late(3) rv1 True held f2 v2 f1
          by (intro conjI impI exI [of _ n]) (auto simp: intr_teardown_def v2_def m_def filter_empty_conv zless_nat_eq_int_zless)
      qed
    qed
  qed simp
qed

definition demo_env :: "int \<Rightarrow> intr_env" where
  "demo_env r = \<lparr>ie_vec_count = 8, ie_mem_msix = True, ie_mem_info = True, ie_enable = 0,
     ie_request = (\<lambda>i. if i = 3 then r else 0)\<rparr>"

definition demo_intr_conf :: intr_conf where
  "demo_intr_conf = \<lparr>ic_drv_mode = DIRECT_INTR_MODE, ic_master_pf = True, ic_mbox_irq = True, ic_msix_qvec_max = 6,
     ic_user_msix_qvec_max = 1, ic_data_msix_qvec_max = 2\<rparr>"

definition demo_vecs :: intr_vecs where
  "demo_vecs = \<lparr>iv_num_vecs = 0, iv_dvec_start_idx = 0, iv_types = [], iv_held = [], iv_msix_enabled = False, iv_flags = 0\<rparr>"

theorem vectors_all_or_none_witness:
  "fst (intr_setup (demo_env 0) demo_intr_conf demo_vecs) = 0 \<and>
    iv_held (intr_teardown (snd (intr_setup (demo_env 0) demo_intr_conf demo_vecs))) = [] \<and>
    fst (intr_setup (demo_env (- EBUSY)) demo_intr_conf demo_vecs) \<noteq> 0 \<and>
    iv_held (snd (intr_setup (demo_env (- EBUSY)) demo_intr_conf demo_vecs)) = []"
proof -
  have c: "ic_drv_mode demo_intr_conf \<noteq> POLL_MODE" "ic_drv_mode demo_intr_conf \<noteq> LEGACY_INTR_MODE"
    "ie_vec_count (demo_env r) \<noteq> 0" "iv_held demo_vecs = []" for r
    by (simp_all add: demo_intr_conf_def demo_env_def demo_vecs_def)
  have "fst (intr_setup (demo_env 0) demo_intr_conf demo_vecs) = 0"
    "fst (intr_setup (demo_env (- EBUSY)) demo_intr_conf demo_vecs) \<noteq> 0" by code_simp+
  then show ?thesis
    using vectors_all_or_none [OF c prod.collapse [symmetric], of 0]
      vectors_all_or_none [OF c prod.collapse [symmetric], of "- EBUSY"] by auto
qed

section \<open>Legacy interrupts\<close>

text \<open>The interrupt is registered exactly while a queue is in the list.\<close>

definition legacy_ok :: "'q legacy_state \<Rightarrow> bool" where
  "legacy_ok l \<longleftrightarrow> (lg_irq l \<longleftrightarrow> lg_list l \<noteq> [])"

lemma legacy_setup_ok: "legacy_ok l \<Longrightarrow> legacy_ok (fst (snd (intr_legacy_setup dev q l d)))"
  by (auto simp: legacy_ok_def intr_legacy_setup_def Let_def split: option.split prod.split)

lemma legacy_clear_ok: "legacy_ok l \<Longrightarrow> intr_legacy_clear dev q l d = Some (l', d') \<Longrightarrow> legacy_ok l'"
  by (auto simp: legacy_ok_def intr_legacy_clear_def Let_def split: option.splits if_splits)

lemma legacy_clear_setup:
  assumes "q \<notin> set (lg_list l)" and "intr_legacy_setup dev (Some q) l d = (rv, l', d')" and "0 \<le> rv" and "legacy_ok l"
  shows "\<exists>d2. intr_legacy_clear dev (Some q) l' d' = Some (l, d2)"
  using assms by (auto simp: legacy_ok_def intr_legacy_setup_def intr_legacy_clear_def remove1_append Let_def
      split: prod.splits if_splits)

text \<open>When enabling the interrupt fails, the error is returned with the queue in the list and the interrupt
  registered.\<close>

lemma legacy_enable_failure_keeps_queue:
  assumes "\<And>d. ld_intr_conf dev DISABLE d = (0, d)" and "\<And>d. ld_request_irq dev d = (0, d)"
    and "\<And>d. fst (ld_intr_conf dev ENABLE d) \<noteq> 0" and "lg_list l = []"
  shows "\<exists>d'. intr_legacy_setup dev (Some q) l d = (- EINVAL, l\<lparr>lg_irq := True, lg_list := [q]\<rparr>, d')"
  using assms(1,2,4) assms(3) [of d] by (cases "ld_intr_conf dev ENABLE d") (simp add: intr_legacy_setup_def)

end
