(* ===== verification/QueueLifeProps.thy ===== *)
theory QueueLifeProps
  imports QueueLife QueueIntrProps ResourceSafety
begin

text \<open>
  Properties of the life of queues.  The states of the queues, the counts of the resource manager and the
  lists of the interrupt vectors stay consistent under any sequence of operations, and no operation accesses a
  queue or a vector that does not exist, as long as queues are added with their index.
\<close>

section \<open>Queues of one index\<close>

definition st_of :: "life_queue \<Rightarrow> bool" where
  "st_of q = cf_st (lq_conf q)"

text \<open>The three descqs that share an index: the two directions have the same mode, and a completion queue of
  its own goes with memory-mapped queues only.\<close>

definition idx_ok :: "life_queue \<Rightarrow> life_queue \<Rightarrow> life_queue \<Rightarrow> bool" where
  "idx_ok h c m \<longleftrightarrow>
     (present h \<and> present c \<longrightarrow> st_of h = st_of c) \<and> (present m \<longrightarrow> \<not> (present h \<and> st_of h) \<and> \<not> (present c \<and> st_of c))"

lemma refmask_eq:
  "refmask h c m = (if present h then 1 else 0) OR (if present c then 2 else 0) OR (if present m then 4 else 0) OR
     (if present h \<and> st_of h \<or> present c \<and> st_of c then 8 else 0)"
  by (simp add: refmask_def Let_def st_of_def)

text \<open>The test with masks is the plain one.\<close>

lemma usable_h2c: "\<not> rejected Q_H2C st (refmask h c m) \<longleftrightarrow> \<not> present h \<and> (st \<longrightarrow> \<not> present m) \<and> (present c \<longrightarrow> st_of c = st)"
  unfolding refmask_eq rejected_def by (cases "present h"; cases "present c"; cases "present m"; cases "st_of h"; cases "st_of c"; cases st) simp_all

lemma usable_c2h: "\<not> rejected Q_C2H st (refmask h c m) \<longleftrightarrow> \<not> present c \<and> (st \<longrightarrow> \<not> present m) \<and> (present h \<longrightarrow> st_of h = st)"
  unfolding refmask_eq rejected_def by (cases "present h"; cases "present c"; cases "present m"; cases "st_of h"; cases "st_of c"; cases st) simp_all

lemma usable_cmpt: "\<not> rejected Q_CMPT st (refmask h c m) \<longleftrightarrow> \<not> present m \<and> \<not> (present h \<and> st_of h) \<and> \<not> (present c \<and> st_of c)"
  unfolding refmask_eq rejected_def by (cases "present h"; cases "present c"; cases "present m"; cases "st_of h"; cases "st_of c") simp_all

section \<open>The arrays of queues\<close>

abbreviation proper :: "queue_type_t \<Rightarrow> bool" where
  "proper t \<equiv> t \<noteq> Q_H2C_C2H"

lemma descqs_put: "proper t \<Longrightarrow> proper t' \<Longrightarrow>
    descqs t' (queue_put (t, i) q l) = (if t' = t then (descqs t l)[i := q] else descqs t' l)"
  by (cases t; cases t') (simp_all add: descqs_def queue_put_def)

lemma descqs_upd [simp]:
  "descqs t (l\<lparr>lf_dev := d\<rparr>) = descqs t l" "descqs t (l\<lparr>lf_vecs := v\<rparr>) = descqs t l"
  "descqs t (l\<lparr>lf_legacy := g\<rparr>) = descqs t l" "descqs t (l\<lparr>lf_rm := rm\<rparr>) = descqs t l"
  "descqs t (l\<lparr>lf_init_qrange := b\<rparr>) = descqs t l"
  by (simp_all add: descqs_def split: queue_type_t.split)

lemma put_fields [simp]:
  "lf_dev (queue_put r q l) = lf_dev l" "lf_vecs (queue_put r q l) = lf_vecs l"
  "lf_legacy (queue_put r q l) = lf_legacy l" "lf_rm (queue_put r q l) = lf_rm l"
  "lf_init_qrange (queue_put r q l) = lf_init_qrange l"
  by (simp_all add: queue_put_def split: queue_type_t.split)

lemma queue_get_upd [simp]:
  "queue_get r (l\<lparr>lf_dev := d\<rparr>) = queue_get r l" "queue_get r (l\<lparr>lf_vecs := v\<rparr>) = queue_get r l"
  "queue_get r (l\<lparr>lf_legacy := g\<rparr>) = queue_get r l" "queue_get r (l\<lparr>lf_rm := rm\<rparr>) = queue_get r l"
  "queue_get r (l\<lparr>lf_init_qrange := b\<rparr>) = queue_get r l"
  by (simp_all add: queue_get_def)

lemma queue_get_put: "proper (fst r) \<Longrightarrow> proper (fst r') \<Longrightarrow>
    queue_get r' (queue_put r q l) = (if r' = r then (if queue_get r l = None then None else Some q) else queue_get r' l)"
  by (cases r; cases r') (auto simp: queue_get_def descqs_put)

definition slots_ok :: "nat \<Rightarrow> 's life \<Rightarrow> bool" where
  "slots_ok n l \<longleftrightarrow>
     (\<forall>t. proper t \<longrightarrow> length (descqs t l) = n \<and> (\<forall>q \<in> set (descqs t l). present q \<longrightarrow> cf_q_type (lq_conf q) = t)) \<and>
     (\<forall>i < n. idx_ok (descqs Q_H2C l ! i) (descqs Q_C2H l ! i) (descqs Q_CMPT l ! i))"

definition at_slot :: "queue_type_t \<Rightarrow> life_queue \<Rightarrow> queue_type_t \<Rightarrow> life_queue \<Rightarrow> life_queue" where
  "at_slot t q t' q' = (if t' = t then q else q')"

lemma slots_put:
  assumes "slots_ok n l" and t: "proper t" and i: "i < n" and "present q \<Longrightarrow> cf_q_type (lq_conf q) = t"
    and k: "idx_ok (at_slot t q Q_H2C (descqs Q_H2C l ! i)) (at_slot t q Q_C2H (descqs Q_C2H l ! i))
      (at_slot t q Q_CMPT (descqs Q_CMPT l ! i))"
  shows "slots_ok n (queue_put (t, i) q l)"
  unfolding slots_ok_def
proof (intro conjI allI impI)
  fix t' assume t': "proper t'"
  then show "length (descqs t' (queue_put (t, i) q l)) = n" using assms(1) t by (simp add: slots_ok_def descqs_put)
  show "\<forall>x \<in> set (descqs t' (queue_put (t, i) q l)). present x \<longrightarrow> cf_q_type (lq_conf x) = t'"
    using assms(1,4) t t' by (auto simp: slots_ok_def descqs_put dest: set_update_subset_insert [THEN subsetD])
next
  fix j assume "j < n"
  then show "idx_ok (descqs Q_H2C (queue_put (t, i) q l) ! j) (descqs Q_C2H (queue_put (t, i) q l) ! j)
      (descqs Q_CMPT (queue_put (t, i) q l) ! j)"
    using assms(1) t i k by (cases "j = i"; cases t) (simp_all add: slots_ok_def descqs_put at_slot_def)
qed

lemma slots_get: "slots_ok n l \<Longrightarrow> proper t \<Longrightarrow> queue_get (t, i) l = (if i < n then Some (descqs t l ! i) else None)"
  by (simp add: slots_ok_def queue_get_def)

lemma slots_put_same:
  assumes "slots_ok n l" and t: "proper t" and q: "queue_get (t, i) l = Some q"
    and q': "present q' = present q" "st_of q' = st_of q" "cf_q_type (lq_conf q') = cf_q_type (lq_conf q)"
  shows "slots_ok n (queue_put (t, i) q' l)"
proof (rule slots_put [OF assms(1) t])
  have i: "i < n" "descqs t l ! i = q" using q slots_get [OF assms(1) t, of i] by (auto split: if_splits)
  then show "i < n" by simp
  have "q \<in> set (descqs t l)" using i assms(1) t nth_mem [of i "descqs t l"] by (auto simp: slots_ok_def)
  then show "present q' \<Longrightarrow> cf_q_type (lq_conf q') = t" using q' assms(1) t by (simp add: slots_ok_def)
  show "idx_ok (at_slot t q' Q_H2C (descqs Q_H2C l ! i)) (at_slot t q' Q_C2H (descqs Q_C2H l ! i))
      (at_slot t q' Q_CMPT (descqs Q_CMPT l ! i))"
    using assms(1) i q' t by (cases t) (auto simp: slots_ok_def at_slot_def idx_ok_def)
qed

section \<open>Counting\<close>

definition n_of :: "(life_queue \<Rightarrow> bool) \<Rightarrow> queue_type_t \<Rightarrow> 's life \<Rightarrow> nat" where
  "n_of P t l = length (filter P (descqs t l))"

lemma filter_update:
  "i < length xs \<Longrightarrow> length (filter P (xs[i := x])) + (if P (xs ! i) then 1 else 0) = length (filter P xs) + (if P x then 1 else 0)"
proof (induction xs arbitrary: i)
  case (Cons y ys)
  then show ?case by (cases i) (use Cons.IH in auto)
qed simp

lemma n_of_put:
  assumes "slots_ok n l" and "proper t" and "proper t'" and "queue_get (t, i) l = Some q"
  shows "n_of P t' (queue_put (t, i) q' l) + (if t' = t \<and> P q then 1 else 0) = n_of P t' l + (if t' = t \<and> P q' then 1 else 0)"
  using assms filter_update [of i "descqs t l" P q']
  by (auto simp: n_of_def descqs_put queue_get_def split: if_splits)

lemma n_of_upd [simp]:
  "n_of P t (l\<lparr>lf_dev := d\<rparr>) = n_of P t l" "n_of P t (l\<lparr>lf_vecs := v\<rparr>) = n_of P t l"
  "n_of P t (l\<lparr>lf_legacy := g\<rparr>) = n_of P t l" "n_of P t (l\<lparr>lf_rm := rm\<rparr>) = n_of P t l"
  "n_of P t (l\<lparr>lf_init_qrange := b\<rparr>) = n_of P t l"
  by (simp_all add: n_of_def)

text \<open>While an index has no queue of a type, fewer descqs than indices are present.\<close>

lemma n_of_less:
  assumes "slots_ok n l" and "proper t" and "i < n" and "\<not> P (descqs t l ! i)"
  shows "n_of P t l < n"
proof -
  have "descqs t l ! i \<in> set (descqs t l)" using assms(1-3) by (simp add: slots_ok_def)
  then have "length (filter P (descqs t l)) < length (descqs t l)" using assms(4) by (rule length_filter_less)
  then show ?thesis using assms(1,2) by (simp add: n_of_def slots_ok_def)
qed

lemma n_of_card:
  "slots_ok n l \<Longrightarrow> proper t \<Longrightarrow> n_of P t l = card {i. i < n \<and> P (descqs t l ! i)}"
  by (simp add: n_of_def slots_ok_def length_filter_conv_card)

lemma cmpt_less:
  assumes s: "slots_ok n l" and "i < n" and "\<not> present (descqs Q_CMPT l ! i)"
    and "\<not> (present (descqs Q_C2H l ! i) \<and> st_of (descqs Q_C2H l ! i))"
  shows "n_of present Q_CMPT l + n_of (\<lambda>q. present q \<and> st_of q) Q_C2H l < n"
proof -
  let ?m = "{i. i < n \<and> present (descqs Q_CMPT l ! i)}"
  let ?c = "{i. i < n \<and> present (descqs Q_C2H l ! i) \<and> st_of (descqs Q_C2H l ! i)}"
  have "?m \<inter> ?c = {}" using s by (auto simp: slots_ok_def idx_ok_def)
  then have "card ?m + card ?c = card (?m \<union> ?c)" by (simp add: card_Un_disjoint)
  also have "\<dots> < card {..<n}" using assms by (intro psubset_card_mono) auto
  finally show ?thesis by (simp add: n_of_card [OF s])
qed

section \<open>The counts of the resource manager\<close>

text \<open>The resource manager has an entry for the function with as many queues as the driver was given, and its
  counters have the values \<open>f\<close>.\<close>

definition acct :: "life_conf \<Rightarrow> rm_state \<Rightarrow> (u32 \<Rightarrow> nat) \<Rightarrow> bool" where
  "acct c rm f \<longleftrightarrow>
     (\<exists>m dev. qdma_get_master_resource_entry (lc_dma_device_index c) rm = Some m \<and>
        qdma_get_dev_entry (lc_dma_device_index c) (lc_func_id c) rm = Some dev \<and>
        re_total_q (de_entry dev) = ucast (lc_qmax c) \<and> (\<forall>t k. q_counter t dev = Some k \<longrightarrow> unat k = f t))"

lemma dev_after_set:
  assumes "qdma_get_master_resource_entry idx rm = Some m" and "qdma_get_dev_entry idx fid rm = Some dev"
    and "de_func_id dev' = de_func_id dev"
  shows "\<exists>m'. qdma_get_master_resource_entry idx (upd_master idx (\<lambda>m. (set_dev fid dev' m)\<lparr>active_qcnt := g m\<rparr>) rm) = Some m'"
    "qdma_get_dev_entry idx fid (upd_master idx (\<lambda>m. (set_dev fid dev' m)\<lparr>active_qcnt := g m\<rparr>) rm) = Some dev'"
proof -
  have "dma_device_index m = idx" using assms(1) unfolding qdma_get_master_resource_entry_def by (auto elim: find_split)
  then have m: "qdma_get_master_resource_entry idx (upd_master idx (\<lambda>m. (set_dev fid dev' m)\<lparr>active_qcnt := g m\<rparr>) rm) =
      Some ((set_dev fid dev' m)\<lparr>active_qcnt := g m\<rparr>)"
    using assms(1) by (intro get_master_upd) simp_all
  then show "\<exists>m'. qdma_get_master_resource_entry idx (upd_master idx (\<lambda>m. (set_dev fid dev' m)\<lparr>active_qcnt := g m\<rparr>) rm) = Some m'"
    by blast
  obtain ds es where ds: "dev_list m = ds @ dev # es" "de_func_id dev = fid" "\<forall>d \<in> set ds. de_func_id d \<noteq> fid"
    by (rule get_dev_split [OF assms(1,2)])
  have "List.find (\<lambda>d. de_func_id d = fid) (ds @ dev' # es) = Some dev'"
    using ds(2,3) assms(3) by (induction ds) auto
  then show "qdma_get_dev_entry idx fid (upd_master idx (\<lambda>m. (set_dev fid dev' m)\<lparr>active_qcnt := g m\<rparr>) rm) = Some dev'"
    using m set_dev_split [OF ds] by (simp add: qdma_get_dev_entry_def)
qed

abbreviation counted_type :: "u32 \<Rightarrow> bool" where
  "counted_type t \<equiv> t = 0 \<or> t = 1 \<or> t = 2"

lemma acct_increment:
  assumes "acct c rm f" and "counted_type t" and "f t < unat (lc_qmax c)"
  shows "\<exists>rm'. qdma_dev_increment_active_queue (lc_dma_device_index c) (lc_func_id c) t rm = (QDMA_SUCCESS, rm') \<and>
    acct c rm' (f(t := f t + 1))"
proof -
  let ?idx = "lc_dma_device_index c" and ?fid = "lc_func_id c"
  obtain m dev where m: "qdma_get_master_resource_entry ?idx rm = Some m" "qdma_get_dev_entry ?idx ?fid rm = Some dev"
      "re_total_q (de_entry dev) = ucast (lc_qmax c)" "\<forall>t k. q_counter t dev = Some k \<longrightarrow> unat k = f t"
    using assms(1) by (auto simp: acct_def)
  obtain k where k: "q_counter t dev = Some k" using assms(2) by (auto simp: q_counter_def)
  have q: "unat (lc_qmax c) < 2 ^ 16" using unsigned_less [of "lc_qmax c"] by simp
  then have total: "unat (ucast (lc_qmax c) :: u32) = unat (lc_qmax c)" by (simp add: unsigned_ucast_eq take_bit_nat_eq_self)
  have "unat k = f t" using m(4) k by blast
  then have k1: "unat (k + 1) = f t + 1" using assms(3) q by (subst unat_plus_bounded) simp_all
  define dev' where "dev' = set_q_counter t (k + 1) dev"
  have "\<not> ucast (lc_qmax c) < k + 1" using k1 total assms(3) by (simp add: word_less_nat_alt)
  then have run: "qdma_dev_increment_active_queue ?idx ?fid t rm =
      (QDMA_SUCCESS, upd_master ?idx (\<lambda>m. (set_dev ?fid dev' m)\<lparr>active_qcnt := active_qcnt m + 1\<rparr>) rm)"
    using m k by (simp add: qdma_dev_increment_active_queue_def dev'_def)
  have d: "re_total_q (de_entry dev') = ucast (lc_qmax c)" "\<forall>u x. q_counter u dev' = Some x \<longrightarrow> unat x = (f(t := f t + 1)) u"
    using m(3,4) k k1 by (auto simp: dev'_def q_counter_set [OF k])
  have "acct c (upd_master ?idx (\<lambda>m. (set_dev ?fid dev' m)\<lparr>active_qcnt := active_qcnt m + 1\<rparr>) rm) (f(t := f t + 1))"
    unfolding acct_def using dev_after_set [OF m(1,2), of dev' "\<lambda>m. active_qcnt m + 1"] d by (auto simp: dev'_def)
  with run show ?thesis by blast
qed

lemma acct_decrement:
  assumes "acct c rm f" and "counted_type t" and "0 < f t"
  shows "\<exists>rm'. qdma_dev_decrement_active_queue (lc_dma_device_index c) (lc_func_id c) t rm = (QDMA_SUCCESS, rm') \<and>
    acct c rm' (f(t := f t - 1))"
proof -
  let ?idx = "lc_dma_device_index c" and ?fid = "lc_func_id c"
  obtain m dev where m: "qdma_get_master_resource_entry ?idx rm = Some m" "qdma_get_dev_entry ?idx ?fid rm = Some dev"
      "re_total_q (de_entry dev) = ucast (lc_qmax c)" "\<forall>t k. q_counter t dev = Some k \<longrightarrow> unat k = f t"
    using assms(1) by (auto simp: acct_def)
  obtain k where k: "q_counter t dev = Some k" using assms(2) by (auto simp: q_counter_def)
  have kf: "unat k = f t" using m(4) k by blast
  then have "k \<noteq> 0" using assms(3) by auto
  then have k1: "unat (k - 1) = f t - 1" using kf by (simp add: unat_minus_one)
  define dev' where "dev' = set_q_counter t (k - 1) dev"
  have run: "qdma_dev_decrement_active_queue ?idx ?fid t rm =
      (QDMA_SUCCESS, upd_master ?idx (\<lambda>m. (set_dev ?fid dev' m)\<lparr>active_qcnt := active_qcnt m - 1\<rparr>) rm)"
    using m k \<open>k \<noteq> 0\<close> by (simp add: qdma_dev_decrement_active_queue_def dev'_def)
  have d: "re_total_q (de_entry dev') = ucast (lc_qmax c)" "\<forall>u x. q_counter u dev' = Some x \<longrightarrow> unat x = (f(t := f t - 1)) u"
    using m(3,4) k k1 by (auto simp: dev'_def q_counter_set [OF k])
  have "acct c (upd_master ?idx (\<lambda>m. (set_dev ?fid dev' m)\<lparr>active_qcnt := active_qcnt m - 1\<rparr>) rm) (f(t := f t - 1))"
    unfolding acct_def using dev_after_set [OF m(1,2), of dev' "\<lambda>m. active_qcnt m - 1"] d by (auto simp: dev'_def)
  with run show ?thesis by blast
qed

section \<open>The invariant\<close>

definition counts :: "'s life \<Rightarrow> u32 \<Rightarrow> nat" where
  "counts l t =
     (if t = QDMA_DEV_Q_TYPE_H2C then n_of present Q_H2C l
      else if t = QDMA_DEV_Q_TYPE_C2H then n_of present Q_C2H l
      else if t = QDMA_DEV_Q_TYPE_CMPT then n_of present Q_CMPT l + n_of (\<lambda>q. present q \<and> st_of q) Q_C2H l
      else 0)"

definition on_vec :: "'s life \<Rightarrow> nat \<Rightarrow> life_ref set" where
  "on_vec l v = {r. proper (fst r) \<and> (\<exists>q. queue_get r l = Some q \<and> lq_state q = Q_STATE_ONLINE \<and> lq_intr_id q = v)}"

text \<open>Vectors exist unless the driver polls or uses legacy interrupts; the list of a vector has the queues that
  are online with it, and its count is the length of the list.\<close>

definition vecs_ok :: "life_conf \<Rightarrow> 's life \<Rightarrow> bool" where
  "vecs_ok c l \<longleftrightarrow>
     (lf_vecs l = [] \<longleftrightarrow> lc_drv_mode c = POLL_MODE \<or> lc_drv_mode c = LEGACY_INTR_MODE) \<and>
     (lf_vecs l \<noteq> [] \<longrightarrow> lc_dvec_start_idx c < length (lf_vecs l) \<and> (\<forall>v. on_vec l v \<noteq> {} \<longrightarrow> v < length (lf_vecs l))) \<and>
     (\<forall>v < length (lf_vecs l). vi_cnt (lf_vecs l ! v) = length (vi_list (lf_vecs l ! v)) \<and>
        distinct (vi_list (lf_vecs l ! v)) \<and> set (vi_list (lf_vecs l ! v)) = on_vec l v)"

text \<open>In legacy mode the queues that are present are in the list of the legacy interrupt.\<close>

definition leg_ok :: "life_conf \<Rightarrow> 's life \<Rightarrow> bool" where
  "leg_ok c l \<longleftrightarrow> (lc_drv_mode c = LEGACY_INTR_MODE \<longrightarrow>
     (\<forall>r q. proper (fst r) \<longrightarrow> queue_get r l = Some q \<longrightarrow> present q \<longrightarrow> r \<in> set (lg_list (lf_legacy l))))"

definition life_ok :: "life_conf \<Rightarrow> 's life \<Rightarrow> bool" where
  "life_ok c l \<longleftrightarrow> slots_ok (unat (lc_qmax c)) l \<and> acct c (lf_rm l) (counts l) \<and> vecs_ok c l \<and> leg_ok c l"

lemma slots_upd [simp]:
  "slots_ok n (l\<lparr>lf_dev := d\<rparr>) = slots_ok n l" "slots_ok n (l\<lparr>lf_vecs := v\<rparr>) = slots_ok n l"
  "slots_ok n (l\<lparr>lf_legacy := g\<rparr>) = slots_ok n l" "slots_ok n (l\<lparr>lf_rm := rm\<rparr>) = slots_ok n l"
  "slots_ok n (l\<lparr>lf_init_qrange := b\<rparr>) = slots_ok n l"
  by (simp_all add: slots_ok_def)

lemma counts_upd [simp]:
  "counts (l\<lparr>lf_dev := d\<rparr>) = counts l" "counts (l\<lparr>lf_vecs := v\<rparr>) = counts l"
  "counts (l\<lparr>lf_legacy := g\<rparr>) = counts l" "counts (l\<lparr>lf_rm := rm\<rparr>) = counts l"
  "counts (l\<lparr>lf_init_qrange := b\<rparr>) = counts l"
  by (simp_all add: counts_def fun_eq_iff)

lemma on_vec_upd [simp]:
  "on_vec (l\<lparr>lf_dev := d\<rparr>) = on_vec l" "on_vec (l\<lparr>lf_vecs := vs\<rparr>) = on_vec l"
  "on_vec (l\<lparr>lf_legacy := g\<rparr>) = on_vec l" "on_vec (l\<lparr>lf_rm := rm\<rparr>) = on_vec l"
  "on_vec (l\<lparr>lf_init_qrange := b\<rparr>) = on_vec l"
  by (simp_all add: on_vec_def fun_eq_iff)

lemma vecs_upd [simp]:
  "vecs_ok c (l\<lparr>lf_dev := d\<rparr>) = vecs_ok c l" "vecs_ok c (l\<lparr>lf_legacy := g\<rparr>) = vecs_ok c l"
  "vecs_ok c (l\<lparr>lf_rm := rm\<rparr>) = vecs_ok c l" "vecs_ok c (l\<lparr>lf_init_qrange := b\<rparr>) = vecs_ok c l"
  by (simp_all add: vecs_ok_def)

lemma leg_upd [simp]:
  "leg_ok c (l\<lparr>lf_dev := d\<rparr>) = leg_ok c l" "leg_ok c (l\<lparr>lf_vecs := v\<rparr>) = leg_ok c l"
  "leg_ok c (l\<lparr>lf_rm := rm\<rparr>) = leg_ok c l" "leg_ok c (l\<lparr>lf_init_qrange := b\<rparr>) = leg_ok c l"
  by (simp_all add: leg_ok_def)

lemma leg_put:
  assumes "leg_ok c l" and "proper (fst r)" and "queue_get r l = Some q" and "present q' \<Longrightarrow> present q"
  shows "leg_ok c (queue_put r q' l)"
  using assms by (auto simp: leg_ok_def queue_get_put split: if_splits)

lemma life_upd [simp]:
  "life_ok c (l\<lparr>lf_dev := d\<rparr>) = life_ok c l" "life_ok c (l\<lparr>lf_init_qrange := b\<rparr>) = life_ok c l"
  by (simp_all add: life_ok_def)

lemma on_vec_put:
  assumes "proper (fst r)" and "queue_get r l \<noteq> None"
  shows "on_vec (queue_put r q l) v =
    (if lq_state q = Q_STATE_ONLINE \<and> lq_intr_id q = v then insert r (on_vec l v) else on_vec l v - {r})"
  using assms by (auto simp: on_vec_def queue_get_put split: if_splits)

text \<open>A queue that stays present or absent keeps the counts.\<close>

lemma counts_put_same:
  assumes "slots_ok n l" and "proper t" and "queue_get (t, i) l = Some q" and "present q' = present q" "st_of q' = st_of q"
  shows "counts (queue_put (t, i) q' l) = counts l"
  using assms(4,5) n_of_put [OF assms(1,2) _ assms(3), of _ present q']
    n_of_put [OF assms(1,2) _ assms(3), of Q_C2H "\<lambda>q. present q \<and> st_of q" q']
  by (auto simp: counts_def fun_eq_iff)

lemma vecs_put_same:
  assumes "vecs_ok c l" and "proper (fst r)" and "queue_get r l = Some q"
    and "lq_state q' = Q_STATE_ONLINE \<longleftrightarrow> lq_state q = Q_STATE_ONLINE"
    and "lq_state q = Q_STATE_ONLINE \<Longrightarrow> lq_intr_id q' = lq_intr_id q"
  shows "vecs_ok c (queue_put r q' l)"
proof -
  have "on_vec (queue_put r q' l) v = on_vec l v" for v
    using assms by (auto simp: on_vec_put) (auto simp: on_vec_def)
  then show ?thesis using assms(1) by (simp add: vecs_ok_def)
qed

lemma life_put_same:
  assumes "life_ok c l" and r: "proper (fst r)" "queue_get r l = Some q"
    and q': "lq_state q' = lq_state q" "st_of q' = st_of q" "cf_q_type (lq_conf q') = cf_q_type (lq_conf q)"
    and "lq_state q = Q_STATE_ONLINE \<Longrightarrow> lq_intr_id q' = lq_intr_id q"
  shows "life_ok c (queue_put r q' l)"
proof -
  obtain t i where ti: "r = (t, i)" by (cases r)
  have p: "present q' = present q" using q' by (simp add: present_def)
  show ?thesis
    using assms p slots_put_same [of "unat (lc_qmax c)" l t i q q'] counts_put_same [of "unat (lc_qmax c)" l t i q q']
      vecs_put_same [of c l r q q'] leg_put [of c l r q q'] unfolding life_ok_def ti by auto
qed

lemma by_id_found:
  assumes "slots_ok (unat (lc_qmax c)) l" and "qdma_device_get_descq_by_id c idx init l = Some r"
  obtains q where "proper (fst r)" "queue_get r l = Some q" "init \<Longrightarrow> present q"
proof -
  have "proper (fst r) \<and> snd r < unat (lc_qmax c)"
    using assms(2) by (auto simp: qdma_device_get_descq_by_id_def Let_def split: if_splits option.splits)
  then obtain q where q: "proper (fst r)" "queue_get r l = Some q"
    using slots_get [OF assms(1), of "fst r" "snd r"] by (cases r) auto
  moreover have "init \<Longrightarrow> present q"
    using assms(2) q by (auto simp: qdma_device_get_descq_by_id_def Let_def present_def split: if_splits option.splits)
  ultimately show ?thesis using that by blast
qed

section \<open>Every operation keeps the invariant\<close>

text \<open>What the operations need of the access layer: error codes that can be translated, and success of the
  reading of the configuration and of the function map.\<close>

definition env_ok :: "'s life_env \<Rightarrow> bool" where
  "env_ok env \<longleftrightarrow>
     (\<forall>d. 0 \<le> fst (le_csr_read env d)) \<and> (\<forall>fid f d. 0 \<le> fst (hw_fmap_conf (le_hw env) fid (Some f) QDMA_HW_ACCESS_WRITE d)) \<and>
     (\<forall>q st t clr d. proper t \<longrightarrow> qdma_descq_context_clear (le_hw env) q st t clr d \<noteq> None)"

definition keeps :: "life_conf \<Rightarrow> ('s life \<Rightarrow> (int \<times> 's life) option) \<Rightarrow> bool" where
  "keeps c f \<longleftrightarrow> (\<forall>l. life_ok c l \<longrightarrow> (\<exists>rv l'. f l = Some (rv, l') \<and> life_ok c l'))"

lemma config_keeps: "keeps c (qdma_queue_config c valid idx conf)"
  unfolding keeps_def
proof (intro allI impI)
  fix l :: "'s life"
  assume l: "life_ok c l"
  show "\<exists>rv l'. qdma_queue_config c valid idx conf l = Some (rv, l') \<and> life_ok c l'"
  proof (cases "qdma_device_get_descq_by_id c idx False l")
    case (Some r)
    obtain q where q: "proper (fst r)" "queue_get r l = Some q"
      using by_id_found [OF _ Some] l by (auto simp: life_ok_def)
    have "life_ok c (queue_put r (qdma_descq_config c conf True q) l)"
      by (rule life_put_same [OF l q]) (simp_all add: qdma_descq_config_def Let_def st_of_def)
    then show ?thesis using l Some q by (simp add: qdma_queue_config_def)
  qed (use l in \<open>simp add: qdma_queue_config_def\<close>)
qed

lemma present_type:
  assumes "slots_ok n l" and "proper (fst r)" and "queue_get r l = Some q" and "present q"
  shows "cf_q_type (lq_conf q) = fst r"
proof -
  have "q \<in> set (descqs (fst r) l)" using assms(3) by (auto simp: queue_get_def split: if_splits)
  then show ?thesis using assms by (simp add: slots_ok_def)
qed

lemma alloc_irq_range:
  "vs \<noteq> [] \<Longrightarrow> dvec < length vs \<Longrightarrow> desc_alloc_irq mode dvec (map vi_cnt vs) x < length vs"
  using fewest_vector [of dvec "map vi_cnt vs" x] by (cases "mode = DIRECT_INTR_MODE") (auto simp: desc_alloc_irq_def)

lemma vecs_online:
  assumes ok: "vecs_ok c l" and r: "proper (fst r)" "queue_get r l = Some q" "lq_state q \<noteq> Q_STATE_ONLINE"
    and q': "lq_state q' = Q_STATE_ONLINE" and v: "lf_vecs l \<noteq> []" "lq_intr_id q' < length (lf_vecs l)"
  shows "\<exists>vecs. vec_add (lq_intr_id q') r (lf_vecs l) = Some vecs \<and> vecs_ok c (queue_put r q' (l\<lparr>lf_vecs := vecs\<rparr>))"
proof -
  let ?v = "lq_intr_id q'" and ?vs = "lf_vecs l"
  define w where "w = (?vs ! ?v)\<lparr>vi_list := vi_list (?vs ! ?v) @ [r], vi_cnt := vi_cnt (?vs ! ?v) + 1\<rparr>"
  have a: "vec_add ?v r ?vs = Some (?vs[?v := w])" using v by (simp add: vec_add_def w_def Let_def)
  have out: "r \<notin> on_vec l u" for u using r by (simp add: on_vec_def)
  have o: "on_vec (queue_put r q' (l\<lparr>lf_vecs := x\<rparr>)) u = (if u = ?v then insert r (on_vec l u) else on_vec l u)" for u x
    using r q' out [of u] by (simp add: on_vec_put)
  have "vecs_ok c (queue_put r q' (l\<lparr>lf_vecs := ?vs[?v := w]\<rparr>))"
    using ok v out unfolding vecs_ok_def o by (auto simp: w_def nth_list_update)
  with a show ?thesis by blast
qed

lemma goes_online:
  assumes l: "life_ok c l" and q: "proper (fst r)" "queue_get r l = Some q" and e: "lq_state q = Q_STATE_ENABLED"
    and q': "lq_state q' = Q_STATE_ONLINE" "lq_conf q' = lq_conf q"
    and v: "lf_vecs l \<noteq> [] \<Longrightarrow> lq_intr_id q' < length (lf_vecs l)"
  shows "\<exists>vs. (if lf_vecs l \<noteq> [] then vec_add (lq_intr_id q') r (lf_vecs l) else Some []) = Some vs \<and>
    life_ok c (queue_put r q' (l\<lparr>lf_vecs := vs\<rparr>))"
proof -
  obtain t i where ti: "r = (t, i)" by (cases r)
  have same: "present q' = present q" "st_of q' = st_of q" "cf_q_type (lq_conf q') = cf_q_type (lq_conf q)"
    using e q' by (simp_all add: present_def st_of_def)
  have put: "slots_ok (unat (lc_qmax c)) (queue_put r q' (l\<lparr>lf_vecs := vs\<rparr>)) \<and>
      acct c (lf_rm l) (counts (queue_put r q' (l\<lparr>lf_vecs := vs\<rparr>))) \<and> leg_ok c (queue_put r q' (l\<lparr>lf_vecs := vs\<rparr>))" for vs
    using leg_put [of c "l\<lparr>lf_vecs := vs\<rparr>" r q q'] slots_put_same [of _ "l\<lparr>lf_vecs := vs\<rparr>" t i q q'] counts_put_same [of _ "l\<lparr>lf_vecs := vs\<rparr>" t i q q']
      l q same unfolding ti life_ok_def by auto
  show ?thesis
  proof (cases "lf_vecs l = []")
    case True
    then have "vecs_ok c (queue_put r q' (l\<lparr>lf_vecs := []\<rparr>))" using l by (simp add: life_ok_def vecs_ok_def)
    then show ?thesis using True put by (simp add: life_ok_def)
  next
    case False
    then obtain vs where "vec_add (lq_intr_id q') r (lf_vecs l) = Some vs" "vecs_ok c (queue_put r q' (l\<lparr>lf_vecs := vs\<rparr>))"
      using vecs_online [of c l r q q'] l q e q' v by (auto simp: life_ok_def)
    then show ?thesis using False put by (simp add: life_ok_def)
  qed
qed

lemma start_queue_keeps:
  assumes env: "env_ok env" and l: "life_ok c l" and q: "proper (fst r)" "queue_get r l = Some q" and e: "lq_state q = Q_STATE_ENABLED"
    and q1: "lq_state q1 = lq_state q" "lq_conf q1 = lq_conf q" "lf_vecs l \<noteq> [] \<Longrightarrow> lq_intr_id q1 < length (lf_vecs l)"
  shows "\<exists>rv l'. start_queue env c r q1 l = Some (rv, l') \<and> life_ok c l'"
proof -
  obtain rv d where p: "le_prog_hw env r q1 (lf_dev l) = (rv, d)" by force
  have t: "proper (cf_q_type (lq_conf q))"
    using present_type [OF _ q] l q(1) e by (auto simp: life_ok_def present_def)
  show ?thesis
  proof (cases "rv < 0")
    case True
    obtain x d' where "qdma_descq_context_clear (le_hw env) (qidx_hw c r) (cf_st (lq_conf q)) (cf_q_type (lq_conf q)) True d = Some (x, d')"
      using env t unfolding env_ok_def by (metis not_None_eq surj_pair)
    moreover have "life_ok c (queue_put r (q1\<lparr>lq_resource := False\<rparr>) (l\<lparr>lf_dev := d'\<rparr>))"
      using l q q1 e by (intro life_put_same [where q = q]) (simp_all add: st_of_def)
    ultimately show ?thesis using True p q1 by (simp add: start_queue_def)
  next
    case False
    let ?q = "q1\<lparr>lq_state := Q_STATE_ONLINE\<rparr>"
    have "\<exists>vs. (if lf_vecs l \<noteq> [] then vec_add (lq_intr_id q1) r (lf_vecs l) else Some []) = Some vs \<and>
        life_ok c (queue_put r ?q (l\<lparr>lf_dev := d, lf_vecs := vs\<rparr>))"
      using goes_online [of c "l\<lparr>lf_dev := d\<rparr>" r q ?q] l q q1 e by (cases "lf_vecs l = []") simp_all
    then obtain vs where "(if lf_vecs l \<noteq> [] then vec_add (lq_intr_id q1) r (lf_vecs l) else Some []) = Some vs"
        "life_ok c (queue_put r ?q (l\<lparr>lf_dev := d, lf_vecs := vs\<rparr>))" by blast
    then show ?thesis using False p by (simp only: start_queue_def prod.case if_False option.case) blast
  qed
qed

lemma start_keeps:
  assumes env: "env_ok env"
  shows "keeps c (qdma_queue_start env c valid idx)"
  unfolding keeps_def
proof (intro allI impI)
  fix l :: "'a life"
  assume l: "life_ok c l"
  show "\<exists>rv l'. qdma_queue_start env c valid idx l = Some (rv, l') \<and> life_ok c l'"
  proof (cases "qdma_device_get_descq_by_id c idx True l")
    case (Some r)
    obtain q where q: "proper (fst r)" "queue_get r l = Some q"
      using by_id_found [OF _ Some] l by (auto simp: life_ok_def)
    show ?thesis
    proof (cases "start_checks c q < 0")
      case False
      then have e: "lq_state q = Q_STATE_ENABLED" by (auto simp: start_checks_def Let_def split: if_splits)
      define q1 where "q1 = q\<lparr>lq_resource := True, lq_intr_id := desc_alloc_irq (lc_drv_mode c) (lc_dvec_start_idx c)
        (map vi_cnt (lf_vecs l)) (lq_intr_id q)\<rparr>"
      have "lf_vecs l \<noteq> [] \<Longrightarrow> lq_intr_id q1 < length (lf_vecs l)"
        using l alloc_irq_range [of "lf_vecs l"] by (simp add: q1_def life_ok_def vecs_ok_def)
      then have "\<exists>rv l'. start_queue env c r q1 l = Some (rv, l') \<and> life_ok c l'"
        using start_queue_keeps [OF env l q e, of q1] by (simp add: q1_def)
      then show ?thesis using l Some q False by (simp add: qdma_queue_start_def q1_def)
    qed (use l Some q in \<open>simp add: qdma_queue_start_def\<close>)
  qed (use l in \<open>simp add: qdma_queue_start_def\<close>)
qed

lemma vecs_offline:
  assumes ok: "vecs_ok c l" and r: "proper (fst r)" "queue_get r l = Some q" "lq_state q = Q_STATE_ONLINE"
    and q': "lq_state q' \<noteq> Q_STATE_ONLINE" and v: "lf_vecs l \<noteq> []"
  shows "\<exists>vecs. vec_del (lq_intr_id q) r (lf_vecs l) = Some vecs \<and> vecs_ok c (queue_put r q' (l\<lparr>lf_vecs := vecs\<rparr>))"
proof -
  let ?v = "lq_intr_id q" and ?vs = "lf_vecs l"
  have on: "r \<in> on_vec l ?v" using r by (simp add: on_vec_def)
  then have v': "?v < length ?vs" using ok v unfolding vecs_ok_def by blast
  define w where "w = (?vs ! ?v)\<lparr>vi_list := remove1 r (vi_list (?vs ! ?v)), vi_cnt := vi_cnt (?vs ! ?v) - 1\<rparr>"
  have "r \<in> set (vi_list (?vs ! ?v))" using on ok v' by (simp add: vecs_ok_def)
  then have d: "vec_del ?v r ?vs = Some (?vs[?v := w])" "length (remove1 r (vi_list (?vs ! ?v))) = length (vi_list (?vs ! ?v)) - 1"
    using v' by (simp_all add: vec_del_def w_def Let_def length_remove1)
  have other: "u \<noteq> ?v \<Longrightarrow> r \<notin> on_vec l u" for u using r by (auto simp: on_vec_def)
  have o: "on_vec (queue_put r q' (l\<lparr>lf_vecs := x\<rparr>)) u = (if u = ?v then on_vec l u - {r} else on_vec l u)" for u x
    using r q' other [of u] by (simp add: on_vec_put)
  have "vecs_ok c (queue_put r q' (l\<lparr>lf_vecs := ?vs[?v := w]\<rparr>))"
    using ok v v' d(2) unfolding vecs_ok_def o by (auto simp: w_def nth_list_update)
  with d(1) show ?thesis by blast
qed

lemma goes_offline:
  assumes l: "life_ok c l" and q: "proper (fst r)" "queue_get r l = Some q" and e: "lq_state q = Q_STATE_ONLINE"
    and q': "lq_state q' = Q_STATE_ENABLED" "lq_conf q' = lq_conf q"
  shows "\<exists>vs. (if lc_drv_mode c \<noteq> POLL_MODE \<and> lc_drv_mode c \<noteq> LEGACY_INTR_MODE then vec_del (lq_intr_id q) r (lf_vecs l)
      else Some (lf_vecs l)) = Some vs \<and> life_ok c (queue_put r q' (l\<lparr>lf_vecs := vs\<rparr>))"
proof -
  obtain t i where ti: "r = (t, i)" by (cases r)
  have same: "present q' = present q" "st_of q' = st_of q" "cf_q_type (lq_conf q') = cf_q_type (lq_conf q)"
    using e q' by (simp_all add: present_def st_of_def)
  have put: "slots_ok (unat (lc_qmax c)) (queue_put r q' (l\<lparr>lf_vecs := vs\<rparr>)) \<and>
      acct c (lf_rm l) (counts (queue_put r q' (l\<lparr>lf_vecs := vs\<rparr>))) \<and> leg_ok c (queue_put r q' (l\<lparr>lf_vecs := vs\<rparr>))" for vs
    using leg_put [of c "l\<lparr>lf_vecs := vs\<rparr>" r q q'] slots_put_same [of _ "l\<lparr>lf_vecs := vs\<rparr>" t i q q'] counts_put_same [of _ "l\<lparr>lf_vecs := vs\<rparr>" t i q q']
      l q same unfolding ti life_ok_def by auto
  have mode: "lf_vecs l = [] \<longleftrightarrow> lc_drv_mode c = POLL_MODE \<or> lc_drv_mode c = LEGACY_INTR_MODE"
    using l by (simp add: life_ok_def vecs_ok_def)
  show ?thesis
  proof (cases "lf_vecs l = []")
    case True
    have "vecs_ok c (queue_put r q' (l\<lparr>lf_vecs := lf_vecs l\<rparr>))" using l True by (simp add: life_ok_def vecs_ok_def)
    then show ?thesis using True mode put [of "lf_vecs l"] by (auto simp: life_ok_def)
  next
    case False
    then obtain vs where "vec_del (lq_intr_id q) r (lf_vecs l) = Some vs" "vecs_ok c (queue_put r q' (l\<lparr>lf_vecs := vs\<rparr>))"
      using vecs_offline [of c l r q q'] l q e q' by (auto simp: life_ok_def)
    then show ?thesis using False mode put by (simp add: life_ok_def)
  qed
qed

lemma cancel_fields [simp]:
  "lq_state (cancel_requests q) = lq_state q" "lq_conf (cancel_requests q) = lq_conf q" "lq_intr_id (cancel_requests q) = lq_intr_id q"
  by (simp_all add: cancel_requests_def Let_def)

lemma stop_keeps:
  assumes env: "env_ok env"
  shows "keeps c (qdma_queue_stop env c valid idx)"
  unfolding keeps_def
proof (intro allI impI)
  fix l :: "'a life"
  assume l: "life_ok c l"
  show "\<exists>rv l'. qdma_queue_stop env c valid idx l = Some (rv, l') \<and> life_ok c l'"
  proof (cases "qdma_device_get_descq_by_id c idx True l")
    case (Some r)
    obtain q where q: "proper (fst r)" "queue_get r l = Some q"
      using by_id_found [OF _ Some] l by (auto simp: life_ok_def)
    show ?thesis
    proof (cases "lq_state q = Q_STATE_ONLINE")
      case True
      define q1 where "q1 = cancel_requests (q\<lparr>lq_state := Q_STATE_ENABLED, lq_stop_wait := False\<rparr>)"
      have q1: "lq_state q1 = Q_STATE_ENABLED" "lq_conf q1 = lq_conf q" "lq_intr_id q1 = lq_intr_id q" by (simp_all add: q1_def)
      have t: "proper (cf_q_type (lq_conf q))" using present_type [OF _ q] l q(1) True by (auto simp: life_ok_def present_def)
      obtain x d where d: "qdma_descq_context_clear (le_hw env) (qidx_hw c r) (cf_st (lq_conf q)) (cf_q_type (lq_conf q)) False (lf_dev l) = Some (x, d)"
        using env t unfolding env_ok_def by (metis not_None_eq surj_pair)
      obtain vs where vs: "(if lc_drv_mode c \<noteq> POLL_MODE \<and> lc_drv_mode c \<noteq> LEGACY_INTR_MODE then vec_del (lq_intr_id q) r (lf_vecs l)
          else Some (lf_vecs l)) = Some vs" "life_ok c (queue_put r (q1\<lparr>lq_resource := False\<rparr>) (l\<lparr>lf_vecs := vs\<rparr>))"
        using goes_offline [OF l q True, of "q1\<lparr>lq_resource := False\<rparr>"] q1 by auto
      have "queue_put r (q1\<lparr>lq_resource := False\<rparr>) (l\<lparr>lf_dev := d, lf_vecs := vs\<rparr>) =
          (queue_put r (q1\<lparr>lq_resource := False\<rparr>) (l\<lparr>lf_vecs := vs\<rparr>))\<lparr>lf_dev := d\<rparr>"
        by (simp add: queue_put_def split: queue_type_t.split)
      moreover have "stop_queue env c r q1 l = Some (0, queue_put r (q1\<lparr>lq_resource := False\<rparr>) (l\<lparr>lf_dev := d, lf_vecs := vs\<rparr>))"
        unfolding stop_queue_def q1 d by (simp only: option.case prod.case vs(1))
      moreover have "qdma_queue_stop env c valid idx l = (if valid then stop_queue env c r q1 l else Some (- EINVAL, l))"
        using Some q True by (simp add: qdma_queue_stop_def q1_def)
      ultimately show ?thesis using l vs(2) by simp
    qed (use l Some q in \<open>simp add: qdma_queue_stop_def\<close>)
  qed (use l in \<open>simp add: qdma_queue_stop_def\<close>)
qed

text \<open>Presence of a queue and the counts.\<close>

lemma count_type: "proper t \<Longrightarrow> counted_type (dev_q_type t)" "proper t \<Longrightarrow> counted_type QDMA_DEV_Q_TYPE_CMPT"
  by (cases t; simp add: dev_q_type_def)+

definition both :: "queue_type_t \<Rightarrow> bool \<Rightarrow> bool" where
  "both t st \<longleftrightarrow> st \<and> t = Q_C2H"

lemma counts_put:
  assumes s: "slots_ok n l" and t: "proper t" and q: "queue_get (t, i) l = Some q"
  shows "present q' \<Longrightarrow> \<not> present q \<Longrightarrow> counts (queue_put (t, i) q' l) =
      (let f = (counts l)(dev_q_type t := counts l (dev_q_type t) + 1)
       in if both t (st_of q') then f(2 := f 2 + 1) else f)" (is "_ \<Longrightarrow> _ \<Longrightarrow> ?add")
    and "\<not> present q' \<Longrightarrow> present q \<Longrightarrow> counts (queue_put (t, i) q' l) =
      (let f = (counts l)(dev_q_type t := counts l (dev_q_type t) - 1)
       in if both t (st_of q) then f(2 := f 2 - 1) else f)" (is "_ \<Longrightarrow> _ \<Longrightarrow> ?del")
    and "present q \<Longrightarrow> 0 < counts l (dev_q_type t) \<and> (both t (st_of q) \<longrightarrow> 0 < counts l 2)"
proof -
  note n = n_of_put [OF s t _ q, of Q_H2C present q', simplified] n_of_put [OF s t _ q, of Q_C2H present q', simplified]
    n_of_put [OF s t _ q, of Q_CMPT present q', simplified]
    n_of_put [OF s t _ q, of Q_C2H "\<lambda>q. present q \<and> st_of q" q', simplified]
  show "present q' \<Longrightarrow> \<not> present q \<Longrightarrow> ?add"
    using n t by (cases t) (auto simp: counts_def fun_eq_iff Let_def both_def dev_q_type_def)
  have pos: "P q \<Longrightarrow> 0 < n_of P t l" for P
    using q by (auto simp: n_of_def queue_get_def filter_empty_conv split: if_splits)
  then show "present q \<Longrightarrow> 0 < counts l (dev_q_type t) \<and> (both t (st_of q) \<longrightarrow> 0 < counts l 2)"
    using t pos [of present] pos [of "\<lambda>q. present q \<and> st_of q"] by (cases t) (auto simp: counts_def both_def dev_q_type_def)
  show "\<not> present q' \<Longrightarrow> present q \<Longrightarrow> ?del"
    using n t pos [of present] pos [of "\<lambda>q. present q \<and> st_of q"]
    by (cases t) (auto simp: counts_def fun_eq_iff Let_def both_def dev_q_type_def)
qed

lemma count_added_acct:
  assumes "acct c rm f" and t: "proper (cf_q_type conf)" and "f (dev_q_type (cf_q_type conf)) < unat (lc_qmax c)"
    and "both (cf_q_type conf) (cf_st conf) \<Longrightarrow> f 2 < unat (lc_qmax c)"
  shows "\<exists>rm'. count_added c conf rm = (0, rm') \<and>
    acct c rm' (let g = f(dev_q_type (cf_q_type conf) := f (dev_q_type (cf_q_type conf)) + 1)
                in if both (cf_q_type conf) (cf_st conf) then g(2 := g 2 + 1) else g)"
proof -
  let ?t = "dev_q_type (cf_q_type conf)"
  obtain rm1 where 1: "qdma_dev_increment_active_queue (lc_dma_device_index c) (lc_func_id c) ?t rm = (QDMA_SUCCESS, rm1)"
      "acct c rm1 (f(?t := f ?t + 1))"
    using acct_increment [OF assms(1) count_type(1) [OF t] assms(3)] by blast
  show ?thesis
  proof (cases "both (cf_q_type conf) (cf_st conf)")
    case True
    then have "(f(?t := f ?t + 1)) 2 < unat (lc_qmax c)" using assms(4) by (simp add: both_def dev_q_type_def)
    then obtain rm2 where "qdma_dev_increment_active_queue (lc_dma_device_index c) (lc_func_id c) 2 rm1 = (QDMA_SUCCESS, rm2)"
        "acct c rm2 ((f(?t := f ?t + 1))(2 := (f(?t := f ?t + 1)) 2 + 1))"
      using acct_increment [OF 1(2), of 2] by auto
    then show ?thesis using 1 True by (simp add: count_added_def both_def Let_def dev_q_type_def)
  qed (use 1 in \<open>auto simp: count_added_def both_def Let_def\<close>)
qed

lemma count_removed_acct:
  assumes "acct c rm f" and t: "proper (cf_q_type conf)" and "0 < f (dev_q_type (cf_q_type conf))"
    and "both (cf_q_type conf) (cf_st conf) \<Longrightarrow> 0 < f 2"
  shows "\<exists>rm'. count_removed c conf rm = (0, rm') \<and>
    acct c rm' (let g = f(dev_q_type (cf_q_type conf) := f (dev_q_type (cf_q_type conf)) - 1)
                in if both (cf_q_type conf) (cf_st conf) then g(2 := g 2 - 1) else g)"
proof -
  let ?t = "dev_q_type (cf_q_type conf)"
  obtain rm1 where 1: "qdma_dev_decrement_active_queue (lc_dma_device_index c) (lc_func_id c) ?t rm = (QDMA_SUCCESS, rm1)"
      "acct c rm1 (f(?t := f ?t - 1))"
    using acct_decrement [OF assms(1) count_type(1) [OF t] assms(3)] by blast
  show ?thesis
  proof (cases "both (cf_q_type conf) (cf_st conf)")
    case True
    then have "0 < (f(?t := f ?t - 1)) 2" using assms(4) by (simp add: both_def dev_q_type_def)
    then obtain rm2 where "qdma_dev_decrement_active_queue (lc_dma_device_index c) (lc_func_id c) 2 rm1 = (QDMA_SUCCESS, rm2)"
        "acct c rm2 ((f(?t := f ?t - 1))(2 := (f(?t := f ?t - 1)) 2 - 1))"
      using acct_decrement [OF 1(2), of 2] by auto
    then show ?thesis using 1 True by (simp add: count_removed_def both_def Let_def dev_q_type_def)
  qed (use 1 in \<open>auto simp: count_removed_def both_def Let_def\<close>)
qed

text \<open>A queue that is not online changes its presence.\<close>

lemma life_put_presence:
  assumes l: "life_ok c l" and t: "proper t" and q: "queue_get (t, i) l = Some q"
    and "lq_state q \<noteq> Q_STATE_ONLINE" "lq_state q' \<noteq> Q_STATE_ONLINE"
    and "present q' \<Longrightarrow> cf_q_type (lq_conf q') = t" and "acct c rm (counts (queue_put (t, i) q' l))"
    and "idx_ok (at_slot t q' Q_H2C (descqs Q_H2C l ! i)) (at_slot t q' Q_C2H (descqs Q_C2H l ! i))
      (at_slot t q' Q_CMPT (descqs Q_CMPT l ! i))"
    and "leg_ok c (queue_put (t, i) q' (l\<lparr>lf_legacy := g\<rparr>))"
  shows "life_ok c ((queue_put (t, i) q' l)\<lparr>lf_rm := rm, lf_legacy := g\<rparr>)"
proof -
  have i: "i < unat (lc_qmax c)" using l q slots_get [of "unat (lc_qmax c)" l t i] t by (auto simp: life_ok_def split: if_splits)
  have "slots_ok (unat (lc_qmax c)) (queue_put (t, i) q' l)"
    using assms l i by (intro slots_put) (simp_all add: life_ok_def)
  moreover have "vecs_ok c (queue_put (t, i) q' l)"
    using assms l by (intro vecs_put_same [of c l "(t, i)" q q']) (simp_all add: life_ok_def)
  moreover have eq: "queue_put (t, i) q' (l\<lparr>lf_legacy := g\<rparr>) = (queue_put (t, i) q' l)\<lparr>lf_legacy := g\<rparr>"
    by (simp add: queue_put_def split: queue_type_t.split)
  have "leg_ok c ((queue_put (t, i) q' l)\<lparr>lf_rm := rm, lf_legacy := g\<rparr>)"
    using assms(9) unfolding eq by (simp add: leg_ok_def)
  ultimately show ?thesis using assms(7) by (simp add: life_ok_def)
qed

lemma idx_absent:
  assumes "slots_ok n l" and "i < n" and "\<not> present q"
  shows "idx_ok (at_slot t q Q_H2C (descqs Q_H2C l ! i)) (at_slot t q Q_C2H (descqs Q_C2H l ! i)) (at_slot t q Q_CMPT (descqs Q_CMPT l ! i))"
proof -
  have "idx_ok (descqs Q_H2C l ! i) (descqs Q_C2H l ! i) (descqs Q_CMPT l ! i)" using assms by (simp add: slots_ok_def)
  then show ?thesis using assms(3) by (cases t) (auto simp: at_slot_def idx_ok_def)
qed

lemma legacy_clear_found:
  "r \<in> set (lg_list g) \<Longrightarrow> \<exists>g' d'. intr_legacy_clear dev (Some r) g d = Some (g', d') \<and> lg_list g' = remove1 r (lg_list g)"
  by (cases "remove1 r (lg_list g) = []") (simp_all add: intr_legacy_clear_def)

lemma remove_keeps: "keeps c (qdma_queue_remove env c valid idx)"
  unfolding keeps_def
proof (intro allI impI)
  fix l :: "'a life"
  assume l: "life_ok c l"
  note s = l [unfolded life_ok_def, THEN conjunct1]
  show "\<exists>rv l'. qdma_queue_remove env c valid idx l = Some (rv, l') \<and> life_ok c l'"
  proof (cases "qdma_device_get_descq_by_id c idx True l")
    case (Some r)
    obtain q where q: "proper (fst r)" "queue_get r l = Some q" "present q" using by_id_found [OF s Some] by auto
    obtain t i where ti: "r = (t, i)" by (cases r)
    have t: "cf_q_type (lq_conf q) = t" "proper t" using present_type [OF s q] q(1) by (simp_all add: ti)
    have i: "i < unat (lc_qmax c)" using q(2) slots_get [OF s t(2), of i] by (simp add: ti split: if_splits)
    show ?thesis
    proof (cases "lq_state q = Q_STATE_ENABLED")
      case True
      let ?q = "q\<lparr>lq_state := Q_STATE_DISABLED\<rparr>" and ?g = "lf_legacy l"
      note cnt = counts_put(2) [OF s t(2) q(2) [unfolded ti], of ?q] counts_put(3) [OF s t(2) q(2) [unfolded ti]]
      obtain rm' where rm': "count_removed c (lq_conf q) (lf_rm l) = (0, rm')" "acct c rm' (counts (queue_put r ?q l))"
        using count_removed_acct [of c "lf_rm l" "counts l" "lq_conf q"] cnt l t q(3)
        by (auto simp: life_ok_def present_def st_of_def ti)
      have leg: "leg_ok c (queue_put r ?q (l\<lparr>lf_legacy := g\<rparr>))"
        if "lc_drv_mode c = LEGACY_INTR_MODE \<Longrightarrow> lg_list g = remove1 r (lg_list ?g)" for g
      proof -
        have "x \<in> set (remove1 r xs)" if "x \<in> set xs" "x \<noteq> r" for x and xs :: "life_ref list" using that by (simp add: in_set_remove1)
        then show ?thesis
          using l q that by (auto simp: life_ok_def leg_ok_def queue_get_put present_def split: if_splits)
      qed
      have ok: "life_ok c ((queue_put r ?q l)\<lparr>lf_rm := rm', lf_legacy := g\<rparr>)"
        if "lc_drv_mode c = LEGACY_INTR_MODE \<Longrightarrow> lg_list g = remove1 r (lg_list ?g)" for g
        unfolding ti using q t True rm' leg [OF that] idx_absent [OF s i]
        by (intro life_put_presence [OF l t(2), where q = q]) (simp_all add: ti present_def)
      have put: "queue_put r ?q (l\<lparr>lf_rm := rm'\<rparr>) = (queue_put r ?q l)\<lparr>lf_rm := rm'\<rparr>"
        by (simp add: queue_put_def split: queue_type_t.split)
      show ?thesis
      proof (cases "valid \<and> lc_drv_mode c = LEGACY_INTR_MODE")
        case True
        then have "r \<in> set (lg_list ?g)" using l q by (simp add: life_ok_def leg_ok_def ti)
        from legacy_clear_found [OF this, of "le_legacy env" "lf_dev l"]
        obtain g d where g: "intr_legacy_clear (le_legacy env) (Some r) ?g (lf_dev l) = Some (g, d)" "lg_list g = remove1 r (lg_list ?g)"
          by (elim exE conjE)
        have "qdma_queue_remove env c valid idx l = Some (0, (queue_put r ?q l)\<lparr>lf_rm := rm', lf_legacy := g, lf_dev := d\<rparr>)"
          using Some q \<open>lq_state q = Q_STATE_ENABLED\<close> rm' True g by (simp add: qdma_queue_remove_def put)
        then show ?thesis using ok [OF g(2)] by simp
      next
        case False
        then have "qdma_queue_remove env c valid idx l = (if valid then Some (0, (queue_put r ?q l)\<lparr>lf_rm := rm', lf_legacy := ?g\<rparr>) else Some (- EINVAL, l))"
          using Some q True rm' by (auto simp: qdma_queue_remove_def put)
        then show ?thesis using l ok [of ?g] False by (cases valid) auto
      qed
    qed (use l Some q in \<open>simp add: qdma_queue_remove_def\<close>)
  qed (use l in \<open>simp add: qdma_queue_remove_def\<close>)
qed

section \<open>Adding a queue\<close>

lemma put_upd [simp]:
  "queue_put r x (l\<lparr>lf_dev := d\<rparr>) = (queue_put r x l)\<lparr>lf_dev := d\<rparr>"
  "queue_put r x (l\<lparr>lf_legacy := g\<rparr>) = (queue_put r x l)\<lparr>lf_legacy := g\<rparr>"
  "queue_put r x (l\<lparr>lf_init_qrange := b\<rparr>) = (queue_put r x l)\<lparr>lf_init_qrange := b\<rparr>"
  by (simp_all add: queue_put_def split: queue_type_t.split)

lemma put_put [simp]: "queue_put r x (queue_put r y l) = queue_put r x l"
  by (simp add: queue_put_def split: queue_type_t.split)

lemma put_get: "proper (fst r) \<Longrightarrow> queue_get r l = Some q \<Longrightarrow> queue_put r q l = l"
  by (cases "fst r") (auto simp: queue_put_def queue_get_def descqs_def list_update_same_conv split: if_splits)

lemma life_cong:
  fixes l l' :: "'s life"
  assumes "life_ok c l" and "lf_h2c l' = lf_h2c l" "lf_c2h l' = lf_c2h l" "lf_cmpt l' = lf_cmpt l" "lf_vecs l' = lf_vecs l"
    "lf_rm l' = lf_rm l" "lf_legacy l' = lf_legacy l"
  shows "life_ok c l'"
proof -
  have "l' = l\<lparr>lf_dev := lf_dev l', lf_init_qrange := lf_init_qrange l'\<rparr>" using assms by (intro life.equality) simp_all
  then show ?thesis using assms(1) by (metis life_upd)
qed

lemma prep_succeeds:
  assumes "env_ok env"
  shows "\<exists>d b. qdma_device_prep_q_resource env c l = Some (0, l\<lparr>lf_dev := d, lf_init_qrange := b\<rparr>)"
proof (cases "lf_init_qrange l")
  case True
  then have "l\<lparr>lf_dev := lf_dev l, lf_init_qrange := True\<rparr> = l" by simp
  with True show ?thesis unfolding qdma_device_prep_q_resource_def by metis
next
  case False
  obtain rv d where d: "le_csr_read env (lf_dev l) = (rv, d)" by force
  obtain rv2 x d2 where d2: "hw_fmap_conf (le_hw env) (lc_func_id c) (Some \<lparr>fmap_qbase = lc_qbase c, fmap_qmax = lc_qmax c\<rparr>)
      QDMA_HW_ACCESS_WRITE d = (rv2, x, d2)" by (metis prod_cases3)
  have "0 \<le> rv" "0 \<le> rv2" using assms d d2 unfolding env_ok_def by (metis fst_conv)+
  then show ?thesis
    using False d d2 by (auto simp: qdma_device_prep_q_resource_def device_set_qrange_def or_errno_def no_ctxt_def)
qed

text \<open>The legacy interrupt: on failure the queue is disabled again, and the list keeps all other queues.\<close>

lemma add_legacy_cases:
  assumes r: "proper (fst r)" and q: "queue_get r l = Some q"
  obtains (ok) g d where "add_legacy env c r l = Some (0, l\<lparr>lf_legacy := g, lf_dev := d\<rparr>)"
      "lc_drv_mode c = LEGACY_INTR_MODE \<Longrightarrow> set (lg_list g) = insert r (set (lg_list (lf_legacy l)))"
      "lc_drv_mode c \<noteq> LEGACY_INTR_MODE \<Longrightarrow> g = lf_legacy l"
    | (failed) g d where "add_legacy env c r l =
        Some (- EINVAL, queue_put r (q\<lparr>lq_state := Q_STATE_DISABLED\<rparr>) (l\<lparr>lf_legacy := g, lf_dev := d\<rparr>))"
      "set (lg_list (lf_legacy l)) - {r} \<subseteq> set (lg_list g)"
proof (cases "lc_drv_mode c = LEGACY_INTR_MODE")
  case False
  then have "add_legacy env c r l = Some (0, l\<lparr>lf_legacy := lf_legacy l, lf_dev := lf_dev l\<rparr>)" by (simp add: add_legacy_def)
  with False ok show thesis by blast
next
  case leg: True
  let ?g = "lf_legacy l"
  obtain rv g d where su: "intr_legacy_setup (le_legacy env) (Some r) ?g (lf_dev l) = (rv, g, d)" by (metis prod_cases3)
  have rv: "rv = 0 \<Longrightarrow> set (lg_list g) = insert r (set (lg_list ?g))" "set (lg_list ?g) \<subseteq> set (lg_list g)"
      "0 < rv \<Longrightarrow> lg_list g = lg_list ?g @ [r]"
    using su by (auto simp: intr_legacy_setup_def Let_def split: prod.splits if_splits)
  show thesis
  proof (cases "rv > 0")
    case True
    then have "r \<in> set (lg_list g)" using rv(3) by simp
    from legacy_clear_found [OF this, of "le_legacy env" d]
    obtain g' d' where g': "intr_legacy_clear (le_legacy env) (Some r) g d = Some (g', d')" "lg_list g' = remove1 r (lg_list g)"
      by (elim exE conjE)
    have "x \<in> set (lg_list ?g) - {r} \<Longrightarrow> x \<in> set (lg_list g')" for x using rv(3) True g'(2) by (simp add: in_set_remove1)
    moreover have "add_legacy env c r l =
        Some (- EINVAL, queue_put r (q\<lparr>lq_state := Q_STATE_DISABLED\<rparr>) (l\<lparr>lf_legacy := g', lf_dev := d'\<rparr>))"
      using leg su True g' q by (simp add: add_legacy_def queue_state_def)
    ultimately show thesis using failed by blast
  next
    case False
    show thesis
    proof (cases "rv = 0")
      case True
      then have "add_legacy env c r l = Some (0, l\<lparr>lf_legacy := g, lf_dev := d\<rparr>)" using leg su by (simp add: add_legacy_def)
      then show thesis using leg rv(1) True ok by blast
    next
      case neg: False
      then have "add_legacy env c r l =
          Some (- EINVAL, queue_put r (q\<lparr>lq_state := Q_STATE_DISABLED\<rparr>) (l\<lparr>lf_legacy := g, lf_dev := d\<rparr>))"
        using leg su q False by (simp add: add_legacy_def queue_state_def)
      then show thesis using rv(2) failed by blast
    qed
  qed
qed

lemma life_legacy:
  assumes "life_ok c l" and "\<And>r q. proper (fst r) \<Longrightarrow> queue_get r l = Some q \<Longrightarrow> present q \<Longrightarrow> lc_drv_mode c = LEGACY_INTR_MODE \<Longrightarrow>
      r \<in> set (lg_list (lf_legacy l)) \<Longrightarrow> r \<in> set (lg_list g)"
  shows "life_ok c (l\<lparr>lf_legacy := g\<rparr>)"
  using assms by (auto simp: life_ok_def leg_ok_def)

lemma add_queue_keeps:
  assumes env: "env_ok env" and l: "life_ok c l" and t: "proper t" "cf_q_type conf = t"
    and q: "queue_get (t, i) l = Some q" "\<not> present q"
    and idx: "idx_ok (at_slot t (q\<lparr>lq_state := Q_STATE_ENABLED, lq_conf := conf\<rparr>) Q_H2C (descqs Q_H2C l ! i))
      (at_slot t (q\<lparr>lq_state := Q_STATE_ENABLED, lq_conf := conf\<rparr>) Q_C2H (descqs Q_C2H l ! i))
      (at_slot t (q\<lparr>lq_state := Q_STATE_ENABLED, lq_conf := conf\<rparr>) Q_CMPT (descqs Q_CMPT l ! i))"
    and room: "counts l (dev_q_type t) < unat (lc_qmax c)" "both t (cf_st conf) \<Longrightarrow> counts l 2 < unat (lc_qmax c)"
  shows "\<exists>rv l'. add_queue env c conf (t, i) l = Some (rv, l') \<and> life_ok c l'"
proof -
  let ?r = "(t, i)" and ?qe = "q\<lparr>lq_state := Q_STATE_ENABLED\<rparr>" and ?q = "q\<lparr>lq_state := Q_STATE_ENABLED, lq_conf := conf\<rparr>"
  have p: "present ?q" "st_of ?q = cf_st conf" "lq_state q = Q_STATE_DISABLED" using q(2) by (simp_all add: present_def st_of_def)
  obtain d b where prep: "qdma_device_prep_q_resource env c (queue_put ?r ?qe l) =
      Some (0, (queue_put ?r ?qe l)\<lparr>lf_dev := d, lf_init_qrange := b\<rparr>)" using prep_succeeds [OF env] by blast
  define l2 where "l2 = (queue_put ?r ?qe l)\<lparr>lf_dev := d, lf_init_qrange := b\<rparr>"
  have get: "queue_get ?r l2 = Some ?qe" "lf_legacy l2 = lf_legacy l" using t q by (simp_all add: l2_def queue_get_put)
  have add: "add_queue env c conf ?r l = (case add_legacy env c ?r l2 of None \<Rightarrow> None
      | Some (rv, l) \<Rightarrow> if rv < 0 then Some (rv, l) else
      case queue_get ?r l of None \<Rightarrow> None
      | Some q \<Rightarrow> let l = queue_put ?r (qdma_descq_config c conf False q) l
          in case count_added c conf (lf_rm l) of (rv, rm) \<Rightarrow> Some (rv, l\<lparr>lf_rm := rm\<rparr>))"
    using q prep by (simp add: add_queue_def queue_state_def l2_def)
  have pr: "proper (fst ?r)" using t by simp
  show ?thesis
  proof (cases rule: add_legacy_cases [OF pr get(1), of env c, case_names ok failed])
    case (ok g d')
    have "counts (queue_put ?r ?q l) = (let f = (counts l)(dev_q_type t := counts l (dev_q_type t) + 1)
        in if both t (cf_st conf) then f(2 := f 2 + 1) else f)"
      using counts_put(1) [OF _ t(1) q(1) p(1) q(2), of "unat (lc_qmax c)"] l p(2) by (simp add: life_ok_def)
    then obtain rm where rm: "count_added c conf (lf_rm l) = (0, rm)" "acct c rm (counts (queue_put ?r ?q l))"
      using count_added_acct [of c "lf_rm l" "counts l" conf] l t room by (auto simp: life_ok_def)
    have leg: "leg_ok c (queue_put ?r ?q (l\<lparr>lf_legacy := g\<rparr>))"
      using l t q ok(2) get(2) by (auto simp: life_ok_def leg_ok_def queue_get_put split: if_splits)
    have "life_ok c ((queue_put ?r ?q l)\<lparr>lf_rm := rm, lf_legacy := g\<rparr>)"
      by (rule life_put_presence [OF l t(1) q(1) _ _ _ rm(2) idx leg]) (use p t(2) in simp_all)
    then have "life_ok c ((queue_put ?r ?q l)\<lparr>lf_dev := d, lf_init_qrange := b, lf_legacy := g, lf_dev := d', lf_rm := rm\<rparr>)"
      by (rule life_cong) simp_all
    moreover have "add_queue env c conf ?r l =
        Some (0, (queue_put ?r ?q l)\<lparr>lf_dev := d, lf_init_qrange := b, lf_legacy := g, lf_dev := d', lf_rm := rm\<rparr>)"
      unfolding add using ok(1) get rm(1) by (simp add: l2_def qdma_descq_config_def queue_get_put t(1) q(1))
    ultimately show ?thesis by blast
  next
    case (failed g d')
    have "?qe\<lparr>lq_state := Q_STATE_DISABLED\<rparr> = q" using p(3) by simp
    then have "add_queue env c conf ?r l = Some (- EINVAL, l\<lparr>lf_dev := d, lf_init_qrange := b, lf_legacy := g, lf_dev := d'\<rparr>)"
      unfolding add using failed(1) put_get [of ?r l q] t(1) q(1) by (simp add: l2_def)
    moreover have "life_ok c (l\<lparr>lf_legacy := g\<rparr>)"
      using failed(2) get(2) q by (intro life_legacy [OF l]) auto
    then have "life_ok c (l\<lparr>lf_dev := d, lf_init_qrange := b, lf_legacy := g, lf_dev := d'\<rparr>)" by (rule life_cong) simp_all
    ultimately show ?thesis by blast
  qed
qed

lemma acct_count:
  assumes "acct c rm f" and "counted_type t"
  shows "\<exists>k :: u32. qdma_get_device_active_queue_count (lc_dma_device_index c) (lc_func_id c) t rm = sint k \<and> unat k = f t"
  using assms by (auto simp: acct_def qdma_get_device_active_queue_count_def q_counter_def)

lemma unat_ucast_qmax: "unat (ucast (x :: u16) :: u32) = unat x"
  using unsigned_less [of x, where 'a = nat] by (simp add: unsigned_ucast_eq take_bit_nat_eq_self)

lemma add_checks_pass:
  assumes "\<not> add_checks c conf l < 0" and l: "life_ok c l"
  shows "proper (cf_q_type conf)" "counts l (dev_q_type (cf_q_type conf)) < unat (lc_qmax c)"
proof -
  show t: "proper (cf_q_type conf)" using assms(1) by (auto simp: add_checks_def)
  obtain k :: u32 where k: "qdma_get_device_active_queue_count (lc_dma_device_index c) (lc_func_id c) (dev_q_type (cf_q_type conf)) (lf_rm l) = sint k"
      "unat k = counts l (dev_q_type (cf_q_type conf))"
    using acct_count [OF _ count_type(1) [OF t]] l by (metis life_ok_def)
  have "k < ucast (lc_qmax c)" using assms(1) by (auto simp: add_checks_def k(1) not_le split: if_splits)
  then show "counts l (dev_q_type (cf_q_type conf)) < unat (lc_qmax c)" using k(2) by (simp add: word_less_nat_alt unat_ucast_qmax)
qed

lemma add_checks_index:
  assumes "\<not> add_checks c conf l < 0" and "cf_qidx conf \<noteq> QDMA_QUEUE_IDX_INVALID"
  shows "unat (cf_qidx conf) < unat (lc_qmax c)"
  using assms by (auto simp: add_checks_def not_le word_less_nat_alt unat_ucast_qmax split: if_splits)

lemma usable_slot:
  assumes s: "slots_ok n l" and t: "proper t" and i: "i < n" and u: "is_usable_queue i t st l = Some True"
    and q': "st_of q' = st"
  shows "\<not> present (descqs t l ! i)"
    "idx_ok (at_slot t q' Q_H2C (descqs Q_H2C l ! i)) (at_slot t q' Q_C2H (descqs Q_C2H l ! i)) (at_slot t q' Q_CMPT (descqs Q_CMPT l ! i))"
    "both t st \<Longrightarrow> counts l 2 < n"
proof -
  let ?h = "descqs Q_H2C l ! i" and ?c = "descqs Q_C2H l ! i" and ?m = "descqs Q_CMPT l ! i"
  have nr: "\<not> rejected t st (refmask ?h ?c ?m)"
    using u i s by (simp add: is_usable_queue_def slots_get)
  have old: "idx_ok ?h ?c ?m" using s i by (simp add: slots_ok_def)
  show "\<not> present (descqs t l ! i)" using nr t by (cases t) (simp_all add: usable_h2c usable_c2h usable_cmpt)
  show "idx_ok (at_slot t q' Q_H2C ?h) (at_slot t q' Q_C2H ?c) (at_slot t q' Q_CMPT ?m)"
    using nr old t q' by (cases t) (auto simp: usable_h2c usable_c2h usable_cmpt at_slot_def idx_ok_def)
  show "counts l 2 < n" if "both t st"
    using cmpt_less [OF s i] nr that by (simp add: both_def usable_c2h counts_def)
qed

lemma add_keeps:
  assumes env: "env_ok env" and named: "cf_qidx conf \<noteq> QDMA_QUEUE_IDX_INVALID" and l: "life_ok c l"
  shows "\<exists>rv h l'. qdma_queue_add env c valid conf l = Some (rv, h, l') \<and> life_ok c l'"
proof (cases "valid \<and> \<not> add_checks c conf l < 0")
  case True
  let ?t = "cf_q_type conf" and ?i = "unat (cf_qidx conf)" and ?n = "unat (lc_qmax c)"
  note s = l [unfolded life_ok_def, THEN conjunct1]
  have chk: "proper ?t" "?i < ?n" "counts l (dev_q_type ?t) < ?n" using add_checks_pass [OF _ l] add_checks_index [OF _ named] True by auto
  obtain u where u: "is_usable_queue ?i ?t (cf_st conf) l = Some u" using chk s by (simp add: is_usable_queue_def slots_get)
  show ?thesis
  proof (cases u)
    case usable: True
    let ?q = "descqs ?t l ! ?i" and ?conf = "conf\<lparr>cf_qidx := of_nat ?i\<rparr>"
    have get: "queue_get (?t, ?i) l = Some ?q" using slots_get [OF s chk(1), of ?i] chk(2) by simp
    have u': "is_usable_queue ?i ?t (cf_st conf) l = Some True" using u usable by simp
    note us = usable_slot [OF s chk(1,2) u', of "?q\<lparr>lq_state := Q_STATE_ENABLED, lq_conf := ?conf\<rparr>"]
    have "\<exists>rv l'. add_queue env c ?conf (?t, ?i) l = Some (rv, l') \<and> life_ok c l'"
      by (rule add_queue_keeps [OF env l chk(1) _ get]) (use us chk(3) in \<open>simp_all add: st_of_def\<close>)
    then obtain rv l' where "add_queue env c ?conf (?t, ?i) l = Some (rv, l')" "life_ok c l'" by blast
    then show ?thesis using True named u usable by (simp add: qdma_queue_add_def pick_queue_def)
  qed (use True named u l in \<open>simp add: qdma_queue_add_def pick_queue_def\<close>)
qed (use l in \<open>auto simp: qdma_queue_add_def\<close>)

section \<open>Sequences of operations\<close>

datatype life_op =
    Add qdma_queue_conf
  | Config nat qdma_queue_conf
  | Start nat
  | Stop nat
  | Remove nat

fun life_exec :: "'s life_env \<Rightarrow> life_conf \<Rightarrow> life_op \<Rightarrow> 's life \<Rightarrow> (int \<times> 's life) option" where
  "life_exec env c (Add conf) l = map_option (\<lambda>(rv, h, l). (rv, l)) (qdma_queue_add env c True conf l)"
| "life_exec env c (Config idx conf) l = qdma_queue_config c True idx conf l"
| "life_exec env c (Start idx) l = qdma_queue_start env c True idx l"
| "life_exec env c (Stop idx) l = qdma_queue_stop env c True idx l"
| "life_exec env c (Remove idx) l = qdma_queue_remove env c True idx l"

fun life_run :: "'s life_env \<Rightarrow> life_conf \<Rightarrow> life_op list \<Rightarrow> 's life \<Rightarrow> 's life option" where
  "life_run env c [] l = Some l"
| "life_run env c (op # ops) l = (case life_exec env c op l of None \<Rightarrow> None | Some (_, l) \<Rightarrow> life_run env c ops l)"

text \<open>Every queue that is added is named by its index.\<close>

fun names_index :: "life_op \<Rightarrow> bool" where
  "names_index (Add conf) = (cf_qidx conf \<noteq> QDMA_QUEUE_IDX_INVALID)"
| "names_index _ = True"

text \<open>The state after the device was opened: no queue is in use.\<close>

definition life_start :: "life_conf \<Rightarrow> 's life \<Rightarrow> bool" where
  "life_start c l \<longleftrightarrow>
     (\<forall>t. proper t \<longrightarrow> length (descqs t l) = unat (lc_qmax c) \<and> (\<forall>q \<in> set (descqs t l). lq_state q = Q_STATE_DISABLED)) \<and>
     acct c (lf_rm l) (\<lambda>_. 0) \<and>
     (lf_vecs l = [] \<longleftrightarrow> lc_drv_mode c = POLL_MODE \<or> lc_drv_mode c = LEGACY_INTR_MODE) \<and>
     (lf_vecs l \<noteq> [] \<longrightarrow> lc_dvec_start_idx c < length (lf_vecs l)) \<and> (\<forall>v \<in> set (lf_vecs l). vi_list v = [] \<and> vi_cnt v = 0)"

lemma life_start_ok:
  assumes "life_start c l"
  shows "life_ok c l"
proof -
  have off: "proper t \<Longrightarrow> q \<in> set (descqs t l) \<Longrightarrow> \<not> present q" for t q
    using assms by (simp add: life_start_def present_def)
  then have n: "proper t \<Longrightarrow> n_of (\<lambda>q. present q \<and> P q) t l = 0" "proper t \<Longrightarrow> n_of present t l = 0" for t P
    by (auto simp: n_of_def filter_empty_conv)
  have get: "proper (fst r) \<Longrightarrow> queue_get r l = Some q \<Longrightarrow> \<not> present q" for r q
    using off [of "fst r"] by (auto simp: queue_get_def split: if_splits)
  then have "on_vec l v = {}" for v by (fastforce simp: on_vec_def present_def)
  moreover have "counts l = (\<lambda>_. 0)" using n by (auto simp: counts_def)
  moreover have "slots_ok (unat (lc_qmax c)) l"
  proof -
    have len: "proper t \<Longrightarrow> length (descqs t l) = unat (lc_qmax c)" for t using assms by (simp add: life_start_def)
    then have "proper t \<Longrightarrow> i < unat (lc_qmax c) \<Longrightarrow> \<not> present (descqs t l ! i)" for t i using off by simp
    from this [of Q_H2C] this [of Q_C2H] show ?thesis using len off by (auto simp: slots_ok_def idx_ok_def)
  qed
  ultimately show ?thesis using assms get by (auto simp: life_ok_def life_start_def vecs_ok_def leg_ok_def)
qed

lemma life_run_keeps:
  assumes env: "env_ok env"
  shows "life_ok c l \<Longrightarrow> \<forall>op \<in> set ops. names_index op \<Longrightarrow> \<exists>l'. life_run env c ops l = Some l' \<and> life_ok c l'"
proof (induction ops arbitrary: l)
  case (Cons op ops)
  have "\<exists>rv l'. life_exec env c op l = Some (rv, l') \<and> life_ok c l'"
  proof (cases op)
    case (Add conf)
    then show ?thesis using add_keeps [OF env _ Cons.prems(1), of conf True] Cons.prems(2) by fastforce
  qed (simp_all add: config_keeps [unfolded keeps_def, rule_format] start_keeps [OF env, unfolded keeps_def, rule_format]
      stop_keeps [OF env, unfolded keeps_def, rule_format] remove_keeps [unfolded keeps_def, rule_format] Cons.prems(1))
  then show ?case using Cons by fastforce
qed simp

lemma counts_small:
  assumes "slots_ok n l"
  shows "counts l t \<le> 2 * n"
proof -
  have "n_of P u l \<le> n" if "proper u" for P u
    using assms that length_filter_le [of P "descqs u l"] by (simp add: n_of_def slots_ok_def)
  from this [of Q_H2C present] this [of Q_C2H present] this [of Q_CMPT present] this [of Q_C2H "\<lambda>q. present q \<and> st_of q"]
  show ?thesis by (simp add: counts_def)
qed

text \<open>C12: The books on the queues of a function stay consistent.  Start with no queues, with interrupt vectors exactly when
  the mode of the driver uses them, and make any sequence of calls to add (with an index), configure, start, stop and
  remove queues, while the access layer reads the configuration, writes the function map and clears contexts
  without an error it cannot translate (\<open>env_ok\<close>).  No call accesses a queue or vector that does not exist, and afterwards the resource manager counts exactly the queues that are present, a
  completion queue for each streaming card-to-host queue included; the queues that share an index agree in
  their mode; and the list and the count of every interrupt vector have exactly the queues that are on line
  and use the vector.\<close>

theorem queue_life_consistent:
  assumes "env_ok env" and "life_start c l0" and "\<forall>op \<in> set ops. names_index op"
  shows "\<exists>l. life_run env c ops l0 = Some l \<and>
    (\<forall>t. proper t \<longrightarrow> qdma_get_device_active_queue_count (lc_dma_device_index c) (lc_func_id c) (dev_q_type t) (lf_rm l) =
       int (length (filter present (descqs t l)) +
         (if t = Q_CMPT then length (filter (\<lambda>q. present q \<and> cf_st (lq_conf q)) (descqs Q_C2H l)) else 0))) \<and>
    (\<forall>i < unat (lc_qmax c). idx_ok (descqs Q_H2C l ! i) (descqs Q_C2H l ! i) (descqs Q_CMPT l ! i)) \<and>
    (\<forall>v < length (lf_vecs l). vi_cnt (lf_vecs l ! v) = length (vi_list (lf_vecs l ! v)) \<and>
       distinct (vi_list (lf_vecs l ! v)) \<and> set (vi_list (lf_vecs l ! v)) = on_vec l v)"
proof -
  obtain l where l: "life_run env c ops l0 = Some l" "life_ok c l"
    using life_run_keeps [OF assms(1) life_start_ok [OF assms(2)] assms(3)] by blast
  have "qdma_get_device_active_queue_count (lc_dma_device_index c) (lc_func_id c) (dev_q_type t) (lf_rm l) =
      int (length (filter present (descqs t l)) +
        (if t = Q_CMPT then length (filter (\<lambda>q. present q \<and> cf_st (lq_conf q)) (descqs Q_C2H l)) else 0))" if t: "proper t" for t
  proof -
    obtain k :: u32 where k: "qdma_get_device_active_queue_count (lc_dma_device_index c) (lc_func_id c) (dev_q_type t) (lf_rm l) = sint k"
        "unat k = counts l (dev_q_type t)"
      using acct_count [OF _ count_type(1) [OF t]] l(2) by (metis life_ok_def)
    have "unat k < 2 ^ 31"
      using k(2) counts_small [of "unat (lc_qmax c)" l "dev_q_type t"] l(2) unsigned_less [of "lc_qmax c", where 'a = nat]
      by (simp add: life_ok_def)
    then have "sint k = int (counts l (dev_q_type t))" by (metis k(2) sint_small)
    then show ?thesis using k(1) t by (cases t) (simp_all add: counts_def n_of_def dev_q_type_def st_of_def)
  qed
  with l show ?thesis by (auto simp: life_ok_def slots_ok_def vecs_ok_def)
qed

text \<open>The soft IP gives what the operations need.\<close>

lemma or_errno_zero: "fst x = 0 \<Longrightarrow> or_errno x k = k (snd x)"
  by (simp add: or_errno_def)

lemma erase_returns:
  assumes "ctxt_engine hw regs ctx"
  shows "fst (ctxt_clear sel (Some hw) qid d) = 0" "fst (ctxt_invalidate sel (Some hw) qid d) = 0"
  using indirect_erase [OF assms, of sel qid d] by (auto simp: ctxt_clear_def ctxt_invalidate_def)

lemma soft_erase_returns:
  assumes e: "ctxt_engine hw regs ctx" and c2h: "\<not> c2h > (1 :: u8)" and acc: "acc = QDMA_HW_ACCESS_CLEAR \<or> acc = QDMA_HW_ACCESS_INVALIDATE"
  shows "fst (no_ctxt (hw_sw_ctx_conf (soft_access hw rl) c2h qid None acc d)) = 0"
    "fst (no_ctxt (hw_hw_ctx_conf (soft_access hw rl) c2h qid None acc d)) = 0"
    "fst (no_ctxt (hw_credit_ctx_conf (soft_access hw rl) c2h qid None acc d)) = 0"
    "fst (no_ctxt (hw_pfetch_ctx_conf (soft_access hw rl) qid None acc d)) = 0"
    "fst (no_ctxt (hw_cmpt_ctx_conf (soft_access hw rl) qid None acc d)) = 0"
  using acc c2h
  by (elim disjE; simp add: erase_returns [OF e] soft_access_def no_ctxt_def keep_ctxt_def qdma_sw_ctx_conf_def qdma_hw_ctx_conf_def qdma_credit_ctx_conf_def
      qdma_pfetch_ctx_conf_def qdma_cmpt_ctx_conf_def qdma_sw_context_clear_def qdma_hw_context_clear_def
      qdma_credit_context_clear_def qdma_pfetch_context_clear_def qdma_cmpt_context_clear_def qdma_sw_context_invalidate_def
      qdma_hw_context_invalidate_def qdma_credit_context_invalidate_def qdma_pfetch_context_invalidate_def
      qdma_cmpt_context_invalidate_def)+

lemma soft_env_ok:
  assumes e: "ctxt_engine hw regs ctx" and hw: "le_hw env = soft_access hw rl" and "\<And>d. 0 \<le> fst (le_csr_read env d)"
  shows "env_ok env"
  unfolding env_ok_def hw
proof (intro conjI allI impI)
  fix fid f d
  have "length (fmap_words f) \<le> 8" by (simp add: fmap_words_def)
  then obtain d' where "qdma_indirect_reg_write hw QDMA_CTXT_SEL_FMAP fid (fmap_words f) d = (QDMA_SUCCESS, d')"
    using indirect_write [OF e, of "fmap_words f" QDMA_CTXT_SEL_FMAP fid d] by blast
  then show "0 \<le> fst (hw_fmap_conf (soft_access hw rl) fid (Some f) QDMA_HW_ACCESS_WRITE d)"
    by (simp add: soft_access_def qdma_fmap_conf_def qdma_fmap_write_def keep_ctxt_def ctxt_write_some)
next
  fix q st clr d and t :: queue_type_t
  assume t: "proper t"
  define acc where "acc = (if clr then QDMA_HW_ACCESS_CLEAR else QDMA_HW_ACCESS_INVALIDATE)"
  have acc: "acc = QDMA_HW_ACCESS_CLEAR \<or> acc = QDMA_HW_ACCESS_INVALIDATE" by (simp add: acc_def)
  note ret = soft_erase_returns(1-3) [OF e _ acc] soft_erase_returns(4,5) [OF e _ acc, where c2h = 0, simplified]
  show "qdma_descq_context_clear (soft_access hw rl) q st t clr d \<noteq> None"
  proof (cases "t = Q_CMPT")
    case True
    then show ?thesis by (simp add: qdma_descq_context_clear_def Let_def acc_def [symmetric] or_errno_zero ret)
  next
    case False
    with t have "\<not> q_type_num t > 1" by (cases t) simp_all
    with False show ?thesis by (simp add: qdma_descq_context_clear_def Let_def acc_def [symmetric] or_errno_zero ret)
  qed
qed (use assms in simp)

section \<open>Where the books are not kept\<close>

text \<open>C37: A queue added without an index is enabled in the wrong place.  When the first usable index \<open>i\<close> is not
  zero, \<^verbatim>\<open>qdma_queue_add\<close> enables the queue at \<open>2 * i\<close>, outside of the array when that is at least the number of
  queues.  Otherwise it returns success and the handle of \<open>i\<close>, whose queue is still disabled and cannot be
  started.\<close>

theorem unnamed_queue_misplaced:
  assumes env: "env_ok env" and l: "life_ok c l" and mode: "lc_drv_mode c \<noteq> LEGACY_INTR_MODE"
    and conf: "cf_qidx conf = QDMA_QUEUE_IDX_INVALID" "\<not> add_checks c conf l < 0"
    and i: "find (\<lambda>i. is_usable_queue i (cf_q_type conf) (cf_st conf) l = Some True) [0..<unat (lc_qmax c)] = Some i" "0 < i"
  shows "(unat (lc_qmax c) \<le> 2 * i \<longrightarrow> qdma_queue_add env c True conf l = None) \<and>
    (2 * i < unat (lc_qmax c) \<longrightarrow> (\<exists>l'. qdma_queue_add env c True conf l = Some (0, Some (queue_handle c (cf_q_type conf) i), l') \<and>
       map_option lq_state (queue_get (cf_q_type conf, 2 * i) l') = Some Q_STATE_ENABLED \<and>
       map_option lq_state (queue_get (cf_q_type conf, i) l') = Some Q_STATE_DISABLED \<and>
       qdma_queue_start env c True (queue_handle c (cf_q_type conf) i) l' = Some (- EINVAL, l')))"
proof -
  let ?t = "cf_q_type conf" and ?n = "unat (lc_qmax c)" and ?conf = "conf\<lparr>cf_qidx := of_nat i\<rparr>"
  note s = l [unfolded life_ok_def, THEN conjunct1]
  have t: "proper ?t" "counts l (dev_q_type ?t) < ?n" using add_checks_pass [OF conf(2) l] by auto
  have n: "i < ?n" "is_usable_queue i ?t (cf_st conf) l = Some True"
    using i(1) by (auto simp: find_Some_iff)
  note us = usable_slot [OF s t(1) n, of "(descqs ?t l ! i)\<lparr>lq_conf := conf\<rparr>"]
  have off: "queue_get (?t, i) l = Some (descqs ?t l ! i)" "lq_state (descqs ?t l ! i) = Q_STATE_DISABLED"
    using slots_get [OF s t(1), of i] n(1) us(1) by (simp_all add: st_of_def present_def)
  have pick: "qdma_queue_add env c True conf l = (case add_queue env c ?conf (?t, 2 * i) l of None \<Rightarrow> None
      | Some (rv, l) \<Rightarrow> if rv < 0 then Some (rv, None, l) else Some (0, Some (queue_handle c ?t i), l))"
    using conf i by (simp add: qdma_queue_add_def pick_queue_def mult_2)
  show ?thesis
  proof (cases "2 * i < ?n")
    case False
    then have "queue_get (?t, 2 * i) l = None" using slots_get [OF s t(1), of "2 * i"] by simp
    then show ?thesis using False pick by (simp add: add_queue_def queue_state_def)
  next
    case True
    define q where "q = descqs ?t l ! (2 * i)"
    have q: "queue_get (?t, 2 * i) l = Some q" using slots_get [OF s t(1), of "2 * i"] True by (simp add: q_def)
    define q1 where "q1 = q\<lparr>lq_state := Q_STATE_ENABLED, lq_conf := ?conf\<rparr>"
    obtain d b where prep: "qdma_device_prep_q_resource env c (queue_put (?t, 2 * i) (q\<lparr>lq_state := Q_STATE_ENABLED\<rparr>) l) =
        Some (0, (queue_put (?t, 2 * i) (q\<lparr>lq_state := Q_STATE_ENABLED\<rparr>) l)\<lparr>lf_dev := d, lf_init_qrange := b\<rparr>)"
      using prep_succeeds [OF env] by blast
    obtain rm where rm: "count_added c ?conf (lf_rm l) = (0, rm)"
      using count_added_acct [of c "lf_rm l" "counts l" ?conf] l t us(3) by (auto simp: life_ok_def st_of_def)
    define l' where "l' = (queue_put (?t, 2 * i) q1 l)\<lparr>lf_dev := d, lf_init_qrange := b, lf_rm := rm\<rparr>"
    have "add_queue env c ?conf (?t, 2 * i) l = Some (0, l')"
      using q prep mode rm t(1)
      by (simp add: add_queue_def queue_state_def add_legacy_def queue_get_put qdma_descq_config_def l'_def q1_def)
    then have add: "qdma_queue_add env c True conf l = Some (0, Some (queue_handle c ?t i), l')" using pick by simp
    have get: "queue_get (?t, 2 * i) l' = Some q1" "queue_get (?t, i) l' = Some (descqs ?t l ! i)"
      using q t(1) off(1) i(2) by (simp_all add: l'_def queue_get_put)
    have "qdma_device_get_descq_by_id c (queue_handle c ?t i) True l' = None"
      using get(2) off(2) t(1) n(1) by (cases ?t) (simp_all add: qdma_device_get_descq_by_id_def queue_handle_def)
    then have "qdma_queue_start env c True (queue_handle c ?t i) l' = Some (- EINVAL, l')" by (simp add: qdma_queue_start_def)
    then show ?thesis using True add get off(2) by (simp add: q1_def)
  qed
qed

text \<open>A queue that was started is on line, and a device without vectors still has none.\<close>

lemma start_online:
  assumes "qdma_queue_start env c True idx l = Some (0, l')"
  shows "\<exists>r q. qdma_device_get_descq_by_id c idx True l' = Some r \<and> queue_get r l' = Some q \<and> lq_state q = Q_STATE_ONLINE \<and>
    (lf_vecs l = [] \<longrightarrow> lf_vecs l' = [])"
proof -
  obtain r q where r: "qdma_device_get_descq_by_id c idx True l = Some r" "queue_get r l = Some q"
    using assms by (auto simp: qdma_queue_start_def split: option.splits)
  then obtain q1 where st: "start_queue env c r q1 l = Some (0, l')"
    using assms by (auto simp: qdma_queue_start_def split: if_splits)
  then obtain d vs where l': "l' = queue_put r (q1\<lparr>lq_state := Q_STATE_ONLINE\<rparr>) (l\<lparr>lf_dev := d, lf_vecs := vs\<rparr>)"
      "lf_vecs l = [] \<Longrightarrow> vs = []"
    by (auto simp: start_queue_def split: prod.splits option.splits if_splits)
  have p: "proper (fst r)"
    using r(1) by (auto simp: qdma_device_get_descq_by_id_def Let_def split: if_splits option.splits)
  have get: "queue_get r l' = Some (q1\<lparr>lq_state := Q_STATE_ONLINE\<rparr>)" using l' p r(2) by (simp add: queue_get_put)
  moreover have "qdma_device_get_descq_by_id c idx True l' = Some r"
    using r(1) get by (auto simp: qdma_device_get_descq_by_id_def Let_def split: if_splits option.splits)
  ultimately show ?thesis using l' by auto
qed

text \<open>C38: A queue cannot be stopped on a device without vectors.  When interrupts with aggregation are asked for
  and the device has no MSI-X vectors, \<^verbatim>\<open>intr_ring_setup\<close> chooses polling, but \<^verbatim>\<open>qdma_device_interrupt_setup\<close> then changes
  the mode to direct interrupts.  A queue can be started; \<^verbatim>\<open>qdma_queue_stop\<close> then takes it off the list of a
  vector that does not exist, which is undefined.\<close>

theorem fallback_stop_undefined:
  assumes su: "qdma_device_interrupt_setup hw err master_pf v mem_list msix mem xdev d = Some (0, xdev', d')" "aggr_mode xdev"
      "iv_num_vecs v = 0"
    and c: "lc_drv_mode c = xd_drv_mode xdev'" and vecs: "lf_vecs l = []"
    and start: "qdma_queue_start env c True idx l = Some (0, l')"
  shows "xd_drv_mode xdev' = DIRECT_INTR_MODE \<and> qdma_queue_stop env c True idx l' = None"
proof -
  have mode: "xd_drv_mode xdev' = DIRECT_INTR_MODE"
    using su by (auto simp: qdma_device_interrupt_setup_def intr_ring_setup_def setup_error_intr_def split: prod.splits if_splits)
  obtain r q where r: "qdma_device_get_descq_by_id c idx True l' = Some r" "queue_get r l' = Some q" "lq_state q = Q_STATE_ONLINE" "lf_vecs l' = []"
    using start_online [OF start] vecs by blast
  then have "qdma_queue_stop env c True idx l' = None"
    using c mode by (simp add: qdma_queue_stop_def stop_queue_def vec_del_def split: option.split prod.split)
  with mode show ?thesis by simp
qed

section \<open>Examples\<close>

text \<open>A function with four queues and the soft IP.\<close>

definition demo_life_conf :: "qdma_drv_mode \<Rightarrow> life_conf" where
  "demo_life_conf mode = \<lparr>lc_drv_mode = mode, lc_st_en = True, lc_mm_en = True, lc_mm_cmpt_en = False, lc_versal = False,
     lc_cpm4 = False, lc_eqdma_2020_2 = False, lc_desc_eng_mode = QDMA_DESC_ENG_INTERNAL_BYPASS, lc_dma_device_index = 0,
     lc_func_id = 5, lc_qbase = 0, lc_qmax = 4, lc_dvec_start_idx = 1\<rparr>"

definition demo_lq :: life_queue where
  "demo_lq = \<lparr>lq_state = Q_STATE_DISABLED, lq_conf = cq_conf ctx_queue, lq_intr_id = 0, lq_channel = 0, lq_stop_wait = False,
     lq_pend_list = [], lq_work_list = [], lq_done = [], lq_resource = False\<rparr>"

definition demo_life :: "nat \<Rightarrow> 's \<Rightarrow> 's life" where
  "demo_life n d = \<lparr>lf_init_qrange = True, lf_h2c = replicate 4 demo_lq, lf_c2h = replicate 4 demo_lq,
     lf_cmpt = replicate 4 demo_lq, lf_vecs = replicate n \<lparr>vi_list = [], vi_cnt = 0\<rparr>,
     lf_legacy = \<lparr>lg_list = [], lg_irq = False\<rparr>, lf_rm = demo_two, lf_dev = d\<rparr>"

definition demo_life_env :: "engine life_env" where
  "demo_life_env = \<lparr>le_hw = soft_access engine_hw (\<lambda>_ _ s. (0, 0, [], s)), le_csr_read = (\<lambda>d. (0, d)), le_memory = (\<lambda>_. True),
     le_prog_hw = (\<lambda>r q d. case qdma_descq_context_setup (soft_access engine_hw (\<lambda>_ _ s. (0, 0, [], s))) (\<lambda>_ _ _ s. s) ctx_xdev
       (ctx_queue\<lparr>cq_conf := lq_conf q, cq_intr_id := of_nat (lq_intr_id q), cq_qidx_hw := of_nat (snd r)\<rparr>) d of
         Some x \<Rightarrow> x | None \<Rightarrow> (- EINVAL, d)),
     le_legacy = \<lparr>ld_intr_conf = (\<lambda>_ d. (0, d)), ld_is_pend = (\<lambda>d. (0, d)), ld_clear_pend = (\<lambda>d. (0, d)),
       ld_request_irq = (\<lambda>d. (0, d)), ld_service = (\<lambda>_ d. d)\<rparr>\<rparr>"

lemma demo_life_env_ok: "env_ok demo_life_env"
  by (rule soft_env_ok [OF engine_ok]) (simp_all add: demo_life_env_def)

lemma demo_life_start:
  assumes "n = (if mode = POLL_MODE \<or> mode = LEGACY_INTR_MODE then 0 else 3)"
  shows "life_start (demo_life_conf mode) (demo_life n d)"
proof -
  let ?m = "the (qdma_get_master_resource_entry 0 demo_two)" and ?e = "the (qdma_get_dev_entry 0 5 demo_two)"
  have "qdma_get_master_resource_entry 0 demo_two = Some ?m" "qdma_get_dev_entry 0 5 demo_two = Some ?e"
    "re_total_q (de_entry ?e) = 4" "active_h2c_qcnt ?e = 0" "active_c2h_qcnt ?e = 0" "active_cmpt_qcnt ?e = 0" by code_simp+
  then have "acct (demo_life_conf mode) demo_two (\<lambda>_. 0)"
    unfolding acct_def by (intro exI [of _ ?m] exI [of _ ?e]) (simp add: demo_life_conf_def q_counter_def)
  then show ?thesis
    using assms by (auto simp: life_start_def demo_life_def demo_life_conf_def descqs_def demo_lq_def split: queue_type_t.split)
qed

abbreviation h2c_conf :: "u32 \<Rightarrow> qdma_queue_conf" where
  "h2c_conf i \<equiv> (cq_conf ctx_queue)\<lparr>cf_q_type := Q_H2C, cf_qidx := i\<rparr>"

theorem queue_life_consistent_witness:
  "\<exists>l. life_run demo_life_env (demo_life_conf DIRECT_INTR_MODE) [Add (cq_conf ctx_queue), Add (h2c_conf 2), Start 6, Stop 6, Remove 6]
      (demo_life 3 engine0) = Some l \<and>
    qdma_get_device_active_queue_count 0 5 QDMA_DEV_Q_TYPE_CMPT (lf_rm l) =
      int (length (filter present (lf_cmpt l)) + length (filter (\<lambda>q. present q \<and> cf_st (lq_conf q)) (lf_c2h l))) \<and>
    idx_ok (lf_h2c l ! 2) (lf_c2h l ! 2) (lf_cmpt l ! 2)"
proof -
  have "\<forall>op \<in> set [Add (cq_conf ctx_queue), Add (h2c_conf 2), Start 6, Stop 6, Remove 6]. names_index op"
    by (simp add: ctx_queue_def)
  moreover have "life_start (demo_life_conf DIRECT_INTR_MODE) (demo_life 3 engine0)" by (rule demo_life_start) simp
  moreover have c: "unat (lc_qmax (demo_life_conf DIRECT_INTR_MODE)) = 4" "lc_dma_device_index (demo_life_conf DIRECT_INTR_MODE) = 0"
    "lc_func_id (demo_life_conf DIRECT_INTR_MODE) = 5" by (simp_all add: demo_life_conf_def)
  ultimately obtain l where l: "life_run demo_life_env (demo_life_conf DIRECT_INTR_MODE)
        [Add (cq_conf ctx_queue), Add (h2c_conf 2), Start 6, Stop 6, Remove 6] (demo_life 3 engine0) = Some l"
      "\<forall>t. proper t \<longrightarrow> qdma_get_device_active_queue_count 0 5 (dev_q_type t) (lf_rm l) =
         int (length (filter present (descqs t l)) +
           (if t = Q_CMPT then length (filter (\<lambda>q. present q \<and> cf_st (lq_conf q)) (descqs Q_C2H l)) else 0))"
      "\<forall>i < 4. idx_ok (descqs Q_H2C l ! i) (descqs Q_C2H l ! i) (descqs Q_CMPT l ! i)"
    using queue_life_consistent [OF demo_life_env_ok, of "demo_life_conf DIRECT_INTR_MODE" "demo_life 3 engine0"] unfolding c by blast
  from l(2) [rule_format, of Q_CMPT] l(3) [rule_format, of 2] l(1) show ?thesis
    by (intro exI [of _ l]) (simp add: dev_q_type_def descqs_def)
qed

theorem unnamed_queue_misplaced_witness:
  "\<exists>l l'. life_run demo_life_env (demo_life_conf POLL_MODE) [Add (h2c_conf 0)] (demo_life 0 engine0) = Some l \<and>
    qdma_queue_add demo_life_env (demo_life_conf POLL_MODE) True (h2c_conf 0xFFFF) l = Some (0, Some 1, l') \<and>
    qdma_queue_start demo_life_env (demo_life_conf POLL_MODE) True 1 l' = Some (- EINVAL, l')"
proof -
  let ?c = "demo_life_conf POLL_MODE" and ?l = "the (life_run demo_life_env (demo_life_conf POLL_MODE) [Add (h2c_conf 0)] (demo_life 0 engine0))"
  have "life_ok ?c (demo_life 0 engine0)" by (rule life_start_ok [OF demo_life_start]) simp
  from life_run_keeps [OF demo_life_env_ok this, of "[Add (h2c_conf 0)]"]
  have l: "life_run demo_life_env ?c [Add (h2c_conf 0)] (demo_life 0 engine0) = Some ?l" "life_ok ?c ?l" by auto
  have e: "\<not> add_checks ?c (h2c_conf 0xFFFF) ?l < 0"
    "find (\<lambda>i. is_usable_queue i (cf_q_type (h2c_conf 0xFFFF)) (cf_st (h2c_conf 0xFFFF)) ?l = Some True) [0..<unat (lc_qmax ?c)] = Some 1"
    by code_simp+
  have "unat (lc_qmax ?c) = 4" "lc_drv_mode ?c \<noteq> LEGACY_INTR_MODE" by (simp_all add: demo_life_conf_def)
  with unnamed_queue_misplaced [OF demo_life_env_ok l(2) _ _ e] l(1) show ?thesis
    by (auto simp: queue_handle_def)
qed

definition idle_env :: "unit life_env" where
  "idle_env = \<lparr>le_hw = idle_hw, le_csr_read = (\<lambda>d. (0, d)), le_memory = (\<lambda>_. True), le_prog_hw = (\<lambda>_ _ d. (0, d)),
     le_legacy = \<lparr>ld_intr_conf = (\<lambda>_ d. (0, d)), ld_is_pend = (\<lambda>d. (0, d)), ld_clear_pend = (\<lambda>d. (0, d)),
       ld_request_irq = (\<lambda>d. (0, d)), ld_service = (\<lambda>_ d. d)\<rparr>\<rparr>"

definition idle_err :: "unit err_intr_dev" where
  "idle_err = \<lparr>ed_setup = (\<lambda>_ _ d. (0, d)), ed_enable = (\<lambda>d. (0, d)), ed_rearm = (\<lambda>d. (0, d))\<rparr>"

theorem fallback_stop_undefined_witness:
  "\<exists>l l'. life_run idle_env (demo_life_conf DIRECT_INTR_MODE) [Add (h2c_conf 2)] (demo_life 0 ()) = Some l \<and>
    qdma_queue_start idle_env (demo_life_conf DIRECT_INTR_MODE) True 2 l = Some (0, l') \<and>
    qdma_queue_stop idle_env (demo_life_conf DIRECT_INTR_MODE) True 2 l' = None"
proof -
  let ?c = "demo_life_conf DIRECT_INTR_MODE"
  let ?l = "the (life_run idle_env ?c [Add (h2c_conf 2)] (demo_life 0 ()))"
  let ?l' = "snd (the (qdma_queue_start idle_env ?c True 2 ?l))"
  let ?x = "aggr_xdev\<lparr>xd_intr_coal_list := [], xd_drv_mode := DIRECT_INTR_MODE\<rparr>"
  have run: "life_run idle_env ?c [Add (h2c_conf 2)] (demo_life 0 ()) = Some ?l"
    "qdma_queue_start idle_env ?c True 2 ?l = Some (0, ?l')" "lf_vecs ?l = []"
    by code_simp+
  have x: "aggr_mode aggr_xdev" "lc_drv_mode ?c = xd_drv_mode ?x" by (simp_all add: aggr_mode_def aggr_xdev_def demo_life_conf_def)
  then have "qdma_device_interrupt_setup idle_hw idle_err False (demo_vecs\<lparr>iv_num_vecs := 0\<rparr>) True [] [] aggr_xdev () = Some (0, ?x, ())"
    by (simp add: qdma_device_interrupt_setup_def intr_ring_setup_def setup_error_intr_def)
  with fallback_stop_undefined [OF _ x(1) _ x(2) run(3,2)] have "qdma_queue_stop idle_env ?c True 2 ?l' = None" by fastforce
  with run show ?thesis by blast
qed

end
