(* ===== verification/MboxThread.thy ===== *)
theory MboxThread
  imports QueueContext
begin

text \<open>
  The mailbox of the driver core, \<^verbatim>\<open>libqdma/qdma_mbox.c\<close>: messages that callers queue and wait for, the work
  that sends them, the work that receives messages, and the timer; and the list of virtual functions in
  \<^verbatim>\<open>qdma_sriov.c\<close>.

  Messages are allocated objects; a message is named by a number, and an access to a message that was freed,
  or the deletion of a message that is on no list, is the result \<open>None\<close>.  The parts of a function between two
  points where a lock is released or the caller sleeps are definitions of their own, so that steps of different
  threads can be interleaved.  Sending and receiving through the registers are arguments; a message is the
  record that the protocol functions work on.
\<close>

section \<open>State\<close>

definition EPIPE :: int where [simp]: "EPIPE = 32"
definition QDMA_FUNC_ID_INVALID :: u16 where [simp]: "QDMA_FUNC_ID_INVALID = 0xFFFF"
definition QDMA_MBOX_MSG_TIMEOUT_MS :: nat where [simp]: "QDMA_MBOX_MSG_TIMEOUT_MS = 10000"

datatype reset_state_t =
    RESET_STATE_IDLE | RESET_STATE_RECV_PF_RESET_REQ | RESET_STATE_PF_WAIT_FOR_BYES
  | RESET_STATE_RECV_PF_RESET_DONE | RESET_STATE_RECV_PF_OFFLINE_REQ
  | RESET_STATE_PF_OFFLINE_REQ_PROCESSING | RESET_STATE_INVALID

record mbox_msg =
  wait_resp :: bool
  resp_op_matched :: bool
  retry_cnt :: u16
  msg_raw :: qdma_mbox_txrx

record qdma_vf_info =
  vf_func_id :: u16
  vf_qbase :: u16
  vf_qmax :: u16

text \<open>The mailbox of a function, with the members of \<^verbatim>\<open>struct xlnx_dma_dev\<close> that it uses.  \<open>mb_msgs\<close> has the messages
  that are allocated; the works are queued or not, the timer is running or not.\<close>

record qdma_mbox =
  mb_msgs :: "nat \<Rightarrow> mbox_msg option"
  mb_fresh :: nat
  mb_mem :: mem
  tx_todo_list :: "nat list"
  rx_pend_list :: "nat list"
  send_busy :: bool
  rx_poll :: bool
  tx_work :: bool
  rx_work :: bool
  mb_timer :: bool
  mb_func_id :: u16
  mb_func_id_parent :: u16
  reset_state :: reset_state_t
  reset_work :: bool
  mb_offline :: bool
  vf_info :: "qdma_vf_info list"
  vf_count_online :: u8

record 'g mbox_dev =
  md_send :: "qdma_mbox_txrx \<Rightarrow> 'g \<Rightarrow> int \<times> 'g"
  md_rcv :: "'g \<Rightarrow> int \<times> qdma_mbox_txrx \<times> 'g"
  md_hw_init :: "'g \<Rightarrow> 'g"
  md_enable_interrupts :: "'g \<Rightarrow> 'g"
  md_disable_interrupts :: "'g \<Rightarrow> 'g"

section \<open>Messages\<close>

definition qdma_mbox_msg_alloc :: "qdma_mbox \<Rightarrow> nat option \<times> qdma_mbox" where
  "qdma_mbox_msg_alloc b =
     (case qdma_calloc (mb_mem b) of (ok, mem) \<Rightarrow>
        if \<not> ok then (None, b\<lparr>mb_mem := mem\<rparr>)
        else (Some (mb_fresh b), b\<lparr>mb_mem := mem, mb_fresh := mb_fresh b + 1,
                mb_msgs := (mb_msgs b)(mb_fresh b \<mapsto> \<lparr>wait_resp = False, resp_op_matched = False, retry_cnt = 0,
                  msg_raw = msg_zero\<rparr>)\<rparr>))"

definition qdma_mbox_msg_free :: "nat \<Rightarrow> qdma_mbox \<Rightarrow> qdma_mbox option" where
  "qdma_mbox_msg_free m b = (if mb_msgs b m = None then None else Some (b\<lparr>mb_msgs := (mb_msgs b)(m := None)\<rparr>))"

definition msg_put :: "nat \<Rightarrow> mbox_msg \<Rightarrow> qdma_mbox \<Rightarrow> qdma_mbox" where
  "msg_put m x b = b\<lparr>mb_msgs := (mb_msgs b)(m \<mapsto> x)\<rparr>"

text \<open>\<^verbatim>\<open>list_del\<close> takes a message off the list it is on.\<close>

definition msg_list_del :: "nat \<Rightarrow> qdma_mbox \<Rightarrow> qdma_mbox option" where
  "msg_list_del m b =
     (if mb_msgs b m = None then None
      else if m \<in> set (tx_todo_list b) then Some (b\<lparr>tx_todo_list := remove1 m (tx_todo_list b)\<rparr>)
      else if m \<in> set (rx_pend_list b) then Some (b\<lparr>rx_pend_list := remove1 m (rx_pend_list b)\<rparr>)
      else None)"

section \<open>Sending a message\<close>

text \<open>The first part of \<^verbatim>\<open>qdma_mbox_msg_send\<close>, up to the wait.\<close>

definition msg_queue :: "bool \<Rightarrow> nat \<Rightarrow> bool \<Rightarrow> nat \<Rightarrow> qdma_mbox \<Rightarrow> (int \<times> qdma_mbox) option" where
  "msg_queue is_vf m wait timeout_ms b =
     (case mb_msgs b m of
        None \<Rightarrow> None
      | Some x \<Rightarrow>
          let b = msg_put m (x\<lparr>resp_op_matched := False, wait_resp := wait, retry_cnt := of_nat (timeout_ms div 1000 + 1)\<rparr>) b
          in if is_vf \<and> reset_state b = RESET_STATE_INVALID then Some (- EINVAL, b)
             else Some (0, b\<lparr>tx_todo_list := tx_todo_list b @ [m], tx_work := True\<rparr>))"

text \<open>The second part, after the wait has ended by a wake-up or by the timeout.\<close>

definition msg_wait_end :: "nat \<Rightarrow> qdma_mbox \<Rightarrow> (int \<times> qdma_mbox) option" where
  "msg_wait_end m b =
     (case mb_msgs b m of
        None \<Rightarrow> None
      | Some x \<Rightarrow> if resp_op_matched x then Some (0, b) else map_option (Pair (- EPIPE)) (msg_list_del m b))"

text \<open>A message for which nobody waits.\<close>

definition msg_post :: "bool \<Rightarrow> nat \<Rightarrow> qdma_mbox_txrx \<Rightarrow> qdma_mbox \<Rightarrow> qdma_mbox option" where
  "msg_post is_vf m raw b =
     (case mb_msgs b m of
        None \<Rightarrow> None
      | Some x \<Rightarrow> map_option snd (msg_queue is_vf m False QDMA_MBOX_MSG_TIMEOUT_MS (msg_put m (x\<lparr>msg_raw := raw\<rparr>) b)))"

text \<open>A round of the loop that sends: the first message is sent, and then, with the result of sending, taken
  off the list or kept for later.  The result says whether the loop goes on.\<close>

definition tx_done :: "nat \<Rightarrow> int \<Rightarrow> qdma_mbox \<Rightarrow> (bool \<times> qdma_mbox) option" where
  "tx_done m rv b =
     (case mb_msgs b m of
        None \<Rightarrow> None
      | Some x \<Rightarrow>
          if rv = 0 then
            (case msg_list_del m (b\<lparr>send_busy := False\<rparr>) of
               None \<Rightarrow> None
             | Some b \<Rightarrow>
                 if wait_resp x then Some (True, b\<lparr>rx_pend_list := rx_pend_list b @ [m]\<rparr>)
                 else map_option (Pair True) (qdma_mbox_msg_free m b))
          else if \<not> mb_offline b then
            let x' = (if wait_resp x then x else x\<lparr>retry_cnt := retry_cnt x - 1\<rparr>); b = msg_put m x' b
            in if \<not> wait_resp x \<and> retry_cnt x' = 0
               then (case msg_list_del m b of
                       None \<Rightarrow> None
                     | Some b \<Rightarrow> map_option (Pair False) (qdma_mbox_msg_free m b))
               else Some (False, b\<lparr>send_busy := True, mb_timer := True\<rparr>)
          else map_option (Pair False) (qdma_mbox_msg_free m b))"

definition tx_round :: "'g mbox_dev \<Rightarrow> qdma_mbox \<Rightarrow> 'g \<Rightarrow> (bool \<times> qdma_mbox \<times> 'g) option" where
  "tx_round dev b g =
     (case tx_todo_list b of
        [] \<Rightarrow> Some (False, b, g)
      | m # _ \<Rightarrow>
          (case mb_msgs b m of
             None \<Rightarrow> None
           | Some x \<Rightarrow>
               (case md_send dev (msg_raw x) g of (rv, g) \<Rightarrow>
                  map_option (\<lambda>(go, b). (go, b, g)) (tx_done m rv b))))"

lemma tx_round_shorter:
  assumes "tx_round dev b g = Some (True, b', g')"
  shows "length (tx_todo_list b') < length (tx_todo_list b)"
proof -
  obtain m ms x where m: "tx_todo_list b = m # ms" "mb_msgs b m = Some x"
    using assms by (auto simp: tx_round_def split: list.splits option.splits)
  then show ?thesis
    using assms by (auto simp: tx_round_def tx_done_def msg_list_del_def qdma_mbox_msg_free_def Let_def
        split: option.splits prod.splits if_splits)
qed

function mbox_tx_work :: "'g mbox_dev \<Rightarrow> qdma_mbox \<Rightarrow> 'g \<Rightarrow> (qdma_mbox \<times> 'g) option" where
  "mbox_tx_work dev b g =
     (case tx_round dev b g of
        None \<Rightarrow> None
      | Some (go, b', g') \<Rightarrow> if go then mbox_tx_work dev b' g' else Some (b', g'))"
  by pat_completeness auto

termination
  by (relation "measure (\<lambda>(dev, b, g). length (tx_todo_list b))") (auto dest: tx_round_shorter)

declare mbox_tx_work.simps [simp del]

section \<open>Receiving a message\<close>

text \<open>The first message that waits for a response and that the received message answers.\<close>

fun match_pend :: "(nat \<Rightarrow> mbox_msg option) \<Rightarrow> qdma_mbox_txrx \<Rightarrow> nat list \<Rightarrow> nat option option" where
  "match_pend msgs rx [] = Some None"
| "match_pend msgs rx (m # ms) =
     (case msgs m of
        None \<Rightarrow> None
      | Some x \<Rightarrow> if qdma_mbox_is_msg_response (msg_raw x) rx \<noteq> 0 then Some (Some m) else match_pend msgs rx ms)"

text \<open>The part under the lock: the message found is marked.\<close>

definition rx_match :: "qdma_mbox_txrx \<Rightarrow> qdma_mbox \<Rightarrow> (nat option \<times> qdma_mbox) option" where
  "rx_match rx b =
     (case match_pend (mb_msgs b) rx (rx_pend_list b) of
        None \<Rightarrow> None
      | Some None \<Rightarrow> Some (None, b)
      | Some (Some m) \<Rightarrow>
          map_option (\<lambda>x. (Some m, msg_put m (x\<lparr>resp_op_matched := True\<rparr>) b)) (mb_msgs b m))"

text \<open>The response is copied to the message that waits for it.\<close>

definition rx_deliver :: "nat \<Rightarrow> qdma_mbox_txrx \<Rightarrow> qdma_mbox \<Rightarrow> qdma_mbox option" where
  "rx_deliver m rx b =
     (case msg_list_del m b of
        None \<Rightarrow> None
      | Some b \<Rightarrow> map_option (\<lambda>x. msg_put m (x\<lparr>msg_raw := rx\<rparr>) b) (mb_msgs b m))"

definition vf_take_ids :: "qdma_mbox_txrx \<Rightarrow> qdma_mbox \<Rightarrow> qdma_mbox" where
  "vf_take_ids rx b =
     (if mb_func_id b = mb_func_id_parent b
      then b\<lparr>mb_func_id := ucast (qdma_mbox_vf_func_id_get rx True),
             mb_func_id_parent := ucast (qdma_mbox_vf_parent_func_id_get rx)\<rparr> else b)"

text \<open>A message of the parent, handled only when no request of this function waits for a response.\<close>

definition vf_handle :: "qdma_mbox_txrx \<Rightarrow> qdma_mbox \<Rightarrow> (int \<times> qdma_mbox) option" where
  "vf_handle rx b =
     (case qdma_mbox_msg_alloc b of
        (None, b) \<Rightarrow> Some (- ENOMEM, b)
      | (Some m, b) \<Rightarrow>
          (case qdma_mbox_vf_rcv_msg_handler rx msg_zero of (rv, resp) \<Rightarrow>
             if rv = QDMA_MBOX_VF_RESET
             then map_option (\<lambda>b. (0, b\<lparr>reset_state := RESET_STATE_RECV_PF_RESET_REQ, reset_work := True\<rparr>)) (msg_post True m resp b)
             else if rv = QDMA_MBOX_PF_RESET_DONE
             then map_option (Pair 0) (msg_post True m resp (b\<lparr>reset_state := RESET_STATE_RECV_PF_RESET_DONE\<rparr>))
             else if rv = QDMA_MBOX_PF_BYE
             then map_option (\<lambda>b. (0, b\<lparr>reset_state := RESET_STATE_RECV_PF_OFFLINE_REQ, reset_work := True\<rparr>)) (msg_post True m resp b)
             else Some (0, msg_put m \<lparr>wait_resp = False, resp_op_matched = False, retry_cnt = 0, msg_raw = resp\<rparr> b)))"

text \<open>The rest of the function for a virtual function, after the lock was released.\<close>

definition rx_finish :: "qdma_mbox_txrx \<Rightarrow> nat option \<Rightarrow> qdma_mbox \<Rightarrow> (int \<times> qdma_mbox) option" where
  "rx_finish rx m_snd b =
     (case (if rx_pend_list b = [] then vf_handle rx b else Some (0, b)) of
        None \<Rightarrow> None
      | Some (rv, b) \<Rightarrow>
          if rv \<noteq> 0 then Some (rv, b)
          else case m_snd of None \<Rightarrow> Some (0, b) | Some m \<Rightarrow> map_option (Pair 0) (rx_deliver m rx b))"

definition mbox_rcv_one_msg_vf :: "qdma_mbox_txrx \<Rightarrow> qdma_mbox \<Rightarrow> (int \<times> qdma_mbox) option" where
  "mbox_rcv_one_msg_vf rx b =
     (case rx_match rx (vf_take_ids rx b) of None \<Rightarrow> None | Some (m_snd, b) \<Rightarrow> rx_finish rx m_snd b)"

section \<open>The list of virtual functions\<close>

definition xdev_sriov_vf_offline :: "u16 \<Rightarrow> qdma_mbox \<Rightarrow> qdma_mbox" where
  "xdev_sriov_vf_offline func_id b =
     b\<lparr>vf_count_online := vf_count_online b - 1,
       vf_info := map (\<lambda>v. if vf_func_id v = func_id
         then v\<lparr>vf_func_id := (if reset_state b = RESET_STATE_IDLE then QDMA_FUNC_ID_INVALID else vf_func_id v),
                vf_qbase := 0, vf_qmax := 0\<rparr> else v) (vf_info b)\<rparr>"

fun take_slot :: "u16 \<Rightarrow> qdma_vf_info list \<Rightarrow> qdma_vf_info list option" where
  "take_slot func_id [] = None"
| "take_slot func_id (v # vs) =
     (if vf_func_id v = QDMA_FUNC_ID_INVALID then Some (v\<lparr>vf_func_id := func_id\<rparr> # vs)
      else map_option (Cons v) (take_slot func_id vs))"

definition xdev_sriov_vf_online :: "u16 \<Rightarrow> qdma_mbox \<Rightarrow> int \<times> qdma_mbox" where
  "xdev_sriov_vf_online func_id b =
     (let b = b\<lparr>vf_count_online := vf_count_online b + 1\<rparr>
      in if reset_state b = RESET_STATE_IDLE
         then case take_slot func_id (vf_info b) of
                None \<Rightarrow> (- EINVAL, b)
              | Some vs \<Rightarrow> (0, b\<lparr>vf_info := vs\<rparr>)
         else (0, b))"

section \<open>Receiving in the physical function\<close>

text \<open>The handler of the protocol, on the state of the resource manager and of the device.\<close>

definition pf_handler ::
    "'s qdma_hw_access \<Rightarrow> u8 \<Rightarrow> u16 \<Rightarrow> qdma_mbox_txrx \<Rightarrow> 'w \<times> rm_state \<times> 's \<Rightarrow> (int \<times> qdma_mbox_txrx \<times> 'w \<times> rm_state \<times> 's) option" where
  "pf_handler acc idx func_id rx g =
     (case g of (w, rm, d) \<Rightarrow>
        map_option (\<lambda>(rv, resp, rm, d). (rv, resp, w, rm, d)) (qdma_mbox_pf_rcv_msg_handler acc idx func_id (Some rx) msg_zero rm d))"

text \<open>A response to a reset message is delivered to the caller that waits for it, and the message is freed.\<close>

definition pf_deliver :: "qdma_mbox_txrx \<Rightarrow> nat \<Rightarrow> qdma_mbox \<Rightarrow> qdma_mbox option" where
  "pf_deliver rx m_resp b =
     (case rx_match rx b of
        None \<Rightarrow> None
      | Some (None, b) \<Rightarrow> qdma_mbox_msg_free m_resp b
      | Some (Some m, b) \<Rightarrow>
          (case rx_deliver m rx b of
             None \<Rightarrow> None
           | Some b \<Rightarrow> (case qdma_mbox_msg_free m b of None \<Rightarrow> None | Some b \<Rightarrow> qdma_mbox_msg_free m_resp b)))"

text \<open>What follows the handler, by its result.\<close>

definition pf_dispatch :: "qdma_mbox_txrx \<Rightarrow> int \<Rightarrow> nat \<Rightarrow> qdma_mbox_txrx \<Rightarrow> qdma_mbox \<Rightarrow> qdma_mbox option" where
  "pf_dispatch rx rv m resp b =
     (let fid = ucast (qdma_mbox_vf_func_id_get rx False)
      in if rv = QDMA_MBOX_VF_OFFLINE \<or> rv = QDMA_MBOX_VF_RESET_BYE
         then let b = xdev_sriov_vf_offline fid b
              in if rv = QDMA_MBOX_VF_RESET_BYE then msg_post False m resp b else qdma_mbox_msg_free m b
         else if rv = QDMA_MBOX_VF_ONLINE then msg_post False m resp (snd (xdev_sriov_vf_online fid b))
         else if rv = QDMA_MBOX_VF_RESET \<or> rv = QDMA_MBOX_PF_RESET_DONE \<or> rv = QDMA_MBOX_PF_BYE then pf_deliver rx m b
         else msg_post False m resp b)"

definition mbox_rcv_one_msg_pf ::
    "(qdma_mbox_txrx \<Rightarrow> 'g \<Rightarrow> (int \<times> qdma_mbox_txrx \<times> 'g) option) \<Rightarrow> qdma_mbox_txrx \<Rightarrow> qdma_mbox \<Rightarrow> 'g \<Rightarrow>
       (int \<times> qdma_mbox \<times> 'g) option" where
  "mbox_rcv_one_msg_pf handler rx b g =
     (case qdma_mbox_msg_alloc b of
        (None, b) \<Rightarrow> Some (- ENOMEM, b, g)
      | (Some m, b) \<Rightarrow>
          (case handler rx g of
             None \<Rightarrow> None
           | Some (rv, resp, g) \<Rightarrow> map_option (\<lambda>b. (0, b, g)) (pf_dispatch rx rv m resp b)))"

section \<open>The receiving work, the timer and initialisation\<close>

text \<open>The loop takes messages until there is none; the fuel bounds the messages that arrive.\<close>

fun rx_loop ::
    "'g mbox_dev \<Rightarrow> (qdma_mbox_txrx \<Rightarrow> qdma_mbox \<Rightarrow> 'g \<Rightarrow> (int \<times> qdma_mbox \<times> 'g) option) \<Rightarrow> nat \<Rightarrow> qdma_mbox \<Rightarrow> 'g \<Rightarrow>
       (int \<times> qdma_mbox \<times> 'g) option" where
  "rx_loop dev one 0 b g = None"
| "rx_loop dev one (Suc n) b g =
     (case md_rcv dev g of (rv, rx, g) \<Rightarrow>
        if rv \<noteq> 0 then Some (rv, b, g)
        else if mb_offline b then Some (rv, b, g)
        else case one rx b g of
               None \<Rightarrow> None
             | Some (r, b, g) \<Rightarrow> if r = - EINVAL then Some (rv, b, g) else rx_loop dev one n b g)"

definition mbox_rx_work ::
    "bool \<Rightarrow> 'g mbox_dev \<Rightarrow> (qdma_mbox_txrx \<Rightarrow> qdma_mbox \<Rightarrow> 'g \<Rightarrow> (int \<times> qdma_mbox \<times> 'g) option) \<Rightarrow> nat \<Rightarrow> qdma_mbox \<Rightarrow> 'g \<Rightarrow>
       (qdma_mbox \<times> 'g) option" where
  "mbox_rx_work is_vf dev one n b g =
     (case rx_loop dev one n b g of
        None \<Rightarrow> None
      | Some (rv, b, g) \<Rightarrow>
          let stop = (if rv = - QDMA_ERR_MBOX_ALL_ZERO_MSG then \<not> is_vf \<or> reset_state b = RESET_STATE_IDLE else mb_offline b)
          in if rx_poll b then Some (b\<lparr>mb_timer := \<not> stop\<rparr>, g)
             else Some (b, if stop then md_disable_interrupts dev g else g))"

definition mbox_timer_handler :: "qdma_mbox \<Rightarrow> qdma_mbox" where
  "mbox_timer_handler b =
     b\<lparr>mb_timer := False, rx_work := rx_work b \<or> rx_poll b, tx_work := tx_work b \<or> send_busy b\<rparr>"

definition qdma_mbox_start :: "bool \<Rightarrow> bool \<Rightarrow> 'g mbox_dev \<Rightarrow> qdma_mbox \<Rightarrow> 'g \<Rightarrow> qdma_mbox \<times> 'g" where
  "qdma_mbox_start is_vf enabled dev b g =
     (if \<not> is_vf \<and> \<not> enabled then (b, g)
      else if rx_poll b then (b\<lparr>mb_timer := True\<rparr>, g) else (b, md_enable_interrupts dev g))"

definition qdma_mbox_poll_start :: "bool \<Rightarrow> bool \<Rightarrow> 'g mbox_dev \<Rightarrow> qdma_mbox \<Rightarrow> 'g \<Rightarrow> qdma_mbox \<times> 'g" where
  "qdma_mbox_poll_start is_vf enabled dev b g =
     (if \<not> is_vf \<and> \<not> enabled then (b, g) else (b\<lparr>rx_poll := True, mb_timer := True\<rparr>, md_disable_interrupts dev g))"

text \<open>Initialisation: what is in the incoming buffers is read and discarded.\<close>

definition qdma_mbox_init ::
    "bool \<Rightarrow> bool \<Rightarrow> bool \<Rightarrow> qdma_drv_mode \<Rightarrow> 'g mbox_dev \<Rightarrow> qdma_mbox \<Rightarrow> 'g \<Rightarrow> int \<times> qdma_mbox \<times> 'g" where
  "qdma_mbox_init is_vf workq irq_available mode dev b g =
     (let b = b\<lparr>tx_todo_list := [], rx_pend_list := []\<rparr>
      in if \<not> workq then (- ENOMEM, b, g)
         else let g = ((\<lambda>g. snd (snd (md_rcv dev g))) ^^ (if is_vf then 1 else 256)) g; g = md_hw_init dev g
              in if irq_available \<and> mode \<noteq> POLL_MODE \<and> mode \<noteq> LEGACY_INTR_MODE
                 then (0, b\<lparr>rx_poll := False\<rparr>, md_enable_interrupts dev g)
                 else (0, b\<lparr>rx_poll := True\<rparr>, g))"

end
