(* ===== verification/MboxThreadProps.thy ===== *)
theory MboxThreadProps
  imports MboxThread QueueCtxProps "HOL-Library.Sublist"
begin

text \<open>
  Properties of the mailbox of the driver core.  First, the threads of a virtual function are interleaved: callers
  queue messages, wait and time out while the works send and receive.  Then cases in which the code does not do what
  it should.
\<close>

section \<open>Threads of a virtual function\<close>

text \<open>The works run one at a time: there is none, one has taken a message and is sending it, or one has received a
  message and marked the request it answers.\<close>

datatype work = Idle | Sending nat | Receiving qdma_mbox_txrx "nat option"

text \<open>The mailbox with the state of the works, the callers that wait with their requests, and a record of the
  messages queued and sent, and of the requests that were answered.\<close>

record vf_sys =
  vs_box :: qdma_mbox
  vs_cur :: work
  vs_wait :: "nat \<Rightarrow> qdma_mbox_txrx option"
  vs_queued :: "nat list"
  vs_sent :: "nat list"
  vs_replies :: "(qdma_mbox_txrx \<times> qdma_mbox_txrx) list"

datatype vf_event =
    Call qdma_mbox_txrx bool | TxPick | TxDone int | RxMsg qdma_mbox_txrx | RxFin | Wake nat | Timeout nat

definition vf_call :: "qdma_mbox_txrx \<Rightarrow> bool \<Rightarrow> vf_sys \<Rightarrow> vf_sys option" where
  "vf_call raw wait s =
     (case qdma_mbox_msg_alloc (vs_box s) of
        (None, b) \<Rightarrow> Some (s\<lparr>vs_box := b\<rparr>)
      | (Some m, b) \<Rightarrow>
          (case mb_msgs b m of
             None \<Rightarrow> None
           | Some x \<Rightarrow>
               (case msg_queue True m wait QDMA_MBOX_MSG_TIMEOUT_MS (msg_put m (x\<lparr>msg_raw := raw\<rparr>) b) of
                  None \<Rightarrow> None
                | Some (rv, b) \<Rightarrow>
                    if rv < 0 then map_option (\<lambda>b. s\<lparr>vs_box := b\<rparr>) (qdma_mbox_msg_free m b)
                    else Some (s\<lparr>vs_box := b, vs_queued := vs_queued s @ [m],
                                 vs_wait := (if wait then (vs_wait s)(m \<mapsto> raw) else vs_wait s)\<rparr>))))"

text \<open>A caller returns: with the response, or after the timeout.  It frees its message.\<close>

definition vf_return :: "nat \<Rightarrow> vf_sys \<Rightarrow> vf_sys option" where
  "vf_return m s =
     (case (msg_wait_end m (vs_box s), mb_msgs (vs_box s) m, vs_wait s m) of
        (Some (rv, b), Some x, Some req) \<Rightarrow>
          map_option (\<lambda>b. s\<lparr>vs_box := b, vs_wait := (vs_wait s)(m := None),
            vs_replies := vs_replies s @ (if rv = 0 then [(req, msg_raw x)] else [])\<rparr>) (qdma_mbox_msg_free m b)
      | _ \<Rightarrow> None)"

fun vf_exec :: "vf_event \<Rightarrow> vf_sys \<Rightarrow> vf_sys option" where
  "vf_exec (Call raw wait) s = vf_call raw wait s"
| "vf_exec TxPick s = (case tx_todo_list (vs_box s) of [] \<Rightarrow> Some s | m # _ \<Rightarrow> Some (s\<lparr>vs_cur := Sending m\<rparr>))"
| "vf_exec (TxDone rv) s =
     (case vs_cur s of
        Sending m \<Rightarrow> map_option (\<lambda>(go, b). s\<lparr>vs_box := b, vs_cur := Idle, vs_sent := vs_sent s @ (if rv = 0 then [m] else [])\<rparr>)
          (tx_done m rv (vs_box s))
      | _ \<Rightarrow> Some s)"
| "vf_exec (RxMsg rx) s =
     map_option (\<lambda>(m_snd, b). s\<lparr>vs_box := b, vs_cur := Receiving rx m_snd\<rparr>) (rx_match rx (vf_take_ids rx (vs_box s)))"
| "vf_exec RxFin s =
     (case vs_cur s of
        Receiving rx m_snd \<Rightarrow>
          map_option (\<lambda>(rv, b). s\<lparr>vs_box := b, vs_cur := Idle,
              vs_queued := vs_queued s @ drop (length (tx_todo_list (vs_box s))) (tx_todo_list b)\<rparr>)
            (rx_finish rx m_snd (vs_box s))
      | _ \<Rightarrow> Some s)"
| "vf_exec (Wake m) s = vf_return m s"
| "vf_exec (Timeout m) s = vf_return m s"

text \<open>When an event can happen.  A caller wakes when its response was delivered.  A timeout is left out while a work
  has the message of the caller in its hands.\<close>

definition matched :: "nat \<Rightarrow> vf_sys \<Rightarrow> bool" where
  "matched m s = (case mb_msgs (vs_box s) m of None \<Rightarrow> False | Some x \<Rightarrow> resp_op_matched x)"

definition sending :: "vf_sys \<Rightarrow> bool" where
  "sending s = (case vs_cur s of Sending _ \<Rightarrow> True | _ \<Rightarrow> False)"

definition receiving :: "vf_sys \<Rightarrow> bool" where
  "receiving s = (case vs_cur s of Receiving _ _ \<Rightarrow> True | _ \<Rightarrow> False)"

definition delivering :: "nat \<Rightarrow> vf_sys \<Rightarrow> bool" where
  "delivering m s = (case vs_cur s of Receiving _ (Some k) \<Rightarrow> k = m | _ \<Rightarrow> False)"

fun enabled :: "vf_event \<Rightarrow> vf_sys \<Rightarrow> bool" where
  "enabled (Call raw wait) s \<longleftrightarrow> True"
| "enabled TxPick s \<longleftrightarrow> vs_cur s = Idle"
| "enabled (TxDone rv) s \<longleftrightarrow> sending s"
| "enabled (RxMsg rx) s \<longleftrightarrow> vs_cur s = Idle"
| "enabled RxFin s \<longleftrightarrow> receiving s"
| "enabled (Wake m) s \<longleftrightarrow> vs_wait s m \<noteq> None \<and> matched m s \<and> \<not> delivering m s"
| "enabled (Timeout m) s \<longleftrightarrow> vs_wait s m \<noteq> None \<and> \<not> matched m s \<and> vs_cur s \<noteq> Sending m"

lemma matched_iff: "matched m s \<longleftrightarrow> (\<exists>x. mb_msgs (vs_box s) m = Some x \<and> resp_op_matched x)"
  by (simp add: matched_def split: option.split)

lemma cur_iff:
  "sending s \<longleftrightarrow> (\<exists>m. vs_cur s = Sending m)" "receiving s \<longleftrightarrow> (\<exists>rx m. vs_cur s = Receiving rx m)"
  "delivering m s \<longleftrightarrow> (\<exists>rx. vs_cur s = Receiving rx (Some m))"
  by (auto simp: sending_def receiving_def delivering_def split: work.split option.split)

inductive vf_reach :: "vf_sys \<Rightarrow> vf_sys \<Rightarrow> bool" for s0 where
  start: "vf_reach s0 s0"
| step: "vf_reach s0 s \<Longrightarrow> enabled e s \<Longrightarrow> vf_exec e s = Some s' \<Longrightarrow> vf_reach s0 s'"

text \<open>A mailbox after initialisation.\<close>

definition vf_start :: "vf_sys \<Rightarrow> bool" where
  "vf_start s \<longleftrightarrow>
     tx_todo_list (vs_box s) = [] \<and> rx_pend_list (vs_box s) = [] \<and> \<not> mb_offline (vs_box s) \<and>
     (\<forall>m \<ge> mb_fresh (vs_box s). mb_msgs (vs_box s) m = None) \<and> vs_cur s = Idle \<and> vs_wait s = Map.empty \<and>
     vs_queued s = [] \<and> vs_sent s = [] \<and> vs_replies s = []"

abbreviation answers :: "qdma_mbox_txrx \<Rightarrow> qdma_mbox_txrx \<Rightarrow> bool" where
  "answers req rep \<equiv> qdma_mbox_is_msg_response req rep \<noteq> 0"

section \<open>The invariant\<close>

definition on_list :: "qdma_mbox \<Rightarrow> nat set" where
  "on_list b = set (tx_todo_list b) \<union> set (rx_pend_list b)"

text \<open>The lists of messages: no message is on a list twice, and all are allocated.\<close>

definition lists_ok :: "qdma_mbox \<Rightarrow> bool" where
  "lists_ok b \<longleftrightarrow> distinct (tx_todo_list b @ rx_pend_list b) \<and> (\<forall>m \<in> on_list b. mb_msgs b m \<noteq> None) \<and>
     (\<forall>m \<ge> mb_fresh b. mb_msgs b m = None) \<and> \<not> mb_offline b"

text \<open>A caller that waits: its request is on a list and unanswered; or the answer was found and is being delivered;
  or the message has the answer.\<close>

definition waiting_ok :: "vf_sys \<Rightarrow> nat \<Rightarrow> qdma_mbox_txrx \<Rightarrow> bool" where
  "waiting_ok s m req \<longleftrightarrow>
     (case mb_msgs (vs_box s) m of
        None \<Rightarrow> False
      | Some x \<Rightarrow> wait_resp x \<and>
          (if \<not> resp_op_matched x then m \<in> on_list (vs_box s) \<and> msg_raw x = req
           else if m \<in> on_list (vs_box s)
           then m \<in> set (rx_pend_list (vs_box s)) \<and> msg_raw x = req \<and>
                (\<exists>rx. vs_cur s = Receiving rx (Some m) \<and> answers req rx)
           else answers req (msg_raw x)))"

definition cur_ok :: "vf_sys \<Rightarrow> bool" where
  "cur_ok s \<longleftrightarrow>
     (case vs_cur s of
        Idle \<Rightarrow> True
      | Sending m \<Rightarrow> tx_todo_list (vs_box s) \<noteq> [] \<and> hd (tx_todo_list (vs_box s)) = m
      | Receiving rx None \<Rightarrow> True
      | Receiving rx (Some m) \<Rightarrow> m \<in> set (rx_pend_list (vs_box s)) \<and> matched m s)"

definition vf_ok :: "vf_sys \<Rightarrow> bool" where
  "vf_ok s \<longleftrightarrow>
     lists_ok (vs_box s) \<and> cur_ok s \<and> (\<forall>m req. vs_wait s m = Some req \<longrightarrow> waiting_ok s m req) \<and>
     (\<forall>m \<in> on_list (vs_box s). \<forall>x. mb_msgs (vs_box s) m = Some x \<longrightarrow> wait_resp x = (vs_wait s m \<noteq> None)) \<and>
     (\<forall>m \<in> set (rx_pend_list (vs_box s)). vs_wait s m \<noteq> None) \<and>
     subseq (vs_sent s @ tx_todo_list (vs_box s)) (vs_queued s) \<and> distinct (vs_queued s) \<and>
     (\<forall>m \<in> set (vs_queued s). m < mb_fresh (vs_box s)) \<and>
     (\<forall>p \<in> set (vs_replies s). answers (fst p) (snd p))"

lemma vf_start_ok: "vf_start s \<Longrightarrow> vf_ok s"
  by (auto simp: vf_start_def vf_ok_def lists_ok_def on_list_def cur_ok_def)


text \<open>What the invariant says of a state.\<close>

lemma vf_okD:
  assumes "vf_ok s"
  shows "lists_ok (vs_box s)" and "cur_ok s" and "\<And>m req. vs_wait s m = Some req \<Longrightarrow> waiting_ok s m req"
    and "\<And>m x. m \<in> on_list (vs_box s) \<Longrightarrow> mb_msgs (vs_box s) m = Some x \<Longrightarrow> wait_resp x = (vs_wait s m \<noteq> None)"
    and "\<And>m. m \<in> set (rx_pend_list (vs_box s)) \<Longrightarrow> vs_wait s m \<noteq> None"
    and "subseq (vs_sent s @ tx_todo_list (vs_box s)) (vs_queued s)" and "distinct (vs_queued s)"
    and "\<And>m. m \<in> set (vs_queued s) \<Longrightarrow> m < mb_fresh (vs_box s)"
    and "\<And>p. p \<in> set (vs_replies s) \<Longrightarrow> answers (fst p) (snd p)"
  using assms unfolding vf_ok_def by blast+

lemma fresh_msg:
  assumes "vf_ok s" and "m \<ge> mb_fresh (vs_box s)"
  shows "mb_msgs (vs_box s) m = None" and "m \<notin> on_list (vs_box s)" and "vs_wait s m = None" and "m \<notin> set (vs_queued s)"
proof -
  note ok = vf_okD [OF assms(1)]
  show n: "mb_msgs (vs_box s) m = None" using ok(1) assms(2) by (simp add: lists_ok_def)
  then show "m \<notin> on_list (vs_box s)" using ok(1) by (auto simp: lists_ok_def)
  show "vs_wait s m = None" using ok(3) [of m] n by (cases "vs_wait s m") (auto simp: waiting_ok_def)
  show "m \<notin> set (vs_queued s)" using ok(8) [of m] assms(2) by auto
qed

text \<open>Messages on lists and messages waited for are among those allocated so far.\<close>

lemma old_msg:
  assumes "vf_ok s"
  shows "m \<in> on_list (vs_box s) \<Longrightarrow> m < mb_fresh (vs_box s)" and "vs_wait s m = Some req \<Longrightarrow> m < mb_fresh (vs_box s)"
  using fresh_msg [OF assms, of m] by (auto simp: not_le [symmetric])

text \<open>Changes that the invariant does not see: of other members, of retry counts, of messages that no one knows; and
  the end of a work that has marked no message.\<close>

abbreviation same_msg :: "mbox_msg option \<Rightarrow> mbox_msg option \<Rightarrow> bool" where
  "same_msg p q \<equiv> map_option (\<lambda>x. (wait_resp x, resp_op_matched x, msg_raw x)) p = map_option (\<lambda>x. (wait_resp x, resp_op_matched x, msg_raw x)) q"

lemma vf_ok_same:
  assumes ok: "vf_ok s" and b: "\<And>m. m < mb_fresh (vs_box s) \<Longrightarrow> same_msg (mb_msgs b m) (mb_msgs (vs_box s) m)"
      "\<And>m. mb_fresh b \<le> m \<Longrightarrow> mb_msgs b m = None" "tx_todo_list b = tx_todo_list (vs_box s)"
      "rx_pend_list b = rx_pend_list (vs_box s)" "mb_fresh (vs_box s) \<le> mb_fresh b" "\<not> mb_offline b"
    and cur: "cur = vs_cur s \<or> cur = Idle \<and> (\<forall>rx m. vs_cur s \<noteq> Receiving rx (Some m))"
  shows "vf_ok (s\<lparr>vs_box := b, vs_cur := cur\<rparr>)" (is "vf_ok ?s")
proof -
  note d = vf_okD [OF ok]
  have on: "on_list b = on_list (vs_box s)" using b by (simp add: on_list_def)
  have msg: "\<exists>y. mb_msgs b m = Some y \<and> wait_resp y = wait_resp x \<and> resp_op_matched y = resp_op_matched x \<and> msg_raw y = msg_raw x"
    if "mb_msgs (vs_box s) m = Some x" for m x
  proof -
    have "m < mb_fresh (vs_box s)" using fresh_msg(1) [OF ok, of m] that by (cases "m < mb_fresh (vs_box s)") auto
    then show ?thesis using b(1) [of m] that by auto
  qed
  have "waiting_ok ?s m req" if w: "vs_wait s m = Some req" for m req
  proof -
    obtain x where x: "mb_msgs (vs_box s) m = Some x" using d(3) [OF w] by (auto simp: waiting_ok_def split: option.splits)
    obtain y where y: "mb_msgs b m = Some y" "wait_resp y = wait_resp x" "resp_op_matched y = resp_op_matched x" "msg_raw y = msg_raw x"
      using msg [OF x] by blast
    show ?thesis using d(3) [OF w] x y cur by (auto simp: waiting_ok_def on b split: if_splits)
  qed
  moreover have "cur_ok ?s"
    using d(2) cur b msg by (auto simp: cur_ok_def matched_iff split: work.splits option.splits) blast+
  moreover have "lists_ok b" using d(1) b on msg by (auto simp: lists_ok_def) blast
  moreover have "m < mb_fresh b" if "m \<in> set (vs_queued s)" for m using d(8) [OF that] b by simp
  moreover have "wait_resp y = (vs_wait s m \<noteq> None)" if m: "m \<in> on_list (vs_box s)" "mb_msgs b m = Some y" for m y
  proof -
    obtain x where x: "mb_msgs (vs_box s) m = Some x" using d(1) m(1) by (auto simp: lists_ok_def)
    then show ?thesis using msg [OF x] m(2) d(4) [OF m(1) x] by auto
  qed
  ultimately show ?thesis unfolding vf_ok_def using d(5-9) on b by simp
qed

lemma post_ok:
  assumes ok: "vf_ok s" and m: "m = mb_fresh (vs_box s)" and x: "wait_resp x = wait" "\<not> resp_op_matched x" "msg_raw x = raw"
    and b: "mb_msgs b = (mb_msgs (vs_box s))(m \<mapsto> x)" "mb_fresh b = m + 1" "tx_todo_list b = tx_todo_list (vs_box s) @ [m]"
      "rx_pend_list b = rx_pend_list (vs_box s)" "\<not> mb_offline b"
  shows "vf_ok (s\<lparr>vs_box := b, vs_queued := vs_queued s @ [m], vs_wait := (if wait then (vs_wait s)(m \<mapsto> raw) else vs_wait s)\<rparr>)"
    (is "vf_ok ?s")
proof -
  note d = vf_okD [OF ok] and f = fresh_msg [OF ok, of m]
  have on: "on_list b = insert m (on_list (vs_box s))" using b by (auto simp: on_list_def)
  have "lists_ok b" using d(1) f m b on by (auto simp: lists_ok_def on_list_def)
  moreover have "cur_ok ?s" using d(2) f m b by (auto simp: cur_ok_def matched_iff on_list_def split: work.splits option.splits)
  moreover have "waiting_ok ?s k req" if "vs_wait ?s k = Some req" for k req
  proof (cases "k = m")
    case True
    then show ?thesis using that f m b on x by (auto simp: waiting_ok_def split: if_splits)
  next
    case False
    then have "waiting_ok s k req" using d(3) that by (auto split: if_splits)
    then show ?thesis by (auto simp: waiting_ok_def b on False split: option.splits if_splits)
  qed
  moreover have "subseq (vs_sent s @ tx_todo_list b) (vs_queued s @ [m])"
    using d(6) b list_emb_append_mono [of "(=)" "vs_sent s @ tx_todo_list (vs_box s)" "vs_queued s" "[m]" "[m]"] by simp
  moreover have "distinct (vs_queued s @ [m])" using d(7) f m by simp
  moreover have "k < mb_fresh b" if "k \<in> set (vs_queued s @ [m])" for k using d(8) [of k] that b m by auto
  ultimately show ?thesis
    unfolding vf_ok_def using d(4,5,9) f m b on x by (auto split: if_splits)
qed

lemma call_ok:
  assumes "vf_ok s"
  shows "\<exists>s'. vf_call raw wait s = Some s' \<and> vf_ok s'"
proof -
  obtain ok mem where mem: "qdma_calloc (mb_mem (vs_box s)) = (ok, mem)" by fastforce
  note l = vf_okD(1) [OF assms, unfolded lists_ok_def]
  let ?m = "mb_fresh (vs_box s)"
  let ?x = "\<lparr>wait_resp = wait, resp_op_matched = False, retry_cnt = 11, msg_raw = raw\<rparr>"
  consider "\<not> ok" | "ok" "reset_state (vs_box s) = RESET_STATE_INVALID" | "ok" "reset_state (vs_box s) \<noteq> RESET_STATE_INVALID"
    by blast
  then show ?thesis
  proof cases
    case 1
    have "vf_ok (s\<lparr>vs_box := (vs_box s)\<lparr>mb_mem := mem\<rparr>, vs_cur := vs_cur s\<rparr>)" by (rule vf_ok_same [OF assms]) (use l in simp_all)
    then show ?thesis using 1 mem by (simp add: vf_call_def qdma_mbox_msg_alloc_def)
  next
    case 2
    let ?b = "(vs_box s)\<lparr>mb_mem := mem, mb_fresh := ?m + 1, mb_msgs := (mb_msgs (vs_box s))(?m := None)\<rparr>"
    have "vf_call raw wait s = Some (s\<lparr>vs_box := ?b\<rparr>)"
      using 2 mem by (simp add: vf_call_def qdma_mbox_msg_alloc_def msg_put_def msg_queue_def Let_def qdma_mbox_msg_free_def)
    moreover have "vf_ok (s\<lparr>vs_box := ?b, vs_cur := vs_cur s\<rparr>)" by (rule vf_ok_same [OF assms]) (use l in simp_all)
    ultimately show ?thesis by simp
  next
    case 3
    let ?b = "(vs_box s)\<lparr>mb_mem := mem, mb_fresh := ?m + 1, mb_msgs := (mb_msgs (vs_box s))(?m \<mapsto> ?x),
      tx_todo_list := tx_todo_list (vs_box s) @ [?m], tx_work := True\<rparr>"
    have "vf_ok (s\<lparr>vs_box := ?b, vs_queued := vs_queued s @ [?m],
        vs_wait := (if wait then (vs_wait s)(?m \<mapsto> raw) else vs_wait s)\<rparr>)"
      by (rule post_ok [OF assms refl, where x = ?x]) (use l in simp_all)
    then show ?thesis
      using 3 mem by (simp add: vf_call_def qdma_mbox_msg_alloc_def msg_put_def msg_queue_def Let_def)
  qed
qed


text \<open>A message leaves: it is taken off its list, if it is on one, and freed.\<close>

lemma drop_ok:
  assumes ok: "vf_ok s" and b: "mb_msgs b = (mb_msgs (vs_box s))(m := None)" "tx_todo_list b = remove1 m (tx_todo_list (vs_box s))"
      "rx_pend_list b = remove1 m (rx_pend_list (vs_box s))" "mb_fresh b = mb_fresh (vs_box s)" "\<not> mb_offline b"
    and sub: "subseq (sent @ tx_todo_list b) (vs_queued s)" and reps: "\<And>p. p \<in> set reps \<Longrightarrow> answers (fst p) (snd p)"
    and cur: "cur = Idle \<and> (\<exists>k. vs_cur s = Sending k) \<or>
      cur = vs_cur s \<and> cur \<noteq> Sending m \<and> (\<forall>rx. cur \<noteq> Receiving rx (Some m))"
  shows "vf_ok (s\<lparr>vs_box := b, vs_cur := cur, vs_wait := (vs_wait s)(m := None), vs_sent := sent, vs_replies := reps\<rparr>)"
    (is "vf_ok ?s")
proof -
  note d = vf_okD [OF ok]
  have dist: "distinct (tx_todo_list (vs_box s))" "distinct (rx_pend_list (vs_box s))" using d(1) by (auto simp: lists_ok_def)
  then have on: "on_list b = on_list (vs_box s) - {m}" and pend: "set (rx_pend_list b) = set (rx_pend_list (vs_box s)) - {m}"
    using b by (auto simp: on_list_def)
  have "lists_ok b" using d(1) b on by (auto simp: lists_ok_def distinct_remove1 dest: notin_set_remove1 [rotated])
  moreover have "cur_ok ?s"
  proof (cases "cur = Idle")
    case False
    then have c: "cur = vs_cur s" "cur \<noteq> Sending m" "\<forall>rx. cur \<noteq> Receiving rx (Some m)" using cur by auto
    have "tx_todo_list b \<noteq> [] \<and> hd (tx_todo_list b) = k" if "tx_todo_list (vs_box s) \<noteq> []" "hd (tx_todo_list (vs_box s)) = k" "k \<noteq> m" for k
      using that b(2) by (cases "tx_todo_list (vs_box s)") auto
    then show ?thesis
      using d(2) c b pend by (auto simp: cur_ok_def matched_iff split: work.splits option.splits)
  qed (simp add: cur_ok_def)
  moreover have "waiting_ok ?s k req" if "vs_wait ?s k = Some req" for k req
  proof -
    have "k \<noteq> m" "waiting_ok s k req" using that d(3) by (auto split: if_splits)
    then show ?thesis using cur by (auto simp: waiting_ok_def b on pend split: option.splits if_splits)
  qed
  ultimately show ?thesis unfolding vf_ok_def using d(4,5,7,8) sub reps b on pend by auto
qed

text \<open>A message was sent and waits for its response.\<close>

lemma sent_ok:
  assumes ok: "vf_ok s" and cur: "vs_cur s = Sending m" and td: "tx_todo_list (vs_box s) = m # ms"
    and x: "mb_msgs (vs_box s) m = Some x" "wait_resp x"
    and b: "mb_msgs b = mb_msgs (vs_box s)" "tx_todo_list b = ms" "rx_pend_list b = rx_pend_list (vs_box s) @ [m]"
      "mb_fresh b = mb_fresh (vs_box s)" "\<not> mb_offline b"
  shows "vf_ok (s\<lparr>vs_box := b, vs_cur := Idle, vs_sent := vs_sent s @ [m]\<rparr>)" (is "vf_ok ?s")
proof -
  note d = vf_okD [OF ok]
  have on: "on_list b = on_list (vs_box s)" using b td by (auto simp: on_list_def)
  have m: "m \<in> on_list (vs_box s)" "m \<notin> set (rx_pend_list (vs_box s))" using d(1) td by (auto simp: lists_ok_def on_list_def)
  have "lists_ok b" using d(1) b on td by (auto simp: lists_ok_def)
  moreover have "waiting_ok ?s k req" if "vs_wait s k = Some req" for k req
    using d(3) [OF that] cur by (auto simp: waiting_ok_def b on split: option.splits if_splits)
  moreover have "vs_wait s m \<noteq> None" using d(4) [OF m(1) x(1)] x(2) by simp
  moreover have "subseq ((vs_sent s @ [m]) @ ms) (vs_queued s)" using d(6) td by simp
  ultimately show ?thesis unfolding vf_ok_def using d(4,5,7,8,9) b on by (auto simp: cur_ok_def)
qed

lemma subseq_remove:
  assumes "subseq (xs @ ys) zs"
  shows "subseq (xs @ remove1 m ys) zs"
proof -
  have "subseq (remove1 m ys) ys" by (induction ys) auto
  then have "subseq (xs @ remove1 m ys) (xs @ ys)" by (intro list_emb_append_mono) simp_all
  then show ?thesis using assms by (rule subseq_order.order_trans)
qed

lemma tx_ok:
  assumes ok: "vf_ok s" and cur: "vs_cur s = Sending m"
  shows "\<exists>s'. vf_exec (TxDone rv) s = Some s' \<and> vf_ok s'"
proof -
  note d = vf_okD [OF ok]
  obtain ms where td: "tx_todo_list (vs_box s) = m # ms"
    using d(2) cur by (cases "tx_todo_list (vs_box s)") (auto simp: cur_ok_def)
  have m: "m \<in> on_list (vs_box s)" using td by (simp add: on_list_def)
  then obtain x where x: "mb_msgs (vs_box s) m = Some x" using d(1) by (auto simp: lists_ok_def)
  have np: "remove1 m (rx_pend_list (vs_box s)) = rx_pend_list (vs_box s)" and off: "\<not> mb_offline (vs_box s)"
    using d(1) td by (auto simp: lists_ok_def remove1_idem)
  have nw: "(vs_wait s)(m := None) = vs_wait s" if "\<not> wait_resp x" using d(4) [OF m x] that by auto
  have drop: "vf_ok (s\<lparr>vs_box := b, vs_cur := Idle, vs_sent := sent\<rparr>)"
    if "\<not> wait_resp x" "mb_msgs b = (mb_msgs (vs_box s))(m := None)" "tx_todo_list b = ms" "rx_pend_list b = rx_pend_list (vs_box s)"
      "mb_fresh b = mb_fresh (vs_box s)" "\<not> mb_offline b" "sent = vs_sent s \<or> sent = vs_sent s @ [m]" for b sent
  proof -
    have "subseq (sent @ ms) (vs_queued s)"
      using d(6) td that(7) subseq_remove [OF d(6), of m] by auto
    then have "vf_ok (s\<lparr>vs_box := b, vs_cur := Idle, vs_wait := (vs_wait s)(m := None), vs_sent := sent, vs_replies := vs_replies s\<rparr>)"
      using that td np cur d(9) by (intro drop_ok [OF ok]) auto
    then show ?thesis using nw [OF that(1)] by simp
  qed
  show ?thesis
  proof (cases "rv = 0")
    case True
    show ?thesis
    proof (cases "wait_resp x")
      case True
      then show ?thesis
        using \<open>rv = 0\<close> cur td x off sent_ok [OF ok cur td x] by (simp add: tx_done_def msg_list_del_def)
    next
      case False
      then show ?thesis
        using \<open>rv = 0\<close> cur td x off drop [OF False]
        by (simp add: tx_done_def msg_list_del_def qdma_mbox_msg_free_def)
    qed
  next
    case False
    let ?x' = "if wait_resp x then x else x\<lparr>retry_cnt := retry_cnt x - 1\<rparr>"
    show ?thesis
    proof (cases "\<not> wait_resp x \<and> retry_cnt ?x' = 0")
      case True
      let ?b = "(vs_box s)\<lparr>mb_msgs := (mb_msgs (vs_box s))(m := None), tx_todo_list := ms\<rparr>"
      have "tx_done m rv (vs_box s) = Some (False, ?b)"
        using False True x off td by (auto simp: tx_done_def Let_def msg_put_def msg_list_del_def qdma_mbox_msg_free_def)
      moreover have "vf_ok (s\<lparr>vs_box := ?b, vs_cur := Idle, vs_sent := vs_sent s\<rparr>)" by (rule drop) (use True off in simp_all)
      ultimately show ?thesis using cur False by simp
    next
      case keep: False
      let ?b = "(vs_box s)\<lparr>mb_msgs := (mb_msgs (vs_box s))(m \<mapsto> ?x'), send_busy := True, mb_timer := True\<rparr>"
      have "tx_done m rv (vs_box s) = Some (False, ?b)"
        using False keep x off by (auto simp: tx_done_def Let_def msg_put_def)
      moreover have "vf_ok (s\<lparr>vs_box := ?b, vs_cur := Idle\<rparr>)"
        using x off cur d(1) old_msg(1) [OF ok m] by (intro vf_ok_same [OF ok]) (auto simp: lists_ok_def)
      ultimately show ?thesis using cur False by simp
    qed
  qed
qed


lemma match_found:
  assumes "\<And>m. m \<in> set ms \<Longrightarrow> msgs m \<noteq> None"
  shows "\<exists>r. match_pend msgs rx ms = Some r \<and> (\<forall>m. r = Some m \<longrightarrow> m \<in> set ms \<and> (\<exists>x. msgs m = Some x \<and> answers (msg_raw x) rx))"
  using assms
proof (induction ms)
  case (Cons m ms)
  obtain x where "msgs m = Some x" using Cons.prems [of m] by auto
  then show ?case using Cons by (cases "answers (msg_raw x) rx") auto
qed simp

lemma rx_match_ok:
  assumes "vf_ok s" and "vs_cur s = Idle"
  shows "\<exists>s'. vf_exec (RxMsg rx) s = Some s' \<and> vf_ok s'"
proof -
  define t where "t = s\<lparr>vs_box := vf_take_ids rx (vs_box s), vs_cur := vs_cur s\<rparr>"
  have "vf_ok t" unfolding t_def
    using vf_okD(1) [OF assms(1)] by (intro vf_ok_same [OF assms(1)]) (auto simp: vf_take_ids_def lists_ok_def split: if_splits)
  note d = vf_okD [OF this]
  have cur: "vs_cur t = Idle" using assms(2) by (simp add: t_def)
  have "\<exists>r. match_pend (mb_msgs (vs_box t)) rx (rx_pend_list (vs_box t)) = Some r \<and>
      (\<forall>m. r = Some m \<longrightarrow> m \<in> set (rx_pend_list (vs_box t)) \<and> (\<exists>x. mb_msgs (vs_box t) m = Some x \<and> answers (msg_raw x) rx))"
    by (rule match_found) (use d(1) in \<open>auto simp: lists_ok_def on_list_def\<close>)
  then obtain r where r: "match_pend (mb_msgs (vs_box t)) rx (rx_pend_list (vs_box t)) = Some r"
      "\<And>m. r = Some m \<Longrightarrow> m \<in> set (rx_pend_list (vs_box t)) \<and> (\<exists>x. mb_msgs (vs_box t) m = Some x \<and> answers (msg_raw x) rx)"
    by blast
  have box: "vf_take_ids rx (vs_box s) = vs_box t"
    and upd: "s\<lparr>vs_box := b, vs_cur := c\<rparr> = t\<lparr>vs_box := b, vs_cur := c\<rparr>" for b c
    by (simp_all add: t_def)
  show ?thesis
  proof (cases r)
    case None
    have "vf_exec (RxMsg rx) s = Some (t\<lparr>vs_cur := Receiving rx None\<rparr>)"
      using r(1) None by (simp add: rx_match_def box upd)
    moreover have "waiting_ok (t\<lparr>vs_cur := Receiving rx None\<rparr>) m req = waiting_ok t m req" for m req
      by (auto simp: waiting_ok_def cur split: option.splits)
    then have "vf_ok (t\<lparr>vs_cur := Receiving rx None\<rparr>)" unfolding vf_ok_def using d by (simp add: cur_ok_def)
    ultimately show ?thesis by blast
  next
    case (Some m)
    then obtain x where x: "m \<in> set (rx_pend_list (vs_box t))" "mb_msgs (vs_box t) m = Some x" "answers (msg_raw x) rx"
      using r(2) by blast
    let ?b = "(vs_box t)\<lparr>mb_msgs := (mb_msgs (vs_box t))(m \<mapsto> x\<lparr>resp_op_matched := True\<rparr>)\<rparr>"
    let ?t = "t\<lparr>vs_box := ?b, vs_cur := Receiving rx (Some m)\<rparr>"
    have run: "vf_exec (RxMsg rx) s = Some ?t"
      using r(1) Some x(2) by (simp add: rx_match_def box upd msg_put_def)
    have on: "on_list ?b = on_list (vs_box t)" "m \<in> on_list (vs_box t)" using x(1) by (simp_all add: on_list_def)
    have "lists_ok ?b" using d(1) on x by (auto simp: lists_ok_def)
    moreover have "cur_ok ?t" using x(1) by (simp add: cur_ok_def matched_iff)
    moreover have "waiting_ok ?t k req" if w: "vs_wait t k = Some req" for k req
    proof (cases "k = m")
      case True
      then have "\<not> resp_op_matched x" "msg_raw x = req" "wait_resp x"
        using d(3) [OF w] cur x(2) on(2) by (auto simp: waiting_ok_def split: if_splits)
      then show ?thesis using True x on by (simp add: waiting_ok_def)
    next
      case False
      then show ?thesis using d(3) [OF w] cur on by (auto simp: waiting_ok_def split: option.splits if_splits)
    qed
    moreover have "wait_resp y = (vs_wait t k \<noteq> None)" if "k \<in> on_list (vs_box t)" "mb_msgs ?b k = Some y" for k y
      using d(4) [OF that(1)] that(2) x(2) by (auto split: if_splits)
    moreover have "k < mb_fresh ?b" if "k \<in> set (vs_queued t)" for k using d(8) [OF that] by simp
    ultimately have "vf_ok ?t" unfolding vf_ok_def using d(5,6,7,9) on(1) by auto
    with run show ?thesis by blast
  qed
qed


text \<open>A response is delivered.\<close>

lemma deliver_ok:
  assumes ok: "vf_ok s" and cur: "vs_cur s = Receiving rx (Some m)"
  shows "\<exists>b. rx_finish rx (Some m) (vs_box s) = Some (0, b) \<and> tx_todo_list b = tx_todo_list (vs_box s) \<and>
    vf_ok (s\<lparr>vs_box := b, vs_cur := Idle\<rparr>)"
proof -
  note d = vf_okD [OF ok]
  have m: "m \<in> set (rx_pend_list (vs_box s))" "matched m s" using d(2) cur by (simp_all add: cur_ok_def)
  then obtain x req where x: "mb_msgs (vs_box s) m = Some x" "resp_op_matched x" and req: "vs_wait s m = Some req"
    using d(5) [of m] by (auto simp: matched_iff)
  have dist: "distinct (rx_pend_list (vs_box s))" "m \<notin> set (tx_todo_list (vs_box s))" using d(1) m by (auto simp: lists_ok_def)
  let ?b = "(vs_box s)\<lparr>mb_msgs := (mb_msgs (vs_box s))(m \<mapsto> x\<lparr>msg_raw := rx\<rparr>), rx_pend_list := remove1 m (rx_pend_list (vs_box s))\<rparr>"
  let ?s = "s\<lparr>vs_box := ?b, vs_cur := Idle\<rparr>"
  have run: "rx_finish rx (Some m) (vs_box s) = Some (0, ?b)"
    using m(1) dist x by (auto simp: rx_finish_def rx_deliver_def msg_list_del_def msg_put_def)
  have on: "on_list ?b = on_list (vs_box s) - {m}" using dist by (auto simp: on_list_def)
  have mon: "m \<in> on_list (vs_box s)" using m(1) by (simp add: on_list_def)
  have wm: "waiting_ok s m req" using d(3) [OF req] .
  have "lists_ok ?b" using d(1) on x old_msg(1) [OF ok mon] by (auto simp: lists_ok_def distinct_remove1 dest: notin_set_remove1 [rotated])
  moreover have "waiting_ok ?s k r" if w: "vs_wait s k = Some r" for k r
  proof (cases "k = m")
    case True
    then show ?thesis using wm req w x cur mon on by (auto simp: waiting_ok_def split: if_splits)
  next
    case False
    then show ?thesis using d(3) [OF w] cur on by (auto simp: waiting_ok_def split: option.splits if_splits)
  qed
  moreover have "wait_resp y = (vs_wait s k \<noteq> None)" if "k \<in> on_list ?b" "mb_msgs ?b k = Some y" for k y
    using d(4) [of k] that on by (auto split: if_splits)
  moreover have "vs_wait s k \<noteq> None" if "k \<in> set (rx_pend_list ?b)" for k
    using d(5) [of k] that notin_set_remove1 by fastforce
  ultimately have "vf_ok ?s" unfolding vf_ok_def using d(6-9) by (simp add: cur_ok_def)
  with run show ?thesis by auto
qed


text \<open>A message of the parent, while no request waits: a reply is queued, or the message made for it is left over.\<close>

lemma handle_ok:
  assumes ok: "vf_ok s" and cur: "vs_cur s = Receiving rx None"
  shows "\<exists>rv b. vf_handle rx (vs_box s) = Some (rv, b) \<and>
    vf_ok (s\<lparr>vs_box := b, vs_cur := Idle, vs_queued := vs_queued s @ drop (length (tx_todo_list (vs_box s))) (tx_todo_list b)\<rparr>)"
proof -
  let ?m = "mb_fresh (vs_box s)"
  obtain a mem where mem: "qdma_calloc (mb_mem (vs_box s)) = (a, mem)" by fastforce
  note l = vf_okD(1) [OF ok, unfolded lists_ok_def]
  have idle: "vf_ok (s\<lparr>vs_box := b, vs_cur := Idle\<rparr>)"
    if "\<And>k. k < ?m \<Longrightarrow> mb_msgs b k = mb_msgs (vs_box s) k" "\<And>k. mb_fresh b \<le> k \<Longrightarrow> mb_msgs b k = None"
      "tx_todo_list b = tx_todo_list (vs_box s)" "rx_pend_list b = rx_pend_list (vs_box s)" "?m \<le> mb_fresh b" "\<not> mb_offline b" for b
    using vf_ok_same [OF ok, of b Idle] that cur by simp
  have post: "vf_ok (s\<lparr>vs_box := b, vs_cur := Idle, vs_queued := vs_queued s @ [?m]\<rparr>)"
    if x: "\<not> wait_resp x" "\<not> resp_op_matched x" and b: "mb_msgs b = (mb_msgs (vs_box s))(?m \<mapsto> x)" "mb_fresh b = ?m + 1"
      "tx_todo_list b = tx_todo_list (vs_box s) @ [?m]" "rx_pend_list b = rx_pend_list (vs_box s)" "\<not> mb_offline b" for b x
  proof -
    have s1: "vf_ok (s\<lparr>vs_box := vs_box s, vs_cur := Idle\<rparr>)" by (rule vf_ok_same [OF ok]) (use l cur in auto)
    have "s\<lparr>vs_cur := Idle, vs_box := b, vs_queued := q\<rparr> = s\<lparr>vs_box := b, vs_cur := Idle, vs_queued := q\<rparr>" for q by (cases s) simp
    with post_ok [OF s1, where m = ?m and x = x and wait = False and b = b] x b show ?thesis by simp
  qed
  show ?thesis
  proof (cases a)
    case False
    then show ?thesis using mem l by (auto simp: vf_handle_def qdma_mbox_msg_alloc_def intro!: idle)
  next
    case True
    let ?x = "\<lambda>raw. \<lparr>wait_resp = False, resp_op_matched = False, retry_cnt = 11, msg_raw = raw\<rparr>"
    obtain rv resp where h: "qdma_mbox_vf_rcv_msg_handler rx msg_zero = (rv, resp)" by fastforce
    consider "rv \<noteq> 2 \<and> rv \<noteq> 3 \<and> rv \<noteq> 4" | "rv = 3" | "rv = 2 \<or> rv = 4" "reset_state (vs_box s) = RESET_STATE_INVALID"
      | "rv = 2 \<or> rv = 4" "reset_state (vs_box s) \<noteq> RESET_STATE_INVALID" by blast
    then show ?thesis
    proof cases
      case 1
      then show ?thesis
        using True mem h l by (auto simp: vf_handle_def qdma_mbox_msg_alloc_def msg_put_def intro!: idle)
    next
      case 2
      then show ?thesis
        using True mem h l
        by (auto simp: vf_handle_def qdma_mbox_msg_alloc_def msg_put_def msg_post_def msg_queue_def Let_def intro!: post [of "?x resp"])
    next
      case 3
      then show ?thesis
        using True mem h l
        by (auto simp: vf_handle_def qdma_mbox_msg_alloc_def msg_put_def msg_post_def msg_queue_def Let_def intro!: idle)
    next
      case 4
      then show ?thesis
        using True mem h l
        by (auto simp: vf_handle_def qdma_mbox_msg_alloc_def msg_put_def msg_post_def msg_queue_def Let_def intro!: post [of "?x resp"])
    qed
  qed
qed

lemma rx_finish_ok:
  assumes ok: "vf_ok s" and cur: "vs_cur s = Receiving rx r"
  shows "\<exists>s'. vf_exec RxFin s = Some s' \<and> vf_ok s'"
proof (cases r)
  case None
  show ?thesis
  proof (cases "rx_pend_list (vs_box s) = []")
    case True
    obtain rv b where "vf_handle rx (vs_box s) = Some (rv, b)"
      "vf_ok (s\<lparr>vs_box := b, vs_cur := Idle, vs_queued := vs_queued s @ drop (length (tx_todo_list (vs_box s))) (tx_todo_list b)\<rparr>)"
      using handle_ok [OF ok, of rx] cur None by auto
    then show ?thesis using True None cur by (simp add: rx_finish_def)
  next
    case False
    have "vf_ok (s\<lparr>vs_box := vs_box s, vs_cur := Idle\<rparr>)"
      using vf_okD(1) [OF ok] cur None by (intro vf_ok_same [OF ok]) (auto simp: lists_ok_def)
    then show ?thesis using False None cur by (simp add: rx_finish_def)
  qed
next
  case (Some m)
  then obtain b where "rx_finish rx (Some m) (vs_box s) = Some (0, b)" "tx_todo_list b = tx_todo_list (vs_box s)"
      "vf_ok (s\<lparr>vs_box := b, vs_cur := Idle\<rparr>)"
    using deliver_ok [OF ok, of rx m] cur by blast
  then show ?thesis using cur Some by simp
qed

text \<open>A caller returns.\<close>

lemma return_ok:
  assumes ok: "vf_ok s" and w: "vs_wait s m = Some req" and cur: "vs_cur s \<noteq> Sending m" "\<forall>rx. vs_cur s \<noteq> Receiving rx (Some m)"
  shows "\<exists>s'. vf_return m s = Some s' \<and> vf_ok s'"
proof -
  note d = vf_okD [OF ok]
  obtain x where x: "mb_msgs (vs_box s) m = Some x" and wm: "waiting_ok s m req"
    using d(3) [OF w] by (auto simp: waiting_ok_def split: option.splits)
  have m: "if resp_op_matched x then m \<notin> on_list (vs_box s) \<and> answers req (msg_raw x) else m \<in> on_list (vs_box s)"
    using wm x cur(2) by (auto simp: waiting_ok_def split: if_splits)
  let ?b = "(vs_box s)\<lparr>mb_msgs := (mb_msgs (vs_box s))(m := None), tx_todo_list := remove1 m (tx_todo_list (vs_box s)),
    rx_pend_list := remove1 m (rx_pend_list (vs_box s))\<rparr>"
  let ?reps = "vs_replies s @ (if resp_op_matched x then [(req, msg_raw x)] else [])"
  have same: "remove1 m (tx_todo_list (vs_box s)) = tx_todo_list (vs_box s)" if "m \<notin> set (tx_todo_list (vs_box s))"
    using that by (rule remove1_idem)
  have same': "remove1 m (rx_pend_list (vs_box s)) = rx_pend_list (vs_box s)" if "m \<notin> set (rx_pend_list (vs_box s))"
    using that by (rule remove1_idem)
  have dist: "m \<in> set (tx_todo_list (vs_box s)) \<Longrightarrow> m \<notin> set (rx_pend_list (vs_box s))" using d(1) by (auto simp: lists_ok_def)
  have "vf_return m s = Some (s\<lparr>vs_box := ?b, vs_wait := (vs_wait s)(m := None), vs_replies := ?reps\<rparr>)"
    using m x w same same' dist
    by (auto simp: vf_return_def msg_wait_end_def msg_list_del_def qdma_mbox_msg_free_def on_list_def split: if_splits)
  moreover have "vf_ok (s\<lparr>vs_box := ?b, vs_cur := vs_cur s, vs_wait := (vs_wait s)(m := None), vs_sent := vs_sent s, vs_replies := ?reps\<rparr>)"
    using d(1,9) m cur subseq_remove [OF d(6), of m] by (intro drop_ok [OF ok]) (auto simp: lists_ok_def split: if_splits)
  ultimately show ?thesis by simp
qed

lemma exec_ok:
  assumes ok: "vf_ok s" and "enabled e s"
  shows "\<exists>s'. vf_exec e s = Some s' \<and> vf_ok s'"
proof (cases e)
  case (Call raw wait)
  then show ?thesis using call_ok [OF ok] by simp
next
  case TxPick
  then have "vs_cur s = Idle" using assms(2) by simp
  then have "waiting_ok (s\<lparr>vs_cur := Sending k\<rparr>) m req = waiting_ok s m req" for k m req
    by (auto simp: waiting_ok_def split: option.splits)
  then have "vf_ok (s\<lparr>vs_cur := Sending (hd (tx_todo_list (vs_box s)))\<rparr>)" if "tx_todo_list (vs_box s) \<noteq> []"
    unfolding vf_ok_def using vf_okD [OF ok] that by (simp add: cur_ok_def)
  then show ?thesis using ok TxPick by (cases "tx_todo_list (vs_box s)") auto
next
  case (TxDone rv)
  then show ?thesis using tx_ok [OF ok] assms(2) by (auto simp: cur_iff)
next
  case (RxMsg rx)
  then show ?thesis using rx_match_ok [OF ok] assms(2) by auto
next
  case RxFin
  then show ?thesis using rx_finish_ok [OF ok] assms(2) by (auto simp: cur_iff)
next
  case (Wake m)
  then obtain req where w: "vs_wait s m = Some req" and m: "matched m s" "\<forall>rx. vs_cur s \<noteq> Receiving rx (Some m)"
    using assms(2) by (auto simp: cur_iff)
  have "vs_cur s \<noteq> Sending m"
  proof
    assume c: "vs_cur s = Sending m"
    then have "m \<in> on_list (vs_box s)" using vf_okD(2) [OF ok] by (auto simp: cur_ok_def on_list_def)
    then show False using vf_okD(3) [OF ok w] m c by (auto simp: waiting_ok_def matched_iff)
  qed
  then show ?thesis using Wake return_ok [OF ok w] m by auto
next
  case (Timeout m)
  then have "\<forall>rx. vs_cur s \<noteq> Receiving rx (Some m)" using assms(2) vf_okD(2) [OF ok] by (auto simp: cur_ok_def)
  then show ?thesis using Timeout return_ok [OF ok, of m] assms(2) by auto
qed

lemma reach_ok: "vf_reach s0 s \<Longrightarrow> vf_start s0 \<Longrightarrow> vf_ok s"
proof (induction rule: vf_reach.induct)
  case (step s e s')
  then show ?case using exec_ok [of s e] by auto
qed (rule vf_start_ok)


lemma subseq_distinct: "subseq xs ys \<Longrightarrow> distinct ys \<Longrightarrow> distinct xs"
  by (induction rule: list_emb.induct) (auto dest: list_emb_set)

text \<open>C6: The mailbox of a virtual function is safe under interleaving.  Take any interleaving of callers that queue
  messages, wake up or time out with the works that send and receive, for any results of sending and any messages
  received, in which a caller neither times out nor wakes up while a work has its message in its hands
  (\<open>timeout_while_sending\<close> shows what happens otherwise).  No step accesses a message that was freed or deletes one that is on no list; messages are sent in the order in which they were
  queued and at most once; and every caller that returned successfully has got a message with the response
  opcode of its own request.\<close>

theorem vf_mailbox_safe:
  assumes "vf_start s0" and "vf_reach s0 s"
  shows "(\<forall>e. enabled e s \<longrightarrow> vf_exec e s \<noteq> None) \<and> subseq (vs_sent s) (vs_queued s) \<and> distinct (vs_sent s) \<and>
    (\<forall>p \<in> set (vs_replies s). uint (hdr_op (hdr (snd p))) = uint (hdr_op (hdr (fst p))) + 128)"
proof -
  note ok = reach_ok [OF assms(2,1)]
  have "vf_exec e s \<noteq> None" if "enabled e s" for e using exec_ok [OF ok that] by auto
  moreover have sub: "subseq (vs_sent s) (vs_queued s)"
    using subseq_order.order_trans [OF prefix_imp_subseq vf_okD(6) [OF ok]] by simp
  moreover have "distinct (vs_sent s)" using sub vf_okD(7) [OF ok] by (rule subseq_distinct)
  moreover have "uint (hdr_op (hdr (snd p))) = uint (hdr_op (hdr (fst p))) + 128" if "p \<in> set (vs_replies s)" for p
    using vf_okD(9) [OF ok that] by (auto simp: qdma_mbox_is_msg_response_def mbox_defs split: if_splits)
  ultimately show ?thesis by blast
qed

text \<open>A script of events, each of which can happen.\<close>

fun vf_script :: "vf_event list \<Rightarrow> vf_sys \<Rightarrow> vf_sys option" where
  "vf_script [] s = Some s"
| "vf_script (e # es) s = (if enabled e s then case vf_exec e s of None \<Rightarrow> None | Some s \<Rightarrow> vf_script es s else None)"

lemma script_reach: "vf_script es s = Some s' \<Longrightarrow> vf_reach s0 s \<Longrightarrow> vf_reach s0 s'"
  by (induction es arbitrary: s) (auto split: if_splits option.splits intro: vf_reach.step)

section \<open>A mailbox for the examples\<close>

definition demo_mbox :: qdma_mbox where
  "demo_mbox = \<lparr>mb_msgs = (\<lambda>_. None), mb_fresh = 0, mb_mem = [], tx_todo_list = [], rx_pend_list = [], send_busy = False,
     rx_poll = False, tx_work = False, rx_work = False, mb_timer = False, mb_func_id = 5, mb_func_id_parent = 0,
     reset_state = RESET_STATE_IDLE, reset_work = False, mb_offline = False, vf_info = [], vf_count_online = 0\<rparr>"

definition demo_sys :: vf_sys where
  "demo_sys = \<lparr>vs_box = demo_mbox, vs_cur = Idle, vs_wait = Map.empty, vs_queued = [], vs_sent = [], vs_replies = []\<rparr>"

definition demo_call :: mbox_msg where
  "demo_call = \<lparr>wait_resp = False, resp_op_matched = False, retry_cnt = 0, msg_raw = hd demo_msgs\<rparr>"

section \<open>Where the mailbox goes wrong\<close>

text \<open>One request is sent on an idle mailbox.\<close>

lemma script_send:
  assumes "mb_mem (vs_box s) = []" "reset_state (vs_box s) \<noteq> RESET_STATE_INVALID" "vs_cur s = Idle"
    "tx_todo_list (vs_box s) = []" "rx_pend_list (vs_box s) = []" "mb_fresh (vs_box s) = m"
  shows "\<exists>s' x. vf_script [Call req True, TxPick, TxDone 0] s = Some s' \<and> mb_mem (vs_box s') = [] \<and>
    reset_state (vs_box s') = reset_state (vs_box s) \<and> vs_cur s' = Idle \<and> tx_todo_list (vs_box s') = [] \<and>
    rx_pend_list (vs_box s') = [m] \<and> mb_fresh (vs_box s') = m + 1 \<and> vs_wait s' = (vs_wait s)(m \<mapsto> req) \<and>
    mb_msgs (vs_box s') = (mb_msgs (vs_box s))(m \<mapsto> x) \<and> wait_resp x \<and> \<not> resp_op_matched x \<and> msg_raw x = req \<and>
    vs_replies s' = vs_replies s"
  using assms
  by (simp add: vf_call_def qdma_mbox_msg_alloc_def qdma_calloc_def msg_put_def msg_queue_def Let_def tx_done_def msg_list_del_def cur_iff)
    (rule exI, rule conjI, rule refl, simp)

lemma script_append: "vf_script (es @ fs) s = (case vf_script es s of None \<Rightarrow> None | Some s \<Rightarrow> vf_script fs s)"
  by (induction es arbitrary: s) (auto split: option.splits)

text \<open>C39: A late response is taken for the response to another request.  Responses are matched by their opcode
  only.  When a request was sent and its caller has timed out, and another request with the same opcode is
  sent, the response to the first one, whatever it says, is delivered as the response to the second, whose
  caller returns successfully.\<close>

theorem late_response_taken:
  assumes "vf_start s0" and "mb_mem (vs_box s0) = []" and "reset_state (vs_box s0) \<noteq> RESET_STATE_INVALID"
    and "hdr_op (hdr r1) = hdr_op (hdr r2)" and "qdma_mbox_is_msg_response r1 resp \<noteq> 0"
  shows "\<exists>s. vf_script ([Call r1 True, TxPick, TxDone 0] @ [Timeout (mb_fresh (vs_box s0))] @ [Call r2 True, TxPick, TxDone 0] @
      [RxMsg resp, RxFin, Wake (mb_fresh (vs_box s0) + 1)]) s0 = Some s \<and> vs_replies s = [(r2, resp)]"
proof -
  let ?m = "mb_fresh (vs_box s0)"
  have z: "vs_cur s0 = Idle" "tx_todo_list (vs_box s0) = []" "rx_pend_list (vs_box s0) = []" "vs_replies s0 = []"
    using assms(1) by (simp_all add: vf_start_def)
  obtain s1 x1 where s1: "vf_script [Call r1 True, TxPick, TxDone 0] s0 = Some s1" "mb_mem (vs_box s1) = []"
      "reset_state (vs_box s1) = reset_state (vs_box s0)" "vs_cur s1 = Idle" "tx_todo_list (vs_box s1) = []"
      "rx_pend_list (vs_box s1) = [?m]" "mb_fresh (vs_box s1) = ?m + 1" "vs_wait s1 = (vs_wait s0)(?m \<mapsto> r1)"
      "mb_msgs (vs_box s1) = (mb_msgs (vs_box s0))(?m \<mapsto> x1)" "\<not> resp_op_matched x1" "vs_replies s1 = vs_replies s0"
    using script_send [OF assms(2,3) z(1-3) refl, of r1] by blast
  define s2 where "s2 = s1\<lparr>vs_box := (vs_box s1)\<lparr>rx_pend_list := [], mb_msgs := (mb_msgs (vs_box s1))(?m := None)\<rparr>,
    vs_wait := (vs_wait s1)(?m := None)\<rparr>"
  have t: "vf_script [Timeout ?m] s1 = Some s2"
    using s1 by (simp add: s2_def matched_iff vf_return_def msg_wait_end_def msg_list_del_def qdma_mbox_msg_free_def)
  have y: "mb_mem (vs_box s2) = []" "reset_state (vs_box s2) \<noteq> RESET_STATE_INVALID" "vs_cur s2 = Idle"
    "tx_todo_list (vs_box s2) = []" "rx_pend_list (vs_box s2) = []" "mb_fresh (vs_box s2) = ?m + 1" "vs_replies s2 = []"
    using s1 assms(3) z by (simp_all add: s2_def)
  obtain s3 x2 where s3: "vf_script [Call r2 True, TxPick, TxDone 0] s2 = Some s3" "vs_cur s3 = Idle" "tx_todo_list (vs_box s3) = []"
      "rx_pend_list (vs_box s3) = [?m + 1]" "vs_wait s3 = (vs_wait s2)(?m + 1 \<mapsto> r2)"
      "mb_msgs (vs_box s3) = (mb_msgs (vs_box s2))(?m + 1 \<mapsto> x2)" "\<not> resp_op_matched x2" "msg_raw x2 = r2" "vs_replies s3 = []"
    using script_send [OF y(1-6), of r2] y(7) by auto
  have op: "qdma_mbox_is_msg_response r2 resp \<noteq> 0" using assms(4,5) by (simp add: qdma_mbox_is_msg_response_def)
  obtain b3 where b3: "vf_take_ids resp (vs_box s3) = b3" "tx_todo_list b3 = []" "rx_pend_list b3 = [?m + 1]"
      "mb_msgs b3 = (mb_msgs (vs_box s2))(?m + 1 \<mapsto> x2)"
    using s3 by (simp add: vf_take_ids_def)
  have "\<exists>s. vf_script [RxMsg resp, RxFin, Wake (?m + 1)] s3 = Some s \<and> vs_replies s = [(r2, resp)]"
    using s3 b3 op
    by (simp add: rx_match_def rx_finish_def rx_deliver_def msg_list_del_def msg_put_def matched_iff cur_iff vf_return_def msg_wait_end_def
        qdma_mbox_msg_free_def)
  then show ?thesis by (simp only: script_append s1(1) t s3(1) option.case)
qed

text \<open>While a caller waits, a message of the parent that is no response is dropped without an answer.\<close>

lemma parent_message_dropped:
  assumes "rx_pend_list b = [m]" and "mb_msgs b m = Some x" and "\<not> answers (msg_raw x) rx"
  shows "mbox_rcv_one_msg_vf rx b = Some (0, vf_take_ids rx b)"
proof -
  have "rx_pend_list (vf_take_ids rx b) = [m]" "mb_msgs (vf_take_ids rx b) m = Some x"
    using assms by (simp_all add: vf_take_ids_def)
  then show ?thesis using assms(3) by (simp add: mbox_rcv_one_msg_vf_def rx_match_def rx_finish_def)
qed

text \<open>A caller that times out while its message is being sent frees it; the work then uses the freed message.\<close>

lemma timeout_while_sending:
  assumes "vf_ok s" and "vs_cur s = Sending m" and "vs_wait s m \<noteq> None"
  shows "\<exists>s'. vf_return m s = Some s' \<and> tx_done m rv (vs_box s') = None"
proof -
  obtain req where w: "vs_wait s m = Some req" using assms(3) by blast
  then obtain x where x: "mb_msgs (vs_box s) m = Some x" and wm: "waiting_ok s m req"
    using vf_okD(3) [OF assms(1) w] by (auto simp: waiting_ok_def split: option.splits)
  have m: "m \<in> set (tx_todo_list (vs_box s))" using vf_okD(2) [OF assms(1)] assms(2) by (auto simp: cur_ok_def)
  then have "\<not> resp_op_matched x" using wm x assms(2) by (auto simp: waiting_ok_def on_list_def)
  then show ?thesis
    using m x w by (simp add: vf_return_def msg_wait_end_def msg_list_del_def qdma_mbox_msg_free_def tx_done_def)
qed

text \<open>When sending fails on a device that is off line, the message is freed and stays on the list.\<close>

lemma offline_message_kept:
  assumes "tx_todo_list b = m # ms" and "mb_msgs b m = Some x" and "mb_offline b" and "rv \<noteq> 0"
  shows "\<exists>b'. tx_done m rv b = Some (False, b') \<and> tx_round dev b' g = None"
  using assms by (simp add: tx_done_def qdma_mbox_msg_free_def tx_round_def)

text \<open>C40: The caller that waits for a virtual function to prepare for a reset uses freed memory.  When the physical
  function has sent a reset message and receives the response, the message of the caller is delivered and freed;
  the caller, who wakes up, then reads it.\<close>

theorem pf_reset_wait_undefined:
  assumes "rx_pend_list b = [m]" and "m \<notin> set (tx_todo_list b)" and "mb_msgs b m = Some x" and "m \<noteq> mb_fresh b"
    and "hdr_op (hdr (msg_raw x)) = MBOX_OP_RESET_PREPARE" and "hdr_op (hdr rx) = MBOX_OP_RESET_PREPARE_RESP"
    and "qdma_calloc (mb_mem b) = (True, mem)"
  shows "\<exists>b'. mbox_rcv_one_msg_pf (pf_handler acc idx func_id) rx b g = Some (0, b', g) \<and> msg_wait_end m b' = None"
proof -
  obtain w rm d where g: "g = (w, rm, d)" by (cases g)
  have "pf_handler acc idx func_id rx g = Some (QDMA_MBOX_VF_RESET, msg_zero, g)"
    using assms(6) by (simp add: pf_handler_def g qdma_mbox_pf_rcv_msg_handler_def Let_def mbox_defs)
  moreover have "answers (msg_raw x) rx" using assms(5,6) by (simp add: qdma_mbox_is_msg_response_def mbox_defs)
  ultimately show ?thesis
    using assms
    by (simp add: mbox_rcv_one_msg_pf_def qdma_mbox_msg_alloc_def pf_dispatch_def Let_def pf_deliver_def rx_match_def msg_put_def
        rx_deliver_def msg_list_del_def qdma_mbox_msg_free_def msg_wait_end_def)
qed


section \<open>Examples\<close>

lemma demo_sys_start: "vf_start demo_sys"
  by (simp add: vf_start_def demo_sys_def demo_mbox_def)

abbreviation csr_request :: qdma_mbox_txrx where
  "csr_request \<equiv> msg_zero\<lparr>hdr := \<lparr>hdr_op = MBOX_OP_CSR, hdr_status = 0, src_func_id = 5, dst_func_id = 0\<rparr>\<rparr>"

abbreviation csr_response :: qdma_mbox_txrx where
  "csr_response \<equiv> msg_zero\<lparr>hdr := \<lparr>hdr_op = MBOX_OP_CSR + MBOX_MSG_OP_RSP_OFFSET, hdr_status = 0, src_func_id = 0, dst_func_id = 5\<rparr>\<rparr>"

theorem vf_mailbox_safe_witness:
  "\<exists>s. vf_script [Call csr_request True, TxPick, TxDone 0, RxMsg csr_response, RxFin] demo_sys = Some s \<and>
    enabled (Wake 0) s \<and> vf_exec (Wake 0) s \<noteq> None \<and> subseq (vs_sent s) [0]"
proof -
  let ?s = "the (vf_script [Call csr_request True, TxPick, TxDone 0, RxMsg csr_response, RxFin] demo_sys)"
  have "\<not> Option.is_none (vf_script [Call csr_request True, TxPick, TxDone 0, RxMsg csr_response, RxFin] demo_sys)"
    and q: "vs_queued ?s = [0]" by code_simp+
  then have run: "vf_script [Call csr_request True, TxPick, TxDone 0, RxMsg csr_response, RxFin] demo_sys = Some ?s"
    by (auto simp: Option.is_none_def simp del: vf_script.simps)
  have e: "enabled (Wake 0) ?s" by code_simp
  note safe = vf_mailbox_safe [OF demo_sys_start script_reach [OF run vf_reach.start], unfolded q]
  then have "vf_exec (Wake 0) ?s \<noteq> None" "subseq (vs_sent ?s) [0]" using e by blast+
  with run e show ?thesis by blast
qed

theorem late_response_taken_witness:
  "\<exists>s. vf_script [Call csr_request True, TxPick, TxDone 0, Timeout 0, Call (csr_request\<lparr>m_qmax := 4\<rparr>) True, TxPick, TxDone 0,
      RxMsg csr_response, RxFin, Wake 1] demo_sys = Some s \<and> vs_replies s = [(csr_request\<lparr>m_qmax := 4\<rparr>, csr_response)]"
  using late_response_taken [OF demo_sys_start, of csr_request "csr_request\<lparr>m_qmax := 4\<rparr>" csr_response]
  by (simp add: demo_sys_def demo_mbox_def qdma_mbox_is_msg_response_def mbox_defs)

theorem pf_reset_wait_undefined_witness:
  "\<exists>b'. mbox_rcv_one_msg_pf (pf_handler idle_hw 0 4) (msg_zero\<lparr>hdr := (hdr msg_zero)\<lparr>hdr_op := MBOX_OP_RESET_PREPARE_RESP\<rparr>\<rparr>)
      ((msg_put 7 (demo_call\<lparr>msg_raw := msg_zero\<lparr>hdr := (hdr msg_zero)\<lparr>hdr_op := MBOX_OP_RESET_PREPARE\<rparr>\<rparr>\<rparr>) demo_mbox)\<lparr>rx_pend_list := [7]\<rparr>)
      ((), demo_board, ()) = Some (0, b', (), demo_board, ()) \<and> msg_wait_end 7 b' = None"
  by (rule pf_reset_wait_undefined [where x = "demo_call\<lparr>msg_raw := msg_zero\<lparr>hdr := (hdr msg_zero)\<lparr>hdr_op := MBOX_OP_RESET_PREPARE\<rparr>\<rparr>\<rparr>"])
    (simp_all add: msg_put_def demo_mbox_def qdma_calloc_def)

end
