(* ===== verification/MboxLink.thy ===== *)
theory MboxLink
  imports MboxThreadProps MboxHw
begin

text \<open>
  A request of a virtual function followed through the works of both functions, through the mailbox registers and
  back.  The locale \<open>mbox_link\<close> is what the works need of the mailbox; the locale \<open>mbox_wires\<close> is what the mailbox
  registers do.  \<^verbatim>\<open>qdma_mbox_send\<close> and \<^verbatim>\<open>qdma_mbox_rcv\<close> on such registers give a link.
\<close>

unbundle bit_operations_syntax

section \<open>What the works need\<close>

text \<open>The mailbox between a virtual function and its parent, as the works use it: a message that the link carries
  and that is sent by one side is received by the other.  \<open>idle\<close>: no message is on its way.  \<open>replying\<close>: the same, and
  the parent has received from this function last.  \<open>at_pf m\<close> and \<open>at_vf m\<close>: the message \<open>m\<close> waits at that side.
  The rest of the state is that of the resource manager and of the device.\<close>

locale mbox_link =
  fixes vdev pdev :: "('w \<times> 'c) mbox_dev" and carried :: "qdma_mbox_txrx \<Rightarrow> bool" and fid :: u16
    and idle replying :: "'w \<Rightarrow> bool" and at_pf at_vf :: "qdma_mbox_txrx \<Rightarrow> 'w \<Rightarrow> bool"
  assumes vf_send: "idle w \<Longrightarrow> carried m \<Longrightarrow> src_func_id (hdr m) = fid \<Longrightarrow>
      \<exists>w'. md_send vdev m (w, c) = (0, w', c) \<and> at_pf m w'"
    and pf_rcv: "at_pf m w \<Longrightarrow> \<exists>w'. md_rcv pdev (w, c) = (0, m, w', c) \<and> replying w'"
    and pf_none: "replying w \<Longrightarrow> \<exists>m. md_rcv pdev (w, c) = (- QDMA_ERR_MBOX_NO_MSG_IN, m, w, c)"
    and pf_send: "replying w \<Longrightarrow> carried m \<Longrightarrow> dst_func_id (hdr m) = fid \<Longrightarrow>
      \<exists>w'. md_send pdev m (w, c) = (0, w', c) \<and> at_vf m w'"
    and vf_rcv: "at_vf m w \<Longrightarrow> \<exists>w'. md_rcv vdev (w, c) = (0, m, w', c) \<and> idle w'"
    and vf_none: "idle w \<Longrightarrow> \<exists>m. md_rcv vdev (w, c) = (- QDMA_ERR_MBOX_NO_MSG_IN, m, w, c)"

text \<open>A mailbox of a function with nothing to do.\<close>

definition quiet :: "qdma_mbox \<Rightarrow> bool" where
  "quiet b \<longleftrightarrow> tx_todo_list b = [] \<and> rx_pend_list b = [] \<and> \<not> mb_offline b \<and> reset_state b \<noteq> RESET_STATE_INVALID"

text \<open>A call of \<^verbatim>\<open>qdma_mbox_msg_send\<close> in the virtual function, with the works of both functions that it sets off.\<close>

definition one_vf :: "qdma_mbox_txrx \<Rightarrow> qdma_mbox \<Rightarrow> 'g \<Rightarrow> (int \<times> qdma_mbox \<times> 'g) option" where
  "one_vf rx b g = map_option (\<lambda>(rv, b). (rv, b, g)) (mbox_rcv_one_msg_vf rx b)"

definition mbox_call ::
    "'g mbox_dev \<Rightarrow> 'g mbox_dev \<Rightarrow> (qdma_mbox_txrx \<Rightarrow> 'g \<Rightarrow> (int \<times> qdma_mbox_txrx \<times> 'g) option) \<Rightarrow> nat \<Rightarrow>
       qdma_mbox \<Rightarrow> qdma_mbox \<Rightarrow> 'g \<Rightarrow> (int \<times> qdma_mbox \<times> qdma_mbox \<times> 'g) option" where
  "mbox_call vdev pdev handler m bv bp g =
     (case msg_queue True m True QDMA_MBOX_MSG_TIMEOUT_MS bv of
        None \<Rightarrow> None
      | Some (rv, bv) \<Rightarrow> if rv < 0 then Some (rv, bv, bp, g) else
      case mbox_tx_work vdev bv g of None \<Rightarrow> None | Some (bv, g) \<Rightarrow>
      case mbox_rx_work False pdev (mbox_rcv_one_msg_pf handler) 2 bp g of None \<Rightarrow> None | Some (bp, g) \<Rightarrow>
      case mbox_tx_work pdev bp g of None \<Rightarrow> None | Some (bp, g) \<Rightarrow>
      case mbox_rx_work True vdev one_vf 2 bv g of None \<Rightarrow> None | Some (bv, g) \<Rightarrow>
      map_option (\<lambda>(rv, bv). (rv, bv, bp, g)) (msg_wait_end m bv))"

lemma rx_work_one:
  assumes "md_rcv dev g = (0, rx, g1)" and "\<not> mb_offline b" and "one rx b g1 = Some (0, b1, g2)"
    and "md_rcv dev g2 = (- QDMA_ERR_MBOX_NO_MSG_IN, m, g3)" and "\<not> mb_offline b1"
  shows "mbox_rx_work is_vf dev one 2 b g = Some (if rx_poll b1 then b1\<lparr>mb_timer := True\<rparr> else b1, g3)"
  using assms by (simp add: mbox_rx_work_def numeral_2_eq_2)

text \<open>The physical function handles a request and queues the response.\<close>

lemma pf_answers:
  assumes "qdma_calloc (mb_mem b) = (True, mem)" and "handler rx g = Some (rv, resp, g')" and "rv = 0 \<or> rv = QDMA_MBOX_VF_ONLINE"
    and "tx_todo_list b = []"
  shows "\<exists>b' x. mbox_rcv_one_msg_pf handler rx b g = Some (0, b', g') \<and> tx_todo_list b' = [mb_fresh b] \<and>
    mb_msgs b' (mb_fresh b) = Some x \<and> \<not> wait_resp x \<and> msg_raw x = resp \<and> rx_pend_list b' = rx_pend_list b \<and>
    mb_offline b' = mb_offline b \<and> reset_state b' = reset_state b"
  using assms
  by (auto simp: mbox_rcv_one_msg_pf_def qdma_mbox_msg_alloc_def pf_dispatch_def Let_def msg_post_def msg_queue_def msg_put_def
      xdev_sriov_vf_online_def split: option.split)

text \<open>The virtual function gets the response to its request.\<close>

lemma vf_gets:
  assumes "rx_pend_list b = [m]" and "m \<notin> set (tx_todo_list b)" and "mb_msgs b m = Some x" and "answers (msg_raw x) rx"
  shows "\<exists>b' y. mbox_rcv_one_msg_vf rx b = Some (0, b') \<and> rx_pend_list b' = [] \<and> tx_todo_list b' = tx_todo_list b \<and>
    mb_msgs b' m = Some y \<and> resp_op_matched y \<and> msg_raw y = rx \<and> mb_offline b' = mb_offline b \<and> reset_state b' = reset_state b"
proof -
  define c where "c = vf_take_ids rx b"
  have "rx_pend_list c = [m]" "m \<notin> set (tx_todo_list c)" "mb_msgs c m = Some x" "tx_todo_list c = tx_todo_list b"
    "mb_offline c = mb_offline b" "reset_state c = reset_state b"
    using assms by (simp_all add: c_def vf_take_ids_def)
  then show ?thesis
    using assms(4) unfolding mbox_rcv_one_msg_vf_def c_def [symmetric]
    by (simp add: rx_match_def rx_finish_def rx_deliver_def msg_list_del_def msg_put_def)
qed

context mbox_link
begin

text \<open>The work sends the only message that is queued.\<close>

lemma vf_sends:
  assumes "tx_todo_list b = [m]" and "mb_msgs b m = Some x" and "wait_resp x" and "rx_pend_list b = []" and "idle w"
    and "carried (msg_raw x)" and "src_func_id (hdr (msg_raw x)) = fid"
  shows "\<exists>w'. mbox_tx_work vdev b (w, c) = Some (b\<lparr>send_busy := False, tx_todo_list := [], rx_pend_list := [m]\<rparr>, w', c) \<and>
    at_pf (msg_raw x) w'"
proof -
  obtain w' where w': "md_send vdev (msg_raw x) (w, c) = (0, w', c)" "at_pf (msg_raw x) w'"
    using vf_send [OF assms(5-7)] by blast
  let ?b = "b\<lparr>send_busy := False, tx_todo_list := [], rx_pend_list := [m]\<rparr>"
  have "tx_round vdev b (w, c) = Some (True, ?b, w', c)"
    using assms w'(1) by (simp add: tx_round_def tx_done_def msg_list_del_def)
  moreover have "mbox_tx_work vdev ?b (w', c) = Some (?b, w', c)" by (subst mbox_tx_work.simps) (simp add: tx_round_def)
  ultimately show ?thesis using w' by (subst mbox_tx_work.simps) simp
qed

lemma pf_sends:
  assumes "tx_todo_list b = [m]" and "mb_msgs b m = Some x" and "\<not> wait_resp x" and "replying w"
    and "carried (msg_raw x)" and "dst_func_id (hdr (msg_raw x)) = fid"
  shows "\<exists>w'. mbox_tx_work pdev b (w, c) = Some (b\<lparr>send_busy := False, tx_todo_list := [], mb_msgs := (mb_msgs b)(m := None)\<rparr>, w', c) \<and>
    at_vf (msg_raw x) w'"
proof -
  obtain w' where w': "md_send pdev (msg_raw x) (w, c) = (0, w', c)" "at_vf (msg_raw x) w'"
    using pf_send [OF assms(4-6)] by blast
  let ?b = "b\<lparr>send_busy := False, tx_todo_list := [], mb_msgs := (mb_msgs b)(m := None)\<rparr>"
  have "tx_round pdev b (w, c) = Some (True, ?b, w', c)"
    using assms w'(1) by (simp add: tx_round_def tx_done_def msg_list_del_def qdma_mbox_msg_free_def)
  moreover have "mbox_tx_work pdev ?b (w', c) = Some (?b, w', c)" by (subst mbox_tx_work.simps) (simp add: tx_round_def)
  ultimately show ?thesis using w' by (subst mbox_tx_work.simps) simp
qed

text \<open>A request that the physical function answers with the result \<open>rv\<close> of its handler.\<close>

lemma call_exact:
  assumes q: "quiet bv" "quiet bp" "idle w"
    and m: "mb_msgs bv m = Some x" "src_func_id (hdr (msg_raw x)) = fid" and mem: "qdma_calloc (mb_mem bp) = (True, mem)"
    and carried: "carried (msg_raw x)" "carried resp"
    and h: "\<And>w. handler (msg_raw x) (w, c) = Some (rv, resp, w, c')" "rv = 0 \<or> rv = QDMA_MBOX_VF_ONLINE"
    and resp: "answers (msg_raw x) resp" "dst_func_id (hdr resp) = fid"
  shows "\<exists>bv' bp' w' y. mbox_call vdev pdev handler m bv bp (w, c) = Some (0, bv', bp', w', c') \<and>
    mb_msgs bv' m = Some y \<and> msg_raw y = resp \<and> quiet bv' \<and> quiet bp' \<and> idle w'"
proof -
  let ?x = "x\<lparr>resp_op_matched := False, wait_resp := True, retry_cnt := 11\<rparr>"
  define b1 where "b1 = bv\<lparr>mb_msgs := (mb_msgs bv)(m \<mapsto> ?x), tx_todo_list := [m], tx_work := True\<rparr>"
  have call: "msg_queue True m True QDMA_MBOX_MSG_TIMEOUT_MS bv = Some (0, b1)"
    using q(1) m(1) by (simp add: msg_queue_def msg_put_def Let_def b1_def quiet_def)
  define b2 where "b2 = b1\<lparr>send_busy := False, tx_todo_list := [], rx_pend_list := [m]\<rparr>"
  obtain w1 where w1: "mbox_tx_work vdev b1 (w, c) = Some (b2, w1, c)" "at_pf (msg_raw x) w1"
    using vf_sends [of b1 m ?x w c] q m carried(1) by (auto simp: b1_def b2_def quiet_def)
  obtain w2 where w2: "md_rcv pdev (w1, c) = (0, msg_raw x, w2, c)" "replying w2"
    using pf_rcv [OF w1(2), of c] by auto
  obtain p1 y where p1: "mbox_rcv_one_msg_pf handler (msg_raw x) bp (w2, c) = Some (0, p1, w2, c')" "tx_todo_list p1 = [mb_fresh bp]"
      "mb_msgs p1 (mb_fresh bp) = Some y" "\<not> wait_resp y" "msg_raw y = resp" "rx_pend_list p1 = []" "\<not> mb_offline p1"
      "reset_state p1 \<noteq> RESET_STATE_INVALID"
    using pf_answers [OF mem, of handler "msg_raw x" "(w2, c)" rv resp "(w2, c')"] h q(2) by (auto simp: quiet_def)
  obtain m0 where "md_rcv pdev (w2, c') = (- QDMA_ERR_MBOX_NO_MSG_IN, m0, w2, c')" using pf_none [OF w2(2)] by blast
  then obtain p2 where p2: "mbox_rx_work False pdev (mbox_rcv_one_msg_pf handler) 2 bp (w1, c) = Some (p2, w2, c')"
      "p2 = (if rx_poll p1 then p1\<lparr>mb_timer := True\<rparr> else p1)"
    using rx_work_one [where one = "mbox_rcv_one_msg_pf handler", OF w2(1) _ p1(1)] q(2) p1(7) by (auto simp: quiet_def)
  have p2f: "tx_todo_list p2 = [mb_fresh bp]" "mb_msgs p2 (mb_fresh bp) = Some y" using p1 by (simp_all add: p2(2))
  define p3 where "p3 = p2\<lparr>send_busy := False, tx_todo_list := [], mb_msgs := (mb_msgs p2)(mb_fresh bp := None)\<rparr>"
  obtain w3 where w3: "mbox_tx_work pdev p2 (w2, c') = Some (p3, w3, c')" "at_vf resp w3"
    using pf_sends [OF p2f p1(4) w2(2), of c'] p1(5) carried(2) resp(2) by (auto simp: p3_def)
  obtain w4 where w4: "md_rcv vdev (w3, c') = (0, resp, w4, c')" "idle w4"
    using vf_rcv [OF w3(2), of c'] by auto
  have b2: "tx_todo_list b2 = []" "rx_pend_list b2 = [m]" "mb_msgs b2 m = Some ?x" "answers (msg_raw ?x) resp" "\<not> mb_offline b2"
      "reset_state b2 \<noteq> RESET_STATE_INVALID"
    using q(1) resp(1) by (simp_all add: b2_def b1_def quiet_def)
  obtain b3 z where b3: "mbox_rcv_one_msg_vf resp b2 = Some (0, b3)" "tx_todo_list b3 = []" "rx_pend_list b3 = []" "mb_msgs b3 m = Some z"
      "resp_op_matched z" "msg_raw z = resp" "\<not> mb_offline b3" "reset_state b3 \<noteq> RESET_STATE_INVALID"
    using vf_gets [OF b2(2) _ b2(3,4)] b2 by auto
  obtain m1 where "md_rcv vdev (w4, c') = (- QDMA_ERR_MBOX_NO_MSG_IN, m1, w4, c')" using vf_none [OF w4(2)] by blast
  then obtain b4 where b4: "mbox_rx_work True vdev one_vf 2 b2 (w3, c') = Some (b4, w4, c')" "b4 = (if rx_poll b3 then b3\<lparr>mb_timer := True\<rparr> else b3)"
    using rx_work_one [OF w4(1) b2(5), of one_vf b3 "(w4, c')"] b3 by (auto simp: one_vf_def)
  have "mbox_call vdev pdev handler m bv bp (w, c) = Some (0, b4, p3, w4, c')"
    using call w1(1) p2(1) w3(1) b4 b3(4,5) by (simp add: mbox_call_def msg_wait_end_def)
  moreover have "quiet b4" "quiet p3" "mb_msgs b4 m = Some z"
    using b3 b4(2) p1 p2(2) by (simp_all add: quiet_def p3_def)
  ultimately show ?thesis using b3(6) w4 by blast
qed

end

section \<open>What the mailbox registers do\<close>

text \<open>What can be seen of the registers of the two functions: the words of the outgoing and incoming messages,
  whether a message is on its way to either side, and the function that the parent has selected.\<close>

record mbox_view =
  mv_vf_out :: "nat \<Rightarrow> u32"
  mv_pf_in :: "nat \<Rightarrow> u32"
  mv_pf_out :: "nat \<Rightarrow> u32"
  mv_vf_in :: "nat \<Rightarrow> u32"
  mv_to_pf :: bool
  mv_to_vf :: bool
  mv_target :: u32

text \<open>The outgoing registers are storage.  A send command moves their words to the incoming registers of the other side
  and sets the status bits of both sides, for the parent with the number of the sender; a receive command clears
  them.  The parent sees the messages of the function that its target register names.  Other functions are silent.\<close>

locale mbox_wires =
  fixes acc :: "'t qdma_hw_access" and hwv hwp :: "'w hw_dev" and fid :: u16 and view :: "'w \<Rightarrow> mbox_view"
  assumes fid_bound: "fid < 0x1000"
    and vf_status: "\<exists>v. reg_read hwv (mbox_base_vf acc + MBOX_FN_STATUS) w = (v, w) \<and>
      (v AND F_MBOX_FN_STATUS_OUT_MSG \<noteq> 0 \<longleftrightarrow> mv_to_pf (view w)) \<and> (v AND M_MBOX_FN_STATUS_IN_MSG \<noteq> 0 \<longleftrightarrow> mv_to_vf (view w))"
    and vf_out: "i < 32 \<Longrightarrow> view (reg_write hwv (mbox_base_vf acc + MBOX_OUT_MSG_BASE + 4 * of_nat i) v w) =
      mv_vf_out_update (\<lambda>f. f(i := v)) (view w)"
    and vf_snd: "view (reg_write hwv (mbox_base_vf acc + MBOX_FN_CMD) F_MBOX_FN_CMD_SND w) =
      (view w)\<lparr>mv_pf_in := mv_vf_out (view w), mv_to_pf := True\<rparr>"
    and vf_in: "i < 32 \<Longrightarrow> reg_read hwv (mbox_base_vf acc + MBOX_IN_MSG_BASE + 4 * of_nat i) w = (mv_vf_in (view w) i, w)"
    and vf_taken: "view (reg_write hwv (mbox_base_vf acc + MBOX_FN_CMD) F_MBOX_FN_CMD_RCV w) = (view w)\<lparr>mv_to_vf := False\<rparr>"
    and pf_status: "\<exists>v. reg_read hwp (mbox_base_pf acc + MBOX_FN_STATUS) w = (v, w) \<and>
      (v AND M_MBOX_FN_STATUS_IN_MSG \<noteq> 0 \<longleftrightarrow> mv_to_pf (view w)) \<and>
      (mv_to_pf (view w) \<longrightarrow> G_MBOX_FN_STATUS_SRC v = ucast fid) \<and>
      (mv_target (view w) = ucast fid \<longrightarrow> (v AND F_MBOX_FN_STATUS_OUT_MSG \<noteq> 0 \<longleftrightarrow> mv_to_vf (view w)))"
    and pf_target: "view (reg_write hwp (mbox_base_pf acc + MBOX_FN_TARGET) v w) = (view w)\<lparr>mv_target := v\<rparr>"
    and pf_out: "i < 32 \<Longrightarrow> view (reg_write hwp (mbox_base_pf acc + MBOX_OUT_MSG_BASE + 4 * of_nat i) v w) =
      mv_pf_out_update (\<lambda>f. f(i := v)) (view w)"
    and pf_ack: "view (mbox_pf_hw_clear_func_ack acc hwp fid w) = view w"
    and pf_snd: "mv_target (view w) = ucast fid \<Longrightarrow> view (reg_write hwp (mbox_base_pf acc + MBOX_FN_CMD) F_MBOX_FN_CMD_SND w) =
      (view w)\<lparr>mv_vf_in := mv_pf_out (view w), mv_to_vf := True\<rparr>"
    and pf_in: "mv_target (view w) = ucast fid \<Longrightarrow> i < 32 \<Longrightarrow>
      reg_read hwp (mbox_base_pf acc + MBOX_IN_MSG_BASE + 4 * of_nat i) w = (mv_pf_in (view w) i, w)"
    and pf_taken: "view (reg_write hwp (mbox_base_pf acc + MBOX_FN_CMD) F_MBOX_FN_CMD_RCV w) = (view w)\<lparr>mv_to_pf := False\<rparr>"

text \<open>Sequences of message registers.\<close>

lemma write_seq_upd:
  assumes w: "\<And>i v s. i < 32 \<Longrightarrow> view (reg_write hw (a + 4 * of_nat i) v s) = upd (\<lambda>f. f(i := v)) (view s)"
    and id: "\<And>x. upd (\<lambda>f. f) x = x" and comp: "\<And>f g x. upd f (upd g x) = upd (\<lambda>y. f (g y)) x"
  shows "k + length ws \<le> 32 \<Longrightarrow> view (write_seq hw (a + 4 * of_nat k) ws s) =
    upd (\<lambda>f i. if k \<le> i \<and> i < k + length ws then ws ! (i - k) else f i) (view s)"
proof (induction ws arbitrary: k s)
  case (Cons w ws)
  have next_: "a + 4 * of_nat k + 4 = a + 4 * of_nat (Suc k)" by simp
  have "(\<lambda>f i. if Suc k \<le> i \<and> i < Suc k + length ws then ws ! (i - Suc k) else (f(k := w)) i) =
      (\<lambda>f i. if k \<le> i \<and> i < k + length (w # ws) then (w # ws) ! (i - k) else f i :: u32)"
    by (auto simp: fun_eq_iff nth_Cons' Suc_diff_le not_less_eq_eq)
  with Cons.IH [of "Suc k" "reg_write hw (a + 4 * of_nat k) w s"] Cons.prems show ?case
    by (simp add: next_ w comp del: of_nat_Suc)
next
  case Nil
  have "(\<lambda>f i. if k \<le> i \<and> i < k + length [] then [] ! (i - k) else f i :: u32) = (\<lambda>f. f)" by (auto simp: fun_eq_iff)
  then show ?case by (simp add: id)
qed

lemma read_seq_words:
  assumes "\<And>i. i < 32 \<Longrightarrow> reg_read hw (a + 4 * of_nat i) s = (f i, s)"
  shows "k + n \<le> 32 \<Longrightarrow> read_seq hw (a + 4 * of_nat k) n s = (map f [k ..< k + n], s)"
proof (induction n arbitrary: k)
  case (Suc n)
  have next_: "a + 4 * of_nat k + 4 = a + 4 * of_nat (Suc k)" by simp
  from Suc.IH [of "Suc k"] Suc.prems assms [of k] upt_conv_Cons [of k "k + Suc n"] show ?case
    by (simp add: next_ del: upt_Suc of_nat_Suc)
qed simp

section \<open>The link that sending and receiving give\<close>

text \<open>The layout of a message in the buffer is that of the C compiler: \<open>enc\<close> and \<open>dec\<close> stand for it.  A message is
  carried when it fits in the 32 words, its header lies in the first words as the register code reads it, and
  its words give the message again.\<close>

definition carries :: "(qdma_mbox_txrx \<Rightarrow> u32 list) \<Rightarrow> (u32 list \<Rightarrow> qdma_mbox_txrx) \<Rightarrow> qdma_mbox_txrx \<Rightarrow> bool" where
  "carries enc dec m \<longleftrightarrow> length (enc m) = 32 \<and> \<not> list_all (\<lambda>w. w = 0) (enc m) \<and> raw_hdr (enc m) = hdr m \<and> dec (enc m) = m"

definition reg_mbox ::
    "'t qdma_hw_access \<Rightarrow> 'w hw_dev \<Rightarrow> bool \<Rightarrow> (qdma_mbox_txrx \<Rightarrow> u32 list) \<Rightarrow> (u32 list \<Rightarrow> qdma_mbox_txrx) \<Rightarrow> ('w \<times> 'c) mbox_dev" where
  "reg_mbox acc hw is_vf enc dec = \<lparr>
     md_send = (\<lambda>m (w, c). case qdma_mbox_send acc hw is_vf (enc m) w of (rv, w) \<Rightarrow> (rv, w, c)),
     md_rcv = (\<lambda>(w, c). case qdma_mbox_rcv acc hw is_vf (replicate MBOX_MSG_REG_MAX 0) w of (rv, raw, w) \<Rightarrow> (rv, dec raw, w, c)),
     md_hw_init = (\<lambda>(w, c). (qdma_mbox_hw_init acc hw is_vf w, c)),
     md_enable_interrupts = (\<lambda>(w, c). (qdma_mbox_enable_interrupts acc hw is_vf w, c)),
     md_disable_interrupts = (\<lambda>(w, c). (qdma_mbox_disable_interrupts acc hw is_vf w, c))\<rparr>"

definition words32 :: "(nat \<Rightarrow> u32) \<Rightarrow> u32 list" where
  "words32 f = map f [0 ..< 32]"

definition mv_idle :: "mbox_view \<Rightarrow> bool" where
  "mv_idle v \<longleftrightarrow> \<not> mv_to_pf v \<and> \<not> mv_to_vf v"

lemma words32_written:
  assumes "length ws = 32"
  shows "words32 (\<lambda>i. if i < 32 then ws ! i else f i) = ws"
  using assms by (intro nth_equalityI) (simp_all add: words32_def)

context mbox_wires
begin

lemma vf_written:
  "length ws = 32 \<Longrightarrow> view (write_seq hwv (mbox_base_vf acc + MBOX_OUT_MSG_BASE) ws w) =
    mv_vf_out_update (\<lambda>f i. if i < 32 then ws ! i else f i) (view w)"
  using write_seq_upd [where view = view and upd = mv_vf_out_update and hw = hwv and k = 0 and
      a = "mbox_base_vf acc + MBOX_OUT_MSG_BASE", OF vf_out] by (simp cong: if_cong)

lemma pf_written:
  "length ws = 32 \<Longrightarrow> view (write_seq hwp (mbox_base_pf acc + MBOX_OUT_MSG_BASE) ws w) =
    mv_pf_out_update (\<lambda>f i. if i < 32 then ws ! i else f i) (view w)"
  using write_seq_upd [where view = view and upd = mv_pf_out_update and hw = hwp and k = 0 and
      a = "mbox_base_pf acc + MBOX_OUT_MSG_BASE", OF pf_out] by (simp cong: if_cong)

lemma vf_read: "read_seq hwv (mbox_base_vf acc + MBOX_IN_MSG_BASE) 32 w = (words32 (mv_vf_in (view w)), w)"
  using read_seq_words [where hw = hwv and k = 0 and n = 32 and a = "mbox_base_vf acc + MBOX_IN_MSG_BASE", OF vf_in]
  by (simp add: words32_def)

lemma pf_read:
  "mv_target (view w) = ucast fid \<Longrightarrow>
    read_seq hwp (mbox_base_pf acc + MBOX_IN_MSG_BASE) 32 w = (words32 (mv_pf_in (view w)), w)"
  using read_seq_words [where hw = hwp and k = 0 and n = 32 and a = "mbox_base_pf acc + MBOX_IN_MSG_BASE", OF pf_in]
  by (simp add: words32_def)

lemma fid_id: "V_MBOX_FN_TARGET_ID (ucast fid) = ucast fid"
proof -
  have "(0xFFF :: u32) = mask 12" by (simp add: mask_eq_exp_minus_1)
  moreover have "unat fid < 2 ^ 12" using fid_bound by (simp add: word_less_nat_alt)
  then have "take_bit 12 (ucast fid :: u32) = ucast fid"
    by (intro take_bit_small) (simp add: unat_ucast16)
  ultimately show ?thesis by (simp add: V_MBOX_FN_TARGET_ID_def take_bit_eq_mask)
qed

lemma vf_send_view:
  assumes "length raw = 32" and "\<not> mv_to_pf (view w)"
  shows "\<exists>w'. qdma_mbox_send acc hwv True raw w = (QDMA_SUCCESS, w') \<and> words32 (mv_pf_in (view w')) = raw \<and>
    mv_to_pf (view w') \<and> mv_to_vf (view w') = mv_to_vf (view w)"
proof -
  obtain v where "reg_read hwv (mbox_base_vf acc + MBOX_FN_STATUS) w = (v, w)" "v AND F_MBOX_FN_STATUS_OUT_MSG = 0"
    using vf_status [of w] assms(2) by blast
  then show ?thesis
    using assms(1) words32_written [OF assms(1)]
    by (simp add: qdma_mbox_send_def get_mbox_offset_def Let_def MBOX_MSG_REG_MAX_def vf_snd vf_written)
qed

lemma pf_send_view:
  assumes "length raw = 32" and "dst_func_id (raw_hdr raw) = fid" and "\<not> mv_to_vf (view w)" and "mv_target (view w) = ucast fid"
  shows "\<exists>w'. qdma_mbox_send acc hwp False raw w = (QDMA_SUCCESS, w') \<and> words32 (mv_vf_in (view w')) = raw \<and>
    mv_to_vf (view w') \<and> mv_to_pf (view w') = mv_to_pf (view w)"
proof -
  obtain v where "reg_read hwp (mbox_base_pf acc + MBOX_FN_STATUS) w = (v, w)" "v AND F_MBOX_FN_STATUS_OUT_MSG = 0"
    using pf_status [of w] assms(3,4) by blast
  then show ?thesis
    using assms(1,2) words32_written [OF assms(1)]
    by (simp add: qdma_mbox_send_def get_mbox_offset_def Let_def MBOX_MSG_REG_MAX_def pf_snd pf_written pf_ack pf_target fid_id)
qed

lemma pf_rcv_view:
  assumes "mv_to_pf (view w)" and "words32 (mv_pf_in (view w)) = raw" and "\<not> list_all (\<lambda>w. w = 0) raw"
    and "src_func_id (raw_hdr raw) = fid"
  shows "\<exists>w'. qdma_mbox_rcv acc hwp False buf w = (QDMA_SUCCESS, raw, w') \<and>
    view w' = (view w)\<lparr>mv_to_pf := False, mv_target := ucast fid\<rparr>"
proof -
  obtain v where v: "reg_read hwp (mbox_base_pf acc + MBOX_FN_STATUS) w = (v, w)" "v AND M_MBOX_FN_STATUS_IN_MSG \<noteq> 0"
      "G_MBOX_FN_STATUS_SRC v = ucast fid"
    using pf_status [of w] assms(1) by blast
  have "read_seq hwp (mbox_base_pf acc + MBOX_IN_MSG_BASE) 32 (reg_write hwp (mbox_base_pf acc + MBOX_FN_TARGET) (ucast fid) w) =
      (raw, reg_write hwp (mbox_base_pf acc + MBOX_FN_TARGET) (ucast fid) w)"
    using pf_read [of "reg_write hwp (mbox_base_pf acc + MBOX_FN_TARGET) (ucast fid) w"] assms(2) by (simp add: pf_target)
  then show ?thesis
    using v assms(3,4) by (simp add: qdma_mbox_rcv_def get_mbox_offset_def Let_def MBOX_MSG_REG_MAX_def pf_taken pf_target)
qed

lemma vf_rcv_view:
  assumes "mv_to_vf (view w)" and "words32 (mv_vf_in (view w)) = raw" and "\<not> list_all (\<lambda>w. w = 0) raw"
  shows "\<exists>w'. qdma_mbox_rcv acc hwv True buf w = (QDMA_SUCCESS, raw, w') \<and> view w' = (view w)\<lparr>mv_to_vf := False\<rparr>"
proof -
  obtain v where "reg_read hwv (mbox_base_vf acc + MBOX_FN_STATUS) w = (v, w)" "v AND M_MBOX_FN_STATUS_IN_MSG \<noteq> 0"
    using vf_status [of w] assms(1) by blast
  then show ?thesis
    using assms(2,3) vf_read [of w] by (simp add: qdma_mbox_rcv_def get_mbox_offset_def Let_def MBOX_MSG_REG_MAX_def vf_taken)
qed

lemma rcv_none:
  "\<not> mv_to_pf (view w) \<Longrightarrow> qdma_mbox_rcv acc hwp False buf w = (- QDMA_ERR_MBOX_NO_MSG_IN, buf, w)"
  "\<not> mv_to_vf (view w) \<Longrightarrow> qdma_mbox_rcv acc hwv True buf w = (- QDMA_ERR_MBOX_NO_MSG_IN, buf, w)"
  using pf_status [of w] vf_status [of w] by (auto simp: qdma_mbox_rcv_def get_mbox_offset_def Let_def)

end

sublocale mbox_wires \<subseteq> link: mbox_link "reg_mbox acc hwv True enc dec" "reg_mbox acc hwp False enc dec" "carries enc dec" fid
    "\<lambda>w. mv_idle (view w)" "\<lambda>w. mv_idle (view w) \<and> mv_target (view w) = ucast fid"
    "\<lambda>m w. mv_to_pf (view w) \<and> \<not> mv_to_vf (view w) \<and> words32 (mv_pf_in (view w)) = enc m \<and> carries enc dec m \<and> src_func_id (hdr m) = fid"
    "\<lambda>m w. mv_to_vf (view w) \<and> \<not> mv_to_pf (view w) \<and> words32 (mv_vf_in (view w)) = enc m \<and> carries enc dec m"
  for enc dec
proof (unfold_locales, goal_cases)
  case (1 w m c)
  then show ?case using vf_send_view [of "enc m" w] by (fastforce simp: reg_mbox_def mv_idle_def carries_def)
next
  case (2 m w c)
  then show ?case using pf_rcv_view [of w "enc m" "replicate MBOX_MSG_REG_MAX 0"] by (auto simp: reg_mbox_def mv_idle_def carries_def)
next
  case (3 w c)
  then show ?case by (simp add: reg_mbox_def mv_idle_def rcv_none)
next
  case (4 w m c)
  then show ?case using pf_send_view [of "enc m" w] by (fastforce simp: reg_mbox_def mv_idle_def carries_def)
next
  case (5 m w c)
  then show ?case using vf_rcv_view [of w "enc m" "replicate MBOX_MSG_REG_MAX 0"] by (auto simp: reg_mbox_def mv_idle_def carries_def)
next
  case (6 w c)
  then show ?case by (simp add: reg_mbox_def mv_idle_def rcv_none)
qed

context mbox_wires
begin

lemmas reg_call_exact = link.call_exact

end

text \<open>C7: A call of a virtual function gets the response of its parent.  The registers of the two mailboxes behave
  as \<open>mbox_wires\<close> states and no other function uses them.  When both mailboxes are idle and a virtual
  function sends a request and waits, the works of both functions bring the request through
  \<^verbatim>\<open>qdma_mbox_send\<close> and \<^verbatim>\<open>qdma_mbox_rcv\<close> to the handler of the physical function, and the caller returns
  successfully with exactly the response that the handler made; the state of the resource manager and of the
  device is what the handler left, and both mailboxes are idle again.  This holds for requests that have a response
  and name their true sender, when the request and the response fit in the message registers, the
  parent can allocate the message for the response, and the handler returns 0 or reports the function as
  on line.\<close>

theorem mbox_call_exact:
  assumes wires: "mbox_wires acc hwv hwp fid view" and carried: "carries enc dec (msg_raw x)" "carries enc dec resp"
    and q: "quiet bv" "quiet bp" "mv_idle (view w)"
    and m: "mb_msgs bv m = Some x" "src_func_id (hdr (msg_raw x)) = fid" "answered (hdr_op (hdr (msg_raw x)))"
    and mem: "qdma_calloc (mb_mem bp) = (True, mem)"
    and h: "qdma_mbox_pf_rcv_msg_handler acc idx pfid (Some (msg_raw x)) msg_zero rm d = Some (rv, resp, rm', d')"
      "rv = 0 \<or> rv = QDMA_MBOX_VF_ONLINE"
  shows "\<exists>bv' bp' w' y. mbox_call (reg_mbox acc hwv True enc dec) (reg_mbox acc hwp False enc dec) (pf_handler acc idx pfid) m
      bv bp (w, rm, d) = Some (0, bv', bp', w', rm', d') \<and>
    mb_msgs bv' m = Some y \<and> via_pf acc idx pfid (msg_raw x) (rm, d) = (0, msg_raw y, rm', d') \<and>
    quiet bv' \<and> quiet bp' \<and> mv_idle (view w')"
proof -
  have "answers (msg_raw x) resp" "dst_func_id (hdr resp) = fid"
    using mbox_response_addressed [OF m(3) h(1)] h(2) m(2) by auto
  moreover have "pf_handler acc idx pfid (msg_raw x) (v, rm, d) = Some (rv, resp, v, rm', d')" for v
    using h(1) by (simp add: pf_handler_def)
  ultimately have "\<exists>bv' bp' w' y. mbox_call (reg_mbox acc hwv True enc dec) (reg_mbox acc hwp False enc dec) (pf_handler acc idx pfid) m
      bv bp (w, rm, d) = Some (0, bv', bp', w', rm', d') \<and> mb_msgs bv' m = Some y \<and> msg_raw y = resp \<and> quiet bv' \<and> quiet bp' \<and>
      mv_idle (view w')"
    using mbox_wires.reg_call_exact [OF wires q m(1,2) mem carried, of "pf_handler acc idx pfid" "(rm, d)" rv "(rm', d')"] h(2) by blast
  moreover have "via_pf acc idx pfid (msg_raw x) (rm, d) = (0, resp, rm', d')" using h(1) by (simp add: via_pf_def)
  ultimately show ?thesis by fastforce
qed

section \<open>Registers and a layout that behave as assumed\<close>

text \<open>The registers of the virtual function with number 5 and of its parent, at the addresses of the soft IP.\<close>

definition bank_vf :: "mbox_view hw_dev" where
  "bank_vf = \<lparr>reg_read = \<lambda>a s.
       if a = 0x1000 + MBOX_FN_STATUS then ((if mv_to_pf s then 2 else 0) OR (if mv_to_vf s then 1 else 0), s)
       else (mv_vf_in s (word_index (a - (0x1000 + MBOX_IN_MSG_BASE))), s),
     reg_write = \<lambda>a v s.
       if a = 0x1000 + MBOX_FN_CMD
       then (if v = F_MBOX_FN_CMD_SND then s\<lparr>mv_pf_in := mv_vf_out s, mv_to_pf := True\<rparr> else s\<lparr>mv_to_vf := False\<rparr>)
       else s\<lparr>mv_vf_out := (mv_vf_out s)(word_index (a - (0x1000 + MBOX_OUT_MSG_BASE)) := v)\<rparr>,
     udelay = \<lambda>_ s. s\<rparr>"

definition bank_pf :: "mbox_view hw_dev" where
  "bank_pf = \<lparr>reg_read = \<lambda>a s.
       if a = 0x2400 + MBOX_FN_STATUS then ((if mv_to_vf s then 2 else 0) OR (if mv_to_pf s then 0x51 else 0), s)
       else (mv_pf_in s (word_index (a - (0x2400 + MBOX_IN_MSG_BASE))), s),
     reg_write = \<lambda>a v s.
       if a = 0x2400 + MBOX_FN_CMD
       then (if v = F_MBOX_FN_CMD_SND then s\<lparr>mv_vf_in := mv_pf_out s, mv_to_vf := True\<rparr> else s\<lparr>mv_to_pf := False\<rparr>)
       else if a = 0x2400 + MBOX_FN_TARGET then s\<lparr>mv_target := v\<rparr>
       else if a = 0x2400 + MBOX_PF_ACK_BASE then s
       else s\<lparr>mv_pf_out := (mv_pf_out s)(word_index (a - (0x2400 + MBOX_OUT_MSG_BASE)) := v)\<rparr>,
     udelay = \<lambda>_ s. s\<rparr>"

lemma off_reg:
  assumes "i < 32" and "unat k < 0x8000" and "k \<noteq> 0"
  shows "k + 4 * of_nat i \<noteq> (0 :: u32)"
proof -
  have "unat (4 * of_nat i :: u32) = 4 * i" using assms by (simp add: unat_word_ariths unat_of_nat)
  then have "unat (k + 4 * of_nat i) = unat k + 4 * i"
    using assms unat_plus_bounded [of k "4 * of_nat i :: u32"] by simp
  then show ?thesis using assms(3) by (metis add_is_0 unat_0 unat_eq_zero)
qed

lemma bank_addr:
  assumes "i < 32"
  shows "2048 + 4 * of_nat i \<noteq> (0 :: u32)" "3068 + 4 * of_nat i \<noteq> (0 :: u32)" "3060 + 4 * of_nat i \<noteq> (0 :: u32)"
    "3040 + 4 * of_nat i \<noteq> (0 :: u32)"
  by (rule off_reg [OF assms]; simp)+

lemma bank_bases: "mbox_base_vf idle_hw = 0x1000" "mbox_base_pf idle_hw = 0x2400"
  by (simp_all add: idle_hw_def)

interpretation bank: mbox_wires idle_hw bank_vf bank_pf 5 "\<lambda>s. s"
  by unfold_locales
    (auto simp: bank_vf_def bank_pf_def bank_bases mbox_defs bank_addr word_index_addr mbox_pf_hw_clear_func_ack_def
      get_mbox_offset_def G_MBOX_FN_STATUS_SRC_def Let_def)

text \<open>The layout of \<^verbatim>\<open>struct mbox_msg_fmap\<close>, which requests for queues and their responses use.\<close>

definition hdr_words :: "mbox_msg_hdr \<Rightarrow> u32 list" where
  "hdr_words h = [ucast (hdr_op h) OR push_bit 8 (ucast (hdr_status h)) OR push_bit 16 (ucast (src_func_id h)),
     ucast (dst_func_id h)]"

definition fmap_words_of :: "qdma_mbox_txrx \<Rightarrow> u32 list" where
  "fmap_words_of m = hdr_words (hdr m) @ [m_qbase m, m_qmax m] @ replicate 28 0"

definition fmap_of_words :: "u32 list \<Rightarrow> qdma_mbox_txrx" where
  "fmap_of_words ws = msg_zero\<lparr>hdr := raw_hdr ws, m_qbase := ws ! 2, m_qmax := ws ! 3\<rparr>"

lemma hdr_words_hdr: "raw_hdr (hdr_words h @ ws) = h"
proof -
  have "ucast (ucast (hdr_op h) OR push_bit 8 (ucast (hdr_status h)) OR push_bit 16 (ucast (src_func_id h)) :: u32) = hdr_op h"
    "ucast (drop_bit 8 (ucast (hdr_op h) OR push_bit 8 (ucast (hdr_status h)) OR push_bit 16 (ucast (src_func_id h)) :: u32)) = hdr_status h"
    "ucast (drop_bit 16 (ucast (hdr_op h) OR push_bit 8 (ucast (hdr_status h)) OR push_bit 16 (ucast (src_func_id h)) :: u32)) = src_func_id h"
    "ucast (ucast (dst_func_id h) :: u32) = dst_func_id h"
    by (rule bit_eqI; auto simp: bit_simps dest: bit_imp_le_length)+
  then show ?thesis by (simp add: raw_hdr_def hdr_words_def)
qed

lemma fmap_carried: "m_qmax m \<noteq> 0 \<Longrightarrow> m = msg_zero\<lparr>hdr := hdr m, m_qbase := m_qbase m, m_qmax := m_qmax m\<rparr> \<Longrightarrow>
    carries fmap_words_of fmap_of_words m"
  by (simp add: carries_def fmap_words_of_def fmap_of_words_def hdr_words_hdr) (simp add: hdr_words_def)

definition qreq_call :: mbox_msg where
  "qreq_call = \<lparr>wait_resp = False, resp_op_matched = False, retry_cnt = 0,
     msg_raw = msg_zero\<lparr>hdr := \<lparr>hdr_op = MBOX_OP_QREQ, hdr_status = 0, src_func_id = 5, dst_func_id = 0\<rparr>, m_qbase := -1, m_qmax := 6\<rparr>\<rparr>"

definition bank_start :: mbox_view where
  "bank_start = \<lparr>mv_vf_out = \<lambda>_. 0, mv_pf_in = \<lambda>_. 0, mv_pf_out = \<lambda>_. 0, mv_vf_in = \<lambda>_. 0, mv_to_pf = False, mv_to_vf = False, mv_target = 0\<rparr>"

theorem mbox_call_exact_witness:
  "\<exists>bv' bp' w' rm' d' y. mbox_call (reg_mbox idle_hw bank_vf True fmap_words_of fmap_of_words)
      (reg_mbox idle_hw bank_pf False fmap_words_of fmap_of_words) (pf_handler idle_hw 0 4) 7
      (msg_put 7 qreq_call demo_mbox) demo_mbox (bank_start, demo_two, ()) = Some (0, bv', bp', w', rm', d') \<and>
    mb_msgs bv' 7 = Some y \<and> via_pf idle_hw 0 4 (msg_raw qreq_call) (demo_two, ()) = (0, msg_raw y, rm', d') \<and> m_qmax (msg_raw y) = 6"
proof -
  let ?h = "qdma_mbox_pf_rcv_msg_handler idle_hw 0 4 (Some (msg_raw qreq_call)) msg_zero demo_two ()"
  let ?resp = "msg_zero\<lparr>m_qbase := 0, m_qmax := 6,
    hdr := \<lparr>hdr_op = MBOX_OP_QREQ + MBOX_MSG_OP_RSP_OFFSET, hdr_status = 0, src_func_id = 4, dst_func_id = 5\<rparr>\<rparr>"
  obtain u b st' where upd: "qdma_dev_update (ucast (0 :: u8)) 5 6 (-1) demo_two = (u, b, st')" by (metis prod.exhaust)
  have "fst (qdma_dev_update (ucast (0 :: u8)) 5 6 (-1) demo_two) = 0" by code_simp
  moreover have "qdma_dev_qinfo_get (ucast (0 :: u8)) 5 (snd (snd (qdma_dev_update (ucast (0 :: u8)) 5 6 (-1) demo_two))) = (0, Some (0, 6))"
    by code_simp
  ultimately have ok: "u = 0" "qdma_dev_qinfo_get (ucast (0 :: u8)) 5 st' = (0, Some (0, 6))" using upd by auto
  have "op_qreq idle_hw 0 (msg_raw qreq_call) msg_zero demo_two () = (0, msg_zero\<lparr>m_qbase := 0, m_qmax := 6\<rparr>, st', ())"
    using op_qreq_result(1) [where idx = 0 and rcv = "msg_raw qreq_call", of demo_two u b st' 0 6 idle_hw msg_zero "()"] upd ok
    by (simp add: qreq_call_def)
  then have h: "?h = Some (0, ?resp, st', ())"
    using handler_qreq [of "msg_raw qreq_call" idle_hw 0 4 msg_zero demo_two "()"] by (simp add: qreq_call_def finish_def)
  have x: "carries fmap_words_of fmap_of_words (msg_raw qreq_call)" by (rule fmap_carried) (simp_all add: qreq_call_def)
  have c: "carries fmap_words_of fmap_of_words ?resp" by (rule fmap_carried) simp_all
  have "quiet demo_mbox" "quiet (msg_put 7 qreq_call demo_mbox)" "mv_idle bank_start"
    by (simp_all add: quiet_def demo_mbox_def msg_put_def mv_idle_def bank_start_def)
  with mbox_call_exact [OF bank.mbox_wires_axioms x c _ _ _ _ _ _ _ h, of "msg_put 7 qreq_call demo_mbox" demo_mbox bank_start 7]
  have "\<exists>bv' bp' w' y. mbox_call (reg_mbox idle_hw bank_vf True fmap_words_of fmap_of_words)
      (reg_mbox idle_hw bank_pf False fmap_words_of fmap_of_words) (pf_handler idle_hw 0 4) 7
      (msg_put 7 qreq_call demo_mbox) demo_mbox (bank_start, demo_two, ()) = Some (0, bv', bp', w', st', ()) \<and>
    mb_msgs bv' 7 = Some y \<and> via_pf idle_hw 0 4 (msg_raw qreq_call) (demo_two, ()) = (0, msg_raw y, st', ())"
    by (fastforce simp: msg_put_def qreq_call_def demo_mbox_def qdma_calloc_def answered_def)
  moreover have "via_pf idle_hw 0 4 (msg_raw qreq_call) (demo_two, ()) = (0, ?resp, st', ())" using h by (simp add: via_pf_def)
  ultimately show ?thesis by fastforce
qed

end
