(* ===== verification/Spec2Isabelle.thy ===== *)
theory Spec2Isabelle
  imports QdmaList ResourceSafety ContextProps CsrProps MboxHw MboxProps SoftMbox DescqC2hProps QueueCtxProps QueueLifeProps MboxLink
begin

text \<open>
  Verification of the QDMA driver library for Linux (\<^verbatim>\<open>src/QDMA/linux-kernel/driver/libqdma\<close>).

  \<^bold>\<open>The program.\<close>  A QDMA device moves data between host memory and a card through queues.  A physical
  function owns the device; virtual functions ask it, by messages through mailbox registers, for queues
  and for the programming of queue contexts.  The library has a part that is common to several operating
  systems (\<^verbatim>\<open>qdma_access\<close>): the resource manager that gives each function a range of queues, register and
  context access, and the mailbox protocol.  On top of it the driver core keeps descriptor queues: it turns
  requests of the caller into descriptors in a ring, tells the device by a producer index register, and
  reports the requests whose descriptors the device has consumed.

  \<^bold>\<open>Theories and sources.\<close>
  \<^item> \<open>Prelude\<close>: word types, generic lemmas on words, lists and maps.
  \<^item> \<open>QdmaList\<close>: \<^verbatim>\<open>qdma_list.c\<close> and \<^verbatim>\<open>qdma_list.h\<close>, on a heap of linked nodes.
  \<^item> \<open>ResourceMgmt\<close> (functions), \<open>ResourceInv\<close> (invariant), \<open>ResourceSafety\<close> (properties):
    \<^verbatim>\<open>qdma_resource_mgmt.c\<close>.
  \<^item> \<open>RegFields\<close>: the field macros and the trailing zero search of \<^verbatim>\<open>qdma_access_common.h\<close>.  \<open>RegAccess\<close>:
    polling and the indirect context commands.
  \<^item> \<open>ContextTypes\<close>, \<open>SoftContext\<close>: the contexts of a queue and their programming in
    \<^verbatim>\<open>qdma_soft_access.c\<close>.  \<open>ContextCodec\<close>, \<open>ContextProps\<close>: the bit layout and the properties.
  \<^item> \<open>SoftCsr\<close>, \<open>CsrProps\<close>: attributes, configuration arrays, index registers and initialisation in
    \<^verbatim>\<open>qdma_soft_access.c\<close>.
  \<^item> \<open>MboxTypes\<close>, \<open>MboxHandler\<close>, \<open>MboxCompose\<close>, \<open>MboxHw\<close>, \<open>MboxProps\<close>: \<^verbatim>\<open>qdma_mbox_protocol.c\<close>: messages,
    handler of the physical function, composition and reading by the virtual function, registers.
    \<open>SoftMbox\<close>: the handler on the soft IP.
  \<^item> \<open>DescqRing\<close>: ring index arithmetic of \<^verbatim>\<open>qdma_descq.h\<close>.  \<open>Descq\<close>, \<open>DescqH2c\<close>: the queues of
    \<^verbatim>\<open>qdma_descq.c\<close> and the submission of requests in \<^verbatim>\<open>libqdma_export.c\<close>.  \<open>DescqFill\<close> and \<open>DescqMm\<close>:
    what descriptors mean.  \<open>DescqRefine\<close>: the abstract queue and the device.  \<open>DescqLoop\<close>, \<open>DescqProps\<close>:
    the request loops against it.  \<open>DescqRun\<close>: whole runs of a queue, and the properties.
  \<^item> \<open>DescqC2h\<close>, \<open>DescqC2hProc\<close>, \<open>DescqC2hSetup\<close>: streaming card-to-host queues (\<^verbatim>\<open>qdma_st_c2h.c\<close>, and the
    functions for them in \<^verbatim>\<open>qdma_descq.c\<close>, \<^verbatim>\<open>libqdma_export.c\<close> and \<^verbatim>\<open>qdma_regs.c\<close>): receive buffers, reading and
    completion entries, setup.  \<open>DescqC2hRead\<close>: a read as a step of a stream.  \<open>DescqC2hInv\<close>, \<open>DescqC2hAcct\<close>:
    the accounting of the buffers and that every operation keeps it.  \<open>DescqC2hSort\<close>: the order of the
    counter thresholds.  \<open>DescqC2hProps\<close>: the properties.
  \<^item> \<open>QueueContext\<close>: \<^verbatim>\<open>qdma_context.c\<close>, the contexts made from the configuration of a queue and their
    programming, for the physical function and, through the mailbox, for a virtual function; the error table
    of \<^verbatim>\<open>qdma_platform.c\<close>.  \<open>QueueCtxProps\<close>: the properties.
  \<^item> \<open>QueueIntr\<close>: \<^verbatim>\<open>qdma_intr.c\<close>, \<^verbatim>\<open>desc_alloc_irq\<close> of \<^verbatim>\<open>qdma_descq.c\<close> and \<^verbatim>\<open>qdma_device_interrupt_setup\<close> of
    \<^verbatim>\<open>qdma_device.c\<close>: data interrupts with and without aggregation, vectors, aggregation rings, legacy interrupts.
    \<open>QueueIntrProps\<close>: the properties.
  \<^item> \<open>QueueLife\<close>: adding, configuring, starting, stopping and removing queues of a physical function
    (\<^verbatim>\<open>libqdma_export.c\<close>, \<^verbatim>\<open>qdma_device.c\<close>), on top of the resource manager, the vectors and the contexts.
    \<open>QueueLifeProps\<close>: the properties.
  \<^item> \<open>MboxThread\<close>: \<^verbatim>\<open>qdma_mbox.c\<close> and the list of virtual functions of \<^verbatim>\<open>qdma_sriov.c\<close>: messages as allocated
    objects, callers that wait, the works that send and receive, the timer.  \<open>MboxThreadProps\<close>: interleavings of
    these.  \<open>MboxLink\<close>: calls through the mailboxes of both functions and the registers between them.

  \<^bold>\<open>What is shown.\<close>
  \<^item> Linked list: every script of operations keeps the representation of a sequence; the safe iteration
    that frees its nodes reads no freed node.
  \<^item> Resource manager: the queues of a board are at all times partitioned into the ranges of its functions
    and the free list; no queue has two owners; requests are met exactly when a free run is long enough;
    counters stay within the range.  The exception is a request whose end wraps around (\<open>request_nowrap\<close>
    excludes it, and an example shows what it does).
  \<^item> Contexts and registers: what is written is read back field by field, nothing else changes, polling
    ends.  \<open>ctxt_engine\<close> and \<open>plain_regs\<close> state what the device does on the indirect commands and on
    plain registers; both are shown to be satisfiable by a concrete device.
  \<^item> Mailbox: any sequence of messages keeps the owners apart (messages whose requests wrap around, name several
    interrupt rings or read a completion context, which the message buffers cannot hold, are excluded); requests are answered to their sender; a
    queue request and a context write are followed from the virtual function to the device and back.
    \<open>mbox_wire\<close> is the contract of the mailbox registers.
  \<^item> Descriptor queues: the ring between consumer and producer index refines the sequence of outstanding
    requests, each with the descriptors that remain; a completion is consumption from that sequence
    (\<open>consume\<close>), filling is appending to it (\<open>post\<close>).  From this: descriptors ask for exactly the bytes of
    the requests, none in use is overwritten, reports are in order and complete, processing ends, and with a
    device that consumes what it gets all requests are reported.  The locale \<open>ring_device\<close> is the contract
    of the device, interpreted on the register access of the soft IP with a DMA engine; \<open>request_queue\<close> is
    the contract of the request loops, interpreted for memory-mapped and for streaming queues; \<open>desc_fill\<close>
    is that of the descriptor formats.
  \<^item> Card-to-host queues: a read moves the head of the stream of received bytes to the places of the request
    (\<open>stream_read\<close>).  The stream is what the device wrote to the addresses in the descriptors (\<open>received\<close>); the
    hypothesis is that the offsets of the driver agree with them (\<open>offsets_ok\<close>), which a read keeps for the buffers
    that still wait and the reuse of a buffer after a read in parts breaks (\<open>recycled_offset_kept\<close>).  Then: free buffers, buffers with data and one unused slot make up the ring in every reachable
    state (\<open>c2h_run\<close>).  The hypotheses are that the device uses only the buffers it was given (\<open>in_credit\<close>), that
    the default packet handler is used and that the buffer size is a power of two; for other sizes the code
    counts some packets wrongly (\<open>get_fl_nr_undercounts\<close>).
  \<^item> Context setup: on the soft IP, setting up a queue stores exactly the contexts made from its configuration
    and clears what an earlier use left; they are read back field by field.  For a virtual function the request is
    followed through composition, handler and programming: the same contexts are stored, but for the fields
    that the message does not carry.
  \<^item> Interrupts: with aggregation every entry that the device writes to the ring is handled once and in order,
    over any number of laps, and the handler returns although the device writes during its loop.  The locale
    \<open>aggr_ring\<close> is the contract of the device (it writes entries with the colour of the lap and does not
    overtake the consumer index it was told); it is interpreted on an interrupt engine that is driven by the
    index register of the soft IP.  Vectors are registered all or none; a queue gets the least loaded one.
  \<^item> Life of queues: after any sequence of operations (\<open>life_run\<close>) the states of the queues, the counts of
    the resource manager and the lists of the vectors agree (\<open>life_ok\<close>).  The hypotheses are that queues are
    added with their index and that the device answers (\<open>env_ok\<close>); without an index the wrong queue is enabled.
  \<^item> Mailbox thread: in every interleaving of callers and works (\<open>vf_reach\<close>) no freed message is used, messages are
    sent in order, and a caller that succeeds has a response to a request of its kind.  The hypothesis is that no
    caller returns while a work has its message in its hands; the code does not exclude that.  A call through idle
    mailboxes is a call of the handler of the parent (\<open>via_pf\<close>), which is how the context setup of a virtual
    function uses it.  The locale \<open>mbox_link\<close> is what the works need of the mailbox, and \<open>mbox_wires\<close> is the contract of
    the registers between the two functions; \<^verbatim>\<open>qdma_mbox_send\<close> and \<^verbatim>\<open>qdma_mbox_rcv\<close> on such registers are shown to be a
    link (a sublocale), for messages that fit the registers (\<open>carries\<close>); a register bank satisfies the contract.
  \<^item> Findings: cases in which the code does not do what it should are theorems of their own.

  \<^bold>\<open>Modelling decisions.\<close>  Machine integers are words.  A part of a function that holds a lock is atomic; a function
  that releases it in between has a definition for each part (a submission is \<open>request_enqueue\<close> followed by processing).  Outcomes of
  allocation are given by a list of booleans.  The payload of a message is a record with one member for each
  payload of the C union, without size and overlap; the header has its bits.  The measurement of round trips
  (\<^verbatim>\<open>ping_pong_en\<close>) is off.  Register reads, writes and delays of the platform, the
  completion status in host memory, the handlers of a user logic driver and the reading of register lists
  are parameters.  A request on a work list is the request itself; what the caller is told is recorded in
  the queue.

  \<^bold>\<open>Fuel.\<close>  The safe list iteration has one unit per node and one for the head.  The request loops of the
  descriptor queues have fuel because a malformed request keeps the code in the loop; for well-formed
  requests (\<open>request_ok\<close>: the count is that of the bytes in the list, no entry is empty) the bytes left to write plus the requests left (\<open>work_left\<close>) are enough, which is
  the termination property.  The loop that releases pages of receive buffers has fuel because it does not end
  when no page is in use; the default packet handler recycles buffers and does not reach it.  The loop over
  entries of an interrupt ring is a partial function; that it returns is part of the property on aggregated
  interrupts.  The loop that receives messages has fuel for the messages that arrive; two units are enough for the
  exchange of a request and its response.

  \<^bold>\<open>Not modelled.\<close>  Register dumps and error names of the IPs, and the access functions of the EQDMA, CPM4
  and CPM5 variants.  Of the driver core: stopping and cleaning up the mailbox, the assignment of queues to threads, PCI and
  device setup, the adding and removing of queues by a virtual function, debug output and the latency
  measurement; these are mostly calls of the kernel.  The character device and netlink interfaces, the
  applications, the DPDK and Windows drivers (which have their own copies of the access layer), and the XDMA
  and XVSEC drivers.
\<close>

end
